(* ===== verification/Prelude.thy ===== *)
theory Prelude
  imports Main "HOL-Library.AList" "HOL-Library.Code_Target_Nat"
begin

text \<open>
  What every component of the development shares: JavaScript strings and the few
  string operations the source uses, the error values that stand for thrown
  exceptions, the shape of an operation that may throw after having changed its
  state, and the insertion-ordered \<open>Map\<close> of the JavaScript runtime.

  A JavaScript string is a list of HOL characters, that is, of code units below
  256. White space is the part of the ECMAScript definition in that range: tab,
  line feed, vertical tab, form feed, carriage return, space, no-break space. The
  line separators U+2028 and U+2029, which some checks of the source also reject,
  have no code unit in the range.

  The theory ends with the contract of an insertion-ordered map and its
  interpretation on association lists, which represent \<open>Map\<close> throughout.
\<close>

named_theorems norm_simps \<open>unfolding rules of the validators and normalisers\<close>
named_theorems op_simps \<open>unfolding rules of the stateful operations\<close>

section \<open>Strings\<close>

text \<open>The white space removed by \<open>String.prototype.trim\<close>.\<close>

definition js_space :: "char \<Rightarrow> bool" where
  "js_space c \<longleftrightarrow> (of_char c :: nat) \<in> {9, 10, 11, 12, 13, 32, 160}"

definition js_trim :: "string \<Rightarrow> string" where
  "js_trim s = rev (dropWhile js_space (rev (dropWhile js_space s)))"

text \<open>\<open>s.slice(0, n)\<close> for a non-negative \<open>n\<close>.\<close>

abbreviation js_slice0 :: "nat \<Rightarrow> string \<Rightarrow> string" where
  "js_slice0 n s \<equiv> take n s"

text \<open>The value of \<open>s || undefined\<close> for a string: the empty string is falsy.\<close>

definition or_undef :: "string \<Rightarrow> string option" where
  "or_undef s = (if s = [] then None else Some s)"

text \<open>Truthiness of an optional string.\<close>

definition truthy :: "string option \<Rightarrow> bool" where
  "truthy x \<longleftrightarrow> x \<noteq> None \<and> x \<noteq> Some []"

text \<open>The value of \<open>x || d\<close>, where \<open>x\<close> may be undefined and \<open>d\<close> is a string.\<close>

definition or_str :: "string option \<Rightarrow> string \<Rightarrow> string" where
  "or_str x d = (case x of Some (c # cs) \<Rightarrow> c # cs | _ \<Rightarrow> d)"

text \<open>A control character of the class \<open>[\0\r\n\u2028\u2029]\<close>.\<close>

definition line_break_or_nul :: "char \<Rightarrow> bool" where
  "line_break_or_nul c \<longleftrightarrow> (of_char c :: nat) \<in> {0, 10, 13}"

definition is_alpha :: "char \<Rightarrow> bool" where
  "is_alpha c \<longleftrightarrow> (let n = (of_char c :: nat) in (65 \<le> n \<and> n \<le> 90) \<or> (97 \<le> n \<and> n \<le> 122))"

definition is_digit :: "char \<Rightarrow> bool" where
  "is_digit c \<longleftrightarrow> (let n = (of_char c :: nat) in 48 \<le> n \<and> n \<le> 57)"

text \<open>\<open>toLowerCase\<close> on code units below 256.\<close>

definition js_lower :: "char \<Rightarrow> char" where
  "js_lower c = (let n = of_char c :: nat in
     if (65 \<le> n \<and> n \<le> 90) \<or> (192 \<le> n \<and> n \<le> 222 \<and> n \<noteq> 215) then char_of (n + 32) else c)"

lemma js_trim_Nil [simp]: "js_trim [] = []"
  by (simp add: js_trim_def)

lemma or_undef_Nil [simp]: "or_undef [] = None"
  by (simp add: or_undef_def)

lemma or_undef_eq_Some [simp]: "or_undef s = Some t \<longleftrightarrow> s = t \<and> s \<noteq> []"
  by (auto simp: or_undef_def)

lemma or_undef_eq_None [simp]: "or_undef s = None \<longleftrightarrow> s = []"
  by (simp add: or_undef_def)

lemma truthy_simps [simp]: "truthy None = False" "truthy (Some s) = (s \<noteq> [])"
  by (simp_all add: truthy_def)

lemma or_str_simps [simp]: "or_str None d = d" "or_str (Some []) d = d"
  "s \<noteq> [] \<Longrightarrow> or_str (Some s) d = s"
  by (auto simp: or_str_def split: list.splits)

text \<open>
  Trimming: the result neither starts nor ends with white space, which makes trimming
  idempotent; a string is unchanged by it exactly when it has that form.
\<close>

lemma js_trim_split: "\<exists>r. dropWhile js_space s = js_trim s @ r"
proof -
  let ?d = "dropWhile js_space s"
  have "rev ?d = takeWhile js_space (rev ?d) @ dropWhile js_space (rev ?d)"
    by simp
  then have "?d = js_trim s @ rev (takeWhile js_space (rev ?d))"
    unfolding js_trim_def by (metis rev_append rev_rev_ident)
  then show ?thesis ..
qed

lemma js_trim_hd: "js_trim s \<noteq> [] \<Longrightarrow> \<not> js_space (hd (js_trim s))"
proof -
  assume ne: "js_trim s \<noteq> []"
  obtain r where r: "dropWhile js_space s = js_trim s @ r" using js_trim_split by blast
  with ne have "dropWhile js_space s \<noteq> []" by auto
  from hd_dropWhile [OF this] have "\<not> js_space (hd (dropWhile js_space s))" .
  with r ne show ?thesis by (simp add: hd_append)
qed

lemma js_trim_last: "js_trim s \<noteq> [] \<Longrightarrow> \<not> js_space (last (js_trim s))"
  unfolding js_trim_def by (simp add: last_rev hd_dropWhile)

lemma js_trim_fixed: "s \<noteq> [] \<Longrightarrow> \<not> js_space (hd s) \<Longrightarrow> \<not> js_space (last s) \<Longrightarrow> js_trim s = s"
  unfolding js_trim_def
  by (metis (no_types, lifting) dropWhile_eq_self_iff hd_rev rev_is_Nil_conv rev_rev_ident)

lemma js_trim_idem [simp]: "js_trim (js_trim s) = js_trim s"
  by (metis js_trim_Nil js_trim_fixed js_trim_hd js_trim_last)

lemma js_trim_length_le: "length (js_trim s) \<le> length s"
  unfolding js_trim_def by (metis length_dropWhile_le length_rev le_trans)

section \<open>Thrown errors\<close>

text \<open>
  An exception of the source is a value: a plain \<open>Error\<close> with its message, the
  two error classes of the Agent request contract with the fields their handlers read, an
  error with a \<open>code\<close> property, and the failure of the persistence backend.
\<close>

datatype js_error =
    Err string
  | ContractErr (ce_message: string) (ce_field: string) (ce_stage: string) (ce_code: string)
  | ReplyStateErr (re_id: string) (re_state: string) (re_reason: string)
  | CodedErr (co_code: string) (co_message: string)
  | NotSentErr
  | WriteErr

type_synonym 'a result = "js_error + 'a"

fun is_ok :: "'e + 'a \<Rightarrow> bool" where
  "is_ok (Inl _) = False"
| "is_ok (Inr _) = True"

text \<open>Sequencing of computations that may throw; \<open>check\<close> is \<open>if (!b) throw e\<close>.\<close>

definition bind :: "'e + 'a \<Rightarrow> ('a \<Rightarrow> 'e + 'b) \<Rightarrow> 'e + 'b" where
  "bind r f = (case r of Inl e \<Rightarrow> Inl e | Inr a \<Rightarrow> f a)"

definition check :: "bool \<Rightarrow> 'e \<Rightarrow> 'e + unit" where
  "check b e = (if b then Inr () else Inl e)"

lemma bind_simps [simp]: "bind (Inl e) f = Inl e" "bind (Inr a) f = f a"
  by (simp_all add: bind_def)

lemma bind_eq_Inr [simp]: "bind r f = Inr b \<longleftrightarrow> (\<exists>a. r = Inr a \<and> f a = Inr b)"
  by (cases r) auto

lemma check_eq_Inr [simp]: "check b e = Inr u \<longleftrightarrow> b"
  by (simp add: check_def)

lemma check_simps [simp]: "check True e = Inr ()" "check False e = Inl e"
  by (simp_all add: check_def)

lemma is_ok_iff: "is_ok r \<longleftrightarrow> (\<exists>a. r = Inr a)"
  by (cases r) auto

section \<open>Insertion-ordered maps\<close>

text \<open>
  \<open>Map\<close> and the objects of the source that are used as dictionaries keep their keys
  in the order of first insertion. An association list with distinct keys represents one:
  \<open>set\<close> replaces in place or appends, \<open>delete\<close> removes the entry.
  The locale states what the components rely on.
\<close>

locale ordered_map =
  fixes get :: "'m \<Rightarrow> 'k \<Rightarrow> 'v option"
    and set_at :: "'k \<Rightarrow> 'v \<Rightarrow> 'm \<Rightarrow> 'm"
    and remove :: "'k \<Rightarrow> 'm \<Rightarrow> 'm"
    and keys :: "'m \<Rightarrow> 'k list"
    and inv :: "'m \<Rightarrow> bool"
  assumes get_set: "get (set_at k v m) = (get m)(k \<mapsto> v)"
    and get_remove: "get (remove k m) = (get m)(k := None)"
    and keys_set: "keys (set_at k v m) = (if k \<in> List.set (keys m) then keys m else keys m @ [k])"
    and keys_remove: "keys (remove k m) = filter (\<lambda>j. j \<noteq> k) (keys m)"
    and keys_dom: "List.set (keys m) = dom (get m)"
    and inv_keys: "inv m \<longleftrightarrow> distinct (keys m)"
begin

lemma inv_set: "inv m \<Longrightarrow> inv (set_at k v m)"
  by (simp add: inv_keys keys_set)

lemma inv_remove: "inv m \<Longrightarrow> inv (remove k m)"
  by (simp add: inv_keys keys_remove)

lemma set_existing_keeps_order: "get m k = Some w \<Longrightarrow> keys (set_at k v m) = keys m"
  by (simp add: keys_set keys_dom domI)

lemma set_back: "get m k = Some w \<Longrightarrow> get (set_at k w (set_at k v m)) = get m"
  by (auto simp: get_set fun_eq_iff)

lemma remove_fresh_set: "get m k = None \<Longrightarrow> get (remove k (set_at k v m)) = get m"
  by (auto simp: get_set get_remove fun_eq_iff)

lemma remove_fresh_set_keys: "get m k = None \<Longrightarrow> keys (remove k (set_at k v m)) = keys m"
  using keys_dom [of m] by (auto simp: keys_set keys_remove filter_id_conv dest: domD)

end

interpretation js_map: ordered_map map_of AList.update AList.delete "map fst" "\<lambda>m. distinct (map fst m)"
proof
  fix m :: "('a \<times> 'b) list" and k v
  show "map_of (AList.update k v m) = (map_of m)(k \<mapsto> v)" by (rule update_conv')
  show "map_of (AList.delete k m) = (map_of m)(k := None)" by (rule delete_conv')
  show "map fst (AList.update k v m) = (if k \<in> set (map fst m) then map fst m else map fst m @ [k])"
    by (rule update_keys)
  show "map fst (AList.delete k m) = filter (\<lambda>j. j \<noteq> k) (map fst m)"
    by (induction m) auto
  show "set (map fst m) = dom (map_of m)" by (simp add: dom_map_of_conv_image_fst)
  show "distinct (map fst m) \<longleftrightarrow> distinct (map fst m)" ..
qed

text \<open>The records of a map, in order: \<open>[...m.values()]\<close>.\<close>

abbreviation map_values :: "('k \<times> 'v) list \<Rightarrow> 'v list" where
  "map_values m \<equiv> map snd m"

lemma map_values_mem: "distinct (map fst m) \<Longrightarrow> v \<in> set (map_values m) \<longleftrightarrow> (\<exists>k. map_of m k = Some v)"
  by force

section \<open>Writing a file\<close>

text \<open>
  How a write of the file system ends: done; failed with nothing changed; or interrupted, when
  the file has changed but the writer throws.
\<close>

datatype file_write = Written | NotWritten | Interrupted

section \<open>Two contracts of the data layer\<close>

text \<open>
  A normaliser reads a value of unknown shape and returns a typed one, or throws. What its
  clients rely on: everything it returns is well formed, and a well-formed typed value, read
  again, is returned unchanged.
\<close>

locale normaliser =
  fixes norm :: "'v \<Rightarrow> 'e + 'a"
    and obj :: "'a \<Rightarrow> 'v"
    and ok :: "'a \<Rightarrow> bool"
  assumes norm_sound: "norm v = Inr a \<Longrightarrow> ok a"
    and norm_complete: "ok a \<Longrightarrow> norm (obj a) = Inr a"
begin

lemma norm_idem: "norm v = Inr a \<Longrightarrow> norm (obj a) = Inr a"
  by (simp add: norm_complete norm_sound)

lemma norm_fixed_iff: "norm (obj a) = Inr a \<longleftrightarrow> ok a"
  using norm_complete norm_sound by blast

lemma norm_range: "range norm \<inter> range Inr = Inr ` {a. ok a}"
  using norm_complete norm_sound by (auto simp: image_iff) (metis rangeI)

end

text \<open>
  A comparison of optional values that holds exactly when both are present and agree on a
  key: a partial equivalence, whose classes are the keys.
\<close>

locale keyed_identity =
  fixes same :: "'a option \<Rightarrow> 'a option \<Rightarrow> bool"
    and key :: "'a \<Rightarrow> 'k"
  assumes same_key: "same x y \<longleftrightarrow> (\<exists>a b. x = Some a \<and> y = Some b \<and> key a = key b)"
begin

lemma same_Some: "same (Some a) (Some b) \<longleftrightarrow> key a = key b"
  by (simp add: same_key)

lemma same_refl: "same x x \<longleftrightarrow> x \<noteq> None"
  by (auto simp: same_key)

lemma same_sym: "same x y \<longleftrightarrow> same y x"
  by (auto simp: same_key)

lemma same_trans: "same x y \<Longrightarrow> same y z \<Longrightarrow> same x z"
  by (auto simp: same_key)

lemma same_present: "same x y \<Longrightarrow> x \<noteq> None \<and> y \<noteq> None"
  by (auto simp: same_key)

end

section \<open>Budgets\<close>

text \<open>
  The contract of a component that hands something over a bounded number of times: its steps extend a trace, in
  which hand-overs and reports are counted, and the state says how many more hand-overs it
  would allow for a key. A step hands over only what is allowed, and allows more only by what it reports.
\<close>

locale hand_over_budget =
  fixes step :: "'s \<Rightarrow> 's \<Rightarrow> bool"
    and trace :: "'s \<Rightarrow> 'e list"
    and spare :: "'s \<Rightarrow> 'k \<Rightarrow> nat"
    and granted :: "'k \<Rightarrow> 'e list \<Rightarrow> nat"
    and reported :: "'k \<Rightarrow> 'e list \<Rightarrow> nat"
  assumes granted_append: "granted k (es @ fs) = granted k es + granted k fs"
    and reported_append: "reported k (es @ fs) = reported k es + reported k fs"
    and step_budget: "step s t \<Longrightarrow> \<exists>new. trace t = trace s @ new
       \<and> spare t k + granted k new \<le> spare s k + reported k new"
begin

lemma run_budget:
  assumes "step\<^sup>*\<^sup>* s t"
  shows "\<exists>new. trace t = trace s @ new \<and> spare t k + granted k new \<le> spare s k + reported k new"
  using assms
proof (induction rule: rtranclp_induct)
  case base
  have "granted k [] = 0" using granted_append [of k "[]" "[]"] by simp
  then show ?case by (intro exI [of _ "[]"]) simp
next
  case (step t u)
  from step.IH obtain es where es: "trace t = trace s @ es"
      "spare t k + granted k es \<le> spare s k + reported k es" by blast
  from step_budget [OF step.hyps(2), of k] obtain fs where fs: "trace u = trace t @ fs"
      "spare u k + granted k fs \<le> spare t k + reported k fs" by blast
  from es fs show ?case
    by (intro exI [of _ "es @ fs"]) (simp add: granted_append reported_append)
qed

lemma granted_bound:
  assumes "step\<^sup>*\<^sup>* s t" "trace s = []"
  shows "granted k (trace t) \<le> reported k (trace t) + spare s k"
proof -
  obtain new where "trace t = trace s @ new" "spare t k + granted k new \<le> spare s k + reported k new"
    using run_budget [OF assms(1)] by blast
  with assms(2) show ?thesis by simp
qed

end

end
