(* ===== verification/Json.thy ===== *)
theory Json
  imports Prelude
begin

text \<open>
  JavaScript values as the validators of the source receive them (\<open>unknown\<close>
  parameters, parsed JSON) and \<open>JSON.stringify\<close>, which the source uses to build
  identity strings and hash inputs.

  A number is represented by its canonical decimal text, the text
  \<open>String(n)\<close> and \<open>JSON.stringify(n)\<close> give. An object is the list of its
  own properties in order. The main result is that \<open>JSON.stringify\<close> is injective
  on the values without \<open>undefined\<close>, so that comparing two serialised identities
  compares the identities.
\<close>

datatype jval =
    JUndef
  | JNull
  | JBool bool
  | JNum string
  | JStr string
  | JArr "jval list"
  | JObj "(string \<times> jval) list"

text \<open>
  Property access \<open>v.k\<close>. A primitive or an array has none of the properties the
  source asks for; the guards of the source exclude \<open>null\<close> and
  \<open>undefined\<close>, where the access itself would throw.
\<close>

fun jget :: "jval \<Rightarrow> string \<Rightarrow> jval" where
  "jget (JObj fs) k = (case map_of fs k of Some v \<Rightarrow> v | None \<Rightarrow> JUndef)"
| "jget _ k = JUndef"

fun jkeys :: "jval \<Rightarrow> string list" where
  "jkeys (JObj fs) = map fst fs"
| "jkeys _ = []"

text \<open>\<open>typeof v === "string"\<close>, with the string.\<close>

fun as_string :: "jval \<Rightarrow> string option" where
  "as_string (JStr s) = Some s"
| "as_string _ = None"

fun is_object :: "jval \<Rightarrow> bool" where
  "is_object (JObj _) = True"
| "is_object _ = False"

fun js_truthy :: "jval \<Rightarrow> bool" where
  "js_truthy JUndef = False"
| "js_truthy JNull = False"
| "js_truthy (JBool b) = b"
| "js_truthy (JNum t) = (t \<noteq> ''0'' \<and> t \<noteq> ''NaN'')"
| "js_truthy (JStr s) = (s \<noteq> [])"
| "js_truthy (JArr _) = True"
| "js_truthy (JObj _) = True"

text \<open>\<open>cleanText\<close>-style reading: an optional string as a value.\<close>

definition opt_str :: "string option \<Rightarrow> jval" where
  "opt_str x = (case x of None \<Rightarrow> JUndef | Some s \<Rightarrow> JStr s)"

text \<open>
  \<open>String(v)\<close>: an array joins its elements with commas, where \<open>null\<close> and
  \<open>undefined\<close> elements are empty.
\<close>

fun js_join :: "string list \<Rightarrow> string" where
  "js_join [] = []"
| "js_join [x] = x"
| "js_join (x # y # zs) = x @ '','' @ js_join (y # zs)"

fun js_String :: "jval \<Rightarrow> string" where
  "js_String JUndef = ''undefined''"
| "js_String JNull = ''null''"
| "js_String (JBool b) = (if b then ''true'' else ''false'')"
| "js_String (JNum t) = t"
| "js_String (JStr s) = s"
| "js_String (JArr vs) = js_join (map (\<lambda>v. if v = JUndef \<or> v = JNull then [] else js_String v) vs)"
| "js_String (JObj _) = ''[object Object]''"

lemma jget_simps [simp]:
  "jget (JObj []) k = JUndef"
  "jget (JObj ((j, v) # fs)) k = (if j = k then v else jget (JObj fs) k)"
  by simp_all

lemma as_string_eq_Some [simp]: "as_string v = Some s \<longleftrightarrow> v = JStr s"
  by (cases v) auto

lemma opt_str_simps [simp]: "opt_str None = JUndef" "opt_str (Some s) = JStr s"
  by (simp_all add: opt_str_def)

section \<open>String literals of JSON\<close>

definition hex_digit :: "nat \<Rightarrow> char" where
  "hex_digit k = (if k < 10 then char_of (48 + k) else char_of (87 + k))"

definition json_esc :: "char \<Rightarrow> string" where
  "json_esc c = (let n = (of_char c :: nat) in
     if n = 34 then [CHR 0x5C, CHR 0x22]
     else if n = 92 then [CHR 0x5C, CHR 0x5C]
     else if n = 8 then [CHR 0x5C, CHR ''b'']
     else if n = 9 then [CHR 0x5C, CHR ''t'']
     else if n = 10 then [CHR 0x5C, CHR ''n'']
     else if n = 12 then [CHR 0x5C, CHR ''f'']
     else if n = 13 then [CHR 0x5C, CHR ''r'']
     else if n < 32 then [CHR 0x5C, CHR ''u'', CHR ''0'', CHR ''0'', hex_digit (n div 16), hex_digit (n mod 16)]
     else [c])"

definition json_quote :: "string \<Rightarrow> string" where
  "json_quote s = CHR 0x22 # concat (map json_esc s) @ [CHR 0x22]"

text \<open>A decoder of one escaped character, which shows that the escapes form a prefix code.\<close>

definition hex_value :: "char \<Rightarrow> nat" where
  "hex_value c = (let n = of_char c in if n < 58 then n - 48 else n - 87)"

fun json_unesc :: "string \<Rightarrow> char \<times> string" where
  "json_unesc (c # cs) =
    (if c \<noteq> CHR 0x5C then (c, cs)
     else case cs of
       [] \<Rightarrow> (c, [])
     | d # ds \<Rightarrow>
         if d = CHR ''b'' then (char_of (8::nat), ds)
         else if d = CHR ''t'' then (char_of (9::nat), ds)
         else if d = CHR ''n'' then (char_of (10::nat), ds)
         else if d = CHR ''f'' then (char_of (12::nat), ds)
         else if d = CHR ''r'' then (char_of (13::nat), ds)
         else if d = CHR ''u'' then (char_of (16 * hex_value (ds ! 2) + hex_value (ds ! 3)), drop 4 ds)
         else (d, ds))"
| "json_unesc [] = (CHR 0x5C, [])"

lemma hex_value_digit: "k < 16 \<Longrightarrow> hex_value (hex_digit k) = k"
  by (auto simp: hex_value_def hex_digit_def Let_def)

lemma char_of_quote: "char_of (34::nat) = CHR 0x22"
  by code_simp

lemma char_of_backslash: "char_of (92::nat) = CHR 0x5C"
  by code_simp

lemma json_unesc_esc: "json_unesc (json_esc c @ r) = (c, r)"
proof -
  define n where "n = (of_char c :: nat)"
  have c: "c = char_of n" by (simp add: n_def)
  have eqs: "n = 16 * (n div 16) + n mod 16" by simp
  consider "n \<in> {8, 9, 10, 12, 13, 34, 92}"
    | "n < 32" "n \<notin> {8, 9, 10, 12, 13, 34, 92}"
    | "32 \<le> n" "n \<notin> {8, 9, 10, 12, 13, 34, 92}"
    by linarith
  then show ?thesis
  proof cases
    case 1
    then have "c \<in> {char_of (8::nat), char_of (9::nat), char_of (10::nat), char_of (12::nat),
        char_of (13::nat), char_of (34::nat), char_of (92::nat)}" unfolding c by auto
    then show ?thesis by (elim insertE emptyE) (simp_all add: json_esc_def char_of_quote char_of_backslash)
  next
    case 2
    then have "json_esc c = [CHR 0x5C, CHR ''u'', CHR ''0'', CHR ''0'', hex_digit (n div 16), hex_digit (n mod 16)]"
      by (simp add: json_esc_def n_def [symmetric])
    moreover have "hex_value (hex_digit (n div 16)) = n div 16" "hex_value (hex_digit (n mod 16)) = n mod 16"
      using 2 by (auto intro!: hex_value_digit)
    ultimately show ?thesis using c by (simp add: numeral_2_eq_2 numeral_3_eq_3)
  next
    case 3
    then have "json_esc c = [c]" by (simp add: json_esc_def n_def [symmetric])
    moreover have "c \<noteq> CHR 0x5C" using 3 by (auto simp: n_def)
    ultimately show ?thesis by simp
  qed
qed

lemma json_esc_not_quote: "\<exists>d ds. json_esc c = d # ds \<and> d \<noteq> CHR 0x22"
  by (auto simp: json_esc_def Let_def)

lemma json_esc_inj: "json_esc c @ r = json_esc d @ t \<Longrightarrow> c = d \<and> r = t"
  by (metis json_unesc_esc prod.inject)

lemma json_escs_inj:
  "concat (map json_esc s) @ CHR 0x22 # r = concat (map json_esc t) @ CHR 0x22 # q \<Longrightarrow> s = t \<and> r = q"
proof (induction s arbitrary: t)
  case Nil
  then show ?case using json_esc_not_quote [of "hd t"] by (cases t) auto
next
  case (Cons c s)
  show ?case
  proof (cases t)
    case Nil
    with Cons.prems show ?thesis using json_esc_not_quote [of c] by auto
  next
    case (Cons d u)
    with Cons.prems have "json_esc c @ (concat (map json_esc s) @ CHR 0x22 # r)
        = json_esc d @ (concat (map json_esc u) @ CHR 0x22 # q)" by simp
    from json_esc_inj [OF this] Cons.IH Cons show ?thesis by blast
  qed
qed

lemma json_quote_inj: "json_quote s @ r = json_quote t @ q \<Longrightarrow> s = t \<and> r = q"
  using json_escs_inj [of s r t q] by (simp add: json_quote_def)

section \<open>JSON.stringify\<close>

text \<open>
  An \<open>undefined\<close> property is omitted, an \<open>undefined\<close> array element is
  rendered as \<open>null\<close>. \<open>json_items\<close> renders the elements of a bracketed
  list, separated by commas and closed by \<open>c\<close>.
\<close>

fun json_tail :: "char \<Rightarrow> string list \<Rightarrow> string" where
  "json_tail c [] = [c]"
| "json_tail c (x # xs) = CHR '','' # x @ json_tail c xs"

fun json_items :: "char \<Rightarrow> string list \<Rightarrow> string" where
  "json_items c [] = [c]"
| "json_items c (x # xs) = x @ json_tail c xs"

fun stringify :: "jval \<Rightarrow> string" where
  "stringify JUndef = ''null''"
| "stringify JNull = ''null''"
| "stringify (JBool b) = (if b then ''true'' else ''false'')"
| "stringify (JNum t) = (if t = ''NaN'' then ''null'' else t)"
| "stringify (JStr s) = json_quote s"
| "stringify (JArr vs) = CHR ''['' # json_items (CHR '']'') (map stringify vs)"
| "stringify (JObj fs) = CHR ''{'' # json_items (CHR ''}'')
     (map (\<lambda>(k, v). json_quote k @ CHR '':'' # stringify v) (filter (\<lambda>(k, v). v \<noteq> JUndef) fs))"

text \<open>
  The values that are serialised: no \<open>undefined\<close>, and every number is given by a
  non-empty text of the characters of JSON numbers.
\<close>

definition num_char :: "char \<Rightarrow> bool" where
  "num_char c \<longleftrightarrow> c \<in> set ''0123456789+-.eE''"

definition num_text :: "string \<Rightarrow> bool" where
  "num_text t \<longleftrightarrow> t \<noteq> [] \<and> list_all num_char t \<and> hd t \<in> set ''-0123456789''"

fun json_pure :: "jval \<Rightarrow> bool" where
  "json_pure JUndef = False"
| "json_pure JNull = True"
| "json_pure (JBool _) = True"
| "json_pure (JNum t) = num_text t"
| "json_pure (JStr _) = True"
| "json_pure (JArr vs) = list_all json_pure vs"
| "json_pure (JObj fs) = list_all (\<lambda>(k, v). json_pure v) fs"

text \<open>What may follow a value: nothing, a comma, or a closing bracket.\<close>

definition json_follow :: "string \<Rightarrow> bool" where
  "json_follow r \<longleftrightarrow> r = [] \<or> hd r \<in> set '',]}''"

lemma json_follow_tail [simp]:
  "json_follow (json_tail (CHR '']'') xs @ r)" "json_follow (json_tail (CHR ''}'') xs @ r)"
  by (cases xs; simp add: json_follow_def)+

lemma num_text_inj:
  assumes "num_text t" "num_text u" "t @ r = u @ q" "json_follow r" "json_follow q"
  shows "t = u \<and> r = q"
proof -
  have stop: "takeWhile num_char (x @ y) = x" if "num_text x" "json_follow y" for x y
  proof -
    have "takeWhile num_char y = []"
      using that(2) by (cases y) (auto simp: json_follow_def num_char_def)
    with that(1) show ?thesis
      by (simp add: num_text_def list_all_iff takeWhile_append2)
  qed
  have "t = u" using assms stop [of t r] stop [of u q] by simp
  with assms(3) show ?thesis by simp
qed

lemma json_heads:
  "hd (stringify (JStr s)) = CHR 0x22" "hd (stringify (JArr vs)) = CHR ''[''"
  "hd (stringify (JObj fs)) = CHR ''{''" "hd (stringify (JBool True)) = CHR ''t''"
  "hd (stringify (JBool False)) = CHR ''f''" "hd (stringify JNull) = CHR ''n''"
  by (simp_all add: json_quote_def)

text \<open>
  The rendering of a bracketed list determines its elements, when the rendering \<open>f\<close>
  of one element does, before anything that may follow it.
\<close>

definition render_inj :: "('a \<Rightarrow> string) \<Rightarrow> 'a \<Rightarrow> 'a \<Rightarrow> bool" where
  "render_inj f x y \<longleftrightarrow> (\<forall>r q. json_follow r \<longrightarrow> json_follow q \<longrightarrow> f x @ r = f y @ q \<longrightarrow> x = y \<and> r = q)"

lemma json_tail_inj:
  assumes "c = CHR '']'' \<or> c = CHR ''}''"
    and "\<And>x y. x \<in> set xs \<Longrightarrow> y \<in> set ys \<Longrightarrow> render_inj f x y"
    and "json_tail c (map f xs) @ r = json_tail c (map f ys) @ q"
  shows "xs = ys \<and> r = q"
  using assms(2,3)
proof (induction xs arbitrary: ys)
  case Nil
  then show ?case using assms(1) by (cases ys) auto
next
  case (Cons x xs)
  then obtain y zs where ys: "ys = y # zs" using assms(1) by (cases ys) auto
  with Cons.prems(2) have eq: "f x @ (json_tail c (map f xs) @ r) = f y @ (json_tail c (map f zs) @ q)"
    by simp
  have "render_inj f x y" using Cons.prems(1) ys by simp
  moreover have "json_follow (json_tail c (map f xs) @ r)" "json_follow (json_tail c (map f zs) @ q)"
    using assms(1) by auto
  ultimately have "x = y" "json_tail c (map f xs) @ r = json_tail c (map f zs) @ q"
    using eq unfolding render_inj_def by blast+
  with Cons.IH [of zs] Cons.prems(1) ys show ?case by auto
qed

lemma json_items_inj:
  assumes c: "c = CHR '']'' \<or> c = CHR ''}''"
    and inj: "\<And>x y. x \<in> set xs \<Longrightarrow> y \<in> set ys \<Longrightarrow> render_inj f x y"
    and hd: "\<And>x. x \<in> set xs \<union> set ys \<Longrightarrow> \<exists>d ds. f x = d # ds \<and> d \<noteq> c"
    and eq: "json_items c (map f xs) @ r = json_items c (map f ys) @ q"
  shows "xs = ys \<and> r = q"
proof (cases xs)
  case Nil
  then show ?thesis using eq hd [of "hd ys"] by (cases ys) auto
next
  case (Cons x xs')
  note xs = this
  show ?thesis
  proof (cases ys)
    case Nil
    then show ?thesis using eq hd [of x] xs by auto
  next
    case (Cons y ys')
    have "render_inj f x y" using inj xs Cons by simp
    moreover have "json_follow (json_tail c (map f xs') @ r)" "json_follow (json_tail c (map f ys') @ q)"
      using c by auto
    moreover have "f x @ (json_tail c (map f xs') @ r) = f y @ (json_tail c (map f ys') @ q)"
      using eq xs Cons by simp
    ultimately have "x = y" "json_tail c (map f xs') @ r = json_tail c (map f ys') @ q"
      unfolding render_inj_def by blast+
    with json_tail_inj [OF c, of xs' ys' f r q] inj xs Cons show ?thesis by simp
  qed
qed

lemma stringify_head:
  "json_pure v \<Longrightarrow> \<exists>d ds. stringify v = d # ds \<and> d \<noteq> CHR '']'' \<and> d \<noteq> CHR ''}''"
  by (cases v) (auto simp: json_quote_def num_text_def neq_Nil_conv)

text \<open>The first character tells the constructors apart.\<close>

datatype jtag = TNull | TTrue | TFalse | TNum | TStr | TArr | TObj

fun jtag_of :: "jval \<Rightarrow> jtag" where
  "jtag_of (JBool b) = (if b then TTrue else TFalse)"
| "jtag_of (JNum _) = TNum"
| "jtag_of (JStr _) = TStr"
| "jtag_of (JArr _) = TArr"
| "jtag_of (JObj _) = TObj"
| "jtag_of _ = TNull"

definition tag_char :: "char \<Rightarrow> jtag" where
  "tag_char d = (if d = CHR ''n'' then TNull else if d = CHR ''t'' then TTrue else if d = CHR ''f'' then TFalse
    else if d = CHR 0x22 then TStr else if d = CHR ''['' then TArr else if d = CHR ''{'' then TObj else TNum)"

lemma stringify_tag: "json_pure v \<Longrightarrow> tag_char (hd (stringify v @ r)) = jtag_of v"
  by (cases v) (auto simp: tag_char_def json_quote_def num_text_def neq_Nil_conv)

lemma field_render_inj:
  assumes "render_inj stringify v u"
  shows "render_inj (\<lambda>(k, v). json_quote k @ CHR '':'' # stringify v) (a, v) (b, u)"
  unfolding render_inj_def
proof (intro allI impI)
  fix r q
  assume f: "json_follow r" "json_follow q"
    and eq: "(case (a, v) of (k, v) \<Rightarrow> json_quote k @ CHR '':'' # stringify v) @ r
      = (case (b, u) of (k, v) \<Rightarrow> json_quote k @ CHR '':'' # stringify v) @ q"
  from eq have "json_quote a @ (CHR '':'' # stringify v @ r) = json_quote b @ (CHR '':'' # stringify u @ q)"
    by simp
  from json_quote_inj [OF this] have "a = b" "stringify v @ r = stringify u @ q" by auto
  with assms f show "(a, v) = (b, u) \<and> r = q" unfolding render_inj_def by blast
qed

lemma stringify_same_tag:
  "stringify v @ r = stringify w @ q \<Longrightarrow> json_pure v \<Longrightarrow> json_pure w \<Longrightarrow> jtag_of v = jtag_of w"
  using stringify_tag [of v r] stringify_tag [of w q] by simp

lemma stringify_render_inj: "json_pure v \<Longrightarrow> json_pure w \<Longrightarrow> render_inj stringify v w"
proof (induction v arbitrary: w)
  case (JArr vs)
  show ?case unfolding render_inj_def
  proof (intro allI impI)
    fix r q assume eq: "stringify (JArr vs) @ r = stringify w @ q"
    from JArr.prems obtain ws where w: "w = JArr ws"
      using stringify_same_tag [OF eq] by (cases w) (auto split: if_splits)
    have "render_inj stringify x y" if "x \<in> set vs" "y \<in> set ws" for x y
      using JArr.IH [OF that(1), of y] JArr.prems that w by (simp add: list_all_iff)
    moreover have "\<exists>d ds. stringify x = d # ds \<and> d \<noteq> CHR '']''" if "x \<in> set vs \<union> set ws" for x
      using JArr.prems that w stringify_head [of x] by (auto simp: list_all_iff)
    ultimately show "JArr vs = w \<and> r = q"
      using json_items_inj [of "CHR '']''" vs ws stringify r q] eq w by simp
  qed
next
  case (JObj fs)
  let ?f = "\<lambda>(k, v). json_quote k @ CHR '':'' # stringify v"
  show ?case unfolding render_inj_def
  proof (intro allI impI)
    fix r q assume eq: "stringify (JObj fs) @ r = stringify w @ q"
    from JObj.prems obtain gs where w: "w = JObj gs"
      using stringify_same_tag [OF eq] by (cases w) (auto split: if_splits)
    have pure: "json_pure (snd p)" if "p \<in> set fs \<union> set gs" for p
      using JObj.prems that w by (auto simp: list_all_iff)
    then have "filter (\<lambda>(k, v). v \<noteq> JUndef) fs = fs" "filter (\<lambda>(k, v). v \<noteq> JUndef) gs = gs"
      by (auto simp: filter_id_conv) (metis UnCI json_pure.simps(1) snd_conv)+
    moreover have "render_inj ?f x y" if "x \<in> set fs" "y \<in> set gs" for x y
    proof -
      obtain a v b u where xy: "x = (a, v)" "y = (b, u)" by (cases x, cases y)
      have "render_inj stringify v u" using JObj.IH [of x v u] that xy pure by fastforce
      then show ?thesis unfolding xy by (rule field_render_inj)
    qed
    moreover have "\<exists>d ds. ?f x = d # ds \<and> d \<noteq> CHR ''}''" for x
      by (cases x) (simp add: json_quote_def)
    ultimately show "JObj fs = w \<and> r = q"
      using json_items_inj [of "CHR ''}''" fs gs ?f r q] eq w by simp
  qed
next
  case (JNum t)
  show ?case unfolding render_inj_def
  proof (intro allI impI)
    fix r q assume f: "json_follow r" "json_follow q" and eq: "stringify (JNum t) @ r = stringify w @ q"
    from JNum.prems obtain u where w: "w = JNum u"
      using stringify_same_tag [OF eq] by (cases w) (auto split: if_splits)
    have "t \<noteq> ''NaN''" "u \<noteq> ''NaN''" using JNum.prems w by (auto simp: num_text_def)
    with num_text_inj [of t u r q] JNum.prems f eq w show "JNum t = w \<and> r = q" by simp
  qed
next
  case (JStr s)
  show ?case unfolding render_inj_def
  proof (intro allI impI)
    fix r q assume eq: "stringify (JStr s) @ r = stringify w @ q"
    from JStr.prems obtain t where w: "w = JStr t"
      using stringify_same_tag [OF eq] by (cases w) (auto split: if_splits)
    with json_quote_inj [of s r t q] eq show "JStr s = w \<and> r = q" by simp
  qed
next
  case (JBool b)
  show ?case unfolding render_inj_def
  proof (intro allI impI)
    fix r q assume eq: "stringify (JBool b) @ r = stringify w @ q"
    from JBool.prems have "w = JBool b"
      using stringify_same_tag [OF eq] by (cases w) (auto split: if_splits)
    with eq show "JBool b = w \<and> r = q" by simp
  qed
next
  case JNull
  show ?case unfolding render_inj_def
  proof (intro allI impI)
    fix r q assume eq: "stringify JNull @ r = stringify w @ q"
    from JNull.prems have "w = JNull"
      using stringify_same_tag [OF eq] by (cases w) (auto split: if_splits)
    with eq show "JNull = w \<and> r = q" by simp
  qed
qed simp

lemma stringify_inj:
  "json_pure v \<Longrightarrow> json_pure w \<Longrightarrow> stringify v = stringify w \<Longrightarrow> v = w"
  using stringify_render_inj [of v w] unfolding render_inj_def
  by (metis append_Nil2 json_follow_def)

end
