(* ===== verification/Endpoint.thy ===== *)
theory Endpoint
  imports Json
begin

text \<open>
  The addresses of Agent requests (\<open>src/src/agentRequests/endpoint.ts\<close>): the
  executable endpoint, the admitted connection, the delivery source that is one or the
  other, and the party of a request. The validators read a value of unknown shape and
  return the typed record; the identity functions serialise part of it.

  \<open>sameCodexWorkspace\<close> compares canonical paths. The canonical path comes from the
  file system (\<open>realpath\<close>, drive aliases), so it is the parameter \<open>canon\<close>.
\<close>

record endpoint =
  ep_kind :: string
  ep_managerInstanceId :: string
  ep_ownerDeviceId :: "string option"
  ep_ledgerOwnerDeviceId :: "string option"
  ep_instanceId :: "string option"
  ep_nodeId :: "string option"
  ep_agentId :: string
  ep_provider :: string
  ep_sessionId :: string
  ep_authorizationIncarnation :: string

record connection =
  cn_managerInstanceId :: string
  cn_transport :: string
  cn_id :: string
  cn_ledgerOwnerDeviceId :: "string option"
  cn_authorizationIncarnation :: "string option"

datatype delivery_source = EndpointSource endpoint | ConnectionSource connection

record party =
  pa_endpoint :: "endpoint option"
  pa_connection :: "connection option"
  pa_agentAdapter :: "string option"
  pa_threadId :: string
  pa_agentType :: string
  pa_threadName :: "string option"
  pa_workspace :: "string option"

section \<open>Endpoints and connections as objects\<close>

definition opt_field :: "string \<Rightarrow> string option \<Rightarrow> (string \<times> string) list" where
  "opt_field k x = (case x of None \<Rightarrow> [] | Some s \<Rightarrow> [(k, s)])"

definition endpoint_fields :: "endpoint \<Rightarrow> (string \<times> string) list" where
  "endpoint_fields e =
     [(''kind'', ep_kind e), (''managerInstanceId'', ep_managerInstanceId e)]
     @ opt_field ''ownerDeviceId'' (ep_ownerDeviceId e)
     @ opt_field ''ledgerOwnerDeviceId'' (ep_ledgerOwnerDeviceId e)
     @ opt_field ''instanceId'' (ep_instanceId e)
     @ opt_field ''nodeId'' (ep_nodeId e)
     @ [(''agentId'', ep_agentId e), (''provider'', ep_provider e), (''sessionId'', ep_sessionId e),
        (''authorizationIncarnation'', ep_authorizationIncarnation e)]"

definition connection_fields :: "connection \<Rightarrow> (string \<times> string) list" where
  "connection_fields c =
     [(''kind'', ''connection''), (''managerInstanceId'', cn_managerInstanceId c),
      (''transport'', cn_transport c), (''id'', cn_id c)]
     @ opt_field ''ledgerOwnerDeviceId'' (cn_ledgerOwnerDeviceId c)
     @ opt_field ''authorizationIncarnation'' (cn_authorizationIncarnation c)"

definition string_object :: "(string \<times> string) list \<Rightarrow> jval" where
  "string_object fs = JObj (map (\<lambda>(k, s). (k, JStr s)) fs)"

definition endpoint_json :: "endpoint \<Rightarrow> jval" where
  "endpoint_json e = string_object (endpoint_fields e)"

definition connection_json :: "connection \<Rightarrow> jval" where
  "connection_json c = string_object (connection_fields c)"

section \<open>Validation\<close>

text \<open>A required field as a string; it is read after its check.\<close>

definition jstr :: "jval \<Rightarrow> string \<Rightarrow> string" where
  "jstr v k = (case as_string (jget v k) of Some s \<Rightarrow> s | None \<Rightarrow> [])"

definition jstr_nonempty :: "jval \<Rightarrow> string \<Rightarrow> string option" where
  "jstr_nonempty v k = or_undef (jstr v k)"

definition complete_field :: "jval \<Rightarrow> bool" where
  "complete_field v = (case as_string v of None \<Rightarrow> False
     | Some s \<Rightarrow> js_trim s \<noteq> [] \<and> s = js_trim s \<and> length s \<le> 4096)"

definition device_id_char :: "char \<Rightarrow> bool" where
  "device_id_char c \<longleftrightarrow> is_alpha c \<or> is_digit c \<or> c \<in> set ''._:-''"

text \<open>\<open>/^[A-Za-z0-9][A-Za-z0-9._:-]{0,191}$/\<close>\<close>

definition device_id_ok :: "string \<Rightarrow> bool" where
  "device_id_ok s = (case s of [] \<Rightarrow> False
     | c # cs \<Rightarrow> (is_alpha c \<or> is_digit c) \<and> list_all device_id_char cs \<and> length cs \<le> 191)"

definition optional_device_id :: "jval \<Rightarrow> bool" where
  "optional_device_id v \<longleftrightarrow> v = JUndef \<or> (case as_string v of None \<Rightarrow> False | Some s \<Rightarrow> device_id_ok s)"

fun check_fields :: "(string \<Rightarrow> bool) \<Rightarrow> (string \<Rightarrow> js_error) \<Rightarrow> string list \<Rightarrow> unit result" where
  "check_fields ok e [] = Inr ()"
| "check_fields ok e (k # ks) = (if ok k then check_fields ok e ks else Inl (e k))"

lemma check_fields_eq_Inr [simp]: "check_fields ok e ks = Inr u \<longleftrightarrow> list_all ok ks"
  by (induction ks) auto

definition endpoint_kinds :: "string list" where
  "endpoint_kinds = [''local'', ''instance'', ''device'', ''service'']"

definition normalizeAgentRequestEndpoint :: "jval \<Rightarrow> endpoint result" where
  "normalizeAgentRequestEndpoint v =
    (let kind = jstr v ''kind'' in
     bind (check (js_truthy v \<and> (case as_string (jget v ''kind'') of None \<Rightarrow> False | Some k \<Rightarrow> k \<in> set endpoint_kinds))
            (Err ''Invalid Agent endpoint kind.'')) (\<lambda>_.
     bind (check_fields (\<lambda>k. complete_field (jget v k)) (\<lambda>k. Err (''Invalid Agent endpoint '' @ k @ ''.''))
            [''managerInstanceId'', ''agentId'', ''provider'', ''sessionId'', ''authorizationIncarnation'']) (\<lambda>_.
     bind (check (optional_device_id (jget v ''ownerDeviceId'')) (Err ''Invalid endpoint owner device.'')) (\<lambda>_.
     bind (check (optional_device_id (jget v ''ledgerOwnerDeviceId'')) (Err ''Invalid endpoint ledger address.'')) (\<lambda>_.
     bind (if kind = ''instance''
           then check_fields (\<lambda>k. complete_field (jget v k)) (\<lambda>k. Err (''Invalid instance endpoint '' @ k @ ''.''))
                  [''instanceId'', ''nodeId'']
           else Inr ()) (\<lambda>_.
     bind (if kind = ''device''
           then check (complete_field (jget v ''instanceId'') \<and> jget v ''nodeId'' = JUndef
                  \<and> jget v ''provider'' = JStr ''deviceAgent'') (Err ''Invalid device endpoint owner.'')
           else Inr ()) (\<lambda>_.
     Inr \<lparr>ep_kind = kind, ep_managerInstanceId = jstr v ''managerInstanceId'',
          ep_ownerDeviceId = jstr_nonempty v ''ownerDeviceId'',
          ep_ledgerOwnerDeviceId = jstr_nonempty v ''ledgerOwnerDeviceId'',
          ep_instanceId = (if kind = ''instance'' \<or> kind = ''device'' then Some (jstr v ''instanceId'') else None),
          ep_nodeId = (if kind = ''instance'' then Some (jstr v ''nodeId'') else None),
          ep_agentId = jstr v ''agentId'', ep_provider = jstr v ''provider'',
          ep_sessionId = jstr v ''sessionId'',
          ep_authorizationIncarnation = jstr v ''authorizationIncarnation''\<rparr>)))))))"

definition connection_text :: "jval \<Rightarrow> bool" where
  "connection_text v = (case as_string v of None \<Rightarrow> False
     | Some s \<Rightarrow> s \<noteq> [] \<and> s = js_trim s \<and> length s \<le> 4096 \<and> \<not> list_ex line_break_or_nul s)"

definition connection_transports :: "string list" where
  "connection_transports = [''lan-agent'', ''rabilink'', ''local'', ''service'']"

definition normalizeAgentConnectionSource :: "jval \<Rightarrow> connection result" where
  "normalizeAgentConnectionSource v =
    (bind (check (js_truthy v \<and> jget v ''kind'' = JStr ''connection''
             \<and> (case as_string (jget v ''transport'') of None \<Rightarrow> False | Some t \<Rightarrow> t \<in> set connection_transports))
            (Err ''Invalid Agent connection source.'')) (\<lambda>_.
     bind (check_fields (\<lambda>k. connection_text (jget v k)) (\<lambda>k. Err (''Invalid Agent connection source '' @ k @ ''.''))
            [''managerInstanceId'', ''id'']) (\<lambda>_.
     Inr \<lparr>cn_managerInstanceId = jstr v ''managerInstanceId'', cn_transport = jstr v ''transport'',
          cn_id = jstr v ''id'', cn_ledgerOwnerDeviceId = jstr_nonempty v ''ledgerOwnerDeviceId'',
          cn_authorizationIncarnation = jstr_nonempty v ''authorizationIncarnation''\<rparr>)))"

definition normalizeAgentDeliverySource :: "delivery_source \<Rightarrow> delivery_source result" where
  "normalizeAgentDeliverySource s = (case s of
     ConnectionSource c \<Rightarrow> bind (normalizeAgentConnectionSource (connection_json c)) (\<lambda>c'. Inr (ConnectionSource c'))
   | EndpointSource e \<Rightarrow> bind (normalizeAgentRequestEndpoint (endpoint_json e)) (\<lambda>e'. Inr (EndpointSource e')))"

section \<open>Comparison and identity\<close>

text \<open>The fields compared by \<open>sameAgentEndpoint\<close>; an instance catalog alias is not one of them.\<close>

definition sameAgentEndpoint :: "endpoint option \<Rightarrow> endpoint option \<Rightarrow> bool" where
  "sameAgentEndpoint left right = (case (left, right) of
     (Some l, Some r) \<Rightarrow>
       ep_kind l = ep_kind r \<and> ep_managerInstanceId l = ep_managerInstanceId r
       \<and> ep_ownerDeviceId l = ep_ownerDeviceId r \<and> ep_instanceId l = ep_instanceId r
       \<and> ep_nodeId l = ep_nodeId r
       \<and> (ep_kind l = ''instance'' \<and> ep_kind r = ''instance'' \<or> ep_agentId l = ep_agentId r)
       \<and> ep_provider l = ep_provider r \<and> ep_sessionId l = ep_sessionId r
       \<and> ep_authorizationIncarnation l = ep_authorizationIncarnation r
   | _ \<Rightarrow> False)"

definition stableAgentEndpointIdentity :: "endpoint \<Rightarrow> ((string \<times> string) list) result" where
  "stableAgentEndpointIdentity e =
     bind (normalizeAgentRequestEndpoint (endpoint_json e)) (\<lambda>n.
       let normalized = filter (\<lambda>(k, _). k \<noteq> ''ledgerOwnerDeviceId'') (endpoint_fields n) in
       if ep_kind n \<noteq> ''instance'' then Inr normalized
       else Inr (filter (\<lambda>(k, _). k \<noteq> ''agentId'') normalized))"

text \<open>The object that is serialised, and its serialisation.\<close>

definition deliverySourceIdentityFields :: "delivery_source \<Rightarrow> ((string \<times> string) list) result" where
  "deliverySourceIdentityFields s = (case s of
     ConnectionSource c \<Rightarrow>
       bind (normalizeAgentConnectionSource (connection_json c)) (\<lambda>n.
         Inr (filter (\<lambda>(k, _). k \<noteq> ''authorizationIncarnation'' \<and> k \<noteq> ''ledgerOwnerDeviceId'') (connection_fields n)))
   | EndpointSource e \<Rightarrow>
       bind (stableAgentEndpointIdentity e) (\<lambda>fs.
         let identity = filter (\<lambda>(k, _). k \<noteq> ''authorizationIncarnation'') fs in
         if ep_kind e = ''local'' then Inr (filter (\<lambda>(k, _). k \<noteq> ''ownerDeviceId'') identity)
         else Inr identity))"

definition agentDeliverySourceIdentity :: "delivery_source \<Rightarrow> string result" where
  "agentDeliverySourceIdentity s = bind (deliverySourceIdentityFields s) (\<lambda>fs. Inr (stringify (string_object fs)))"

text \<open>
  Two frozen sources: a throwing identity makes the comparison throw, which the model shows
  as an error.
\<close>

definition sameAgentDeliverySource :: "delivery_source option \<Rightarrow> delivery_source option \<Rightarrow> bool result" where
  "sameAgentDeliverySource left right = (case (left, right) of
     (Some (EndpointSource l), Some (EndpointSource r)) \<Rightarrow> Inr (sameAgentEndpoint (Some l) (Some r))
   | (Some (ConnectionSource l), Some (ConnectionSource r)) \<Rightarrow>
       bind (agentDeliverySourceIdentity (ConnectionSource l)) (\<lambda>i.
       bind (agentDeliverySourceIdentity (ConnectionSource r)) (\<lambda>j. Inr (i = j)))
   | _ \<Rightarrow> Inr False)"

definition agentDeliverySourceForParty :: "party \<Rightarrow> delivery_source option" where
  "agentDeliverySourceForParty p = (case pa_endpoint p of Some e \<Rightarrow> Some (EndpointSource e)
     | None \<Rightarrow> map_option ConnectionSource (pa_connection p))"

definition externalPeerSource :: "endpoint \<Rightarrow> bool" where
  "externalPeerSource e \<longleftrightarrow> (ep_kind e = ''local'' \<or> ep_kind e = ''instance'')
     \<and> truthy (ep_ownerDeviceId e) \<and> truthy (ep_ledgerOwnerDeviceId e)
     \<and> ep_ownerDeviceId e \<noteq> ep_ledgerOwnerDeviceId e"

definition agentDeliveryCallerSourceIdentity :: "delivery_source \<Rightarrow> string result" where
  "agentDeliveryCallerSourceIdentity s = (case s of
     ConnectionSource c \<Rightarrow> agentDeliverySourceIdentity s
   | EndpointSource e \<Rightarrow>
       if \<not> externalPeerSource e then agentDeliverySourceIdentity s
       else bind (normalizeAgentRequestEndpoint (endpoint_json e)) (\<lambda>n.
         Inr (stringify (string_object ([(''managerInstanceId'', ep_managerInstanceId n)]
           @ opt_field ''ownerDeviceId'' (ep_ownerDeviceId n)
           @ [(''provider'', ep_provider n), (''sessionId'', ep_sessionId n)])))))"

text \<open>
  The digested text of a source-scoped delivery identifier, and the identifier:
  \<open>agent-\<close> followed by the digest. The digest is the parameter \<open>H\<close>.
\<close>

definition scopedDeliveryText :: "delivery_source \<Rightarrow> string \<Rightarrow> bool \<Rightarrow> string result" where
  "scopedDeliveryText s callerDeliveryId legacyAlias =
    (let pair = (\<lambda>i. Inr (stringify (JArr [JStr i, JStr callerDeliveryId]))) in
     case s of
       ConnectionSource c \<Rightarrow> bind (agentDeliverySourceIdentity s) pair
     | EndpointSource e \<Rightarrow>
         if \<not> legacyAlias \<and> ep_kind e = ''local'' \<and> externalPeerSource e
         then bind (agentDeliveryCallerSourceIdentity s) pair
         else if truthy (ep_ownerDeviceId e) \<and> ep_kind e \<noteq> ''local''
         then bind (agentDeliverySourceIdentity s) pair
         else Inr (stringify (JArr [JStr (ep_managerInstanceId e), JStr (ep_kind e),
                opt_str (ep_instanceId e), opt_str (ep_nodeId e),
                (if ep_kind e = ''instance'' \<and> \<not> legacyAlias then JUndef else JStr (ep_agentId e)),
                JStr (ep_provider e), JStr (ep_sessionId e), JStr callerDeliveryId])))"

definition sourceScopedAgentDeliveryId ::
    "(string \<Rightarrow> string) \<Rightarrow> delivery_source \<Rightarrow> string \<Rightarrow> bool \<Rightarrow> string result" where
  "sourceScopedAgentDeliveryId H s callerDeliveryId legacyAlias =
     bind (scopedDeliveryText s callerDeliveryId legacyAlias) (\<lambda>t. Inr (''agent-'' @ H t))"

section \<open>Parties\<close>

definition sameCodexWorkspace :: "(string \<Rightarrow> string) \<Rightarrow> string option \<Rightarrow> string option \<Rightarrow> bool" where
  "sameCodexWorkspace canon left right =
    (let key = (\<lambda>x. case x of None \<Rightarrow> [] | Some p \<Rightarrow> canon p) in
     key left \<noteq> [] \<and> key right \<noteq> [] \<and> key left = key right)"

definition sameAgentParty :: "(string \<Rightarrow> string) \<Rightarrow> party \<Rightarrow> party \<Rightarrow> bool result" where
  "sameAgentParty canon left right =
    (if pa_connection left \<noteq> None \<or> pa_connection right \<noteq> None then
       sameAgentDeliverySource (map_option ConnectionSource (pa_connection left))
         (map_option ConnectionSource (pa_connection right))
     else if pa_endpoint left \<noteq> None \<or> pa_endpoint right \<noteq> None then
       Inr (sameAgentEndpoint (pa_endpoint left) (pa_endpoint right)
         \<and> pa_threadId left = pa_threadId right \<and> pa_agentAdapter left = pa_agentAdapter right
         \<and> pa_agentType left = pa_agentType right)
     else
       Inr (pa_threadId left = pa_threadId right
         \<and> (\<not> truthy (pa_agentAdapter left) \<or> \<not> truthy (pa_agentAdapter right) \<or> pa_agentAdapter left = pa_agentAdapter right)
         \<and> (\<not> truthy (pa_workspace left) \<or> \<not> truthy (pa_workspace right)
            \<or> sameCodexWorkspace canon (pa_workspace left) (pa_workspace right))))"

definition sameAgentPartyAddress :: "party \<Rightarrow> party \<Rightarrow> bool" where
  "sameAgentPartyAddress left right =
    (if pa_connection left \<noteq> None \<or> pa_connection right \<noteq> None then False
     else if pa_threadId left \<noteq> pa_threadId right then False
     else if pa_endpoint left \<noteq> None \<or> pa_endpoint right \<noteq> None then
       (case (pa_endpoint left, pa_endpoint right) of
          (Some l, Some r) \<Rightarrow>
            if ep_kind l = ''device'' \<and> ep_kind r = ''device'' then
              ep_managerInstanceId l = ep_managerInstanceId r \<and> ep_agentId l = ep_agentId r
              \<and> ep_provider l = ep_provider r \<and> ep_sessionId l = ep_sessionId r
            else ep_kind l = ep_kind r \<and> ep_managerInstanceId l = ep_managerInstanceId r
              \<and> ep_ownerDeviceId l = ep_ownerDeviceId r \<and> ep_instanceId l = ep_instanceId r
              \<and> ep_nodeId l = ep_nodeId r
              \<and> (ep_kind l = ''instance'' \<and> ep_kind r = ''instance'' \<or> ep_agentId l = ep_agentId r)
              \<and> ep_provider l = ep_provider r \<and> ep_sessionId l = ep_sessionId r
        | _ \<Rightarrow> False)
     else \<not> truthy (pa_agentAdapter left) \<or> \<not> truthy (pa_agentAdapter right) \<or> pa_agentAdapter left = pa_agentAdapter right)"

section \<open>Well-formed endpoints and connections\<close>

definition complete_text :: "string \<Rightarrow> bool" where
  "complete_text s \<longleftrightarrow> s \<noteq> [] \<and> js_trim s = s \<and> length s \<le> 4096"

definition endpoint_ok :: "endpoint \<Rightarrow> bool" where
  "endpoint_ok e \<longleftrightarrow> ep_kind e \<in> set endpoint_kinds
     \<and> complete_text (ep_managerInstanceId e) \<and> complete_text (ep_agentId e)
     \<and> complete_text (ep_provider e) \<and> complete_text (ep_sessionId e)
     \<and> complete_text (ep_authorizationIncarnation e)
     \<and> pred_option device_id_ok (ep_ownerDeviceId e) \<and> pred_option device_id_ok (ep_ledgerOwnerDeviceId e)
     \<and> (ep_kind e = ''instance'' \<longrightarrow> ep_nodeId e \<noteq> None)
     \<and> (ep_kind e \<noteq> ''instance'' \<longrightarrow> ep_nodeId e = None)
     \<and> (ep_instanceId e \<noteq> None \<longleftrightarrow> ep_kind e = ''instance'' \<or> ep_kind e = ''device'')
     \<and> pred_option complete_text (ep_instanceId e) \<and> pred_option complete_text (ep_nodeId e)
     \<and> (ep_kind e = ''device'' \<longrightarrow> ep_provider e = ''deviceAgent'')"

definition connection_ok :: "connection \<Rightarrow> bool" where
  "connection_ok c \<longleftrightarrow> cn_transport c \<in> set connection_transports
     \<and> complete_text (cn_managerInstanceId c) \<and> \<not> list_ex line_break_or_nul (cn_managerInstanceId c)
     \<and> complete_text (cn_id c) \<and> \<not> list_ex line_break_or_nul (cn_id c)
     \<and> cn_ledgerOwnerDeviceId c \<noteq> Some [] \<and> cn_authorizationIncarnation c \<noteq> Some []"

lemma jget_string_object [simp]: "jget (string_object fs) k = opt_str (map_of fs k)"
  by (induction fs) (auto simp: string_object_def)

lemma map_of_opt_field [simp]:
  "map_of (opt_field k x @ fs) j = (if j = k \<and> x \<noteq> None then x else map_of fs j)"
  by (auto simp: opt_field_def split: option.splits)

lemma map_of_opt_field' [simp]: "map_of (opt_field k x) j = (if j = k then x else None)"
  by (auto simp: opt_field_def split: option.splits)

lemma js_truthy_string_object [simp]: "js_truthy (string_object fs)"
  by (simp add: string_object_def)

lemma complete_field_iff: "complete_field v \<longleftrightarrow> (\<exists>s. v = JStr s \<and> complete_text s)"
  by (auto simp: complete_field_def complete_text_def split: option.splits)

lemma connection_text_iff:
  "connection_text v \<longleftrightarrow> (\<exists>s. v = JStr s \<and> complete_text s \<and> \<not> list_ex line_break_or_nul s)"
  by (auto simp: connection_text_def complete_text_def split: option.splits)

lemma optional_device_id_iff:
  "optional_device_id v \<longleftrightarrow> v = JUndef \<or> (\<exists>s. v = JStr s \<and> device_id_ok s)"
  by (auto simp: optional_device_id_def split: option.splits)

lemma device_id_ok_ne [simp]: "\<not> device_id_ok []"
  by (simp add: device_id_ok_def)

lemma complete_text_ne [simp]: "\<not> complete_text []"
  by (simp add: complete_text_def)

lemma jstr_eq [simp]: "jget v k = JStr s \<Longrightarrow> jstr v k = s" "jget v k = JUndef \<Longrightarrow> jstr v k = []"
  by (simp_all add: jstr_def)

lemma pred_option_device_id:
  "optional_device_id (opt_str x) \<longleftrightarrow> pred_option device_id_ok x"
  by (cases x) (auto simp: optional_device_id_def)

lemma complete_field_simps [simp]: "complete_field (JStr s) = complete_text s" "complete_field JUndef = False"
  by (simp_all add: complete_field_iff)

lemma complete_field_opt_str: "complete_field (opt_str x) \<longleftrightarrow> (\<exists>s. x = Some s \<and> complete_text s)"
  by (cases x) (auto simp: complete_field_iff)

lemma jstr_string_object [simp]: "jstr (string_object fs) k = (case map_of fs k of None \<Rightarrow> [] | Some s \<Rightarrow> s)"
  by (auto simp: jstr_def split: option.splits)

lemma jstr_nonempty_ne: "jstr_nonempty v k \<noteq> Some []"
  by (auto simp: jstr_nonempty_def or_undef_def)

lemma complete_field_text: "complete_field (jget v k) \<Longrightarrow> complete_text (jstr v k)"
  by (auto simp: complete_field_iff)

lemma optional_device_id_text: "optional_device_id (jget v k) \<Longrightarrow> pred_option device_id_ok (jstr_nonempty v k)"
  by (auto simp: optional_device_id_iff jstr_nonempty_def or_undef_def)

lemma endpoint_norm_iff:
  "normalizeAgentRequestEndpoint v = Inr e \<longleftrightarrow>
     js_truthy v \<and> (case as_string (jget v ''kind'') of None \<Rightarrow> False | Some k \<Rightarrow> k \<in> set endpoint_kinds)
     \<and> list_all (\<lambda>k. complete_field (jget v k))
         [''managerInstanceId'', ''agentId'', ''provider'', ''sessionId'', ''authorizationIncarnation'']
     \<and> optional_device_id (jget v ''ownerDeviceId'') \<and> optional_device_id (jget v ''ledgerOwnerDeviceId'')
     \<and> (jstr v ''kind'' = ''instance'' \<longrightarrow> complete_field (jget v ''instanceId'') \<and> complete_field (jget v ''nodeId''))
     \<and> (jstr v ''kind'' = ''device'' \<longrightarrow> complete_field (jget v ''instanceId'') \<and> jget v ''nodeId'' = JUndef
          \<and> jget v ''provider'' = JStr ''deviceAgent'')
     \<and> e = \<lparr>ep_kind = jstr v ''kind'', ep_managerInstanceId = jstr v ''managerInstanceId'',
          ep_ownerDeviceId = jstr_nonempty v ''ownerDeviceId'',
          ep_ledgerOwnerDeviceId = jstr_nonempty v ''ledgerOwnerDeviceId'',
          ep_instanceId = (if jstr v ''kind'' = ''instance'' \<or> jstr v ''kind'' = ''device''
             then Some (jstr v ''instanceId'') else None),
          ep_nodeId = (if jstr v ''kind'' = ''instance'' then Some (jstr v ''nodeId'') else None),
          ep_agentId = jstr v ''agentId'', ep_provider = jstr v ''provider'',
          ep_sessionId = jstr v ''sessionId'',
          ep_authorizationIncarnation = jstr v ''authorizationIncarnation''\<rparr>"
  unfolding normalizeAgentRequestEndpoint_def Let_def
  by (cases "jstr v ''kind'' = ''instance''"; cases "jstr v ''kind'' = ''device''")
    (simp_all, auto)

lemma endpoint_norm_sound: "normalizeAgentRequestEndpoint v = Inr e \<Longrightarrow> endpoint_ok e"
proof -
  assume "normalizeAgentRequestEndpoint v = Inr e"
  note n = this [unfolded endpoint_norm_iff]
  have kind: "jstr v ''kind'' \<in> set endpoint_kinds"
    using n by (auto simp: jstr_def split: option.splits)
  show ?thesis unfolding endpoint_ok_def
    using n kind complete_field_text [of v] optional_device_id_text [of v]
    by (simp split del: if_split) (auto simp: jstr_def)
qed

lemma or_undef_device_id: "pred_option device_id_ok x \<Longrightarrow> or_undef (case x of None \<Rightarrow> [] | Some s \<Rightarrow> s) = x"
  by (cases x) (auto simp: or_undef_def)

lemma endpoint_json_get [simp]:
  "jget (endpoint_json e) ''kind'' = JStr (ep_kind e)"
  "jget (endpoint_json e) ''managerInstanceId'' = JStr (ep_managerInstanceId e)"
  "jget (endpoint_json e) ''ownerDeviceId'' = opt_str (ep_ownerDeviceId e)"
  "jget (endpoint_json e) ''ledgerOwnerDeviceId'' = opt_str (ep_ledgerOwnerDeviceId e)"
  "jget (endpoint_json e) ''instanceId'' = opt_str (ep_instanceId e)"
  "jget (endpoint_json e) ''nodeId'' = opt_str (ep_nodeId e)"
  "jget (endpoint_json e) ''agentId'' = JStr (ep_agentId e)"
  "jget (endpoint_json e) ''provider'' = JStr (ep_provider e)"
  "jget (endpoint_json e) ''sessionId'' = JStr (ep_sessionId e)"
  "jget (endpoint_json e) ''authorizationIncarnation'' = JStr (ep_authorizationIncarnation e)"
  "js_truthy (endpoint_json e)"
  by (simp_all add: endpoint_json_def endpoint_fields_def del: map_of_append)

lemma jstr_opt: "jget v k = opt_str x \<Longrightarrow> jstr v k = (case x of None \<Rightarrow> [] | Some s \<Rightarrow> s)"
  by (cases x) simp_all

lemma endpoint_norm_complete:
  assumes ok: "endpoint_ok e"
  shows "normalizeAgentRequestEndpoint (endpoint_json e) = Inr e"
proof -
  have opt: "jstr_nonempty (endpoint_json e) ''ownerDeviceId'' = ep_ownerDeviceId e"
    "jstr_nonempty (endpoint_json e) ''ledgerOwnerDeviceId'' = ep_ledgerOwnerDeviceId e"
    using ok by (simp_all add: jstr_nonempty_def jstr_opt or_undef_device_id endpoint_ok_def)
  have inst: "(if ep_kind e = ''instance'' \<or> ep_kind e = ''device'' then Some (jstr (endpoint_json e) ''instanceId'') else None)
      = ep_instanceId e" "(if ep_kind e = ''instance'' then Some (jstr (endpoint_json e) ''nodeId'') else None) = ep_nodeId e"
    using ok by (auto simp: jstr_opt endpoint_ok_def split: option.splits)
  have "complete_field (opt_str (ep_instanceId e))" if "ep_kind e = ''instance'' \<or> ep_kind e = ''device''"
    using ok that by (auto simp: complete_field_opt_str endpoint_ok_def)
  moreover have "complete_field (opt_str (ep_nodeId e))" if "ep_kind e = ''instance''"
    using ok that by (auto simp: complete_field_opt_str endpoint_ok_def)
  moreover have "opt_str (ep_nodeId e) = JUndef" if "ep_kind e = ''device''"
    using ok that by (auto simp: endpoint_ok_def)
  ultimately show ?thesis
    unfolding endpoint_norm_iff using ok opt inst
    by (simp add: endpoint_ok_def pred_option_device_id)
qed

interpretation endpoint_norm: normaliser normalizeAgentRequestEndpoint endpoint_json endpoint_ok
  by unfold_locales (fact endpoint_norm_sound, fact endpoint_norm_complete)

lemma connection_norm_iff:
  "normalizeAgentConnectionSource v = Inr c \<longleftrightarrow>
     js_truthy v \<and> jget v ''kind'' = JStr ''connection''
     \<and> (case as_string (jget v ''transport'') of None \<Rightarrow> False | Some t \<Rightarrow> t \<in> set connection_transports)
     \<and> list_all (\<lambda>k. connection_text (jget v k)) [''managerInstanceId'', ''id'']
     \<and> c = \<lparr>cn_managerInstanceId = jstr v ''managerInstanceId'', cn_transport = jstr v ''transport'',
          cn_id = jstr v ''id'', cn_ledgerOwnerDeviceId = jstr_nonempty v ''ledgerOwnerDeviceId'',
          cn_authorizationIncarnation = jstr_nonempty v ''authorizationIncarnation''\<rparr>"
  unfolding normalizeAgentConnectionSource_def by auto

lemma connection_text_jstr:
  "connection_text (jget v k) \<Longrightarrow> complete_text (jstr v k) \<and> \<not> list_ex line_break_or_nul (jstr v k)"
  by (auto simp: connection_text_iff)

lemma connection_norm_sound: "normalizeAgentConnectionSource v = Inr c \<Longrightarrow> connection_ok c"
  unfolding connection_norm_iff connection_ok_def
  using connection_text_jstr [of v] jstr_nonempty_ne [of v]
  by (auto simp: jstr_def split: option.splits)

lemma connection_json_get [simp]:
  "jget (connection_json c) ''kind'' = JStr ''connection''"
  "jget (connection_json c) ''managerInstanceId'' = JStr (cn_managerInstanceId c)"
  "jget (connection_json c) ''transport'' = JStr (cn_transport c)"
  "jget (connection_json c) ''id'' = JStr (cn_id c)"
  "jget (connection_json c) ''ledgerOwnerDeviceId'' = opt_str (cn_ledgerOwnerDeviceId c)"
  "jget (connection_json c) ''authorizationIncarnation'' = opt_str (cn_authorizationIncarnation c)"
  "js_truthy (connection_json c)"
  by (simp_all add: connection_json_def connection_fields_def del: map_of_append)

lemma or_undef_ne: "x \<noteq> Some [] \<Longrightarrow> or_undef (case x of None \<Rightarrow> [] | Some s \<Rightarrow> s) = x"
  by (cases x) (auto simp: or_undef_def)

lemma connection_norm_complete:
  assumes ok: "connection_ok c"
  shows "normalizeAgentConnectionSource (connection_json c) = Inr c"
  unfolding connection_norm_iff using ok
  by (simp add: connection_ok_def connection_text_iff jstr_nonempty_def jstr_opt or_undef_ne)

interpretation connection_norm: normaliser normalizeAgentConnectionSource connection_json connection_ok
  by unfold_locales (fact connection_norm_sound, fact connection_norm_complete)

section \<open>What the comparisons identify\<close>

definition endpoint_key :: "endpoint \<Rightarrow> string \<times> string \<times> string option \<times> string option \<times> string option
    \<times> string option \<times> string \<times> string \<times> string" where
  "endpoint_key e = (ep_kind e, ep_managerInstanceId e, ep_ownerDeviceId e, ep_instanceId e, ep_nodeId e,
     (if ep_kind e = ''instance'' then None else Some (ep_agentId e)), ep_provider e, ep_sessionId e,
     ep_authorizationIncarnation e)"

interpretation endpoint_identity: keyed_identity sameAgentEndpoint endpoint_key
proof
  fix x y show "sameAgentEndpoint x y \<longleftrightarrow> (\<exists>a b. x = Some a \<and> y = Some b \<and> endpoint_key a = endpoint_key b)"
    by (cases x; cases y) (auto simp: sameAgentEndpoint_def endpoint_key_def)
qed

text \<open>The same with the alias, incarnation and ledger address of a serialised identity left out.\<close>

datatype source_class =
    ConnectionKey string string string
  | EndpointKey string string "string option" "string option" "string option" "string option" string string

fun source_key :: "delivery_source \<Rightarrow> source_class" where
  "source_key (ConnectionSource c) = ConnectionKey (cn_managerInstanceId c) (cn_transport c) (cn_id c)"
| "source_key (EndpointSource e) = EndpointKey (ep_kind e) (ep_managerInstanceId e)
     (if ep_kind e = ''local'' then None else ep_ownerDeviceId e) (ep_instanceId e) (ep_nodeId e)
     (if ep_kind e = ''instance'' then None else Some (ep_agentId e)) (ep_provider e) (ep_sessionId e)"

lemma json_pure_string_object [simp]: "json_pure (string_object fs)"
  by (induction fs) (auto simp: string_object_def)

lemma string_object_inj [simp]: "string_object fs = string_object gs \<longleftrightarrow> fs = gs"
proof -
  have "inj (\<lambda>(k, s). (k :: string, JStr s))" by (auto simp: inj_on_def)
  from inj_map_eq_map [OF this] show ?thesis by (simp add: string_object_def)
qed

lemma stringify_object_inj [simp]:
  "stringify (string_object fs) = stringify (string_object gs) \<longleftrightarrow> fs = gs"
  using stringify_inj [of "string_object fs" "string_object gs"] by auto

lemma map_of_filter_key:
  "map_of (filter (\<lambda>(k, _). P k) fs) j = (if P j then map_of fs j else None)"
  by (induction fs) auto

lemma filter_opt_field [simp]: "filter (\<lambda>(j, _). P j) (opt_field k x) = (if P k then opt_field k x else [])"
  by (auto simp: opt_field_def split: option.splits)

lemma endpoint_fields_lookup [simp]:
  "map_of (endpoint_fields e) ''kind'' = Some (ep_kind e)"
  "map_of (endpoint_fields e) ''managerInstanceId'' = Some (ep_managerInstanceId e)"
  "map_of (endpoint_fields e) ''ownerDeviceId'' = ep_ownerDeviceId e"
  "map_of (endpoint_fields e) ''instanceId'' = ep_instanceId e"
  "map_of (endpoint_fields e) ''nodeId'' = ep_nodeId e"
  "map_of (endpoint_fields e) ''agentId'' = Some (ep_agentId e)"
  "map_of (endpoint_fields e) ''provider'' = Some (ep_provider e)"
  "map_of (endpoint_fields e) ''sessionId'' = Some (ep_sessionId e)"
  "map_of (endpoint_fields e) ''transport'' = None"
  by (simp_all add: endpoint_fields_def del: map_of_append)

lemma connection_fields_lookup [simp]:
  "map_of (connection_fields c) ''kind'' = Some ''connection''"
  "map_of (connection_fields c) ''managerInstanceId'' = Some (cn_managerInstanceId c)"
  "map_of (connection_fields c) ''transport'' = Some (cn_transport c)"
  "map_of (connection_fields c) ''id'' = Some (cn_id c)"
  by (simp_all add: connection_fields_def del: map_of_append)

lemma norm_keeps_kind: "normalizeAgentRequestEndpoint (endpoint_json e) = Inr n \<Longrightarrow> ep_kind n = ep_kind e"
  by (simp add: endpoint_norm_iff)

text \<open>The serialised fields, from the normalised source.\<close>

definition identity_fields :: "delivery_source \<Rightarrow> (string \<times> string) list" where
  "identity_fields s = (case s of
     ConnectionSource c \<Rightarrow> filter (\<lambda>(k, _). k \<notin> {''authorizationIncarnation'', ''ledgerOwnerDeviceId''}) (connection_fields c)
   | EndpointSource e \<Rightarrow> filter (\<lambda>(k, _). k \<noteq> ''ledgerOwnerDeviceId'' \<and> k \<noteq> ''authorizationIncarnation''
        \<and> (ep_kind e = ''instance'' \<longrightarrow> k \<noteq> ''agentId'') \<and> (ep_kind e = ''local'' \<longrightarrow> k \<noteq> ''ownerDeviceId''))
        (endpoint_fields e))"

lemma deliverySourceIdentityFields_norm:
  "normalizeAgentDeliverySource s = Inr n \<Longrightarrow> deliverySourceIdentityFields s = Inr (identity_fields n)"
proof (cases s)
  case (EndpointSource e)
  assume "normalizeAgentDeliverySource s = Inr n"
  with EndpointSource obtain m where m: "normalizeAgentRequestEndpoint (endpoint_json e) = Inr m" "n = EndpointSource m"
    by (auto simp: normalizeAgentDeliverySource_def)
  note kind = norm_keeps_kind [OF m(1)]
  show ?thesis
    by (simp add: EndpointSource m kind [symmetric] deliverySourceIdentityFields_def
        stableAgentEndpointIdentity_def identity_fields_def Let_def del: bind_eq_Inr)
      (auto intro!: filter_cong)
next
  case (ConnectionSource c)
  assume "normalizeAgentDeliverySource s = Inr n"
  with ConnectionSource show ?thesis
    by (auto simp: normalizeAgentDeliverySource_def deliverySourceIdentityFields_def identity_fields_def
        intro!: filter_cong)
qed

lemma deliverySourceIdentityFields_iff:
  "deliverySourceIdentityFields s = Inr fs \<longleftrightarrow> (\<exists>n. normalizeAgentDeliverySource s = Inr n \<and> fs = identity_fields n)"
proof -
  have "\<exists>n. normalizeAgentDeliverySource s = Inr n" if "deliverySourceIdentityFields s = Inr fs" for fs
    using that by (cases s) (auto simp: normalizeAgentDeliverySource_def deliverySourceIdentityFields_def
      stableAgentEndpointIdentity_def)
  then show ?thesis using deliverySourceIdentityFields_norm by fastforce
qed

lemma identity_fields_key: "identity_fields s = identity_fields t \<longleftrightarrow> source_key s = source_key t"
proof
  assume eq: "identity_fields s = identity_fields t"
  then have look: "map_of (identity_fields s) k = map_of (identity_fields t) k" for k by simp
  note lk = look [of "''kind''"] look [of "''managerInstanceId''"] look [of "''ownerDeviceId''"]
    look [of "''instanceId''"] look [of "''nodeId''"] look [of "''agentId''"] look [of "''provider''"]
    look [of "''sessionId''"] look [of "''transport''"] look [of "''id''"]
  show "source_key s = source_key t"
    using lk by (cases s; cases t) (simp_all add: identity_fields_def map_of_filter_key split: if_splits)
next
  assume "source_key s = source_key t"
  then show "identity_fields s = identity_fields t"
    by (cases s; cases t)
      (simp_all add: identity_fields_def endpoint_fields_def connection_fields_def split: if_splits)
qed

lemma agentDeliverySourceIdentity_iff:
  "agentDeliverySourceIdentity s = Inr i \<longleftrightarrow>
     (\<exists>n. normalizeAgentDeliverySource s = Inr n \<and> i = stringify (string_object (identity_fields n)))"
  by (auto simp: agentDeliverySourceIdentity_def deliverySourceIdentityFields_iff)

section \<open>Scoped delivery identifiers\<close>

text \<open>An \<open>undefined\<close> element of an array is serialised like \<open>null\<close>.\<close>

definition null_undef :: "jval \<Rightarrow> jval" where
  "null_undef v = (if v = JUndef then JNull else v)"

lemma stringify_null [simp]: "stringify (null_undef v) = stringify v"
  by (simp add: null_undef_def)

lemma stringify_null_undef: "stringify (JArr (map null_undef xs)) = stringify (JArr xs)"
  by (simp add: comp_def)

text \<open>The owner coordinates a delivery identifier separates.\<close>

fun source_owner :: "delivery_source \<Rightarrow> (string \<times> string \<times> string) + (string \<times> string \<times> string)" where
  "source_owner (ConnectionSource c) = Inl (cn_managerInstanceId c, cn_transport c, cn_id c)"
| "source_owner (EndpointSource e) = Inr (ep_managerInstanceId e, ep_provider e, ep_sessionId e)"

text \<open>The elements of the array form without a source identity.\<close>

definition flat_items :: "endpoint \<Rightarrow> string \<Rightarrow> bool \<Rightarrow> jval list" where
  "flat_items e c l = [JStr (ep_managerInstanceId e), JStr (ep_kind e),
     opt_str (ep_instanceId e), opt_str (ep_nodeId e),
     (if ep_kind e = ''instance'' \<and> \<not> l then JUndef else JStr (ep_agentId e)),
     JStr (ep_provider e), JStr (ep_sessionId e), JStr c]"

lemma flat_items_pure: "list_all json_pure (map null_undef (flat_items e c l))"
  by (cases "ep_instanceId e"; cases "ep_nodeId e") (simp_all add: flat_items_def null_undef_def)

lemma flat_items_eq:
  "map null_undef (flat_items e c l) = map null_undef (flat_items f d k) \<Longrightarrow>
    c = d \<and> source_owner (EndpointSource e) = source_owner (EndpointSource f)"
  by (simp add: flat_items_def null_undef_def)

lemma flat_items_length: "length (map null_undef (flat_items e c l)) \<noteq> length [x, y]"
  by (simp add: flat_items_def)

lemma scopedDeliveryText_forms:
  assumes t: "scopedDeliveryText s c l = Inr t"
  obtains (pair) i where "t = stringify (JArr [JStr i, JStr c])"
      "agentDeliverySourceIdentity s = Inr i \<or> agentDeliveryCallerSourceIdentity s = Inr i"
    | (flat) e where "s = EndpointSource e" "t = stringify (JArr (map null_undef (flat_items e c l)))"
proof (cases s)
  case (ConnectionSource cn)
  with t pair show ?thesis by (auto simp: scopedDeliveryText_def Let_def simp del: stringify.simps)
next
  case (EndpointSource e)
  consider "\<not> l \<and> ep_kind e = ''local'' \<and> externalPeerSource e"
    | "\<not> (\<not> l \<and> ep_kind e = ''local'' \<and> externalPeerSource e)" "truthy (ep_ownerDeviceId e) \<and> ep_kind e \<noteq> ''local''"
    | "\<not> (\<not> l \<and> ep_kind e = ''local'' \<and> externalPeerSource e)" "\<not> (truthy (ep_ownerDeviceId e) \<and> ep_kind e \<noteq> ''local'')"
    by blast
  then show ?thesis
  proof cases
    case 1
    with t EndpointSource pair show ?thesis
      by (auto simp: scopedDeliveryText_def Let_def simp del: stringify.simps)
  next
    case 2
    with t EndpointSource pair show ?thesis
      by (auto simp: scopedDeliveryText_def Let_def simp del: stringify.simps)
  next
    case 3
    with t EndpointSource have "t = stringify (JArr (flat_items e c l))"
      by (simp add: scopedDeliveryText_def Let_def flat_items_def del: stringify.simps)
    with flat [OF EndpointSource] show ?thesis by (simp only: stringify_null_undef)
  qed
qed

lemma norm_keeps_owner: "normalizeAgentDeliverySource s = Inr n \<Longrightarrow> source_owner n = source_owner s"
  by (cases s) (auto simp: normalizeAgentDeliverySource_def endpoint_norm_iff connection_norm_iff)

lemma source_key_owner: "source_key s = source_key t \<Longrightarrow> source_owner s = source_owner t"
  by (cases s; cases t) auto

text \<open>
  The text of a source identity or of a caller identity, as the field list it serialises,
  determines the owner.
\<close>

definition owner_of_fields :: "(string \<times> string) list
    \<Rightarrow> (string option \<times> string option \<times> string option) + (string option \<times> string option \<times> string option)" where
  "owner_of_fields fs = (if map_of fs ''transport'' \<noteq> None
     then Inl (map_of fs ''managerInstanceId'', map_of fs ''transport'', map_of fs ''id'')
     else Inr (map_of fs ''managerInstanceId'', map_of fs ''provider'', map_of fs ''sessionId''))"

fun some_owner :: "(string \<times> string \<times> string) + (string \<times> string \<times> string)
    \<Rightarrow> (string option \<times> string option \<times> string option) + (string option \<times> string option \<times> string option)" where
  "some_owner (Inl (a, b, c)) = Inl (Some a, Some b, Some c)"
| "some_owner (Inr (a, b, c)) = Inr (Some a, Some b, Some c)"

lemma some_owner_inj: "some_owner x = some_owner y \<Longrightarrow> x = y"
  by (cases x rule: some_owner.cases; cases y rule: some_owner.cases) auto

lemma owner_of_identity_fields: "owner_of_fields (identity_fields s) = some_owner (source_owner s)"
  by (cases s) (simp_all add: owner_of_fields_def identity_fields_def map_of_filter_key)

lemma identity_text_fields:
  assumes "agentDeliverySourceIdentity s = Inr i \<or> agentDeliveryCallerSourceIdentity s = Inr i"
  shows "\<exists>fs. i = stringify (string_object fs) \<and> owner_of_fields fs = some_owner (source_owner s)"
proof -
  have id: ?thesis if "agentDeliverySourceIdentity s = Inr i"
    using that owner_of_identity_fields norm_keeps_owner by (fastforce simp: agentDeliverySourceIdentity_iff)
  show ?thesis
  proof (cases "agentDeliverySourceIdentity s = Inr i")
    case False
    with assms have c: "agentDeliveryCallerSourceIdentity s = Inr i" by simp
    with False obtain e n where e: "s = EndpointSource e" "normalizeAgentRequestEndpoint (endpoint_json e) = Inr n"
      and i: "i = stringify (string_object ([(''managerInstanceId'', ep_managerInstanceId n)]
           @ opt_field ''ownerDeviceId'' (ep_ownerDeviceId n)
           @ [(''provider'', ep_provider n), (''sessionId'', ep_sessionId n)]))"
      by (auto simp: agentDeliveryCallerSourceIdentity_def split: delivery_source.splits if_splits)
    let ?fs = "[(''managerInstanceId'', ep_managerInstanceId n)] @ opt_field ''ownerDeviceId'' (ep_ownerDeviceId n)
           @ [(''provider'', ep_provider n), (''sessionId'', ep_sessionId n)]"
    have "owner_of_fields ?fs = some_owner (source_owner s)"
      using e by (simp add: owner_of_fields_def endpoint_norm_iff del: map_of_append)
    with i show ?thesis by blast
  qed (use id in blast)
qed

lemma scopedDeliveryText_separates:
  assumes s: "scopedDeliveryText s c l = Inr t" and s': "scopedDeliveryText s' c' l' = Inr t"
  shows "c = c' \<and> source_owner s = source_owner s'"
proof -
  have arr: "xs = ys" if "stringify (JArr xs) = stringify (JArr ys)" "list_all json_pure xs" "list_all json_pure ys" for xs ys
    using stringify_inj [of "JArr xs" "JArr ys"] that by simp
  show ?thesis using s
  proof (cases rule: scopedDeliveryText_forms)
    case (pair i)
    note p = this
    show ?thesis using s'
    proof (cases rule: scopedDeliveryText_forms)
      case (pair j)
      then have "i = j \<and> c = c'" using p arr [of "[JStr i, JStr c]" "[JStr j, JStr c']"] by simp
      moreover obtain fs where "i = stringify (string_object fs)" "owner_of_fields fs = some_owner (source_owner s)"
        using identity_text_fields p(2) by blast
      moreover obtain gs where "j = stringify (string_object gs)" "owner_of_fields gs = some_owner (source_owner s')"
        using identity_text_fields pair(2) by blast
      ultimately show ?thesis using some_owner_inj by fastforce
    next
      case (flat e)
      then have "map null_undef (flat_items e c' l') = [JStr i, JStr c]"
        using p(1) by (intro arr flat_items_pure) simp_all
      then show ?thesis using flat_items_length by metis
    qed
  next
    case (flat e)
    note f = this
    show ?thesis using s'
    proof (cases rule: scopedDeliveryText_forms)
      case (pair j)
      then have "map null_undef (flat_items e c l) = [JStr j, JStr c']"
        using f(2) by (intro arr flat_items_pure) simp_all
      then show ?thesis using flat_items_length by metis
    next
      case (flat g)
      then have "map null_undef (flat_items e c l) = map null_undef (flat_items g c' l')"
        using f(2) by (intro arr flat_items_pure) simp
      then show ?thesis using flat_items_eq f(1) flat(1) by blast
    qed
  qed
qed

section \<open>Properties\<close>

text \<open>Validating an endpoint of unknown shape either throws or returns a well-formed
  endpoint, and a returned endpoint, written back as an object and validated again, is returned
  unchanged: normalisation loses nothing on its own results.\<close>

theorem endpoint_normalisation_roundtrip:
  assumes "normalizeAgentRequestEndpoint v = Inr e"
  shows "endpoint_ok e \<and> normalizeAgentRequestEndpoint (endpoint_json e) = Inr e"
  using assms endpoint_norm.norm_sound endpoint_norm.norm_idem by blast

definition sample_endpoint :: endpoint where
  "sample_endpoint = \<lparr>ep_kind = ''instance'', ep_managerInstanceId = ''m1'', ep_ownerDeviceId = Some ''pc-1'',
     ep_ledgerOwnerDeviceId = None, ep_instanceId = Some ''i1'', ep_nodeId = Some ''n1'', ep_agentId = ''a1'',
     ep_provider = ''codex'', ep_sessionId = ''s1'', ep_authorizationIncarnation = ''x1''\<rparr>"

lemma sample_endpoint_ok: "normalizeAgentRequestEndpoint (endpoint_json sample_endpoint) = Inr sample_endpoint"
  by code_simp

lemma endpoint_normalisation_roundtrip_witness: "endpoint_ok sample_endpoint"
  using endpoint_normalisation_roundtrip [OF sample_endpoint_ok] by blast

text \<open>C33: Serialised source identities separate exactly the normalised sources with different
  identifying fields: two admitted sources have the same identity text precisely when their kind,
  manager, route, provider and session fields agree; connection epochs, authorization
  incarnations, ledger addresses and instance aliases do not matter, and no escaping or
  concatenation of two different sources gives the same text.\<close>

theorem delivery_source_identity_exact:
  assumes "normalizeAgentDeliverySource s = Inr m" "normalizeAgentDeliverySource t = Inr n"
  shows "agentDeliverySourceIdentity s = agentDeliverySourceIdentity t \<longleftrightarrow> source_key m = source_key n"
proof -
  have "agentDeliverySourceIdentity s = Inr (stringify (string_object (identity_fields m)))"
    "agentDeliverySourceIdentity t = Inr (stringify (string_object (identity_fields n)))"
    using assms by (auto simp: agentDeliverySourceIdentity_iff)
  then show ?thesis by (simp add: identity_fields_key)
qed

lemma delivery_source_identity_exact_witness:
  "agentDeliverySourceIdentity (EndpointSource sample_endpoint)
    = agentDeliverySourceIdentity (EndpointSource (sample_endpoint\<lparr>ep_agentId := ''other alias''\<rparr>))"
proof -
  have "normalizeAgentDeliverySource (EndpointSource sample_endpoint) = Inr (EndpointSource sample_endpoint)"
    "normalizeAgentDeliverySource (EndpointSource (sample_endpoint\<lparr>ep_agentId := ''other alias''\<rparr>))
      = Inr (EndpointSource (sample_endpoint\<lparr>ep_agentId := ''other alias''\<rparr>))"
    by code_simp+
  from delivery_source_identity_exact [OF this] show ?thesis by (simp add: sample_endpoint_def)
qed

text \<open>Where the digest does not collide on the two digested texts, two operations share a
  source-scoped delivery identifier only when they name the same caller delivery identifier and
  come from the same owner: the same connection, or the same manager, provider and session. The
  current and the historical forms of the identifier never meet either.\<close>

theorem scoped_delivery_id_separates:
  assumes "scopedDeliveryText s c l = Inr t" "scopedDeliveryText s' c' l' = Inr t'"
    and "H t = H t' \<Longrightarrow> t = t'"
    and "sourceScopedAgentDeliveryId H s c l = sourceScopedAgentDeliveryId H s' c' l'"
  shows "c = c' \<and> source_owner s = source_owner s'"
proof -
  from assms have "t = t'" by (simp add: sourceScopedAgentDeliveryId_def)
  with assms scopedDeliveryText_separates show ?thesis by blast
qed

lemma scoped_delivery_id_separates_witness:
  "source_owner (EndpointSource sample_endpoint)
    = source_owner (EndpointSource (sample_endpoint\<lparr>ep_agentId := ''alias''\<rparr>))"
proof -
  let ?t = "EndpointSource (sample_endpoint\<lparr>ep_agentId := ''alias''\<rparr>)"
  obtain x where x: "scopedDeliveryText (EndpointSource sample_endpoint) ''d1'' False = Inr x"
    "scopedDeliveryText ?t ''d1'' False = Inr x"
  proof -
    have "scopedDeliveryText (EndpointSource sample_endpoint) ''d1'' False = scopedDeliveryText ?t ''d1'' False"
      "is_ok (scopedDeliveryText (EndpointSource sample_endpoint) ''d1'' False)"
      by code_simp+
    with that show ?thesis by (auto simp: is_ok_iff)
  qed
  have "sourceScopedAgentDeliveryId rev (EndpointSource sample_endpoint) ''d1'' False
      = sourceScopedAgentDeliveryId rev ?t ''d1'' False"
    by (simp add: sourceScopedAgentDeliveryId_def x)
  with scoped_delivery_id_separates [OF x, of rev] show ?thesis by blast
qed

text \<open>Equality of frozen endpoints, the strictest comparison, implies the weaker ones: two
  equal endpoints have the same source identity text and are the same reply address, so a reply
  that matches the frozen endpoint is never refused by the address check.\<close>

theorem same_endpoint_implies_same_identity_and_address:
  assumes "sameAgentEndpoint (Some e) (Some f)"
    and "normalizeAgentRequestEndpoint (endpoint_json e) = Inr e" "normalizeAgentRequestEndpoint (endpoint_json f) = Inr f"
    and "pa_endpoint p = Some e" "pa_endpoint q = Some f" "pa_connection p = None" "pa_connection q = None"
    and "pa_threadId p = ep_sessionId e" "pa_threadId q = ep_sessionId f"
  shows "agentDeliverySourceIdentity (EndpointSource e) = agentDeliverySourceIdentity (EndpointSource f)
    \<and> sameAgentPartyAddress p q"
proof -
  from assms(1) have key: "endpoint_key e = endpoint_key f" by (simp add: endpoint_identity.same_Some)
  then have "source_key (EndpointSource e) = source_key (EndpointSource f)"
    by (auto simp: endpoint_key_def split: if_splits)
  moreover have "normalizeAgentDeliverySource (EndpointSource e) = Inr (EndpointSource e)"
    "normalizeAgentDeliverySource (EndpointSource f) = Inr (EndpointSource f)"
    using assms by (simp_all add: normalizeAgentDeliverySource_def)
  ultimately have "agentDeliverySourceIdentity (EndpointSource e) = agentDeliverySourceIdentity (EndpointSource f)"
    by (auto simp: agentDeliverySourceIdentity_def deliverySourceIdentityFields_norm identity_fields_key)
  moreover have "sameAgentPartyAddress p q"
    using key assms by (auto simp: sameAgentPartyAddress_def endpoint_key_def split: if_splits)
  ultimately show ?thesis ..
qed

definition party_of :: "endpoint \<Rightarrow> party" where
  "party_of e = \<lparr>pa_endpoint = Some e, pa_connection = None, pa_agentAdapter = Some (ep_provider e),
     pa_threadId = ep_sessionId e, pa_agentType = ''agent'', pa_threadName = None, pa_workspace = None\<rparr>"

lemma same_endpoint_implies_same_identity_and_address_witness:
  "sameAgentPartyAddress (party_of sample_endpoint) (party_of (sample_endpoint\<lparr>ep_agentId := ''alias''\<rparr>))"
proof -
  let ?f = "sample_endpoint\<lparr>ep_agentId := ''alias''\<rparr>"
  have "sameAgentEndpoint (Some sample_endpoint) (Some ?f)"
    "normalizeAgentRequestEndpoint (endpoint_json ?f) = Inr ?f"
    by code_simp+
  from same_endpoint_implies_same_identity_and_address
    [OF this(1) sample_endpoint_ok this(2), of "party_of sample_endpoint" "party_of ?f"]
  show ?thesis by (simp add: party_of_def)
qed

end
