(* ===== verification/Contracts.thy ===== *)
theory Contracts
  imports Endpoint
begin

text \<open>
  The contracts every Agent request passes before any state is touched:
  the identifiers of \<open>requestValidation.ts\<close>, the frozen execution options of
  \<open>executionOptions.ts\<close>, the positive proof that no prompt frame was sent of
  \<open>deliveryFailure.ts\<close>, and the reply-state error of \<open>replyError.ts\<close>
  (all in \<open>src/src/agentRequests\<close>).

  Times are milliseconds. A time the program writes with \<open>toISOString\<close> is
  \<open>Iso ms\<close>; a text of another origin is \<open>Text s\<close>, whose \<open>Date.parse\<close>
  is the parameter \<open>date\<close>.
\<close>

section \<open>Times\<close>

datatype stamp = Iso int | Text string

fun date_parse :: "(string \<Rightarrow> int option) \<Rightarrow> stamp \<Rightarrow> int option" where
  "date_parse date (Iso ms) = Some ms"
| "date_parse date (Text s) = date s"

section \<open>Identifiers\<close>

definition opaque_text :: "nat \<Rightarrow> jval \<Rightarrow> bool" where
  "opaque_text limit v = (case as_string v of None \<Rightarrow> False
     | Some s \<Rightarrow> s \<noteq> [] \<and> s = js_trim s \<and> length s \<le> limit \<and> \<not> list_ex line_break_or_nul s)"

definition completeAgentSessionId :: "jval \<Rightarrow> string \<Rightarrow> string result" where
  "completeAgentSessionId v field =
    (if opaque_text 4096 v then Inr (case as_string v of Some s \<Rightarrow> s | None \<Rightarrow> [])
     else Inl (ContractErr ''Complete opaque session ID is required.'' field
       (if field = ''sourceThreadId'' then ''source_verification'' else ''validation'') ''AGENT_SESSION_ID_REQUIRED''))"

definition normalizeAgentThreadSourceType :: "jval \<Rightarrow> string" where
  "normalizeAgentThreadSourceType v = (case as_string v of None \<Rightarrow> ''agent''
     | Some s \<Rightarrow> or_str (Some (js_slice0 80 (js_trim (map (\<lambda>c. if (of_char c :: nat) \<in> {10, 13} then CHR '' '' else c) s))))
                 ''agent'')"

definition callerAgentDeliveryId :: "jval \<Rightarrow> (string option) result" where
  "callerAgentDeliveryId v =
    (if v = JUndef then Inr None
     else if opaque_text 100 v then Inr (as_string v)
     else Inl (ContractErr ''Invalid deliveryId for Agent delivery.'' ''deliveryId'' ''validation''
            ''AGENT_THREAD_CONTRACT_INVALID''))"

definition caller_id_ok :: "string \<Rightarrow> bool" where
  "caller_id_ok s \<longleftrightarrow> s \<noteq> [] \<and> js_trim s = s \<and> length s \<le> 100 \<and> \<not> list_ex line_break_or_nul s"

lemma callerAgentDeliveryId_iff:
  "callerAgentDeliveryId v = Inr x \<longleftrightarrow>
    (v = JUndef \<and> x = None \<or> (\<exists>s. v = JStr s \<and> x = Some s \<and> caller_id_ok s))"
  by (auto simp: callerAgentDeliveryId_def opaque_text_def caller_id_ok_def split: option.splits if_splits)

lemma callerAgentDeliveryId_simps [simp]:
  "callerAgentDeliveryId JUndef = Inr None"
  "caller_id_ok s \<Longrightarrow> callerAgentDeliveryId (JStr s) = Inr (Some s)"
  by (simp_all add: callerAgentDeliveryId_iff)

section \<open>Reply-state errors\<close>

text \<open>
  \<open>AgentReplyStateError\<close>: the identifier and status of the record and the reason, and
  the advice chosen from them.
\<close>

datatype reply_advice = FromOriginalTarget | ToOriginalSource | ReadWorkspaces | VerifyDelivery | AlreadyResponded | ReadCancellation

definition replyNextAction :: "string \<Rightarrow> string \<Rightarrow> reply_advice" where
  "replyNextAction status reason =
    (if reason = ''reply_sender_does_not_match_original_target'' then FromOriginalTarget
     else if reason = ''reply_destination_does_not_match_original_source'' then ToOriginalSource
     else if reason = ''reply_sender_workspace_mismatch'' \<or> reason = ''reply_destination_workspace_mismatch'' then ReadWorkspaces
     else if status = ''pending_delivery'' then VerifyDelivery
     else if status = ''responded'' then AlreadyResponded
     else ReadCancellation)"

section \<open>Execution options\<close>

record grok_delivery =
  gd_deliveryType :: jval
  gd_sendMode :: jval
  gd_senderAgentId :: "string option"

text \<open>
  The options checked through \<open>String(v)\<close> are stored as the value that was given, so
  they keep the type of values.
\<close>

record exec_options =
  eo_cwd :: "string option"
  eo_model :: "string option"
  eo_reasoningEffort :: jval
  eo_sandbox :: jval
  eo_dshDeliveryMode :: "string option"
  eo_grokBotDelivery :: "grok_delivery option"

definition boundedText :: "jval \<Rightarrow> string \<Rightarrow> nat \<Rightarrow> string result" where
  "boundedText v name limit = (case as_string v of
     Some s \<Rightarrow> if js_trim s \<noteq> [] \<and> length s \<le> limit \<and> \<not> list_ex (\<lambda>c. (of_char c :: nat) = 0) s
               then Inr (js_trim s) else Inl (Err (''Invalid endpoint execution '' @ name @ ''.''))
   | None \<Rightarrow> Inl (Err (''Invalid endpoint execution '' @ name @ ''.'')))"

definition optional_text :: "jval \<Rightarrow> string \<Rightarrow> nat \<Rightarrow> (string option) result" where
  "optional_text v name limit =
    (if v = JUndef then Inr None else bind (boundedText v name limit) (\<lambda>s. Inr (Some s)))"

definition optional_member :: "jval \<Rightarrow> string list \<Rightarrow> string \<Rightarrow> unit result" where
  "optional_member v names message =
    check (v = JUndef \<or> js_String v \<in> set names) (Err message)"

definition normalizeGrokDelivery :: "jval \<Rightarrow> grok_delivery result" where
  "normalizeGrokDelivery d =
    bind (check (is_object d \<and> list_all (\<lambda>k. k \<in> {''deliveryType'', ''sendMode'', ''senderAgentId''}) (jkeys d)
        \<and> js_String (jget d ''deliveryType'') \<in> {''private'', ''group''}
        \<and> js_String (jget d ''sendMode'') \<in> {''direct'', ''identity''}) (Err ''Invalid Grok Bot delivery options.'')) (\<lambda>_.
    bind (check (\<not> (jget d ''sendMode'' = JStr ''direct'' \<and> jget d ''senderAgentId'' \<noteq> JUndef))
        (Err ''Direct delivery cannot carry a sender identity.'')) (\<lambda>_.
    bind (if jget d ''sendMode'' = JStr ''identity''
          then bind (boundedText (jget d ''senderAgentId'') ''senderAgentId'' 4096) (\<lambda>s. Inr (Some s))
          else Inr None) (\<lambda>sender.
    Inr \<lparr>gd_deliveryType = jget d ''deliveryType'', gd_sendMode = jget d ''sendMode'', gd_senderAgentId = sender\<rparr>)))"

definition exec_option_fields :: "string list" where
  "exec_option_fields = [''cwd'', ''model'', ''reasoningEffort'', ''sandbox'', ''dshDeliveryMode'', ''grokBotDelivery'']"

definition reasoning_efforts :: "string list" where
  "reasoning_efforts = [''none'', ''minimal'', ''low'', ''medium'', ''high'', ''xhigh'', ''max'', ''ultra'']"

definition sandbox_modes :: "string list" where
  "sandbox_modes = [''read-only'', ''workspace-write'', ''danger-full-access'']"

definition normalizeEndpointExecutionOptions :: "jval \<Rightarrow> exec_options result" where
  "normalizeEndpointExecutionOptions v =
    bind (check (is_object v) (Err ''Endpoint execution options are required.'')) (\<lambda>_.
    bind (check (list_all (\<lambda>k. k \<in> set exec_option_fields) (jkeys v)) (Err ''Unsupported endpoint execution option.'')) (\<lambda>_.
    bind (optional_text (jget v ''cwd'') ''cwd'' 32768) (\<lambda>cwd.
    bind (optional_text (jget v ''model'') ''model'' 500) (\<lambda>model.
    bind (optional_member (jget v ''reasoningEffort'') reasoning_efforts ''Invalid endpoint execution reasoningEffort.'') (\<lambda>_.
    bind (optional_member (jget v ''sandbox'') sandbox_modes ''Invalid endpoint execution sandbox.'') (\<lambda>_.
    bind (check (jget v ''dshDeliveryMode'' \<in> {JUndef, JStr ''queue'', JStr ''steer''})
        (Err ''Invalid endpoint execution dshDeliveryMode.'')) (\<lambda>_.
    bind (if jget v ''grokBotDelivery'' = JUndef then Inr None
          else bind (normalizeGrokDelivery (jget v ''grokBotDelivery'')) (\<lambda>g. Inr (Some g))) (\<lambda>grok.
    Inr \<lparr>eo_cwd = cwd, eo_model = model, eo_reasoningEffort = jget v ''reasoningEffort'',
         eo_sandbox = jget v ''sandbox'', eo_dshDeliveryMode = as_string (jget v ''dshDeliveryMode''),
         eo_grokBotDelivery = grok\<rparr>))))))))"

text \<open>The normalised options as an object, in the order in which the code sets its properties.\<close>

definition grok_json :: "grok_delivery \<Rightarrow> jval" where
  "grok_json g = JObj ([(''deliveryType'', gd_deliveryType g), (''sendMode'', gd_sendMode g)]
     @ (case gd_senderAgentId g of None \<Rightarrow> [] | Some s \<Rightarrow> [(''senderAgentId'', JStr s)]))"

definition value_field :: "string \<Rightarrow> jval \<Rightarrow> (string \<times> jval) list" where
  "value_field k v = (if v = JUndef then [] else [(k, v)])"

definition exec_options_json :: "exec_options \<Rightarrow> jval" where
  "exec_options_json x = JObj (value_field ''cwd'' (opt_str (eo_cwd x)) @ value_field ''model'' (opt_str (eo_model x))
     @ value_field ''reasoningEffort'' (eo_reasoningEffort x) @ value_field ''sandbox'' (eo_sandbox x)
     @ value_field ''dshDeliveryMode'' (opt_str (eo_dshDeliveryMode x))
     @ value_field ''grokBotDelivery'' (case eo_grokBotDelivery x of None \<Rightarrow> JUndef | Some g \<Rightarrow> grok_json g))"

definition endpointExecutionOptionsHash :: "(string \<Rightarrow> string) \<Rightarrow> jval \<Rightarrow> string result" where
  "endpointExecutionOptionsHash H v =
     bind (normalizeEndpointExecutionOptions v) (\<lambda>x. Inr (H (stringify (exec_options_json x))))"

section \<open>Resolving the options of a request\<close>

record thread_request =
  tr_agentAdapter :: string
  tr_cwd :: jval
  tr_model :: jval
  tr_reasoningEffort :: jval
  tr_sandbox :: jval
  tr_dshDeliveryMode :: jval

text \<open>\<open>a ?? b\<close>\<close>

definition js_or_nullish :: "jval \<Rightarrow> jval \<Rightarrow> jval" where
  "js_or_nullish a b = (if a = JUndef \<or> a = JNull then b else a)"

definition resolveEndpointExecutionOptions ::
    "thread_request \<Rightarrow> string option \<Rightarrow> (string option \<times> string option) option \<Rightarrow> exec_options result" where
  "resolveEndpointExecutionOptions request ownerWorkspace defaults =
    (if tr_agentAdapter request = ''deviceAgent'' then
       if tr_cwd request \<noteq> JUndef \<or> tr_model request \<noteq> JUndef \<or> tr_reasoningEffort request \<noteq> JUndef
          \<or> tr_sandbox request \<noteq> JUndef \<or> tr_dshDeliveryMode request \<noteq> JUndef
       then Inl (Err ''Device endpoint uses its own runtime and cannot apply PC execution options.'')
       else Inr \<lparr>eo_cwd = None, eo_model = None, eo_reasoningEffort = JUndef, eo_sandbox = JUndef,
                 eo_dshDeliveryMode = None, eo_grokBotDelivery = None\<rparr>
     else
       let explicitModel = tr_model request \<noteq> JUndef;
           isCodex = (tr_agentAdapter request = ''codex'');
           model = (if explicitModel then tr_model request
                    else if isCodex then opt_str (Option.bind defaults fst) else JUndef);
           effort = js_or_nullish (tr_reasoningEffort request)
                      (if \<not> explicitModel \<and> isCodex then opt_str (Option.bind defaults snd) else JUndef) in
       bind (normalizeEndpointExecutionOptions (JObj ([(''cwd'', js_or_nullish (tr_cwd request) (opt_str ownerWorkspace))]
               @ value_field ''model'' model @ value_field ''reasoningEffort'' effort
               @ value_field ''sandbox'' (tr_sandbox request)
               @ value_field ''dshDeliveryMode'' (tr_dshDeliveryMode request)))) (\<lambda>options.
       bind (check (truthy (eo_cwd options)) (Err ''This PC endpoint requires its actual owner execution directory.'')) (\<lambda>_.
       bind (check (isCodex \<or> eo_model options = None \<and> eo_reasoningEffort options = JUndef \<and> eo_sandbox options = JUndef)
               (Err ''This endpoint provider cannot apply model, reasoningEffort or sandbox through the prepared delivery contract.'')) (\<lambda>_.
       bind (check (\<not> (js_truthy (eo_reasoningEffort options) \<and> \<not> truthy (eo_model options)))
               (Err ''Reasoning effort requires an explicit or target Route model; owner settings were not changed.'')) (\<lambda>_.
       bind (check (tr_agentAdapter request = ''dsh'' \<or> eo_dshDeliveryMode options = None)
               (Err ''dshDeliveryMode is only supported by DSH.'')) (\<lambda>_.
       Inr options))))))"

section \<open>Normal forms of execution options\<close>

definition bounded_ok :: "nat \<Rightarrow> string \<Rightarrow> bool" where
  "bounded_ok limit s \<longleftrightarrow> s \<noteq> [] \<and> js_trim s = s \<and> length s \<le> limit \<and> \<not> list_ex (\<lambda>c. (of_char c :: nat) = 0) s"

definition grok_ok :: "grok_delivery \<Rightarrow> bool" where
  "grok_ok g \<longleftrightarrow> js_String (gd_deliveryType g) \<in> {''private'', ''group''}
     \<and> js_String (gd_sendMode g) \<in> {''direct'', ''identity''}
     \<and> (gd_senderAgentId g \<noteq> None \<longleftrightarrow> gd_sendMode g = JStr ''identity'')
     \<and> pred_option (bounded_ok 4096) (gd_senderAgentId g)"

definition exec_options_ok :: "exec_options \<Rightarrow> bool" where
  "exec_options_ok x \<longleftrightarrow> pred_option (bounded_ok 32768) (eo_cwd x) \<and> pred_option (bounded_ok 500) (eo_model x)
     \<and> (eo_reasoningEffort x = JUndef \<or> js_String (eo_reasoningEffort x) \<in> set reasoning_efforts)
     \<and> (eo_sandbox x = JUndef \<or> js_String (eo_sandbox x) \<in> set sandbox_modes)
     \<and> eo_dshDeliveryMode x \<in> {None, Some ''queue'', Some ''steer''}
     \<and> pred_option grok_ok (eo_grokBotDelivery x)"

lemma list_ex_trim: "list_ex P (js_trim s) \<Longrightarrow> list_ex P s"
  by (auto simp: list_ex_iff js_trim_def dest!: set_dropWhileD)

lemma boundedText_sound: "boundedText v name limit = Inr s \<Longrightarrow> bounded_ok limit s"
  using js_trim_length_le order_trans
  by (fastforce simp: boundedText_def bounded_ok_def dest: list_ex_trim split: option.splits if_splits)

lemma boundedText_complete [simp]: "bounded_ok limit s \<Longrightarrow> boundedText (JStr s) name limit = Inr s"
  by (simp add: boundedText_def bounded_ok_def)

lemma optional_text_sound: "optional_text v name limit = Inr x \<Longrightarrow> pred_option (bounded_ok limit) x"
  by (auto simp: optional_text_def dest: boundedText_sound split: if_splits)

lemma optional_text_complete [simp]:
  "pred_option (bounded_ok limit) x \<Longrightarrow> optional_text (opt_str x) name limit = Inr x"
  by (cases x) (auto simp: optional_text_def)

lemma optional_member_iff [simp]:
  "optional_member v names m = Inr u \<longleftrightarrow> v = JUndef \<or> js_String v \<in> set names"
  by (simp add: optional_member_def)

lemma grok_norm_sound: "normalizeGrokDelivery d = Inr g \<Longrightarrow> grok_ok g"
  by (cases "jget d ''sendMode'' = JStr ''identity''")
    (auto simp: normalizeGrokDelivery_def grok_ok_def dest: boundedText_sound)

lemma grok_json_defined [simp]: "grok_json g \<noteq> JUndef"
  by (simp add: grok_json_def)

lemma jget_grok_json [simp]:
  "jget (grok_json g) ''deliveryType'' = gd_deliveryType g" "jget (grok_json g) ''sendMode'' = gd_sendMode g"
  "jget (grok_json g) ''senderAgentId'' = opt_str (gd_senderAgentId g)"
  by (cases "gd_senderAgentId g"; simp add: grok_json_def)+

lemma grok_norm_complete: "grok_ok g \<Longrightarrow> normalizeGrokDelivery (grok_json g) = Inr g"
proof -
  assume ok: "grok_ok g"
  then have "list_all (\<lambda>k. k \<in> {''deliveryType'', ''sendMode'', ''senderAgentId''}) (jkeys (grok_json g))"
    by (cases "gd_senderAgentId g") (simp_all add: grok_json_def)
  moreover have "is_object (grok_json g)" by (simp add: grok_json_def)
  ultimately show ?thesis
    using ok by (cases "gd_senderAgentId g"; cases g) (auto simp: normalizeGrokDelivery_def grok_ok_def)
qed

lemma exec_norm_sound: "normalizeEndpointExecutionOptions v = Inr x \<Longrightarrow> exec_options_ok x"
  unfolding normalizeEndpointExecutionOptions_def exec_options_ok_def
  by (cases "jget v ''grokBotDelivery'' = JUndef")
    (fastforce dest: optional_text_sound grok_norm_sound)+

lemma map_of_value_field [simp]:
  "map_of (value_field k v @ fs) j = (if j = k \<and> v \<noteq> JUndef then Some v else map_of fs j)"
  "map_of (value_field k v) j = (if j = k \<and> v \<noteq> JUndef then Some v else None)"
  by (auto simp: value_field_def)

lemma jget_exec_options_json [simp]:
  "jget (exec_options_json x) ''cwd'' = opt_str (eo_cwd x)"
  "jget (exec_options_json x) ''model'' = opt_str (eo_model x)"
  "jget (exec_options_json x) ''reasoningEffort'' = eo_reasoningEffort x"
  "jget (exec_options_json x) ''sandbox'' = eo_sandbox x"
  "jget (exec_options_json x) ''dshDeliveryMode'' = opt_str (eo_dshDeliveryMode x)"
  "jget (exec_options_json x) ''grokBotDelivery'' = (case eo_grokBotDelivery x of None \<Rightarrow> JUndef | Some g \<Rightarrow> grok_json g)"
  by (simp_all add: exec_options_json_def del: map_of_append)

lemma jkeys_exec_options_json: "list_all (\<lambda>k. k \<in> set exec_option_fields) (jkeys (exec_options_json x))"
  by (auto simp: exec_options_json_def list_all_iff value_field_def exec_option_fields_def)

lemma exec_norm_complete:
  assumes ok: "exec_options_ok x"
  shows "normalizeEndpointExecutionOptions (exec_options_json x) = Inr x"
proof -
  have dsh: "opt_str (eo_dshDeliveryMode x) \<in> {JUndef, JStr ''queue'', JStr ''steer''}"
    "as_string (opt_str (eo_dshDeliveryMode x)) = eo_dshDeliveryMode x"
    using ok by (auto simp: exec_options_ok_def)
  have "is_object (exec_options_json x)" by (simp add: exec_options_json_def)
  with ok dsh jkeys_exec_options_json [of x] show ?thesis
    by (cases "eo_grokBotDelivery x")
      (simp_all add: normalizeEndpointExecutionOptions_def exec_options_ok_def optional_member_def
        grok_norm_complete del: bind_eq_Inr)
qed

interpretation exec_norm: normaliser normalizeEndpointExecutionOptions exec_options_json exec_options_ok
  by unfold_locales (fact exec_norm_sound, fact exec_norm_complete)

lemma exec_options_json_inj:
  assumes "exec_options_json x = exec_options_json y" "exec_options_ok x" "exec_options_ok y"
  shows "x = y"
  using assms exec_norm_complete by (metis Inr_inject)

section \<open>Properties\<close>

text \<open>Normalising execution options either throws or yields options within every bound
  (directory at most 32768 characters, model at most 500, a known effort, sandbox and delivery
  mode, a sender only for identity deliveries), and normalising the result again changes nothing.
  The frozen hash then determines the options: two accepted inputs with the same hash, over a
  digest that does not collide on them, freeze the same options.\<close>

theorem execution_options_frozen_by_hash:
  assumes "normalizeEndpointExecutionOptions v = Inr x" "normalizeEndpointExecutionOptions w = Inr y"
    and "json_pure (exec_options_json x)" "json_pure (exec_options_json y)"
    and "\<And>s t. H s = H t \<Longrightarrow> s = stringify (exec_options_json x) \<Longrightarrow> t = stringify (exec_options_json y) \<Longrightarrow> s = t"
    and "endpointExecutionOptionsHash H v = endpointExecutionOptionsHash H w"
  shows "exec_options_ok x \<and> normalizeEndpointExecutionOptions (exec_options_json x) = Inr x \<and> x = y"
proof -
  have "stringify (exec_options_json x) = stringify (exec_options_json y)"
    using assms by (simp add: endpointExecutionOptionsHash_def)
  from stringify_inj [OF assms(3,4) this] assms(1,2) show ?thesis
    using exec_norm.norm_sound exec_norm.norm_idem exec_options_json_inj by blast
qed

definition sample_options :: jval where
  "sample_options = JObj [(''model'', JStr ''gpt ''), (''cwd'', JStr ''/w''), (''reasoningEffort'', JStr ''low'')]"

lemma execution_options_frozen_by_hash_witness:
  "exec_options_ok \<lparr>eo_cwd = Some ''/w'', eo_model = Some ''gpt'', eo_reasoningEffort = JStr ''low'',
     eo_sandbox = JUndef, eo_dshDeliveryMode = None, eo_grokBotDelivery = None\<rparr>"
proof -
  have n: "normalizeEndpointExecutionOptions sample_options = Inr \<lparr>eo_cwd = Some ''/w'', eo_model = Some ''gpt'',
     eo_reasoningEffort = JStr ''low'', eo_sandbox = JUndef, eo_dshDeliveryMode = None, eo_grokBotDelivery = None\<rparr>"
    by code_simp
  have p: "json_pure (exec_options_json \<lparr>eo_cwd = Some ''/w'', eo_model = Some ''gpt'',
     eo_reasoningEffort = JStr ''low'', eo_sandbox = JUndef, eo_dshDeliveryMode = None, eo_grokBotDelivery = None\<rparr>)"
    by code_simp
  from execution_options_frozen_by_hash [OF n n p p, of rev] show ?thesis by simp
qed

text \<open>The membership checks of effort and sandbox convert their argument with
  \<open>String\<close>, so a one-element array passes as its element and is stored as an array: two
  inputs that name the same effort are accepted with different frozen options, and the stored
  value is not a string. (The check means to admit only the eight effort names.)\<close>

theorem execution_options_accept_array_effort:
  "\<exists>x. normalizeEndpointExecutionOptions (JObj [(''reasoningEffort'', JArr [JStr ''low''])]) = Inr x
     \<and> as_string (eo_reasoningEffort x) = None
     \<and> endpointExecutionOptionsHash id (JObj [(''reasoningEffort'', JArr [JStr ''low''])])
        \<noteq> endpointExecutionOptionsHash id (JObj [(''reasoningEffort'', JStr ''low'')])"
proof -
  have "normalizeEndpointExecutionOptions (JObj [(''reasoningEffort'', JArr [JStr ''low''])])
    = Inr \<lparr>eo_cwd = None, eo_model = None, eo_reasoningEffort = JArr [JStr ''low''], eo_sandbox = JUndef,
       eo_dshDeliveryMode = None, eo_grokBotDelivery = None\<rparr>" by code_simp
  moreover have "endpointExecutionOptionsHash id (JObj [(''reasoningEffort'', JArr [JStr ''low''])])
    \<noteq> endpointExecutionOptionsHash id (JObj [(''reasoningEffort'', JStr ''low'')])" by code_simp
  ultimately show ?thesis by simp
qed

end
