(* ===== verification/Delivery.thy ===== *)
theory Delivery
  imports Contracts
begin

text \<open>
  The data of Agent requests (the types of \<open>agentRequests/state.ts\<close>,
  \<open>endpointDelivery.ts\<close> and \<open>deliveryFailure.ts\<close>) and the pure functions on
  them: text cleaning, party normalisation, receipt and no-frame validation, party history and
  the reply destination.

  Optional properties of the source are options. The two enumerations are datatypes, identifiers
  and texts are strings.
\<close>

record no_frame_proof =
  nf_kind :: string
  nf_deliveryId :: string
  nf_generation :: string
  nf_promptHash :: string
  nf_executionOptionsHash :: string
  nf_dispatchAttemptId :: string
  nf_endpoint :: "endpoint option"
  nf_attemptId :: string
  nf_attemptSequence :: int
  nf_observedAt :: stamp

record receipt =
  rc_deliveryId :: string
  rc_generation :: string
  rc_endpoint :: "endpoint option"
  rc_promptHash :: string
  rc_executionOptionsHash :: string
  rc_accepted :: bool
  rc_action :: string
  rc_transport :: string

record preparation =
  pr_deliveryId :: string
  pr_requestId :: "string option"
  pr_inReplyToRequestId :: "string option"
  pr_responsePolicy :: string
  pr_responseInstruction :: "string option"
  pr_result :: "string option"
  pr_nextAction :: "string option"
  pr_source :: party
  pr_target :: party
  pr_messageProcessingRequirementId :: "string option"
  pr_planId :: "string option"

datatype delivery_state = Prepared | Dispatching | Committed | DCancelled

record delivery =
  dl_deliveryId :: string
  dl_generation :: string
  dl_source :: delivery_source
  dl_target :: endpoint
  dl_prompt :: string
  dl_promptHash :: string
  dl_executionOptionsHash :: string
  dl_executionOptions :: jval
  dl_preparation :: preparation
  dl_state :: delivery_state
  dl_createdAt :: "stamp option"
  dl_updatedAt :: "stamp option"
  dl_lastAttemptAt :: "stamp option"
  dl_nextAttemptAt :: "stamp option"
  dl_attemptCount :: "nat option"
  dl_retryCount :: "nat option"
  dl_dispatchAttemptId :: "string option"
  dl_lastNoFrameProof :: "no_frame_proof option"
  dl_lastError :: "(string option \<times> string) option"
  dl_blockedReason :: "string option"
  dl_callerDeliveryId :: "string option"
  dl_requestHash :: "string option"
  dl_receipt :: "receipt option"

datatype request_status = PendingDelivery | AwaitingResponse | Responded | RCancelled

record response =
  rs_deliveryId :: string
  rs_by :: party
  rs_result :: string
  rs_nextAction :: string
  rs_respondedAt :: stamp

record request =
  rq_id :: string
  rq_deliveryId :: string
  rq_status :: request_status
  rq_source :: party
  rq_sourceHistory :: "party list option"
  rq_target :: party
  rq_targetHistory :: "party list option"
  rq_responseInstruction :: string
  rq_messageProcessingRequirementId :: "string option"
  rq_planId :: "string option"
  rq_createdAt :: stamp
  rq_deliveredAt :: "stamp option"
  rq_deliveryAction :: "string option"
  rq_deliveryTransport :: "string option"
  rq_pendingResponseDeliveryId :: "string option"
  rq_pendingResponseEvidence :: "(string \<times> preparation) option"
  rq_response :: "response option"
  rq_cancelledAt :: "stamp option"
  rq_cancelReason :: "string option"
  rq_updatedAt :: stamp

fun status_name :: "request_status \<Rightarrow> string" where
  "status_name PendingDelivery = ''pending_delivery''"
| "status_name AwaitingResponse = ''awaiting_response''"
| "status_name Responded = ''responded''"
| "status_name RCancelled = ''cancelled''"

section \<open>Texts\<close>

definition cleanText :: "string option \<Rightarrow> nat \<Rightarrow> string" where
  "cleanText v limit = (case v of None \<Rightarrow> [] | Some s \<Rightarrow> js_slice0 limit (js_trim s))"

text \<open>\<open>split(/\r?\n/)\<close> and \<open>join("\n")\<close>.\<close>

fun split_lines :: "string \<Rightarrow> string list" where
  "split_lines [] = [[]]"
| "split_lines (c # cs) =
    (if (of_char c :: nat) = 10 then [] # split_lines cs
     else if (of_char c :: nat) = 13 \<and> cs \<noteq> [] \<and> (of_char (hd cs) :: nat) = 10 then split_lines cs
     else (case split_lines cs of [] \<Rightarrow> [[c]] | l # ls \<Rightarrow> (c # l) # ls))"

fun join_lines :: "string list \<Rightarrow> string" where
  "join_lines [] = []"
| "join_lines [l] = l"
| "join_lines (l # m # ls) = l @ CHR 0x0A # join_lines (m # ls)"

text \<open>
  \<open>normalizeRabiMessageContent(value, true)\<close>: the message is trimmed, and a line that
  is a bracketed header of 1 to 100 characters is quoted. The other headers it strips or quotes
  contain CJK characters, which have no code unit below 256, so no string of the model has them.
\<close>

definition reserved_header :: "string \<Rightarrow> bool" where
  "reserved_header line = (case line of [] \<Rightarrow> False
     | c # cs \<Rightarrow> c = CHR ''['' \<and> cs \<noteq> [] \<and> last cs = CHR '']'' \<and> 1 \<le> length (butlast cs) \<and> length (butlast cs) \<le> 100
         \<and> list_all (\<lambda>d. d \<noteq> CHR '']'' \<and> (of_char d :: nat) \<noteq> 13 \<and> (of_char d :: nat) \<noteq> 10) (butlast cs))"

definition normalizeRabiMessageContent :: "string \<Rightarrow> string" where
  "normalizeRabiMessageContent s =
    join_lines (map (\<lambda>line. if reserved_header (js_trim line) then ''> '' @ line else line) (split_lines (js_trim s)))"

definition cleanMessageResult :: "string option \<Rightarrow> string" where
  "cleanMessageResult v = js_slice0 12000 (normalizeRabiMessageContent (case v of None \<Rightarrow> [] | Some s \<Rightarrow> s))"

text \<open>The digest of a prompt; line ends are normalised first.\<close>

fun crlf_to_lf :: "string \<Rightarrow> string" where
  "crlf_to_lf [] = []"
| "crlf_to_lf (c # cs) =
    (if (of_char c :: nat) = 13 \<and> cs \<noteq> [] \<and> (of_char (hd cs) :: nat) = 10 then crlf_to_lf cs
     else c # crlf_to_lf cs)"

definition agentDeliveryPromptHash :: "(string \<Rightarrow> string) \<Rightarrow> string \<Rightarrow> string" where
  "agentDeliveryPromptHash H prompt = H (crlf_to_lf prompt)"

section \<open>Agent adapters and parties\<close>

definition adapter_char :: "char \<Rightarrow> bool" where
  "adapter_char c \<longleftrightarrow> is_alpha c \<or> is_digit c \<or> c \<in> set ''_.-''"

text \<open>\<open>/^[A-Za-z][A-Za-z0-9_.-]*$/\<close>\<close>

definition isAgentAdapterType :: "string \<Rightarrow> bool" where
  "isAgentAdapterType s = (case s of [] \<Rightarrow> False | c # cs \<Rightarrow> is_alpha c \<and> list_all adapter_char cs)"

definition parseAgentAdapterType :: "string \<Rightarrow> string option" where
  "parseAgentAdapterType s = (if s = ''codexDesktop'' \<or> s = ''codexApp'' then None
     else if isAgentAdapterType s then Some s else None)"

datatype role = SourceRole | TargetRole

text \<open>\<open>x ? normalise(x) : undefined\<close>\<close>

definition opt_norm :: "('a \<Rightarrow> 'b result) \<Rightarrow> 'a option \<Rightarrow> ('b option) result" where
  "opt_norm f x = (case x of None \<Rightarrow> Inr None | Some a \<Rightarrow> bind (f a) (\<lambda>b. Inr (Some b)))"

definition normalizedParty :: "party \<Rightarrow> role \<Rightarrow> party result" where
  "normalizedParty v role =
    (let threadId = cleanText (Some (pa_threadId v)) 4096 in
     bind (check (pa_threadId v = threadId) (Err ''Agent party requires complete, unmodified threadId.'')) (\<lambda>_.
     bind (opt_norm (\<lambda>e. normalizeAgentRequestEndpoint (endpoint_json e)) (pa_endpoint v)) (\<lambda>ep.
     bind (opt_norm (\<lambda>c. normalizeAgentConnectionSource (connection_json c)) (pa_connection v)) (\<lambda>connection.
     bind (check (\<not> (connection \<noteq> None \<and> (role = TargetRole \<or> ep \<noteq> None)))
             (Err ''A connection source is not an executable task target.'')) (\<lambda>_.
     bind (check (case ep of None \<Rightarrow> True | Some e \<Rightarrow> ep_sessionId e = threadId)
             (Err ''Agent endpoint sessionId does not match party threadId.'')) (\<lambda>_.
     let agentType = (let t = cleanText (Some (pa_agentType v)) 80 in
                      if t \<noteq> [] then t else if role = SourceRole then ''agent'' else []) in
     bind (check (threadId \<noteq> [] \<or> connection \<noteq> None) (Err ''Agent request party requires threadId.'')) (\<lambda>_.
     bind (check (agentType \<noteq> [] \<or> role \<noteq> TargetRole) (Err ''Agent request party requires agentType.'')) (\<lambda>_.
     Inr \<lparr>pa_endpoint = ep, pa_connection = connection,
          pa_agentAdapter = parseAgentAdapterType (cleanText (pa_agentAdapter v) 40),
          pa_threadId = threadId, pa_agentType = agentType,
          pa_threadName = or_undef (cleanText (pa_threadName v) 500),
          pa_workspace = or_undef (cleanText (pa_workspace v) 2000)\<rparr>))))))))"

text \<open>
  The history of a replaced party: unique by the text of thread and workspace, in the order of the first
  occurrence, the last twenty kept.
\<close>

definition appendPartyHistory :: "party list option \<Rightarrow> party \<Rightarrow> role \<Rightarrow> (party list) result" where
  "appendPartyHistory history p role =
    bind (normalizedParty p role) (\<lambda>n.
      let rows = (case history of None \<Rightarrow> [] | Some h \<Rightarrow> h) @ [n];
          key = (\<lambda>r. pa_threadId r @ CHR 0x0A # or_str (pa_workspace r) []);
          unique = map_values (fold (\<lambda>r m. AList.update (key r) r m) rows []) in
      Inr (drop (length unique - 20) unique))"

definition resolveAgentRequestReplyDestination :: "request option \<Rightarrow> party \<Rightarrow> (party option) result" where
  "resolveAgentRequestReplyDestination record requestedTarget = (case record of
     None \<Rightarrow> Inr None
   | Some r \<Rightarrow>
       if rq_status r \<noteq> AwaitingResponse then Inr None
       else bind (normalizedParty requestedTarget TargetRole) (\<lambda>target.
         Inr (if sameAgentPartyAddress target (rq_source r)
              \<or> pa_endpoint (rq_source r) = None
                \<and> list_ex (sameAgentPartyAddress target) (case rq_sourceHistory r of None \<Rightarrow> [] | Some h \<Rightarrow> h)
              then Some (rq_source r) else None)))"

section \<open>Receipts and proofs\<close>

definition receipt_matches :: "delivery \<Rightarrow> receipt \<Rightarrow> bool" where
  "receipt_matches d r \<longleftrightarrow> rc_accepted r \<and> rc_deliveryId r = dl_deliveryId d \<and> rc_generation r = dl_generation d
     \<and> rc_promptHash r = dl_promptHash d \<and> rc_executionOptionsHash r = dl_executionOptionsHash d
     \<and> sameAgentEndpoint (rc_endpoint r) (Some (dl_target d)) \<and> rc_action r \<noteq> [] \<and> rc_transport r \<noteq> []"

definition validateEndpointReceipt :: "delivery \<Rightarrow> receipt option \<Rightarrow> unit result" where
  "validateEndpointReceipt d r =
     check (case r of None \<Rightarrow> False | Some x \<Rightarrow> receipt_matches d x)
       (Err ''Prepared delivery receipt does not match the original endpoint, incarnation, generation and prompt hash.'')"

text \<open>A version 4 UUID, the case of the hexadecimal digits ignored.\<close>

definition is_hex :: "char \<Rightarrow> bool" where
  "is_hex c \<longleftrightarrow> c \<in> set ''0123456789abcdefABCDEF''"

fun uuid4_chars :: "nat \<Rightarrow> string \<Rightarrow> bool" where
  "uuid4_chars i [] = (i = 36)"
| "uuid4_chars i (c # cs) = ((if i \<in> {8, 13, 18, 23} then c = CHR ''-''
      else if i = 14 then c = CHR ''4''
      else if i = 19 then c \<in> set ''89abAB''
      else i < 36 \<and> is_hex c) \<and> uuid4_chars (i + 1) cs)"

definition max_safe_integer :: int where
  "max_safe_integer = 9007199254740991"

definition validateEndpointDeliveryNoFrameProof ::
    "(string \<Rightarrow> int option) \<Rightarrow> delivery \<Rightarrow> no_frame_proof \<Rightarrow> unit result" where
  "validateEndpointDeliveryNoFrameProof date d proof =
     check (nf_kind proof = ''no-prompt-frame'' \<and> nf_deliveryId proof = dl_deliveryId d
        \<and> nf_generation proof = dl_generation d \<and> nf_promptHash proof = dl_promptHash d
        \<and> nf_executionOptionsHash proof = dl_executionOptionsHash d
        \<and> truthy (dl_dispatchAttemptId d) \<and> Some (nf_dispatchAttemptId proof) = dl_dispatchAttemptId d
        \<and> sameAgentEndpoint (nf_endpoint proof) (Some (dl_target d))
        \<and> uuid4_chars 0 (nf_attemptId proof)
        \<and> - max_safe_integer \<le> nf_attemptSequence proof \<and> nf_attemptSequence proof \<le> max_safe_integer
        \<and> 1 \<le> nf_attemptSequence proof
        \<and> date_parse date (nf_observedAt proof) \<noteq> None)
       (Err ''Transport no-frame proof does not match the exact original delivery and attempt.'')"

end
