(* ===== verification/RequestState.thy ===== *)
theory RequestState
  imports Delivery
begin

text \<open>
  The state machine of Agent requests, \<open>AgentRequestState\<close> of
  \<open>src/src/agentRequests/state.ts\<close>: its two maps, the reservations that survive
  damaged evidence, and every operation that changes them.

  An operation takes the environment of the call and the state, and returns its result or the
  thrown error together with the state it leaves. The environment holds what the call reads from
  outside: the clock (one reading per operation), fresh UUIDs, the retry jitter, the outcome of
  the write, and the parameters for the digest, \<open>Date.parse\<close> and the canonical path of
  a workspace. \<open>st_disk\<close> is the content of the last file the backend replaced; the
  quarantined entries, which no operation changes, are written back unchanged and are not part
  of it. Mutation audits and change listeners are not modelled.

  An object the source mutates in place is the entry of its map, updated at its key.
\<close>

section \<open>State and environment\<close>

text \<open>
  A write succeeds, fails before the file is replaced, or fails after it (the outcome the
  backend reports as \<open>AGENT_REQUEST_COMMIT_UNKNOWN\<close>).
\<close>

datatype write_outcome = WriteOk | WriteFailed | WriteUnknown

record env =
  env_now :: int
  env_write :: write_outcome
  env_deliveryUuid :: string
  env_requestUuid :: string
  env_attemptUuid :: string
  env_jitter :: nat
  env_hash :: "string \<Rightarrow> string"
  env_date :: "string \<Rightarrow> int option"
  env_canon :: "string \<Rightarrow> string"

text \<open>What the code reads of a quarantined entry.\<close>

record quarantined =
  qu_source :: "delivery_source option"
  qu_target :: "party option"
  qu_deliveryId :: "string option"
  qu_callerDeliveryId :: "string option"

type_synonym requests = "(string \<times> request) list"
type_synonym deliveries = "(string \<times> delivery) list"

record req_state =
  st_requests :: requests
  st_deliveries :: deliveries
  st_unavailable :: "string list"
  st_quarantinedRequests :: "(string \<times> quarantined) list"
  st_quarantinedDeliveries :: "(string \<times> quarantined) list"
  st_evidenceUnavailable :: "string option"
  st_disk :: "requests \<times> deliveries"

definition put_request :: "string \<Rightarrow> request \<Rightarrow> req_state \<Rightarrow> req_state" where
  "put_request k r s = s\<lparr>st_requests := AList.update k r (st_requests s)\<rparr>"

definition put_delivery :: "string \<Rightarrow> delivery \<Rightarrow> req_state \<Rightarrow> req_state" where
  "put_delivery k d s = s\<lparr>st_deliveries := AList.update k d (st_deliveries s)\<rparr>"

definition drop_request :: "string \<Rightarrow> req_state \<Rightarrow> req_state" where
  "drop_request k s = s\<lparr>st_requests := AList.delete k (st_requests s)\<rparr>"

definition drop_delivery :: "string \<Rightarrow> req_state \<Rightarrow> req_state" where
  "drop_delivery k s = s\<lparr>st_deliveries := AList.delete k (st_deliveries s)\<rparr>"

abbreviation request_at :: "req_state \<Rightarrow> string \<Rightarrow> request option" where
  "request_at s k \<equiv> map_of (st_requests s) k"

abbreviation delivery_at :: "req_state \<Rightarrow> string \<Rightarrow> delivery option" where
  "delivery_at s k \<equiv> map_of (st_deliveries s) k"

text \<open>\<open>id ? map.get(id) : undefined\<close>\<close>

definition linked_request :: "req_state \<Rightarrow> string option \<Rightarrow> request option" where
  "linked_request s x = (if truthy x then request_at s (the x) else None)"

section \<open>Persistence\<close>

definition persist :: "env \<Rightarrow> req_state \<Rightarrow> unit result \<times> req_state" where
  "persist env s = (case st_evidenceUnavailable s of
     Some reason \<Rightarrow> (Inl (Err reason), s)
   | None \<Rightarrow> (case env_write env of
       WriteOk \<Rightarrow> (Inr (), s\<lparr>st_disk := (st_requests s, st_deliveries s)\<rparr>)
     | WriteFailed \<Rightarrow> (Inl WriteErr, s)
     | WriteUnknown \<Rightarrow> (Inl (CodedErr ''AGENT_REQUEST_COMMIT_UNKNOWN''
           ''Agent request state replacement completed but its acknowledgement failed.''),
         s\<lparr>st_disk := (st_requests s, st_deliveries s)\<rparr>)))"

text \<open>\<open>try { persist(); } catch (e) { rollback; throw e; } return v\<close>\<close>

definition persist_or :: "env \<Rightarrow> (req_state \<Rightarrow> req_state) \<Rightarrow> 'a \<Rightarrow> req_state \<Rightarrow> 'a result \<times> req_state" where
  "persist_or env rollback v s = (case persist env s of
     (Inl e, s') \<Rightarrow> (Inl e, rollback s')
   | (Inr _, s') \<Rightarrow> (Inr v, s'))"

text \<open>
  \<open>transaction\<close>: the maps are replaced by drafts, which become the maps only when the
  operation returns.
\<close>

definition transaction :: "(req_state \<Rightarrow> 'a result \<times> req_state) \<Rightarrow> req_state \<Rightarrow> 'a result \<times> req_state" where
  "transaction operation s = (case operation s of
     (Inl e, s') \<Rightarrow> (Inl e, s'\<lparr>st_requests := st_requests s, st_deliveries := st_deliveries s\<rparr>)
   | (Inr v, s') \<Rightarrow> (Inr v, s'))"

section \<open>Reading\<close>

definition hasEndpointDeliveryReservation :: "req_state \<Rightarrow> string \<Rightarrow> bool" where
  "hasEndpointDeliveryReservation s deliveryId \<longleftrightarrow>
     delivery_at s deliveryId \<noteq> None \<or> deliveryId \<in> set (st_unavailable s)
     \<or> list_ex (\<lambda>r. rq_deliveryId r = deliveryId \<or> rq_pendingResponseDeliveryId r = Some deliveryId
         \<or> map_option rs_deliveryId (rq_response r) = Some deliveryId) (map_values (st_requests s))"

definition getRequest :: "req_state \<Rightarrow> string \<Rightarrow> request option" where
  "getRequest s requestId = request_at s (cleanText (Some requestId) 100)"

definition workspaceMatches :: "env \<Rightarrow> string option \<Rightarrow> string option \<Rightarrow> bool" where
  "workspaceMatches env left right =
     (if \<not> truthy left \<or> \<not> truthy right then True else sameCodexWorkspace (env_canon env) left right)"

definition hasManagedSession :: "env \<Rightarrow> req_state \<Rightarrow> string \<Rightarrow> string option \<Rightarrow> bool" where
  "hasManagedSession env s threadId workspace =
    (let id = cleanText (Some threadId) 4096 in
     list_ex (\<lambda>r. pa_threadId (rq_source r) = id \<and> workspaceMatches env (pa_workspace (rq_source r)) workspace
        \<or> pa_threadId (rq_target r) = id \<and> workspaceMatches env (pa_workspace (rq_target r)) workspace)
       (map_values (st_requests s)))"

definition resolveReplyDestination :: "req_state \<Rightarrow> string \<Rightarrow> party \<Rightarrow> (party option) result" where
  "resolveReplyDestination s requestId requestedTarget =
     resolveAgentRequestReplyDestination (request_at s (cleanText (Some requestId) 100)) requestedTarget"

text \<open>
  The exact owner of a caller's delivery identifier. A request reservation without a delivery
  body, or a quarantined delivery, that the caller may own forbids a replay; so do two bodies.
\<close>

definition caller_conflict :: "bool \<Rightarrow> js_error" where
  "caller_conflict reserved =
     ContractErr ''Original caller delivery evidence is ambiguous or damaged; automatic replay is forbidden.''
       ''deliveryId'' ''validation''
       (if reserved then ''AGENT_DELIVERY_RESERVATION_EXISTS'' else ''AGENT_DELIVERY_ID_CONFLICT'')"

definition reserves_for :: "env \<Rightarrow> req_state \<Rightarrow> string \<Rightarrow> string \<Rightarrow> delivery_source option \<times> string option \<Rightarrow> bool" where
  "reserves_for env s identity callerDeliveryId claim = (case claim of
     (Some src, Some d) \<Rightarrow>
       d \<noteq> [] \<and> delivery_at s d = None
       \<and> agentDeliveryCallerSourceIdentity src = Inr identity
       \<and> is_ok (sourceScopedAgentDeliveryId (env_hash env) src callerDeliveryId False)
       \<and> is_ok (sourceScopedAgentDeliveryId (env_hash env) src callerDeliveryId True)
       \<and> Inr d \<in> {sourceScopedAgentDeliveryId (env_hash env) src callerDeliveryId False,
                   sourceScopedAgentDeliveryId (env_hash env) src callerDeliveryId True}
   | _ \<Rightarrow> False)"

fun find_caller_delivery :: "string \<Rightarrow> string \<Rightarrow> delivery option \<Rightarrow> delivery list \<Rightarrow> (delivery option) result" where
  "find_caller_delivery identity callerDeliveryId found [] = Inr found"
| "find_caller_delivery identity callerDeliveryId found (d # ds) =
    (if dl_callerDeliveryId d \<noteq> Some callerDeliveryId then find_caller_delivery identity callerDeliveryId found ds
     else bind (agentDeliveryCallerSourceIdentity (dl_source d)) (\<lambda>i.
       if i \<noteq> identity then find_caller_delivery identity callerDeliveryId found ds
       else (case found of
           Some _ \<Rightarrow> Inl (caller_conflict False)
         | None \<Rightarrow> find_caller_delivery identity callerDeliveryId (Some d) ds)))"

definition readCallerEndpointDelivery ::
    "env \<Rightarrow> req_state \<Rightarrow> delivery_source \<Rightarrow> string \<Rightarrow> (delivery option) result" where
  "readCallerEndpointDelivery env s src callerDeliveryId =
     bind (agentDeliveryCallerSourceIdentity src) (\<lambda>identity.
     bind (check (\<not> list_ex (reserves_for env s identity callerDeliveryId)
             (map (\<lambda>r. (agentDeliverySourceForParty (rq_source r), Some (rq_deliveryId r))) (map_values (st_requests s))
              @ map (\<lambda>q. (qu_source q, qu_deliveryId q)) (map_values (st_quarantinedRequests s))))
           (caller_conflict True)) (\<lambda>_.
     bind (check (\<not> list_ex (\<lambda>q. qu_callerDeliveryId q = Some callerDeliveryId
               \<and> (case qu_source q of None \<Rightarrow> True
                  | Some src' \<Rightarrow> (case agentDeliveryCallerSourceIdentity src' of Inl _ \<Rightarrow> True | Inr i \<Rightarrow> i = identity)))
             (map_values (st_quarantinedDeliveries s)))
           (caller_conflict True)) (\<lambda>_.
     find_caller_delivery identity callerDeliveryId None (map_values (st_deliveries s)))))"

section \<open>Endpoint deliveries\<close>

definition assertEndpointDeliveryActive :: "env \<Rightarrow> req_state \<Rightarrow> string \<Rightarrow> unit result" where
  "assertEndpointDeliveryActive env s deliveryId = (case delivery_at s deliveryId of
     None \<Rightarrow> Inl (Err ''Endpoint delivery is missing or cancelled.'')
   | Some d \<Rightarrow>
       if dl_state d = DCancelled then Inl (Err ''Endpoint delivery is missing or cancelled.'')
       else
         let p = dl_preparation d in
         bind (if truthy (pr_requestId p) then
                 (case linked_request s (pr_requestId p) of
                    None \<Rightarrow> Inr False
                  | Some r \<Rightarrow> if rq_status r = RCancelled \<or> rq_deliveryId r \<noteq> deliveryId then Inr False
                              else sameAgentParty (env_canon env) (rq_target r) (pr_target p))
               else Inr True) (\<lambda>requestActive.
         check (requestActive
             \<and> (truthy (pr_inReplyToRequestId p) \<longrightarrow>
                 (case linked_request s (pr_inReplyToRequestId p) of
                    None \<Rightarrow> False
                  | Some r \<Rightarrow> rq_status r \<noteq> RCancelled
                      \<and> sameAgentPartyAddress (rq_source r) (pr_target p)
                      \<and> (rq_pendingResponseDeliveryId r = Some deliveryId
                         \<or> map_option rs_deliveryId (rq_response r) = Some deliveryId))))
           (Err ''Endpoint request was cancelled or its exact reservation changed; execution and reconciliation are forbidden.'')))"

definition bindEndpointDelivery :: "env \<Rightarrow> delivery \<Rightarrow> req_state \<Rightarrow> unit result \<times> req_state" where
  "bindEndpointDelivery env d s =
    (let p = dl_preparation d;
         valid = bind (normalizeAgentDeliverySource (dl_source d)) (\<lambda>_.
           bind (case dl_source d of
               ConnectionSource c \<Rightarrow>
                 bind (sameAgentDeliverySource (Some (dl_source d)) (agentDeliverySourceForParty (pr_source p)))
                   (\<lambda>same. check same (Err ''Connection source evidence mismatch.''))
             | EndpointSource e \<Rightarrow> Inr ()) (\<lambda>_.
           bind (check (delivery_at s (dl_deliveryId d) = None \<and> dl_state d = Prepared
                   \<and> dl_promptHash d = agentDeliveryPromptHash (env_hash env) (dl_prompt d))
                 (Err ''Invalid prepared endpoint delivery.'')) (\<lambda>_.
           bind (endpointExecutionOptionsHash (env_hash env) (dl_executionOptions d)) (\<lambda>h.
           check (dl_executionOptionsHash d = h
               \<and> pr_deliveryId p = dl_deliveryId d
               \<and> sameAgentEndpoint (Some (dl_target d)) (pa_endpoint (pr_target p))
               \<and> ep_sessionId (dl_target d) = pa_threadId (pr_target p))
             (Err ''Invalid prepared endpoint delivery.''))))) in
     case valid of
       Inl e \<Rightarrow> (Inl e, s)
     | Inr _ \<Rightarrow>
         persist_or env (drop_delivery (dl_deliveryId d)) ()
           (put_delivery (dl_deliveryId d)
             (d\<lparr>dl_createdAt := Some (Iso (env_now env)), dl_updatedAt := Some (Iso (env_now env)),
                dl_attemptCount := Some 0\<rparr>) s))"

definition markEndpointDispatching :: "env \<Rightarrow> string \<Rightarrow> req_state \<Rightarrow> string result \<times> req_state" where
  "markEndpointDispatching env deliveryId s =
    (case assertEndpointDeliveryActive env s deliveryId of
       Inl e \<Rightarrow> (Inl e, s)
     | Inr _ \<Rightarrow> (case delivery_at s deliveryId of
         None \<Rightarrow> (Inl (Err ''Endpoint delivery is missing or cancelled.''), s)
       | Some d \<Rightarrow>
           if dl_state d \<noteq> Prepared then (Inl (Err ''Endpoint delivery cannot be redispatched.''), s)
           else persist_or env (put_delivery deliveryId d) (env_attemptUuid env)
             (put_delivery deliveryId
               (d\<lparr>dl_state := Dispatching, dl_dispatchAttemptId := Some (env_attemptUuid env),
                  dl_updatedAt := Some (Iso (env_now env)), dl_lastAttemptAt := Some (Iso (env_now env)),
                  dl_attemptCount := Some ((case dl_attemptCount d of None \<Rightarrow> 0 | Some n \<Rightarrow> n) + 1),
                  dl_blockedReason := None, dl_lastError := None\<rparr>) s)))"

text \<open>The backoff of the retries: one second doubled, at most a minute, plus a jitter below a second.\<close>

definition retryDelayMs :: "nat \<Rightarrow> nat" where
  "retryDelayMs retryCount = min 60000 (1000 * 2 ^ min (retryCount - 1) 6)"

definition noteEndpointDeliveryFailure ::
    "env \<Rightarrow> string \<Rightarrow> string \<times> string option \<Rightarrow> bool \<Rightarrow> req_state \<Rightarrow> unit result \<times> req_state" where
  "noteEndpointDeliveryFailure env deliveryId error blocked s =
    (case delivery_at s deliveryId of
       None \<Rightarrow> (Inr (), s)
     | Some d \<Rightarrow>
         if dl_state d = Committed \<or> dl_state d = DCancelled then (Inr (), s)
         else
           let message = cleanText (Some (fst error)) 1024;
               code = or_undef (cleanText (snd error) 100);
               count = (case dl_retryCount d of None \<Rightarrow> 0 | Some n \<Rightarrow> n) + 1;
               delay = retryDelayMs count;
               d1 = d\<lparr>dl_updatedAt := Some (Iso (env_now env)), dl_lastError := Some (code, message)\<rparr>;
               d2 = (if dl_state d = Prepared
                     then d1\<lparr>dl_retryCount := Some count,
                             dl_nextAttemptAt := Some (Iso (env_now env + int delay + int (env_jitter env mod min 1000 delay)))\<rparr>
                     else d1\<lparr>dl_nextAttemptAt := None\<rparr>);
               d3 = (if blocked then d2\<lparr>dl_blockedReason := Some message\<rparr> else d2) in
           persist_or env (put_delivery deliveryId d) () (put_delivery deliveryId d3 s))"

definition markEndpointNotSent ::
    "env \<Rightarrow> string \<Rightarrow> no_frame_proof option \<Rightarrow> req_state \<Rightarrow> unit result \<times> req_state" where
  "markEndpointNotSent env deliveryId proof s =
    (case (delivery_at s deliveryId, proof) of
       (Some d, Some f) \<Rightarrow>
         if dl_state d = Prepared \<and> map_option nf_attemptId (dl_lastNoFrameProof d) = Some (nf_attemptId f)
         then (validateEndpointDeliveryNoFrameProof (env_date env) d f, s)
         else if dl_state d \<noteq> Dispatching \<or> dl_receipt d \<noteq> None
         then (Inl (Err ''Only a proven unsent dispatch can return to its prepared reservation.''), s)
         else (case validateEndpointDeliveryNoFrameProof (env_date env) d f of
             Inl e \<Rightarrow> (Inl e, s)
           | Inr _ \<Rightarrow> persist_or env (put_delivery deliveryId d) ()
               (put_delivery deliveryId (d\<lparr>dl_lastNoFrameProof := Some f, dl_state := Prepared,
                  dl_updatedAt := Some (Iso (env_now env))\<rparr>) s))
     | (Some d, None) \<Rightarrow>
         if dl_state d \<noteq> Dispatching \<or> dl_receipt d \<noteq> None
         then (Inl (Err ''Only a proven unsent dispatch can return to its prepared reservation.''), s)
         else persist_or env (put_delivery deliveryId d) ()
           (put_delivery deliveryId (d\<lparr>dl_state := Prepared, dl_updatedAt := Some (Iso (env_now env))\<rparr>) s)
     | (None, _) \<Rightarrow> (Inl (Err ''Only a proven unsent dispatch can return to its prepared reservation.''), s))"

end
