(* ===== verification/RequestOps.thy ===== *)
theory RequestOps
  imports RequestState
begin

text \<open>
  The remaining operations of \<open>AgentRequestState\<close>
  (\<open>src/src/agentRequests/state.ts\<close>): preparing a request or a reply, binding its
  evidence, committing, aborting and cancelling it, and following the replacement of the parties
  of open requests.
\<close>

section \<open>Preparing\<close>

record prepare_input =
  pi_source :: party
  pi_target :: party
  pi_responsePolicy :: string
  pi_responseInstruction :: "string option"
  pi_inReplyToRequestId :: "string option"
  pi_result :: "string option"
  pi_nextAction :: "string option"
  pi_deliveryId :: "string option"
  pi_messageProcessingRequirementId :: "string option"
  pi_planId :: "string option"

text \<open>The guards on the request that is replied to.\<close>

definition check_reply :: "string \<Rightarrow> request option \<Rightarrow> party \<Rightarrow> string option \<Rightarrow> string option \<Rightarrow> request result" where
  "check_reply inReplyTo record target result nextAction = (case record of
     None \<Rightarrow> Inl (Err (''Agent request not found: '' @ inReplyTo))
   | Some r \<Rightarrow>
       if rq_status r \<noteq> AwaitingResponse
       then Inl (ReplyStateErr (rq_id r) (status_name (rq_status r)) ''request_state_does_not_accept_reply'')
       else if truthy (rq_pendingResponseDeliveryId r)
       then Inl (Err (''Agent request already has a response delivery in progress: '' @ inReplyTo))
       else if \<not> sameAgentPartyAddress target (rq_source r)
       then Inl (Err ''Agent response must be sent back to the original source task.'')
       else if result = None then Inl (Err ''result is required when replying to an Agent request.'')
       else if nextAction = None then Inl (Err ''nextAction is required when replying to an Agent request.'')
       else Inr r)"

text \<open>Everything \<open>prepare\<close> checks and computes before it writes.\<close>

definition prepare_plan :: "env \<Rightarrow> prepare_input \<Rightarrow> req_state \<Rightarrow> (preparation \<times> request option) result" where
  "prepare_plan env input s =
    bind (normalizedParty (pi_source input) SourceRole) (\<lambda>source.
    bind (normalizedParty (pi_target input) TargetRole) (\<lambda>target.
    let policy = pi_responsePolicy input in
    bind (check (policy = ''required'' \<or> policy = ''none'') (Err ''responsePolicy must be required or none.'')) (\<lambda>_.
    let instruction = cleanText (pi_responseInstruction input) 4000 in
    bind (check (policy \<noteq> ''required'' \<or> instruction \<noteq> [])
            (Err ''responseInstruction is required when responsePolicy is required.'')) (\<lambda>_.
    let inReplyTo = or_undef (cleanText (pi_inReplyToRequestId input) 100);
        result = or_undef (cleanMessageResult (pi_result input));
        nextAction = or_undef (cleanText (pi_nextAction input) 4000) in
    bind (callerAgentDeliveryId (opt_str (pi_deliveryId input))) (\<lambda>caller.
    let deliveryId = (case caller of Some c \<Rightarrow> c | None \<Rightarrow> env_deliveryUuid env) in
    bind (check (\<not> (pi_deliveryId input \<noteq> None \<and> hasEndpointDeliveryReservation s deliveryId))
            (ContractErr ''Original delivery reservation already exists; automatic replay is forbidden.''
               ''deliveryId'' ''validation'' ''AGENT_DELIVERY_RESERVATION_EXISTS'')) (\<lambda>_.
    bind (case inReplyTo of
            Some i \<Rightarrow> bind (check_reply i (request_at s i) target result nextAction) (\<lambda>r. Inr (Some r))
          | None \<Rightarrow> if result \<noteq> None \<or> nextAction \<noteq> None
                    then Inl (Err ''result and nextAction require inReplyToRequestId.'') else Inr None) (\<lambda>replied.
    Inr (\<lparr>pr_deliveryId = deliveryId,
          pr_requestId = (if policy = ''required'' then Some (env_requestUuid env) else None),
          pr_inReplyToRequestId = inReplyTo, pr_responsePolicy = policy,
          pr_responseInstruction = or_undef instruction, pr_result = result, pr_nextAction = nextAction,
          pr_source = source, pr_target = target,
          pr_messageProcessingRequirementId = or_undef (cleanText (pi_messageProcessingRequirementId input) 300),
          pr_planId = or_undef (cleanText (pi_planId input) 300)\<rparr>, replied))))))))"

text \<open>The record of a new request.\<close>

definition new_request :: "env \<Rightarrow> preparation \<Rightarrow> string \<Rightarrow> request" where
  "new_request env p requestId = \<lparr>rq_id = requestId, rq_deliveryId = pr_deliveryId p, rq_status = PendingDelivery,
     rq_source = pr_source p, rq_sourceHistory = None, rq_target = pr_target p, rq_targetHistory = None,
     rq_responseInstruction = (case pr_responseInstruction p of None \<Rightarrow> [] | Some i \<Rightarrow> i),
     rq_messageProcessingRequirementId = pr_messageProcessingRequirementId p, rq_planId = pr_planId p,
     rq_createdAt = Iso (env_now env), rq_deliveredAt = None, rq_deliveryAction = None, rq_deliveryTransport = None,
     rq_pendingResponseDeliveryId = None, rq_pendingResponseEvidence = None, rq_response = None,
     rq_cancelledAt = None, rq_cancelReason = None, rq_updatedAt = Iso (env_now env)\<rparr>"

definition prepare :: "env \<Rightarrow> prepare_input \<Rightarrow> req_state \<Rightarrow> preparation result \<times> req_state" where
  "prepare env input s = (case prepare_plan env input s of
     Inl e \<Rightarrow> (Inl e, s)
   | Inr (p, replied) \<Rightarrow>
       let s1 = (case (pr_inReplyToRequestId p, replied) of
              (Some i, Some r) \<Rightarrow> put_request i (r\<lparr>rq_pendingResponseDeliveryId := Some (pr_deliveryId p),
                                   rq_updatedAt := Iso (env_now env)\<rparr>) s
            | _ \<Rightarrow> s);
           s2 = (case pr_requestId p of None \<Rightarrow> s1 | Some i \<Rightarrow> put_request i (new_request env p i) s1) in
       if replied = None \<and> pr_requestId p = None then (Inr p, s2)
       else persist_or env (\<lambda>s'.
              let t = (case pr_requestId p of None \<Rightarrow> s' | Some i \<Rightarrow> drop_request i s') in
              (case replied of None \<Rightarrow> t | Some r \<Rightarrow> put_request (rq_id r) r t)) p s2)"

section \<open>Responses\<close>

text \<open>
  What \<open>recordConnectionResponse\<close> checks: the request and, unless the same response is
  already recorded, the response to record.
\<close>

definition connection_response_plan ::
    "env \<Rightarrow> req_state \<Rightarrow> string \<Rightarrow> party \<Rightarrow> string \<Rightarrow> string \<Rightarrow> string \<Rightarrow> request option \<Rightarrow> (request \<times> response option) result" where
  "connection_response_plan env s requestId actualSource responseDeliveryId result nextAction record = (case record of
     None \<Rightarrow> Inl (Err (''Agent request not found: '' @ requestId))
   | Some r \<Rightarrow>
       bind (check (pa_connection (rq_source r) \<noteq> None \<and> pa_endpoint (rq_source r) = None)
               (Err ''This request has a native task reply destination.'')) (\<lambda>_.
       bind (normalizedParty actualSource SourceRole) (\<lambda>source.
       bind (callerAgentDeliveryId (JStr responseDeliveryId)) (\<lambda>_.
       let deliveryId = responseDeliveryId; responseResult = cleanMessageResult (Some result);
           responseNext = cleanText (Some nextAction) 4000;
           conflict = ContractErr ''Response conflicts with the original recorded result.'' ''deliveryId'' ''validation''
             ''AGENT_DELIVERY_ID_CONFLICT'' in
       bind (check (responseResult \<noteq> []) (Err ''result is required when replying to an Agent request.'')) (\<lambda>_.
       bind (check (responseNext \<noteq> []) (Err ''nextAction is required when replying to an Agent request.'')) (\<lambda>_.
       if rq_status r = Responded then
         (case rq_response r of
            Some x \<Rightarrow> if rs_deliveryId x = deliveryId \<and> rs_result x = responseResult \<and> rs_nextAction x = responseNext
              then Inr (r, None) else Inl conflict
          | None \<Rightarrow> Inl conflict)
       else if rq_status r \<noteq> AwaitingResponse \<or> truthy (rq_pendingResponseDeliveryId r)
       then Inl (ReplyStateErr (rq_id r) (status_name (rq_status r))
              (if truthy (rq_pendingResponseDeliveryId r) then ''response_delivery_in_progress''
               else ''request_state_does_not_accept_reply''))
       else bind (check (\<not> hasEndpointDeliveryReservation s deliveryId)
              (ContractErr ''Response delivery ID is already reserved by another operation.'' ''deliveryId'' ''validation''
                 ''AGENT_DELIVERY_ID_CONFLICT'')) (\<lambda>_.
         Inr (r, Some \<lparr>rs_deliveryId = deliveryId, rs_by = source, rs_result = responseResult,
                    rs_nextAction = responseNext, rs_respondedAt = Iso (env_now env)\<rparr>))))))))"

definition recordConnectionResponse ::
    "env \<Rightarrow> string \<Rightarrow> party \<Rightarrow> string \<Rightarrow> string \<Rightarrow> string \<Rightarrow> req_state \<Rightarrow> request result \<times> req_state" where
  "recordConnectionResponse env requestId actualSource responseDeliveryId result nextAction s =
    (let key = cleanText (Some requestId) 100 in
     case connection_response_plan env s requestId actualSource responseDeliveryId result nextAction (request_at s key) of
       Inl e \<Rightarrow> (Inl e, s)
     | Inr (r, None) \<Rightarrow> (Inr r, s)
     | Inr (r, Some x) \<Rightarrow>
         let r' = r\<lparr>rq_status := Responded, rq_response := Some x, rq_updatedAt := Iso (env_now env)\<rparr> in
         persist_or env (put_request (rq_id r) r) r' (put_request key r' s))"

definition bindResponseEvidence :: "env \<Rightarrow> preparation \<Rightarrow> string \<Rightarrow> req_state \<Rightarrow> unit result \<times> req_state" where
  "bindResponseEvidence env p prompt s =
    (if \<not> truthy (pr_inReplyToRequestId p) then (Inr (), s)
     else let key = the (pr_inReplyToRequestId p) in
       (case request_at s key of
          None \<Rightarrow> (Inl (Err ''Response evidence requires the current delivery reservation.''), s)
        | Some r \<Rightarrow>
            if rq_pendingResponseDeliveryId r \<noteq> Some (pr_deliveryId p)
            then (Inl (Err ''Response evidence requires the current delivery reservation.''), s)
            else persist_or env (put_request key r) ()
              (put_request key (r\<lparr>rq_pendingResponseEvidence :=
                 Some (agentDeliveryPromptHash (env_hash env) prompt, p)\<rparr>) s)))"

section \<open>Committing\<close>

text \<open>\<open>for (const [id, record] of before) this.requests.set(id, record)\<close>\<close>

definition restore_requests :: "requests \<Rightarrow> req_state \<Rightarrow> req_state" where
  "restore_requests before s = fold (\<lambda>(i, r) t. put_request i r t) before s"

definition existing :: "req_state \<Rightarrow> string option \<Rightarrow> requests" where
  "existing s x = (case linked_request s x of None \<Rightarrow> [] | Some r \<Rightarrow> [(the x, r)])"

text \<open>
  The reply half: nothing to do, the response already recorded by this delivery, or the request
  replied to and the state with its response.
\<close>

datatype reply_commit = AlreadyRecorded request | ReplyCommitted "request option" req_state

definition reply_missing :: "preparation \<Rightarrow> js_error" where
  "reply_missing p = Err (''Agent response delivery reservation is missing: '' @ the (pr_inReplyToRequestId p))"

definition responded_request :: "env \<Rightarrow> preparation \<Rightarrow> request \<Rightarrow> request" where
  "responded_request env p r = r\<lparr>rq_pendingResponseDeliveryId := None, rq_pendingResponseEvidence := None,
     rq_status := Responded,
     rq_response := Some \<lparr>rs_deliveryId = pr_deliveryId p, rs_by = pr_source p,
       rs_result = (case pr_result p of None \<Rightarrow> [] | Some x \<Rightarrow> x),
       rs_nextAction = (case pr_nextAction p of None \<Rightarrow> [] | Some x \<Rightarrow> x),
       rs_respondedAt = Iso (env_now env)\<rparr>,
     rq_updatedAt := Iso (env_now env)\<rparr>"

definition commit_reply :: "env \<Rightarrow> preparation \<Rightarrow> req_state \<Rightarrow> reply_commit result" where
  "commit_reply env p s =
    (if \<not> truthy (pr_inReplyToRequestId p) then Inr (ReplyCommitted None s)
     else (case linked_request s (pr_inReplyToRequestId p) of
         None \<Rightarrow> Inl (reply_missing p)
       | Some r \<Rightarrow>
           if rq_status r = Responded \<and> map_option rs_deliveryId (rq_response r) = Some (pr_deliveryId p)
           then Inr (AlreadyRecorded r)
           else if rq_pendingResponseDeliveryId r \<noteq> Some (pr_deliveryId p) then Inl (reply_missing p)
           else Inr (ReplyCommitted (Some (responded_request env p r))
                  (put_request (the (pr_inReplyToRequestId p)) (responded_request env p r) s))))"

text \<open>The request half, after the reply half.\<close>

definition delivered_request :: "env \<Rightarrow> string option \<times> string option \<Rightarrow> request \<Rightarrow> request" where
  "delivered_request env rc r =
    (if rq_status r = PendingDelivery
     then r\<lparr>rq_status := AwaitingResponse, rq_deliveredAt := Some (Iso (env_now env)),
            rq_deliveryAction := or_undef (cleanText (fst rc) 80),
            rq_deliveryTransport := or_undef (cleanText (snd rc) 80),
            rq_updatedAt := Iso (env_now env)\<rparr>
     else r)"

definition commit ::
    "env \<Rightarrow> preparation \<Rightarrow> string option \<times> string option \<Rightarrow> req_state
      \<Rightarrow> (request option \<times> request option) result \<times> req_state" where
  "commit env p rc s =
    (let before = existing s (pr_requestId p) @ existing s (pr_inReplyToRequestId p) in
     if truthy (pr_requestId p)
        \<and> (case linked_request s (pr_requestId p) of None \<Rightarrow> True
           | Some r \<Rightarrow> rq_deliveryId r \<noteq> pr_deliveryId p \<or> rq_status r = RCancelled)
     then (Inl (Err (''Agent request delivery reservation is missing or cancelled: '' @ the (pr_requestId p))), s)
     else (case commit_reply env p s of
         Inl e \<Rightarrow> (Inl e, s)
       | Inr (AlreadyRecorded r) \<Rightarrow>
           (Inr (if truthy (pr_requestId p) then getRequest s (the (pr_requestId p)) else None, Some r), s)
       | Inr (ReplyCommitted replied s1) \<Rightarrow>
           if \<not> truthy (pr_requestId p) then
             (if replied = None then (Inr (None, None), s1)
              else persist_or env (restore_requests before) (None, replied) s1)
           else (case linked_request s1 (pr_requestId p) of
               None \<Rightarrow> (Inl (Err (''Agent request delivery reservation is missing: '' @ the (pr_requestId p))), s1)
             | Some r \<Rightarrow>
                 if rq_deliveryId r \<noteq> pr_deliveryId p
                 then (Inl (Err (''Agent request delivery reservation is missing: '' @ the (pr_requestId p))), s1)
                 else if rq_status r = RCancelled
                 then (Inl (Err (''Agent request delivery was cancelled: '' @ the (pr_requestId p))), s1)
                 else persist_or env (restore_requests before) (Some (delivered_request env rc r), replied)
                     (put_request (the (pr_requestId p)) (delivered_request env rc r) s1))))"

definition commitEndpointReceipt :: "env \<Rightarrow> string \<Rightarrow> receipt \<Rightarrow> req_state \<Rightarrow> unit result \<times> req_state" where
  "commitEndpointReceipt env deliveryId rc s =
    (case assertEndpointDeliveryActive env s deliveryId of
       Inl e \<Rightarrow> (Inl e, s)
     | Inr _ \<Rightarrow> (case delivery_at s deliveryId of
         None \<Rightarrow> (Inl (Err ''Endpoint delivery is missing or cancelled.''), s)
       | Some d \<Rightarrow>
           if \<not> receipt_matches d rc then (Inl (Err ''Endpoint receipt identity mismatch.''), s)
           else if dl_state d = Committed then (Inr (), s)
           else if dl_state d \<noteq> Dispatching then (Inl (Err ''Endpoint delivery was not dispatched.''), s)
           else
             let p = dl_preparation d;
                 s1 = put_delivery deliveryId (d\<lparr>dl_state := Committed, dl_receipt := Some rc,
                   dl_updatedAt := Some (Iso (env_now env)), dl_nextAttemptAt := None, dl_retryCount := None,
                   dl_lastError := None, dl_blockedReason := None\<rparr>) s in
             (case commit env p (Some (rc_action rc), Some (rc_transport rc)) s1 of
                (Inl e, s2) \<Rightarrow> (Inl e, put_delivery deliveryId d s2)
              | (Inr _, s2) \<Rightarrow>
                  if truthy (pr_requestId p) \<or> truthy (pr_inReplyToRequestId p) then (Inr (), s2)
                  else persist_or env (put_delivery deliveryId d) () s2)))"

section \<open>Aborting and cancelling\<close>

text \<open>The two releases on the requests, each with whether it changed anything.\<close>

definition release_reply :: "env \<Rightarrow> preparation \<Rightarrow> req_state \<Rightarrow> bool \<times> req_state" where
  "release_reply env p s = (case linked_request s (pr_inReplyToRequestId p) of
     Some r \<Rightarrow> if rq_pendingResponseDeliveryId r = Some (pr_deliveryId p)
       then (True, put_request (the (pr_inReplyToRequestId p))
              (r\<lparr>rq_pendingResponseDeliveryId := None, rq_pendingResponseEvidence := None,
                 rq_updatedAt := Iso (env_now env)\<rparr>) s)
       else (False, s)
   | None \<Rightarrow> (False, s))"

definition release_request :: "preparation \<Rightarrow> req_state \<Rightarrow> bool \<times> req_state" where
  "release_request p s = (case linked_request s (pr_requestId p) of
     Some r \<Rightarrow> if rq_status r = PendingDelivery \<and> rq_deliveryId r = pr_deliveryId p
       then (True, drop_request (the (pr_requestId p)) s) else (False, s)
   | None \<Rightarrow> (False, s))"

definition abort :: "env \<Rightarrow> preparation \<Rightarrow> req_state \<Rightarrow> unit result \<times> req_state" where
  "abort env p s =
    (let held = delivery_at s (pr_deliveryId p);
         before = existing s (pr_requestId p) @ existing s (pr_inReplyToRequestId p);
         s1 = (if held \<noteq> None then drop_delivery (pr_deliveryId p) s else s);
         (reserved, s2) = release_reply env p s1;
         (pending, s3) = release_request p s2 in
     if (case held of None \<Rightarrow> False | Some d \<Rightarrow> dl_state d \<noteq> Prepared)
     then (Inl (Err ''Dispatched endpoint delivery cannot release its durable reservation.''), s)
     else if held = None \<and> \<not> reserved \<and> \<not> pending then (Inr (), s3)
     else persist_or env
       (\<lambda>s'. let t = restore_requests before s' in
          (case held of None \<Rightarrow> t | Some d \<Rightarrow> put_delivery (dl_deliveryId d) d t)) () s3)"

text \<open>The deliveries a cancelled request fences, and their cancelled form.\<close>

definition fenced_by :: "request \<Rightarrow> delivery \<Rightarrow> bool" where
  "fenced_by r d \<longleftrightarrow> dl_state d \<noteq> Committed \<and> dl_receipt d = None \<and> dl_state d \<noteq> DCancelled
     \<and> (pr_requestId (dl_preparation d) = Some (rq_id r) \<or> pr_inReplyToRequestId (dl_preparation d) = Some (rq_id r))"

definition cancel_message :: string where
  "cancel_message = ''Delivery tracking was cancelled. This does not prove that the target never accepted the original prompt.''"

definition cancelled_delivery :: "env \<Rightarrow> string \<Rightarrow> delivery \<Rightarrow> delivery" where
  "cancelled_delivery env message d = d\<lparr>dl_state := DCancelled, dl_updatedAt := Some (Iso (env_now env)),
     dl_lastError := Some (Some ''DELIVERY_CANCELLED'', message), dl_nextAttemptAt := None, dl_blockedReason := None\<rparr>"

definition cancelled_request :: "env \<Rightarrow> string option \<Rightarrow> request \<Rightarrow> request" where
  "cancelled_request env reason r = r\<lparr>rq_status := RCancelled, rq_cancelledAt := Some (Iso (env_now env)),
     rq_cancelReason := or_undef (cleanText reason 2000), rq_pendingResponseDeliveryId := None,
     rq_pendingResponseEvidence := None, rq_updatedAt := Iso (env_now env)\<rparr>"

definition cancel :: "env \<Rightarrow> string \<Rightarrow> string option \<Rightarrow> req_state \<Rightarrow> request result \<times> req_state" where
  "cancel env requestId reason s =
    (let key = cleanText (Some requestId) 100 in
     case request_at s key of
       None \<Rightarrow> (Inl (Err (''Agent request not found: '' @ requestId)), s)
     | Some r \<Rightarrow>
         if rq_status r = Responded \<or> rq_status r = RCancelled then (Inr r, s)
         else
           let affected = filter (fenced_by r) (map_values (st_deliveries s));
               message = (let m = cleanText reason 1024 in if m \<noteq> [] then m else cancel_message);
               s1 = s\<lparr>st_deliveries := map (\<lambda>(k, d). (k, if fenced_by r d then cancelled_delivery env message d else d))
                        (st_deliveries s)\<rparr>;
               r' = cancelled_request env reason r in
           persist_or env
             (\<lambda>s'. fold (\<lambda>d t. put_delivery (dl_deliveryId d) d t) affected (put_request (rq_id r) r s'))
             r' (put_request key r' s1))"

text \<open>The request a delivery belongs to, when its reservation is still exact.\<close>

definition linked_record :: "env \<Rightarrow> req_state \<Rightarrow> string \<Rightarrow> preparation \<Rightarrow> (request option) result" where
  "linked_record env s deliveryId p =
    bind (case linked_request s (pr_requestId p) of
        None \<Rightarrow> Inr None
      | Some r \<Rightarrow> if rq_deliveryId r \<noteq> deliveryId then Inr None
          else bind (sameAgentParty (env_canon env) (rq_source r) (pr_source p)) (\<lambda>a.
            if \<not> a then Inr None
            else bind (sameAgentParty (env_canon env) (rq_target r) (pr_target p)) (\<lambda>b.
              Inr (if b then Some r else None)))) (\<lambda>request.
    Inr (case request of
        Some r \<Rightarrow> Some r
      | None \<Rightarrow> (case linked_request s (pr_inReplyToRequestId p) of
            Some r \<Rightarrow> if rq_pendingResponseDeliveryId r = Some deliveryId
                 \<and> sameAgentPartyAddress (rq_source r) (pr_target p) then Some r else None
          | None \<Rightarrow> None)))"

definition cancelEndpointDelivery :: "env \<Rightarrow> string \<Rightarrow> req_state \<Rightarrow> (delivery option) result \<times> req_state" where
  "cancelEndpointDelivery env deliveryId s = (case delivery_at s deliveryId of
     None \<Rightarrow> (Inl (CodedErr ''DELIVERY_EVIDENCE_UNAVAILABLE'' ''Original delivery evidence is unavailable.''), s)
   | Some d \<Rightarrow>
       if dl_state d = Committed \<or> dl_receipt d \<noteq> None
       then (Inl (CodedErr ''DELIVERY_ALREADY_RECEIVED'' ''An accepted delivery cannot be cancelled.''), s)
       else if dl_state d = DCancelled then (Inr (Some d), s)
       else (case linked_record env s deliveryId (dl_preparation d) of
           Inl e \<Rightarrow> (Inl e, s)
         | Inr linked \<Rightarrow>
             (case (case linked of
                  Some r \<Rightarrow> if rq_status r \<noteq> Responded \<and> rq_status r \<noteq> RCancelled then Some r else None
                | None \<Rightarrow> None) of
                Some r \<Rightarrow> (case cancel env (rq_id r) (Some cancel_message) s of
                    (Inl e, s') \<Rightarrow> (Inl e, s')
                  | (Inr _, s') \<Rightarrow> (Inr (delivery_at s' deliveryId), s'))
              | None \<Rightarrow>
                  let d' = cancelled_delivery env cancel_message d in
                  persist_or env (put_delivery deliveryId d) (Some d') (put_delivery deliveryId d' s))))"

section \<open>Replaced parties\<close>

text \<open>What the resolver says of a party: keep it, it is gone, or it moved.\<close>

datatype resolution = Unresolved | Gone | Moved party

definition moved :: "resolution \<Rightarrow> party \<Rightarrow> party option" where
  "moved x old = (case x of Moved p \<Rightarrow> if pa_threadId p \<noteq> pa_threadId old then Some p else None | _ \<Rightarrow> None)"

datatype reconcile_outcome = Unchanged | Reassigned request | Stale request

text \<open>
  \<open>record.sourceHistory = append(...); record.source = normalise(...)\<close>: when the second
  assignment throws, the first has been made. An error carries the record it leaves.
\<close>

definition moveParty :: "resolution \<Rightarrow> role \<Rightarrow> request \<Rightarrow> (js_error \<times> request) + request" where
  "moveParty x role r =
    (let old = (if role = SourceRole then rq_source r else rq_target r);
         history = (if role = SourceRole then rq_sourceHistory r else rq_targetHistory r) in
     case moved x old of
       None \<Rightarrow> Inr r
     | Some p \<Rightarrow> (case appendPartyHistory history old role of
           Inl e \<Rightarrow> Inl (e, r)
         | Inr h \<Rightarrow>
             let r' = (if role = SourceRole then r\<lparr>rq_sourceHistory := Some h\<rparr> else r\<lparr>rq_targetHistory := Some h\<rparr>) in
             (case normalizedParty p role of
                Inl e \<Rightarrow> Inl (e, r')
              | Inr n \<Rightarrow> Inr (if role = SourceRole then r'\<lparr>rq_source := n\<rparr> else r'\<lparr>rq_target := n\<rparr>))))"

definition reconcileRecord :: "env \<Rightarrow> (party \<Rightarrow> request \<Rightarrow> role \<Rightarrow> resolution) \<Rightarrow> request
    \<Rightarrow> (js_error \<times> request) + reconcile_outcome" where
  "reconcileRecord env resolve r =
    (if rq_status r \<noteq> PendingDelivery \<and> rq_status r \<noteq> AwaitingResponse then Inr Unchanged
     else if pa_endpoint (rq_source r) \<noteq> None \<or> pa_connection (rq_source r) \<noteq> None \<or> pa_endpoint (rq_target r) \<noteq> None
     then Inr Unchanged
     else
       let source = resolve (rq_source r) r SourceRole; target = resolve (rq_target r) r TargetRole in
       if source = Unresolved \<and> target = Unresolved then Inr Unchanged
       else if rq_status r = PendingDelivery \<or> source = Gone \<or> target = Gone
       then Inr (Stale (r\<lparr>rq_status := RCancelled, rq_cancelledAt := Some (Iso (env_now env)),
              rq_cancelReason := Some ''Message Agent pool changed before this tracked delivery completed; the stale task binding was cancelled.'',
              rq_pendingResponseDeliveryId := None, rq_pendingResponseEvidence := None,
              rq_updatedAt := Iso (env_now env)\<rparr>))
       else
         bind (moveParty source SourceRole r) (\<lambda>r1.
         bind (moveParty target TargetRole r1) (\<lambda>r2.
         Inr (if moved source (rq_source r) = None \<and> moved target (rq_target r) = None then Unchanged
              else Reassigned (r2\<lparr>rq_pendingResponseDeliveryId := None, rq_pendingResponseEvidence := None,
                     rq_updatedAt := Iso (env_now env)\<rparr>)))))"

fun outcome_record :: "request \<Rightarrow> reconcile_outcome \<Rightarrow> request" where
  "outcome_record r Unchanged = r"
| "outcome_record r (Reassigned q) = q"
| "outcome_record r (Stale q) = q"

text \<open>The loop over the records; a record whose party cannot be normalised stops it.\<close>

fun reconcileRecords :: "env \<Rightarrow> (party \<Rightarrow> request \<Rightarrow> role \<Rightarrow> resolution) \<Rightarrow> requests
    \<Rightarrow> (js_error option) \<times> requests \<times> request list \<times> request list" where
  "reconcileRecords env resolve [] = (None, [], [], [])"
| "reconcileRecords env resolve ((k, r) # rs) = (case reconcileRecord env resolve r of
     Inl (e, q) \<Rightarrow> (Some e, (k, q) # rs, [], [])
   | Inr x \<Rightarrow> (case reconcileRecords env resolve rs of
       (e, rs', re, ca) \<Rightarrow>
         (e, (k, outcome_record r x) # rs',
          (case x of Reassigned q \<Rightarrow> q # re | _ \<Rightarrow> re), (case x of Stale q \<Rightarrow> q # ca | _ \<Rightarrow> ca))))"

definition reconcileOpenParties :: "env \<Rightarrow> (party \<Rightarrow> request \<Rightarrow> role \<Rightarrow> resolution) \<Rightarrow> req_state
    \<Rightarrow> (request list \<times> request list) result \<times> req_state" where
  "reconcileOpenParties env resolve s = (case reconcileRecords env resolve (st_requests s) of
     (Some e, rs, _, _) \<Rightarrow> (Inl e, s\<lparr>st_requests := rs\<rparr>)
   | (None, rs, reassigned, cancelled) \<Rightarrow>
       if reassigned = [] \<and> cancelled = [] then (Inr ([], []), s\<lparr>st_requests := rs\<rparr>)
       else persist_or env id (reassigned, cancelled) (s\<lparr>st_requests := rs\<rparr>))"

end
