(* ===== verification/RequestInv.thy ===== *)
theory RequestInv
  imports RequestOps
begin

text \<open>
  What every operation of the Agent request state keeps: the well-formedness of the two maps,
  and the life cycle of a record and of a delivery. Each operation has one lemma that a success
  makes only allowed changes, and one that a failure restores the maps. The step relation puts
  the operations together, each inside its transaction, and reachability carries the invariant.
\<close>

section \<open>Persistence\<close>

definition saved :: "req_state \<Rightarrow> req_state" where
  "saved s = s\<lparr>st_disk := (st_requests s, st_deliveries s)\<rparr>"

definition durable :: "req_state \<Rightarrow> bool" where
  "durable s \<longleftrightarrow> st_disk s = (st_requests s, st_deliveries s)"

lemma saved_sel [simp]:
  "st_requests (saved s) = st_requests s" "st_deliveries (saved s) = st_deliveries s"
  "st_unavailable (saved s) = st_unavailable s" "st_evidenceUnavailable (saved s) = st_evidenceUnavailable s"
  "st_disk (saved s) = (st_requests s, st_deliveries s)" "durable (saved s)"
  by (simp_all add: saved_def durable_def)

lemma put_sel [simp]:
  "st_requests (put_request k r s) = AList.update k r (st_requests s)"
  "st_deliveries (put_request k r s) = st_deliveries s"
  "st_requests (put_delivery k d s) = st_requests s"
  "st_deliveries (put_delivery k d s) = AList.update k d (st_deliveries s)"
  "st_requests (drop_request k s) = AList.delete k (st_requests s)"
  "st_deliveries (drop_request k s) = st_deliveries s"
  "st_requests (drop_delivery k s) = st_requests s"
  "st_deliveries (drop_delivery k s) = AList.delete k (st_deliveries s)"
  "st_unavailable (put_request k r s) = st_unavailable s" "st_unavailable (put_delivery k d s) = st_unavailable s"
  "st_unavailable (drop_request k s) = st_unavailable s" "st_unavailable (drop_delivery k s) = st_unavailable s"
  "st_evidenceUnavailable (put_request k r s) = st_evidenceUnavailable s"
  "st_evidenceUnavailable (put_delivery k d s) = st_evidenceUnavailable s"
  "st_evidenceUnavailable (drop_request k s) = st_evidenceUnavailable s"
  "st_evidenceUnavailable (drop_delivery k s) = st_evidenceUnavailable s"
  "st_disk (put_request k r s) = st_disk s" "st_disk (put_delivery k d s) = st_disk s"
  "st_disk (drop_request k s) = st_disk s" "st_disk (drop_delivery k s) = st_disk s"
  by (simp_all add: put_request_def put_delivery_def drop_request_def drop_delivery_def)

lemmas map_laws [simp] = js_map.get_set js_map.get_remove

lemma persist_or_ok:
  "persist_or env rb v s = (Inr x, s') \<longleftrightarrow>
     st_evidenceUnavailable s = None \<and> env_write env = WriteOk \<and> x = v \<and> s' = saved s"
  by (auto simp: persist_or_def persist_def saved_def split: option.splits write_outcome.splits)

lemma persist_or_fail:
  "persist_or env rb v s = (Inl e, s') \<Longrightarrow> \<exists>t. s' = rb t \<and> (t = s \<or> t = saved s)"
  by (auto simp: persist_or_def persist_def saved_def split: option.splits write_outcome.splits)

text \<open>Two states with the same records and deliveries, the order of keys aside.\<close>

definition same_maps :: "req_state \<Rightarrow> req_state \<Rightarrow> bool" where
  "same_maps s t \<longleftrightarrow> map_of (st_requests s) = map_of (st_requests t) \<and> map_of (st_deliveries s) = map_of (st_deliveries t)"

lemma same_maps_refl [simp]: "same_maps s s"
  by (simp add: same_maps_def)

section \<open>Well-formed states\<close>

definition request_wf :: "string \<Rightarrow> request \<Rightarrow> bool" where
  "request_wf k r \<longleftrightarrow> rq_id r = k \<and> k \<noteq> [] \<and> cleanText (Some k) 100 = k
     \<and> rq_deliveryId r \<noteq> [] \<and> rq_pendingResponseDeliveryId r \<noteq> Some []
     \<and> (rq_pendingResponseDeliveryId r \<noteq> None \<longrightarrow> rq_status r = AwaitingResponse)
     \<and> (rq_pendingResponseEvidence r \<noteq> None \<longrightarrow> rq_pendingResponseDeliveryId r \<noteq> None)
     \<and> (rq_response r \<noteq> None \<longleftrightarrow> rq_status r = Responded)"

definition delivery_wf :: "string \<Rightarrow> delivery \<Rightarrow> bool" where
  "delivery_wf k d \<longleftrightarrow> dl_deliveryId d = k \<and> pr_deliveryId (dl_preparation d) = k
     \<and> (dl_receipt d \<noteq> None \<longleftrightarrow> dl_state d = Committed)
     \<and> (\<forall>r. dl_receipt d = Some r \<longrightarrow> receipt_matches d r)"

definition state_ok :: "req_state \<Rightarrow> bool" where
  "state_ok s \<longleftrightarrow> distinct (map fst (st_requests s)) \<and> distinct (map fst (st_deliveries s))
     \<and> (\<forall>k r. request_at s k = Some r \<longrightarrow> request_wf k r)
     \<and> (\<forall>k d. delivery_at s k = Some d \<longrightarrow> delivery_wf k d)"

lemma wf_requestD: "state_ok s \<Longrightarrow> request_at s k = Some r \<Longrightarrow> request_wf k r"
  by (simp add: state_ok_def)

lemma wf_deliveryD: "state_ok s \<Longrightarrow> delivery_at s k = Some d \<Longrightarrow> delivery_wf k d"
  by (simp add: state_ok_def)

lemma wf_saved [simp]: "state_ok (saved s) = state_ok s"
  by (simp add: state_ok_def)

lemma wf_put_request: "state_ok s \<Longrightarrow> request_wf k r \<Longrightarrow> state_ok (put_request k r s)"
  by (auto simp: state_ok_def js_map.inv_set)

lemma wf_put_delivery: "state_ok s \<Longrightarrow> delivery_wf k d \<Longrightarrow> state_ok (put_delivery k d s)"
  by (auto simp: state_ok_def js_map.inv_set)

lemma wf_drop: "state_ok s \<Longrightarrow> state_ok (drop_request k s)" "state_ok s \<Longrightarrow> state_ok (drop_delivery k s)"
  by (auto simp: state_ok_def js_map.inv_remove split: if_splits)

section \<open>Life cycles\<close>

fun status_edge :: "request_status \<Rightarrow> request_status \<Rightarrow> bool" where
  "status_edge PendingDelivery t = (t \<noteq> Responded)"
| "status_edge AwaitingResponse t = (t \<noteq> PendingDelivery)"
| "status_edge s t = False"

text \<open>
  A record is unchanged, or an open record moves along an edge, keeps its identity, and gains a
  response only when it becomes responded.
\<close>

definition request_step :: "request \<Rightarrow> request \<Rightarrow> bool" where
  "request_step r r' \<longleftrightarrow> r' = r \<or>
     (status_edge (rq_status r) (rq_status r') \<and> rq_id r' = rq_id r \<and> rq_deliveryId r' = rq_deliveryId r
      \<and> rq_createdAt r' = rq_createdAt r \<and> rq_responseInstruction r' = rq_responseInstruction r
      \<and> (rq_response r' \<noteq> rq_response r \<longrightarrow> rq_status r' = Responded))"

fun state_edge :: "delivery_state \<Rightarrow> delivery_state \<Rightarrow> bool" where
  "state_edge Prepared t = (t \<noteq> Committed)"
| "state_edge Dispatching t = True"
| "state_edge s t = False"

text \<open>The identity and the content of a delivery, fixed when it is bound.\<close>

definition frozen where
  "frozen d = (dl_deliveryId d, dl_generation d, dl_source d, dl_target d, dl_prompt d, dl_promptHash d,
     dl_executionOptionsHash d, dl_executionOptions d, dl_preparation d, dl_callerDeliveryId d, dl_requestHash d,
     dl_createdAt d)"

definition attempts :: "delivery \<Rightarrow> nat" where
  "attempts d = (case dl_attemptCount d of None \<Rightarrow> 0 | Some n \<Rightarrow> n)"

definition delivery_step :: "delivery \<Rightarrow> delivery \<Rightarrow> bool" where
  "delivery_step d d' \<longleftrightarrow> d' = d \<or>
     (state_edge (dl_state d) (dl_state d') \<and> frozen d' = frozen d
      \<and> attempts d' = (if dl_state d = Prepared \<and> dl_state d' = Dispatching then attempts d + 1 else attempts d)
      \<and> (dl_dispatchAttemptId d' \<noteq> dl_dispatchAttemptId d \<longrightarrow> dl_state d = Prepared \<and> dl_state d' = Dispatching))"

text \<open>The change of an optional entry: created, stepped, or released while nothing was sent.\<close>

definition entry_step :: "('a \<Rightarrow> 'a \<Rightarrow> bool) \<Rightarrow> ('a \<Rightarrow> bool) \<Rightarrow> ('a \<Rightarrow> bool) \<Rightarrow> 'a option \<Rightarrow> 'a option \<Rightarrow> bool" where
  "entry_step step new releasable x y = (case (x, y) of
     (None, None) \<Rightarrow> True
   | (None, Some b) \<Rightarrow> new b
   | (Some a, Some b) \<Rightarrow> step a b
   | (Some a, None) \<Rightarrow> releasable a)"

definition request_entry :: "request option \<Rightarrow> request option \<Rightarrow> bool" where
  "request_entry = entry_step request_step (\<lambda>r. rq_status r = PendingDelivery) (\<lambda>r. rq_status r = PendingDelivery)"

definition delivery_entry :: "delivery option \<Rightarrow> delivery option \<Rightarrow> bool" where
  "delivery_entry = entry_step delivery_step (\<lambda>d. dl_state d = Prepared \<and> attempts d = 0) (\<lambda>d. dl_state d = Prepared)"

definition changes :: "req_state \<Rightarrow> req_state \<Rightarrow> bool" where
  "changes s t \<longleftrightarrow> (\<forall>k. request_entry (request_at s k) (request_at t k))
     \<and> (\<forall>k. delivery_entry (delivery_at s k) (delivery_at t k))"

lemma entry_refl [simp]: "request_entry x x" "delivery_entry y y"
  by (auto simp: request_entry_def delivery_entry_def entry_step_def request_step_def delivery_step_def
      split: option.splits)

lemma entry_simps [simp]:
  "request_entry (Some r) (Some r') = request_step r r'"
  "request_entry None (Some r') = (rq_status r' = PendingDelivery)"
  "request_entry (Some r) None = (rq_status r = PendingDelivery)"
  "delivery_entry (Some d) (Some d') = delivery_step d d'"
  "delivery_entry None (Some d') = (dl_state d' = Prepared \<and> attempts d' = 0)"
  "delivery_entry (Some d) None = (dl_state d = Prepared)"
  by (simp_all add: request_entry_def delivery_entry_def entry_step_def)

lemma changes_refl [simp]: "changes s s" "changes s (saved s)"
  by (simp_all add: changes_def)

lemma changes_saved [simp]: "changes s (saved t) = changes s t"
  by (simp add: changes_def)

lemma changes_put_request:
  "changes s t \<Longrightarrow> request_entry (request_at s k) (Some r) \<Longrightarrow> changes s (put_request k r t)"
  by (simp add: changes_def)

lemma changes_put_delivery:
  "changes s t \<Longrightarrow> delivery_entry (delivery_at s k) (Some d) \<Longrightarrow> changes s (put_delivery k d t)"
  by (simp add: changes_def)

lemma changes_drop_request:
  "changes s t \<Longrightarrow> request_entry (request_at s k) None \<Longrightarrow> changes s (drop_request k t)"
  by (simp add: changes_def)

lemma changes_drop_delivery:
  "changes s t \<Longrightarrow> delivery_entry (delivery_at s k) None \<Longrightarrow> changes s (drop_delivery k t)"
  by (simp add: changes_def)

lemmas change_rules = changes_put_request changes_put_delivery changes_drop_request changes_drop_delivery
lemmas wf_rules = wf_put_request wf_put_delivery wf_drop

section \<open>Deliveries\<close>

text \<open>Each operation: a success is an allowed change that keeps the invariant, a failure restores the maps.\<close>

definition good_step :: "req_state \<Rightarrow> 'a result \<times> req_state \<Rightarrow> bool" where
  "good_step s out \<longleftrightarrow> (case out of
     (Inr _, s') \<Rightarrow> state_ok s' \<and> changes s s' \<and> st_unavailable s' = st_unavailable s
       \<and> st_evidenceUnavailable s' = st_evidenceUnavailable s
   | (Inl _, s') \<Rightarrow> same_maps s s')"

lemma good_step_same [simp]: "state_ok s \<Longrightarrow> good_step s (x, s)"
  by (auto simp: good_step_def split: sum.splits)

lemma good_step_persist:
  assumes "state_ok t" "changes s t" "st_unavailable t = st_unavailable s"
    "st_evidenceUnavailable t = st_evidenceUnavailable s"
    and "same_maps s (rb t)" "same_maps s (rb (saved t))"
  shows "good_step s (persist_or env rb v t)"
proof (cases "persist_or env rb v t")
  case (Pair x s')
  show ?thesis
  proof (cases x)
    case (Inl e)
    then show ?thesis using persist_or_fail [of env rb v t e s'] Pair assms(5,6)
      by (auto simp: good_step_def)
  next
    case (Inr y)
    with Pair have "state_ok s' \<and> changes s s' \<and> st_unavailable s' = st_unavailable s
        \<and> st_evidenceUnavailable s' = st_evidenceUnavailable s"
      using assms persist_or_ok [of env rb v t y s'] by simp
    with Pair Inr show ?thesis by (simp add: good_step_def)
  qed
qed

lemma same_maps_put_back:
  "request_at s k = Some r \<Longrightarrow> same_maps s (put_request k r (put_request k r' s))"
  "request_at s k = Some r \<Longrightarrow> same_maps s (put_request k r (saved (put_request k r' s)))"
  "delivery_at s k = Some d \<Longrightarrow> same_maps s (put_delivery k d (put_delivery k d' s))"
  "delivery_at s k = Some d \<Longrightarrow> same_maps s (put_delivery k d (saved (put_delivery k d' s)))"
  by (auto simp: same_maps_def fun_eq_iff)

text \<open>The pattern of the single-delivery operations: replace the delivery, persist, put it back on failure.\<close>

lemma good_step_delivery:
  assumes "state_ok s" "delivery_at s k = Some d" "delivery_wf k d'" "delivery_step d d'"
  shows "good_step s (persist_or env (put_delivery k d) v (put_delivery k d' s))"
  using assms
  by (intro good_step_persist wf_rules change_rules same_maps_put_back) simp_all

lemma good_step_request:
  assumes "state_ok s" "request_at s k = Some r" "request_wf k r'" "request_step r r'"
  shows "good_step s (persist_or env (put_request k r) v (put_request k r' s))"
  using assms
  by (intro good_step_persist wf_rules change_rules same_maps_put_back) simp_all

lemma bindEndpointDelivery_good:
  assumes "state_ok s" "dl_receipt d = None"
  shows "good_step s (bindEndpointDelivery env d s)"
proof -
  let ?d' = "d\<lparr>dl_createdAt := Some (Iso (env_now env)), dl_updatedAt := Some (Iso (env_now env)), dl_attemptCount := Some 0\<rparr>"
  have "good_step s (persist_or env (drop_delivery (dl_deliveryId d)) () (put_delivery (dl_deliveryId d) ?d' s))"
    if "delivery_at s (dl_deliveryId d) = None" "dl_state d = Prepared" "pr_deliveryId (dl_preparation d) = dl_deliveryId d"
    using assms that
    by (intro good_step_persist wf_rules change_rules)
      (auto simp: delivery_wf_def attempts_def same_maps_def fun_eq_iff)
  then show ?thesis
    using assms by (auto simp: bindEndpointDelivery_def Let_def split: sum.splits delivery_source.splits)
qed

lemma markEndpointDispatching_good: "state_ok s \<Longrightarrow> good_step s (markEndpointDispatching env k s)"
  by (auto simp: markEndpointDispatching_def delivery_wf_def delivery_step_def frozen_def attempts_def receipt_matches_def
      split: sum.splits option.splits intro!: good_step_delivery dest: wf_deliveryD)

lemma edge_refl [simp]:
  "x \<noteq> Committed \<Longrightarrow> x \<noteq> DCancelled \<Longrightarrow> state_edge x x"
  "y \<noteq> Responded \<Longrightarrow> y \<noteq> RCancelled \<Longrightarrow> status_edge y y"
  by (cases x; simp) (cases y; simp)

lemma noteEndpointDeliveryFailure_good: "state_ok s \<Longrightarrow> good_step s (noteEndpointDeliveryFailure env k err blocked s)"
  by (auto simp: noteEndpointDeliveryFailure_def Let_def delivery_wf_def delivery_step_def frozen_def attempts_def receipt_matches_def
      split: option.splits intro!: good_step_delivery dest: wf_deliveryD)

lemma markEndpointNotSent_good: "state_ok s \<Longrightarrow> good_step s (markEndpointNotSent env k proof s)"
  by (auto simp: markEndpointNotSent_def Let_def delivery_wf_def delivery_step_def frozen_def attempts_def receipt_matches_def
      split: option.splits sum.splits intro!: good_step_delivery dest: wf_deliveryD)

section \<open>Requests\<close>

lemma check_reply_ok:
  "check_reply i x target result next = Inr r \<longleftrightarrow>
     x = Some r \<and> rq_status r = AwaitingResponse \<and> \<not> truthy (rq_pendingResponseDeliveryId r)
     \<and> sameAgentPartyAddress target (rq_source r) \<and> result \<noteq> None \<and> next \<noteq> None"
  by (auto simp: check_reply_def split: option.splits)

lemma prepare_plan_ok:
  assumes "prepare_plan env input s = Inr (p, replied)"
  shows "(pr_requestId p = (if pi_responsePolicy input = ''required'' then Some (env_requestUuid env) else None))
    \<and> pr_deliveryId p = (case pi_deliveryId input of None \<Rightarrow> env_deliveryUuid env | Some d \<Rightarrow> d)
    \<and> (pi_deliveryId input \<noteq> None \<longrightarrow> caller_id_ok (pr_deliveryId p) \<and> \<not> hasEndpointDeliveryReservation s (pr_deliveryId p))
    \<and> pr_inReplyToRequestId p = or_undef (cleanText (pi_inReplyToRequestId input) 100)
    \<and> (case replied of None \<Rightarrow> pr_inReplyToRequestId p = None
        | Some r \<Rightarrow> \<exists>i. pr_inReplyToRequestId p = Some i \<and> request_at s i = Some r \<and> rq_status r = AwaitingResponse
            \<and> \<not> truthy (rq_pendingResponseDeliveryId r) \<and> sameAgentPartyAddress (pr_target p) (rq_source r)
            \<and> pr_result p \<noteq> None \<and> pr_nextAction p \<noteq> None)"
proof (cases "or_undef (cleanText (pi_inReplyToRequestId input) 100)")
  case None
  with assms show ?thesis
    by (cases "pi_deliveryId input")
      (auto simp: prepare_plan_def Let_def callerAgentDeliveryId_iff split: if_splits)
next
  case (Some i)
  with assms show ?thesis
    by (cases "pi_deliveryId input")
      (auto simp: prepare_plan_def Let_def callerAgentDeliveryId_iff check_reply_ok simp del: or_undef_eq_Some
        split: if_splits)
qed

lemma prepare_plan_new: "prepare_plan env input s = Inr (p, None) \<Longrightarrow> pr_inReplyToRequestId p = None"
  using prepare_plan_ok [of env input s p None] unfolding option.case by blast

lemma prepare_plan_reply:
  "prepare_plan env input s = Inr (p, Some r) \<Longrightarrow> \<exists>i. pr_inReplyToRequestId p = Some i \<and> request_at s i = Some r
     \<and> rq_status r = AwaitingResponse \<and> \<not> truthy (rq_pendingResponseDeliveryId r)
     \<and> sameAgentPartyAddress (pr_target p) (rq_source r) \<and> pr_result p \<noteq> None \<and> pr_nextAction p \<noteq> None"
  using prepare_plan_ok [of env input s p "Some r"] unfolding option.case by blast

lemma prepare_plan_request:
  "prepare_plan env input s = Inr (p, x) \<Longrightarrow> pr_requestId p = (if pi_responsePolicy input = ''required'' then Some (env_requestUuid env) else None)"
  by (drule prepare_plan_ok) (elim conjE, assumption)

definition fresh_uuids :: "env \<Rightarrow> req_state \<Rightarrow> bool" where
  "fresh_uuids env s \<longleftrightarrow> request_at s (env_requestUuid env) = None \<and> env_requestUuid env \<noteq> []
     \<and> cleanText (Some (env_requestUuid env)) 100 = env_requestUuid env
     \<and> env_deliveryUuid env \<noteq> [] \<and> \<not> hasEndpointDeliveryReservation s (env_deliveryUuid env)"

lemma prepare_plan_delivery:
  assumes "prepare_plan env input s = Inr (p, replied)" "fresh_uuids env s"
  shows "pr_deliveryId p \<noteq> [] \<and> \<not> hasEndpointDeliveryReservation s (pr_deliveryId p)"
  using prepare_plan_ok [OF assms(1)] assms(2)
  by (cases "pi_deliveryId input") (auto simp: fresh_uuids_def caller_id_ok_def)

lemma new_request_wf: "k \<noteq> [] \<Longrightarrow> cleanText (Some k) 100 = k \<Longrightarrow> pr_deliveryId p \<noteq> [] \<Longrightarrow> request_wf k (new_request env p k)"
  by (simp add: request_wf_def new_request_def)

lemma prepare_good:
  assumes ok: "state_ok s" and fresh: "fresh_uuids env s"
  shows "good_step s (prepare env input s)"
proof (cases "prepare_plan env input s")
  case (Inl e)
  with ok show ?thesis by (simp add: prepare_def)
next
  case (Inr plan)
  obtain p replied where plan: "plan = (p, replied)" by (cases plan)
  note facts = prepare_plan_request [OF Inr [unfolded plan]]
  note d = prepare_plan_delivery [OF Inr [unfolded plan] fresh]
  let ?k = "env_requestUuid env"
  have new: "request_wf ?k (new_request env p ?k)" "request_at s ?k = None"
    using fresh d by (auto simp: fresh_uuids_def intro: new_request_wf)
  show ?thesis
  proof (cases replied)
    case None
    with Inr plan have none: "pr_inReplyToRequestId p = None" by (simp add: prepare_plan_new)
    show ?thesis
    proof (cases "pr_requestId p")
      case None
      with \<open>replied = None\<close> none ok show ?thesis by (simp add: prepare_def Inr plan)
    next
      case (Some k)
      then have k: "k = ?k" using facts by (auto split: if_splits)
      have "good_step s (persist_or env (drop_request ?k) p (put_request ?k (new_request env p ?k) s))"
        using ok new
        by (intro good_step_persist wf_rules change_rules)
          (auto simp: same_maps_def fun_eq_iff new_request_def)
      with Some k \<open>replied = None\<close> none show ?thesis by (simp add: prepare_def Inr plan)
    qed
  next
    case (Some r)
    with Inr plan obtain i where i: "pr_inReplyToRequestId p = Some i" "request_at s i = Some r"
      "rq_status r = AwaitingResponse" using prepare_plan_reply by blast
    let ?r = "r\<lparr>rq_pendingResponseDeliveryId := Some (pr_deliveryId p), rq_updatedAt := Iso (env_now env)\<rparr>"
    have wfr: "request_wf i r" using wf_requestD [OF ok i(2)] .
    then have r': "request_wf i ?r" "request_step r ?r" "rq_id r = i"
      using i d by (auto simp: request_wf_def request_step_def)
    show ?thesis
    proof (cases "pr_requestId p")
      case None
      have "good_step s (persist_or env (put_request i r) p (put_request i ?r s))"
        using ok i r' by (intro good_step_request) simp_all
      with Some None i r' show ?thesis by (simp add: prepare_def Inr plan)
    next
      case (Some k)
      then have k: "k = ?k" using facts by (auto split: if_splits)
      have "good_step s (persist_or env (\<lambda>t. put_request i r (drop_request ?k t)) p
          (put_request ?k (new_request env p ?k) (put_request i ?r s)))"
        using ok new i r'
        by (intro good_step_persist wf_rules change_rules)
          (auto simp: same_maps_def fun_eq_iff new_request_def)
      with \<open>replied = Some r\<close> Some k i r' show ?thesis by (simp add: prepare_def Inr plan)
    qed
  qed
qed

lemma connection_response_plan_ok:
  assumes "connection_response_plan env s requestId src d res nxt x = Inr (r, y)"
  shows "x = Some r \<and> (y \<noteq> None \<longrightarrow> rq_status r = AwaitingResponse \<and> \<not> truthy (rq_pendingResponseDeliveryId r)
      \<and> \<not> hasEndpointDeliveryReservation s d \<and> map_option rs_deliveryId y = Some d)
    \<and> (y = None \<longrightarrow> rq_status r = Responded \<and> map_option rs_deliveryId (rq_response r) = Some d)"
  using assms
  by (cases x) (auto simp: connection_response_plan_def Let_def callerAgentDeliveryId_iff split: if_splits option.splits)

lemma recordConnectionResponse_good:
  assumes ok: "state_ok s"
  shows "good_step s (recordConnectionResponse env k src d res nxt s)"
proof (cases "connection_response_plan env s k src d res nxt (request_at s (cleanText (Some k) 100))")
  case (Inr plan)
  obtain r y where plan: "plan = (r, y)" by (cases plan)
  note facts = connection_response_plan_ok [OF Inr [unfolded plan]]
  show ?thesis
  proof (cases y)
    case (Some x)
    let ?k = "cleanText (Some k) 100"
    have wfr: "request_wf ?k r" using facts wf_requestD [OF ok] by blast
    then have "request_wf ?k (r\<lparr>rq_status := Responded, rq_response := Some x, rq_updatedAt := Iso (env_now env)\<rparr>)" "rq_id r = ?k"
      using facts Some by (cases "rq_pendingResponseDeliveryId r"; auto simp: request_wf_def)+
    then have "good_step s (persist_or env (put_request ?k r) v (put_request ?k
        (r\<lparr>rq_status := Responded, rq_response := Some x, rq_updatedAt := Iso (env_now env)\<rparr>) s))" for v
      using facts Some ok by (auto simp: request_step_def intro!: good_step_request)
    with \<open>rq_id r = ?k\<close> show ?thesis
      unfolding recordConnectionResponse_def Let_def Inr plan Some by simp
  qed (use ok in \<open>simp add: recordConnectionResponse_def Inr plan\<close>)
qed (use ok in \<open>simp add: recordConnectionResponse_def\<close>)

lemma bindResponseEvidence_good: "state_ok s \<Longrightarrow> good_step s (bindResponseEvidence env p prompt s)"
  by (auto simp: bindResponseEvidence_def Let_def request_wf_def request_step_def
      split: option.splits intro!: good_step_request dest: wf_requestD)

section \<open>Committing\<close>

lemma restore_requests_sel [simp]:
  "st_deliveries (restore_requests b t) = st_deliveries t"
  "st_unavailable (restore_requests b t) = st_unavailable t"
  "st_evidenceUnavailable (restore_requests b t) = st_evidenceUnavailable t"
  "st_disk (restore_requests b t) = st_disk t"
  by (induction b arbitrary: t) (auto simp: restore_requests_def)

lemma restore_requests_maps:
  assumes "\<And>i r. (i, r) \<in> set b \<Longrightarrow> m i = Some r"
    and "\<And>k. k \<notin> fst ` set b \<Longrightarrow> request_at t k = m k"
  shows "map_of (st_requests (restore_requests b t)) = m"
  using assms
proof (induction b arbitrary: t)
  case Nil
  then show ?case by (auto simp: restore_requests_def)
next
  case (Cons x b)
  obtain i r where x: "x = (i, r)" by (cases x)
  have "restore_requests (x # b) t = restore_requests b (put_request i r t)"
    by (simp add: restore_requests_def x)
  moreover have mi: "m i = Some r" using Cons.prems(1) x by simp
  have "map_of (st_requests (restore_requests b (put_request i r t))) = m"
    using Cons.prems x by (intro Cons.IH) (auto simp: mi)
  ultimately show ?case by simp
qed

lemma linked_request_Some:
  "linked_request s x = Some r \<longleftrightarrow> truthy x \<and> request_at s (the x) = Some r"
  by (simp add: linked_request_def)

lemma existing_mem: "(i, r) \<in> set (existing s x) \<longleftrightarrow> truthy x \<and> i = the x \<and> request_at s i = Some r"
  by (auto simp: existing_def linked_request_def split: option.splits if_splits)

text \<open>The rollback of commit: whatever was put at the two keys is put back.\<close>

lemma restore_existing:
  assumes "\<And>k. request_at t k = request_at s k \<or> (truthy x \<and> k = the x \<or> truthy y \<and> k = the y) \<and> request_at s k \<noteq> None"
    and "st_deliveries t = st_deliveries s"
  shows "same_maps s (restore_requests (existing s x @ existing s y) t)"
proof -
  have "map_of (st_requests (restore_requests (existing s x @ existing s y) t)) = map_of (st_requests s)"
  proof (rule restore_requests_maps)
    show "request_at s i = Some r" if "(i, r) \<in> set (existing s x @ existing s y)" for i r
      using that by (auto simp: existing_mem)
  next
    fix k assume k: "k \<notin> fst ` set (existing s x @ existing s y)"
    show "request_at t k = request_at s k"
    proof (rule ccontr)
      assume "request_at t k \<noteq> request_at s k"
      then obtain r where "truthy x \<and> k = the x \<or> truthy y \<and> k = the y" "request_at s k = Some r"
        using assms(1) by blast
      then have "(k, r) \<in> set (existing s x @ existing s y)" by (auto simp: existing_mem)
      with k show False by force
    qed
  qed
  with assms(2) show ?thesis by (simp add: same_maps_def)
qed

lemma responded_request_ok:
  assumes "request_wf k r" "rq_pendingResponseDeliveryId r = Some d"
  shows "request_wf k (responded_request env p r)" "request_step r (responded_request env p r)"
  using assms by (auto simp: request_wf_def request_step_def responded_request_def)

lemma delivered_request_ok:
  assumes "request_wf k r"
  shows "request_wf k (delivered_request env rc r)" "request_step r (delivered_request env rc r)"
  using assms by (auto simp: request_wf_def request_step_def delivered_request_def)

lemma commit_reply_cases:
  assumes "commit_reply env p s = Inr c"
  obtains (none) "\<not> truthy (pr_inReplyToRequestId p)" "c = ReplyCommitted None s"
  | (recorded) r where "truthy (pr_inReplyToRequestId p)" "request_at s (the (pr_inReplyToRequestId p)) = Some r"
      "rq_status r = Responded" "map_option rs_deliveryId (rq_response r) = Some (pr_deliveryId p)" "c = AlreadyRecorded r"
  | (reply) r where "truthy (pr_inReplyToRequestId p)" "request_at s (the (pr_inReplyToRequestId p)) = Some r"
      "rq_pendingResponseDeliveryId r = Some (pr_deliveryId p)"
      "c = ReplyCommitted (Some (responded_request env p r))
         (put_request (the (pr_inReplyToRequestId p)) (responded_request env p r) s)"
  using assms unfolding commit_reply_def
  by (auto simp: linked_request_Some split: if_splits option.splits)

lemma commit_good:
  assumes ok: "state_ok s"
  shows "good_step s (commit env p rc s)"
proof -
  let ?k = "the (pr_requestId p)" and ?i = "the (pr_inReplyToRequestId p)"
  let ?before = "existing s (pr_requestId p) @ existing s (pr_inReplyToRequestId p)"
  note fail = persist_or_fail
  have reply_ok: "good_step s (persist_or env (restore_requests ?before) v (put_request ?i (responded_request env p r) s))"
    if "truthy (pr_inReplyToRequestId p)" "request_at s ?i = Some r" "rq_pendingResponseDeliveryId r = Some d" for r d v
    using ok that responded_request_ok [OF wf_requestD [OF ok that(2)] that(3), of env p]
    by (intro good_step_persist wf_rules change_rules restore_existing) auto
  have request: "good_step s (persist_or env (restore_requests ?before) v (put_request ?k (delivered_request env rc r) s))"
    if "truthy (pr_requestId p)" "request_at s ?k = Some r" for r v
    using ok that delivered_request_ok [OF wf_requestD [OF ok that(2)], of env rc]
    by (intro good_step_persist wf_rules change_rules restore_existing) auto
  have both: "good_step s (persist_or env (restore_requests ?before) v
      (put_request ?k (delivered_request env rc q) (put_request ?i (responded_request env p r) s)))"
    if i: "truthy (pr_inReplyToRequestId p)" "request_at s ?i = Some r" "rq_pendingResponseDeliveryId r = Some d"
      and k: "truthy (pr_requestId p)" "request_at s ?k \<noteq> None"
        "request_at (put_request ?i (responded_request env p r) s) ?k = Some q" for r q d v
  proof -
    note r = responded_request_ok [OF wf_requestD [OF ok i(2)] i(3), of env p]
    have "request_wf ?k (delivered_request env rc q)" "request_entry (request_at s ?k) (Some (delivered_request env rc q))"
    proof -
      have "?k = ?i \<Longrightarrow> delivered_request env rc q = responded_request env p r"
        using k(3) by (auto simp: delivered_request_def responded_request_def)
      then show "request_wf ?k (delivered_request env rc q)" "request_entry (request_at s ?k) (Some (delivered_request env rc q))"
        using k(3) r i(2) delivered_request_ok [of ?k q env rc] wf_requestD [OF ok, of ?k q] by (cases "?k = ?i"; auto)+
    qed
    with ok i k r show ?thesis
      by (intro good_step_persist wf_rules change_rules restore_existing) auto
  qed
  show ?thesis
  proof (cases "truthy (pr_requestId p) \<and> (case linked_request s (pr_requestId p) of None \<Rightarrow> True
           | Some r \<Rightarrow> rq_deliveryId r \<noteq> pr_deliveryId p \<or> rq_status r = RCancelled)")
    case True
    with ok show ?thesis by (simp add: commit_def)
  next
    case guard: False
    show ?thesis
    proof (cases "commit_reply env p s")
      case (Inl e)
      with guard ok show ?thesis by (simp add: commit_def)
    next
      case (Inr c)
      from Inr show ?thesis
      proof (cases rule: commit_reply_cases)
        case none
        show ?thesis
        proof (cases "truthy (pr_requestId p)")
          case False
          with none Inr ok show ?thesis by (simp add: commit_def)
        next
          case True
          with guard obtain q where q: "request_at s ?k = Some q" "rq_deliveryId q = pr_deliveryId p" "rq_status q \<noteq> RCancelled"
            by (auto simp: linked_request_def split: option.splits)
          from request [OF True q(1)] guard True none Inr q show ?thesis
            by (simp add: commit_def linked_request_def)
        qed
      next
        case (recorded r)
        with guard Inr ok show ?thesis by (simp add: commit_def)
      next
        case (reply r)
        note rep = this
        show ?thesis
        proof (cases "truthy (pr_requestId p)")
          case False
          with rep Inr reply_ok [OF rep(1,2,3)] show ?thesis by (simp add: commit_def)
        next
          case True
          with guard obtain q0 where q0: "request_at s ?k = Some q0" "rq_deliveryId q0 = pr_deliveryId p" "rq_status q0 \<noteq> RCancelled"
            by (auto simp: linked_request_def split: option.splits)
          then obtain q where q: "request_at (put_request ?i (responded_request env p r) s) ?k = Some q"
              "rq_deliveryId q = pr_deliveryId p" "rq_status q \<noteq> RCancelled"
            using rep(2) by (cases "?k = ?i") (auto simp: responded_request_def)
          have "request_at s ?k \<noteq> None" using q0 by simp
          from both [OF rep(1,2,3) True this q(1)] guard True Inr rep(4) q q0 show ?thesis
            by (simp add: commit_def linked_request_def)
        qed
      qed
    qed
  qed
qed

lemma persist_or_snd: "snd (persist_or env rb v t) \<in> {saved t, rb t, rb (saved t)}"
  by (auto simp: persist_or_def persist_def saved_def split: option.splits write_outcome.splits)

lemma commit_deliveries: "st_deliveries (snd (commit env p rc s)) = st_deliveries s"
proof -
  have pers: "st_deliveries (snd (persist_or env (restore_requests b) v t)) = st_deliveries t"
    for b t and v :: "request option \<times> request option"
    using persist_or_snd [of env "restore_requests b" v t] by auto
  show ?thesis
    by (auto simp: commit_def Let_def pers commit_reply_def split: sum.splits reply_commit.splits option.splits if_splits)
qed

lemma commit_untracked:
  "\<not> truthy (pr_requestId p) \<Longrightarrow> \<not> truthy (pr_inReplyToRequestId p) \<Longrightarrow> commit env p rc s = (Inr (None, None), s)"
  by (simp add: commit_def commit_reply_def Let_def)

definition committed_delivery :: "env \<Rightarrow> receipt \<Rightarrow> delivery \<Rightarrow> delivery" where
  "committed_delivery env rc d = d\<lparr>dl_state := Committed, dl_receipt := Some rc,
     dl_updatedAt := Some (Iso (env_now env)), dl_nextAttemptAt := None, dl_retryCount := None,
     dl_lastError := None, dl_blockedReason := None\<rparr>"

lemma committed_delivery_ok:
  assumes "delivery_wf k d" "dl_state d = Dispatching" "receipt_matches d rc"
  shows "delivery_wf k (committed_delivery env rc d)" "delivery_step d (committed_delivery env rc d)"
  using assms by (auto simp: committed_delivery_def delivery_wf_def delivery_step_def frozen_def attempts_def receipt_matches_def)

lemma commitEndpointReceipt_good:
  assumes ok: "state_ok s"
  shows "good_step s (commitEndpointReceipt env k rc s)"
proof (cases "assertEndpointDeliveryActive env s k")
  case (Inl e)
  with ok show ?thesis by (simp add: commitEndpointReceipt_def)
next
  case active: (Inr u)
  show ?thesis
  proof (cases "delivery_at s k")
    case None
    with ok active show ?thesis by (simp add: commitEndpointReceipt_def)
  next
    case (Some d)
    show ?thesis
    proof (cases "receipt_matches d rc \<and> dl_state d = Dispatching")
      case False
      with ok active Some show ?thesis by (auto simp: commitEndpointReceipt_def)
    next
      case True
      let ?d = "committed_delivery env rc d" and ?p = "dl_preparation d"
      let ?s1 = "put_delivery k ?d s"
      let ?out = "commit env ?p (Some (rc_action rc), Some (rc_transport rc)) ?s1"
      note d' = committed_delivery_ok [OF wf_deliveryD [OF ok Some], of rc env]
      have ok1: "state_ok ?s1" using ok d' True by (intro wf_rules) auto
      have unfolded: "commitEndpointReceipt env k rc s = (case ?out of
          (Inl e, s2) \<Rightarrow> (Inl e, put_delivery k d s2)
        | (Inr _, s2) \<Rightarrow> if truthy (pr_requestId ?p) \<or> truthy (pr_inReplyToRequestId ?p) then (Inr (), s2)
            else persist_or env (put_delivery k d) () s2)"
        using active Some True by (simp add: commitEndpointReceipt_def committed_delivery_def Let_def)
      obtain x s2 where out: "?out = (x, s2)" by (cases ?out)
      have dels: "st_deliveries s2 = st_deliveries ?s1"
        using commit_deliveries [of env ?p _ ?s1] out by (metis snd_conv)
      have good: "good_step ?s1 (x, s2)" using commit_good [OF ok1] out by metis
      show ?thesis
      proof (cases x)
        case (Inl e)
        with good have "same_maps s (put_delivery k d s2)"
          using Some Inl by (auto simp: good_step_def same_maps_def fun_eq_iff dels)
        with Inl out unfolded show ?thesis by (simp add: good_step_def)
      next
        case (Inr y)
        with good have s2: "state_ok s2" "changes ?s1 s2" "st_unavailable s2 = st_unavailable s"
          "st_evidenceUnavailable s2 = st_evidenceUnavailable s" by (auto simp: good_step_def)
        have ch: "changes s s2"
          using s2(2) d' True Some by (auto simp: changes_def dels)
        show ?thesis
        proof (cases "truthy (pr_requestId ?p) \<or> truthy (pr_inReplyToRequestId ?p)")
          case True
          with Inr out unfolded s2 ch show ?thesis by (simp add: good_step_def)
        next
          case False
          then have "s2 = ?s1" using commit_untracked [of ?p env _ ?s1] out by simp
          then have "good_step s (persist_or env (put_delivery k d) () s2)"
            using good_step_delivery [OF ok Some] d' True by simp
          with False Inr out unfolded show ?thesis by simp
        qed
      qed
    qed
  qed
qed

section \<open>Aborting and cancelling\<close>

lemma truthy_the: "truthy x \<Longrightarrow> x = Some (the x)"
  by (cases x) simp_all

lemma request_released:
  assumes "request_wf k r" "rq_status r \<noteq> Responded" "rq_status r \<noteq> RCancelled"
  shows "request_wf k (r\<lparr>rq_pendingResponseDeliveryId := None, rq_pendingResponseEvidence := None, rq_updatedAt := t\<rparr>)"
    "request_step r (r\<lparr>rq_pendingResponseDeliveryId := None, rq_pendingResponseEvidence := None, rq_updatedAt := t\<rparr>)"
  using assms by (auto simp: request_wf_def request_step_def)

text \<open>
  What is kept while an abort works on copies of the state: the invariant, the allowed changes,
  and that only the two linked requests differ.
\<close>

definition aborting :: "preparation \<Rightarrow> req_state \<Rightarrow> req_state \<Rightarrow> bool" where
  "aborting p s t \<longleftrightarrow> state_ok t \<and> changes s t \<and> st_unavailable t = st_unavailable s
     \<and> st_evidenceUnavailable t = st_evidenceUnavailable s
     \<and> (\<forall>k. request_at t k = request_at s k \<or>
          (truthy (pr_requestId p) \<and> k = the (pr_requestId p) \<or> truthy (pr_inReplyToRequestId p) \<and> k = the (pr_inReplyToRequestId p))
           \<and> request_at s k \<noteq> None)
     \<and> (\<forall>k r. request_at t k = Some r \<longrightarrow> (\<exists>q. request_at s k = Some q \<and> rq_status q = rq_status r))"

lemma release_reply_aborting:
  assumes ab: "aborting p s t" and req: "st_requests t = st_requests s" and out: "release_reply env p t = (b, u)"
  shows "aborting p s u \<and> st_deliveries u = st_deliveries t"
proof (cases "b")
  case True
  then obtain r where r: "truthy (pr_inReplyToRequestId p)" "request_at s (the (pr_inReplyToRequestId p)) = Some r"
    "rq_pendingResponseDeliveryId r = Some (pr_deliveryId p)"
    and u: "u = put_request (the (pr_inReplyToRequestId p)) (r\<lparr>rq_pendingResponseDeliveryId := None,
      rq_pendingResponseEvidence := None, rq_updatedAt := Iso (env_now env)\<rparr>) t"
    using out req by (auto simp: release_reply_def linked_request_Some split: option.splits if_splits)
  have "request_wf (the (pr_inReplyToRequestId p)) r"
    using ab r(2) req wf_requestD [of t] by (simp add: aborting_def)
  moreover from this have "rq_status r = AwaitingResponse" using r(3) by (simp add: request_wf_def)
  ultimately show ?thesis
    using ab r request_released [of "the (pr_inReplyToRequestId p)" r "Iso (env_now env)"]
    unfolding u aborting_def by (auto intro!: wf_rules change_rules)
next
  case False
  with out have "u = t" by (auto simp: release_reply_def split: option.splits if_splits)
  with ab show ?thesis by simp
qed

lemma release_request_aborting:
  assumes ab: "aborting p s t" and out: "release_request p t = (b, u)"
  shows "aborting p s u \<and> st_deliveries u = st_deliveries t"
proof (cases "b")
  case True
  then obtain r where r: "truthy (pr_requestId p)" "request_at t (the (pr_requestId p)) = Some r" "rq_status r = PendingDelivery"
    and u: "u = drop_request (the (pr_requestId p)) t"
    using out by (auto simp: release_request_def linked_request_Some split: option.splits if_splits)
  from ab r obtain q where q: "request_at s (the (pr_requestId p)) = Some q" "rq_status q = PendingDelivery"
    unfolding aborting_def by metis
  with ab r show ?thesis
    unfolding u aborting_def by (auto intro!: wf_rules change_rules)
next
  case False
  with out have "u = t" by (auto simp: release_request_def split: option.splits if_splits)
  with ab show ?thesis by simp
qed

lemma abort_good:
  assumes ok: "state_ok s"
  shows "good_step s (abort env p s)"
proof -
  let ?held = "delivery_at s (pr_deliveryId p)"
  let ?before = "existing s (pr_requestId p) @ existing s (pr_inReplyToRequestId p)"
  define s1 where "s1 = (if ?held \<noteq> None then drop_delivery (pr_deliveryId p) s else s)"
  obtain reserved s2 where s2: "release_reply env p s1 = (reserved, s2)" by (cases "release_reply env p s1")
  obtain pending s3 where s3: "release_request p s2 = (pending, s3)" by (cases "release_request p s2")
  let ?rb = "\<lambda>s'. let t = restore_requests ?before s' in (case ?held of None \<Rightarrow> t | Some d \<Rightarrow> put_delivery (dl_deliveryId d) d t)"
  have unfolded: "abort env p s = (if (case ?held of None \<Rightarrow> False | Some d \<Rightarrow> dl_state d \<noteq> Prepared)
     then (Inl (Err ''Dispatched endpoint delivery cannot release its durable reservation.''), s)
     else if ?held = None \<and> \<not> reserved \<and> \<not> pending then (Inr (), s3) else persist_or env ?rb () s3)"
    using s2 s3 unfolding s1_def by (simp add: abort_def Let_def)
  show ?thesis
  proof (cases "case ?held of None \<Rightarrow> False | Some d \<Rightarrow> dl_state d \<noteq> Prepared")
    case True
    with ok show ?thesis by (simp add: unfolded)
  next
    case False
    have reqs: "st_requests s1 = st_requests s" by (simp add: s1_def)
    have "aborting p s s1"
      using ok False by (auto simp: aborting_def s1_def intro!: wf_rules change_rules)
    with release_reply_aborting [OF _ reqs s2] release_request_aborting [OF _ s3]
    have ab: "aborting p s s3" and dels: "st_deliveries s3 = st_deliveries s1" by auto
    have rb: "same_maps s (?rb t)" if "t = s3 \<or> t = saved s3" for t
    proof -
      have "map_of (st_requests (restore_requests ?before t)) = map_of (st_requests s)"
      proof (rule restore_requests_maps)
        show "request_at s i = Some r" if "(i, r) \<in> set ?before" for i r
          using that by (auto simp: existing_mem)
        show "request_at t k = request_at s k" if "k \<notin> fst ` set ?before" for k
        proof (rule ccontr)
          assume "request_at t k \<noteq> request_at s k"
          with ab \<open>t = s3 \<or> t = saved s3\<close> obtain r where "request_at s k = Some r"
            "truthy (pr_requestId p) \<and> k = the (pr_requestId p) \<or> truthy (pr_inReplyToRequestId p) \<and> k = the (pr_inReplyToRequestId p)"
            by (auto simp: aborting_def)
          then have "(k, r) \<in> set ?before" by (auto simp: existing_mem)
          with that show False by force
        qed
      qed
      moreover have "map_of (st_deliveries (?rb t)) = map_of (st_deliveries s)"
        using that wf_deliveryD [OF ok] by (auto simp: Let_def dels s1_def delivery_wf_def fun_eq_iff split: option.splits)
      ultimately show ?thesis by (auto simp: same_maps_def Let_def split: option.splits)
    qed
    have "good_step s (persist_or env ?rb () s3)"
      using ab rb by (intro good_step_persist) (auto simp: aborting_def)
    moreover have "good_step s (Inr (), s3)" using ab by (simp add: good_step_def aborting_def)
    ultimately show ?thesis using False by (simp add: unfolded)
  qed
qed

lemma fold_put_delivery_sel [simp]:
  "st_requests (fold (\<lambda>d t. put_delivery (dl_deliveryId d) d t) ds t) = st_requests t"
  by (induction ds arbitrary: t) auto

lemma fold_put_delivery_maps:
  assumes "\<And>d. d \<in> set ds \<Longrightarrow> m (dl_deliveryId d) = Some d"
    and "\<And>k. k \<notin> dl_deliveryId ` set ds \<Longrightarrow> delivery_at t k = m k"
  shows "map_of (st_deliveries (fold (\<lambda>d t. put_delivery (dl_deliveryId d) d t) ds t)) = m"
  using assms
proof (induction ds arbitrary: t)
  case Nil
  then show ?case by auto
next
  case (Cons d ds)
  have md: "m (dl_deliveryId d) = Some d" using Cons.prems(1) by simp
  have "map_of (st_deliveries (fold (\<lambda>d t. put_delivery (dl_deliveryId d) d t) ds (put_delivery (dl_deliveryId d) d t))) = m"
    using Cons.prems by (intro Cons.IH) (auto simp: md)
  then show ?case by simp
qed

lemma cancelled_request_ok:
  assumes "request_wf k r" "rq_status r \<noteq> Responded" "rq_status r \<noteq> RCancelled"
  shows "request_wf k (cancelled_request env reason r)" "request_step r (cancelled_request env reason r)"
proof -
  have "status_edge (rq_status r) RCancelled" using assms(2,3) by (cases "rq_status r") simp_all
  moreover have "rq_response r = None" using assms by (auto simp: request_wf_def)
  ultimately show "request_wf k (cancelled_request env reason r)" "request_step r (cancelled_request env reason r)"
    using assms(1) unfolding request_wf_def request_step_def cancelled_request_def by simp_all
qed

lemma cancelled_delivery_ok:
  assumes "delivery_wf k d" "dl_state d \<noteq> Committed" "dl_state d \<noteq> DCancelled"
  shows "delivery_wf k (cancelled_delivery env m d)" "delivery_step d (cancelled_delivery env m d)"
proof -
  have "state_edge (dl_state d) DCancelled" using assms(2,3) by (cases "dl_state d") simp_all
  moreover have "dl_receipt d = None" using assms(1,2) by (auto simp: delivery_wf_def)
  ultimately show "delivery_wf k (cancelled_delivery env m d)" "delivery_step d (cancelled_delivery env m d)"
    using assms(1) unfolding delivery_wf_def delivery_step_def cancelled_delivery_def frozen_def attempts_def
    by simp_all
qed

definition fence :: "env \<Rightarrow> string \<Rightarrow> request \<Rightarrow> delivery \<Rightarrow> delivery" where
  "fence env message r d = (if fenced_by r d then cancelled_delivery env message d else d)"

definition fence_all :: "env \<Rightarrow> string \<Rightarrow> request \<Rightarrow> req_state \<Rightarrow> req_state" where
  "fence_all env message r s = s\<lparr>st_deliveries := map (\<lambda>(k, d). (k, fence env message r d)) (st_deliveries s)\<rparr>"

lemma fence_all_sel [simp]:
  "st_requests (fence_all env m r s) = st_requests s" "st_unavailable (fence_all env m r s) = st_unavailable s"
  "st_evidenceUnavailable (fence_all env m r s) = st_evidenceUnavailable s"
  "delivery_at (fence_all env m r s) k = map_option (fence env m r) (delivery_at s k)"
  "map fst (st_deliveries (fence_all env m r s)) = map fst (st_deliveries s)"
  by (auto simp: fence_all_def map_of_map comp_def split_beta)

lemma fence_ok:
  assumes "delivery_wf k d"
  shows "delivery_wf k (fence env m r d) \<and> delivery_step d (fence env m r d)"
proof (cases "fenced_by r d")
  case True
  then have "dl_state d \<noteq> Committed" "dl_state d \<noteq> DCancelled" by (simp_all add: fenced_by_def)
  with cancelled_delivery_ok [OF assms] True show ?thesis by (simp add: fence_def)
next
  case False
  with assms show ?thesis by (simp add: fence_def delivery_step_def)
qed

lemma cancel_unfold:
  assumes "request_at s (cleanText (Some k) 100) = Some r" "rq_status r \<noteq> Responded" "rq_status r \<noteq> RCancelled"
  shows "\<exists>m. cancel env k reason s = persist_or env
      (\<lambda>s'. fold (\<lambda>d t. put_delivery (dl_deliveryId d) d t) (filter (fenced_by r) (map_values (st_deliveries s)))
         (put_request (rq_id r) r s'))
      (cancelled_request env reason r)
      (put_request (cleanText (Some k) 100) (cancelled_request env reason r) (fence_all env m r s))"
  using assms by (auto simp: cancel_def Let_def fence_all_def fence_def)

lemma cancel_good:
  assumes ok: "state_ok s"
  shows "good_step s (cancel env k reason s)"
proof (cases "request_at s (cleanText (Some k) 100)")
  case None
  with ok show ?thesis by (simp add: cancel_def)
next
  case (Some r)
  let ?k = "cleanText (Some k) 100"
  show ?thesis
  proof (cases "rq_status r = Responded \<or> rq_status r = RCancelled")
    case True
    with ok Some show ?thesis by (auto simp: cancel_def)
  next
    case False
    note r = wf_requestD [OF ok Some]
    let ?aff = "filter (fenced_by r) (map_values (st_deliveries s))"
    obtain m where cancel: "cancel env k reason s = persist_or env
      (\<lambda>s'. fold (\<lambda>d t. put_delivery (dl_deliveryId d) d t) ?aff (put_request (rq_id r) r s'))
      (cancelled_request env reason r)
      (put_request ?k (cancelled_request env reason r) (fence_all env m r s))"
      using cancel_unfold [OF Some] False by blast
    let ?t = "put_request ?k (cancelled_request env reason r) (fence_all env m r s)"
    have rid: "rq_id r = ?k" using r by (simp add: request_wf_def)
    have f: "state_ok (fence_all env m r s)" "changes s (fence_all env m r s)"
      using ok fence_ok [OF wf_deliveryD [OF ok]] by (auto simp: state_ok_def changes_def delivery_entry_def
          entry_step_def split: option.splits)
    have aff: "delivery_at s (dl_deliveryId d) = Some d \<and> fenced_by r d" if "d \<in> set ?aff" for d
    proof -
      have "distinct (map fst (st_deliveries s))" using ok by (simp add: state_ok_def)
      with that obtain j where j: "delivery_at s j = Some d" by (auto simp: map_values_mem)
      with wf_deliveryD [OF ok j] that show ?thesis by (auto simp: delivery_wf_def)
    qed
    have aff': "d \<in> set ?aff" if "delivery_at s j = Some d" "fenced_by r d" for j d
      using that by (force dest: map_of_SomeD)
    have rb: "same_maps s (fold (\<lambda>d t. put_delivery (dl_deliveryId d) d t) ?aff (put_request (rq_id r) r t))"
      if "t = ?t \<or> t = saved ?t" for t
    proof -
      have other: "delivery_at t j = delivery_at s j" if "j \<notin> dl_deliveryId ` set ?aff" for j
      proof (cases "delivery_at s j")
        case (Some d)
        have "\<not> fenced_by r d"
        proof
          assume "fenced_by r d"
          with aff' Some have "d \<in> set ?aff" by blast
          moreover have "dl_deliveryId d = j" using wf_deliveryD [OF ok Some] by (simp add: delivery_wf_def)
          ultimately show False using that by blast
        qed
        then show ?thesis using \<open>t = ?t \<or> t = saved ?t\<close> Some by (auto simp: fence_def)
      qed (use \<open>t = ?t \<or> t = saved ?t\<close> in auto)
      have "map_of (st_deliveries (fold (\<lambda>d t. put_delivery (dl_deliveryId d) d t) ?aff (put_request (rq_id r) r t)))
          = map_of (st_deliveries s)"
      proof (rule fold_put_delivery_maps)
        show "delivery_at s (dl_deliveryId d) = Some d" if "d \<in> set ?aff" for d using aff [OF that] by blast
        show "delivery_at (put_request (rq_id r) r t) j = delivery_at s j" if "j \<notin> dl_deliveryId ` set ?aff" for j
          using other [OF that] by (simp only: put_sel)
      qed
      moreover have "map_of (st_requests (put_request (rq_id r) r t)) = map_of (st_requests s)"
        using that Some rid by (auto simp: fun_eq_iff)
      ultimately show ?thesis by (simp add: same_maps_def)
    qed
    have status_open: "rq_status r \<noteq> Responded" "rq_status r \<noteq> RCancelled" using False by blast+
    note c = cancelled_request_ok [OF r this, of env reason]
    show ?thesis unfolding cancel
    proof (rule good_step_persist)
      show "state_ok ?t" using f(1) c(1) by (rule wf_put_request)
      show "changes s ?t" using f(2) c(2) Some by (intro changes_put_request) simp_all
    qed (use rb in simp_all)
  qed
qed

lemma cancelEndpointDelivery_good:
  assumes ok: "state_ok s"
  shows "good_step s (cancelEndpointDelivery env k s)"
proof (cases "delivery_at s k")
  case None
  with ok show ?thesis by (simp add: cancelEndpointDelivery_def)
next
  case (Some d)
  have cl: "good_step s (case cancel env j x s of (Inl e, s') \<Rightarrow> (Inl e, s') | (Inr _, s') \<Rightarrow> (Inr (f s'), s'))" for j x f
    using cancel_good [OF ok, of env j x] by (auto simp: good_step_def split: prod.splits sum.splits)
  have direct: "good_step s (persist_or env (put_delivery k d) v (put_delivery k (cancelled_delivery env cancel_message d) s))"
    if "dl_state d \<noteq> Committed" "dl_state d \<noteq> DCancelled" for v
    using cancelled_delivery_ok [OF wf_deliveryD [OF ok Some] that] ok Some by (intro good_step_delivery)
  show ?thesis
  proof (cases "dl_state d = Committed \<or> dl_receipt d \<noteq> None \<or> dl_state d = DCancelled")
    case True
    with ok Some show ?thesis by (auto simp: cancelEndpointDelivery_def)
  next
    case open_delivery: False
    show ?thesis
    proof (cases "linked_record env s k (dl_preparation d)")
      case (Inl e)
      with ok Some open_delivery show ?thesis by (simp add: cancelEndpointDelivery_def)
    next
      case (Inr linked)
      show ?thesis
      proof (cases "\<exists>r. linked = Some r \<and> rq_status r \<noteq> Responded \<and> rq_status r \<noteq> RCancelled")
        case True
        with Inr Some open_delivery cl show ?thesis by (auto simp: cancelEndpointDelivery_def)
      next
        case False
        then have "(case linked of Some r \<Rightarrow> if rq_status r \<noteq> Responded \<and> rq_status r \<noteq> RCancelled then Some r else None
          | None \<Rightarrow> None) = None" by (auto split: option.splits)
        with Inr Some open_delivery direct show ?thesis by (simp add: cancelEndpointDelivery_def Let_def)
      qed
    qed
  qed
qed

section \<open>Replaced parties\<close>

lemma moveParty_ok:
  "moveParty x role r = Inr q \<Longrightarrow> rq_id q = rq_id r \<and> rq_deliveryId q = rq_deliveryId r \<and> rq_status q = rq_status r
     \<and> rq_response q = rq_response r \<and> rq_createdAt q = rq_createdAt r \<and> rq_responseInstruction q = rq_responseInstruction r"
  by (auto simp: moveParty_def Let_def split: option.splits sum.splits if_splits)

lemma reconcileRecord_ok:
  assumes "reconcileRecord env resolve r = Inr x"
  shows "request_step r (outcome_record r x) \<and> (request_wf k r \<longrightarrow> request_wf k (outcome_record r x))"
proof -
  consider "x = Unchanged"
    | q where "x = Stale q" "rq_status r = PendingDelivery \<or> rq_status r = AwaitingResponse"
        "q = r\<lparr>rq_status := RCancelled, rq_cancelledAt := Some (Iso (env_now env)),
              rq_cancelReason := Some ''Message Agent pool changed before this tracked delivery completed; the stale task binding was cancelled.'',
              rq_pendingResponseDeliveryId := None, rq_pendingResponseEvidence := None,
              rq_updatedAt := Iso (env_now env)\<rparr>"
    | r1 r2 y z where "moveParty y SourceRole r = Inr r1" "moveParty z TargetRole r1 = Inr r2"
        "rq_status r = AwaitingResponse"
        "x = Reassigned (r2\<lparr>rq_pendingResponseDeliveryId := None, rq_pendingResponseEvidence := None,
                     rq_updatedAt := Iso (env_now env)\<rparr>)"
  proof -
    let ?y = "resolve (rq_source r) r SourceRole" and ?z = "resolve (rq_target r) r TargetRole"
    consider (skip) "rq_status r \<noteq> PendingDelivery \<and> rq_status r \<noteq> AwaitingResponse \<or>
        pa_endpoint (rq_source r) \<noteq> None \<or> pa_connection (rq_source r) \<noteq> None \<or> pa_endpoint (rq_target r) \<noteq> None \<or>
        ?y = Unresolved \<and> ?z = Unresolved"
      | (stale) "rq_status r = PendingDelivery \<or> rq_status r = AwaitingResponse" "rq_status r = PendingDelivery \<or> ?y = Gone \<or> ?z = Gone"
        "\<not> (pa_endpoint (rq_source r) \<noteq> None \<or> pa_connection (rq_source r) \<noteq> None \<or> pa_endpoint (rq_target r) \<noteq> None)"
        "\<not> (?y = Unresolved \<and> ?z = Unresolved)"
      | (moves) "rq_status r = AwaitingResponse" "\<not> (?y = Gone \<or> ?z = Gone)"
        "\<not> (pa_endpoint (rq_source r) \<noteq> None \<or> pa_connection (rq_source r) \<noteq> None \<or> pa_endpoint (rq_target r) \<noteq> None)"
        "\<not> (?y = Unresolved \<and> ?z = Unresolved)"
      by blast
    then show ?thesis
    proof cases
      case skip
      then have "x = Unchanged" using assms unfolding reconcileRecord_def Let_def
        by (elim disjE) (simp_all split: if_splits)
      with that(1) show ?thesis .
    next
      case stale
      then have "x = Stale (r\<lparr>rq_status := RCancelled, rq_cancelledAt := Some (Iso (env_now env)),
              rq_cancelReason := Some ''Message Agent pool changed before this tracked delivery completed; the stale task binding was cancelled.'',
              rq_pendingResponseDeliveryId := None, rq_pendingResponseEvidence := None,
              rq_updatedAt := Iso (env_now env)\<rparr>)"
      proof -
        have "\<not> (rq_status r \<noteq> PendingDelivery \<and> rq_status r \<noteq> AwaitingResponse)" using stale(1) by blast
        note conds = if_not_P [OF this] if_not_P [OF stale(3)] if_not_P [OF stale(4)] if_P [OF stale(2)]
        from assms show ?thesis unfolding reconcileRecord_def Let_def conds by (rule Inr_inject [symmetric])
      qed
      with stale(1) that(2) show ?thesis by blast
    next
      case moves
      then obtain r1 r2 where "moveParty ?y SourceRole r = Inr r1" "moveParty ?z TargetRole r1 = Inr r2"
        "x = (if moved ?y (rq_source r) = None \<and> moved ?z (rq_target r) = None then Unchanged
          else Reassigned (r2\<lparr>rq_pendingResponseDeliveryId := None, rq_pendingResponseEvidence := None,
                     rq_updatedAt := Iso (env_now env)\<rparr>))"
        using assms unfolding reconcileRecord_def Let_def by (simp split del: if_split) auto
      with moves(1) that show ?thesis by (cases "moved ?y (rq_source r) = None \<and> moved ?z (rq_target r) = None") simp_all
    qed
  qed
  then show ?thesis
  proof cases
    case 1
    then show ?thesis
      by (simp_all add: request_step_def)
  next
    case 2
    then show ?thesis
      by (auto simp: request_step_def request_wf_def)
  next
    case 3
    with moveParty_ok [OF 3(1)] moveParty_ok [OF 3(2)]
    show ?thesis
      by (auto simp: request_step_def request_wf_def)
  qed
qed

lemma reconcileRecords_ok:
  assumes "reconcileRecords env resolve rs = (None, rs', re, ca)"
  shows "map fst rs' = map fst rs \<and> (\<forall>k. rel_option (\<lambda>r q. request_step r q \<and> (request_wf k r \<longrightarrow> request_wf k q))
    (map_of rs k) (map_of rs' k))"
  using assms
proof (induction rs arbitrary: rs' re ca)
  case Nil
  then show ?case by simp
next
  case (Cons a rs)
  obtain k r where a: "a = (k, r)" by (cases a)
  from Cons.prems a obtain x rs'' re' ca' where x: "reconcileRecord env resolve r = Inr x"
    and rec: "reconcileRecords env resolve rs = (None, rs'', re', ca')" and rs': "rs' = (k, outcome_record r x) # rs''"
    by (auto split: sum.splits prod.splits)
  show ?case using Cons.IH [OF rec] reconcileRecord_ok [OF x] by (auto simp: a rs')
qed

lemma reconcileOpenParties_ok:
  assumes ok: "state_ok s" and out: "reconcileOpenParties env resolve s = (Inr v, s')"
  shows "good_step s (Inr v, s')"
proof -
  obtain rs re ca where rec: "reconcileRecords env resolve (st_requests s) = (None, rs, re, ca)"
    using out by (auto simp: reconcileOpenParties_def split: prod.splits option.splits)
  let ?t = "s\<lparr>st_requests := rs\<rparr>"
  have s': "s' = ?t \<or> s' = saved ?t"
    using out rec by (auto simp: reconcileOpenParties_def persist_or_ok split: if_splits)
  note r = reconcileRecords_ok [OF rec]
  have "state_ok ?t" "changes s ?t"
  proof -
    have "request_wf k q" if "map_of rs k = Some q" for k q
      using conjunct2 [OF r, rule_format, of k] that wf_requestD [OF ok, of k] by (cases "request_at s k") auto
    then show "state_ok ?t" using ok r by (auto simp: state_ok_def)
    have "request_entry (request_at s k) (map_of rs k)" for k
      using conjunct2 [OF r, rule_format, of k] by (cases "request_at s k"; cases "map_of rs k") auto
    then show "changes s ?t" by (simp add: changes_def)
  qed
  with s' show ?thesis by (auto simp: good_step_def)
qed

section \<open>Steps and reachable states\<close>

text \<open>
  Every public operation, inside its transaction. A bound delivery carries no receipt, as its
  callers build it, and fresh UUIDs are not identifiers in use.
\<close>

inductive req_step :: "req_state \<Rightarrow> req_state \<Rightarrow> bool" where
  bind: "dl_receipt d = None \<Longrightarrow> transaction (bindEndpointDelivery env d) s = (v, t) \<Longrightarrow> req_step s t"
| dispatch: "transaction (markEndpointDispatching env k) s = (v, t) \<Longrightarrow> req_step s t"
| failure: "transaction (noteEndpointDeliveryFailure env k err blocked) s = (v, t) \<Longrightarrow> req_step s t"
| not_sent: "transaction (markEndpointNotSent env k proof') s = (v, t) \<Longrightarrow> req_step s t"
| receipt: "transaction (commitEndpointReceipt env k rc) s = (v, t) \<Longrightarrow> req_step s t"
| prepare: "fresh_uuids env s \<Longrightarrow> transaction (prepare env input) s = (v, t) \<Longrightarrow> req_step s t"
| connection: "transaction (recordConnectionResponse env k src d res nxt) s = (v, t) \<Longrightarrow> req_step s t"
| evidence: "transaction (bindResponseEvidence env p prompt) s = (v, t) \<Longrightarrow> req_step s t"
| commit: "transaction (commit env p rc') s = (v, t) \<Longrightarrow> req_step s t"
| abort: "transaction (abort env p) s = (v, t) \<Longrightarrow> req_step s t"
| cancel: "transaction (cancel env k reason) s = (v, t) \<Longrightarrow> req_step s t"
| cancel_delivery: "transaction (cancelEndpointDelivery env k) s = (v, t) \<Longrightarrow> req_step s t"
| reconcile: "transaction (reconcileOpenParties env resolve) s = (v, t) \<Longrightarrow> req_step s t"

definition reaches :: "req_state \<Rightarrow> req_state \<Rightarrow> bool" where
  "reaches = req_step\<^sup>*\<^sup>*"

lemma transaction_cases:
  assumes "transaction f s = (v, t)"
  obtains (ok) x where "v = Inr x" "f s = (Inr x, t)"
  | (failed) e where "v = Inl e" "st_requests t = st_requests s" "st_deliveries t = st_deliveries s"
  using assms by (auto simp: transaction_def split: prod.splits sum.splits)

lemma transaction_good:
  assumes ok: "state_ok s" and t: "transaction f s = (v, t)"
    and good: "\<And>x. f s = (Inr x, t) \<Longrightarrow> good_step s (f s)"
  shows "state_ok t \<and> changes s t"
  using t
proof (cases rule: transaction_cases)
  case (ok x)
  with good [OF ok(2)] show ?thesis by (simp add: good_step_def)
next
  case (failed e)
  with ok show ?thesis by (simp add: state_ok_def changes_def)
qed

lemma transaction_good':
  "transaction f s = (v, t) \<Longrightarrow> state_ok s \<Longrightarrow> good_step s (f s) \<Longrightarrow> state_ok t \<and> changes s t"
  using transaction_good by blast

lemmas good_steps = bindEndpointDelivery_good markEndpointDispatching_good noteEndpointDeliveryFailure_good
  markEndpointNotSent_good commitEndpointReceipt_good prepare_good recordConnectionResponse_good
  bindResponseEvidence_good commit_good abort_good cancel_good cancelEndpointDelivery_good

lemma req_step_ok: "req_step s t \<Longrightarrow> state_ok s \<Longrightarrow> state_ok t \<and> changes s t"
proof (induction rule: req_step.induct)
  case (reconcile env resolve s v t)
  then show ?case
    using reconcileOpenParties_ok by (intro transaction_good [OF reconcile(2,1)]) (metis)
qed (rule transaction_good', assumption, assumption, (rule good_steps; assumption))+

end
