(* ===== verification/EndpointDispatch.thy ===== *)
theory EndpointDispatch
  imports RequestInv
begin

text \<open>
  Sending and reconciling a bound delivery: \<open>verifyThenDispatch\<close>,
  \<open>dispatchPreparedDelivery\<close> and \<open>reconcileEndpointDelivery\<close> of
  \<open>src/src/agentRequests/endpointDelivery.ts\<close>.

  The functions are asynchronous. Between two \<open>await\<close>s they run without interruption, so
  each is a task with a phase, the \<open>await\<close> it is suspended at, and one function that resumes
  it with the reply it waited for, up to the next \<open>await\<close>. The callbacks of the options are
  the environment: what \<open>authorize\<close> says of an endpoint when the task resumes, the outcome of
  \<open>refreshEndpoints\<close>, and the receipt or the error of the transport. A call of the store is the
  transaction on its state, made when the task is resumed with its acknowledgement, or an error of
  the store's owner (a full queue, a closing or lost process), which leaves the state alone. The
  owner runs one call at a time and publishes its change with the acknowledgement, so the state the
  guards read between two calls is the state the last call left.
\<close>

section \<open>Errors\<close>

text \<open>
  What the code reads of a thrown value: its message and code, the role of an endpoint
  verification, the proof of an \<open>EndpointDeliveryNotSentError\<close>, and the code and field of a
  contract error in its chain of causes. The repair text of a contract error is advice to a
  person and is left out.
\<close>

record failure =
  fl_message :: string
  fl_code :: "string option"
  fl_role :: "role option"
  fl_notSent :: "(no_frame_proof option) option"
  fl_contract :: "(string \<times> string) option"

definition plain_failure :: "string \<Rightarrow> string option \<Rightarrow> failure" where
  "plain_failure m c = \<lparr>fl_message = m, fl_code = c, fl_role = None, fl_notSent = None, fl_contract = None\<rparr>"

definition reply_state_message :: "string \<Rightarrow> string \<Rightarrow> string \<Rightarrow> string" where
  "reply_state_message i st reason =
     ''Agent request is not awaiting a response: '' @ i @ ''; currentState='' @ st @ ''; reason='' @ reason"

text \<open>An error of the state machine as the caller of the store sees it.\<close>

fun thrown :: "js_error \<Rightarrow> failure" where
  "thrown (Err m) = plain_failure m None"
| "thrown (ContractErr m f st c) = (plain_failure m (Some c))\<lparr>fl_contract := Some (c, f)\<rparr>"
| "thrown (ReplyStateErr i st r) = plain_failure (reply_state_message i st r) (Some ''agent_reply_state_conflict'')"
| "thrown (CodedErr c m) = plain_failure m (Some c)"
| "thrown NotSentErr = (plain_failure [] (Some ''DELIVERY_NOT_SENT''))\<lparr>fl_role := Some TargetRole, fl_notSent := Some None\<rparr>"
| "thrown WriteErr = plain_failure [] None"

text \<open>\<open>new EndpointVerificationError(role, cause)\<close> keeps the message and the code.\<close>

definition verification_error :: "role \<Rightarrow> failure \<Rightarrow> failure" where
  "verification_error r e = (plain_failure (fl_message e) (fl_code e))\<lparr>fl_role := Some r\<rparr>"

text \<open>What \<open>authorize\<close> says of a target: nothing, or the error it throws.\<close>

type_synonym authority = "endpoint \<Rightarrow> failure option"

definition refreshEndpointIdentities :: "authority \<Rightarrow> failure option \<Rightarrow> endpoint \<Rightarrow> failure option" where
  "refreshEndpointIdentities auth refresh target = (case refresh of
     Some e \<Rightarrow> Some e
   | None \<Rightarrow> (case auth target of
       None \<Rightarrow> None
     | Some e \<Rightarrow> Some (if fl_role e \<noteq> None then e else verification_error TargetRole e)))"

definition guard :: "env \<Rightarrow> authority \<Rightarrow> req_state \<Rightarrow> delivery \<Rightarrow> failure option" where
  "guard env auth s d = (case auth (dl_target d) of
     Some e \<Rightarrow> Some e
   | None \<Rightarrow> (case assertEndpointDeliveryActive env s (dl_deliveryId d) of
       Inl e \<Rightarrow> Some (thrown e)
     | Inr _ \<Rightarrow> None))"

text \<open>The refresh and the guard that follows it.\<close>

definition verify :: "env \<Rightarrow> authority \<Rightarrow> failure option \<Rightarrow> req_state \<Rightarrow> delivery \<Rightarrow> failure option" where
  "verify env auth refresh s d = (case refreshEndpointIdentities auth refresh (dl_target d) of
     Some e \<Rightarrow> Some e
   | None \<Rightarrow> guard env auth s d)"

section \<open>Answers\<close>

record answer =
  an_statusCode :: nat
  an_ok :: bool
  an_status :: string
  an_threadId :: string
  an_deliveryId :: string
  an_generation :: string
  an_deliveryStatus :: string
  an_retryable :: bool
  an_requestId :: "string option"
  an_inReplyToRequestId :: "string option"
  an_responsePolicy :: string
  an_contract :: "(string \<times> string) option"
  an_error :: "(string \<times> string \<times> bool) option"

definition notSentResult :: "delivery \<Rightarrow> failure \<Rightarrow> answer" where
  "notSentResult d e = \<lparr>an_statusCode = 503, an_ok = False, an_status = ''failed'',
     an_threadId = ep_sessionId (dl_target d), an_deliveryId = dl_deliveryId d, an_generation = dl_generation d,
     an_deliveryStatus = ''prepared'', an_retryable = True,
     an_requestId = pr_requestId (dl_preparation d),
     an_inReplyToRequestId = pr_inReplyToRequestId (dl_preparation d),
     an_responsePolicy = pr_responsePolicy (dl_preparation d), an_contract = None,
     an_error = Some (''target_verification'', fl_message e, True)\<rparr>"

definition agentWorkspaceMismatch :: failure where
  "agentWorkspaceMismatch =
     (plain_failure ''Frozen execution cwd does not match the target session's registered workspace.''
        (Some ''AGENT_WORKSPACE_MISMATCH''))\<lparr>fl_contract := Some (''AGENT_WORKSPACE_MISMATCH'', ''cwd'')\<rparr>"

definition delivery_answer :: "delivery \<Rightarrow> bool \<Rightarrow> failure option \<Rightarrow> answer" where
  "delivery_answer d confirmed error =
    (let e = (case error of Some x \<Rightarrow> Some x
              | None \<Rightarrow> if \<not> confirmed \<and> (case dl_lastError d of None \<Rightarrow> False | Some (c, _) \<Rightarrow> c = Some ''AGENT_WORKSPACE_MISMATCH'')
                        then Some agentWorkspaceMismatch else None) in
     \<lparr>an_statusCode = (if confirmed then 200 else 202), an_ok = confirmed,
      an_status = (if confirmed then ''delivered'' else ''delivery_unconfirmed''),
      an_threadId = ep_sessionId (dl_target d), an_deliveryId = dl_deliveryId d, an_generation = dl_generation d,
      an_deliveryStatus = (if confirmed then ''accepted'' else ''unconfirmed''), an_retryable = False,
      an_requestId = pr_requestId (dl_preparation d),
      an_inReplyToRequestId = pr_inReplyToRequestId (dl_preparation d),
      an_responsePolicy = pr_responsePolicy (dl_preparation d),
      an_contract = (case e of None \<Rightarrow> None | Some x \<Rightarrow> fl_contract x),
      an_error = (case e of None \<Rightarrow> None | Some x \<Rightarrow> Some (''target_delivery'', fl_message x, False))\<rparr>)"

section \<open>Replies\<close>

text \<open>
  What a suspended task is resumed with: the end of a refresh, the acknowledgement of a store
  call (with the environment of its transaction) or the refusal of the store's owner, or the end
  of a call of the transport, whose receipt may be absent.
\<close>

datatype reply =
    Refreshed "failure option"
  | Stored env
  | Unavailable failure
  | Transported "failure + receipt option"

text \<open>The store call a resumed task awaited.\<close>

definition store_call ::
    "(env \<Rightarrow> req_state \<Rightarrow> 'a result \<times> req_state) \<Rightarrow> reply \<Rightarrow> req_state \<Rightarrow> ((failure + 'a) \<times> req_state) option" where
  "store_call operation x s = (case x of
     Stored env \<Rightarrow> (case transaction (operation env) s of
         (Inl e, t) \<Rightarrow> Some (Inl (thrown e), t)
       | (Inr v, t) \<Rightarrow> Some (Inr v, t))
   | Unavailable e \<Rightarrow> Some (Inl e, s)
   | _ \<Rightarrow> None)"

definition note_failure :: "string \<Rightarrow> failure \<Rightarrow> reply \<Rightarrow> req_state \<Rightarrow> ((failure + unit) \<times> req_state) option" where
  "note_failure k e = store_call (\<lambda>env. noteEndpointDeliveryFailure env k (fl_message e, fl_code e) False)"

section \<open>Dispatching\<close>

datatype phase =
    Verifying
  | NotingUnsent failure
  | Marking
  | Sending
  | Rechecking "receipt option"
  | Committing receipt
  | Returning failure "no_frame_proof option"
  | NotingReturned failure
  | NotingFailure failure
  | Finished "failure + answer"

text \<open>What the tasks do outside the store: a prompt is handed to the transport, a no-frame report is recorded.\<close>

datatype event = Sent string string | Returned string

definition partly_recorded :: failure where
  "partly_recorded = plain_failure
     ''Original delivery remains unconfirmed because its no-frame evidence could not be fully recorded. Preserve its existing ID; do not replay.'' None"

definition untracked :: failure where
  "untracked = plain_failure
     ''Original delivery remains unconfirmed after its execution boundary; secondary tracking failure does not prove that nothing was sent.'' None"

text \<open>The handler of the errors after the execution boundary.\<close>

definition sent_failed :: "failure \<Rightarrow> phase" where
  "sent_failed e = (case fl_notSent e of Some proof \<Rightarrow> Returning e proof | None \<Rightarrow> NotingFailure e)"

type_synonym dispatch = "delivery \<times> phase"

definition after_mark :: "env \<Rightarrow> authority \<Rightarrow> delivery \<Rightarrow> string \<Rightarrow> req_state \<Rightarrow> dispatch \<times> event list" where
  "after_mark env auth d attempt s =
    (let d' = d\<lparr>dl_dispatchAttemptId := Some attempt, dl_state := Dispatching\<rparr> in
     case guard env auth s d' of
       Some e \<Rightarrow> ((d', sent_failed e), [])
     | None \<Rightarrow> ((d', Sending), [Sent (dl_deliveryId d) attempt]))"

fun verifyThenDispatch ::
    "env \<Rightarrow> authority \<Rightarrow> reply \<Rightarrow> dispatch \<Rightarrow> req_state \<Rightarrow> (dispatch \<times> req_state \<times> event list) option" where
  "verifyThenDispatch env auth (Refreshed x) (d, Verifying) s =
     Some ((d, case verify env auth x s d of Some e \<Rightarrow> NotingUnsent e | None \<Rightarrow> Marking), s, [])"
| "verifyThenDispatch env auth x (d, NotingUnsent e) s = (case note_failure (dl_deliveryId d) e x s of
     None \<Rightarrow> None
   | Some (Inl f, t) \<Rightarrow> Some ((d, Finished (Inl f)), t, [])
   | Some (Inr _, t) \<Rightarrow> Some ((d, Finished (Inr (notSentResult d e))), t, []))"
| "verifyThenDispatch env auth x (d, Marking) s =
    (case store_call (\<lambda>env. markEndpointDispatching env (dl_deliveryId d)) x s of
       None \<Rightarrow> None
     | Some (Inl f, t) \<Rightarrow> Some ((d, Finished (Inl f)), t, [])
     | Some (Inr attempt, t) \<Rightarrow> (case after_mark env auth d attempt t of (task, es) \<Rightarrow> Some (task, t, es)))"
| "verifyThenDispatch env auth (Transported x) (d, Sending) s =
     Some ((d, case x of Inl e \<Rightarrow> sent_failed e | Inr rc \<Rightarrow> Rechecking rc), s, [])"
| "verifyThenDispatch env auth (Refreshed x) (d, Rechecking rc) s =
     Some ((d, case verify env auth x s d of
         Some e \<Rightarrow> sent_failed e
       | None \<Rightarrow> (case (validateEndpointReceipt d rc, rc) of
             (Inr _, Some r) \<Rightarrow> Committing r
           | (Inl e, _) \<Rightarrow> sent_failed (thrown e)
           | (_, None) \<Rightarrow> Rechecking rc)), s, [])"
| "verifyThenDispatch env auth x (d, Committing rc) s =
    (case store_call (\<lambda>env. commitEndpointReceipt env (dl_deliveryId d) rc) x s of
       None \<Rightarrow> None
     | Some (Inl e, t) \<Rightarrow> Some ((d, sent_failed e), t, [])
     | Some (Inr _, t) \<Rightarrow> Some ((d, Finished (Inr (delivery_answer d True None))), t, []))"
| "verifyThenDispatch env auth x (d, Returning e proof) s =
    (case store_call (\<lambda>env. markEndpointNotSent env (dl_deliveryId d) proof) x s of
       None \<Rightarrow> None
     | Some (Inl f, t) \<Rightarrow> Some ((d, Finished (Inr (delivery_answer d False (Some partly_recorded)))), t, [Returned (dl_deliveryId d)])
     | Some (Inr _, t) \<Rightarrow> Some ((d, NotingReturned e), t, [Returned (dl_deliveryId d)]))"
| "verifyThenDispatch env auth x (d, NotingReturned e) s = (case note_failure (dl_deliveryId d) e x s of
     None \<Rightarrow> None
   | Some (Inl f, t) \<Rightarrow> Some ((d, Finished (Inr (delivery_answer d False (Some partly_recorded)))), t, [])
   | Some (Inr _, t) \<Rightarrow> Some ((d\<lparr>dl_state := Prepared\<rparr>, Finished (Inr (notSentResult d e))), t, []))"
| "verifyThenDispatch env auth x (d, NotingFailure e) s = (case note_failure (dl_deliveryId d) e x s of
     None \<Rightarrow> None
   | Some (Inl f, t) \<Rightarrow> Some ((d, Finished (Inr (delivery_answer d False (Some untracked)))), t, [])
   | Some (Inr _, t) \<Rightarrow> Some ((d, Finished (Inr (delivery_answer d False (Some e)))), t, []))"
| "verifyThenDispatch env auth x (d, ph) s = None"

section \<open>Reconciling\<close>

text \<open>
  \<open>reconcileEndpointDelivery\<close>. Its handler looks at the stored state, so it takes the store.
  \<open>Reading\<close> waits for the readiness of the store and the reading of the delivery.
\<close>

datatype recheck =
    Reading
  | Refreshing delivery
  | Asking delivery
  | RRechecking delivery "receipt option"
  | RCommitting receipt
  | RReturning failure "no_frame_proof option"
  | RNoting failure
  | RFinished "failure + bool"

record reconciliation =
  rn_deliveryId :: string
  rn_receiptOnly :: bool
  rn_phase :: recheck

definition reconcile_failed :: "reconciliation \<Rightarrow> failure \<Rightarrow> req_state \<Rightarrow> recheck" where
  "reconcile_failed task e s = (case fl_notSent e of
     Some proof \<Rightarrow>
       if \<not> rn_receiptOnly task
          \<and> (case delivery_at s (rn_deliveryId task) of None \<Rightarrow> False | Some d \<Rightarrow> dl_state d = Dispatching)
       then RReturning e proof else RNoting e
   | None \<Rightarrow> RNoting e)"

definition unconfirmed :: "failure \<Rightarrow> failure" where
  "unconfirmed tracking = plain_failure (''Original delivery reconciliation remains unconfirmed: '' @ fl_message tracking)
     (Some ''AGENT_REQUEST_COMMIT_UNKNOWN'')"

fun reconcile_phase ::
    "env \<Rightarrow> authority \<Rightarrow> reply \<Rightarrow> reconciliation \<Rightarrow> recheck \<Rightarrow> req_state \<Rightarrow> (recheck \<times> req_state \<times> event list) option" where
  "reconcile_phase env auth x task Reading s = (case x of
     Stored _ \<Rightarrow> Some (case delivery_at s (rn_deliveryId task) of
         None \<Rightarrow> RFinished (Inl (plain_failure ''Original endpoint delivery is unavailable.'' None))
       | Some d \<Rightarrow> Refreshing d, s, [])
   | Unavailable e \<Rightarrow> Some (RFinished (Inl e), s, [])
   | _ \<Rightarrow> None)"
| "reconcile_phase env auth (Refreshed x) task (Refreshing d) s = Some (case verify env auth x s d of
       Some e \<Rightarrow> reconcile_failed task e s
     | None \<Rightarrow> if dl_state d = Committed then RFinished (Inr True)
               else if dl_state d \<noteq> Dispatching then RFinished (Inr False)
               else Asking d, s, [])"
| "reconcile_phase env auth (Transported x) task (Asking d) s =
     Some (case x of Inl e \<Rightarrow> reconcile_failed task e s | Inr rc \<Rightarrow> RRechecking d rc, s, [])"
| "reconcile_phase env auth (Refreshed x) task (RRechecking d rc) s = Some (case verify env auth x s d of
       Some e \<Rightarrow> reconcile_failed task e s
     | None \<Rightarrow> (case rc of
           None \<Rightarrow> RFinished (Inr False)
         | Some r \<Rightarrow> (case validateEndpointReceipt d rc of
               Inl e \<Rightarrow> reconcile_failed task (thrown e) s
             | Inr _ \<Rightarrow> RCommitting r)), s, [])"
| "reconcile_phase env auth x task (RCommitting rc) s =
    (case store_call (\<lambda>env. commitEndpointReceipt env (rn_deliveryId task) rc) x s of
       None \<Rightarrow> None
     | Some (Inl e, t) \<Rightarrow> Some (reconcile_failed task e t, t, [])
     | Some (Inr _, t) \<Rightarrow> Some (RFinished (Inr True), t, []))"
| "reconcile_phase env auth x task (RReturning e proof) s =
    (case store_call (\<lambda>env. markEndpointNotSent env (rn_deliveryId task) proof) x s of
       None \<Rightarrow> None
     | Some (Inl f, t) \<Rightarrow> Some (RFinished (Inl (unconfirmed f)), t, [Returned (rn_deliveryId task)])
     | Some (Inr _, t) \<Rightarrow> Some (RNoting e, t, [Returned (rn_deliveryId task)]))"
| "reconcile_phase env auth x task (RNoting e) s = (case note_failure (rn_deliveryId task) e x s of
     None \<Rightarrow> None
   | Some (Inl f, t) \<Rightarrow> Some (RFinished (Inl (unconfirmed f)), t, [])
   | Some (Inr _, t) \<Rightarrow> Some (RFinished (Inl e), t, []))"
| "reconcile_phase env auth x task ph s = None"

definition reconcileEndpointDelivery ::
    "env \<Rightarrow> authority \<Rightarrow> reply \<Rightarrow> reconciliation \<Rightarrow> req_state \<Rightarrow> (reconciliation \<times> req_state \<times> event list) option" where
  "reconcileEndpointDelivery env auth x task s =
     map_option (\<lambda>(ph, t, es). (task\<lparr>rn_phase := ph\<rparr>, t, es)) (reconcile_phase env auth x task (rn_phase task) s)"

section \<open>Retries of a caller\<close>

text \<open>
  What a retry of the original caller does with the stored delivery: dispatch it, reconcile it and
  answer with what the store then says, or answer at once.
\<close>

datatype resumption = Dispatch | Reconcile | Answered answer

definition current_answer :: "delivery \<Rightarrow> answer" where
  "current_answer d = delivery_answer d (dl_state d = Committed) None"

definition resumeReservedDelivery :: "env \<Rightarrow> authority \<Rightarrow> req_state \<Rightarrow> delivery \<Rightarrow> failure + resumption" where
  "resumeReservedDelivery env auth s d = (case guard env auth s d of
     Some e \<Rightarrow> Inl e
   | None \<Rightarrow> Inr (if dl_state d = Prepared then Dispatch
       else if dl_state d = Dispatching then Reconcile else Answered (current_answer d)))"

section \<open>The process\<close>

text \<open>
  The tasks of one process over its store: \<open>inflightDispatches\<close>, which keeps at most one
  dispatch of a delivery, and the reconciliations, each started by its own caller. The
  events are those since the process first started; a restart keeps them.
\<close>

record process =
  ps_store :: req_state
  ps_dispatches :: "(string \<times> dispatch) list"
  ps_reconciles :: "reconciliation list"
  ps_events :: "event list"

definition dispatchPreparedDelivery :: "delivery \<Rightarrow> process \<Rightarrow> process" where
  "dispatchPreparedDelivery d p = (case map_of (ps_dispatches p) (dl_deliveryId d) of
     Some _ \<Rightarrow> p
   | None \<Rightarrow> p\<lparr>ps_dispatches := AList.update (dl_deliveryId d) (d, Verifying) (ps_dispatches p)\<rparr>)"

fun is_finished :: "phase \<Rightarrow> bool" where
  "is_finished (Finished _) = True"
| "is_finished _ = False"

text \<open>A task resumes; a finished one leaves the map (\<open>finally\<close>).\<close>

definition resume_dispatch :: "env \<Rightarrow> authority \<Rightarrow> reply \<Rightarrow> string \<Rightarrow> process \<Rightarrow> (dispatch \<times> process) option" where
  "resume_dispatch env auth x k p = (case map_of (ps_dispatches p) k of
     None \<Rightarrow> None
   | Some task \<Rightarrow> (case verifyThenDispatch env auth x task (ps_store p) of
       None \<Rightarrow> None
     | Some (task', t, es) \<Rightarrow> Some (task', p\<lparr>ps_store := t, ps_events := ps_events p @ es,
         ps_dispatches := (if is_finished (snd task') then AList.delete k (ps_dispatches p)
                           else AList.update k task' (ps_dispatches p))\<rparr>)))"

definition start_reconcile :: "string \<Rightarrow> bool \<Rightarrow> process \<Rightarrow> process" where
  "start_reconcile k receiptOnly p =
     p\<lparr>ps_reconciles := ps_reconciles p @ [\<lparr>rn_deliveryId = k, rn_receiptOnly = receiptOnly, rn_phase = Reading\<rparr>]\<rparr>"

definition resume_reconcile :: "env \<Rightarrow> authority \<Rightarrow> reply \<Rightarrow> nat \<Rightarrow> process \<Rightarrow> (reconciliation \<times> process) option" where
  "resume_reconcile env auth x i p = (if length (ps_reconciles p) \<le> i then None
     else (case reconcileEndpointDelivery env auth x (ps_reconciles p ! i) (ps_store p) of
       None \<Rightarrow> None
     | Some (task', t, es) \<Rightarrow> Some (task', p\<lparr>ps_store := t, ps_events := ps_events p @ es,
         ps_reconciles := (ps_reconciles p)[i := task']\<rparr>)))"

text \<open>The process ends at any point and a new one loads the file.\<close>

definition restarted :: "process \<Rightarrow> process" where
  "restarted p = p\<lparr>ps_store := (ps_store p)\<lparr>st_requests := fst (st_disk (ps_store p)),
       st_deliveries := snd (st_disk (ps_store p))\<rparr>,
     ps_dispatches := [], ps_reconciles := []\<rparr>"

end
