(* ===== verification/RequestProps.thy ===== *)
theory RequestProps
  imports RequestInv
begin

text \<open>
  The properties of the Agent request state: what is permanent, what a failure leaves, what a
  cancellation forbids, and which identifiers can be reused.
\<close>

section \<open>A sample state\<close>

definition sample_env :: env where
  "sample_env = \<lparr>env_now = 1000, env_write = WriteOk, env_deliveryUuid = ''du'', env_requestUuid = ''ru'',
     env_attemptUuid = ''au'', env_jitter = 7, env_hash = id, env_date = (\<lambda>_. None), env_canon = id\<rparr>"

definition empty_state :: req_state where
  "empty_state = \<lparr>st_requests = [], st_deliveries = [], st_unavailable = [], st_quarantinedRequests = [],
     st_quarantinedDeliveries = [], st_evidenceUnavailable = None, st_disk = ([], [])\<rparr>"

definition source_party :: party where
  "source_party = \<lparr>pa_endpoint = None, pa_connection = None, pa_agentAdapter = Some ''codex'',
     pa_threadId = ''src'', pa_agentType = ''agent'', pa_threadName = None, pa_workspace = None\<rparr>"

definition sample_input :: prepare_input where
  "sample_input = \<lparr>pi_source = source_party, pi_target = party_of sample_endpoint, pi_responsePolicy = ''required'',
     pi_responseInstruction = Some ''report'', pi_inReplyToRequestId = None, pi_result = None, pi_nextAction = None,
     pi_deliveryId = None, pi_messageProcessingRequirementId = None, pi_planId = None\<rparr>"

definition prepared_state :: req_state where
  "prepared_state = snd (prepare sample_env sample_input empty_state)"

definition sample_preparation :: preparation where
  "sample_preparation = \<lparr>pr_deliveryId = ''du'', pr_requestId = Some ''ru'', pr_inReplyToRequestId = None,
     pr_responsePolicy = ''required'', pr_responseInstruction = Some ''report'', pr_result = None, pr_nextAction = None,
     pr_source = source_party, pr_target = party_of sample_endpoint, pr_messageProcessingRequirementId = None, pr_planId = None\<rparr>"

definition sample_delivery :: delivery where
  "sample_delivery = \<lparr>dl_deliveryId = ''du'', dl_generation = ''g'', dl_source = EndpointSource sample_endpoint,
     dl_target = sample_endpoint, dl_prompt = ''p'', dl_promptHash = ''p'', dl_executionOptionsHash = ''{}'',
     dl_executionOptions = JObj [], dl_preparation = sample_preparation, dl_state = Prepared, dl_createdAt = None,
     dl_updatedAt = None, dl_lastAttemptAt = None, dl_nextAttemptAt = None, dl_attemptCount = None, dl_retryCount = None,
     dl_dispatchAttemptId = None, dl_lastNoFrameProof = None, dl_lastError = None, dl_blockedReason = None,
     dl_callerDeliveryId = None, dl_requestHash = None, dl_receipt = None\<rparr>"

definition bound_state :: req_state where
  "bound_state = snd (bindEndpointDelivery sample_env sample_delivery prepared_state)"

definition sample_receipt :: receipt where
  "sample_receipt = \<lparr>rc_deliveryId = ''du'', rc_generation = ''g'', rc_endpoint = Some sample_endpoint, rc_promptHash = ''p'',
     rc_executionOptionsHash = ''{}'', rc_accepted = True, rc_action = ''send'', rc_transport = ''local''\<rparr>"

definition dispatched_state :: req_state where
  "dispatched_state = snd (markEndpointDispatching sample_env ''du'' bound_state)"

definition accepted_state :: req_state where
  "accepted_state = snd (commitEndpointReceipt sample_env ''du'' sample_receipt dispatched_state)"

lemma sample_run:
  "fst (prepare sample_env sample_input empty_state) = Inr sample_preparation"
  "fst (bindEndpointDelivery sample_env sample_delivery prepared_state) = Inr ()"
  "fst (markEndpointDispatching sample_env ''du'' bound_state) = Inr ''au''"
  "fst (commitEndpointReceipt sample_env ''du'' sample_receipt dispatched_state) = Inr ()"
  by code_simp+

lemma snd_good: "good_step s out \<Longrightarrow> fst out = Inr v \<Longrightarrow> state_ok (snd out) \<and> changes s (snd out)"
  by (cases out) (simp add: good_step_def)

lemma sample_states_ok:
  "state_ok empty_state" "fresh_uuids sample_env empty_state" "state_ok prepared_state" "state_ok bound_state"
  "state_ok dispatched_state" "state_ok accepted_state"
proof -
  show e: "state_ok empty_state" by (simp add: state_ok_def empty_state_def)
  show f: "fresh_uuids sample_env empty_state" by code_simp
  show p: "state_ok prepared_state"
    using snd_good [OF prepare_good [OF e f] sample_run(1)] by (simp add: prepared_state_def)
  have "dl_receipt sample_delivery = None" by (simp add: sample_delivery_def)
  from snd_good [OF bindEndpointDelivery_good [OF p this] sample_run(2)]
  show b: "state_ok bound_state" by (simp add: bound_state_def)
  from snd_good [OF markEndpointDispatching_good [OF b] sample_run(3)]
  show d: "state_ok dispatched_state" by (simp add: dispatched_state_def)
  from snd_good [OF commitEndpointReceipt_good [OF d] sample_run(4)]
  show "state_ok accepted_state" by (simp add: accepted_state_def)
qed

section \<open>Permanence\<close>

lemma reaches_induct [consumes 1, case_names refl step]:
  assumes "reaches s t" "P s" "\<And>t u. reaches s t \<Longrightarrow> req_step t u \<Longrightarrow> P t \<Longrightarrow> P u"
  shows "P t"
  using assms unfolding reaches_def by (induction rule: rtranclp_induct) auto

text \<open>C9: Every sequence of operations, succeeding or failing, keeps the invariant of the state:
  records are stored under their own identifiers, a response reservation exists only on a request
  awaiting its response, a request has a response exactly when it is responded, and a delivery has
  a receipt exactly when it is committed, a receipt that matches its frozen identity.\<close>

theorem reachable_states_well_formed:
  assumes "reaches s t" "state_ok s"
  shows "state_ok t"
  using assms by (induction rule: reaches_induct) (auto dest: req_step_ok)

lemma tx_step:
  assumes "fst (f s) = Inr v"
  shows "transaction f s = (Inr v, snd (f s))"
  using assms by (cases "f s") (simp add: transaction_def)

lemma prepared_step: "req_step empty_state prepared_state"
  unfolding prepared_state_def
  by (rule req_step.prepare [OF sample_states_ok(2)], rule tx_step, rule sample_run)

lemma bind_step: "req_step prepared_state bound_state"
  unfolding bound_state_def
  by (rule req_step.bind [of sample_delivery], simp add: sample_delivery_def, rule tx_step, rule sample_run)

lemma bound_step: "req_step bound_state dispatched_state"
  unfolding dispatched_state_def by (rule req_step.dispatch, rule tx_step, rule sample_run)

lemma accepted_step: "req_step dispatched_state accepted_state"
  unfolding accepted_state_def by (rule req_step.receipt, rule tx_step, rule sample_run)

lemma sample_reaches: "reaches empty_state accepted_state"
  unfolding reaches_def
  using prepared_step bind_step bound_step accepted_step
  by (meson converse_rtranclp_into_rtranclp rtranclp.rtrancl_refl)

lemma reachable_states_well_formed_witness: "state_ok accepted_state"
  using reachable_states_well_formed [OF sample_reaches sample_states_ok(1)] .

lemma finished_permanent:
  assumes "reaches s t" "state_ok s"
  shows "request_at s k = Some r \<Longrightarrow> rq_status r = Responded \<or> rq_status r = RCancelled \<Longrightarrow> request_at t k = Some r"
    and "delivery_at s j = Some d \<Longrightarrow> dl_state d = Committed \<or> dl_state d = DCancelled \<Longrightarrow> delivery_at t j = Some d"
proof -
  have r: "request_at u k = Some r" if "req_step t u" "state_ok t" "request_at t k = Some r"
    "rq_status r = Responded \<or> rq_status r = RCancelled" for t u
  proof -
    from req_step_ok [OF that(1,2)] have "request_entry (request_at t k) (request_at u k)" by (simp add: changes_def)
    with that show ?thesis by (cases "request_at u k") (auto simp: request_step_def)
  qed
  have d: "delivery_at u j = Some d" if "req_step t u" "state_ok t" "delivery_at t j = Some d"
    "dl_state d = Committed \<or> dl_state d = DCancelled" for t u
  proof -
    from req_step_ok [OF that(1,2)] have "delivery_entry (delivery_at t j) (delivery_at u j)" by (simp add: changes_def)
    with that show ?thesis by (cases "delivery_at u j") (auto simp: delivery_step_def)
  qed
  have ok: "state_ok u" if "reaches s u" for u
    using that assms(2) by (induction rule: reaches_induct) (auto dest: req_step_ok)
  show "request_at s k = Some r \<Longrightarrow> rq_status r = Responded \<or> rq_status r = RCancelled \<Longrightarrow> request_at t k = Some r"
    using assms(1) by (induction rule: reaches_induct) (auto intro: r ok)
  show "delivery_at s j = Some d \<Longrightarrow> dl_state d = Committed \<or> dl_state d = DCancelled \<Longrightarrow> delivery_at t j = Some d"
    using assms(1) by (induction rule: reaches_induct) (auto intro: d ok)
qed

text \<open>C10: A finished request is permanent: once responded or cancelled, no later sequence of
  operations changes any of its fields, so a recorded response is never overwritten and a
  cancelled request never comes back. The same holds of a delivery once it is committed or
  cancelled.\<close>

theorem finished_records_are_permanent:
  assumes "reaches s t" "state_ok s"
  shows "(\<forall>k r. request_at s k = Some r \<and> (rq_status r = Responded \<or> rq_status r = RCancelled) \<longrightarrow> request_at t k = Some r)
    \<and> (\<forall>k d. delivery_at s k = Some d \<and> (dl_state d = Committed \<or> dl_state d = DCancelled) \<longrightarrow> delivery_at t k = Some d)"
  using finished_permanent [OF assms] by blast

lemma finished_records_are_permanent_witness:
  "\<exists>d. delivery_at accepted_state ''du'' = Some d \<and> (\<forall>t. reaches accepted_state t \<longrightarrow> delivery_at t ''du'' = Some d)"
proof -
  have "map_option dl_state (delivery_at accepted_state ''du'') = Some Committed" by code_simp
  then obtain d where d: "delivery_at accepted_state ''du'' = Some d" "dl_state d = Committed" by auto
  then show ?thesis using finished_records_are_permanent [OF _ sample_states_ok(6)] by blast
qed

text \<open>C32: No operation changes the identity or the content of a bound delivery: its prompt,
  hashes, source, target and preparation are frozen. A new dispatch attempt is made only by the
  move from prepared to dispatching, which counts it, and a delivery becomes committed only from
  dispatching, with a receipt that names exactly its identity, generation, endpoint and hashes.\<close>

theorem bound_deliveries_are_frozen:
  assumes "req_step s t" "state_ok s" "delivery_at s k = Some d" "delivery_at t k = Some d'"
  shows "frozen d' = frozen d
    \<and> (dl_dispatchAttemptId d' \<noteq> dl_dispatchAttemptId d \<longrightarrow>
        dl_state d = Prepared \<and> dl_state d' = Dispatching \<and> attempts d' = attempts d + 1)
    \<and> (dl_state d' = Committed \<and> dl_state d \<noteq> Committed \<longrightarrow>
        dl_state d = Dispatching \<and> (\<exists>rc. dl_receipt d' = Some rc \<and> receipt_matches d' rc))"
proof -
  from req_step_ok [OF assms(1,2)] have "delivery_entry (delivery_at s k) (delivery_at t k)" and ok: "state_ok t"
    by (simp_all add: changes_def)
  with assms have step: "delivery_step d d'" by simp
  have "dl_state d = Dispatching" if "dl_state d' = Committed" "dl_state d \<noteq> Committed"
    using that step by (cases "dl_state d") (auto simp: delivery_step_def)
  moreover have "\<exists>rc. dl_receipt d' = Some rc \<and> receipt_matches d' rc" if "dl_state d' = Committed"
    using wf_deliveryD [OF ok assms(4)] that by (auto simp: delivery_wf_def)
  ultimately show ?thesis using step by (auto simp: delivery_step_def)
qed

lemma bound_deliveries_are_frozen_witness:
  "\<exists>d d'. delivery_at bound_state ''du'' = Some d \<and> delivery_at dispatched_state ''du'' = Some d' \<and> frozen d' = frozen d
     \<and> attempts d' = 1"
proof -
  have "map_option attempts (delivery_at bound_state ''du'') = Some 0" by code_simp
  moreover have "map_option attempts (delivery_at dispatched_state ''du'') = Some 1" by code_simp
  ultimately show ?thesis
    using bound_deliveries_are_frozen [OF bound_step sample_states_ok(4), of "''du''"] by auto
qed

section \<open>Failure and durability\<close>

text \<open>The operations as data, and one run of an operation: the thrown error, if any, and the state.\<close>

datatype request_op =
    OpBind delivery
  | OpDispatch string
  | OpFailure string "string \<times> string option" bool
  | OpNotSent string "no_frame_proof option"
  | OpReceipt string receipt
  | OpPrepare prepare_input
  | OpConnection string party string string string
  | OpEvidence preparation string
  | OpCommit preparation "string option \<times> string option"
  | OpAbort preparation
  | OpCancel string "string option"
  | OpCancelDelivery string

definition run_result :: "'a result \<times> req_state \<Rightarrow> js_error option \<times> req_state" where
  "run_result out = (case out of (Inl e, t) \<Rightarrow> (Some e, t) | (Inr _, t) \<Rightarrow> (None, t))"

fun run_op :: "env \<Rightarrow> request_op \<Rightarrow> req_state \<Rightarrow> js_error option \<times> req_state" where
  "run_op env (OpBind d) s = run_result (bindEndpointDelivery env d s)"
| "run_op env (OpDispatch k) s = run_result (markEndpointDispatching env k s)"
| "run_op env (OpFailure k e b) s = run_result (noteEndpointDeliveryFailure env k e b s)"
| "run_op env (OpNotSent k p) s = run_result (markEndpointNotSent env k p s)"
| "run_op env (OpReceipt k r) s = run_result (commitEndpointReceipt env k r s)"
| "run_op env (OpPrepare i) s = run_result (prepare env i s)"
| "run_op env (OpConnection k src d r n) s = run_result (recordConnectionResponse env k src d r n s)"
| "run_op env (OpEvidence p x) s = run_result (bindResponseEvidence env p x s)"
| "run_op env (OpCommit p r) s = run_result (commit env p r s)"
| "run_op env (OpAbort p) s = run_result (abort env p s)"
| "run_op env (OpCancel k x) s = run_result (cancel env k x s)"
| "run_op env (OpCancelDelivery k) s = run_result (cancelEndpointDelivery env k s)"

fun op_allowed :: "env \<Rightarrow> req_state \<Rightarrow> request_op \<Rightarrow> bool" where
  "op_allowed env s (OpPrepare i) = fresh_uuids env s"
| "op_allowed env s (OpBind d) = (dl_receipt d = None)"
| "op_allowed env s _ = True"

text \<open>
  A failure leaves the file alone unless the write itself reports an unknown outcome; a success
  leaves a file that holds exactly the maps, or changes nothing.
\<close>

definition writes_through :: "env \<Rightarrow> req_state \<Rightarrow> 'a result \<times> req_state \<Rightarrow> bool" where
  "writes_through env s out \<longleftrightarrow> (case out of
     (Inl _, t) \<Rightarrow> env_write env \<noteq> WriteUnknown \<longrightarrow> st_disk t = st_disk s
   | (Inr _, t) \<Rightarrow> durable t \<or> t = s)"

lemma wt_same [simp]: "writes_through env s (x, s)"
  by (simp add: writes_through_def split: sum.split)

lemma wt_persist:
  assumes "st_disk u = st_disk s" "\<And>t. st_disk (rb t) = st_disk t"
  shows "writes_through env s (persist_or env rb v u)"
  using assms
  by (auto simp: writes_through_def persist_or_def persist_def durable_def split: option.splits write_outcome.splits)

lemma st_disk_fold [simp]: "st_disk (fold (\<lambda>d t. put_delivery (dl_deliveryId d) d t) ds t) = st_disk t"
  by (induction ds arbitrary: t) auto

lemma st_disk_release:
  "release_reply env p s = (b, t) \<Longrightarrow> st_disk t = st_disk s" "release_request p s = (b, t) \<Longrightarrow> st_disk t = st_disk s"
  by (auto simp: release_reply_def release_request_def split: option.splits if_splits)

lemma same_release:
  "release_reply env p s = (False, t) \<Longrightarrow> t = s" "release_request p s = (False, t) \<Longrightarrow> t = s"
  by (auto simp: release_reply_def release_request_def split: option.splits if_splits)

lemma commit_wt: "writes_through env s (commit env p rc s)"
proof -
  have "writes_through env s (Inr x, s)" for x :: "request option \<times> request option" by simp
  moreover have fail: "writes_through env s (Inl e, put_request k r s)" for e k and r
    by (simp add: writes_through_def)
  ultimately show ?thesis
    unfolding commit_def commit_reply_def Let_def
    by (auto split: option.splits if_splits intro!: wt_persist fail simp: linked_request_Some)
qed

lemma abort_wt: "writes_through env s (abort env p s)"
proof -
  define s1 where "s1 = (if delivery_at s (pr_deliveryId p) \<noteq> None then drop_delivery (pr_deliveryId p) s else s)"
  obtain reserved s2 where s2: "release_reply env p s1 = (reserved, s2)" by (cases "release_reply env p s1")
  obtain pending s3 where s3: "release_request p s2 = (pending, s3)" by (cases "release_request p s2")
  have d: "st_disk s3 = st_disk s" using st_disk_release(2) [OF s3] st_disk_release(1) [OF s2] by (simp add: s1_def)
  have same: "s3 = s" if "delivery_at s (pr_deliveryId p) = None" "\<not> reserved" "\<not> pending"
    using that s2 s3 same_release by (simp add: s1_def) metis
  show ?thesis
    using s2 s3 unfolding s1_def
    by (auto simp: abort_def Let_def d [unfolded s1_def] same intro!: wt_persist split: option.splits)
qed

lemma cancel_wt: "writes_through env s (cancel env k x s)"
  by (auto simp: cancel_def Let_def intro!: wt_persist split: option.splits)

lemma other_ops_wt:
  "writes_through env s (bindEndpointDelivery env d s)"
  "writes_through env s (markEndpointDispatching env k s)"
  "writes_through env s (noteEndpointDeliveryFailure env k err b s)"
  "writes_through env s (markEndpointNotSent env k pf s)"
  "writes_through env s (recordConnectionResponse env k src dd r n s)"
  "writes_through env s (bindResponseEvidence env p x s)"
  by (auto simp: bindEndpointDelivery_def markEndpointDispatching_def noteEndpointDeliveryFailure_def markEndpointNotSent_def
      recordConnectionResponse_def bindResponseEvidence_def Let_def intro!: wt_persist split: option.splits sum.splits prod.splits)

lemma prepare_wt: "writes_through env s (prepare env i s)"
proof (cases "prepare_plan env i s")
  case (Inr plan)
  obtain p replied where "plan = (p, replied)" by (cases plan)
  with Inr show ?thesis
    using prepare_plan_new [of env i s p]
    by (cases replied; cases "pr_requestId p") (auto simp: prepare_def Let_def intro!: wt_persist split: option.splits)
qed (simp add: prepare_def)

lemma cancelEndpointDelivery_wt: "writes_through env s (cancelEndpointDelivery env k s)"
proof -
  have c: "writes_through env s (case cancel env j x s of (Inl e, s') \<Rightarrow> (Inl e, s') | (Inr _, s') \<Rightarrow> (Inr (f s'), s'))" for j x f
    using cancel_wt [of env s j x] by (auto simp: writes_through_def split: prod.splits sum.splits)
  have p: "writes_through env s (persist_or env (put_delivery k d) v (put_delivery k d' s))" for d d' v
    by (rule wt_persist) simp_all
  show ?thesis
    unfolding cancelEndpointDelivery_def Let_def using c p
    by (auto split: option.split sum.split simp del: split_paired_All)
qed

lemma commit_tracked_durable:
  assumes "commit env p rc s = (Inr v, t)" "truthy (pr_requestId p) \<or> truthy (pr_inReplyToRequestId p)"
    and "\<And>r. commit_reply env p s \<noteq> Inr (AlreadyRecorded r)"
  shows "durable t"
  using assms
  by (auto simp: commit_def Let_def persist_or_ok commit_reply_def split: option.splits if_splits reply_commit.splits sum.splits)

text \<open>The reply of a delivery was already recorded, by a commit of its preparation alone.\<close>

definition reply_recorded :: "req_state \<Rightarrow> preparation \<Rightarrow> bool" where
  "reply_recorded s p = (case linked_request s (pr_inReplyToRequestId p) of None \<Rightarrow> False
     | Some r \<Rightarrow> rq_status r = Responded \<and> map_option rs_deliveryId (rq_response r) = Some (pr_deliveryId p))"

lemma reply_recorded_put_delivery [simp]: "reply_recorded (put_delivery k d s) p = reply_recorded s p"
  by (simp add: reply_recorded_def linked_request_def)

lemma commit_reply_recorded:
  "commit_reply env p s = Inr (AlreadyRecorded r) \<Longrightarrow> reply_recorded s p"
  by (auto simp: commit_reply_def reply_recorded_def split: option.splits if_splits)

lemma commitEndpointReceipt_wt:
  assumes "\<And>d. delivery_at s k = Some d \<Longrightarrow> dl_state d = Dispatching \<Longrightarrow> \<not> reply_recorded s (dl_preparation d)"
  shows "writes_through env s (commitEndpointReceipt env k rc s)"
proof (cases "assertEndpointDeliveryActive env s k")
  case (Inl e)
  then show ?thesis by (simp add: commitEndpointReceipt_def)
next
  case active: (Inr u)
  show ?thesis
  proof (cases "\<exists>d. delivery_at s k = Some d \<and> receipt_matches d rc \<and> dl_state d = Dispatching")
    case False
    with active show ?thesis by (auto simp: commitEndpointReceipt_def split: option.split)
  next
    case True
    then obtain d where d: "delivery_at s k = Some d" "receipt_matches d rc" "dl_state d = Dispatching" by blast
    let ?p = "dl_preparation d" and ?s1 = "put_delivery k (committed_delivery env rc d) s"
    let ?out = "commit env ?p (Some (rc_action rc), Some (rc_transport rc)) ?s1"
    have unfolded: "commitEndpointReceipt env k rc s = (case ?out of
          (Inl e, s2) \<Rightarrow> (Inl e, put_delivery k d s2)
        | (Inr _, s2) \<Rightarrow> if truthy (pr_requestId ?p) \<or> truthy (pr_inReplyToRequestId ?p) then (Inr (), s2)
            else persist_or env (put_delivery k d) () s2)"
      using active d by (simp add: commitEndpointReceipt_def committed_delivery_def Let_def)
    obtain x s2 where out: "?out = (x, s2)" by (cases ?out)
    have wt: "writes_through env ?s1 (x, s2)" using commit_wt [of env ?s1 ?p] out by metis
    show ?thesis
    proof (cases x)
      case (Inl e)
      with wt out unfolded show ?thesis by (simp add: writes_through_def)
    next
      case (Inr y)
      show ?thesis
      proof (cases "truthy (pr_requestId ?p) \<or> truthy (pr_inReplyToRequestId ?p)")
        case True
        have "\<not> reply_recorded ?s1 ?p" using assms [OF d(1,3)] by simp
        then have "durable s2" using commit_tracked_durable [of env ?p _ ?s1 y s2] True out Inr commit_reply_recorded by blast
        with True Inr out unfolded show ?thesis by (simp add: writes_through_def)
      next
        case False
        then have "s2 = ?s1" using commit_untracked [of ?p env _ ?s1] out by simp
        moreover have "writes_through env s (persist_or env (put_delivery k d) () ?s1)" by (rule wt_persist) simp_all
        ultimately show ?thesis using False Inr out unfolded by simp
      qed
    qed
  qed
qed

lemma outcome_fail: "good_step s out \<Longrightarrow> run_result out = (Some e, t) \<Longrightarrow> same_maps s t"
  by (auto simp: good_step_def run_result_def split: prod.splits sum.splits)

lemma outcome_wt:
  "writes_through env s out \<Longrightarrow> run_result out = (e, t) \<Longrightarrow> durable s \<Longrightarrow> env_write env \<noteq> WriteUnknown \<Longrightarrow>
    (e = None \<longrightarrow> durable t) \<and> (e \<noteq> None \<longrightarrow> st_disk t = st_disk s)"
  by (auto simp: writes_through_def run_result_def split: prod.splits sum.splits)

lemmas writes_through_rules = other_ops_wt prepare_wt commit_wt abort_wt cancel_wt cancelEndpointDelivery_wt

text \<open>C24: An operation that throws leaves both maps as they were, whatever it had changed before
  the failing write: its own rollback restores every record and delivery. (Only the replacement
  of open parties has no rollback of its own and relies on the transaction around it.)\<close>

theorem failed_operations_roll_back:
  assumes "state_ok s" "op_allowed env s op" "run_op env op s = (Some e, t)"
  shows "same_maps s t"
  using assms
  by (cases op) (simp_all only: run_op.simps op_allowed.simps, (erule outcome_fail [rotated], rule good_steps, assumption+)+)

lemma failed_operations_roll_back_witness:
  "same_maps bound_state (snd (run_op (sample_env\<lparr>env_write := WriteFailed\<rparr>) (OpCancel ''ru'' None) bound_state))
   \<and> fst (run_op (sample_env\<lparr>env_write := WriteFailed\<rparr>) (OpCancel ''ru'' None) bound_state) \<noteq> None"
proof -
  have f: "fst (run_op (sample_env\<lparr>env_write := WriteFailed\<rparr>) (OpCancel ''ru'' None) bound_state) = Some WriteErr"
    by code_simp
  show ?thesis
    using failed_operations_roll_back [OF sample_states_ok(4), of _ "OpCancel ''ru'' None" WriteErr] f
    by (cases "run_op (sample_env\<lparr>env_write := WriteFailed\<rparr>) (OpCancel ''ru'' None) bound_state") fastforce
qed

text \<open>What an operation reports is what the file holds: as long as no write reports an unknown
  outcome, an operation started on a durable state ends in one, whether it succeeds or throws, and
  on a throw the file is unchanged. The exception is the receipt of a delivery whose reply another
  commit has already recorded.\<close>

theorem operations_are_durable:
  assumes "durable s" "env_write env \<noteq> WriteUnknown" "run_op env op s = (e, t)"
    and "\<And>k rc d. op = OpReceipt k rc \<Longrightarrow> delivery_at s k = Some d \<Longrightarrow> \<not> reply_recorded s (dl_preparation d)"
  shows "(e = None \<longrightarrow> durable t) \<and> (e \<noteq> None \<longrightarrow> st_disk t = st_disk s)"
proof -
  note wt = outcome_wt [OF _ _ assms(1,2)]
  have receipt: "writes_through env s (commitEndpointReceipt env k rc s)" if "op = OpReceipt k rc" for k rc
    using assms(4) that by (intro commitEndpointReceipt_wt) blast
  show ?thesis
  proof (cases "\<exists>k rc. op = OpReceipt k rc")
    case True
    then obtain k rc where op: "op = OpReceipt k rc" by blast
    from wt [OF receipt [OF op]] assms(3) op show ?thesis by simp
  next
    case False
    with assms(3) show ?thesis
      by (cases op) (simp_all only: run_op.simps, (erule wt [rotated], rule writes_through_rules | blast)+)
  qed
qed

lemma operations_are_durable_witness:
  "durable (snd (run_op sample_env (OpCancel ''ru'' None) bound_state))"
proof -
  have d: "durable bound_state" "fst (run_op sample_env (OpCancel ''ru'' None) bound_state) = None" by code_simp+
  have w: "env_write sample_env \<noteq> WriteUnknown" by (simp add: sample_env_def)
  obtain e t where run: "run_op sample_env (OpCancel ''ru'' None) bound_state = (e, t)"
    by (cases "run_op sample_env (OpCancel ''ru'' None) bound_state")
  from operations_are_durable [OF d(1) w run] d(2) run show ?thesis by simp
qed

definition other_endpoint :: endpoint where
  "other_endpoint = sample_endpoint\<lparr>ep_sessionId := ''s2''\<rparr>"

definition request_input :: prepare_input where
  "request_input = sample_input\<lparr>pi_source := party_of sample_endpoint, pi_target := party_of other_endpoint,
     pi_deliveryId := Some ''ask-1''\<rparr>"

definition request_preparation :: preparation where
  "request_preparation = sample_preparation\<lparr>pr_deliveryId := ''ask-1'', pr_source := party_of sample_endpoint,
     pr_target := party_of other_endpoint\<rparr>"

definition reply_input :: prepare_input where
  "reply_input = \<lparr>pi_source = party_of other_endpoint, pi_target = party_of sample_endpoint, pi_responsePolicy = ''none'',
     pi_responseInstruction = None, pi_inReplyToRequestId = Some ''ru'', pi_result = Some ''done'', pi_nextAction = Some ''none'',
     pi_deliveryId = Some ''reply-1'', pi_messageProcessingRequirementId = None, pi_planId = None\<rparr>"

definition reply_preparation :: preparation where
  "reply_preparation = \<lparr>pr_deliveryId = ''reply-1'', pr_requestId = None, pr_inReplyToRequestId = Some ''ru'',
     pr_responsePolicy = ''none'', pr_responseInstruction = None, pr_result = Some ''done'', pr_nextAction = Some ''none'',
     pr_source = party_of other_endpoint, pr_target = party_of sample_endpoint,
     pr_messageProcessingRequirementId = None, pr_planId = None\<rparr>"

definition reply_delivery :: delivery where
  "reply_delivery = sample_delivery\<lparr>dl_deliveryId := ''reply-1'', dl_source := EndpointSource other_endpoint,
     dl_preparation := reply_preparation\<rparr>"

definition run_ops :: "env \<Rightarrow> request_op list \<Rightarrow> req_state \<Rightarrow> (js_error option) list \<times> req_state" where
  "run_ops env ops s = fold (\<lambda>op (es, t). (case run_op env op t of (e, u) \<Rightarrow> (es @ [e], u))) ops ([], s)"

definition reply_ops :: "request_op list" where
  "reply_ops = [OpPrepare request_input, OpCommit request_preparation (None, None), OpPrepare reply_input, OpBind reply_delivery,
     OpDispatch ''reply-1'', OpCommit reply_preparation (None, None)]"

definition recorded_state :: req_state where
  "recorded_state = snd (run_ops sample_env reply_ops empty_state)"

text \<open>C34: The receipt of a recorded reply is lost. Whenever a dispatched delivery answers a request whose
  response has already been recorded by this delivery, an active delivery accepts its receipt without any write, and even
  when no write would succeed: the call returns, the delivery is committed with this receipt
  in the map, and the file is what it was, so a file that held the delivery still shows it as
  dispatching. No repetition of the call repairs this. (The early return of \<open>commit\<close> skips the write its
  caller relies on.)\<close>

theorem recorded_reply_loses_receipt:
  assumes "delivery_at s k = Some d" "pr_deliveryId (dl_preparation d) = k" "dl_state d = Dispatching" "receipt_matches d rc"
    and "reply_recorded s (dl_preparation d)" "assertEndpointDeliveryActive env s k = Inr ()"
  shows "\<exists>t. commitEndpointReceipt env k rc s = (Inr (), t)
    \<and> map_option dl_state (delivery_at t k) = Some Committed \<and> Option.bind (delivery_at t k) dl_receipt = Some rc
    \<and> st_disk t = st_disk s \<and> (durable s \<longrightarrow> map_of (snd (st_disk t)) k = Some d)
    \<and> (\<forall>env' rc'. snd (commitEndpointReceipt env' k rc' t) = t)"
proof -
  let ?p = "dl_preparation d" and ?t = "put_delivery k (committed_delivery env rc d) s"
  note k = assms(2)
  obtain r where r: "truthy (pr_inReplyToRequestId ?p)" "linked_request ?t (pr_inReplyToRequestId ?p) = Some r"
      "rq_status r = Responded" "map_option rs_deliveryId (rq_response r) = Some k"
    using assms(5) k by (auto simp: reply_recorded_def linked_request_def split: option.splits if_splits)
  then have reply: "commit_reply env ?p ?t = Inr (AlreadyRecorded r)" using k by (simp add: commit_reply_def)
  have reserved: "truthy (pr_requestId ?p) \<Longrightarrow> \<exists>q. linked_request ?t (pr_requestId ?p) = Some q \<and> rq_deliveryId q = k \<and> rq_status q \<noteq> RCancelled"
    using assms(1,6) by (auto simp: assertEndpointDeliveryActive_def linked_request_def Let_def split: option.splits if_splits)
  then have "\<exists>x. commit env ?p (Some (rc_action rc), Some (rc_transport rc)) ?t = (Inr x, ?t)"
    using reply k by (auto simp: commit_def Let_def)
  then have "commitEndpointReceipt env k rc s = (Inr (), ?t)"
    using assms(1,3,4,6) r(1) by (auto simp: commitEndpointReceipt_def committed_delivery_def Let_def)
  moreover have "delivery_at ?t k = Some (committed_delivery env rc d)" "dl_state (committed_delivery env rc d) = Committed"
      "dl_receipt (committed_delivery env rc d) = Some rc" "st_disk ?t = st_disk s"
    by (simp_all add: committed_delivery_def)
  moreover have "snd (commitEndpointReceipt env' k rc' ?t) = ?t" for env' rc'
    using calculation(2,3) by (auto simp: commitEndpointReceipt_def split: sum.split)
  ultimately show ?thesis using assms(1) by (auto simp: durable_def)
qed

lemma recorded_reply_loses_receipt_witness:
  "\<exists>t. commitEndpointReceipt (sample_env\<lparr>env_write := WriteFailed\<rparr>) ''reply-1'' (sample_receipt\<lparr>rc_deliveryId := ''reply-1''\<rparr>) recorded_state = (Inr (), t)
   \<and> map_option dl_state (delivery_at t ''reply-1'') = Some Committed
   \<and> map_option dl_state (map_of (snd (st_disk t)) ''reply-1'') = Some Dispatching"
proof -
  let ?rc = "sample_receipt\<lparr>rc_deliveryId := ''reply-1''\<rparr>" and ?env = "sample_env\<lparr>env_write := WriteFailed\<rparr>"
  define d where "d = the (delivery_at recorded_state ''reply-1'')"
  have d: "delivery_at recorded_state ''reply-1'' = Some d" unfolding d_def by code_simp
  have f: "pr_deliveryId (dl_preparation d) = ''reply-1''" "dl_state d = Dispatching" "receipt_matches d ?rc" "reply_recorded recorded_state (dl_preparation d)"
      "assertEndpointDeliveryActive ?env recorded_state ''reply-1'' = Inr ()"
      "map_option dl_state (map_of (snd (st_disk recorded_state)) ''reply-1'') = Some Dispatching"
    unfolding d_def by code_simp+
  from recorded_reply_loses_receipt [OF d f(1-5)] f(6) show ?thesis by auto
qed

section \<open>Cancellation\<close>

lemma cancel_closes:
  assumes ok: "state_ok s" and c: "cancel env k reason s = (Inr r, t)" and changed: "request_at s (rq_id r) \<noteq> Some r"
    and d: "delivery_at s j = Some d"
    and linked: "pr_requestId (dl_preparation d) = Some (rq_id r) \<or> pr_inReplyToRequestId (dl_preparation d) = Some (rq_id r)"
  shows "\<exists>e. delivery_at t j = Some e \<and> dl_state e \<in> {Committed, DCancelled}"
proof -
  let ?key = "cleanText (Some k) 100"
  obtain q where q: "request_at s ?key = Some q" using c by (auto simp: cancel_def Let_def split: option.splits)
  have qid: "rq_id q = ?key" using wf_requestD [OF ok q] by (simp add: request_wf_def)
  have open_q: "rq_status q \<noteq> Responded \<and> rq_status q \<noteq> RCancelled"
  proof (rule ccontr)
    assume "\<not> ?thesis"
    with c q have "r = q" by (auto simp: cancel_def)
    with q qid changed show False by simp
  qed
  with q obtain m where "cancel env k reason s = persist_or env
      (\<lambda>s'. fold (\<lambda>d t. put_delivery (dl_deliveryId d) d t) (filter (fenced_by q) (map_values (st_deliveries s)))
         (put_request (rq_id q) q s'))
      (cancelled_request env reason q) (put_request ?key (cancelled_request env reason q) (fence_all env m q s))"
    using cancel_unfold [of s k q env reason] by blast
  with c have r: "r = cancelled_request env reason q" and t: "delivery_at t j = map_option (fence env m q) (delivery_at s j)"
    by (auto simp: persist_or_ok)
  have "rq_id r = rq_id q" by (simp add: r cancelled_request_def)
  with linked have "fenced_by q d \<or> dl_state d \<in> {Committed, DCancelled}"
    using wf_deliveryD [OF ok d] by (auto simp: fenced_by_def delivery_wf_def)
  then show ?thesis
    using d t by (auto simp: fence_def cancelled_delivery_def)
qed

text \<open>C25: A cancelled request fences its deliveries for good. Cancelling it closes every delivery
  prepared for it or replying to it, unless its receipt came first. And once cancelling a request has
  returned it as cancelled, every delivery of it, bound before or after, fails the activity
  check in every later state, and can be neither dispatched nor committed by a late receipt.\<close>

theorem cancelled_requests_fence_their_deliveries:
  assumes "state_ok s" "cancel env k reason s = (Inr r, t)" "rq_status r = RCancelled"
    and "reaches t u" "delivery_at u j = Some d"
    and "pr_requestId (dl_preparation d) = Some (rq_id r) \<or> pr_inReplyToRequestId (dl_preparation d) = Some (rq_id r)"
  shows "(\<forall>v. assertEndpointDeliveryActive env' u j \<noteq> Inr v)
    \<and> (\<forall>v w. markEndpointDispatching env' j u \<noteq> (Inr v, w)) \<and> (\<forall>v w. commitEndpointReceipt env' j rc u \<noteq> (Inr v, w))
    \<and> (\<forall>i e. request_at s (rq_id r) \<noteq> Some r \<and> delivery_at s i = Some e
          \<and> (pr_requestId (dl_preparation e) = Some (rq_id r) \<or> pr_inReplyToRequestId (dl_preparation e) = Some (rq_id r))
        \<longrightarrow> (\<exists>x. delivery_at t i = Some x \<and> dl_state x \<in> {Committed, DCancelled}))"
proof -
  have good: "good_step s (cancel env k reason s)" by (rule cancel_good [OF assms(1)])
  with assms(2) have ok: "state_ok t" by (simp add: good_step_def)
  have at: "request_at t (cleanText (Some k) 100) = Some r"
    using assms(2) by (auto simp: cancel_def Let_def persist_or_ok split: option.splits if_splits)
  then have id: "rq_id r = cleanText (Some k) 100" "rq_id r \<noteq> []" using wf_requestD [OF ok] by (auto simp: request_wf_def)
  have "request_at u (rq_id r) = Some r"
    using finished_permanent(1) [OF assms(4) ok] at assms(3) id by simp
  then have linked: "linked_request u (Some (rq_id r)) = Some r" using id by (simp add: linked_request_def)
  have inactive: "assertEndpointDeliveryActive env' u j \<noteq> Inr v" for v
    using assms(3,5,6) linked id by (auto simp: assertEndpointDeliveryActive_def Let_def)
  then have "(\<forall>v w. markEndpointDispatching env' j u \<noteq> (Inr v, w)) \<and> (\<forall>v w. commitEndpointReceipt env' j rc u \<noteq> (Inr v, w))"
    by (auto simp: markEndpointDispatching_def commitEndpointReceipt_def split: sum.splits)
  with inactive cancel_closes [OF assms(1,2)] show ?thesis by blast
qed

definition cancelled_state :: req_state where
  "cancelled_state = snd (cancel sample_env ''ru'' None bound_state)"

lemma cancelled_requests_fence_their_deliveries_witness:
  "\<exists>d. delivery_at cancelled_state ''du'' = Some d
     \<and> (\<forall>v w. markEndpointDispatching sample_env ''du'' cancelled_state \<noteq> (Inr v, w))"
proof -
  have "map_option rq_status (request_at cancelled_state ''ru'') = Some RCancelled"
    "is_ok (fst (cancel sample_env ''ru'' None bound_state))"
    "map_sum id rq_status (fst (cancel sample_env ''ru'' None bound_state)) = Inr RCancelled"
    "map_sum id rq_id (fst (cancel sample_env ''ru'' None bound_state)) = Inr ''ru''"
    "map_option (pr_requestId \<circ> dl_preparation) (delivery_at cancelled_state ''du'') = Some (Some ''ru'')"
    by code_simp+
  then obtain r d where r: "cancel sample_env ''ru'' None bound_state = (Inr r, cancelled_state)" "rq_status r = RCancelled"
      "rq_id r = ''ru''" and d: "delivery_at cancelled_state ''du'' = Some d" "pr_requestId (dl_preparation d) = Some ''ru''"
    by (cases "cancel sample_env ''ru'' None bound_state"; cases "fst (cancel sample_env ''ru'' None bound_state)")
      (auto simp: cancelled_state_def)
  have "reaches cancelled_state cancelled_state" by (simp add: reaches_def)
  from cancelled_requests_fence_their_deliveries [OF sample_states_ok(4) r(1,2) this d(1)] r(3) d show ?thesis by simp
qed

section \<open>Preparing, aborting and committing again\<close>

text \<open>The maps after a successful preparation: the reservation on the request replied to and the new request.\<close>

definition reply_reserved :: "env \<Rightarrow> preparation \<Rightarrow> request option \<Rightarrow> req_state \<Rightarrow> req_state" where
  "reply_reserved env p replied s = (case (pr_inReplyToRequestId p, replied) of
      (Some i, Some r) \<Rightarrow> put_request i (r\<lparr>rq_pendingResponseDeliveryId := Some (pr_deliveryId p), rq_updatedAt := Iso (env_now env)\<rparr>) s
    | _ \<Rightarrow> s)"

definition prepare_form :: "env \<Rightarrow> preparation \<Rightarrow> request option \<Rightarrow> req_state \<Rightarrow> req_state" where
  "prepare_form env p replied s = (case pr_requestId p of
      None \<Rightarrow> reply_reserved env p replied s
    | Some i \<Rightarrow> put_request i (new_request env p i) (reply_reserved env p replied s))"

lemma prepare_maps:
  assumes "prepare env input s = (Inr p, t)"
  obtains replied where "prepare_plan env input s = Inr (p, replied)"
    and "request_at t = request_at (prepare_form env p replied s)" and "st_deliveries t = st_deliveries s"
proof -
  obtain replied where plan: "prepare_plan env input s = Inr (p, replied)"
    using assms by (auto simp: prepare_def Let_def persist_or_ok split: sum.splits prod.splits option.splits if_splits)
  have "prepare env input s = (if replied = None \<and> pr_requestId p = None then (Inr p, prepare_form env p replied s)
     else persist_or env (\<lambda>s'. let t = (case pr_requestId p of None \<Rightarrow> s' | Some i \<Rightarrow> drop_request i s') in
            (case replied of None \<Rightarrow> t | Some r \<Rightarrow> put_request (rq_id r) r t)) p (prepare_form env p replied s))"
    unfolding prepare_def plan prepare_form_def reply_reserved_def Let_def by simp
  with assms have "t = prepare_form env p replied s \<or> t = saved (prepare_form env p replied s)"
    by (simp add: persist_or_ok split: if_splits)
  moreover have "st_deliveries (prepare_form env p replied s) = st_deliveries s"
    by (simp add: prepare_form_def reply_reserved_def split: option.splits)
  ultimately have "request_at t = request_at (prepare_form env p replied s)" "st_deliveries t = st_deliveries s" by auto
  then show ?thesis by (rule that [OF plan])
qed

lemma abort_maps:
  assumes "delivery_at t (pr_deliveryId p) = None" "abort env p t = (Inr v, u)"
  obtains reserved t2 pending t3 where "release_reply env p t = (reserved, t2)" "release_request p t2 = (pending, t3)"
    and "request_at u = request_at t3" "st_deliveries u = st_deliveries t"
proof -
  obtain reserved t2 where rr: "release_reply env p t = (reserved, t2)" by (cases "release_reply env p t")
  obtain pending t3 where rq: "release_request p t2 = (pending, t3)" by (cases "release_request p t2")
  have u: "u = t3 \<or> u = saved t3"
    using assms rr rq by (auto simp: abort_def Let_def persist_or_ok split: if_splits)
  have "st_deliveries t3 = st_deliveries t"
    using rr rq by (auto simp: release_reply_def release_request_def split: option.splits if_splits)
  with u have "request_at u = request_at t3" "st_deliveries u = st_deliveries t" by auto
  then show ?thesis by (rule that [OF rr rq])
qed

lemma release_new_request:
  assumes plan: "prepare_plan env input s = Inr (p, replied)" and fresh: "fresh_uuids env s"
    and t: "request_at t = request_at (prepare_form env p replied s)"
    and rr: "release_reply env' p t = (reserved, t2)" and rq: "release_request p t2 = (pending, t3)"
  shows "request_at t3 = (if pr_requestId p = None then request_at t2 else (request_at t2)(env_requestUuid env := None))"
proof (cases "pr_requestId p")
  case None
  with rq show ?thesis by (simp add: release_request_def linked_request_def)
next
  case (Some i)
  let ?k = "env_requestUuid env"
  have k: "request_at s ?k = None" "?k \<noteq> []" using fresh by (simp_all add: fresh_uuids_def)
  from Some prepare_plan_request [OF plan] have i: "i = ?k" by (simp split: if_splits)
  have "request_at t ?k = Some (new_request env p ?k)" using Some i by (simp add: t prepare_form_def)
  moreover have "pr_inReplyToRequestId p \<noteq> Some ?k"
    using k plan prepare_plan_new prepare_plan_reply by (cases replied) fastforce+
  ultimately have "request_at t2 ?k = Some (new_request env p ?k)"
    using rr by (auto simp: release_reply_def linked_request_Some new_request_def dest: truthy_the split: option.splits if_splits)
  with rq Some i k show ?thesis
    by (auto simp: release_request_def linked_request_def new_request_def split: if_splits)
qed

lemma release_reserved_reply:
  assumes ok: "state_ok s" and plan: "prepare_plan env input s = Inr (p, Some r)" and fresh: "fresh_uuids env s"
    and t: "request_at t = request_at (prepare_form env p (Some r) s)"
    and rr: "release_reply env' p t = (reserved, t2)"
  obtains i where "pr_inReplyToRequestId p = Some i" "request_at s i = Some r" "i \<noteq> env_requestUuid env"
    and "request_at t2 = (request_at t)(i \<mapsto> r\<lparr>rq_updatedAt := Iso (env_now env')\<rparr>)"
proof -
  obtain i where i: "pr_inReplyToRequestId p = Some i" "request_at s i = Some r" "\<not> truthy (rq_pendingResponseDeliveryId r)"
    using plan prepare_plan_reply by blast
  let ?r = "r\<lparr>rq_pendingResponseDeliveryId := Some (pr_deliveryId p), rq_updatedAt := Iso (env_now env)\<rparr>"
  have wfr: "request_wf i r" by (rule wf_requestD [OF ok i(2)])
  have "rq_pendingResponseDeliveryId r = None"
    using i(3) wfr by (cases "rq_pendingResponseDeliveryId r") (simp_all add: request_wf_def)
  with wfr have pend: "rq_pendingResponseDeliveryId r = None" "rq_pendingResponseEvidence r = None" "i \<noteq> []"
    unfolding request_wf_def by blast+
  have ik: "i \<noteq> env_requestUuid env" using i(2) fresh by (auto simp: fresh_uuids_def)
  have ti: "request_at t i = Some ?r"
    using ik prepare_plan_request [OF plan] i(1) by (auto simp: t prepare_form_def reply_reserved_def)
  have "t2 = put_request i (?r\<lparr>rq_pendingResponseDeliveryId := None, rq_pendingResponseEvidence := None,
      rq_updatedAt := Iso (env_now env')\<rparr>) t"
    using rr ti i(1) pend(3) by (auto simp: release_reply_def linked_request_def)
  also have "?r\<lparr>rq_pendingResponseDeliveryId := None, rq_pendingResponseEvidence := None, rq_updatedAt := Iso (env_now env')\<rparr>
      = r\<lparr>rq_updatedAt := Iso (env_now env')\<rparr>" using pend by simp
  finally have "request_at t2 = (request_at t)(i \<mapsto> r\<lparr>rq_updatedAt := Iso (env_now env')\<rparr>)" by (simp add: fun_eq_iff)
  then show ?thesis by (rule that [OF i(1,2) ik])
qed

text \<open>Aborting a preparation undoes it: from a well-formed state, preparing a request or a reply
  and aborting that preparation gives back every record and delivery, but for the update time of
  the request that was to be answered, and the delivery identifier is free again.\<close>

theorem abort_undoes_prepare:
  assumes ok: "state_ok s" and fresh: "fresh_uuids env s"
    and prep: "prepare env input s = (Inr p, t)" and ab: "abort env' p t = (Inr v, u)"
  shows "map_of (st_deliveries u) = map_of (st_deliveries s)
    \<and> (\<forall>k. map_option (\<lambda>r. r\<lparr>rq_updatedAt := x\<rparr>) (request_at u k) = map_option (\<lambda>r. r\<lparr>rq_updatedAt := x\<rparr>) (request_at s k))
    \<and> (\<forall>k. Some k \<noteq> pr_inReplyToRequestId p \<longrightarrow> request_at u k = request_at s k)"
proof -
  obtain replied where plan: "prepare_plan env input s = Inr (p, replied)"
    and t: "request_at t = request_at (prepare_form env p replied s)" and td: "st_deliveries t = st_deliveries s"
    using prep by (rule prepare_maps)
  have "delivery_at t (pr_deliveryId p) = None"
    using prepare_plan_delivery [OF plan fresh] td by (simp add: hasEndpointDeliveryReservation_def)
  then obtain reserved t2 pending t3 where rr: "release_reply env' p t = (reserved, t2)"
    and rq: "release_request p t2 = (pending, t3)" and u: "request_at u = request_at t3" "st_deliveries u = st_deliveries t"
    using ab by (rule abort_maps)
  note drop = release_new_request [OF plan fresh t rr rq]
  have k: "request_at s (env_requestUuid env) = None" using fresh by (simp add: fresh_uuids_def)
  have rid: "pr_requestId p = None \<or> pr_requestId p = Some (env_requestUuid env)"
    using prepare_plan_request [OF plan] by simp
  show ?thesis
  proof (cases replied)
    case None
    then have none: "pr_inReplyToRequestId p = None" using plan prepare_plan_new by simp
    then have "t2 = t" using rr by (simp add: release_reply_def linked_request_def)
    with rid none None have "request_at u = request_at s"
      unfolding u(1) drop using k by (elim disjE) (simp_all add: t prepare_form_def reply_reserved_def, simp add: fun_eq_iff)
    with u(2) td show ?thesis by simp
  next
    case (Some r)
    obtain i where i: "pr_inReplyToRequestId p = Some i" "request_at s i = Some r" "i \<noteq> env_requestUuid env"
      and t2: "request_at t2 = (request_at t)(i \<mapsto> r\<lparr>rq_updatedAt := Iso (env_now env')\<rparr>)"
      using release_reserved_reply [OF ok plan [unfolded Some] fresh t [unfolded Some] rr] by blast
    have "request_at u = (request_at s)(i \<mapsto> r\<lparr>rq_updatedAt := Iso (env_now env')\<rparr>)"
      unfolding u(1) drop t2 t prepare_form_def reply_reserved_def using k i Some rid
      by (elim disjE) (simp_all add: fun_eq_iff)
    with u(2) td i show ?thesis by auto
  qed
qed

lemma abort_undoes_prepare_witness:
  "map_of (st_requests (snd (abort sample_env sample_preparation prepared_state))) = map_of (st_requests empty_state)"
proof -
  have p: "prepare sample_env sample_input empty_state = (Inr sample_preparation, prepared_state)"
    using sample_run(1) by (cases "prepare sample_env sample_input empty_state") (simp add: prepared_state_def)
  have a: "is_ok (fst (abort sample_env sample_preparation prepared_state))" by code_simp
  then obtain v u where ab: "abort sample_env sample_preparation prepared_state = (Inr v, u)"
    by (cases "abort sample_env sample_preparation prepared_state"; cases "fst (abort sample_env sample_preparation prepared_state)") auto
  have "pr_inReplyToRequestId sample_preparation = None" by (simp add: sample_preparation_def)
  with abort_undoes_prepare [OF sample_states_ok(1,2) p ab] ab show ?thesis by (simp add: fun_eq_iff)
qed

text \<open>After a successful commit the reply, when there is one, is recorded; and a commit that finds it so does nothing.\<close>

lemma commit_records_reply:
  assumes first: "commit env p rc s = (Inr v, t)" and reply: "truthy (pr_inReplyToRequestId p)"
  shows "reply_recorded t p"
proof -
  let ?k = "the (pr_requestId p)" and ?i = "the (pr_inReplyToRequestId p)"
  obtain c where c: "commit_reply env p s = Inr c"
    using first by (auto simp: commit_def Let_def split: sum.splits if_splits)
  from c show ?thesis
  proof (cases rule: commit_reply_cases)
    case none
    with reply show ?thesis by simp
  next
    case (recorded r)
    with first c have "t = s" by (auto simp: commit_def Let_def split: if_splits)
    with recorded show ?thesis by (simp add: reply_recorded_def linked_request_def)
  next
    case (reply r)
    let ?r = "responded_request env p r"
    have kept: "delivered_request e c ?r = ?r" for e c by (simp add: delivered_request_def responded_request_def)
    let ?s1 = "put_request ?i ?r s"
    have "t = saved ?s1 \<or> (\<exists>q. request_at ?s1 ?k = Some q \<and> t = saved (put_request ?k (delivered_request env rc q) ?s1))"
      using first unfolding commit_def Let_def c reply(4)
      by (auto simp: persist_or_ok linked_request_Some split: if_splits option.splits)
    then have "request_at t ?i = Some ?r" using kept by (auto split: if_splits)
    with assms(2) show ?thesis by (simp add: reply_recorded_def linked_request_def responded_request_def)
  qed
qed

lemma commit_recorded_reply:
  assumes "reply_recorded t p" "commit env p rc t = (Inr x, u)" "truthy (pr_inReplyToRequestId p)"
  shows "u = t"
proof -
  obtain r where "commit_reply env p t = Inr (AlreadyRecorded r)"
    using assms(1,3) by (auto simp: reply_recorded_def commit_reply_def split: option.splits)
  with assms(2) show ?thesis by (auto simp: commit_def Let_def split: if_splits)
qed

lemma commit_request_twice:
  assumes no_reply: "\<not> truthy (pr_inReplyToRequestId p)"
    and first: "commit env p rc s = (Inr v, t)" and again: "commit env' p rc' t = (Inr x, u)"
  shows "same_maps t u"
proof -
  let ?k = "the (pr_requestId p)"
  have none: "commit_reply e p z = Inr (ReplyCommitted None z)" for e z using no_reply by (simp add: commit_reply_def)
  show ?thesis
  proof (cases "truthy (pr_requestId p)")
    case False
    with again none show ?thesis by (simp add: commit_def Let_def)
  next
    case True
    from first True none obtain r where r: "request_at s ?k = Some r"
      and t: "t = saved (put_request ?k (delivered_request env rc r) s)"
      by (auto simp: commit_def Let_def persist_or_ok linked_request_def split: if_splits option.splits)
    have "request_at t ?k = Some (delivered_request env rc r)" by (simp add: t)
    with again True none have "u = saved (put_request ?k (delivered_request env' rc' (delivered_request env rc r)) t)"
      by (auto simp: commit_def Let_def persist_or_ok linked_request_def split: if_splits option.splits)
    moreover have "delivered_request env' rc' (delivered_request env rc r) = delivered_request env rc r"
      by (simp add: delivered_request_def)
    ultimately show ?thesis by (auto simp: same_maps_def t fun_eq_iff)
  qed
qed

text \<open>Committing is idempotent: once a preparation has been committed, committing it again with
  any receipt, at any time and whatever the write does, changes no record and no delivery.\<close>

theorem commit_is_idempotent:
  assumes ok: "state_ok s" and first: "commit env p rc s = (Inr v, t)"
    and again: "commit env' p rc' t = (w, u)"
  shows "same_maps t u"
proof (cases w)
  case (Inl e)
  have "state_ok t" using commit_good [OF ok, of env p rc] first by (simp add: good_step_def)
  with commit_good [of t env' p rc'] again Inl show ?thesis by (simp add: good_step_def)
next
  case (Inr x)
  with again have again': "commit env' p rc' t = (Inr x, u)" by simp
  show ?thesis
  proof (cases "truthy (pr_inReplyToRequestId p)")
    case True
    with commit_recorded_reply [OF commit_records_reply [OF first] again'] show ?thesis by (simp add: same_maps_def)
  next
    case False
    from commit_request_twice [OF this first again'] show ?thesis .
  qed
qed

lemma commit_is_idempotent_witness:
  "same_maps (snd (commit sample_env sample_preparation (None, None) prepared_state))
     (snd (commit sample_env sample_preparation (None, None) (snd (commit sample_env sample_preparation (None, None) prepared_state))))"
proof -
  have "is_ok (fst (commit sample_env sample_preparation (None, None) prepared_state))" by code_simp
  then obtain v t where "commit sample_env sample_preparation (None, None) prepared_state = (Inr v, t)"
    by (cases "commit sample_env sample_preparation (None, None) prepared_state";
        cases "fst (commit sample_env sample_preparation (None, None) prepared_state)") auto
  from commit_is_idempotent [OF sample_states_ok(3) this, of sample_env "(None, None)"] this show ?thesis
    by (metis prod.collapse snd_conv)
qed

section \<open>Retries\<close>

text \<open>The retry of a prepared delivery is scheduled within bounds: the delay is between one second
  and one minute and never shrinks as retries are counted, and a recorded failure schedules the next
  attempt no earlier than that delay and less than a second after it, never for a dispatched one.\<close>

theorem retries_back_off_within_bounds:
  assumes "delivery_at s k = Some d" "dl_state d = Prepared \<or> dl_state d = Dispatching"
    and "noteEndpointDeliveryFailure env k err blocked s = (Inr v, t)" "delivery_at t k = Some d'"
  shows "(\<forall>m n. m \<le> n \<longrightarrow> 1000 \<le> retryDelayMs m \<and> retryDelayMs m \<le> retryDelayMs n \<and> retryDelayMs n \<le> 60000)
    \<and> (dl_state d = Prepared \<longrightarrow> (\<exists>c at. dl_retryCount d' = Some c \<and> dl_nextAttemptAt d' = Some (Iso at)
         \<and> env_now env + int (retryDelayMs c) \<le> at \<and> at < env_now env + int (retryDelayMs c) + 1000))
    \<and> (dl_state d = Dispatching \<longrightarrow> dl_nextAttemptAt d' = None)"
proof -
  have pow: "(2::nat) ^ min (m - 1) 6 \<le> 2 ^ min (n - 1) 6" if "m \<le> n" for m n
    using that by (intro power_increasing) auto
  have delay: "1000 \<le> retryDelayMs m \<and> retryDelayMs m \<le> retryDelayMs n \<and> retryDelayMs n \<le> 60000" if "m \<le> n" for m n
  proof -
    have "1000 * (2::nat) ^ min (m - 1) 6 \<le> 1000 * 2 ^ min (n - 1) 6" using pow [OF that] by simp
    moreover have "(1::nat) \<le> 2 ^ min (m - 1) 6" by simp
    ultimately show ?thesis unfolding retryDelayMs_def by (intro conjI min.mono) simp_all
  qed
  let ?c = "(case dl_retryCount d of None \<Rightarrow> 0 | Some n \<Rightarrow> n) + 1"
  have jit: "env_jitter env mod min 1000 (retryDelayMs ?c) < 1000"
    using delay [of ?c ?c] by (simp add: min_def)
  have t: "(dl_state d = Prepared \<longrightarrow> dl_retryCount d' = Some ?c \<and> dl_nextAttemptAt d' =
        Some (Iso (env_now env + int (retryDelayMs ?c) + int (env_jitter env mod min 1000 (retryDelayMs ?c)))))
     \<and> (dl_state d = Dispatching \<longrightarrow> dl_nextAttemptAt d' = None)"
    using assms by (auto simp: noteEndpointDeliveryFailure_def Let_def persist_or_ok)
  show ?thesis
  proof (intro conjI)
    show "\<forall>m n. m \<le> n \<longrightarrow> 1000 \<le> retryDelayMs m \<and> retryDelayMs m \<le> retryDelayMs n \<and> retryDelayMs n \<le> 60000"
      using delay by blast
    show "dl_state d = Prepared \<longrightarrow> (\<exists>c at. dl_retryCount d' = Some c \<and> dl_nextAttemptAt d' = Some (Iso at)
         \<and> env_now env + int (retryDelayMs c) \<le> at \<and> at < env_now env + int (retryDelayMs c) + 1000)"
      using t jit by auto
    show "dl_state d = Dispatching \<longrightarrow> dl_nextAttemptAt d' = None" using t by blast
  qed
qed

lemma retries_back_off_within_bounds_witness:
  "map_option dl_retryCount (delivery_at (snd (noteEndpointDeliveryFailure sample_env ''du'' (''x'', None) False bound_state)) ''du'')
     = Some (Some 1)
   \<and> 1000 \<le> retryDelayMs 1"
proof -
  let ?out = "noteEndpointDeliveryFailure sample_env ''du'' (''x'', None) False bound_state"
  have c: "is_ok (fst ?out)" "map_option dl_state (delivery_at bound_state ''du'') = Some Prepared"
    "map_option dl_retryCount (delivery_at (snd ?out) ''du'') = Some (Some 1)" by code_simp+
  then obtain v t d d' where "?out = (Inr v, t)" "delivery_at bound_state ''du'' = Some d" "dl_state d = Prepared"
    "delivery_at t ''du'' = Some d'" by (cases ?out; cases "fst ?out") auto
  from retries_back_off_within_bounds [OF this(2) disjI1 [OF this(3)] this(1,4)] c(3) show ?thesis by blast
qed

section \<open>Identifiers\<close>

text \<open>A finished delivery identifier is never used again: once a delivery is committed or cancelled,
  in every later state preparing a request or a reply with its identifier fails, and so does binding
  another delivery under it or recording a connection response with it.\<close>

theorem finished_delivery_ids_are_never_reused:
  assumes "reaches s u" "state_ok s" "delivery_at s j = Some d" "dl_state d = Committed \<or> dl_state d = DCancelled"
  shows "(\<forall>env input v w. pi_deliveryId input = Some j \<longrightarrow> prepare env input u \<noteq> (Inr v, w))
    \<and> (\<forall>env x v w. dl_deliveryId x = j \<longrightarrow> bindEndpointDelivery env x u \<noteq> (Inr v, w))
    \<and> (\<forall>env k src res nxt w r. recordConnectionResponse env k src j res nxt u = (Inr r, w) \<longrightarrow> w = u)"
proof -
  have at: "delivery_at u j = Some d" using finished_permanent(2) [OF assms] .
  then have res: "hasEndpointDeliveryReservation u j" by (simp add: hasEndpointDeliveryReservation_def)
  have "prepare env input u \<noteq> (Inr v, w)" if "pi_deliveryId input = Some j" for env input v w
  proof
    assume "prepare env input u = (Inr v, w)"
    then obtain p x where plan: "prepare_plan env input u = Inr (p, x)"
      by (auto simp: prepare_def split: sum.splits)
    from prepare_plan_ok [OF plan] have "pr_deliveryId p = j" unfolding that option.case by (elim conjE)
    moreover from prepare_plan_ok [OF plan] have "\<not> hasEndpointDeliveryReservation u (pr_deliveryId p)"
      unfolding that by blast
    ultimately have "pr_deliveryId p = j" "\<not> hasEndpointDeliveryReservation u (pr_deliveryId p)" .
    with res show False by simp
  qed
  moreover have "bindEndpointDelivery env x u \<noteq> (Inr v, w)" if "dl_deliveryId x = j" for env x v w
    using at that by (auto simp: bindEndpointDelivery_def Let_def split: sum.splits)
  moreover have "w = u" if rec: "recordConnectionResponse env k src j r n u = (Inr q, w)" for env k src r n q w
  proof -
    obtain q' y where plan: "connection_response_plan env u k src j r n (request_at u (cleanText (Some k) 100)) = Inr (q', y)"
      using rec by (cases "connection_response_plan env u k src j r n (request_at u (cleanText (Some k) 100))")
        (auto simp: recordConnectionResponse_def)
    with connection_response_plan_ok [OF plan] res have "y = None" by blast
    with rec plan show ?thesis by (simp add: recordConnectionResponse_def)
  qed
  ultimately show ?thesis by blast
qed

theorem finished_delivery_ids_are_never_reused_witness:
  "\<forall>env v w. bindEndpointDelivery env (the (delivery_at accepted_state ''du'')) accepted_state \<noteq> (Inr v, w)"
proof -
  have i: "dl_deliveryId (the (delivery_at accepted_state ''du'')) = ''du''" by code_simp
  have "map_option dl_state (delivery_at accepted_state ''du'') = Some Committed" by code_simp
  then obtain d where "delivery_at accepted_state ''du'' = Some d" "dl_state d = Committed" by auto
  then show ?thesis
    using finished_delivery_ids_are_never_reused [OF _ sample_states_ok(6), of accepted_state "''du''" d] i
    by (simp add: reaches_def del: option.sel)
qed

end
