(* ===== verification/DispatchProps.thy ===== *)
theory DispatchProps
  imports EndpointDispatch RequestProps
begin

text \<open>
  What a process guarantees about the prompts it sends, whatever the order in which its tasks
  resume, whatever other operations change the store, and however often it is restarted from its
  file: a delivery is handed to the transport at most once more than the transport has reported
  that nothing was sent; every hand-over is in the file before it happens; and an answer that
  confirms a delivery is backed by the receipt in the store.
\<close>

section \<open>Closed deliveries stay closed\<close>

text \<open>A delivery that cannot be dispatched: it is present and no longer prepared.\<close>

definition closed :: "deliveries \<Rightarrow> string \<Rightarrow> bool" where
  "closed m k = (case map_of m k of None \<Rightarrow> False | Some d \<Rightarrow> dl_state d \<noteq> Prepared)"

lemma closed_iff: "closed m k \<longleftrightarrow> (\<exists>d. map_of m k = Some d \<and> dl_state d \<noteq> Prepared)"
  by (simp add: closed_def split: option.split)

definition closed_in :: "deliveries \<Rightarrow> deliveries \<Rightarrow> bool" where
  "closed_in m m' \<longleftrightarrow> (\<forall>k. closed m k \<longrightarrow> closed m' k)"

text \<open>
  A success keeps what is closed closed, and a write puts nothing in the file that opens what
  was closed in memory.
\<close>

definition keeps_closed :: "req_state \<Rightarrow> 'a result \<times> req_state \<Rightarrow> bool" where
  "keeps_closed s out \<longleftrightarrow> (is_ok (fst out) \<longrightarrow> closed_in (st_deliveries s) (st_deliveries (snd out)))
     \<and> (st_disk (snd out) = st_disk s \<or> closed_in (st_deliveries s) (snd (st_disk (snd out))))"

lemma closed_in_refl [simp]: "closed_in m m"
  by (simp add: closed_in_def)

lemma closed_in_trans: "closed_in a b \<Longrightarrow> closed_in b c \<Longrightarrow> closed_in a c"
  by (simp add: closed_in_def)

lemma closed_in_put:
  "(\<And>d. map_of m k = Some d \<Longrightarrow> dl_state d \<noteq> Prepared \<Longrightarrow> dl_state d' \<noteq> Prepared) \<Longrightarrow> closed_in m (AList.update k d' m)"
  by (auto simp: closed_in_def closed_iff update_conv')

lemma closed_in_drop:
  "(\<And>d. map_of m k = Some d \<Longrightarrow> dl_state d = Prepared) \<Longrightarrow> closed_in m (AList.delete k m)"
  by (auto simp: closed_in_def closed_iff delete_conv')

lemma keeps_same [simp]: "st_deliveries t = st_deliveries s \<Longrightarrow> st_disk t = st_disk s \<Longrightarrow> keeps_closed s (x, t)"
  by (simp add: keeps_closed_def)

lemma keeps_persist:
  assumes "closed_in (st_deliveries s) (st_deliveries u)" "st_disk u = st_disk s"
    and "\<And>t. st_disk (rb t) = st_disk t"
  shows "keeps_closed s (persist_or env rb v u)"
  using assms
  by (auto simp: keeps_closed_def persist_or_def persist_def split: option.splits write_outcome.splits)

lemma keeps_trans:
  "closed_in (st_deliveries s) (st_deliveries u) \<Longrightarrow> st_disk u = st_disk s \<Longrightarrow> keeps_closed u out \<Longrightarrow> keeps_closed s out"
  by (auto simp: keeps_closed_def intro: closed_in_trans)

lemma keeps_transaction:
  assumes "keeps_closed s (f s)" and t: "transaction f s = (v, t)"
  shows "closed_in (st_deliveries s) (st_deliveries t)
    \<and> (st_disk t = st_disk s \<or> closed_in (st_deliveries s) (snd (st_disk t)))"
  using assms by (auto simp: keeps_closed_def transaction_def split: prod.splits sum.splits)

lemma st_disk_restore [simp]: "st_disk (restore_requests b t) = st_disk t"
  by (simp add: restore_requests_def) (induction b arbitrary: t, auto split: prod.splits)

lemma single_ops_keep:
  "keeps_closed s (bindEndpointDelivery env d s)"
  "keeps_closed s (markEndpointDispatching env k s)"
  "keeps_closed s (noteEndpointDeliveryFailure env k e b s)"
  "keeps_closed s (recordConnectionResponse env k src dd r n s)"
  "keeps_closed s (bindResponseEvidence env p x s)"
  by (auto simp: bindEndpointDelivery_def markEndpointDispatching_def noteEndpointDeliveryFailure_def
      recordConnectionResponse_def bindResponseEvidence_def Let_def intro!: keeps_persist closed_in_put
      split: option.splits sum.splits prod.splits)

lemma prepare_keeps: "keeps_closed s (prepare env i s)"
  by (auto simp: prepare_def Let_def intro!: keeps_persist split: option.splits sum.splits prod.splits)

lemma commit_keeps: "keeps_closed s (commit env p rc s)"
  unfolding commit_def commit_reply_def Let_def
  by (auto intro!: keeps_persist split: option.splits if_splits)

lemma reconcile_keeps: "keeps_closed s (reconcileOpenParties env resolve s)"
  by (auto simp: reconcileOpenParties_def intro!: keeps_persist split: option.splits prod.splits)

lemma receipt_keeps: "keeps_closed s (commitEndpointReceipt env k rc s)"
proof (cases "assertEndpointDeliveryActive env s k")
  case (Inr u)
  show ?thesis
  proof (cases "delivery_at s k")
    case (Some d)
    define s1 where "s1 = put_delivery k (d\<lparr>dl_state := Committed, dl_receipt := Some rc,
        dl_updatedAt := Some (Iso (env_now env)), dl_nextAttemptAt := None, dl_retryCount := None,
        dl_lastError := None, dl_blockedReason := None\<rparr>) s"
    obtain x s2 where c: "commit env (dl_preparation d) (Some (rc_action rc), Some (rc_transport rc)) s1 = (x, s2)"
      by fastforce
    have s1: "closed_in (st_deliveries s) (st_deliveries s1)" "st_disk s1 = st_disk s"
      using Some by (auto simp: s1_def intro: closed_in_put)
    have k: "keeps_closed s (x, s2)"
      using keeps_trans [OF s1 commit_keeps, of env "dl_preparation d"] c by metis
    have same: "st_deliveries s2 = st_deliveries s1"
      using commit_deliveries [of env "dl_preparation d" _ s1] c by (metis snd_conv)
    have last: "keeps_closed s (persist_or env (put_delivery k d) () s2)"
      if "\<not> truthy (pr_requestId (dl_preparation d))" "\<not> truthy (pr_inReplyToRequestId (dl_preparation d))"
    proof -
      have "st_disk s2 = st_disk s1"
        using c that by (auto simp: commit_def commit_reply_def Let_def linked_request_def split: if_splits)
      with s1 same show ?thesis by (intro keeps_persist) simp_all
    qed
    from Some Inr c k last show ?thesis
      by (cases x) (auto simp: commitEndpointReceipt_def Let_def s1_def [symmetric] keeps_closed_def)
  qed (use Inr in \<open>simp add: commitEndpointReceipt_def\<close>)
qed (simp add: commitEndpointReceipt_def)

lemma release_deliveries:
  "release_reply env p s = (b, t) \<Longrightarrow> st_deliveries t = st_deliveries s"
  "release_request p s = (b, t) \<Longrightarrow> st_deliveries t = st_deliveries s"
  by (auto simp: release_reply_def release_request_def split: option.splits if_splits)

lemma abort_keeps: "keeps_closed s (abort env p s)"
proof -
  define s1 where "s1 = (if delivery_at s (pr_deliveryId p) \<noteq> None then drop_delivery (pr_deliveryId p) s else s)"
  obtain reserved s2 where s2: "release_reply env p s1 = (reserved, s2)" by (cases "release_reply env p s1")
  obtain pending s3 where s3: "release_request p s2 = (pending, s3)" by (cases "release_request p s2")
  have d: "st_disk s3 = st_disk s" using st_disk_release(2) [OF s3] st_disk_release(1) [OF s2] by (simp add: s1_def)
  have m: "st_deliveries s3 = st_deliveries s1"
    using release_deliveries(2) [OF s3] release_deliveries(1) [OF s2] by simp
  have step: "closed_in (st_deliveries s) (st_deliveries s3)"
    if "\<not> (case delivery_at s (pr_deliveryId p) of None \<Rightarrow> False | Some d \<Rightarrow> dl_state d \<noteq> Prepared)"
    unfolding m using that by (auto simp: s1_def intro: closed_in_drop split: option.splits)
  have out: "keeps_closed s (persist_or env rb v s3)"
    if "\<not> (case delivery_at s (pr_deliveryId p) of None \<Rightarrow> False | Some d \<Rightarrow> dl_state d \<noteq> Prepared)"
      "\<And>t. st_disk (rb t) = st_disk t" for rb v
    using step [OF that(1)] d that(2) by (rule keeps_persist)
  have same: "keeps_closed s (Inr (), s3)" if "delivery_at s (pr_deliveryId p) = None"
    using that d m by (simp add: s1_def)
  show ?thesis
  proof (cases "delivery_at s (pr_deliveryId p)")
    case None
    with s2 s3 show ?thesis
      by (auto simp: abort_def Let_def s1_def intro!: out same)
  next
    case (Some d)
    with s2 s3 show ?thesis
      by (cases "dl_state d = Prepared") (auto simp: abort_def Let_def s1_def intro!: out)
  qed
qed

lemma closed_in_map:
  "(\<And>d. dl_state d \<noteq> Prepared \<Longrightarrow> dl_state (f d) \<noteq> Prepared) \<Longrightarrow> closed_in m (map (\<lambda>(k, d). (k, f d)) m)"
  by (auto simp: closed_in_def closed_iff map_of_map)

lemma cancel_keeps: "keeps_closed s (cancel env k x s)"
  unfolding cancel_def Let_def
  by (auto intro!: keeps_persist closed_in_map simp: cancelled_delivery_def split: option.splits if_splits)

lemma cancelEndpointDelivery_keeps: "keeps_closed s (cancelEndpointDelivery env k s)"
proof -
  have c: "keeps_closed s (case cancel env j x s of (Inl e, s') \<Rightarrow> (Inl e, s') | (Inr _, s') \<Rightarrow> (Inr (f s'), s'))" for j x f
    using cancel_keeps [of s env j x] by (auto simp: keeps_closed_def split: prod.splits sum.splits)
  have p: "keeps_closed s (persist_or env (put_delivery k d) v (put_delivery k (cancelled_delivery env m d) s))" for d v m
    by (rule keeps_persist) (auto simp: cancelled_delivery_def intro: closed_in_put)
  show ?thesis
    unfolding cancelEndpointDelivery_def Let_def using c p
    by (auto split: option.split sum.split simp del: split_paired_All)
qed

text \<open>A report that nothing was sent opens one delivery.\<close>

definition opens_only :: "string \<Rightarrow> deliveries \<Rightarrow> deliveries \<Rightarrow> bool" where
  "opens_only k m m' \<longleftrightarrow> (\<forall>j. j \<noteq> k \<longrightarrow> closed m j \<longrightarrow> closed m' j)"

lemma not_sent_opens_only:
  assumes "transaction (markEndpointNotSent env k proof') s = (v, t)"
  shows "opens_only k (st_deliveries s) (st_deliveries t)
    \<and> (st_disk t = st_disk s \<or> opens_only k (st_deliveries s) (snd (st_disk t)))"
  using assms
  by (auto simp: transaction_def markEndpointNotSent_def persist_or_def persist_def opens_only_def closed_iff update_conv'
      split: option.splits if_splits sum.splits write_outcome.splits)

section \<open>One resumption\<close>

definition quiet :: "req_state \<Rightarrow> req_state \<Rightarrow> bool" where
  "quiet s t \<longleftrightarrow> closed_in (st_deliveries s) (st_deliveries t)
     \<and> (st_disk t = st_disk s \<or> closed_in (st_deliveries s) (snd (st_disk t)))"

text \<open>
  A delivery is handed over as the mark of its attempt is acknowledged: it was not closed before, and
  memory and file record the attempt.
\<close>

definition marked :: "deliveries \<Rightarrow> string \<Rightarrow> string \<Rightarrow> bool" where
  "marked m k attempt \<longleftrightarrow> (\<exists>d. map_of m k = Some d \<and> dl_state d = Dispatching \<and> dl_dispatchAttemptId d = Some attempt)"

definition effect :: "req_state \<Rightarrow> req_state \<Rightarrow> event list \<Rightarrow> bool" where
  "effect s t es \<longleftrightarrow> (case es of
     [] \<Rightarrow> quiet s t
   | [Sent k attempt] \<Rightarrow> quiet s t \<and> \<not> closed (st_deliveries s) k
       \<and> marked (st_deliveries t) k attempt \<and> marked (snd (st_disk t)) k attempt
   | [Returned k] \<Rightarrow> opens_only k (st_deliveries s) (st_deliveries t)
       \<and> (st_disk t = st_disk s \<or> opens_only k (st_deliveries s) (snd (st_disk t)))
   | _ \<Rightarrow> False)"

lemma marked_closed: "marked m k a \<Longrightarrow> closed m k"
  by (auto simp: marked_def closed_iff)

lemma quiet_refl [simp]: "quiet s s"
  by (simp add: quiet_def)

lemma effect_nil [simp]: "effect s t [] = quiet s t"
  by (simp add: effect_def)

lemma store_call_quiet:
  assumes "store_call f x s = Some (r, t)" and "\<And>env. keeps_closed s (f env s)"
  shows "quiet s t"
  using assms keeps_transaction [of s "f _"]
  by (auto simp: store_call_def quiet_def split: reply.splits prod.splits sum.splits)

lemma note_failure_quiet: "note_failure k e x s = Some (r, t) \<Longrightarrow> quiet s t"
  unfolding note_failure_def by (erule store_call_quiet) (rule single_ops_keep)

lemma mark_effect:
  assumes "store_call (\<lambda>env. markEndpointDispatching env k) x s = Some (Inr attempt, t)"
  shows "quiet s t \<and> \<not> closed (st_deliveries s) k \<and> marked (st_deliveries t) k attempt \<and> marked (snd (st_disk t)) k attempt"
proof -
  obtain env where tr: "transaction (markEndpointDispatching env k) s = (Inr attempt, t)"
    using assms by (auto simp: store_call_def split: reply.splits prod.splits sum.splits)
  then have m: "markEndpointDispatching env k s = (Inr attempt, t)"
    by (auto simp: transaction_def split: prod.splits sum.splits)
  have "quiet s t" using keeps_transaction [OF single_ops_keep(2) tr] by (simp add: quiet_def)
  with m show ?thesis
    by (auto simp: markEndpointDispatching_def closed_iff marked_def persist_or_ok update_conv' saved_def
        split: sum.splits option.splits if_splits)
qed

lemma returned_effect:
  assumes "store_call (\<lambda>env. markEndpointNotSent env k proof') x s = Some (r, t)"
  shows "effect s t [Returned k]"
  using assms not_sent_opens_only [of _ k proof' s]
  by (auto simp: store_call_def effect_def opens_only_def split: reply.splits prod.splits sum.splits)

lemma dispatch_effect:
  assumes "verifyThenDispatch env auth x task s = Some (task', t, es)"
  shows "effect s t es"
  using assms
proof (induction env auth x task s rule: verifyThenDispatch.induct)
  case (3 env auth x d s)
  then obtain r where r: "store_call (\<lambda>env. markEndpointDispatching env (dl_deliveryId d)) x s = Some (r, t)"
    by (auto split: option.splits sum.splits prod.splits)
  show ?case
  proof (cases r)
    case (Inl e)
    with 3 r have "es = []" by simp
    with store_call_quiet [OF r single_ops_keep(2)] show ?thesis by simp
  next
    case (Inr attempt)
    with 3 r mark_effect [OF r [unfolded Inr]] show ?thesis
      by (auto simp: after_mark_def Let_def effect_def split: option.splits)
  qed
qed (auto split: option.splits sum.splits prod.splits dest: note_failure_quiet returned_effect
    store_call_quiet [OF _ receipt_keeps])

lemma reconcile_effect:
  assumes "reconcileEndpointDelivery env auth x task s = Some (task', t, es)"
  shows "effect s t es"
proof -
  have "reconcile_phase env auth x task ph s = Some (ph', t, es) \<Longrightarrow> effect s t es" for ph ph'
    by (induction env auth x task ph s rule: reconcile_phase.induct)
      (auto split: option.splits sum.splits prod.splits reply.splits if_splits dest: note_failure_quiet returned_effect
        store_call_quiet [OF _ receipt_keeps])
  with assms show ?thesis by (auto simp: reconcileEndpointDelivery_def)
qed

section \<open>The process\<close>

text \<open>
  The other operations of the store: all but the three that only a dispatch or a
  reconciliation calls.
\<close>

inductive other_step :: "req_state \<Rightarrow> req_state \<Rightarrow> bool" where
  bind: "transaction (bindEndpointDelivery env d) s = (v, t) \<Longrightarrow> other_step s t"
| failure: "transaction (noteEndpointDeliveryFailure env k err blocked) s = (v, t) \<Longrightarrow> other_step s t"
| prepare: "transaction (prepare env input) s = (v, t) \<Longrightarrow> other_step s t"
| connection: "transaction (recordConnectionResponse env k src d res nxt) s = (v, t) \<Longrightarrow> other_step s t"
| evidence: "transaction (bindResponseEvidence env p prompt) s = (v, t) \<Longrightarrow> other_step s t"
| commit: "transaction (commit env p rc') s = (v, t) \<Longrightarrow> other_step s t"
| abort: "transaction (abort env p) s = (v, t) \<Longrightarrow> other_step s t"
| cancel: "transaction (cancel env k reason) s = (v, t) \<Longrightarrow> other_step s t"
| cancel_delivery: "transaction (cancelEndpointDelivery env k) s = (v, t) \<Longrightarrow> other_step s t"
| reconcile: "transaction (reconcileOpenParties env resolve) s = (v, t) \<Longrightarrow> other_step s t"

inductive process_step :: "process \<Rightarrow> process \<Rightarrow> bool" where
  start: "process_step p (dispatchPreparedDelivery d p)"
| resume: "resume_dispatch env auth x k p = Some (task, q) \<Longrightarrow> process_step p q"
| reconcile: "process_step p (start_reconcile k receiptOnly p)"
| resume_reconcile: "resume_reconcile env auth x i p = Some (task', q) \<Longrightarrow> process_step p q"
| other: "other_step (ps_store p) t \<Longrightarrow> process_step p (p\<lparr>ps_store := t\<rparr>)"
| restart: "process_step p (restarted p)"

lemmas keeping_operations = single_ops_keep prepare_keeps commit_keeps reconcile_keeps abort_keeps cancel_keeps
  cancelEndpointDelivery_keeps receipt_keeps

lemma other_step_quiet: "other_step s t \<Longrightarrow> quiet s t"
  unfolding quiet_def
  by (induction rule: other_step.induct) (erule keeps_transaction [rotated], rule keeping_operations)+

definition sends :: "string \<Rightarrow> event list \<Rightarrow> nat" where
  "sends k es = length (filter (\<lambda>e. case e of Sent j _ \<Rightarrow> j = k | Returned _ \<Rightarrow> False) es)"

definition no_frame_reports :: "string \<Rightarrow> event list \<Rightarrow> nat" where
  "no_frame_reports k es = length (filter (\<lambda>e. e = Returned k) es)"

lemma count_simps [simp]:
  "sends k [] = 0" "no_frame_reports k [] = 0"
  "sends k (es @ fs) = sends k es + sends k fs"
  "no_frame_reports k (es @ fs) = no_frame_reports k es + no_frame_reports k fs"
  "sends k [Sent j a] = (if j = k then 1 else 0)" "no_frame_reports k [Sent j a] = 0"
  "sends k [Returned j] = 0" "no_frame_reports k [Returned j] = (if j = k then 1 else 0)"
  by (simp_all add: sends_def no_frame_reports_def)

text \<open>
  A delivery is free while memory or file would allow another dispatch.
\<close>

definition free_to_send :: "process \<Rightarrow> string \<Rightarrow> bool" where
  "free_to_send p k \<longleftrightarrow> \<not> (closed (st_deliveries (ps_store p)) k \<and> closed (snd (st_disk (ps_store p))) k)"

lemma effect_cases:
  "effect s t es \<Longrightarrow> es = [] \<or> (\<exists>k a. es = [Sent k a]) \<or> (\<exists>k. es = [Returned k])"
  unfolding effect_def by (cases es; cases "hd es"; cases "tl es") auto

lemma effect_budget:
  assumes e: "effect (ps_store p) (ps_store q) new"
  shows "of_bool (free_to_send q k) + sends k new \<le> of_bool (free_to_send p k) + no_frame_reports k new"
proof -
  have quiet: "free_to_send q k \<longrightarrow> free_to_send p k" if "quiet (ps_store p) (ps_store q)"
    using that by (auto simp: free_to_send_def quiet_def closed_in_def)
  from effect_cases [OF e] consider "new = []" | j a where "new = [Sent j a]" | j where "new = [Returned j]" by blast
  then show ?thesis
  proof cases
    case 1
    with e quiet show ?thesis by (auto simp: of_bool_def)
  next
    case (2 j a)
    with e have "quiet (ps_store p) (ps_store q)" by (simp add: effect_def)
    moreover have "free_to_send p j \<and> \<not> free_to_send q j"
      using e 2 by (auto simp: effect_def free_to_send_def intro: marked_closed)
    ultimately show ?thesis using quiet 2 by (auto simp: of_bool_def)
  next
    case (3 j)
    with e have "j \<noteq> k \<Longrightarrow> free_to_send q k \<longrightarrow> free_to_send p k"
      by (auto simp: effect_def free_to_send_def opens_only_def)
    with 3 show ?thesis by (auto simp: of_bool_def)
  qed
qed

lemma process_step_effect:
  assumes "process_step p q"
  shows "\<exists>new. ps_events q = ps_events p @ new
    \<and> of_bool (free_to_send q k) + sends k new \<le> of_bool (free_to_send p k) + no_frame_reports k new"
  using assms
proof (cases rule: process_step.cases)
  case (start d)
  then show ?thesis
    by (intro exI [of _ "[]"]) (simp add: dispatchPreparedDelivery_def free_to_send_def split: option.split)
next
  case (resume env auth x j task)
  then obtain old es where "verifyThenDispatch env auth x old (ps_store p) = Some (task, ps_store q, es)"
      "ps_events q = ps_events p @ es"
    by (auto simp: resume_dispatch_def split: option.splits prod.splits)
  then show ?thesis using effect_budget dispatch_effect by blast
next
  case (resume_reconcile env auth x i task')
  then obtain es where "reconcileEndpointDelivery env auth x (ps_reconciles p ! i) (ps_store p) = Some (task', ps_store q, es)"
      "ps_events q = ps_events p @ es"
    by (auto simp: resume_reconcile_def split: option.splits prod.splits if_splits)
  then show ?thesis using effect_budget reconcile_effect by blast
next
  case (other t)
  then have "effect (ps_store p) (ps_store q) []" using other_step_quiet by simp
  from effect_budget [OF this, of k] other show ?thesis by simp
qed (intro exI [of _ "[]"], simp add: start_reconcile_def restarted_def free_to_send_def)+

interpretation prompts: hand_over_budget process_step ps_events "\<lambda>p k. of_bool (free_to_send p k)" sends no_frame_reports
  by unfold_locales (simp_all add: process_step_effect)

text \<open>C1: Whatever the interleaving of dispatches, reconciliations, other operations of the store,
failed writes and restarts, a prompt is handed to the transport at most once, and once more for
every report of the transport that nothing was sent. A delivery that was already past its
dispatch when the process started is handed over only after such reports.\<close>

theorem prompts_are_sent_once:
  assumes "process_step\<^sup>*\<^sup>* p q" and "ps_events p = []"
  shows "sends k (ps_events q) \<le> no_frame_reports k (ps_events q)
    + (if closed (st_deliveries (ps_store p)) k \<and> closed (snd (st_disk (ps_store p))) k then 0 else 1)"
  using prompts.granted_bound [OF assms, of k] by (cases "free_to_send p k") (auto simp: free_to_send_def)

text \<open>A prompt is handed over only by a task of its delivery, which until then nobody had
dispatched, and by that time the stored file names exactly this attempt: whoever reads the file after a
crash knows that the prompt may be out.\<close>

theorem hand_overs_are_on_file:
  assumes "process_step p q" "ps_events q = ps_events p @ [Sent k attempt]"
  shows "\<not> closed (st_deliveries (ps_store p)) k
    \<and> marked (st_deliveries (ps_store q)) k attempt \<and> marked (snd (st_disk (ps_store q))) k attempt"
  using assms
proof (cases rule: process_step.cases)
  case (resume env auth x j task)
  then obtain old es where "verifyThenDispatch env auth x old (ps_store p) = Some (task, ps_store q, es)"
      "ps_events q = ps_events p @ es"
    by (auto simp: resume_dispatch_def split: option.splits prod.splits)
  with assms(2) dispatch_effect [of env auth x old "ps_store p" task "ps_store q" es] show ?thesis
    by (simp add: effect_def)
next
  case (resume_reconcile env auth x i task')
  then obtain es where "reconcileEndpointDelivery env auth x (ps_reconciles p ! i) (ps_store p) = Some (task', ps_store q, es)"
      "ps_events q = ps_events p @ es"
    by (auto simp: resume_reconcile_def split: option.splits prod.splits if_splits)
  with assms(2) reconcile_effect [of env auth x "ps_reconciles p ! i" "ps_store p" task' "ps_store q" es] show ?thesis
    by (simp add: effect_def)
qed (auto simp: dispatchPreparedDelivery_def start_reconcile_def restarted_def split: option.splits)

section \<open>The answer of a dispatch\<close>

text \<open>
  One dispatch from its start, resumed over states that anything may have changed in between, with
  the events it caused and the state after its last resumption.
\<close>

inductive dispatch_run :: "dispatch \<Rightarrow> event list \<Rightarrow> dispatch \<Rightarrow> req_state \<Rightarrow> bool" where
  started: "dispatch_run a [] a s"
| resumed: "dispatch_run a es b s \<Longrightarrow> verifyThenDispatch env auth x b s' = Some (c, t, fs) \<Longrightarrow> dispatch_run a (es @ fs) c t"

definition only_sent :: "string \<Rightarrow> event list \<Rightarrow> bool" where
  "only_sent k es \<longleftrightarrow> (\<exists>a. es = [Sent k a])"

text \<open>Nothing went out: no hand-over, or one that the transport reported as not sent.\<close>

definition nothing_out :: "string \<Rightarrow> event list \<Rightarrow> bool" where
  "nothing_out k es \<longleftrightarrow> es = [] \<or> es = [Returned k] \<or> (\<exists>a. es = [Sent k a, Returned k])"

definition committed_in :: "req_state \<Rightarrow> string \<Rightarrow> bool" where
  "committed_in s k \<longleftrightarrow> (\<exists>d. delivery_at s k = Some d \<and> dl_state d = Committed)"

definition honest :: "string \<Rightarrow> event list \<Rightarrow> req_state \<Rightarrow> answer \<Rightarrow> bool" where
  "honest k es s a \<longleftrightarrow> an_deliveryId a = k \<and>
     (an_statusCode a = 200 \<and> an_ok a \<and> \<not> an_retryable a \<and> only_sent k es \<and> committed_in s k
      \<or> an_statusCode a = 503 \<and> \<not> an_ok a \<and> an_retryable a \<and> nothing_out k es
      \<or> an_statusCode a = 202 \<and> \<not> an_ok a \<and> \<not> an_retryable a \<and> (only_sent k es \<or> nothing_out k es))"

definition honest_phase :: "string \<Rightarrow> event list \<Rightarrow> req_state \<Rightarrow> phase \<Rightarrow> bool" where
  "honest_phase k es s ph = (case ph of
     Verifying \<Rightarrow> es = [] | NotingUnsent _ \<Rightarrow> es = [] | Marking \<Rightarrow> es = []
   | Sending \<Rightarrow> only_sent k es | Rechecking _ \<Rightarrow> only_sent k es | Committing _ \<Rightarrow> only_sent k es
   | Returning _ _ \<Rightarrow> es = [] \<or> only_sent k es | NotingFailure _ \<Rightarrow> es = [] \<or> only_sent k es
   | NotingReturned _ \<Rightarrow> nothing_out k es
   | Finished (Inl _) \<Rightarrow> es = []
   | Finished (Inr a) \<Rightarrow> honest k es s a)"

lemma honest_sent_failed: "es = [] \<or> only_sent k es \<Longrightarrow> honest_phase k es s (sent_failed e)"
  by (auto simp: sent_failed_def honest_phase_def split: option.split)

lemma honest_answers:
  "nothing_out (dl_deliveryId d) es \<Longrightarrow> honest (dl_deliveryId d) es s (notSentResult d e)"
  "only_sent (dl_deliveryId d) es \<or> nothing_out (dl_deliveryId d) es \<Longrightarrow> honest (dl_deliveryId d) es s (delivery_answer d False x)"
  "only_sent (dl_deliveryId d) es \<Longrightarrow> committed_in s (dl_deliveryId d) \<Longrightarrow> honest (dl_deliveryId d) es s (delivery_answer d True x)"
  by (simp_all add: honest_def notSentResult_def delivery_answer_def Let_def)

lemma returned_nothing_out:
  "es = [] \<or> only_sent k es \<Longrightarrow> nothing_out k (es @ [Returned k])"
  by (auto simp: only_sent_def nothing_out_def)

lemma receipt_committed:
  assumes "store_call (\<lambda>env. commitEndpointReceipt env k rc) x s = Some (Inr u, t)"
  shows "committed_in t k"
proof -
  obtain env where c: "commitEndpointReceipt env k rc s = (Inr (), t)"
    using assms by (auto simp: store_call_def transaction_def split: reply.splits prod.splits sum.splits)
  then obtain d where d: "delivery_at s k = Some d"
    by (auto simp: commitEndpointReceipt_def split: sum.splits option.splits)
  show ?thesis
  proof (cases "dl_state d = Committed")
    case True
    with c d show ?thesis
      by (auto simp: commitEndpointReceipt_def committed_in_def split: sum.splits if_splits)
  next
    case False
    define s1 where "s1 = put_delivery k (d\<lparr>dl_state := Committed, dl_receipt := Some rc,
        dl_updatedAt := Some (Iso (env_now env)), dl_nextAttemptAt := None, dl_retryCount := None,
        dl_lastError := None, dl_blockedReason := None\<rparr>) s"
    obtain y s2 where s2: "commit env (dl_preparation d) (Some (rc_action rc), Some (rc_transport rc)) s1 = (y, s2)"
      by fastforce
    have "st_deliveries s2 = st_deliveries s1"
      using commit_deliveries [of env "dl_preparation d" _ s1] s2 by (metis snd_conv)
    then have "committed_in s2 k" by (simp add: committed_in_def s1_def)
    moreover have "t = s2 \<or> t = saved s2"
      using c d False s2
      by (auto simp: commitEndpointReceipt_def Let_def s1_def [symmetric] persist_or_ok split: sum.splits if_splits)
    ultimately show ?thesis by (auto simp: committed_in_def)
  qed
qed

lemma honest_step:
  assumes "verifyThenDispatch env auth x b s = Some (c, t, fs)" "dl_deliveryId (fst b) = k" "honest_phase k es s0 (snd b)"
  shows "dl_deliveryId (fst c) = k \<and> honest_phase k (es @ fs) t (snd c)"
  using assms
proof (induction env auth x b s rule: verifyThenDispatch.induct)
  case (3 env auth x d s)
  then show ?case
    by (auto simp: after_mark_def Let_def honest_phase_def only_sent_def sent_failed_def
        split: option.splits sum.splits prod.splits)
next
  case (5 env auth x d rc s)
  then have "es = [] \<or> only_sent k es" by (simp add: honest_phase_def)
  with 5 honest_sent_failed show ?case
    by (auto simp: honest_phase_def validateEndpointReceipt_def split: option.splits sum.splits)
next
  case (6 env auth x d rc s)
  then have sent: "only_sent k es" by (simp add: honest_phase_def)
  from 6 obtain r where r: "store_call (\<lambda>env. commitEndpointReceipt env (dl_deliveryId d) rc) x s = Some (r, t)"
    by (auto split: option.splits sum.splits)
  show ?case
  proof (cases r)
    case (Inl e)
    with 6 r sent honest_sent_failed [of es k t e] show ?thesis by auto
  next
    case (Inr u)
    with 6 r sent receipt_committed [OF r [unfolded Inr]] show ?thesis
      by (auto simp: honest_phase_def honest_answers)
  qed
next
  case (7 env auth x d e proof' s)
  then have "nothing_out k (es @ [Returned k])"
    by (intro returned_nothing_out) (simp add: honest_phase_def)
  with 7 show ?case
    by (auto simp: honest_phase_def honest_answers split: option.splits sum.splits)
next
  case (9 env auth x d e s)
  then have "only_sent k es \<or> nothing_out k es" by (auto simp: honest_phase_def nothing_out_def)
  with 9 show ?case
    by (auto simp: honest_phase_def honest_answers split: option.splits sum.splits)
next
  case (8 env auth x d e s)
  then have "nothing_out k es" by (simp add: honest_phase_def)
  with 8 honest_answers show ?case
    by (auto simp: honest_phase_def split: option.splits sum.splits)
qed (auto simp: honest_phase_def sent_failed_def honest_answers nothing_out_def only_sent_def split: option.splits sum.splits)

text \<open>C8: The answer of a dispatch is what happened. A confirmation comes after exactly one hand-over
and with the receipt committed in the store; a retryable refusal only when nothing went out, because
nothing was handed over or the transport reported so; every other answer is unconfirmed and forbids
a retry; and a dispatch that throws has handed over nothing.\<close>

theorem answers_are_honest:
  assumes "dispatch_run (d, Verifying) es (d', Finished out) t"
  shows "case out of Inl _ \<Rightarrow> es = [] | Inr a \<Rightarrow> honest (dl_deliveryId d) es t a"
proof -
  have "dispatch_run a es b t \<Longrightarrow> a = (d, Verifying) \<Longrightarrow>
      dl_deliveryId (fst b) = dl_deliveryId d \<and> honest_phase (dl_deliveryId d) es t (snd b)" for a b
    by (induction rule: dispatch_run.induct) (simp add: honest_phase_def, use honest_step in blast)
  from this [OF assms] show ?thesis by (simp add: honest_phase_def split: sum.split)
qed

section \<open>A sample process\<close>

definition sample_process :: process where
  "sample_process = dispatchPreparedDelivery sample_delivery
     \<lparr>ps_store = bound_state, ps_dispatches = [], ps_reconciles = [], ps_events = []\<rparr>"

definition sample_replies :: "reply list" where
  "sample_replies = [Refreshed None, Stored sample_env, Transported (Inr (Some sample_receipt)), Refreshed None, Stored sample_env]"

primrec resumes :: "string \<Rightarrow> reply list \<Rightarrow> process \<Rightarrow> process" where
  "resumes k [] p = p"
| "resumes k (x # xs) p = (case resume_dispatch sample_env (\<lambda>_. None) x k p of
     None \<Rightarrow> p | Some (_, q) \<Rightarrow> resumes k xs q)"

lemma resumes_steps: "process_step\<^sup>*\<^sup>* p (resumes k xs p)"
proof (induction xs arbitrary: p)
  case (Cons x xs)
  show ?case
  proof (cases "resume_dispatch sample_env (\<lambda>_. None) x k p")
    case (Some out)
    then obtain task q where q: "resume_dispatch sample_env (\<lambda>_. None) x k p = Some (task, q)" by (cases out) auto
    with Cons.IH [of q] process_step.resume [OF q] show ?thesis
      by (simp add: converse_rtranclp_into_rtranclp)
  qed simp
qed simp

lemma prompts_are_sent_once_witness:
  "sends ''du'' (ps_events (resumes ''du'' sample_replies sample_process))
     \<le> no_frame_reports ''du'' (ps_events (resumes ''du'' sample_replies sample_process)) + 1
   \<and> sends ''du'' (ps_events (resumes ''du'' sample_replies sample_process)) = 1"
proof -
  have "ps_events sample_process = []" "\<not> closed (st_deliveries (ps_store sample_process)) ''du''"
    "sends ''du'' (ps_events (resumes ''du'' sample_replies sample_process)) = 1"
    by code_simp+
  with prompts_are_sent_once [OF resumes_steps, of sample_process "''du''" "''du''" sample_replies] show ?thesis
    by simp
qed

lemma hand_overs_are_on_file_witness:
  "marked (snd (st_disk (ps_store (resumes ''du'' (take 2 sample_replies) sample_process)))) ''du'' ''au''"
proof -
  let ?p = "resumes ''du'' (take 1 sample_replies) sample_process"
  let ?q = "resumes ''du'' [Stored sample_env] ?p"
  have two: "?q = resumes ''du'' (take 2 sample_replies) sample_process" by code_simp
  have some: "resume_dispatch sample_env (\<lambda>_. None) (Stored sample_env) ''du'' ?p \<noteq> None"
    by code_simp
  then obtain task q where q: "resume_dispatch sample_env (\<lambda>_. None) (Stored sample_env) ''du'' ?p = Some (task, q)"
    by auto
  then have step: "process_step ?p ?q" using process_step.resume [OF q] by simp
  have "ps_events ?q = ps_events ?p @ [Sent ''du'' ''au'']" by code_simp
  from hand_overs_are_on_file [OF step this] two show ?thesis by simp
qed

primrec replied :: "reply list \<Rightarrow> dispatch \<times> event list \<times> req_state \<Rightarrow> dispatch \<times> event list \<times> req_state" where
  "replied [] r = r"
| "replied (x # xs) r = (case r of (b, es, s) \<Rightarrow>
     (case verifyThenDispatch sample_env (\<lambda>_. None) x b s of
        None \<Rightarrow> r | Some (c, t, fs) \<Rightarrow> replied xs (c, es @ fs, t)))"

lemma replied_run: "dispatch_run a es b s \<Longrightarrow> replied xs (b, es, s) = (c, fs, t) \<Longrightarrow> dispatch_run a fs c t"
proof (induction xs arbitrary: es b s)
  case (Cons x xs)
  show ?case
  proof (cases "verifyThenDispatch sample_env (\<lambda>_. None) x b s")
    case (Some out)
    then obtain c' t' gs where out: "verifyThenDispatch sample_env (\<lambda>_. None) x b s = Some (c', t', gs)" by (cases out) auto
    with Cons.IH [OF dispatch_run.resumed [OF Cons.prems(1) out]] Cons.prems(2) show ?thesis by simp
  qed (use Cons.prems in simp)
qed simp

definition sample_run_result :: "dispatch \<times> event list \<times> req_state" where
  "sample_run_result = replied sample_replies ((sample_delivery, Verifying), [], bound_state)"

lemma answers_are_honest_witness:
  "honest ''du'' [Sent ''du'' ''au''] (snd (snd sample_run_result)) (delivery_answer (fst (fst sample_run_result)) True None)"
proof -
  have ph: "snd (fst sample_run_result) = Finished (Inr (delivery_answer (fst (fst sample_run_result)) True None))"
    and es: "fst (snd sample_run_result) = [Sent ''du'' ''au'']" by code_simp+
  obtain d' ph' es' t where r: "sample_run_result = ((d', ph'), es', t)" by (metis prod.exhaust_sel)
  with replied_run [OF dispatch_run.started, of sample_replies "(sample_delivery, Verifying)" bound_state]
  have "dispatch_run (sample_delivery, Verifying) es' (d', ph') t"
    by (simp add: sample_run_result_def)
  moreover have "ph' = Finished (Inr (delivery_answer d' True None))" "es' = [Sent ''du'' ''au'']"
    using ph es unfolding r by simp_all
  ultimately have "dispatch_run (sample_delivery, Verifying) [Sent ''du'' ''au'']
      (d', Finished (Inr (delivery_answer d' True None))) t" by simp
  from answers_are_honest [OF this] show ?thesis unfolding r by (simp add: sample_delivery_def)
qed

end
