(* ===== verification/EndpointRecovery.thy ===== *)
theory EndpointRecovery
  imports EndpointDispatch
begin

text \<open>
  The recovery of deliveries, \<open>EndpointDeliveryRecovery\<close> of
  \<open>src/src/agentRequests/endpointDelivery.ts\<close>: one flight per delivery, at most
  \<open>maximumBatchSize\<close> of them running, the others waiting for a slot; a flight reads the delivery,
  dispatches it when it is prepared and reconciles it otherwise, and makes a second pass when
  an event arrived meanwhile. A timer starts the flights of prepared deliveries that are due.

  A flight is the asynchronous function of \<open>recover\<close>, suspended at one of its
  \<open>await\<close>s; each function below is what runs between two of them. Starting a flight takes effect in
  a later microtask, which is the first resumption (\<open>Entering\<close>), and so does the hand-over of
  a slot (\<open>Resuming\<close>). The dispatch and the reconciliation themselves are those of
  \<open>EndpointDispatch\<close>; a flight is resumed with their outcome.
\<close>

section \<open>State\<close>

datatype flight = Entering | Waiting | Resuming | ReadingDelivery nat | Attempting nat

record recovery =
  rv_active :: "(string \<times> flight) list"
  rv_pendingEvents :: "string list"
  rv_executing :: nat
  rv_waiters :: "string list"
  rv_timer :: "int option"
  rv_started :: bool
  rv_stopped :: bool
  rv_requeued :: "string list"
  rv_minimumDelayMs :: int
  rv_maximumBatchSize :: nat

text \<open>The numbers of a policy are finite; a fraction of a batch size is not modelled.\<close>

definition new_recovery :: "int option \<Rightarrow> int option \<Rightarrow> recovery" where
  "new_recovery minimumDelayMs maximumBatchSize = \<lparr>rv_active = [], rv_pendingEvents = [], rv_executing = 0,
     rv_waiters = [], rv_timer = None, rv_started = False, rv_stopped = False, rv_requeued = [],
     rv_minimumDelayMs = max 10 (case minimumDelayMs of None \<Rightarrow> 1000 | Some n \<Rightarrow> n),
     rv_maximumBatchSize = nat (max 1 (min 16 (case maximumBatchSize of None \<Rightarrow> 16 | Some n \<Rightarrow> n)))\<rparr>"

section \<open>The timer\<close>

text \<open>
  The moment and the deliveries of a store, as the timer reads them: its clock, \<open>Date.parse\<close>, and
  the rank \<open>localeCompare\<close> gives the text of a \<open>nextAttemptAt\<close> (the empty text when it is absent).
\<close>

record clock =
  ck_now :: int
  ck_date :: "string \<Rightarrow> int option"
  ck_rank :: "stamp option \<Rightarrow> int"

definition next_ms :: "clock \<Rightarrow> delivery \<Rightarrow> int option" where
  "next_ms ck d = (case dl_nextAttemptAt d of None \<Rightarrow> None | Some x \<Rightarrow> date_parse (ck_date ck) x)"

definition retryable :: "recovery \<Rightarrow> delivery \<Rightarrow> bool" where
  "retryable v d \<longleftrightarrow> dl_state d = Prepared \<and> ep_kind (dl_target d) \<in> {''local'', ''instance''}
     \<and> \<not> truthy (dl_blockedReason d) \<and> map_of (rv_active v) (dl_deliveryId d) = None"

definition retryablePrepared :: "req_state \<Rightarrow> recovery \<Rightarrow> delivery list" where
  "retryablePrepared s v = filter (retryable v) (map_values (st_deliveries s))"

definition due_at :: "clock \<Rightarrow> delivery list \<Rightarrow> int" where
  "due_at ck ds = Min (set (map (\<lambda>d. case next_ms ck d of Some t \<Rightarrow> t | None \<Rightarrow> ck_now ck) ds))"

definition timer_delay :: "clock \<Rightarrow> recovery \<Rightarrow> delivery list \<Rightarrow> int" where
  "timer_delay ck v ds = max (rv_minimumDelayMs v) (min 2147483647 (due_at ck ds - ck_now ck))"

definition schedule :: "clock \<Rightarrow> req_state \<Rightarrow> recovery \<Rightarrow> recovery" where
  "schedule ck s v =
    (if \<not> rv_started v \<or> rv_stopped v then v
     else let v' = v\<lparr>rv_timer := None\<rparr> in
       if rv_maximumBatchSize v \<le> length (rv_active v) then v'
       else if retryablePrepared s v = [] then v'
       else v'\<lparr>rv_timer := Some (timer_delay ck v (retryablePrepared s v))\<rparr>)"

definition is_due :: "clock \<Rightarrow> delivery \<Rightarrow> bool" where
  "is_due ck d \<longleftrightarrow> dl_nextAttemptAt d \<in> {None, Some (Text [])} \<or> (case next_ms ck d of None \<Rightarrow> False | Some t \<Rightarrow> t \<le> ck_now ck)"

definition due_deliveries :: "clock \<Rightarrow> req_state \<Rightarrow> recovery \<Rightarrow> delivery list" where
  "due_deliveries ck s v = take (rv_maximumBatchSize v - length (rv_active v))
     (sort_key (\<lambda>d. ck_rank ck (dl_nextAttemptAt d)) (filter (is_due ck) (retryablePrepared s v)))"

section \<open>Flights\<close>

definition recover :: "string \<Rightarrow> recovery \<Rightarrow> recovery" where
  "recover k v = (if rv_stopped v then v
     else case map_of (rv_active v) k of
       Some _ \<Rightarrow> v
     | None \<Rightarrow> v\<lparr>rv_active := AList.update k Entering (rv_active v)\<rparr>)"

definition fire_timer :: "clock \<Rightarrow> req_state \<Rightarrow> recovery \<Rightarrow> recovery" where
  "fire_timer ck s v = (let v' = v\<lparr>rv_timer := None\<rparr> in
     fold recover (map dl_deliveryId (due_deliveries ck s v')) v')"

text \<open>The \<open>finally\<close> block: the flight ends and hands its slot to the first waiter.\<close>

definition finish_flight :: "clock \<Rightarrow> req_state \<Rightarrow> string \<Rightarrow> recovery \<Rightarrow> recovery" where
  "finish_flight ck s k v =
    (let pendingEvent = k \<in> set (rv_pendingEvents v);
         v1 = v\<lparr>rv_pendingEvents := removeAll k (rv_pendingEvents v), rv_active := AList.delete k (rv_active v)\<rparr>;
         v2 = (case rv_waiters v1 of
             [] \<Rightarrow> v1\<lparr>rv_executing := rv_executing v1 - 1\<rparr>
           | w # ws \<Rightarrow> v1\<lparr>rv_waiters := ws, rv_active := AList.update w Resuming (rv_active v1)\<rparr>);
         v3 = schedule ck s v2 in
     if pendingEvent \<and> \<not> rv_stopped v3 then v3\<lparr>rv_requeued := rv_requeued v3 @ [k]\<rparr> else v3)"

text \<open>The start of a pass.\<close>

definition begin_pass :: "clock \<Rightarrow> req_state \<Rightarrow> string \<Rightarrow> nat \<Rightarrow> recovery \<Rightarrow> recovery" where
  "begin_pass ck s k n v =
    (let v' = v\<lparr>rv_pendingEvents := removeAll k (rv_pendingEvents v)\<rparr> in
     if rv_stopped v' then finish_flight ck s k v'
     else v'\<lparr>rv_active := AList.update k (ReadingDelivery n) (rv_active v')\<rparr>)"

text \<open>The end of a pass, whatever its outcome: \<open>++passes < 2\<close> and an event allow another one.\<close>

definition end_pass :: "clock \<Rightarrow> req_state \<Rightarrow> string \<Rightarrow> nat \<Rightarrow> recovery \<Rightarrow> recovery" where
  "end_pass ck s k n v =
    (if n + 1 < 2 \<and> \<not> rv_stopped v \<and> k \<in> set (rv_pendingEvents v) then begin_pass ck s k (n + 1) v
     else finish_flight ck s k v)"

text \<open>
  The resumption of a flight. \<open>ok\<close> tells whether the awaited promise was fulfilled: the reading of
  a delivery may be rejected, which ends the pass.
\<close>

definition resume_flight :: "clock \<Rightarrow> req_state \<Rightarrow> bool \<Rightarrow> string \<Rightarrow> recovery \<Rightarrow> recovery" where
  "resume_flight ck s ok k v = (case map_of (rv_active v) k of
     None \<Rightarrow> v
   | Some Entering \<Rightarrow>
       if rv_maximumBatchSize v \<le> rv_executing v
       then v\<lparr>rv_waiters := rv_waiters v @ [k], rv_active := AList.update k Waiting (rv_active v)\<rparr>
       else begin_pass ck s k 0 (v\<lparr>rv_executing := rv_executing v + 1\<rparr>)
   | Some Waiting \<Rightarrow> v
   | Some Resuming \<Rightarrow> begin_pass ck s k 0 v
   | Some (ReadingDelivery n) \<Rightarrow>
       if \<not> ok then end_pass ck s k n v
       else if rv_stopped v then finish_flight ck s k v
       else v\<lparr>rv_active := AList.update k (Attempting n) (rv_active v)\<rparr>
   | Some (Attempting n) \<Rightarrow> end_pass ck s k n v)"

text \<open>What an attempting flight calls for the delivery it has read.\<close>

definition attempts_dispatch :: "delivery option \<Rightarrow> bool" where
  "attempts_dispatch d = (case d of None \<Rightarrow> False | Some x \<Rightarrow> dl_state x = Prepared)"

text \<open>The microtask queued by a flight whose event is still pending.\<close>

definition requeue :: "string \<Rightarrow> recovery \<Rightarrow> recovery" where
  "requeue k v = (let v' = v\<lparr>rv_requeued := remove1 k (rv_requeued v)\<rparr> in
     if k \<notin> set (rv_requeued v) \<or> rv_stopped v' \<or> map_of (rv_active v') k \<noteq> None then v' else recover k v')"

definition start :: "clock \<Rightarrow> req_state \<Rightarrow> recovery \<Rightarrow> recovery" where
  "start ck s v = (if rv_started v \<or> rv_stopped v then v else schedule ck s (v\<lparr>rv_started := True\<rparr>))"

definition stop :: "recovery \<Rightarrow> recovery" where
  "stop v = v\<lparr>rv_stopped := True, rv_timer := None\<rparr>"

text \<open>The deliveries an event selects, in slices of the batch size, and the start of one slice.\<close>

definition event_candidates :: "clock \<Rightarrow> req_state \<Rightarrow> endpoint option \<Rightarrow> string list" where
  "event_candidates ck s ep = map dl_deliveryId (filter (\<lambda>d.
     (dl_state d = Dispatching
      \<or> dl_state d = Prepared \<and> \<not> truthy (dl_blockedReason d) \<and> (ep \<noteq> None \<or> is_due ck d))
     \<and> (ep = None \<or> sameAgentEndpoint ep (Some (dl_target d)))) (map_values (st_deliveries s)))"

definition event_flight :: "string \<Rightarrow> recovery \<Rightarrow> recovery" where
  "event_flight k v = recover k (if map_of (rv_active v) k \<noteq> None
     then v\<lparr>rv_pendingEvents := List.insert k (rv_pendingEvents v)\<rparr> else v)"

definition event_slice :: "string list \<Rightarrow> nat \<Rightarrow> recovery \<Rightarrow> recovery" where
  "event_slice candidates offset v = (if rv_stopped v then v
     else fold event_flight (take (rv_maximumBatchSize v) (drop offset candidates)) v)"

section \<open>Slots\<close>

text \<open>
  The events of a recovery: the clock, the stored deliveries and the outcomes of the awaited
  calls are arbitrary at every step.
\<close>

inductive recovery_step :: "recovery \<Rightarrow> recovery \<Rightarrow> bool" where
  start: "recovery_step v (start ck s v)"
| stop: "recovery_step v (stop v)"
| schedule: "recovery_step v (schedule ck s v)"
| timer: "rv_timer v \<noteq> None \<Longrightarrow> recovery_step v (fire_timer ck s v)"
| recover: "recovery_step v (recover k v)"
| resume: "recovery_step v (resume_flight ck s ok k v)"
| requeue: "recovery_step v (requeue k v)"
| event: "recovery_step v (event_slice candidates offset v)"

text \<open>The flights that hold a slot, and those that wait for one.\<close>

fun holds_slot :: "flight \<Rightarrow> bool" where
  "holds_slot Entering = False"
| "holds_slot Waiting = False"
| "holds_slot _ = True"

definition running :: "recovery \<Rightarrow> string set" where
  "running v = {k. case map_of (rv_active v) k of None \<Rightarrow> False | Some f \<Rightarrow> holds_slot f}"

definition waiting :: "recovery \<Rightarrow> string set" where
  "waiting v = {k. map_of (rv_active v) k = Some Waiting}"

text \<open>
  The slots are counted exactly, with the flight \<open>K\<close> counted that is just being resumed, and
  a flight waits only while every slot is taken.
\<close>

definition slots_ok :: "string set \<Rightarrow> recovery \<Rightarrow> bool" where
  "slots_ok K v \<longleftrightarrow> rv_executing v = card (running v \<union> K) \<and> waiting v \<inter> K = {}
     \<and> rv_executing v \<le> rv_maximumBatchSize v
     \<and> (rv_waiters v \<noteq> [] \<longrightarrow> rv_executing v = rv_maximumBatchSize v)
     \<and> distinct (rv_waiters v) \<and> set (rv_waiters v) = waiting v"

lemma finite_running [simp]: "finite (running v)"
proof -
  have "running v \<subseteq> dom (map_of (rv_active v))" by (auto simp: running_def split: option.splits)
  then show ?thesis by (rule finite_subset) (simp add: finite_dom_map_of)
qed

text \<open>Running and waiting flights after a change of the map of flights.\<close>

lemma running_put:
  "rv_active w = AList.update k f (rv_active v) \<Longrightarrow> running w = (if holds_slot f then insert k (running v) else running v - {k})"
  by (auto simp: running_def update_conv' split: if_splits)

lemma running_drop: "rv_active w = AList.delete k (rv_active v) \<Longrightarrow> running w = running v - {k}"
  by (auto simp: running_def delete_conv' split: if_splits)

lemma waiting_put:
  "rv_active w = AList.update k f (rv_active v) \<Longrightarrow> waiting w = (if f = Waiting then insert k (waiting v) else waiting v - {k})"
  by (auto simp: waiting_def update_conv' split: if_splits)

lemma waiting_drop: "rv_active w = AList.delete k (rv_active v) \<Longrightarrow> waiting w = waiting v - {k}"
  by (auto simp: waiting_def delete_conv')

lemma flights_same: "rv_active w = rv_active v \<Longrightarrow> running w = running v \<and> waiting w = waiting v"
  by (simp add: running_def waiting_def)

lemma slots_same:
  "rv_active w = rv_active v \<Longrightarrow> rv_executing w = rv_executing v \<Longrightarrow> rv_waiters w = rv_waiters v
    \<Longrightarrow> rv_maximumBatchSize w = rv_maximumBatchSize v \<Longrightarrow> slots_ok K w = slots_ok K v"
  using flights_same [of w v] by (simp add: slots_ok_def)

lemma schedule_same [simp]:
  "rv_active (schedule ck s v) = rv_active v" "rv_executing (schedule ck s v) = rv_executing v"
  "rv_waiters (schedule ck s v) = rv_waiters v" "rv_maximumBatchSize (schedule ck s v) = rv_maximumBatchSize v"
  "rv_stopped (schedule ck s v) = rv_stopped v" "rv_pendingEvents (schedule ck s v) = rv_pendingEvents v"
  by (simp_all add: schedule_def Let_def)

lemma recover_slots:
  assumes "slots_ok {} v"
  shows "slots_ok {} (recover k v)"
proof (cases "rv_stopped v \<or> map_of (rv_active v) k \<noteq> None")
  case True
  with assms show ?thesis by (auto simp: recover_def split: option.splits)
next
  case False
  let ?w = "v\<lparr>rv_active := AList.update k Entering (rv_active v)\<rparr>"
  from False have "k \<notin> running v" "k \<notin> waiting v" by (auto simp: running_def waiting_def)
  then have "running ?w = running v" "waiting ?w = waiting v"
    using running_put [of ?w k Entering v] waiting_put [of ?w k Entering v] by auto
  with assms False show ?thesis by (auto simp: recover_def slots_ok_def)
qed

lemma finish_slots:
  assumes "slots_ok {k} v"
  shows "slots_ok {} (finish_flight ck s k v)"
proof -
  define v1 where "v1 = v\<lparr>rv_pendingEvents := removeAll k (rv_pendingEvents v), rv_active := AList.delete k (rv_active v)\<rparr>"
  have r1: "running v1 = running v - {k}" and w1: "waiting v1 = waiting v - {k}"
    by (rule running_drop waiting_drop, simp add: v1_def)+
  have c: "rv_executing v = Suc (card (running v - {k}))" and nw: "k \<notin> waiting v"
    using assms by (auto simp: slots_ok_def card.insert_remove)
  define v2 where "v2 = (case rv_waiters v1 of
      [] \<Rightarrow> v1\<lparr>rv_executing := rv_executing v1 - 1\<rparr>
    | w # ws \<Rightarrow> v1\<lparr>rv_waiters := ws, rv_active := AList.update w Resuming (rv_active v1)\<rparr>)"
  have "slots_ok {} v2"
  proof (cases "rv_waiters v")
    case Nil
    with c nw assms r1 w1 flights_same [of v2 v1] show ?thesis
      by (auto simp: v2_def v1_def slots_ok_def)
  next
    case (Cons w ws)
    then have "w \<in> waiting v" using assms by (auto simp: slots_ok_def)
    then have "w \<notin> running v" "w \<noteq> k" using nw by (auto simp: running_def waiting_def)
    moreover have "running v2 = insert w (running v1)" "waiting v2 = waiting v1 - {w}"
      using running_put [of v2 w Resuming v1] waiting_put [of v2 w Resuming v1] Cons by (auto simp: v2_def v1_def)
    ultimately show ?thesis
      using Cons c nw assms r1 w1 by (auto simp: v2_def v1_def slots_ok_def)
  qed
  moreover have "slots_ok {} (finish_flight ck s k v) = slots_ok {} v2"
    by (rule slots_same) (simp_all add: finish_flight_def Let_def v1_def [symmetric] v2_def [symmetric])
  ultimately show ?thesis by simp
qed

lemma begin_slots:
  assumes "slots_ok {k} v"
  shows "slots_ok {} (begin_pass ck s k n v)"
proof -
  let ?v = "v\<lparr>rv_pendingEvents := removeAll k (rv_pendingEvents v)\<rparr>"
  let ?w = "?v\<lparr>rv_active := AList.update k (ReadingDelivery n) (rv_active ?v)\<rparr>"
  have v: "slots_ok {k} ?v" using assms by (simp add: slots_same [of ?v v])
  have "running ?w = insert k (running v)" "waiting ?w = waiting v - {k}"
    using running_put [of ?w k "ReadingDelivery n" v] waiting_put [of ?w k "ReadingDelivery n" v] by auto
  with assms have "slots_ok {} ?w" by (auto simp: slots_ok_def)
  with finish_slots [OF v] show ?thesis by (simp add: begin_pass_def Let_def)
qed

lemma end_slots: "slots_ok {k} v \<Longrightarrow> slots_ok {} (end_pass ck s k n v)"
  by (simp add: end_pass_def begin_slots finish_slots)

lemma resume_slots:
  assumes "slots_ok {} v"
  shows "slots_ok {} (resume_flight ck s ok k v)"
proof (cases "map_of (rv_active v) k")
  case (Some f)
  have held: "slots_ok {k} v" if "holds_slot f"
  proof -
    have "k \<in> running v" "k \<notin> waiting v" using Some that by (auto simp: running_def waiting_def)
    with assms show ?thesis by (auto simp: slots_ok_def insert_absorb)
  qed
  have attempting: "slots_ok {} (v\<lparr>rv_active := AList.update k (Attempting n) (rv_active v)\<rparr>)" if "holds_slot f" for n
  proof -
    let ?w = "v\<lparr>rv_active := AList.update k (Attempting n) (rv_active v)\<rparr>"
    have "running ?w = insert k (running v)" "waiting ?w = waiting v - {k}"
      using running_put [of ?w k "Attempting n" v] waiting_put [of ?w k "Attempting n" v] by auto
    with held [OF that] show ?thesis by (auto simp: slots_ok_def)
  qed
  show ?thesis
  proof (cases f)
    case Entering
    then have out: "k \<notin> running v" "k \<notin> waiting v" using Some by (auto simp: running_def waiting_def)
    show ?thesis
    proof (cases "rv_maximumBatchSize v \<le> rv_executing v")
      case True
      let ?w = "v\<lparr>rv_waiters := rv_waiters v @ [k], rv_active := AList.update k Waiting (rv_active v)\<rparr>"
      have "running ?w = running v" "waiting ?w = insert k (waiting v)"
        using running_put [of ?w k Waiting v] waiting_put [of ?w k Waiting v] out by auto
      with True assms out have "slots_ok {} ?w" by (auto simp: slots_ok_def)
      with True Some Entering show ?thesis by (simp add: resume_flight_def)
    next
      case False
      let ?w = "v\<lparr>rv_executing := rv_executing v + 1\<rparr>"
      have "slots_ok {k} ?w"
        using assms False out flights_same [of ?w v] by (auto simp: slots_ok_def)
      with False Some Entering show ?thesis by (simp add: resume_flight_def begin_slots)
    qed
  qed (use Some held attempting assms in \<open>auto simp: resume_flight_def begin_slots end_slots finish_slots\<close>)
qed (use assms in \<open>simp add: resume_flight_def\<close>)

lemma fold_recover_slots: "slots_ok {} v \<Longrightarrow> slots_ok {} (fold recover ks v)"
  by (induction ks arbitrary: v) (auto simp: recover_slots)

lemma event_flight_slots: "slots_ok {} v \<Longrightarrow> slots_ok {} (event_flight k v)"
  unfolding event_flight_def
  using slots_same [of "v\<lparr>rv_pendingEvents := List.insert k (rv_pendingEvents v)\<rparr>" v "{}"]
  by (intro recover_slots) simp

lemma fold_event_slots: "slots_ok {} v \<Longrightarrow> slots_ok {} (fold event_flight ks v)"
  by (induction ks arbitrary: v) (auto simp: event_flight_slots)

lemma recovery_step_slots: "recovery_step v w \<Longrightarrow> slots_ok {} v \<Longrightarrow> slots_ok {} w"
proof (induction rule: recovery_step.induct)
  case (start v ck s)
  have "slots_ok {} (EndpointRecovery.start ck s v) = slots_ok {} v"
    by (rule slots_same) (simp_all add: start_def)
  with start show ?case by simp
next
  case (stop v)
  have "slots_ok {} (EndpointRecovery.stop v) = slots_ok {} v" by (rule slots_same) (simp_all add: stop_def)
  with stop show ?case by simp
next
  case (schedule v ck s)
  have "slots_ok {} (EndpointRecovery.schedule ck s v) = slots_ok {} v" by (rule slots_same) simp_all
  with schedule show ?case by simp
next
  case (timer v ck s)
  have "slots_ok {} (v\<lparr>rv_timer := None\<rparr>) = slots_ok {} v" by (rule slots_same) simp_all
  with timer show ?case by (simp add: fire_timer_def Let_def fold_recover_slots)
next
  case (requeue v k)
  have "slots_ok {} (v\<lparr>rv_requeued := remove1 k (rv_requeued v)\<rparr>) = slots_ok {} v" by (rule slots_same) simp_all
  with requeue show ?case by (simp add: EndpointRecovery.requeue_def Let_def recover_slots)
next
  case (event v candidates offset)
  then show ?case by (simp add: event_slice_def fold_event_slots)
qed (simp_all add: recover_slots resume_slots)

lemma batch_size_step: "recovery_step v w \<Longrightarrow> rv_maximumBatchSize w = rv_maximumBatchSize v"
proof -
  have rec: "rv_maximumBatchSize (recover k u) = rv_maximumBatchSize u" for k u
    by (simp add: recover_def split: option.split)
  have fold_rec: "rv_maximumBatchSize (fold recover ks u) = rv_maximumBatchSize u" for ks u
    by (induction ks arbitrary: u) (simp_all add: rec)
  have ev: "rv_maximumBatchSize (fold event_flight ks u) = rv_maximumBatchSize u" for ks u
    by (induction ks arbitrary: u) (simp_all add: event_flight_def rec)
  have fin: "rv_maximumBatchSize (finish_flight ck s k u) = rv_maximumBatchSize u" for ck s k u
    by (simp add: finish_flight_def Let_def split: list.split)
  have beg: "rv_maximumBatchSize (begin_pass ck s k n u) = rv_maximumBatchSize u" for ck s k n u
    by (simp add: begin_pass_def Let_def fin)
  show "recovery_step v w \<Longrightarrow> rv_maximumBatchSize w = rv_maximumBatchSize v"
    by (induction rule: recovery_step.induct)
      (simp_all add: start_def stop_def fire_timer_def requeue_def event_slice_def resume_flight_def end_pass_def Let_def
        rec fold_rec ev fin beg split: option.split flight.split)
qed

text \<open>C27: However the timer, the events, the stops and the flights of a recovery interleave, it never
runs more flights than its batch size, at most sixteen; it counts its slots exactly; and a
flight waits only while every slot is taken, so a slot is never lost.\<close>

theorem recovery_slots_are_exact:
  assumes "recovery_step\<^sup>*\<^sup>* (new_recovery delay batch) v"
  shows "card (running v) = rv_executing v \<and> card (running v) \<le> rv_maximumBatchSize v
    \<and> 1 \<le> rv_maximumBatchSize v \<and> rv_maximumBatchSize v \<le> 16
    \<and> (waiting v = {} \<or> card (running v) = rv_maximumBatchSize v)"
proof -
  have "slots_ok {} v \<and> 1 \<le> rv_maximumBatchSize v \<and> rv_maximumBatchSize v \<le> 16"
    using assms
  proof (induction rule: rtranclp_induct)
    case base
    then show ?case
      by (auto simp: slots_ok_def new_recovery_def running_def waiting_def)
  next
    case (step v w)
    then show ?case using recovery_step_slots batch_size_step by metis
  qed
  then show ?thesis by (auto simp: slots_ok_def)
qed

definition sample_clock :: clock where
  "sample_clock = \<lparr>ck_now = 0, ck_date = (\<lambda>_. None), ck_rank = (\<lambda>_. 0)\<rparr>"

definition no_requests :: req_state where
  "no_requests = \<lparr>st_requests = [], st_deliveries = [], st_unavailable = [], st_quarantinedRequests = [],
     st_quarantinedDeliveries = [], st_evidenceUnavailable = None, st_disk = ([], [])\<rparr>"

text \<open>Two flights on one slot: the second waits.\<close>

definition sample_recovery :: recovery where
  "sample_recovery = resume_flight sample_clock no_requests True ''b'' (recover ''b''
     (resume_flight sample_clock no_requests True ''a'' (recover ''a'' (new_recovery None (Some 1)))))"

lemma recovery_steps:
  "recovery_step\<^sup>*\<^sup>* u v \<Longrightarrow> recovery_step\<^sup>*\<^sup>* u (recover k v)"
  "recovery_step\<^sup>*\<^sup>* u v \<Longrightarrow> recovery_step\<^sup>*\<^sup>* u (resume_flight ck s ok k v)"
  using recovery_step.recover recovery_step.resume rtranclp.rtrancl_into_rtrancl by metis+

lemma sample_recovery_reached: "recovery_step\<^sup>*\<^sup>* (new_recovery None (Some 1)) sample_recovery"
  unfolding sample_recovery_def
  by (rule recovery_steps)+ (rule rtranclp.rtrancl_refl)

lemma recovery_slots_are_exact_witness:
  "card (running sample_recovery) = 1 \<and> rv_waiters sample_recovery = [''b'']"
proof -
  have "rv_executing sample_recovery = 1" "rv_waiters sample_recovery = [''b'']" by code_simp+
  with recovery_slots_are_exact [OF sample_recovery_reached] show ?thesis by simp
qed

end
