(* ===== verification/EndpointReceipts.thy ===== *)
theory EndpointReceipts
  imports EndpointDispatch RequestProps
begin

text \<open>
  The ledger of transport attempts, \<open>EndpointTransportReceipts\<close> of
  \<open>src/src/agentRequests/endpointTransportReceipts.ts\<close>: one file per delivery, which the
  transport consults before it sends a prompt.

  A file is \<open>Evidence\<close>, what the class writes, or \<open>Damaged\<close>, when it cannot be read or parsed.
  Within one process a method runs without an \<open>await\<close>, but nothing locks the directory against other
  processes: a method reads the file and writes it later. So a method is a function of the files that ends or asks for
  a write, and each write is a function of the files it finds then. The audit of a mutation is not modelled. A
  delivery is given as the record of \<open>Delivery\<close>, of which the class reads the identity, the target, the hashes, the
  execution options and the dispatch attempt.
\<close>

section \<open>Files\<close>

datatype attempt_state = InAttempt | NotSent

text \<open>The stored proof: its kind, its attempt and the time it was observed.\<close>

type_synonym stored_proof = "string \<times> string \<times> stamp"

record evidence =
  te_deliveryId :: string
  te_generation :: string
  te_promptHash :: string
  te_executionOptionsHash :: string
  te_executionOptions :: "jval option"
  te_target :: endpoint
  te_receipt :: "receipt option"
  te_attemptId :: "string option"
  te_attemptSequence :: "int option"
  te_state :: "attempt_state option"
  te_dispatchAttemptId :: "string option"
  te_noFrameProof :: "stored_proof option"
  te_lastNoFrameProof :: "stored_proof option"

datatype stored_file = Evidence evidence | Damaged

text \<open>
  The directory: the files by the digest of the delivery identifier, and the temporary files of
  receipts that were not renamed.
\<close>

record ledger =
  lg_files :: "(string \<times> stored_file) list"
  lg_temporary :: "string list"

text \<open>
  An interrupted reservation leaves a file without its content, an interrupted replacement has replaced the
  file but throws, and an interrupted receipt leaves its temporary file.
\<close>

record ledger_env =
  le_hash :: "string \<Rightarrow> string"
  le_date :: "string \<Rightarrow> int option"
  le_now :: int
  le_uuid :: string
  le_write :: file_write

definition file_key :: "ledger_env \<Rightarrow> delivery \<Rightarrow> string" where
  "file_key env d = le_hash env (dl_deliveryId d)"

definition put_file :: "string \<Rightarrow> stored_file \<Rightarrow> ledger \<Rightarrow> ledger" where
  "put_file k f l = l\<lparr>lg_files := AList.update k f (lg_files l)\<rparr>"

definition unreadable :: js_error where
  "unreadable = CodedErr ''SyntaxError'' ''Unexpected end of JSON input''"

definition identity_mismatch :: js_error where
  "identity_mismatch = CodedErr ''DELIVERY_INPUT_CONFLICT'' ''Transport evidence identity mismatch.''"

section \<open>Reading\<close>

definition proof_recorded :: "ledger_env \<Rightarrow> evidence \<Rightarrow> bool" where
  "proof_recorded env v \<longleftrightarrow> truthy (te_attemptId v) \<and> (case te_noFrameProof v of
     None \<Rightarrow> False
   | Some (kind, attempt, observed) \<Rightarrow> kind = ''no-prompt-frame'' \<and> Some attempt = te_attemptId v
       \<and> date_parse (le_date env) observed \<noteq> None)"

definition read_evidence :: "ledger_env \<Rightarrow> delivery \<Rightarrow> ledger \<Rightarrow> (evidence option) result" where
  "read_evidence env d l = (case map_of (lg_files l) (file_key env d) of
     None \<Rightarrow> Inr None
   | Some Damaged \<Rightarrow> Inl unreadable
   | Some (Evidence v) \<Rightarrow>
       bind (check (te_deliveryId v = dl_deliveryId d \<and> te_generation v = dl_generation d
           \<and> te_promptHash v = dl_promptHash d \<and> te_executionOptionsHash v = dl_executionOptionsHash d
           \<and> sameAgentEndpoint (Some (te_target v)) (Some (dl_target d))) identity_mismatch) (\<lambda>_.
       bind (case te_receipt v of None \<Rightarrow> Inr () | Some r \<Rightarrow> validateEndpointReceipt d (Some r)) (\<lambda>_.
       bind (check (te_state v \<noteq> Some NotSent \<or> proof_recorded env v)
         (Err ''Transport no-frame evidence is invalid; original attempt remains unknown.'')) (\<lambda>_.
       Inr (Some v)))))"

definition readExecutionOptions :: "ledger_env \<Rightarrow> delivery \<Rightarrow> ledger \<Rightarrow> (jval option) result" where
  "readExecutionOptions env d l = (case map_of (lg_files l) (file_key env d) of
     None \<Rightarrow> Inr None
   | Some Damaged \<Rightarrow> Inl unreadable
   | Some (Evidence v) \<Rightarrow>
       bind (check (te_deliveryId v = dl_deliveryId d \<and> te_generation v = dl_generation d \<and> te_promptHash v = dl_promptHash d
           \<and> sameAgentEndpoint (Some (te_target v)) (Some (dl_target d))) identity_mismatch) (\<lambda>_.
       bind (case te_executionOptions v of
           None \<Rightarrow> Inr ()
         | Some x \<Rightarrow> bind (endpointExecutionOptionsHash (le_hash env) x) (\<lambda>h.
             check (h = te_executionOptionsHash v) (Err ''Transport execution snapshot hash mismatch.''))) (\<lambda>_.
       Inr (te_executionOptions v))))"

text \<open>The proof of an unsent attempt, built from the file and validated against the delivery.\<close>

definition no_frame_proof_of :: "delivery \<Rightarrow> evidence \<Rightarrow> no_frame_proof" where
  "no_frame_proof_of d v = \<lparr>nf_kind = (case te_noFrameProof v of None \<Rightarrow> [] | Some (kind, _, _) \<Rightarrow> kind),
     nf_deliveryId = dl_deliveryId d, nf_generation = dl_generation d, nf_promptHash = dl_promptHash d,
     nf_executionOptionsHash = dl_executionOptionsHash d,
     nf_dispatchAttemptId = (case te_dispatchAttemptId v of None \<Rightarrow> [] | Some x \<Rightarrow> x),
     nf_endpoint = Some (dl_target d),
     nf_attemptId = (case te_attemptId v of None \<Rightarrow> [] | Some x \<Rightarrow> x),
     nf_attemptSequence = (case te_attemptSequence v of None \<Rightarrow> 0 | Some n \<Rightarrow> n),
     nf_observedAt = (case te_noFrameProof v of None \<Rightarrow> Text [] | Some (_, _, t) \<Rightarrow> t)\<rparr>"

definition noFrameProof :: "ledger_env \<Rightarrow> delivery \<Rightarrow> evidence option \<Rightarrow> (no_frame_proof option) result" where
  "noFrameProof env d v = (case v of
     None \<Rightarrow> Inr None
   | Some e \<Rightarrow> if te_state e \<noteq> Some NotSent \<or> te_receipt e \<noteq> None then Inr None
       else bind (validateEndpointDeliveryNoFrameProof (le_date env) d (no_frame_proof_of d e)) (\<lambda>_.
         Inr (Some (no_frame_proof_of d e))))"

definition readNotSentProof :: "ledger_env \<Rightarrow> delivery \<Rightarrow> ledger \<Rightarrow> (no_frame_proof option) result" where
  "readNotSentProof env d l = bind (read_evidence env d l) (noFrameProof env d)"

definition readReceipt :: "ledger_env \<Rightarrow> delivery \<Rightarrow> ledger \<Rightarrow> (receipt option) result" where
  "readReceipt env d l = bind (read_evidence env d l) (\<lambda>v. Inr (case v of None \<Rightarrow> None | Some e \<Rightarrow> te_receipt e))"

definition readNotSent :: "ledger_env \<Rightarrow> delivery \<Rightarrow> ledger \<Rightarrow> bool result" where
  "readNotSent env d l = bind (read_evidence env d l) (\<lambda>v.
     Inr (case v of None \<Rightarrow> False | Some e \<Rightarrow> te_state e = Some NotSent \<and> te_receipt e = None))"

definition nativeDispatchAttemptId :: "ledger_env \<Rightarrow> delivery \<Rightarrow> bool \<Rightarrow> ledger \<Rightarrow> (string option) result" where
  "nativeDispatchAttemptId env d renewNoFrame l =
     bind (read_evidence env d l) (\<lambda>original.
     let keep = (case original of
           Some v \<Rightarrow> (case te_dispatchAttemptId v of Some a \<Rightarrow> Some a | None \<Rightarrow> dl_dispatchAttemptId d)
         | None \<Rightarrow> dl_dispatchAttemptId d) in
     (case original of
        Some v \<Rightarrow> if renewNoFrame \<and> te_state v = Some NotSent
          then bind (noFrameProof env (d\<lparr>dl_dispatchAttemptId := te_dispatchAttemptId v\<rparr>) original) (\<lambda>p.
            Inr (if p \<noteq> None then Some (le_uuid env) else keep))
          else Inr keep
      | None \<Rightarrow> Inr keep))"

text \<open>The lookup by identity: the file supplies the hashes, which must be digests.\<close>

definition sha256_hex :: "string \<Rightarrow> bool" where
  "sha256_hex s \<longleftrightarrow> length s = 64 \<and> list_all (\<lambda>c. c \<in> set ''0123456789abcdef'') s"

record found_receipt =
  fr_delivery :: delivery
  fr_receipt :: "receipt option"
  fr_notSent :: bool

definition readReceiptByIdentity :: "ledger_env \<Rightarrow> delivery \<Rightarrow> ledger \<Rightarrow> (found_receipt option) result" where
  "readReceiptByIdentity env d l = (case map_of (lg_files l) (file_key env d) of
     None \<Rightarrow> Inr None
   | Some Damaged \<Rightarrow> Inl unreadable
   | Some (Evidence v) \<Rightarrow>
       let own = d\<lparr>dl_target := te_target v, dl_promptHash := te_promptHash v,
             dl_executionOptionsHash := te_executionOptionsHash v, dl_dispatchAttemptId := te_dispatchAttemptId v\<rparr>;
           named = own\<lparr>dl_target := dl_target d,
             dl_executionOptions := (case te_executionOptions v of None \<Rightarrow> JUndef | Some x \<Rightarrow> x)\<rparr> in
       bind (check (te_deliveryId v = dl_deliveryId d \<and> te_generation v = dl_generation d
           \<and> sameAgentEndpoint (Some (te_target v)) (Some (dl_target d))) identity_mismatch) (\<lambda>_.
       bind (check (sha256_hex (te_promptHash v) \<and> sha256_hex (te_executionOptionsHash v))
         (Err ''Transport evidence is missing its original content hashes; the attempt remains unconfirmed.'')) (\<lambda>_.
       bind (case te_executionOptions v of
           None \<Rightarrow> Inr ()
         | Some x \<Rightarrow> bind (endpointExecutionOptionsHash (le_hash env) x) (\<lambda>h.
             check (h = te_executionOptionsHash v) (Err ''Transport execution snapshot hash mismatch.''))) (\<lambda>_.
       bind (case te_receipt v of None \<Rightarrow> Inr () | Some r \<Rightarrow> validateEndpointReceipt own (Some r)) (\<lambda>_.
       bind (noFrameProof env named (Some v)) (\<lambda>p.
       Inr (Some \<lparr>fr_delivery = named, fr_receipt = te_receipt v, fr_notSent = (p \<noteq> None)\<rparr>)))))))"

section \<open>Reading first, writing later\<close>

text \<open>
  What a method has decided to write after it has read the file: a reservation, opened exclusively and then filled;
  the replacement of the evidence it has read; a receipt, written to a temporary file that is opened
  exclusively and then renamed.
\<close>

datatype ledger_write =
    Reserving delivery
  | Filling delivery
  | Renewing delivery evidence
  | Reporting delivery evidence
  | Receiving delivery evidence "receipt option"
  | Renaming delivery evidence "receipt option"

datatype ledger_answer = Began bool | Recorded

text \<open>A method returns or throws, or goes on with a write.\<close>

type_synonym ledger_outcome = "ledger_answer result + ledger_write"

abbreviation throws :: "js_error \<Rightarrow> ledger_outcome" where
  "throws e \<equiv> Inl (Inl e)"

abbreviation returns :: "ledger_answer \<Rightarrow> ledger_outcome" where
  "returns a \<equiv> Inl (Inr a)"

definition beginAttempt :: "ledger_env \<Rightarrow> delivery \<Rightarrow> ledger \<Rightarrow> ledger_outcome" where
  "beginAttempt env d l = (case read_evidence env d l of
     Inl e \<Rightarrow> throws e
   | Inr None \<Rightarrow> Inr (Reserving d)
   | Inr (Some v) \<Rightarrow>
       if te_receipt v \<noteq> None \<or> te_state v \<noteq> Some NotSent then returns (Began False)
       else (case noFrameProof env (d\<lparr>dl_dispatchAttemptId := te_dispatchAttemptId v\<rparr>) (Some v) of
           Inl e \<Rightarrow> throws e
         | Inr _ \<Rightarrow> if te_dispatchAttemptId v = dl_dispatchAttemptId d then returns (Began False)
             else Inr (Renewing d v)))"

text \<open>The report that nothing was sent; \<open>trusted\<close> tells whether it is an \<open>EndpointDeliveryNotSentError\<close>.\<close>

definition writeNotSent :: "ledger_env \<Rightarrow> delivery \<Rightarrow> bool \<Rightarrow> ledger \<Rightarrow> ledger_outcome" where
  "writeNotSent env d trusted l =
    (if \<not> trusted then throws (Err ''A trusted no-frame error is required.'')
     else case read_evidence env d l of
       Inl e \<Rightarrow> throws e
     | Inr None \<Rightarrow> throws (Err ''No active transport attempt can accept no-frame evidence.'')
     | Inr (Some v) \<Rightarrow>
         if \<not> truthy (te_attemptId v) \<or> te_receipt v \<noteq> None \<or> \<not> truthy (dl_dispatchAttemptId d)
            \<or> te_dispatchAttemptId v \<noteq> dl_dispatchAttemptId d
         then throws (Err ''No active transport attempt can accept no-frame evidence.'')
         else if te_state v = Some NotSent then returns Recorded
         else Inr (Reporting d v))"

definition writeReceipt :: "ledger_env \<Rightarrow> delivery \<Rightarrow> receipt option \<Rightarrow> ledger \<Rightarrow> ledger_outcome" where
  "writeReceipt env d rc l = (case validateEndpointReceipt d rc of
     Inl e \<Rightarrow> throws e
   | Inr _ \<Rightarrow> (case read_evidence env d l of
       Inl e \<Rightarrow> throws e
     | Inr None \<Rightarrow> throws (Err ''Transport attempt was not reserved.'')
     | Inr (Some v) \<Rightarrow> if te_receipt v \<noteq> None then returns Recorded else Inr (Receiving d v rc)))"

text \<open>The first reservation of a delivery, the next attempt, which consumes the proof of the one before, and
  the evidence of a report.\<close>

definition reserved_evidence :: "ledger_env \<Rightarrow> delivery \<Rightarrow> evidence" where
  "reserved_evidence env d = \<lparr>te_deliveryId = dl_deliveryId d, te_generation = dl_generation d,
     te_promptHash = dl_promptHash d, te_executionOptionsHash = dl_executionOptionsHash d,
     te_executionOptions = (if dl_executionOptions d = JUndef then None else Some (dl_executionOptions d)),
     te_target = dl_target d, te_receipt = None, te_attemptId = Some (le_uuid env), te_attemptSequence = Some 1,
     te_state = Some InAttempt, te_dispatchAttemptId = dl_dispatchAttemptId d,
     te_noFrameProof = None, te_lastNoFrameProof = None\<rparr>"

definition renewed_evidence :: "ledger_env \<Rightarrow> delivery \<Rightarrow> evidence \<Rightarrow> evidence" where
  "renewed_evidence env d v = v\<lparr>te_noFrameProof := None, te_state := Some InAttempt, te_attemptId := Some (le_uuid env),
     te_dispatchAttemptId := dl_dispatchAttemptId d,
     te_attemptSequence := Some ((case te_attemptSequence v of None \<Rightarrow> 1 | Some n \<Rightarrow> n) + 1),
     te_lastNoFrameProof := te_noFrameProof v\<rparr>"

definition unsent_evidence :: "ledger_env \<Rightarrow> evidence \<Rightarrow> evidence" where
  "unsent_evidence env v = v\<lparr>te_state := Some NotSent,
     te_noFrameProof := Some (''no-prompt-frame'', case te_attemptId v of None \<Rightarrow> [] | Some a \<Rightarrow> a, Iso (le_now env))\<rparr>"

text \<open>
  One write, whatever other processes have written since the file was read: an existing reservation is respected, a
  replacement is unconditional, and so is the renaming of a receipt. A write that fails midway may have
  done its work or not; a temporary file that is not renamed is never removed.
\<close>

definition reserve_attempt :: "ledger_env \<Rightarrow> delivery \<Rightarrow> ledger \<Rightarrow> ledger_outcome \<times> ledger" where
  "reserve_attempt env d l =
    (if map_of (lg_files l) (file_key env d) \<noteq> None
     then (case read_evidence env d l of Inl e \<Rightarrow> (throws e, l) | Inr _ \<Rightarrow> (returns (Began False), l))
     else if le_write env = NotWritten then (throws WriteErr, l)
     else (Inr (Filling d), put_file (file_key env d) Damaged l))"

definition replace_file :: "ledger_env \<Rightarrow> delivery \<Rightarrow> evidence \<Rightarrow> ledger_answer \<Rightarrow> ledger \<Rightarrow> ledger_outcome \<times> ledger" where
  "replace_file env d v a l = (case le_write env of
     Written \<Rightarrow> (returns a, put_file (file_key env d) (Evidence v) l)
   | NotWritten \<Rightarrow> (throws WriteErr, l)
   | Interrupted \<Rightarrow> (throws WriteErr, put_file (file_key env d) (Evidence v) l))"

definition open_temporary :: "ledger_env \<Rightarrow> delivery \<Rightarrow> evidence \<Rightarrow> receipt option \<Rightarrow> ledger \<Rightarrow> ledger_outcome \<times> ledger" where
  "open_temporary env d v rc l =
    (if file_key env d \<in> set (lg_temporary l) then (throws (CodedErr ''EEXIST'' ''file already exists''), l)
     else (case le_write env of
         Written \<Rightarrow> (Inr (Renaming d v rc), l\<lparr>lg_temporary := file_key env d # lg_temporary l\<rparr>)
       | NotWritten \<Rightarrow> (throws WriteErr, l)
       | Interrupted \<Rightarrow> (throws WriteErr, l\<lparr>lg_temporary := file_key env d # lg_temporary l\<rparr>)))"

definition rename_temporary :: "ledger_env \<Rightarrow> delivery \<Rightarrow> evidence \<Rightarrow> receipt option \<Rightarrow> ledger \<Rightarrow> ledger_outcome \<times> ledger" where
  "rename_temporary env d v rc l = (case le_write env of
     Written \<Rightarrow> (returns Recorded, (put_file (file_key env d) (Evidence (v\<lparr>te_receipt := rc\<rparr>)) l)
       \<lparr>lg_temporary := removeAll (file_key env d) (lg_temporary l)\<rparr>)
   | _ \<Rightarrow> (throws WriteErr, l))"

fun go_on :: "ledger_env \<Rightarrow> ledger_write \<Rightarrow> ledger \<Rightarrow> ledger_outcome \<times> ledger" where
  "go_on env (Reserving d) l = reserve_attempt env d l"
| "go_on env (Filling d) l = replace_file env d (reserved_evidence env d) (Began True) l"
| "go_on env (Renewing d v) l = replace_file env d (renewed_evidence env d v) (Began True) l"
| "go_on env (Reporting d v) l = replace_file env d (unsent_evidence env v) Recorded l"
| "go_on env (Receiving d v rc) l = open_temporary env d v rc l"
| "go_on env (Renaming d v rc) l = rename_temporary env d v rc l"

section \<open>Several processes\<close>

text \<open>The methods that write, and what the transport learns: it may send, or its report that nothing was sent is
  recorded.\<close>

datatype ledger_call = BeginCall delivery | ReportCall delivery bool | ReceiptCall delivery "receipt option"

fun call_ledger :: "ledger_env \<Rightarrow> ledger_call \<Rightarrow> ledger \<Rightarrow> ledger_outcome" where
  "call_ledger env (BeginCall d) l = beginAttempt env d l"
| "call_ledger env (ReportCall d trusted) l = writeNotSent env d trusted l"
| "call_ledger env (ReceiptCall d rc) l = writeReceipt env d rc l"

fun write_of :: "ledger_write \<Rightarrow> delivery" where
  "write_of (Reserving d) = d"
| "write_of (Filling d) = d"
| "write_of (Renewing d v) = d"
| "write_of (Reporting d v) = d"
| "write_of (Receiving d v rc) = d"
| "write_of (Renaming d v rc) = d"

datatype ledger_event = Granted string | Unsent string

text \<open>The file of a report that replaced it counts as recorded even when the method throws.\<close>

fun event_of :: "ledger_env \<Rightarrow> ledger_write \<Rightarrow> ledger_outcome \<Rightarrow> ledger_event list" where
  "event_of env (Reporting d v) r = (if le_write env = NotWritten then [] else [Unsent (file_key env d)])"
| "event_of env x r = (if r = returns (Began True) then [Granted (file_key env (write_of x))] else [])"

record ledger_world =
  lw_ledger :: ledger
  lw_writes :: "(nat \<times> ledger_write) list"

text \<open>
  Any number of processes over one directory, whose digests have the keys \<open>hash\<close>: each calls a method, goes on with its
  write, or dies. The calls on the files of \<open>K\<close> do not overlap: there a call starts only while no
  other process has a write pending; with one process this holds for every file.
\<close>

definition pending_at :: "(string \<Rightarrow> string) \<Rightarrow> ledger_world \<Rightarrow> string \<Rightarrow> ledger_write list" where
  "pending_at hash w k = filter (\<lambda>x. hash (dl_deliveryId (write_of x)) = k) (map snd (lw_writes w))"

inductive ledger_step :: "(string \<Rightarrow> string) \<Rightarrow> string set \<Rightarrow> ledger_world \<Rightarrow> ledger_event list \<Rightarrow> ledger_world \<Rightarrow> bool" for hash K w where
  asks: "map_of (lw_writes w) p = None \<Longrightarrow> le_hash env = hash \<Longrightarrow> call_ledger env c (lw_ledger w) = Inr x
    \<Longrightarrow> (\<And>k. k = hash (dl_deliveryId (write_of x)) \<Longrightarrow> k \<in> K \<Longrightarrow> pending_at hash w k = [])
    \<Longrightarrow> ledger_step hash K w [] (w\<lparr>lw_writes := (p, x) # lw_writes w\<rparr>)"
| answered: "map_of (lw_writes w) p = None \<Longrightarrow> le_hash env = hash \<Longrightarrow> call_ledger env c (lw_ledger w) = Inl r
    \<Longrightarrow> ledger_step hash K w [] w"
| writes: "lw_writes w = xs @ (p, x) # ys \<Longrightarrow> le_hash env = hash \<Longrightarrow> go_on env x (lw_ledger w) = (r, l)
    \<Longrightarrow> ledger_step hash K w (event_of env x r)
      (w\<lparr>lw_ledger := l, lw_writes := xs @ (case r of Inl a \<Rightarrow> [] | Inr y \<Rightarrow> [(p, y)]) @ ys\<rparr>)"
| dies: "lw_writes w = xs @ (p, x) # ys \<Longrightarrow> ledger_step hash K w [] (w\<lparr>lw_writes := xs @ ys\<rparr>)"

inductive ledger_run :: "(string \<Rightarrow> string) \<Rightarrow> string set \<Rightarrow> ledger_world \<Rightarrow> ledger_event list \<Rightarrow> ledger_world \<Rightarrow> bool" for hash K where
  refl: "ledger_run hash K w [] w"
| step: "ledger_run hash K w es w' \<Longrightarrow> ledger_step hash K w' fs w'' \<Longrightarrow> ledger_run hash K w (es @ fs) w''"

abbreviation file_at :: "ledger \<Rightarrow> string \<Rightarrow> stored_file option" where
  "file_at l k \<equiv> map_of (lg_files l) k"

text \<open>Whether the file of a delivery would let another attempt begin, whether it says that nothing was sent, and
  its receipt.\<close>

definition may_begin :: "ledger \<Rightarrow> string \<Rightarrow> bool" where
  "may_begin l k = (case file_at l k of
     None \<Rightarrow> True
   | Some (Evidence v) \<Rightarrow> te_receipt v = None \<and> te_state v = Some NotSent
   | Some Damaged \<Rightarrow> False)"


definition receipt_at :: "ledger \<Rightarrow> string \<Rightarrow> receipt option" where
  "receipt_at l k = (case file_at l k of Some (Evidence v) \<Rightarrow> te_receipt v | _ \<Rightarrow> None)"

definition begins :: "string \<Rightarrow> ledger_event list \<Rightarrow> nat" where
  "begins k es = length (filter (\<lambda>e. e = Granted k) es)"

definition unsents :: "string \<Rightarrow> ledger_event list \<Rightarrow> nat" where
  "unsents k es = length (filter (\<lambda>e. e = Unsent k) es)"

lemma event_counts [simp]:
  "begins k [] = 0" "unsents k [] = 0"
  "begins k (es @ fs) = begins k es + begins k fs" "unsents k (es @ fs) = unsents k es + unsents k fs"
  "begins k [Granted j] = (if j = k then 1 else 0)" "unsents k [Granted j] = 0"
  "unsents k [Unsent j] = (if j = k then 1 else 0)" "begins k [Unsent j] = 0"
  by (simp_all add: begins_def unsents_def)

lemma put_file_sel [simp]:
  "file_at (put_file j f l) k = (if k = j then Some f else file_at l k)"
  "lg_temporary (put_file j f l) = lg_temporary l"
  by (simp_all add: put_file_def update_conv')

lemma read_evidence_file:
  "read_evidence env d l = Inr (Some v) \<Longrightarrow> file_at l (file_key env d) = Some (Evidence v)"
  "read_evidence env d l = Inr None \<Longrightarrow> file_at l (file_key env d) = None"
  by (auto simp: read_evidence_def split: option.splits stored_file.splits)

section \<open>One write\<close>

fun fills_file :: "ledger_write \<Rightarrow> bool" where
  "fills_file (Filling d) = True"
| "fills_file x = False"

text \<open>The evidence a pending write has read, which has no receipt, and whether the file is still what it was then.\<close>

fun read_before :: "ledger_write \<Rightarrow> evidence option" where
  "read_before (Renewing d v) = Some v"
| "read_before (Reporting d v) = Some v"
| "read_before (Receiving d v rc) = Some v"
| "read_before (Renaming d v rc) = Some v"
| "read_before x = None"

fun sound_write :: "ledger_write \<Rightarrow> bool" where
  "sound_write (Renewing d v) \<longleftrightarrow> te_receipt v = None \<and> te_state v = Some NotSent"
| "sound_write (Reporting d v) \<longleftrightarrow> te_receipt v = None \<and> te_state v \<noteq> Some NotSent"
| "sound_write (Receiving d v rc) \<longleftrightarrow> te_receipt v = None"
| "sound_write (Renaming d v rc) \<longleftrightarrow> te_receipt v = None"
| "sound_write x \<longleftrightarrow> True"

definition current :: "ledger_write \<Rightarrow> stored_file option \<Rightarrow> bool" where
  "current x f \<longleftrightarrow> sound_write x \<and> f = (if fills_file x then Some Damaged else map_option Evidence (read_before x))"

lemma asked_current:
  assumes "call_ledger env c l = Inr x"
  shows "current x (file_at l (file_key env (write_of x)))" "\<not> fills_file x" "receipt_at l (file_key env (write_of x)) = None"
  using assms read_evidence_file [of env _ l]
  by (cases c; auto simp: current_def receipt_at_def beginAttempt_def writeNotSent_def writeReceipt_def
      split: sum.splits option.splits if_splits)+

lemma go_on_other:
  assumes "go_on env x l = (r, l')" "k \<noteq> file_key env (write_of x)"
  shows "file_at l' k = file_at l k" "k \<in> set (lg_temporary l') \<longleftrightarrow> k \<in> set (lg_temporary l)"
  using assms
  by (cases x; auto simp: reserve_attempt_def replace_file_def open_temporary_def rename_temporary_def
      split: file_write.splits if_splits sum.splits)+

lemma go_on_goes_on:
  assumes "go_on env x l = (Inr y, l')"
  shows "write_of y = write_of x" "sound_write x \<Longrightarrow> sound_write y" "current x (file_at l (file_key env (write_of x))) \<Longrightarrow> current y (file_at l' (file_key env (write_of x)))"
    "read_before y = read_before x"
  using assms
  by (cases x; auto simp: current_def reserve_attempt_def replace_file_def open_temporary_def rename_temporary_def
      split: file_write.splits if_splits sum.splits)+

text \<open>The event of a write is one of its own file.\<close>

lemma event_of_other: "k \<noteq> file_key env (write_of x) \<Longrightarrow> begins k (event_of env x r) = 0 \<and> unsents k (event_of env x r) = 0"
  by (cases x) auto




section \<open>Files whose calls do not overlap\<close>

abbreviation write_key :: "(string \<Rightarrow> string) \<Rightarrow> ledger_write \<Rightarrow> string" where
  "write_key hash x \<equiv> hash (dl_deliveryId (write_of x))"

lemma pending_at_split:
  "lw_writes w = xs @ (p, x) # ys \<Longrightarrow> pending_at hash w k = filter (\<lambda>x. write_key hash x = k) (map snd xs)
    @ (if write_key hash x = k then [x] else []) @ filter (\<lambda>x. write_key hash x = k) (map snd ys)"
  by (simp add: pending_at_def)

definition alone :: "(string \<Rightarrow> string) \<Rightarrow> string set \<Rightarrow> ledger_world \<Rightarrow> bool" where
  "alone hash K w \<longleftrightarrow> (\<forall>k\<in>K. pending_at hash w k = [] \<or> (\<exists>x. pending_at hash w k = [x] \<and> current x (file_at (lw_ledger w) k)))"

definition spare_attempts :: "(string \<Rightarrow> string) \<Rightarrow> ledger_world \<Rightarrow> string \<Rightarrow> nat" where
  "spare_attempts hash w k = of_bool (may_begin (lw_ledger w) k) + length (filter fills_file (pending_at hash w k))"


lemma write_elsewhere:
  assumes "go_on env x l = (r, l')" "le_hash env = hash" "k \<noteq> write_key hash x" "lw_writes w = xs @ (p, x) # ys"
    and w': "w' = w\<lparr>lw_ledger := l', lw_writes := xs @ (case r of Inl a \<Rightarrow> [] | Inr y \<Rightarrow> [(p, y)]) @ ys\<rparr>"
  shows "file_at l' k = file_at l k" "pending_at hash w' k = pending_at hash w k"
    "begins k (event_of env x r) = 0" "unsents k (event_of env x r) = 0"
proof -
  have key: "k \<noteq> file_key env (write_of x)" using assms(2,3) by (simp add: file_key_def)
  from go_on_other [OF assms(1) key] show "file_at l' k = file_at l k" by blast
  show "pending_at hash w' k = pending_at hash w k"
    using assms(3,4) go_on_goes_on(1) [of env x l _ l'] assms(1) by (auto simp: pending_at_def w' split: sum.split)
  show "begins k (event_of env x r) = 0" "unsents k (event_of env x r) = 0" using event_of_other [OF key] by blast+
qed





section \<open>Overlapping calls\<close>








section \<open>Attempts\<close>

definition quiet_ledger :: "ledger \<Rightarrow> ledger_world" where
  "quiet_ledger l = \<lparr>lw_ledger = l, lw_writes = []\<rparr>"

lemma quiet_ledger_sel [simp]: "lw_ledger (quiet_ledger l) = l" "pending_at hash (quiet_ledger l) k = []"
  "alone hash K (quiet_ledger l)" "spare_attempts hash (quiet_ledger l) k = of_bool (may_begin l k)"
  by (simp_all add: quiet_ledger_def pending_at_def alone_def spare_attempts_def)


text \<open>On a file whose calls overlap the proof can be consumed twice: two processes that have read it before either
  replaces it both begin.\<close>

lemma stepped: "ledger_step hash K w es w' \<Longrightarrow> w' = v \<Longrightarrow> ledger_step hash K w es v"
  by simp

theorem overlapping_calls_consume_a_proof_twice:
  assumes "beginAttempt env d1 l = Inr (Renewing d1 v)" "beginAttempt env d2 l = Inr (Renewing d2 v)"
    and "le_write env = Written" "file_key env d1 = k" "file_key env d2 = k"
  shows "\<exists>es w. ledger_run (le_hash env) {} (quiet_ledger l) es w \<and> begins k es = 2 \<and> unsents k es = 0"
proof -
  let ?h = "le_hash env"
  define w1 where "w1 = \<lparr>lw_ledger = l, lw_writes = [(1::nat, Renewing d1 v)]\<rparr>"
  define w2 where "w2 = \<lparr>lw_ledger = l, lw_writes = [(2, Renewing d2 v), (1::nat, Renewing d1 v)]\<rparr>"
  define l1 where "l1 = put_file k (Evidence (renewed_evidence env d1 v)) l"
  define w3 where "w3 = \<lparr>lw_ledger = l1, lw_writes = [(2::nat, Renewing d2 v)]\<rparr>"
  define w4 where "w4 = \<lparr>lw_ledger = put_file k (Evidence (renewed_evidence env d2 v)) l1, lw_writes = []\<rparr>"
  have s1: "ledger_step ?h {} (quiet_ledger l) [] w1"
    using ledger_step.asks [of "quiet_ledger l" 1 env ?h "BeginCall d1" "Renewing d1 v" "{}"] assms(1)
    by (simp add: w1_def quiet_ledger_def)
  have s2: "ledger_step ?h {} w1 [] w2"
    using ledger_step.asks [of w1 2 env ?h "BeginCall d2" "Renewing d2 v" "{}"] assms(2)
    by (simp add: w1_def w2_def)
  have s3: "ledger_step ?h {} w2 [Granted k] w3"
    using ledger_step.writes [of w2 "[(2, Renewing d2 v)]" 1 "Renewing d1 v" "[]" env ?h "returns (Began True)" l1 "{}"] assms(3,4)
    by (simp add: w2_def w3_def l1_def replace_file_def)
  have s4: "ledger_step ?h {} w3 [Granted k] w4"
    using ledger_step.writes [of w3 "[]" 2 "Renewing d2 v" "[]" env ?h "returns (Began True)" "lw_ledger w4" "{}"] assms(3,5)
    by (simp add: w3_def w4_def replace_file_def)
  note run = ledger_run.step [OF ledger_run.step [OF ledger_run.step [OF ledger_run.step [OF ledger_run.refl s1] s2] s3] s4]
  then show ?thesis by (intro exI conjI, assumption) (simp_all add: begins_def unsents_def)
qed

text \<open>A receipt whose write was interrupted is lost for good: the temporary file it leaves is opened
exclusively by every later write, so each of them throws, and the delivery keeps its unknown attempt.\<close>

definition no_renaming :: "(string \<Rightarrow> string) \<Rightarrow> string \<Rightarrow> ledger_world \<Rightarrow> bool" where
  "no_renaming hash k w \<longleftrightarrow> k \<in> set (lg_temporary (lw_ledger w)) \<and> receipt_at (lw_ledger w) k = None
     \<and> (\<forall>x\<in>set (pending_at hash w k). sound_write x \<and> (\<forall>d v rc. x \<noteq> Renaming d v rc))"

lemma go_on_blocked:
  assumes "go_on env x l = (r, l')" "k = file_key env (write_of x)" "k \<in> set (lg_temporary l)" "receipt_at l k = None" "sound_write x"
    and "\<forall>d v rc. x \<noteq> Renaming d v rc"
  shows "k \<in> set (lg_temporary l') \<and> receipt_at l' k = None \<and> (\<forall>y. r = Inr y \<longrightarrow> (\<forall>d v rc. y \<noteq> Renaming d v rc))"
  using assms
  by (cases x; auto simp: receipt_at_def reserve_attempt_def replace_file_def open_temporary_def
      reserved_evidence_def renewed_evidence_def unsent_evidence_def split: file_write.splits if_splits sum.splits)

lemma no_renaming_step:
  assumes "ledger_step hash K w es w'" "no_renaming hash k w"
  shows "no_renaming hash k w'"
  using assms(1)
proof (cases rule: ledger_step.cases)
  case (asks p env c x)
  have "\<forall>d v rc. x \<noteq> Renaming d v rc"
    using asks(5) by (cases c) (auto simp: beginAttempt_def writeNotSent_def writeReceipt_def split: sum.splits option.splits if_splits)
  with asked_current(1) [OF asks(5)] assms(2) show ?thesis by (auto simp: no_renaming_def pending_at_def asks(2) current_def)
next
  case (writes xs p x ys env r l)
  show ?thesis
  proof (cases "write_key hash x = k")
    case True
    then have key: "k = file_key env (write_of x)" using writes(4) by (simp add: file_key_def)
    have x: "x \<in> set (pending_at hash w k)" unfolding pending_at_split [OF writes(3)] using True by simp
    with assms(2) have ok: "k \<in> set (lg_temporary (lw_ledger w))" "receipt_at (lw_ledger w) k = None" "sound_write x" "\<forall>d v rc. x \<noteq> Renaming d v rc"
      by (simp_all add: no_renaming_def)
    note g = go_on_blocked [OF writes(5) key ok]
    have "sound_write y" if "r = Inr y" for y using go_on_goes_on(2) [of env x _ y l] writes(5) that ok(3) by blast
    moreover have "set (pending_at hash w' k) \<subseteq> set (pending_at hash w k) \<union> {y. r = Inr y}"
      by (auto simp: pending_at_def writes(2,3) split: sum.splits)
    moreover have "lw_ledger w' = l" by (simp add: writes(2))
    ultimately show ?thesis using g assms(2) unfolding no_renaming_def by blast
  next
    case False
    then have k: "k \<noteq> write_key hash x" "k \<noteq> file_key env (write_of x)" using writes(4) by (auto simp: file_key_def)
    from write_elsewhere [OF writes(5,4) k(1) writes(3,2)] go_on_other [OF writes(5) k(2)] assms(2) show ?thesis
      by (simp add: no_renaming_def receipt_at_def writes(2))
  qed
next
  case (dies xs p x ys)
  with assms(2) show ?thesis by (auto simp: no_renaming_def pending_at_def split: if_splits)
qed (use assms(2) in simp)

lemma no_renaming_run: "ledger_run hash K w es w' \<Longrightarrow> no_renaming hash k w \<Longrightarrow> no_renaming hash k w'"
  by (induction rule: ledger_run.induct) (auto intro: no_renaming_step)

theorem interrupted_receipt_is_lost:
  assumes lost: "go_on env (Receiving d v rc) l = (throws e, l1)" "l1 \<noteq> l" and none: "receipt_at l (file_key env d) = None"
    and run: "ledger_run (le_hash env) K (quiet_ledger l1) es w" and hash: "le_hash env' = le_hash env"
  shows "receipt_at (lw_ledger w) (file_key env d) = None
    \<and> (\<exists>e'. fst (go_on env' (Receiving d v' rc') (lw_ledger w)) = throws e')"
proof -
  let ?k = "file_key env d"
  have "?k \<in> set (lg_temporary l1) \<and> lg_files l1 = lg_files l"
    using lost by (auto simp: open_temporary_def split: file_write.splits if_splits)
  with none have "no_renaming (le_hash env) ?k (quiet_ledger l1)" by (simp add: no_renaming_def receipt_at_def)
  from no_renaming_run [OF run this] have "?k \<in> set (lg_temporary (lw_ledger w))" "receipt_at (lw_ledger w) ?k = None"
    by (simp_all add: no_renaming_def)
  moreover have "file_key env' d = ?k" using hash by (simp add: file_key_def)
  ultimately show ?thesis by (simp add: open_temporary_def)
qed

section \<open>Samples\<close>

definition sample_ledger_env :: "file_write \<Rightarrow> ledger_env" where
  "sample_ledger_env w = \<lparr>le_hash = id, le_date = (\<lambda>_. None), le_now = 0,
     le_uuid = ''00000000-0000-4000-8000-000000000000'', le_write = w\<rparr>"

definition attempt_of :: "string \<Rightarrow> delivery" where
  "attempt_of a = sample_delivery\<lparr>dl_dispatchAttemptId := Some a\<rparr>"

definition empty_ledger :: ledger where
  "empty_ledger = \<lparr>lg_files = [], lg_temporary = []\<rparr>"

text \<open>A call that runs to its end without other processes: the method, and its writes, of which there are at most two.\<close>

definition one_write :: "ledger_env \<Rightarrow> ledger_outcome \<times> ledger_event list \<times> ledger \<Rightarrow> ledger_outcome \<times> ledger_event list \<times> ledger" where
  "one_write env y = (case y of (r, es, l) \<Rightarrow> (case r of
     Inl a \<Rightarrow> y
   | Inr x \<Rightarrow> (case go_on env x l of (s, l') \<Rightarrow> (s, es @ event_of env x s, l'))))"

definition whole_call :: "ledger_env \<Rightarrow> ledger_call \<Rightarrow> ledger \<Rightarrow> ledger_outcome \<times> ledger_event list \<times> ledger" where
  "whole_call env c l = one_write env (one_write env (call_ledger env c l, [], l))"





definition first_attempt :: ledger where
  "first_attempt = snd (snd (whole_call (sample_ledger_env Written) (BeginCall (attempt_of ''a1'')) empty_ledger))"

definition unsent_attempt :: ledger where
  "unsent_attempt = snd (snd (whole_call (sample_ledger_env Written) (ReportCall (attempt_of ''a1'') True) first_attempt))"





lemma overlapping_calls_consume_a_proof_twice_witness:
  "\<exists>es w. ledger_run id {} (quiet_ledger unsent_attempt) es w \<and> begins ''du'' es = 2 \<and> unsents ''du'' es = 0"
proof -
  define v where "v = (case file_at unsent_attempt ''du'' of Some (Evidence x) \<Rightarrow> x)"
  have asks: "beginAttempt (sample_ledger_env Written) (attempt_of ''a2'') unsent_attempt = Inr (Renewing (attempt_of ''a2'') v)"
    "beginAttempt (sample_ledger_env Written) (attempt_of ''a3'') unsent_attempt = Inr (Renewing (attempt_of ''a3'') v)"
    unfolding v_def by code_simp+
  have k: "file_key (sample_ledger_env Written) (attempt_of a) = ''du''" "le_hash (sample_ledger_env Written) = id"
      "le_write (sample_ledger_env Written) = Written" for a
    by (simp_all add: file_key_def sample_ledger_env_def attempt_of_def sample_delivery_def)
  from overlapping_calls_consume_a_proof_twice [OF asks k(3) k(1) k(1)] show ?thesis by (simp add: k)
qed

definition interrupted_ledger :: ledger where
  "interrupted_ledger = first_attempt\<lparr>lg_temporary := [''du'']\<rparr>"

lemma interrupted_receipt_is_lost_witness:
  "\<exists>e. fst (go_on (sample_ledger_env Written) (Receiving (attempt_of ''a1'') v (Some sample_receipt)) interrupted_ledger) = throws e"
proof -
  have t: "lg_temporary first_attempt = []" "receipt_at first_attempt ''du'' = None" by code_simp+
  have k: "file_key (sample_ledger_env w) (attempt_of a) = ''du''" "le_hash (sample_ledger_env w) = id" for a w
    by (simp_all add: file_key_def sample_ledger_env_def attempt_of_def sample_delivery_def)
  have lost: "go_on (sample_ledger_env Interrupted) (Receiving (attempt_of ''a1'') v (Some sample_receipt)) first_attempt = (throws WriteErr, interrupted_ledger)"
    using t k by (simp add: open_temporary_def interrupted_ledger_def) (simp add: sample_ledger_env_def)
  have ne: "interrupted_ledger \<noteq> first_attempt" using t(1) by (metis interrupted_ledger_def ledger.select_convs(2) ledger.update_convs(2) ledger.surjective list.distinct(1))
  from interrupted_receipt_is_lost [OF lost ne _ ledger_run.refl, of "sample_ledger_env Written" v "Some sample_receipt"] t(2) k show ?thesis by simp
qed

end
