(* ===== verification/DurableReceipts.thy ===== *)
theory DurableReceipts
  imports EndpointDispatch "HOL-Library.Char_ord" "HOL-Library.List_Lexorder"
begin

text \<open>
  The receipts of durable deliveries (\<open>src/src/manager/durableDeliveryIdempotency.ts\<close>): what
  identifies a delivery and its payload, the receipt file of a delivery, who owns it, and the
  sections that read and replace it under its mutation lock.

  A receipt file is \<open>Parsed\<close>, with the fields the code reads, or \<open>Garbled\<close>, when its text is not the
  JSON text of an object. A stamp is its value in milliseconds. The file lock makes a section one step; a lock
  that is not obtained in time is an error of the step. SHA-256 is a parameter.
\<close>

section \<open>Payloads\<close>

text \<open>\<open>stableJson\<close>: the JSON text with the keys of every object in the order of \<open>sort()\<close>.\<close>

fun stableJson :: "jval \<Rightarrow> string" where
  "stableJson (JArr vs) = CHR ''['' # json_items (CHR '']'') (map stableJson vs)"
| "stableJson (JObj fs) = CHR ''{'' # json_items (CHR ''}'')
     (map (\<lambda>(k, t). json_quote k @ CHR '':'' # t) (sort_key fst (map (\<lambda>(k, v). (k, stableJson v)) fs)))"
| "stableJson v = stringify v"

definition requestDigest :: "(string \<Rightarrow> string) \<Rightarrow> jval \<Rightarrow> string" where
  "requestDigest sha payload = sha (stableJson payload)"

text \<open>
  The reference: two payloads are the same when they differ in nothing but the order of keys and in
  \<open>undefined\<close> and \<open>NaN\<close>, which JSON writes as \<open>null\<close>.
\<close>

fun null_like :: "jval \<Rightarrow> bool" where
  "null_like JUndef = True"
| "null_like JNull = True"
| "null_like (JNum t) = (t = ''NaN'')"
| "null_like _ = False"

fun same_payload :: "jval \<Rightarrow> jval \<Rightarrow> bool" where
  "same_payload (JArr vs) (JArr ws) = list_all2 same_payload vs ws"
| "same_payload (JObj fs) (JObj gs) = (set (map fst fs) = set (map fst gs)
     \<and> (\<forall>(k, v) \<in> set fs. \<forall>(j, w) \<in> set gs. k = j \<longrightarrow> same_payload v w))"
| "same_payload v w = (v = w \<or> null_like v \<and> null_like w)"

text \<open>What a payload is: the keys of an object are distinct and numbers have their canonical text.\<close>

fun json_value :: "jval \<Rightarrow> bool" where
  "json_value (JNum t) = (t = ''NaN'' \<or> num_text t)"
| "json_value (JArr vs) = list_all json_value vs"
| "json_value (JObj fs) = (distinct (map fst fs) \<and> list_all (\<lambda>(k, v). json_value v) fs)"
| "json_value v = True"

text \<open>A value after it has been written and read: \<open>JSON.parse(JSON.stringify(v))\<close>.\<close>

fun json_reload :: "jval \<Rightarrow> jval" where
  "json_reload (JNum t) = (if t = ''NaN'' then JNull else JNum t)"
| "json_reload (JArr vs) = JArr (map (\<lambda>v. if v = JUndef then JNull else json_reload v) vs)"
| "json_reload (JObj fs) = JObj (map (\<lambda>(k, v). (k, json_reload v)) (filter (\<lambda>(k, v). v \<noteq> JUndef) fs))"
| "json_reload v = v"

section \<open>Identifiers\<close>

definition id_char :: "char \<Rightarrow> bool" where
  "id_char c \<longleftrightarrow> is_alpha c \<or> is_digit c \<or> c \<in> set ''._:-''"

definition normalizeDurableDeliveryId :: "jval \<Rightarrow> string result" where
  "normalizeDurableDeliveryId v = (let deliveryId = js_trim (if js_truthy v then js_String v else []) in
     if deliveryId = [] then Inl (Err ''Missing deliveryId.'')
     else if 200 < length deliveryId \<or> \<not> list_all id_char deliveryId then Inl (Err ''Invalid deliveryId.'')
     else Inr deliveryId)"

definition namespace_char :: "char \<Rightarrow> bool" where
  "namespace_char c \<longleftrightarrow> is_alpha c \<and> 97 \<le> (of_char c :: nat) \<or> is_digit c \<or> c = CHR ''-''"

definition normalizedNamespace :: "string \<Rightarrow> string result" where
  "normalizedNamespace value = (let namespace = js_trim value in
     if namespace = [] \<or> \<not> list_all namespace_char namespace then Inl (Err ''Invalid durable delivery namespace.'')
     else Inr namespace)"

text \<open>The path of a receipt under the resolved root directory.\<close>

definition durableDeliveryReceiptPath :: "(string \<Rightarrow> string) \<Rightarrow> string \<Rightarrow> string \<Rightarrow> jval \<Rightarrow> string result" where
  "durableDeliveryReceiptPath sha root namespace deliveryId =
     bind (normalizeDurableDeliveryId deliveryId) (\<lambda>i.
     bind (normalizedNamespace namespace) (\<lambda>n. Inr (root @ ''/data/'' @ n @ ''/'' @ sha i @ ''.json'')))"

section \<open>Receipts and files\<close>

datatype receipt_status = Reserved | Sending | Completed | Uncertain | OtherStatus string

record durable_receipt =
  dr_version :: int
  dr_deliveryId :: string
  dr_requestDigest :: string
  dr_state :: receipt_status
  dr_createdAt :: int
  dr_updatedAt :: int
  dr_audit :: jval
  dr_result :: jval
  dr_error :: "string option"
  dr_executionId :: "string option"
  dr_ownerHost :: "string option"
  dr_ownerPid :: "int option"
  dr_leaseExpiresAt :: "int option"
  dr_leaseDurationMs :: "int option"
  dr_renewal :: "string option"

datatype contents = Parsed durable_receipt | Garbled

text \<open>A file: its contents, its times, and its inode, which \<open>rename\<close> replaces.\<close>

record durable_file =
  df_contents :: contents
  df_mtime :: int
  df_ctime :: int
  df_ino :: nat

type_synonym durable_files = "(string \<times> durable_file) list"

text \<open>
  What a step reads from outside: the clock; the check from which on the authority of the request is revoked, with the
  error it throws, if it is revoked during the step; the processes that \<open>kill(pid, 0)\<close> finds on the host of the caller; whether the
  mutation lock is obtained; how a write ends; and the inode of a new file.
\<close>

record durable_env =
  de_now :: int
  de_revoked :: "(nat \<times> js_error) option"
  de_alive :: "int \<Rightarrow> bool"
  de_host :: string
  de_pid :: int
  de_lock :: "js_error option"
  de_write :: file_write
  de_ino :: nat

definition requestAuthority :: "durable_env \<Rightarrow> nat \<Rightarrow> unit result" where
  "requestAuthority env i = (case de_revoked env of None \<Rightarrow> Inr ()
     | Some (k, e) \<Rightarrow> if k \<le> i then Inl e else Inr ())"

lemma requestAuthority_stays: "requestAuthority env i = Inl e \<Longrightarrow> i \<le> j \<Longrightarrow> requestAuthority env j = Inl e"
  by (auto simp: requestAuthority_def split: option.splits if_splits)

text \<open>\<open>new Date(t).toISOString()\<close> throws outside the range of dates.\<close>

definition date_limit :: int where
  "date_limit = 8640000000000000"

definition isoDate :: "int \<Rightarrow> int result" where
  "isoDate t = (if \<bar>t\<bar> \<le> date_limit then Inr t else Inl (CodedErr ''RangeError'' ''Invalid time value''))"

text \<open>
  \<open>parseReceiptRaw\<close>: the receipt of a text. The lease of a sending receipt that is renewed by touching the
  file counts from the time of its last change.
\<close>

definition parseReceiptRaw :: "contents \<Rightarrow> int \<Rightarrow> durable_receipt option" where
  "parseReceiptRaw raw mtime = (case raw of Garbled \<Rightarrow> None
     | Parsed p \<Rightarrow>
         if dr_version p \<noteq> 1 \<or> dr_deliveryId p = [] \<or> dr_requestDigest p = []
           \<or> dr_state p \<notin> {Reserved, Sending, Completed, Uncertain} then None
         else if dr_state p = Sending \<and> dr_renewal p = Some ''mtime'' then
           (case dr_leaseDurationMs p of None \<Rightarrow> Some p
            | Some ms \<Rightarrow> if ms \<le> 0 then Some p
                else (case isoDate (mtime + ms) of Inl _ \<Rightarrow> None | Inr t \<Rightarrow> Some (p\<lparr>dr_leaseExpiresAt := Some t\<rparr>)))
         else Some p)"

definition parseReceipt :: "string \<Rightarrow> durable_files \<Rightarrow> durable_receipt option" where
  "parseReceipt path fs = (case map_of fs path of None \<Rightarrow> None
     | Some f \<Rightarrow> parseReceiptRaw (df_contents f) (df_mtime f))"

text \<open>The receipt at a path, when it belongs to the delivery: \<open>readDurableDeliveryReceipt\<close> after its
identifier has been normalised.\<close>

definition read_receipt :: "string \<Rightarrow> string \<Rightarrow> durable_files \<Rightarrow> durable_receipt option" where
  "read_receipt path i fs = (case parseReceipt path fs of None \<Rightarrow> None
     | Some r \<Rightarrow> if dr_deliveryId r = i then Some r else None)"

definition readDurableDeliveryReceipt ::
    "(string \<Rightarrow> string) \<Rightarrow> string \<Rightarrow> string \<Rightarrow> jval \<Rightarrow> durable_files \<Rightarrow> durable_receipt option result" where
  "readDurableDeliveryReceipt sha root namespace deliveryId fs =
     bind (normalizeDurableDeliveryId deliveryId) (\<lambda>i.
     bind (durableDeliveryReceiptPath sha root namespace (JStr i)) (\<lambda>path. Inr (read_receipt path i fs)))"

text \<open>The text on disk: JSON drops \<open>undefined\<close> and the file has a new inode.\<close>

definition persisted :: "durable_receipt \<Rightarrow> durable_receipt" where
  "persisted r = r\<lparr>dr_audit := json_reload (dr_audit r), dr_result := json_reload (dr_result r)\<rparr>"

definition new_file :: "durable_env \<Rightarrow> contents \<Rightarrow> durable_file" where
  "new_file env c = \<lparr>df_contents = c, df_mtime = de_now env, df_ctime = de_now env, df_ino = de_ino env\<rparr>"

definition writeDurableReceipt ::
    "durable_env \<Rightarrow> string \<Rightarrow> durable_receipt \<Rightarrow> durable_files \<Rightarrow> durable_files \<times> durable_receipt result" where
  "writeDurableReceipt env path r fs =
     (let fs' = AList.update path (new_file env (Parsed (persisted r))) fs in
      case de_write env of Written \<Rightarrow> (fs', Inr r) | NotWritten \<Rightarrow> (fs, Inl WriteErr) | Interrupted \<Rightarrow> (fs', Inl WriteErr))"

section \<open>Owners\<close>

definition same_host :: "durable_env \<Rightarrow> durable_receipt \<Rightarrow> bool" where
  "same_host env r = (case dr_ownerHost r of None \<Rightarrow> False
     | Some h \<Rightarrow> h \<noteq> [] \<and> map js_lower h = map js_lower (de_host env))"

definition sameHostOwnerAlive :: "durable_env \<Rightarrow> durable_receipt \<Rightarrow> bool" where
  "sameHostOwnerAlive env r \<longleftrightarrow> same_host env r
     \<and> (case dr_ownerPid r of None \<Rightarrow> False | Some p \<Rightarrow> 0 < p \<and> de_alive env p)"

definition sameHostOwnerGone :: "durable_env \<Rightarrow> durable_receipt \<Rightarrow> bool" where
  "sameHostOwnerGone env r \<longleftrightarrow> same_host env r
     \<and> (case dr_ownerPid r of None \<Rightarrow> False | Some p \<Rightarrow> 0 < p) \<and> \<not> sameHostOwnerAlive env r"

definition receiptExecutionActive :: "durable_env \<Rightarrow> durable_receipt \<Rightarrow> bool" where
  "receiptExecutionActive env r =
     (if dr_state r \<noteq> Sending \<or> \<not> truthy (dr_executionId r) then False
      else if sameHostOwnerAlive env r then True
      else if sameHostOwnerGone env r then False
      else (case dr_leaseExpiresAt r of None \<Rightarrow> False | Some t \<Rightarrow> de_now env < t))"

section \<open>Reservation, claim and owned mutation\<close>

text \<open>The receipt of a new reservation; both dates are computed before the file is opened.\<close>

definition reservation ::
    "durable_env \<Rightarrow> string \<Rightarrow> string \<Rightarrow> string \<Rightarrow> int \<Rightarrow> jval \<Rightarrow> durable_receipt result" where
  "reservation env i digest executionId leaseMs audit =
     bind (isoDate (de_now env)) (\<lambda>now. bind (isoDate (de_now env + leaseMs)) (\<lambda>lease.
     Inr \<lparr>dr_version = 1, dr_deliveryId = i, dr_requestDigest = digest, dr_state = Sending,
          dr_createdAt = now, dr_updatedAt = now, dr_audit = audit, dr_result = JUndef, dr_error = None,
          dr_executionId = Some executionId, dr_ownerHost = Some (de_host env), dr_ownerPid = Some (de_pid env),
          dr_leaseExpiresAt = Some lease, dr_leaseDurationMs = Some leaseMs, dr_renewal = Some ''mtime''\<rparr>))"

text \<open>
  \<open>reserveReceipt\<close> up to \<open>open(path, "wx")\<close>, which creates an empty file or finds one; and the
  writing of the new file. An error other than \<open>EEXIST\<close> is thrown.
\<close>

definition openReservation :: "durable_env \<Rightarrow> string \<Rightarrow> durable_files \<Rightarrow> durable_files \<times> bool result" where
  "openReservation env path fs =
     (if map_of fs path \<noteq> None then (fs, Inr False)
      else if de_write env = NotWritten then (fs, Inl WriteErr)
      else (AList.update path (new_file env Garbled) fs, Inr True))"

definition fillReservation ::
    "durable_env \<Rightarrow> string \<Rightarrow> durable_receipt \<Rightarrow> durable_files \<Rightarrow> durable_files \<times> durable_receipt result" where
  "fillReservation env path r fs =
     (let fs' = (case map_of fs path of None \<Rightarrow> fs
        | Some f \<Rightarrow> AList.update path (f\<lparr>df_contents := Parsed (persisted r),
            df_mtime := de_now env, df_ctime := de_now env\<rparr>) fs) in
      case de_write env of Written \<Rightarrow> (fs', Inr r) | NotWritten \<Rightarrow> (fs, Inl WriteErr) | Interrupted \<Rightarrow> (fs', Inl WriteErr))"

definition claimReceipt ::
    "durable_env \<Rightarrow> string \<Rightarrow> string \<Rightarrow> string \<Rightarrow> string \<Rightarrow> int \<Rightarrow> bool \<Rightarrow> durable_files
      \<Rightarrow> durable_files \<times> (bool \<times> durable_receipt option) result" where
  "claimReceipt env path i digest executionId leaseMs allowUncertain fs =
     (case requestAuthority env 0 of Inl e \<Rightarrow> (fs, Inl e) | Inr _ \<Rightarrow>
      (case de_lock env of Some e \<Rightarrow> (fs, Inl e) | None \<Rightarrow>
       (let current = read_receipt path i fs in
        case requestAuthority env 1 of Inl e \<Rightarrow> (fs, Inl e) | Inr _ \<Rightarrow>
        (case current of None \<Rightarrow> (fs, Inr (False, None))
         | Some c \<Rightarrow>
             if dr_requestDigest c \<noteq> digest \<or> dr_state c = Completed
               \<or> dr_state c = Uncertain \<and> \<not> allowUncertain \<or> receiptExecutionActive env c
             then (fs, Inr (False, Some c))
             else (case bind (isoDate (de_now env)) (\<lambda>now. bind (isoDate (de_now env + leaseMs)) (\<lambda>lease.
                     Inr (c\<lparr>dr_state := Sending, dr_updatedAt := now, dr_error := None,
                       dr_executionId := Some executionId, dr_ownerHost := Some (de_host env),
                       dr_ownerPid := Some (de_pid env), dr_leaseExpiresAt := Some lease,
                       dr_leaseDurationMs := Some leaseMs, dr_renewal := Some ''mtime''\<rparr>))) of
                   Inl e \<Rightarrow> (fs, Inl e)
                 | Inr claimed \<Rightarrow> (case writeDurableReceipt env path claimed fs of
                     (fs', Inl e) \<Rightarrow> (fs', Inl e) | (fs', Inr r) \<Rightarrow> (fs', Inr (True, Some r))))))))"

text \<open>
  \<open>mutateOwnedReceipt\<close>: the owner of an execution replaces its receipt, or removes it when
  \<open>mutate\<close> gives nothing. Nothing is done, and nothing returned, when the receipt is not its own any more.
\<close>

definition mutateOwnedReceipt ::
    "durable_env \<Rightarrow> string \<Rightarrow> string \<Rightarrow> string \<Rightarrow> string \<Rightarrow> (durable_receipt \<Rightarrow> durable_receipt option) \<Rightarrow> durable_files
      \<Rightarrow> durable_files \<times> durable_receipt option result" where
  "mutateOwnedReceipt env path i digest executionId mutate fs =
     (case requestAuthority env 0 of Inl e \<Rightarrow> (fs, Inl e) | Inr _ \<Rightarrow>
      (case de_lock env of Some e \<Rightarrow> (fs, Inl e) | None \<Rightarrow>
       (let current = read_receipt path i fs in
        case requestAuthority env 1 of Inl e \<Rightarrow> (fs, Inl e) | Inr _ \<Rightarrow>
        (case current of None \<Rightarrow> (fs, Inr None)
         | Some c \<Rightarrow>
             if dr_requestDigest c \<noteq> digest \<or> dr_executionId c \<noteq> Some executionId \<or> dr_state c \<noteq> Sending
             then (fs, Inr None)
             else (let new = mutate c in
               case requestAuthority env 2 of Inl e \<Rightarrow> (fs, Inl e) | Inr _ \<Rightarrow>
               (case new of
                  None \<Rightarrow> (case de_write env of
                      Written \<Rightarrow> (AList.delete path fs, Inr (Some c))
                    | NotWritten \<Rightarrow> (fs, Inl WriteErr)
                    | Interrupted \<Rightarrow> (AList.delete path fs, Inl WriteErr))
                | Some r \<Rightarrow> (case writeDurableReceipt env path r fs of
                      (fs', Inl e) \<Rightarrow> (fs', Inl e) | (fs', Inr w) \<Rightarrow> (fs', Inr (Some w)))))))))"

text \<open>The fields of an execution, undefined again.\<close>

definition without_owner :: "durable_receipt \<Rightarrow> durable_receipt" where
  "without_owner r = r\<lparr>dr_executionId := None, dr_ownerHost := None, dr_ownerPid := None,
     dr_leaseExpiresAt := None, dr_leaseDurationMs := None, dr_renewal := None\<rparr>"

definition completed_receipt :: "durable_env \<Rightarrow> jval \<Rightarrow> durable_receipt \<Rightarrow> durable_receipt" where
  "completed_receipt env v r = without_owner
     (r\<lparr>dr_state := Completed, dr_updatedAt := de_now env, dr_result := v, dr_error := None\<rparr>)"

definition uncertain_receipt :: "durable_env \<Rightarrow> string \<Rightarrow> durable_receipt \<Rightarrow> durable_receipt" where
  "uncertain_receipt env reason r = without_owner
     (r\<lparr>dr_state := Uncertain, dr_updatedAt := de_now env, dr_error := Some reason\<rparr>)"

definition released_receipt :: "durable_env \<Rightarrow> durable_receipt \<Rightarrow> durable_receipt" where
  "released_receipt env r = without_owner (r\<lparr>dr_updatedAt := de_now env\<rparr>)"

section \<open>The heartbeat\<close>

text \<open>
  The worker that renews the lease of an execution by touching its receipt: what it was given, and its
  status with the time through which it has renewed. A busy lock postpones a renewal.
\<close>

record lease_holder =
  lh_path :: string
  lh_deliveryId :: string
  lh_digest :: string
  lh_executionId :: string
  lh_ownerHost :: string
  lh_ownerPid :: int
  lh_leaseMs :: int

datatype heart = HeartIdle | HeartStarting | HeartActive int | HeartFailed nat

definition ownedRecord :: "lease_holder \<Rightarrow> durable_receipt \<Rightarrow> bool" where
  "ownedRecord h p \<longleftrightarrow> dr_version p = 1 \<and> dr_deliveryId p = lh_deliveryId h \<and> dr_requestDigest p = lh_digest h
     \<and> dr_state p = Sending \<and> dr_executionId p = Some (lh_executionId h)
     \<and> (case dr_ownerHost p of None \<Rightarrow> False | Some o' \<Rightarrow> map js_lower o' = map js_lower (lh_ownerHost h))
     \<and> dr_ownerPid p = Some (lh_ownerPid h) \<and> dr_renewal p = Some ''mtime''
     \<and> dr_leaseDurationMs p = Some (lh_leaseMs h)"

definition renew :: "durable_env \<Rightarrow> lease_holder \<Rightarrow> heart \<Rightarrow> durable_files \<Rightarrow> durable_files \<times> heart" where
  "renew env h heart fs =
     (if de_lock env \<noteq> None then
        (fs, case heart of HeartActive through \<Rightarrow> if through \<le> de_now env then HeartFailed 5 else heart | _ \<Rightarrow> heart)
      else (case map_of fs (lh_path h) of None \<Rightarrow> (fs, HeartFailed 1)
       | Some f \<Rightarrow>
          if de_write env = NotWritten then (fs, HeartFailed 6)
          else (case df_contents f of Garbled \<Rightarrow> (fs, HeartFailed 4)
           | Parsed p \<Rightarrow>
              if \<not> ownedRecord h p then (fs, HeartFailed 4)
              else if lh_leaseMs h \<le> 0 then (fs, HeartFailed 2)
              else if df_mtime f + lh_leaseMs h \<le> de_now env then (fs, HeartFailed 5)
              else (let renewedAt = max (de_now env) (df_mtime f + 1);
                        fs' = AList.update (lh_path h) (f\<lparr>df_mtime := renewedAt, df_ctime := de_now env\<rparr>) fs in
                if renewedAt + lh_leaseMs h \<le> de_now env then (fs', HeartFailed 5)
                else if de_write env = Interrupted then (fs', HeartFailed 6)
                else (fs', HeartActive (renewedAt + lh_leaseMs h))))))"

text \<open>The error of a lost lease, by the code of the failure.\<close>

definition heartbeatFailure :: "nat \<Rightarrow> string \<Rightarrow> js_error" where
  "heartbeatFailure failure during = CodedErr ''DURABLE_DELIVERY_LEASE_LOST''
     (''Durable delivery lease lost during '' @ during @ '': '' @
      (if failure = 1 then ''receipt disappeared''
       else if failure = 2 then ''receipt became invalid or unstable''
       else if failure = 3 then ''receipt inode changed''
       else if failure = 4 then ''receipt ownership or fencing token changed''
       else if failure = 5 then ''receipt lease expired before renewal''
       else if failure = 6 then ''heartbeat I/O failed''
       else ''heartbeat worker did not confirm receipt ownership'') @ ''.'')"

section \<open>Snapshots and reconciliation\<close>

text \<open>
  \<open>readDurableDeliveryReceiptSnapshot\<close> looks at the file twice, and other processes may act in between:
  \<open>before\<close> and \<open>after\<close> are the files at the two times. The revision is the digest of the text with the times and the
  inode; the size is a function of the text, and the device does not change.
\<close>

type_synonym revision = "string \<times> int \<times> int \<times> nat"

definition readDurableDeliveryReceiptSnapshot ::
    "(contents \<Rightarrow> string) \<Rightarrow> string \<Rightarrow> string \<Rightarrow> durable_files \<Rightarrow> durable_files \<Rightarrow> (durable_receipt \<times> revision) option" where
  "readDurableDeliveryReceiptSnapshot digest path i before after =
     (case (map_of before path, map_of after path) of
        (Some f, Some g) \<Rightarrow> (case parseReceiptRaw (df_contents f) (df_mtime f) of None \<Rightarrow> None
          | Some r \<Rightarrow> if dr_deliveryId r \<noteq> i \<or> df_mtime f \<noteq> df_mtime g \<or> df_ctime f \<noteq> df_ctime g
                \<or> df_ino f \<noteq> df_ino g \<or> df_contents f \<noteq> df_contents g then None
              else Some (r, digest (df_contents f), df_mtime g, df_ctime g, df_ino g))
      | _ \<Rightarrow> None)"

datatype pending_state = InProgress | IsUncertain | IsConflict

datatype durable_outcome =
    CompletedOutcome bool jval
  | PendingOutcome pending_state bool string

datatype proof_outcome =
    ReconciledOutcome jval bool
  | UnreconciledOutcome pending_state string

text \<open>What the trusted verifier says, or the error it throws.\<close>

datatype verification = ProvenCompleted jval | ProvenUncertain string | VerifierThrew js_error

definition receipt_unreconciled :: proof_outcome where
  "receipt_unreconciled = UnreconciledOutcome IsUncertain
     ''Receipt reconciliation failed; preserve the original deliveryId and do not resend.''"

definition completed_replay :: "durable_receipt \<Rightarrow> proof_outcome" where
  "completed_replay r = (if dr_result r = JUndef then UnreconciledOutcome IsUncertain ''The completed receipt has no result.''
     else ReconciledOutcome (dr_result r) False)"

text \<open>
  \<open>reconcileDurableDelivery\<close> up to the call of the verifier, which gets the receipt and whose answer is
  judged against its revision; the checks of authority are those of the code, in order.
\<close>

definition startReconcile ::
    "durable_env \<Rightarrow> (contents \<Rightarrow> string) \<Rightarrow> string \<Rightarrow> string \<Rightarrow> string \<Rightarrow> durable_files \<Rightarrow> durable_files
      \<Rightarrow> proof_outcome + durable_receipt \<times> revision" where
  "startReconcile env contentDigest path i digest before after =
     (if requestAuthority env 0 \<noteq> Inr () then Inl receipt_unreconciled
      else (case readDurableDeliveryReceiptSnapshot contentDigest path i before after of
        None \<Rightarrow> Inl (UnreconciledOutcome IsUncertain
          ''The delivery receipt is missing, unreadable or unstable; do not resend.'')
      | Some (current, seen) \<Rightarrow>
          if requestAuthority env 1 \<noteq> Inr () then Inl receipt_unreconciled
          else if dr_requestDigest current \<noteq> digest
          then Inl (UnreconciledOutcome IsConflict ''The deliveryId belongs to a different payload.'')
          else if dr_state current = Completed then Inl (completed_replay current)
          else if receiptExecutionActive env current
          then Inl (UnreconciledOutcome InProgress ''An active execution owns this delivery; do not resend.'')
          else Inr (current, seen)))"

definition finishReconcile ::
    "durable_env \<Rightarrow> (contents \<Rightarrow> string) \<Rightarrow> string \<Rightarrow> string \<Rightarrow> string \<Rightarrow> revision \<Rightarrow> verification \<Rightarrow> durable_files
      \<Rightarrow> durable_files \<times> proof_outcome" where
  "finishReconcile env contentDigest path i digest seen answer fs =
     (if requestAuthority env 0 \<noteq> Inr () then (fs, receipt_unreconciled)
      else (case answer of VerifierThrew e \<Rightarrow> (fs, receipt_unreconciled)
       | ProvenUncertain reason \<Rightarrow> (fs, UnreconciledOutcome IsUncertain reason)
       | ProvenCompleted v \<Rightarrow>
          if v = JUndef then (fs, UnreconciledOutcome IsUncertain ''Verification did not prove a completed delivery.'')
          else if de_lock env \<noteq> None \<or> requestAuthority env 1 \<noteq> Inr () \<or> requestAuthority env 2 \<noteq> Inr ()
          then (fs, receipt_unreconciled)
          else (case readDurableDeliveryReceiptSnapshot contentDigest path i fs fs of
             None \<Rightarrow> (fs, UnreconciledOutcome IsUncertain ''The receipt disappeared or became unreadable during verification.'')
           | Some (latest, found) \<Rightarrow>
              if dr_requestDigest latest \<noteq> digest
              then (fs, UnreconciledOutcome IsConflict ''The receipt payload changed during verification.'')
              else if dr_state latest = Completed then (fs, completed_replay latest)
              else if receiptExecutionActive env latest
              then (fs, UnreconciledOutcome InProgress ''An active execution acquired this delivery during verification.'')
              else if found \<noteq> seen then (fs, UnreconciledOutcome IsUncertain ''The receipt snapshot changed during verification.'')
              else if requestAuthority env 3 \<noteq> Inr () then (fs, receipt_unreconciled)
              else (case writeDurableReceipt env path (completed_receipt env v latest) fs of
                  (fs', Inl e) \<Rightarrow> (fs', receipt_unreconciled)
                | (fs', Inr committed) \<Rightarrow>
                    if requestAuthority env 4 \<noteq> Inr () \<or> requestAuthority env 5 \<noteq> Inr () then (fs', receipt_unreconciled)
                    else (case readDurableDeliveryReceiptSnapshot contentDigest path i fs' fs' of
                        None \<Rightarrow> (fs', UnreconciledOutcome IsUncertain
                          ''The reconciled receipt could not be verified after persistence; do not resend.'')
                      | Some (readback, _) \<Rightarrow>
                          if readback \<noteq> persisted committed then (fs', UnreconciledOutcome IsUncertain
                            ''The reconciled receipt could not be verified after persistence; do not resend.'')
                          else (fs', ReconciledOutcome (dr_result readback) True))))))"

section \<open>What the sections do to the files\<close>

definition content :: "durable_files \<Rightarrow> string \<Rightarrow> contents option" where
  "content fs p = map_option df_contents (map_of fs p)"

lemma content_update [simp]:
  "content (AList.update p f fs) q = (if q = p then Some (df_contents f) else content fs q)"
  by (simp add: content_def update_conv')

lemma content_delete [simp]: "content (AList.delete p fs) q = (if q = p then None else content fs q)"
  by (simp add: content_def delete_conv')

lemma content_None [simp]: "content fs p = None \<longleftrightarrow> map_of fs p = None"
  by (simp add: content_def)

lemma new_file_contents [simp]: "df_contents (new_file env c) = c"
  by (simp add: new_file_def)

text \<open>A receipt that is read is the stored one, with the end of its lease computed.\<close>

lemma parseReceiptRaw_Some:
  assumes "parseReceiptRaw raw m = Some c"
  obtains p where "raw = Parsed p" "c = p\<lparr>dr_leaseExpiresAt := dr_leaseExpiresAt c\<rparr>"
    "dr_version c = 1" "dr_deliveryId c \<noteq> []" "dr_requestDigest c \<noteq> []"
    "dr_state c \<in> {Reserved, Sending, Completed, Uncertain}"
  using assms by (auto simp: parseReceiptRaw_def split: contents.splits if_splits option.splits sum.splits)

lemma read_receipt_Some:
  assumes "read_receipt path i fs = Some c"
  obtains p where "content fs path = Some (Parsed p)" "c = p\<lparr>dr_leaseExpiresAt := dr_leaseExpiresAt c\<rparr>"
    "dr_version c = 1" "dr_deliveryId c = i" "i \<noteq> []" "dr_requestDigest c \<noteq> []"
    "dr_state c \<in> {Reserved, Sending, Completed, Uncertain}"
proof -
  from assms obtain f where f: "map_of fs path = Some f" "parseReceiptRaw (df_contents f) (df_mtime f) = Some c"
      and i: "dr_deliveryId c = i"
    by (auto simp: read_receipt_def parseReceipt_def split: option.splits if_splits)
  from f(2) show thesis
    by (rule parseReceiptRaw_Some) (rule that, use f(1) i in \<open>simp_all add: content_def\<close>)
qed

lemma read_receipt_present: "read_receipt path i fs = Some c \<Longrightarrow> map_of fs path \<noteq> None"
  by (metis content_None not_None_eq read_receipt_Some)

lemma read_receipt_stored:
  assumes "read_receipt path i fs = Some c" "content fs path = Some (Parsed p)"
  shows "dr_state c = dr_state p \<and> dr_result c = dr_result p \<and> dr_requestDigest c = dr_requestDigest p
    \<and> dr_executionId c = dr_executionId p \<and> dr_ownerHost c = dr_ownerHost p \<and> dr_ownerPid c = dr_ownerPid p
    \<and> dr_deliveryId p = i \<and> dr_version p = 1"
  using assms(1)
proof (rule read_receipt_Some)
  fix q assume q: "content fs path = Some (Parsed q)" "c = q\<lparr>dr_leaseExpiresAt := dr_leaseExpiresAt c\<rparr>"
    "dr_version c = 1" "dr_deliveryId c = i"
  with assms(2) have "q = p" by simp
  with q show ?thesis by (cases c; cases p) auto
qed

text \<open>
  The changes of a section at its path: a receipt stays, is rewritten, or is removed. \<open>replaces\<close> says
  from which receipt and to which.
\<close>

definition replaces :: "string \<Rightarrow> durable_files \<Rightarrow> durable_files \<Rightarrow> durable_receipt \<Rightarrow> bool" where
  "replaces path fs fs' r \<longleftrightarrow> (\<exists>env. fs' = AList.update path (new_file env (Parsed (persisted r))) fs)"

lemma replacesD: "replaces path fs fs' r \<Longrightarrow> content fs' q = (if q = path then Some (Parsed (persisted r)) else content fs q)"
  by (auto simp: replaces_def)

lemma writeDurableReceipt_cases:
  assumes "writeDurableReceipt env path r fs = (fs', res)"
  shows "(fs' = fs \<and> res = Inl WriteErr \<and> de_write env = NotWritten)
    \<or> (replaces path fs fs' r \<and> (res = Inr r \<and> de_write env = Written \<or> res = Inl WriteErr \<and> de_write env = Interrupted))"
  using assms by (auto simp: writeDurableReceipt_def replaces_def Let_def split: file_write.splits)

lemma openReservation_cases:
  assumes "openReservation env path fs = (fs', res)"
  shows "(fs' = fs \<and> res \<noteq> Inr True)
    \<or> (map_of fs path = None \<and> res = Inr True \<and> (\<forall>q. content fs' q = (if q = path then Some Garbled else content fs q)))"
  using assms by (auto simp: openReservation_def split: if_splits)

lemma fillReservation_cases:
  assumes "fillReservation env path r fs = (fs', res)"
  shows "(fs' = fs \<or> (map_of fs path \<noteq> None \<and> (\<forall>q. content fs' q = (if q = path then Some (Parsed (persisted r)) else content fs q))))
    \<and> (\<forall>r'. res = Inr r' \<longrightarrow> r' = r)
    \<and> (res = Inr r \<longrightarrow> map_of fs path \<noteq> None \<longrightarrow> content fs' path = Some (Parsed (persisted r)))"
  using assms
  by (cases "map_of fs path") (auto simp: fillReservation_def Let_def content_def update_conv' split: file_write.splits)

definition claimed_receipt :: "durable_env \<Rightarrow> string \<Rightarrow> int \<Rightarrow> durable_receipt \<Rightarrow> durable_receipt" where
  "claimed_receipt env executionId leaseMs c = c\<lparr>dr_state := Sending, dr_updatedAt := de_now env, dr_error := None,
     dr_executionId := Some executionId, dr_ownerHost := Some (de_host env), dr_ownerPid := Some (de_pid env),
     dr_leaseExpiresAt := Some (de_now env + leaseMs), dr_leaseDurationMs := Some leaseMs,
     dr_renewal := Some ''mtime''\<rparr>"

lemma isoDate_Inr [simp]: "isoDate t = Inr u \<longleftrightarrow> u = t \<and> \<bar>t\<bar> \<le> date_limit"
  by (auto simp: isoDate_def)

lemma claimReceipt_cases:
  assumes "claimReceipt env path i digest e leaseMs allow fs = (fs', res)"
  shows "(fs' = fs \<and> (\<forall>r. res \<noteq> Inr (True, r)) \<and> (\<forall>b r. res = Inr (b, r) \<longrightarrow> r = read_receipt path i fs))
    \<or> (\<exists>c. read_receipt path i fs = Some c \<and> dr_requestDigest c = digest \<and> dr_state c \<noteq> Completed
        \<and> (dr_state c = Uncertain \<longrightarrow> allow) \<and> \<not> receiptExecutionActive env c
        \<and> replaces path fs fs' (claimed_receipt env e leaseMs c)
        \<and> (res = Inr (True, Some (claimed_receipt env e leaseMs c)) \<or> res = Inl WriteErr \<and> de_write env = Interrupted))"
proof (cases "\<exists>c lease. requestAuthority env 0 = Inr () \<and> de_lock env = None \<and> requestAuthority env 1 = Inr ()
    \<and> read_receipt path i fs = Some c \<and> \<not> (dr_requestDigest c \<noteq> digest \<or> dr_state c = Completed
        \<or> dr_state c = Uncertain \<and> \<not> allow \<or> receiptExecutionActive env c)
    \<and> isoDate (de_now env) = Inr (de_now env) \<and> isoDate (de_now env + leaseMs) = Inr lease")
  case True
  then obtain c where c: "requestAuthority env 0 = Inr ()" "de_lock env = None" "requestAuthority env 1 = Inr ()"
      "read_receipt path i fs = Some c" "\<not> (dr_requestDigest c \<noteq> digest \<or> dr_state c = Completed
        \<or> dr_state c = Uncertain \<and> \<not> allow \<or> receiptExecutionActive env c)"
      "isoDate (de_now env) = Inr (de_now env)" "isoDate (de_now env + leaseMs) = Inr (de_now env + leaseMs)"
    by (elim exE conjE) simp
  obtain gs w where w: "writeDurableReceipt env path (claimed_receipt env e leaseMs c) fs = (gs, w)" by fastforce
  have "claimReceipt env path i digest e leaseMs allow fs
      = (gs, case w of Inl x \<Rightarrow> Inl x | Inr r \<Rightarrow> Inr (True, Some r))"
    unfolding claimReceipt_def using c w by (simp add: claimed_receipt_def isoDate_def split: sum.splits)
  with assms writeDurableReceipt_cases [OF w] c show ?thesis by (auto split: sum.splits)
next
  case False
  then have "fs' = fs \<and> (\<forall>r. res \<noteq> Inr (True, r)) \<and> (\<forall>b r. res = Inr (b, r) \<longrightarrow> r = read_receipt path i fs)"
    using assms unfolding claimReceipt_def Let_def
    by (auto split: sum.splits option.splits if_splits simp: bind_def)
  then show ?thesis by blast
qed

lemma mutateOwnedReceipt_cases:
  assumes "mutateOwnedReceipt env path i digest e m fs = (fs', res)"
  shows "(fs' = fs \<and> (\<forall>r. res \<noteq> Inr (Some r)))
    \<or> (\<exists>c. read_receipt path i fs = Some c \<and> dr_requestDigest c = digest \<and> dr_executionId c = Some e \<and> dr_state c = Sending
        \<and> (res = Inl WriteErr \<and> de_write env = Interrupted \<or> (\<exists>r. res = Inr (Some r)))
        \<and> (case m c of None \<Rightarrow> fs' = AList.delete path fs | Some r \<Rightarrow> replaces path fs fs' r))"
proof (cases "\<exists>c. requestAuthority env 0 = Inr () \<and> de_lock env = None \<and> requestAuthority env 1 = Inr ()
    \<and> read_receipt path i fs = Some c \<and> dr_requestDigest c = digest \<and> dr_executionId c = Some e \<and> dr_state c = Sending
    \<and> requestAuthority env 2 = Inr ()")
  case True
  then obtain c where c: "requestAuthority env 0 = Inr ()" "de_lock env = None" "requestAuthority env 1 = Inr ()"
      "read_receipt path i fs = Some c" "dr_requestDigest c = digest" "dr_executionId c = Some e" "dr_state c = Sending"
      "requestAuthority env 2 = Inr ()"
    by blast
  show ?thesis
  proof (cases "m c")
    case None
    with assms c show ?thesis by (auto simp: mutateOwnedReceipt_def split: file_write.splits)
  next
    case (Some r)
    obtain gs w where w: "writeDurableReceipt env path r fs = (gs, w)" by fastforce
    have "mutateOwnedReceipt env path i digest e m fs = (gs, case w of Inl x \<Rightarrow> Inl x | Inr r \<Rightarrow> Inr (Some r))"
      unfolding mutateOwnedReceipt_def using c w Some by (simp split: sum.splits)
    with assms writeDurableReceipt_cases [OF w] c Some show ?thesis by (auto split: sum.splits)
  qed
next
  case False
  then have "fs' = fs \<and> (\<forall>r. res \<noteq> Inr (Some r))"
    using assms unfolding mutateOwnedReceipt_def Let_def
    by (auto split: sum.splits option.splits if_splits)
  then show ?thesis by blast
qed

lemma renew_cases:
  assumes "renew env h heart fs = (fs', heart')"
  shows "\<forall>q. content fs' q = content fs q"
  using assms by (auto simp: renew_def content_def update_conv' Let_def split: if_splits option.splits contents.splits)

lemma snapshot_is_read:
  assumes "readDurableDeliveryReceiptSnapshot d path i before after = Some (r, rv)"
  shows "read_receipt path i after = Some r"
  using assms
  by (auto simp: readDurableDeliveryReceiptSnapshot_def read_receipt_def parseReceipt_def split: option.splits if_splits)

lemma finishReconcile_cases:
  assumes "finishReconcile env d path i digest seen answer fs = (fs', out)"
  shows "(fs' = fs \<and> (\<forall>v. out \<noteq> ReconciledOutcome v True))
    \<or> (\<exists>c v. read_receipt path i fs = Some c \<and> dr_requestDigest c = digest \<and> dr_state c \<noteq> Completed
        \<and> \<not> receiptExecutionActive env c \<and> answer = ProvenCompleted v \<and> v \<noteq> JUndef
        \<and> readDurableDeliveryReceiptSnapshot d path i fs fs = Some (c, seen)
        \<and> replaces path fs fs' (completed_receipt env v c)
        \<and> (\<forall>w. out = ReconciledOutcome w True \<longrightarrow> w = json_reload v))"
proof (cases "\<exists>v c. answer = ProvenCompleted v \<and> requestAuthority env 0 = Inr () \<and> v \<noteq> JUndef \<and> de_lock env = None
    \<and> requestAuthority env 1 = Inr () \<and> requestAuthority env 2 = Inr () \<and> requestAuthority env 3 = Inr ()
    \<and> readDurableDeliveryReceiptSnapshot d path i fs fs = Some (c, seen) \<and> dr_requestDigest c = digest
    \<and> dr_state c \<noteq> Completed \<and> \<not> receiptExecutionActive env c")
  case True
  then obtain v c where c: "answer = ProvenCompleted v" "requestAuthority env 0 = Inr ()" "v \<noteq> JUndef" "de_lock env = None"
    "requestAuthority env 1 = Inr ()" "requestAuthority env 2 = Inr ()" "requestAuthority env 3 = Inr ()"
    "readDurableDeliveryReceiptSnapshot d path i fs fs = Some (c, seen)" "dr_requestDigest c = digest"
    "dr_state c \<noteq> Completed" "\<not> receiptExecutionActive env c" by blast
  obtain gs w where w: "writeDurableReceipt env path (completed_receipt env v c) fs = (gs, w)" by fastforce
  note r = writeDurableReceipt_cases [OF w]
  have fin: "fs' = gs \<and> (\<forall>v'. out = ReconciledOutcome v' True \<longrightarrow> w = Inr (completed_receipt env v c) \<and> v' = json_reload v)"
    using assms c w r unfolding finishReconcile_def Let_def
    by (auto simp: persisted_def completed_receipt_def without_owner_def receipt_unreconciled_def
        split: sum.splits option.splits if_splits prod.splits)
  with r c snapshot_is_read [OF c(8)] show ?thesis by auto
next
  case False
  then have "fs' = fs \<and> (\<forall>v. out \<noteq> ReconciledOutcome v True)"
    using assms unfolding finishReconcile_def Let_def
    by (auto simp: receipt_unreconciled_def completed_replay_def split: verification.splits sum.splits option.splits if_splits prod.splits)
  then show ?thesis by blast
qed

section \<open>What a digest identifies\<close>

text \<open>The normal form of a payload, whose ordinary JSON text is its stable one.\<close>

fun canonical :: "jval \<Rightarrow> jval" where
  "canonical JUndef = JNull"
| "canonical (JNum t) = (if t = ''NaN'' then JNull else JNum t)"
| "canonical (JArr vs) = JArr (map canonical vs)"
| "canonical (JObj fs) = JObj (sort_key fst (map (\<lambda>(k, v). (k, canonical v)) fs))"
| "canonical v = v"

lemma canonical_not_undef [simp]: "canonical v \<noteq> JUndef"
  by (cases v) auto

lemma insort_key_map: "insort_key f (g x) (map g xs) = map g (insort_key (\<lambda>x. f (g x)) x xs)"
  by (induction xs) auto

lemma sort_key_map: "sort_key f (map g xs) = map g (sort_key (\<lambda>x. f (g x)) xs)"
  by (induction xs) (auto simp: insort_key_map)

lemma stableJson_canonical: "stableJson v = stringify (canonical v)"
proof (induction v rule: stableJson.induct)
  case (1 vs)
  then have eq: "map stableJson vs = map stringify (map canonical vs)" by simp
  show ?case unfolding stableJson.simps canonical.simps stringify.simps eq ..
next
  case (2 fs)
  let ?s = "sort_key fst fs"
  have fst_pair: "(\<lambda>x. fst (case x of (k, v) \<Rightarrow> (k, h v))) = fst" for h :: "jval \<Rightarrow> 'a"
    by (auto simp: fun_eq_iff)
  have f1: "filter (\<lambda>(k, v). v \<noteq> JUndef) (map (\<lambda>(k, v). (k, canonical v)) ?s) = map (\<lambda>(k, v). (k, canonical v)) ?s"
    by (rule filter_True) auto
  have f2: "map (\<lambda>(k, t). json_quote k @ CHR '':'' # t) (map (\<lambda>(k, v). (k, stableJson v)) ?s)
      = map (\<lambda>(k, v). json_quote k @ CHR '':'' # stringify v) (map (\<lambda>(k, v). (k, canonical v)) ?s)"
    using 2 by auto
  show ?case
    unfolding stableJson.simps canonical.simps stringify.simps sort_key_map fst_pair f1 f2 ..
qed simp_all

lemma canonical_pure: "json_value v \<Longrightarrow> json_pure (canonical v)"
proof (induction v rule: canonical.induct)
  case (3 vs)
  then show ?case by (auto simp: list_all_iff)
next
  case (4 fs)
  then show ?case by (auto simp: list_all_iff)
qed auto

lemma sort_fields_eq:
  assumes "distinct (map fst xs)" "distinct (map fst ys)"
  shows "sort_key fst xs = sort_key fst ys \<longleftrightarrow> set xs = set (ys :: ('a::linorder \<times> 'b) list)"
proof
  assume "sort_key fst xs = sort_key fst ys"
  then show "set xs = set ys" by (metis set_sort)
next
  assume eq: "set xs = set ys"
  show "sort_key fst xs = sort_key fst ys"
  proof (rule map_sorted_distinct_set_unique [of fst])
    show "inj_on fst (set (sort_key fst xs) \<union> set (sort_key fst ys))"
      using assms(1) eq by (simp add: distinct_map)
    show "distinct (map fst (sort_key fst xs))" "distinct (map fst (sort_key fst ys))"
      using assms by (simp_all add: distinct_map)
  qed (simp_all add: eq)
qed

lemma fields_eq:
  assumes "distinct (map fst fs)" "distinct (map fst gs)"
  shows "set (map (\<lambda>(k, v). (k, h v)) fs) = set (map (\<lambda>(k, v). (k, h v)) gs)
    \<longleftrightarrow> set (map fst fs) = set (map fst gs) \<and> (\<forall>(k, v) \<in> set fs. \<forall>(j, w) \<in> set gs. k = j \<longrightarrow> h v = h w)"
    (is "?F = ?G \<longleftrightarrow> _ \<and> ?agree")
proof
  assume eq: "?F = ?G"
  have "fst ` ?F = set (map fst fs)" "fst ` ?G = set (map fst gs)" by force+
  with eq have "set (map fst fs) = set (map fst gs)" by simp
  moreover have ?agree
  proof (clarify)
    fix k v w assume vw: "(k, v) \<in> set fs" "(k, w) \<in> set gs"
    then have "(k, h v) \<in> ?G" unfolding eq [symmetric] by force
    then obtain u where "(k, u) \<in> set gs" "h u = h v" by auto
    with vw(2) assms(2) show "h v = h w" by (metis eq_key_imp_eq_value)
  qed
  ultimately show "set (map fst fs) = set (map fst gs) \<and> ?agree" ..
next
  have sub: "set (map (\<lambda>(k, v). (k, h v)) as) \<subseteq> set (map (\<lambda>(k, v). (k, h v)) bs)"
    if "set (map fst as) = set (map fst bs)" "\<forall>(k, v) \<in> set as. \<forall>(j, w) \<in> set bs. k = j \<longrightarrow> h v = h w" for as bs
  proof
    fix x assume "x \<in> set (map (\<lambda>(k, v). (k, h v)) as)"
    then obtain k v where kv: "(k, v) \<in> set as" "x = (k, h v)" by auto
    then have "k \<in> set (map fst bs)" unfolding that(1) [symmetric] by force
    then obtain w where "(k, w) \<in> set bs" by auto
    with kv that(2) show "x \<in> set (map (\<lambda>(k, v). (k, h v)) bs)" by force
  qed
  assume *: "set (map fst fs) = set (map fst gs) \<and> ?agree"
  then have "\<forall>(k, v) \<in> set gs. \<forall>(j, w) \<in> set fs. k = j \<longrightarrow> h v = h w" by fastforce
  with * sub [of fs gs] sub [of gs fs] show "?F = ?G" by blast
qed

lemma canonical_eq_simps [simp]:
  "JNull = canonical w \<longleftrightarrow> null_like w" "canonical w = JNull \<longleftrightarrow> null_like w"
  "JBool b = canonical w \<longleftrightarrow> w = JBool b" "canonical w = JBool b \<longleftrightarrow> w = JBool b"
  "JStr s = canonical w \<longleftrightarrow> w = JStr s" "canonical w = JStr s \<longleftrightarrow> w = JStr s"
  "JNum t = canonical w \<longleftrightarrow> w = JNum t \<and> t \<noteq> ''NaN''" "canonical w = JNum t \<longleftrightarrow> w = JNum t \<and> t \<noteq> ''NaN''"
  by (cases w; auto)+

lemma canonical_eq: "json_value v \<Longrightarrow> json_value w \<Longrightarrow> canonical v = canonical w \<longleftrightarrow> same_payload v w"
proof (induction v w rule: same_payload.induct)
  case (1 vs ws)
  have "map canonical vs = map canonical ws \<longleftrightarrow> list_all2 (=) (map canonical vs) (map canonical ws)"
    by (simp only: list.rel_eq)
  also have "\<dots> \<longleftrightarrow> list_all2 (\<lambda>v w. canonical v = canonical w) vs ws"
    by (simp only: list_all2_map1 list_all2_map2)
  also have "\<dots> \<longleftrightarrow> list_all2 same_payload vs ws"
    by (rule list.rel_cong) (use 1 in \<open>auto simp: list_all_iff\<close>)
  finally show ?case by simp
next
  case (2 fs gs)
  then have d: "distinct (map fst fs)" "distinct (map fst gs)" by auto
  have each: "canonical v = canonical w \<longleftrightarrow> same_payload v w" if "(k, v) \<in> set fs" "(k, w) \<in> set gs" for k v w
  proof -
    from that 2(2,3) have "json_value v" "json_value w" by (auto simp: list_all_iff)
    with 2(1) [OF that(1) refl that(2) refl] show ?thesis by simp
  qed
  have keys: "map fst (map (\<lambda>(k, v). (k, canonical v)) hs) = map fst hs" for hs :: "(string \<times> jval) list" by auto
  have "canonical (JObj fs) = canonical (JObj gs) \<longleftrightarrow> set (map (\<lambda>(k, v). (k, canonical v)) fs) = set (map (\<lambda>(k, v). (k, canonical v)) gs)"
    unfolding canonical.simps jval.inject by (rule sort_fields_eq) (simp_all only: keys d)
  also have "\<dots> \<longleftrightarrow> set (map fst fs) = set (map fst gs)
      \<and> (\<forall>(k, v) \<in> set fs. \<forall>(j, w) \<in> set gs. k = j \<longrightarrow> canonical v = canonical w)"
    by (rule fields_eq [OF d])
  also have "(\<forall>(k, v) \<in> set fs. \<forall>(j, w) \<in> set gs. k = j \<longrightarrow> canonical v = canonical w)
      \<longleftrightarrow> (\<forall>(k, v) \<in> set fs. \<forall>(j, w) \<in> set gs. k = j \<longrightarrow> same_payload v w)"
    using each by fast
  finally show ?case by simp
qed auto

lemma digest_identifies:
  assumes "inj sha" "json_value v" "json_value w"
  shows "requestDigest sha v = requestDigest sha w \<longleftrightarrow> same_payload v w"
proof -
  have "requestDigest sha v = requestDigest sha w \<longleftrightarrow> stringify (canonical v) = stringify (canonical w)"
    unfolding requestDigest_def stableJson_canonical by (rule inj_eq [OF assms(1)])
  also have "\<dots> \<longleftrightarrow> canonical v = canonical w"
    using stringify_inj [OF canonical_pure [OF assms(2)] canonical_pure [OF assms(3)]] by auto
  finally show ?thesis using canonical_eq assms(2,3) by simp
qed

text \<open>C38: A digest identifies a payload: with a hash that separates different texts, two payloads have the
same digest exactly when they are the same up to the order of keys and to \<open>undefined\<close> and
\<open>NaN\<close>, which JSON writes as \<open>null\<close>. So a repeated request is a conflict exactly when its payload differs.\<close>

theorem payload_digest_exact:
  assumes "inj sha" "json_value v" "json_value w"
  shows "requestDigest sha v = requestDigest sha w \<longleftrightarrow> same_payload v w"
  by (rule digest_identifies [OF assms])

theorem payload_digest_exact_witness:
  "requestDigest (\<lambda>s. s) (JObj [(''b'', JNum ''1''), (''a'', JUndef)]) = requestDigest (\<lambda>s. s) (JObj [(''a'', JNull), (''b'', JNum ''1'')])
    \<and> requestDigest (\<lambda>s. s) (JObj [(''a'', JNull)]) \<noteq> requestDigest (\<lambda>s. s) (JObj [])"
proof
  have v: "json_value (JObj [(''b'', JNum ''1''), (''a'', JUndef)])" "json_value (JObj [(''a'', JNull), (''b'', JNum ''1'')])"
    "json_value (JObj [(''a'', JNull)])" "json_value (JObj [])" by code_simp+
  show "requestDigest (\<lambda>s. s) (JObj [(''b'', JNum ''1''), (''a'', JUndef)]) = requestDigest (\<lambda>s. s) (JObj [(''a'', JNull), (''b'', JNum ''1'')])"
    using payload_digest_exact [OF inj_on_id2 v(1,2)] by auto
  show "requestDigest (\<lambda>s. s) (JObj [(''a'', JNull)]) \<noteq> requestDigest (\<lambda>s. s) (JObj [])"
    using payload_digest_exact [OF inj_on_id2 v(3,4)] by auto
qed

section \<open>What a delivery identifier is\<close>

definition delivery_id :: "string \<Rightarrow> bool" where
  "delivery_id i \<longleftrightarrow> i \<noteq> [] \<and> length i \<le> 200 \<and> list_all id_char i"

lemma id_char_not_space: "id_char c \<Longrightarrow> \<not> js_space c"
  by (auto simp: id_char_def js_space_def is_alpha_def is_digit_def Let_def)

lemma delivery_id_trimmed: "delivery_id i \<Longrightarrow> js_trim i = i"
  by (rule js_trim_fixed) (auto simp: delivery_id_def list_all_iff id_char_not_space)

interpretation delivery_ids: normaliser normalizeDurableDeliveryId JStr delivery_id
proof unfold_locales
  fix v i assume "normalizeDurableDeliveryId v = Inr i"
  then show "delivery_id i" by (auto simp: normalizeDurableDeliveryId_def delivery_id_def Let_def split: if_splits)
next
  fix i assume i: "delivery_id i"
  then show "normalizeDurableDeliveryId (JStr i) = Inr i"
    by (simp add: normalizeDurableDeliveryId_def delivery_id_trimmed Let_def) (simp add: delivery_id_def)
qed

lemma split_at_slash:
  assumes "n @ CHR ''/'' # x = m @ CHR ''/'' # y" "CHR ''/'' \<notin> set n" "CHR ''/'' \<notin> set m"
  shows "n = m \<and> x = y"
  using assms
proof (induction n arbitrary: m)
  case Nil
  then show ?case by (cases m) auto
next
  case (Cons c n)
  then show ?case by (cases m) auto
qed

lemma namespace_no_slash: "normalizedNamespace v = Inr n \<Longrightarrow> CHR ''/'' \<notin> set n"
  by (auto simp: normalizedNamespace_def namespace_char_def is_alpha_def is_digit_def list_all_iff Let_def split: if_splits)

text \<open>A delivery identifier has at most 200 letters, digits and \<open>._:-\<close>, it is stable under
normalisation, and with a hash that separates texts the receipt of a delivery has a path of its own: two
requests share a receipt exactly when their normalised identifiers and namespaces are the same.\<close>

theorem receipt_paths_separate:
  assumes "inj sha" "durableDeliveryReceiptPath sha root n v = Inr p" "durableDeliveryReceiptPath sha root m w = Inr q"
  shows "(p = q \<longleftrightarrow> normalizeDurableDeliveryId v = normalizeDurableDeliveryId w \<and> normalizedNamespace n = normalizedNamespace m)
    \<and> (\<forall>i. normalizeDurableDeliveryId v = Inr i \<longrightarrow> delivery_id i \<and> normalizeDurableDeliveryId (JStr i) = Inr i)"
proof -
  from assms(2,3) obtain i j a b where v: "normalizeDurableDeliveryId v = Inr i" "normalizedNamespace n = Inr a"
      "p = root @ ''/data/'' @ a @ ''/'' @ sha i @ ''.json''"
    and w: "normalizeDurableDeliveryId w = Inr j" "normalizedNamespace m = Inr b" "q = root @ ''/data/'' @ b @ ''/'' @ sha j @ ''.json''"
    by (auto simp: durableDeliveryReceiptPath_def)
  have "p = q \<longleftrightarrow> a @ CHR ''/'' # (sha i @ ''.json'') = b @ CHR ''/'' # (sha j @ ''.json'')"
    by (simp add: v(3) w(3))
  also have "\<dots> \<longleftrightarrow> a = b \<and> sha i = sha j"
  proof
    assume "a @ CHR ''/'' # (sha i @ ''.json'') = b @ CHR ''/'' # (sha j @ ''.json'')"
    from split_at_slash [OF this namespace_no_slash [OF v(2)] namespace_no_slash [OF w(2)]]
    show "a = b \<and> sha i = sha j" by simp
  qed simp
  finally have "p = q \<longleftrightarrow> a = b \<and> sha i = sha j" .
  with inj_eq [OF assms(1), of i j] have "p = q \<longleftrightarrow> a = b \<and> i = j" by simp
  moreover have "delivery_id i" "normalizeDurableDeliveryId (JStr i) = Inr i"
    using delivery_ids.norm_sound [OF v(1)] delivery_ids.norm_idem [OF v(1)] by simp_all
  ultimately show ?thesis using v(1,2) w(1,2) by auto
qed

theorem receipt_paths_separate_witness:
  "durableDeliveryReceiptPath (\<lambda>s. s) ''/root'' ''sends'' (JStr '' d1 '') = durableDeliveryReceiptPath (\<lambda>s. s) ''/root'' ''sends'' (JStr ''d1'')
    \<and> durableDeliveryReceiptPath (\<lambda>s. s) ''/root'' ''sends'' (JStr ''d1'') \<noteq> durableDeliveryReceiptPath (\<lambda>s. s) ''/root'' ''calls'' (JStr ''d1'')"
proof -
  have p: "durableDeliveryReceiptPath (\<lambda>s. s) ''/root'' ''sends'' (JStr '' d1 '') = Inr ''/root/data/sends/d1.json''"
    "durableDeliveryReceiptPath (\<lambda>s. s) ''/root'' ''sends'' (JStr ''d1'') = Inr ''/root/data/sends/d1.json''"
    "durableDeliveryReceiptPath (\<lambda>s. s) ''/root'' ''calls'' (JStr ''d1'') = Inr ''/root/data/calls/d1.json''"
    "normalizedNamespace ''sends'' \<noteq> normalizedNamespace ''calls''" by code_simp+
  from receipt_paths_separate [OF inj_on_id2 p(2,3)] p show ?thesis by auto
qed

section \<open>Take-over and reconciliation\<close>

text \<open>When the lock is obtained, the request has its authority and the write succeeds, an execution takes a
receipt over exactly when the payload is the same, the delivery is not completed, an uncertain one may be recovered,
and nobody owns it: no execution is named, or the owner's process on this host is gone, or the owner is of
another host and its lease has run out. While a process of this host lives, the lease does not matter.\<close>

theorem take_over_exact:
  assumes "de_lock env = None" "de_revoked env = None" "de_write env = Written"
    and "\<bar>de_now env\<bar> \<le> date_limit" "\<bar>de_now env + leaseMs\<bar> \<le> date_limit"
  shows "(\<exists>r. snd (claimReceipt env path i digest e leaseMs allow fs) = Inr (True, r))
    \<longleftrightarrow> (\<exists>c. read_receipt path i fs = Some c \<and> dr_requestDigest c = digest
        \<and> (dr_state c = Reserved \<or> dr_state c = Uncertain \<and> allow
           \<or> dr_state c = Sending \<and> (\<not> truthy (dr_executionId c)
              \<or> (if same_host env c \<and> (\<exists>p. dr_ownerPid c = Some p \<and> 0 < p) then \<not> de_alive env (the (dr_ownerPid c))
                 else (\<forall>t. dr_leaseExpiresAt c = Some t \<longrightarrow> t \<le> de_now env)))))"
proof -
  have active: "receiptExecutionActive env c \<longleftrightarrow> dr_state c = Sending \<and> truthy (dr_executionId c)
      \<and> (if same_host env c \<and> (\<exists>p. dr_ownerPid c = Some p \<and> 0 < p) then de_alive env (the (dr_ownerPid c))
         else (\<exists>t. dr_leaseExpiresAt c = Some t \<and> de_now env < t))" for c
    by (auto simp: receiptExecutionActive_def sameHostOwnerAlive_def sameHostOwnerGone_def split: option.splits)
  have auth: "requestAuthority env k = Inr ()" for k using assms(2) by (simp add: requestAuthority_def)
  show ?thesis
  proof (cases "read_receipt path i fs")
    case None
    with assms(1) auth show ?thesis by (simp add: claimReceipt_def)
  next
    case (Some c)
    then have st: "dr_state c \<in> {Reserved, Sending, Completed, Uncertain}" by (rule read_receipt_Some)
    have "(\<exists>r. snd (claimReceipt env path i digest e leaseMs allow fs) = Inr (True, r))
      \<longleftrightarrow> \<not> (dr_requestDigest c \<noteq> digest \<or> dr_state c = Completed \<or> dr_state c = Uncertain \<and> \<not> allow \<or> receiptExecutionActive env c)"
      using Some assms auth by (simp add: claimReceipt_def isoDate_def writeDurableReceipt_def)
    with Some st show ?thesis unfolding active by (auto simp: not_less)
  qed
qed

definition stale_receipt :: "int \<Rightarrow> durable_receipt" where
  "stale_receipt pid = \<lparr>dr_version = 1, dr_deliveryId = ''d1'', dr_requestDigest = ''x'', dr_state = Sending,
     dr_createdAt = 0, dr_updatedAt = 0, dr_audit = JUndef, dr_result = JUndef, dr_error = None,
     dr_executionId = Some ''e1'', dr_ownerHost = Some ''PC'', dr_ownerPid = Some pid,
     dr_leaseExpiresAt = None, dr_leaseDurationMs = Some 900000, dr_renewal = Some ''mtime''\<rparr>"

definition stale_files :: "int \<Rightarrow> durable_files" where
  "stale_files pid = [(''p'', \<lparr>df_contents = Parsed (stale_receipt pid), df_mtime = 0, df_ctime = 0, df_ino = 1\<rparr>)]"

definition stale_env :: "int \<Rightarrow> durable_env" where
  "stale_env now = \<lparr>de_now = now, de_revoked = None, de_alive = (\<lambda>p. p = 7), de_host = ''pc'', de_pid = 7,
     de_lock = None, de_write = Written, de_ino = 2\<rparr>"

theorem take_over_exact_witness:
  "(\<exists>r. snd (claimReceipt (stale_env 1) ''p'' ''d1'' ''x'' ''e2'' 100 False (stale_files 8)) = Inr (True, r))
    \<and> \<not> (\<exists>r. snd (claimReceipt (stale_env 9999999) ''p'' ''d1'' ''x'' ''e2'' 100 False (stale_files 7)) = Inr (True, r))"
proof -
  have env: "de_lock (stale_env n) = None" "de_revoked (stale_env n) = None" "de_write (stale_env n) = Written" "de_now (stale_env n) = n" for n
    by (simp_all add: stale_env_def)
  have r: "read_receipt ''p'' ''d1'' (stale_files q) = Some (stale_receipt q\<lparr>dr_leaseExpiresAt := Some 900000\<rparr>)" for q
    by (simp add: read_receipt_def parseReceipt_def stale_files_def parseReceiptRaw_def stale_receipt_def isoDate_def date_limit_def)
  have "same_host (stale_env n) (stale_receipt q\<lparr>dr_leaseExpiresAt := Some 900000\<rparr>)" for n q
    by (simp add: same_host_def stale_env_def stale_receipt_def) code_simp
  moreover have "de_alive (stale_env n) p \<longleftrightarrow> p = 7" for n p by (simp add: stale_env_def)
  ultimately show ?thesis
    using take_over_exact [OF env(1-3), of 1 100 "''p''" "''d1''" "''x''" "''e2''" False "stale_files 8"]
      take_over_exact [OF env(1-3), of 9999999 100 "''p''" "''d1''" "''x''" "''e2''" False "stale_files 7"]
    by (simp add: r env date_limit_def stale_receipt_def)
qed

text \<open>A reconciliation that reports a committed result has changed nothing but this receipt, which was not
completed, was in nobody's hands and was, to its times and inode, the one the verifier saw; and the file now
holds the proven result. Any other outcome that leaves the files changed is reported as a failure.\<close>

theorem reconciliation_commits_proofs:
  assumes "finishReconcile env contentDigest path i digest seen answer fs = (fs', out)"
  shows "(\<forall>v. out = ReconciledOutcome v True \<longrightarrow>
      (\<exists>c p. readDurableDeliveryReceiptSnapshot contentDigest path i fs fs = Some (c, seen) \<and> dr_requestDigest c = digest
        \<and> dr_state c \<noteq> Completed \<and> \<not> receiptExecutionActive env c
        \<and> (\<exists>u. answer = ProvenCompleted u \<and> v = json_reload u)
        \<and> content fs' path = Some (Parsed p) \<and> dr_state p = Completed \<and> dr_result p = v \<and> dr_executionId p = None))
    \<and> (\<forall>q. q \<noteq> path \<longrightarrow> content fs' q = content fs q)"
  using finishReconcile_cases [OF assms]
proof (elim disjE exE conjE)
  fix c u assume c: "read_receipt path i fs = Some c" "dr_requestDigest c = digest" "dr_state c \<noteq> Completed"
    "\<not> receiptExecutionActive env c" "answer = ProvenCompleted u" "readDurableDeliveryReceiptSnapshot contentDigest path i fs fs = Some (c, seen)"
    "replaces path fs fs' (completed_receipt env u c)" "\<forall>w. out = ReconciledOutcome w True \<longrightarrow> w = json_reload u"
  have p: "content fs' path = Some (Parsed (persisted (completed_receipt env u c)))"
    "dr_state (persisted (completed_receipt env u c)) = Completed"
    "dr_result (persisted (completed_receipt env u c)) = json_reload u"
    "dr_executionId (persisted (completed_receipt env u c)) = None"
    by (simp_all add: replacesD [OF c(7)] persisted_def completed_receipt_def without_owner_def)
  have "\<forall>q. q \<noteq> path \<longrightarrow> content fs' q = content fs q" by (simp add: replacesD [OF c(7)])
  with c p show ?thesis by blast
qed auto

theorem reconciliation_commits_proofs_witness:
  "\<exists>fs'. finishReconcile (stale_env 5) (\<lambda>_. ''h'') ''p'' ''d1'' ''x'' (''h'', 0, 0, 1) (ProvenCompleted (JStr ''sent'')) (stale_files 8)
      = (fs', ReconciledOutcome (JStr ''sent'') True)
    \<and> (\<exists>p. content fs' ''p'' = Some (Parsed p) \<and> dr_state p = Completed)"
proof -
  let ?x = "finishReconcile (stale_env 5) (\<lambda>_. ''h'') ''p'' ''d1'' ''x'' (''h'', 0, 0, 1) (ProvenCompleted (JStr ''sent'')) (stale_files 8)"
  have "snd ?x = ReconciledOutcome (JStr ''sent'') True" by code_simp
  then have x: "?x = (fst ?x, ReconciledOutcome (JStr ''sent'') True)" by (metis prod.collapse)
  from reconciliation_commits_proofs [OF x] show ?thesis using x by blast
qed

end
