(* ===== verification/DurableDelivery.thy ===== *)
theory DurableDelivery
  imports DurableReceipts
begin

text \<open>
  The executions of durable deliveries (\<open>src/src/manager/durableDeliveryIdempotency.ts\<close>):
  \<open>executeDurableDelivery\<close> and \<open>executeClaimedDelivery\<close> as tasks, and the world of processes that share the
  receipt files.

  A task stops wherever the code waits or another process may act: at every \<open>await\<close>, between the
  creation of a receipt and the writing of its text, before every locked section, and in every round of the waiting loop.
  Its phase says where, and what the enclosing \<open>catch\<close> is.
\<close>

section \<open>Tasks\<close>

record delivery_options =
  op_audit :: jval
  op_recover :: bool
  op_recoverExistingUncertain :: bool
  op_retryable :: "jval \<Rightarrow> bool"
  op_waitMs :: int
  op_leaseMs :: "int option"

text \<open>
  The \<open>catch\<close> that a thrown error reaches: that of the first delivery, of the retry (\<open>deliverOnce\<close>), of the whole body, or
  of nothing any more; \<open>AtStart\<close> is the one around the start of the heartbeat.
\<close>

datatype handler = InFirst | InRetry | InBody | Last | AtStart

datatype delivery_phase =
    Filling durable_receipt
  | Looking
  | Waiting durable_receipt int
  | Claiming durable_receipt
  | Starting
  | Delivering handler
  | Asking bool
  | Settling handler jval bool
  | Marking handler string string bool
  | Releasing string bool
  | Stopping "js_error + durable_outcome"
  | Ended "js_error + durable_outcome"

record dtask =
  tk_path :: string
  tk_deliveryId :: string
  tk_digest :: string
  tk_executionId :: string
  tk_leaseMs :: int
  tk_options :: delivery_options
  tk_host :: string
  tk_pid :: int
  tk_recoverFirst :: bool
  tk_heart :: heart
  tk_phase :: delivery_phase

text \<open>The trace: the calls of \<open>deliver\<close> and \<open>recover\<close>, the retries that \<open>recover\<close> grants, the receipts removed.\<close>

datatype delivery_event =
    DeliverCall string string
  | RecoverCall string string
  | RetryGranted string string
  | ReceiptFreed string string

datatype recovery_answer = RecoveredResult jval | RecoverRetry | RecoverInProgress string | RecoverUncertain string

text \<open>What resumes a task: its own turn, or the end of the promise it awaits.\<close>

datatype wakening = Go | HeartbeatGaveUp | DeliverGave jval | DeliverThrew js_error | RecoverGave recovery_answer | RecoverThrew js_error

definition goto :: "delivery_phase \<Rightarrow> dtask \<Rightarrow> dtask" where
  "goto ph t = t\<lparr>tk_phase := ph\<rparr>"

definition message_of :: "js_error \<Rightarrow> string" where
  "message_of e = fl_message (thrown e)"

definition pending_end :: "pending_state \<Rightarrow> string \<Rightarrow> dtask \<Rightarrow> dtask" where
  "pending_end st reason = goto (Ended (Inr (PendingOutcome st True reason)))"

section \<open>Owned sections of an execution\<close>

text \<open>\<open>settleOwnedResult\<close>; the last check of authority comes after the receipt has been written.\<close>

definition settleOwnedResult ::
    "durable_env \<Rightarrow> dtask \<Rightarrow> jval \<Rightarrow> bool \<Rightarrow> durable_files \<Rightarrow> durable_files \<times> durable_outcome result" where
  "settleOwnedResult env t v duplicate fs =
     (let retryable = op_retryable (tk_options t) v in
      case mutateOwnedReceipt env (tk_path t) (tk_deliveryId t) (tk_digest t) (tk_executionId t)
        (\<lambda>c. if retryable then None else Some (completed_receipt env v c)) fs of
        (fs', Inl e) \<Rightarrow> (fs', Inl e)
      | (fs', Inr None) \<Rightarrow> (fs', Inr (PendingOutcome IsUncertain duplicate
          (if retryable then ''The non-committing rejection receipt could not be released safely.''
           else ''The delivery execution lost ownership before its completed receipt was committed.'')))
      | (fs', Inr (Some _)) \<Rightarrow> (fs', bind (requestAuthority env 3) (\<lambda>_. Inr (CompletedOutcome duplicate v))))"

definition markOwnedUncertain ::
    "durable_env \<Rightarrow> dtask \<Rightarrow> string \<Rightarrow> durable_files \<Rightarrow> durable_files \<times> bool result" where
  "markOwnedUncertain env t reason fs =
     (case mutateOwnedReceipt env (tk_path t) (tk_deliveryId t) (tk_digest t) (tk_executionId t)
        (\<lambda>c. Some (uncertain_receipt env reason c)) fs of (fs', r) \<Rightarrow> (fs', bind r (\<lambda>o'. Inr (o' \<noteq> None))))"

definition releaseOwnedSending :: "durable_env \<Rightarrow> dtask \<Rightarrow> durable_files \<Rightarrow> durable_files \<times> bool result" where
  "releaseOwnedSending env t fs =
     (case mutateOwnedReceipt env (tk_path t) (tk_deliveryId t) (tk_digest t) (tk_executionId t)
        (\<lambda>c. Some (released_receipt env c)) fs of (fs', r) \<Rightarrow> (fs', bind r (\<lambda>o'. Inr (o' \<noteq> None))))"

section \<open>The body of a claimed delivery\<close>

definition lost_before_uncertain :: string where
  "lost_before_uncertain = ''The delivery execution lost ownership before its uncertain receipt was committed.''"

text \<open>The handlers of \<open>executeClaimedDelivery\<close>, the outermost first; \<open>i\<close> counts the checks of authority of the step.\<close>

definition body_failed :: "durable_env \<Rightarrow> nat \<Rightarrow> js_error \<Rightarrow> dtask \<Rightarrow> dtask" where
  "body_failed env i e t = (case requestAuthority env i of
     Inl e' \<Rightarrow> goto (Stopping (Inl e')) t
   | Inr _ \<Rightarrow> goto (Marking Last (message_of e @ '' The delivery owner failed before committing a terminal receipt.'')
       lost_before_uncertain (tk_recoverFirst t)) t)"

text \<open>
  The promise of \<open>deliverOnce\<close> is returned without \<open>await\<close>: what its own \<open>catch\<close> throws is not caught by the body, and
  \<open>finally\<close> stops the heartbeat as soon as the retry has called \<open>deliver\<close>.
\<close>

definition retry_failed :: "durable_env \<Rightarrow> nat \<Rightarrow> js_error \<Rightarrow> dtask \<Rightarrow> dtask" where
  "retry_failed env i e t = (case requestAuthority env i of
     Inl e' \<Rightarrow> goto (Stopping (Inl e')) t
   | Inr _ \<Rightarrow> goto (Marking Last (message_of e
       @ '' The one authorized recovery retry did not produce a terminal receipt; do not resend automatically.'')
       lost_before_uncertain False) t)"

definition recovery_failed :: "durable_env \<Rightarrow> nat \<Rightarrow> js_error \<Rightarrow> bool \<Rightarrow> dtask \<Rightarrow> dtask" where
  "recovery_failed env i e duplicate t = (case requestAuthority env i of
     Inl e' \<Rightarrow> body_failed env (i + 1) e' t
   | Inr _ \<Rightarrow> goto (Marking InBody (message_of e @
       (if duplicate then '' Recovery could not determine the earlier delivery result.''
        else '' Recovery could not determine the delivery result.'')) lost_before_uncertain duplicate) t)"

definition ask_recovery :: "durable_env \<Rightarrow> nat \<Rightarrow> bool \<Rightarrow> dtask \<Rightarrow> dtask \<times> delivery_event list" where
  "ask_recovery env i duplicate t = (case requestAuthority env i of
     Inl e \<Rightarrow> (recovery_failed env (i + 1) e duplicate t, [])
   | Inr _ \<Rightarrow> (goto (Asking duplicate) t, [RecoverCall (tk_path t) (tk_executionId t)]))"

definition first_failed :: "durable_env \<Rightarrow> nat \<Rightarrow> js_error \<Rightarrow> dtask \<Rightarrow> dtask \<times> delivery_event list" where
  "first_failed env i e t = (case requestAuthority env i of
     Inl e' \<Rightarrow> (body_failed env (i + 1) e' t, [])
   | Inr _ \<Rightarrow> if \<not> op_recover (tk_options t)
       then (goto (Marking InBody (message_of e @ '' The send result is uncertain; do not resend automatically.'')
         lost_before_uncertain False) t, [])
       else ask_recovery env (i + 1) False t)"

text \<open>The two calls of \<open>deliver\<close>.\<close>

definition first_send :: "durable_env \<Rightarrow> nat \<Rightarrow> dtask \<Rightarrow> dtask \<times> delivery_event list" where
  "first_send env i t = (case requestAuthority env i of
     Inl e \<Rightarrow> first_failed env (i + 1) e t
   | Inr _ \<Rightarrow> (goto (Delivering InFirst) t, [DeliverCall (tk_path t) (tk_executionId t)]))"

definition deliverOnce :: "durable_env \<Rightarrow> nat \<Rightarrow> dtask \<Rightarrow> dtask \<times> delivery_event list" where
  "deliverOnce env i t = (case requestAuthority env i of
     Inl e \<Rightarrow> (retry_failed env (i + 1) e t, [])
   | Inr _ \<Rightarrow> (goto (Delivering InRetry) (t\<lparr>tk_heart := HeartIdle\<rparr>), [DeliverCall (tk_path t) (tk_executionId t)]))"

text \<open>What follows an answer of \<open>recover\<close>.\<close>

definition after_recovery :: "durable_env \<Rightarrow> recovery_answer \<Rightarrow> bool \<Rightarrow> dtask \<Rightarrow> dtask \<times> delivery_event list" where
  "after_recovery env answer duplicate t = (case requestAuthority env 0 of
     Inl e \<Rightarrow> (recovery_failed env 1 e duplicate t, [])
   | Inr _ \<Rightarrow> (case answer of
       RecoveredResult v \<Rightarrow> (goto (Settling InBody v duplicate) t, [])
     | RecoverRetry \<Rightarrow> (case deliverOnce env 1 t of (t', es) \<Rightarrow> (t', RetryGranted (tk_path t) (tk_executionId t) # es))
     | RecoverInProgress reason \<Rightarrow> (goto (Releasing reason duplicate) t, [])
     | RecoverUncertain reason \<Rightarrow> (goto (Marking InBody reason lost_before_uncertain duplicate) t, [])))"

definition after_delivery :: "durable_env \<Rightarrow> handler \<Rightarrow> jval \<Rightarrow> dtask \<Rightarrow> dtask \<times> delivery_event list" where
  "after_delivery env h v t = (case requestAuthority env 0 of
     Inl e \<Rightarrow> if h = InFirst then first_failed env 1 e t else (retry_failed env 1 e t, [])
   | Inr _ \<Rightarrow> (goto (Settling h v False) t, []))"

text \<open>An error thrown inside a section, by the handler it reaches; three checks of authority are past.\<close>

definition section_failed :: "durable_env \<Rightarrow> handler \<Rightarrow> js_error \<Rightarrow> dtask \<Rightarrow> dtask \<times> delivery_event list" where
  "section_failed env h e t = (case h of
     InFirst \<Rightarrow> first_failed env 4 e t
   | InRetry \<Rightarrow> (retry_failed env 4 e t, [])
   | InBody \<Rightarrow> (body_failed env 4 e t, [])
   | Last \<Rightarrow> (goto (Stopping (Inl e)) t, [])
   | AtStart \<Rightarrow> (goto (Ended (Inl e)) t, []))"

text \<open>The end of a section without an error: \<open>finally\<close> stops the heartbeat, which had not begun before \<open>AtStart\<close>.\<close>

definition section_done :: "handler \<Rightarrow> durable_outcome \<Rightarrow> dtask \<Rightarrow> dtask" where
  "section_done h out t = goto (if h = AtStart then Ended (Inr out) else Stopping (Inr out)) t"

definition start_failed :: "durable_env \<Rightarrow> nat \<Rightarrow> js_error \<Rightarrow> dtask \<Rightarrow> dtask" where
  "start_failed env i e t = (case requestAuthority env i of
     Inl e' \<Rightarrow> goto (Ended (Inl e')) (t\<lparr>tk_heart := HeartIdle\<rparr>)
   | Inr _ \<Rightarrow> goto (Marking AtStart (message_of e) ''The delivery execution lost ownership before its heartbeat started.''
       (tk_recoverFirst t)) (t\<lparr>tk_heart := HeartIdle\<rparr>))"

text \<open>\<open>executeClaimedDelivery\<close> up to the start of the heartbeat, and its body from there.\<close>

definition executeClaimedDelivery :: "durable_env \<Rightarrow> nat \<Rightarrow> durable_receipt \<Rightarrow> bool \<Rightarrow> dtask \<Rightarrow> dtask" where
  "executeClaimedDelivery env i r recoverFirst t =
     (let t' = t\<lparr>tk_recoverFirst := recoverFirst\<rparr> in
      case requestAuthority env i of Inl e \<Rightarrow> goto (Ended (Inl e)) t'
      | Inr _ \<Rightarrow> if or_str (dr_ownerHost r) [] = [] \<or> (case dr_ownerPid r of None \<Rightarrow> True | Some p \<Rightarrow> p \<le> 0)
          then start_failed env (i + 1) (Err ''Durable delivery receipt has no valid execution owner.'') t'
          else goto Starting (t'\<lparr>tk_heart := HeartStarting\<rparr>))"

definition claimed_body :: "durable_env \<Rightarrow> dtask \<Rightarrow> dtask \<times> delivery_event list" where
  "claimed_body env t =
     (if tk_recoverFirst t then
        (if \<not> op_recover (tk_options t)
         then (goto (Releasing ''The delivery is already reserved or sending; query its receipt before retrying.'' True) t, [])
         else ask_recovery env 0 True t)
      else first_send env 0 t)"

section \<open>From the request to the claim\<close>

definition default_lease :: int where
  "default_lease = 15 * 60000"

text \<open>
  \<open>executeDurableDelivery\<close> up to the opening of the receipt. The waiting time of the options is the one after the
  default of the time-out settings.
\<close>

definition executeDurableDelivery ::
    "durable_env \<Rightarrow> (string \<Rightarrow> string) \<Rightarrow> string \<Rightarrow> string \<Rightarrow> jval \<Rightarrow> jval \<Rightarrow> delivery_options \<Rightarrow> string \<Rightarrow> durable_files
      \<Rightarrow> durable_files \<times> dtask result" where
  "executeDurableDelivery env sha root namespace deliveryId payload opts executionId fs =
     (let leaseMs = max 100 (case op_leaseMs opts of None \<Rightarrow> default_lease | Some ms \<Rightarrow> ms);
          digest = requestDigest sha payload in
      case bind (requestAuthority env 0) (\<lambda>_. bind (normalizeDurableDeliveryId deliveryId) (\<lambda>i.
           bind (requestAuthority env 1) (\<lambda>_. bind (durableDeliveryReceiptPath sha root namespace (JStr i)) (\<lambda>path.
           bind (reservation env i digest executionId leaseMs (op_audit opts)) (\<lambda>r.
           bind (requestAuthority env 2) (\<lambda>_. Inr (i, path, r))))))) of
        Inl e \<Rightarrow> (fs, Inl e)
      | Inr (i, path, r) \<Rightarrow> (case openReservation env path fs of
          (fs', Inl e) \<Rightarrow> (fs', Inl e)
        | (fs', Inr created) \<Rightarrow> (fs', Inr
            \<lparr>tk_path = path, tk_deliveryId = i, tk_digest = digest, tk_executionId = executionId,
             tk_leaseMs = leaseMs, tk_options = opts, tk_host = de_host env, tk_pid = de_pid env,
             tk_recoverFirst = False, tk_heart = HeartIdle,
             tk_phase = (if created then Filling r else Looking)\<rparr>)))"

definition conflict_reason :: string where
  "conflict_reason = ''The deliveryId is already reserved for a different payload.''"

definition earlier_uncertain :: "durable_receipt \<Rightarrow> string" where
  "earlier_uncertain r = or_str (dr_error r) ''The earlier delivery result is uncertain; do not resend automatically.''"

text \<open>The receipt that was found at the reservation, the waiting loop, and the decision after it.\<close>

definition after_look :: "durable_env \<Rightarrow> dtask \<Rightarrow> durable_files \<Rightarrow> dtask" where
  "after_look env t fs =
     (let found = read_receipt (tk_path t) (tk_deliveryId t) fs in
      case requestAuthority env 0 of Inl e \<Rightarrow> goto (Ended (Inl e)) t
      | Inr _ \<Rightarrow> (case found of
          None \<Rightarrow> pending_end IsUncertain ''The delivery receipt is unreadable; do not resend automatically.'' t
        | Some r \<Rightarrow>
            if dr_requestDigest r \<noteq> tk_digest t then pending_end IsConflict conflict_reason t
            else if dr_state r = Completed \<and> dr_result r \<noteq> JUndef
            then goto (Ended (Inr (CompletedOutcome True (dr_result r)))) t
            else if dr_state r \<noteq> Uncertain
            then goto (Waiting r (de_now env + max 0 (op_waitMs (tk_options t)))) t
            else if \<not> op_recoverExistingUncertain (tk_options t) \<or> \<not> op_recover (tk_options t)
            then pending_end IsUncertain (earlier_uncertain r) t
            else goto (Claiming r) t))"

definition after_wait :: "durable_env \<Rightarrow> durable_receipt \<Rightarrow> dtask \<Rightarrow> dtask" where
  "after_wait env r t = (case requestAuthority env 2 of Inl e \<Rightarrow> goto (Ended (Inl e)) t
     | Inr _ \<Rightarrow>
        if dr_requestDigest r \<noteq> tk_digest t then pending_end IsConflict conflict_reason t
        else if dr_state r = Completed \<and> dr_result r \<noteq> JUndef
        then goto (Ended (Inr (CompletedOutcome True (dr_result r)))) t
        else if dr_state r = Uncertain \<and> (\<not> op_recoverExistingUncertain (tk_options t) \<or> \<not> op_recover (tk_options t))
        then pending_end IsUncertain (earlier_uncertain r) t
        else if dr_state r \<noteq> Uncertain \<and> \<not> op_recover (tk_options t)
        then pending_end InProgress ''The delivery is already reserved or sending; query its receipt before retrying.'' t
        else goto (Claiming r) t)"

definition waitForTerminal :: "durable_env \<Rightarrow> durable_receipt \<Rightarrow> int \<Rightarrow> dtask \<Rightarrow> durable_files \<Rightarrow> dtask" where
  "waitForTerminal env earlier deadline t fs =
     (case requestAuthority env 0 of Inl e \<Rightarrow> goto (Ended (Inl e)) t
      | Inr _ \<Rightarrow>
         let found = read_receipt (tk_path t) (tk_deliveryId t) fs in
         case requestAuthority env 1 of Inl e \<Rightarrow> goto (Ended (Inl e)) t
         | Inr _ \<Rightarrow> (case found of
             None \<Rightarrow> after_wait env earlier t
           | Some r \<Rightarrow> if dr_state r = Completed \<or> dr_state r = Uncertain \<or> deadline \<le> de_now env
               then after_wait env r t else t))"

definition after_claim :: "durable_env \<Rightarrow> bool \<times> durable_receipt option \<Rightarrow> dtask \<Rightarrow> dtask" where
  "after_claim env claim t = (case requestAuthority env 2 of Inl e \<Rightarrow> goto (Ended (Inl e)) t
     | Inr _ \<Rightarrow> (case claim of
         (_, None) \<Rightarrow> pending_end IsUncertain ''The delivery receipt became unreadable while acquiring execution ownership.'' t
       | (claimed, Some r) \<Rightarrow>
           if claimed then executeClaimedDelivery env 3 r True t
           else if dr_requestDigest r \<noteq> tk_digest t then pending_end IsConflict conflict_reason t
           else if dr_state r = Completed \<and> dr_result r \<noteq> JUndef
           then goto (Ended (Inr (CompletedOutcome True (dr_result r)))) t
           else if dr_state r = Uncertain then pending_end IsUncertain (earlier_uncertain r) t
           else pending_end InProgress ''Another execution still owns this delivery; do not resend automatically.'' t))"

section \<open>The resumption of a task\<close>

definition with_files :: "durable_files \<Rightarrow> dtask \<times> delivery_event list \<Rightarrow> durable_files \<times> dtask \<times> delivery_event list" where
  "with_files fs x = (fs, x)"

definition silently :: "durable_files \<Rightarrow> dtask \<Rightarrow> durable_files \<times> dtask \<times> delivery_event list" where
  "silently fs t = (fs, t, [])"

text \<open>The event of a receipt that a settlement has removed.\<close>

definition freed :: "dtask \<Rightarrow> durable_files \<Rightarrow> durable_files \<Rightarrow> delivery_event list" where
  "freed t fs fs' = (if map_of fs (tk_path t) \<noteq> None \<and> map_of fs' (tk_path t) = None
     then [ReceiptFreed (tk_path t) (tk_executionId t)] else [])"

definition fill_step :: "durable_env \<Rightarrow> durable_receipt \<Rightarrow> dtask \<Rightarrow> durable_files \<Rightarrow> durable_files \<times> dtask \<times> delivery_event list" where
  "fill_step env r t fs = (case fillReservation env (tk_path t) r fs of
     (fs', Inl e) \<Rightarrow> silently fs' (goto (Ended (Inl e)) t)
   | (fs', Inr r') \<Rightarrow> (case requestAuthority env 0 of
       Inl e \<Rightarrow> silently fs' (goto (Ended (Inl e)) t)
     | Inr _ \<Rightarrow> silently fs' (executeClaimedDelivery env 1 r' False t)))"

definition claim_step :: "durable_env \<Rightarrow> durable_receipt \<Rightarrow> dtask \<Rightarrow> durable_files \<Rightarrow> durable_files \<times> dtask \<times> delivery_event list" where
  "claim_step env earlier t fs =
     (case claimReceipt env (tk_path t) (tk_deliveryId t) (tk_digest t) (tk_executionId t) (tk_leaseMs t)
        (dr_state earlier = Uncertain \<and> op_recoverExistingUncertain (tk_options t)) fs of
        (fs', Inl e) \<Rightarrow> silently fs' (goto (Ended (Inl e)) t)
      | (fs', Inr claim) \<Rightarrow> silently fs' (after_claim env claim t))"

definition start_step :: "durable_env \<Rightarrow> wakening \<Rightarrow> dtask \<Rightarrow> (dtask \<times> delivery_event list) option" where
  "start_step env rp t = (case (tk_heart t, rp) of
     (HeartFailed n, Go) \<Rightarrow> Some (start_failed env 0 (heartbeatFailure n ''initial renewal'') t, [])
   | (HeartActive _, Go) \<Rightarrow> Some (claimed_body env t)
   | (_, HeartbeatGaveUp) \<Rightarrow> Some (start_failed env 0 (heartbeatFailure 0 ''initial renewal'') t, [])
   | _ \<Rightarrow> None)"

definition settle_step :: "durable_env \<Rightarrow> handler \<Rightarrow> jval \<Rightarrow> bool \<Rightarrow> dtask \<Rightarrow> durable_files \<Rightarrow> durable_files \<times> dtask \<times> delivery_event list" where
  "settle_step env h v duplicate t fs = (case settleOwnedResult env t v duplicate fs of
     (fs', Inl e) \<Rightarrow> (case section_failed env h e t of (t', es) \<Rightarrow> (fs', t', freed t fs fs' @ es))
   | (fs', Inr out) \<Rightarrow> (fs', section_done h out t, freed t fs fs'))"

definition mark_step :: "durable_env \<Rightarrow> handler \<Rightarrow> string \<Rightarrow> string \<Rightarrow> bool \<Rightarrow> dtask \<Rightarrow> durable_files \<Rightarrow> durable_files \<times> dtask \<times> delivery_event list" where
  "mark_step env h reason lost duplicate t fs = (case markOwnedUncertain env t reason fs of
     (fs', Inl e) \<Rightarrow> with_files fs' (section_failed env h e t)
   | (fs', Inr retained) \<Rightarrow> silently fs' (section_done h (PendingOutcome IsUncertain duplicate (if retained then reason else lost)) t))"

definition release_step :: "durable_env \<Rightarrow> string \<Rightarrow> bool \<Rightarrow> dtask \<Rightarrow> durable_files \<Rightarrow> durable_files \<times> dtask \<times> delivery_event list" where
  "release_step env reason duplicate t fs = (case releaseOwnedSending env t fs of
     (fs', Inl e) \<Rightarrow> with_files fs' (section_failed env InBody e t)
   | (fs', Inr _) \<Rightarrow> silently fs' (section_done InBody (PendingOutcome InProgress duplicate reason) t))"

text \<open>A task resumes when the reply is the one its phase waits for.\<close>

definition resume_delivery :: "durable_env \<Rightarrow> wakening \<Rightarrow> dtask \<Rightarrow> durable_files \<Rightarrow> (durable_files \<times> dtask \<times> delivery_event list) option" where
  "resume_delivery env rp t fs = (case (tk_phase t, rp) of
     (Filling r, Go) \<Rightarrow> Some (fill_step env r t fs)
   | (Looking, Go) \<Rightarrow> Some (silently fs (after_look env t fs))
   | (Waiting earlier deadline, Go) \<Rightarrow> Some (silently fs (waitForTerminal env earlier deadline t fs))
   | (Claiming earlier, Go) \<Rightarrow> Some (claim_step env earlier t fs)
   | (Starting, rp) \<Rightarrow> map_option (with_files fs) (start_step env rp t)
   | (Delivering h, DeliverGave v) \<Rightarrow> Some (with_files fs (after_delivery env h v t))
   | (Delivering h, DeliverThrew e) \<Rightarrow> Some (with_files fs
        (if h = InFirst then first_failed env 0 e t else (retry_failed env 0 e t, [])))
   | (Asking duplicate, RecoverGave answer) \<Rightarrow> Some (with_files fs (after_recovery env answer duplicate t))
   | (Asking duplicate, RecoverThrew e) \<Rightarrow> Some (silently fs (recovery_failed env 0 e duplicate t))
   | (Settling h v duplicate, Go) \<Rightarrow> Some (settle_step env h v duplicate t fs)
   | (Marking h reason lost duplicate, Go) \<Rightarrow> Some (mark_step env h reason lost duplicate t fs)
   | (Releasing reason duplicate, Go) \<Rightarrow> Some (release_step env reason duplicate t fs)
   | (Stopping answer, Go) \<Rightarrow> Some (silently fs (goto (Ended answer) (t\<lparr>tk_heart := HeartIdle\<rparr>)))
   | _ \<Rightarrow> None)"

section \<open>Processes that share the receipts\<close>

text \<open>
  The world: the files, the live processes (host and process identifier), the tasks by execution
  identifier, the reconciliations that wait for their verifier, and the trace. When a process dies, its
  unfinished tasks and reconciliations are gone.
\<close>

record pending_check =
  pc_path :: string
  pc_deliveryId :: string
  pc_digest :: string
  pc_revision :: revision
  pc_process :: "string \<times> int"

record durable_world =
  dw_files :: durable_files
  dw_alive :: "(string \<times> int) list"
  dw_tasks :: "(string \<times> dtask) list"
  dw_checks :: "pending_check list"
  dw_events :: "delivery_event list"

definition lease_of :: "dtask \<Rightarrow> lease_holder" where
  "lease_of t = \<lparr>lh_path = tk_path t, lh_deliveryId = tk_deliveryId t, lh_digest = tk_digest t,
     lh_executionId = tk_executionId t, lh_ownerHost = tk_host t, lh_ownerPid = tk_pid t, lh_leaseMs = tk_leaseMs t\<rparr>"

fun ended :: "delivery_phase \<Rightarrow> bool" where
  "ended (Ended _) = True"
| "ended _ = False"

text \<open>A process acts in its own name and finds every live process of its host.\<close>

definition acts_as :: "durable_world \<Rightarrow> string \<times> int \<Rightarrow> durable_env \<Rightarrow> bool" where
  "acts_as w process env \<longleftrightarrow> process \<in> set (dw_alive w) \<and> process = (de_host env, de_pid env)
     \<and> list_all (\<lambda>(h, p). map js_lower h = map js_lower (de_host env) \<longrightarrow> de_alive env p) (dw_alive w)"

definition called ::
    "durable_env \<Rightarrow> (string \<Rightarrow> string) \<Rightarrow> string \<Rightarrow> string \<Rightarrow> jval \<Rightarrow> jval \<Rightarrow> delivery_options \<Rightarrow> string \<Rightarrow> durable_world \<Rightarrow> durable_world" where
  "called env sha root namespace deliveryId payload opts executionId w =
     (case executeDurableDelivery env sha root namespace deliveryId payload opts executionId (dw_files w) of
        (fs', Inl e) \<Rightarrow> w\<lparr>dw_files := fs'\<rparr>
      | (fs', Inr t) \<Rightarrow> w\<lparr>dw_files := fs', dw_tasks := AList.update executionId t (dw_tasks w)\<rparr>)"

definition resumed :: "durable_env \<Rightarrow> wakening \<Rightarrow> string \<Rightarrow> dtask \<Rightarrow> durable_world \<Rightarrow> durable_world option" where
  "resumed env rp e t w = (case resume_delivery env rp t (dw_files w) of None \<Rightarrow> None
     | Some (fs', t', es) \<Rightarrow> Some (w\<lparr>dw_files := fs', dw_tasks := AList.update e t' (dw_tasks w),
         dw_events := dw_events w @ es\<rparr>))"

definition renewed :: "durable_env \<Rightarrow> string \<Rightarrow> dtask \<Rightarrow> durable_world \<Rightarrow> durable_world" where
  "renewed env e t w = (case renew env (lease_of t) (tk_heart t) (dw_files w) of (fs', heart) \<Rightarrow>
     w\<lparr>dw_files := fs', dw_tasks := AList.update e (t\<lparr>tk_heart := heart\<rparr>) (dw_tasks w)\<rparr>)"

definition died :: "string \<times> int \<Rightarrow> durable_world \<Rightarrow> durable_world" where
  "died process w = w\<lparr>dw_alive := filter (\<lambda>x. x \<noteq> process) (dw_alive w),
     dw_tasks := filter (\<lambda>(e, t). (tk_host t, tk_pid t) \<noteq> process \<or> ended (tk_phase t)) (dw_tasks w),
     dw_checks := filter (\<lambda>c. pc_process c \<noteq> process) (dw_checks w)\<rparr>"

definition check_started ::
    "durable_env \<Rightarrow> (contents \<Rightarrow> string) \<Rightarrow> string \<Rightarrow> string \<Rightarrow> string \<Rightarrow> durable_files \<Rightarrow> durable_world \<Rightarrow> durable_world" where
  "check_started env contentDigest path i digest before w =
     (case startReconcile env contentDigest path i digest before (dw_files w) of Inl _ \<Rightarrow> w
      | Inr (r, seen) \<Rightarrow> w\<lparr>dw_checks := dw_checks w @ [\<lparr>pc_path = path, pc_deliveryId = i, pc_digest = digest,
          pc_revision = seen, pc_process = (de_host env, de_pid env)\<rparr>]\<rparr>)"

definition check_ended :: "durable_env \<Rightarrow> (contents \<Rightarrow> string) \<Rightarrow> nat \<Rightarrow> verification \<Rightarrow> durable_world \<Rightarrow> durable_world" where
  "check_ended env contentDigest n answer w = (let c = dw_checks w ! n in
     case finishReconcile env contentDigest (pc_path c) (pc_deliveryId c) (pc_digest c) (pc_revision c) answer (dw_files w) of
       (fs', _) \<Rightarrow> w\<lparr>dw_files := fs', dw_checks := take n (dw_checks w) @ drop (Suc n) (dw_checks w)\<rparr>)"

text \<open>
  The steps, in a network of the given hosts where writes end in the given ways. Execution identifiers are
  new UUIDs; a heartbeat beats from its start until its task has stopped it.
\<close>

inductive durable_step :: "string set \<Rightarrow> file_write set \<Rightarrow> durable_world \<Rightarrow> durable_world \<Rightarrow> bool"
  for hosts :: "string set" and writes :: "file_write set" where
  call: "acts_as w process env \<Longrightarrow> de_write env \<in> writes \<Longrightarrow> executionId \<noteq> []
    \<Longrightarrow> executionId \<notin> set (map fst (dw_tasks w))
    \<Longrightarrow> durable_step hosts writes w (called env sha root namespace deliveryId payload opts executionId w)"
| go_on: "map_of (dw_tasks w) e = Some t \<Longrightarrow> acts_as w (tk_host t, tk_pid t) env \<Longrightarrow> de_write env \<in> writes
    \<Longrightarrow> resumed env rp e t w = Some w' \<Longrightarrow> durable_step hosts writes w w'"
| beat: "map_of (dw_tasks w) e = Some t \<Longrightarrow> acts_as w (tk_host t, tk_pid t) env \<Longrightarrow> de_write env \<in> writes
    \<Longrightarrow> tk_heart t \<noteq> HeartIdle \<Longrightarrow> (\<And>n. tk_heart t \<noteq> HeartFailed n)
    \<Longrightarrow> durable_step hosts writes w (renewed env e t w)"
| check_start: "acts_as w process env
    \<Longrightarrow> durable_step hosts writes w (check_started env contentDigest path i digest before w)"
| check_end: "n < length (dw_checks w) \<Longrightarrow> acts_as w (pc_process (dw_checks w ! n)) env \<Longrightarrow> de_write env \<in> writes
    \<Longrightarrow> durable_step hosts writes w (check_ended env contentDigest n answer w)"
| spawn: "h \<in> hosts \<Longrightarrow> h \<noteq> [] \<Longrightarrow> 0 < p \<Longrightarrow> (h, p) \<notin> set (dw_alive w)
    \<Longrightarrow> durable_step hosts writes w (w\<lparr>dw_alive := (h, p) # dw_alive w\<rparr>)"
| die: "durable_step hosts writes w (died process w)"

definition quiet_world :: "durable_files \<Rightarrow> durable_world" where
  "quiet_world fs = \<lparr>dw_files = fs, dw_alive = [], dw_tasks = [], dw_checks = [], dw_events = []\<rparr>"

end
