(* ===== verification/DurableProps.thy ===== *)
theory DurableProps
  imports DurableDelivery
begin

text \<open>
  What durable deliveries promise, for every interleaving of processes that share the receipt files,
  with their crashes, lost locks, failed and interrupted writes and revoked requests.
\<close>

section \<open>What a resumption can do\<close>

definition same_task :: "dtask \<Rightarrow> dtask \<Rightarrow> bool" where
  "same_task t t' \<longleftrightarrow> tk_path t' = tk_path t \<and> tk_deliveryId t' = tk_deliveryId t \<and> tk_digest t' = tk_digest t
     \<and> tk_executionId t' = tk_executionId t \<and> tk_leaseMs t' = tk_leaseMs t \<and> tk_options t' = tk_options t
     \<and> tk_host t' = tk_host t \<and> tk_pid t' = tk_pid t"

lemma same_task_refl [simp]: "same_task t t"
  by (simp add: same_task_def)

lemma same_task_trans: "same_task t u \<Longrightarrow> same_task u v \<Longrightarrow> same_task t v"
  by (simp add: same_task_def)

lemma same_task_goto [simp]: "same_task t (goto ph u) = same_task t u"
  "same_task t (u\<lparr>tk_heart := h\<rparr>) = same_task t u" "same_task t (u\<lparr>tk_recoverFirst := b\<rparr>) = same_task t u"
  "same_task (t\<lparr>tk_recoverFirst := b\<rparr>) u = same_task t u"
  by (simp_all add: same_task_def goto_def)

lemma goto_simps [simp]: "tk_phase (goto ph t) = ph" "tk_path (goto ph t) = tk_path t"
  "tk_recoverFirst (goto ph t) = tk_recoverFirst t" "tk_heart (goto ph t) = tk_heart t"
  by (simp_all add: goto_def)

text \<open>The phases of a claimed delivery between its start and its end, and the ends of the others.\<close>

fun working :: "delivery_phase \<Rightarrow> bool" where
  "working (Delivering h) = True"
| "working (Asking b) = True"
| "working (Settling h v b) = True"
| "working (Marking h r l b) = True"
| "working (Releasing r b) = True"
| "working _ = False"

fun gives_up :: "delivery_phase \<Rightarrow> bool" where
  "gives_up (Stopping a) = (\<exists>e. a = Inl e)"
| "gives_up (Ended a) = (\<exists>e. a = Inl e)"
| "gives_up _ = False"

fun fresh_phase :: "delivery_phase \<Rightarrow> bool \<Rightarrow> bool" where
  "fresh_phase (Filling r) b = True"
| "fresh_phase Starting b = (\<not> b)"
| "fresh_phase _ b = False"

lemma working_not_fresh [simp]: "working ph \<Longrightarrow> \<not> fresh_phase ph b" "gives_up ph \<Longrightarrow> \<not> fresh_phase ph b"
  by (cases ph; simp)+

text \<open>Events: deliveries, and what allows another one.\<close>

fun delivers_to :: "string \<Rightarrow> delivery_event \<Rightarrow> bool" where
  "delivers_to k (DeliverCall p e) = (p = k)"
| "delivers_to k _ = False"

fun allows_to :: "string \<Rightarrow> delivery_event \<Rightarrow> bool" where
  "allows_to k (RetryGranted p e) = (p = k)"
| "allows_to k (ReceiptFreed p e) = (p = k)"
| "allows_to k _ = False"

definition deliver_calls :: "string \<Rightarrow> delivery_event list \<Rightarrow> nat" where
  "deliver_calls k es = length (filter (delivers_to k) es)"

definition allowances :: "string \<Rightarrow> delivery_event list \<Rightarrow> nat" where
  "allowances k es = length (filter (allows_to k) es)"

lemma event_count_simps [simp]:
  "deliver_calls k [] = 0" "deliver_calls k (e # es) = of_bool (delivers_to k e) + deliver_calls k es"
  "allowances k [] = 0" "allowances k (e # es) = of_bool (allows_to k e) + allowances k es"
  "deliver_calls k (es @ fs) = deliver_calls k es + deliver_calls k fs"
  "allowances k (es @ fs) = allowances k es + allowances k fs"
  by (simp_all add: deliver_calls_def allowances_def)

text \<open>
  \<open>carries_on\<close>: what every handler returns. The task is the same, it works on or gives up, and the trace
  has neither a delivery nor an allowance, or only a delivery.
\<close>

definition carries_on :: "dtask \<Rightarrow> dtask \<Rightarrow> bool" where
  "carries_on t t' \<longleftrightarrow> same_task t t' \<and> (working (tk_phase t') \<or> gives_up (tk_phase t'))"

lemma carries_on_goto [simp]: "carries_on t (goto ph u) \<longleftrightarrow> same_task t u \<and> (working ph \<or> gives_up ph)"
  by (simp add: carries_on_def)

lemma handlers_carry_on [simp]:
  "carries_on t (body_failed env i e t)" "carries_on t (retry_failed env i e t)"
  "carries_on t (recovery_failed env i e d t)" "carries_on t (start_failed env i e t)"
  by (simp_all add: carries_on_def body_failed_def retry_failed_def recovery_failed_def start_failed_def split: sum.splits)

lemma ask_recovery_carries_on:
  assumes "ask_recovery env i d t = (t', es)"
  shows "carries_on t t' \<and> deliver_calls k es = 0 \<and> allowances k es = 0"
  using assms
  by (auto simp: ask_recovery_def split: sum.splits)

lemma first_failed_carries_on:
  assumes "first_failed env i e t = (t', es)"
  shows "carries_on t t' \<and> deliver_calls k es = 0 \<and> allowances k es = 0"
  using assms ask_recovery_carries_on
  by (auto simp: first_failed_def split: sum.splits if_splits)

lemma first_send_carries_on:
  assumes "first_send env i t = (t', es)"
  shows "carries_on t t' \<and> deliver_calls k es \<le> of_bool (tk_path t = k) \<and> allowances k es = 0"
proof (cases "requestAuthority env i")
  case (Inl e)
  with assms first_failed_carries_on [of env "i + 1" e t t' es k] show ?thesis by (simp add: first_send_def)
next
  case (Inr u)
  with assms show ?thesis by (auto simp: first_send_def)
qed

lemma deliverOnce_carries_on:
  assumes "deliverOnce env i t = (t', es)"
  shows "carries_on t t' \<and> deliver_calls k es \<le> of_bool (tk_path t = k) \<and> allowances k es = 0"
  using assms by (auto simp: deliverOnce_def split: sum.splits)

lemma after_recovery_carries_on:
  assumes "after_recovery env a d t = (t', es)"
  shows "carries_on t t' \<and> deliver_calls k es \<le> allowances k es"
proof (cases "a = RecoverRetry \<and> requestAuthority env 0 = Inr ()")
  case True
  obtain u fs where u: "deliverOnce env 1 t = (u, fs)" by fastforce
  with True assms deliverOnce_carries_on [OF u, of k] show ?thesis by (auto simp: after_recovery_def)
next
  case False
  with assms show ?thesis
    by (auto simp: after_recovery_def split: sum.splits recovery_answer.splits prod.splits)
qed

lemma after_delivery_carries_on:
  assumes "after_delivery env h v t = (t', es)"
  shows "carries_on t t' \<and> deliver_calls k es = 0 \<and> allowances k es = 0"
  using assms first_failed_carries_on
  by (auto simp: after_delivery_def split: sum.splits if_splits)

lemma section_failed_carries_on:
  assumes "section_failed env h e t = (t', es)"
  shows "carries_on t t' \<and> deliver_calls k es = 0 \<and> allowances k es = 0"
  using assms first_failed_carries_on
  by (auto simp: section_failed_def split: handler.splits)

lemma claimed_body_carries_on:
  assumes "claimed_body env t = (t', es)"
  shows "carries_on t t' \<and> deliver_calls k es \<le> of_bool (tk_path t = k \<and> \<not> tk_recoverFirst t) \<and> allowances k es = 0"
proof (cases "tk_recoverFirst t")
  case True
  with assms ask_recovery_carries_on [of env 0 True t t' es k] show ?thesis
    by (auto simp: claimed_body_def split: if_splits)
next
  case False
  with assms first_send_carries_on [of env 0 t t' es k] show ?thesis by (simp add: claimed_body_def)
qed

section \<open>How many deliveries\<close>

definition fresh :: "dtask \<Rightarrow> bool" where
  "fresh t \<longleftrightarrow> fresh_phase (tk_phase t) (tk_recoverFirst t)"

lemma carries_on_not_fresh: "carries_on t t' \<Longrightarrow> same_task t t' \<and> \<not> fresh t'"
  by (auto simp: carries_on_def fresh_def)

lemma handlers_not_fresh [simp]:
  "\<not> fresh (body_failed env i e t)" "\<not> fresh (retry_failed env i e t)"
  "\<not> fresh (recovery_failed env i e d t)" "\<not> fresh (start_failed env i e t)"
  using carries_on_not_fresh handlers_carry_on by blast+

lemma handlers_same [simp]:
  "same_task t (body_failed env i e u) = same_task t u" "same_task t (retry_failed env i e u) = same_task t u"
  "same_task t (recovery_failed env i e d u) = same_task t u" "same_task t (start_failed env i e u) = same_task t u"
  using handlers_carry_on [of u] unfolding carries_on_def same_task_def by auto

lemma fresh_goto [simp]: "fresh (goto ph t) = fresh_phase ph (tk_recoverFirst t)"
  by (simp add: fresh_def)

text \<open>A file is missing afterwards only when it was before, or when a settlement has removed it.\<close>

lemma replaces_present: "replaces path fs fs' r \<Longrightarrow> map_of fs' k = None \<Longrightarrow> map_of fs k = None"
  using replacesD [of path fs fs' r k] by (metis content_None option.distinct(1))

lemma mutate_present:
  assumes "mutateOwnedReceipt env path i digest e m fs = (fs', res)" "\<And>c. m c \<noteq> None" "map_of fs' k = None"
  shows "map_of fs k = None"
proof -
  have "replaces path fs fs' r \<Longrightarrow> map_of fs k = None" for r using replaces_present assms(3) by blast
  with mutateOwnedReceipt_cases [OF assms(1)] assms(2,3) show ?thesis by (auto split: option.splits)
qed

lemma mark_present:
  "markOwnedUncertain env t reason fs = (fs', res) \<Longrightarrow> map_of fs' k = None \<Longrightarrow> map_of fs k = None"
  by (auto simp: markOwnedUncertain_def split: prod.splits dest: mutate_present)

lemma release_present:
  "releaseOwnedSending env t fs = (fs', res) \<Longrightarrow> map_of fs' k = None \<Longrightarrow> map_of fs k = None"
  by (auto simp: releaseOwnedSending_def split: prod.splits dest: mutate_present)

lemma settle_mutates:
  assumes "settleOwnedResult env t v d fs = (fs', res)"
  obtains res' where "mutateOwnedReceipt env (tk_path t) (tk_deliveryId t) (tk_digest t) (tk_executionId t)
        (\<lambda>c. if op_retryable (tk_options t) v then None else Some (completed_receipt env v c)) fs = (fs', res')"
    "\<And>d' w. res = Inr (CompletedOutcome d' w) \<Longrightarrow> w = v \<and> (\<exists>r. res' = Inr (Some r))"
proof -
  obtain gs res' where m: "mutateOwnedReceipt env (tk_path t) (tk_deliveryId t) (tk_digest t) (tk_executionId t)
      (\<lambda>c. if op_retryable (tk_options t) v then None else Some (completed_receipt env v c)) fs = (gs, res')" by fastforce
  have gs: "gs = fs'" and "res = (case res' of Inl e \<Rightarrow> Inl e
      | Inr None \<Rightarrow> Inr (PendingOutcome IsUncertain d
          (if op_retryable (tk_options t) v then ''The non-committing rejection receipt could not be released safely.''
           else ''The delivery execution lost ownership before its completed receipt was committed.''))
      | Inr (Some _) \<Rightarrow> bind (requestAuthority env 3) (\<lambda>_. Inr (CompletedOutcome d v)))"
    using assms by (cases res'; cases "projr res'"; simp add: settleOwnedResult_def m)+
  then have ended: "res = Inr (CompletedOutcome d' w) \<Longrightarrow> w = v \<and> (\<exists>r. res' = Inr (Some r))" for d' w
    by (auto split: sum.splits option.splits)
  show thesis by (rule that [OF m [unfolded gs]]) (rule ended)
qed

lemma settle_freed:
  assumes "settleOwnedResult env t v d fs = (fs', res)"
  shows "deliver_calls k (freed t fs fs') = 0"
    "of_bool (map_of fs' k = None) \<le> of_bool (map_of fs k = None) + allowances k (freed t fs fs')"
proof -
  show "deliver_calls k (freed t fs fs') = 0" by (simp add: freed_def)
  obtain res' where m: "mutateOwnedReceipt env (tk_path t) (tk_deliveryId t) (tk_digest t) (tk_executionId t)
      (\<lambda>c. if op_retryable (tk_options t) v then None else Some (completed_receipt env v c)) fs = (fs', res')"
    by (rule settle_mutates [OF assms])
  show "of_bool (map_of fs' k = None) \<le> of_bool (map_of fs k = None) + allowances k (freed t fs fs')"
  proof (cases "op_retryable (tk_options t) v")
    case True
    from mutateOwnedReceipt_cases [OF m] True show ?thesis
      by (auto simp: freed_def delete_conv' dest: read_receipt_present split: if_splits)
  next
    case False
    with mutate_present [OF m, of k] show ?thesis by auto
  qed
qed

lemma claim_present:
  assumes "claimReceipt env path i digest e leaseMs allow fs = (fs', res)" "map_of fs' k = None"
  shows "map_of fs k = None"
  using claimReceipt_cases [OF assms(1)] assms(2) replaces_present by blast

lemma fill_present:
  assumes "fillReservation env path r fs = (fs', res)" "map_of fs' k = None"
  shows "map_of fs k = None"
  using fillReservation_cases [OF assms(1)] assms(2) by (metis content_None option.distinct(1))

lemma executeClaimed_same [simp]:
  "same_task t (executeClaimedDelivery env i r b u) = same_task t u"
  "\<not> fresh (executeClaimedDelivery env i r True u)"
  by (auto simp: executeClaimedDelivery_def Let_def fresh_def [of "u\<lparr>tk_heart := _\<rparr>"] split: sum.splits)

lemma pending_same [simp]: "same_task t (pending_end st r u) = same_task t u" "\<not> fresh (pending_end st r u)"
  by (simp_all add: pending_end_def)

lemma looking_same [simp]:
  "same_task t (after_look env u fs) = same_task t u" "\<not> fresh (after_look env u fs)"
  "same_task t (after_wait env r u) = same_task t u" "\<not> fresh (after_wait env r u)"
  by (auto simp: after_look_def after_wait_def Let_def split: sum.splits option.splits)

lemma waiting_same:
  "same_task t (waitForTerminal env r d t fs)" "fresh (waitForTerminal env r d t fs) \<Longrightarrow> fresh t"
  by (auto simp: waitForTerminal_def Let_def split: sum.splits option.splits if_splits)

lemma after_claim_same [simp]:
  "same_task t (after_claim env c u) = same_task t u" "\<not> fresh (after_claim env c u)"
  by (auto simp: after_claim_def split: sum.splits prod.splits option.splits if_splits)

text \<open>The budget of a path: one more delivery while there is no file, and one for each fresh task.\<close>

definition task_spare :: "string \<Rightarrow> dtask \<Rightarrow> nat" where
  "task_spare k t = of_bool (tk_path t = k \<and> fresh t)"

definition file_spare :: "string \<Rightarrow> durable_files \<Rightarrow> nat" where
  "file_spare k fs = of_bool (map_of fs k = None)"

lemma task_spare_same: "same_task t t' \<Longrightarrow> (fresh t' \<Longrightarrow> fresh t) \<Longrightarrow> task_spare k t' \<le> task_spare k t"
  by (auto simp: task_spare_def same_task_def)

lemma carries_on_spare: "carries_on t t' \<Longrightarrow> task_spare k t' = 0"
  using carries_on_not_fresh by (simp add: task_spare_def)

definition within_budget :: "string \<Rightarrow> durable_files \<times> dtask \<times> delivery_event list \<Rightarrow> durable_files \<Rightarrow> dtask \<Rightarrow> bool" where
  "within_budget k x fs t \<longleftrightarrow> (case x of (fs', t', es) \<Rightarrow> same_task t t'
     \<and> file_spare k fs' + task_spare k t' + deliver_calls k es \<le> file_spare k fs + task_spare k t + allowances k es)"

lemma quiet_within:
  "same_task t t' \<Longrightarrow> (fresh t' \<Longrightarrow> fresh t) \<Longrightarrow> (map_of fs' k = None \<Longrightarrow> map_of fs k = None)
    \<Longrightarrow> within_budget k (silently fs' t') fs t"
  using task_spare_same [of t t' k] by (auto simp: within_budget_def silently_def file_spare_def)

lemma carried_within:
  "carries_on t t' \<Longrightarrow> deliver_calls k es \<le> allowances k es \<Longrightarrow> (map_of fs' k = None \<Longrightarrow> map_of fs k = None)
    \<Longrightarrow> within_budget k (fs', t', es) fs t"
  using carries_on_spare [of t t' k] carries_on_not_fresh [of t t']
  by (auto simp: within_budget_def file_spare_def)

lemma fill_within: "tk_phase t = Filling r \<Longrightarrow> within_budget k (fill_step env r t fs) fs t"
  by (auto simp: fill_step_def fresh_def [of t] split: prod.splits sum.splits intro!: quiet_within dest: fill_present)

lemma claim_within: "within_budget k (claim_step env earlier t fs) fs t"
  by (auto simp: claim_step_def split: prod.splits sum.splits intro!: quiet_within dest: claim_present)

lemma start_within:
  assumes "tk_phase t = Starting" "start_step env rp t = Some (t', es)"
  shows "within_budget k (fs, t', es) fs t"
proof (cases "\<exists>n. tk_heart t = HeartActive n \<and> rp = Go")
  case True
  with assms(2) have "claimed_body env t = (t', es)" by (auto simp: start_step_def)
  from claimed_body_carries_on [OF this, of k] carries_on_spare [of t t' k] carries_on_not_fresh [of t t'] assms(1)
  show ?thesis by (auto simp: within_budget_def task_spare_def [of k t] fresh_def [of t])
next
  case False
  with assms(2) show ?thesis by (auto simp: start_step_def split: heart.splits wakening.splits intro!: carried_within)
qed

lemma section_done_same [simp]: "same_task t (section_done h out u) = same_task t u" "\<not> fresh (section_done h out u)"
  by (simp_all add: section_done_def)

lemma settle_within: "within_budget k (settle_step env h v d t fs) fs t"
proof -
  obtain fs' res where s: "settleOwnedResult env t v d fs = (fs', res)" by fastforce
  note f = settle_freed [OF s, of k]
  show ?thesis
  proof (cases res)
    case (Inl e)
    obtain t' es where e: "section_failed env h e t = (t', es)" by fastforce
    with f s Inl section_failed_carries_on [OF e, of k] carries_on_spare [of t t' k] carries_on_not_fresh [of t t']
    show ?thesis by (simp add: settle_step_def within_budget_def file_spare_def)
  next
    case (Inr out)
    with f s show ?thesis by (simp add: settle_step_def within_budget_def file_spare_def task_spare_def)
  qed
qed

lemma failed_within:
  "(map_of fs' k = None \<Longrightarrow> map_of fs k = None) \<Longrightarrow> within_budget k (with_files fs' (section_failed env h e t)) fs t"
  using section_failed_carries_on [of env h e t _ _ k]
  by (cases "section_failed env h e t") (simp add: with_files_def carried_within)

lemma mark_within: "within_budget k (mark_step env h r l d t fs) fs t"
  by (auto simp: mark_step_def split: prod.splits sum.splits intro!: quiet_within failed_within dest: mark_present)

lemma release_within: "within_budget k (release_step env r d t fs) fs t"
  by (auto simp: release_step_def split: prod.splits sum.splits intro!: quiet_within failed_within dest: release_present)

lemma with_files_within:
  "(\<And>t' es. x = (t', es) \<Longrightarrow> carries_on t t' \<and> deliver_calls k es \<le> allowances k es) \<Longrightarrow> within_budget k (with_files fs x) fs t"
  by (cases x) (simp add: with_files_def carried_within)

lemma resume_within:
  assumes "resume_delivery env rp t fs = Some x"
  shows "within_budget k x fs t"
proof (cases "tk_phase t")
  case (Filling r)
  with assms fill_within [OF Filling] show ?thesis by (auto simp: resume_delivery_def split: wakening.splits)
next
  case Starting
  with assms show ?thesis
    by (auto simp: resume_delivery_def with_files_def intro: start_within)
next
  case (Delivering h)
  with assms show ?thesis
    by (auto simp: resume_delivery_def split: wakening.splits if_splits intro!: with_files_within
        dest: after_delivery_carries_on [where k = k] first_failed_carries_on [where k = k])
next
  case (Asking d)
  with assms show ?thesis
    by (auto simp: resume_delivery_def silently_def split: wakening.splits intro!: with_files_within carried_within
        dest: after_recovery_carries_on [where k = k])
qed (use assms waiting_same in \<open>auto simp: resume_delivery_def claim_within settle_within mark_within release_within
      split: wakening.splits intro!: quiet_within\<close>)

text \<open>The budget of the world: that of the file and those of the tasks.\<close>

definition total :: "('v \<Rightarrow> nat) \<Rightarrow> ('k \<times> 'v) list \<Rightarrow> nat" where
  "total f m = sum_list (map (\<lambda>(e, t). f t) m)"

lemma total_update: "map_of m e = Some t \<Longrightarrow> total f (AList.update e t' m) + f t = total f m + f t'"
  by (induction m) (auto simp: total_def)

lemma total_insert: "e \<notin> set (map fst m) \<Longrightarrow> total f (AList.update e t m) = total f m + f t"
  by (induction m) (auto simp: total_def)

lemma total_filter: "total f (filter P m) \<le> total f m"
  by (induction m) (auto simp: total_def)

definition delivery_budget :: "durable_world \<Rightarrow> string \<Rightarrow> nat" where
  "delivery_budget w k = file_spare k (dw_files w) + total (task_spare k) (dw_tasks w)"

lemma call_within:
  assumes "executeDurableDelivery env sha root namespace i payload opts e fs = (fs', Inr t)"
  shows "file_spare k fs' + task_spare k t \<le> file_spare k fs"
proof -
  from assms obtain created r where o': "openReservation env (tk_path t) fs = (fs', Inr created)"
      "tk_phase t = (if created then Filling r else Looking)"
    by (auto simp: executeDurableDelivery_def Let_def split: sum.splits prod.splits if_splits)
  from o'(1) have c: "created \<longrightarrow> map_of fs (tk_path t) = None"
    "map_of fs' = (if created then (map_of fs)(tk_path t \<mapsto> new_file env Garbled) else map_of fs)"
    by (auto simp: openReservation_def update_conv' split: if_splits)
  with o'(2) show ?thesis
    by (cases created) (auto simp: task_spare_def fresh_def file_spare_def)
qed

lemma renew_spare:
  assumes "renew env h heart fs = (fs', heart')"
  shows "file_spare k fs' = file_spare k fs"
proof -
  from renew_cases [OF assms] have "content fs' k = content fs k" by blast
  then have "map_of fs' k = None \<longleftrightarrow> map_of fs k = None" unfolding content_None [symmetric] by simp
  then show ?thesis by (simp only: file_spare_def)
qed

lemma finish_present:
  assumes "finishReconcile env d path i digest seen answer fs = (fs', out)" "map_of fs' k = None"
  shows "map_of fs k = None"
  using finishReconcile_cases [OF assms(1)] assms(2) replaces_present by blast

lemma finish_spare: "finishReconcile env d path i digest seen answer fs = (fs', out) \<Longrightarrow> file_spare k fs' \<le> file_spare k fs"
  using finish_present [of env d path i digest seen answer fs fs' out k] by (auto simp: file_spare_def)

lemma world_step_budget:
  assumes "durable_step hosts writes w w'"
  shows "\<exists>new. dw_events w' = dw_events w @ new
    \<and> delivery_budget w' k + deliver_calls k new \<le> delivery_budget w k + allowances k new"
  using assms
proof (cases rule: durable_step.cases)
  case (call process env e sha root namespace i payload opts)
  obtain fs' r where r: "executeDurableDelivery env sha root namespace i payload opts e (dw_files w) = (fs', r)" by fastforce
  show ?thesis
  proof (cases r)
    case (Inl x)
    with r have "fs' = dw_files w \<or> (\<exists>path. openReservation env path (dw_files w) = (fs', Inl x))"
      by (auto simp: executeDurableDelivery_def Let_def split: sum.splits prod.splits if_splits)
    with openReservation_cases have "fs' = dw_files w" by blast
    with r Inl call show ?thesis by (intro exI [of _ "[]"]) (simp add: called_def delivery_budget_def)
  next
    case (Inr t)
    with r call_within [of env sha root namespace i payload opts e "dw_files w" fs' t k] call total_insert [OF call(5), of "task_spare k" t] show ?thesis
      by (intro exI [of _ "[]"]) (simp add: called_def delivery_budget_def)
  qed
next
  case (go_on e t env rp)
  then obtain fs' t' es where x: "resume_delivery env rp t (dw_files w) = Some (fs', t', es)"
    "w' = w\<lparr>dw_files := fs', dw_tasks := AList.update e t' (dw_tasks w), dw_events := dw_events w @ es\<rparr>"
    by (auto simp: resumed_def split: option.splits)
  from resume_within [OF x(1), of k] total_update [OF go_on(1), of "task_spare k" t'] x(2) show ?thesis
    by (intro exI [of _ es]) (simp add: within_budget_def delivery_budget_def)
next
  case (beat e t env)
  obtain fs' heart where r: "renew env (lease_of t) (tk_heart t) (dw_files w) = (fs', heart)" by fastforce
  have "task_spare k (t\<lparr>tk_heart := heart\<rparr>) = task_spare k t" by (simp add: task_spare_def fresh_def)
  with r renew_spare [OF r, of k] total_update [OF beat(2), of "task_spare k" "t\<lparr>tk_heart := heart\<rparr>"] beat(1) show ?thesis
    by (intro exI [of _ "[]"]) (simp add: renewed_def delivery_budget_def)
next
  case (check_start process env d path i digest before)
  then show ?thesis
    by (intro exI [of _ "[]"]) (simp add: check_started_def delivery_budget_def split: sum.splits prod.splits)
next
  case (check_end n env d answer)
  then show ?thesis using finish_spare [of env d _ _ _ _ answer "dw_files w" _ _ k]
    by (intro exI [of _ "[]"]) (auto simp: check_ended_def delivery_budget_def Let_def split: prod.splits)
next
  case (spawn h p)
  then show ?thesis by (intro exI [of _ "[]"]) (simp add: delivery_budget_def)
next
  case (die process)
  then show ?thesis using total_filter
    by (intro exI [of _ "[]"]) (simp add: died_def delivery_budget_def)
qed

interpretation deliveries: hand_over_budget "durable_step hosts writes" dw_events delivery_budget deliver_calls allowances
  by unfold_locales (simp_all add: world_step_budget)

section \<open>Schedules\<close>

text \<open>A step chosen by a scheduler, with its conditions checked: an executable form of the step relation.\<close>

datatype act =
    Spawn string int
  | Call "string \<times> int" durable_env jval jval delivery_options string
  | GoOn durable_env wakening string
  | Beat durable_env string
  | Die "string \<times> int"

fun perform :: "(file_write \<Rightarrow> bool) \<Rightarrow> act \<Rightarrow> durable_world \<Rightarrow> durable_world option" where
  "perform ok (Spawn h p) w = (if h \<noteq> [] \<and> 0 < p \<and> (h, p) \<notin> set (dw_alive w)
     then Some (w\<lparr>dw_alive := (h, p) # dw_alive w\<rparr>) else None)"
| "perform ok (Call process env i payload opts e) w =
     (if acts_as w process env \<and> ok (de_write env) \<and> e \<noteq> [] \<and> e \<notin> set (map fst (dw_tasks w))
      then Some (called env (\<lambda>s. s) ''/root'' ''sends'' i payload opts e w) else None)"
| "perform ok (GoOn env rp e) w = (case map_of (dw_tasks w) e of None \<Rightarrow> None
     | Some t \<Rightarrow> if acts_as w (tk_host t, tk_pid t) env \<and> ok (de_write env) then resumed env rp e t w else None)"
| "perform ok (Beat env e) w = (case map_of (dw_tasks w) e of None \<Rightarrow> None
     | Some t \<Rightarrow> if acts_as w (tk_host t, tk_pid t) env \<and> ok (de_write env)
         \<and> (case tk_heart t of HeartIdle \<Rightarrow> False | HeartFailed _ \<Rightarrow> False | _ \<Rightarrow> True)
         then Some (renewed env e t w) else None)"
| "perform ok (Die process) w = Some (died process w)"

fun spawns_on :: "string set \<Rightarrow> act \<Rightarrow> bool" where
  "spawns_on hosts (Spawn h p) = (h \<in> hosts)"
| "spawns_on hosts _ = True"

lemma perform_step:
  assumes "perform (\<lambda>x. x \<in> writes) a w = Some w'" "spawns_on hosts a"
  shows "durable_step hosts writes w w'"
  using assms
  by (cases a) (auto split: option.splits if_splits heart.splits
      intro: durable_step.call durable_step.go_on durable_step.beat durable_step.spawn durable_step.die)

fun run_schedule :: "(file_write \<Rightarrow> bool) \<Rightarrow> act list \<Rightarrow> durable_world \<Rightarrow> durable_world option" where
  "run_schedule ok [] w = Some w"
| "run_schedule ok (a # as) w = (case perform ok a w of None \<Rightarrow> None | Some w' \<Rightarrow> run_schedule ok as w')"

lemma schedule_run:
  assumes "run_schedule (\<lambda>x. x \<in> writes) as w = Some w'" "list_all (spawns_on hosts) as"
  shows "(durable_step hosts writes)\<^sup>*\<^sup>* w w'"
  using assms
proof (induction as arbitrary: w)
  case (Cons a as)
  then obtain v where v: "perform (\<lambda>x. x \<in> writes) a w = Some v" "run_schedule (\<lambda>x. x \<in> writes) as v = Some w'"
    by (auto split: option.splits)
  from perform_step [OF v(1)] Cons.IH [OF v(2)] Cons.prems(2) show ?case
    by (auto intro: converse_rtranclp_into_rtranclp)
qed simp

section \<open>Deliveries happen once\<close>

definition delivery_env :: "int \<Rightarrow> durable_env" where
  "delivery_env now = \<lparr>de_now = now, de_revoked = None, de_alive = (\<lambda>p. p = 7), de_host = ''pc'', de_pid = 7,
     de_lock = None, de_write = Written, de_ino = 1\<rparr>"

definition delivery_sample_options :: "bool \<Rightarrow> delivery_options" where
  "delivery_sample_options rec = \<lparr>op_audit = JUndef, op_recover = rec, op_recoverExistingUncertain = False,
     op_retryable = (\<lambda>_. False), op_waitMs = 0, op_leaseMs = None\<rparr>"

definition sample_path :: string where
  "sample_path = ''/root/data/sends/d1.json''"

definition sample_call :: "string \<Rightarrow> act" where
  "sample_call e = Call (''pc'', 7) (delivery_env 1000) (JStr ''d1'') (JObj [(''text'', JStr ''hi'')]) (delivery_sample_options True) e"

text \<open>A delivery whose send throws, whose recovery grants one retry, and a second request for it.\<close>

definition retried_delivery :: "act list" where
  "retried_delivery =
     [Spawn ''pc'' 7, sample_call ''e1'', GoOn (delivery_env 1000) Go ''e1'', Beat (delivery_env 1001) ''e1'',
      GoOn (delivery_env 1002) Go ''e1'', GoOn (delivery_env 1003) (DeliverThrew (Err ''timeout'')) ''e1'',
      GoOn (delivery_env 1004) (RecoverGave RecoverRetry) ''e1'', GoOn (delivery_env 1005) (DeliverGave (JStr ''sent'')) ''e1'',
      GoOn (delivery_env 1006) Go ''e1'', GoOn (delivery_env 1007) Go ''e1'', sample_call ''e2'', GoOn (delivery_env 1008) Go ''e2'']"

definition retried_world :: durable_world where
  "retried_world = the (run_schedule (\<lambda>x. x = Written) retried_delivery (quiet_world []))"

lemma retried_schedule: "run_schedule (\<lambda>x. x = Written) retried_delivery (quiet_world []) \<noteq> None"
  by code_simp

lemma retried_reachable: "(durable_step {''pc''} {Written})\<^sup>*\<^sup>* (quiet_world []) retried_world"
proof (rule schedule_run)
  show "run_schedule (\<lambda>x. x \<in> {Written}) retried_delivery (quiet_world []) = Some retried_world"
    using retried_schedule by (simp add: retried_world_def)
  show "list_all (spawns_on {''pc''}) retried_delivery" by (simp add: retried_delivery_def sample_call_def)
qed

text \<open>C2: However processes interleave, crash, lose locks and leases, and whatever writes fail, the code calls
\<open>deliver\<close> for a path at most once, and once more for every retry that \<open>recover\<close> has granted and
every receipt that was removed after a rejection that committed nothing. With a receipt on
file from before, each call is such a permitted one.\<close>

theorem deliveries_happen_once:
  assumes "(durable_step hosts writes)\<^sup>*\<^sup>* (quiet_world fs) w"
  shows "deliver_calls k (dw_events w) \<le> allowances k (dw_events w) + (if map_of fs k = None then 1 else 0)"
  using deliveries.granted_bound [OF assms, of k]
  by (auto simp: quiet_world_def delivery_budget_def file_spare_def total_def)

theorem deliveries_happen_once_witness:
  "deliver_calls sample_path (dw_events retried_world) \<le> allowances sample_path (dw_events retried_world) + 1
    \<and> deliver_calls sample_path (dw_events retried_world) = 2"
proof
  show "deliver_calls sample_path (dw_events retried_world) \<le> allowances sample_path (dw_events retried_world) + 1"
    using deliveries_happen_once [OF retried_reachable, of sample_path] by simp
  show "deliver_calls sample_path (dw_events retried_world) = 2" by code_simp
qed

section \<open>Completed receipts and answers\<close>

text \<open>Contents that only the filling of a reservation may replace: an empty reservation, a completed receipt.\<close>

fun final :: "contents \<Rightarrow> bool" where
  "final Garbled = True"
| "final (Parsed c) = (dr_state c = Completed)"

definition keeps_final :: "durable_files \<Rightarrow> durable_files \<Rightarrow> bool" where
  "keeps_final fs fs' \<longleftrightarrow> (\<forall>q x. content fs q = Some x \<longrightarrow> final x \<longrightarrow> content fs' q = Some x)"

lemma keeps_finalI:
  assumes "\<And>q. q \<noteq> path \<Longrightarrow> content fs' q = content fs q"
    "read_receipt path i fs = Some c" "dr_state c \<noteq> Completed"
  shows "keeps_final fs fs'"
  unfolding keeps_final_def
proof (intro allI impI)
  fix q x assume x: "content fs q = Some x" "final x"
  show "content fs' q = Some x"
  proof (cases "q = path")
    case True
    from assms(2) obtain p where p: "content fs path = Some (Parsed p)" by (rule read_receipt_Some)
    with x True have "x = Parsed p" by simp
    with read_receipt_stored [OF assms(2) p] assms(3) x show ?thesis by simp
  qed (use assms(1) x in simp)
qed

lemma keeps_final_refl [simp]: "keeps_final fs fs"
  by (simp add: keeps_final_def)

lemma open_final: "openReservation env path fs = (fs', res) \<Longrightarrow> keeps_final fs fs'"
  by (drule openReservation_cases) (auto simp: keeps_final_def simp flip: content_None)

lemma claim_final:
  assumes "claimReceipt env path i digest e leaseMs allow fs = (fs', res)"
  shows "keeps_final fs fs'"
proof -
  consider "fs' = fs" | c where "read_receipt path i fs = Some c" "dr_state c \<noteq> Completed"
      "replaces path fs fs' (claimed_receipt env e leaseMs c)"
    using claimReceipt_cases [OF assms] by blast
  then show ?thesis
  proof cases
    case 2
    show ?thesis by (rule keeps_finalI [OF _ 2(1,2)]) (simp add: replacesD [OF 2(3)])
  qed simp
qed

lemma mutate_final:
  assumes "mutateOwnedReceipt env path i digest e m fs = (fs', res)"
  shows "keeps_final fs fs'"
proof -
  consider "fs' = fs" | c where "read_receipt path i fs = Some c" "dr_state c = Sending"
      "case m c of None \<Rightarrow> fs' = AList.delete path fs | Some r \<Rightarrow> replaces path fs fs' r"
    using mutateOwnedReceipt_cases [OF assms] by blast
  then show ?thesis
  proof cases
    case 2
    show ?thesis
      by (rule keeps_finalI [OF _ 2(1)]) (use 2(2,3) in \<open>auto split: option.splits simp: replacesD\<close>)
  qed simp
qed

lemma finish_final:
  assumes "finishReconcile env d path i digest seen answer fs = (fs', out)"
  shows "keeps_final fs fs'"
proof -
  consider "fs' = fs" | c v where "read_receipt path i fs = Some c" "dr_state c \<noteq> Completed"
      "replaces path fs fs' (completed_receipt env v c)"
    using finishReconcile_cases [OF assms] by blast
  then show ?thesis
  proof cases
    case 2
    show ?thesis by (rule keeps_finalI [OF _ 2(1,2)]) (simp add: replacesD [OF 2(3)])
  qed simp
qed

lemma renew_final: "renew env h heart fs = (fs', heart') \<Longrightarrow> keeps_final fs fs'"
  by (drule renew_cases) (simp add: keeps_final_def)

fun is_filling :: "delivery_phase \<Rightarrow> bool" where
  "is_filling (Filling r) = True"
| "is_filling _ = False"

lemma settle_final: "settleOwnedResult env t v d fs = (fs', res) \<Longrightarrow> keeps_final fs fs'"
  by (erule settle_mutates) (rule mutate_final)

lemma section_final:
  "fst (settle_step env h v d t fs) = fst (settleOwnedResult env t v d fs)"
  "fst (mark_step env h r l d t fs) = fst (markOwnedUncertain env t r fs)"
  "fst (release_step env r d t fs) = fst (releaseOwnedSending env t fs)"
  "fst (claim_step env earlier t fs) = fst (claimReceipt env (tk_path t) (tk_deliveryId t) (tk_digest t) (tk_executionId t)
     (tk_leaseMs t) (dr_state earlier = Uncertain \<and> op_recoverExistingUncertain (tk_options t)) fs)"
  by (simp_all add: settle_step_def mark_step_def release_step_def claim_step_def with_files_def silently_def
      split: prod.splits sum.splits)

lemma resume_final:
  assumes "resume_delivery env rp t fs = Some (fs', t', es)" "\<not> is_filling (tk_phase t)"
  shows "keeps_final fs fs'"
proof -
  have "keeps_final fs (fst (settleOwnedResult env t v d fs))" for v d
    using settle_final by (metis prod.collapse)
  moreover have "keeps_final fs (fst (markOwnedUncertain env t r fs))" for r
    using mutate_final by (auto simp: markOwnedUncertain_def split: prod.splits)
  moreover have "keeps_final fs (fst (releaseOwnedSending env t fs))"
    using mutate_final by (auto simp: releaseOwnedSending_def split: prod.splits)
  moreover have "keeps_final fs (fst (claimReceipt env p i d e l a fs))" for p i d e l a
    using claim_final by (metis prod.collapse)
  ultimately have steps: "keeps_final fs (fst (settle_step env h v d t fs))" "keeps_final fs (fst (mark_step env h r l d t fs))"
    "keeps_final fs (fst (release_step env r d t fs))" "keeps_final fs (fst (claim_step env earlier t fs))" for h v d r l earlier
    by (simp_all add: section_final)
  have fst: "fst (the (resume_delivery env rp t fs)) = fs'" using assms(1) by simp
  show ?thesis
  proof (cases "tk_phase t")
    case (Claiming earlier)
    with assms steps(4) [of earlier] fst show ?thesis by (cases rp) (simp_all add: resume_delivery_def)
  next
    case (Settling h v d)
    with assms steps(1) [of h v d] fst show ?thesis by (cases rp) (simp_all add: resume_delivery_def)
  next
    case (Marking h r l d)
    with assms steps(2) [of h r l d] fst show ?thesis by (cases rp) (simp_all add: resume_delivery_def)
  next
    case (Releasing r d)
    with assms steps(3) [of r d] fst show ?thesis by (cases rp) (simp_all add: resume_delivery_def)
  qed (use assms in \<open>auto simp: resume_delivery_def with_files_def silently_def split: wakening.splits\<close>)
qed

text \<open>Answers: the result of a delivery that is about to return, or has returned, as completed.\<close>

fun answer_of :: "delivery_phase \<Rightarrow> jval option" where
  "answer_of (Stopping (Inr (CompletedOutcome d v))) = Some v"
| "answer_of (Ended (Inr (CompletedOutcome d v))) = Some v"
| "answer_of _ = None"

definition on_file :: "durable_files \<Rightarrow> dtask \<Rightarrow> jval \<Rightarrow> bool" where
  "on_file fs t v \<longleftrightarrow> (\<exists>c. content fs (tk_path t) = Some (Parsed c) \<and> dr_state c = Completed
     \<and> dr_requestDigest c = tk_digest t \<and> json_reload (dr_result c) = json_reload v)"

lemma json_reload_undef: "json_reload v = JUndef \<longleftrightarrow> v = JUndef"
  by (cases v) auto

lemma json_reload_idem [simp]: "json_reload (json_reload v) = json_reload v"
proof (induction v rule: json_reload.induct)
  case (3 fs)
  have "filter (\<lambda>(k, v). v \<noteq> JUndef) (map (\<lambda>(k, v). (k, json_reload v)) (filter (\<lambda>(k, v). v \<noteq> JUndef) fs))
      = map (\<lambda>(k, v). (k, json_reload v)) (filter (\<lambda>(k, v). v \<noteq> JUndef) fs)"
    by (rule filter_True) (auto simp: json_reload_undef)
  with 3 show ?case by auto
qed (auto simp: json_reload_undef)

lemma on_file_same: "same_task t t' \<Longrightarrow> on_file fs t' v = on_file fs t v"
  by (simp add: on_file_def same_task_def)

lemma on_file_kept: "keeps_final fs fs' \<Longrightarrow> on_file fs t v \<Longrightarrow> on_file fs' t v"
  by (auto simp: on_file_def keeps_final_def)

lemma on_file_read:
  assumes "read_receipt (tk_path t) (tk_deliveryId t) fs = Some r" "dr_state r = Completed" "dr_requestDigest r = tk_digest t"
  shows "on_file fs t (dr_result r)"
proof -
  from assms(1) obtain p where p: "content fs (tk_path t) = Some (Parsed p)" by (rule read_receipt_Some)
  with read_receipt_stored [OF assms(1) p] assms(2,3) show ?thesis by (simp add: on_file_def)
qed

lemma carries_on_silent: "carries_on t t' \<Longrightarrow> answer_of (tk_phase t') = None"
  by (cases "tk_phase t'") (auto simp: carries_on_def)

lemma pending_silent [simp]: "answer_of (tk_phase (pending_end st r t)) = None"
  by (simp add: pending_end_def)

lemma look_answer:
  assumes "answer_of (tk_phase (after_look env t fs)) = Some v"
  shows "on_file fs t v"
  using assms on_file_read
  by (auto simp: after_look_def Let_def split: sum.splits option.splits if_splits)

lemma wait_answer:
  assumes "answer_of (tk_phase (after_wait env r t)) = Some v"
  shows "v = dr_result r \<and> dr_state r = Completed \<and> dr_requestDigest r = tk_digest t \<and> v \<noteq> JUndef"
  using assms by (auto simp: after_wait_def split: sum.splits if_splits)

lemma waiting_answer:
  assumes "answer_of (tk_phase (waitForTerminal env r d t fs)) = Some v" "answer_of (tk_phase t) = None"
    "\<not> (dr_state r = Completed \<and> dr_result r \<noteq> JUndef)"
  shows "on_file fs t v"
  using assms on_file_read
  by (auto simp: waitForTerminal_def Let_def dest!: wait_answer split: sum.splits option.splits if_splits)

lemma executeClaimed_silent: "answer_of (tk_phase (executeClaimedDelivery env i r b t)) = None"
  by (auto simp: executeClaimedDelivery_def start_failed_def Let_def split: sum.splits)

lemma after_claim_answer:
  assumes "answer_of (tk_phase (after_claim env (b, o') t)) = Some v"
  shows "\<exists>r. o' = Some r \<and> \<not> b \<and> v = dr_result r \<and> dr_state r = Completed \<and> dr_requestDigest r = tk_digest t"
proof (cases o')
  case None
  with assms show ?thesis by (simp add: after_claim_def split: sum.splits)
next
  case (Some r)
  with assms show ?thesis
    by (cases b) (auto simp: after_claim_def executeClaimed_silent split: sum.splits if_splits)
qed

lemma claim_answer:
  assumes "claim_step env earlier t fs = (fs', t', es)" "answer_of (tk_phase t') = Some v"
  shows "on_file fs' t v"
proof -
  let ?allow = "dr_state earlier = Uncertain \<and> op_recoverExistingUncertain (tk_options t)"
  obtain gs res where c: "claimReceipt env (tk_path t) (tk_deliveryId t) (tk_digest t) (tk_executionId t) (tk_leaseMs t) ?allow fs = (gs, res)"
    by fastforce
  show ?thesis
  proof (cases res)
    case (Inl e)
    with assms c show ?thesis by (auto simp: claim_step_def silently_def)
  next
    case (Inr claim)
    obtain b o' where claim: "claim = (b, o')" by fastforce
    from assms c Inr claim have gs: "gs = fs'" and "answer_of (tk_phase (after_claim env (b, o') t)) = Some v"
      by (auto simp: claim_step_def silently_def)
    from after_claim_answer [OF this(2)] obtain r where r: "o' = Some r" "\<not> b" "v = dr_result r" "dr_state r = Completed"
        "dr_requestDigest r = tk_digest t" by blast
    with claimReceipt_cases [OF c] Inr claim gs have "read_receipt (tk_path t) (tk_deliveryId t) fs' = Some r" by auto
    from on_file_read [OF this] r show ?thesis by simp
  qed
qed

lemma section_done_answer: "answer_of (tk_phase (section_done h out t)) = Some v \<Longrightarrow> \<exists>d. out = CompletedOutcome d v"
  by (cases out) (auto simp: section_done_def split: if_splits)

lemma section_failed_silent: "section_failed env h e t = (t', es) \<Longrightarrow> answer_of (tk_phase t') = None"
  using section_failed_carries_on [of env h e t t' es] carries_on_silent [of t t'] by simp

lemma settle_answer:
  assumes "settle_step env h w d t fs = (fs', t', es)" "answer_of (tk_phase t') = Some v" "\<not> op_retryable (tk_options t) v"
  shows "on_file fs' t v"
proof -
  obtain gs res where s: "settleOwnedResult env t w d fs = (gs, res)" by fastforce
  have gs: "gs = fs'" using assms(1) section_final(1) [of env h w d t fs] s by simp
  obtain d' where res: "res = Inr (CompletedOutcome d' v)"
  proof (cases res)
    case (Inl e)
    obtain u fs where "section_failed env h e t = (u, fs)" by fastforce
    with assms(1,2) s Inl section_failed_silent [OF this] show thesis by (simp add: settle_step_def)
  next
    case (Inr out)
    with assms(1,2) s have "answer_of (tk_phase (section_done h out t)) = Some v" by (auto simp: settle_step_def)
    with section_done_answer Inr that show thesis by blast
  qed
  show ?thesis
  proof (rule settle_mutates [OF s])
    fix res' assume m: "mutateOwnedReceipt env (tk_path t) (tk_deliveryId t) (tk_digest t) (tk_executionId t)
        (\<lambda>c. if op_retryable (tk_options t) w then None else Some (completed_receipt env w c)) fs = (gs, res')"
      and "\<And>d' u. res = Inr (CompletedOutcome d' u) \<Longrightarrow> u = w \<and> (\<exists>r. res' = Inr (Some r))"
    with res have w: "v = w" and "\<exists>r. res' = Inr (Some r)" by simp_all
    with mutateOwnedReceipt_cases [OF m] assms(3) obtain c where c: "read_receipt (tk_path t) (tk_deliveryId t) fs = Some c"
        "dr_requestDigest c = tk_digest t" "replaces (tk_path t) fs gs (completed_receipt env v c)"
      by auto
    have "content fs' (tk_path t) = Some (Parsed (persisted (completed_receipt env v c)))"
      using replacesD [OF c(3), of "tk_path t"] gs by simp
    with c(2) show "on_file fs' t v"
      by (simp add: on_file_def persisted_def completed_receipt_def without_owner_def)
  qed
qed

lemma mark_silent:
  "mark_step env h r l d t fs = (fs', t', es) \<Longrightarrow> answer_of (tk_phase t') = None"
  "release_step env r d t fs = (fs', t', es) \<Longrightarrow> answer_of (tk_phase t') = None"
  by (auto simp: mark_step_def release_step_def with_files_def silently_def section_done_def
      split: prod.splits sum.splits dest: section_failed_silent)

lemma fill_silent: "fill_step env r t fs = (fs', t', es) \<Longrightarrow> answer_of (tk_phase t') = None"
  by (auto simp: fill_step_def silently_def executeClaimed_silent split: prod.splits sum.splits)

text \<open>A task is honest: its completed answer is on file, and the reservation it fills is empty.\<close>

definition honest_task :: "durable_files \<Rightarrow> dtask \<Rightarrow> bool" where
  "honest_task fs t \<longleftrightarrow>
     (\<forall>v. answer_of (tk_phase t) = Some v \<longrightarrow> \<not> op_retryable (tk_options t) v \<longrightarrow> on_file fs t v)
     \<and> (is_filling (tk_phase t) \<longrightarrow> content fs (tk_path t) = Some Garbled)
     \<and> (\<forall>r d. tk_phase t = Waiting r d \<longrightarrow> \<not> (dr_state r = Completed \<and> dr_result r \<noteq> JUndef))"

lemma honest_task_kept:
  assumes "honest_task fs t" "keeps_final fs fs'"
  shows "honest_task fs' t"
  using assms on_file_kept [OF assms(2)] by (auto simp: honest_task_def keeps_final_def)

lemma honest_task_other:
  assumes "honest_task fs u" "content fs p = Some Garbled" "\<And>q. q \<noteq> p \<Longrightarrow> content fs' q = content fs q"
    "\<not> (is_filling (tk_phase u) \<and> tk_path u = p)"
  shows "honest_task fs' u"
  using assms by (cases "tk_path u = p") (auto simp: honest_task_def on_file_def)

lemma carries_on_honest:
  assumes "carries_on t t'"
  shows "honest_task fs t' \<and> \<not> is_filling (tk_phase t')"
proof -
  have "answer_of (tk_phase t') = None" by (rule carries_on_silent [OF assms])
  with assms show ?thesis by (cases "tk_phase t'") (auto simp: honest_task_def carries_on_def)
qed

text \<open>What the ends of a resumption are: an answer on file, a wait for a receipt that is not final, or silence.\<close>

definition lands :: "durable_files \<times> dtask \<times> delivery_event list \<Rightarrow> dtask \<Rightarrow> bool" where
  "lands x t \<longleftrightarrow> (case x of (fs', t', es) \<Rightarrow> same_task t t' \<and> honest_task fs' t' \<and> \<not> is_filling (tk_phase t'))"

lemma lands_carried: "carries_on t t' \<Longrightarrow> lands (fs', t', es) t"
  using carries_on_honest [of t t'] carries_on_not_fresh [of t t'] by (simp add: lands_def)

lemma not_filling_waiting:
  "\<not> is_filling (tk_phase (after_wait env r t))" "tk_phase (after_wait env r t) \<noteq> Waiting r' d'"
  "\<not> is_filling (tk_phase (executeClaimedDelivery env i r b t))" "tk_phase (executeClaimedDelivery env i r b t) \<noteq> Waiting r' d'"
  "\<not> is_filling (tk_phase (pending_end st m t))" "tk_phase (pending_end st m t) \<noteq> Waiting r' d'"
  "\<not> is_filling (tk_phase (section_done h out t))" "tk_phase (section_done h out t) \<noteq> Waiting r' d'"
  by (auto simp: after_wait_def executeClaimedDelivery_def pending_end_def section_done_def start_failed_def Let_def split: sum.splits)

lemma landsI:
  assumes "same_task t t'" "\<not> is_filling (tk_phase t')" "\<And>r d. tk_phase t' = Waiting r d \<Longrightarrow> dr_state r = Completed \<Longrightarrow> dr_result r = JUndef"
    "\<And>v. answer_of (tk_phase t') = Some v \<Longrightarrow> \<not> op_retryable (tk_options t) v \<Longrightarrow> on_file fs' t v"
  shows "lands (fs', t', es) t"
  using assms on_file_same [OF assms(1)] by (auto simp: lands_def honest_task_def same_task_def)

lemma look_lands: "lands (silently fs (after_look env t fs)) t"
proof -
  have w: "dr_result r = JUndef" if "tk_phase (after_look env t fs) = Waiting r d" "dr_state r = Completed" for r d
    using that by (auto simp: after_look_def pending_end_def Let_def split: sum.splits option.splits if_splits)
  have f: "\<not> is_filling (tk_phase (after_look env t fs))"
    by (auto simp: after_look_def pending_end_def Let_def split: sum.splits option.splits)
  show ?thesis unfolding silently_def using f w look_answer by (intro landsI) auto
qed

lemma waiting_lands:
  assumes "tk_phase t = Waiting r d" "honest_task fs t"
  shows "lands (silently fs (waitForTerminal env r d t fs)) t"
proof -
  from assms have r: "\<not> (dr_state r = Completed \<and> dr_result r \<noteq> JUndef)" by (simp add: honest_task_def)
  have w: "tk_phase (waitForTerminal env r d t fs) = Waiting r' d' \<Longrightarrow> r' = r" for r' d'
    using assms(1) by (auto simp: waitForTerminal_def not_filling_waiting Let_def split: sum.splits option.splits if_splits)
  have f: "\<not> is_filling (tk_phase (waitForTerminal env r d t fs))"
    using assms(1) by (auto simp: waitForTerminal_def not_filling_waiting Let_def split: sum.splits option.splits if_splits)
  show ?thesis unfolding silently_def using f w r waiting_same(1) waiting_answer [OF _ _ r] assms(1)
    by (intro landsI) auto
qed

lemma after_claim_waits:
  "\<not> is_filling (tk_phase (after_claim env c t))" "tk_phase (after_claim env c t) \<noteq> Waiting r d"
  by (cases c; auto simp: after_claim_def not_filling_waiting split: sum.splits option.splits if_splits)+

lemma claim_lands: "lands (claim_step env earlier t fs) t"
proof -
  obtain fs' t' es where c: "claim_step env earlier t fs = (fs', t', es)" by (cases "claim_step env earlier t fs") auto
  from c have "same_task t t' \<and> \<not> is_filling (tk_phase t') \<and> (\<forall>r d. tk_phase t' \<noteq> Waiting r d)"
    by (auto simp: claim_step_def silently_def after_claim_waits split: prod.splits sum.splits)
  with c claim_answer [OF c] show ?thesis by (auto intro!: landsI)
qed

lemma section_lands:
  "lands (settle_step env h v d t fs) t" "lands (mark_step env h r l d t fs) t" "lands (release_step env r d t fs) t"
proof -
  have failed: "same_task t u \<and> \<not> is_filling (tk_phase u) \<and> (\<forall>r d. tk_phase u \<noteq> Waiting r d)"
    if "section_failed env h e t = (u, es)" for u es e h
    using section_failed_carries_on [OF that] carries_on_honest [of t u] carries_on_not_fresh [of t u]
    by (cases "tk_phase u") (auto simp: carries_on_def)
  obtain f1 t1 e1 where s: "settle_step env h v d t fs = (f1, t1, e1)" by (cases "settle_step env h v d t fs") auto
  from s have "same_task t t1 \<and> \<not> is_filling (tk_phase t1) \<and> (\<forall>r d. tk_phase t1 \<noteq> Waiting r d)"
    by (auto simp: settle_step_def not_filling_waiting split: prod.splits sum.splits dest: failed)
  with s settle_answer [OF s] show "lands (settle_step env h v d t fs) t" by (auto intro!: landsI)
  obtain f2 t2 e2 where m: "mark_step env h r l d t fs = (f2, t2, e2)" by (cases "mark_step env h r l d t fs") auto
  from m have "same_task t t2 \<and> \<not> is_filling (tk_phase t2) \<and> (\<forall>r d. tk_phase t2 \<noteq> Waiting r d)"
    by (auto simp: mark_step_def silently_def with_files_def not_filling_waiting split: prod.splits sum.splits dest: failed)
  with m mark_silent(1) [OF m] show "lands (mark_step env h r l d t fs) t" by (auto intro!: landsI)
  obtain f3 t3 e3 where m: "release_step env r d t fs = (f3, t3, e3)" by (cases "release_step env r d t fs") auto
  from m have "same_task t t3 \<and> \<not> is_filling (tk_phase t3) \<and> (\<forall>r d. tk_phase t3 \<noteq> Waiting r d)"
    by (auto simp: release_step_def silently_def with_files_def not_filling_waiting split: prod.splits sum.splits dest: failed)
  with m mark_silent(2) [OF m] show "lands (release_step env r d t fs) t" by (auto intro!: landsI)
qed

lemma fill_lands: "lands (fill_step env r t fs) t"
proof -
  obtain fs' t' es where c: "fill_step env r t fs = (fs', t', es)" by (cases "fill_step env r t fs") auto
  from c have "same_task t t' \<and> \<not> is_filling (tk_phase t') \<and> (\<forall>r d. tk_phase t' \<noteq> Waiting r d)"
    by (auto simp: fill_step_def silently_def not_filling_waiting split: prod.splits sum.splits)
  with c fill_silent [OF c] show ?thesis by (auto intro!: landsI)
qed

lemma with_files_lands:
  "(\<And>t' es. x = (t', es) \<Longrightarrow> carries_on t t') \<Longrightarrow> lands (with_files fs x) t"
  by (cases x) (simp add: with_files_def lands_carried)

lemma resume_lands:
  assumes "resume_delivery env rp t fs = Some x" "honest_task fs t"
  shows "lands x t"
proof (cases "tk_phase t")
  case (Filling r)
  with assms show ?thesis by (cases rp) (auto simp: resume_delivery_def fill_lands)
next
  case Looking
  with assms show ?thesis by (cases rp) (auto simp: resume_delivery_def look_lands)
next
  case (Waiting r d)
  with assms waiting_lands [OF Waiting assms(2)] show ?thesis by (cases rp) (auto simp: resume_delivery_def)
next
  case (Claiming earlier)
  with assms show ?thesis by (cases rp) (auto simp: resume_delivery_def claim_lands)
next
  case Starting
  with assms obtain t' es where "start_step env rp t = Some (t', es)" "x = (fs, t', es)"
    by (auto simp: resume_delivery_def with_files_def)
  then show ?thesis using claimed_body_carries_on
    by (auto simp: start_step_def intro!: lands_carried split: heart.splits wakening.splits)
next
  case (Delivering h)
  with assms show ?thesis
    by (cases rp) (auto simp: resume_delivery_def intro!: with_files_lands dest: after_delivery_carries_on first_failed_carries_on split: if_splits)
next
  case (Asking d)
  with assms show ?thesis
    by (cases rp) (auto simp: resume_delivery_def silently_def intro!: with_files_lands lands_carried dest: after_recovery_carries_on)
next
  case (Settling h v d)
  with assms show ?thesis by (cases rp) (auto simp: resume_delivery_def section_lands)
next
  case (Marking h r l d)
  with assms show ?thesis by (cases rp) (auto simp: resume_delivery_def section_lands)
next
  case (Releasing r d)
  with assms show ?thesis by (cases rp) (auto simp: resume_delivery_def section_lands)
next
  case (Stopping answer)
  with assms have x: "x = (fs, goto (Ended answer) (t\<lparr>tk_heart := HeartIdle\<rparr>), [])" by (cases rp) (auto simp: resume_delivery_def silently_def)
  have "answer_of (Ended answer) = answer_of (Stopping answer)"
    by (cases answer; cases "projr answer") auto
  with assms(2) Stopping x show ?thesis by (auto simp: honest_task_def intro!: landsI)
next
  case (Ended answer)
  with assms show ?thesis by (cases rp) (auto simp: resume_delivery_def)
qed

definition honest_world :: "durable_world \<Rightarrow> bool" where
  "honest_world w \<longleftrightarrow> distinct (map fst (dw_tasks w))
     \<and> (\<forall>e t. map_of (dw_tasks w) e = Some t \<longrightarrow> honest_task (dw_files w) t)
     \<and> (\<forall>e e' t t'. map_of (dw_tasks w) e = Some t \<longrightarrow> map_of (dw_tasks w) e' = Some t' \<longrightarrow> is_filling (tk_phase t)
          \<longrightarrow> is_filling (tk_phase t') \<longrightarrow> tk_path t = tk_path t' \<longrightarrow> e = e')"

lemma honest_worldI:
  assumes "distinct (map fst (dw_tasks w))"
    "\<And>e t. map_of (dw_tasks w) e = Some t \<Longrightarrow> honest_task (dw_files w) t"
    "\<And>e e' t t'. map_of (dw_tasks w) e = Some t \<Longrightarrow> map_of (dw_tasks w) e' = Some t' \<Longrightarrow> is_filling (tk_phase t)
      \<Longrightarrow> is_filling (tk_phase t') \<Longrightarrow> tk_path t = tk_path t' \<Longrightarrow> e = e'"
  shows "honest_world w"
  using assms unfolding honest_world_def by blast

text \<open>A new task: its path was free and is empty now, or it looks at what is there.\<close>

lemma call_cases:
  assumes "executeDurableDelivery env sha root namespace i payload opts e fs = (fs', res)"
  shows "keeps_final fs fs'" "\<And>t. res = Inr t \<Longrightarrow> (tk_phase t = Looking
    \<or> (is_filling (tk_phase t) \<and> map_of fs (tk_path t) = None \<and> content fs' (tk_path t) = Some Garbled))
    \<and> tk_executionId t = e \<and> tk_host t = de_host env \<and> tk_pid t = de_pid env \<and> tk_heart t = HeartIdle"
proof -
  have o': "fs' = fs \<or> (\<exists>path res'. openReservation env path fs = (fs', res'))"
    using assms by (auto simp: executeDurableDelivery_def Let_def split: sum.splits prod.splits)
  then show "keeps_final fs fs'" using open_final by auto
  fix t assume "res = Inr t"
  with assms obtain created r where t: "openReservation env (tk_path t) fs = (fs', Inr created)"
      "tk_phase t = (if created then Filling r else Looking)" "tk_executionId t = e" "tk_host t = de_host env"
      "tk_pid t = de_pid env" "tk_heart t = HeartIdle"
    by (auto simp: executeDurableDelivery_def Let_def split: sum.splits prod.splits)
  with openReservation_cases [OF t(1)] show "(tk_phase t = Looking
    \<or> (is_filling (tk_phase t) \<and> map_of fs (tk_path t) = None \<and> content fs' (tk_path t) = Some Garbled))
    \<and> tk_executionId t = e \<and> tk_host t = de_host env \<and> tk_pid t = de_pid env \<and> tk_heart t = HeartIdle"
    by (cases created) auto
qed

lemma fill_files:
  assumes "resume_delivery env rp t fs = Some (fs', t', es)" "tk_phase t = Filling r"
  shows "q \<noteq> tk_path t \<Longrightarrow> content fs' q = content fs q"
proof -
  assume q: "q \<noteq> tk_path t"
  from assms have "fst (fill_step env r t fs) = fs'" by (cases rp) (auto simp: resume_delivery_def)
  then have "fst (fillReservation env (tk_path t) r fs) = fs'"
    by (auto simp: fill_step_def silently_def split: prod.splits sum.splits)
  then obtain res where "fillReservation env (tk_path t) r fs = (fs', res)" by (metis prod.collapse)
  from fillReservation_cases [OF this] q show ?thesis by auto
qed

lemma go_on_honest:
  assumes w: "honest_world w" and t: "map_of (dw_tasks w) e = Some t" and r: "resumed env rp e t w = Some w'"
  shows "honest_world w'"
proof -
  from r obtain fs' t' es where x: "resume_delivery env rp t (dw_files w) = Some (fs', t', es)"
    "w' = w\<lparr>dw_files := fs', dw_tasks := AList.update e t' (dw_tasks w), dw_events := dw_events w @ es\<rparr>"
    by (auto simp: resumed_def split: option.splits)
  from w t have ht: "honest_task (dw_files w) t" by (auto simp: honest_world_def)
  from resume_lands [OF x(1) ht] have l: "same_task t t'" "honest_task fs' t'" "\<not> is_filling (tk_phase t')"
    by (simp_all add: lands_def)
  have others: "honest_task fs' u" if u: "map_of (dw_tasks w) j = Some u" "j \<noteq> e" for j u
  proof -
    from w u have hu: "honest_task (dw_files w) u" by (auto simp: honest_world_def)
    show ?thesis
    proof (cases "tk_phase t")
      case (Filling r)
      with w t u have n: "\<not> (is_filling (tk_phase u) \<and> tk_path u = tk_path t)" by (auto simp: honest_world_def)
      show ?thesis
        by (rule honest_task_other [OF hu _ _ n]) (use ht Filling fill_files [OF x(1) Filling] in \<open>auto simp: honest_task_def\<close>)
    qed (use honest_task_kept [OF hu resume_final [OF x(1)]] in simp_all)
  qed
  show ?thesis
  proof (rule honest_worldI)
    show "distinct (map fst (dw_tasks w'))" using w x(2) by (simp add: honest_world_def distinct_update)
    show "honest_task (dw_files w') u" if "map_of (dw_tasks w') j = Some u" for j u
      using that others l x(2) by (auto simp: update_conv' split: if_splits)
    show "j = j'" if "map_of (dw_tasks w') j = Some u" "map_of (dw_tasks w') j' = Some u'" "is_filling (tk_phase u)"
        "is_filling (tk_phase u')" "tk_path u = tk_path u'" for j j' u u'
      using that w l x(2) by (auto simp: update_conv' honest_world_def split: if_splits)
  qed
qed

lemma honest_files:
  assumes "honest_world w" "keeps_final (dw_files w) fs'" "dw_files w' = fs'" "dw_tasks w' = dw_tasks w"
  shows "honest_world w'"
  using assms honest_task_kept [OF _ assms(2)] by (auto simp: honest_world_def)

lemma map_of_filter_sub:
  assumes "map_of (filter P m) j = Some u" "distinct (map fst m)"
  shows "map_of m j = Some u"
proof -
  from map_of_SomeD [OF assms(1)] have "(j, u) \<in> set m" by simp
  with assms(2) show ?thesis by simp
qed

lemma step_honest:
  assumes "durable_step hosts writes w w'" "honest_world w"
  shows "honest_world w' \<and> (\<forall>t v. on_file (dw_files w) t v \<longrightarrow> on_file (dw_files w') t v)"
  using assms(1)
proof (cases rule: durable_step.cases)
  case (call process env e sha root namespace i payload opts)
  obtain fs' res where c: "executeDurableDelivery env sha root namespace i payload opts e (dw_files w) = (fs', res)" by fastforce
  note k = call_cases [OF c]
  from k(1) c have files: "dw_files w' = fs'" "\<forall>t v. on_file (dw_files w) t v \<longrightarrow> on_file fs' t v"
    using call(1) by (auto simp: called_def on_file_kept split: sum.splits)
  show ?thesis
  proof (cases res)
    case (Inl x)
    with call(1) c have "dw_tasks w' = dw_tasks w" by (simp add: called_def)
    with honest_files [OF assms(2) k(1) files(1)] files show ?thesis by simp
  next
    case (Inr t)
    with call(1) c have tasks: "dw_tasks w' = AList.update e t (dw_tasks w)" by (simp add: called_def)
    from k(2) [OF Inr] have t: "tk_phase t = Looking
      \<or> (is_filling (tk_phase t) \<and> map_of (dw_files w) (tk_path t) = None \<and> content fs' (tk_path t) = Some Garbled)" by simp
    then have ht: "honest_task fs' t"
      by (cases "tk_phase t") (auto simp: honest_task_def)
    have apart: "\<not> (is_filling (tk_phase u) \<and> is_filling (tk_phase t) \<and> tk_path u = tk_path t)"
      if u: "map_of (dw_tasks w) j = Some u" for j u
    proof
      assume both: "is_filling (tk_phase u) \<and> is_filling (tk_phase t) \<and> tk_path u = tk_path t"
      with t have "content (dw_files w) (tk_path t) = None" by auto
      moreover from assms(2) u have "honest_task (dw_files w) u" by (auto simp: honest_world_def)
      ultimately show False using both by (auto simp: honest_task_def content_def)
    qed
    have "honest_world w'"
    proof (rule honest_worldI)
      show "distinct (map fst (dw_tasks w'))" using assms(2) tasks by (simp add: honest_world_def distinct_update)
      show "honest_task (dw_files w') u" if "map_of (dw_tasks w') j = Some u" for j u
        using that assms(2) ht honest_task_kept [OF _ k(1)] files tasks
        by (auto simp: update_conv' honest_world_def split: if_splits)
      show "j = j'" if "map_of (dw_tasks w') j = Some u" "map_of (dw_tasks w') j' = Some u'" "is_filling (tk_phase u)"
          "is_filling (tk_phase u')" "tk_path u = tk_path u'" for j j' u u'
        using that assms(2) apart tasks by (auto simp: update_conv' honest_world_def split: if_splits)
    qed
    with files show ?thesis by simp
  qed
next
  case (go_on e t env rp)
  from go_on_honest [OF assms(2) go_on(1,4)] have h: "honest_world w'" .
  from go_on(4) obtain fs' t' es where x: "resume_delivery env rp t (dw_files w) = Some (fs', t', es)" "dw_files w' = fs'"
    by (auto simp: resumed_def split: option.splits)
  from assms(2) go_on(1) have ht: "honest_task (dw_files w) t" by (auto simp: honest_world_def)
  have "on_file fs' u v" if "on_file (dw_files w) u v" for u v
  proof (cases "tk_phase t")
    case (Filling r)
    with ht that have "tk_path u \<noteq> tk_path t" by (auto simp: honest_task_def on_file_def)
    with that fill_files [OF x(1) Filling] show ?thesis by (simp add: on_file_def)
  qed (use that on_file_kept [OF resume_final [OF x(1)]] in simp_all)
  with h x(2) show ?thesis by simp
next
  case (beat e t env)
  obtain fs' heart where r: "renew env (lease_of t) (tk_heart t) (dw_files w) = (fs', heart)" by fastforce
  from beat(1) r have w': "dw_files w' = fs'" "dw_tasks w' = AList.update e (t\<lparr>tk_heart := heart\<rparr>) (dw_tasks w)"
    by (simp_all add: renewed_def)
  have same: "honest_task fs (t\<lparr>tk_heart := heart\<rparr>) = honest_task fs t" for fs
    by (simp add: honest_task_def on_file_def)
  have "honest_world w'"
  proof (rule honest_worldI)
    show "distinct (map fst (dw_tasks w'))" using assms(2) w' by (simp add: honest_world_def distinct_update)
    show "honest_task (dw_files w') u" if "map_of (dw_tasks w') j = Some u" for j u
      using that assms(2) same beat(2) honest_task_kept [OF _ renew_final [OF r]] w'
      by (auto simp: update_conv' honest_world_def split: if_splits)
    show "j = j'" if "map_of (dw_tasks w') j = Some u" "map_of (dw_tasks w') j' = Some u'" "is_filling (tk_phase u)"
        "is_filling (tk_phase u')" "tk_path u = tk_path u'" for j j' u u'
      using that assms(2) beat(2) w' by (auto simp: update_conv' honest_world_def split: if_splits)
  qed
  with w' on_file_kept [OF renew_final [OF r]] show ?thesis by simp
next
  case (check_start process env d path i digest before)
  then have "dw_files w' = dw_files w" "dw_tasks w' = dw_tasks w" by (simp_all add: check_started_def split: sum.splits prod.splits)
  with assms(2) show ?thesis by (simp add: honest_world_def)
next
  case (check_end n env d answer)
  let ?c = "dw_checks w ! n"
  obtain fs' out where f: "finishReconcile env d (pc_path ?c) (pc_deliveryId ?c) (pc_digest ?c) (pc_revision ?c) answer (dw_files w) = (fs', out)"
    by fastforce
  with check_end(1) have w': "dw_files w' = fs'" "dw_tasks w' = dw_tasks w" by (simp_all add: check_ended_def Let_def)
  from honest_files [OF assms(2) finish_final [OF f] w'] w' on_file_kept [OF finish_final [OF f]] show ?thesis by simp
next
  case (spawn h p)
  with assms(2) show ?thesis by (simp add: honest_world_def)
next
  case (die process)
  then have dead: "dw_files w' = dw_files w"
    "dw_tasks w' = filter (\<lambda>(e, t). (tk_host t, tk_pid t) \<noteq> process \<or> ended (tk_phase t)) (dw_tasks w)"
    by (simp_all add: died_def)
  have sub: "map_of (dw_tasks w) j = Some u" if "map_of (dw_tasks w') j = Some u" for j u
    using map_of_filter_sub [OF that [unfolded dead(2)]] assms(2) by (simp add: honest_world_def)
  have "honest_world w'"
  proof (rule honest_worldI)
    show "distinct (map fst (dw_tasks w'))" using assms(2) dead by (simp add: honest_world_def distinct_map_filter)
    show "honest_task (dw_files w') u" if "map_of (dw_tasks w') j = Some u" for j u
      using sub [OF that] assms(2) dead(1) by (simp add: honest_world_def)
    show "j = j'" if "map_of (dw_tasks w') j = Some u" "map_of (dw_tasks w') j' = Some u'" "is_filling (tk_phase u)"
        "is_filling (tk_phase u')" "tk_path u = tk_path u'" for j j' u u'
      using sub [OF that(1)] sub [OF that(2)] that(3-5) assms(2) unfolding honest_world_def by blast
  qed
  with dead(1) show ?thesis by simp
qed

lemma run_honest:
  assumes "(durable_step hosts writes)\<^sup>*\<^sup>* w w'" "honest_world w"
  shows "honest_world w' \<and> (\<forall>t v. on_file (dw_files w) t v \<longrightarrow> on_file (dw_files w') t v)"
  using assms by (induction rule: rtranclp_induct) (use step_honest in blast)+

lemma quiet_honest: "honest_world (quiet_world fs)"
  by (simp add: honest_world_def quiet_world_def)

text \<open>C14: The delivery identifier is an idempotency key. Two requests for the same receipt that were answered as
completed had the same payload digest and got the same result, as JSON writes it, also when crashes,
recoveries and reconciliations lie between them; and the receipt still on file holds that result. Exempt are results that the
request itself counts as rejections that committed nothing.\<close>

theorem completed_answers_agree:
  assumes "(durable_step hosts writes)\<^sup>*\<^sup>* (quiet_world fs) w" "(durable_step hosts writes)\<^sup>*\<^sup>* w w'"
    and "map_of (dw_tasks w) e = Some t" "tk_phase t = Ended (Inr (CompletedOutcome d v))" "\<not> op_retryable (tk_options t) v"
    and "map_of (dw_tasks w') e' = Some t'" "tk_phase t' = Ended (Inr (CompletedOutcome d' v'))" "\<not> op_retryable (tk_options t') v'"
    and "tk_path t = tk_path t'"
  shows "tk_digest t = tk_digest t' \<and> json_reload v = json_reload v'
    \<and> (\<exists>c. content (dw_files w') (tk_path t) = Some (Parsed c) \<and> dr_state c = Completed \<and> json_reload (dr_result c) = json_reload v)"
proof -
  from run_honest [OF assms(1) quiet_honest] assms(3-5) have w: "honest_world w" "on_file (dw_files w) t v"
    by (auto simp: honest_world_def honest_task_def)
  from run_honest [OF assms(2) w(1)] w(2) assms(6-8) have "on_file (dw_files w') t v" "on_file (dw_files w') t' v'"
    by (auto simp: honest_world_def honest_task_def)
  with assms(9) show ?thesis by (auto simp: on_file_def)
qed

theorem completed_answers_agree_witness:
  "\<exists>t t'. map_of (dw_tasks retried_world) ''e1'' = Some t \<and> map_of (dw_tasks retried_world) ''e2'' = Some t'
    \<and> tk_phase t = Ended (Inr (CompletedOutcome False (JStr ''sent''))) \<and> tk_phase t' = Ended (Inr (CompletedOutcome True (JStr ''sent'')))
    \<and> tk_digest t = tk_digest t'"
proof -
  let ?t = "the (map_of (dw_tasks retried_world) ''e1'')" and ?u = "the (map_of (dw_tasks retried_world) ''e2'')"
  have some: "\<not> Option.is_none (map_of (dw_tasks retried_world) ''e1'')" by code_simp
  then have t0: "map_of (dw_tasks retried_world) ''e1'' = Some ?t" by (simp add: Option.is_none_def)
  have t: "tk_phase ?t = Ended (Inr (CompletedOutcome False (JStr ''sent'')))"
      "\<not> op_retryable (tk_options ?t) (JStr ''sent'')" "tk_path ?t = sample_path" by code_simp+
  have some: "\<not> Option.is_none (map_of (dw_tasks retried_world) ''e2'')" by code_simp
  then have u0: "map_of (dw_tasks retried_world) ''e2'' = Some ?u" by (simp add: Option.is_none_def)
  have u: "tk_phase ?u = Ended (Inr (CompletedOutcome True (JStr ''sent'')))"
      "\<not> op_retryable (tk_options ?u) (JStr ''sent'')" "tk_path ?u = sample_path" by code_simp+
  from completed_answers_agree [OF retried_reachable rtranclp.rtrancl_refl t0 t(1,2) u0 u(1,2)] t(3) u(3)
  have "tk_digest ?t = tk_digest ?u" by simp
  with t t0 u u0 show ?thesis by blast
qed

end
