(* ===== verification/DurableOwners.thy ===== *)
theory DurableOwners
  imports DurableProps
begin

text \<open>
  Ownership of durable deliveries: on one host, with writes that either happen or fail, at most one execution of a
  delivery is between its start and its settlement, and a request that is given up in a live process keeps its
  receipt.
\<close>

section \<open>Ownership\<close>

text \<open>The receipt at a path names this execution and its process.\<close>

definition names_owner :: "durable_receipt \<Rightarrow> dtask \<Rightarrow> bool" where
  "names_owner p t \<longleftrightarrow> dr_state p = Sending \<and> dr_executionId p = Some (tk_executionId t)
     \<and> dr_ownerHost p = Some (tk_host t) \<and> dr_ownerPid p = Some (tk_pid t)"

definition owned :: "durable_files \<Rightarrow> dtask \<Rightarrow> bool" where
  "owned fs t \<longleftrightarrow> (\<exists>p. content fs (tk_path t) = Some (Parsed p) \<and> names_owner p t)"

text \<open>An execution is engaged from the start of its heartbeat until its settlement.\<close>

definition engaged :: "delivery_phase \<Rightarrow> bool" where
  "engaged ph \<longleftrightarrow> working ph \<or> ph = Starting"

text \<open>The owner is seen: its process lives on the host of whoever looks.\<close>

definition seen_alive :: "durable_env \<Rightarrow> dtask \<Rightarrow> bool" where
  "seen_alive env t \<longleftrightarrow> tk_host t \<noteq> [] \<and> map js_lower (tk_host t) = map js_lower (de_host env)
     \<and> 0 < tk_pid t \<and> de_alive env (tk_pid t) \<and> tk_executionId t \<noteq> []"

lemma owner_active:
  assumes "read_receipt (tk_path t) i fs = Some c" "owned fs t" "seen_alive env t"
  shows "receiptExecutionActive env c \<and> dr_executionId c = Some (tk_executionId t)"
proof -
  from assms(2) obtain p where p: "content fs (tk_path t) = Some (Parsed p)" "names_owner p t" by (auto simp: owned_def)
  from read_receipt_stored [OF assms(1) p(1)] p(2) assms(3) show ?thesis
    by (simp add: receiptExecutionActive_def sameHostOwnerAlive_def same_host_def names_owner_def seen_alive_def)
qed

lemma owned_same: "same_task t t' \<Longrightarrow> owned fs t' = owned fs t"
  by (simp add: owned_def names_owner_def same_task_def)

lemma owned_content: "content fs' (tk_path t) = content fs (tk_path t) \<Longrightarrow> owned fs' t = owned fs t"
  by (simp add: owned_def)

text \<open>Nobody else changes an owned receipt whose owner is seen.\<close>

lemma replaces_elsewhere: "replaces path fs fs' r \<Longrightarrow> q \<noteq> path \<Longrightarrow> content fs' q = content fs q"
  by (simp add: replacesD)

lemma claim_spares:
  assumes "claimReceipt env path i digest e leaseMs allow fs = (fs', res)" "owned fs t" "seen_alive env t"
  shows "content fs' (tk_path t) = content fs (tk_path t)"
proof -
  consider "fs' = fs" | c where "read_receipt path i fs = Some c" "\<not> receiptExecutionActive env c"
      "replaces path fs fs' (claimed_receipt env e leaseMs c)"
    using claimReceipt_cases [OF assms(1)] by blast
  then show ?thesis
  proof cases
    case 2
    with owner_active [of t i fs c env] assms(2,3) have "tk_path t \<noteq> path" by auto
    with replaces_elsewhere [OF 2(3)] show ?thesis .
  qed simp
qed

lemma mutate_spares:
  assumes "mutateOwnedReceipt env path i digest e m fs = (fs', res)" "owned fs t" "seen_alive env t" "e \<noteq> tk_executionId t"
  shows "content fs' (tk_path t) = content fs (tk_path t)"
proof -
  consider "fs' = fs" | c where "read_receipt path i fs = Some c" "dr_executionId c = Some e"
      "case m c of None \<Rightarrow> fs' = AList.delete path fs | Some r \<Rightarrow> replaces path fs fs' r"
    using mutateOwnedReceipt_cases [OF assms(1)] by blast
  then show ?thesis
  proof cases
    case 2
    with owner_active [of t i fs c env] assms(2-4) have "tk_path t \<noteq> path" by auto
    with 2(3) replaces_elsewhere show ?thesis by (auto split: option.splits)
  qed simp
qed

lemma finish_spares:
  assumes "finishReconcile env d path i digest seen answer fs = (fs', out)" "owned fs t" "seen_alive env t"
  shows "content fs' (tk_path t) = content fs (tk_path t)"
proof -
  consider "fs' = fs" | c v where "read_receipt path i fs = Some c" "\<not> receiptExecutionActive env c"
      "replaces path fs fs' (completed_receipt env v c)"
    using finishReconcile_cases [OF assms(1)] by blast
  then show ?thesis
  proof cases
    case 2
    with owner_active [of t i fs c env] assms(2,3) have "tk_path t \<noteq> path" by auto
    with replaces_elsewhere [OF 2(3)] show ?thesis .
  qed simp
qed

lemma open_spares:
  assumes "openReservation env path fs = (fs', res)" "owned fs t"
  shows "content fs' (tk_path t) = content fs (tk_path t)"
  using openReservation_cases [OF assms(1)] assms(2) by (auto simp: owned_def content_def)

lemma owned_sections_spare:
  assumes "owned fs t" "seen_alive env t" "tk_executionId u \<noteq> tk_executionId t"
  shows "settleOwnedResult env u v d fs = (fs', res) \<Longrightarrow> content fs' (tk_path t) = content fs (tk_path t)"
    "markOwnedUncertain env u r fs = (fs', res') \<Longrightarrow> content fs' (tk_path t) = content fs (tk_path t)"
    "releaseOwnedSending env u fs = (fs', res') \<Longrightarrow> content fs' (tk_path t) = content fs (tk_path t)"
  using mutate_spares [OF _ assms]
  by (auto simp: markOwnedUncertain_def releaseOwnedSending_def split: prod.splits elim!: settle_mutates)

lemma resume_spares:
  assumes "resume_delivery env rp u fs = Some (fs', u', es)" "owned fs t" "seen_alive env t" "tk_executionId u \<noteq> tk_executionId t"
    "honest_task fs u"
  shows "content fs' (tk_path t) = content fs (tk_path t)"
proof -
  have fst: "fst (the (resume_delivery env rp u fs)) = fs'" using assms(1) by simp
  note spare = owned_sections_spare [OF assms(2-4)]
  show ?thesis
  proof (cases "tk_phase u")
    case (Filling r)
    with assms(2,5) have "tk_path t \<noteq> tk_path u" by (auto simp: honest_task_def owned_def)
    with fill_files [OF assms(1) Filling] show ?thesis .
  next
    case (Claiming earlier)
    with assms(1) fst have "fst (claim_step env earlier u fs) = fs'" by (cases rp) (simp_all add: resume_delivery_def)
    then obtain res where "claimReceipt env (tk_path u) (tk_deliveryId u) (tk_digest u) (tk_executionId u) (tk_leaseMs u)
        (dr_state earlier = Uncertain \<and> op_recoverExistingUncertain (tk_options u)) fs = (fs', res)"
      unfolding section_final by (metis prod.collapse)
    with claim_spares assms(2,3) show ?thesis by blast
  next
    case (Settling h v d)
    with assms(1) fst have "fst (settle_step env h v d u fs) = fs'" by (cases rp) (simp_all add: resume_delivery_def)
    with spare(1) [of v d fs'] show ?thesis unfolding section_final by (metis prod.collapse)
  next
    case (Marking h r l d)
    with assms(1) fst have "fst (mark_step env h r l d u fs) = fs'" by (cases rp) (simp_all add: resume_delivery_def)
    with spare(2) [of r fs'] show ?thesis unfolding section_final by (metis prod.collapse)
  next
    case (Releasing r d)
    with assms(1) fst have "fst (release_step env r d u fs) = fs'" by (cases rp) (simp_all add: resume_delivery_def)
    with spare(3) [of fs'] show ?thesis unfolding section_final by (metis prod.collapse)
  qed (use assms(1) in \<open>auto simp: resume_delivery_def with_files_def silently_def split: wakening.splits\<close>)
qed

section \<open>An engaged execution owns its receipt\<close>

lemma engaged_simps [simp]:
  "engaged Starting" "\<not> engaged (Ended a)" "\<not> engaged (Stopping a)" "\<not> engaged (Waiting r d)"
  "\<not> engaged (Claiming r)" "\<not> engaged Looking" "\<not> engaged (Filling r)" "engaged (Marking h r' l b)"
  "engaged (Settling h v b)" "engaged (Releasing r' b)" "engaged (Asking b)" "engaged (Delivering h)"
  by (simp_all add: engaged_def)

lemma pending_not_engaged [simp]: "\<not> engaged (tk_phase (pending_end st r t))"
  by (simp add: pending_end_def)

lemma looking_not_engaged:
  "\<not> engaged (tk_phase (after_look env t fs))" "\<not> engaged (tk_phase (after_wait env r t))"
  by (auto simp: after_look_def after_wait_def Let_def split: sum.splits option.splits)

lemma waiting_not_engaged:
  "tk_phase t = Waiting r d \<Longrightarrow> \<not> engaged (tk_phase (waitForTerminal env r d t fs))"
  by (auto simp: waitForTerminal_def looking_not_engaged Let_def split: sum.splits option.splits)

lemma section_done_not_engaged [simp]: "\<not> engaged (tk_phase (section_done h out t))"
  by (simp add: section_done_def)

text \<open>A revoked request goes straight to its end.\<close>

lemma revoked_stops:
  assumes "requestAuthority env 3 = Inl e" "section_failed env h e' t = (t', es)"
  shows "\<not> engaged (tk_phase t')"
proof -
  have "requestAuthority env j = Inl e" if "3 \<le> j" for j using requestAuthority_stays [OF assms(1) that] .
  then have r: "requestAuthority env 4 = Inl e" "requestAuthority env 5 = Inl e" by simp_all
  with assms(2) show ?thesis
    by (auto simp: section_failed_def first_failed_def retry_failed_def body_failed_def split: handler.splits)
qed

lemma mutate_failed_kept:
  assumes "mutateOwnedReceipt env path i digest e m fs = (fs', Inl x)" "de_write env \<noteq> Interrupted"
  shows "fs' = fs"
  using mutateOwnedReceipt_cases [OF assms(1)] assms(2) by auto

lemma settle_failed_kept:
  assumes "settleOwnedResult env t v d fs = (fs', Inl x)" "de_write env \<noteq> Interrupted"
  shows "fs' = fs \<or> requestAuthority env 3 = Inl x"
proof -
  obtain gs res' where m: "mutateOwnedReceipt env (tk_path t) (tk_deliveryId t) (tk_digest t) (tk_executionId t)
      (\<lambda>c. if op_retryable (tk_options t) v then None else Some (completed_receipt env v c)) fs = (gs, res')" by fastforce
  show ?thesis
  proof (cases res')
    case (Inl y)
    with mutate_failed_kept [OF m [unfolded Inl] assms(2)] assms(1) m show ?thesis by (simp add: settleOwnedResult_def)
  next
    case (Inr o')
    with assms(1) m show ?thesis
      by (cases o'; cases "requestAuthority env 3") (auto simp: settleOwnedResult_def)
  qed
qed

lemma settle_step_owned:
  assumes "settle_step env h v d t fs = (fs', t', es)" "engaged (tk_phase t')" "de_write env \<noteq> Interrupted" "owned fs t"
  shows "owned fs' t'"
proof -
  obtain gs res where s: "settleOwnedResult env t v d fs = (gs, res)" by fastforce
  with assms(1,2) obtain e u where e: "res = Inl e" "gs = fs'" "section_failed env h e t = (t', u)"
    by (cases res) (auto simp: settle_step_def split: prod.splits)
  with settle_failed_kept [of env t v d fs fs' e] s assms(2,3) revoked_stops [OF _ e(3)] have "fs' = fs" by auto
  with section_failed_carries_on [OF e(3)] owned_same assms(4) show ?thesis
    using carries_on_not_fresh by blast
qed

lemma mark_failed_kept:
  "markOwnedUncertain env t r fs = (fs', Inl x) \<Longrightarrow> de_write env \<noteq> Interrupted \<Longrightarrow> fs' = fs"
  "releaseOwnedSending env t fs = (fs', Inl x) \<Longrightarrow> de_write env \<noteq> Interrupted \<Longrightarrow> fs' = fs"
  by (auto simp: markOwnedUncertain_def releaseOwnedSending_def bind_def split: prod.splits sum.splits dest: mutate_failed_kept)

lemma mark_step_owned:
  assumes "mark_step env h r l d t fs = (fs', t', es)" "engaged (tk_phase t')" "de_write env \<noteq> Interrupted" "owned fs t"
  shows "owned fs' t'"
proof -
  obtain gs res where s: "markOwnedUncertain env t r fs = (gs, res)" by fastforce
  with assms(1,2) obtain e u where e: "res = Inl e" "gs = fs'" "section_failed env h e t = (t', u)"
    by (cases res) (auto simp: mark_step_def with_files_def silently_def split: prod.splits)
  with mark_failed_kept(1) [of env t r fs fs' e] s assms(3) have "fs' = fs" by simp
  with section_failed_carries_on [OF e(3)] owned_same assms(4) show ?thesis
    using carries_on_not_fresh by blast
qed

lemma release_step_owned:
  assumes "release_step env r d t fs = (fs', t', es)" "engaged (tk_phase t')" "de_write env \<noteq> Interrupted" "owned fs t"
  shows "owned fs' t'"
proof -
  obtain gs res where s: "releaseOwnedSending env t fs = (gs, res)" by fastforce
  with assms(1,2) obtain e u where e: "res = Inl e" "gs = fs'" "section_failed env InBody e t = (t', u)"
    by (cases res) (auto simp: release_step_def with_files_def silently_def split: prod.splits)
  with mark_failed_kept(2) [of env t fs fs' e] s assms(3) have "fs' = fs" by simp
  with section_failed_carries_on [OF e(3)] owned_same assms(4) show ?thesis
    using carries_on_not_fresh by blast
qed

lemma fill_step_owned:
  assumes "fill_step env r t fs = (fs', t', es)" "engaged (tk_phase t')" "names_owner r t" "map_of fs (tk_path t) \<noteq> None"
  shows "owned fs' t'"
proof -
  obtain gs res where f: "fillReservation env (tk_path t) r fs = (gs, res)" by fastforce
  with assms(1,2) obtain r' where r': "res = Inr r'" "gs = fs'" "same_task t t'"
    by (cases res) (auto simp: fill_step_def silently_def split: sum.splits)
  with fillReservation_cases [OF f] assms(4) have "content fs' (tk_path t) = Some (Parsed (persisted r))" by auto
  with assms(3) have "owned fs' t" by (simp add: owned_def names_owner_def persisted_def)
  with owned_same [OF r'(3)] show ?thesis by simp
qed

lemma after_claim_engaged: "engaged (tk_phase (after_claim env (b, o') t)) \<Longrightarrow> b \<and> o' \<noteq> None"
  by (auto simp: after_claim_def split: sum.splits option.splits if_splits)

lemma claim_step_owned:
  assumes "claim_step env earlier t fs = (fs', t', es)" "engaged (tk_phase t')" "de_host env = tk_host t" "de_pid env = tk_pid t"
  shows "owned fs' t'"
proof -
  let ?allow = "dr_state earlier = Uncertain \<and> op_recoverExistingUncertain (tk_options t)"
  obtain gs res where c: "claimReceipt env (tk_path t) (tk_deliveryId t) (tk_digest t) (tk_executionId t) (tk_leaseMs t) ?allow fs = (gs, res)"
    by fastforce
  show ?thesis
  proof (cases res)
    case (Inl e)
    with assms(1,2) c show ?thesis by (auto simp: claim_step_def silently_def)
  next
    case (Inr claim)
    obtain b o' where claim: "claim = (b, o')" by fastforce
    with assms(1,2) c Inr have gs: "gs = fs'" and t': "t' = after_claim env (b, o') t" by (auto simp: claim_step_def silently_def)
    with after_claim_engaged [of env b o' t] assms(2) have "b" by simp
    with claimReceipt_cases [OF c] Inr claim obtain x where "replaces (tk_path t) fs gs (claimed_receipt env (tk_executionId t) (tk_leaseMs t) x)"
      by auto
    from replacesD [OF this, of "tk_path t"] gs assms(3,4) have "owned fs' t"
      by (simp add: owned_def names_owner_def persisted_def claimed_receipt_def)
    with owned_same [of t t' fs'] t' show ?thesis by simp
  qed
qed

lemma resume_owned:
  assumes "resume_delivery env rp t fs = Some (fs', t', es)" "engaged (tk_phase t')" "de_write env \<noteq> Interrupted"
    "de_host env = tk_host t" "de_pid env = tk_pid t" "engaged (tk_phase t) \<Longrightarrow> owned fs t"
    "\<And>r. tk_phase t = Filling r \<Longrightarrow> names_owner r t \<and> map_of fs (tk_path t) \<noteq> None"
    "honest_task fs t"
  shows "owned fs' t'"
proof -
  have same: "same_task t t'" using resume_lands [OF assms(1,8)] by (simp add: lands_def)
  show ?thesis
  proof (cases "tk_phase t")
    case (Filling r)
    with assms(1) have "fill_step env r t fs = (fs', t', es)" by (cases rp) (simp_all add: resume_delivery_def)
    with fill_step_owned assms(2,7) Filling show ?thesis by blast
  next
    case Looking
    with assms(1,2) looking_not_engaged show ?thesis by (cases rp) (auto simp: resume_delivery_def silently_def)
  next
    case (Waiting r d)
    with assms(1,2) waiting_not_engaged [OF Waiting] show ?thesis by (cases rp) (auto simp: resume_delivery_def silently_def)
  next
    case (Claiming earlier)
    with assms(1) have "claim_step env earlier t fs = (fs', t', es)" by (cases rp) (simp_all add: resume_delivery_def)
    with claim_step_owned assms(2,4,5) show ?thesis by blast
  next
    case (Settling h v d)
    with assms(1) have "settle_step env h v d t fs = (fs', t', es)" by (cases rp) (simp_all add: resume_delivery_def)
    with settle_step_owned assms(2,3,6) Settling show ?thesis by simp
  next
    case (Marking h r l d)
    with assms(1) have "mark_step env h r l d t fs = (fs', t', es)" by (cases rp) (simp_all add: resume_delivery_def)
    with mark_step_owned assms(2,3,6) Marking show ?thesis by simp
  next
    case (Releasing r d)
    with assms(1) have "release_step env r d t fs = (fs', t', es)" by (cases rp) (simp_all add: resume_delivery_def)
    with release_step_owned assms(2,3,6) Releasing show ?thesis by simp
  next
    case (Stopping a)
    with assms(1,2) show ?thesis by (cases rp) (auto simp: resume_delivery_def silently_def)
  next
    case (Ended a)
    with assms(1) show ?thesis by (cases rp) (auto simp: resume_delivery_def)
  next
    case Starting
    with assms(1,6) owned_same [OF same] show ?thesis by (auto simp: resume_delivery_def with_files_def)
  next
    case (Delivering h)
    with assms(1,6) owned_same [OF same] show ?thesis by (cases rp) (auto simp: resume_delivery_def with_files_def split: if_splits)
  next
    case (Asking d)
    with assms(1,6) owned_same [OF same] show ?thesis by (cases rp) (auto simp: resume_delivery_def with_files_def silently_def)
  qed
qed

section \<open>One execution at a time\<close>

definition placed :: "string \<Rightarrow> durable_world \<Rightarrow> string \<Rightarrow> dtask \<Rightarrow> bool" where
  "placed name w e t \<longleftrightarrow> tk_executionId t = e \<and> e \<noteq> []
     \<and> (\<not> ended (tk_phase t) \<longrightarrow> (tk_host t, tk_pid t) \<in> set (dw_alive w))
     \<and> (engaged (tk_phase t) \<longrightarrow> owned (dw_files w) t)
     \<and> (\<forall>r. tk_phase t = Filling r \<longrightarrow> names_owner r t)"

definition one_host :: "string \<Rightarrow> durable_world \<Rightarrow> bool" where
  "one_host name w \<longleftrightarrow> (\<forall>h p. (h, p) \<in> set (dw_alive w) \<longrightarrow> h \<noteq> [] \<and> 0 < p \<and> map js_lower h = name)"

definition owned_world :: "string \<Rightarrow> durable_world \<Rightarrow> bool" where
  "owned_world name w \<longleftrightarrow> honest_world w \<and> one_host name w
     \<and> (\<forall>e t. map_of (dw_tasks w) e = Some t \<longrightarrow> placed name w e t)"

lemma owner_seen:
  assumes "owned_world name w" "map_of (dw_tasks w) e = Some t" "engaged (tk_phase t)" "acts_as w process env"
  shows "seen_alive env t \<and> owned (dw_files w) t \<and> tk_executionId t = e"
proof -
  from assms(1,2) have p: "placed name w e t" by (auto simp: owned_world_def)
  with assms(3) have alive: "(tk_host t, tk_pid t) \<in> set (dw_alive w)" by (cases "tk_phase t") (auto simp: placed_def)
  from assms(4) have "(de_host env, de_pid env) \<in> set (dw_alive w)" by (auto simp: acts_as_def)
  with alive assms(1) have "tk_host t \<noteq> [] \<and> 0 < tk_pid t \<and> map js_lower (tk_host t) = map js_lower (de_host env)"
    by (auto simp: owned_world_def one_host_def)
  with assms(4) alive p assms(3) show ?thesis by (auto simp: acts_as_def seen_alive_def placed_def list_all_iff)
qed

lemma placed_kept:
  assumes "placed name w e t" "set (dw_alive w) \<subseteq> set (dw_alive w')"
    "engaged (tk_phase t) \<Longrightarrow> content (dw_files w') (tk_path t) = content (dw_files w) (tk_path t)"
  shows "placed name w' e t"
  using assms owned_content [of "dw_files w'" t "dw_files w"] by (auto simp: placed_def)

lemma owned_worldI:
  assumes "honest_world w'" "one_host name w'" "\<And>e t. map_of (dw_tasks w') e = Some t \<Longrightarrow> placed name w' e t"
  shows "owned_world name w'"
  using assms by (simp add: owned_world_def)

lemma resumed_not_ended: "resume_delivery env rp t fs = Some x \<Longrightarrow> \<not> ended (tk_phase t)"
  by (cases "tk_phase t"; cases rp) (auto simp: resume_delivery_def)

lemma go_on_placed:
  assumes w: "owned_world name w" and t: "map_of (dw_tasks w) e = Some t" and env: "acts_as w (tk_host t, tk_pid t) env"
    and ni: "de_write env \<noteq> Interrupted" and r: "resumed env rp e t w = Some w'" and u: "map_of (dw_tasks w') j = Some u"
  shows "placed name w' j u"
proof -
  from r obtain fs' t' es where x: "resume_delivery env rp t (dw_files w) = Some (fs', t', es)"
    "w' = w\<lparr>dw_files := fs', dw_tasks := AList.update e t' (dw_tasks w), dw_events := dw_events w @ es\<rparr>"
    by (auto simp: resumed_def split: option.splits)
  from w t have ht: "honest_task (dw_files w) t" and pt: "placed name w e t" by (auto simp: owned_world_def honest_world_def)
  from resume_lands [OF x(1) ht] have l: "same_task t t'" "\<not> is_filling (tk_phase t')" by (simp_all add: lands_def)
  show ?thesis
  proof (cases "j = e")
    case True
    with u x(2) have [simp]: "u = t'" by (simp add: update_conv')
    have own: "engaged (tk_phase t') \<Longrightarrow> owned fs' t'"
      by (rule resume_owned [OF x(1) _ ni]) (use env ht pt in \<open>auto simp: acts_as_def placed_def honest_task_def simp flip: content_None\<close>)
    from resumed_not_ended [OF x(1)] pt have "(tk_host t, tk_pid t) \<in> set (dw_alive w)" by (simp add: placed_def)
    with True l own pt x(2) show ?thesis by (auto simp: placed_def same_task_def)
  next
    case False
    with u x(2) have ju: "map_of (dw_tasks w) j = Some u" by (simp add: update_conv')
    with w have pu: "placed name w j u" by (auto simp: owned_world_def)
    show ?thesis
    proof (rule placed_kept [OF pu])
      assume "engaged (tk_phase u)"
      with owner_seen [OF w ju _ env] False pt
      have "owned (dw_files w) u" "seen_alive env u" "tk_executionId t \<noteq> tk_executionId u" by (auto simp: placed_def)
      from resume_spares [OF x(1) this ht] x(2) show "content (dw_files w') (tk_path u) = content (dw_files w) (tk_path u)" by simp
    qed (simp add: x(2))
  qed
qed

text \<open>The actions that change no task: reconciliations, births and deaths.\<close>

lemma untouched_tasks:
  assumes "owned_world name w" "honest_world w'" "dw_tasks w' = dw_tasks w" "dw_alive w' = dw_alive w"
    "\<And>e t. map_of (dw_tasks w) e = Some t \<Longrightarrow> engaged (tk_phase t)
      \<Longrightarrow> content (dw_files w') (tk_path t) = content (dw_files w) (tk_path t)"
  shows "owned_world name w'"
proof (rule owned_worldI [OF assms(2)])
  show "one_host name w'" using assms(1,4) by (simp add: owned_world_def one_host_def)
  fix e t assume "map_of (dw_tasks w') e = Some t"
  with assms(3) have t: "map_of (dw_tasks w) e = Some t" by simp
  with assms(1) have "placed name w e t" by (auto simp: owned_world_def)
  from placed_kept [OF this _ assms(5) [OF t]] assms(4) show "placed name w' e t" by simp
qed

lemma call_placed:
  assumes c: "executeDurableDelivery env sha root namespace i payload opts e (dw_files w) = (fs', Inr t)"
    and "acts_as w process env" "e \<noteq> []" "dw_alive w' = dw_alive w"
  shows "placed name w' e t"
proof -
  from call_cases(2) [OF c refl] have t: "tk_phase t = Looking \<or> is_filling (tk_phase t)" "tk_executionId t = e"
    "tk_host t = de_host env" "tk_pid t = de_pid env" by auto
  have "names_owner r t" if "tk_phase t = Filling r" for r
    using c that by (auto simp: executeDurableDelivery_def reservation_def names_owner_def Let_def
        split: sum.splits prod.splits if_splits)
  with t assms(2-4) show ?thesis by (cases "tk_phase t") (auto simp: placed_def acts_as_def)
qed

lemma call_spares:
  assumes "executeDurableDelivery env sha root namespace i payload opts e fs = (fs', res)" "owned fs t"
  shows "content fs' (tk_path t) = content fs (tk_path t)"
proof -
  have "fs' = fs \<or> (\<exists>path res'. openReservation env path fs = (fs', res'))"
    using assms(1) by (auto simp: executeDurableDelivery_def Let_def split: sum.splits prod.splits)
  with open_spares assms(2) show ?thesis by blast
qed

lemma step_owned:
  assumes step: "durable_step hosts writes w w'" and w: "owned_world name w"
    and hosts: "\<And>h. h \<in> hosts \<Longrightarrow> map js_lower h = name" and writes: "Interrupted \<notin> writes"
  shows "owned_world name w'"
proof -
  have hw': "honest_world w'" using step_honest [OF step] w by (auto simp: owned_world_def)
  from step show ?thesis
  proof (cases rule: durable_step.cases)
    case (call process env e sha root namespace i payload opts)
    obtain fs' res where c: "executeDurableDelivery env sha root namespace i payload opts e (dw_files w) = (fs', res)" by fastforce
    have files: "dw_files w' = fs'" "dw_alive w' = dw_alive w" using call(1) c by (auto simp: called_def split: sum.splits)
    have old: "placed name w' j u" if "map_of (dw_tasks w) j = Some u" for j u
    proof (rule placed_kept)
      show "placed name w j u" using w that by (auto simp: owned_world_def)
      assume "engaged (tk_phase u)"
      with owner_seen [OF w that _ call(2)] call_spares [OF c] files(1)
      show "content (dw_files w') (tk_path u) = content (dw_files w) (tk_path u)" by simp
    qed (simp add: files)
    show ?thesis
    proof (cases res)
      case (Inl x)
      with call(1) c old hw' w files show ?thesis by (intro owned_worldI) (auto simp: called_def owned_world_def one_host_def)
    next
      case (Inr t)
      with call(1) c have "dw_tasks w' = AList.update e t (dw_tasks w)" by (simp add: called_def)
      with call_placed [OF c [unfolded Inr] call(2,4) files(2)] old hw' w files(2) show ?thesis
        by (intro owned_worldI) (auto simp: update_conv' owned_world_def one_host_def split: if_splits)
    qed
  next
    case (go_on e t env rp)
    with writes have "de_write env \<noteq> Interrupted" by auto
    note placed = go_on_placed [OF w go_on(1,2) this go_on(4)]
    from go_on(4) have "dw_alive w' = dw_alive w" by (auto simp: resumed_def split: option.splits)
    with w have "one_host name w'" by (simp add: owned_world_def one_host_def)
    from owned_worldI [OF hw' this placed] show ?thesis .
  next
    case (beat e t env)
    obtain fs' heart where r: "renew env (lease_of t) (tk_heart t) (dw_files w) = (fs', heart)" by fastforce
    with beat(1) have w': "dw_files w' = fs'" "dw_tasks w' = AList.update e (t\<lparr>tk_heart := heart\<rparr>) (dw_tasks w)" "dw_alive w' = dw_alive w"
      by (simp_all add: renewed_def)
    have kept: "placed name w' j u" if "map_of (dw_tasks w) j = Some u" for j u
      by (rule placed_kept [of name w]) (use w that renew_cases [OF r] w' in \<open>auto simp: owned_world_def\<close>)
    have "placed name w' e (t\<lparr>tk_heart := heart\<rparr>)" using kept [OF beat(2)]
      by (auto simp: placed_def owned_def names_owner_def)
    with kept hw' w w' show ?thesis
      by (intro owned_worldI) (auto simp: update_conv' owned_world_def one_host_def split: if_splits)
  next
    case (check_start process env d path i digest before)
    then show ?thesis
      by (intro untouched_tasks [OF w hw']) (auto simp: check_started_def split: sum.splits)
  next
    case (check_end n env d answer)
    let ?c = "dw_checks w ! n"
    obtain fs' out where f: "finishReconcile env d (pc_path ?c) (pc_deliveryId ?c) (pc_digest ?c) (pc_revision ?c) answer (dw_files w) = (fs', out)"
      by fastforce
    with check_end(1) have w': "dw_files w' = fs'" "dw_tasks w' = dw_tasks w" "dw_alive w' = dw_alive w"
      by (simp_all add: check_ended_def Let_def)
    show ?thesis
    proof (rule untouched_tasks [OF w hw' w'(2,3)])
      fix e t assume "map_of (dw_tasks w) e = Some t" "engaged (tk_phase t)"
      with owner_seen [OF w this check_end(3)] finish_spares [OF f]
      show "content (dw_files w') (tk_path t) = content (dw_files w) (tk_path t)" by (simp add: w')
    qed
  next
    case (spawn h p)
    have "placed name w' e t" if "map_of (dw_tasks w) e = Some t" for e t
      by (rule placed_kept [of name w]) (use w that spawn(1) in \<open>auto simp: owned_world_def\<close>)
    with spawn hosts hw' w show ?thesis by (intro owned_worldI) (auto simp: owned_world_def one_host_def)
  next
    case (die process)
    have "placed name w' e t" if t: "map_of (dw_tasks w') e = Some t" for e t
    proof -
      have d: "dw_tasks w' = filter (\<lambda>(e, t). (tk_host t, tk_pid t) \<noteq> process \<or> ended (tk_phase t)) (dw_tasks w)"
        using die by (simp add: died_def)
      from map_of_filter_sub [OF t [unfolded d]] w have "placed name w e t"
        by (auto simp: owned_world_def honest_world_def)
      moreover from map_of_SomeD [OF t] d have "(tk_host t, tk_pid t) \<noteq> process \<or> ended (tk_phase t)" by auto
      ultimately show ?thesis using die by (auto simp: placed_def died_def)
    qed
    with hw' w die show ?thesis by (intro owned_worldI) (auto simp: owned_world_def one_host_def died_def)
  qed
qed

lemma run_owned:
  assumes "(durable_step hosts writes)\<^sup>*\<^sup>* w w'" "owned_world name w"
    "\<And>h. h \<in> hosts \<Longrightarrow> map js_lower h = name" "Interrupted \<notin> writes"
  shows "owned_world name w'"
  using assms by (induction rule: rtranclp_induct) (auto intro: step_owned)

lemma quiet_owned: "owned_world name (quiet_world fs)"
  by (simp add: owned_world_def quiet_honest one_host_def) (simp add: quiet_world_def)

text \<open>C13: On one host, and with writes that either happen or fail, a delivery is never executed twice at the
same time: of all processes and tasks, at most one is between the start of its heartbeat and its settlement, and the
receipt on file is in its name. The expiry of a lease does not change this while the owner's process lives.\<close>

theorem executions_exclude_each_other:
  assumes "(durable_step hosts writes)\<^sup>*\<^sup>* (quiet_world fs) w"
    and "\<And>h. h \<in> hosts \<Longrightarrow> map js_lower h = name" and "Interrupted \<notin> writes"
    and "map_of (dw_tasks w) e = Some t" "engaged (tk_phase t)" "map_of (dw_tasks w) e' = Some t'" "engaged (tk_phase t')"
    and "tk_path t = tk_path t'"
  shows "e = e' \<and> owned (dw_files w) t"
proof -
  have w: "owned_world name w" by (rule run_owned [OF assms(1) quiet_owned assms(2,3)])
  with assms(4-7) have "placed name w e t" "placed name w e' t'" by (auto simp: owned_world_def)
  with assms(5,7,8) show ?thesis by (auto simp: placed_def owned_def names_owner_def)
qed

text \<open>A delivery that waits for its transport while a second request for it arrives and waits in vain.\<close>

definition contested_delivery :: "act list" where
  "contested_delivery =
     [Spawn ''pc'' 7, sample_call ''e1'', GoOn (delivery_env 1000) Go ''e1'', Beat (delivery_env 1001) ''e1'',
      GoOn (delivery_env 1002) Go ''e1'', sample_call ''e2'', GoOn (delivery_env 2000000) Go ''e2'',
      GoOn (delivery_env 2000000) Go ''e2'', GoOn (delivery_env 2000000) Go ''e2'']"

definition contested_world :: durable_world where
  "contested_world = the (run_schedule (\<lambda>x. x = Written) contested_delivery (quiet_world []))"

lemma contested_reachable: "(durable_step {''pc''} {Written})\<^sup>*\<^sup>* (quiet_world []) contested_world"
proof (rule schedule_run)
  have "\<not> Option.is_none (run_schedule (\<lambda>x. x = Written) contested_delivery (quiet_world []))" by code_simp
  then show "run_schedule (\<lambda>x. x \<in> {Written}) contested_delivery (quiet_world []) = Some contested_world"
    by (auto simp: contested_world_def Option.is_none_def)
  show "list_all (spawns_on {''pc''}) contested_delivery" by (simp add: contested_delivery_def sample_call_def)
qed

theorem executions_exclude_each_other_witness:
  "\<exists>t t'. map_of (dw_tasks contested_world) ''e1'' = Some t \<and> tk_phase t = Delivering InFirst
    \<and> owned (dw_files contested_world) t \<and> map_of (dw_tasks contested_world) ''e2'' = Some t'
    \<and> tk_phase t' = Ended (Inr (PendingOutcome InProgress True
        ''Another execution still owns this delivery; do not resend automatically.''))"
proof -
  let ?t = "the (map_of (dw_tasks contested_world) ''e1'')" and ?u = "the (map_of (dw_tasks contested_world) ''e2'')"
  have "\<not> Option.is_none (map_of (dw_tasks contested_world) ''e1'')" "\<not> Option.is_none (map_of (dw_tasks contested_world) ''e2'')"
    by code_simp+
  then have some: "map_of (dw_tasks contested_world) ''e1'' = Some ?t" "map_of (dw_tasks contested_world) ''e2'' = Some ?u"
    by (simp_all add: Option.is_none_def)
  have t: "tk_phase ?t = Delivering InFirst" by code_simp
  have u: "tk_phase ?u = Ended (Inr (PendingOutcome InProgress True
        ''Another execution still owns this delivery; do not resend automatically.''))" by code_simp
  have "owned (dw_files contested_world) ?t"
    using executions_exclude_each_other [OF contested_reachable _ _ some(1) _ some(1) _ refl, of "map js_lower ''pc''"] t by simp
  with some t u show ?thesis by blast
qed

section \<open>A request that is given up\<close>

lemma alive_seen:
  assumes "owned_world name w" "map_of (dw_tasks w) e = Some t" "(tk_host t, tk_pid t) \<in> set (dw_alive w)" "acts_as w process env"
  shows "seen_alive env t"
proof -
  from assms(1,2) have p: "placed name w e t" by (auto simp: owned_world_def)
  from assms(4) have "(de_host env, de_pid env) \<in> set (dw_alive w)" by (auto simp: acts_as_def)
  with assms(1,3) have "tk_host t \<noteq> [] \<and> 0 < tk_pid t \<and> map js_lower (tk_host t) = map js_lower (de_host env)"
    by (auto simp: owned_world_def one_host_def)
  with assms(3,4) p show ?thesis by (auto simp: acts_as_def seen_alive_def placed_def list_all_iff)
qed

text \<open>On one host, a request that throws after its reservation, for instance because its authority was revoked, leaves a
receipt that stays in its name: as long as its process lives, no step of any process changes it,
however long ago its lease has run out. Later requests for the delivery find it in progress. (A comment in
the source expects the take-over after the lease.)\<close>

theorem abandoned_deliveries_stay:
  assumes "(durable_step hosts writes)\<^sup>*\<^sup>* (quiet_world fs) w"
    and "\<And>h. h \<in> hosts \<Longrightarrow> map js_lower h = name" and "Interrupted \<notin> writes"
    and t: "map_of (dw_tasks w) e = Some t" "ended (tk_phase t)" "owned (dw_files w) t" "(tk_host t, tk_pid t) \<in> set (dw_alive w)"
    and step: "durable_step hosts writes w w'"
  shows "owned (dw_files w') t"
proof -
  have w: "owned_world name w" by (rule run_owned [OF assms(1) quiet_owned assms(2,3)])
  then have e: "tk_executionId t = e" using t(1) by (auto simp: owned_world_def placed_def)
  note seen = alive_seen [OF w t(1,4)]
  from step have "content (dw_files w') (tk_path t) = content (dw_files w) (tk_path t)"
  proof (cases rule: durable_step.cases)
    case (call process env j sha root namespace i payload opts)
    obtain fs' res where c: "executeDurableDelivery env sha root namespace i payload opts j (dw_files w) = (fs', res)" by fastforce
    with call_spares [OF c t(3)] call(1) show ?thesis by (auto simp: called_def split: sum.splits)
  next
    case (go_on j u env rp)
    then obtain fs' u' es where x: "resume_delivery env rp u (dw_files w) = Some (fs', u', es)" "dw_files w' = fs'"
      by (auto simp: resumed_def split: option.splits)
    with resumed_not_ended [OF x(1)] t(1,2) go_on(1) have "j \<noteq> e" by auto
    moreover have "tk_executionId u = j" "honest_task (dw_files w) u"
      using w go_on(1) by (auto simp: owned_world_def placed_def honest_world_def)
    ultimately show ?thesis using resume_spares [OF x(1) t(3) seen [OF go_on(2)]] e x(2) by simp
  next
    case (beat j u env)
    then show ?thesis using renew_cases by (auto simp: renewed_def split: prod.splits)
  next
    case (check_end n env d answer)
    then show ?thesis using finish_spares [OF _ t(3) seen [OF check_end(3)]]
      by (auto simp: check_ended_def Let_def split: prod.splits)
  qed (simp_all add: check_started_def died_def split: sum.splits prod.splits)
  with owned_content t(3) show ?thesis by blast
qed

definition revoked_delivery :: "act list" where
  "revoked_delivery =
     [Spawn ''pc'' 7, sample_call ''e1'', GoOn ((delivery_env 1000)\<lparr>de_revoked := Some (0, Err ''revoked'')\<rparr>) Go ''e1'',
      sample_call ''e2'', GoOn (delivery_env 90000000) Go ''e2'', GoOn (delivery_env 90000000) Go ''e2'']"

definition revoked_world :: durable_world where
  "revoked_world = the (run_schedule (\<lambda>x. x = Written) revoked_delivery (quiet_world []))"

definition late_world :: durable_world where
  "late_world = the (perform (\<lambda>x. x = Written) (GoOn (delivery_env 90000000) Go ''e2'') revoked_world)"

lemma revoked_reachable: "(durable_step {''pc''} {Written})\<^sup>*\<^sup>* (quiet_world []) revoked_world"
proof (rule schedule_run)
  have "\<not> Option.is_none (run_schedule (\<lambda>x. x = Written) revoked_delivery (quiet_world []))" by code_simp
  then show "run_schedule (\<lambda>x. x \<in> {Written}) revoked_delivery (quiet_world []) = Some revoked_world"
    by (auto simp: revoked_world_def Option.is_none_def)
  show "list_all (spawns_on {''pc''}) revoked_delivery" by (simp add: revoked_delivery_def sample_call_def)
qed

lemma late_step: "durable_step {''pc''} {Written} revoked_world late_world"
proof (rule perform_step)
  have "\<not> Option.is_none (perform (\<lambda>x. x = Written) (GoOn (delivery_env 90000000) Go ''e2'') revoked_world)" by code_simp
  then show "perform (\<lambda>x. x \<in> {Written}) (GoOn (delivery_env 90000000) Go ''e2'') revoked_world = Some late_world"
    by (auto simp: late_world_def Option.is_none_def)
qed simp

text \<open>A receipt in the name of a task, as a computation.\<close>

definition owned_code :: "durable_files \<Rightarrow> dtask \<Rightarrow> bool" where
  "owned_code fs t = (case content fs (tk_path t) of Some (Parsed p) \<Rightarrow> dr_state p = Sending
     \<and> dr_executionId p = Some (tk_executionId t) \<and> dr_ownerHost p = Some (tk_host t) \<and> dr_ownerPid p = Some (tk_pid t) | _ \<Rightarrow> False)"

lemma owned_code: "owned_code fs t = owned fs t"
  by (auto simp: owned_code_def owned_def names_owner_def simp del: content_None split: option.splits contents.splits)

theorem abandoned_deliveries_stay_witness:
  "\<exists>t u. map_of (dw_tasks late_world) ''e1'' = Some t \<and> tk_phase t = Ended (Inl (Err ''revoked'')) \<and> owned (dw_files late_world) t
    \<and> map_of (dw_tasks late_world) ''e2'' = Some u
    \<and> tk_phase u = Ended (Inr (PendingOutcome InProgress True ''Another execution still owns this delivery; do not resend automatically.''))"
proof -
  let ?t = "the (map_of (dw_tasks revoked_world) ''e1'')" and ?s = "the (map_of (dw_tasks late_world) ''e1'')"
    and ?u = "the (map_of (dw_tasks late_world) ''e2'')"
  have "\<not> Option.is_none (map_of (dw_tasks revoked_world) ''e1'')" "\<not> Option.is_none (map_of (dw_tasks late_world) ''e1'')"
    "\<not> Option.is_none (map_of (dw_tasks late_world) ''e2'')" by code_simp+
  then have some: "map_of (dw_tasks revoked_world) ''e1'' = Some ?t" "map_of (dw_tasks late_world) ''e1'' = Some ?s"
    "map_of (dw_tasks late_world) ''e2'' = Some ?u" by (simp_all add: Option.is_none_def)
  have "owned_code (dw_files revoked_world) ?t" by code_simp
  then have o': "owned (dw_files revoked_world) ?t" by (simp add: owned_code)
  have t: "tk_phase ?t = Ended (Inl (Err ''revoked''))" by code_simp
  have alive: "(tk_host ?t, tk_pid ?t) \<in> set (dw_alive revoked_world)" by code_simp
  have "owned (dw_files late_world) ?t"
    using abandoned_deliveries_stay [OF revoked_reachable _ _ some(1) _ o' alive late_step, of "map js_lower ''pc''"] t by simp
  moreover have "tk_path ?s = tk_path ?t" "tk_executionId ?s = tk_executionId ?t" "tk_host ?s = tk_host ?t" "tk_pid ?s = tk_pid ?t"
    by code_simp+
  ultimately have "owned (dw_files late_world) ?s" by (simp add: owned_def names_owner_def)
  moreover have "tk_phase ?s = Ended (Inl (Err ''revoked''))" by code_simp
  moreover have "tk_phase ?u = Ended (Inr (PendingOutcome InProgress True ''Another execution still owns this delivery; do not resend automatically.''))"
    by code_simp
  ultimately show ?thesis using some by blast
qed

section \<open>The heartbeat of a retry\<close>

fun retrying :: "delivery_phase \<Rightarrow> bool" where
  "retrying (Delivering h) = (h = InRetry)"
| "retrying (Settling h v b) = (h = InRetry)"
| "retrying _ = False"

definition retry_silent :: "dtask \<Rightarrow> bool" where
  "retry_silent t \<longleftrightarrow> (retrying (tk_phase t) \<longrightarrow> tk_heart t = HeartIdle)"

lemma not_retrying [simp]:
  "\<not> retrying (tk_phase (body_failed env i e t))" "\<not> retrying (tk_phase (retry_failed env i e t))"
  "\<not> retrying (tk_phase (recovery_failed env i e d t))" "\<not> retrying (tk_phase (start_failed env i e t))"
  "\<not> retrying (tk_phase (pending_end st m t))" "\<not> retrying (tk_phase (section_done h out t))"
  "\<not> retrying (tk_phase (executeClaimedDelivery env i r b t))" "\<not> retrying (tk_phase (after_wait env r t))"
  "\<not> retrying (tk_phase (after_look env t fs))"
  by (auto simp: body_failed_def retry_failed_def recovery_failed_def start_failed_def pending_end_def section_done_def
      executeClaimedDelivery_def after_wait_def after_look_def Let_def split: sum.splits option.splits)

lemma silent_simps [simp]: "\<not> retrying (tk_phase t) \<Longrightarrow> retry_silent t"
  "retry_silent (goto ph t) = (retrying ph \<longrightarrow> tk_heart t = HeartIdle)"
  by (simp_all add: retry_silent_def)

lemma first_failed_not_retrying: "first_failed env i e t = (t', es) \<Longrightarrow> \<not> retrying (tk_phase t')"
  by (auto simp: first_failed_def ask_recovery_def split: sum.splits if_splits)

lemma section_failed_not_retrying: "section_failed env h e t = (t', es) \<Longrightarrow> \<not> retrying (tk_phase t')"
  by (auto simp: section_failed_def dest: first_failed_not_retrying split: handler.splits)

lemma claimed_body_silent: "claimed_body env t = (t', es) \<Longrightarrow> retry_silent t'"
  by (auto simp: claimed_body_def first_send_def ask_recovery_def dest: first_failed_not_retrying split: sum.splits if_splits)

lemma after_recovery_silent: "after_recovery env a d t = (t', es) \<Longrightarrow> retry_silent t'"
  by (auto simp: after_recovery_def deliverOnce_def split: sum.splits recovery_answer.splits prod.splits)

lemma after_delivery_silent: "after_delivery env h v t = (t', es) \<Longrightarrow> (h = InRetry \<Longrightarrow> tk_heart t = HeartIdle) \<Longrightarrow> retry_silent t'"
  by (auto simp: after_delivery_def dest: first_failed_not_retrying split: sum.splits if_splits)

lemma after_claim_not_retrying: "\<not> retrying (tk_phase (after_claim env c t))"
  by (auto simp: after_claim_def split: sum.splits prod.splits option.splits)

lemma resume_silent:
  assumes "resume_delivery env rp t fs = Some (fs', t', es)" "retry_silent t"
  shows "retry_silent t'"
proof (cases "tk_phase t")
  case Starting
  with assms(1) show ?thesis
    by (auto simp: resume_delivery_def with_files_def start_step_def dest: claimed_body_silent split: heart.splits wakening.splits)
next
  case (Delivering h)
  with assms show ?thesis
    by (cases rp) (auto simp: resume_delivery_def with_files_def retry_silent_def [of t]
        dest: after_delivery_silent first_failed_not_retrying split: if_splits)
next
  case (Asking d)
  with assms show ?thesis
    by (cases rp) (auto simp: resume_delivery_def with_files_def silently_def dest: after_recovery_silent)
next
  case (Waiting r d)
  with assms show ?thesis
    by (cases rp) (auto simp: resume_delivery_def silently_def waitForTerminal_def Let_def split: sum.splits option.splits if_splits)
next
  case (Settling h v d)
  with assms show ?thesis
    by (cases rp) (auto simp: resume_delivery_def settle_step_def dest: section_failed_not_retrying split: prod.splits sum.splits)
next
  case (Marking h r l d)
  with assms show ?thesis
    by (cases rp) (auto simp: resume_delivery_def mark_step_def silently_def with_files_def dest: section_failed_not_retrying split: prod.splits sum.splits)
next
  case (Releasing r d)
  with assms show ?thesis
    by (cases rp) (auto simp: resume_delivery_def release_step_def silently_def with_files_def dest: section_failed_not_retrying split: prod.splits sum.splits)
next
  case (Filling r)
  with assms show ?thesis
    by (cases rp) (auto simp: resume_delivery_def fill_step_def silently_def split: prod.splits sum.splits)
next
  case (Claiming r)
  with assms show ?thesis
    by (cases rp) (auto simp: resume_delivery_def claim_step_def silently_def after_claim_not_retrying split: prod.splits sum.splits)
qed (use assms in \<open>auto simp: resume_delivery_def silently_def split: wakening.splits\<close>)

definition silent_world :: "durable_world \<Rightarrow> bool" where
  "silent_world w \<longleftrightarrow> distinct (map fst (dw_tasks w)) \<and> (\<forall>e t. map_of (dw_tasks w) e = Some t \<longrightarrow> retry_silent t)"

lemma silent_update:
  assumes "silent_world w" "dw_tasks w' = AList.update e t (dw_tasks w)" "retry_silent t"
  shows "silent_world w'"
  using assms by (auto simp: silent_world_def update_conv' distinct_update)

lemma step_silent:
  assumes "durable_step hosts writes w w'" "silent_world w"
  shows "silent_world w'"
  using assms(1)
proof (cases rule: durable_step.cases)
  case (call process env e sha root namespace i payload opts)
  obtain fs' res where c: "executeDurableDelivery env sha root namespace i payload opts e (dw_files w) = (fs', res)" by fastforce
  show ?thesis
  proof (cases res)
    case (Inl x)
    with c call(1) assms(2) show ?thesis by (simp add: called_def silent_world_def)
  next
    case (Inr t)
    from call_cases(2) [OF c Inr] have "retry_silent t" by (cases "tk_phase t") (auto simp: retry_silent_def)
    with c call(1) Inr silent_update [OF assms(2)] show ?thesis by (simp add: called_def)
  qed
next
  case (go_on e t env rp)
  from go_on(4) obtain fs' t' es where x: "resume_delivery env rp t (dw_files w) = Some (fs', t', es)"
    "dw_tasks w' = AList.update e t' (dw_tasks w)" by (auto simp: resumed_def split: option.splits)
  from assms(2) go_on(1) have "retry_silent t" by (simp add: silent_world_def)
  from silent_update [OF assms(2) x(2) resume_silent [OF x(1) this]] show ?thesis .
next
  case (beat e t env)
  obtain fs' heart where r: "renew env (lease_of t) (tk_heart t) (dw_files w) = (fs', heart)" by fastforce
  from assms(2) beat(2) have "retry_silent t" by (simp add: silent_world_def)
  with beat(5) have "retry_silent (t\<lparr>tk_heart := heart\<rparr>)" by (simp add: retry_silent_def)
  moreover have "dw_tasks w' = AList.update e (t\<lparr>tk_heart := heart\<rparr>) (dw_tasks w)" using r beat(1) by (simp add: renewed_def)
  ultimately show ?thesis using silent_update [OF assms(2)] by blast
next
  case (die process)
  then have d: "dw_tasks w' = filter (\<lambda>(e, t). (tk_host t, tk_pid t) \<noteq> process \<or> ended (tk_phase t)) (dw_tasks w)"
    by (simp add: died_def)
  show ?thesis unfolding silent_world_def d
    using map_of_filter_sub assms(2) by (auto simp: silent_world_def distinct_map_filter)
qed (use assms(2) in \<open>auto simp: silent_world_def check_started_def check_ended_def Let_def split: sum.splits prod.splits\<close>)

text \<open>A retry that \<open>recover\<close> has granted runs without its heartbeat: from the call of \<open>deliver\<close> on, nothing renews
the lease of the execution, although it still owns the receipt. Its promise is returned without \<open>await\<close> from a
\<open>try\<close> whose \<open>finally\<close> stops the heartbeat. So another host may take the delivery over while the retry is under
way, and deliver it at the same time.\<close>

theorem retries_lose_their_heartbeat:
  assumes "(durable_step hosts writes)\<^sup>*\<^sup>* (quiet_world fs) w"
    and "map_of (dw_tasks w) e = Some t" "tk_phase t = Delivering InRetry"
  shows "tk_heart t = HeartIdle"
proof -
  have "silent_world (quiet_world fs)" by (simp add: silent_world_def quiet_world_def)
  with assms(1) have "silent_world w" by (induction rule: rtranclp_induct) (use step_silent in blast)+
  with assms(2,3) show ?thesis by (auto simp: silent_world_def retry_silent_def)
qed

definition other_env :: "int \<Rightarrow> durable_env" where
  "other_env now = (delivery_env now)\<lparr>de_host := ''mac'', de_pid := 9, de_alive := (\<lambda>p. p = 9)\<rparr>"

definition overtaken_retry :: "act list" where
  "overtaken_retry =
     [Spawn ''pc'' 7, Spawn ''mac'' 9, sample_call ''e1'', GoOn (delivery_env 1000) Go ''e1'', Beat (delivery_env 1001) ''e1'',
      GoOn (delivery_env 1002) Go ''e1'', GoOn (delivery_env 1003) (DeliverThrew (Err ''timeout'')) ''e1'',
      GoOn (delivery_env 1004) (RecoverGave RecoverRetry) ''e1'',
      Call (''mac'', 9) (other_env 990000) (JStr ''d1'') (JObj [(''text'', JStr ''hi'')]) (delivery_sample_options True) ''e2'',
      GoOn (other_env 990001) Go ''e2'', GoOn (other_env 990002) Go ''e2'', GoOn (other_env 990003) Go ''e2'',
      Beat (other_env 990004) ''e2'', GoOn (other_env 990005) Go ''e2'', GoOn (other_env 990006) (RecoverGave RecoverRetry) ''e2'']"

definition overtaken_world :: durable_world where
  "overtaken_world = the (run_schedule (\<lambda>x. x = Written) overtaken_retry (quiet_world []))"

lemma overtaken_reachable: "(durable_step {''pc'', ''mac''} {Written})\<^sup>*\<^sup>* (quiet_world []) overtaken_world"
proof (rule schedule_run)
  have "\<not> Option.is_none (run_schedule (\<lambda>x. x = Written) overtaken_retry (quiet_world []))" by code_simp
  then show "run_schedule (\<lambda>x. x \<in> {Written}) overtaken_retry (quiet_world []) = Some overtaken_world"
    by (auto simp: overtaken_world_def Option.is_none_def)
  show "list_all (spawns_on {''pc'', ''mac''}) overtaken_retry" by (simp add: overtaken_retry_def sample_call_def)
qed

theorem retries_lose_their_heartbeat_witness:
  "\<exists>t u. map_of (dw_tasks overtaken_world) ''e1'' = Some t \<and> tk_phase t = Delivering InRetry \<and> tk_heart t = HeartIdle
    \<and> map_of (dw_tasks overtaken_world) ''e2'' = Some u \<and> tk_phase u = Delivering InRetry \<and> tk_path t = tk_path u
    \<and> (tk_host t, tk_pid t) \<in> set (dw_alive overtaken_world)"
proof -
  let ?t = "the (map_of (dw_tasks overtaken_world) ''e1'')" and ?u = "the (map_of (dw_tasks overtaken_world) ''e2'')"
  have "\<not> Option.is_none (map_of (dw_tasks overtaken_world) ''e1'')" "\<not> Option.is_none (map_of (dw_tasks overtaken_world) ''e2'')"
    by code_simp+
  then have some: "map_of (dw_tasks overtaken_world) ''e1'' = Some ?t" "map_of (dw_tasks overtaken_world) ''e2'' = Some ?u"
    by (simp_all add: Option.is_none_def)
  have "tk_phase ?t = Delivering InRetry" "tk_phase ?u = Delivering InRetry" "tk_path ?t = tk_path ?u"
    "(tk_host ?t, tk_pid ?t) \<in> set (dw_alive overtaken_world)" by code_simp+
  with retries_lose_their_heartbeat [OF overtaken_reachable some(1)] some show ?thesis by blast
qed

end
