(* ===== verification/AgentSend.thy ===== *)
theory AgentSend
  imports DurableReceipts
begin

text \<open>
  What a client asks to send (\<open>src/src/agentSend.ts\<close>, with the field names, limits and channels of
  \<open>agentSendContracts.ts\<close>): the checks of a request, the typed form it is turned into, the target and the
  internal reply request of every channel, and the payload that identifies the request.

  A request is an object, given by its own properties. The quotas are read from the environment at every
  check, which may throw, and are parameters. The error of an unsupported channel keeps its code and its text;
  the table of channels that the code attaches to it is \<open>channel_params\<close>.
\<close>

section \<open>Objects, texts and lists\<close>

type_synonym fields = "(string \<times> jval) list"

text \<open>\<open>Object.assign\<close> and spreading: properties are set one after the other.\<close>

definition assign :: "fields \<Rightarrow> fields \<Rightarrow> fields" where
  "assign fs gs = fold (\<lambda>(k, v). AList.update k v) gs fs"

definition hasOwn :: "jval \<Rightarrow> string \<Rightarrow> bool" where
  "hasOwn v k \<longleftrightarrow> k \<in> set (jkeys v)"

definition nullish :: "jval \<Rightarrow> bool" where
  "nullish v \<longleftrightarrow> v = JUndef \<or> v = JNull"

text \<open>\<open>${n}\<close> for an index, and \<open>names.join(", ")\<close>.\<close>

fun decimal :: "nat \<Rightarrow> string" where
  "decimal n = (if n < 10 then [char_of (48 + n)] else decimal (n div 10) @ [char_of (48 + n mod 10)])"

declare decimal.simps [simp del]

fun comma_list :: "string list \<Rightarrow> string" where
  "comma_list [] = []"
| "comma_list [x] = x"
| "comma_list (x # y # zs) = x @ '', '' @ comma_list (y # zs)"

fun line_list :: "string list \<Rightarrow> string" where
  "line_list [] = []"
| "line_list [x] = x"
| "line_list (x # y # zs) = x @ CHR 0x0A # line_list (y # zs)"

text \<open>\<open>values.map((value, index) => ...)\<close> with a function that may throw.\<close>

fun map_indexed :: "(nat \<Rightarrow> 'a \<Rightarrow> 'b result) \<Rightarrow> nat \<Rightarrow> 'a list \<Rightarrow> 'b list result" where
  "map_indexed f n [] = Inr []"
| "map_indexed f n (x # xs) = bind (f n x) (\<lambda>y. bind (map_indexed f (Suc n) xs) (\<lambda>ys. Inr (y # ys)))"

definition assertOnlyFields :: "jval \<Rightarrow> string list \<Rightarrow> string \<Rightarrow> unit result" where
  "assertOnlyFields v allowed field =
     (let unexpected = filter (\<lambda>k. k \<notin> set allowed) (jkeys v) in
      check (unexpected = []) (Err (field @ '' contains unsupported fields: '' @ comma_list unexpected @ ''.'')))"

definition objectValue :: "jval \<Rightarrow> string \<Rightarrow> bool \<Rightarrow> jval result" where
  "objectValue v field required =
     (if is_object v then Inr v
      else if \<not> required \<and> nullish v then Inr (JObj [])
      else Inl (Err (field @ '' must be an object.'')))"

text \<open>\<open>textValue\<close>: the text of a value, when it must be present and when it need not be.\<close>

definition text_of :: "jval \<Rightarrow> string" where
  "text_of v = (if nullish v then [] else js_trim (js_String v))"

definition textValue :: "jval \<Rightarrow> string \<Rightarrow> string result" where
  "textValue v field = (if text_of v \<noteq> [] then Inr (text_of v) else Inl (Err (''Missing '' @ field @ ''.'')))"

definition optionalText :: "jval \<Rightarrow> string option" where
  "optionalText v = or_undef (text_of v)"

definition booleanValue :: "jval \<Rightarrow> string \<Rightarrow> bool result" where
  "booleanValue v field = (if nullish v then Inr False
     else case v of JBool b \<Rightarrow> Inr b | _ \<Rightarrow> Inl (Err (field @ '' must be a boolean.'')))"

definition stringListValue :: "jval \<Rightarrow> string \<Rightarrow> string list result" where
  "stringListValue v field = (if nullish v then Inr []
     else case v of
       JArr vs \<Rightarrow> map_indexed (\<lambda>i x. textValue x (field @ ''['' @ decimal i @ '']'')) 0 vs
     | _ \<Rightarrow> Inl (Err (field @ '' must be an array.'')))"

definition normalizeStyleValidationMode :: "jval \<Rightarrow> bool result" where
  "normalizeStyleValidationMode v =
     (if nullish v then Inr True
      else if v = JNum ''0'' then Inr False
      else if v = JNum ''1'' then Inr True
      else Inl (Err ''styleValidation must be 1 (validate) or 0 (skip validation).''))"

section \<open>Fields, limits and channels\<close>

definition request_fields :: "string list" where
  "request_fields = [''deliveryId'', ''sender'', ''routeId'', ''channel'', ''params'', ''payload'', ''tracking'',
     ''styleValidation'', ''messageLengthConfirmation'', ''conversationContext'']"

definition payload_field_names :: "string list" where
  "payload_field_names = [''type'', ''text'', ''path'', ''url'', ''fileName'', ''fileId'', ''fileSha256'',
     ''planAttachment'', ''segments'', ''stickerId'']"

definition payload_types :: "string list" where
  "payload_types = [''text'', ''image'', ''voice'', ''file'', ''markdown'', ''sticker'']"

definition context_fields :: "string list" where
  "context_fields = [''lastReadMessageIndex'', ''confirmationToken'']"

definition channel_params :: "(string \<times> string list) list" where
  "channel_params =
    [(''napcat'', [''target'', ''groupId'', ''userId'', ''instanceId'', ''replyToMessageId'', ''replyImageDescriptions'',
        ''allowAdditionalReply'']),
     (''wecom'', [''chatId'', ''userId'', ''reqId'']),
     (''weixin'', [''sessionId'', ''userId'']),
     (''feishu'', [''chatId'', ''userId'']),
     (''rabilink'', [''proactive'', ''sourceMessageId'', ''targetDeviceIds'', ''targetDeviceKinds'', ''source'',
        ''presentation'', ''priority'']),
     (''speech'', [''sessionId'']),
     (''role_panel'', [''roleId'', ''messageId'']),
     (''plan_feedback'', [''roleId'', ''planId'', ''kind'', ''stepId'', ''feedbackId''])]"

definition agentSendChannelHelp :: "string \<Rightarrow> string list option" where
  "agentSendChannelHelp channel = map_of channel_params channel"

section \<open>The sender\<close>

record send_sender =
  ss_agentType :: string
  ss_sessionId :: string

definition control_char :: "char \<Rightarrow> bool" where
  "control_char c \<longleftrightarrow> (of_char c :: nat) < 32 \<or> (of_char c :: nat) = 127"

definition agent_type_text :: "string \<Rightarrow> bool" where
  "agent_type_text s \<longleftrightarrow> s \<noteq> [] \<and> length s \<le> 80 \<and> is_alpha (hd s)
     \<and> list_all (\<lambda>c. is_alpha c \<or> is_digit c \<or> c \<in> set ''._-'') s"

definition plain_id :: "nat \<Rightarrow> string \<Rightarrow> bool" where
  "plain_id limit s \<longleftrightarrow> length s \<le> limit \<and> \<not> list_ex control_char s"

definition senderValue :: "jval \<Rightarrow> send_sender result" where
  "senderValue v =
     bind (objectValue v ''sender'' True) (\<lambda>sender.
     bind (assertOnlyFields sender [''agentType'', ''sessionId''] ''sender'') (\<lambda>_.
     bind (textValue (jget sender ''agentType'') ''sender.agentType'') (\<lambda>agentType.
     bind (textValue (jget sender ''sessionId'') ''sender.sessionId'') (\<lambda>sessionId.
     bind (check (agent_type_text agentType) (Err ''sender.agentType must be a stable Agent type identifier.'')) (\<lambda>_.
     bind (check (plain_id 500 sessionId)
       (Err ''sender.sessionId must be a stable session identifier without control characters.'')) (\<lambda>_.
     Inr \<lparr>ss_agentType = agentType, ss_sessionId = sessionId\<rparr>))))))"

section \<open>Payloads\<close>

record plan_attachment =
  pa_roleId :: "string option"
  pa_planId :: string
  pa_attachmentId :: string

definition planAttachmentReference ::
    "jval \<Rightarrow> string \<Rightarrow> string option \<Rightarrow> string option \<Rightarrow> plan_attachment option result" where
  "planAttachmentReference v type path url =
     (if nullish v then Inr None
      else bind (check (is_object v) (Err ''payload.planAttachment must be an object.'')) (\<lambda>_.
       bind (assertOnlyFields v [''roleId'', ''planId'', ''attachmentId''] ''payload.planAttachment'') (\<lambda>_.
       bind (check (type = ''image'' \<or> type = ''file'')
         (Err ''payload.planAttachment is only supported for image or file payloads.'')) (\<lambda>_.
       bind (check (path \<noteq> None \<or> url \<noteq> None \<or> hasOwn v ''attachmentId'')
         (Err ''payload.planAttachment requires payload.planAttachment.attachmentId.'')) (\<lambda>_.
       bind (textValue (jget v ''planId'') ''payload.planAttachment.planId'') (\<lambda>planId.
       bind (textValue (jget v ''attachmentId'') ''payload.planAttachment.attachmentId'') (\<lambda>attachmentId.
       bind (check (plain_id 200 planId) (Err ''payload.planAttachment.planId must be a stable plan id.'')) (\<lambda>_.
       bind (check (plain_id 200 attachmentId)
         (Err ''payload.planAttachment.attachmentId must be a stable attachment id.'')) (\<lambda>_.
       Inr (Some \<lparr>pa_roleId = optionalText (jget v ''roleId''), pa_planId = planId, pa_attachmentId = attachmentId\<rparr>))))))))))"

definition attachment_json :: "plan_attachment \<Rightarrow> jval" where
  "attachment_json p = JObj ((case pa_roleId p of None \<Rightarrow> [] | Some r \<Rightarrow> [(''roleId'', JStr r)])
     @ [(''planId'', JStr (pa_planId p)), (''attachmentId'', JStr (pa_attachmentId p))])"

text \<open>The quotas of the environment; zero is none. A malformed setting throws when it is read.\<close>

record send_quotas =
  qt_sourceBytes :: "nat result"
  qt_segments :: "nat result"
  qt_images :: "nat result"

definition utf8_length :: "string \<Rightarrow> nat" where
  "utf8_length s = sum_list (map (\<lambda>c. if (of_char c :: nat) < 128 then 1 else 2) s)"

definition checkMarkdownQuota :: "string \<Rightarrow> nat result \<Rightarrow> nat \<Rightarrow> unit result" where
  "checkMarkdownQuota name maximum actual =
     bind maximum (\<lambda>limit. check (limit = 0 \<or> actual \<le> limit)
       (Err (name @ ''='' @ decimal limit @ '' exceeded (actual '' @ decimal actual
         @ ''). Increase this Manager environment setting or set 0 to remove the application quota.'')))"

text \<open>A text the sender wrote as a string is kept with its white space.\<close>

definition sender_text :: "jval \<Rightarrow> string \<Rightarrow> string" where
  "sender_text v validated = (case v of JStr s \<Rightarrow> s | _ \<Rightarrow> validated)"

datatype segment = TextSegment string | MarkdownSegment string | ImagePath string | ImageUrl string

definition segment_value :: "send_quotas \<Rightarrow> nat \<Rightarrow> jval \<Rightarrow> segment result" where
  "segment_value quotas index raw =
     (let label = ''payload.segments['' @ decimal index @ '']'' in
      bind (objectValue raw label True) (\<lambda>seg.
      bind (textValue (jget seg ''type'') (label @ ''.type'')) (\<lambda>type.
      if type = ''text'' then
        bind (assertOnlyFields seg [''type'', ''text''] label) (\<lambda>_.
        bind (textValue (jget seg ''text'') (label @ ''.text'')) (\<lambda>text.
        Inr (TextSegment (sender_text (jget seg ''text'') text))))
      else if type = ''markdown'' then
        bind (assertOnlyFields seg [''type'', ''text''] label) (\<lambda>_.
        bind (textValue (jget seg ''text'') (label @ ''.text'')) (\<lambda>validated.
        let text = sender_text (jget seg ''text'') validated in
        bind (checkMarkdownQuota ''RABIROUTE_MARKDOWN_MAX_SOURCE_BYTES'' (qt_sourceBytes quotas) (utf8_length text)) (\<lambda>_.
        Inr (MarkdownSegment text))))
      else if type = ''image'' then
        bind (assertOnlyFields seg [''type'', ''path'', ''url''] label) (\<lambda>_.
        bind (check (hasOwn seg ''path'' \<noteq> hasOwn seg ''url'')
          (Err (label @ '' requires exactly one of path or url.''))) (\<lambda>_.
        if hasOwn seg ''path''
        then bind (textValue (jget seg ''path'') (label @ ''.path'')) (\<lambda>file. Inr (ImagePath file))
        else bind (textValue (jget seg ''url'') (label @ ''.url'')) (\<lambda>file. Inr (ImageUrl file))))
      else Inl (Err (label @ ''.type must be text, image, or markdown.'')))))"

fun segment_text :: "segment \<Rightarrow> string option" where
  "segment_text (TextSegment s) = Some s"
| "segment_text (MarkdownSegment s) = Some s"
| "segment_text _ = None"

fun counts_as_image :: "segment \<Rightarrow> bool" where
  "counts_as_image (TextSegment _) = False"
| "counts_as_image _ = True"

fun segment_json :: "segment \<Rightarrow> jval" where
  "segment_json (TextSegment s) = JObj [(''type'', JStr ''text''), (''text'', JStr s)]"
| "segment_json (MarkdownSegment s) = JObj [(''type'', JStr ''markdown''), (''text'', JStr s)]"
| "segment_json (ImagePath s) = JObj [(''type'', JStr ''image''), (''path'', JStr s)]"
| "segment_json (ImageUrl s) = JObj [(''type'', JStr ''image''), (''url'', JStr s)]"

text \<open>The three fields of the internal request that the payload gives.\<close>

record payload_part =
  pp_payloadType :: string
  pp_text :: "string option"
  pp_payload :: jval

definition lower_hex :: "char \<Rightarrow> bool" where
  "lower_hex c \<longleftrightarrow> is_digit c \<or> c \<in> set ''abcdef''"

definition hex_text :: "nat \<Rightarrow> string \<Rightarrow> bool" where
  "hex_text n s \<longleftrightarrow> length s = n \<and> list_all lower_hex s"

definition uuid_text :: "string \<Rightarrow> bool" where
  "uuid_text s \<longleftrightarrow> length s = 36 \<and> list_all (\<lambda>(i, c).
     if i \<in> {8, 13, 18, 23} then c = CHR ''-''
     else if i = 14 then c \<in> set ''12345678''
     else if i = 19 then c \<in> set ''89abAB''
     else is_digit c \<or> c \<in> set ''abcdefABCDEF'') (zip [0..<36] s)"

definition sticker_payload :: "jval \<Rightarrow> string \<Rightarrow> payload_part result" where
  "sticker_payload payload channel =
     bind (assertOnlyFields payload [''type'', ''text'', ''stickerId''] ''payload'') (\<lambda>_.
     case jget payload ''stickerId'' of
       JStr s \<Rightarrow> if channel \<noteq> ''napcat'' \<or> \<not> hex_text 32 s
         then Inl (Err ''payload.type=sticker requires channel=napcat and a stickerId from the selected account's sticker list.'')
         else (let text = optionalText (jget payload ''text'') in
           Inr \<lparr>pp_payloadType = ''image'', pp_text = text, pp_payload = JObj ([(''type'', JStr ''sticker''), (''stickerId'', JStr s)]
             @ (case text of None \<Rightarrow> [] | Some t \<Rightarrow> [(''text'', JStr t)]))\<rparr>)
     | _ \<Rightarrow> Inl (Err ''payload.type=sticker requires channel=napcat and a stickerId from the selected account's sticker list.''))"

definition markdown_payload :: "send_quotas \<Rightarrow> jval \<Rightarrow> string \<Rightarrow> payload_part result" where
  "markdown_payload quotas payload channel =
     (if channel \<noteq> ''napcat'' \<or> list_ex (hasOwn payload)
        [''path'', ''url'', ''fileName'', ''fileId'', ''fileSha256'', ''planAttachment'', ''segments'']
      then Inl (Err ''payload.type=markdown requires channel=napcat and payload.text only.'')
      else bind (textValue (jget payload ''text'') ''payload.text'') (\<lambda>validated.
        let text = sender_text (jget payload ''text'') validated in
        bind (checkMarkdownQuota ''RABIROUTE_MARKDOWN_MAX_SOURCE_BYTES'' (qt_sourceBytes quotas) (utf8_length text)) (\<lambda>_.
        Inr \<lparr>pp_payloadType = ''image'', pp_text = Some text,
             pp_payload = JObj [(''type'', JStr ''markdown''), (''text'', JStr text)]\<rparr>)))"

definition segments_part :: "segment list \<Rightarrow> payload_part" where
  "segments_part segments = (let text = line_list (List.map_filter segment_text segments) in
     \<lparr>pp_payloadType = ''image'', pp_text = Some text, pp_payload = JObj [(''type'', JStr ''image''),
       (''text'', JStr text), (''segments'', JArr (map segment_json segments))]\<rparr>)"

definition segments_payload :: "send_quotas \<Rightarrow> jval \<Rightarrow> string \<Rightarrow> string \<Rightarrow> payload_part result" where
  "segments_payload quotas payload type channel =
     (if channel \<noteq> ''napcat'' \<or> type \<noteq> ''image''
      then Inl (Err ''payload.segments requires channel=napcat and payload.type=image.'')
      else if list_ex (hasOwn payload) [''text'', ''path'', ''url'', ''fileName'', ''fileId'', ''fileSha256'', ''planAttachment'']
      then Inl (Err ''payload.segments cannot be combined with top-level media or text fields.'')
      else (case jget payload ''segments'' of
        JArr (v # vs) \<Rightarrow>
          bind (checkMarkdownQuota ''RABIROUTE_AGENT_SEND_MAX_SEGMENTS'' (qt_segments quotas) (length (v # vs))) (\<lambda>_.
          bind (map_indexed (segment_value quotas) 0 (v # vs)) (\<lambda>segments.
          let imageCount = length (filter counts_as_image segments) in
          bind (check (imageCount \<noteq> 0) (Err ''payload.segments requires at least one image or Markdown segment.'')) (\<lambda>_.
          bind (checkMarkdownQuota ''RABIROUTE_AGENT_SEND_MAX_IMAGES'' (qt_images quotas) imageCount) (\<lambda>_.
          Inr (segments_part segments)))))
      | _ \<Rightarrow> Inl (Err ''payload.segments must contain at least one ordered text/image/markdown segment.'')))"

text \<open>The managed file of a payload: the checks of \<open>fileId\<close> and \<open>fileSha256\<close>.\<close>

definition file_reference :: "jval \<Rightarrow> string \<Rightarrow> bool \<Rightarrow> unit result" where
  "file_reference payload type attached =
     (if hasOwn payload ''fileId'' then
        bind (check (case jget payload ''fileId'' of JStr s \<Rightarrow> uuid_text s | _ \<Rightarrow> False)
          (Err ''payload.fileId must be a UUID.'')) (\<lambda>_.
        bind (check (type = ''file'') (Err ''payload.fileId is only supported for file payloads.'')) (\<lambda>_.
        bind (check (\<not> attached \<and> \<not> list_ex (hasOwn payload) [''path'', ''url'', ''fileName''])
          (Err ''payload.fileId cannot be combined with payload.path, payload.url, payload.fileName, or payload.planAttachment.'')) (\<lambda>_.
        check (case jget payload ''fileSha256'' of JStr s \<Rightarrow> hex_text 64 s | _ \<Rightarrow> False)
          (Err ''payload.fileSha256 must be 64 lowercase hexadecimal characters when payload.fileId is provided.''))))
      else check (\<not> hasOwn payload ''fileSha256'') (Err ''payload.fileSha256 requires payload.fileId.''))"

definition plain_part :: "jval \<Rightarrow> string \<Rightarrow> string option \<Rightarrow> string option \<Rightarrow> string option \<Rightarrow> plan_attachment option \<Rightarrow> payload_part" where
  "plain_part payload type text path url attachment =
     \<lparr>pp_payloadType = type, pp_text = text, pp_payload = JObj
       ([(''type'', JStr type), (''text'', opt_str text), (''path'', opt_str path), (''url'', opt_str url),
         (''fileName'', opt_str (optionalText (jget payload ''fileName'')))]
        @ (case attachment of None \<Rightarrow> [] | Some p \<Rightarrow> [(''planAttachment'', attachment_json p)])
        @ (if hasOwn payload ''fileId''
           then [(''fileId'', jget payload ''fileId''), (''fileSha256'', jget payload ''fileSha256'')] else []))\<rparr>"

definition plain_payload :: "jval \<Rightarrow> string \<Rightarrow> payload_part result" where
  "plain_payload payload type =
     bind (if type = ''text'' then bind (textValue (jget payload ''text'') ''payload.text'') (\<lambda>t. Inr (Some t))
           else Inr (optionalText (jget payload ''text''))) (\<lambda>validated.
     let text = map_option (sender_text (jget payload ''text'')) validated;
         path = optionalText (jget payload ''path''); url = optionalText (jget payload ''url'') in
     bind (planAttachmentReference (jget payload ''planAttachment'') type path url) (\<lambda>attachment.
     bind (check (attachment = None \<or> path = None \<and> url = None)
       (Err ''payload.planAttachment cannot be combined with payload.path or payload.url.'')) (\<lambda>_.
     bind (file_reference payload type (attachment \<noteq> None)) (\<lambda>_.
     bind (check (type = ''text'' \<or> path \<noteq> None \<or> url \<noteq> None \<or> hasOwn payload ''fileId'' \<or> attachment \<noteq> None)
       (Err (type @ '' payload requires payload.path or payload.url or payload.fileId or payload.planAttachment.''))) (\<lambda>_.
     Inr (plain_part payload type text path url attachment))))))"

definition payloadFields :: "send_quotas \<Rightarrow> jval \<Rightarrow> string \<Rightarrow> payload_part result" where
  "payloadFields quotas payload channel =
     bind (assertOnlyFields payload payload_field_names ''payload'') (\<lambda>_.
     bind (textValue (jget payload ''type'') ''payload.type'') (\<lambda>type.
     if type \<notin> set payload_types then Inl (Err ''payload.type must be text, image, voice, file, markdown, or sticker.'')
     else if type = ''sticker'' then sticker_payload payload channel
     else if hasOwn payload ''stickerId'' then Inl (Err ''payload.stickerId requires payload.type=sticker.'')
     else if type = ''markdown'' then markdown_payload quotas payload channel
     else if hasOwn payload ''segments'' then segments_payload quotas payload type channel
     else plain_payload payload type))"

section \<open>Targets\<close>

text \<open>
  What a channel contributes: the target that receipts and answers show, the fields it assigns to the
  internal request and to its reply context, and the two options of replies.
\<close>

record channel_part =
  cp_target :: fields
  cp_internal :: fields
  cp_context :: fields
  cp_allow :: bool
  cp_descriptions :: "string list"

definition channel_part_of :: "fields \<Rightarrow> fields \<Rightarrow> fields \<Rightarrow> channel_part" where
  "channel_part_of target internal context =
     \<lparr>cp_target = target, cp_internal = internal, cp_context = context, cp_allow = False, cp_descriptions = []\<rparr>"

definition quote_value_ok :: "jval \<Rightarrow> bool" where
  "quote_value_ok params \<longleftrightarrow> \<not> hasOwn params ''replyToMessageId''
     \<or> (case jget params ''replyToMessageId'' of JStr _ \<Rightarrow> True | JNum _ \<Rightarrow> True | _ \<Rightarrow> False)"

definition napcat_target :: "jval \<Rightarrow> send_sender \<Rightarrow> channel_part result" where
  "napcat_target params sender =
     bind (textValue (jget params ''target'') ''params.target'') (\<lambda>targetType.
     bind (check (targetType = ''group'' \<or> targetType = ''private'')
       (Err ''params.target must be group or private for napcat.'')) (\<lambda>_.
     bind (if targetType = ''group'' then map_sum id Some (textValue (jget params ''groupId'') ''params.groupId'') else Inr None) (\<lambda>groupId.
     bind (if targetType = ''private'' then map_sum id Some (textValue (jget params ''userId'') ''params.userId'') else Inr None) (\<lambda>userId.
     bind (check (quote_value_ok params)
       (Err ''params.replyToMessageId must be a QQ message ID string/number, or an empty string for an intentional unquoted group message.'')) (\<lambda>_.
     let replyTo = optionalText (jget params ''replyToMessageId'');
         instanceId = optionalText (jget params ''instanceId'') in
     bind (stringListValue (jget params ''replyImageDescriptions'') ''params.replyImageDescriptions'') (\<lambda>descriptions.
     bind (booleanValue (jget params ''allowAdditionalReply'') ''params.allowAdditionalReply'') (\<lambda>allow.
     bind (check (\<not> (targetType = ''group'' \<and> ss_agentType sender = ''message_processing'' \<and> replyTo = None))
       (Err ''message_processing NapCat group sends require a non-empty params.replyToMessageId so the reply stays attached to its source message.'')) (\<lambda>_.
     Inr \<lparr>cp_target = [(''target'', JStr targetType), (''groupId'', opt_str groupId), (''userId'', opt_str userId),
            (''instanceId'', opt_str instanceId), (''replyToMessageId'', opt_str replyTo)],
          cp_internal = [(''adapterType'', JStr ''napcat''), (''targetType'', JStr targetType), (''groupId'', opt_str groupId),
            (''userId'', opt_str userId), (''instanceId'', opt_str instanceId), (''messageId'', opt_str replyTo)],
          cp_context = [(''replyToSource'', JBool (replyTo \<noteq> None))],
          cp_allow = allow, cp_descriptions = descriptions\<rparr>))))))))"

definition wecom_target :: "jval \<Rightarrow> channel_part result" where
  "wecom_target params =
     bind (textValue (jget params ''chatId'') ''params.chatId'') (\<lambda>chatId.
     let userId = opt_str (optionalText (jget params ''userId'')) in
     Inr (channel_part_of [(''chatId'', JStr chatId), (''userId'', userId)]
       [(''adapterType'', JStr ''wecom''), (''targetType'', JStr ''group''), (''groupId'', JStr chatId),
        (''wecomChatId'', JStr chatId), (''userId'', userId), (''wecomReqId'', opt_str (optionalText (jget params ''reqId'')))] []))"

definition feishu_target :: "jval \<Rightarrow> channel_part result" where
  "feishu_target params =
     bind (textValue (jget params ''chatId'') ''params.chatId'') (\<lambda>chatId.
     let userId = opt_str (optionalText (jget params ''userId'')) in
     Inr (channel_part_of [(''chatId'', JStr chatId), (''userId'', userId)]
       [(''adapterType'', JStr ''feishu''), (''targetType'', JStr ''group''), (''groupId'', JStr chatId),
        (''feishuChatId'', JStr chatId), (''userId'', userId)] []))"

definition weixin_target :: "jval \<Rightarrow> channel_part result" where
  "weixin_target params =
     bind (textValue (jget params ''sessionId'') ''params.sessionId'') (\<lambda>sessionId.
     let userId = optionalText (jget params ''userId'') in
     Inr (channel_part_of [(''sessionId'', JStr sessionId), (''userId'', opt_str userId)]
       [(''adapterType'', JStr ''weixin''), (''targetType'', JStr ''private''),
        (''userId'', JStr (case userId of Some u \<Rightarrow> u | None \<Rightarrow> sessionId)), (''weixinSessionId'', JStr sessionId),
        (''sessionId'', JStr sessionId)] []))"

definition rabilink_target :: "jval \<Rightarrow> channel_part result" where
  "rabilink_target params =
     bind (booleanValue (jget params ''proactive'') ''params.proactive'') (\<lambda>proactive.
     let source = optionalText (jget params ''sourceMessageId'') in
     bind (stringListValue (jget params ''targetDeviceIds'') ''params.targetDeviceIds'') (\<lambda>ids.
     bind (stringListValue (jget params ''targetDeviceKinds'') ''params.targetDeviceKinds'') (\<lambda>kinds.
     bind (check (proactive \<or> source \<noteq> None) (Err ''RabiLink non-proactive sends require params.sourceMessageId.'')) (\<lambda>_.
     bind (check (ids \<noteq> [] \<or> kinds \<noteq> [])
       (Err ''RabiLink sends require params.targetDeviceIds or params.targetDeviceKinds.'')) (\<lambda>_.
     bind (stringListValue (jget params ''presentation'') ''params.presentation'') (\<lambda>presentation.
     let devices = [(''targetDeviceIds'', JArr (map JStr ids)), (''targetDeviceKinds'', JArr (map JStr kinds))] in
     Inr (channel_part_of ([(''proactive'', JBool proactive), (''sourceMessageId'', opt_str source)] @ devices)
       ([(''adapterType'', JStr ''rabilink''), (''targetType'', JStr ''rabilink''), (''messageId'', opt_str source),
         (''proactive'', JBool proactive), (''source'', opt_str (optionalText (jget params ''source'')))] @ devices
        @ [(''presentation'', JArr (map JStr presentation)), (''priority'', opt_str (optionalText (jget params ''priority'')))]) [])))))))"

definition speech_target :: "jval \<Rightarrow> channel_part result" where
  "speech_target params =
     (let sessionId = opt_str (optionalText (jget params ''sessionId'')) in
      Inr (channel_part_of [(''sessionId'', sessionId)]
        [(''adapterType'', JStr ''speech''), (''targetType'', JStr ''voice_transcript''), (''sessionId'', sessionId)]
        [(''adapterType'', JStr ''speech''), (''sessionId'', sessionId), (''characterTtsDialogue'', JBool True)]))"

definition role_panel_target :: "jval \<Rightarrow> channel_part result" where
  "role_panel_target params =
     bind (textValue (jget params ''roleId'') ''params.roleId'') (\<lambda>roleId.
     let messageId = opt_str (optionalText (jget params ''messageId'')) in
     Inr (channel_part_of [(''roleId'', JStr roleId), (''messageId'', messageId)]
       [(''adapterType'', JStr ''rolePanel''), (''targetType'', JStr ''role_panel''), (''roleId'', JStr roleId), (''messageId'', messageId)]
       [(''targetType'', JStr ''role_panel''), (''roleId'', JStr roleId)]))"

definition plan_feedback_target :: "jval \<Rightarrow> channel_part result" where
  "plan_feedback_target params =
     bind (textValue (jget params ''roleId'') ''params.roleId'') (\<lambda>roleId.
     bind (textValue (jget params ''planId'') ''params.planId'') (\<lambda>planId.
     bind (textValue (jget params ''kind'') ''params.kind'') (\<lambda>kind.
     bind (check (kind = ''guidance'' \<or> kind = ''approval'')
       (Err ''params.kind must be guidance or approval for plan_feedback.'')) (\<lambda>_.
     let stepId = opt_str (optionalText (jget params ''stepId''));
         feedbackId = opt_str (optionalText (jget params ''feedbackId'')) in
     Inr (channel_part_of [(''roleId'', JStr roleId), (''planId'', JStr planId), (''stepId'', stepId),
         (''feedbackId'', feedbackId), (''kind'', JStr kind)]
       [(''adapterType'', JStr ''planFeedback''), (''targetType'', JStr ''plan_feedback''), (''roleId'', JStr roleId)]
       [(''targetType'', JStr ''plan_feedback''), (''roleId'', JStr roleId), (''planId'', JStr planId), (''stepId'', stepId),
        (''planFeedbackId'', feedbackId), (''planFeedbackKind'', JStr kind)])))))"

definition channel_target :: "string \<Rightarrow> jval \<Rightarrow> send_sender \<Rightarrow> channel_part result" where
  "channel_target channel params sender =
     (if channel = ''napcat'' then napcat_target params sender
      else if channel = ''wecom'' then wecom_target params
      else if channel = ''feishu'' then feishu_target params
      else if channel = ''weixin'' then weixin_target params
      else if channel = ''rabilink'' then rabilink_target params
      else if channel = ''speech'' then speech_target params
      else if channel = ''role_panel'' then role_panel_target params
      else if channel = ''plan_feedback'' then plan_feedback_target params
      else Inl (Err (''Send channel has no normalizer: '' @ channel)))"

section \<open>A request to send\<close>

record normalized_send =
  ns_deliveryId :: string
  ns_sender :: send_sender
  ns_routeId :: string
  ns_channel :: string
  ns_allowAdditionalReply :: bool
  ns_replyImageDescriptions :: "string list"
  ns_target :: fields
  ns_styleValidation :: bool
  ns_messageLengthConfirmation :: "string option"
  ns_conversationContext :: "jval option"
  ns_internal :: fields

definition confirmation_token :: "string \<Rightarrow> bool" where
  "confirmation_token s \<longleftrightarrow> length s = 78 \<and> list_all is_digit (take 13 s) \<and> s ! 13 = CHR ''.''
     \<and> list_all lower_hex (drop 14 s)"

definition confirmation_value :: "jval \<Rightarrow> string option result" where
  "confirmation_value v = (if nullish v then Inr None
     else case v of
       JStr s \<Rightarrow> if confirmation_token s then Inr (Some s)
         else Inl (Err ''messageLengthConfirmation must be the token returned by the length check.'')
     | _ \<Rightarrow> Inl (Err ''messageLengthConfirmation must be the token returned by the length check.''))"

definition context_token_ok :: "jval \<Rightarrow> bool" where
  "context_token_ok v \<longleftrightarrow> nullish v \<or> (case v of JStr s \<Rightarrow> s \<noteq> [] \<and> length s \<le> 512 | _ \<Rightarrow> False)"

definition context_value :: "jval \<Rightarrow> jval option result" where
  "context_value v = (if nullish v then Inr None
     else bind (objectValue v ''conversationContext'' True) (\<lambda>context.
       bind (assertOnlyFields context context_fields ''conversationContext'') (\<lambda>_.
       bind (check_fields (\<lambda>field. context_token_ok (jget context field))
         (\<lambda>field. Err (''conversationContext.'' @ field @ '' must be a non-empty index/token returned by Rabi.'')) context_fields) (\<lambda>_.
       Inr (Some context)))))"

definition unsupported_channel :: "string \<Rightarrow> js_error" where
  "unsupported_channel channel = CodedErr ''UNSUPPORTED_SEND_CHANNEL''
     (''Unsupported send channel: '' @ channel @ ''. Use one of: '' @ comma_list (map fst channel_params)
      @ ''. QQ/NapCat uses channel=napcat, not channel=qq.'')"

text \<open>
  The first half of \<open>normalizeAgentSend\<close>, up to the construction of the internal request: what does not
  depend on the channel's parameters.
\<close>

record send_head =
  sh_deliveryId :: string
  sh_sender :: send_sender
  sh_routeId :: string
  sh_requested :: string
  sh_channel :: string
  sh_params :: jval
  sh_payload :: payload_part
  sh_styleValidation :: bool
  sh_confirmation :: "string option"
  sh_context :: "jval option"
  sh_requirementId :: "string option"

definition migrated_channel :: "string \<Rightarrow> string" where
  "migrated_channel requested = (if requested = ''fennenote'' then ''speech'' else requested)"

definition send_head_of :: "send_quotas \<Rightarrow> fields \<Rightarrow> send_head result" where
  "send_head_of quotas request =
     (let get = jget (JObj request) in
     bind (assertOnlyFields (JObj request) request_fields ''request'') (\<lambda>_.
     bind (textValue (get ''deliveryId'') ''deliveryId'') (\<lambda>deliveryId.
     bind (senderValue (get ''sender'')) (\<lambda>sender.
     bind (textValue (get ''routeId'') ''routeId'') (\<lambda>routeId.
     bind (textValue (get ''channel'') ''channel'') (\<lambda>requested.
     let channel = migrated_channel requested in
     bind (check (agentSendChannelHelp channel \<noteq> None) (unsupported_channel channel)) (\<lambda>_.
     bind (objectValue (get ''params'') ''params'' True) (\<lambda>params.
     bind (objectValue (get ''payload'') ''payload'' True) (\<lambda>rawPayload.
     bind (payloadFields quotas rawPayload channel) (\<lambda>payload.
     bind (check (\<not> hasOwn rawPayload ''fileId'' \<or> channel = ''napcat'' \<and> jget params ''target'' = JStr ''group'')
       (Err ''payload.fileId requires channel=napcat and params.target=group.'')) (\<lambda>_.
     bind (objectValue (get ''tracking'') ''tracking'' False) (\<lambda>tracking.
     bind (normalizeStyleValidationMode (get ''styleValidation'')) (\<lambda>style.
     bind (confirmation_value (get ''messageLengthConfirmation'')) (\<lambda>confirmation.
     bind (context_value (get ''conversationContext'')) (\<lambda>context.
     bind (assertOnlyFields tracking [''requirementId'', ''sendContextReviewToken''] ''tracking'') (\<lambda>_.
     Inr \<lparr>sh_deliveryId = deliveryId, sh_sender = sender, sh_routeId = routeId, sh_requested = requested,
          sh_channel = channel, sh_params = params, sh_payload = payload, sh_styleValidation = style,
          sh_confirmation = confirmation, sh_context = context,
          sh_requirementId = optionalText (jget tracking ''requirementId'')\<rparr>))))))))))))))))"

text \<open>The parameters of the retired alias lose their \<open>mode\<close>.\<close>

definition migrated_params :: "string \<Rightarrow> jval \<Rightarrow> jval result" where
  "migrated_params requested params =
     (if requested \<noteq> ''fennenote'' then Inr params
      else if jget params ''mode'' \<noteq> JStr ''message'' \<and> jget params ''mode'' \<noteq> JStr ''playback''
      then Inl (Err ''params.mode must be message or playback for the retired fennenote alias.'')
      else (case params of JObj fs \<Rightarrow> Inr (JObj (AList.delete ''mode'' fs)) | _ \<Rightarrow> Inr params))"

definition reply_context :: "send_head \<Rightarrow> channel_part \<Rightarrow> fields" where
  "reply_context h p = assign (case sh_requirementId h of None \<Rightarrow> [] | Some r \<Rightarrow> [(''messageProcessingRequirementId'', JStr r)])
     (cp_context p)"

definition internal_request :: "send_head \<Rightarrow> channel_part \<Rightarrow> fields" where
  "internal_request h p = assign
     (assign [(''payloadType'', JStr (pp_payloadType (sh_payload h))), (''text'', opt_str (pp_text (sh_payload h))),
         (''payload'', pp_payload (sh_payload h))]
       [(''deliveryId'', JStr (sh_deliveryId h)), (''senderAgentType'', JStr (ss_agentType (sh_sender h))),
        (''senderSessionId'', JStr (ss_sessionId (sh_sender h))), (''routeProfileId'', JStr (sh_routeId h)),
        (''explicitTarget'', JBool True), (''sendChannel'', JStr (sh_channel h)), (''replyContext'', JObj (reply_context h p))])
     (cp_internal p)"

definition normalized_of :: "send_head \<Rightarrow> channel_part \<Rightarrow> normalized_send" where
  "normalized_of h p = \<lparr>ns_deliveryId = sh_deliveryId h, ns_sender = sh_sender h, ns_routeId = sh_routeId h,
     ns_channel = sh_channel h, ns_allowAdditionalReply = cp_allow p, ns_replyImageDescriptions = cp_descriptions p,
     ns_target = cp_target p, ns_styleValidation = sh_styleValidation h, ns_messageLengthConfirmation = sh_confirmation h,
     ns_conversationContext = sh_context h, ns_internal = internal_request h p\<rparr>"

definition normalizeAgentSend :: "send_quotas \<Rightarrow> fields \<Rightarrow> normalized_send result" where
  "normalizeAgentSend quotas request =
     bind (send_head_of quotas request) (\<lambda>h.
     bind (migrated_params (sh_requested h) (sh_params h)) (\<lambda>params.
     bind (assertOnlyFields params (the (agentSendChannelHelp (sh_channel h))) ''params'') (\<lambda>_.
     bind (channel_target (sh_channel h) params (sh_sender h)) (\<lambda>p.
     Inr (normalized_of h p)))))"

definition prepareAgentSendRequest :: "send_quotas \<Rightarrow> fields \<Rightarrow> normalized_send result" where
  "prepareAgentSendRequest = normalizeAgentSend"

definition sender_json :: "send_sender \<Rightarrow> jval" where
  "sender_json s = JObj [(''agentType'', JStr (ss_agentType s)), (''sessionId'', JStr (ss_sessionId s))]"

text \<open>The fields with which every answer to the request is labelled.\<close>

definition send_label :: "normalized_send \<Rightarrow> fields" where
  "send_label n = [(''deliveryId'', JStr (ns_deliveryId n)), (''sender'', sender_json (ns_sender n)),
     (''channel'', JStr (ns_channel n)), (''routeId'', JStr (ns_routeId n)), (''target'', JObj (ns_target n))]"

definition mapAgentSendReplyResult :: "send_quotas \<Rightarrow> fields \<Rightarrow> fields \<Rightarrow> fields result" where
  "mapAgentSendReplyResult quotas outcome request =
     bind (normalizeAgentSend quotas request) (\<lambda>n. Inr (assign outcome (send_label n)))"

text \<open>What identifies a request: everything but its identifier and the proofs of its review.\<close>

definition agentSendIdempotencyPayload :: "fields \<Rightarrow> jval" where
  "agentSendIdempotencyPayload request = JObj (filter
     (\<lambda>(k, _). k \<notin> {''deliveryId'', ''messageLengthConfirmation'', ''conversationContext''}) request)"

end
