(* ===== verification/SendIdempotency.thy ===== *)
theory SendIdempotency
  imports AgentSend DurableDelivery
begin

text \<open>
  The idempotent execution of sends (\<open>src/src/manager/agentSendIdempotency.ts\<close>). Around the durable delivery of
  \<open>DurableDelivery\<close> a process keeps two memories: the recent successful replies to quoted group messages, which
  refuse another reply for ten minutes and are rebuilt from the receipt files after a restart, and the recent
  contents of reviewers, whose repetition within two minutes shares the promise of the first send.

  A process is its memory with its clean-up timers and promises; an operation takes the environment of the
  call (clock, authority) and, where it reads the receipts, the files. The root directory is resolved; SHA-256 is a parameter.
\<close>

section \<open>Contents and keys\<close>

definition reply_window :: int where
  "reply_window = 10 * 60 * 1000"

definition content_window :: int where
  "content_window = 2 * 60 * 1000"

text \<open>The \<open>stableJson\<close> of this module, which drops undefined properties.\<close>

fun stableContentJson :: "jval \<Rightarrow> string" where
  "stableContentJson (JArr vs) = CHR ''['' # json_items (CHR '']'') (map stableContentJson vs)"
| "stableContentJson (JObj fs) = CHR ''{'' # json_items (CHR ''}'')
     (map (\<lambda>(k, t). json_quote k @ CHR '':'' # t)
       (sort_key fst (map (\<lambda>(k, v). (k, stableContentJson v)) (filter (\<lambda>(k, v). v \<noteq> JUndef) fs))))"
| "stableContentJson v = stringify v"

text \<open>\<open>replace(/\s+/g, " ")\<close>\<close>

function collapse_spaces :: "string \<Rightarrow> string" where
  "collapse_spaces [] = []"
| "collapse_spaces (c # cs) = (if js_space c then CHR '' '' # collapse_spaces (dropWhile js_space cs)
     else c # collapse_spaces cs)"
  by pat_completeness auto
termination
  by (relation "measure length") (auto simp: less_Suc_eq_le length_dropWhile_le)

definition normalizedContentPayload :: "jval \<Rightarrow> jval" where
  "normalizedContentPayload v = (case v of
     JObj fs \<Rightarrow> (case (jget v ''type'', jget v ''text'') of
       (JStr type, JStr s) \<Rightarrow> if type = ''text'' then JObj (assign fs [(''text'', JStr (collapse_spaces (js_trim s)))]) else v
     | _ \<Rightarrow> v)
   | _ \<Rightarrow> v)"

definition rooted :: "(string \<Rightarrow> string) \<Rightarrow> string \<Rightarrow> jval \<Rightarrow> string" where
  "rooted sha root fingerprint = root @ '':'' @ sha (stableContentJson fingerprint)"

definition messageProcessingContentKey :: "(string \<Rightarrow> string) \<Rightarrow> string \<Rightarrow> normalized_send \<Rightarrow> fields \<Rightarrow> string option" where
  "messageProcessingContentKey sha root n request =
     (if ss_agentType (ns_sender n) \<noteq> ''message_processing'' then None
      else Some (rooted sha root (JObj [(''routeId'', JStr (ns_routeId n)), (''channel'', JStr (ns_channel n)),
        (''target'', JObj (ns_target n)), (''payload'', normalizedContentPayload (jget (JObj request) ''payload''))])))"

definition sendContentFingerprint :: "(string \<Rightarrow> string) \<Rightarrow> fields \<Rightarrow> string" where
  "sendContentFingerprint sha request = sha (stableContentJson (normalizedContentPayload (jget (JObj request) ''payload'')))"

definition quote_key :: "(string \<Rightarrow> string) \<Rightarrow> string \<Rightarrow> string \<Rightarrow> string \<Rightarrow> string \<Rightarrow> string \<Rightarrow> string" where
  "quote_key sha root routeId channel groupId replyTo = rooted sha root (JObj [(''routeId'', JStr routeId),
     (''channel'', JStr channel), (''groupId'', JStr groupId), (''replyToMessageId'', JStr replyTo)])"

definition recentReplyTargetKey :: "(string \<Rightarrow> string) \<Rightarrow> string \<Rightarrow> normalized_send \<Rightarrow> string option" where
  "recentReplyTargetKey sha root n =
     (let target = JObj (ns_target n); groupId = text_of (jget target ''groupId'');
          replyTo = text_of (jget target ''replyToMessageId'') in
      if ns_channel n \<noteq> ''napcat'' \<or> jget target ''target'' \<noteq> JStr ''group'' \<or> groupId = [] \<or> replyTo = [] then None
      else Some (quote_key sha root (ns_routeId n) (ns_channel n) groupId replyTo))"

definition recentReplyTargetKeyFromResult :: "(string \<Rightarrow> string) \<Rightarrow> string \<Rightarrow> jval \<Rightarrow> string option" where
  "recentReplyTargetKeyFromResult sha root outcome =
     (let target = jget outcome ''target''; groupId = text_of (jget target ''groupId'');
          replyTo = text_of (jget target ''replyToMessageId''); routeId = text_of (jget outcome ''routeId'') in
      if jget outcome ''channel'' \<noteq> JStr ''napcat'' \<or> jget target ''target'' \<noteq> JStr ''group''
        \<or> routeId = [] \<or> groupId = [] \<or> replyTo = [] then None
      else Some (quote_key sha root routeId ''napcat'' groupId replyTo))"

section \<open>The memory of a process\<close>

text \<open>
  An entry of the code is an object, which clean-up timers compare by identity. A remembered reply has a
  number of its own from one on; a reply read from a receipt has no timer and the number zero. The entry of
  a content is identified by its promise.
\<close>

record recent_reply =
  rr_id :: nat
  rr_deliveryId :: string
  rr_fingerprint :: string
  rr_result :: jval
  rr_expiresAt :: int

record recent_content =
  rc_promise :: nat
  rc_expiresAt :: int

datatype promise = Queued | Running | Resolved jval | Rejected js_error

datatype cleanup = ForgetContent string nat | ForgetReply string nat

record send_memory =
  sm_contents :: "(string \<times> recent_content) list"
  sm_replies :: "(string \<times> recent_reply) list"
  sm_hydrated :: "string list"
  sm_timers :: "(int \<times> cleanup) list"
  sm_promises :: "(nat \<times> promise) list"
  sm_next :: nat

definition started_process :: send_memory where
  "started_process = \<lparr>sm_contents = [], sm_replies = [], sm_hydrated = [], sm_timers = [], sm_promises = [], sm_next = 1\<rparr>"

text \<open>What a timer does when it fires: it removes its entry if it is still there.\<close>

definition run_cleanup :: "cleanup \<Rightarrow> send_memory \<Rightarrow> send_memory" where
  "run_cleanup c m = (case c of
     ForgetContent key p \<Rightarrow> (case map_of (sm_contents m) key of None \<Rightarrow> m
       | Some e \<Rightarrow> if rc_promise e = p then m\<lparr>sm_contents := AList.delete key (sm_contents m)\<rparr> else m)
   | ForgetReply key i \<Rightarrow> (case map_of (sm_replies m) key of None \<Rightarrow> m
       | Some e \<Rightarrow> if rr_id e = i then m\<lparr>sm_replies := AList.delete key (sm_replies m)\<rparr> else m))"

section \<open>Recent replies\<close>

definition receipt_dir :: "string \<Rightarrow> string" where
  "receipt_dir root = root @ ''/data/agent-send-idempotency/''"

definition name_ends :: "string \<Rightarrow> string \<Rightarrow> bool" where
  "name_ends s x \<longleftrightarrow> length x \<le> length s \<and> drop (length s - length x) s = x"

text \<open>The files of the receipt directory, in the order in which it is listed.\<close>

definition dir_files :: "string \<Rightarrow> durable_files \<Rightarrow> durable_files" where
  "dir_files root fs = filter (\<lambda>(path, f). take (length (receipt_dir root)) path = receipt_dir root
     \<and> CHR ''/'' \<notin> set (drop (length (receipt_dir root)) path)) fs"

text \<open>The entry that a receipt gives, with its key, if it is the receipt of a recent reply that was sent.\<close>

definition reply_of_receipt ::
    "(string \<Rightarrow> string) \<Rightarrow> string \<Rightarrow> int \<Rightarrow> contents \<Rightarrow> (string \<times> recent_reply) option" where
  "reply_of_receipt sha root now c = (case c of Garbled \<Rightarrow> None
     | Parsed p \<Rightarrow>
         if dr_state p \<noteq> Completed \<or> \<not> js_truthy (dr_result p) \<or> jget (dr_result p) ''status'' \<noteq> JStr ''sent''
           \<or> dr_updatedAt p + reply_window \<le> now then None
         else map_option (\<lambda>key. (key, \<lparr>rr_id = 0, rr_deliveryId = dr_deliveryId p, rr_fingerprint = [],
             rr_result = dr_result p, rr_expiresAt = dr_updatedAt p + reply_window\<rparr>))
           (recentReplyTargetKeyFromResult sha root (dr_result p)))"

definition keep_later :: "string \<times> recent_reply \<Rightarrow> (string \<times> recent_reply) list \<Rightarrow> (string \<times> recent_reply) list" where
  "keep_later e entries = (case map_of entries (fst e) of
     Some x \<Rightarrow> if rr_expiresAt (snd e) \<le> rr_expiresAt x then entries else AList.update (fst e) (snd e) entries
   | None \<Rightarrow> AList.update (fst e) (snd e) entries)"

definition receipt_replies :: "(string \<Rightarrow> string) \<Rightarrow> string \<Rightarrow> int \<Rightarrow> durable_files \<Rightarrow> (string \<times> recent_reply) list" where
  "receipt_replies sha root now fs =
     fold keep_later (List.map_filter (\<lambda>(path, f). reply_of_receipt sha root now (df_contents f))
       (filter (\<lambda>(path, f). name_ends path ''.json'') (dir_files root fs))) []"

text \<open>
  The checks of authority are numbered from \<open>i\<close>; that of the next operation is returned. Nothing is published
  between the checks of the files, so the last one decides for all.
\<close>

definition hydrateRecentSuccessfulReplies ::
    "durable_env \<Rightarrow> nat \<Rightarrow> (string \<Rightarrow> string) \<Rightarrow> string \<Rightarrow> durable_files \<Rightarrow> send_memory \<Rightarrow> (send_memory \<times> nat) result" where
  "hydrateRecentSuccessfulReplies env i sha root fs m =
     bind (requestAuthority env i) (\<lambda>_.
       if root \<in> set (sm_hydrated m) then Inr (m, Suc i)
       else let last = Suc i + length (dir_files root fs) in
         bind (requestAuthority env last) (\<lambda>_.
           Inr (m\<lparr>sm_replies := fold keep_later (receipt_replies sha root (de_now env) fs) (sm_replies m),
                  sm_hydrated := root # sm_hydrated m\<rparr>, Suc last)))"

definition readRecentSuccessfulReply ::
    "durable_env \<Rightarrow> (string \<Rightarrow> string) \<Rightarrow> string \<Rightarrow> string option \<Rightarrow> durable_files \<Rightarrow> send_memory
      \<Rightarrow> send_memory \<times> recent_reply option result" where
  "readRecentSuccessfulReply env sha root key fs m =
     (case requestAuthority env 0 of Inl e \<Rightarrow> (m, Inl e)
      | Inr _ \<Rightarrow> (case key of None \<Rightarrow> (m, Inr None)
        | Some k \<Rightarrow> (case hydrateRecentSuccessfulReplies env 1 sha root fs m of Inl e \<Rightarrow> (m, Inl e)
          | Inr (m', i) \<Rightarrow> (case requestAuthority env i of Inl e \<Rightarrow> (m', Inl e)
            | Inr _ \<Rightarrow> (case map_of (sm_replies m') k of None \<Rightarrow> (m', Inr None)
              | Some e \<Rightarrow> if de_now env < rr_expiresAt e then (m', Inr (Some e))
                  else (m'\<lparr>sm_replies := AList.delete k (sm_replies m')\<rparr>, Inr None))))))"

definition rememberSuccessfulReply ::
    "durable_env \<Rightarrow> string option \<Rightarrow> string \<Rightarrow> string \<Rightarrow> jval \<Rightarrow> send_memory \<Rightarrow> send_memory \<times> unit result" where
  "rememberSuccessfulReply env key deliveryId fingerprint outcome m =
     (case requestAuthority env 0 of Inl e \<Rightarrow> (m, Inl e)
      | Inr _ \<Rightarrow> (case key of None \<Rightarrow> (m, Inr ())
        | Some k \<Rightarrow> if jget outcome ''status'' \<noteq> JStr ''sent'' then (m, Inr ())
            else (m\<lparr>sm_replies := AList.update k \<lparr>rr_id = sm_next m, rr_deliveryId = deliveryId,
                      rr_fingerprint = fingerprint, rr_result = outcome, rr_expiresAt = de_now env + reply_window\<rparr> (sm_replies m),
                    sm_timers := sm_timers m @ [(de_now env + reply_window, ForgetReply k (sm_next m))],
                    sm_next := Suc (sm_next m)\<rparr>, Inr ())))"

section \<open>Recent contents\<close>

text \<open>How the delivery of a content waits: for its own call, for the promise of an earlier one, or for the promise it made.\<close>

datatype coalescing = Direct | Joined nat | Owner string nat

definition coalesce_begin :: "durable_env \<Rightarrow> string option \<Rightarrow> send_memory \<Rightarrow> send_memory \<times> coalescing result" where
  "coalesce_begin env key m =
     (case requestAuthority env 0 of Inl e \<Rightarrow> (m, Inl e)
      | Inr _ \<Rightarrow> (case key of None \<Rightarrow> (m, Inr Direct)
        | Some k \<Rightarrow>
            let open_entry = (let p = sm_next m; due = de_now env + content_window in
              (m\<lparr>sm_contents := AList.update k \<lparr>rc_promise = p, rc_expiresAt = due\<rparr> (AList.delete k (sm_contents m)),
                 sm_promises := (p, Queued) # sm_promises m,
                 sm_timers := sm_timers m @ [(due, ForgetContent k p)], sm_next := Suc p\<rparr>, Inr (Owner k p))) in
            (case map_of (sm_contents m) k of None \<Rightarrow> open_entry
             | Some e \<Rightarrow> if de_now env < rc_expiresAt e then (m, Inr (Joined (rc_promise e))) else open_entry)))"

text \<open>The callback of the promise, in the name of the request that made it; and the end of its delivery.\<close>

definition promise_start :: "durable_env \<Rightarrow> nat \<Rightarrow> send_memory \<Rightarrow> send_memory" where
  "promise_start env p m = m\<lparr>sm_promises := AList.update p
     (case requestAuthority env 0 of Inl e \<Rightarrow> Rejected e | Inr _ \<Rightarrow> Running) (sm_promises m)\<rparr>"

definition promise_end :: "nat \<Rightarrow> jval result \<Rightarrow> send_memory \<Rightarrow> send_memory" where
  "promise_end p r m = m\<lparr>sm_promises := AList.update p
     (case r of Inl e \<Rightarrow> Rejected e | Inr v \<Rightarrow> Resolved v) (sm_promises m)\<rparr>"

definition drop_content :: "string \<Rightarrow> nat \<Rightarrow> send_memory \<Rightarrow> send_memory" where
  "drop_content k p m = run_cleanup (ForgetContent k p) m"

text \<open>The rest of the delivery, when what it waited for has ended; the answer and whether it is a duplicate.\<close>

definition coalesce_end :: "durable_env \<Rightarrow> coalescing \<Rightarrow> jval result \<Rightarrow> send_memory \<Rightarrow> send_memory \<times> (bool \<times> jval) result" where
  "coalesce_end env c r m = (case r of
     Inr v \<Rightarrow> (case requestAuthority env 0 of Inl e \<Rightarrow> (m, Inl e)
       | Inr _ \<Rightarrow> (case c of Direct \<Rightarrow> (m, Inr (False, v)) | Joined _ \<Rightarrow> (m, Inr (True, v))
         | Owner k p \<Rightarrow> (if jget v ''status'' \<noteq> JStr ''sent'' then drop_content k p m else m, Inr (False, v))))
   | Inl e \<Rightarrow> (case c of Direct \<Rightarrow> (m, Inl e) | Joined _ \<Rightarrow> (m, Inl e)
       | Owner k p \<Rightarrow> (case requestAuthority env 0 of Inl e' \<Rightarrow> (m, Inl e') | Inr _ \<Rightarrow> (drop_content k p m, Inl e))))"

section \<open>Answers\<close>

record send_response =
  sr_statusCode :: nat
  sr_body :: fields

definition idempotency_info :: "string \<Rightarrow> string \<Rightarrow> bool \<Rightarrow> jval" where
  "idempotency_info deliveryId state duplicate = JObj [(''deliveryId'', JStr deliveryId), (''state'', JStr state),
     (''duplicate'', JBool duplicate)]"

definition statusCodeFor :: "jval \<Rightarrow> nat" where
  "statusCodeFor outcome = (if jget outcome ''status'' = JStr ''sent'' then 202
     else if jget outcome ''status'' = JStr ''draft'' then 200
     else if jget outcome ''status'' = JStr ''failed'' then 502 else 403)"

text \<open>\<open>{ ...v }\<close>: the own properties of an object.\<close>

fun own_fields :: "jval \<Rightarrow> fields" where
  "own_fields (JObj fs) = fs"
| "own_fields _ = []"

definition completedResponse :: "string \<Rightarrow> jval \<Rightarrow> bool \<Rightarrow> send_response" where
  "completedResponse deliveryId outcome duplicate = \<lparr>sr_statusCode = statusCodeFor outcome,
     sr_body = assign (own_fields outcome) [(''idempotency'', idempotency_info deliveryId ''completed'' duplicate)]\<rparr>"

definition nonTerminalResponse :: "string \<Rightarrow> string \<Rightarrow> string \<Rightarrow> nat \<Rightarrow> bool \<Rightarrow> send_response" where
  "nonTerminalResponse deliveryId state reason statusCode duplicate = \<lparr>sr_statusCode = statusCode,
     sr_body = [(''ok'', JBool False), (''status'', JStr ''failed''), (''reason'', JStr reason),
       (''idempotency'', idempotency_info deliveryId state duplicate)]\<rparr>"

section \<open>The execution of a send\<close>

record send_call =
  sc_prepared :: normalized_send
  sc_deliveryId :: string
  sc_replyKey :: "string option"
  sc_fingerprint :: string
  sc_contentKey :: "string option"

datatype send_start = Answered send_response | Proceeding send_call jval

definition labelled :: "send_call \<Rightarrow> jval \<Rightarrow> jval" where
  "labelled c outcome = (let n = sc_prepared c in JObj (assign (own_fields outcome)
     [(''deliveryId'', JStr (sc_deliveryId c)), (''sender'', sender_json (ns_sender n)), (''channel'', JStr (ns_channel n)),
      (''routeId'', JStr (ns_routeId n)), (''target'', JObj (ns_target n))]))"

definition second_reply :: "string \<Rightarrow> string" where
  "second_reply deliveryId = ''The quoted group message already received a recent reply via deliveryId '' @ deliveryId
     @ ''. Do not send another paraphrase. Set params.allowAdditionalReply=true only when this is intentionally new follow-up information.''"

text \<open>
  \<open>executeIdempotentAgentSend\<close> up to the call of \<open>executeDurableDelivery\<close>, with the payload it is given; the
  \<open>deliver\<close> callback of that call, before and after its promise; and the answer for its outcome.
\<close>

definition send_call_of :: "(string \<Rightarrow> string) \<Rightarrow> string \<Rightarrow> send_quotas \<Rightarrow> fields \<Rightarrow> send_call result" where
  "send_call_of sha root quotas request =
     bind (prepareAgentSendRequest quotas request) (\<lambda>n.
     bind (normalizeDurableDeliveryId (jget (JObj request) ''deliveryId'')) (\<lambda>i.
     Inr \<lparr>sc_prepared = n, sc_deliveryId = i, sc_replyKey = recentReplyTargetKey sha root n,
          sc_fingerprint = sendContentFingerprint sha request,
          sc_contentKey = messageProcessingContentKey sha root n request\<rparr>))"

definition executeIdempotentAgentSend ::
    "durable_env \<Rightarrow> (string \<Rightarrow> string) \<Rightarrow> string \<Rightarrow> send_quotas \<Rightarrow> fields \<Rightarrow> durable_files \<Rightarrow> send_memory
      \<Rightarrow> send_memory \<times> send_start result" where
  "executeIdempotentAgentSend env sha root quotas request fs m =
     (case send_call_of sha root quotas request of Inl e \<Rightarrow> (m, Inl e)
      | Inr c \<Rightarrow>
        (case (if ns_allowAdditionalReply (sc_prepared c) then (m, Inr None)
               else readRecentSuccessfulReply env sha root (sc_replyKey c) fs m) of
           (m', Inl e) \<Rightarrow> (m', Inl e)
         | (m', Inr (Some r)) \<Rightarrow> (m', Inr (Answered
             (if rr_fingerprint r = sc_fingerprint c then completedResponse (sc_deliveryId c) (labelled c (rr_result r)) True
              else nonTerminalResponse (sc_deliveryId c) ''conflict'' (second_reply (rr_deliveryId r)) 409 True)))
         | (m', Inr None) \<Rightarrow> (m', Inr (Proceeding c (agentSendIdempotencyPayload request)))))"

definition deliver_begin :: "durable_env \<Rightarrow> send_call \<Rightarrow> send_memory \<Rightarrow> send_memory \<times> coalescing result" where
  "deliver_begin env c m = coalesce_begin env (sc_contentKey c) m"

definition deliver_end :: "durable_env \<Rightarrow> send_call \<Rightarrow> coalescing \<Rightarrow> jval result \<Rightarrow> send_memory \<Rightarrow> send_memory \<times> (bool \<times> jval) result" where
  "deliver_end env c w r m = (case coalesce_end env w r m of (m', r') \<Rightarrow>
     (m', bind r' (\<lambda>(duplicate, v). Inr (duplicate, labelled c v))))"

definition pending_name :: "pending_state \<Rightarrow> string" where
  "pending_name st = (case st of InProgress \<Rightarrow> ''in_progress'' | IsUncertain \<Rightarrow> ''uncertain'' | IsConflict \<Rightarrow> ''conflict'')"

definition finish_send :: "durable_env \<Rightarrow> send_call \<Rightarrow> bool \<Rightarrow> durable_outcome \<Rightarrow> send_memory \<Rightarrow> send_memory \<times> send_response result" where
  "finish_send env c contentDuplicate out m = (case out of
     CompletedOutcome duplicate v \<Rightarrow>
       (case rememberSuccessfulReply env (sc_replyKey c) (sc_deliveryId c) (sc_fingerprint c) v m of
          (m', Inl e) \<Rightarrow> (m', Inl e)
        | (m', Inr _) \<Rightarrow> (m', bind (requestAuthority env 1) (\<lambda>_.
            Inr (completedResponse (sc_deliveryId c) v (duplicate \<or> contentDuplicate)))))
   | PendingOutcome st duplicate reason \<Rightarrow> (m, Inr (nonTerminalResponse (sc_deliveryId c) (pending_name st) reason
       (if st = IsUncertain \<and> \<not> duplicate then 503 else 409) duplicate)))"

section \<open>Queries\<close>

definition agentSendReceiptResponse ::
    "durable_env \<Rightarrow> (string \<Rightarrow> string) \<Rightarrow> string \<Rightarrow> jval \<Rightarrow> durable_files \<Rightarrow> send_response result" where
  "agentSendReceiptResponse env sha root deliveryId fs =
     bind (normalizeDurableDeliveryId deliveryId) (\<lambda>i.
     bind (readDurableDeliveryReceipt sha root ''agent-send-idempotency'' (JStr i) fs) (\<lambda>found.
     Inr (case found of
       None \<Rightarrow> nonTerminalResponse i ''missing'' ''No idempotency receipt exists for this deliveryId.'' 404 False
     | Some r \<Rightarrow>
         if dr_state r = Completed then completedResponse i
           (if nullish (dr_result r) then JObj [(''ok'', JBool False), (''status'', JStr ''failed''),
              (''reason'', JStr ''Completed idempotency receipt has no result.'')] else dr_result r) True
         else if dr_state r = Uncertain then nonTerminalResponse i ''uncertain''
           (or_str (dr_error r) ''The send result is uncertain; do not resend automatically.'') 409 True
         else if \<not> receiptExecutionActive env r then nonTerminalResponse i ''uncertain''
           ''The original send execution is no longer active and has no terminal receipt; verify the original delivery before any retry.'' 409 True
         else nonTerminalResponse i ''in_progress'' ''The send is reserved or running; query again before any retry.'' 202 True)))"

record send_trace =
  st_deliveryId :: string
  st_createdAt :: int
  st_updatedAt :: int
  st_result :: jval

definition requiredTraceText :: "jval \<Rightarrow> string \<Rightarrow> string result" where
  "requiredTraceText v field = (let s = text_of v in
     if s = [] then Inl (Err (''Missing '' @ field @ ''.''))
     else if \<not> plain_id 500 s then Inl (Err (''Invalid '' @ field @ ''.''))
     else Inr s)"

definition trace_of_receipt :: "string \<Rightarrow> string \<Rightarrow> string option \<Rightarrow> contents \<Rightarrow> send_trace option" where
  "trace_of_receipt channel sentMessageId routeId c = (case c of Garbled \<Rightarrow> None
     | Parsed p \<Rightarrow>
         if dr_state p \<noteq> Completed \<or> \<not> js_truthy (dr_result p) \<or> jget (dr_result p) ''channel'' \<noteq> JStr channel
           \<or> jget (dr_result p) ''sentMessageId'' \<noteq> JStr sentMessageId
           \<or> (case routeId of None \<Rightarrow> False | Some r \<Rightarrow> jget (dr_result p) ''routeId'' \<noteq> JStr r) then None
         else Some \<lparr>st_deliveryId = dr_deliveryId p, st_createdAt = dr_createdAt p, st_updatedAt = dr_updatedAt p,
           st_result = dr_result p\<rparr>)"

definition findAgentSendTraces :: "string \<Rightarrow> jval \<Rightarrow> durable_files \<Rightarrow> send_trace list result" where
  "findAgentSendTraces root query fs =
     bind (requiredTraceText (jget query ''channel'') ''channel'') (\<lambda>channel.
     bind (requiredTraceText (jget query ''sentMessageId'') ''sentMessageId'') (\<lambda>sentMessageId.
     bind (if text_of (jget query ''routeId'') = [] then Inr None
           else map_sum id Some (requiredTraceText (jget query ''routeId'') ''routeId'')) (\<lambda>routeId.
     Inr (take 100 (sort_key (\<lambda>t. - st_updatedAt t)
       (List.map_filter (\<lambda>(path, f). trace_of_receipt channel sentMessageId routeId (df_contents f))
         (filter (\<lambda>(path, f). name_ends path ''.json'') (dir_files root fs))))))))"

end
