(* ===== verification/AgentSendProps.thy ===== *)
theory AgentSendProps
  imports AgentSend
begin

text \<open>
  What is proved of a request to send (\<open>src/src/agentSend.ts\<close>): an accepted request has a complete target, and
  the internal request goes where its answers say; the payload that identifies a request determines what is sent.
\<close>

section \<open>Assigned objects\<close>

lemma assign_simps [simp]: "assign fs [] = fs" "assign fs ((k, v) # gs) = assign (AList.update k v fs) gs"
  by (simp_all add: assign_def)

lemma map_of_assign: "map_of (assign fs gs) = map_of fs ++ map_of (rev gs)"
proof (induction gs arbitrary: fs)
  case (Cons g gs)
  then show ?case by (cases g) (simp add: update_conv' map_add_def fun_eq_iff split: option.splits)
qed simp

lemma jget_assign: "jget (JObj (assign fs gs)) k
    = (case map_of (rev gs) k of Some v \<Rightarrow> v | None \<Rightarrow> jget (JObj fs) k)"
  by (simp add: map_of_assign map_add_def split: option.splits)

lemma assign_keys: "set (map fst (assign fs gs)) = set (map fst fs) \<union> set (map fst gs)"
proof (induction gs arbitrary: fs)
  case (Cons g gs)
  obtain k v where g: "g = (k, v)" by fastforce
  have "set (map fst (AList.update k v fs)) = insert k (set (map fst fs))" by (simp add: js_map.keys_set insert_absorb)
  with Cons.IH [of "AList.update k v fs"] g show ?case by simp
qed simp

section \<open>Accepted requests\<close>

definition text_ok :: "string \<Rightarrow> bool" where
  "text_ok s \<longleftrightarrow> s \<noteq> [] \<and> js_trim s = s"

definition is_text :: "jval \<Rightarrow> bool" where
  "is_text v \<longleftrightarrow> (case v of JStr s \<Rightarrow> text_ok s | _ \<Rightarrow> False)"

lemma text_of_trimmed [simp]: "js_trim (text_of v) = text_of v"
  by (simp add: text_of_def)

lemma textValue_eq_Inr [simp]: "textValue v f = Inr t \<longleftrightarrow> t = text_of v \<and> t \<noteq> []"
  by (auto simp: textValue_def)

lemma is_text_simps [simp]: "is_text (JStr s) = text_ok s" "is_text JUndef = False"
    "is_text (opt_str x) = (case x of None \<Rightarrow> False | Some s \<Rightarrow> text_ok s)"
  by (auto simp: is_text_def opt_str_def split: option.splits)

lemma optionalText_ok: "optionalText v = Some s \<Longrightarrow> text_ok s"
  by (auto simp: optionalText_def text_ok_def)

lemma optionalText_cases: "optionalText v = None \<or> (\<exists>s. optionalText v = Some s \<and> text_ok s)"
  using optionalText_ok by (cases "optionalText v") auto

text \<open>The target of an accepted request, by its channel.\<close>

definition target_complete :: "string \<Rightarrow> jval \<Rightarrow> bool" where
  "target_complete channel target \<longleftrightarrow>
     (if channel = ''napcat'' then
        jget target ''target'' = JStr ''group'' \<and> is_text (jget target ''groupId'') \<and> jget target ''userId'' = JUndef
        \<or> jget target ''target'' = JStr ''private'' \<and> is_text (jget target ''userId'') \<and> jget target ''groupId'' = JUndef
      else if channel = ''wecom'' \<or> channel = ''feishu'' then is_text (jget target ''chatId'')
      else if channel = ''weixin'' then is_text (jget target ''sessionId'')
      else if channel = ''rabilink'' then
        (jget target ''proactive'' = JBool True \<or> is_text (jget target ''sourceMessageId''))
        \<and> (jget target ''targetDeviceIds'' \<noteq> JArr [] \<or> jget target ''targetDeviceKinds'' \<noteq> JArr [])
      else if channel = ''speech'' then True
      else if channel = ''role_panel'' then is_text (jget target ''roleId'')
      else channel = ''plan_feedback'' \<and> is_text (jget target ''roleId'') \<and> is_text (jget target ''planId'')
        \<and> (jget target ''kind'' = JStr ''guidance'' \<or> jget target ''kind'' = JStr ''approval''))"

text \<open>The adapter that serves a channel, and the fields of the internal request that name the target.\<close>

definition adapter_of :: "string \<Rightarrow> string" where
  "adapter_of channel = (if channel = ''role_panel'' then ''rolePanel''
     else if channel = ''plan_feedback'' then ''planFeedback'' else channel)"

definition aimed_fields :: "string \<Rightarrow> (string \<times> string) list" where
  "aimed_fields channel =
     (if channel = ''napcat'' then [(''targetType'', ''target''), (''groupId'', ''groupId''), (''userId'', ''userId''),
        (''instanceId'', ''instanceId''), (''messageId'', ''replyToMessageId'')]
      else if channel = ''wecom'' then [(''groupId'', ''chatId''), (''wecomChatId'', ''chatId''), (''userId'', ''userId'')]
      else if channel = ''feishu'' then [(''groupId'', ''chatId''), (''feishuChatId'', ''chatId''), (''userId'', ''userId'')]
      else if channel = ''weixin'' then [(''weixinSessionId'', ''sessionId''), (''sessionId'', ''sessionId'')]
      else if channel = ''rabilink'' then [(''messageId'', ''sourceMessageId''), (''proactive'', ''proactive''),
        (''targetDeviceIds'', ''targetDeviceIds''), (''targetDeviceKinds'', ''targetDeviceKinds'')]
      else if channel = ''speech'' then [(''sessionId'', ''sessionId'')]
      else if channel = ''role_panel'' then [(''roleId'', ''roleId''), (''messageId'', ''messageId'')]
      else [(''roleId'', ''roleId'')])"

definition aims_at_target :: "string \<Rightarrow> jval \<Rightarrow> jval \<Rightarrow> bool" where
  "aims_at_target channel target internal \<longleftrightarrow> jget internal ''adapterType'' = JStr (adapter_of channel)
     \<and> list_all (\<lambda>(i, t). jget internal i = jget target t) (aimed_fields channel)"

lemmas target_defs = target_complete_def aims_at_target_def adapter_of_def aimed_fields_def channel_part_of_def

lemma text_ok_text_of [simp]: "text_ok (text_of v) \<longleftrightarrow> text_of v \<noteq> []"
  by (simp add: text_ok_def)

lemma map_sum_eq_Inr: "map_sum id f r = Inr b \<longleftrightarrow> (\<exists>a. r = Inr a \<and> b = f a)"
  by (cases r) auto

lemma booleanValue_False: "booleanValue v f = Inr b \<Longrightarrow> b = (v = JBool True)"
  by (auto simp: booleanValue_def nullish_def split: if_splits jval.splits)

lemma napcat_target_shape:
  assumes "napcat_target params sender = Inr p"
  obtains kind g u i r where
    "cp_target p = [(''target'', JStr kind), (''groupId'', opt_str g), (''userId'', opt_str u), (''instanceId'', opt_str i),
       (''replyToMessageId'', opt_str r)]"
    "cp_internal p = [(''adapterType'', JStr ''napcat''), (''targetType'', JStr kind), (''groupId'', opt_str g),
       (''userId'', opt_str u), (''instanceId'', opt_str i), (''messageId'', opt_str r)]"
    "kind = ''group'' \<and> u = None \<and> (\<exists>x. g = Some x \<and> text_ok x) \<or> kind = ''private'' \<and> g = None \<and> (\<exists>x. u = Some x \<and> text_ok x)"
    "r = optionalText (jget params ''replyToMessageId'')"
    "kind = ''group'' \<longrightarrow> ss_agentType sender = ''message_processing'' \<longrightarrow> r \<noteq> None"
proof -
  let ?kind = "text_of (jget params ''target'')"
  let ?r = "optionalText (jget params ''replyToMessageId'')" and ?i = "optionalText (jget params ''instanceId'')"
  have kind: "?kind = ''group'' \<or> ?kind = ''private''"
    using assms unfolding napcat_target_def Let_def bind_eq_Inr check_eq_Inr textValue_eq_Inr by (elim exE conjE) simp
  show ?thesis
  proof (cases "?kind = ''group''")
    case True
    then show ?thesis
      using assms by (auto simp: napcat_target_def Let_def map_sum_eq_Inr
        intro!: that [of ?kind "Some (text_of (jget params ''groupId''))" None ?i ?r])
  next
    case False
    with kind have "?kind = ''private''" by blast
    then show ?thesis
      using assms by (auto simp: napcat_target_def Let_def map_sum_eq_Inr
        intro!: that [of ?kind None "Some (text_of (jget params ''userId''))" ?i ?r])
  qed
qed

lemma napcat_target_ok:
  assumes "napcat_target params sender = Inr p"
  shows "target_complete ''napcat'' (JObj (cp_target p))" (is ?complete)
    and "aims_at_target ''napcat'' (JObj (cp_target p)) (JObj (cp_internal p))" (is ?aims)
    and "jget (JObj (cp_target p)) ''target'' = JStr ''group'' \<Longrightarrow> ss_agentType sender = ''message_processing''
      \<Longrightarrow> is_text (jget (JObj (cp_target p)) ''replyToMessageId'')" (is "?group \<Longrightarrow> ?reviewer \<Longrightarrow> ?quoted")
proof -
  obtain kind g u i r where p: "cp_target p = [(''target'', JStr kind), (''groupId'', opt_str g), (''userId'', opt_str u),
        (''instanceId'', opt_str i), (''replyToMessageId'', opt_str r)]"
      "cp_internal p = [(''adapterType'', JStr ''napcat''), (''targetType'', JStr kind), (''groupId'', opt_str g),
        (''userId'', opt_str u), (''instanceId'', opt_str i), (''messageId'', opt_str r)]"
      "kind = ''group'' \<and> u = None \<and> (\<exists>x. g = Some x \<and> text_ok x) \<or> kind = ''private'' \<and> g = None \<and> (\<exists>x. u = Some x \<and> text_ok x)"
      "r = optionalText (jget params ''replyToMessageId'')"
      "kind = ''group'' \<longrightarrow> ss_agentType sender = ''message_processing'' \<longrightarrow> r \<noteq> None"
    by (rule napcat_target_shape [OF assms])
  from p(3) show ?complete by (auto simp: target_complete_def p(1))
  show ?aims by (simp add: aims_at_target_def adapter_of_def aimed_fields_def p(1,2))
  show "?group \<Longrightarrow> ?reviewer \<Longrightarrow> ?quoted" using p(5) optionalText_ok p(4)
    by (cases r) (auto simp: p(1))
qed

lemma channel_target_ok:
  assumes "channel_target channel params sender = Inr p"
  shows "target_complete channel (JObj (cp_target p)) \<and> aims_at_target channel (JObj (cp_target p)) (JObj (cp_internal p))"
proof -
  consider "channel = ''napcat''" | "channel = ''wecom''" | "channel = ''feishu''" | "channel = ''weixin''"
    | "channel = ''rabilink''" | "channel = ''speech''" | "channel = ''role_panel''" | "channel = ''plan_feedback''"
    using assms by (auto simp: channel_target_def split: if_splits)
  then show ?thesis
  proof cases
    case 1
    with assms napcat_target_ok show ?thesis by (simp add: channel_target_def)
  next
    case 5
    then have "rabilink_target params = Inr p" using assms by (simp add: channel_target_def)
    with 5 show ?thesis using optionalText_cases [of "jget params ''sourceMessageId''"]
      unfolding rabilink_target_def Let_def by (auto simp: target_defs)
  qed (use assms in \<open>auto simp: channel_target_def target_defs Let_def wecom_target_def feishu_target_def
         weixin_target_def speech_target_def role_panel_target_def plan_feedback_target_def\<close>)
qed

section \<open>The internal request\<close>

declare jget.simps(1) [simp del]

lemma map_of_rev: "distinct (map fst fs) \<Longrightarrow> map_of (rev fs) = map_of fs"
  by (rule map_of_inject_set [THEN iffD2]) (auto simp: rev_map [symmetric])

text \<open>The fields that do not depend on the channel are not assigned by it.\<close>

definition common_fields :: "string list" where
  "common_fields = [''payloadType'', ''text'', ''payload'', ''deliveryId'', ''senderAgentType'', ''senderSessionId'',
     ''routeProfileId'', ''explicitTarget'', ''sendChannel'', ''replyContext'']"

lemma channel_keys:
  assumes "channel_target channel params sender = Inr p"
  shows "distinct (map fst (cp_internal p)) \<and> list_all (\<lambda>k. k \<notin> set (map fst (cp_internal p))) common_fields
    \<and> list_all (\<lambda>k. k \<in> set (map fst (cp_internal p))) (''adapterType'' # map fst (aimed_fields channel))"
proof -
  consider "channel = ''napcat''" | "channel = ''wecom''" | "channel = ''feishu''" | "channel = ''weixin''"
    | "channel = ''rabilink''" | "channel = ''speech''" | "channel = ''role_panel''" | "channel = ''plan_feedback''"
    using assms by (auto simp: channel_target_def split: if_splits)
  then show ?thesis
  proof cases
    case 1
    with assms have "napcat_target params sender = Inr p" by (simp add: channel_target_def)
    then show ?thesis by (rule napcat_target_shape) (simp add: 1 common_fields_def aimed_fields_def)
  qed (use assms in \<open>auto simp: channel_target_def target_defs common_fields_def Let_def wecom_target_def feishu_target_def
         weixin_target_def rabilink_target_def speech_target_def role_panel_target_def plan_feedback_target_def\<close>)
qed

lemma jget_assigned:
  "distinct (map fst gs) \<Longrightarrow> k \<in> set (map fst gs) \<Longrightarrow> jget (JObj (assign fs gs)) k = jget (JObj gs) k"
  "k \<notin> set (map fst gs) \<Longrightarrow> jget (JObj (assign fs gs)) k = jget (JObj fs) k"
proof -
  assume gs: "distinct (map fst gs)" "k \<in> set (map fst gs)"
  then obtain v where "map_of gs k = Some v" by (cases "map_of gs k") (auto simp: map_of_eq_None_iff)
  with gs show "jget (JObj (assign fs gs)) k = jget (JObj gs) k" by (simp add: jget_assign map_of_rev) (simp add: jget.simps(1))
next
  assume "k \<notin> set (map fst gs)"
  then have "map_of (rev gs) k = None" by (simp add: map_of_eq_None_iff)
  then show "jget (JObj (assign fs gs)) k = jget (JObj fs) k" by (simp add: jget_assign)
qed

text \<open>What an internal request says, by field.\<close>

lemma internal_common:
  assumes "channel_target channel params sender = Inr p"
  shows "jget (JObj (internal_request h p)) ''payloadType'' = JStr (pp_payloadType (sh_payload h))"
    and "jget (JObj (internal_request h p)) ''text'' = opt_str (pp_text (sh_payload h))"
    and "jget (JObj (internal_request h p)) ''payload'' = pp_payload (sh_payload h)"
    and "jget (JObj (internal_request h p)) ''deliveryId'' = JStr (sh_deliveryId h)"
    and "jget (JObj (internal_request h p)) ''senderAgentType'' = JStr (ss_agentType (sh_sender h))"
    and "jget (JObj (internal_request h p)) ''senderSessionId'' = JStr (ss_sessionId (sh_sender h))"
    and "jget (JObj (internal_request h p)) ''routeProfileId'' = JStr (sh_routeId h)"
    and "jget (JObj (internal_request h p)) ''explicitTarget'' = JBool True"
    and "jget (JObj (internal_request h p)) ''sendChannel'' = JStr (sh_channel h)"
  using channel_keys [OF assms]
  by (simp_all add: common_fields_def internal_request_def jget_assigned(2))

lemma internal_aims:
  assumes "channel_target channel params sender = Inr p"
  shows "aims_at_target channel (JObj (cp_target p)) (JObj (internal_request h p))"
proof -
  have own: "jget (JObj (internal_request h p)) k = jget (JObj (cp_internal p)) k"
    if "k \<in> set (''adapterType'' # map fst (aimed_fields channel))" for k
  proof -
    have "distinct (map fst (cp_internal p))" "k \<in> set (map fst (cp_internal p))"
      using that channel_keys [OF assms] unfolding list_all_iff by blast+
    then show ?thesis unfolding internal_request_def by (rule jget_assigned(1))
  qed
  have "list_all (\<lambda>(i, t). jget (JObj (internal_request h p)) i = jget (JObj (cp_target p)) t) (aimed_fields channel)"
  proof (unfold list_all_iff, intro ballI, clarify)
    fix i t
    assume m: "(i, t) \<in> set (aimed_fields channel)"
    then have "i \<in> set (''adapterType'' # map fst (aimed_fields channel))" by force
    moreover have "jget (JObj (cp_internal p)) i = jget (JObj (cp_target p)) t"
      using m channel_target_ok [OF assms] unfolding aims_at_target_def list_all_iff by blast
    ultimately show "jget (JObj (internal_request h p)) i = jget (JObj (cp_target p)) t" by (simp only: own)
  qed
  moreover have "jget (JObj (internal_request h p)) ''adapterType'' = JStr (adapter_of channel)"
    using own [of "''adapterType''"] channel_target_ok [OF assms] unfolding aims_at_target_def by simp
  ultimately show ?thesis unfolding aims_at_target_def by blast
qed

section \<open>The payload\<close>

definition nonblank :: "jval \<Rightarrow> bool" where
  "nonblank v \<longleftrightarrow> (case v of JStr s \<Rightarrow> js_trim s \<noteq> [] | _ \<Rightarrow> False)"

definition carries_media :: "jval \<Rightarrow> bool" where
  "carries_media v \<longleftrightarrow> is_text (jget v ''path'') \<or> is_text (jget v ''url'')
     \<or> is_object (jget v ''planAttachment'')
     \<or> (case jget v ''fileId'' of JStr s \<Rightarrow> uuid_text s | _ \<Rightarrow> False)
     \<or> jget v ''type'' = JStr ''sticker'' \<and> (case jget v ''stickerId'' of JStr s \<Rightarrow> hex_text 32 s | _ \<Rightarrow> False)
     \<or> jget v ''type'' = JStr ''markdown'' \<and> nonblank (jget v ''text'')
     \<or> (case jget v ''segments'' of JArr vs \<Rightarrow> list_ex (\<lambda>s. jget s ''type'' \<noteq> JStr ''text'') vs | _ \<Rightarrow> False)"

text \<open>A text is not blank; any other payload is an image, a voice message or a file, and has a source.\<close>

definition payload_complete :: "jval \<Rightarrow> bool" where
  "payload_complete internal \<longleftrightarrow>
     (if jget internal ''payloadType'' = JStr ''text'' then nonblank (jget internal ''text'')
      else jget internal ''payloadType'' \<in> {JStr ''image'', JStr ''voice'', JStr ''file''}
        \<and> carries_media (jget internal ''payload''))"

definition part_complete :: "payload_part \<Rightarrow> bool" where
  "part_complete p \<longleftrightarrow> (if pp_payloadType p = ''text'' then nonblank (opt_str (pp_text p))
     else pp_payloadType p \<in> {''image'', ''voice'', ''file''} \<and> carries_media (pp_payload p))"

lemma nonblank_sender_text [simp]: "text_of v \<noteq> [] \<Longrightarrow> js_trim (sender_text v (text_of v)) \<noteq> []"
  by (cases v) (auto simp: sender_text_def text_of_def nullish_def)

lemma carries_media_intros:
  "is_text (jget v ''path'') \<Longrightarrow> carries_media v"
  "is_text (jget v ''url'') \<Longrightarrow> carries_media v"
  "is_object (jget v ''planAttachment'') \<Longrightarrow> carries_media v"
  "jget v ''fileId'' = JStr s \<Longrightarrow> uuid_text s \<Longrightarrow> carries_media v"
  "jget v ''type'' = JStr ''sticker'' \<Longrightarrow> jget v ''stickerId'' = JStr s \<Longrightarrow> hex_text 32 s \<Longrightarrow> carries_media v"
  "jget v ''type'' = JStr ''markdown'' \<Longrightarrow> nonblank (jget v ''text'') \<Longrightarrow> carries_media v"
  "jget v ''segments'' = JArr vs \<Longrightarrow> list_ex (\<lambda>s. jget s ''type'' \<noteq> JStr ''text'') vs \<Longrightarrow> carries_media v"
  unfolding carries_media_def by simp_all

lemma sticker_complete: 
  assumes "sticker_payload payload channel = Inr p"
  shows "part_complete p"
proof -
  from assms obtain s where "hex_text 32 s" "pp_payloadType p = ''image''"
      "jget (pp_payload p) ''type'' = JStr ''sticker''" "jget (pp_payload p) ''stickerId'' = JStr s"
    by (cases "jget payload ''stickerId''") (simp_all add: sticker_payload_def Let_def split: if_splits, force)
  then show ?thesis by (auto simp: part_complete_def intro: carries_media_intros(5))
qed

lemma markdown_complete:
  assumes "markdown_payload quotas payload channel = Inr p"
  shows "part_complete p"
proof -
  from assms have "pp_payloadType p = ''image''" "jget (pp_payload p) ''type'' = JStr ''markdown''"
      "nonblank (jget (pp_payload p) ''text'')"
    by (auto simp: markdown_payload_def Let_def nonblank_def split: if_splits)
  then show ?thesis by (auto simp: part_complete_def intro: carries_media_intros(6))
qed

lemma segment_json_type: "counts_as_image s \<Longrightarrow> jget (segment_json s) ''type'' \<noteq> JStr ''text''"
  by (cases s) auto

lemma segments_complete:
  assumes "segments_payload quotas payload type channel = Inr p"
  shows "part_complete p"
proof -
  from assms obtain v vs ss where ss: "length (filter counts_as_image ss) \<noteq> 0" "p = segments_part ss"
    unfolding segments_payload_def
    by (cases "jget payload ''segments''") (auto simp: Let_def simp del: map_indexed.simps split: if_splits list.splits)
  then obtain s where "s \<in> set ss" "counts_as_image s" by (auto simp: filter_empty_conv)
  then have "list_ex (\<lambda>s. jget s ''type'' \<noteq> JStr ''text'') (map segment_json ss)"
    using segment_json_type [of s] by (auto simp: list_ex_iff)
  with ss(2) show ?thesis
    by (auto simp: part_complete_def segments_part_def Let_def intro: carries_media_intros(7))
qed

lemma file_reference_id:
  assumes "file_reference payload type b = Inr u" "hasOwn payload ''fileId''"
  shows "\<exists>s. jget payload ''fileId'' = JStr s \<and> uuid_text s" "\<exists>s. jget payload ''fileSha256'' = JStr s"
proof -
  have "case jget payload ''fileId'' of JStr s \<Rightarrow> uuid_text s | _ \<Rightarrow> False"
      "case jget payload ''fileSha256'' of JStr s \<Rightarrow> hex_text 64 s | _ \<Rightarrow> False"
    using assms unfolding file_reference_def by simp_all
  then show "\<exists>s. jget payload ''fileId'' = JStr s \<and> uuid_text s" "\<exists>s. jget payload ''fileSha256'' = JStr s"
    by (auto split: jval.splits)
qed

lemma plain_complete:
  assumes "plain_payload payload type = Inr p" "type \<in> {''text'', ''image'', ''voice'', ''file''}"
  shows "part_complete p"
proof (cases "type = ''text''")
  case True
  with assms show ?thesis by (auto simp: plain_payload_def plain_part_def part_complete_def Let_def nonblank_def)
next
  case False
  let ?path = "optionalText (jget payload ''path'')" and ?url = "optionalText (jget payload ''url'')"
  let ?text = "map_option (sender_text (jget payload ''text'')) (optionalText (jget payload ''text''))"
  from False assms(1) obtain u attachment where u: "file_reference payload type (attachment \<noteq> None) = Inr u"
      "?path \<noteq> None \<or> ?url \<noteq> None \<or> hasOwn payload ''fileId'' \<or> attachment \<noteq> None"
      "p = plain_part payload type ?text ?path ?url attachment"
    unfolding plain_payload_def Let_def bind_eq_Inr check_eq_Inr by fastforce
  have fields: "jget (pp_payload p) ''path'' = opt_str ?path" "jget (pp_payload p) ''url'' = opt_str ?url"
      "attachment \<noteq> None \<Longrightarrow> is_object (jget (pp_payload p) ''planAttachment'')"
      "attachment = None \<Longrightarrow> hasOwn payload ''fileId'' \<Longrightarrow> jget (pp_payload p) ''fileId'' = jget payload ''fileId''"
    by (auto simp: u(3) plain_part_def attachment_json_def)
  from u(2) consider x where "?path = Some x" | x where "?url = Some x" | "attachment \<noteq> None"
    | "attachment = None" "hasOwn payload ''fileId''" by blast
  then have "carries_media (pp_payload p)"
  proof cases
    case 1
    with optionalText_ok fields(1) show ?thesis by (auto intro: carries_media_intros(1))
  next
    case 2
    with optionalText_ok fields(2) show ?thesis by (auto intro: carries_media_intros(2))
  next
    case 3
    with fields(3) show ?thesis by (blast intro: carries_media_intros(3))
  next
    case 4
    with file_reference_id(1) [OF u(1)] fields(4) show ?thesis by (auto intro: carries_media_intros(4))
  qed
  with False assms(2) show ?thesis by (auto simp: part_complete_def u(3) plain_part_def)
qed

lemma payload_part_complete: "payloadFields quotas payload channel = Inr p \<Longrightarrow> part_complete p"
  by (auto simp: payloadFields_def payload_types_def split: if_splits
      intro: sticker_complete markdown_complete segments_complete plain_complete)

section \<open>Accepted requests are complete\<close>

lemma senderValue_ok:
  "senderValue v = Inr s \<Longrightarrow> agent_type_text (ss_agentType s) \<and> text_ok (ss_sessionId s) \<and> plain_id 500 (ss_sessionId s)"
  by (auto simp: senderValue_def)

lemma send_head_shape:
  assumes "send_head_of quotas request = Inr h"
  obtains v where "sh_deliveryId h = text_of (jget (JObj request) ''deliveryId'')" "sh_deliveryId h \<noteq> []"
    "senderValue (jget (JObj request) ''sender'') = Inr (sh_sender h)"
    "sh_routeId h = text_of (jget (JObj request) ''routeId'')" "sh_routeId h \<noteq> []"
    "agentSendChannelHelp (sh_channel h) \<noteq> None" "payloadFields quotas v (sh_channel h) = Inr (sh_payload h)"
  using assms unfolding send_head_of_def Let_def bind_eq_Inr check_eq_Inr textValue_eq_Inr
  by (elim exE conjE, simp only: sum.inject) (rule that, auto)

lemma send_head_ok:
  assumes "send_head_of quotas request = Inr h"
  shows "text_ok (sh_deliveryId h)" "text_ok (sh_routeId h)" "sh_channel h \<in> set (map fst channel_params)"
    "agent_type_text (ss_agentType (sh_sender h))" "text_ok (ss_sessionId (sh_sender h))"
    "plain_id 500 (ss_sessionId (sh_sender h))" "part_complete (sh_payload h)"
  by (rule send_head_shape [OF assms]; auto simp: text_ok_def agentSendChannelHelp_def map_of_eq_None_iff
      dest: senderValue_ok payload_part_complete)+

text \<open>C17: A request that is accepted for sending is complete. Its identifier, its route and its session are
  trimmed, non-empty texts, the type of its sender is a stable identifier, and its channel is one of those
  offered. The target names whom the channel needs to address; a reviewer's message to a group quotes the
  message it answers. The internal request that is executed carries the same identifier, sender, route and channel, goes
  to exactly the target that the answer shows, and has either a text that is not blank or a source of its image,
  voice message or file.\<close>

theorem prepared_sends_are_complete:
  assumes "prepareAgentSendRequest quotas request = Inr n"
  shows "text_ok (ns_deliveryId n) \<and> text_ok (ns_routeId n) \<and> ns_channel n \<in> set (map fst channel_params)
    \<and> agent_type_text (ss_agentType (ns_sender n)) \<and> text_ok (ss_sessionId (ns_sender n)) \<and> plain_id 500 (ss_sessionId (ns_sender n))
    \<and> target_complete (ns_channel n) (JObj (ns_target n))
    \<and> (ns_channel n = ''napcat'' \<longrightarrow> jget (JObj (ns_target n)) ''target'' = JStr ''group''
        \<longrightarrow> ss_agentType (ns_sender n) = ''message_processing'' \<longrightarrow> is_text (jget (JObj (ns_target n)) ''replyToMessageId''))
    \<and> aims_at_target (ns_channel n) (JObj (ns_target n)) (JObj (ns_internal n))
    \<and> payload_complete (JObj (ns_internal n))
    \<and> jget (JObj (ns_internal n)) ''deliveryId'' = JStr (ns_deliveryId n)
    \<and> jget (JObj (ns_internal n)) ''senderAgentType'' = JStr (ss_agentType (ns_sender n))
    \<and> jget (JObj (ns_internal n)) ''senderSessionId'' = JStr (ss_sessionId (ns_sender n))
    \<and> jget (JObj (ns_internal n)) ''routeProfileId'' = JStr (ns_routeId n)
    \<and> jget (JObj (ns_internal n)) ''sendChannel'' = JStr (ns_channel n)
    \<and> jget (JObj (ns_internal n)) ''explicitTarget'' = JBool True"
proof -
  from assms obtain h params p where h: "send_head_of quotas request = Inr h"
      "channel_target (sh_channel h) params (sh_sender h) = Inr p" "n = normalized_of h p"
    by (auto simp: prepareAgentSendRequest_def normalizeAgentSend_def)
  have quoted: "is_text (jget (JObj (cp_target p)) ''replyToMessageId'')" if "sh_channel h = ''napcat''"
      "jget (JObj (cp_target p)) ''target'' = JStr ''group''" "ss_agentType (sh_sender h) = ''message_processing''"
    using napcat_target_ok(3) [of params "sh_sender h" p] h(2) that by (simp add: channel_target_def)
  have "payload_complete (JObj (internal_request h p))"
    using send_head_ok(7) [OF h(1)] unfolding payload_complete_def internal_common [OF h(2)] part_complete_def by auto
  then show ?thesis
    using send_head_ok(1-6) [OF h(1)] channel_target_ok [OF h(2)] internal_aims [OF h(2)] internal_common [OF h(2)] quoted h(3)
    by (simp add: normalized_of_def)
qed

section \<open>Values that differ in the order of keys\<close>

text \<open>Two parts of two requests are alike when they are equal, or JSON values that differ in nothing but the order of keys.\<close>

definition json_exact :: "jval \<Rightarrow> bool" where
  "json_exact v \<longleftrightarrow> json_value v \<and> json_pure v"

definition alike :: "jval \<Rightarrow> jval \<Rightarrow> bool" where
  "alike v w \<longleftrightarrow> v = w \<or> json_exact v \<and> json_exact w \<and> same_payload v w"

lemma alike_refl [simp]: "alike v v"
  by (simp add: alike_def)

lemma json_exact_simps [simp]:
  "json_exact (JArr vs) \<longleftrightarrow> list_all json_exact vs"
  "json_exact (JObj fs) \<longleftrightarrow> distinct (map fst fs) \<and> list_all (\<lambda>(k, v). json_exact v) fs"
  by (auto simp: json_exact_def list_all_iff)

lemma NaN_not_pure [simp]: "\<not> num_text ''NaN''"
  by (simp add: num_text_def num_char_def)

lemma alike_cases:
  assumes "alike v w"
  obtains "v = w"
    | vs ws where "v = JArr vs" "w = JArr ws" "list_all2 alike vs ws"
    | fs gs where "v = JObj fs" "w = JObj gs" "json_exact v" "json_exact w" "same_payload v w"
proof (cases "v = w")
  case False
  with assms have ex: "json_exact v" "json_exact w" "same_payload v w" by (auto simp: alike_def)
  from ex(3) show ?thesis
  proof (cases "(v, w)" rule: same_payload.cases)
    case (1 vs ws)
    then have "list_all2 alike vs ws"
      using ex by (auto simp: list_all2_conv_all_nth list_all_length alike_def)
    with 1 that(2) show ?thesis by blast
  next
    case (2 fs gs)
    with ex that(3) show ?thesis by blast
  qed (use ex False in \<open>auto simp: json_exact_def elim!: null_like.elims\<close>)
qed (use that in blast)

lemma alike_jget: "alike v w \<Longrightarrow> alike (jget v k) (jget w k)"
proof (erule alike_cases)
  fix fs gs
  assume o: "v = JObj fs" "w = JObj gs" "json_exact v" "json_exact w" "same_payload v w"
  then have keys: "set (map fst fs) = set (map fst gs)" by simp
  show "alike (jget v k) (jget w k)"
  proof (cases "map_of fs k")
    case None
    with keys have "map_of gs k = None" by (metis map_of_eq_None_iff set_map)
    with None o show ?thesis by (simp add: jget.simps(1))
  next
    case (Some x)
    with keys obtain y where y: "map_of gs k = Some y" by (metis map_of_eq_None_iff not_None_eq set_map)
    from Some y have m: "(k, x) \<in> set fs" "(k, y) \<in> set gs" by (auto dest: map_of_SomeD)
    with o have "json_exact x" "json_exact y" "same_payload x y" by (auto simp: list_all_iff)
    with Some y o show ?thesis by (simp add: jget.simps(1) alike_def)
  qed
qed auto

lemma alike_hasOwn: "alike v w \<Longrightarrow> hasOwn v k = hasOwn w k"
  by (erule alike_cases) (auto simp: hasOwn_def)

lemma alike_object: "alike v w \<Longrightarrow> is_object v = is_object w"
  by (erule alike_cases) auto

lemma alike_primitive: "alike v w \<Longrightarrow> \<not> is_object w \<Longrightarrow> (\<And>vs. w \<noteq> JArr vs) \<Longrightarrow> v = w"
  by (erule alike_cases) auto

lemma alike_nullish: "alike v w \<Longrightarrow> nullish v = nullish w"
  by (erule alike_cases) (auto simp: nullish_def)

lemma alike_literal:
  "alike v w \<Longrightarrow> v = JStr s \<longleftrightarrow> w = JStr s" "alike v w \<Longrightarrow> v = JNum s \<longleftrightarrow> w = JNum s" "alike v w \<Longrightarrow> v = JNull \<longleftrightarrow> w = JNull"
  "alike v w \<Longrightarrow> v = JUndef \<longleftrightarrow> w = JUndef"
  by (erule alike_cases; auto)+

lemma alike_String: "alike v w \<Longrightarrow> js_String v = js_String w"
proof (induction v arbitrary: w rule: js_String.induct)
  case (6 vs)
  from 6(2) show ?case
  proof (cases rule: alike_cases)
    case (2 vs' ws)
    have "map (\<lambda>v. if v = JUndef \<or> v = JNull then [] else js_String v) vs
        = map (\<lambda>v. if v = JUndef \<or> v = JNull then [] else js_String v) ws"
    proof (rule nth_equalityI)
      show "length (map (\<lambda>v. if v = JUndef \<or> v = JNull then [] else js_String v) vs)
          = length (map (\<lambda>v. if v = JUndef \<or> v = JNull then [] else js_String v) ws)"
        using 2 by (auto dest: list_all2_lengthD)
      fix i
      assume "i < length (map (\<lambda>v. if v = JUndef \<or> v = JNull then [] else js_String v) vs)"
      with 2 have i: "i < length vs" "i < length ws" "alike (vs ! i) (ws ! i)"
        by (auto dest: list_all2_lengthD list_all2_nthD)
      with 6(1) [of "vs ! i" "ws ! i"] alike_literal(3,4) [OF i(3)]
      show "map (\<lambda>v. if v = JUndef \<or> v = JNull then [] else js_String v) vs ! i
          = map (\<lambda>v. if v = JUndef \<or> v = JNull then [] else js_String v) ws ! i" by auto
    qed
    with 2 show ?thesis by simp
  qed auto
qed (erule alike_cases; auto)+

lemma alike_text: "alike v w \<Longrightarrow> text_of v = text_of w"
  by (simp add: text_of_def alike_nullish alike_String)

lemma alike_values:
  assumes "alike v w"
  shows "textValue v f = textValue w f" "optionalText v = optionalText w" "booleanValue v f = booleanValue w f"
    "normalizeStyleValidationMode v = normalizeStyleValidationMode w" "sender_text v t = sender_text w t"
proof -
  show "textValue v f = textValue w f" "optionalText v = optionalText w"
    by (simp_all add: textValue_def optionalText_def alike_text [OF assms])
  show "booleanValue v f = booleanValue w f" "normalizeStyleValidationMode v = normalizeStyleValidationMode w"
      "sender_text v t = sender_text w t"
    using assms by (cases rule: alike_cases;
        simp add: booleanValue_def normalizeStyleValidationMode_def sender_text_def nullish_def)+
qed

lemma map_indexed_cong:
  assumes "list_all2 R vs ws" "\<And>i v w. R v w \<Longrightarrow> f i v = g i w"
  shows "map_indexed f n vs = map_indexed g n ws"
  using assms(1) by (induction arbitrary: n rule: list_all2_induct) (simp_all add: assms(2))

lemma alike_stringList:
  assumes "alike v w"
  shows "stringListValue v f = stringListValue w f"
  using assms
proof (cases rule: alike_cases)
  case (2 vs ws)
  then show ?thesis by (simp add: stringListValue_def nullish_def) (rule map_indexed_cong [where R = alike], auto intro: alike_values(1))
qed (simp_all add: stringListValue_def nullish_def)

section \<open>Results that agree\<close>

text \<open>Two computations agree when what they return is related; their errors may differ.\<close>

definition agree :: "('a \<Rightarrow> 'b \<Rightarrow> bool) \<Rightarrow> 'a result \<Rightarrow> 'b result \<Rightarrow> bool" where
  "agree R r s \<longleftrightarrow> (\<forall>a b. r = Inr a \<longrightarrow> s = Inr b \<longrightarrow> R a b)"

lemma agree_simps [simp]: "agree R (Inl e) s" "agree R r (Inl e)" "agree R (Inr a) (Inr b) \<longleftrightarrow> R a b"
  by (simp_all add: agree_def)

lemma agree_same: "(\<And>a. R a a) \<Longrightarrow> agree R r r"
  by (simp add: agree_def)

lemma agree_bind:
  "agree R r s \<Longrightarrow> (\<And>a b. r = Inr a \<Longrightarrow> s = Inr b \<Longrightarrow> R a b \<Longrightarrow> agree Q (f a) (g b)) \<Longrightarrow> agree Q (bind r f) (bind s g)"
  by (cases r; cases s) (auto simp: agree_def)

lemma agree_bind_eq: "agree (=) r s \<Longrightarrow> (\<And>a. r = Inr a \<Longrightarrow> s = Inr a \<Longrightarrow> agree Q (f a) (g a)) \<Longrightarrow> agree Q (bind r f) (bind s g)"
  by (rule agree_bind) auto

lemma agree_bind_same: "(\<And>a. r = Inr a \<Longrightarrow> agree Q (f a) (g a)) \<Longrightarrow> agree Q (bind r f) (bind r g)"
  by (cases r) auto

lemma agree_bind_unit: "(r = Inr () \<Longrightarrow> s = Inr () \<Longrightarrow> agree Q (f ()) (g ())) \<Longrightarrow> agree Q (bind r f) (bind s g)"
  by (cases r; cases s) auto

lemma agree_if: "(b \<Longrightarrow> agree R r s) \<Longrightarrow> (\<not> b \<Longrightarrow> agree R r' s') \<Longrightarrow> agree R (if b then r else r') (if b then s else s')"
  by simp

lemma agree_eqI: "r = s \<Longrightarrow> agree (=) r s"
  by (simp add: agree_def)

lemma agree_objectValue: "alike v w \<Longrightarrow> agree alike (objectValue v f b) (objectValue w f b)"
  by (simp add: objectValue_def alike_object alike_nullish)

lemma agree_senderValue:
  assumes "alike v w"
  shows "agree (=) (senderValue v) (senderValue w)"
proof (cases "is_object w")
  case True
  have get: "alike (jget v k) (jget w k)" for k by (rule alike_jget [OF assms])
  from True show ?thesis
    by (simp add: senderValue_def objectValue_def alike_object [OF assms] alike_values [OF get])
      (intro agree_bind_unit agree_bind_same; simp)
qed (simp add: senderValue_def objectValue_def alike_object [OF assms])

lemma agree_attachment:
  assumes "alike v w"
  shows "agree (=) (planAttachmentReference v type path url) (planAttachmentReference w type path url)"
proof -
  have get: "alike (jget v k) (jget w k)" for k by (rule alike_jget [OF assms])
  show ?thesis
    by (simp add: planAttachmentReference_def alike_nullish [OF assms] alike_object [OF assms] alike_hasOwn [OF assms] alike_values [OF get])
      (intro impI agree_bind_unit agree_bind_same; simp)
qed

lemma agree_segment:
  assumes "alike v w"
  shows "agree (=) (segment_value quotas i v) (segment_value quotas i w)"
proof (cases "is_object w")
  case True
  have get: "alike (jget v k) (jget w k)" for k by (rule alike_jget [OF assms])
  show ?thesis
    by (simp only: segment_value_def objectValue_def Let_def alike_object [OF assms] True if_True bind_simps
        alike_values [OF get] alike_hasOwn [OF assms])
      (intro agree_if agree_bind_unit agree_bind_same; simp)
qed (simp add: segment_value_def objectValue_def alike_object [OF assms])

lemma agree_map_indexed:
  assumes "list_all2 R vs ws" "\<And>i v w. R v w \<Longrightarrow> agree (=) (f i v) (f i w)"
  shows "agree (=) (map_indexed f n vs) (map_indexed f n ws)"
  using assms(1)
proof (induction arbitrary: n rule: list_all2_induct)
  case (Cons v vs w ws)
  then show ?case using assms(2) by (auto intro!: agree_bind_eq simp del: check_eq_Inr)
qed simp

lemma agree_sticker:
  assumes "alike v w"
  shows "agree (=) (sticker_payload v channel) (sticker_payload w channel)"
proof -
  have get: "alike (jget v k) (jget w k)" for k by (rule alike_jget [OF assms])
  have "(case jget v ''stickerId'' of JStr s \<Rightarrow> F s | _ \<Rightarrow> Inl e) = (case jget w ''stickerId'' of JStr s \<Rightarrow> F s | _ \<Rightarrow> Inl e)"
    for F :: "string \<Rightarrow> payload_part result" and e
    using get [of "''stickerId''"] by (cases rule: alike_cases) auto
  then show ?thesis unfolding sticker_payload_def alike_values [OF get] by (intro agree_bind_unit) (simp add: agree_same)
qed

lemma agree_markdown:
  assumes "alike v w"
  shows "agree (=) (markdown_payload quotas v channel) (markdown_payload quotas w channel)"
proof -
  have get: "alike (jget v k) (jget w k)" for k by (rule alike_jget [OF assms])
  have "markdown_payload quotas v channel = markdown_payload quotas w channel"
    by (simp add: markdown_payload_def alike_values [OF get] alike_hasOwn [OF assms])
  then show ?thesis by (rule agree_eqI)
qed

lemma agree_segments:
  assumes "alike v w"
  shows "agree (=) (segments_payload quotas v type channel) (segments_payload quotas w type channel)"
proof -
  have get: "alike (jget v ''segments'') (jget w ''segments'')" by (rule alike_jget [OF assms])
  have own: "list_ex (hasOwn v) ks = list_ex (hasOwn w) ks" for ks by (simp add: list_ex_iff alike_hasOwn [OF assms])
  from get show ?thesis
  proof (cases rule: alike_cases)
    case 1
    then show ?thesis by (simp add: segments_payload_def own agree_same)
  next
    case (2 vs ws)
    show ?thesis
    proof (cases vs)
      case (Cons x xs)
      with 2 obtain y ys where ws: "ws = y # ys" by (auto simp: list_all2_Cons1)
      have len: "length vs = length ws" using 2(3) by (rule list_all2_lengthD)
      have "agree (=) (map_indexed (segment_value quotas) 0 vs) (map_indexed (segment_value quotas) 0 ws)"
        by (rule agree_map_indexed [OF 2(3)]) (rule agree_segment)
      with 2(1,2) len show ?thesis unfolding segments_payload_def own Cons ws
        by (auto simp del: map_indexed.simps intro!: agree_bind_unit agree_bind_eq simp: Let_def)
    qed (use 2 in \<open>simp add: segments_payload_def\<close>)
  qed (simp_all add: segments_payload_def)
qed

lemma agree_plain:
  assumes "alike v w"
  shows "agree (=) (plain_payload v type) (plain_payload w type)"
proof -
  have get: "alike (jget v k) (jget w k)" for k by (rule alike_jget [OF assms])
  have part: "plain_part v type t path url attachment = plain_part w type t path url attachment"
    if "file_reference v type b = Inr u" for t path url attachment b u
  proof (cases "hasOwn v ''fileId''")
    case True
    with file_reference_id [OF that] obtain i h where "jget v ''fileId'' = JStr i" "jget v ''fileSha256'' = JStr h"
      by blast
    moreover from this have "jget w ''fileId'' = JStr i" "jget w ''fileSha256'' = JStr h"
      by (simp_all only: alike_literal(1) [OF get])
    ultimately show ?thesis by (simp add: plain_part_def alike_hasOwn [OF assms] alike_values [OF get])
  qed (simp add: plain_part_def alike_hasOwn [OF assms] alike_values [OF get])
  show ?thesis
    unfolding plain_payload_def Let_def alike_values [OF get] alike_hasOwn [OF assms]
    by (intro agree_bind_same agree_bind_eq [OF agree_attachment [OF get]] agree_bind_unit)
      (simp only: agree_simps, erule part)
qed

lemma agree_payloadFields:
  assumes "alike v w"
  shows "agree (=) (payloadFields quotas v channel) (payloadFields quotas w channel)"
proof -
  have get: "alike (jget v k) (jget w k)" for k by (rule alike_jget [OF assms])
  show ?thesis
    unfolding payloadFields_def alike_values [OF get] alike_hasOwn [OF assms]
    by (intro agree_bind_unit agree_bind_same)
      (simp add: agree_sticker agree_markdown agree_segments agree_plain assms)
qed

section \<open>What a digest determines\<close>

text \<open>Without its identifier and the proofs of its review, a request is the payload that identifies it.\<close>

definition review_fields :: "string set" where
  "review_fields = {''deliveryId'', ''messageLengthConfirmation'', ''conversationContext''}"

lemma map_of_filtered: "P k \<Longrightarrow> map_of (filter (\<lambda>(j, _). P j) fs) k = map_of fs k"
  by (induction fs) auto

lemma jget_payload:
  "k \<notin> review_fields \<Longrightarrow> jget (agentSendIdempotencyPayload request) k = jget (JObj request) k"
  using map_of_filtered [of "\<lambda>j. j \<notin> review_fields" k request]
  by (simp add: agentSendIdempotencyPayload_def review_fields_def jget.simps(1))

lemma payload_exact: "json_exact (JObj request) \<Longrightarrow> json_exact (agentSendIdempotencyPayload request)"
  by (auto simp: agentSendIdempotencyPayload_def list_all_iff intro: distinct_map_filter)

lemma alike_requests:
  assumes "alike (agentSendIdempotencyPayload q) (agentSendIdempotencyPayload q')" "k \<notin> review_fields"
  shows "alike (jget (JObj q) k) (jget (JObj q') k)"
  using alike_jget [OF assms(1), of k] by (simp add: jget_payload [OF assms(2)])

text \<open>The parts of two requests that may still differ, and those that may not.\<close>

definition same_head :: "send_head \<Rightarrow> send_head \<Rightarrow> bool" where
  "same_head h h' \<longleftrightarrow> sh_sender h = sh_sender h' \<and> sh_routeId h = sh_routeId h' \<and> sh_requested h = sh_requested h'
     \<and> sh_channel h = sh_channel h' \<and> alike (sh_params h) (sh_params h') \<and> sh_payload h = sh_payload h'
     \<and> sh_styleValidation h = sh_styleValidation h' \<and> sh_requirementId h = sh_requirementId h'"

lemma agree_any: "agree (\<lambda>_ _. True) r s"
  by (simp add: agree_def)

lemma agree_heads:
  assumes "alike (agentSendIdempotencyPayload q) (agentSendIdempotencyPayload q')"
  shows "agree same_head (send_head_of quotas q) (send_head_of quotas q')"
proof -
  note get = alike_requests [OF assms]
  have k: "''sender'' \<notin> review_fields" "''routeId'' \<notin> review_fields" "''channel'' \<notin> review_fields" "''params'' \<notin> review_fields"
    "''payload'' \<notin> review_fields" "''tracking'' \<notin> review_fields" "''styleValidation'' \<notin> review_fields"
    by (simp_all add: review_fields_def)
  show ?thesis
    unfolding send_head_of_def Let_def alike_values [OF get [OF k(2)]] alike_values [OF get [OF k(3)]] alike_values [OF get [OF k(7)]]
    apply (rule agree_bind_unit)
    apply (rule agree_bind [OF agree_any])
    apply (rule agree_bind_eq [OF agree_senderValue [OF get [OF k(1)]]])
    apply (rule agree_bind_same, rule agree_bind_same, rule agree_bind_unit)
    apply (rule agree_bind [OF agree_objectValue [OF get [OF k(4)]]])
    apply (rule agree_bind [OF agree_objectValue [OF get [OF k(5)]]])
    apply (rule agree_bind_eq [OF agree_payloadFields], assumption)
    apply (rule agree_bind_unit)
    apply (rule agree_bind [OF agree_objectValue [OF get [OF k(6)]]])
    apply (rule agree_bind_same)
    apply (rule agree_bind [OF agree_any], rule agree_bind [OF agree_any], rule agree_bind_unit)
    apply (simp add: same_head_def alike_values(2) alike_jget)
    done
qed

lemma alike_object_delete:
  assumes "alike (JObj fs) (JObj gs)"
  shows "alike (JObj (AList.delete k fs)) (JObj (AList.delete k gs))"
proof -
  have keys: "fst ` set (AList.delete k hs) = fst ` set hs - {k}" for hs :: fields
    by (induction hs) auto
  have sub: "set (AList.delete k hs) \<subseteq> set hs" for hs :: fields
    by (induction hs) auto
  show ?thesis
  proof (cases "fs = gs")
    case False
    with assms have "json_exact (JObj fs)" "json_exact (JObj gs)" "same_payload (JObj fs) (JObj gs)" by (auto simp: alike_def)
    moreover have "json_exact (JObj (AList.delete k hs))" if "json_exact (JObj hs)" for hs
      using that sub [of hs] by (simp add: list_all_iff distinct_delete) blast
    moreover have "same_payload (JObj (AList.delete k fs)) (JObj (AList.delete k gs))"
      if "same_payload (JObj fs) (JObj gs)"
      using that sub [of fs] sub [of gs] by (simp add: keys) blast
    ultimately show ?thesis by (simp only: alike_def simp_thms)
  qed simp
qed

lemma agree_migrated: "alike params params' \<Longrightarrow> agree alike (migrated_params requested params) (migrated_params requested params')"
proof (cases "\<exists>fs gs. params = JObj fs \<and> params' = JObj gs")
  case True
  assume a: "alike params params'"
  from True obtain fs gs where o: "params = JObj fs" "params' = JObj gs" by blast
  have "jget params ''mode'' = JStr s \<longleftrightarrow> jget params' ''mode'' = JStr s" for s
    by (rule alike_literal(1) [OF alike_jget [OF a]])
  then show ?thesis using a alike_object_delete [of fs gs "''mode''"] by (simp add: migrated_params_def o)
next
  case False
  assume a: "alike params params'"
  have "agree alike (Inr params) (Inr params')" using a by simp
  with a False show ?thesis
    by (cases rule: alike_cases) (simp_all add: migrated_params_def agree_same)
qed

lemma alike_channel_target:
  assumes "alike params params'"
  shows "channel_target channel params sender = channel_target channel params' sender"
proof -
  have get: "alike (jget params k) (jget params' k)" for k by (rule alike_jget [OF assms])
  have quote: "quote_value_ok params = quote_value_ok params'"
    using get [of "''replyToMessageId''"]
    by (cases rule: alike_cases) (simp_all add: quote_value_ok_def alike_hasOwn [OF assms])
  show ?thesis
    unfolding channel_target_def napcat_target_def wecom_target_def feishu_target_def weixin_target_def rabilink_target_def
      speech_target_def role_panel_target_def plan_feedback_target_def
      alike_values [OF get] alike_stringList [OF get] quote ..
qed

lemma internal_differs_in_id:
  assumes "same_head h h'" "k \<noteq> ''deliveryId''"
  shows "jget (JObj (internal_request h' p)) k = jget (JObj (internal_request h p)) k"
  using assms unfolding same_head_def internal_request_def reply_context_def jget_assign
  by (auto split: option.splits)

text \<open>C39: The digest under which a request is remembered determines what is sent. Two requests whose payloads have
  the same digest, with a hash that separates different texts, and which are both accepted, are addressed by the same
  sender over the same route and channel to the same target, with the same options; and their internal requests,
  so everything the delivery reads, differ at most in the identifier. So the replay of a remembered answer never stands
  for another message, whatever the order of keys in the repeated request.\<close>

theorem equal_digests_send_the_same:
  assumes "inj sha" "json_exact (JObj q)" "json_exact (JObj q')"
    and "requestDigest sha (agentSendIdempotencyPayload q) = requestDigest sha (agentSendIdempotencyPayload q')"
    and n: "prepareAgentSendRequest quotas q = Inr n" and n': "prepareAgentSendRequest quotas q' = Inr n'"
  shows "n' = n\<lparr>ns_deliveryId := ns_deliveryId n', ns_messageLengthConfirmation := ns_messageLengthConfirmation n',
        ns_conversationContext := ns_conversationContext n', ns_internal := ns_internal n'\<rparr>
    \<and> (\<forall>k. k \<noteq> ''deliveryId'' \<longrightarrow> jget (JObj (ns_internal n')) k = jget (JObj (ns_internal n)) k)"
proof -
  have ex: "json_exact (agentSendIdempotencyPayload q)" "json_exact (agentSendIdempotencyPayload q')"
    using assms(2,3) by (simp_all add: payload_exact)
  then have "same_payload (agentSendIdempotencyPayload q) (agentSendIdempotencyPayload q')"
    using digest_identifies [OF assms(1)] assms(4) by (simp add: json_exact_def)
  with ex have same: "alike (agentSendIdempotencyPayload q) (agentSendIdempotencyPayload q')" by (simp add: alike_def)
  obtain h params p where h: "send_head_of quotas q = Inr h" "migrated_params (sh_requested h) (sh_params h) = Inr params"
      "channel_target (sh_channel h) params (sh_sender h) = Inr p" "n = normalized_of h p"
    using n by (auto simp: prepareAgentSendRequest_def normalizeAgentSend_def)
  obtain h' params' p' where h': "send_head_of quotas q' = Inr h'" "migrated_params (sh_requested h') (sh_params h') = Inr params'"
      "channel_target (sh_channel h') params' (sh_sender h') = Inr p'" "n' = normalized_of h' p'"
    using n' by (auto simp: prepareAgentSendRequest_def normalizeAgentSend_def)
  have head: "same_head h h'" using agree_heads [OF same, of quotas] by (simp add: h(1) h'(1))
  then have "alike params params'"
    using agree_migrated [of "sh_params h" "sh_params h'" "sh_requested h"] h(2) h'(2) by (simp add: same_head_def)
  with head h(3) h'(3) have "p' = p" by (simp add: same_head_def alike_channel_target [of params params'])
  with head show ?thesis
    using internal_differs_in_id [OF head] by (simp add: h(4) h'(4) normalized_of_def same_head_def)
qed

definition sample_send_fields :: "string \<Rightarrow> fields" where
  "sample_send_fields deliveryId = [(''deliveryId'', JStr deliveryId),
     (''sender'', JObj [(''agentType'', JStr ''message_processing''), (''sessionId'', JStr ''s1'')]),
     (''routeId'', JStr ''r1''), (''channel'', JStr ''napcat''),
     (''params'', JObj [(''target'', JStr ''group''), (''groupId'', JNum ''7''), (''replyToMessageId'', JStr ''m1'')]),
     (''payload'', JObj [(''type'', JStr ''text''), (''text'', JStr '' hi'')])]"

definition sample_quotas :: send_quotas where
  "sample_quotas = \<lparr>qt_sourceBytes = Inr 0, qt_segments = Inr 0, qt_images = Inr 0\<rparr>"

lemma sample_sends:
  "is_ok (prepareAgentSendRequest sample_quotas (sample_send_fields ''d1''))"
  "is_ok (prepareAgentSendRequest sample_quotas (rev (sample_send_fields ''d2'')))"
  "json_exact (JObj (sample_send_fields ''d1''))" "json_exact (JObj (rev (sample_send_fields ''d2'')))"
  "requestDigest (\<lambda>t. t) (agentSendIdempotencyPayload (sample_send_fields ''d1''))
    = requestDigest (\<lambda>t. t) (agentSendIdempotencyPayload (rev (sample_send_fields ''d2'')))"
  by code_simp+

theorem prepared_sends_are_complete_witness:
  "\<exists>n. prepareAgentSendRequest sample_quotas (sample_send_fields ''d1'') = Inr n \<and> payload_complete (JObj (ns_internal n))
     \<and> target_complete (ns_channel n) (JObj (ns_target n))"
proof -
  from sample_sends(1) obtain n where "prepareAgentSendRequest sample_quotas (sample_send_fields ''d1'') = Inr n"
    by (auto simp: is_ok_iff)
  with prepared_sends_are_complete [OF this] show ?thesis by blast
qed

theorem equal_digests_send_the_same_witness:
  "\<exists>n n'. prepareAgentSendRequest sample_quotas (sample_send_fields ''d1'') = Inr n
     \<and> prepareAgentSendRequest sample_quotas (rev (sample_send_fields ''d2'')) = Inr n'
     \<and> jget (JObj (ns_internal n')) ''payload'' = jget (JObj (ns_internal n)) ''payload''"
proof -
  from sample_sends(1,2) obtain n n' where n: "prepareAgentSendRequest sample_quotas (sample_send_fields ''d1'') = Inr n"
      "prepareAgentSendRequest sample_quotas (rev (sample_send_fields ''d2'')) = Inr n'"
    by (auto simp: is_ok_iff)
  from equal_digests_send_the_same [OF inj_on_id2 sample_sends(3-5) n] have
    "jget (JObj (ns_internal n')) ''payload'' = jget (JObj (ns_internal n)) ''payload''" by simp
  with n show ?thesis by blast
qed

section \<open>The retired alias\<close>

text \<open>The mode of the alias must be one of the two words exactly; surrounding white space, which the published schema
  allows, is refused.\<close>

lemma alias_mode_is_exact:
  "migrated_params ''fennenote'' (JObj [(''sessionId'', JStr ''s''), (''mode'', JStr '' message'')])
    = Inl (Err ''params.mode must be message or playback for the retired fennenote alias.'')"
  by (simp add: migrated_params_def)

declare jget.simps(1) [simp]

end
