(* ===== verification/SendProps.thy ===== *)
theory SendProps
  imports SendIdempotency AgentSendProps
begin

text \<open>
  What is proved of the idempotent sends of a process (\<open>src/src/manager/agentSendIdempotency.ts\<close>): a quoted group
  message that was answered refuses another answer for ten minutes; the contents of a reviewer are handed over
  at most once in two minutes unless one was not sent; what a process remembers after a restart.
\<close>

section \<open>A process and its steps\<close>

text \<open>
  The trace: when an entry was opened for a content and with which promise, the calls of \<open>deliver\<close> by promises,
  and the results that were not \<open>sent\<close>.
\<close>

datatype send_event = Opened string nat int | Called nat | Unsent string nat

record send_world =
  sw_clock :: int
  sw_memory :: send_memory
  sw_trace :: "send_event list"

fun opened_event :: "int \<Rightarrow> coalescing result \<Rightarrow> send_event list" where
  "opened_event now (Inr (Owner k p)) = [Opened k p now]"
| "opened_event now _ = []"

definition called_event :: "durable_env \<Rightarrow> nat \<Rightarrow> send_event list" where
  "called_event env p = (case requestAuthority env 0 of Inl _ \<Rightarrow> [] | Inr _ \<Rightarrow> [Called p])"

fun unsent_event :: "coalescing \<Rightarrow> jval result \<Rightarrow> send_event list" where
  "unsent_event (Owner k p) (Inr v) = (if jget v ''status'' = JStr ''sent'' then [] else [Unsent k p])"
| "unsent_event (Owner k p) (Inl _) = [Unsent k p]"
| "unsent_event _ _ = []"

text \<open>
  The steps of a process whose clock does not go back. Requests, their deliveries and their ends interleave in every order, the receipt
  files are whatever other processes have made of them, and timers fire late but not early.
\<close>

inductive send_step :: "(string \<Rightarrow> string) \<Rightarrow> string \<Rightarrow> send_quotas \<Rightarrow> send_world \<Rightarrow> send_world \<Rightarrow> bool"
  for sha :: "string \<Rightarrow> string" and root :: string and quotas :: send_quotas where
  tick: "sw_clock w \<le> t \<Longrightarrow> send_step sha root quotas w (w\<lparr>sw_clock := t\<rparr>)"
| request: "de_now env = sw_clock w
    \<Longrightarrow> executeIdempotentAgentSend env sha root quotas q fs (sw_memory w) = (m, r)
    \<Longrightarrow> send_step sha root quotas w (w\<lparr>sw_memory := m\<rparr>)"
| deliver: "de_now env = sw_clock w \<Longrightarrow> deliver_begin env c (sw_memory w) = (m, r)
    \<Longrightarrow> send_step sha root quotas w (w\<lparr>sw_memory := m, sw_trace := sw_trace w @ opened_event (sw_clock w) r\<rparr>)"
| start: "de_now env = sw_clock w \<Longrightarrow> map_of (sm_promises (sw_memory w)) p = Some Queued
    \<Longrightarrow> send_step sha root quotas w
          (w\<lparr>sw_memory := promise_start env p (sw_memory w), sw_trace := sw_trace w @ called_event env p\<rparr>)"
| settle: "map_of (sm_promises (sw_memory w)) p = Some Running
    \<Longrightarrow> send_step sha root quotas w (w\<lparr>sw_memory := promise_end p r (sw_memory w)\<rparr>)"
| delivered: "de_now env = sw_clock w \<Longrightarrow> deliver_end env c x r (sw_memory w) = (m, a)
    \<Longrightarrow> send_step sha root quotas w (w\<lparr>sw_memory := m, sw_trace := sw_trace w @ unsent_event x r\<rparr>)"
| finish: "de_now env = sw_clock w \<Longrightarrow> finish_send env c duplicate out (sw_memory w) = (m, a)
    \<Longrightarrow> send_step sha root quotas w (w\<lparr>sw_memory := m\<rparr>)"
| timer: "(due, x) \<in> set (sm_timers (sw_memory w)) \<Longrightarrow> due \<le> sw_clock w
    \<Longrightarrow> send_step sha root quotas w (w\<lparr>sw_memory := run_cleanup x
          ((sw_memory w)\<lparr>sm_timers := remove1 (due, x) (sm_timers (sw_memory w))\<rparr>)\<rparr>)"

definition started :: "int \<Rightarrow> send_world" where
  "started now = \<lparr>sw_clock = now, sw_memory = started_process, sw_trace = []\<rparr>"

section \<open>What an operation does to the memory\<close>

text \<open>
  The effect of an operation at a time, with the events it reports: it may take over later replies from receipts and drop
  one that has expired, remember a reply, open the entry of a content whose entry is gone or has expired, or drop
  the content of a promise after a result that was not sent.
\<close>

inductive memory_effect :: "int \<Rightarrow> send_memory \<Rightarrow> send_event list \<Rightarrow> send_memory \<Rightarrow> bool" for now :: int where
  quiet: "memory_effect now m [] m"
| unsent: "memory_effect now m [Unsent k p] m"
| promised: "map_of (sm_promises m) p = Some y \<Longrightarrow> x \<noteq> Queued \<Longrightarrow> es = [] \<or> es = [Called p] \<and> y = Queued
    \<Longrightarrow> memory_effect now m es (m\<lparr>sm_promises := AList.update p x (sm_promises m)\<rparr>)"
| hydrate: "\<forall>x \<in> set new. rr_id (snd x) = 0
    \<Longrightarrow> memory_effect now m [] (m\<lparr>sm_replies := fold keep_later new (sm_replies m), sm_hydrated := h\<rparr>)"
| expire: "\<forall>x \<in> set new. rr_id (snd x) = 0
    \<Longrightarrow> map_of (fold keep_later new (sm_replies m)) k = Some e \<Longrightarrow> rr_expiresAt e \<le> now
    \<Longrightarrow> memory_effect now m [] (m\<lparr>sm_replies := AList.delete k (fold keep_later new (sm_replies m)), sm_hydrated := h\<rparr>)"
| remember: "rr_id e = sm_next m \<Longrightarrow> rr_expiresAt e = now + reply_window
    \<Longrightarrow> memory_effect now m [] (m\<lparr>sm_replies := AList.update k e (sm_replies m),
          sm_timers := sm_timers m @ [(now + reply_window, ForgetReply k (sm_next m))], sm_next := Suc (sm_next m)\<rparr>)"
| open_content: "(\<And>e. map_of (sm_contents m) k = Some e \<Longrightarrow> rc_expiresAt e \<le> now)
    \<Longrightarrow> memory_effect now m [Opened k (sm_next m) now] (m\<lparr>
          sm_contents := AList.update k \<lparr>rc_promise = sm_next m, rc_expiresAt = now + content_window\<rparr> (AList.delete k (sm_contents m)),
          sm_promises := (sm_next m, Queued) # sm_promises m,
          sm_timers := sm_timers m @ [(now + content_window, ForgetContent k (sm_next m))], sm_next := Suc (sm_next m)\<rparr>)"
| drop: "memory_effect now m [Unsent k p] (run_cleanup (ForgetContent k p) m)"

lemma map_filter_mem: "y \<in> set (List.map_filter f xs) \<longleftrightarrow> (\<exists>x \<in> set xs. f x = Some y)"
  by (induction xs) (auto split: option.splits)

lemma receipt_reply_zero: "reply_of_receipt sha root now c = Some (k, e) \<Longrightarrow> rr_id e = 0"
  by (auto simp: reply_of_receipt_def split: contents.splits if_splits)

lemma set_update: "(k, e) \<in> set (AList.update j f m) \<Longrightarrow> (k, e) \<in> set m \<or> (k, e) = (j, f)"
  by (induction m) (auto split: if_splits)

lemma fold_keep_later_mem: "(k, e) \<in> set (fold keep_later new m) \<Longrightarrow> (k, e) \<in> set m \<or> (k, e) \<in> set new"
proof (induction new arbitrary: m)
  case (Cons x new)
  obtain j f where x: "x = (j, f)" by fastforce
  from Cons.prems have "(k, e) \<in> set (fold keep_later new (keep_later x m))" by simp
  from Cons.IH [OF this] show ?case
  proof
    assume "(k, e) \<in> set (keep_later x m)"
    then have "(k, e) \<in> set m \<or> (k, e) = (j, f)"
      by (simp add: keep_later_def x split: option.splits if_splits) (auto dest: set_update)
    then show ?thesis by (auto simp: x)
  qed simp
qed simp

lemma receipt_replies_zero:
  assumes "(k, e) \<in> set (receipt_replies sha root now fs)"
  shows "rr_id e = 0"
proof -
  from assms obtain f :: durable_file where "reply_of_receipt sha root now (df_contents f) = Some (k, e)"
    unfolding receipt_replies_def by (auto simp: map_filter_mem dest!: fold_keep_later_mem)
  then show ?thesis by (rule receipt_reply_zero)
qed

lemma read_effect:
  assumes "readRecentSuccessfulReply env sha root key fs m = (m', r)"
  shows "memory_effect (de_now env) m [] m'"
proof -
  have taken: "\<exists>new h. m1 = m\<lparr>sm_replies := fold keep_later new (sm_replies m), sm_hydrated := h\<rparr>
      \<and> (\<forall>x \<in> set new. rr_id (snd x) = 0)"
    if "hydrateRecentSuccessfulReplies env 1 sha root fs m = Inr (m1, i)" for m1 i
  proof (cases "root \<in> set (sm_hydrated m)")
    case True
    with that have "m1 = m\<lparr>sm_replies := fold keep_later [] (sm_replies m), sm_hydrated := sm_hydrated m\<rparr>"
      by (simp add: hydrateRecentSuccessfulReplies_def)
    then show ?thesis by fastforce
  next
    case False
    with that have "m1 = m\<lparr>sm_replies := fold keep_later (receipt_replies sha root (de_now env) fs) (sm_replies m),
        sm_hydrated := root # sm_hydrated m\<rparr>"
      by (simp add: hydrateRecentSuccessfulReplies_def Let_def)
    moreover have "\<forall>x \<in> set (receipt_replies sha root (de_now env) fs). rr_id (snd x) = 0"
      using receipt_replies_zero by (metis prod.collapse)
    ultimately show ?thesis by blast
  qed
  have same: "memory_effect (de_now env) m [] m" by (rule memory_effect.quiet)
  show ?thesis
  proof (cases "\<exists>k m1 i. key = Some k \<and> requestAuthority env 0 = Inr () \<and> hydrateRecentSuccessfulReplies env 1 sha root fs m = Inr (m1, i)")
    case True
    then obtain k m1 i where h: "key = Some k" "requestAuthority env 0 = Inr ()"
        "hydrateRecentSuccessfulReplies env 1 sha root fs m = Inr (m1, i)" by blast
    from taken [OF h(3)] obtain new hs where m1: "m1 = m\<lparr>sm_replies := fold keep_later new (sm_replies m), sm_hydrated := hs\<rparr>"
        "\<forall>x \<in> set new. rr_id (snd x) = 0" by blast
    have "memory_effect (de_now env) m [] m1" unfolding m1(1) by (rule memory_effect.hydrate) (rule m1(2))
    moreover have "memory_effect (de_now env) m [] (m1\<lparr>sm_replies := AList.delete k (sm_replies m1)\<rparr>)"
      if "map_of (sm_replies m1) k = Some e" "rr_expiresAt e \<le> de_now env" for e
    proof -
      have eq: "m1\<lparr>sm_replies := AList.delete k (sm_replies m1)\<rparr>
          = m\<lparr>sm_replies := AList.delete k (fold keep_later new (sm_replies m)), sm_hydrated := hs\<rparr>" by (simp add: m1(1))
      show ?thesis unfolding eq by (rule memory_effect.expire [OF m1(2)]) (use that in \<open>simp_all add: m1(1)\<close>)
    qed
    moreover have "m' = m1 \<or> (\<exists>e. map_of (sm_replies m1) k = Some e \<and> rr_expiresAt e \<le> de_now env
        \<and> m' = m1\<lparr>sm_replies := AList.delete k (sm_replies m1)\<rparr>)"
      using assms h by (auto simp: readRecentSuccessfulReply_def split: sum.splits option.splits if_splits)
    ultimately show ?thesis by blast
  next
    case False
    then have "m' = m" using assms
      by (auto simp: readRecentSuccessfulReply_def split: sum.splits option.splits if_splits)
    with same show ?thesis by simp
  qed
qed

lemma execute_effect:
  assumes "executeIdempotentAgentSend env sha root quotas q fs m = (m', r)"
  shows "memory_effect (de_now env) m [] m'"
proof -
  have same: "memory_effect (de_now env) m [] m" by (rule memory_effect.quiet)
  show ?thesis
  proof (cases "send_call_of sha root quotas q")
    case (Inr c)
    obtain m1 x where x: "(if ns_allowAdditionalReply (sc_prepared c) then (m, Inr None)
        else readRecentSuccessfulReply env sha root (sc_replyKey c) fs m) = (m1, x)" by fastforce
    then have "memory_effect (de_now env) m [] m1" using same by (auto dest: read_effect split: if_splits)
    moreover have "m' = m1" using assms
      unfolding executeIdempotentAgentSend_def Inr sum.case x prod.case by (auto split: sum.splits option.splits)
    ultimately show ?thesis by simp
  qed (use assms same in \<open>simp add: executeIdempotentAgentSend_def\<close>)
qed

lemma remember_effect:
  assumes "rememberSuccessfulReply env key i fp v m = (m', r)"
  shows "memory_effect (de_now env) m [] m'"
proof -
  have same: "memory_effect (de_now env) m [] m" by (rule memory_effect.quiet)
  then show ?thesis using assms
    by (auto simp: rememberSuccessfulReply_def split: sum.splits option.splits if_splits intro!: memory_effect.remember)
qed

lemma finish_effect:
  "finish_send env c d out m = (m', r) \<Longrightarrow> memory_effect (de_now env) m [] m'"
  using remember_effect memory_effect.quiet by (fastforce simp: finish_send_def split: durable_outcome.splits prod.splits sum.splits)

lemma begin_effect:
  assumes "coalesce_begin env key m = (m', r)"
  shows "memory_effect (de_now env) m (opened_event (de_now env) r) m'"
proof -
  have same: "memory_effect (de_now env) m [] m" by (rule memory_effect.quiet)
  from assms show ?thesis
    by (auto simp: coalesce_begin_def Let_def split: sum.splits option.splits if_splits
        intro!: memory_effect.quiet memory_effect.open_content)
qed

lemma end_effect:
  assumes "coalesce_end env x r m = (m', a)"
  shows "memory_effect (de_now env) m (unsent_event x r) m'"
proof -
  have same: "memory_effect (de_now env) m (unsent_event x r) m"
    by (cases x; cases r) (auto intro: memory_effect.quiet memory_effect.unsent)
  have "m' = m \<or> (\<exists>k p. unsent_event x r = [Unsent k p] \<and> m' = run_cleanup (ForgetContent k p) m)"
    using assms by (cases x; cases r) (auto simp: coalesce_end_def drop_content_def split: sum.splits if_splits)
  with same memory_effect.drop show ?thesis by metis
qed

text \<open>A step is an effect, a tick or a timer.\<close>

lemma send_step_cases:
  assumes "send_step sha root quotas w w'"
  obtains (effect) es where "memory_effect (sw_clock w) (sw_memory w) es (sw_memory w')" "sw_clock w' = sw_clock w"
      "sw_trace w' = sw_trace w @ es"
    | (tick) "sw_clock w \<le> sw_clock w'" "sw_memory w' = sw_memory w" "sw_trace w' = sw_trace w"
    | (timer) due x where "(due, x) \<in> set (sm_timers (sw_memory w))" "due \<le> sw_clock w" "sw_clock w' = sw_clock w" "sw_trace w' = sw_trace w"
      "sw_memory w' = run_cleanup x ((sw_memory w)\<lparr>sm_timers := remove1 (due, x) (sm_timers (sw_memory w))\<rparr>)"
  using assms
proof cases
  case (tick t)
  with that(2) show ?thesis by simp
next
  case (request env q fs m r)
  with execute_effect [OF request(3)] that(1) [of "[]"] show ?thesis by simp
next
  case (deliver env c m r)
  with begin_effect [of env "sc_contentKey c" "sw_memory w" m r] that(1) show ?thesis by (simp add: deliver_begin_def)
next
  case (start env p)
  have "memory_effect (sw_clock w) (sw_memory w) (called_event env p) (promise_start env p (sw_memory w))"
    unfolding promise_start_def using start(3)
    by (auto simp: called_event_def split: sum.splits intro!: memory_effect.promised)
  with start that(1) show ?thesis by simp
next
  case (settle p r)
  have "memory_effect (sw_clock w) (sw_memory w) [] (promise_end p r (sw_memory w))"
    unfolding promise_end_def using settle(2) by (auto split: sum.splits intro!: memory_effect.promised)
  with settle that(1) [of "[]"] show ?thesis by simp
next
  case (delivered env c x r m a)
  then obtain a' where "coalesce_end env x r (sw_memory w) = (m, a')" by (auto simp: deliver_end_def split: prod.splits)
  from end_effect [OF this] delivered that(1) show ?thesis by simp
next
  case (finish env c duplicate out m a)
  with finish_effect [OF finish(3)] that(1) [of "[]"] show ?thesis by simp
next
  case (timer due x)
  with that(3) show ?thesis by simp
qed

section \<open>Identities and timers\<close>

text \<open>No timer refers to an entry that does not exist yet.\<close>

definition numbered :: "send_memory \<Rightarrow> bool" where
  "numbered m \<longleftrightarrow> 1 \<le> sm_next m
     \<and> (\<forall>due k i. (due, ForgetReply k i) \<in> set (sm_timers m) \<longrightarrow> 1 \<le> i \<and> i < sm_next m)
     \<and> (\<forall>due k p. (due, ForgetContent k p) \<in> set (sm_timers m) \<longrightarrow> p < sm_next m)"

lemma fire_fields [simp]: "sm_timers (run_cleanup x m) = sm_timers m" "sm_next (run_cleanup x m) = sm_next m"
    "sm_promises (run_cleanup x m) = sm_promises m"
  by (auto simp: run_cleanup_def split: cleanup.splits option.splits)

lemma fire_content: "sm_replies (run_cleanup (ForgetContent k p) m) = sm_replies m"
  by (auto simp: run_cleanup_def split: option.splits)

lemma numbered_effect: "memory_effect now m es m' \<Longrightarrow> numbered m \<Longrightarrow> numbered m'"
  by (induction rule: memory_effect.induct) (auto simp: numbered_def less_Suc_eq)

lemma numbered_step: "send_step sha root quotas w w' \<Longrightarrow> numbered (sw_memory w) \<Longrightarrow> numbered (sw_memory w')"
  by (erule send_step_cases)
    (auto simp: numbered_effect, auto simp: numbered_def dest: set_remove1_subset [THEN subsetD])

lemma clock_step: "send_step sha root quotas w w' \<Longrightarrow> sw_clock w \<le> sw_clock w'"
  by (erule send_step_cases) auto

lemma clock_steps: "(send_step sha root quotas)\<^sup>*\<^sup>* w w' \<Longrightarrow> sw_clock w \<le> sw_clock w'"
  by (induction rule: rtranclp_induct) (auto dest: clock_step)

lemma numbered_steps: "(send_step sha root quotas)\<^sup>*\<^sup>* w w' \<Longrightarrow> numbered (sw_memory w) \<Longrightarrow> numbered (sw_memory w')"
  by (induction rule: rtranclp_induct) (auto dest: numbered_step)

lemma numbered_started: "numbered (sw_memory (started now))"
  by (simp add: numbered_def started_def started_process_def)

section \<open>One reply to a quoted message\<close>

text \<open>Until a time, the entry of a quoted message is there and no timer removes it.\<close>

definition reply_guard :: "string \<Rightarrow> int \<Rightarrow> send_memory \<Rightarrow> bool" where
  "reply_guard k until m \<longleftrightarrow> numbered m \<and> (\<exists>e. map_of (sm_replies m) k = Some e \<and> until \<le> rr_expiresAt e
     \<and> (\<forall>due. (due, ForgetReply k (rr_id e)) \<in> set (sm_timers m) \<longrightarrow> until \<le> due))"

lemma keep_later_kept:
  assumes "map_of m k = Some e"
  shows "\<exists>e'. map_of (keep_later x m) k = Some e' \<and> (e' = e \<or> rr_expiresAt e < rr_expiresAt e' \<and> (k, e') = x)"
  using assms by (cases x) (auto simp: keep_later_def update_conv' split: option.splits)

lemma fold_keep_later_kept:
  assumes "map_of m k = Some e" "\<forall>x \<in> set new. rr_id (snd x) = 0"
  shows "\<exists>e'. map_of (fold keep_later new m) k = Some e' \<and> (e' = e \<or> rr_expiresAt e \<le> rr_expiresAt e' \<and> rr_id e' = 0)"
  using assms
proof (induction new arbitrary: m e)
  case (Cons x new)
  from keep_later_kept [OF Cons.prems(1), of x] obtain e1 where e1: "map_of (keep_later x m) k = Some e1"
      "e1 = e \<or> rr_expiresAt e < rr_expiresAt e1 \<and> (k, e1) = x" by blast
  from e1(2) Cons.prems(2) have id: "e1 = e \<or> rr_expiresAt e \<le> rr_expiresAt e1 \<and> rr_id e1 = 0" by auto
  from Cons.IH [OF e1(1)] Cons.prems(2) obtain e' where "map_of (fold keep_later new (keep_later x m)) k = Some e'"
      "e' = e1 \<or> rr_expiresAt e1 \<le> rr_expiresAt e' \<and> rr_id e' = 0" by auto
  with id show ?case by fastforce
qed simp

lemma guard_hydrated:
  assumes "reply_guard k until m" "\<forall>x \<in> set new. rr_id (snd x) = 0"
  shows "reply_guard k until (m\<lparr>sm_replies := fold keep_later new (sm_replies m), sm_hydrated := h\<rparr>)"
proof -
  from assms(1) obtain e where e: "map_of (sm_replies m) k = Some e" "until \<le> rr_expiresAt e" "numbered m"
      "\<And>due. (due, ForgetReply k (rr_id e)) \<in> set (sm_timers m) \<Longrightarrow> until \<le> due" by (auto simp: reply_guard_def)
  from fold_keep_later_kept [of "sm_replies m" k e new, OF e(1) assms(2)] obtain e' where e': "map_of (fold keep_later new (sm_replies m)) k = Some e'"
      "e' = e \<or> rr_expiresAt e \<le> rr_expiresAt e' \<and> rr_id e' = 0" by auto
  from e(3) have "(due, ForgetReply k 0) \<notin> set (sm_timers m)" for due by (auto simp: numbered_def)
  with e e' show ?thesis by (auto simp: reply_guard_def numbered_def)
qed

lemma guard_effect:
  assumes "memory_effect now m es m'" "reply_guard k until m" "now < until" "until \<le> now + reply_window"
  shows "reply_guard k until m'"
  using assms(1)
proof cases
  case (promised p y x)
  with assms(2) show ?thesis by (simp add: reply_guard_def numbered_def)
next
  case (hydrate new h)
  with guard_hydrated [OF assms(2)] show ?thesis by blast
next
  case (expire new j e h)
  let ?m = "m\<lparr>sm_replies := fold keep_later new (sm_replies m), sm_hydrated := h\<rparr>"
  from guard_hydrated [OF assms(2) expire(3)] have g: "reply_guard k until ?m" .
  then have "j \<noteq> k" using expire(4,5) assms(3) by (auto simp: reply_guard_def)
  with g show ?thesis by (simp add: expire(2) reply_guard_def numbered_def delete_conv')
next
  case (remember e j)
  have no: "numbered m'" using numbered_effect [OF assms(1)] assms(2) by (simp add: reply_guard_def)
  show ?thesis
  proof (cases "j = k")
    case True
    from assms(2) have "(due, ForgetReply k (sm_next m)) \<notin> set (sm_timers m)" for due
      by (auto simp: reply_guard_def numbered_def)
    with True remember no assms(4) show ?thesis by (auto simp: reply_guard_def update_conv')
  next
    case False
    with remember no assms(2) show ?thesis by (auto simp: reply_guard_def update_conv')
  qed
next
  case (open_content j)
  with numbered_effect [OF assms(1)] assms(2) show ?thesis by (auto simp: reply_guard_def)
next
  case (drop j p)
  with numbered_effect [OF assms(1)] assms(2) show ?thesis by (auto simp: reply_guard_def fire_content)
qed (use assms(2) in simp_all)

lemma guard_step:
  assumes "send_step sha root quotas w w'" "reply_guard k until (sw_memory w)" "sw_clock w < until" "until \<le> sw_clock w + reply_window"
  shows "reply_guard k until (sw_memory w')"
  using assms(1)
proof (cases rule: send_step_cases)
  case (effect es)
  then show ?thesis using guard_effect assms(2-4) by blast
next
  case tick
  with assms(2) show ?thesis by simp
next
  case (timer due x)
  let ?m = "(sw_memory w)\<lparr>sm_timers := remove1 (due, x) (sm_timers (sw_memory w))\<rparr>"
  have sub: "set (sm_timers ?m) \<subseteq> set (sm_timers (sw_memory w))" by (simp add: set_remove1_subset)
  have g: "reply_guard k until ?m"
    using assms(2) sub unfolding reply_guard_def numbered_def by (simp add: subset_iff) blast
  from assms(2) obtain e where e: "map_of (sm_replies (sw_memory w)) k = Some e"
      "\<And>due. (due, ForgetReply k (rr_id e)) \<in> set (sm_timers (sw_memory w)) \<Longrightarrow> until \<le> due" by (auto simp: reply_guard_def)
  have "sm_replies (run_cleanup x ?m) = sm_replies ?m \<or> (\<exists>j. j \<noteq> k \<and> sm_replies (run_cleanup x ?m) = AList.delete j (sm_replies ?m))"
  proof (cases x)
    case (ForgetReply j i)
    have "j \<noteq> k \<or> i \<noteq> rr_id e" using e(2) [of due] timer(1,2) assms(3) ForgetReply by auto
    moreover have "sm_replies (run_cleanup x ?m) = sm_replies ?m \<or> sm_replies (run_cleanup x ?m) = AList.delete j (sm_replies ?m)"
      by (auto simp: run_cleanup_def ForgetReply split: option.splits)
    moreover have "sm_replies (run_cleanup x ?m) = sm_replies ?m" if "j = k" "i \<noteq> rr_id e"
      using e(1) that by (simp add: run_cleanup_def ForgetReply)
    ultimately show ?thesis by blast
  qed (simp add: fire_content)
  with g show ?thesis unfolding timer(5)
    by (auto simp: reply_guard_def numbered_def delete_conv')
qed

lemma guard_steps:
  assumes "(send_step sha root quotas)\<^sup>*\<^sup>* w w'" "reply_guard k until (sw_memory w)" "sw_clock w' < until"
    and "until \<le> sw_clock w + reply_window"
  shows "reply_guard k until (sw_memory w')"
  using assms
proof (induction rule: rtranclp_induct)
  case (step u v)
  from clock_step [OF step.hyps(2)] clock_steps [OF step.hyps(1)] step.prems step.IH show ?case
    using guard_step [OF step.hyps(2)] by simp
qed

text \<open>A remembered reply is guarded from then on.\<close>

lemma remembered_guard:
  assumes "numbered m" "finish_send env c d (CompletedOutcome e v) m = (m', Inr a)" "sc_replyKey c = Some k"
    and "jget v ''status'' = JStr ''sent''"
  shows "reply_guard k (de_now env + reply_window) m'"
proof -
  obtain b where rem: "rememberSuccessfulReply env (sc_replyKey c) (sc_deliveryId c) (sc_fingerprint c) v m = (m', Inr b)"
    using assms(2) by (auto simp: finish_send_def split: prod.splits sum.splits)
  have no: "numbered m'" using numbered_effect [OF remember_effect [OF rem] assms(1)] .
  have "requestAuthority env 0 = Inr ()" using rem by (auto simp: rememberSuccessfulReply_def split: sum.splits)
  with rem assms(3,4) have m': "sm_replies m' = AList.update k \<lparr>rr_id = sm_next m, rr_deliveryId = sc_deliveryId c,
        rr_fingerprint = sc_fingerprint c, rr_result = v, rr_expiresAt = de_now env + reply_window\<rparr> (sm_replies m)"
      "sm_timers m' = sm_timers m @ [(de_now env + reply_window, ForgetReply k (sm_next m))]"
    by (auto simp: rememberSuccessfulReply_def)
  moreover have "(due, ForgetReply k (sm_next m)) \<notin> set (sm_timers m)" for due
    using assms(1) by (auto simp: numbered_def)
  ultimately show ?thesis using no by (auto simp: reply_guard_def update_conv')
qed

lemma guarded_requests_answered:
  assumes "reply_guard k until m" "de_now env < until" "until \<le> de_now env + reply_window"
    and c: "send_call_of sha root quotas q = Inr c" "sc_replyKey c = Some k" "\<not> ns_allowAdditionalReply (sc_prepared c)"
    and auth: "de_revoked env = None"
  shows "\<exists>m' r. map_of (sm_replies m') k = Some r \<and> executeIdempotentAgentSend env sha root quotas q fs m = (m', Inr (Answered
      (if rr_fingerprint r = sc_fingerprint c then completedResponse (sc_deliveryId c) (labelled c (rr_result r)) True
       else nonTerminalResponse (sc_deliveryId c) ''conflict'' (second_reply (rr_deliveryId r)) 409 True)))"
proof -
  have ok: "requestAuthority env i = Inr ()" for i using auth by (simp add: requestAuthority_def)
  obtain m' x where read: "readRecentSuccessfulReply env sha root (Some k) fs m = (m', x)" by fastforce
  from guard_effect [OF read_effect [OF read] assms(1-3)] obtain r where
    r: "map_of (sm_replies m') k = Some r" "until \<le> rr_expiresAt r" by (auto simp: reply_guard_def)
  from read r assms(2) have "x = Inr (Some r)"
    by (auto simp: readRecentSuccessfulReply_def ok delete_conv' hydrateRecentSuccessfulReplies_def Let_def
        split: sum.splits option.splits if_splits)
  with r(1) show ?thesis using c read by (simp add: executeIdempotentAgentSend_def)
qed

lemma revoked_requests_stop:
  assumes "sc_replyKey c = Some k" "send_call_of sha root quotas q = Inr c" "\<not> ns_allowAdditionalReply (sc_prepared c)"
    and "reply_guard k until m" "de_now env < until" "until \<le> de_now env + reply_window"
  shows "executeIdempotentAgentSend env sha root quotas q fs m \<noteq> (m', Inr (Proceeding c' payload))"
proof
  assume p: "executeIdempotentAgentSend env sha root quotas q fs m = (m', Inr (Proceeding c' payload))"
  obtain m1 x where read: "readRecentSuccessfulReply env sha root (Some k) fs m = (m1, x)" by fastforce
  from p read assms(1-3) have x: "x = Inr None"
    by (auto simp: executeIdempotentAgentSend_def split: sum.splits option.splits)
  from guard_effect [OF read_effect [OF read] assms(4-6)] obtain r where
    "map_of (sm_replies m1) k = Some r" "until \<le> rr_expiresAt r" by (auto simp: reply_guard_def)
  with read x assms(5) show False
    by (auto simp: readRecentSuccessfulReply_def delete_conv' split: sum.splits option.splits if_splits)
qed

text \<open>C15: A quoted group message is answered once in ten minutes. When a process has completed a send that answers a quoted
  message, then whatever its other requests, deliveries, timers and receipt files do, until ten minutes later
  no request that answers the same message reaches the delivery, unless it asks for an additional reply. It is
  answered at once: with the recorded result when its content is the one that was sent, and with a conflict otherwise; a
  request whose authority is revoked meanwhile gets an error.\<close>

theorem quoted_messages_are_answered_once:
  assumes "(send_step sha root quotas)\<^sup>*\<^sup>* (started now) w" "de_now env = sw_clock w"
    and "finish_send env c d (CompletedOutcome e v) (sw_memory w) = (m, Inr a)"
    and "sc_replyKey c = Some k" "jget v ''status'' = JStr ''sent''"
    and "(send_step sha root quotas)\<^sup>*\<^sup>* (w\<lparr>sw_memory := m\<rparr>) w'" "de_now env' = sw_clock w'"
    and "sw_clock w' < sw_clock w + reply_window"
    and "send_call_of sha root quotas q = Inr c'" "sc_replyKey c' = Some k" "\<not> ns_allowAdditionalReply (sc_prepared c')"
  shows "(\<forall>m' c'' payload. executeIdempotentAgentSend env' sha root quotas q fs (sw_memory w') \<noteq> (m', Inr (Proceeding c'' payload)))
    \<and> (de_revoked env' = None \<longrightarrow> (\<exists>m' r. map_of (sm_replies m') k = Some r
      \<and> executeIdempotentAgentSend env' sha root quotas q fs (sw_memory w') = (m', Inr (Answered
        (if rr_fingerprint r = sc_fingerprint c' then completedResponse (sc_deliveryId c') (labelled c' (rr_result r)) True
         else nonTerminalResponse (sc_deliveryId c') ''conflict'' (second_reply (rr_deliveryId r)) 409 True)))))"
proof -
  let ?until = "sw_clock w + reply_window"
  have "reply_guard k ?until m"
    using remembered_guard [OF numbered_steps [OF assms(1) numbered_started] assms(3-5)] assms(2) by simp
  then have g: "reply_guard k ?until (sw_memory w')"
    using guard_steps [OF assms(6)] assms(8) by simp
  have now: "de_now env' < ?until" "?until \<le> de_now env' + reply_window"
    using clock_steps [OF assms(6)] assms(7,8) by simp_all
  show ?thesis
  proof (intro conjI allI impI)
    show "executeIdempotentAgentSend env' sha root quotas q fs (sw_memory w') \<noteq> (m', Inr (Proceeding c'' payload))"
      for m' c'' payload by (rule revoked_requests_stop [OF assms(10,9,11) g now])
  qed (rule guarded_requests_answered [OF g now assms(9-11)])
qed

section \<open>One delivery of a content\<close>

text \<open>Until a time, a new delivery of a content would join the one that is remembered; or the time has passed.\<close>

definition content_guard :: "string \<Rightarrow> int \<Rightarrow> send_world \<Rightarrow> bool" where
  "content_guard k until w \<longleftrightarrow> numbered (sw_memory w) \<and> (until \<le> sw_clock w
     \<or> (\<exists>e. map_of (sm_contents (sw_memory w)) k = Some e \<and> until \<le> rc_expiresAt e
       \<and> (\<forall>due. (due, ForgetContent k (rc_promise e)) \<in> set (sm_timers (sw_memory w)) \<longrightarrow> until \<le> due)))"

lemma fire_reply: "sm_contents (run_cleanup (ForgetReply k i) m) = sm_contents m"
  by (auto simp: run_cleanup_def split: option.splits)

lemma content_guard_opens:
  assumes "content_guard k until w" "send_step sha root quotas w w'" "Opened k p t \<in> set es" "sw_trace w' = sw_trace w @ es"
  shows "until \<le> t"
  using assms(2)
proof (cases rule: send_step_cases)
  case (effect es')
  with assms(3,4) have "memory_effect (sw_clock w) (sw_memory w) es (sw_memory w')" "Opened k p t \<in> set es" by simp_all
  then have "t = sw_clock w" "\<And>e. map_of (sm_contents (sw_memory w)) k = Some e \<Longrightarrow> rc_expiresAt e \<le> sw_clock w"
    by (cases; auto)+
  with assms(1) show ?thesis by (fastforce simp: content_guard_def)
qed (use assms(3,4) in simp_all)

lemma content_guard_step:
  assumes "content_guard k until w" "send_step sha root quotas w w'" "sw_trace w' = sw_trace w @ es"
    and no: "\<And>p. Unsent k p \<notin> set es"
  shows "content_guard k until w'"
proof -
  have num: "numbered (sw_memory w')" using numbered_step [OF assms(2)] assms(1) by (simp add: content_guard_def)
  from assms(1) consider "until \<le> sw_clock w"
    | e where "map_of (sm_contents (sw_memory w)) k = Some e" "until \<le> rc_expiresAt e" "\<not> until \<le> sw_clock w"
      "\<And>due. (due, ForgetContent k (rc_promise e)) \<in> set (sm_timers (sw_memory w)) \<Longrightarrow> until \<le> due"
    by (auto simp: content_guard_def)
  then show ?thesis
  proof cases
    case 1
    with clock_step [OF assms(2)] num show ?thesis by (simp add: content_guard_def)
  next
    case (2 e)
    from assms(2) show ?thesis
    proof (cases rule: send_step_cases)
      case (effect es')
      with assms(3) have "memory_effect (sw_clock w) (sw_memory w) es (sw_memory w')" by simp
      then have "map_of (sm_contents (sw_memory w')) k = Some e
          \<and> (\<forall>due. (due, ForgetContent k (rc_promise e)) \<in> set (sm_timers (sw_memory w')) \<longrightarrow> until \<le> due)"
      proof cases
        case (open_content j)
        with 2(1-3) have "j \<noteq> k" by force
        with open_content 2 show ?thesis by (auto simp: update_conv' delete_conv')
      next
        case (drop j p)
        with no have "j \<noteq> k" by auto
        with drop 2 show ?thesis by (auto simp: run_cleanup_def delete_conv' split: option.splits)
      qed (use 2 in auto)
      with 2(2) num show ?thesis by (auto simp: content_guard_def)
    next
      case tick
      with 2 num show ?thesis by (auto simp: content_guard_def)
    next
      case (timer due x)
      let ?m = "(sw_memory w)\<lparr>sm_timers := remove1 (due, x) (sm_timers (sw_memory w))\<rparr>"
      have ne: "x \<noteq> ForgetContent k (rc_promise e)" using 2(3,4) timer(1,2) by fastforce
      have "map_of (sm_contents (sw_memory w')) k = Some e"
      proof (cases x)
        case (ForgetContent j p)
        with ne 2(1) show ?thesis unfolding timer(5) by (auto simp: run_cleanup_def delete_conv' split: option.splits)
      qed (use 2(1) in \<open>simp add: timer(5) fire_reply\<close>)
      moreover have "set (sm_timers (sw_memory w')) \<subseteq> set (sm_timers (sw_memory w))"
        by (simp add: timer(5) set_remove1_subset)
      ultimately show ?thesis using 2(2,4) num by (auto simp: content_guard_def)
    qed
  qed
qed

lemma opened_guard:
  assumes "send_step sha root quotas w w'" "numbered (sw_memory w)" "sw_trace w' = sw_trace w @ [Opened k p t]"
  shows "content_guard k (t + content_window) w'"
  using assms(1)
proof (cases rule: send_step_cases)
  case (effect es)
  with assms(3) have "memory_effect (sw_clock w) (sw_memory w) [Opened k p t] (sw_memory w')" by simp
  then show ?thesis
  proof cases
    case open_content
    moreover from assms(2) have "(due, ForgetContent k (sm_next (sw_memory w))) \<notin> set (sm_timers (sw_memory w))" for due
      unfolding numbered_def by blast
    ultimately show ?thesis using numbered_step [OF assms(1,2)] by (auto simp: content_guard_def update_conv')
  qed auto
qed (use assms(3) in simp_all)

lemma step_trace:
  assumes "send_step sha root quotas w w'"
  shows "sw_trace w' = sw_trace w \<or> (\<exists>e. sw_trace w' = sw_trace w @ [e])"
  using assms
proof (cases rule: send_step_cases)
  case (effect es)
  from effect(1) have "es = [] \<or> (\<exists>e. es = [e])" by cases auto
  with effect(3) show ?thesis by auto
qed simp_all

text \<open>What holds after an opening, as long as every result of the content was sent.\<close>

lemma openings_apart:
  assumes "(send_step sha root quotas)\<^sup>*\<^sup>* (started now) w"
    and "sw_trace w = xs @ Opened k p t # ys" "\<forall>q. Unsent k q \<notin> set ys"
  shows "content_guard k (t + content_window) w \<and> (\<forall>p' t'. Opened k p' t' \<in> set ys \<longrightarrow> t + content_window \<le> t')"
  using assms
proof (induction arbitrary: ys rule: rtranclp_induct)
  case base
  then show ?case by (simp add: started_def)
next
  case (step u v)
  have num: "numbered (sw_memory u)" using numbered_steps [OF step.hyps(1) numbered_started] .
  from step_trace [OF step.hyps(2)] show ?case
  proof
    assume "sw_trace v = sw_trace u"
    with step.IH [of ys] step.prems content_guard_step [OF _ step.hyps(2), of k _ "[]"] show ?thesis by simp
  next
    assume "\<exists>e. sw_trace v = sw_trace u @ [e]"
    then obtain ev where ev: "sw_trace v = sw_trace u @ [ev]" by blast
    show ?thesis
    proof (cases ys rule: rev_cases)
      case Nil
      with ev step.prems(1) have "ev = Opened k p t" by simp
      with Nil opened_guard [OF step.hyps(2) num] ev show ?thesis by simp
    next
      case (snoc zs x)
      with ev step.prems(1) have u: "sw_trace u = xs @ Opened k p t # zs" "x = ev" by auto
      from step.IH [OF u(1)] step.prems(2) snoc have ih: "content_guard k (t + content_window) u"
          "\<forall>p' t'. Opened k p' t' \<in> set zs \<longrightarrow> t + content_window \<le> t'" by auto
      have "\<And>q. Unsent k q \<notin> set [ev]" using step.prems(2) snoc u(2) by simp
      from content_guard_step [OF ih(1) step.hyps(2) ev this] ih(2) content_guard_opens [OF ih(1) step.hyps(2) _ ev] snoc u(2)
      show ?thesis by auto
    qed
  qed
qed

lemma trace_prefix:
  assumes "(send_step sha root quotas)\<^sup>*\<^sup>* (started now) w" "sw_trace w = a @ b"
  shows "\<exists>u. (send_step sha root quotas)\<^sup>*\<^sup>* (started now) u \<and> sw_trace u = a"
  using assms
proof (induction arbitrary: b rule: rtranclp_induct)
  case base
  then show ?case by (auto simp: started_def intro!: exI [of _ "started now"])
next
  case (step u v)
  show ?case
  proof (cases b rule: rev_cases)
    case Nil
    with step show ?thesis by (metis append_Nil2 rtranclp.rtrancl_into_rtrancl)
  next
    case (snoc c x)
    with step_trace [OF step.hyps(2)] step.prems have "sw_trace u = a @ b \<or> sw_trace u = a @ c" by auto
    with step.IH show ?thesis by blast
  qed
qed

text \<open>Promises call once, and only after they were opened.\<close>

definition promises_ok :: "send_world \<Rightarrow> bool" where
  "promises_ok w \<longleftrightarrow> (\<forall>p x. map_of (sm_promises (sw_memory w)) p = Some x
        \<longrightarrow> p < sm_next (sw_memory w) \<and> (\<exists>k t. Opened k p t \<in> set (sw_trace w)))
     \<and> (\<forall>p. Called p \<in> set (sw_trace w) \<longrightarrow> (\<exists>x. map_of (sm_promises (sw_memory w)) p = Some x \<and> x \<noteq> Queued))
     \<and> (\<forall>k p t. Opened k p t \<in> set (sw_trace w) \<longrightarrow> p < sm_next (sw_memory w))
     \<and> (\<forall>p. count_list (sw_trace w) (Called p) \<le> 1)"

lemma promises_started: "promises_ok (started now)"
  by (simp add: promises_ok_def started_def started_process_def)

lemma promises_step:
  assumes "send_step sha root quotas w w'" "promises_ok w"
  shows "promises_ok w'"
  using assms(1)
proof (cases rule: send_step_cases)
  case (effect es)
  from effect(1) show ?thesis
  proof cases
    case (promised p y x)
    then have new: "sm_promises (sw_memory w') = AList.update p x (sm_promises (sw_memory w))"
        "sm_next (sw_memory w') = sm_next (sw_memory w)" by simp_all
    show ?thesis
    proof (cases "es = []")
      case True
      with effect(3) new promised(2-4) assms(2) show ?thesis by (auto simp: promises_ok_def update_conv')
    next
      case False
      with promised have es: "es = [Called p]" "map_of (sm_promises (sw_memory w)) p = Some Queued" by auto
      then have "Called p \<notin> set (sw_trace w)" using assms(2) by (auto simp: promises_ok_def)
      then have "count_list (sw_trace w) (Called p) = 0" by (simp add: count_list_0_iff)
      with es effect(3) new promised(3) assms(2) show ?thesis
        by (auto simp: promises_ok_def update_conv')
    qed
  next
    case (open_content k)
    have "Called (sm_next (sw_memory w)) \<notin> set (sw_trace w)" using assms(2) unfolding promises_ok_def by blast
    with open_content effect(3) assms(2) show ?thesis by (auto simp: promises_ok_def less_Suc_eq)
  qed (use effect(3) assms(2) in \<open>auto simp: promises_ok_def less_Suc_eq\<close>)
qed (use assms(2) in \<open>simp_all add: promises_ok_def\<close>)

lemma promises_steps: "(send_step sha root quotas)\<^sup>*\<^sup>* (started now) w \<Longrightarrow> promises_ok w"
  by (induction rule: rtranclp_induct) (auto simp: promises_started dest: promises_step)

text \<open>C16: The content of a reviewer is handed over once in two minutes. Every call of the delivery of a content is made by
  a promise that was opened for it, at most once by each promise. And when two promises are opened for the same content, over
  the same route to the same target, then the later one is opened at least two minutes after the earlier, or in between
  a delivery of that content ended without having sent it. All other deliveries of the content share the promise
  of the one before, whatever the order in which requests, deliveries, timers and revocations interleave.\<close>

theorem equal_contents_are_sent_once:
  assumes "(send_step sha root quotas)\<^sup>*\<^sup>* (started now) w"
  shows "(\<forall>p. Called p \<in> set (sw_trace w) \<longrightarrow> (\<exists>k t. Opened k p t \<in> set (sw_trace w)))
    \<and> (\<forall>p. count_list (sw_trace w) (Called p) \<le> 1)
    \<and> (\<forall>xs ys zs k p t p' t'. sw_trace w = xs @ Opened k p t # ys @ Opened k p' t' # zs
        \<longrightarrow> t + content_window \<le> t' \<or> (\<exists>q. Unsent k q \<in> set ys))"
proof (intro conjI allI impI)
  from promises_steps [OF assms] have ok: "promises_ok w" .
  show "\<exists>k t. Opened k p t \<in> set (sw_trace w)" if "Called p \<in> set (sw_trace w)" for p
    using ok that unfolding promises_ok_def by blast
  show "count_list (sw_trace w) (Called p) \<le> 1" for p
    using ok by (simp add: promises_ok_def)
  fix xs ys zs k p t p' t'
  assume "sw_trace w = xs @ Opened k p t # ys @ Opened k p' t' # zs"
  then have "sw_trace w = (xs @ Opened k p t # ys @ [Opened k p' t']) @ zs" by simp
  from trace_prefix [OF assms this] obtain u where u: "(send_step sha root quotas)\<^sup>*\<^sup>* (started now) u"
      "sw_trace u = xs @ Opened k p t # ys @ [Opened k p' t']" by blast
  show "t + content_window \<le> t' \<or> (\<exists>q. Unsent k q \<in> set ys)"
  proof (cases "\<exists>q. Unsent k q \<in> set ys")
    case False
    with openings_apart [OF u(1), of xs k p t "ys @ [Opened k p' t']"] u(2) show ?thesis by simp
  qed simp
qed

section \<open>After a restart\<close>

lemma jget_reloaded:
  assumes "distinct (map fst fs)"
  shows "jget (json_reload (JObj fs)) k = (if jget (JObj fs) k = JUndef then JUndef else json_reload (jget (JObj fs) k))"
  using assms
proof (induction fs)
  case (Cons x fs)
  obtain j v where x: "x = (j, v)" by fastforce
  show ?case
  proof (cases "j = k \<and> v = JUndef")
    case True
    with Cons.prems x have "map_of fs k = None" by (auto simp: map_of_eq_None_iff)
    moreover from this have "map_of (map (\<lambda>(k, v). (k, json_reload v)) (filter (\<lambda>(k, v). v \<noteq> JUndef) fs)) k = None"
      by (force simp: map_of_eq_None_iff)
    ultimately show ?thesis using True x by simp
  next
    case False
    with Cons x show ?thesis by auto
  qed
qed simp

text \<open>What a process would remember of its reply is found again under the same key in the receipt.\<close>

lemma distinct_assign: "distinct (map fst fs) \<Longrightarrow> distinct (map fst (assign fs gs))"
proof (induction gs arbitrary: fs)
  case (Cons g gs)
  then show ?case by (cases g) (simp add: distinct_update)
qed (simp add: assign_def)

lemma napcat_target_values:
  assumes "prepareAgentSendRequest quotas q = Inr n" "ns_channel n = ''napcat''"
  shows "\<exists>kind g u i r. ns_target n = [(''target'', JStr kind), (''groupId'', opt_str g), (''userId'', opt_str u),
    (''instanceId'', opt_str i), (''replyToMessageId'', opt_str r)]"
proof -
  from assms obtain h params p where h: "channel_target (sh_channel h) params (sh_sender h) = Inr p" "n = normalized_of h p"
    by (auto simp: prepareAgentSendRequest_def normalizeAgentSend_def)
  with assms(2) have "napcat_target params (sh_sender h) = Inr p" by (simp add: normalized_of_def channel_target_def)
  then show ?thesis by (rule napcat_target_shape) (auto simp: h(2) normalized_of_def)
qed

lemma route_trimmed:
  assumes "prepareAgentSendRequest quotas q = Inr n"
  shows "text_of (JStr (ns_routeId n)) = ns_routeId n" "ns_routeId n \<noteq> []"
proof -
  from assms obtain h p where h: "send_head_of quotas q = Inr h" "n = normalized_of h p"
    by (auto simp: prepareAgentSendRequest_def normalizeAgentSend_def)
  from send_head_ok(2) [OF h(1)] show "text_of (JStr (ns_routeId n)) = ns_routeId n" "ns_routeId n \<noteq> []"
    by (auto simp: h(2) normalized_of_def text_ok_def text_of_def nullish_def)
qed

lemma jget_labelled:
  "jget (labelled c v) ''channel'' = JStr (ns_channel (sc_prepared c))"
  "jget (labelled c v) ''routeId'' = JStr (ns_routeId (sc_prepared c))"
  "jget (labelled c v) ''target'' = JObj (ns_target (sc_prepared c))"
  "jget (labelled c v) ''status'' = jget (JObj (own_fields v)) ''status''"
  unfolding labelled_def Let_def jget_assign by simp_all

lemma key_of_receipt:
  assumes "send_call_of sha root quotas q = Inr c" "sc_replyKey c = Some k" "distinct (map fst (own_fields v))"
  shows "recentReplyTargetKeyFromResult sha root (json_reload (labelled c v)) = Some k"
proof -
  let ?n = "sc_prepared c"
  from assms(1) have n: "prepareAgentSendRequest quotas q = Inr ?n" "sc_replyKey c = recentReplyTargetKey sha root ?n"
    by (auto simp: send_call_of_def)
  with assms(2) have chan: "ns_channel ?n = ''napcat''"
    by (auto simp: recentReplyTargetKey_def Let_def split: if_splits)
  from napcat_target_values [OF n(1) this] obtain kind g u i r where
    t: "ns_target ?n = [(''target'', JStr kind), (''groupId'', opt_str g), (''userId'', opt_str u),
      (''instanceId'', opt_str i), (''replyToMessageId'', opt_str r)]" by blast
  have get: "jget (json_reload (labelled c v)) f = (if jget (labelled c v) f = JUndef then JUndef else json_reload (jget (labelled c v) f))" for f
    unfolding labelled_def Let_def by (rule jget_reloaded) (rule distinct_assign [OF assms(3)])
  have opt: "json_reload (opt_str x) = opt_str x" for x by (cases x) auto
  have "distinct (map fst (ns_target ?n))" by (simp add: t)
  from jget_reloaded [OF this] have target:
    "jget (json_reload (JObj (ns_target ?n))) f = (if jget (JObj (ns_target ?n)) f = JUndef then JUndef
       else json_reload (jget (JObj (ns_target ?n)) f))" for f .
  have "text_of (jget (json_reload (JObj (ns_target ?n))) f) = text_of (jget (JObj (ns_target ?n)) f)"
    if "f = ''groupId'' \<or> f = ''replyToMessageId''" for f
    using that unfolding target by (auto simp: t opt)
  moreover have "jget (json_reload (JObj (ns_target ?n))) ''target'' = jget (JObj (ns_target ?n)) ''target''"
    unfolding target by (simp add: t)
  ultimately show ?thesis
    using assms(2) route_trimmed [OF n(1)] chan unfolding n(2)
    by (simp add: recentReplyTargetKey_def recentReplyTargetKeyFromResult_def Let_def get jget_labelled
        del: json_reload.simps(3) jget.simps split: if_splits) 
qed

lemma keep_later_taken:
  "\<exists>e'. map_of (keep_later (k, e) m) k = Some e' \<and> rr_expiresAt e \<le> rr_expiresAt e'"
  by (auto simp: keep_later_def update_conv' split: option.splits)

lemma fold_keep_later_taken:
  "(k, e) \<in> set new \<Longrightarrow> \<exists>e'. map_of (fold keep_later new m) k = Some e' \<and> rr_expiresAt e \<le> rr_expiresAt e'"
proof (induction new arbitrary: m)
  case (Cons x new)
  show ?case
  proof (cases "x = (k, e)")
    case True
    obtain e1 where e1: "map_of (keep_later x m) k = Some e1" "rr_expiresAt e \<le> rr_expiresAt e1"
      using keep_later_taken [of k e m] True by blast
    have rel: "\<exists>e'. map_of (fold keep_later xs n) k = Some e' \<and> rr_expiresAt a \<le> rr_expiresAt e'"
      if "map_of n k = Some a" for xs n a
      using that
    proof (induction xs arbitrary: n a)
      case (Cons y ys)
      from keep_later_kept [OF Cons.prems, of y] obtain b where "map_of (keep_later y n) k = Some b" "rr_expiresAt a \<le> rr_expiresAt b"
        by fastforce
      with Cons.IH [of "keep_later y n" b] show ?case by fastforce
    qed simp
    from rel [OF e1(1)] e1(2) show ?thesis by fastforce
  next
    case False
    with Cons show ?thesis by simp
  qed
qed simp

lemma receipt_reply_blank: "reply_of_receipt sha root now c = Some (k, e) \<Longrightarrow> rr_fingerprint e = []"
  by (auto simp: reply_of_receipt_def split: contents.splits if_splits)

text \<open>The reply that a fresh process takes over from a receipt of the last ten minutes.\<close>

lemma receipts_taken_over:
  assumes "(path, f) \<in> set (dir_files root fs)" "name_ends path ''.json''"
    and "reply_of_receipt sha root now (df_contents f) = Some (k, e)"
  shows "\<exists>e'. map_of (fold keep_later (receipt_replies sha root now fs) []) k = Some e' \<and> rr_expiresAt e \<le> rr_expiresAt e'
    \<and> rr_fingerprint e' = []"
proof -
  let ?new = "List.map_filter (\<lambda>(path, f). reply_of_receipt sha root now (df_contents f))
      (filter (\<lambda>(path, f). name_ends path ''.json'') (dir_files root fs))"
  have "(k, e) \<in> set ?new" using assms by (force simp: map_filter_mem)
  from fold_keep_later_taken [OF this, of "[]"] obtain e1 where
    "map_of (receipt_replies sha root now fs) k = Some e1" "rr_expiresAt e \<le> rr_expiresAt e1"
    by (auto simp: receipt_replies_def)
  moreover from this fold_keep_later_taken [of k e1 "receipt_replies sha root now fs" "[]"] obtain e2 where
    e2: "map_of (fold keep_later (receipt_replies sha root now fs) []) k = Some e2" "rr_expiresAt e1 \<le> rr_expiresAt e2"
    by (auto dest: map_of_SomeD)
  moreover have "(k, e2) \<in> set ?new"
    using map_of_SomeD [OF e2(1)] fold_keep_later_mem [of k e2 _ "[]"] by (force simp: receipt_replies_def)
  then have "rr_fingerprint e2 = []" using receipt_reply_blank by (auto simp: map_filter_mem)
  ultimately show ?thesis by fastforce
qed

lemma receipt_path_listed:
  assumes "CHR ''/'' \<notin> set (sha i)" "map_of fs (receipt_dir root @ sha i @ ''.json'') = Some f"
  shows "(receipt_dir root @ sha i @ ''.json'', f) \<in> set (dir_files root fs)" "name_ends (receipt_dir root @ sha i @ ''.json'') ''.json''"
  using assms by (auto simp: dir_files_def name_ends_def dest: map_of_SomeD)

text \<open>After a restart the same request is refused. A process that has just started finds on file the completed receipt of
  a reply to a quoted message, sent less than ten minutes ago. The client repeats the very request of that
  receipt, with its identifier and its payload. The durable delivery would answer with the recorded result. But the
  request does not get there: the memory of recent replies is rebuilt from the receipts without the digests of
  their contents, the repetition is taken for another reply, and the answer is the conflict 409 instead of the result.\<close>

theorem restarted_process_refuses_the_replay:
  assumes c: "send_call_of sha root quotas q = Inr c" "sc_replyKey c = Some k" "\<not> ns_allowAdditionalReply (sc_prepared c)"
    and sha: "CHR ''/'' \<notin> set (sha (sc_deliveryId c))" "sc_fingerprint c \<noteq> []"
    and f: "map_of fs (receipt_dir root @ sha (sc_deliveryId c) @ ''.json'') = Some f" "df_contents f = Parsed r"
    and r: "dr_version r = 1" "dr_deliveryId r = sc_deliveryId c" "dr_deliveryId r \<noteq> []" "dr_state r = Completed"
      "dr_requestDigest r = requestDigest sha (agentSendIdempotencyPayload q)" "dr_requestDigest r \<noteq> []"
      "dr_result r = json_reload (labelled c v)" "jget (dr_result r) ''status'' = JStr ''sent''" "distinct (map fst (own_fields v))"
    and env: "de_now env < dr_updatedAt r + reply_window" "de_revoked env = None"
  shows "(\<exists>m first. executeIdempotentAgentSend env sha root quotas q fs started_process = (m, Inr (Answered
        (nonTerminalResponse (sc_deliveryId c) ''conflict'' (second_reply first) 409 True))))
    \<and> (\<forall>t. tk_path t = receipt_dir root @ sha (sc_deliveryId c) @ ''.json'' \<longrightarrow> tk_deliveryId t = sc_deliveryId c
        \<longrightarrow> tk_digest t = requestDigest sha (agentSendIdempotencyPayload q)
        \<longrightarrow> after_look env t fs = goto (Ended (Inr (CompletedOutcome True (dr_result r)))) t)"
proof (intro conjI allI impI)
  have ok: "requestAuthority env i = Inr ()" for i using env(2) by (simp add: requestAuthority_def)
  have object: "is_object (dr_result r)" "dr_result r \<noteq> JUndef" by (simp_all add: r(7) labelled_def Let_def)
  then have truthy: "js_truthy (dr_result r)" by (cases "dr_result r") auto
  have "reply_of_receipt sha root (de_now env) (df_contents f) = Some (k, \<lparr>rr_id = 0, rr_deliveryId = dr_deliveryId r,
      rr_fingerprint = [], rr_result = dr_result r, rr_expiresAt = dr_updatedAt r + reply_window\<rparr>)"
    using key_of_receipt [OF c(1,2) r(9)] r(4,8) env(1) truthy by (simp add: reply_of_receipt_def f(2) r(7))
  from receipts_taken_over [OF receipt_path_listed [of sha "sc_deliveryId c" fs root f, OF sha(1) f(1)] this] obtain e where
    e: "map_of (fold keep_later (receipt_replies sha root (de_now env) fs) []) k = Some e"
      "dr_updatedAt r + reply_window \<le> rr_expiresAt e" "rr_fingerprint e = []" by auto
  define m where "m = started_process\<lparr>sm_replies := fold keep_later (receipt_replies sha root (de_now env) fs) [], sm_hydrated := [root]\<rparr>"
  have "readRecentSuccessfulReply env sha root (Some k) fs started_process = (m, Inr (Some e))"
    using e env(1) by (simp add: readRecentSuccessfulReply_def hydrateRecentSuccessfulReplies_def ok Let_def started_process_def m_def)
  then show "\<exists>m first. executeIdempotentAgentSend env sha root quotas q fs started_process = (m, Inr (Answered
      (nonTerminalResponse (sc_deliveryId c) ''conflict'' (second_reply first) 409 True)))"
    using c sha(2) e(3) by (auto simp: executeIdempotentAgentSend_def)
  fix t :: dtask
  assume t: "tk_path t = receipt_dir root @ sha (sc_deliveryId c) @ ''.json''" "tk_deliveryId t = sc_deliveryId c"
    "tk_digest t = requestDigest sha (agentSendIdempotencyPayload q)"
  have "read_receipt (tk_path t) (tk_deliveryId t) fs = Some r"
    using f r(1-4,6) by (simp add: read_receipt_def parseReceipt_def parseReceiptRaw_def t)
  then show "after_look env t fs = goto (Ended (Inr (CompletedOutcome True (dr_result r)))) t"
    using r(4,5) object(2) by (simp add: after_look_def ok t(3))
qed

section \<open>Concrete sends\<close>

definition sample_send_env :: "int \<Rightarrow> durable_env" where
  "sample_send_env now = \<lparr>de_now = now, de_revoked = None, de_alive = (\<lambda>_. True), de_host = ''h'', de_pid = 1,
     de_lock = None, de_write = Written, de_ino = 1\<rparr>"

lemma sample_env_simps [simp]: "de_now (sample_send_env t) = t" "requestAuthority (sample_send_env t) i = Inr ()"
  by (simp_all add: sample_send_env_def requestAuthority_def)

definition sample_hash :: "string \<Rightarrow> string" where
  "sample_hash s = map (\<lambda>c. if c = CHR ''/'' then CHR ''_'' else c) s"

definition sample_send_call :: "string \<Rightarrow> send_call" where
  "sample_send_call i = projr (send_call_of sample_hash ''/r'' sample_quotas (sample_send_fields i))"

definition sent_result :: jval where
  "sent_result = JObj [(''status'', JStr ''sent'')]"

definition sample_key :: string where
  "sample_key = the (sc_replyKey (sample_send_call ''d1''))"

lemma ok_projr: "is_ok r \<Longrightarrow> r = Inr (projr r)"
  by (cases r) auto

lemma sample_calls:
  "send_call_of sample_hash ''/r'' sample_quotas (sample_send_fields ''d1'') = Inr (sample_send_call ''d1'')"
  "send_call_of sample_hash ''/r'' sample_quotas (sample_send_fields ''d2'') = Inr (sample_send_call ''d2'')"
  unfolding sample_send_call_def by (rule ok_projr, code_simp)+

lemma sample_calls_keys:
  "sc_replyKey (sample_send_call ''d1'') = Some sample_key" "sc_replyKey (sample_send_call ''d2'') = Some sample_key"
  "\<not> ns_allowAdditionalReply (sc_prepared (sample_send_call ''d1''))" "\<not> ns_allowAdditionalReply (sc_prepared (sample_send_call ''d2''))"
  "CHR ''/'' \<notin> set (sample_hash (sc_deliveryId (sample_send_call ''d1'')))" "sc_fingerprint (sample_send_call ''d1'') \<noteq> []"
  "sc_deliveryId (sample_send_call ''d1'') \<noteq> []" "sc_contentKey (sample_send_call ''d1'') \<noteq> None"
  by code_simp+

text \<open>The second of two requests with different identifiers answers the message that was just answered.\<close>

theorem quoted_messages_are_answered_once_witness:
  "\<exists>m. finish_send (sample_send_env 5) (sample_send_call ''d1'') False (CompletedOutcome False sent_result) started_process
        = (m, Inr (completedResponse (sc_deliveryId (sample_send_call ''d1'')) sent_result False))
    \<and> (\<forall>m' c payload. executeIdempotentAgentSend (sample_send_env 600004) sample_hash ''/r'' sample_quotas (sample_send_fields ''d2'') [] m
        \<noteq> (m', Inr (Proceeding c payload)))"
proof -
  let ?c = "sample_send_call ''d1''"
  let ?a = "completedResponse (sc_deliveryId ?c) sent_result False"
  obtain m where m: "finish_send (sample_send_env 5) ?c False (CompletedOutcome False sent_result) started_process = (m, Inr ?a)"
    by (simp add: finish_send_def rememberSuccessfulReply_def requestAuthority_def sample_send_env_def sample_calls_keys
        sent_result_def)
  have m5: "finish_send (sample_send_env 5) ?c False (CompletedOutcome False sent_result) (sw_memory (started 5)) = (m, Inr ?a)"
    using m by (simp add: started_def)
  let ?w = "(started 5)\<lparr>sw_memory := m\<rparr>"
  have "send_step sample_hash ''/r'' sample_quotas ?w (?w\<lparr>sw_clock := 600004\<rparr>)"
    by (rule send_step.tick) (simp add: started_def)
  then have run: "(send_step sample_hash ''/r'' sample_quotas)\<^sup>*\<^sup>* ?w (?w\<lparr>sw_clock := 600004\<rparr>)" by blast
  have "\<forall>m' c payload. executeIdempotentAgentSend (sample_send_env 600004) sample_hash ''/r'' sample_quotas (sample_send_fields ''d2'') []
      (sw_memory (?w\<lparr>sw_clock := 600004\<rparr>)) \<noteq> (m', Inr (Proceeding c payload))"
    using quoted_messages_are_answered_once [OF rtranclp.rtrancl_refl _ m5 sample_calls_keys(1) _ run _ _ sample_calls(2)
        sample_calls_keys(2,4), of "sample_send_env 600004" "[]"]
    by (simp add: started_def sample_send_env_def sent_result_def reply_window_def)
  with m show ?thesis by auto
qed

text \<open>Two deliveries of a content two minutes apart, of which the first one was sent.\<close>

theorem equal_contents_are_sent_once_witness:
  "\<exists>w. (send_step sample_hash ''/r'' sample_quotas)\<^sup>*\<^sup>* (started 0) w
    \<and> sw_trace w = [] @ Opened (the (sc_contentKey (sample_send_call ''d1''))) 1 0
        # [Called 1] @ Opened (the (sc_contentKey (sample_send_call ''d1''))) 2 content_window # []
    \<and> 0 + content_window \<le> content_window"
proof -
  let ?c = "sample_send_call ''d1''" and ?step = "send_step sample_hash ''/r'' sample_quotas"
  obtain k where key: "sc_contentKey ?c = Some k" using sample_calls_keys(8) by auto
  obtain m1 where m1: "deliver_begin (sample_send_env 0) ?c (sw_memory (started 0)) = (m1, Inr (Owner k 1))"
      "map_of (sm_promises m1) 1 = Some Queued" "map_of (sm_contents m1) k = Some \<lparr>rc_promise = 1, rc_expiresAt = content_window\<rparr>"
      "sm_next m1 = 2"
    unfolding deliver_begin_def key
    by (simp add: coalesce_begin_def started_def started_process_def update_conv')
  define w1 where "w1 = (started 0)\<lparr>sw_memory := m1, sw_trace := [Opened k 1 0]\<rparr>"
  have s1: "?step (started 0) w1"
    using send_step.deliver [of "sample_send_env 0" "started 0" ?c m1 "Inr (Owner k 1)"] m1(1)
    by (simp add: w1_def started_def)
  define w2 where "w2 = w1\<lparr>sw_memory := promise_start (sample_send_env 0) 1 m1, sw_trace := [Opened k 1 0, Called 1]\<rparr>"
  have s2: "?step w1 w2"
    using send_step.start [of "sample_send_env 0" w1 1] m1(2)
    by (simp add: w1_def w2_def started_def called_event_def)
  define w3 where "w3 = w2\<lparr>sw_clock := content_window\<rparr>"
  have s3: "?step w2 w3"
    using send_step.tick [of w2 content_window] by (simp add: w3_def w2_def w1_def started_def content_window_def)
  obtain m4 where m4: "deliver_begin (sample_send_env content_window) ?c (sw_memory w3) = (m4, Inr (Owner k 2))"
    using m1(3,4) unfolding deliver_begin_def key
    by (simp add: coalesce_begin_def w3_def w2_def promise_start_def Let_def)
  define w4 where "w4 = w3\<lparr>sw_memory := m4, sw_trace := [Opened k 1 0, Called 1, Opened k 2 content_window]\<rparr>"
  have s4: "?step w3 w4"
    using send_step.deliver [OF _ m4] by (simp add: w4_def w3_def w2_def w1_def)
  have run: "?step\<^sup>*\<^sup>* (started 0) w4"
    using s1 s2 s3 s4 by (meson converse_rtranclp_into_rtranclp rtranclp.rtrancl_refl)
  have tr: "sw_trace w4 = [] @ Opened k 1 0 # [Called 1] @ Opened k 2 content_window # []" by (simp add: w4_def)
  from equal_contents_are_sent_once [OF run] have
    "\<forall>xs ys zs k p t p' t'. sw_trace w4 = xs @ Opened k p t # ys @ Opened k p' t' # zs
        \<longrightarrow> t + content_window \<le> t' \<or> (\<exists>q. Unsent k q \<in> set ys)" by blast
  with tr have "0 + content_window \<le> content_window \<or> (\<exists>q. Unsent k q \<in> set [Called 1])" by blast
  then show ?thesis using run tr key by auto
qed

text \<open>The process is started again and the client repeats its request.\<close>

definition sample_receipt_of :: "string \<Rightarrow> durable_receipt" where
  "sample_receipt_of i = \<lparr>dr_version = 1, dr_deliveryId = sc_deliveryId (sample_send_call i),
     dr_requestDigest = requestDigest sample_hash (agentSendIdempotencyPayload (sample_send_fields i)), dr_state = Completed,
     dr_createdAt = 0, dr_updatedAt = 0, dr_audit = JUndef, dr_result = json_reload (labelled (sample_send_call i) sent_result),
     dr_error = None, dr_executionId = None, dr_ownerHost = None, dr_ownerPid = None, dr_leaseExpiresAt = None,
     dr_leaseDurationMs = None, dr_renewal = None\<rparr>"

definition sample_receipts :: "string \<Rightarrow> durable_files" where
  "sample_receipts i = [(receipt_dir ''/r'' @ sample_hash (sc_deliveryId (sample_send_call i)) @ ''.json'',
     \<lparr>df_contents = Parsed (sample_receipt_of i), df_mtime = 0, df_ctime = 0, df_ino = 1\<rparr>)]"

theorem restarted_process_refuses_the_replay_witness:
  "\<exists>m first. executeIdempotentAgentSend (sample_send_env 60000) sample_hash ''/r'' sample_quotas (sample_send_fields ''d1'')
      (sample_receipts ''d1'') started_process
    = (m, Inr (Answered (nonTerminalResponse (sc_deliveryId (sample_send_call ''d1'')) ''conflict'' (second_reply first) 409 True)))"
proof -
  let ?r = "sample_receipt_of ''d1''" and ?c = "sample_send_call ''d1''"
  have f: "map_of (sample_receipts ''d1'') (receipt_dir ''/r'' @ sample_hash (sc_deliveryId ?c) @ ''.json'')
      = Some \<lparr>df_contents = Parsed ?r, df_mtime = 0, df_ctime = 0, df_ino = 1\<rparr>" by (simp add: sample_receipts_def)
  have r: "dr_version ?r = 1" "dr_deliveryId ?r = sc_deliveryId ?c" "dr_deliveryId ?r \<noteq> []" "dr_state ?r = Completed"
      "dr_requestDigest ?r = requestDigest sample_hash (agentSendIdempotencyPayload (sample_send_fields ''d1''))"
      "dr_result ?r = json_reload (labelled ?c sent_result)" "dr_updatedAt ?r = 0"
    by (simp_all add: sample_receipt_of_def sample_calls_keys(7))
  have d: "dr_requestDigest ?r \<noteq> []" "jget (dr_result ?r) ''status'' = JStr ''sent''" "distinct (map fst (own_fields sent_result))"
    by code_simp+
  show ?thesis
    using restarted_process_refuses_the_replay [OF sample_calls(1) sample_calls_keys(1,3,5,6) f _ r(1-5) d(1) r(6) d(2,3),
        of "sample_send_env 60000"] r(7)
    by (simp add: sample_send_env_def reply_window_def)
qed

end
