(* ===== verification/CapabilityGraph.thy ===== *)
theory CapabilityGraph
  imports Prelude "HOL-Library.Multiset" "HOL-Library.Char_ord" "HOL-Library.List_Lexorder"
begin

text \<open>
  The capability graph of the plug-in kernel (\<open>plugin-kernel/capabilityGraph.ts\<close>):
  which plug-ins can start, which wait for a missing capability, and in which order the
  startable ones are activated.

  A plug-in is a record with an instance identifier and the capabilities it provides,
  requires and would like; the record is extensible, as the type parameter of the source
  is. The three dictionaries of the plan are association lists. JavaScript's default
  \<open>sort()\<close> compares strings by code units, which is the lexicographic order on
  character lists.
\<close>

section \<open>Data\<close>

record cap_node =
  nd_id :: string
  nd_provides :: "string list"
  nd_requires :: "string list"
  nd_optional :: "string list"

record graph_plan =
  pl_order :: "string list"
  pl_waiting :: "(string \<times> string list) list"
  pl_providers :: "(string \<times> string) list"
  pl_dependents :: "(string \<times> string list) list"

type_synonym degrees = "(string \<times> int) list"
type_synonym edges = "(string \<times> string list) list"

text \<open>\<open>m.get(k) ?? d\<close>\<close>

definition get_or :: "('k \<times> 'v) list \<Rightarrow> 'k \<Rightarrow> 'v \<Rightarrow> 'v" where
  "get_or m k d = (case map_of m k of Some v \<Rightarrow> v | None \<Rightarrow> d)"

definition has_key :: "('k \<times> 'v) list \<Rightarrow> 'k \<Rightarrow> bool" where
  "has_key m k = (case map_of m k of Some v \<Rightarrow> True | None \<Rightarrow> False)"

fun join_with :: "string \<Rightarrow> string list \<Rightarrow> string" where
  "join_with s [] = []"
| "join_with s [x] = x"
| "join_with s (x # y # zs) = x @ s @ join_with s (y # zs)"

section \<open>Planning\<close>

fun unique_from :: "(string \<times> 'a cap_node_scheme) list \<Rightarrow> 'a cap_node_scheme list
    \<Rightarrow> (string \<times> 'a cap_node_scheme) list result" where
  "unique_from byId [] = Inr byId"
| "unique_from byId (c # cs) =
     (let i = js_trim (nd_id c) in
      if i = [] then Inl (Err ''Plugin instanceId is required.'')
      else if has_key byId i then Inl (Err (''Duplicate plugin instanceId: '' @ i @ ''.''))
      else unique_from (AList.update i c byId) cs)"

definition uniqueCandidates :: "'a cap_node_scheme list \<Rightarrow> (string \<times> 'a cap_node_scheme) list result" where
  "uniqueCandidates cs = unique_from [] cs"

text \<open>The providers of one candidate, then of all of them.\<close>

fun provide_capabilities :: "string set \<Rightarrow> string \<Rightarrow> string list \<Rightarrow> (string \<times> string) list
    \<Rightarrow> (string \<times> string) list result" where
  "provide_capabilities host i [] prov = Inr prov"
| "provide_capabilities host i (cap # caps) prov =
     (if cap \<in> host then Inl (Err (''Plugin capability conflicts with host capability: '' @ cap @ ''.''))
      else if truthy (map_of prov cap)
      then Inl (Err (''Capability has multiple providers: '' @ cap @ '' ('' @ the (map_of prov cap) @ '', '' @ i @ '').''))
      else provide_capabilities host i caps (AList.update cap i prov))"

fun collect_providers :: "string set \<Rightarrow> 'a cap_node_scheme list \<Rightarrow> (string \<times> string) list
    \<Rightarrow> (string \<times> string) list result" where
  "collect_providers host [] prov = Inr prov"
| "collect_providers host (c # cs) prov =
     bind (provide_capabilities host (nd_id c) (nd_provides c) prov) (collect_providers host cs)"

text \<open>
  The candidates that must wait: one pass over them marks every candidate with a missing
  requirement, seeing the marks it has just made; passes are repeated until one marks
  nothing. The termination measure is the number of candidates not yet marked.
\<close>

definition missing_requirements :: "string set \<Rightarrow> (string \<times> string) list \<Rightarrow> edges \<Rightarrow> 'a cap_node_scheme \<Rightarrow> string list" where
  "missing_requirements host prov w c = filter (\<lambda>cap. if cap \<in> host then False
     else (case map_of prov cap of None \<Rightarrow> True | Some p \<Rightarrow> p = [] \<or> has_key w p)) (nd_requires c)"

fun waiting_pass :: "string set \<Rightarrow> (string \<times> string) list \<Rightarrow> 'a cap_node_scheme list \<Rightarrow> edges \<times> bool \<Rightarrow> edges \<times> bool" where
  "waiting_pass host prov [] s = s"
| "waiting_pass host prov (c # cs) (w, changed) =
     (if has_key w (nd_id c) then waiting_pass host prov cs (w, changed)
      else let missing = missing_requirements host prov w c in
        if missing = [] then waiting_pass host prov cs (w, changed)
        else waiting_pass host prov cs (AList.update (nd_id c) missing w, True))"

definition unmarked :: "'a cap_node_scheme list \<Rightarrow> edges \<Rightarrow> nat" where
  "unmarked cs w = length (filter (\<lambda>c. \<not> has_key w (nd_id c)) cs)"

lemma has_key_iff: "has_key m k \<longleftrightarrow> map_of m k \<noteq> None"
  by (simp add: has_key_def split: option.splits)

lemma has_key_update [simp]: "has_key (AList.update k v m) j \<longleftrightarrow> j = k \<or> has_key m j"
  by (simp add: has_key_iff update_conv')

lemma has_key_Nil [simp]: "\<not> has_key [] k"
  by (simp add: has_key_iff)

lemma get_or_update [simp]: "get_or (AList.update k v m) j d = (if j = k then v else get_or m j d)"
  by (simp add: get_or_def update_conv')

lemma waiting_pass_keeps: "waiting_pass host prov cs (w, b) = (w', b') \<Longrightarrow> has_key w k \<Longrightarrow> has_key w' k"
  by (induction cs arbitrary: w b) (auto simp: Let_def split: if_splits)

lemma waiting_pass_flag: "waiting_pass host prov cs (w, b) = (w', b') \<Longrightarrow> b \<Longrightarrow> b'"
  by (induction cs arbitrary: w b) (auto simp: Let_def split: if_splits)

lemma waiting_pass_unchanged: "waiting_pass host prov cs (w, b) = (w', False) \<Longrightarrow> w' = w"
proof (induction cs arbitrary: w b)
  case (Cons c cs)
  then show ?case by (auto simp: Let_def split: if_splits dest: waiting_pass_flag)
qed simp

lemma waiting_pass_marks: "waiting_pass host prov cs (w, False) = (w', True) \<Longrightarrow> \<exists>c\<in>set cs. \<not> has_key w (nd_id c) \<and> has_key w' (nd_id c)"
proof (induction cs arbitrary: w)
  case (Cons c cs)
  then show ?case by (auto simp: Let_def split: if_splits dest: waiting_pass_keeps)
qed simp

lemma filter_le: "(\<And>x. x \<in> set xs \<Longrightarrow> Q x \<Longrightarrow> P x) \<Longrightarrow> length (filter Q xs) \<le> length (filter P xs)"
proof (induction xs)
  case (Cons x xs)
  then have "length (filter Q xs) \<le> length (filter P xs)" by auto
  with Cons.prems [of x] show ?case by auto
qed simp

lemma filter_less: "(\<And>x. x \<in> set xs \<Longrightarrow> Q x \<Longrightarrow> P x) \<Longrightarrow> y \<in> set xs \<Longrightarrow> P y \<Longrightarrow> \<not> Q y
    \<Longrightarrow> length (filter Q xs) < length (filter P xs)"
proof (induction xs)
  case (Cons x xs)
  have le: "length (filter Q xs) \<le> length (filter P xs)"
    by (rule filter_le) (simp add: Cons.prems(1))
  show ?case
  proof (cases "y = x")
    case True
    with Cons.prems le show ?thesis by simp
  next
    case False
    with Cons.prems have "length (filter Q xs) < length (filter P xs)" by (intro Cons.IH) auto
    with Cons.prems(1) [of x] show ?thesis by auto
  qed
qed simp

function waiting_loop :: "string set \<Rightarrow> (string \<times> string) list \<Rightarrow> 'a cap_node_scheme list \<Rightarrow> edges \<Rightarrow> edges" where
  "waiting_loop host prov cs w = (case waiting_pass host prov cs (w, False) of (w', changed) \<Rightarrow>
     if changed then waiting_loop host prov cs w' else w')"
  by pat_completeness auto
termination
proof (relation "measure (\<lambda>(host, prov, cs, w). unmarked cs w)", goal_cases)
  case (2 host prov cs w w' changed)
  then have pass: "waiting_pass host prov cs (w, False) = (w', True)" by simp
  have "unmarked cs w' < unmarked cs w"
    using waiting_pass_marks [OF pass] unfolding unmarked_def
    by (auto intro!: filter_less dest: waiting_pass_keeps [OF pass])
  then show ?case by simp
qed simp

declare waiting_loop.simps [simp del]

text \<open>
  The dependency edges among the candidates that need not wait: the number of distinct
  providers each one depends on, and for each provider the candidates that depend on it.
\<close>

definition initial_degrees :: "edges \<Rightarrow> 'a cap_node_scheme list \<Rightarrow> degrees" where
  "initial_degrees w cs = fold (\<lambda>c g. if has_key w (nd_id c) then g else AList.update (nd_id c) 0 g) cs []"

fun link_capabilities :: "(string \<times> string) list \<Rightarrow> edges \<Rightarrow> string \<Rightarrow> string list
    \<Rightarrow> string list \<times> degrees \<times> edges \<Rightarrow> string list \<times> degrees \<times> edges" where
  "link_capabilities prov w i [] s = s"
| "link_capabilities prov w i (cap # caps) (seen, g, d) =
     (case map_of prov cap of
        None \<Rightarrow> link_capabilities prov w i caps (seen, g, d)
      | Some p \<Rightarrow>
          if p = [] \<or> p = i \<or> has_key w p \<or> p \<in> set seen then link_capabilities prov w i caps (seen, g, d)
          else let values = get_or d p [] in
            link_capabilities prov w i caps
              (seen @ [p], AList.update i (get_or g i 0 + 1) g,
               AList.update p (if i \<in> set values then values else values @ [i]) d))"

fun link_candidates :: "(string \<times> string) list \<Rightarrow> edges \<Rightarrow> 'a cap_node_scheme list \<Rightarrow> degrees \<times> edges \<Rightarrow> degrees \<times> edges" where
  "link_candidates prov w [] s = s"
| "link_candidates prov w (c # cs) (g, d) =
     (if has_key w (nd_id c) then link_candidates prov w cs (g, d)
      else case link_capabilities prov w (nd_id c) (nd_requires c @ nd_optional c) ([], g, d) of
        (seen, g', d') \<Rightarrow> link_candidates prov w cs (g', d'))"

text \<open>
  Draining the queue of candidates without open dependencies. The measure counts the queue
  and the candidates with a positive degree: a dependent is queued only when its degree
  falls from one to zero.
\<close>

fun release_dependents :: "string list \<Rightarrow> string list \<times> degrees \<Rightarrow> string list \<times> degrees" where
  "release_dependents [] s = s"
| "release_dependents (n # ns) (queue, g) =
     (let degree = get_or g n 0 - 1; g' = AList.update n degree g in
      release_dependents ns (if degree = 0 then sort (queue @ [n]) else queue, g'))"

definition open_degrees :: "degrees \<Rightarrow> nat" where
  "open_degrees g = card {k. \<exists>d. map_of g k = Some d \<and> 1 \<le> d}"

lemma finite_open_degrees: "finite {k. \<exists>d. map_of g k = Some d \<and> 1 \<le> (d::int)}"
  by (rule finite_subset [OF _ finite_dom_map_of [of g]]) auto

lemma open_degrees_update:
  "open_degrees (AList.update n (get_or g n 0 - 1) g) + (if get_or g n 0 - 1 = 0 then 1 else 0) \<le> open_degrees g"
proof -
  let ?S = "\<lambda>g. {k. \<exists>d. map_of g k = Some d \<and> 1 \<le> (d::int)}"
  let ?g = "AList.update n (get_or g n 0 - 1) g"
  show ?thesis
  proof (cases "get_or g n 0 - 1 = 0")
    case True
    then have "map_of g n = Some 1" by (auto simp: get_or_def split: option.splits)
    then have "?S g = insert n (?S ?g)" "n \<notin> ?S ?g" using True by (auto simp: update_conv')
    with True finite_open_degrees [of ?g] show ?thesis by (simp add: open_degrees_def)
  next
    case False
    have "?S ?g \<subseteq> ?S g" by (auto simp: update_conv' get_or_def split: option.splits if_splits)
    from card_mono [OF finite_open_degrees this] False show ?thesis by (simp add: open_degrees_def)
  qed
qed

lemma release_measure:
  "release_dependents ns (q, g) = (q', g') \<Longrightarrow> length q' + open_degrees g' \<le> length q + open_degrees g"
proof (induction ns arbitrary: q g)
  case (Cons n ns)
  have "release_dependents ns (if get_or g n 0 - 1 = 0 then sort (q @ [n]) else q, AList.update n (get_or g n 0 - 1) g) = (q', g')"
    using Cons.prems by (simp add: Let_def)
  from Cons.IH [OF this] open_degrees_update [of n g] show ?case by (simp split: if_splits)
qed simp

function drain :: "edges \<Rightarrow> string list \<Rightarrow> string list \<Rightarrow> degrees \<Rightarrow> string list" where
  "drain d [] order g = order"
| "drain d (i # queue) order g = (case release_dependents (get_or d i []) (queue, g) of
     (queue', g') \<Rightarrow> drain d queue' (order @ [i]) g')"
  by pat_completeness auto
termination
  by (relation "measure (\<lambda>(d, q, or, g). length q + open_degrees g)")
    (auto dest!: release_measure [OF sym])

definition planCapabilityGraph :: "'a cap_node_scheme list \<Rightarrow> string set \<Rightarrow> graph_plan result" where
  "planCapabilityGraph candidates host = bind (uniqueCandidates candidates) (\<lambda>byId.
     bind (collect_providers host (map_values byId) []) (\<lambda>prov.
       let cs = map_values byId;
           w = waiting_loop host prov cs [];
           (g, d) = link_candidates prov w cs (initial_degrees w cs, []);
           queue = sort (map fst (filter (\<lambda>(i, degree). degree = 0) g));
           order = drain d queue [] g
       in if length order \<noteq> length g
          then Inl (Err (''Plugin capability dependency cycle: ''
             @ join_with '', '' (sort (filter (\<lambda>i. i \<notin> set order) (map fst g))) @ ''.''))
          else Inr \<lparr>pl_order = order, pl_waiting = w, pl_providers = prov,
                    pl_dependents = map (\<lambda>(i, values). (i, sort values)) d\<rparr>))"

section \<open>What a plan must be\<close>

text \<open>
  The graph in terms of the declarations alone: who supplies a capability, who is blocked
  (the least set closed under "has a requirement that the host does not offer and that no
  unblocked plug-in supplies"), and who depends on whom among the others.
\<close>

definition supplier :: "'a cap_node_scheme list \<Rightarrow> string \<Rightarrow> string \<Rightarrow> bool" where
  "supplier cs cap p \<longleftrightarrow> (\<exists>c\<in>set cs. nd_id c = p \<and> cap \<in> set (nd_provides c))"

inductive blocked :: "'a cap_node_scheme list \<Rightarrow> string set \<Rightarrow> string \<Rightarrow> bool" for cs host where
  blockedI: "c \<in> set cs \<Longrightarrow> cap \<in> set (nd_requires c) \<Longrightarrow> cap \<notin> host
    \<Longrightarrow> (\<And>p. supplier cs cap p \<Longrightarrow> blocked cs host p) \<Longrightarrow> blocked cs host (nd_id c)"

definition depends :: "'a cap_node_scheme list \<Rightarrow> string set \<Rightarrow> string \<Rightarrow> string \<Rightarrow> bool" where
  "depends cs host p n \<longleftrightarrow> p \<noteq> n \<and> \<not> blocked cs host p \<and> \<not> blocked cs host n \<and>
     (\<exists>c\<in>set cs. nd_id c = n \<and> (\<exists>cap\<in>set (nd_requires c) \<union> set (nd_optional c). supplier cs cap p))"

definition well_declared :: "'a cap_node_scheme list \<Rightarrow> string set \<Rightarrow> bool" where
  "well_declared cs host \<longleftrightarrow> (\<forall>c\<in>set cs. js_trim (nd_id c) \<noteq> []) \<and> distinct (map (\<lambda>c. js_trim (nd_id c)) cs)
     \<and> distinct (concat (map nd_provides cs)) \<and> set (concat (map nd_provides cs)) \<inter> host = {}"

section \<open>Identifiers and providers\<close>

lemma update_fresh: "k \<notin> fst ` set m \<Longrightarrow> AList.update k v m = m @ [(k, v)]"
  by (induction m) auto

lemma has_key_fst: "has_key m k \<longleftrightarrow> k \<in> fst ` set m"
  by (simp add: has_key_iff map_of_eq_None_iff)

lemma unique_from_ok: "unique_from byId cs = Inr r \<longleftrightarrow>
    (\<forall>c\<in>set cs. js_trim (nd_id c) \<noteq> []) \<and> distinct (map (\<lambda>c. js_trim (nd_id c)) cs)
    \<and> (\<forall>c\<in>set cs. js_trim (nd_id c) \<notin> fst ` set byId)
    \<and> r = byId @ map (\<lambda>c. (js_trim (nd_id c), c)) cs"
proof (induction cs arbitrary: byId)
  case (Cons c cs)
  show ?case
  proof (cases "js_trim (nd_id c) = [] \<or> has_key byId (js_trim (nd_id c))")
    case True
    then show ?thesis by (auto simp: Let_def has_key_fst)
  next
    case False
    then have fresh: "js_trim (nd_id c) \<notin> fst ` set byId" by (simp add: has_key_fst)
    have "unique_from byId (c # cs) = unique_from (byId @ [(js_trim (nd_id c), c)]) cs"
      using False by (simp add: Let_def update_fresh [OF fresh])
    with False fresh show ?thesis by (simp only: Cons.IH) (auto simp: image_iff)
  qed
qed auto

lemma uniqueCandidates_ok: "uniqueCandidates cs = Inr r \<longleftrightarrow>
    (\<forall>c\<in>set cs. js_trim (nd_id c) \<noteq> []) \<and> distinct (map (\<lambda>c. js_trim (nd_id c)) cs)
    \<and> r = map (\<lambda>c. (js_trim (nd_id c), c)) cs"
  by (simp add: uniqueCandidates_def unique_from_ok)

lemma provide_ok:
  assumes "i \<noteq> []" "\<forall>cap p. map_of prov cap = Some p \<longrightarrow> p \<noteq> []"
  shows "(is_ok (provide_capabilities host i caps prov) \<longleftrightarrow>
      distinct caps \<and> set caps \<inter> host = {} \<and> set caps \<inter> dom (map_of prov) = {})
    \<and> (\<forall>prov'. provide_capabilities host i caps prov = Inr prov' \<longrightarrow>
      map_of prov' = (\<lambda>cap. if cap \<in> set caps then Some i else map_of prov cap))"
  using assms(2)
proof (induction caps arbitrary: prov)
  case (Cons cap caps)
  have t: "truthy (map_of prov cap) \<longleftrightarrow> cap \<in> dom (map_of prov)"
    using Cons.prems by (cases "map_of prov cap") auto
  have inv: "\<forall>k p. map_of (AList.update cap i prov) k = Some p \<longrightarrow> p \<noteq> []"
    using Cons.prems assms(1) by (simp add: update_conv')
  show ?case
  proof (cases "cap \<in> host \<or> cap \<in> dom (map_of prov)")
    case True
    then show ?thesis using t by auto
  next
    case False
    then have step: "provide_capabilities host i (cap # caps) prov = provide_capabilities host i caps (AList.update cap i prov)"
      using t by simp
    have dom: "dom (map_of (AList.update cap i prov)) = insert cap (dom (map_of prov))"
      by (simp add: update_conv')
    have "is_ok (provide_capabilities host i (cap # caps) prov) \<longleftrightarrow>
        distinct (cap # caps) \<and> set (cap # caps) \<inter> host = {} \<and> set (cap # caps) \<inter> dom (map_of prov) = {}"
      unfolding step Cons.IH [OF inv, THEN conjunct1] dom using False by auto
    moreover have "\<forall>prov'. provide_capabilities host i (cap # caps) prov = Inr prov' \<longrightarrow>
        map_of prov' = (\<lambda>k. if k \<in> set (cap # caps) then Some i else map_of prov k)"
      unfolding step using Cons.IH [OF inv, THEN conjunct2] by (auto simp: update_conv' fun_eq_iff)
    ultimately show ?thesis ..
  qed
qed auto

lemma collect_ok:
  assumes "\<forall>c\<in>set cs. nd_id c \<noteq> []" "\<forall>cap p. map_of prov cap = Some p \<longrightarrow> p \<noteq> []"
  shows "(is_ok (collect_providers host cs prov) \<longleftrightarrow> distinct (concat (map nd_provides cs))
      \<and> set (concat (map nd_provides cs)) \<inter> host = {} \<and> set (concat (map nd_provides cs)) \<inter> dom (map_of prov) = {})
    \<and> (\<forall>prov'. collect_providers host cs prov = Inr prov' \<longrightarrow>
      (\<forall>cap p. map_of prov' cap = Some p \<longleftrightarrow> map_of prov cap = Some p \<or> supplier cs cap p))"
  using assms
proof (induction cs arbitrary: prov)
  case Nil
  then show ?case by (simp add: supplier_def)
next
  case (Cons c cs)
  let ?r = "provide_capabilities host (nd_id c) (nd_provides c) prov"
  have head: "(is_ok ?r \<longleftrightarrow> distinct (nd_provides c) \<and> set (nd_provides c) \<inter> host = {} \<and> set (nd_provides c) \<inter> dom (map_of prov) = {})
      \<and> (\<forall>prov'. ?r = Inr prov' \<longrightarrow> map_of prov' = (\<lambda>cap. if cap \<in> set (nd_provides c) then Some (nd_id c) else map_of prov cap))"
    by (rule provide_ok) (use Cons.prems in auto)
  show ?case
  proof (cases ?r)
    case (Inl e)
    with head show ?thesis by auto
  next
    case (Inr mid)
    with head have mid: "map_of mid = (\<lambda>cap. if cap \<in> set (nd_provides c) then Some (nd_id c) else map_of prov cap)"
      and ok: "distinct (nd_provides c)" "set (nd_provides c) \<inter> host = {}" "set (nd_provides c) \<inter> dom (map_of prov) = {}"
      by auto
    have dom: "dom (map_of mid) = set (nd_provides c) \<union> dom (map_of prov)" by (auto simp: mid split: if_splits)
    have rest: "(is_ok (collect_providers host cs mid) \<longleftrightarrow> distinct (concat (map nd_provides cs))
        \<and> set (concat (map nd_provides cs)) \<inter> host = {} \<and> set (concat (map nd_provides cs)) \<inter> dom (map_of mid) = {})
      \<and> (\<forall>prov'. collect_providers host cs mid = Inr prov' \<longrightarrow>
        (\<forall>cap p. map_of prov' cap = Some p \<longleftrightarrow> map_of mid cap = Some p \<or> supplier cs cap p))"
      by (rule Cons.IH) (use Cons.prems in \<open>auto simp: mid\<close>)
    have step: "collect_providers host (c # cs) prov = collect_providers host cs mid" by (simp add: Inr)
    have "is_ok (collect_providers host (c # cs) prov) \<longleftrightarrow> distinct (concat (map nd_provides (c # cs)))
        \<and> set (concat (map nd_provides (c # cs))) \<inter> host = {} \<and> set (concat (map nd_provides (c # cs))) \<inter> dom (map_of prov) = {}"
      unfolding step rest [THEN conjunct1] dom using ok by (simp del: set_concat) blast
    moreover have "map_of prov' cap = Some p \<longleftrightarrow> map_of prov cap = Some p \<or> supplier (c # cs) cap p"
      if "collect_providers host (c # cs) prov = Inr prov'" for prov' cap p
      using that rest ok(3) unfolding step by (auto simp: mid supplier_def split: if_splits)
    ultimately show ?thesis by blast
  qed
qed

text \<open>What the rest of the planner knows of the provider map.\<close>

definition provider_map :: "'a cap_node_scheme list \<Rightarrow> (string \<times> string) list \<Rightarrow> bool" where
  "provider_map cs prov \<longleftrightarrow> (\<forall>cap p. map_of prov cap = Some p \<longleftrightarrow> supplier cs cap p) \<and> distinct (map nd_id cs)
     \<and> (\<forall>c\<in>set cs. nd_id c \<noteq> [])"

lemma trim_ids: "(\<forall>c\<in>set cs. js_trim (nd_id c) \<noteq> []) \<Longrightarrow> distinct (map (\<lambda>c. js_trim (nd_id c)) cs)
    \<Longrightarrow> (\<forall>c\<in>set cs. nd_id c \<noteq> []) \<and> distinct (map nd_id cs)"
  by (force simp: distinct_map inj_on_def)

lemma node_unique: "distinct (map nd_id cs) \<Longrightarrow> c \<in> set cs \<Longrightarrow> c' \<in> set cs \<Longrightarrow> nd_id c = nd_id c' \<Longrightarrow> c = c'"
  by (auto simp: distinct_map dest: inj_onD)

lemma supplier_node: "supplier cs cap p \<Longrightarrow> p \<in> nd_id ` set cs"
  by (auto simp: supplier_def)

lemma planning_setup:
  "bind (uniqueCandidates cs) (\<lambda>byId. bind (collect_providers host (map_values byId) []) (f byId)) = Inr r
    \<longleftrightarrow> (\<exists>prov. well_declared cs host \<and> collect_providers host cs [] = Inr prov \<and> provider_map cs prov
      \<and> f (map (\<lambda>c. (js_trim (nd_id c), c)) cs) prov = Inr r)"
  (is "?l \<longleftrightarrow> ?r")
proof -
  have vals [simp]: "map (snd \<circ> (\<lambda>c. (js_trim (nd_id c), c))) cs = cs" by (simp add: comp_def)
  let ?ids = "(\<forall>c\<in>set cs. js_trim (nd_id c) \<noteq> []) \<and> distinct (map (\<lambda>c. js_trim (nd_id c)) cs)"
  have collect: "(is_ok (collect_providers host cs []) \<longleftrightarrow> distinct (concat (map nd_provides cs)) \<and> set (concat (map nd_provides cs)) \<inter> host = {})
      \<and> (\<forall>prov. collect_providers host cs [] = Inr prov \<longrightarrow> provider_map cs prov)" if ids: ?ids
    using collect_ok [of cs "[]" host] trim_ids [OF ids [THEN conjunct1] ids [THEN conjunct2]]
    by (auto simp: provider_map_def)
  have "?l \<longleftrightarrow> ?ids \<and> (\<exists>prov. collect_providers host cs [] = Inr prov \<and> f (map (\<lambda>c. (js_trim (nd_id c), c)) cs) prov = Inr r)"
    by (auto simp: uniqueCandidates_ok)
  also have "\<dots> \<longleftrightarrow> ?r"
  proof (cases ?ids)
    case True
    from collect [OF this] True show ?thesis
      unfolding well_declared_def is_ok_iff by blast
  next
    case False
    then show ?thesis by (auto simp: well_declared_def)
  qed
  finally show ?thesis .
qed

section \<open>Who waits\<close>

definition waiting_sound :: "'a cap_node_scheme list \<Rightarrow> string set \<Rightarrow> edges \<Rightarrow> bool" where
  "waiting_sound cs host w \<longleftrightarrow> distinct (map fst w) \<and> (\<forall>i missing. map_of w i = Some missing \<longrightarrow>
     missing \<noteq> [] \<and> (\<exists>c\<in>set cs. nd_id c = i \<and> set missing \<subseteq> set (nd_requires c)
       \<and> (\<forall>cap\<in>set missing. cap \<notin> host \<and> (\<forall>p. supplier cs cap p \<longrightarrow> blocked cs host p))))"

lemma waiting_sound_blocked: "waiting_sound cs host w \<Longrightarrow> has_key w i \<Longrightarrow> blocked cs host i"
proof -
  assume s: "waiting_sound cs host w" and k: "has_key w i"
  from k obtain missing where "map_of w i = Some missing" by (auto simp: has_key_iff)
  with s obtain c where c: "missing \<noteq> []" "c \<in> set cs" "nd_id c = i" "set missing \<subseteq> set (nd_requires c)"
    "\<forall>cap\<in>set missing. cap \<notin> host \<and> (\<forall>p. supplier cs cap p \<longrightarrow> blocked cs host p)"
    unfolding waiting_sound_def by blast
  then have "hd missing \<in> set missing" by simp
  with c show ?thesis by (metis blockedI subsetD)
qed

lemma provider_map_ne: "provider_map cs prov \<Longrightarrow> map_of prov cap = Some p \<Longrightarrow> p \<noteq> []"
  by (auto simp: provider_map_def supplier_def)

lemma supplier_unique: "provider_map cs prov \<Longrightarrow> supplier cs cap p \<Longrightarrow> supplier cs cap q \<Longrightarrow> p = q"
  unfolding provider_map_def by (metis option.inject)

lemma missing_iff: "provider_map cs prov \<Longrightarrow> cap \<in> set (missing_requirements host prov w c) \<longleftrightarrow>
    cap \<in> set (nd_requires c) \<and> cap \<notin> host \<and> (\<forall>p. supplier cs cap p \<longrightarrow> has_key w p)"
proof (cases "map_of prov cap")
  case None
  assume "provider_map cs prov"
  with None have "\<not> supplier cs cap p" for p unfolding provider_map_def by (metis option.distinct(1))
  with None show ?thesis by (auto simp: missing_requirements_def)
next
  case (Some p)
  assume pm: "provider_map cs prov"
  with Some have "supplier cs cap q \<longleftrightarrow> q = p" for q unfolding provider_map_def by (metis option.inject)
  with Some provider_map_ne [OF pm Some] show ?thesis by (auto simp: missing_requirements_def)
qed

lemma waiting_pass_sound:
  assumes "provider_map cs prov"
  shows "set ds \<subseteq> set cs \<Longrightarrow> waiting_sound cs host w \<Longrightarrow> waiting_pass host prov ds (w, b) = (w', b') \<Longrightarrow> waiting_sound cs host w'"
proof (induction ds arbitrary: w b)
  case (Cons c ds)
  let ?m = "missing_requirements host prov w c"
  show ?case
  proof (cases "has_key w (nd_id c) \<or> ?m = []")
    case True
    then have "waiting_pass host prov (c # ds) (w, b) = waiting_pass host prov ds (w, b)" by (auto simp: Let_def)
    with Cons show ?thesis by (metis insert_subset list.simps(15))
  next
    case False
    then have step: "waiting_pass host prov ds (AList.update (nd_id c) ?m w, True) = (w', b')"
      using Cons.prems by (simp add: Let_def)
    have "\<forall>cap\<in>set ?m. cap \<in> set (nd_requires c) \<and> cap \<notin> host \<and> (\<forall>p. supplier cs cap p \<longrightarrow> blocked cs host p)"
      using missing_iff [OF assms, of _ host w c] waiting_sound_blocked [OF Cons.prems(2)] by blast
    with Cons.prems False have "waiting_sound cs host (AList.update (nd_id c) ?m w)"
      unfolding waiting_sound_def by (auto simp: update_conv' distinct_update)
    with Cons.prems step show ?thesis by (intro Cons.IH) auto
  qed
qed simp

lemma waiting_pass_closed: "waiting_pass host prov ds (w, b) = (w, False) \<Longrightarrow> c \<in> set ds
    \<Longrightarrow> has_key w (nd_id c) \<or> missing_requirements host prov w c = []"
proof (induction ds arbitrary: b)
  case (Cons d ds)
  then show ?case by (auto simp: Let_def split: if_splits dest: waiting_pass_flag)
qed simp

lemma waiting_loop_final:
  assumes "provider_map cs prov" "waiting_sound cs host w"
  shows "waiting_sound cs host (waiting_loop host prov cs w)
    \<and> (\<forall>c\<in>set cs. has_key (waiting_loop host prov cs w) (nd_id c)
        \<or> missing_requirements host prov (waiting_loop host prov cs w) c = [])"
  using assms
proof (induction host prov cs w rule: waiting_loop.induct)
  case (1 host prov cs w)
  obtain w' ch where pass: "waiting_pass host prov cs (w, False) = (w', ch)" by force
  have sound: "waiting_sound cs host w'" using waiting_pass_sound [OF "1.prems"(1) _ "1.prems"(2) pass] by simp
  show ?case
  proof (cases ch)
    case True
    from "1.IH" [OF pass [symmetric] True "1.prems"(1) sound] True pass show ?thesis
      by (simp add: waiting_loop.simps [of host prov cs w])
  next
    case False
    with pass waiting_pass_unchanged have "w' = w" by metis
    with False pass have p: "waiting_pass host prov cs (w, False) = (w, False)" by simp
    have "\<forall>c\<in>set cs. has_key w (nd_id c) \<or> missing_requirements host prov w c = []"
      using waiting_pass_closed [OF p] by blast
    with "1.prems"(2) p show ?thesis by (simp add: waiting_loop.simps [of host prov cs w])
  qed
qed

lemma waiting_loop_exact:
  fixes cs :: "'a cap_node_scheme list" and host :: "string set"
  assumes "provider_map cs prov"
  defines "w \<equiv> waiting_loop host prov cs []"
  shows "waiting_sound cs host w \<and> (\<forall>i. has_key w i \<longleftrightarrow> blocked cs host i)"
proof -
  have "waiting_sound cs host []" by (simp add: waiting_sound_def)
  from waiting_loop_final [OF assms(1) this]
  have s: "waiting_sound cs host w" and c: "\<And>c. c \<in> set cs \<Longrightarrow> has_key w (nd_id c) \<or> missing_requirements host prov w c = []"
    by (auto simp: w_def)
  have "has_key w i" if "blocked cs host i" for i
    using that
  proof (induction rule: blocked.induct)
    case (blockedI c cap)
    then have "cap \<in> set (missing_requirements host prov w c)" by (simp add: missing_iff [OF assms(1)])
    with c [OF blockedI(1)] show ?case by auto
  qed
  with s waiting_sound_blocked show ?thesis by blast
qed

section \<open>The edges\<close>

lemma get_or_Some: "map_of g k = Some v \<Longrightarrow> get_or g k d = v"
  by (simp add: get_or_def)

definition cap_providers :: "(string \<times> string) list \<Rightarrow> edges \<Rightarrow> string \<Rightarrow> string list \<Rightarrow> string set" where
  "cap_providers prov w i caps = {p. \<exists>cap\<in>set caps. map_of prov cap = Some p \<and> p \<noteq> [] \<and> p \<noteq> i \<and> \<not> has_key w p}"

lemma link_capabilities_spec:
  assumes "map_of g i = Some k" "\<forall>p. p \<notin> set seen \<longrightarrow> i \<notin> set (get_or d p [])" "distinct seen"
  shows "\<exists>new g' d'. link_capabilities prov w i caps (seen, g, d) = (seen @ new, g', d')
    \<and> distinct (seen @ new) \<and> set seen \<union> set new = set seen \<union> cap_providers prov w i caps
    \<and> map_of g' = (map_of g)(i \<mapsto> k + int (length new)) \<and> map fst g' = map fst g
    \<and> (\<forall>p. get_or d' p [] = (if p \<in> set new then get_or d p [] @ [i] else get_or d p []))"
  using assms
proof (induction caps arbitrary: seen g d k)
  case Nil
  then show ?case by (auto simp: cap_providers_def fun_upd_idem)
next
  case (Cons cap caps)
  show ?case
  proof (cases "\<exists>p. map_of prov cap = Some p \<and> p \<noteq> [] \<and> p \<noteq> i \<and> \<not> has_key w p \<and> p \<notin> set seen")
    case False
    then have step: "link_capabilities prov w i (cap # caps) (seen, g, d) = link_capabilities prov w i caps (seen, g, d)"
      by (auto split: option.split)
    have "set seen \<union> cap_providers prov w i (cap # caps) = set seen \<union> cap_providers prov w i caps"
      using False by (auto simp: cap_providers_def)
    then show ?thesis unfolding step using Cons.IH [OF Cons.prems] by simp
  next
    case True
    then obtain p where p: "map_of prov cap = Some p" "p \<noteq> []" "p \<noteq> i" "\<not> has_key w p" "p \<notin> set seen" by blast
    let ?g = "AList.update i (get_or g i 0 + 1) g" and ?d = "AList.update p (get_or d p [] @ [i]) d"
    have step: "link_capabilities prov w i (cap # caps) (seen, g, d) = link_capabilities prov w i caps (seen @ [p], ?g, ?d)"
      using p Cons.prems(2) by (simp add: Let_def)
    have g: "map_of ?g i = Some (k + 1)" "map fst ?g = map fst g"
      using Cons.prems(1) by (auto simp: update_conv' get_or_def update_keys map_of_eq_None_iff dest: map_of_SomeD intro: rev_image_eqI)
    obtain new g' d' where ih: "link_capabilities prov w i caps (seen @ [p], ?g, ?d) = ((seen @ [p]) @ new, g', d')"
      "distinct ((seen @ [p]) @ new)" "set (seen @ [p]) \<union> set new = set (seen @ [p]) \<union> cap_providers prov w i caps"
      "map_of g' = (map_of ?g)(i \<mapsto> (k + 1) + int (length new))" "map fst g' = map fst ?g"
      "\<forall>q. get_or d' q [] = (if q \<in> set new then get_or ?d q [] @ [i] else get_or ?d q [])"
    proof -
      have "\<forall>q. q \<notin> set (seen @ [p]) \<longrightarrow> i \<notin> set (get_or ?d q [])" "distinct (seen @ [p])"
        using Cons.prems p by auto
      from Cons.IH [OF g(1) this] show thesis using that by blast
    qed
    have "set seen \<union> set (p # new) = set seen \<union> cap_providers prov w i (cap # caps)"
      using ih(3) p by (auto simp: cap_providers_def)
    moreover have "map_of g' = (map_of g)(i \<mapsto> k + int (length (p # new)))"
      using ih(4) by (simp add: update_conv' algebra_simps)
    moreover have "\<forall>q. get_or d' q [] = (if q \<in> set (p # new) then get_or d q [] @ [i] else get_or d q [])"
      using ih(2,6) by auto
    ultimately show ?thesis using step ih g(2) by (intro exI [of _ "p # new"]) auto
  qed
qed

definition node_providers :: "(string \<times> string) list \<Rightarrow> edges \<Rightarrow> 'a cap_node_scheme \<Rightarrow> string set" where
  "node_providers prov w c = cap_providers prov w (nd_id c) (nd_requires c @ nd_optional c)"

definition active :: "edges \<Rightarrow> 'a cap_node_scheme list \<Rightarrow> 'a cap_node_scheme list" where
  "active w cs = filter (\<lambda>c. \<not> has_key w (nd_id c)) cs"

lemma link_candidates_spec:
  assumes "distinct (map nd_id cs)" "\<forall>c\<in>set (active w cs). map_of g (nd_id c) = Some 0 \<and> (\<forall>p. nd_id c \<notin> set (get_or d p []))"
  shows "\<exists>g' d'. link_candidates prov w cs (g, d) = (g', d') \<and> map fst g' = map fst g
    \<and> (\<forall>c\<in>set (active w cs). map_of g' (nd_id c) = Some (int (card (node_providers prov w c))))
    \<and> (\<forall>k. k \<notin> nd_id ` set (active w cs) \<longrightarrow> map_of g' k = map_of g k)
    \<and> (\<forall>p. get_or d' p [] = get_or d p [] @ map nd_id (filter (\<lambda>c. p \<in> node_providers prov w c) (active w cs)))"
  using assms
proof (induction cs arbitrary: g d)
  case Nil
  then show ?case by (simp add: active_def)
next
  case (Cons c cs)
  show ?case
  proof (cases "has_key w (nd_id c)")
    case True
    with Cons show ?thesis by (simp add: active_def)
  next
    case False
    then have act: "active w (c # cs) = c # active w cs" by (simp add: active_def)
    have sub: "set (active w cs) \<subseteq> set cs" by (auto simp: active_def)
    obtain new g1 d1 where l: "link_capabilities prov w (nd_id c) (nd_requires c @ nd_optional c) ([], g, d) = (new, g1, d1)"
      "distinct new" "set new = node_providers prov w c" "map_of g1 = (map_of g)(nd_id c \<mapsto> int (length new))" "map fst g1 = map fst g"
      "\<forall>p. get_or d1 p [] = (if p \<in> set new then get_or d p [] @ [nd_id c] else get_or d p [])"
      using link_capabilities_spec [of g "nd_id c" 0 "[]" d prov w "nd_requires c @ nd_optional c"] Cons.prems(2)
      by (auto simp: act node_providers_def)
    have c: "nd_id c \<notin> nd_id ` set (active w cs)" using Cons.prems(1) sub by auto
    have "\<forall>e\<in>set (active w cs). map_of g1 (nd_id e) = Some 0 \<and> (\<forall>p. nd_id e \<notin> set (get_or d1 p []))"
    proof
      fix e assume e: "e \<in> set (active w cs)"
      with c have "nd_id e \<noteq> nd_id c" by (metis image_eqI)
      with e Cons.prems(2) l(4,6) show "map_of g1 (nd_id e) = Some 0 \<and> (\<forall>p. nd_id e \<notin> set (get_or d1 p []))"
        by (simp add: act)
    qed
    then obtain g' d' where r: "link_candidates prov w cs (g1, d1) = (g', d')" "map fst g' = map fst g1"
      "\<forall>e\<in>set (active w cs). map_of g' (nd_id e) = Some (int (card (node_providers prov w e)))"
      "\<forall>k. k \<notin> nd_id ` set (active w cs) \<longrightarrow> map_of g' k = map_of g1 k"
      "\<forall>p. get_or d' p [] = get_or d1 p [] @ map nd_id (filter (\<lambda>e. p \<in> node_providers prov w e) (active w cs))"
      using Cons.IH [of g1 d1] Cons.prems(1) by auto
    have "map_of g' (nd_id c) = Some (int (card (node_providers prov w c)))"
      using r(4) c l(2,3,4) by (simp add: distinct_card [symmetric])
    with r l False c show ?thesis by (simp add: act)
  qed
qed

lemma initial_degrees_spec:
  assumes "distinct (map nd_id cs)"
  shows "initial_degrees w cs = map (\<lambda>c. (nd_id c, 0)) (active w cs)"
proof -
  have "fold (\<lambda>c g. if has_key w (nd_id c) then g else AList.update (nd_id c) 0 g) ds g
      = g @ map (\<lambda>c. (nd_id c, 0 :: int)) (active w ds)"
    if "distinct (map nd_id ds)" "\<forall>c\<in>set ds. nd_id c \<notin> fst ` set g" for ds :: "'a cap_node_scheme list" and g
    using that
  proof (induction ds arbitrary: g)
    case (Cons c ds)
    have "\<forall>e\<in>set ds. nd_id e \<notin> fst ` set (g @ [(nd_id c, 0)])" using Cons.prems by (auto simp: image_iff)
    with Cons.IH [of g] Cons.IH [of "g @ [(nd_id c, 0)]"] Cons.prems show ?case
      by (simp add: active_def update_fresh)
  qed (simp add: active_def)
  from this [OF assms, of "[]"] show ?thesis by (simp add: initial_degrees_def)
qed

section \<open>The queue\<close>

text \<open>
  The loop invariant over an abstract dependency relation \<open>D\<close> on a finite set
  \<open>A\<close>: the order and the queue together are the elements whose dependencies are all
  in the order, degrees count the open dependencies, and every element was the least one
  available when it was taken.
\<close>

definition topological :: "string set \<Rightarrow> (string \<Rightarrow> string \<Rightarrow> bool) \<Rightarrow> string list \<Rightarrow> bool" where
  "topological A D order \<longleftrightarrow> (\<forall>xs i ys. order = xs @ i # ys \<longrightarrow> (\<forall>p. D p i \<longrightarrow> p \<in> set xs)
     \<and> (\<forall>j\<in>A. j \<notin> set xs \<and> (\<forall>p. D p j \<longrightarrow> p \<in> set xs) \<longrightarrow> i \<le> j))"

definition queue_inv :: "string set \<Rightarrow> (string \<Rightarrow> string \<Rightarrow> bool) \<Rightarrow> string list \<Rightarrow> string list \<Rightarrow> degrees \<Rightarrow> bool" where
  "queue_inv A D queue order g \<longleftrightarrow> distinct (order @ queue) \<and> sorted queue
     \<and> set (order @ queue) = {n \<in> A. \<forall>p. D p n \<longrightarrow> p \<in> set order}
     \<and> (\<forall>n\<in>A. map_of g n = Some (int (card {p. D p n \<and> p \<notin> set order})))
     \<and> topological A D order"

definition edges_of :: "string set \<Rightarrow> (string \<Rightarrow> string \<Rightarrow> bool) \<Rightarrow> edges \<Rightarrow> bool" where
  "edges_of A D d \<longleftrightarrow> finite A \<and> (\<forall>p n. D p n \<longrightarrow> p \<in> A \<and> n \<in> A)
     \<and> (\<forall>p. distinct (get_or d p []) \<and> set (get_or d p []) = {n. D p n})"

lemma edges_of_finite: "edges_of A D d \<Longrightarrow> finite {p. D p n \<and> Q p}"
  unfolding edges_of_def by (rule finite_subset [of _ A]) auto

lemma topological_snoc: "topological A D order \<Longrightarrow> (\<And>p. D p i \<Longrightarrow> p \<in> set order)
    \<Longrightarrow> (\<And>j. j \<in> A \<Longrightarrow> j \<notin> set order \<Longrightarrow> (\<And>p. D p j \<Longrightarrow> p \<in> set order) \<Longrightarrow> i \<le> j) \<Longrightarrow> topological A D (order @ [i])"
  unfolding topological_def by (auto simp: append_eq_append_conv2 append_eq_Cons_conv Cons_eq_append_conv)

lemma release_spec:
  assumes "distinct ns" "sorted queue" "release_dependents ns (queue, g) = (queue', g')"
  shows "queue' = sort (queue @ filter (\<lambda>n. get_or g n 0 = 1) ns)
    \<and> (\<forall>k. map_of g' k = (if k \<in> set ns then Some (get_or g k 0 - 1) else map_of g k))"
  using assms
proof (induction ns arbitrary: queue g)
  case Nil
  then show ?case by (simp add: sorted_sort_id)
next
  case (Cons n ns)
  let ?g = "AList.update n (get_or g n 0 - 1) g"
  let ?q = "if get_or g n 0 - 1 = 0 then sort (queue @ [n]) else queue"
  have step: "release_dependents ns (?q, ?g) = (queue', g')" using Cons.prems by (simp add: Let_def)
  have same: "filter (\<lambda>k. get_or ?g k 0 = 1) ns = filter (\<lambda>k. get_or g k 0 = 1) ns"
    using Cons.prems(1) by (auto intro: filter_cong)
  have "queue' = sort (?q @ filter (\<lambda>n. get_or ?g n 0 = 1) ns)
      \<and> (\<forall>k. map_of g' k = (if k \<in> set ns then Some (get_or ?g k 0 - 1) else map_of ?g k))"
    by (rule Cons.IH [OF _ _ step]) (use Cons.prems in auto)
  moreover have "sort (?q @ filter (\<lambda>n. get_or g n 0 = 1) ns) = sort (queue @ filter (\<lambda>n. get_or g n 0 = 1) (n # ns))"
    by (rule properties_for_sort) auto
  ultimately show ?case using Cons.prems(1) unfolding same by (auto simp: update_conv')
qed

lemma queue_step:
  assumes e: "edges_of A D d" and inv: "queue_inv A D (i # queue) order g"
    and rel: "release_dependents (get_or d i []) (queue, g) = (queue', g')"
  shows "queue_inv A D queue' (order @ [i]) g'"
proof -
  have dist: "distinct (order @ i # queue)" "sorted (i # queue)"
    and ready: "set (order @ i # queue) = {n \<in> A. \<forall>p. D p n \<longrightarrow> p \<in> set order}"
    and deg: "\<And>n. n \<in> A \<Longrightarrow> map_of g n = Some (int (card {p. D p n \<and> p \<notin> set order}))"
    and topo: "topological A D order"
    using inv unfolding queue_inv_def by blast+
  have succ: "distinct (get_or d i [])" "set (get_or d i []) = {n. D i n}" "\<And>p n. D p n \<Longrightarrow> p \<in> A \<and> n \<in> A"
    using e unfolding edges_of_def by blast+
  from release_spec [OF succ(1) _ rel] dist(2)
  have q': "queue' = sort (queue @ filter (\<lambda>n. get_or g n 0 = 1) (get_or d i []))"
    and g': "\<And>k. map_of g' k = (if D i k then Some (get_or g k 0 - 1) else map_of g k)"
    by (auto simp: succ(2))
  have i: "i \<in> A" "\<And>p. D p i \<Longrightarrow> p \<in> set order" "i \<notin> set order" using ready dist(1) by auto
  have card: "{p. D p n \<and> p \<notin> set order} = insert i {p. D p n \<and> p \<notin> set (order @ [i])}" if "D i n" for n
    using that i(3) by auto
  have count: "card {p. D p n \<and> p \<notin> set order} = Suc (card {p. D p n \<and> p \<notin> set (order @ [i])})" if "D i n" for n
    unfolding card [OF that] using edges_of_finite [OF e] by (subst card_insert_disjoint) auto
  have deg': "\<forall>n\<in>A. map_of g' n = Some (int (card {p. D p n \<and> p \<notin> set (order @ [i])}))"
  proof
    fix n assume n: "n \<in> A"
    show "map_of g' n = Some (int (card {p. D p n \<and> p \<notin> set (order @ [i])}))"
    proof (cases "D i n")
      case True
      then show ?thesis using g' [of n] get_or_Some [OF deg [OF n], of 0] count [OF True] by simp
    next
      case False
      then have "{p. D p n \<and> p \<notin> set (order @ [i])} = {p. D p n \<and> p \<notin> set order}" by auto
      with False g' [of n] deg [OF n] show ?thesis by simp
    qed
  qed
  have new: "set (filter (\<lambda>n. get_or g n 0 = 1) (get_or d i [])) = {n. D i n \<and> (\<forall>p. D p n \<longrightarrow> p \<in> set (order @ [i]))}"
  proof -
    have "get_or g n 0 = 1 \<longleftrightarrow> (\<forall>p. D p n \<longrightarrow> p \<in> set (order @ [i]))" if "D i n" for n
    proof -
      have "get_or g n 0 = 1 + int (card {p. D p n \<and> p \<notin> set (order @ [i])})"
        using get_or_Some [OF deg, of n 0] succ(3) [OF that] count [OF that] by simp
      moreover have "card {p. D p n \<and> p \<notin> set (order @ [i])} = 0 \<longleftrightarrow> (\<forall>p. D p n \<longrightarrow> p \<in> set (order @ [i]))"
        using edges_of_finite [OF e, of n "\<lambda>p. p \<notin> set (order @ [i])"] by auto
      moreover have "1 + int k = 1 \<longleftrightarrow> k = 0" for k by simp
      ultimately show ?thesis by (simp only:)
    qed
    then show ?thesis by (auto simp: succ(2))
  qed
  have "set ((order @ [i]) @ queue') = {n \<in> A. \<forall>p. D p n \<longrightarrow> p \<in> set (order @ [i])}"
  proof -
    have "set ((order @ [i]) @ queue') = set (order @ i # queue) \<union> {n. D i n \<and> (\<forall>p. D p n \<longrightarrow> p \<in> set (order @ [i]))}"
      unfolding q' using new by auto
    then show ?thesis unfolding ready using succ(3) by auto
  qed
  moreover have "distinct ((order @ [i]) @ queue')"
  proof -
    have "set (order @ i # queue) \<inter> {n. D i n} = {}" unfolding ready using i(3) by auto
    then have "distinct (order @ i # queue @ filter (\<lambda>n. get_or g n 0 = 1) (get_or d i []))"
      using dist(1) succ(1,2) by auto
    then show ?thesis unfolding q' by (auto simp: distinct_sort)
  qed
  moreover have "topological A D (order @ [i])"
  proof (rule topological_snoc [OF topo i(2)])
    fix j assume "j \<in> A" "j \<notin> set order" "\<And>p. D p j \<Longrightarrow> p \<in> set order"
    with ready have "j \<in> set (i # queue)" by auto
    with dist(2) show "i \<le> j" by auto
  qed
  ultimately show ?thesis unfolding queue_inv_def using deg' by (simp add: q')
qed

lemma drain_inv: "edges_of A D d \<Longrightarrow> queue_inv A D queue order g \<Longrightarrow> \<exists>g'. queue_inv A D [] (drain d queue order g) g'"
proof (induction d queue order g rule: drain.induct)
  case (1 d order g)
  then show ?case by auto
next
  case (2 d i queue order g)
  obtain queue' g' where rel: "release_dependents (get_or d i []) (queue, g) = (queue', g')" by force
  from "2.IH" [OF rel [symmetric] "2.prems"(1) queue_step [OF "2.prems" rel]] rel show ?case by simp
qed

lemma finished_order:
  assumes e: "edges_of A D d" and inv: "queue_inv A D [] order g"
  shows "distinct order \<and> set order \<subseteq> A \<and> topological A D order \<and> (set order = A \<longleftrightarrow> acyclic {(p, n). D p n})"
proof -
  let ?r = "{(p, n). D p n}"
  have dist: "distinct order" and ready: "set order = {n \<in> A. \<forall>p. D p n \<longrightarrow> p \<in> set order}" and topo: "topological A D order"
    using inv by (auto simp: queue_inv_def)
  have "?r \<subseteq> A \<times> A" "finite A" using e by (auto simp: edges_of_def)
  then have fin: "finite ?r" by (metis finite_SigmaI finite_subset)
  have "set order = A" if ac: "acyclic ?r"
  proof (rule ccontr)
    assume "set order \<noteq> A"
    then obtain n where "n \<in> A - set order" using ready by auto
    from wfE_min [OF _ this, of ?r] fin ac obtain z where z: "z \<in> A - set order" "\<And>y. D y z \<Longrightarrow> y \<notin> A - set order"
      by (auto simp: wf_iff_acyclic_if_finite)
    moreover have "y \<in> A" if "D y z" for y using e that by (auto simp: edges_of_def)
    ultimately have "z \<in> {n \<in> A. \<forall>p. D p n \<longrightarrow> p \<in> set order}" by blast
    with z(1) ready show False by blast
  qed
  moreover have "acyclic ?r" if all: "set order = A"
  proof (rule wf_acyclic, rule wf_subset [OF wf_measure [of "\<lambda>n. length (takeWhile (\<lambda>k. k \<noteq> n) order)"]], clarify)
    fix p n assume "D p n"
    then have "n \<in> set order" using e all by (auto simp: edges_of_def)
    then obtain xs ys where s: "order = xs @ n # ys" by (meson split_list)
    with topo \<open>D p n\<close> have "p \<in> set xs" by (auto simp: topological_def)
    then obtain us vs where "xs = us @ p # vs" by (meson split_list)
    moreover have "takeWhile (\<lambda>k. k \<noteq> n) order = xs" using s dist by (auto simp: takeWhile_append)
    moreover have "takeWhile (\<lambda>k. k \<noteq> p) order = us" using s \<open>xs = us @ p # vs\<close> dist by (auto simp: takeWhile_append)
    ultimately show "(p, n) \<in> measure (\<lambda>n. length (takeWhile (\<lambda>k. k \<noteq> n) order))" by simp
  qed
  ultimately show ?thesis using dist topo ready by blast
qed

section \<open>The plan\<close>

lemma active_ids: "provider_map cs prov \<Longrightarrow> (\<And>i. has_key w i \<longleftrightarrow> blocked cs host i)
    \<Longrightarrow> nd_id ` set (active w cs) = {nd_id c | c. c \<in> set cs \<and> \<not> blocked cs host (nd_id c)}"
  by (auto simp: active_def)

lemma node_providers_depends:
  assumes pm: "provider_map cs prov" and wb: "\<And>i. has_key w i \<longleftrightarrow> blocked cs host i"
  shows "depends cs host p n \<longleftrightarrow> (\<exists>c\<in>set (active w cs). nd_id c = n \<and> p \<in> node_providers prov w c)"
proof -
  have "map_of prov cap = Some p \<longleftrightarrow> supplier cs cap p" "supplier cs cap p \<Longrightarrow> p \<noteq> []" for cap
    using pm by (auto simp: provider_map_def supplier_def)
  then show ?thesis
    unfolding depends_def node_providers_def cap_providers_def active_def by (auto simp: wb)
qed

lemma plan_parts:
  fixes cs :: "'a cap_node_scheme list" and host :: "string set"
  assumes pm: "provider_map cs prov"
  defines "w \<equiv> waiting_loop host prov cs []"
  assumes link: "link_candidates prov w cs (initial_degrees w cs, []) = (g, d)"
  defines "order \<equiv> drain d (sort (map fst (filter (\<lambda>(i, degree). degree = 0) g))) [] g"
  shows "edges_of (nd_id ` set (active w cs)) (depends cs host) d
    \<and> (\<exists>g'. queue_inv (nd_id ` set (active w cs)) (depends cs host) [] order g')
    \<and> map fst g = map nd_id (active w cs)"
proof -
  let ?A = "nd_id ` set (active w cs)" and ?D = "depends cs host"
  have wb: "\<And>i. has_key w i \<longleftrightarrow> blocked cs host i" using waiting_loop_exact [OF pm] by (simp add: w_def)
  note D = node_providers_depends [OF pm wb]
  have dist: "distinct (map nd_id cs)" using pm by (simp add: provider_map_def)
  then have dista: "distinct (map nd_id (active w cs))" by (simp add: active_def distinct_map_filter)
  let ?g0 = "map (\<lambda>c. (nd_id c, 0 :: int)) (active w cs)"
  have g0: "map_of ?g0 (nd_id c) = Some 0" if "c \<in> set (active w cs)" for c
    using that dista by (auto simp: comp_def intro!: map_of_is_SomeI)
  from link_candidates_spec [OF dist, of w ?g0 "[]" prov] g0 link initial_degrees_spec [OF dist, of w]
  have keys: "map fst g = map nd_id (active w cs)"
    and deg: "\<forall>c\<in>set (active w cs). map_of g (nd_id c) = Some (int (card (node_providers prov w c)))"
    and succ: "\<forall>p. get_or d p [] = map nd_id (filter (\<lambda>c. p \<in> node_providers prov w c) (active w cs))"
    by (auto simp: get_or_def comp_def)
  have same: "c = c'" if "c \<in> set (active w cs)" "c' \<in> set (active w cs)" "nd_id c = nd_id c'" for c c'
    using node_unique [OF dista that] .
  have preds: "{p. ?D p (nd_id c)} = node_providers prov w c" if "c \<in> set (active w cs)" for c
    using that same by (auto simp: D)
  have in_A: "p \<in> ?A \<and> n \<in> ?A" if "?D p n" for p n
    using that unfolding depends_def supplier_def active_def by (force simp: wb)
  have e: "edges_of ?A ?D d"
    unfolding edges_of_def using succ dista in_A
    by (auto simp: D distinct_map_filter)
  have degs: "map_of g n = Some (int (card {p. ?D p n}))" if "n \<in> ?A" for n
    using that deg preds by auto
  let ?q = "sort (map fst (filter (\<lambda>(i, degree). degree = 0) g))"
  have distg: "distinct (map fst g)" using keys dista by simp
  have "set ?q = {n \<in> ?A. \<forall>p. \<not> ?D p n}"
  proof -
    have "set ?q = {n. map_of g n = Some 0}" using distg by force
    also have "\<dots> = {n \<in> ?A. card {p. ?D p n} = 0}"
    proof -
      have a: "map_of g n = Some 0 \<longrightarrow> n \<in> ?A" for n
        using keys by (metis domI dom_map_of_conv_image_fst list.set_map)
      have b: "map_of g n = Some 0 \<longleftrightarrow> card {p. ?D p n} = 0" if "n \<in> ?A" for n
        unfolding degs [OF that] by (simp only: option.inject of_nat_eq_0_iff)
      have "map_of g n = Some 0 \<longleftrightarrow> n \<in> ?A \<and> card {p. ?D p n} = 0" for n
        using a [of n] b [of n] by argo
      then show ?thesis by (simp only:)
    qed
    also have "\<dots> = {n \<in> ?A. \<forall>p. \<not> ?D p n}"
    proof -
      have "card {p. ?D p n} = 0 \<longleftrightarrow> (\<forall>p. \<not> ?D p n)" for n
        using edges_of_finite [OF e, of n "\<lambda>_. True"] by auto
      then show ?thesis by simp
    qed
    finally show ?thesis .
  qed
  then have "queue_inv ?A ?D ?q [] g"
    unfolding queue_inv_def using degs distg by (auto simp: topological_def distinct_map_filter)
  from drain_inv [OF e this] e keys show ?thesis by (simp add: order_def)
qed

lemma plan_shape:
  "planCapabilityGraph cs host = Inr pl \<longleftrightarrow> (\<exists>prov g d. well_declared cs host \<and> provider_map cs prov
     \<and> collect_providers host cs [] = Inr prov \<and> acyclic {(p, n). depends cs host p n}
     \<and> link_candidates prov (waiting_loop host prov cs []) cs (initial_degrees (waiting_loop host prov cs []) cs, []) = (g, d)
     \<and> pl = \<lparr>pl_order = drain d (sort (map fst (filter (\<lambda>(i, degree). degree = 0) g))) [] g,
        pl_waiting = waiting_loop host prov cs [], pl_providers = prov,
        pl_dependents = map (\<lambda>(i, values). (i, sort values)) d\<rparr>)"
proof -
  let ?w = "\<lambda>prov. waiting_loop host prov cs []"
  have len: "length (drain d (sort (map fst (filter (\<lambda>(i, degree). degree = 0) g))) [] g) = length g
      \<longleftrightarrow> acyclic {(p, n). depends cs host p n}"
    if pm: "provider_map cs prov" and l: "link_candidates prov (?w prov) cs (initial_degrees (?w prov) cs, []) = (g, d)" for prov g d
  proof -
    let ?A = "nd_id ` set (active (?w prov) cs)"
    let ?o = "drain d (sort (map fst (filter (\<lambda>(i, degree). degree = 0) g))) [] g"
    from plan_parts [OF pm l] obtain g' where p: "edges_of ?A (depends cs host) d"
      "queue_inv ?A (depends cs host) [] ?o g'" "map fst g = map nd_id (active (?w prov) cs)" by blast
    from finished_order [OF p(1,2)] have f: "distinct ?o" "set ?o \<subseteq> ?A" "set ?o = ?A \<longleftrightarrow> acyclic {(p, n). depends cs host p n}"
      by blast+
    have "distinct (map nd_id (active (?w prov) cs))"
      using pm by (simp add: active_def distinct_map_filter provider_map_def)
    then have "card ?A = length g" using p(3) by (metis distinct_card length_map list.set_map)
    moreover have "length ?o = card (set ?o)" using f(1) by (simp add: distinct_card)
    moreover have "finite ?A" by simp
    ultimately show ?thesis using f(2,3) card_subset_eq by metis
  qed
  have vals: "map_values (map (\<lambda>c. (js_trim (nd_id c), c)) cs) = cs" by (simp add: comp_def)
  let ?f = "\<lambda>prov. let w = ?w prov; (g, d) = link_candidates prov w cs (initial_degrees w cs, []);
      queue = sort (map fst (filter (\<lambda>(i, degree). degree = 0) g)); order = drain d queue [] g
    in if length order \<noteq> length g
       then Inl (Err (''Plugin capability dependency cycle: ''
          @ join_with '', '' (sort (filter (\<lambda>i. i \<notin> set order) (map fst g))) @ ''.''))
       else Inr \<lparr>pl_order = order, pl_waiting = w, pl_providers = prov, pl_dependents = map (\<lambda>(i, values). (i, sort values)) d\<rparr>"
  have step: "?f prov = Inr pl \<longleftrightarrow> (\<exists>g d. acyclic {(p, n). depends cs host p n}
     \<and> link_candidates prov (?w prov) cs (initial_degrees (?w prov) cs, []) = (g, d)
     \<and> pl = \<lparr>pl_order = drain d (sort (map fst (filter (\<lambda>(i, degree). degree = 0) g))) [] g,
        pl_waiting = ?w prov, pl_providers = prov, pl_dependents = map (\<lambda>(i, values). (i, sort values)) d\<rparr>)"
    if pm: "provider_map cs prov" for prov
  proof -
    obtain g d where l: "link_candidates prov (?w prov) cs (initial_degrees (?w prov) cs, []) = (g, d)" by force
    show ?thesis using len [OF pm l] l by (auto simp: Let_def)
  qed
  have "planCapabilityGraph cs host = Inr pl \<longleftrightarrow>
      (\<exists>prov. well_declared cs host \<and> collect_providers host cs [] = Inr prov \<and> provider_map cs prov \<and> ?f prov = Inr pl)"
    unfolding planCapabilityGraph_def planning_setup vals by (simp only: Let_def)
  then show ?thesis using step by (auto cong: conj_cong)
qed

section \<open>The providers behind a list of required capabilities\<close>

text \<open>
  \<open>pop()\<close> takes the last pending capability; the measure is the number of provider
  identifiers not yet selected, then the number of pending capabilities.
\<close>

definition node_by_trimmed_id :: "'a cap_node_scheme list \<Rightarrow> (string \<times> 'a cap_node_scheme) list" where
  "node_by_trimmed_id nodes = fold (\<lambda>n. AList.update (js_trim (nd_id n)) n) nodes []"

definition required_of :: "(string \<times> 'a cap_node_scheme) list \<Rightarrow> string \<Rightarrow> string list" where
  "required_of byId p = (case map_of byId p of Some n \<Rightarrow> nd_requires n | None \<Rightarrow> [])"

function select_pending :: "(string \<times> string) list \<Rightarrow> (string \<times> 'a cap_node_scheme) list \<Rightarrow> string set
    \<Rightarrow> string list \<Rightarrow> string list \<Rightarrow> string list" where
  "select_pending prov byId host pending selected =
     (if pending = [] then selected
      else if last pending \<in> host then select_pending prov byId host (butlast pending) selected
      else case map_of prov (last pending) of
          None \<Rightarrow> select_pending prov byId host (butlast pending) selected
        | Some p \<Rightarrow>
            if p = [] \<or> p \<in> set selected then select_pending prov byId host (butlast pending) selected
            else select_pending prov byId host (butlast pending @ required_of byId p) (selected @ [p]))"
  by pat_completeness auto
termination
proof (relation "measures [\<lambda>(prov, byId, host, pending, selected). card (ran (map_of prov) - set selected),
    \<lambda>(prov, byId, host, pending, selected). length pending]", goal_cases)
  case (5 prov byId host pending selected p)
  then have "p \<in> ran (map_of prov) - set selected" by (auto simp: ran_def)
  moreover have "finite (ran (map_of prov) - set selected)" 
    by (rule finite_subset [of _ "snd ` set prov"]) (auto simp: ran_def dest!: map_of_SomeD intro: rev_image_eqI)
  ultimately have "card (ran (map_of prov) - set (selected @ [p])) < card (ran (map_of prov) - set selected)"
    by (intro psubset_card_mono) auto
  then show ?case by simp
qed (auto simp: Suc_le_eq)

declare select_pending.simps [simp del]

definition selectRequiredCapabilityProviders :: "'a cap_node_scheme list \<Rightarrow> graph_plan \<Rightarrow> string list \<Rightarrow> string set
    \<Rightarrow> 'a cap_node_scheme list" where
  "selectRequiredCapabilityProviders nodes plan readyRequires host =
     (let selected = select_pending (pl_providers plan) (node_by_trimmed_id nodes) host
        (filter (\<lambda>c. c \<noteq> []) (map js_trim readyRequires)) []
      in filter (\<lambda>n. js_trim (nd_id n) \<in> set selected) nodes)"

text \<open>The closure the loop computes: the providers reachable from the pending capabilities.\<close>

inductive needed :: "(string \<times> string) list \<Rightarrow> (string \<Rightarrow> string list) \<Rightarrow> string set \<Rightarrow> string list \<Rightarrow> string \<Rightarrow> bool"
  for prov reqs host roots where
  root: "cap \<in> set roots \<Longrightarrow> cap \<notin> host \<Longrightarrow> map_of prov cap = Some p \<Longrightarrow> p \<noteq> [] \<Longrightarrow> needed prov reqs host roots p"
| step: "needed prov reqs host roots q \<Longrightarrow> cap \<in> set (reqs q) \<Longrightarrow> cap \<notin> host \<Longrightarrow> map_of prov cap = Some p
    \<Longrightarrow> p \<noteq> [] \<Longrightarrow> needed prov reqs host roots p"

text \<open>
  The loop invariant: what is selected is needed, what is pending is a root or a requirement
  of something needed, and every provider called for by a root or by a selected plug-in is
  selected or still pending.
\<close>

definition provided :: "(string \<times> string) list \<Rightarrow> string set \<Rightarrow> string \<Rightarrow> string \<Rightarrow> bool" where
  "provided prov host cap p \<longleftrightarrow> cap \<notin> host \<and> map_of prov cap = Some p \<and> p \<noteq> []"

definition select_inv :: "(string \<times> string) list \<Rightarrow> (string \<Rightarrow> string list) \<Rightarrow> string set \<Rightarrow> string list
    \<Rightarrow> string list \<Rightarrow> string list \<Rightarrow> bool" where
  "select_inv prov reqs host roots pending selected \<longleftrightarrow>
     (\<forall>p\<in>set selected. needed prov reqs host roots p)
     \<and> (\<forall>cap\<in>set pending. \<forall>p. provided prov host cap p \<longrightarrow> needed prov reqs host roots p)
     \<and> (\<forall>cap p. provided prov host cap p \<and> (cap \<in> set roots \<or> (\<exists>q\<in>set selected. cap \<in> set (reqs q)))
          \<longrightarrow> p \<in> set selected \<or> cap \<in> set pending)"

lemma select_inv_drop: "select_inv prov reqs host roots pending selected \<Longrightarrow> pending \<noteq> []
    \<Longrightarrow> (\<And>p. provided prov host (last pending) p \<Longrightarrow> p \<in> set selected)
    \<Longrightarrow> select_inv prov reqs host roots (butlast pending) selected"
  unfolding select_inv_def
  by (metis append_butlast_last_id in_set_butlastD in_set_conv_decomp list.set_intros(1) rotate1.simps(2) set_ConsD set_rotate1)

lemma select_inv_take: "select_inv prov reqs host roots pending selected \<Longrightarrow> pending \<noteq> []
    \<Longrightarrow> provided prov host (last pending) p
    \<Longrightarrow> select_inv prov reqs host roots (butlast pending @ reqs p) (selected @ [p])"
proof -
  assume inv: "select_inv prov reqs host roots pending selected" and ne: "pending \<noteq> []"
    and p: "provided prov host (last pending) p"
  have pend: "set pending = insert (last pending) (set (butlast pending))"
    by (metis append_butlast_last_id list.simps(15) ne rotate1.simps(2) set_rotate1)
  have n: "needed prov reqs host roots p" using inv p ne unfolding select_inv_def by auto
  have "needed prov reqs host roots r" if "cap \<in> set (reqs p)" "provided prov host cap r" for cap r
    using needed.step [OF n that(1)] that(2) by (auto simp: provided_def)
  moreover have "r = p" if "provided prov host (last pending) r" for r
    using that p by (auto simp: provided_def)
  moreover have "r \<in> set selected \<or> cap \<in> set pending"
    if "provided prov host cap r" "cap \<in> set roots \<or> (\<exists>q\<in>set selected. cap \<in> set (reqs q))" for cap r
    using inv that unfolding select_inv_def by blast
  moreover have "needed prov reqs host roots r" if "cap \<in> set (butlast pending)" "provided prov host cap r" for cap r
    using inv that unfolding select_inv_def by (meson in_set_butlastD)
  moreover have "\<forall>q\<in>set selected. needed prov reqs host roots q" using inv unfolding select_inv_def by blast
  ultimately show ?thesis
    using n pend unfolding select_inv_def by (intro conjI) (simp_all; blast)+
qed

lemma select_pending_inv:
  "select_inv prov (required_of byId) host roots pending selected
    \<Longrightarrow> select_inv prov (required_of byId) host roots [] (select_pending prov byId host pending selected)"
proof (induction prov byId host pending selected rule: select_pending.induct)
  case (1 prov byId host pending selected)
  let ?I = "select_inv prov (required_of byId) host roots"
  note unf = select_pending.simps [of prov byId host pending selected]
  show ?case
  proof (cases "pending = []")
    case True
    with "1.prems" show ?thesis unfolding unf by simp
  next
    case ne: False
    show ?thesis
    proof (cases "\<exists>p. provided prov host (last pending) p \<and> p \<notin> set selected")
      case True
      then obtain p where p: "provided prov host (last pending) p" "p \<notin> set selected" by blast
      then have c: "last pending \<notin> host" "map_of prov (last pending) = Some p" "p \<noteq> []" by (auto simp: provided_def)
      from "1.IH"(4) [OF ne c(1,2)] select_inv_take [OF "1.prems" ne p(1)] c p(2) ne show ?thesis
        by (simp add: unf)
    next
      case False
      then have drop: "?I (butlast pending) selected" by (intro select_inv_drop [OF "1.prems" ne]) blast
      have skip: "select_pending prov byId host pending selected = select_pending prov byId host (butlast pending) selected"
        using False ne by (auto simp: unf provided_def split: option.split)
      show ?thesis
      proof (cases "last pending \<in> host")
        case True
        from "1.IH"(1) [OF ne True drop] show ?thesis by (simp add: skip)
      next
        case nh: False
        show ?thesis
        proof (cases "map_of prov (last pending)")
          case None
          from "1.IH"(2) [OF ne nh None drop] show ?thesis by (simp add: skip)
        next
          case (Some p)
          with False nh have "p = [] \<or> p \<in> set selected" by (auto simp: provided_def)
          from "1.IH"(3) [OF ne nh Some this drop] show ?thesis by (simp add: skip)
        qed
      qed
    qed
  qed
qed

lemma select_pending_exact:
  "p \<in> set (select_pending prov byId host roots []) \<longleftrightarrow> needed prov (required_of byId) host roots p"
proof -
  let ?S = "set (select_pending prov byId host roots [])"
  have "select_inv prov (required_of byId) host roots roots []"
    by (auto simp: select_inv_def provided_def intro: needed.root)
  from select_pending_inv [OF this]
  have sound: "\<And>p. p \<in> ?S \<Longrightarrow> needed prov (required_of byId) host roots p"
    and closed: "\<And>cap p. provided prov host cap p \<Longrightarrow> cap \<in> set roots \<or> (\<exists>q\<in>?S. cap \<in> set (required_of byId q)) \<Longrightarrow> p \<in> ?S"
    unfolding select_inv_def by auto
  have "p \<in> ?S" if "needed prov (required_of byId) host roots p"
    using that by induction (auto intro: closed simp: provided_def)
  with sound show ?thesis by blast
qed

section \<open>Properties\<close>

definition sample_nodes :: "cap_node list" where
  "sample_nodes =
     [\<lparr>nd_id = ''web'', nd_provides = [], nd_requires = [''route@1''], nd_optional = [''log@1'']\<rparr>,
      \<lparr>nd_id = ''route'', nd_provides = [''route@1''], nd_requires = [''store@1'', ''net@1''], nd_optional = []\<rparr>,
      \<lparr>nd_id = ''orphan'', nd_provides = [''gone@2''], nd_requires = [''missing@1''], nd_optional = []\<rparr>,
      \<lparr>nd_id = ''child'', nd_provides = [], nd_requires = [''gone@2''], nd_optional = []\<rparr>,
      \<lparr>nd_id = ''log'', nd_provides = [''log@1''], nd_requires = [], nd_optional = [''route@1'']\<rparr>,
      \<lparr>nd_id = ''store'', nd_provides = [''store@1''], nd_requires = [], nd_optional = []\<rparr>]"

definition sample_plan :: graph_plan where
  "sample_plan = \<lparr>pl_order = [''store'', ''route'', ''log'', ''web''],
     pl_waiting = [(''orphan'', [''missing@1'']), (''child'', [''gone@2''])],
     pl_providers = [(''route@1'', ''route''), (''gone@2'', ''orphan''), (''log@1'', ''log''), (''store@1'', ''store'')],
     pl_dependents = [(''route'', [''log'', ''web'']), (''log'', [''web'']), (''store'', [''route''])]\<rparr>"

lemma sample_planned: "planCapabilityGraph sample_nodes {''net@1''} = Inr sample_plan"
  by code_simp

lemma planning_iff:
  "is_ok (planCapabilityGraph cs host) \<longleftrightarrow> well_declared cs host \<and> acyclic {(p, n). depends cs host p n}"
proof -
  have "is_ok (planCapabilityGraph cs host)" if wd: "well_declared cs host" and ac: "acyclic {(p, n). depends cs host p n}"
  proof -
    have ids: "(\<forall>c\<in>set cs. js_trim (nd_id c) \<noteq> []) \<and> distinct (map (\<lambda>c. js_trim (nd_id c)) cs)"
      using wd by (simp add: well_declared_def)
    from trim_ids [OF ids [THEN conjunct1] ids [THEN conjunct2]]
    have col: "is_ok (collect_providers host cs [])"
      using collect_ok [of cs "[]" host] wd by (auto simp: well_declared_def)
    then obtain prov where prov: "collect_providers host cs [] = Inr prov" by (auto simp: is_ok_iff)
    from planning_setup [of cs host "\<lambda>_. Inr" prov] prov ids
    have "provider_map cs prov" by (auto simp: uniqueCandidates_ok comp_def)
    with wd ac prov show ?thesis
      unfolding is_ok_iff plan_shape by (cases "link_candidates prov (waiting_loop host prov cs []) cs
        (initial_degrees (waiting_loop host prov cs []) cs, [])") blast
  qed
  moreover have "well_declared cs host \<and> acyclic {(p, n). depends cs host p n}" if "is_ok (planCapabilityGraph cs host)"
    using that unfolding is_ok_iff plan_shape by blast
  ultimately show ?thesis by blast
qed

text \<open>C35: Planning succeeds exactly when the declarations are sound (non-empty, distinct
  trimmed identifiers, every capability provided once and never by the host as well) and the
  plug-ins that are not blocked depend on each other without a cycle. Everything else is an
  error; in particular a missing requirement is none.\<close>

theorem planning_succeeds_iff:
  "is_ok (planCapabilityGraph cs host) \<longleftrightarrow> well_declared cs host \<and> acyclic {(p, n). depends cs host p n}"
  by (rule planning_iff)

text \<open>C5: The activation order lists every plug-in that is not blocked once, each after all
  the plug-ins it depends on; among the plug-ins available at a step it takes the
  alphabetically first, so the order is a function of the declarations.\<close>

theorem activation_order_correct:
  assumes "planCapabilityGraph cs host = Inr pl"
  shows "distinct (pl_order pl) \<and> set (pl_order pl) = {nd_id c | c. c \<in> set cs \<and> \<not> blocked cs host (nd_id c)}
    \<and> topological {nd_id c | c. c \<in> set cs \<and> \<not> blocked cs host (nd_id c)} (depends cs host) (pl_order pl)"
proof -
  from assms obtain prov g d where pm: "provider_map cs prov" and ac: "acyclic {(p, n). depends cs host p n}"
    and l: "link_candidates prov (waiting_loop host prov cs []) cs (initial_degrees (waiting_loop host prov cs []) cs, []) = (g, d)"
    and pl: "pl_order pl = drain d (sort (map fst (filter (\<lambda>(i, degree). degree = 0) g))) [] g"
    unfolding plan_shape by auto
  have wb: "\<And>i. has_key (waiting_loop host prov cs []) i \<longleftrightarrow> blocked cs host i" using waiting_loop_exact [OF pm] by blast
  from plan_parts [OF pm l] finished_order ac show ?thesis
    unfolding pl active_ids [OF pm wb] by blast
qed

theorem activation_order_correct_witness:
  "set (pl_order sample_plan) = {nd_id c | c. c \<in> set sample_nodes \<and> \<not> blocked sample_nodes {''net@1''} (nd_id c)}
    \<and> pl_order sample_plan = [''store'', ''route'', ''log'', ''web'']"
  using activation_order_correct [OF sample_planned, THEN conjunct2, THEN conjunct1]
  by (intro conjI) (assumption, simp add: sample_plan_def)

text \<open>A plug-in is listed as waiting exactly when it is blocked, and the capabilities
  recorded for it are requirements of its own that the host does not offer and whose
  supplier, if any, is blocked as well.\<close>

theorem waiting_exactly_the_blocked:
  assumes "planCapabilityGraph cs host = Inr pl"
  shows "(\<forall>i. i \<in> set (map fst (pl_waiting pl)) \<longleftrightarrow> blocked cs host i) \<and> waiting_sound cs host (pl_waiting pl)"
proof -
  from assms obtain prov where pm: "provider_map cs prov" and w: "pl_waiting pl = waiting_loop host prov cs []"
    unfolding plan_shape by auto
  from waiting_loop_exact [OF pm, of host] show ?thesis unfolding w by (simp add: has_key_fst)
qed

theorem waiting_exactly_the_blocked_witness:
  "blocked sample_nodes {''net@1''} ''child'' \<and> \<not> blocked sample_nodes {''net@1''} ''web''"
proof -
  have "''child'' \<in> set (map fst (pl_waiting sample_plan))" "''web'' \<notin> set (map fst (pl_waiting sample_plan))"
    by code_simp+
  with waiting_exactly_the_blocked [OF sample_planned, THEN conjunct1] show ?thesis by blast
qed

text \<open>The published dependents of a plug-in are the sorted list of the plug-ins that
  depend on it, and the published provider of a capability is its only supplier.\<close>

theorem published_edges_exact:
  assumes "planCapabilityGraph cs host = Inr pl"
  shows "(\<forall>p. sorted (get_or (pl_dependents pl) p []) \<and> distinct (get_or (pl_dependents pl) p [])
      \<and> set (get_or (pl_dependents pl) p []) = {n. depends cs host p n})
    \<and> (\<forall>cap p. map_of (pl_providers pl) cap = Some p \<longleftrightarrow> supplier cs cap p)"
proof -
  from assms obtain prov g d where pm: "provider_map cs prov"
    and l: "link_candidates prov (waiting_loop host prov cs []) cs (initial_degrees (waiting_loop host prov cs []) cs, []) = (g, d)"
    and d: "pl_dependents pl = map (\<lambda>(i, values). (i, sort values)) d" and prov: "pl_providers pl = prov"
    unfolding plan_shape by auto
  have "map_of (map (\<lambda>(i, values). (i, sort values)) m) p = map_option sort (map_of m p)" for m :: edges and p
    by (induction m) auto
  then have get: "get_or (pl_dependents pl) p [] = sort (get_or d p [])" for p
    unfolding d get_or_def by (cases "map_of d p") auto
  from plan_parts [OF pm l] have "edges_of (nd_id ` set (active (waiting_loop host prov cs []) cs)) (depends cs host) d" by blast
  with pm show ?thesis unfolding get prov by (auto simp: edges_of_def provider_map_def)
qed

theorem published_edges_exact_witness:
  "{n. depends sample_nodes {''net@1''} ''route'' n} = {''log'', ''web''}"
  using published_edges_exact [OF sample_planned, THEN conjunct1, THEN spec, of "''route''"]
  by (simp add: sample_plan_def get_or_def)

text \<open>The providers selected for a list of required capabilities are the least set that
  supplies them and is closed under the mandatory requirements of its members; optional
  requirements never select anything, and every selected node is one of the given nodes.\<close>

theorem selected_providers_are_the_closure:
  "selectRequiredCapabilityProviders nodes plan readyRequires host =
     filter (\<lambda>n. needed (pl_providers plan) (required_of (node_by_trimmed_id nodes)) host
       (filter (\<lambda>c. c \<noteq> []) (map js_trim readyRequires)) (js_trim (nd_id n))) nodes"
  unfolding selectRequiredCapabilityProviders_def Let_def select_pending_exact ..

end
