(* ===== verification/CapabilityIsolation.thy ===== *)
theory CapabilityIsolation
  imports CapabilityGraph Json
begin

text \<open>
  Isolation of malformed plug-in declarations (\<open>plugin-kernel/capabilityGraphIsolation.ts\<close>):
  candidates in conflict are replaced by the version that was active before, or removed,
  until the rest can be planned; optional capabilities that would close a cycle are dropped.

  The loop of \<open>isolateGraph\<close> is \<open>partial_function (option)\<close>: \<open>None\<close> is a
  run that never ends, and that it does not occur is a theorem. The candidates are values;
  where the source compares object identity, the records compared carry everything that
  distinguishes two objects of a run. An \<open>Error\<close> is its message.
\<close>

text \<open>The elements of a \<open>Set\<close> filled from a list, in the order of first insertion.\<close>

definition in_order :: "'a list \<Rightarrow> 'a list" where
  "in_order xs = rev (remdups (rev xs))"

lemma in_order_simps [simp]: "set (in_order xs) = set xs" "distinct (in_order xs)"
  by (simp_all add: in_order_def)

section \<open>Conflicts\<close>

text \<open>Candidates with what the check of shared Web resources reads.\<close>

record plugin_candidate = cap_node +
  pc_manifestId :: string
  pc_version :: string
  pc_revision :: string
  pc_web :: bool

type_synonym 'a candidates = "(string \<times> 'a cap_node_scheme) list"
type_synonym errors = "(string \<times> string) list"

definition sharedWebResourceKey :: "'a plugin_candidate_scheme \<Rightarrow> string option" where
  "sharedWebResourceKey c = (if pc_web c then Some (stringify (JArr [JStr (pc_manifestId c), JStr (pc_version c)])) else None)"

definition resource_groups :: "'a plugin_candidate_scheme list \<Rightarrow> (string \<times> 'a plugin_candidate_scheme list) list" where
  "resource_groups cs = fold (\<lambda>c groups. case sharedWebResourceKey c of None \<Rightarrow> groups
     | Some key \<Rightarrow> AList.update key (get_or groups key [] @ [c]) groups) cs []"

definition resource_error :: "'a plugin_candidate_scheme \<Rightarrow> string" where
  "resource_error c = ''Shared Web resource has conflicting revisions: '' @ pc_manifestId c @ ''@'' @ pc_version c @ ''.''"

definition resource_conflict :: "'a plugin_candidate_scheme list \<Rightarrow> string \<times> 'a plugin_candidate_scheme list \<Rightarrow> errors \<Rightarrow> errors" where
  "resource_conflict previous entry invalid = (case entry of (key, members) \<Rightarrow>
     if card (pc_revision ` set members) \<le> 1 then invalid
     else let confirmed = pc_revision ` set (filter (\<lambda>c. sharedWebResourceKey c = Some key) previous) in
       fold (\<lambda>c invalid. if card confirmed = 1 \<and> pc_revision c \<in> confirmed then invalid
         else AList.update (nd_id c) (resource_error c) invalid) members invalid)"

definition conflictingWebResources :: "(string \<times> 'a plugin_candidate_scheme) list \<Rightarrow> (string \<times> 'a plugin_candidate_scheme) list \<Rightarrow> errors" where
  "conflictingWebResources current previous =
     fold (resource_conflict (map_values previous)) (resource_groups (map_values current)) []"

definition supplies :: "'a cap_node_scheme list \<Rightarrow> edges" where
  "supplies cs = fold (\<lambda>c. fold (\<lambda>cap m. AList.update cap (get_or m cap [] @ [nd_id c]) m) (nd_provides c)) cs []"

text \<open>The first supplier of a capability: \<open>supplied.get(capability)?.[0]\<close>.\<close>

definition first_supplier :: "edges \<Rightarrow> string \<Rightarrow> string option" where
  "first_supplier m cap = (case map_of m cap of Some (p # ps) \<Rightarrow> Some p | _ \<Rightarrow> None)"

section \<open>Cycles of requirements\<close>

text \<open>
  The candidates with a requirement nobody can meet, passes repeated until one marks nothing.
\<close>

definition cannot_start :: "string set \<Rightarrow> edges \<Rightarrow> string set \<Rightarrow> 'a cap_node_scheme \<Rightarrow> bool" where
  "cannot_start host supplied unavailable c \<longleftrightarrow> list_ex (\<lambda>cap. cap \<notin> host
     \<and> (\<not> has_key supplied cap \<or> (case first_supplier supplied cap of Some p \<Rightarrow> p \<in> unavailable | None \<Rightarrow> False))) (nd_requires c)"

fun unavailable_pass :: "string set \<Rightarrow> edges \<Rightarrow> 'a cap_node_scheme list \<Rightarrow> string set \<times> bool \<Rightarrow> string set \<times> bool" where
  "unavailable_pass host supplied [] s = s"
| "unavailable_pass host supplied (c # cs) (u, changed) =
     (if nd_id c \<in> u then unavailable_pass host supplied cs (u, changed)
      else if cannot_start host supplied u c then unavailable_pass host supplied cs (insert (nd_id c) u, True)
      else unavailable_pass host supplied cs (u, changed))"

lemma unavailable_pass_keeps: "unavailable_pass host supplied cs (u, b) = (u', b') \<Longrightarrow> u \<subseteq> u'"
  by (induction cs arbitrary: u b) (fastforce split: if_splits)+

lemma unavailable_pass_flag: "unavailable_pass host supplied cs (u, b) = (u', b') \<Longrightarrow> b \<Longrightarrow> b'"
  by (induction cs arbitrary: u b) (auto split: if_splits)

lemma unavailable_pass_marks: "unavailable_pass host supplied cs (u, False) = (u', True) \<Longrightarrow> \<exists>c\<in>set cs. nd_id c \<notin> u \<and> nd_id c \<in> u'"
proof (induction cs arbitrary: u)
  case (Cons c cs)
  then show ?case by (auto split: if_splits dest: unavailable_pass_keeps)
qed simp

function unavailable_loop :: "string set \<Rightarrow> edges \<Rightarrow> 'a cap_node_scheme list \<Rightarrow> string set \<Rightarrow> string set" where
  "unavailable_loop host supplied cs u = (case unavailable_pass host supplied cs (u, False) of (u', changed) \<Rightarrow>
     if changed then unavailable_loop host supplied cs u' else u')"
  by pat_completeness auto
termination
proof (relation "measure (\<lambda>(host, supplied, cs, u). length (filter (\<lambda>c. nd_id c \<notin> u) cs))", goal_cases)
  case (2 host supplied cs u u' changed)
  then have pass: "unavailable_pass host supplied cs (u, False) = (u', True)" by simp
  have "length (filter (\<lambda>c. nd_id c \<notin> u') cs) < length (filter (\<lambda>c. nd_id c \<notin> u) cs)"
    using unavailable_pass_marks [OF pass] unavailable_pass_keeps [OF pass] by (auto intro!: filter_less)
  then show ?case by simp
qed simp

declare unavailable_loop.simps [simp del]

text \<open>
  The depth-first search: the stack is a parameter, since every call restores it; the finished
  candidates, most recent first, and the members of cycles are threaded through. The entry
  \<open>candidates.get(id)!\<close> is read through its identifier; a missing one is the type error
  of reading \<open>undefined\<close>. Every call puts another candidate on the stack.
\<close>

definition type_error :: js_error where
  "type_error = Err ''TypeError''"

function visit :: "'a candidates \<Rightarrow> edges \<Rightarrow> string set \<Rightarrow> string list \<Rightarrow> string \<Rightarrow> string list \<times> string list \<Rightarrow> (string list \<times> string list) result"
  and visit_all :: "'a candidates \<Rightarrow> edges \<Rightarrow> string set \<Rightarrow> string list \<Rightarrow> string \<Rightarrow> string list \<Rightarrow> string list \<times> string list \<Rightarrow> (string list \<times> string list) result"
where
  "visit cs supplied u stack i (completed, cyclic) =
     (if i \<in> set completed \<or> i \<in> u then Inr (completed, cyclic)
      else if i \<in> set stack then Inr (completed, cyclic @ dropWhile (\<lambda>j. j \<noteq> i) stack)
      else case map_of cs i of None \<Rightarrow> Inl type_error
        | Some c \<Rightarrow> (case visit_all cs supplied u (stack @ [i]) i (nd_requires c) (completed, cyclic) of
            Inl e \<Rightarrow> Inl e
          | Inr (completed', cyclic') \<Rightarrow> Inr (i # completed', cyclic')))"
| "visit_all cs supplied u stack i [] s = Inr s"
| "visit_all cs supplied u stack i (cap # caps) s =
     (case first_supplier supplied cap of
        None \<Rightarrow> visit_all cs supplied u stack i caps s
      | Some p \<Rightarrow>
          if p = [] \<or> p = i then visit_all cs supplied u stack i caps s
          else (case visit cs supplied u stack p s of Inl e \<Rightarrow> Inl e
            | Inr s' \<Rightarrow> visit_all cs supplied u stack i caps s'))"
  by pat_completeness auto
termination
proof (relation "inv_image (less_than <*lex*> less_than)
    (case_sum (\<lambda>(cs, _, _, stack, _, _). (card (fst ` set cs - set stack), 0::nat))
       (\<lambda>(cs, _, _, stack, _, caps, _). (card (fst ` set cs - set stack), Suc (length caps))))", goal_cases)
  case (2 cs supplied u stack i completed cyclic c)
  then have "i \<in> fst ` set cs - set stack" by (force dest: map_of_SomeD)
  then have "card (fst ` set cs - set (stack @ [i])) < card (fst ` set cs - set stack)"
    by (intro psubset_card_mono) auto
  then show ?case by simp
qed auto

fun visit_from :: "'a candidates \<Rightarrow> edges \<Rightarrow> string set \<Rightarrow> string list \<Rightarrow> string list \<times> string list \<Rightarrow> (string list \<times> string list) result" where
  "visit_from cs supplied u [] s = Inr s"
| "visit_from cs supplied u (i # ids) s = bind (visit cs supplied u [] i s) (visit_from cs supplied u ids)"

definition requiredCycles :: "'a candidates \<Rightarrow> edges \<Rightarrow> string set \<Rightarrow> string list result" where
  "requiredCycles cs supplied host = bind (visit_from cs supplied (unavailable_loop host supplied (map_values cs) {}) (map fst cs) ([], []))
     (\<lambda>(completed, cyclic). Inr (in_order cyclic))"

section \<open>Isolation\<close>

record 'c diagnostic =
  dg_candidate :: "'c option"
  dg_error :: string
  dg_rejected :: bool

definition host_conflict_error :: "string \<Rightarrow> string" where
  "host_conflict_error cap = ''Plugin capability conflicts with host capability: '' @ cap @ ''.''"

definition providers_error :: "string \<Rightarrow> string list \<Rightarrow> string" where
  "providers_error cap ids = ''Capability has multiple providers: '' @ cap @ '' ('' @ join_with '', '' ids @ '').''"

definition cycle_error :: "string \<Rightarrow> string" where
  "cycle_error i = ''Plugin required capability dependency cycle: '' @ i @ ''.''"

definition capability_conflict :: "string set \<Rightarrow> (string \<times> string) list \<Rightarrow> string \<times> string list \<Rightarrow> errors \<Rightarrow> errors" where
  "capability_conflict host confirmed entry invalid = (case entry of (cap, ids) \<Rightarrow>
     if cap \<in> host then fold (\<lambda>i. AList.update i (host_conflict_error cap)) ids invalid
     else if 1 < length ids
     then fold (\<lambda>i invalid. if Some i = map_of confirmed cap then invalid else AList.update i (providers_error cap ids) invalid) ids invalid
     else invalid)"

definition confirmed_providers :: "'a candidates \<Rightarrow> (string \<times> string) list" where
  "confirmed_providers previous = fold (\<lambda>c. fold (\<lambda>cap. AList.update cap (nd_id c)) (nd_provides c)) (map_values previous) []"

definition find_invalid :: "('a candidates \<Rightarrow> 'a candidates \<Rightarrow> errors) \<Rightarrow> string set \<Rightarrow> 'a candidates \<Rightarrow> 'a candidates \<Rightarrow> errors result" where
  "find_invalid conflicts host previous effective =
     (let supplied = supplies (map_values effective);
          invalid = fold (capability_conflict host (confirmed_providers previous)) supplied (conflicts effective previous)
      in if invalid \<noteq> [] then Inr invalid
         else bind (requiredCycles effective supplied host) (\<lambda>ids. Inr (map (\<lambda>i. (i, cycle_error i)) ids)))"

type_synonym 'a diagnostics = "(string \<times> 'a cap_node_scheme diagnostic) list"

definition reject :: "'a candidates \<Rightarrow> string \<times> string \<Rightarrow> 'a candidates \<times> 'a diagnostics \<times> bool \<Rightarrow> 'a candidates \<times> 'a diagnostics \<times> bool" where
  "reject previous entry s = (case (entry, s) of ((i, e), (effective, diagnostics, changed)) \<Rightarrow>
     let candidate = map_of effective i;
         diagnostics' = (if has_key diagnostics i then diagnostics
           else AList.update i \<lparr>dg_candidate = candidate, dg_error = e, dg_rejected = True\<rparr> diagnostics)
     in case map_of previous i of
          Some retained \<Rightarrow>
            if candidate \<noteq> Some retained then (AList.update i retained effective, diagnostics', True)
            else (effective, diagnostics', changed)
        | None \<Rightarrow> (AList.delete i effective, diagnostics', True))"

definition isolation_round :: "'a candidates \<Rightarrow> errors \<Rightarrow> 'a candidates \<times> 'a diagnostics \<Rightarrow> 'a candidates \<times> 'a diagnostics \<times> bool" where
  "isolation_round previous invalid s =
     (case fold (reject previous) invalid (fst s, snd s, False) of (effective, diagnostics, changed) \<Rightarrow>
        if invalid \<noteq> [] \<and> \<not> changed
        then (fold (\<lambda>(i, e). AList.delete i) invalid effective, diagnostics, True)
        else (effective, diagnostics, changed))"

partial_function (option) isolation_loop :: "('a candidates \<Rightarrow> 'a candidates \<Rightarrow> errors) \<Rightarrow> string set \<Rightarrow> 'a candidates
    \<Rightarrow> 'a candidates \<times> 'a diagnostics \<Rightarrow> ('a candidates \<times> 'a diagnostics) result option" where
  "isolation_loop conflicts host previous s =
     (case find_invalid conflicts host previous (fst s) of
        Inl e \<Rightarrow> Some (Inl e)
      | Inr invalid \<Rightarrow> (case isolation_round previous invalid s of (effective, diagnostics, changed) \<Rightarrow>
          if changed then isolation_loop conflicts host previous (effective, diagnostics)
          else Some (Inr (effective, diagnostics))))"

section \<open>Optional capabilities\<close>

text \<open>The edges of the mandatory requirements: who each candidate needs.\<close>

definition required_edges :: "edges \<Rightarrow> 'a cap_node_scheme list \<Rightarrow> edges" where
  "required_edges supplied valid = fold (\<lambda>c. AList.update (nd_id c)
     (in_order (filter (\<lambda>p. p \<noteq> [] \<and> p \<noteq> nd_id c) (List.map_filter (first_supplier supplied) (nd_requires c))))) valid []"

text \<open>
  Whether one candidate needs another, directly or not. The pending identifiers are a stack;
  either an identifier with edges is seen for the first time, or the stack shrinks.
\<close>

function reaches_id :: "edges \<Rightarrow> string \<Rightarrow> string list \<Rightarrow> string set \<Rightarrow> bool" where
  "reaches_id es target [] seen = False"
| "reaches_id es target (i # pending) seen =
     (if i = target then True
      else if i \<in> seen then reaches_id es target pending seen
      else reaches_id es target (rev (get_or es i []) @ pending) (insert i seen))"
  by pat_completeness auto
termination
proof (relation "inv_image (less_than <*lex*> less_than) (\<lambda>(es, target, pending, seen). (card (fst ` set es - seen), length pending))", goal_cases)
  case (3 es target i pending seen)
  show ?case
  proof (cases "i \<in> fst ` set es")
    case True
    then have "card (fst ` set es - insert i seen) < card (fst ` set es - seen)" using 3 by (intro psubset_card_mono) auto
    then show ?thesis by simp
  next
    case False
    then have "map_of es i = None" "fst ` set es - insert i seen = fst ` set es - seen" by (auto simp: map_of_eq_None_iff)
    then show ?thesis by (simp add: get_or_def)
  qed
qed auto

definition skipped_error :: "string \<Rightarrow> string" where
  "skipped_error cap = ''Optional capability ordering skipped to avoid a dependency cycle: '' @ cap @ ''.''"

fun keep_optional :: "edges \<Rightarrow> 'a cap_node_scheme \<Rightarrow> string list \<Rightarrow> edges \<times> 'a diagnostics \<Rightarrow> string list \<times> edges \<times> 'a diagnostics" where
  "keep_optional supplied c [] (es, diagnostics) = ([], es, diagnostics)"
| "keep_optional supplied c (cap # caps) (es, diagnostics) =
     (case first_supplier supplied cap of
        None \<Rightarrow> (case keep_optional supplied c caps (es, diagnostics) of (kept, s) \<Rightarrow> (cap # kept, s))
      | Some p \<Rightarrow>
          if p = [] \<or> p = nd_id c \<or> p \<in> set (get_or es (nd_id c) [])
          then (case keep_optional supplied c caps (es, diagnostics) of (kept, s) \<Rightarrow> (cap # kept, s))
          else if reaches_id es (nd_id c) [p] {}
          then keep_optional supplied c caps (es, if has_key diagnostics (nd_id c) then diagnostics
            else AList.update (nd_id c) \<lparr>dg_candidate = Some c, dg_error = skipped_error cap, dg_rejected = False\<rparr> diagnostics)
          else (case keep_optional supplied c caps (AList.update (nd_id c) (get_or es (nd_id c) [] @ [p]) es, diagnostics) of
            (kept, s) \<Rightarrow> (cap # kept, s)))"

fun planning_nodes :: "edges \<Rightarrow> 'a cap_node_scheme list \<Rightarrow> edges \<times> 'a diagnostics \<Rightarrow> 'a cap_node_scheme list \<times> edges \<times> 'a diagnostics" where
  "planning_nodes supplied [] s = ([], s)"
| "planning_nodes supplied (c # cs) s = (case keep_optional supplied c (nd_optional c) s of (kept, s') \<Rightarrow>
     (case planning_nodes supplied cs s' of (ns, s'') \<Rightarrow> (c\<lparr>nd_optional := kept\<rparr> # ns, s'')))"

record 'a isolation =
  is_candidates :: "'a cap_node_scheme list"
  is_diagnostics :: "'a diagnostics"
  is_plan :: graph_plan

definition plan_isolated :: "string set \<Rightarrow> 'a candidates \<Rightarrow> 'a diagnostics \<Rightarrow> 'a isolation result" where
  "plan_isolated host effective diagnostics =
     (let valid = map_values effective; supplied = supplies valid in
      case planning_nodes supplied valid (required_edges supplied valid, diagnostics) of (planning, es, diagnostics') \<Rightarrow>
        bind (planCapabilityGraph planning host) (\<lambda>plan.
          Inr \<lparr>is_candidates = valid, is_diagnostics = diagnostics', is_plan = plan\<rparr>))"

fun effective_from :: "'a candidates \<Rightarrow> 'a cap_node_scheme list \<Rightarrow> 'a candidates result" where
  "effective_from effective [] = Inr effective"
| "effective_from effective (c # cs) =
     (let i = js_trim (nd_id c) in
      if i = [] \<or> has_key effective i then Inl (Err (''Plugin instanceId is empty or duplicated: '' @ i @ ''.''))
      else effective_from (AList.update i c effective) cs)"

definition isolateGraph :: "('a candidates \<Rightarrow> 'a candidates \<Rightarrow> errors) \<Rightarrow> 'a cap_node_scheme list \<Rightarrow> string set \<Rightarrow> 'a candidates
    \<Rightarrow> 'a isolation result option" where
  "isolateGraph conflicts cs host previous = (case effective_from [] cs of
     Inl e \<Rightarrow> Some (Inl e)
   | Inr effective \<Rightarrow> (case isolation_loop conflicts host previous (effective, []) of
       None \<Rightarrow> None
     | Some (Inl e) \<Rightarrow> Some (Inl e)
     | Some (Inr (effective', diagnostics)) \<Rightarrow> Some (plan_isolated host effective' diagnostics)))"

definition isolateCapabilityGraph :: "'a plugin_candidate_scheme list \<Rightarrow> string set \<Rightarrow> (string \<times> 'a plugin_candidate_scheme) list
    \<Rightarrow> ('a plugin_candidate_ext) isolation result option" where
  "isolateCapabilityGraph cs host previous = isolateGraph conflictingWebResources cs host previous"

definition isolateCapabilityMetadata :: "'a cap_node_scheme list \<Rightarrow> string set \<Rightarrow> 'a isolation result option" where
  "isolateCapabilityMetadata cs host = isolateGraph (\<lambda>_ _. []) cs host []"

section \<open>The search finishes what it can reach\<close>

definition supplied_within :: "edges \<Rightarrow> string set \<Rightarrow> bool" where
  "supplied_within supplied ks \<longleftrightarrow> (\<forall>cap p. first_supplier supplied cap = Some p \<longrightarrow> p \<in> ks)"

definition needs :: "'a candidates \<Rightarrow> edges \<Rightarrow> string \<Rightarrow> string \<Rightarrow> bool" where
  "needs cs supplied n p \<longleftrightarrow> p \<noteq> [] \<and> p \<noteq> n \<and>
     (\<exists>c cap. map_of cs n = Some c \<and> cap \<in> set (nd_requires c) \<and> first_supplier supplied cap = Some p)"

fun finished_ok :: "'a candidates \<Rightarrow> edges \<Rightarrow> string set \<Rightarrow> string list \<Rightarrow> bool" where
  "finished_ok cs supplied u [] = True"
| "finished_ok cs supplied u (x # xs) \<longleftrightarrow> (\<forall>p. needs cs supplied x p \<longrightarrow> p \<in> set xs \<union> u) \<and> finished_ok cs supplied u xs"

text \<open>What one call adds: nothing fails, the members of cycles are candidates, and without a cycle
  everything asked for is finished after what it needs.\<close>

definition advance :: "'a candidates \<Rightarrow> edges \<Rightarrow> string set \<Rightarrow> string list \<times> string list \<Rightarrow> string list \<times> string list \<Rightarrow> bool" where
  "advance cs supplied u s s' \<longleftrightarrow> set (fst s) \<subseteq> set (fst s') \<and> set (snd s) \<subseteq> set (snd s') \<and> set (snd s') \<subseteq> set (snd s) \<union> fst ` set cs
     \<and> (finished_ok cs supplied u (fst s) \<longrightarrow> snd s' = [] \<longrightarrow> finished_ok cs supplied u (fst s'))"

lemma advance_refl: "advance cs supplied u s s"
  by (auto simp: advance_def)

lemma advance_trans: "advance cs supplied u s s' \<Longrightarrow> advance cs supplied u s' s'' \<Longrightarrow> advance cs supplied u s s''"
  unfolding advance_def by (auto simp: subset_iff)

lemma visit_advances:
  assumes "supplied_within supplied (fst ` set cs)" "set stack \<subseteq> fst ` set cs"
  shows "i \<in> fst ` set cs \<Longrightarrow> \<exists>s'. visit cs supplied u stack i s = Inr s' \<and> advance cs supplied u s s' \<and> (snd s' = [] \<longrightarrow> i \<in> set (fst s') \<union> u)"
    and "\<exists>s'. visit_all cs supplied u stack i caps s = Inr s' \<and> advance cs supplied u s s'
      \<and> (snd s' = [] \<longrightarrow> (\<forall>cap\<in>set caps. \<forall>p. first_supplier supplied cap = Some p \<longrightarrow> p = [] \<or> p = i \<or> p \<in> set (fst s') \<union> u))"
  using assms
proof (induction cs supplied u stack i s and cs supplied u stack i caps s rule: visit_visit_all.induct)
  case (1 cs supplied u stack i completed cyclic)
  show ?case
  proof (cases "i \<in> set completed \<or> i \<in> u")
    case True
    then show ?thesis by (auto simp: advance_refl)
  next
    case new: False
    show ?thesis
    proof (cases "i \<in> set stack")
      case True
      then have "dropWhile (\<lambda>j. j \<noteq> i) stack \<noteq> []" by (auto simp: dropWhile_eq_Nil_conv)
      moreover have "set (dropWhile (\<lambda>j. j \<noteq> i) stack) \<subseteq> fst ` set cs" using 1(4) by (auto dest: set_dropWhileD)
      ultimately show ?thesis using new True by (auto simp: advance_def)
    next
      case False
      obtain c where c: "map_of cs i = Some c" using 1(2) by (metis map_of_eq_None_iff option.exhaust)
      from 1(1) [OF new False c] 1(2-4)
      obtain s' where s': "visit_all cs supplied u (stack @ [i]) i (nd_requires c) (completed, cyclic) = Inr s'"
        "advance cs supplied u (completed, cyclic) s'"
        "snd s' = [] \<longrightarrow> (\<forall>cap\<in>set (nd_requires c). \<forall>p. first_supplier supplied cap = Some p \<longrightarrow> p = [] \<or> p = i \<or> p \<in> set (fst s') \<union> u)"
        by auto
      have "snd s' = [] \<longrightarrow> (\<forall>p. needs cs supplied i p \<longrightarrow> p \<in> set (fst s') \<union> u)"
        using s'(3) c by (auto simp: needs_def)
      with s'(1,2) new False c show ?thesis by (cases s') (auto simp: advance_def)
    qed
  qed
next
  case (2 cs supplied u stack i s)
  then show ?case by (simp add: advance_refl)
next
  case (3 cs supplied u stack i cap caps s)
  show ?case
  proof (cases "first_supplier supplied cap")
    case None
    with 3 show ?thesis by simp
  next
    case (Some p)
    show ?thesis
    proof (cases "p = [] \<or> p = i")
      case True
      with Some 3(2,5,6) show ?thesis by auto
    next
      case False
      from 3(3) [OF Some False] 3(5,6) Some obtain s' where s': "visit cs supplied u stack p s = Inr s'" "advance cs supplied u s s'"
        "snd s' = [] \<longrightarrow> p \<in> set (fst s') \<union> u" by (auto simp: supplied_within_def)
      from 3(4) [OF Some False s'(1)] 3(5,6) obtain t where t: "visit_all cs supplied u stack i caps s' = Inr t" "advance cs supplied u s' t"
        "snd t = [] \<longrightarrow> (\<forall>cap\<in>set caps. \<forall>p. first_supplier supplied cap = Some p \<longrightarrow> p = [] \<or> p = i \<or> p \<in> set (fst t) \<union> u)" by blast
      have "snd t = [] \<longrightarrow> p \<in> set (fst t) \<union> u" using s'(3) t(2) by (auto simp: advance_def)
      with t s' Some False advance_trans [OF s'(2) t(2)] show ?thesis by auto
    qed
  qed
qed

lemma visit_from_advances:
  assumes "supplied_within supplied (fst ` set cs)" "set ids \<subseteq> fst ` set cs"
  shows "\<exists>s'. visit_from cs supplied u ids s = Inr s' \<and> advance cs supplied u s s' \<and> (snd s' = [] \<longrightarrow> set ids \<subseteq> set (fst s') \<union> u)"
  using assms(2)
proof (induction ids arbitrary: s)
  case (Cons i ids)
  obtain s1 where s1: "visit cs supplied u [] i s = Inr s1" "advance cs supplied u s s1" "snd s1 = [] \<longrightarrow> i \<in> set (fst s1) \<union> u"
    using visit_advances(1) [OF assms(1), of "[]" i u s] Cons.prems by auto
  obtain s2 where s2: "visit_from cs supplied u ids s1 = Inr s2" "advance cs supplied u s1 s2" "snd s2 = [] \<longrightarrow> set ids \<subseteq> set (fst s2) \<union> u"
    using Cons.IH [of s1] Cons.prems by auto
  have "snd s2 = [] \<longrightarrow> i \<in> set (fst s2) \<union> u" using s1(3) s2(2) by (auto simp: advance_def)
  with s1(1) s2 advance_trans [OF s1(2) s2(2)] show ?case by auto
qed (simp add: advance_refl)

lemma finished_suffix: "finished_ok cs supplied u xs \<Longrightarrow> xs = ys @ x # zs \<Longrightarrow> needs cs supplied x p \<Longrightarrow> p \<in> set zs \<union> u"
  by (induction xs arbitrary: ys) (auto simp: Cons_eq_append_conv)

text \<open>The rank of a finished candidate: how many were finished before its last occurrence.\<close>

fun rank :: "string list \<Rightarrow> string \<Rightarrow> nat" where
  "rank [] x = 0"
| "rank (y # ys) x = (if x \<in> set ys then rank ys x else Suc (length ys))"

lemma rank_le: "x \<in> set xs \<Longrightarrow> rank xs x \<le> length xs"
  by (induction xs) (auto simp: le_SucI)

lemma finished_rank: "finished_ok cs supplied u xs \<Longrightarrow> x \<in> set xs \<Longrightarrow> needs cs supplied x p \<Longrightarrow> p \<notin> u \<Longrightarrow> p \<in> set xs \<and> rank xs p < rank xs x"
proof (induction xs)
  case (Cons y ys)
  show ?case
  proof (cases "x \<in> set ys")
    case True
    with Cons show ?thesis by auto
  next
    case False
    with Cons.prems have "p \<in> set ys" by auto
    with False Cons.prems rank_le [OF this] show ?thesis by auto
  qed
qed simp

lemma ranked_acyclic:
  assumes "\<And>x y. (x, y) \<in> R \<Longrightarrow> (f y :: nat) < f x"
  shows "acyclic R"
  by (rule acyclic_subset [OF wf_acyclic [OF wf_inv_image [OF wf_less]], THEN acyclic_converse [THEN iffD1]])
    (use assms in \<open>auto simp: inv_image_def\<close>)

lemma requiredCycles_result:
  assumes "supplied_within supplied (fst ` set cs)"
  shows "\<exists>ids. requiredCycles cs supplied host = Inr ids \<and> set ids \<subseteq> fst ` set cs \<and> distinct ids"
    and "requiredCycles cs supplied host = Inr [] \<Longrightarrow>
      acyclic {(n, p). needs cs supplied n p \<and> n \<notin> unavailable_loop host supplied (map_values cs) {} \<and> p \<notin> unavailable_loop host supplied (map_values cs) {}}"
proof -
  let ?u = "unavailable_loop host supplied (map_values cs) {}"
  obtain s where s: "visit_from cs supplied ?u (map fst cs) ([], []) = Inr s" "advance cs supplied ?u ([], []) s"
    "snd s = [] \<longrightarrow> set (map fst cs) \<subseteq> set (fst s) \<union> ?u"
    using visit_from_advances [OF assms, of "map fst cs" ?u "([], [])"] by auto
  have r: "requiredCycles cs supplied host = Inr (in_order (snd s))"
    using s(1) by (cases s) (simp add: requiredCycles_def)
  then show "\<exists>ids. requiredCycles cs supplied host = Inr ids \<and> set ids \<subseteq> fst ` set cs \<and> distinct ids"
    using s(2) by (auto simp: advance_def)
  show "acyclic {(n, p). needs cs supplied n p \<and> n \<notin> ?u \<and> p \<notin> ?u}" if "requiredCycles cs supplied host = Inr []"
  proof -
    from that r have none: "snd s = []" by (simp add: in_order_def)
    then have fin: "finished_ok cs supplied ?u (fst s)" using s(2) by (simp add: advance_def)
    show ?thesis
    proof (rule ranked_acyclic [where f = "rank (fst s)"])
      fix n p assume "(n, p) \<in> {(n, p). needs cs supplied n p \<and> n \<notin> ?u \<and> p \<notin> ?u}"
      then have np: "needs cs supplied n p" "n \<notin> ?u" "p \<notin> ?u" by auto
      then have "n \<in> set (map fst cs)" by (force simp: needs_def dest: map_of_SomeD)
      with s(3) none np(2) have "n \<in> set (fst s)" by auto
      from finished_rank [OF fin this np(1,3)] show "rank (fst s) p < rank (fst s) n" ..
    qed
  qed
qed

section \<open>Every round gets closer to the end\<close>

definition keys_of :: "('k \<times> 'v) list \<Rightarrow> 'k set" where
  "keys_of m = fst ` set m"

lemma keys_of_simps [simp]: "keys_of [] = {}" "keys_of ((k, v) # m) = insert k (keys_of m)"
  by (simp_all add: keys_of_def)

lemma keys_of_lookup: "k \<in> keys_of m \<longleftrightarrow> map_of m k \<noteq> None"
  by (simp add: keys_of_def map_of_eq_None_iff)

lemma keys_of_update [simp]: "keys_of (AList.update k v m) = insert k (keys_of m)"
  by (auto simp: keys_of_lookup update_conv' split: if_splits)

lemma keys_of_delete [simp]: "keys_of (AList.delete k m) = keys_of m - {k}"
  by (auto simp: keys_of_lookup delete_conv' split: if_splits)

definition keyed_ids :: "'a candidates \<Rightarrow> bool" where
  "keyed_ids m \<longleftrightarrow> distinct (map fst m) \<and> (\<forall>(k, c)\<in>set m. nd_id c = k)"

definition names_members :: "('a candidates \<Rightarrow> 'a candidates \<Rightarrow> errors) \<Rightarrow> bool" where
  "names_members conflicts \<longleftrightarrow> (\<forall>m previous. keyed_ids m \<longrightarrow>
     keys_of (conflicts m previous) \<subseteq> keys_of m \<and> distinct (map fst (conflicts m previous)))"

definition replaceable :: "'a candidates \<Rightarrow> string \<times> 'a cap_node_scheme \<Rightarrow> bool" where
  "replaceable previous entry \<longleftrightarrow> (case map_of previous (fst entry) of Some r \<Rightarrow> r \<noteq> snd entry | None \<Rightarrow> False)"

text \<open>A candidate counts once, and once more while an earlier version can still replace it.\<close>

definition weight :: "'a candidates \<Rightarrow> 'a candidates \<Rightarrow> nat" where
  "weight previous m = length m + length (filter (replaceable previous) m)"

lemma weight_delete: "weight previous (AList.delete i m) \<le> weight previous m"
  by (induction m) (auto simp: weight_def)

lemma weight_delete_less: "i \<in> keys_of m \<Longrightarrow> weight previous (AList.delete i m) < weight previous m"
proof (induction m)
  case (Cons x m)
  then show ?case using weight_delete [of previous i m] by (cases x; cases "fst x = i") (auto simp: weight_def)
qed simp

lemma weight_update_less:
  "map_of m i = Some c \<Longrightarrow> map_of previous i = Some r \<Longrightarrow> r \<noteq> c \<Longrightarrow> weight previous (AList.update i r m) < weight previous m"
proof (induction m)
  case (Cons x m)
  then show ?case by (cases x; cases "fst x = i") (auto simp: weight_def replaceable_def)
qed simp

lemma delete_filter: "AList.delete k m = filter (\<lambda>(j, v). j \<noteq> k) m"
  by (induction m) auto

lemma keyed_ids_delete: "keyed_ids m \<Longrightarrow> keyed_ids (AList.delete i m)"
  by (auto simp: keyed_ids_def delete_filter distinct_map_filter)

lemma keyed_ids_update: "keyed_ids m \<Longrightarrow> nd_id c = i \<Longrightarrow> keyed_ids (AList.update i c m)"
proof -
  have "(k, x) \<in> set (AList.update i c m) \<Longrightarrow> k = i \<and> x = c \<or> (k, x) \<in> set m" for k x
    by (induction m) (auto split: if_splits)
  then show "keyed_ids m \<Longrightarrow> nd_id c = i \<Longrightarrow> keyed_ids (AList.update i c m)"
    by (fastforce simp: keyed_ids_def distinct_update)
qed

lemma keyed_ids_lookup: "keyed_ids m \<Longrightarrow> map_of m i = Some c \<Longrightarrow> nd_id c = i"
  by (auto simp: keyed_ids_def dest: map_of_SomeD)

definition values_from :: "'a cap_node_scheme set \<Rightarrow> 'a candidates \<Rightarrow> bool" where
  "values_from A m \<longleftrightarrow> keyed_ids m \<and> snd ` set m \<subseteq> A"

lemma values_from_update: "values_from A m \<Longrightarrow> c \<in> A \<Longrightarrow> nd_id c = i \<Longrightarrow> values_from A (AList.update i c m)"
proof -
  assume m: "values_from A m" "c \<in> A" "nd_id c = i"
  have "snd ` set (AList.update i c m) \<subseteq> insert c (snd ` set m)" by (induction m) auto
  with m show ?thesis by (auto simp: values_from_def keyed_ids_update)
qed

lemma values_from_delete: "values_from A m \<Longrightarrow> values_from A (AList.delete i m)"
  using keyed_ids_delete [of m i] by (auto simp: values_from_def delete_filter)

text \<open>One rejection: a member of the map is replaced, removed, or stays because it already is the
  earlier version; in every case the other members stay.\<close>

lemma reject_cases:
  assumes "values_from A m" "keyed_ids previous" "snd ` set previous \<subseteq> A" "i \<in> keys_of m"
    and "reject previous (i, e) (m, d, b) = (m', d', b')"
  shows "values_from A m' \<and> keys_of m - {i} \<subseteq> keys_of m' \<and> keys_of m' \<subseteq> keys_of m
    \<and> (weight previous m' < weight previous m \<and> b' \<or> m' = m \<and> b' = b)"
proof (cases "map_of previous i")
  case None
  then have "m' = AList.delete i m" "b'" using assms(5) by (auto simp: reject_def Let_def)
  then show ?thesis using weight_delete_less [OF assms(4)] values_from_delete [OF assms(1)] by auto
next
  case (Some r)
  then have r: "r \<in> A" "nd_id r = i" using assms(2,3) by (force simp: keyed_ids_lookup dest: map_of_SomeD)+
  obtain c where c: "map_of m i = Some c" using assms(4) by (auto simp: keys_of_lookup)
  show ?thesis
  proof (cases "r = c")
    case True
    then show ?thesis using Some c assms(1,5) by (auto simp: reject_def Let_def)
  next
    case False
    then have "m' = AList.update i r m" "b'" using Some c assms(5) by (auto simp: reject_def Let_def)
    moreover have "keys_of (AList.update i r m) = keys_of m" using assms(4) by (simp add: insert_absorb)
    ultimately show ?thesis using weight_update_less [OF c Some False] values_from_update [OF assms(1) r] by auto
  qed
qed

lemma reject_all:
  assumes "values_from A m" "keyed_ids previous" "snd ` set previous \<subseteq> A" "keys_of invalid \<subseteq> keys_of m" "distinct (map fst invalid)"
    and "fold (reject previous) invalid (m, d, b) = (m', d', b')"
  shows "values_from A m' \<and> keys_of m' \<subseteq> keys_of m
    \<and> (weight previous m' < weight previous m \<and> b' \<or> m' = m \<and> b' = b)"
  using assms(1,4-6)
proof (induction invalid arbitrary: m d b)
  case (Cons x invalid)
  obtain i e where x: "x = (i, e)" by (cases x)
  obtain m1 d1 b1 where one: "reject previous (i, e) (m, d, b) = (m1, d1, b1)" by (metis prod_cases3)
  have i: "i \<in> keys_of m" using Cons.prems(2) x by simp
  note r = reject_cases [OF Cons.prems(1) assms(2,3) i one]
  have "i \<notin> keys_of invalid" using Cons.prems(3) x by (simp add: keys_of_def)
  then have "keys_of invalid \<subseteq> keys_of m1" using r Cons.prems(2) x by auto
  then have "values_from A m' \<and> keys_of m' \<subseteq> keys_of m1 \<and> (weight previous m' < weight previous m1 \<and> b' \<or> m' = m1 \<and> b' = b1)"
    using Cons.IH [of m1 d1 b1] r Cons.prems(3,4) x one by auto
  with r show ?case by auto
qed simp

lemma fold_delete_less:
  fixes invalid :: errors
  assumes "invalid \<noteq> []" "keys_of invalid \<subseteq> keys_of m"
  shows "weight previous (fold (\<lambda>(i, e). AList.delete i) invalid m) < weight previous m"
proof -
  have le: "weight previous (fold (\<lambda>(i, e). AList.delete i) xs m) \<le> weight previous m" for xs :: errors and m
    by (induction xs arbitrary: m) (auto intro: order_trans [OF _ weight_delete])
  obtain i e rest where "invalid = (i, e) # rest" using assms(1) by (metis neq_Nil_conv surj_pair)
  with assms(2) le [of rest] weight_delete_less [of i m previous] show ?thesis by (fastforce intro: le_less_trans)
qed

lemma values_from_fold_delete: "values_from A m \<Longrightarrow> values_from A (fold (\<lambda>(i, e). AList.delete i) xs m)
    \<and> keys_of (fold (\<lambda>(i, e). AList.delete i) xs m) \<subseteq> keys_of m"
proof (induction xs arbitrary: m)
  case (Cons x xs)
  obtain i e where "x = (i, e)" by (cases x)
  with Cons.IH [of "AList.delete i m"] values_from_delete [OF Cons.prems] show ?case by auto
qed simp

lemma isolation_round_less:
  assumes "values_from A m" "keyed_ids previous" "snd ` set previous \<subseteq> A" "keys_of invalid \<subseteq> keys_of m" "distinct (map fst invalid)"
    and "isolation_round previous invalid (m, d) = (m', d', b)"
  shows "values_from A m' \<and> keys_of m' \<subseteq> keys_of m \<and> (b \<longleftrightarrow> invalid \<noteq> []) \<and> (b \<longrightarrow> weight previous m' < weight previous m) \<and> (\<not> b \<longrightarrow> m' = m)"
proof -
  obtain m1 d1 b1 where one: "fold (reject previous) invalid (m, d, False) = (m1, d1, b1)" by (metis prod_cases3)
  note r = reject_all [OF assms(1-5) one]
  show ?thesis
  proof (cases "invalid \<noteq> [] \<and> \<not> b1")
    case True
    then have "m1 = m" "m' = fold (\<lambda>(i, e). AList.delete i) invalid m" "b" using r one assms(6) by (auto simp: isolation_round_def)
    then show ?thesis using True fold_delete_less [OF _ assms(4)] values_from_fold_delete [OF assms(1)] by auto
  next
    case False
    then have "m' = m1" "b = b1" using one assms(6) by (auto simp: isolation_round_def split: if_splits)
    moreover have "b1 \<longrightarrow> invalid \<noteq> []" using one by auto
    ultimately show ?thesis using False r by auto
  qed
qed

section \<open>Suppliers\<close>

definition suppliers_of :: "'a cap_node_scheme list \<Rightarrow> string \<Rightarrow> string list" where
  "suppliers_of cs cap = concat (map (\<lambda>c. replicate (count_list (nd_provides c) cap) (nd_id c)) cs)"

lemma supplies_one: "get_or (fold (\<lambda>cap m. AList.update cap (get_or m cap [] @ [i]) m) caps m) cap [] = get_or m cap [] @ replicate (count_list caps cap) i
    \<and> (\<forall>ids. map_of (fold (\<lambda>cap m. AList.update cap (get_or m cap [] @ [i]) m) caps m) cap = Some ids \<longrightarrow> ids = [] \<longrightarrow> map_of m cap = Some [])"
proof (induction caps arbitrary: m)
  case (Cons c caps)
  show ?case using Cons.IH [of "AList.update c (get_or m c [] @ [i]) m"]
    by (auto simp: update_conv' replicate_app_Cons_same split: if_splits)
qed auto

lemma supplies_all:
  "get_or (fold (\<lambda>c. fold (\<lambda>cap m. AList.update cap (get_or m cap [] @ [nd_id c]) m) (nd_provides c)) cs m) cap [] = get_or m cap [] @ suppliers_of cs cap
    \<and> (\<forall>ids. map_of (fold (\<lambda>c. fold (\<lambda>cap m. AList.update cap (get_or m cap [] @ [nd_id c]) m) (nd_provides c)) cs m) cap = Some ids
        \<longrightarrow> ids = [] \<longrightarrow> map_of m cap = Some [])"
proof (induction cs arbitrary: m)
  case (Cons c cs)
  show ?case
    using Cons.IH [of "fold (\<lambda>cap m. AList.update cap (get_or m cap [] @ [nd_id c]) m) (nd_provides c) m"]
      supplies_one [of "nd_id c" "nd_provides c" m cap] by (auto simp: suppliers_of_def)
qed (simp add: suppliers_of_def)

lemma supplies_get: "map_of (supplies cs) cap = (if suppliers_of cs cap = [] then None else Some (suppliers_of cs cap))"
  using supplies_all [of cs "[]" cap] by (auto simp: supplies_def get_or_def split: option.splits)

lemma first_supplier_supplies: "first_supplier (supplies cs) cap = (case suppliers_of cs cap of [] \<Rightarrow> None | p # ps \<Rightarrow> Some p)"
  by (simp add: first_supplier_def supplies_get split: list.split)

lemma suppliers_of_set: "set (suppliers_of cs cap) = {p. supplier cs cap p}"
  by (auto simp: suppliers_of_def supplier_def count_list_0_iff)

lemma keyed_ids_values: "keyed_ids m \<Longrightarrow> nd_id ` snd ` set m = fst ` set m"
  by (force simp: keyed_ids_def)

lemma supplies_within:
  assumes "keyed_ids m"
  shows "supplied_within (supplies (map_values m)) (fst ` set m)"
  unfolding supplied_within_def
proof (intro allI impI)
  fix cap p assume "first_supplier (supplies (map_values m)) cap = Some p"
  then have "p \<in> set (suppliers_of (map_values m) cap)" by (auto simp: first_supplier_supplies split: list.splits)
  then have "supplier (map_values m) cap p" by (simp add: suppliers_of_set)
  from supplier_node [OF this] show "p \<in> fst ` set m" using keyed_ids_values [OF assms] by simp
qed

lemma supplies_members: "keyed_ids m \<Longrightarrow> (cap, ids) \<in> set (supplies (map_values m)) \<Longrightarrow> distinct (map fst (supplies (map_values m))) \<Longrightarrow> set ids \<subseteq> keys_of m"
proof -
  assume m: "keyed_ids m" and "(cap, ids) \<in> set (supplies (map_values m))" "distinct (map fst (supplies (map_values m)))"
  then have "ids = suppliers_of (map_values m) cap" using supplies_get [of "map_values m" cap] by (auto split: if_splits)
  then show ?thesis using supplier_node [of "map_values m" cap] keyed_ids_values [OF m] by (auto simp: suppliers_of_set keys_of_def)
qed

lemma distinct_fold_update: "distinct (map fst m) \<Longrightarrow> distinct (map fst (fold (\<lambda>x m. AList.update (k x) (v x m) m) xs m))"
  by (induction xs arbitrary: m) (auto simp: distinct_update)

lemma supplies_distinct: "distinct (map fst (supplies cs))"
proof -
  have "distinct (map fst m) \<Longrightarrow> distinct (map fst (fold (\<lambda>c. fold (\<lambda>cap m. AList.update cap (get_or m cap [] @ [nd_id c]) m) (nd_provides c)) cs m))" for m
  proof (induction cs arbitrary: m)
    case (Cons c cs)
    from distinct_fold_update [OF Cons.prems, of "\<lambda>cap. cap" "\<lambda>cap m. get_or m cap [] @ [nd_id c]"] Cons.IH show ?case by simp
  qed simp
  then show ?thesis by (simp add: supplies_def)
qed

section \<open>What is invalid\<close>

definition bad_ids :: "string set \<Rightarrow> (string \<times> string) list \<Rightarrow> string \<times> string list \<Rightarrow> string set" where
  "bad_ids host confirmed entry = (if fst entry \<in> host then set (snd entry)
     else if 1 < length (snd entry) then {i \<in> set (snd entry). Some i \<noteq> map_of confirmed (fst entry)} else {})"

lemma capability_conflict_keys:
  "keys_of (capability_conflict host confirmed (cap, ids) invalid) = keys_of invalid \<union> bad_ids host confirmed (cap, ids)
   \<and> (distinct (map fst invalid) \<longrightarrow> distinct (map fst (capability_conflict host confirmed (cap, ids) invalid)))"
proof -
  have k: "keys_of (fold (\<lambda>i m. if p i then m else AList.update i e m) ids m) = keys_of m \<union> {i \<in> set ids. \<not> p i}
    \<and> (distinct (map fst m) \<longrightarrow> distinct (map fst (fold (\<lambda>i m. if p i then m else AList.update i e m) ids m)))" for p and e :: string and m :: errors
    by (induction ids arbitrary: m) (auto simp: distinct_update)
  show ?thesis using k [of "\<lambda>_. False" "host_conflict_error cap" invalid]
      k [of "\<lambda>i. Some i = map_of confirmed cap" "providers_error cap ids" invalid]
    by (auto simp: capability_conflict_def bad_ids_def)
qed

lemma capability_conflicts_keys:
  "keys_of (fold (capability_conflict host confirmed) entries invalid) = keys_of invalid \<union> (\<Union>entry\<in>set entries. bad_ids host confirmed entry)
   \<and> (distinct (map fst invalid) \<longrightarrow> distinct (map fst (fold (capability_conflict host confirmed) entries invalid)))"
proof (induction entries arbitrary: invalid)
  case (Cons x entries)
  obtain cap ids where x: "x = (cap, ids)" by (cases x)
  show ?case using Cons.IH [of "capability_conflict host confirmed (cap, ids) invalid"]
      capability_conflict_keys [of host confirmed cap ids invalid] by (auto simp: x)
qed simp

lemma bad_ids_members: "bad_ids host confirmed (cap, ids) \<subseteq> set ids"
  by (auto simp: bad_ids_def)

lemma find_invalid_members:
  assumes "names_members conflicts" "keyed_ids m"
  shows "\<exists>invalid. find_invalid conflicts host previous m = Inr invalid \<and> keys_of invalid \<subseteq> keys_of m \<and> distinct (map fst invalid)"
proof -
  let ?s = "supplies (map_values m)"
  define invalid where "invalid = fold (capability_conflict host (confirmed_providers previous)) ?s (conflicts m previous)"
  have "(\<Union>entry\<in>set ?s. bad_ids host (confirmed_providers previous) entry) \<subseteq> keys_of m"
    using supplies_members [OF assms(2) _ supplies_distinct] bad_ids_members by fastforce
  moreover have "keys_of (conflicts m previous) \<subseteq> keys_of m" "distinct (map fst (conflicts m previous))"
    using assms by (auto simp: names_members_def)
  ultimately have inv: "keys_of invalid \<subseteq> keys_of m" "distinct (map fst invalid)"
    using capability_conflicts_keys [of host "confirmed_providers previous" ?s "conflicts m previous"]
    unfolding invalid_def by (blast dest: subset_trans)+
  show ?thesis
  proof (cases "invalid = []")
    case True
    obtain ids where "requiredCycles m ?s host = Inr ids" "set ids \<subseteq> fst ` set m" "distinct ids"
      using requiredCycles_result(1) [OF supplies_within [OF assms(2)]] by blast
    then show ?thesis using True by (auto simp: find_invalid_def invalid_def [symmetric] Let_def keys_of_def comp_def)
  qed (use inv in \<open>simp add: find_invalid_def invalid_def [symmetric] Let_def\<close>)
qed

section \<open>The loop ends\<close>

lemma isolation_loop_ends:
  assumes "names_members conflicts" "keyed_ids previous" "snd ` set previous \<subseteq> A" "values_from A m"
  shows "\<exists>m' d'. isolation_loop conflicts host previous (m, d) = Some (Inr (m', d')) \<and> values_from A m' \<and> keys_of m' \<subseteq> keys_of m
    \<and> find_invalid conflicts host previous m' = Inr []"
  using assms(4)
proof (induction "weight previous m" arbitrary: m d rule: less_induct)
  case less
  then have "keyed_ids m" by (simp add: values_from_def)
  then obtain invalid where inv: "find_invalid conflicts host previous m = Inr invalid" "keys_of invalid \<subseteq> keys_of m" "distinct (map fst invalid)"
    using find_invalid_members [OF assms(1)] by blast
  obtain m1 d1 b where round: "isolation_round previous invalid (m, d) = (m1, d1, b)" by (metis prod_cases3)
  note r = isolation_round_less [OF less.prems assms(2,3) inv(2,3) round]
  have unfold: "isolation_loop conflicts host previous (m, d) = (if b then isolation_loop conflicts host previous (m1, d1) else Some (Inr (m1, d1)))"
    by (subst isolation_loop.simps) (simp add: inv(1) round)
  show ?case
  proof (cases b)
    case True
    with r obtain m' d' where "isolation_loop conflicts host previous (m1, d1) = Some (Inr (m', d'))" "values_from A m'"
      "keys_of m' \<subseteq> keys_of m1" "find_invalid conflicts host previous m' = Inr []"
      using less.hyps [of m1 d1] by blast
    with r True unfold show ?thesis by auto
  next
    case False
    then have "m1 = m" "invalid = []" using r by simp_all
    with False unfold less.prems inv(1) show ?thesis by auto
  qed
qed

text \<open>The check of the shared Web resources names candidates only.\<close>

lemma resource_conflict_keys:
  "keys_of (resource_conflict previous (key, members) invalid) \<subseteq> keys_of invalid \<union> nd_id ` set members
   \<and> (distinct (map fst invalid) \<longrightarrow> distinct (map fst (resource_conflict previous (key, members) invalid)))"
proof -
  have k: "keys_of (fold (\<lambda>c m. if p c then m else AList.update (nd_id c) (resource_error c) m) cs m) \<subseteq> keys_of m \<union> nd_id ` set cs
    \<and> (distinct (map fst m) \<longrightarrow> distinct (map fst (fold (\<lambda>c m. if p c then m else AList.update (nd_id c) (resource_error c) m) cs m)))"
    for p and cs :: "'a plugin_candidate_scheme list" and m
  proof (induction cs arbitrary: m)
    case (Cons c cs)
    show ?case using Cons.IH [of "if p c then m else AList.update (nd_id c) (resource_error c) m"] by (auto simp: distinct_update)
  qed simp
  show ?thesis using k [of _ members invalid] by (auto simp: resource_conflict_def Let_def)
qed

lemma resource_groups_members: "(key, members) \<in> set (resource_groups cs) \<Longrightarrow> set members \<subseteq> set cs"
proof -
  let ?add = "\<lambda>c groups. case sharedWebResourceKey c of None \<Rightarrow> groups | Some key \<Rightarrow> AList.update key (get_or groups key [] @ [c]) groups"
  have mem: "(k, ms) \<in> set (AList.update key v m) \<Longrightarrow> k = key \<and> ms = v \<or> (k, ms) \<in> set m" for k ms key v and m :: "(string \<times> 'a plugin_candidate_scheme list) list"
    by (induction m) (auto split: if_splits)
  have "\<forall>(k, ms)\<in>set m. set ms \<subseteq> S \<Longrightarrow> set cs \<subseteq> S \<Longrightarrow> \<forall>(k, ms)\<in>set (fold ?add cs m). set ms \<subseteq> S" for m S
  proof (induction cs arbitrary: m)
    case (Cons c cs)
    have "\<forall>(k, ms)\<in>set (?add c m). set ms \<subseteq> S"
      using Cons.prems by (fastforce simp: get_or_def dest!: mem dest: map_of_SomeD split: option.splits)
    then show ?case using Cons by simp
  qed simp
  from this [of "[]" "set cs"] show "(key, members) \<in> set (resource_groups cs) \<Longrightarrow> set members \<subseteq> set cs"
    by (auto simp: resource_groups_def)
qed

lemma conflictingWebResources_names: "names_members conflictingWebResources"
  unfolding names_members_def
proof (intro allI impI)
  fix m previous :: "(string \<times> 'a plugin_candidate_scheme) list" assume m: "keyed_ids m"
  have "\<forall>(k, ms)\<in>set gs. nd_id ` set ms \<subseteq> keys_of m \<Longrightarrow> keys_of invalid \<subseteq> keys_of m \<Longrightarrow> distinct (map fst invalid)
    \<Longrightarrow> keys_of (fold (resource_conflict (map_values previous)) gs invalid) \<subseteq> keys_of m
      \<and> distinct (map fst (fold (resource_conflict (map_values previous)) gs invalid))" for gs invalid
  proof (induction gs arbitrary: invalid)
    case (Cons g gs)
    obtain k ms where g: "g = (k, ms)" by (cases g)
    have "nd_id ` set ms \<subseteq> keys_of m" using Cons.prems(1) g by simp
    then have "keys_of (resource_conflict (map_values previous) (k, ms) invalid) \<subseteq> keys_of m"
      "distinct (map fst (resource_conflict (map_values previous) (k, ms) invalid))"
      using resource_conflict_keys [of "map_values previous" k ms invalid] Cons.prems(2,3) by blast+
    then show ?case using Cons.prems(1) Cons.IH by (simp add: g)
  qed simp
  moreover have "\<forall>(k, ms)\<in>set (resource_groups (map_values m)). nd_id ` set ms \<subseteq> keys_of m"
    using resource_groups_members [of _ _ "map_values m"] keyed_ids_values [OF m] by (fastforce simp: keys_of_def)
  ultimately show "keys_of (conflictingWebResources m previous) \<subseteq> keys_of m \<and> distinct (map fst (conflictingWebResources m previous))"
    by (simp add: conflictingWebResources_def)
qed

lemma effective_from_ok:
  assumes "effective_from m cs = Inr m'" "keyed_ids m" "\<forall>c\<in>set cs. js_trim (nd_id c) = nd_id c"
  shows "keyed_ids m' \<and> m' = m @ map (\<lambda>c. (nd_id c, c)) cs \<and> (\<forall>c\<in>set cs. nd_id c \<noteq> [])"
  using assms
proof (induction cs arbitrary: m)
  case (Cons c cs)
  then have c: "js_trim (nd_id c) = nd_id c" "nd_id c \<noteq> []" "nd_id c \<notin> fst ` set m"
    by (auto simp: Let_def has_key_fst split: if_splits)
  then have up: "AList.update (nd_id c) c m = m @ [(nd_id c, c)]" by (simp add: update_fresh)
  then have "effective_from (m @ [(nd_id c, c)]) cs = Inr m'" using Cons.prems(1) c by (simp add: Let_def has_key_fst)
  from Cons.IH [OF this] Cons.prems(2,3) c keyed_ids_update [OF Cons.prems(2) refl, of c] up show ?case by auto
qed simp

section \<open>What is left can be planned\<close>

definition succs :: "edges \<Rightarrow> string \<Rightarrow> string set" where
  "succs es n = set (get_or es n [])"

text \<open>A negative answer of the search: some set is closed under the edges, holds everything that
  was pending and not the target.\<close>

lemma reaches_id_false:
  assumes "\<not> reaches_id es target pending seen" "\<forall>x\<in>seen. succs es x \<subseteq> seen \<union> set pending" "target \<notin> seen"
  shows "\<exists>S. set pending \<union> seen \<subseteq> S \<and> target \<notin> S \<and> (\<forall>x\<in>S. succs es x \<subseteq> S)"
  using assms
proof (induction es target pending seen rule: reaches_id.induct)
  case (2 es target i pending seen)
  then have i: "i \<noteq> target" by auto
  show ?case
  proof (cases "i \<in> seen")
    case True
    have "\<not> reaches_id es target pending seen" "\<forall>x\<in>seen. succs es x \<subseteq> seen \<union> set pending"
      using 2(3,4) i True by auto
    from 2(1) [OF i True this 2(5)] obtain S where "set pending \<union> seen \<subseteq> S" "target \<notin> S" "\<forall>x\<in>S. succs es x \<subseteq> S" by blast
    with True show ?thesis by (intro exI [of _ S]) auto
  next
    case False
    let ?pending = "rev (get_or es i []) @ pending"
    have "\<not> reaches_id es target ?pending (insert i seen)" using 2(3) i False by simp
    moreover have "\<forall>x\<in>insert i seen. succs es x \<subseteq> insert i seen \<union> set ?pending" using 2(4) by (auto simp: succs_def)
    moreover have "target \<notin> insert i seen" using 2(5) i by simp
    ultimately obtain S where "set ?pending \<union> insert i seen \<subseteq> S" "target \<notin> S" "\<forall>x\<in>S. succs es x \<subseteq> S"
      using 2(2) [OF i False] by blast
    then show ?thesis by (intro exI [of _ S]) auto
  qed
qed auto

definition among :: "string set \<Rightarrow> edges \<Rightarrow> (string \<times> string) set" where
  "among U es = {(n, p). p \<in> succs es n \<and> n \<in> U \<and> p \<in> U}"

lemma reaches_id_path:
  assumes "\<not> reaches_id es target [p] {}"
  shows "(p, target) \<notin> (among U es)\<^sup>*"
proof
  assume path: "(p, target) \<in> (among U es)\<^sup>*"
  obtain S where S: "p \<in> S" "target \<notin> S" "\<forall>x\<in>S. succs es x \<subseteq> S" using reaches_id_false [OF assms] by auto
  from path have "target \<in> S" by (induction rule: rtrancl_induct) (use S in \<open>auto simp: among_def\<close>)
  with S(2) show False by simp
qed

lemma among_add:
  assumes "acyclic (among U es)" "\<not> reaches_id es n [p] {}"
  shows "acyclic (among U (AList.update n (get_or es n [] @ [p]) es))"
proof -
  have "among U (AList.update n (get_or es n [] @ [p]) es) \<subseteq> insert (n, p) (among U es)"
    by (auto simp: among_def succs_def split: if_splits)
  moreover have "acyclic (insert (n, p) (among U es))" using assms reaches_id_path by (simp add: acyclic_insert)
  ultimately show ?thesis by (rule acyclic_subset [rotated])
qed

definition linked :: "edges \<Rightarrow> edges \<Rightarrow> string \<Rightarrow> string list \<Rightarrow> bool" where
  "linked supplied es n caps \<longleftrightarrow> (\<forall>cap\<in>set caps. \<forall>p. first_supplier supplied cap = Some p \<longrightarrow> p \<noteq> [] \<longrightarrow> p \<noteq> n \<longrightarrow> p \<in> succs es n)"

lemma linked_mono: "linked supplied es n caps \<Longrightarrow> (\<And>x. succs es x \<subseteq> succs es' x) \<Longrightarrow> linked supplied es' n caps"
  by (fastforce simp: linked_def)

lemma succs_add: "succs es x \<subseteq> succs (AList.update n (get_or es n [] @ [p]) es) x"
  by (auto simp: succs_def)

lemma keep_optional_spec:
  assumes "keep_optional supplied c caps (es, d) = (kept, es', d')" "acyclic (among U es)"
  shows "acyclic (among U es') \<and> (\<forall>x. succs es x \<subseteq> succs es' x) \<and> linked supplied es' (nd_id c) kept \<and> set kept \<subseteq> set caps"
  using assms
proof (induction caps arbitrary: es d kept)
  case (Cons cap caps)
  show ?case
  proof (cases "first_supplier supplied cap")
    case None
    then obtain kept' where "keep_optional supplied c caps (es, d) = (kept', es', d')" "kept = cap # kept'"
      using Cons.prems(1) by (auto split: prod.splits)
    with Cons.IH [of es d kept'] Cons.prems(2) None show ?thesis by (auto simp: linked_def)
  next
    case (Some p)
    let ?n = "nd_id c"
    show ?thesis
    proof (cases "p = [] \<or> p = ?n \<or> p \<in> set (get_or es ?n [])")
      case True
      then obtain kept' where k: "keep_optional supplied c caps (es, d) = (kept', es', d')" "kept = cap # kept'"
        using Cons.prems(1) Some by (auto split: prod.splits)
      from Cons.IH [OF k(1) Cons.prems(2)] True Some k(2) show ?thesis by (auto simp: linked_def succs_def)
    next
      case other: False
      show ?thesis
      proof (cases "reaches_id es ?n [p] {}")
        case True
        then obtain d1 where "keep_optional supplied c caps (es, d1) = (kept, es', d')"
          using Cons.prems(1) Some other by auto
        from Cons.IH [OF this Cons.prems(2)] show ?thesis by auto
      next
        case False
        let ?es = "AList.update ?n (get_or es ?n [] @ [p]) es"
        obtain kept' where k: "keep_optional supplied c caps (?es, d) = (kept', es', d')" "kept = cap # kept'"
          using Cons.prems(1) Some other False by (auto split: prod.splits)
        have ih: "acyclic (among U es') \<and> (\<forall>x. succs ?es x \<subseteq> succs es' x) \<and> linked supplied es' ?n kept' \<and> set kept' \<subseteq> set caps"
          by (rule Cons.IH [OF k(1) among_add [OF Cons.prems(2) False]])
        have "p \<in> succs ?es ?n" by (simp add: succs_def)
        then have "p \<in> succs es' ?n" using ih by blast
        with ih k(2) Some succs_add [of es _ ?n p] show ?thesis by (auto simp: linked_def)
      qed
    qed
  qed
qed (simp add: linked_def)

text \<open>The nodes that are planned are the candidates with fewer optional capabilities.\<close>

definition trimmed_to :: "'a cap_node_scheme \<Rightarrow> 'a cap_node_scheme \<Rightarrow> bool" where
  "trimmed_to c n \<longleftrightarrow> nd_id n = nd_id c \<and> nd_provides n = nd_provides c \<and> nd_requires n = nd_requires c"

lemma planning_nodes_spec:
  assumes "planning_nodes supplied cs (es, d) = (ns, es', d')" "acyclic (among U es)"
  shows "acyclic (among U es') \<and> (\<forall>x. succs es x \<subseteq> succs es' x) \<and> list_all2 trimmed_to cs ns
    \<and> (\<forall>n\<in>set ns. linked supplied es' (nd_id n) (nd_optional n))"
  using assms
proof (induction cs arbitrary: es d ns)
  case (Cons c cs)
  obtain kept es1 d1 where one: "keep_optional supplied c (nd_optional c) (es, d) = (kept, es1, d1)" by (metis prod_cases3)
  then obtain ns' where rest: "planning_nodes supplied cs (es1, d1) = (ns', es', d')" "ns = c\<lparr>nd_optional := kept\<rparr> # ns'"
    using Cons.prems(1) by (auto split: prod.splits)
  note k = keep_optional_spec [OF one Cons.prems(2)]
  from Cons.IH [OF rest(1)] k have ih: "acyclic (among U es') \<and> (\<forall>x. succs es1 x \<subseteq> succs es' x) \<and> list_all2 trimmed_to cs ns'
    \<and> (\<forall>n\<in>set ns'. linked supplied es' (nd_id n) (nd_optional n))" by blast
  have "linked supplied es' (nd_id c) kept" by (rule linked_mono [of _ es1]) (use k ih in auto)
  moreover have "trimmed_to c (c\<lparr>nd_optional := kept\<rparr>)" by (simp add: trimmed_to_def)
  ultimately show ?case using ih k rest(2) by auto
qed simp

lemma trimmed_supplier: "list_all2 trimmed_to cs ns \<Longrightarrow> supplier ns cap p = supplier cs cap p"
  by (induction rule: list_all2_induct) (auto simp: supplier_def trimmed_to_def)

lemma trimmed_node:
  "list_all2 trimmed_to cs ns \<Longrightarrow> c \<in> set cs \<Longrightarrow> \<exists>n\<in>set ns. trimmed_to c n"
  "list_all2 trimmed_to cs ns \<Longrightarrow> n \<in> set ns \<Longrightarrow> \<exists>c\<in>set cs. trimmed_to c n"
  by (induction rule: list_all2_induct) auto

lemma trimmed_blocked:
  assumes "list_all2 trimmed_to cs ns"
  shows "blocked ns host i \<longleftrightarrow> blocked cs host i"
proof
  show "blocked ns host i \<Longrightarrow> blocked cs host i"
  proof (induction rule: blocked.induct)
    case (blockedI n cap)
    obtain c where c: "c \<in> set cs" "trimmed_to c n" using trimmed_node(2) [OF assms blockedI(1)] by blast
    have "blocked cs host (nd_id c)"
      by (rule blocked.blockedI [OF c(1), of cap]) (use blockedI c(2) trimmed_supplier [OF assms] in \<open>auto simp: trimmed_to_def\<close>)
    with c(2) show ?case by (simp add: trimmed_to_def)
  qed
  show "blocked cs host i \<Longrightarrow> blocked ns host i"
  proof (induction rule: blocked.induct)
    case (blockedI c cap)
    obtain n where n: "n \<in> set ns" "trimmed_to c n" using trimmed_node(1) [OF assms blockedI(1)] by blast
    have "blocked ns host (nd_id n)"
      by (rule blocked.blockedI [OF n(1), of cap]) (use blockedI n(2) trimmed_supplier [OF assms] in \<open>auto simp: trimmed_to_def\<close>)
    with n(2) show ?case by (simp add: trimmed_to_def)
  qed
qed

lemma trimmed_declared: "list_all2 trimmed_to cs ns \<Longrightarrow> well_declared cs host \<Longrightarrow> well_declared ns host"
proof -
  assume t: "list_all2 trimmed_to cs ns"
  then have "map nd_id ns = map nd_id cs" "map nd_provides ns = map nd_provides cs"
    by (induction rule: list_all2_induct) (auto simp: trimmed_to_def)
  moreover from this(1) have "map (\<lambda>c. js_trim (nd_id c)) ns = map (\<lambda>c. js_trim (nd_id c)) cs"
    by (metis (no_types, lifting) comp_apply list.map_comp map_eq_conv)
  moreover have "(\<forall>c\<in>set ns. js_trim (nd_id c) \<noteq> []) \<longleftrightarrow> [] \<notin> set (map (\<lambda>c. js_trim (nd_id c)) ns)"
    "(\<forall>c\<in>set cs. js_trim (nd_id c) \<noteq> []) \<longleftrightarrow> [] \<notin> set (map (\<lambda>c. js_trim (nd_id c)) cs)" by (auto simp: image_iff) 
  ultimately show "well_declared cs host \<Longrightarrow> well_declared ns host" by (simp add: well_declared_def)
qed

lemma unavailable_loop_inv:
  assumes "\<And>u u' b. I u \<Longrightarrow> unavailable_pass host supplied cs (u, False) = (u', b) \<Longrightarrow> I u'" "I u"
  shows "I (unavailable_loop host supplied cs u)"
  using assms
proof (induction host supplied cs u rule: unavailable_loop.induct)
  case (1 host supplied cs u)
  obtain u' b where pass: "unavailable_pass host supplied cs (u, False) = (u', b)" by fastforce
  have "I u'" by (rule 1(2) [OF 1(3) pass])
  then show ?case using 1(1) [OF pass [symmetric]] 1(2) pass by (subst unavailable_loop.simps) auto
qed

lemma unavailable_blocked:
  assumes unique: "\<And>cap. length (suppliers_of cs cap) \<le> 1"
  shows "unavailable_loop host (supplies cs) cs {} \<subseteq> {i. blocked cs host i}"
proof (rule unavailable_loop_inv)
  have pass: "fst (unavailable_pass host (supplies cs) ds (u, b)) \<subseteq> {i. blocked cs host i}"
    if "set ds \<subseteq> set cs" "u \<subseteq> {i. blocked cs host i}" for ds u b
    using that
  proof (induction ds arbitrary: u b)
    case (Cons c ds)
    show ?case
    proof (cases "nd_id c \<notin> u \<and> cannot_start host (supplies cs) u c")
      case True
      then obtain cap where cap: "cap \<in> set (nd_requires c)" "cap \<notin> host"
        "\<not> has_key (supplies cs) cap \<or> (case first_supplier (supplies cs) cap of Some p \<Rightarrow> p \<in> u | None \<Rightarrow> False)"
        by (auto simp: cannot_start_def list_ex_iff)
      have "blocked cs host p" if p: "supplier cs cap p" for p
      proof -
        have "p \<in> set (suppliers_of cs cap)" using p by (simp add: suppliers_of_set)
        then have "suppliers_of cs cap = [p]" using unique [of cap] by (cases "suppliers_of cs cap") auto
        with cap(3) have "p \<in> u" by (simp add: first_supplier_supplies supplies_get has_key_iff)
        with Cons.prems(2) show ?thesis by blast
      qed
      then have "blocked cs host (nd_id c)" using blocked.blockedI [of c cs cap host] cap Cons.prems(1) by simp
      then show ?thesis using Cons.IH [of "insert (nd_id c) u" True] Cons.prems True by auto
    next
      case False
      then show ?thesis using Cons.IH [of u b] Cons.prems by auto
    qed
  qed simp
  fix u u' b assume "u \<subseteq> {i. blocked cs host i}" "unavailable_pass host (supplies cs) cs (u, False) = (u', b)"
  with pass [of cs u False] show "u' \<subseteq> {i. blocked cs host i}" by simp
qed simp

text \<open>Nothing invalid: every capability has one supplier, none of the host's, and the mandatory
  requirements among the candidates that can start have no cycle.\<close>

lemma suppliers_distinct:
  assumes "distinct (map nd_id cs)" "\<forall>c\<in>set cs. distinct (nd_provides c)"
  shows "distinct (suppliers_of cs cap)"
  using assms
proof (induction cs)
  case (Cons c cs)
  have "nd_id c \<notin> set (suppliers_of cs cap)" using Cons.prems(1) supplier_node [of cs cap "nd_id c"] by (auto simp: suppliers_of_set)
  moreover have "count_list (nd_provides c) cap \<le> 1" using Cons.prems(2) by (simp add: distinct_count_atmost_1 flip: count_mset)
  ultimately show ?case using Cons by (auto simp: suppliers_of_def le_Suc_eq)
qed (simp add: suppliers_of_def)

lemma keyed_ids_map: "keyed_ids m \<Longrightarrow> map nd_id (map_values m) = map fst m"
  by (auto simp: keyed_ids_def)

lemma valid_suppliers:
  assumes m: "keyed_ids m" "\<forall>c\<in>snd ` set m. distinct (nd_provides c)" and none: "find_invalid conflicts host previous m = Inr []"
  shows "length (suppliers_of (map_values m) cap) \<le> 1" and "suppliers_of (map_values m) cap \<noteq> [] \<Longrightarrow> cap \<notin> host"
    and "requiredCycles m (supplies (map_values m)) host = Inr []"
proof -
  let ?s = "supplies (map_values m)" and ?c = "confirmed_providers previous"
  have inv: "fold (capability_conflict host ?c) ?s (conflicts m previous) = []"
    using none by (auto simp: find_invalid_def Let_def split: if_splits)
  then show "requiredCycles m ?s host = Inr []" using none by (auto simp: find_invalid_def Let_def)
  have bad: "bad_ids host ?c (cap, suppliers_of (map_values m) cap) = {}" if "suppliers_of (map_values m) cap \<noteq> []"
    using capability_conflicts_keys [of host ?c ?s "conflicts m previous"] inv that supplies_get [of "map_values m" cap]
    by (auto dest!: map_of_SomeD)
  have ids: "map nd_id (map_values m) = map fst m" by (rule keyed_ids_map [OF m(1)])
  have d: "distinct (suppliers_of (map_values m) cap)"
    by (rule suppliers_distinct) (use m ids in \<open>auto simp: keyed_ids_def simp del: map_map\<close>)
  show "cap \<notin> host" if "suppliers_of (map_values m) cap \<noteq> []" using bad [OF that] that by (auto simp: bad_ids_def split: if_splits)
  show "length (suppliers_of (map_values m) cap) \<le> 1"
  proof (rule ccontr)
    assume long: "\<not> length (suppliers_of (map_values m) cap) \<le> 1"
    then obtain p q rest where pq: "suppliers_of (map_values m) cap = p # q # rest"
      by (metis One_nat_def le_SucI le_zero_eq length_0_conv length_Cons list.exhaust not_less_eq_eq)
    then have "bad_ids host ?c (cap, p # q # rest) = {}" using bad by simp
    then have "Some p = map_of ?c cap" "Some q = map_of ?c cap" by (auto simp: bad_ids_def split: if_splits)
    then have "p = q" by (metis option.inject)
    with d pq show False by simp
  qed
qed

lemma valid_declared:
  assumes m: "keyed_ids m" "\<forall>c\<in>snd ` set m. distinct (nd_provides c) \<and> js_trim (nd_id c) = nd_id c" "[] \<notin> keys_of m"
    and none: "find_invalid conflicts host previous m = Inr []"
  shows "well_declared (map_values m) host"
proof -
  have p: "\<forall>c\<in>snd ` set m. distinct (nd_provides c)" using m(2) by blast
  have ids: "map nd_id (map_values m) = map fst m" using m(1) by (auto simp: keyed_ids_def)
  have trim: "map (\<lambda>c. js_trim (nd_id c)) (map_values m) = map nd_id (map_values m)" using m(2) by simp
  have count: "count_list (concat (map nd_provides cs)) cap = length (suppliers_of cs cap)" for cs :: "'a cap_node_scheme list" and cap
    by (induction cs) (simp_all add: suppliers_of_def)
  have "\<forall>cap. count_list (concat (map nd_provides (map_values m))) cap \<le> 1"
    unfolding count using valid_suppliers(1) [OF m(1) p none] by blast
  then have "distinct (concat (map nd_provides (map_values m)))"
    by (simp add: distinct_count_atmost_1 le_Suc_eq count_list_0_iff flip: count_mset) (metis count_list_0_iff)
  moreover have "set (concat (map nd_provides (map_values m))) \<inter> host = {}"
  proof -
    have "cap \<notin> host" if "cap \<in> set (concat (map nd_provides (map_values m)))" for cap
    proof (rule valid_suppliers(2) [OF m(1) p none])
      from that obtain c where "c \<in> set (map_values m)" "cap \<in> set (nd_provides c)" by auto
      then have "supplier (map_values m) cap (nd_id c)" by (auto simp: supplier_def)
      then show "suppliers_of (map_values m) cap \<noteq> []" using suppliers_of_set [of "map_values m" cap] by auto
    qed
    then show ?thesis by blast
  qed
  moreover have "\<forall>c\<in>set (map_values m). js_trim (nd_id c) \<noteq> []" using m by (force simp: keyed_ids_def keys_of_def)
  moreover have "distinct (map (\<lambda>c. js_trim (nd_id c)) (map_values m))" unfolding trim ids using m(1) by (simp add: keyed_ids_def)
  ultimately show ?thesis by (simp add: well_declared_def)
qed

lemma required_edges_succs:
  assumes "distinct (map nd_id cs)"
  shows "succs (required_edges supplied cs) n = {p. p \<noteq> [] \<and> p \<noteq> n \<and> (\<exists>c\<in>set cs. nd_id c = n \<and> (\<exists>cap\<in>set (nd_requires c). first_supplier supplied cap = Some p))}"
proof -
  let ?v = "\<lambda>c. in_order (filter (\<lambda>p. p \<noteq> [] \<and> p \<noteq> nd_id c) (List.map_filter (first_supplier supplied) (nd_requires c)))"
  have mem: "x \<in> set (List.map_filter f xs) \<longleftrightarrow> (\<exists>y\<in>set xs. f y = Some x)" for x :: string and f and xs :: "string list"
    by (induction xs) (auto split: option.splits)
  have "succs (fold (\<lambda>c. AList.update (nd_id c) (?v c)) cs es) n =
      (if n \<in> nd_id ` set cs then {p. \<exists>c\<in>set cs. nd_id c = n \<and> p \<in> set (?v c)} else succs es n)" for es
    using assms
  proof (induction cs arbitrary: es)
    case (Cons c cs)
    have ih: "succs (fold (\<lambda>c. AList.update (nd_id c) (?v c)) (c # cs) es) n =
      (if n \<in> nd_id ` set cs then {p. \<exists>c\<in>set cs. nd_id c = n \<and> p \<in> set (?v c)} else succs (AList.update (nd_id c) (?v c) es) n)"
      using Cons by simp
    show ?case
    proof (cases "n = nd_id c")
      case True
      with Cons.prems have out: "n \<notin> nd_id ` set cs" by simp
      then have no: "\<not> (\<exists>d\<in>set cs. nd_id d = n)" by (metis image_eqI)
      from True no out show ?thesis unfolding ih by (auto simp: succs_def)
    next
      case False
      then have "succs (AList.update (nd_id c) (?v c) es) n = succs es n" by (simp add: succs_def)
      with False show ?thesis unfolding ih by auto
    qed
  qed simp
  from this [of "[]"] show ?thesis by (auto simp: required_edges_def succs_def get_or_def mem)
qed

lemma required_acyclic:
  assumes m: "keyed_ids m" "\<forall>c\<in>snd ` set m. distinct (nd_provides c)" and none: "find_invalid conflicts host previous m = Inr []"
  shows "acyclic (among {i. \<not> blocked (map_values m) host i} (required_edges (supplies (map_values m)) (map_values m)))"
proof (rule acyclic_subset [OF requiredCycles_result(2) [OF supplies_within [OF m(1)] valid_suppliers(3) [OF assms]]])
  let ?cs = "map_values m"
  have b: "unavailable_loop host (supplies ?cs) ?cs {} \<subseteq> {i. blocked ?cs host i}"
    by (rule unavailable_blocked) (rule valid_suppliers(1) [OF assms])
  have ids: "distinct (map nd_id ?cs)" using keyed_ids_map [OF m(1)] m(1) by (simp add: keyed_ids_def del: map_map)
  have "needs m (supplies ?cs) n p" if "p \<in> succs (required_edges (supplies ?cs) ?cs) n" for n p
  proof -
    obtain c cap where c: "p \<noteq> []" "p \<noteq> n" "c \<in> set ?cs" "nd_id c = n" "cap \<in> set (nd_requires c)" "first_supplier (supplies ?cs) cap = Some p"
      using \<open>p \<in> succs _ n\<close> required_edges_succs [OF ids] by auto
    then have "map_of m n = Some c" using m(1) by (auto simp: keyed_ids_def)
    with c show ?thesis by (auto simp: needs_def)
  qed
  with b show "among {i. \<not> blocked ?cs host i} (required_edges (supplies ?cs) ?cs)
    \<subseteq> {(n, p). needs m (supplies ?cs) n p \<and> n \<notin> unavailable_loop host (supplies ?cs) ?cs {} \<and> p \<notin> unavailable_loop host (supplies ?cs) ?cs {}}"
    by (auto simp: among_def)
qed

lemma plan_isolated_ok:
  assumes m: "keyed_ids m" "\<forall>c\<in>snd ` set m. distinct (nd_provides c) \<and> js_trim (nd_id c) = nd_id c" "[] \<notin> keys_of m"
    and none: "find_invalid conflicts host previous m = Inr []"
  shows "\<exists>out. plan_isolated host m d = Inr out \<and> is_candidates out = map_values m"
proof -
  let ?cs = "map_values m" and ?U = "{i. \<not> blocked (map_values m) host i}"
  let ?s = "supplies ?cs"
  have p: "\<forall>c\<in>snd ` set m. distinct (nd_provides c)" using m(2) by blast
  have wd: "well_declared ?cs host" by (rule valid_declared [OF assms])
  have ids: "distinct (map nd_id ?cs)" using trim_ids [of ?cs] wd by (simp add: well_declared_def)
  obtain ns es d' where ns: "planning_nodes ?s ?cs (required_edges ?s ?cs, d) = (ns, es, d')" by (metis prod_cases3)
  note spec = planning_nodes_spec [OF ns required_acyclic [OF m(1) p none]]
  then have t: "list_all2 trimmed_to ?cs ns" by blast
  have "(n, q) \<in> among ?U es" if dep: "depends ns host q n" for q n
  proof -
    from dep obtain c cap where c: "c \<in> set ns" "nd_id c = n" "cap \<in> set (nd_requires c) \<union> set (nd_optional c)" "supplier ns cap q"
      and free: "q \<noteq> n" "\<not> blocked ns host q" "\<not> blocked ns host n" by (auto simp: depends_def)
    have sup: "supplier ?cs cap q" using c(4) trimmed_supplier [OF t] by simp
    then have "q \<in> set (suppliers_of ?cs cap)" by (simp add: suppliers_of_set)
    then have "suppliers_of ?cs cap = [q]" using valid_suppliers(1) [OF m(1) p none, of cap] by (cases "suppliers_of ?cs cap") auto
    then have first: "first_supplier ?s cap = Some q" by (simp add: first_supplier_supplies)
    obtain c' where c': "c' \<in> set ?cs" "trimmed_to c' c" using trimmed_node(2) [OF t c(1)] by blast
    have "q \<in> set (map nd_id ?cs)" using supplier_node [OF sup] by (simp only: set_map)
    then have "q \<noteq> []" unfolding keyed_ids_map [OF m(1)] using m(3) by (metis keys_of_def set_map)
    then have "q \<in> succs es n"
    proof (cases "cap \<in> set (nd_requires c)")
      case True
      then have "q \<in> succs (required_edges ?s ?cs) n"
        using required_edges_succs [OF ids] c c' first free(1) \<open>q \<noteq> []\<close> by (auto simp: trimmed_to_def)
      then show ?thesis using spec by blast
    next
      case False
      then have "cap \<in> set (nd_optional c)" using c(3) by simp
      moreover have "linked ?s es n (nd_optional c)" using spec c(1,2) by blast
      ultimately show ?thesis using first free(1) \<open>q \<noteq> []\<close> by (auto simp: linked_def)
    qed
    then show ?thesis using free trimmed_blocked [OF t] by (auto simp: among_def)
  qed
  then have "{(q, n). depends ns host q n} \<subseteq> (among ?U es)\<inverse>" by auto
  moreover have "acyclic ((among ?U es)\<inverse>)" using spec by (simp add: acyclic_converse)
  ultimately have "acyclic {(q, n). depends ns host q n}" by (rule acyclic_subset [rotated])
  then have "is_ok (planCapabilityGraph ns host)" using trimmed_declared [OF t wd] by (simp add: planning_iff)
  then show ?thesis by (auto simp: is_ok_iff plan_isolated_def Let_def ns)
qed

section \<open>Properties\<close>

lemma isolateGraph_result:
  assumes "names_members conflicts" "keyed_ids previous" "\<forall>c\<in>set cs. js_trim (nd_id c) = nd_id c"
  shows "(\<exists>e. effective_from [] cs = Inl e \<and> isolateGraph conflicts cs host previous = Some (Inl e))
    \<or> (\<exists>m d. effective_from [] cs = Inr (map (\<lambda>c. (nd_id c, c)) cs) \<and> isolation_loop conflicts host previous (map (\<lambda>c. (nd_id c, c)) cs, []) = Some (Inr (m, d))
        \<and> isolateGraph conflicts cs host previous = Some (plan_isolated host m d) \<and> values_from (set cs \<union> snd ` set previous) m
        \<and> keys_of m \<subseteq> nd_id ` set cs \<and> [] \<notin> nd_id ` set cs \<and> find_invalid conflicts host previous m = Inr [])"
proof (cases "effective_from [] cs")
  case (Inl e)
  then show ?thesis by (simp add: isolateGraph_def)
next
  case (Inr m0)
  let ?m = "map (\<lambda>c. (nd_id c, c)) cs"
  have m0: "keyed_ids m0" "m0 = ?m" "\<forall>c\<in>set cs. nd_id c \<noteq> []" using effective_from_ok [OF Inr _ assms(3)] by (auto simp: keyed_ids_def)
  have "values_from (set cs \<union> snd ` set previous) ?m" using m0(1,2) by (auto simp: values_from_def)
  from isolation_loop_ends [OF assms(1,2) _ this, of host "[]"] obtain m d where
    m: "isolation_loop conflicts host previous (?m, []) = Some (Inr (m, d))" "values_from (set cs \<union> snd ` set previous) m"
      "keys_of m \<subseteq> keys_of ?m" "find_invalid conflicts host previous m = Inr []" by auto
  have "keys_of ?m = nd_id ` set cs" by (force simp: keys_of_def)
  with m m0 Inr show ?thesis by (auto simp: isolateGraph_def)
qed

text \<open>C31: Isolation ends for every set of declarations with trimmed identifiers and every earlier
  generation stored under its own identifiers: every round replaces a candidate by its earlier
  version or removes one, and the searches of each round end. The loop of the source has no
  bound of its own.\<close>

theorem isolation_terminates:
  assumes "\<forall>c\<in>set cs. js_trim (nd_id c) = nd_id c" "keyed_ids previous"
  shows "\<exists>out. isolateCapabilityGraph cs host previous = Some out"
  unfolding isolateCapabilityGraph_def using isolateGraph_result [OF conflictingWebResources_names assms(2,1), of host] by blast

definition sample_plugin :: "string \<Rightarrow> string list \<Rightarrow> string list \<Rightarrow> string list \<Rightarrow> plugin_candidate" where
  "sample_plugin i provides requires optional = \<lparr>nd_id = i, nd_provides = provides, nd_requires = requires, nd_optional = optional,
     pc_manifestId = i, pc_version = ''1'', pc_revision = ''r'', pc_web = False\<rparr>"

definition sample_plugins :: "plugin_candidate list" where
  "sample_plugins = [sample_plugin ''a'' [''x@1''] [''y@1''] [], sample_plugin ''b'' [''y@1''] [''x@1''] [],
     sample_plugin ''c'' [''z@1''] [] [''w@1''], sample_plugin ''d'' [''w@1''] [''z@1''] [], sample_plugin ''e'' [''z@1''] [] []]"

definition sample_previous :: "(string \<times> plugin_candidate) list" where
  "sample_previous = [(''c'', sample_plugin ''c'' [''z@1''] [] [])]"

lemma sample_plugins_ok: "\<forall>c\<in>set sample_plugins. js_trim (nd_id c) = nd_id c" "keyed_ids sample_previous"
  "\<forall>c\<in>set sample_plugins \<union> snd ` set sample_previous. distinct (nd_provides c) \<and> js_trim (nd_id c) = nd_id c"
  "distinct (map nd_id sample_plugins)" "[] \<notin> nd_id ` set sample_plugins"
  by (simp_all add: sample_plugins_def sample_previous_def sample_plugin_def keyed_ids_def js_trim_def js_space_def)

lemma isolation_terminates_witness: "\<exists>out. isolateCapabilityGraph sample_plugins {''host@1''} sample_previous = Some out"
  by (rule isolation_terminates [OF sample_plugins_ok(1,2)])

text \<open>C12: What isolation keeps can always be planned: with trimmed, distinct, non-empty identifiers and
  no capability listed twice by one plug-in, in the candidates and in the earlier generation,
  isolation returns a plan and never an error. Every candidate kept is a candidate or its
  earlier version, under the same identifiers, and when nothing is in conflict all candidates
  are kept as they are.\<close>

theorem isolated_graphs_are_planned:
  assumes "\<forall>c\<in>set cs \<union> snd ` set previous. distinct (nd_provides c) \<and> js_trim (nd_id c) = nd_id c" "keyed_ids previous"
    and "distinct (map nd_id cs)" "[] \<notin> nd_id ` set cs"
  shows "\<exists>out. isolateCapabilityGraph cs host previous = Some (Inr out)
    \<and> set (is_candidates out) \<subseteq> set cs \<union> snd ` set previous \<and> nd_id ` set (is_candidates out) \<subseteq> nd_id ` set cs
    \<and> (find_invalid conflictingWebResources host previous (map (\<lambda>c. (nd_id c, c)) cs) = Inr [] \<longrightarrow> is_candidates out = cs)"
proof -
  let ?m = "map (\<lambda>c. (nd_id c, c)) cs"
  have trim: "\<forall>c\<in>set cs. js_trim (nd_id c) = nd_id c" using assms(1) by blast
  have "\<exists>m. effective_from e cs = Inr m" if "nd_id ` set cs \<inter> fst ` set e = {}" for e
    using that assms(3,4) trim
  proof (induction cs arbitrary: e)
    case (Cons c cs)
    then have "AList.update (nd_id c) c e = e @ [(nd_id c, c)]" by (intro update_fresh) auto
    with Cons.IH [of "AList.update (nd_id c) c e"] Cons.prems show ?case by (auto simp: Let_def has_key_fst)
  qed simp
  from this [of "[]"] have "\<nexists>e. effective_from [] cs = Inl e" by auto
  with isolateGraph_result [OF conflictingWebResources_names assms(2) trim, of host] obtain m d where
    m: "isolation_loop conflictingWebResources host previous (?m, []) = Some (Inr (m, d))"
      "isolateGraph conflictingWebResources cs host previous = Some (plan_isolated host m d)" "values_from (set cs \<union> snd ` set previous) m"
      "keys_of m \<subseteq> nd_id ` set cs" "[] \<notin> nd_id ` set cs" "find_invalid conflictingWebResources host previous m = Inr []" by blast
  have v: "keyed_ids m" "snd ` set m \<subseteq> set cs \<union> snd ` set previous" using m(3) by (auto simp: values_from_def)
  then obtain out where out: "plan_isolated host m d = Inr out" "is_candidates out = map_values m"
    using plan_isolated_ok [OF v(1) _ _ m(6), of d] assms(1) m(4,5) by blast
  have "m = ?m" if "find_invalid conflictingWebResources host previous ?m = Inr []"
    using m(1) by (subst (asm) isolation_loop.simps) (simp add: that isolation_round_def)
  then have "find_invalid conflictingWebResources host previous ?m = Inr [] \<longrightarrow> map_values m = cs" by (auto simp: comp_def)
  moreover have "nd_id ` set (map_values m) \<subseteq> nd_id ` set cs" using keyed_ids_values [OF v(1)] m(4) by (simp add: keys_of_def)
  ultimately show ?thesis using m(2) out v(2) by (auto simp: isolateCapabilityGraph_def)
qed

lemma isolated_graphs_are_planned_witness:
  "\<exists>out. isolateCapabilityGraph sample_plugins {''host@1''} sample_previous = Some (Inr out)
    \<and> nd_id ` set (is_candidates out) \<subseteq> {''a'', ''b'', ''c'', ''d'', ''e''}"
proof -
  have "nd_id ` set sample_plugins = {''a'', ''b'', ''c'', ''d'', ''e''}" by (simp add: sample_plugins_def sample_plugin_def)
  with isolated_graphs_are_planned [OF sample_plugins_ok(3,2,4,5), of "{''host@1''}"] show ?thesis by metis
qed

end
