(* ===== verification/MessageGrouping.thy ===== *)
theory MessageGrouping
  imports Complex_Main Prelude "HOL-Library.Multiset"
begin

text \<open>
  The queue that groups message fragments before they are delivered
  (\<open>src/src/messageGrouping.ts\<close>): its policy, the heuristics for an unfinished
  fragment, the readers of the persisted state, and every operation of
  \<open>MessageGroupingQueue\<close>; at its end the inputs that \<open>src/src/routing/messageGroupingForward.ts\<close>
  builds for the queue, and the lives of a queue over restarts.

  Times and durations are JavaScript numbers; a finite one is a rational, an infinite one or
  \<open>NaN\<close> is \<open>None\<close> (the rounding of doubles is not modelled). \<open>flushNow\<close>
  is asynchronous: it is split at its \<open>await\<close> into \<open>flush_begin\<close>, which hands
  the group over, and \<open>flush_success\<close> or \<open>flush_failure\<close>, the two ways the
  awaited delivery continues. The variables the continuation has captured are the entry of
  \<open>q_inFlight\<close> at the group's key. A timer is the entry of its key in
  \<open>q_timers\<close>, with its delay. The environment of a call holds the clock readings, the
  fresh UUID, the rendered time stamp of the snapshot, and which of its writes succeed.
\<close>

section \<open>Values\<close>

text \<open>Parsed JSON and the payloads carried along, with numbers as numbers.\<close>

datatype gval = GUndef | GNull | GBool bool | GNum "rat option" | GStr string | GArr "gval list" | GObj "(string \<times> gval) list"





datatype group_status = GPending | GDelivering

record payload =
  pa_routeKind :: string
  pa_record :: "(string \<times> gval) list"
  pa_extraValues :: "(string \<times> gval) list"

record group_item =
  it_identity :: string
  it_receivedAt :: rat
  it_incomplete :: bool
  it_payload :: payload

record group =
  gr_groupId :: string
  gr_key :: string
  gr_baseKey :: string
  gr_endpoint :: string
  gr_conversationKey :: string
  gr_sender :: string
  gr_replyTo :: "string option"
  gr_createdAt :: rat
  gr_updatedAt :: rat
  gr_deadlineAt :: rat
  gr_maxDeadlineAt :: rat
  gr_status :: group_status
  gr_attempts :: nat
  gr_lastError :: "string option"
  gr_items :: "group_item list"

record policy =
  po_enabled :: bool
  po_settleSeconds :: "rat option"
  po_incompleteSettleSeconds :: "rat option"
  po_maxWaitSeconds :: "rat option"

record settled_policy =
  sp_enabled :: bool
  sp_settleSeconds :: rat
  sp_incompleteSettleSeconds :: rat
  sp_maxWaitSeconds :: rat

section \<open>Policy and fragments\<close>

definition normalizedSeconds :: "rat option \<Rightarrow> rat \<Rightarrow> rat" where
  "normalizedSeconds value fallback = (case value of
     Some n \<Rightarrow> if 0 < n then max 1 (min 300 n) else fallback
   | None \<Rightarrow> fallback)"

definition normalizedPolicy :: "policy \<Rightarrow> settled_policy" where
  "normalizedPolicy p =
     (let settle = normalizedSeconds (po_settleSeconds p) 6;
          incomplete = max settle (normalizedSeconds (po_incompleteSettleSeconds p) 12)
      in \<lparr>sp_enabled = po_enabled p, sp_settleSeconds = settle, sp_incompleteSettleSeconds = incomplete,
          sp_maxWaitSeconds = max incomplete (normalizedSeconds (po_maxWaitSeconds p) 20)\<rparr>)"

text \<open>
  The text of a fragment is a list of UTF-16 code units, so that the Chinese connectives of
  the source can be written down. White space is that of the ECMAScript standard.
\<close>

definition unit_space :: "nat \<Rightarrow> bool" where
  "unit_space c \<longleftrightarrow> c \<in> {9, 10, 11, 12, 13, 32, 160, 5760, 8232, 8233, 8239, 8287, 12288, 65279} \<or> (8192 \<le> c \<and> c \<le> 8202)"

definition units_trim :: "nat list \<Rightarrow> nat list" where
  "units_trim s = rev (dropWhile unit_space (rev (dropWhile unit_space s)))"

definition ascii_lower :: "nat \<Rightarrow> nat" where
  "ascii_lower c = (if 65 \<le> c \<and> c \<le> 90 then c + 32 else c)"

definition open_marks :: "nat list" where
  "open_marks = [65292, 44, 65306, 58, 12289, 8230, 126, 8212, 45]"

definition connectives :: "nat list list" where
  "connectives = [[36824, 26377], [28982, 21518], [21478, 22806], [20197, 21450], [32780, 19988], [20294, 26159],
     [19981, 36807], [23601, 26159], [36825, 20010], [37027, 20010], [31561, 19979], [31245, 31561]]
     @ map (map of_char) [''and'', ''then'', ''also'', ''but'', ''because'']"

definition ends_with :: "'a list \<Rightarrow> 'a list \<Rightarrow> bool" where
  "ends_with s t \<longleftrightarrow> take (length t) (rev s) = rev t"

definition messageFragmentLooksIncomplete :: "nat list \<Rightarrow> bool" where
  "messageFragmentLooksIncomplete value =
     (let text = units_trim value in
      if text = [] then False
      else if last text \<in> set open_marks then True
      else list_ex (\<lambda>w. ends_with (map ascii_lower text) w) connectives)"

section \<open>Reading the persisted state\<close>








definition max_delivered :: nat where
  "max_delivered = 2000"

text \<open>\<open>readState\<close>: a missing file or a different version gives no state.\<close>

definition keep_last :: "nat \<Rightarrow> 'a list \<Rightarrow> 'a list" where
  "keep_last n xs = drop (length xs - n) xs"


section \<open>The queue\<close>

record enqueue_input =
  ei_key :: string
  ei_baseKey :: string
  ei_endpoint :: string
  ei_conversationKey :: string
  ei_sender :: string
  ei_replyTo :: "string option"
  ei_identity :: string
  ei_text :: "nat list"
  ei_policy :: policy
  ei_payload :: payload

record enqueue_result =
  er_groupId :: string
  er_accepted :: bool
  er_itemCount :: nat

record grouping_env =
  ge_now :: rat
  ge_armNow :: rat
  ge_uuid :: string
  ge_stamp :: string
  ge_writeError :: string
  ge_write :: bool
  ge_secondWrite :: bool

record grouping_file =
  gf_updatedAt :: string
  gf_pending :: "group list"
  gf_deliveredIdentities :: "string list"

record queue =
  q_groups :: "(string \<times> group) list"
  q_delivered :: "string list"
  q_timers :: "(string \<times> rat) list"
  q_inFlight :: "(string \<times> string list) list"
  q_disk :: "grouping_file option"

abbreviation group_at :: "queue \<Rightarrow> string \<Rightarrow> group option" where
  "group_at q k \<equiv> map_of (q_groups q) k"

definition put_group :: "group \<Rightarrow> queue \<Rightarrow> queue" where
  "put_group g q = q\<lparr>q_groups := AList.update (gr_key g) g (q_groups q)\<rparr>"

definition snapshot :: "grouping_env \<Rightarrow> queue \<Rightarrow> grouping_file" where
  "snapshot env q = \<lparr>gf_updatedAt = ge_stamp env, gf_pending = map_values (q_groups q), gf_deliveredIdentities = q_delivered q\<rparr>"

definition persist_queue :: "grouping_env \<Rightarrow> bool \<Rightarrow> queue \<Rightarrow> unit result \<times> queue" where
  "persist_queue env write q = (if write then (Inr (), q\<lparr>q_disk := Some (snapshot env q)\<rparr>) else (Inl WriteErr, q))"

definition disarm :: "string \<Rightarrow> queue \<Rightarrow> queue" where
  "disarm key q = q\<lparr>q_timers := AList.delete key (q_timers q)\<rparr>"

definition arm :: "grouping_env \<Rightarrow> group \<Rightarrow> queue \<Rightarrow> queue" where
  "arm env g q = (let q' = disarm (gr_key g) q in
     q'\<lparr>q_timers := AList.update (gr_key g) (max 0 (gr_deadlineAt g - ge_armNow env)) (q_timers q')\<rparr>)"

text \<open>The constructor: recovered groups are pending again and armed.\<close>

definition set_add :: "'a \<Rightarrow> 'a list \<Rightarrow> 'a list" where
  "set_add x xs = (if x \<in> set xs then xs else xs @ [x])"



text \<open>
  \<open>enqueue\<close>: the group a fragment joins is the one at its key or, for a fragment that
  answers no message, the only pending group of its base key.
\<close>

definition find_group :: "enqueue_input \<Rightarrow> queue \<Rightarrow> group option" where
  "find_group i q = (case group_at q (ei_key i) of Some g \<Rightarrow> Some g
   | None \<Rightarrow> (let candidates = (if truthy (ei_replyTo i) then []
         else filter (\<lambda>g. gr_baseKey g = ei_baseKey i \<and> gr_status g = GPending) (map_values (q_groups q)))
       in if length candidates = 1 then Some (hd candidates) else None))"

definition new_group :: "grouping_env \<Rightarrow> enqueue_input \<Rightarrow> group" where
  "new_group env i = \<lparr>gr_groupId = ''message-group-'' @ ge_uuid env, gr_key = ei_key i, gr_baseKey = ei_baseKey i,
     gr_endpoint = ei_endpoint i, gr_conversationKey = ei_conversationKey i, gr_sender = ei_sender i,
     gr_replyTo = ei_replyTo i, gr_createdAt = ge_now env, gr_updatedAt = ge_now env, gr_deadlineAt = ge_now env,
     gr_maxDeadlineAt = ge_now env + sp_maxWaitSeconds (normalizedPolicy (ei_policy i)) * 1000,
     gr_status = GPending, gr_attempts = 0, gr_lastError = None, gr_items = []\<rparr>"

definition add_fragment :: "grouping_env \<Rightarrow> enqueue_input \<Rightarrow> group \<Rightarrow> group" where
  "add_fragment env i g =
     (let policy = normalizedPolicy (ei_policy i);
          incomplete = messageFragmentLooksIncomplete (ei_text i);
          wasDelivering = (gr_status g = GDelivering);
          maxDeadlineAt = (if wasDelivering then max (gr_maxDeadlineAt g) (ge_now env + sp_maxWaitSeconds policy * 1000)
                           else gr_maxDeadlineAt g);
          waitSeconds = (if incomplete then sp_incompleteSettleSeconds policy else sp_settleSeconds policy)
      in g\<lparr>gr_updatedAt := ge_now env, gr_status := (if wasDelivering then GDelivering else GPending), gr_lastError := None,
           gr_items := gr_items g @ [\<lparr>it_identity = ei_identity i, it_receivedAt = ge_now env,
             it_incomplete = incomplete, it_payload = ei_payload i\<rparr>],
           gr_maxDeadlineAt := maxDeadlineAt,
           gr_deadlineAt := min maxDeadlineAt (ge_now env + waitSeconds * 1000)\<rparr>)"

definition has_identity :: "group \<Rightarrow> string \<Rightarrow> bool" where
  "has_identity g identity \<longleftrightarrow> list_ex (\<lambda>item. it_identity item = identity) (gr_items g)"

definition enqueue_to :: "grouping_env \<Rightarrow> enqueue_input \<Rightarrow> group \<Rightarrow> queue \<Rightarrow> enqueue_result result \<times> queue" where
  "enqueue_to env i g q =
     (let g' = add_fragment env i g in
      case persist_queue env (ge_write env) (put_group g' q) of
        (Inl e, q') \<Rightarrow> (Inl e, q')
      | (Inr _, q') \<Rightarrow> (Inr \<lparr>er_groupId = gr_groupId g', er_accepted = True, er_itemCount = length (gr_items g')\<rparr>,
          if gr_status g = GDelivering then q' else arm env g' q'))"

definition enqueue :: "grouping_env \<Rightarrow> enqueue_input \<Rightarrow> queue \<Rightarrow> enqueue_result result \<times> queue" where
  "enqueue env i q =
     (if ei_identity i \<in> set (q_delivered q)
      then (Inr \<lparr>er_groupId = [], er_accepted = False, er_itemCount = 0\<rparr>, q)
      else case find_group i q of
          Some g \<Rightarrow> if has_identity g (ei_identity i)
            then (Inr \<lparr>er_groupId = gr_groupId g, er_accepted = False, er_itemCount = length (gr_items g)\<rparr>, q)
            else enqueue_to env i g q
        | None \<Rightarrow> enqueue_to env i (new_group env i) q)"

text \<open>
  \<open>flushNow\<close> up to its \<open>await\<close>: the result is the group handed to the delivery, or
  \<open>None\<close> when there is nothing to flush.
\<close>

definition flush_begin :: "grouping_env \<Rightarrow> string \<Rightarrow> queue \<Rightarrow> group option result \<times> queue" where
  "flush_begin env key q = (case group_at q key of
     None \<Rightarrow> (Inr None, q)
   | Some g \<Rightarrow>
       if gr_status g = GDelivering then (Inr None, q)
       else let g' = g\<lparr>gr_status := GDelivering, gr_attempts := gr_attempts g + 1, gr_lastError := None\<rparr> in
         case persist_queue env (ge_write env) (put_group g' (disarm key q)) of
           (Inl e, q') \<Rightarrow> (Inl e, q')
         | (Inr _, q') \<Rightarrow> (Inr (Some g'),
             q'\<lparr>q_inFlight := AList.update key (fold set_add (map it_identity (gr_items g')) []) (q_inFlight q')\<rparr>))"

text \<open>The eviction loop; an empty identity at the front stops it, as in the source.\<close>

fun evict :: "string list \<Rightarrow> string list" where
  "evict [] = []"
| "evict (oldest # rest) =
     (if length (oldest # rest) \<le> max_delivered then oldest # rest
      else if oldest = [] then oldest # rest else evict rest)"

definition retry_seconds :: "nat \<Rightarrow> rat" where
  "retry_seconds attempts = min 60 (5 * (if attempts = 0 then 1 / 2 else 2 ^ min 4 (attempts - 1)))"

text \<open>The \<open>catch\<close> branch, with \<open>2 ** -1\<close> written out; \<open>stored\<close> tells whether the group is still in the map.\<close>

definition flush_failed :: "grouping_env \<Rightarrow> bool \<Rightarrow> string \<Rightarrow> bool \<Rightarrow> group \<Rightarrow> queue \<Rightarrow> bool result \<times> queue" where
  "flush_failed env write message stored g q =
     (let deadlineAt = ge_now env + retry_seconds (gr_attempts g) * 1000;
          g' = g\<lparr>gr_status := GPending, gr_lastError := Some message, gr_deadlineAt := deadlineAt,
                 gr_maxDeadlineAt := max (gr_maxDeadlineAt g) deadlineAt\<rparr>
      in case persist_queue env write (if stored then put_group g' q else q) of
           (Inl e, q') \<Rightarrow> (Inl e, q')
         | (Inr _, q') \<Rightarrow> (Inr False, arm env g' q'))"

text \<open>
  The two continuations of the awaited delivery of the group at \<open>key\<close>. Without an entry in
  flight there is no continuation to run.
\<close>

definition settled_group :: "string list \<Rightarrow> group \<Rightarrow> group" where
  "settled_group ids g = (let items = filter (\<lambda>item. it_identity item \<notin> set ids) (gr_items g) in
     if items = [] then g\<lparr>gr_items := []\<rparr>
     else g\<lparr>gr_items := items, gr_status := GPending, gr_attempts := 0, gr_lastError := None,
            gr_createdAt := it_receivedAt (hd items)\<rparr>)"

definition settle :: "grouping_env \<Rightarrow> string \<Rightarrow> string list \<Rightarrow> group \<Rightarrow> queue \<Rightarrow> queue" where
  "settle env key ids g q = (let g' = settled_group ids g;
       q' = q\<lparr>q_delivered := evict (fold set_add ids (q_delivered q))\<rparr> in
     if gr_items g' = [] then q'\<lparr>q_groups := AList.delete key (q_groups q')\<rparr>
     else arm env g' (put_group g' q'))"

definition flush_success :: "grouping_env \<Rightarrow> string \<Rightarrow> queue \<Rightarrow> bool result \<times> queue" where
  "flush_success env key q = (case (map_of (q_inFlight q) key, group_at q key) of
     (Some ids, Some g) \<Rightarrow>
       (let q1 = settle env key ids g (q\<lparr>q_inFlight := AList.delete key (q_inFlight q)\<rparr>); g' = settled_group ids g in
        case persist_queue env (ge_write env) q1 of
          (Inr _, q2) \<Rightarrow> (Inr True, q2)
        | (Inl e, q2) \<Rightarrow> flush_failed env (ge_secondWrite env) (ge_writeError env) (gr_items g' \<noteq> []) g' q2)
   | _ \<Rightarrow> (Inr False, q))"

definition flush_failure :: "grouping_env \<Rightarrow> string \<Rightarrow> string \<Rightarrow> queue \<Rightarrow> bool result \<times> queue" where
  "flush_failure env key message q = (case (map_of (q_inFlight q) key, group_at q key) of
     (Some ids, Some g) \<Rightarrow>
       flush_failed env (ge_write env) message True g (q\<lparr>q_inFlight := AList.delete key (q_inFlight q)\<rparr>)
   | _ \<Rightarrow> (Inr False, q))"

text \<open>A timer fires: it forgets itself and flushes.\<close>

definition fire :: "grouping_env \<Rightarrow> string \<Rightarrow> queue \<Rightarrow> group option result \<times> queue" where
  "fire env key q = flush_begin env key (q\<lparr>q_timers := AList.delete key (q_timers q)\<rparr>)"

definition close_queue :: "grouping_env \<Rightarrow> queue \<Rightarrow> unit result \<times> queue" where
  "close_queue env q = persist_queue env (ge_write env) (fold disarm (map fst (q_timers q)) q)"

section \<open>The invariant\<close>

declare map_of_eq_Some_iff [simp del]

definition group_ok :: "group \<Rightarrow> bool" where
  "group_ok g \<longleftrightarrow> gr_items g \<noteq> [] \<and> distinct (map it_identity (gr_items g)) \<and> gr_deadlineAt g \<le> gr_maxDeadlineAt g"

definition queue_ok :: "queue \<Rightarrow> bool" where
  "queue_ok q \<longleftrightarrow> distinct (map fst (q_groups q)) \<and> distinct (map fst (q_inFlight q))
     \<and> (\<forall>k g. group_at q k = Some g \<longrightarrow> gr_key g = k \<and> group_ok g)
     \<and> (\<forall>k ids. map_of (q_inFlight q) k = Some ids \<longrightarrow>
          (\<exists>g. group_at q k = Some g \<and> gr_status g = GDelivering \<and> distinct ids \<and> set ids \<subseteq> it_identity ` set (gr_items g)))"

definition key_set :: "('k \<times> 'v) list \<Rightarrow> 'k set" where
  "key_set m = dom (map_of m)"

lemma key_set_simps [simp]: "key_set (AList.update k v m) = insert k (key_set m)" "key_set (AList.delete k m) = key_set m - {k}"
  by (simp_all add: key_set_def update_conv' delete_conv')

lemma key_set_iff: "k \<in> key_set m \<longleftrightarrow> (\<exists>v. map_of m k = Some v)"
  by (auto simp: key_set_def)

text \<open>With working storage nothing is forgotten: a pending group has a timer, and a group being
  delivered has its continuation.\<close>

definition queue_live :: "queue \<Rightarrow> bool" where
  "queue_live q \<longleftrightarrow> (\<forall>k g. group_at q k = Some g \<longrightarrow>
     (if gr_status g = GPending then k \<in> key_set (q_timers q) else k \<in> key_set (q_inFlight q)))"

lemma persist_queue_fields: "persist_queue env b q = (r, q') \<Longrightarrow>
    q_groups q' = q_groups q \<and> q_delivered q' = q_delivered q \<and> q_timers q' = q_timers q \<and> q_inFlight q' = q_inFlight q"
  by (auto simp: persist_queue_def split: if_splits)

lemma persist_queue_ok: "persist_queue env True q = (Inr (), q\<lparr>q_disk := Some (snapshot env q)\<rparr>)"
  by (simp add: persist_queue_def)

lemma arm_fields [simp]: "q_groups (arm env g q) = q_groups q" "q_delivered (arm env g q) = q_delivered q"
  "q_inFlight (arm env g q) = q_inFlight q" "key_set (q_timers (arm env g q)) = insert (gr_key g) (key_set (q_timers q))"
  by (auto simp: arm_def disarm_def Let_def)

lemma disarm_fields [simp]: "q_groups (disarm k q) = q_groups q" "q_delivered (disarm k q) = q_delivered q"
  "q_inFlight (disarm k q) = q_inFlight q" "key_set (q_timers (disarm k q)) = key_set (q_timers q) - {k}"
  by (auto simp: disarm_def)

lemma put_group_fields [simp]: "q_delivered (put_group g q) = q_delivered q" "q_timers (put_group g q) = q_timers q"
  "q_inFlight (put_group g q) = q_inFlight q" "group_at (put_group g q) = (group_at q)(gr_key g \<mapsto> g)"
  "distinct (map fst (q_groups q)) \<Longrightarrow> distinct (map fst (q_groups (put_group g q)))"
  by (simp_all add: put_group_def update_conv' distinct_update fun_eq_iff)

text \<open>The invariant reads only the groups and what is in flight.\<close>

lemma queue_ok_cong: "q_groups q' = q_groups q \<Longrightarrow> q_inFlight q' = q_inFlight q \<Longrightarrow> queue_ok q' \<longleftrightarrow> queue_ok q"
  by (simp add: queue_ok_def)

lemma queue_ok_put:
  assumes "queue_ok q" "group_ok g"
    and "\<forall>ids. map_of (q_inFlight q) (gr_key g) = Some ids \<longrightarrow>
      gr_status g = GDelivering \<and> set ids \<subseteq> it_identity ` set (gr_items g)"
  shows "queue_ok (put_group g q)"
proof -
  have parts: "distinct (map fst (q_groups q))" "distinct (map fst (q_inFlight q))"
    "\<And>k g. group_at q k = Some g \<Longrightarrow> gr_key g = k \<and> group_ok g"
    "\<And>k ids. map_of (q_inFlight q) k = Some ids \<Longrightarrow>
      \<exists>g. group_at q k = Some g \<and> gr_status g = GDelivering \<and> distinct ids \<and> set ids \<subseteq> it_identity ` set (gr_items g)"
    using assms(1) unfolding queue_ok_def by blast+
  have "gr_key h = k \<and> group_ok h" if "group_at (put_group g q) k = Some h" for k h
    using that parts(3) assms(2) by (cases "k = gr_key g") (simp_all del: map_of_eq_Some_iff)
  moreover have "\<exists>h. group_at (put_group g q) k = Some h \<and> gr_status h = GDelivering \<and> distinct ids
      \<and> set ids \<subseteq> it_identity ` set (gr_items h)" if "map_of (q_inFlight (put_group g q)) k = Some ids" for k ids
    using that parts(4) [of k ids] assms(3) by (cases "k = gr_key g") (auto simp del: map_of_eq_Some_iff)
  moreover have "distinct (map fst (q_groups (put_group g q)))" using parts(1) by simp
  moreover have "distinct (map fst (q_inFlight (put_group g q)))" using parts(2) by simp
  ultimately show ?thesis unfolding queue_ok_def by blast
qed

lemma find_group_at: "queue_ok q \<Longrightarrow> find_group i q = Some g \<Longrightarrow> group_at q (gr_key g) = Some g"
proof -
  assume ok: "queue_ok q" and f: "find_group i q = Some g"
  show ?thesis
  proof (cases "group_at q (ei_key i)")
    case (Some h)
    with f ok show ?thesis by (auto simp: find_group_def queue_ok_def)
  next
    case None
    let ?c = "filter (\<lambda>g. gr_baseKey g = ei_baseKey i \<and> gr_status g = GPending) (map_values (q_groups q))"
    from f None have "length ?c = 1" "g = hd ?c" by (auto simp: find_group_def Let_def split: if_splits)
    then have "g \<in> set ?c" by (metis One_nat_def hd_in_set length_0_conv nat.simps(3))
    then have "g \<in> set (map_values (q_groups q))" by simp
    with ok obtain k where "group_at q k = Some g" using map_values_mem [of "q_groups q" g] by (auto simp: queue_ok_def)
    with ok show ?thesis by (auto simp: queue_ok_def)
  qed
qed

lemma find_group_None: "find_group i q = None \<Longrightarrow> group_at q (ei_key i) = None"
  by (auto simp: find_group_def split: option.splits)

lemma add_fragment_items: "map it_identity (gr_items (add_fragment env i g)) = map it_identity (gr_items g) @ [ei_identity i]"
  "gr_key (add_fragment env i g) = gr_key g" "gr_status (add_fragment env i g) = gr_status g"
  "gr_deadlineAt (add_fragment env i g) \<le> gr_maxDeadlineAt (add_fragment env i g)"
  by (auto simp: add_fragment_def Let_def) (metis group_status.exhaust)

lemma has_identity_iff: "has_identity g x \<longleftrightarrow> x \<in> it_identity ` set (gr_items g)"
  by (auto simp: has_identity_def list_ex_iff)

lemma add_fragment_ok:
  assumes "gr_items g = [] \<or> group_ok g" "\<not> has_identity g (ei_identity i)"
  shows "group_ok (add_fragment env i g)"
proof -
  have "gr_items (add_fragment env i g) \<noteq> []" by (simp add: add_fragment_def Let_def)
  moreover have "distinct (map it_identity (gr_items (add_fragment env i g)))"
    unfolding add_fragment_items using assms by (auto simp: group_ok_def has_identity_iff)
  ultimately show ?thesis using add_fragment_items(4) by (simp add: group_ok_def)
qed

section \<open>Counting the fragments\<close>

definition pending_ids :: "queue \<Rightarrow> string list" where
  "pending_ids q = concat (map (\<lambda>(k, g). map it_identity (gr_items g)) (q_groups q))"

definition weigh :: "('v \<Rightarrow> 'a multiset) \<Rightarrow> ('k \<times> 'v) list \<Rightarrow> 'a multiset" where
  "weigh f m = sum_list (map (\<lambda>(k, v). f v) m)"

lemma weigh_update: "map_of m k = Some v \<Longrightarrow> weigh f (AList.update k w m) + f v = weigh f m + f w"
  by (induction m) (auto simp: weigh_def ac_simps)

lemma weigh_update_new: "map_of m k = None \<Longrightarrow> weigh f (AList.update k w m) = weigh f m + f w"
  by (induction m) (auto simp: weigh_def ac_simps)

lemma delete_absent: "map_of m k = None \<Longrightarrow> AList.delete k m = m"
  by (induction m) (auto split: if_splits)

lemma weigh_delete: "distinct (map fst m) \<Longrightarrow> map_of m k = Some v \<Longrightarrow> weigh f (AList.delete k m) + f v = weigh f m"
proof (induction m)
  case (Cons e m)
  show ?case
  proof (cases "fst e = k")
    case True
    with Cons.prems have "map_of m k = None" by (auto simp: map_of_eq_None_iff)
    from delete_absent [OF this] True Cons.prems show ?thesis by (cases e) (simp add: weigh_def ac_simps)
  next
    case False
    with Cons show ?thesis by (cases e) (simp add: weigh_def ac_simps)
  qed
qed simp

definition item_ids :: "group \<Rightarrow> string multiset" where
  "item_ids g = mset (map it_identity (gr_items g))"

lemma pending_ids_weigh: "mset (pending_ids q) = weigh item_ids (q_groups q)"
proof -
  have "mset (concat (map (\<lambda>(k, g). map it_identity (gr_items g)) m)) = weigh item_ids m" for m :: "(string \<times> group) list"
    by (induction m) (auto simp: weigh_def item_ids_def)
  then show ?thesis by (simp add: pending_ids_def)
qed

lemma pending_put: "group_at q (gr_key g) = Some h \<Longrightarrow>
    mset (pending_ids (put_group g q)) + item_ids h = mset (pending_ids q) + item_ids g"
  unfolding pending_ids_weigh put_group_def by (simp add: weigh_update)

lemma pending_put_new: "group_at q (gr_key g) = None \<Longrightarrow>
    mset (pending_ids (put_group g q)) = mset (pending_ids q) + item_ids g"
  unfolding pending_ids_weigh put_group_def by (simp add: weigh_update_new)

lemma pending_put_same: "group_at q (gr_key g) = Some h \<Longrightarrow> gr_items g = gr_items h \<Longrightarrow>
    mset (pending_ids (put_group g q)) = mset (pending_ids q)"
  using pending_put [of q g h] by (simp add: item_ids_def)

lemma pending_cong: "q_groups q' = q_groups q \<Longrightarrow> pending_ids q' = pending_ids q"
  by (simp add: pending_ids_def)

lemma set_add_fold: "set (fold set_add xs ys) = set ys \<union> set xs \<and> (distinct ys \<longrightarrow> distinct (fold set_add xs ys))"
  by (induction xs arbitrary: ys) (auto simp: set_add_def)

lemma set_add_fold_distinct: "distinct (ys @ xs) \<Longrightarrow> fold set_add xs ys = ys @ xs"
  by (induction xs arbitrary: ys) (auto simp: set_add_def)

section \<open>The steps of the queue\<close>

text \<open>
  Every step with the identities it takes in and the identities whose delivery it confirms.
\<close>

definition taken :: "queue \<Rightarrow> enqueue_input \<Rightarrow> string list" where
  "taken q i = (if ei_identity i \<in> set (q_delivered q)
      \<or> (case find_group i q of Some g \<Rightarrow> has_identity g (ei_identity i) | None \<Rightarrow> False)
    then [] else [ei_identity i])"

definition flight_of :: "queue \<Rightarrow> string \<Rightarrow> string list" where
  "flight_of q key = (case map_of (q_inFlight q) key of Some ids \<Rightarrow> ids | None \<Rightarrow> [])"

inductive queue_step :: "queue \<Rightarrow> string list \<Rightarrow> string list \<Rightarrow> queue \<Rightarrow> bool" where
  step_enqueue: "enqueue env i q = (r, q') \<Longrightarrow> queue_step q (taken q i) [] q'"
| step_flush: "flush_begin env key q = (b, q') \<Longrightarrow> queue_step q [] [] q'"
| step_fire: "fire env key q = (b, q') \<Longrightarrow> queue_step q [] [] q'"
| step_success: "flush_success env key q = (s, q') \<Longrightarrow> queue_step q [] (flight_of q key) q'"
| step_failure: "flush_failure env key message q = (s, q') \<Longrightarrow> queue_step q [] [] q'"
| step_close: "close_queue env q = (u, q') \<Longrightarrow> queue_step q [] [] q'"

inductive queue_run :: "queue \<Rightarrow> string list \<Rightarrow> string list \<Rightarrow> queue \<Rightarrow> bool" where
  run_none: "queue_run q [] [] q"
| run_step: "queue_run q acc del q' \<Longrightarrow> queue_step q' a d q'' \<Longrightarrow> queue_run q (acc @ a) (del @ d) q''"

inductive_cases queue_stepE: "queue_step q a d q'"

definition balanced :: "queue \<Rightarrow> string list \<Rightarrow> string list \<Rightarrow> queue \<Rightarrow> bool" where
  "balanced q a d q' \<longleftrightarrow> queue_ok q' \<and> mset (pending_ids q) + mset a = mset (pending_ids q') + mset d"

lemma balanced_same: "queue_ok q \<Longrightarrow> q_groups q' = q_groups q \<Longrightarrow> q_inFlight q' = q_inFlight q \<Longrightarrow> balanced q [] [] q'"
  using queue_ok_cong [of q' q] pending_cong [of q' q] by (simp add: balanced_def)

lemma queue_ok_group: "queue_ok q \<Longrightarrow> group_at q k = Some g \<Longrightarrow> gr_key g = k \<and> group_ok g"
  by (simp add: queue_ok_def)

lemma queue_ok_flight:
  assumes "queue_ok q" "map_of (q_inFlight q) k = Some ids"
  shows "\<exists>g. group_at q k = Some g \<and> gr_status g = GDelivering \<and> distinct ids \<and> set ids \<subseteq> it_identity ` set (gr_items g)"
  by (rule assms(1) [unfolded queue_ok_def, THEN conjunct2, THEN conjunct2, THEN conjunct2, rule_format, OF assms(2)])

lemma queue_ok_keys: "queue_ok q \<Longrightarrow> distinct (map fst (q_groups q)) \<and> distinct (map fst (q_inFlight q))"
  by (simp add: queue_ok_def)

lemma enqueue_to_balanced:
  assumes ok: "queue_ok q" and e: "enqueue_to env i g q = (r, q')" and new: "\<not> has_identity g (ei_identity i)"
    and g: "group_at q (gr_key g) = Some g \<or> group_at q (gr_key g) = None \<and> gr_items g = []"
  shows "balanced q [ei_identity i] [] q'"
proof -
  let ?g = "add_fragment env i g"
  have q': "q_groups q' = q_groups (put_group ?g q) \<and> q_inFlight q' = q_inFlight (put_group ?g q)"
    using e by (auto simp: enqueue_to_def Let_def split: prod.splits sum.splits if_splits dest: persist_queue_fields)
  have gok: "group_ok ?g"
    by (rule add_fragment_ok [OF _ new]) (use g queue_ok_group [OF ok] in auto)
  have "queue_ok (put_group ?g q)"
  proof (rule queue_ok_put [OF ok gok], intro allI impI)
    fix ids assume "map_of (q_inFlight q) (gr_key ?g) = Some ids"
    with queue_ok_flight [OF ok] g show "gr_status ?g = GDelivering \<and> set ids \<subseteq> it_identity ` set (gr_items ?g)"
      by (fastforce simp: add_fragment_items add_fragment_def Let_def)
  qed
  moreover have "mset (pending_ids (put_group ?g q)) = mset (pending_ids q) + mset [ei_identity i]"
  proof -
    have ids: "item_ids ?g = item_ids g + mset [ei_identity i]" by (simp add: item_ids_def add_fragment_items flip: mset_map)
    from g show ?thesis
    proof
      assume "group_at q (gr_key g) = Some g"
      with pending_put [of q ?g g] ids show ?thesis by (simp add: add_fragment_items)
    next
      assume n: "group_at q (gr_key g) = None \<and> gr_items g = []"
      with pending_put_new [of q ?g] ids show ?thesis by (simp add: add_fragment_items item_ids_def)
    qed
  qed
  ultimately show ?thesis using q' by (simp add: balanced_def queue_ok_cong [of q' "put_group ?g q"] pending_cong [of q' "put_group ?g q"])
qed

lemma enqueue_balanced:
  assumes ok: "queue_ok q" and e: "enqueue env i q = (r, q')"
  shows "balanced q (taken q i) [] q'"
proof (cases "ei_identity i \<in> set (q_delivered q)")
  case True
  with e ok show ?thesis by (auto simp: enqueue_def taken_def intro: balanced_same)
next
  case nd: False
  show ?thesis
  proof (cases "find_group i q")
    case None
    have "balanced q [ei_identity i] [] q'"
    proof (rule enqueue_to_balanced [OF ok])
      show "enqueue_to env i (new_group env i) q = (r, q')" using e nd None by (simp add: enqueue_def)
    qed (use find_group_None [OF None] in \<open>simp_all add: new_group_def has_identity_def\<close>)
    with nd None show ?thesis by (simp add: taken_def)
  next
    case (Some g)
    show ?thesis
    proof (cases "has_identity g (ei_identity i)")
      case True
      with e nd Some ok show ?thesis by (auto simp: enqueue_def taken_def intro: balanced_same)
    next
      case False
      have "balanced q [ei_identity i] [] q'"
        by (rule enqueue_to_balanced [OF ok _ False]) (use e nd Some False find_group_at [OF ok Some] in \<open>simp_all add: enqueue_def\<close>)
      with nd Some False show ?thesis by (simp add: taken_def)
    qed
  qed
qed

lemma drop_flight_ok: "queue_ok q \<Longrightarrow> queue_ok (q\<lparr>q_inFlight := AList.delete key (q_inFlight q)\<rparr>)"
  unfolding queue_ok_def
  by (simp add: delete_conv' distinct_delete)

lemma flush_begin_balanced:
  assumes ok: "queue_ok q" and f: "flush_begin env key q = (b, q')"
  shows "balanced q [] [] q'"
proof (cases "\<exists>g. group_at q key = Some g \<and> gr_status g = GPending")
  case False
  then have "q' = q" using f by (auto simp: flush_begin_def split: option.splits if_splits) (metis group_status.exhaust)
  with ok show ?thesis by (simp add: balanced_same)
next
  case True
  then obtain g where g: "group_at q key = Some g" "gr_status g = GPending" by blast
  let ?g = "g\<lparr>gr_status := GDelivering, gr_attempts := gr_attempts g + 1, gr_lastError := None\<rparr>"
  let ?ids = "map it_identity (gr_items ?g)"
  have key: "gr_key g = key" "group_ok g" using queue_ok_group [OF ok g(1)] by auto
  have put: "queue_ok (put_group ?g q)"
  proof (rule queue_ok_put [OF ok])
    show "group_ok ?g" using key(2) by (simp add: group_ok_def)
    show "\<forall>ids. map_of (q_inFlight q) (gr_key ?g) = Some ids \<longrightarrow>
        gr_status ?g = GDelivering \<and> set ids \<subseteq> it_identity ` set (gr_items ?g)"
      using queue_ok_flight [OF ok, of key] key(1) g by fastforce
  qed
  have same: "mset (pending_ids (put_group ?g q)) = mset (pending_ids q)"
    by (rule pending_put_same [of q ?g g]) (use g key in simp_all)
  have d: "distinct ?ids" using key(2) by (simp add: group_ok_def)
  then have flight: "fold set_add ?ids [] = ?ids" using set_add_fold_distinct [of "[]" ?ids] by simp
  have q': "q_groups q' = q_groups (put_group ?g q)"
    "q_inFlight q' = q_inFlight q \<or> q_inFlight q' = AList.update key ?ids (q_inFlight q)"
    using f g flight by (auto simp: flush_begin_def Let_def put_group_def split: prod.splits sum.splits dest: persist_queue_fields)
  from q'(2) have "queue_ok q'"
  proof
    assume "q_inFlight q' = q_inFlight q"
    with put q'(1) queue_ok_cong [of q' "put_group ?g q"] show ?thesis by simp
  next
    assume i: "q_inFlight q' = AList.update key ?ids (q_inFlight q)"
    have at: "group_at q' key = Some ?g" unfolding q'(1) using key(1) by simp
    have "\<exists>h. group_at q' k = Some h \<and> gr_status h = GDelivering \<and> distinct ids \<and> set ids \<subseteq> it_identity ` set (gr_items h)"
      if "map_of (q_inFlight q') k = Some ids" for k ids
    proof (cases "k = key")
      case True
      with that i at d show ?thesis by (auto simp: update_conv')
    next
      case False
      with that i have "map_of (q_inFlight (put_group ?g q)) k = Some ids" by (simp add: update_conv')
      from queue_ok_flight [OF put this] show ?thesis unfolding q'(1) .
    qed
    moreover have "gr_key h = k \<and> group_ok h" if "group_at q' k = Some h" for k h
      using queue_ok_group [OF put] that unfolding q'(1) by blast
    moreover have "distinct (map fst (q_groups q')) \<and> distinct (map fst (q_inFlight q'))"
      using queue_ok_keys [OF put] queue_ok_keys [OF ok] unfolding q'(1) i by (simp add: distinct_update)
    ultimately show ?thesis unfolding queue_ok_def by blast
  qed
  with same pending_cong [OF q'(1)] show ?thesis by (simp add: balanced_def)
qed

lemma flush_failed_balanced:
  assumes ok: "queue_ok q" and f: "flush_failed env w message stored g q = (r, q')"
    and g: "stored \<longrightarrow> group_ok g \<and> map_of (q_inFlight q) (gr_key g) = None
      \<and> (\<exists>h. group_at q (gr_key g) = Some h \<and> gr_items h = gr_items g)"
  shows "balanced q [] [] q'"
proof -
  let ?t = "ge_now env + retry_seconds (gr_attempts g) * 1000"
  let ?g = "g\<lparr>gr_status := GPending, gr_lastError := Some message, gr_deadlineAt := ?t, gr_maxDeadlineAt := max (gr_maxDeadlineAt g) ?t\<rparr>"
  let ?q = "if stored then put_group ?g q else q"
  have q': "q_groups q' = q_groups ?q" "q_inFlight q' = q_inFlight ?q"
    using f by (auto simp: flush_failed_def Let_def split: prod.splits sum.splits if_splits dest: persist_queue_fields)
  have "queue_ok ?q \<and> mset (pending_ids ?q) = mset (pending_ids q)"
  proof (cases stored)
    case True
    with g obtain h where h: "group_at q (gr_key ?g) = Some h" "gr_items ?g = gr_items h" by auto
    have "group_ok ?g" using g True by (simp add: group_ok_def)
    with True g have "queue_ok (put_group ?g q)" by (intro queue_ok_put [OF ok]) auto
    with True pending_put_same [OF h] show ?thesis by simp
  qed (use ok in simp)
  with q' queue_ok_cong [of q' ?q] pending_cong [of q' ?q] show ?thesis by (simp only: balanced_def)
qed

lemma mset_map_split: "mset (map f xs) = mset (map f (filter (\<lambda>x. \<not> P x) xs)) + mset (map f (filter P xs))"
  by (induction xs) auto

lemma settled_parts:
  assumes "group_ok g" "distinct ids" "set ids \<subseteq> it_identity ` set (gr_items g)"
  shows "item_ids g = item_ids (settled_group ids g) + mset ids
    \<and> (gr_items (settled_group ids g) \<noteq> [] \<longrightarrow> group_ok (settled_group ids g))
    \<and> gr_key (settled_group ids g) = gr_key g"
proof -
  let ?keep = "filter (\<lambda>item. it_identity item \<notin> set ids) (gr_items g)"
  let ?gone = "filter (\<lambda>item. it_identity item \<in> set ids) (gr_items g)"
  have items: "gr_items (settled_group ids g) = ?keep" by (simp add: settled_group_def Let_def)
  have d: "distinct (map it_identity (gr_items g))" using assms(1) by (simp add: group_ok_def)
  have "mset (map it_identity ?gone) = mset ids"
  proof (rule set_eq_iff_mset_eq_distinct [THEN iffD1, rotated 2])
    show "distinct (map it_identity ?gone)" using d by (simp add: distinct_map_filter)
    show "set (map it_identity ?gone) = set ids" using assms(3) by auto
  qed (rule assms(2))
  moreover have "mset (map it_identity (gr_items g)) = mset (map it_identity ?keep) + mset (map it_identity ?gone)"
    by (rule mset_map_split)
  ultimately have "item_ids g = item_ids (settled_group ids g) + mset ids" by (simp add: item_ids_def items)
  moreover have "group_ok (settled_group ids g)" if "gr_items (settled_group ids g) \<noteq> []"
    using that assms(1) d unfolding group_ok_def items by (auto simp: settled_group_def Let_def distinct_map_filter)
  ultimately show ?thesis by (simp add: settled_group_def Let_def)
qed

lemma settle_balanced:
  fixes env :: grouping_env
  assumes ok: "queue_ok q" and i: "map_of (q_inFlight q) key = Some ids" and g: "group_at q key = Some g"
  defines "q1 \<equiv> settle env key ids g (q\<lparr>q_inFlight := AList.delete key (q_inFlight q)\<rparr>)"
  shows "balanced q [] ids q1 \<and> map_of (q_inFlight q1) key = None \<and> gr_key g = key
    \<and> (gr_items (settled_group ids g) \<noteq> [] \<longrightarrow> group_ok (settled_group ids g) \<and> group_at q1 key = Some (settled_group ids g))"
proof -
  let ?h = "settled_group ids g"
  have key: "gr_key g = key" "group_ok g" using queue_ok_group [OF ok g] by auto
  from queue_ok_flight [OF ok i] g have ids: "distinct ids" "set ids \<subseteq> it_identity ` set (gr_items g)" by auto
  note parts = settled_parts [OF key(2) ids]
  let ?p = "q\<lparr>q_inFlight := AList.delete key (q_inFlight q), q_delivered := evict (fold set_add ids (q_delivered q))\<rparr>"
  have p: "queue_ok ?p" using drop_flight_ok [OF ok, of key] by (simp add: queue_ok_def)
  have flight: "q_inFlight q1 = AList.delete key (q_inFlight q)"
    by (simp add: q1_def settle_def Let_def)
  show ?thesis
  proof (cases "gr_items ?h = []")
    case True
    then have q1: "q_groups q1 = AList.delete key (q_groups q)" by (simp add: q1_def settle_def Let_def)
    have keys: "distinct (map fst (q_groups q))" using queue_ok_keys [OF ok] by simp
    have "queue_ok q1"
    proof -
      have "group_at q1 k = (if k = key then None else group_at q k)" for k by (simp add: q1 delete_conv')
      moreover have "map_of (q_inFlight q1) k = (if k = key then None else map_of (q_inFlight q) k)" for k
        by (simp add: flight delete_conv')
      moreover have "distinct (map fst (q_groups q1)) \<and> distinct (map fst (q_inFlight q1))"
        using queue_ok_keys [OF ok] by (simp add: q1 flight distinct_delete)
      ultimately show ?thesis unfolding queue_ok_def
        using queue_ok_group [OF ok] queue_ok_flight [OF ok] by (auto split: if_splits)
    qed
    moreover have "mset (pending_ids q) = mset (pending_ids q1) + mset ids"
      using weigh_delete [OF keys g, of item_ids] parts True
      by (simp add: pending_ids_weigh q1 item_ids_def)
    ultimately show ?thesis using True key flight by (simp add: balanced_def delete_conv')
  next
    case False
    then have q1: "q_groups q1 = q_groups (put_group ?h q)" by (simp add: q1_def settle_def Let_def put_group_def)
    have hk: "gr_key ?h = key" "group_ok ?h" using parts False key by auto
    have "queue_ok (put_group ?h ?p)"
      by (rule queue_ok_put [OF p hk(2)]) (simp add: hk delete_conv')
    moreover have "q_groups q1 = q_groups (put_group ?h ?p)" "q_inFlight q1 = q_inFlight (put_group ?h ?p)"
      by (simp_all add: q1 flight) (simp add: put_group_def)
    ultimately have "queue_ok q1" using queue_ok_cong by metis
    moreover have "mset (pending_ids q) = mset (pending_ids q1) + mset ids"
      using pending_put [of q ?h g] g hk(1) parts pending_cong [OF q1] by (simp add: ac_simps)
    moreover have "group_at q1 key = Some ?h" unfolding q1 using hk(1) by simp
    ultimately show ?thesis using False key flight hk by (simp add: balanced_def delete_conv')
  qed
qed

lemma balanced_trans: "balanced q a d q' \<Longrightarrow> balanced q' [] [] q'' \<Longrightarrow> balanced q a d q''"
  by (simp add: balanced_def)

lemma persist_queue_balanced: "queue_ok q \<Longrightarrow> persist_queue env w q = (r, q') \<Longrightarrow> balanced q [] [] q'"
  by (rule balanced_same) (auto dest: persist_queue_fields)

lemma flush_success_eq:
  fixes env :: grouping_env
  assumes "map_of (q_inFlight q) key = Some ids" "group_at q key = Some g"
  defines "q1 \<equiv> settle env key ids g (q\<lparr>q_inFlight := AList.delete key (q_inFlight q)\<rparr>)"
  shows "flush_success env key q = (if ge_write env then (Inr True, q1\<lparr>q_disk := Some (snapshot env q1)\<rparr>)
    else flush_failed env (ge_secondWrite env) (ge_writeError env) (gr_items (settled_group ids g) \<noteq> []) (settled_group ids g) q1)"
  unfolding flush_success_def assms(1,2) persist_queue_def Let_def q1_def by simp

lemma flush_success_balanced:
  assumes ok: "queue_ok q" and f: "flush_success env key q = (s, q')"
  shows "balanced q [] (flight_of q key) q'"
proof (cases "map_of (q_inFlight q) key")
  case None
  with f ok show ?thesis by (simp add: flush_success_def flight_of_def balanced_same)
next
  case (Some ids)
  from queue_ok_flight [OF ok Some] obtain g where g: "group_at q key = Some g" by blast
  let ?q1 = "settle env key ids g (q\<lparr>q_inFlight := AList.delete key (q_inFlight q)\<rparr>)" and ?h = "settled_group ids g"
  note st = settle_balanced [OF ok Some g, of env]
  have ok1: "queue_ok ?q1" using st unfolding balanced_def by blast
  have hk: "gr_key ?h = key" using st by (simp add: settled_group_def Let_def)
  note f = f [unfolded flush_success_eq [OF Some g]]
  have "balanced ?q1 [] [] q'"
  proof (cases "ge_write env")
    case True
    with f have q': "q' = ?q1\<lparr>q_disk := Some (snapshot env ?q1)\<rparr>" by (simp only: if_True prod.inject)
    show ?thesis unfolding q' by (rule balanced_same [OF ok1]) simp_all
  next
    case False
    with f have "flush_failed env (ge_secondWrite env) (ge_writeError env) (gr_items ?h \<noteq> []) ?h ?q1 = (s, q')"
      by (simp only: if_False)
    then show ?thesis by (rule flush_failed_balanced [OF ok1]) (unfold hk, use st in blast)
  qed
  with st Some balanced_trans show ?thesis unfolding flight_of_def by fastforce
qed

lemma flush_failure_balanced:
  assumes ok: "queue_ok q" and f: "flush_failure env key message q = (s, q')"
  shows "balanced q [] [] q'"
proof (cases "map_of (q_inFlight q) key")
  case None
  with f ok show ?thesis by (simp add: flush_failure_def balanced_same)
next
  case (Some ids)
  from queue_ok_flight [OF ok Some] obtain g where g: "group_at q key = Some g" by blast
  let ?q = "q\<lparr>q_inFlight := AList.delete key (q_inFlight q)\<rparr>"
  have "flush_failed env (ge_write env) message True g ?q = (s, q')" using f Some g by (simp add: flush_failure_def)
  from flush_failed_balanced [OF drop_flight_ok [OF ok] this] queue_ok_group [OF ok g] g
  show ?thesis by (simp add: balanced_def delete_conv' pending_ids_def)
qed

lemma disarm_fold [simp]: "q_groups (fold disarm ks q) = q_groups q" "q_inFlight (fold disarm ks q) = q_inFlight q"
  "q_delivered (fold disarm ks q) = q_delivered q"
  by (induction ks arbitrary: q) simp_all

lemma queue_step_balanced: "queue_step q a d q' \<Longrightarrow> queue_ok q \<Longrightarrow> balanced q a d q'"
proof (induction rule: queue_step.induct)
  case (step_fire env key q b q')
  have "queue_ok (q\<lparr>q_timers := AList.delete key (q_timers q)\<rparr>)" using step_fire(2) by (simp add: queue_ok_def)
  from flush_begin_balanced [OF this step_fire(1) [unfolded fire_def]] show ?case
    by (simp add: balanced_def pending_ids_def)
next
  case (step_close env q u q')
  then have "q_groups q' = q_groups q \<and> q_inFlight q' = q_inFlight q"
    by (auto simp: close_queue_def dest: persist_queue_fields)
  then show ?case using balanced_same [OF step_close(2)] by blast
qed (auto intro: enqueue_balanced flush_begin_balanced flush_success_balanced flush_failure_balanced)

lemma queue_run_balanced: "queue_run q a d q' \<Longrightarrow> queue_ok q \<Longrightarrow> balanced q a d q'"
proof (induction rule: queue_run.induct)
  case (run_none q)
  then show ?case by (simp add: balanced_def)
next
  case (run_step q acc del q' a d q'')
  from queue_step_balanced [OF run_step(2)] run_step show ?case by (simp add: balanced_def ac_simps)
qed

section \<open>Timers and continuations\<close>

lemma queue_live_put: "queue_live q \<Longrightarrow> q_groups q' = q_groups (put_group g q)
    \<Longrightarrow> key_set (q_timers q) - {gr_key g} \<subseteq> key_set (q_timers q') \<Longrightarrow> key_set (q_inFlight q) - {gr_key g} \<subseteq> key_set (q_inFlight q')
    \<Longrightarrow> (if gr_status g = GPending then gr_key g \<in> key_set (q_timers q') else gr_key g \<in> key_set (q_inFlight q'))
    \<Longrightarrow> queue_live q'"
proof -
  assume l: "queue_live q" and g: "q_groups q' = q_groups (put_group g q)"
    and t: "key_set (q_timers q) - {gr_key g} \<subseteq> key_set (q_timers q')"
    and f: "key_set (q_inFlight q) - {gr_key g} \<subseteq> key_set (q_inFlight q')"
    and n: "if gr_status g = GPending then gr_key g \<in> key_set (q_timers q') else gr_key g \<in> key_set (q_inFlight q')"
  show ?thesis
    unfolding queue_live_def
  proof (intro allI impI)
    fix k h assume h: "group_at q' k = Some h"
    show "if gr_status h = GPending then k \<in> key_set (q_timers q') else k \<in> key_set (q_inFlight q')"
    proof (cases "k = gr_key g")
      case True
      with h g have "h = g" by simp
      with n True show ?thesis by simp
    next
      case False
      with h g have "group_at q k = Some h" by simp
      with l have "if gr_status h = GPending then k \<in> key_set (q_timers q) else k \<in> key_set (q_inFlight q)"
        unfolding queue_live_def by blast
      with False t f show ?thesis by (auto split: if_splits)
    qed
  qed
qed

lemma queue_live_fields: "queue_live q \<Longrightarrow> q_groups q' = q_groups q \<Longrightarrow> q_timers q' = q_timers q \<Longrightarrow> q_inFlight q' = q_inFlight q \<Longrightarrow> queue_live q'"
  by (simp add: queue_live_def)

lemma enqueue_to_live:
  assumes l: "queue_live q" and w: "ge_write env" and e: "enqueue_to env i g q = (r, q')"
    and g: "gr_status g = GPending \<or> group_at q (gr_key g) = Some g"
  shows "queue_live q'"
proof -
  let ?g = "add_fragment env i g"
  let ?p = "(put_group ?g q)\<lparr>q_disk := Some (snapshot env (put_group ?g q))\<rparr>"
  have q': "q' = (if gr_status g = GDelivering then ?p else arm env ?g ?p)"
    using e w by (simp add: enqueue_to_def persist_queue_def Let_def)
  have d: "gr_key g \<in> key_set (q_inFlight q)" if "gr_status g = GDelivering"
    using that g l unfolding queue_live_def by force
  show ?thesis
    by (rule queue_live_put [OF l, of _ ?g]) (use d in \<open>auto simp: q' add_fragment_items put_group_def split: if_splits\<close>,
      (metis group_status.exhaust)+)
qed

lemma enqueue_live: "queue_ok q \<Longrightarrow> queue_live q \<Longrightarrow> ge_write env \<Longrightarrow> enqueue env i q = (r, q') \<Longrightarrow> queue_live q'"
  unfolding enqueue_def
  by (auto split: if_splits option.splits intro: enqueue_to_live dest: find_group_at simp: new_group_def)

lemma flush_begin_live: 
  assumes ok: "queue_ok q" and l: "queue_live q \<or> q = q0\<lparr>q_timers := AList.delete key (q_timers q0)\<rparr> \<and> queue_live q0"
    and w: "ge_write env" and f: "flush_begin env key q = (b, q')"
  shows "queue_live q'"
proof (cases "\<exists>g. group_at q key = Some g \<and> gr_status g = GPending")
  case False
  then have q': "q' = q" using f by (auto simp: flush_begin_def split: option.splits if_splits) (metis group_status.exhaust)
  show ?thesis
  proof (cases "queue_live q")
    case live: False
    with l have q: "q = q0\<lparr>q_timers := AList.delete key (q_timers q0)\<rparr>" and l0: "queue_live q0" by auto
    have "key_set (q_timers q) = key_set (q_timers q0) - {key}"
      using disarm_fields(4) [of key q0] by (simp add: q disarm_def)
    with l0 False show ?thesis unfolding q' queue_live_def by (auto simp: q split: if_splits)
  qed (simp add: q')
next
  case True
  then obtain g where g: "group_at q key = Some g" "gr_status g = GPending" by blast
  have key: "gr_key g = key" using queue_ok_group [OF ok g(1)] by simp
  let ?g = "g\<lparr>gr_status := GDelivering, gr_attempts := gr_attempts g + 1, gr_lastError := None\<rparr>"
  define q1 where "q1 = (if queue_live q then q else q0)"
  have l1: "queue_live q1" and g1: "q_groups q1 = q_groups q" "q_inFlight q1 = q_inFlight q"
    and t1: "key_set (q_timers q1) - {key} \<subseteq> key_set (q_timers q)"
    using l disarm_fields(4) [of key q0] by (auto simp: q1_def disarm_def)
  have q': "q_groups q' = q_groups (put_group ?g q)" "q_timers q' = q_timers (disarm key q)"
    "\<exists>ids. q_inFlight q' = AList.update key ids (q_inFlight q)"
    using f g w by (auto simp: flush_begin_def Let_def persist_queue_def put_group_def disarm_def)
  show ?thesis
  proof (rule queue_live_put [OF l1, of _ ?g])
    show "q_groups q' = q_groups (put_group ?g q1)" using q'(1) g1 by (simp add: put_group_def)
    have t: "key_set (q_timers q') = key_set (q_timers q) - {key}" using q'(2) by simp
    show "key_set (q_timers q1) - {gr_key ?g} \<subseteq> key_set (q_timers q')" unfolding t using t1 key by auto
    have i: "key_set (q_inFlight q') = insert key (key_set (q_inFlight q))"
      using q'(3) by auto
    show "key_set (q_inFlight q1) - {gr_key ?g} \<subseteq> key_set (q_inFlight q')" unfolding i using g1 by auto
    show "if gr_status ?g = GPending then gr_key ?g \<in> key_set (q_timers q') else gr_key ?g \<in> key_set (q_inFlight q')"
      unfolding i using key by simp
  qed
qed

lemma flush_success_live:
  assumes ok: "queue_ok q" and l: "queue_live q" and w: "ge_write env" and f: "flush_success env key q = (s, q')"
  shows "queue_live q'"
proof (cases "map_of (q_inFlight q) key")
  case None
  with f l show ?thesis by (simp add: flush_success_def)
next
  case (Some ids)
  from queue_ok_flight [OF ok Some] obtain g where g: "group_at q key = Some g" by blast
  let ?h = "settled_group ids g"
  have key: "gr_key ?h = key" using queue_ok_group [OF ok g] by (simp add: settled_group_def Let_def)
  note q' = f [unfolded flush_success_eq [OF Some g] if_P [OF w]]
  show ?thesis
  proof (cases "gr_items ?h = []")
    case True
    with q' have p: "q_groups q' = AList.delete key (q_groups q)" "q_timers q' = q_timers q" "q_inFlight q' = AList.delete key (q_inFlight q)"
      by (auto simp: settle_def Let_def)
    from l show ?thesis unfolding queue_live_def p by (auto simp: delete_conv' split: if_splits)
  next
    case False
    with q' have p: "q_groups q' = q_groups (put_group ?h q)" "key_set (q_timers q') = insert key (key_set (q_timers q))"
      "q_inFlight q' = AList.delete key (q_inFlight q)"
      using key by (auto simp: settle_def Let_def put_group_def)
    have "gr_status ?h = GPending" using False by (auto simp: settled_group_def Let_def)
    then show ?thesis
      by (intro queue_live_put [OF l p(1)]) (auto simp: p key)
  qed
qed

lemma flush_failure_live:
  assumes ok: "queue_ok q" and l: "queue_live q" and w: "ge_write env" and f: "flush_failure env key message q = (s, q')"
  shows "queue_live q'"
proof (cases "map_of (q_inFlight q) key")
  case None
  with f l show ?thesis by (simp add: flush_failure_def)
next
  case (Some ids)
  from queue_ok_flight [OF ok Some] obtain g where g: "group_at q key = Some g" by blast
  have key: "gr_key g = key" using queue_ok_group [OF ok g] by simp
  let ?t = "ge_now env + retry_seconds (gr_attempts g) * 1000"
  let ?g = "g\<lparr>gr_status := GPending, gr_lastError := Some message, gr_deadlineAt := ?t, gr_maxDeadlineAt := max (gr_maxDeadlineAt g) ?t\<rparr>"
  have p: "q_groups q' = q_groups (put_group ?g q)" "key_set (q_timers q') = insert key (key_set (q_timers q))"
    "q_inFlight q' = AList.delete key (q_inFlight q)"
    using f Some g w key by (auto simp: flush_failure_def flush_failed_def Let_def persist_queue_def put_group_def)
  show ?thesis by (rule queue_live_put [OF l p(1)]) (auto simp: p key)
qed

section \<open>The persisted state, read back\<close>





text \<open>The texts a group must have for the reader to accept it, and the group it then gives: pending, and
  without an empty error message.\<close>

definition readable_item :: "group_item \<Rightarrow> bool" where
  "readable_item i \<longleftrightarrow> it_identity i \<noteq> [] \<and> pa_routeKind (it_payload i) \<noteq> []"

definition readable_group :: "group \<Rightarrow> bool" where
  "readable_group g \<longleftrightarrow> gr_groupId g \<noteq> [] \<and> gr_key g \<noteq> [] \<and> gr_baseKey g \<noteq> [] \<and> gr_endpoint g \<noteq> []
     \<and> gr_conversationKey g \<noteq> [] \<and> gr_sender g \<noteq> [] \<and> list_all readable_item (gr_items g)"

definition as_recovered :: "group \<Rightarrow> group" where
  "as_recovered g = g\<lparr>gr_status := GPending, gr_lastError := (if gr_lastError g = Some [] then None else gr_lastError g)\<rparr>"

lemma as_recovered_fields [simp]: "gr_key (as_recovered g) = gr_key g" "gr_items (as_recovered g) = gr_items g"
  "gr_status (as_recovered g) = GPending" "readable_group (as_recovered g) = readable_group g" "group_ok (as_recovered g) = group_ok g"
  "(as_recovered g)\<lparr>gr_status := GPending\<rparr> = as_recovered g"
  by (simp_all add: as_recovered_def readable_group_def group_ok_def)








section \<open>Properties\<close>

definition empty_queue :: queue where
  "empty_queue = \<lparr>q_groups = [], q_delivered = [], q_timers = [], q_inFlight = [], q_disk = None\<rparr>"

definition sample_grouping_env :: "rat \<Rightarrow> bool \<Rightarrow> grouping_env" where
  "sample_grouping_env t w = \<lparr>ge_now = t, ge_armNow = t, ge_uuid = ''u1'', ge_stamp = ''1970-01-01T00:00:00.000Z'',
     ge_writeError = ''disk full'', ge_write = w, ge_secondWrite = w\<rparr>"

definition sample_fragment :: "string \<Rightarrow> nat list \<Rightarrow> enqueue_input" where
  "sample_fragment identity text = \<lparr>ei_key = ''chat:7:alice'', ei_baseKey = ''chat:7'', ei_endpoint = ''napcat'',
     ei_conversationKey = ''7'', ei_sender = ''alice'', ei_replyTo = None, ei_identity = identity, ei_text = text,
     ei_policy = \<lparr>po_enabled = True, po_settleSeconds = Some 3, po_incompleteSettleSeconds = None, po_maxWaitSeconds = Some 500\<rparr>,
     ei_payload = \<lparr>pa_routeKind = ''group_message'', pa_record = [], pa_extraValues = []\<rparr>\<rparr>"

definition one_fragment :: queue where
  "one_fragment = snd (enqueue (sample_grouping_env 0 True) (sample_fragment ''m1'' [104, 105]) empty_queue)"

definition handed_over :: queue where
  "handed_over = snd (flush_begin (sample_grouping_env 3000 True) ''chat:7:alice'' one_fragment)"

definition second_fragment :: queue where
  "second_fragment = snd (enqueue (sample_grouping_env 3100 True) (sample_fragment ''m2'' [33, 8230]) handed_over)"

definition settled_queue :: queue where
  "settled_queue = snd (flush_success (sample_grouping_env 3200 True) ''chat:7:alice'' second_fragment)"

lemma empty_queue_ok: "queue_ok empty_queue \<and> queue_live empty_queue \<and> pending_ids empty_queue = []"
  by (simp add: empty_queue_def queue_ok_def queue_live_def pending_ids_def)

lemma grouping_sample_run: "queue_run empty_queue [''m1'', ''m2''] [''m1''] settled_queue"
proof -
  have "queue_run empty_queue [''m1''] [] one_fragment"
  proof -
    have "taken empty_queue (sample_fragment ''m1'' [104, 105]) = [''m1'']" by code_simp
    with queue_run.run_step [OF run_none step_enqueue] show ?thesis unfolding one_fragment_def by (metis append_Nil prod.collapse)
  qed
  then have "queue_run empty_queue [''m1''] [] handed_over"
    using queue_run.run_step [OF _ step_flush] unfolding handed_over_def by (metis append_Nil2 prod.collapse)
  then have "queue_run empty_queue ([''m1''] @ [''m2'']) [] second_fragment"
  proof -
    assume r: "queue_run empty_queue [''m1''] [] handed_over"
    have "taken handed_over (sample_fragment ''m2'' [33, 8230]) = [''m2'']" by code_simp
    with queue_run.run_step [OF r step_enqueue] show ?thesis unfolding second_fragment_def by (metis append_Nil2 prod.collapse)
  qed
  then have r: "queue_run empty_queue [''m1'', ''m2''] [] second_fragment" by simp
  have "flight_of second_fragment ''chat:7:alice'' = [''m1'']" by code_simp
  with queue_run.run_step [OF r step_success] show ?thesis unfolding settled_queue_def by (metis append_Nil append_Nil2 prod.collapse)
qed

lemma grouping_samples_ok: "queue_ok one_fragment" "queue_ok handed_over" "queue_ok second_fragment"
proof -
  show one: "queue_ok one_fragment"
    using enqueue_balanced [OF empty_queue_ok [THEN conjunct1] prod.collapse [symmetric]] unfolding one_fragment_def balanced_def by blast
  show two: "queue_ok handed_over"
    using flush_begin_balanced [OF one prod.collapse [symmetric]] unfolding handed_over_def balanced_def by blast
  show "queue_ok second_fragment"
    using enqueue_balanced [OF two prod.collapse [symmetric]] unfolding second_fragment_def balanced_def by blast
qed

text \<open>C7: No message fragment is lost or delivered twice: along every run of the queue from
  its empty state, failed writes and failed deliveries included, the identities accepted are
  exactly (with multiplicity) those still waiting in a group and those of confirmed
  deliveries; and every group keeps distinct fragments and a deadline below its bound.\<close>

theorem fragments_are_conserved:
  assumes "queue_run empty_queue accepted delivered q"
  shows "mset accepted = mset (pending_ids q) + mset delivered \<and> queue_ok q"
  using queue_run_balanced [OF assms] empty_queue_ok by (simp add: balanced_def)

theorem fragments_are_conserved_witness:
  "mset [''m1'', ''m2''] = mset (pending_ids settled_queue) + mset [''m1''] \<and> queue_ok settled_queue"
  by (rule fragments_are_conserved [OF grouping_sample_run])

text \<open>C28: While the state file can be written, nothing is forgotten: every operation leaves
  each pending group with a timer and each group being delivered with its continuation.\<close>

theorem groups_keep_their_timers:
  assumes "queue_ok q" "queue_live q" "ge_write env"
  shows "queue_live (snd (enqueue env i q)) \<and> queue_live (snd (flush_begin env key q)) \<and> queue_live (snd (fire env key q))
    \<and> queue_live (snd (flush_success env key q)) \<and> queue_live (snd (flush_failure env key message q))"
proof -
  have t: "queue_ok (q\<lparr>q_timers := AList.delete key (q_timers q)\<rparr>)" using assms(1) by (simp add: queue_ok_def)
  have "queue_live (snd (fire env key q))"
    unfolding fire_def by (rule flush_begin_live [OF t _ assms(3) prod.collapse [symmetric]]) (use assms(2) in blast)
  then show ?thesis
    using enqueue_live [OF assms(1,2,3) prod.collapse [symmetric]]
      flush_begin_live [OF assms(1) disjI1 [OF assms(2)] assms(3) prod.collapse [symmetric]]
      flush_success_live [OF assms prod.collapse [symmetric]] flush_failure_live [OF assms prod.collapse [symmetric]]
    by blast
qed

theorem groups_keep_their_timers_witness:
  "queue_live one_fragment \<and> q_timers one_fragment = [(''chat:7:alice'', 3000)]"
proof -
  have "queue_live one_fragment"
    unfolding one_fragment_def
    using groups_keep_their_timers [of empty_queue "sample_grouping_env 0 True"] empty_queue_ok
    by (simp add: sample_grouping_env_def)
  moreover have "q_timers one_fragment = [(''chat:7:alice'', 3000)]" by code_simp
  ultimately show ?thesis ..
qed

lemma normalizedSeconds_bounds: "1 \<le> d \<Longrightarrow> d \<le> 300 \<Longrightarrow> 1 \<le> normalizedSeconds v d \<and> normalizedSeconds v d \<le> 300"
  by (auto simp: normalizedSeconds_def split: option.split)

lemma normalizedPolicy_bounds:
  "1 \<le> sp_settleSeconds (normalizedPolicy p) \<and> sp_settleSeconds (normalizedPolicy p) \<le> sp_incompleteSettleSeconds (normalizedPolicy p)
    \<and> sp_incompleteSettleSeconds (normalizedPolicy p) \<le> sp_maxWaitSeconds (normalizedPolicy p)
    \<and> sp_maxWaitSeconds (normalizedPolicy p) \<le> 300"
  using normalizedSeconds_bounds [of 6 "po_settleSeconds p"] normalizedSeconds_bounds [of 12 "po_incompleteSettleSeconds p"]
    normalizedSeconds_bounds [of 20 "po_maxWaitSeconds p"]
  by (auto simp: normalizedPolicy_def Let_def)

text \<open>An accepted fragment is the last item of the group the result names. The group is
  due at most five minutes after it and never after its own bound, which is fixed by the first
  fragment of a pending group, so that a stream of fragments cannot postpone it; a new group
  waits at least a second and is armed for exactly its deadline.\<close>

theorem accepted_fragments_are_due:
  assumes "queue_ok q" "enqueue env i q = (Inr r, q')" "er_accepted r"
  shows "\<exists>g. group_at q' (gr_key g) = Some g \<and> gr_groupId g = er_groupId r \<and> er_itemCount r = length (gr_items g)
    \<and> it_identity (last (gr_items g)) = ei_identity i
    \<and> gr_deadlineAt g \<le> ge_now env + 300 * 1000 \<and> gr_deadlineAt g \<le> gr_maxDeadlineAt g
    \<and> (case group_at q (gr_key g) of
         Some h \<Rightarrow> gr_status h = GPending \<longrightarrow> gr_maxDeadlineAt g = gr_maxDeadlineAt h
       | None \<Rightarrow> ge_now env + 1000 \<le> gr_deadlineAt g
           \<and> map_of (q_timers q') (gr_key g) = Some (max 0 (gr_deadlineAt g - ge_armNow env)))"
proof -
  have "\<exists>h. enqueue_to env i h q = (Inr r, q') \<and>
      (group_at q (gr_key h) = Some h \<or> group_at q (gr_key h) = None \<and> h = new_group env i)"
  proof (cases "find_group i q")
    case None
    with assms(2,3) find_group_None [OF None] show ?thesis
      by (auto simp: enqueue_def new_group_def split: if_splits intro!: exI [of _ "new_group env i"])
  next
    case (Some h)
    with assms(2,3) find_group_at [OF assms(1) Some] show ?thesis by (auto simp: enqueue_def split: if_splits)
  qed
  then obtain h where e: "enqueue_to env i h q = (Inr r, q')"
    and h: "group_at q (gr_key h) = Some h \<or> group_at q (gr_key h) = None \<and> h = new_group env i" by blast
  let ?g = "add_fragment env i h" and ?p = "normalizedPolicy (ei_policy i)"
  from e have w: "ge_write env" by (auto simp: enqueue_to_def persist_queue_def Let_def split: if_splits)
  from e w have r: "er_groupId r = gr_groupId ?g" "er_itemCount r = length (gr_items ?g)"
    and q': "q' = (let p = (put_group ?g q)\<lparr>q_disk := Some (snapshot env (put_group ?g q))\<rparr>
      in if gr_status h = GDelivering then p else arm env ?g p)"
    by (auto simp: enqueue_to_def persist_queue_def Let_def)
  have at: "group_at q' (gr_key ?g) = Some ?g" unfolding q' by (simp add: Let_def put_group_def update_conv')
  have id: "gr_groupId ?g = gr_groupId h" "it_identity (last (gr_items ?g)) = ei_identity i"
    by (simp_all add: add_fragment_def Let_def)
  note b = normalizedPolicy_bounds [of "ei_policy i"]
  have due: "gr_deadlineAt ?g = min (gr_maxDeadlineAt ?g) (ge_now env +
      (if messageFragmentLooksIncomplete (ei_text i) then sp_incompleteSettleSeconds ?p else sp_settleSeconds ?p) * 1000)"
    by (simp add: add_fragment_def Let_def)
  have up: "gr_deadlineAt ?g \<le> ge_now env + 300 * 1000"
    unfolding due using b by (auto split: if_splits simp: min_le_iff_disj)
  have pend: "gr_maxDeadlineAt ?g = gr_maxDeadlineAt h" if "gr_status h = GPending"
    using that by (simp add: add_fragment_def Let_def)
  have new: "ge_now env + 1000 \<le> gr_deadlineAt ?g
      \<and> map_of (q_timers q') (gr_key ?g) = Some (max 0 (gr_deadlineAt ?g - ge_armNow env))" if "h = new_group env i"
  proof -
    have "gr_status h = GPending" "gr_maxDeadlineAt h = ge_now env + sp_maxWaitSeconds ?p * 1000"
      using that by (simp_all add: new_group_def)
    moreover from this have "ge_now env + 1000 \<le> gr_deadlineAt ?g" using b pend unfolding due by auto
    ultimately show ?thesis unfolding q' by (simp add: Let_def arm_def update_conv' add_fragment_items)
  qed
  show ?thesis
    using at r id up add_fragment_items(4) [of env i h] pend new h
    by (intro exI [of _ ?g]) (auto simp: add_fragment_items split: option.split)
qed

theorem accepted_fragments_are_due_witness:
  "\<exists>g. group_at second_fragment (gr_key g) = Some g \<and> gr_deadlineAt g \<le> 3100 + 300 * 1000
    \<and> it_identity (last (gr_items g)) = ''m2''"
proof -
  let ?e = "enqueue (sample_grouping_env 3100 True) (sample_fragment ''m2'' [33, 8230]) handed_over"
  have r: "fst ?e = Inr \<lparr>er_groupId = ''message-group-u1'', er_accepted = True, er_itemCount = 2\<rparr>" by code_simp
  have "?e = (Inr \<lparr>er_groupId = ''message-group-u1'', er_accepted = True, er_itemCount = 2\<rparr>, second_fragment)"
    unfolding second_fragment_def r [symmetric] by simp
  from accepted_fragments_are_due [OF grouping_samples_ok(2) this] show ?thesis by (auto simp: sample_grouping_env_def sample_fragment_def)
qed

lemma evict_spec: "[] \<notin> set ids \<Longrightarrow> evict ids = keep_last max_delivered ids"
proof (induction ids)
  case (Cons x xs)
  then show ?case by (cases "length xs < max_delivered") (auto simp: keep_last_def Suc_diff_le not_less)
qed (simp add: keep_last_def)

text \<open>A confirmed delivery moves the fragments it handed over out of the group and into the
  delivered identities, of which the last 2000 are kept (identities are not empty) and from then
  on refused; fragments that arrived meanwhile stay, in a pending group that is armed again.\<close>

theorem confirmed_deliveries_are_remembered:
  assumes "queue_ok q" "ge_write env" "map_of (q_inFlight q) key = Some ids" "[] \<notin> set ids" "[] \<notin> set (q_delivered q)"
    and "flush_success env key q = (r, q')"
  shows "r = Inr True \<and> q_delivered q' = keep_last max_delivered (fold set_add ids (q_delivered q))
    \<and> length (q_delivered q') \<le> max_delivered
    \<and> (\<forall>i. ei_identity i \<in> set (q_delivered q') \<longrightarrow> fst (enqueue env i q') = Inr \<lparr>er_groupId = [], er_accepted = False, er_itemCount = 0\<rparr>)
    \<and> (case group_at q' key of
         None \<Rightarrow> \<forall>g. group_at q key = Some g \<longrightarrow> it_identity ` set (gr_items g) = set ids
       | Some g \<Rightarrow> gr_status g = GPending \<and> gr_attempts g = 0 \<and> key \<in> key_set (q_timers q')
           \<and> it_identity ` set (gr_items g) \<inter> set ids = {})"
proof -
  from queue_ok_flight [OF assms(1,3)] obtain g where g: "group_at q key = Some g" "set ids \<subseteq> it_identity ` set (gr_items g)" by blast
  let ?h = "settled_group ids g"
  have key: "gr_key ?h = key" using queue_ok_group [OF assms(1) g(1)] by (simp add: settled_group_def Let_def)
  have items: "gr_items ?h = filter (\<lambda>item. it_identity item \<notin> set ids) (gr_items g)" by (simp add: settled_group_def Let_def)
  let ?q1 = "settle env key ids g (q\<lparr>q_inFlight := AList.delete key (q_inFlight q)\<rparr>)"
  have r: "r = Inr True" "q' = ?q1\<lparr>q_disk := Some (snapshot env ?q1)\<rparr>"
    using assms(6) assms(2) unfolding flush_success_eq [OF assms(3) g(1)] by simp_all
  have "[] \<notin> set (fold set_add ids (q_delivered q))" using assms(4,5) set_add_fold [of ids "q_delivered q"] by simp
  then have del: "q_delivered q' = keep_last max_delivered (fold set_add ids (q_delivered q))"
    unfolding r(2) by (simp add: settle_def Let_def evict_spec)
  have len: "length (q_delivered q') \<le> max_delivered" unfolding del by (simp add: keep_last_def)
  have refuse: "fst (enqueue env i q') = Inr \<lparr>er_groupId = [], er_accepted = False, er_itemCount = 0\<rparr>"
    if "ei_identity i \<in> set (q_delivered q')" for i
    using that by (simp add: enqueue_def)
  show ?thesis
  proof (cases "gr_items ?h = []")
    case True
    then have "group_at q' key = None" unfolding r(2) by (simp add: settle_def Let_def delete_conv')
    moreover have "it_identity ` set (gr_items g) = set ids"
      using True g(2) unfolding items by (auto simp: filter_empty_conv)
    ultimately show ?thesis using r(1) del len refuse g(1) by simp
  next
    case False
    then have "group_at q' key = Some ?h \<and> key \<in> key_set (q_timers q')"
      unfolding r(2) using key by (simp add: settle_def Let_def)
    moreover have "gr_status ?h = GPending \<and> gr_attempts ?h = 0" using False by (auto simp: settled_group_def Let_def)
    ultimately show ?thesis using r(1) del len refuse by (auto simp: items)
  qed
qed

theorem confirmed_deliveries_are_remembered_witness:
  "q_delivered settled_queue = [''m1''] \<and> pending_ids settled_queue = [''m2'']"
proof -
  have f: "map_of (q_inFlight second_fragment) ''chat:7:alice'' = Some [''m1'']" "q_delivered second_fragment = []" by code_simp+
  have "q_delivered settled_queue = keep_last max_delivered (fold set_add [''m1''] (q_delivered second_fragment))"
    unfolding settled_queue_def
    using confirmed_deliveries_are_remembered [OF grouping_samples_ok(3) _ f(1) _ _ prod.collapse [symmetric], of "sample_grouping_env 3200 True"] f(2)
    by (simp add: sample_grouping_env_def)
  moreover have "pending_ids settled_queue = [''m2'']" by code_simp
  ultimately show ?thesis unfolding f(2) by (simp add: keep_last_def max_delivered_def set_add_def)
qed

lemma retry_seconds_bounds: "1 \<le> n \<Longrightarrow> 5 \<le> retry_seconds n \<and> retry_seconds n \<le> 60 \<and> retry_seconds n \<le> retry_seconds (Suc n)"
proof -
  assume n: "1 \<le> n"
  have clip: "1 \<le> a \<Longrightarrow> a \<le> b \<Longrightarrow> 5 \<le> min 60 (5 * a) \<and> min 60 (5 * a) \<le> 60 \<and> min 60 (5 * a) \<le> min 60 (5 * b)" for a b :: rat
    by auto
  have "(2::rat) ^ 0 \<le> 2 ^ min 4 (n - 1)" "(2::rat) ^ min 4 (n - 1) \<le> 2 ^ min 4 (Suc n - 1)"
    by (rule power_increasing; auto)+
  moreover have "retry_seconds n = min 60 (5 * 2 ^ min 4 (n - 1))" "retry_seconds (Suc n) = min 60 (5 * 2 ^ min 4 (Suc n - 1))"
    using n by (simp_all add: retry_seconds_def)
  ultimately show ?thesis using clip by simp
qed

text \<open>A failed delivery keeps every fragment: the group is pending again with the error
  recorded, and is due after a delay that grows with the attempts from five seconds to a minute.\<close>

theorem failed_deliveries_are_retried:
  assumes "queue_ok q" "ge_write env" "map_of (q_inFlight q) key = Some ids" "group_at q key = Some g" "1 \<le> gr_attempts g"
    and "flush_failure env key message q = (r, q')"
  shows "r = Inr False \<and> q_delivered q' = q_delivered q
    \<and> (\<exists>h. group_at q' key = Some h \<and> gr_items h = gr_items g \<and> gr_status h = GPending \<and> gr_lastError h = Some message
         \<and> ge_now env + 5000 \<le> gr_deadlineAt h \<and> gr_deadlineAt h \<le> ge_now env + 60000
         \<and> gr_deadlineAt h \<le> gr_maxDeadlineAt h
         \<and> map_of (q_timers q') key = Some (max 0 (gr_deadlineAt h - ge_armNow env)))"
proof -
  have key: "gr_key g = key" using queue_ok_group [OF assms(1,4)] by simp
  from retry_seconds_bounds [OF assms(5)]
  have b: "5000 \<le> retry_seconds (gr_attempts g) * 1000" "retry_seconds (gr_attempts g) * 1000 \<le> 60000" by auto
  show ?thesis
    using assms(2,3,4,6) key b
    by (auto simp: flush_failure_def flush_failed_def Let_def persist_queue_def arm_def put_group_def update_conv' disarm_def)
qed

theorem failed_deliveries_are_retried_witness:
  "\<exists>h. group_at (snd (flush_failure (sample_grouping_env 3200 True) ''chat:7:alice'' ''offline'' handed_over)) ''chat:7:alice'' = Some h
    \<and> gr_lastError h = Some ''offline'' \<and> 8200 \<le> gr_deadlineAt h"
proof -
  have f: "map_of (q_inFlight handed_over) ''chat:7:alice'' = Some [''m1'']" by code_simp
  from queue_ok_flight [OF grouping_samples_ok(2) f] obtain g where g: "group_at handed_over ''chat:7:alice'' = Some g" by blast
  have "map_option gr_attempts (group_at handed_over ''chat:7:alice'') = Some 1" by code_simp
  with g have "1 \<le> gr_attempts g" by simp
  from failed_deliveries_are_retried [OF grouping_samples_ok(2) _ f g this prod.collapse [symmetric], of "sample_grouping_env 3200 True"]
  show ?thesis by (auto simp: sample_grouping_env_def)
qed

text \<open>A group whose delivery was begun but never handed over.\<close>

definition stranded :: "string \<Rightarrow> queue \<Rightarrow> bool" where
  "stranded key q \<longleftrightarrow> (\<exists>g. group_at q key = Some g \<and> gr_status g = GDelivering) \<and> map_of (q_inFlight q) key = None"

lemma enqueue_to_frame: "enqueue_to env i g q = (r, q') \<Longrightarrow> q_inFlight q' = q_inFlight q \<and>
    group_at q' = (group_at q)(gr_key g \<mapsto> add_fragment env i g)"
  by (auto simp: enqueue_to_def Let_def add_fragment_items split: prod.splits sum.splits if_splits dest: persist_queue_fields)

lemma enqueue_stranded:
  assumes ok: "queue_ok q" and s: "stranded key q" and e: "enqueue env i q = (r, q')"
  shows "stranded key q'"
proof (cases "q' = q")
  case False
  with e obtain g where g: "enqueue_to env i g q = (r, q')" "find_group i q = Some g \<or> find_group i q = None \<and> g = new_group env i"
    by (auto simp: enqueue_def split: if_splits option.splits)
  then have "gr_key g = key \<longrightarrow> group_at q key = Some g"
    using find_group_at [OF ok] find_group_None [of i q] s by (auto simp: new_group_def stranded_def)
  with enqueue_to_frame [OF g(1)] s show ?thesis by (auto simp: stranded_def add_fragment_items)
qed (use s in simp)

lemma flush_begin_stranded:
  assumes ok: "queue_ok q" and s: "stranded key q" and f: "flush_begin env k q = (b, q')"
  shows "stranded key q' \<and> (k = key \<longrightarrow> b = Inr None)"
proof (cases "k = key")
  case True
  with s f show ?thesis by (auto simp: flush_begin_def stranded_def)
next
  case False
  then have "group_at q' key = group_at q key \<and> map_of (q_inFlight q') key = map_of (q_inFlight q) key"
    using f queue_ok_group [OF ok]
    by (fastforce simp: flush_begin_def Let_def persist_queue_def put_group_def update_conv' split: option.splits if_splits prod.splits)
  with False s show ?thesis by (simp add: stranded_def)
qed

lemma flush_failed_frame: "flush_failed env w m st g q = (r, q') \<Longrightarrow> k \<noteq> gr_key g \<Longrightarrow>
    group_at q' k = group_at q k \<and> q_inFlight q' = q_inFlight q"
  by (auto simp: flush_failed_def Let_def persist_queue_def put_group_def update_conv' split: if_splits)

lemma settle_frame: "k \<noteq> key \<Longrightarrow> gr_key g = key \<Longrightarrow> group_at (settle env key ids g q) k = group_at q k \<and> q_inFlight (settle env key ids g q) = q_inFlight q"
  by (simp add: settle_def Let_def delete_conv' put_group_def update_conv' settled_group_def)

lemma continuation_stranded:
  assumes ok: "queue_ok q" and s: "stranded key q"
    and f: "flush_success env k q = (r, q') \<or> flush_failure env k m q = (r, q')"
  shows "stranded key q'"
proof (cases "map_of (q_inFlight q) k")
  case None
  with f s show ?thesis by (auto simp: flush_success_def flush_failure_def)
next
  case (Some ids)
  then have ne: "key \<noteq> k" using s by (auto simp: stranded_def)
  from queue_ok_flight [OF ok Some] obtain g where g: "group_at q k = Some g" by blast
  have k: "gr_key g = k" "gr_key (settled_group ids g) = k"
    using queue_ok_group [OF ok g] by (simp_all add: settled_group_def Let_def)
  let ?q = "q\<lparr>q_inFlight := AList.delete k (q_inFlight q)\<rparr>"
  let ?q1 = "settle env k ids g ?q"
  have q1: "group_at ?q1 key = group_at q key" "q_inFlight ?q1 = AList.delete k (q_inFlight q)"
    using settle_frame [OF ne k(1), of env ids ?q] by simp_all
  have "group_at q' key = group_at q key \<and> q_inFlight q' = AList.delete k (q_inFlight q)"
    using f
  proof
    assume "flush_success env k q = (r, q')"
    note e = this [unfolded flush_success_eq [OF Some g]]
    show ?thesis
    proof (cases "ge_write env")
      case True
      with e q1 show ?thesis by auto
    next
      case False
      with e have "flush_failed env (ge_secondWrite env) (ge_writeError env) (gr_items (settled_group ids g) \<noteq> []) (settled_group ids g) ?q1 = (r, q')"
        by (simp only: if_False)
      from flush_failed_frame [OF this, of key] ne k(2) q1 show ?thesis by simp
    qed
  next
    assume "flush_failure env k m q = (r, q')"
    with Some g have "flush_failed env (ge_write env) m True g ?q = (r, q')" by (simp add: flush_failure_def)
    from flush_failed_frame [OF this, of key] ne k(1) show ?thesis by simp
  qed
  with s ne show ?thesis by (simp add: stranded_def delete_conv')
qed

lemma queue_step_stranded: "queue_step q a d q' \<Longrightarrow> queue_ok q \<Longrightarrow> stranded key q \<Longrightarrow> stranded key q'"
proof (induction rule: queue_step.induct)
  case (step_fire env k q b q')
  have "queue_ok (q\<lparr>q_timers := AList.delete k (q_timers q)\<rparr>)" "stranded key (q\<lparr>q_timers := AList.delete k (q_timers q)\<rparr>)"
    using step_fire(2,3) by (simp_all add: queue_ok_def stranded_def)
  from flush_begin_stranded [OF this step_fire(1) [unfolded fire_def]] show ?case by blast
next
  case (step_close env q u q')
  then have "q_groups q' = q_groups q \<and> q_inFlight q' = q_inFlight q"
    by (auto simp: close_queue_def dest: persist_queue_fields)
  with step_close(3) show ?case by (simp add: stranded_def)
qed (blast intro: enqueue_stranded continuation_stranded flush_begin_stranded [THEN conjunct1])+

lemma queue_run_stranded: "queue_run q a d q' \<Longrightarrow> queue_ok q \<Longrightarrow> stranded key q \<Longrightarrow> queue_ok q' \<and> stranded key q'"
proof (induction rule: queue_run.induct)
  case (run_step q acc del q' a d q'')
  then show ?case using queue_step_balanced [OF run_step(2)] queue_step_stranded [OF run_step(2)]
    by (simp add: balanced_def)
qed simp

text \<open>C36: When the write before a delivery fails, the group is stranded: \<open>flushNow\<close> throws
  after having marked it as being delivered, and from then on, however the queue is used, the
  group stays in that state, every further flush of it is refused, and its fragments are
  delivered only after a restart.\<close>

theorem failed_write_strands_the_group:
  assumes "queue_ok q" "flush_begin env key q = (Inl e, q')" "queue_run q' accepted delivered q''"
  shows "(\<exists>g. group_at q'' key = Some g \<and> gr_status g = GDelivering)
    \<and> (\<forall>env'. fst (flush_begin env' key q'') = Inr None \<and> fst (flush_success env' key q'') = Inr False)"
proof -
  have ok: "queue_ok q'" using flush_begin_balanced [OF assms(1,2)] by (simp add: balanced_def)
  from assms(2) obtain g where g: "group_at q key = Some g" "gr_status g \<noteq> GDelivering"
    by (auto simp: flush_begin_def split: option.splits if_splits)
  have fl: "map_of (q_inFlight q) key = None" using queue_ok_flight [OF assms(1), of key] g by (cases "map_of (q_inFlight q) key") auto
  have key: "gr_key g = key" using queue_ok_group [OF assms(1) g(1)] by simp
  have "stranded key q'"
    using assms(2) g fl key
    by (auto simp: flush_begin_def stranded_def Let_def persist_queue_def put_group_def update_conv' split: if_splits)
  from queue_run_stranded [OF assms(3) ok this] have s: "queue_ok q''" "stranded key q''" by auto
  have "fst (flush_begin env' key q'') = Inr None" for env'
    using flush_begin_stranded [OF s, of env' key] by (metis prod.collapse)
  moreover have "fst (flush_success env' key q'') = Inr False" for env'
    using s(2) by (simp add: stranded_def flush_success_def)
  ultimately show ?thesis using s(2) by (simp add: stranded_def)
qed

theorem failed_write_strands_the_group_witness:
  "\<forall>env'. fst (flush_begin env' ''chat:7:alice'' (snd (flush_begin (sample_grouping_env 3000 False) ''chat:7:alice'' one_fragment))) = Inr None"
proof -
  let ?f = "flush_begin (sample_grouping_env 3000 False) ''chat:7:alice'' one_fragment"
  have "fst ?f = Inl WriteErr" by code_simp
  then have f: "?f = (Inl WriteErr, snd ?f)" by (metis prod.collapse)
  from failed_write_strands_the_group [OF grouping_samples_ok(1) f run_none] show ?thesis by blast
qed

section \<open>What the queue is given\<close>











section \<open>The lives of a queue\<close>







text \<open>A step saves the state it ends in, or leaves the file alone.\<close>

definition writes_back :: "queue \<Rightarrow> queue \<Rightarrow> bool" where
  "writes_back q q' \<longleftrightarrow> q_disk q' = q_disk q \<or> (\<exists>env. q_disk q' = Some (snapshot env q'))"

lemma writes_back_same [simp]: "writes_back q q"
  by (simp add: writes_back_def)

lemma disk_fields [simp]: "q_disk (arm env g q) = q_disk q" "q_disk (disarm k q) = q_disk q" "q_disk (put_group g q) = q_disk q"
  "q_disk (fold disarm ks q) = q_disk q" "q_disk (settle env key ids g q) = q_disk q"
  by (simp_all add: arm_def disarm_def put_group_def settle_def Let_def) (induction ks arbitrary: q; simp add: disarm_def)







































end
