(* ===== verification/BoardData.thy ===== *)
theory BoardData
  imports Contracts "HOL-Library.Char_ord" "HOL-Library.List_Lexorder"
begin

text \<open>
  The data of the message-processing board (\<open>src/src/messageProcessing/board.ts\<close>,
  first half): its types, the readers that turn a value of unknown shape into them, and the
  keys and periods derived from a source or a requirement.

  A value of unknown shape is a \<open>jval\<close>. The number a string converts to is the parameter
  \<open>num\<close> (the canonical text of a finite number); the digest and \<open>Date.parse\<close> are
  parameters as in the request contracts. Texts that the source only stores are strings; the
  times the program writes are \<open>stamp\<close>s.
\<close>

section \<open>Readers of texts\<close>

text \<open>\<open>cleanText(value, max)\<close>\<close>

definition boardText :: "nat \<Rightarrow> jval \<Rightarrow> string option" where
  "boardText limit v = or_undef (js_slice0 limit (js_trim (if v = JUndef \<or> v = JNull then [] else js_String v)))"

fun is_array :: "jval \<Rightarrow> bool" where
  "is_array (JArr _) = True"
| "is_array _ = False"

fun elements :: "jval \<Rightarrow> jval list" where
  "elements (JArr vs) = vs"
| "elements _ = []"

text \<open>\<open>slice(-n)\<close> for a positive \<open>n\<close>.\<close>

definition last_items :: "nat \<Rightarrow> 'a list \<Rightarrow> 'a list" where
  "last_items n xs = drop (length xs - n) xs"

definition stringList :: "nat \<Rightarrow> jval \<Rightarrow> string list" where
  "stringList limit v = last_items limit (filter (\<lambda>s. s \<noteq> []) (map (\<lambda>x. js_trim (js_String x)) (elements v)))"

text \<open>\<open>String(value || "")\<close>\<close>

definition or_empty :: "jval \<Rightarrow> string" where
  "or_empty v = (if js_truthy v then js_String v else [])"

text \<open>The number \<open>Number(v)\<close>, when it is finite.\<close>

fun js_number :: "(string \<Rightarrow> string option) \<Rightarrow> jval \<Rightarrow> string option" where
  "js_number num (JNum t) = (if t \<in> {''NaN'', ''Infinity'', ''-Infinity''} then None else Some t)"
| "js_number num JNull = Some ''0''"
| "js_number num (JBool b) = Some (if b then ''1'' else ''0'')"
| "js_number num (JStr s) = num s"
| "js_number num (JArr vs) = num (js_String (JArr vs))"
| "js_number num _ = None"

lemma boardText_nonempty: "boardText n v = Some s \<Longrightarrow> s \<noteq> [] \<and> length s \<le> n"
  by (auto simp: boardText_def)

section \<open>Sources\<close>

record attachment =
  at_id :: string
  at_messageId :: string
  at_kind :: string
  at_name :: string
  at_mimeType :: "string option"
  at_size :: "string option"
  at_path :: "string option"
  at_ready :: bool
  at_error :: "string option"

record board_source =
  so_routeId :: string
  so_routeProfileId :: "string option"
  so_roleId :: "string option"
  so_endpoint :: string
  so_conversationKey :: string
  so_sender :: string
  so_routeKinds :: "string list"
  so_messageIds :: "string list"
  so_evidenceReviewRequired :: bool
  so_replyChainMessageIds :: "string list"
  so_attachments :: "attachment list option"
  so_summary :: "string option"
  so_replyContext :: "jval option"

definition read_attachment :: "(string \<Rightarrow> string option) \<Rightarrow> jval \<Rightarrow> attachment option" where
  "read_attachment num v =
     (if \<not> is_object v then None
      else case (boardText 300 (jget v ''id''), boardText 300 (jget v ''messageId''), boardText 500 (jget v ''name'')) of
        (Some i, Some m, Some n) \<Rightarrow>
          Some \<lparr>at_id = i, at_messageId = m,
            at_kind = (case jget v ''kind'' of JStr k \<Rightarrow> if k \<in> {''video'', ''audio'', ''file''} then k else ''image'' | _ \<Rightarrow> ''image''),
            at_name = n, at_mimeType = boardText 200 (jget v ''mimeType''), at_size = js_number num (jget v ''size''),
            at_path = boardText 2000 (jget v ''path''), at_ready = (jget v ''status'' = JStr ''ready''),
            at_error = boardText 2000 (jget v ''error'')\<rparr>
      | _ \<Rightarrow> None)"

definition normalizeSource :: "(string \<Rightarrow> string option) \<Rightarrow> jval \<Rightarrow> board_source option" where
  "normalizeSource num v =
     (if \<not> is_object v then None
      else case (boardText 200 (jget v ''routeId''), boardText 120 (jget v ''endpoint''),
                 boardText 500 (jget v ''conversationKey''), boardText 500 (jget v ''sender'')) of
        (Some routeId, Some endpoint, Some conversationKey, Some sender) \<Rightarrow>
          Some \<lparr>so_routeId = routeId, so_routeProfileId = boardText 200 (jget v ''routeProfileId''),
            so_roleId = boardText 200 (jget v ''roleId''), so_endpoint = endpoint, so_conversationKey = conversationKey,
            so_sender = sender, so_routeKinds = stringList 20 (jget v ''routeKinds''),
            so_messageIds = stringList 100 (jget v ''messageIds''),
            so_evidenceReviewRequired = (jget v ''evidenceReviewRequired'' = JBool True),
            so_replyChainMessageIds = stringList 100 (jget v ''replyChainMessageIds''),
            so_attachments = (if is_array (jget v ''attachments'')
               then Some (List.map_filter (read_attachment num) (elements (jget v ''attachments''))) else None),
            so_summary = boardText 4000 (jget v ''summary''),
            so_replyContext = (if is_object (jget v ''replyContext'') then Some (jget v ''replyContext'') else None)\<rparr>
      | _ \<Rightarrow> None)"

text \<open>The identity of a source: route, endpoint, conversation and the set of its messages.\<close>

definition sourceIdentity :: "board_source \<Rightarrow> jval" where
  "sourceIdentity s = JObj [(''routeId'', JStr (so_routeId s)), (''endpoint'', JStr (so_endpoint s)),
     (''conversationKey'', JStr (so_conversationKey s)), (''messageIds'', JArr (map JStr (sort (remdups (so_messageIds s)))))]"

definition messageSourceDedupeKey :: "(string \<Rightarrow> string) \<Rightarrow> board_source \<Rightarrow> string" where
  "messageSourceDedupeKey hash s = hash (stringify (sourceIdentity s))"

definition reply_required :: "board_source \<Rightarrow> bool" where
  "reply_required s \<longleftrightarrow>
     list_ex (\<lambda>kind. kind \<in> {''private'', ''direct_at'', ''direct_reply'', ''role_panel_message''}) (so_routeKinds s)
     \<or> (case so_replyContext s of None \<Rightarrow> False | Some c \<Rightarrow> or_empty (jget c ''targetType'') = ''private'')"

section \<open>Assessments, recalls and dispositions\<close>

record fact_signal =
  fs_kind :: string
  fs_evidence :: string

record fact_assessment =
  fa_critical :: bool
  fa_reviewedMessageIds :: "string list"
  fa_replyChainChecked :: bool
  fa_evidence :: string
  fa_assessedAt :: string
  fa_assessedBy :: "string option"
  fa_facts :: "fact_signal list option"

record attachment_review =
  ar_attachmentId :: string
  ar_reviewed :: bool
  ar_observation :: string

record evidence_review =
  ev_reviewedMessageIds :: "string list"
  ev_replyChainChecked :: bool
  ev_attachmentReviews :: "attachment_review list"
  ev_evidence :: string
  ev_reviewedAt :: string
  ev_reviewedBy :: "string option"

record knowledge_match =
  km_id :: string
  km_title :: string
  km_type :: string
  km_endpoint :: string
  km_score :: string
  km_revisionAt :: string

record knowledge_action =
  ka_type :: string
  ka_recordType :: "string option"
  ka_recordId :: "string option"
  ka_evidence :: string
  ka_verifiedAt :: "string option"

record knowledge_disposition =
  kd_knowledgeId :: string
  kd_knowledgeType :: string
  kd_relevant :: bool
  kd_evidence :: string
  kd_actions :: "knowledge_action list"

record knowledge_callback =
  kc_knowledgeId :: string
  kc_knowledgeType :: string
  kc_result :: jval
  kc_responseAction :: jval
  kc_evidence :: string
  kc_recordType :: "string option"
  kc_recordId :: "string option"
  kc_verifiedAt :: "string option"
  kc_callbackAt :: string
  kc_callbackBy :: "string option"

datatype fact_record = PlanRecord string | MemoryRecord string | DocumentRecord string

record fact_disposition =
  fd_status :: jval
  fd_record :: "fact_record option"
  fd_evidence :: "string option"
  fd_verifiedAt :: "string option"

definition fact_kinds :: "string set" where
  "fact_kinds = {''schedule'', ''scope'', ''approval'', ''ownership'', ''release''}"

definition knowledge_types :: "string set" where
  "knowledge_types = {''plan'', ''recent_memory'', ''consolidated_memory''}"

definition action_types :: "string set" where
  "action_types = {''reply'', ''discuss'', ''update_plan'', ''update_memory'', ''create_plan'', ''create_memory'', ''handoff'', ''no_action''}"

definition record_type :: "jval \<Rightarrow> string option" where
  "record_type v = (case v of JStr s \<Rightarrow> if s \<in> {''plan'', ''memory''} then Some s else None | _ \<Rightarrow> None)"

definition read_fact :: "jval \<Rightarrow> fact_signal option" where
  "read_fact v = (if \<not> is_object v then None
     else case boardText 4000 (jget v ''evidence'') of
       Some evidence \<Rightarrow> if or_empty (jget v ''kind'') \<in> fact_kinds
         then Some \<lparr>fs_kind = or_empty (jget v ''kind''), fs_evidence = evidence\<rparr> else None
     | None \<Rightarrow> None)"

definition normalizeCriticalFacts :: "jval \<Rightarrow> fact_signal list" where
  "normalizeCriticalFacts v = List.map_filter read_fact (elements v)"

definition normalizeProjectFactAssessment :: "jval \<Rightarrow> fact_assessment option" where
  "normalizeProjectFactAssessment v =
     (if \<not> is_object v \<or> jget v ''status'' \<notin> {JStr ''none'', JStr ''critical''} then None
      else let facts = normalizeCriticalFacts (jget v ''facts'') in
        Some \<lparr>fa_critical = (jget v ''status'' = JStr ''critical''),
          fa_reviewedMessageIds = stringList 100 (jget v ''reviewedMessageIds''),
          fa_replyChainChecked = (jget v ''replyChainChecked'' = JBool True),
          fa_evidence = or_str (boardText 4000 (jget v ''evidence'')) [],
          fa_assessedAt = or_str (boardText 100 (jget v ''assessedAt'')) [],
          fa_assessedBy = boardText 100 (jget v ''assessedByThreadId''),
          fa_facts = (if facts = [] then None else Some facts)\<rparr>)"

definition read_attachment_review :: "jval \<Rightarrow> attachment_review option" where
  "read_attachment_review v = (if \<not> is_object v then None
     else case (boardText 300 (jget v ''attachmentId''), boardText 2000 (jget v ''observation'')) of
       (Some i, Some obs) \<Rightarrow> if jget v ''status'' \<in> {JStr ''reviewed'', JStr ''unavailable''}
         then Some \<lparr>ar_attachmentId = i, ar_reviewed = (jget v ''status'' = JStr ''reviewed''), ar_observation = obs\<rparr> else None
     | _ \<Rightarrow> None)"

definition normalizeSourceEvidenceReview :: "jval \<Rightarrow> evidence_review option" where
  "normalizeSourceEvidenceReview v =
     (if \<not> is_object v then None
      else Some \<lparr>ev_reviewedMessageIds = stringList 200 (jget v ''reviewedMessageIds''),
        ev_replyChainChecked = (jget v ''replyChainChecked'' = JBool True),
        ev_attachmentReviews = List.map_filter read_attachment_review (elements (jget v ''attachmentReviews'')),
        ev_evidence = or_str (boardText 4000 (jget v ''evidence'')) [],
        ev_reviewedAt = or_str (boardText 100 (jget v ''reviewedAt'')) [],
        ev_reviewedBy = boardText 100 (jget v ''reviewedByThreadId'')\<rparr>)"

definition read_match :: "(string \<Rightarrow> string option) \<Rightarrow> jval \<Rightarrow> knowledge_match option" where
  "read_match num v = (if \<not> is_object v then None
     else case (boardText 500 (jget v ''id''), boardText 1000 (jget v ''title''), boardText 2000 (jget v ''endpoint''),
                boardText 100 (jget v ''revisionAt''), js_number num (jget v ''score'')) of
       (Some i, Some title, Some ep, Some revisionAt, Some score) \<Rightarrow>
         if or_empty (jget v ''type'') \<in> knowledge_types
         then Some \<lparr>km_id = i, km_title = title, km_type = or_empty (jget v ''type''), km_endpoint = ep,
                km_score = score, km_revisionAt = revisionAt\<rparr>
         else None
     | _ \<Rightarrow> None)"

definition normalizeKnowledgeMatches :: "(string \<Rightarrow> string option) \<Rightarrow> jval \<Rightarrow> knowledge_match list" where
  "normalizeKnowledgeMatches num v = List.map_filter (read_match num) (elements v)"

definition read_action :: "jval \<Rightarrow> knowledge_action option" where
  "read_action v = (if \<not> is_object v then None
     else case boardText 4000 (jget v ''evidence'') of
       Some evidence \<Rightarrow> if or_empty (jget v ''type'') \<in> action_types
         then Some \<lparr>ka_type = or_empty (jget v ''type''), ka_recordType = record_type (jget v ''recordType''),
                ka_recordId = boardText 500 (jget v ''recordId''), ka_evidence = evidence,
                ka_verifiedAt = boardText 100 (jget v ''verifiedAt'')\<rparr>
         else None
     | None \<Rightarrow> None)"

definition read_disposition :: "jval \<Rightarrow> knowledge_disposition option" where
  "read_disposition v = (if \<not> is_object v then None
     else case (boardText 500 (jget v ''knowledgeId''), boardText 4000 (jget v ''evidence'')) of
       (Some i, Some evidence) \<Rightarrow>
         if or_empty (jget v ''knowledgeType'') \<in> knowledge_types \<and> jget v ''relevance'' \<in> {JStr ''relevant'', JStr ''not_relevant''}
         then Some \<lparr>kd_knowledgeId = i, kd_knowledgeType = or_empty (jget v ''knowledgeType''),
                kd_relevant = (jget v ''relevance'' = JStr ''relevant''), kd_evidence = evidence,
                kd_actions = List.map_filter read_action (elements (jget v ''actions''))\<rparr>
         else None
     | _ \<Rightarrow> None)"

definition normalizeKnowledgeMatchDispositions :: "jval \<Rightarrow> knowledge_disposition list" where
  "normalizeKnowledgeMatchDispositions v = List.map_filter read_disposition (elements v)"

definition read_callback :: "jval \<Rightarrow> knowledge_callback option" where
  "read_callback v = (if \<not> is_object v then None
     else case (boardText 500 (jget v ''knowledgeId''), boardText 4000 (jget v ''evidence''), boardText 100 (jget v ''callbackAt'')) of
       (Some i, Some evidence, Some at) \<Rightarrow>
         if or_empty (jget v ''knowledgeType'') \<in> knowledge_types
           \<and> js_String (jget v ''result'') \<in> {''unchanged'', ''updated'', ''created'', ''not_relevant'', ''deferred''}
           \<and> js_String (jget v ''responseAction'') \<in> {''none'', ''reply'', ''discuss'', ''handoff''}
         then Some \<lparr>kc_knowledgeId = i, kc_knowledgeType = or_empty (jget v ''knowledgeType''),
                kc_result = jget v ''result'', kc_responseAction = jget v ''responseAction'',
                kc_evidence = evidence, kc_recordType = record_type (jget v ''recordType''),
                kc_recordId = boardText 500 (jget v ''recordId''), kc_verifiedAt = boardText 100 (jget v ''verifiedAt''),
                kc_callbackAt = at, kc_callbackBy = boardText 100 (jget v ''callbackByThreadId'')\<rparr>
         else None
     | _ \<Rightarrow> None)"

text \<open>The membership checks above convert with \<open>String\<close>, the value itself is stored.\<close>

definition callbackIsFinal :: "knowledge_callback option \<Rightarrow> bool" where
  "callbackIsFinal c \<longleftrightarrow> (case c of None \<Rightarrow> False | Some k \<Rightarrow> kc_result k \<noteq> JStr ''deferred'')"

text \<open>
  The record a critical fact was written to: the typed reference, or the two legacy fields.
\<close>

definition fact_record_of :: "jval \<Rightarrow> fact_record option" where
  "fact_record_of v =
     (let raw = jget v ''record''; legacy = boardText 500 (jget v ''recordId''); kind = jget v ''recordType'' in
      if is_object raw \<and> jget raw ''type'' = JStr ''plan'' \<and> boardText 500 (jget raw ''planId'') \<noteq> None
      then map_option PlanRecord (boardText 500 (jget raw ''planId''))
      else if is_object raw \<and> jget raw ''type'' = JStr ''memory'' \<and> boardText 500 (jget raw ''memoryId'') \<noteq> None
      then map_option MemoryRecord (boardText 500 (jget raw ''memoryId''))
      else if is_object raw \<and> jget raw ''type'' = JStr ''document'' \<and> boardText 500 (jget raw ''relativePath'') \<noteq> None
      then map_option DocumentRecord (boardText 500 (jget raw ''relativePath''))
      else if kind = JStr ''plan'' then map_option PlanRecord legacy
      else if kind = JStr ''memory'' then map_option MemoryRecord legacy
      else if kind = JStr ''document'' then map_option DocumentRecord legacy
      else None)"

definition normalizeCriticalFactDisposition :: "jval \<Rightarrow> fact_disposition option" where
  "normalizeCriticalFactDisposition v =
     (if \<not> is_object v \<or> js_String (jget v ''status'') \<notin> {''recorded'', ''duplicate'', ''not_applicable''} then None
      else Some \<lparr>fd_status = jget v ''status'', fd_record = fact_record_of v,
        fd_evidence = boardText 2000 (jget v ''evidence''), fd_verifiedAt = boardText 100 (jget v ''verifiedAt'')\<rparr>)"

section \<open>Workers\<close>

record worker =
  wo_dsh :: bool
  wo_threadId :: string
  wo_threadName :: string
  wo_workspace :: string

definition normalizedWorker :: "jval \<Rightarrow> worker option" where
  "normalizedWorker v =
     (if \<not> is_object v then None
      else case (boardText 100 (jget v ''threadId''), boardText 300 (jget v ''threadName''), boardText 2000 (jget v ''workspace'')) of
        (Some threadId, Some threadName, Some workspace) \<Rightarrow>
          Some \<lparr>wo_dsh = (jget v ''agentAdapter'' = JStr ''dsh'' \<or> take 8 threadId = ''session-''),
            wo_threadId = threadId, wo_threadName = threadName, wo_workspace = workspace\<rparr>
      | _ \<Rightarrow> None)"

end
