(* ===== verification/Board.thy ===== *)
theory Board
  imports BoardData
begin

text \<open>
  The store of the message-processing board (\<open>MessageProcessingBoardStore\<close> of
  \<open>src/src/messageProcessing/board.ts\<close>): requirements, the plans linked to them and the
  keys that suppress replays, with every operation that changes them.

  An operation takes the environment and the state and returns its result or the thrown error
  together with the state it leaves: the source mutates a requirement before later checks of
  the same call can throw, and a failed write is not undone in memory, so the state after an
  error is part of the model. The environment holds the clock (one reading per operation),
  whether the write succeeds, a fresh UUID, the text of a time, the digest,
  \<open>Date.parse\<close> and the number of a string. Audit records are not modelled.
\<close>

section \<open>Requirements\<close>

datatype requirement_status = PendingDispatch | Processing | HandedOff | AwaitingSend | AwaitingApproval
  | FactAssessmentPending | FactRecordPending | Sent | NotRequired | SendFailed

datatype decision_kind = ReplyDecision | NoReplyDecision | HandoffDecision

record decision =
  de_type :: decision_kind
  de_reasonCode :: "string option"
  de_reason :: "string option"
  de_decidedAt :: stamp
  de_decidedBy :: "string option"

record handoff =
  ho_targetAgentType :: string
  ho_targetThreadId :: "string option"
  ho_targetThreadName :: "string option"
  ho_acceptedAt :: stamp
  ho_returnedAt :: "stamp option"

datatype send_status = SentStatus | DraftStatus | BlockedStatus | FailedStatus

record send_record =
  sr_deliveryId :: "string option"
  sr_status :: send_status
  sr_channel :: "string option"
  sr_sentMessageId :: "string option"
  sr_sentFileId :: "string option"
  sr_sentFileName :: "string option"
  sr_reason :: "string option"
  sr_updatedAt :: stamp

text \<open>
  What a change of a plan is about; the texts of the notices are in Chinese and are not
  rendered.
\<close>

datatype plan_notice =
    StatusNotice string string
  | StepNotice "string option" "string option"
  | NextActionNotice "string option" "string option"
  | WaitingNotice "string option" "string option"
  | BlockNotice "bool + string" "bool + string"
  | StepsNotice
  | UpdatedNotice "string option" string

record plan_change =
  pc_planId :: string
  pc_planTitle :: string
  pc_beforeUpdatedAt :: "string option"
  pc_afterUpdatedAt :: string
  pc_changes :: "plan_notice list"

record requirement =
  rm_id :: string
  rm_dedupeKey :: string
  rm_isReply :: bool
  rm_replyRequired :: bool
  rm_status :: requirement_status
  rm_source :: board_source
  rm_messageGroupId :: "string option"
  rm_plan :: "plan_change option"
  rm_worker :: "worker option"
  rm_decision :: "decision option"
  rm_handoff :: "handoff option"
  rm_delivery :: "send_record option"
  rm_factAssessmentRequired :: bool
  rm_factAssessment :: "fact_assessment option"
  rm_evidenceReview :: "evidence_review option"
  rm_matches :: "knowledge_match list"
  rm_dispositions :: "knowledge_disposition list option"
  rm_callbacks :: "knowledge_callback list"
  rm_callbackDueAt :: "stamp option"
  rm_lastReminderAt :: "stamp option"
  rm_criticalFacts :: "fact_signal list"
  rm_factDisposition :: "fact_disposition option"
  rm_createdAt :: stamp
  rm_updatedAt :: stamp
  rm_dueAt :: stamp
  rm_lastError :: "string option"

record outcome =
  oi_decision :: string
  oi_reasonCode :: "string option"
  oi_reason :: jval
  oi_decidedByThreadId :: jval
  oi_targetAgentType :: jval
  oi_targetThreadId :: jval
  oi_targetThreadName :: jval
  oi_roleId :: jval
  oi_planId :: jval
  oi_planTitle :: jval
  oi_projectFactAssessment :: jval
  oi_sourceEvidenceReview :: jval
  oi_knowledgeMatchDispositions :: jval
  oi_criticalFactDisposition :: jval

section \<open>The gates of an outcome\<close>

fun join_comma :: "string list \<Rightarrow> string" where
  "join_comma [] = []"
| "join_comma [x] = x"
| "join_comma (x # y # zs) = x @ '', '' @ join_comma (y # zs)"

text \<open>\<open>new Map(items.map(item => [key, item])).get(k)\<close>: the last item with the key.\<close>

definition last_with :: "('a \<Rightarrow> 'k) \<Rightarrow> 'a list \<Rightarrow> 'k \<Rightarrow> 'a option" where
  "last_with key xs k = (case filter (\<lambda>x. key x = k) xs of [] \<Rightarrow> None | ys \<Rightarrow> Some (last ys))"

definition gate_source_ids :: "requirement \<Rightarrow> string list" where
  "gate_source_ids r = so_messageIds (rm_source r) @ so_replyChainMessageIds (rm_source r)"

definition source_attachments :: "requirement \<Rightarrow> attachment list" where
  "source_attachments r = (case so_attachments (rm_source r) of Some xs \<Rightarrow> xs | None \<Rightarrow> [])"

text \<open>The parts of the evidence check that only closing without a reply needs.\<close>

definition closing_evidence :: "requirement \<Rightarrow> evidence_review \<Rightarrow> unit result" where
  "closing_evidence r review =
     (let missing = filter (\<lambda>m. m \<notin> set (ev_reviewedMessageIds review)) (gate_source_ids r);
          reviews = last_with ar_attachmentId (ev_attachmentReviews review);
          unreviewed = filter (\<lambda>a. reviews (at_id a) = None) (source_attachments r);
          unavailable = filter (\<lambda>a. \<not> at_ready a) (source_attachments r);
          notReviewed = filter (\<lambda>a. \<not> (case reviews (at_id a) of Some x \<Rightarrow> ar_reviewed x | None \<Rightarrow> False)) (source_attachments r)
      in bind (check (missing = [])
           (Err (''sourceEvidenceReview must cover every source and reply-chain messageId. Missing: '' @ join_comma missing))) (\<lambda>_.
         bind (check (unreviewed = [])
           (Err (''sourceEvidenceReview must cover every attachment. Missing: '' @ join_comma (map at_id unreviewed)))) (\<lambda>_.
         bind (check (unavailable = [])
           (Err (''Source attachment is unavailable and cannot be answered by inference. Handoff or retry attachment retrieval: ''
             @ join_comma (map at_id unavailable)))) (\<lambda>_.
         check (notReviewed = [])
           (Err (''Readable source attachments must be marked reviewed with a concrete observation: '' @ join_comma (map at_id notReviewed)))))))"

definition validateSourceEvidenceReview :: "requirement \<Rightarrow> outcome \<Rightarrow> evidence_review option result" where
  "validateSourceEvidenceReview r i =
     (if \<not> rm_isReply r \<or> oi_decision i = ''handoff'' \<or> \<not> so_evidenceReviewRequired (rm_source r) then Inr None
      else case (case normalizeSourceEvidenceReview (oi_sourceEvidenceReview i) of Some x \<Rightarrow> Some x | None \<Rightarrow> rm_evidenceReview r) of
        None \<Rightarrow> Inl (Err ''Message Agent must submit sourceEvidenceReview before closing or replying.'')
      | Some review \<Rightarrow>
          bind (check (ev_replyChainChecked review \<and> ev_evidence review \<noteq> [] \<and> ev_reviewedAt review \<noteq> [])
            (Err ''sourceEvidenceReview requires replyChainChecked=true, evidence, and reviewedAt.'')) (\<lambda>_.
          let unknownMessages = filter (\<lambda>m. m \<notin> set (gate_source_ids r)) (ev_reviewedMessageIds review);
              unknownAttachments = filter (\<lambda>x. ar_attachmentId x \<notin> at_id ` set (source_attachments r)) (ev_attachmentReviews review)
          in bind (check (unknownMessages = [])
               (Err (''sourceEvidenceReview contains messageIds outside this requirement: '' @ join_comma unknownMessages))) (\<lambda>_.
             bind (check (unknownAttachments = [])
               (Err (''sourceEvidenceReview contains attachments outside this requirement: ''
                 @ join_comma (map ar_attachmentId unknownAttachments)))) (\<lambda>_.
             if oi_decision i = ''reply'' then Inr (Some review)
             else bind (closing_evidence r review) (\<lambda>_. Inr (Some review))))))"

definition validateProjectFactAssessment :: "requirement \<Rightarrow> outcome \<Rightarrow> fact_assessment option result" where
  "validateProjectFactAssessment r i =
     (if \<not> rm_isReply r \<or> oi_decision i = ''handoff'' \<or> \<not> rm_factAssessmentRequired r then Inr None
      else case (case normalizeProjectFactAssessment (oi_projectFactAssessment i) of Some x \<Rightarrow> Some x | None \<Rightarrow> rm_factAssessment r) of
        None \<Rightarrow> Inl (Err ''Message Agent must submit projectFactAssessment before closing or replying.'')
      | Some a \<Rightarrow>
          bind (check (fa_replyChainChecked a \<and> fa_evidence a \<noteq> [] \<and> fa_assessedAt a \<noteq> [])
            (Err ''projectFactAssessment requires replyChainChecked=true, evidence, and assessedAt.'')) (\<lambda>_.
          let unknown = filter (\<lambda>m. m \<notin> set (gate_source_ids r)) (fa_reviewedMessageIds a);
              missing = (if oi_decision i = ''reply'' then []
                else filter (\<lambda>m. m \<notin> set (fa_reviewedMessageIds a)) (so_messageIds (rm_source r)));
              facts = (case fa_facts a of None \<Rightarrow> [] | Some fs \<Rightarrow> fs)
          in bind (check (unknown = [])
               (Err (''projectFactAssessment contains messageIds outside this requirement: '' @ join_comma unknown))) (\<lambda>_.
             bind (check (missing = [])
               (Err (''projectFactAssessment must cover every source messageId. Missing: '' @ join_comma missing))) (\<lambda>_.
             bind (check (fa_critical a \<longrightarrow> facts \<noteq> [])
               (Err ''A critical projectFactAssessment requires at least one Agent-classified fact.'')) (\<lambda>_.
             bind (check (\<not> fa_critical a \<longrightarrow> facts = [])
               (Err ''A none projectFactAssessment cannot include critical facts.'')) (\<lambda>_. Inr (Some a)))))))"

definition callback_key :: "knowledge_callback \<Rightarrow> string" where
  "callback_key c = kc_knowledgeType c @ '':'' @ kc_knowledgeId c"

definition match_key :: "knowledge_match \<Rightarrow> string" where
  "match_key m = km_type m @ '':'' @ km_id m"

definition disposition_key :: "knowledge_disposition \<Rightarrow> string" where
  "disposition_key d = kd_knowledgeType d @ '':'' @ kd_knowledgeId d"

text \<open>\<open>for (const x of xs) f(x)\<close>, where \<open>f\<close> may throw.\<close>

fun each :: "('a \<Rightarrow> unit result) \<Rightarrow> 'a list \<Rightarrow> unit result" where
  "each f [] = Inr ()"
| "each f (x # xs) = bind (f x) (\<lambda>_. each f xs)"

lemma each_ok: "each f xs = Inr u \<longleftrightarrow> (\<forall>x\<in>set xs. f x = Inr ())"
  by (induction xs) auto

definition record_actions :: "string set" where
  "record_actions = {''update_plan'', ''update_memory'', ''create_plan'', ''create_memory''}"

definition check_action :: "outcome \<Rightarrow> knowledge_disposition \<Rightarrow> knowledge_action \<Rightarrow> unit result" where
  "check_action i d a =
     bind (check (ka_type a \<in> {''reply'', ''discuss''} \<longrightarrow> oi_decision i = ''reply'')
       (Err (ka_type a @ '' requires decision=reply for recalled item '' @ kd_knowledgeId d @ ''.''))) (\<lambda>_.
     if ka_type a \<notin> record_actions then Inr ()
     else bind (check (truthy (ka_recordId a) \<and> ka_recordType a \<noteq> None \<and> truthy (ka_verifiedAt a))
         (Err (ka_type a @ '' requires recordType, recordId, evidence, and verifiedAt for recalled item '' @ kd_knowledgeId d @ ''.''))) (\<lambda>_.
       check (\<not> (ka_type a \<in> {''update_plan'', ''create_plan''} \<and> ka_recordType a \<noteq> Some ''plan''
                \<or> ka_type a \<in> {''update_memory'', ''create_memory''} \<and> ka_recordType a \<noteq> Some ''memory''))
         (Err (ka_type a @ '' has an incompatible recordType for recalled item '' @ kd_knowledgeId d @ ''.''))))"

definition check_disposition :: "outcome \<Rightarrow> knowledge_disposition \<Rightarrow> unit result" where
  "check_disposition i d =
     bind (check (kd_actions d \<noteq> []) (Err (''knowledgeMatchDisposition '' @ kd_knowledgeId d @ '' requires at least one action.''))) (\<lambda>_.
     bind (check (\<not> kd_relevant d \<longrightarrow> list_all (\<lambda>a. ka_type a = ''no_action'') (kd_actions d))
       (Err (''A not_relevant recall may only use no_action: '' @ kd_knowledgeId d))) (\<lambda>_.
     bind (check (kd_relevant d \<longrightarrow> \<not> list_all (\<lambda>a. ka_type a = ''no_action'') (kd_actions d))
       (Err (''A relevant recall requires reply, discussion, plan/memory update, creation, or handoff: '' @ kd_knowledgeId d))) (\<lambda>_.
     each (check_action i d) (kd_actions d))))"

definition all_final :: "requirement \<Rightarrow> bool" where
  "all_final r \<longleftrightarrow> list_all (\<lambda>m. callbackIsFinal (last_with callback_key (rm_callbacks r) (match_key m))) (rm_matches r)"

text \<open>
  The callbacks are checked in the order in which their keys were first inserted.
\<close>

definition check_callback :: "outcome \<Rightarrow> knowledge_callback \<Rightarrow> unit result" where
  "check_callback i c = check (kc_responseAction c \<in> {JStr ''reply'', JStr ''discuss''} \<longrightarrow> oi_decision i = ''reply'')
     (Err (js_String (kc_responseAction c) @ '' callback requires decision=reply for recalled item '' @ kc_knowledgeId c @ ''.''))"

definition callbacks_by_key :: "knowledge_callback list \<Rightarrow> knowledge_callback list" where
  "callbacks_by_key cs = map_values (fold (\<lambda>c. AList.update (callback_key c) c) cs [])"

definition validateKnowledgeMatchDispositions :: "requirement \<Rightarrow> outcome \<Rightarrow> knowledge_disposition list option result" where
  "validateKnowledgeMatchDispositions r i =
     (if \<not> rm_isReply r \<or> oi_decision i = ''handoff'' \<or> \<not> rm_factAssessmentRequired r then Inr None
      else if all_final r then bind (each (check_callback i) (callbacks_by_key (rm_callbacks r))) (\<lambda>_. Inr (rm_dispositions r))
      else let dispositions = normalizeKnowledgeMatchDispositions (oi_knowledgeMatchDispositions i);
               missing = filter (\<lambda>m. match_key m \<notin> disposition_key ` set dispositions) (rm_matches r);
               unexpected = filter (\<lambda>d. \<not> list_ex (\<lambda>m. km_id m = kd_knowledgeId d \<and> km_type m = kd_knowledgeType d) (rm_matches r)) dispositions
        in bind (check (missing = [])
             (Err (''Every recalled plan or memory requires a knowledgeMatchDisposition. Missing: '' @ join_comma (map km_id missing)))) (\<lambda>_.
           bind (check (unexpected = [])
             (Err (''knowledgeMatchDisposition contains items that were not recalled: '' @ join_comma (map kd_knowledgeId unexpected)))) (\<lambda>_.
           bind (each (check_disposition i) dispositions) (\<lambda>_. Inr (Some dispositions)))))"

definition critical_facts :: "requirement \<Rightarrow> outcome \<Rightarrow> fact_signal list" where
  "critical_facts r i =
     (if (case rm_factAssessment r of Some a \<Rightarrow> fa_critical a | None \<Rightarrow> False)
      then (case fa_facts (the (rm_factAssessment r)) of Some fs \<Rightarrow> fs | None \<Rightarrow> [])
      else if jget (oi_projectFactAssessment i) ''status'' = JStr ''critical''
      then normalizeCriticalFacts (jget (oi_projectFactAssessment i) ''facts'')
      else rm_criticalFacts r)"

definition validateCriticalFactDisposition :: "requirement \<Rightarrow> outcome \<Rightarrow> fact_disposition option result" where
  "validateCriticalFactDisposition r i =
     (if oi_decision i = ''handoff'' \<or> critical_facts r i = [] then Inr None
      else case normalizeCriticalFactDisposition (oi_criticalFactDisposition i) of
        None \<Rightarrow> Inl (Err ''This message contains a critical project fact. Record and verify it in a plan, memory, or project document before closing or replying; otherwise hand it off.'')
      | Some d \<Rightarrow>
          if fd_status d = JStr ''not_applicable''
          then bind (check (truthy (fd_evidence d))
                 (Err ''criticalFactDisposition.not_applicable requires evidence explaining the false positive.'')) (\<lambda>_. Inr (Some d))
          else bind (check (fd_record d \<noteq> None \<and> truthy (fd_evidence d) \<and> truthy (fd_verifiedAt d))
                 (Err ''criticalFactDisposition requires a typed record reference, evidence, and verifiedAt for recorded or duplicate facts.''))
                 (\<lambda>_. Inr (Some d)))"

section \<open>The state of the board\<close>

record plan_step =
  ps_id :: string
  ps_startedAt :: "string option"
  ps_waitingFor :: "string option"
  ps_completedAt :: "string option"
  ps_blockedBy :: "string option"

record plan_item =
  pi_id :: string
  pi_title :: string
  pi_updatedAt :: string
  pi_status :: string
  pi_currentStep :: "string option"
  pi_currentStepId :: "string option"
  pi_nextAction :: "string option"
  pi_waitingFor :: "string option"
  pi_isBlocked :: "bool option"
  pi_blockedBy :: "string option"
  pi_steps :: "plan_step list"

record plan_snapshot =
  sn_updatedAt :: string
  sn_status :: string
  sn_currentStep :: "string option"
  sn_currentStepId :: "string option"
  sn_nextAction :: "string option"
  sn_waitingFor :: "string option"
  sn_isBlocked :: "bool option"
  sn_blockedBy :: "string option"
  sn_stepsSignature :: string

record plan_origin =
  or_key :: string
  or_roleId :: string
  or_planId :: string
  or_planTitle :: "string option"
  or_sourceRequirementId :: string
  or_source :: board_source
  or_worker :: "worker option"
  or_lastObservedPlanUpdatedAt :: "string option"
  or_lastPlan :: "plan_snapshot option"
  or_linkedAt :: stamp

record dedupe_record =
  dr_key :: string
  dr_expiresAt :: stamp

record board_env =
  be_now :: int
  be_write :: bool
  be_uuid :: string
  be_iso :: "int \<Rightarrow> string"
  be_hash :: "string \<Rightarrow> string"
  be_date :: "string \<Rightarrow> int option"
  be_number :: "string \<Rightarrow> string option"

record board =
  bd_requirements :: "(string \<times> requirement) list"
  bd_planOrigins :: "(string \<times> plan_origin) list"
  bd_dedupe :: "(string \<times> dedupe_record) list"
  bd_disk :: "(string \<times> requirement) list \<times> (string \<times> plan_origin) list \<times> (string \<times> dedupe_record) list"

definition required_due_ms :: int where "required_due_ms = 10 * 60 * 1000"
definition decision_due_ms :: int where "decision_due_ms = 30 * 60 * 1000"
definition callback_due_ms :: int where "callback_due_ms = 60 * 60 * 1000"
definition requirement_retention_ms :: int where "requirement_retention_ms = 24 * 60 * 60 * 1000"
definition transient_retention_ms :: int where "transient_retention_ms = 15 * 60 * 1000"
definition dedupe_retention_ms :: int where "dedupe_retention_ms = 7 * 24 * 60 * 60 * 1000"
definition plan_origin_retention_ms :: int where "plan_origin_retention_ms = 7 * 24 * 60 * 60 * 1000"

definition put_requirement :: "requirement \<Rightarrow> board \<Rightarrow> board" where
  "put_requirement r b = b\<lparr>bd_requirements := AList.update (rm_id r) r (bd_requirements b)\<rparr>"

definition put_origin :: "plan_origin \<Rightarrow> board \<Rightarrow> board" where
  "put_origin p b = b\<lparr>bd_planOrigins := AList.update (or_key p) p (bd_planOrigins b)\<rparr>"

section \<open>Expiry\<close>

definition requirementRetentionMs :: "requirement \<Rightarrow> int" where
  "requirementRetentionMs r = (if rm_status r \<in> {Sent, NotRequired, SendFailed} then transient_retention_ms else requirement_retention_ms)"

definition is_hex_digit :: "char \<Rightarrow> bool" where
  "is_hex_digit c \<longleftrightarrow> is_digit c \<or> (let n = (of_char c :: nat) in (97 \<le> n \<and> n \<le> 102) \<or> (65 \<le> n \<and> n \<le> 70))"

definition sha256_text :: "string \<Rightarrow> bool" where
  "sha256_text s \<longleftrightarrow> length s = 64 \<and> list_all is_hex_digit s"

text \<open>\<open>now - Date.parse(t) < period\<close>; with an invalid time the comparison is false.\<close>

definition younger :: "board_env \<Rightarrow> stamp \<Rightarrow> int \<Rightarrow> bool" where
  "younger env t period = (case date_parse (be_date env) t of Some ms \<Rightarrow> be_now env - ms < period | None \<Rightarrow> False)"

definition live_record :: "board_env \<Rightarrow> dedupe_record \<Rightarrow> bool" where
  "live_record env d = (case date_parse (be_date env) (dr_expiresAt d) of Some ms \<Rightarrow> be_now env < ms | None \<Rightarrow> False)"

definition retainDedupeKey :: "board_env \<Rightarrow> string \<Rightarrow> stamp \<Rightarrow> (string \<times> dedupe_record) list \<Rightarrow> (string \<times> dedupe_record) list" where
  "retainDedupeKey env key createdAt m =
     (if \<not> sha256_text key then m
      else let base = (case date_parse (be_date env) createdAt of Some ms \<Rightarrow> ms | None \<Rightarrow> be_now env);
               expires = base + dedupe_retention_ms
        in if expires \<le> be_now env then m
           else case map_of m key of
               None \<Rightarrow> AList.update key \<lparr>dr_key = key, dr_expiresAt = Iso expires\<rparr> m
             | Some d \<Rightarrow> (case date_parse (be_date env) (dr_expiresAt d) of
                   Some ms \<Rightarrow> if ms < expires then AList.update key \<lparr>dr_key = key, dr_expiresAt = Iso expires\<rparr> m else m
                 | None \<Rightarrow> m))"

text \<open>The three loops of \<open>pruneExpiredState\<close>; deleting the current key of a \<open>Map\<close> is safe.\<close>

definition prune_dedupe :: "board_env \<Rightarrow> (string \<times> dedupe_record) list \<Rightarrow> (string \<times> dedupe_record) list" where
  "prune_dedupe env m = filter (\<lambda>(k, d). live_record env d) m"

definition prune_origins :: "board_env \<Rightarrow> (string \<times> plan_origin) list \<Rightarrow> (string \<times> plan_origin) list" where
  "prune_origins env m = filter (\<lambda>(k, p). younger env (or_linkedAt p) plan_origin_retention_ms) m"

definition keeps :: "board_env \<Rightarrow> requirement \<Rightarrow> bool" where
  "keeps env r \<longleftrightarrow> younger env (rm_createdAt r) (requirementRetentionMs r)"

fun prune_requirements :: "board_env \<Rightarrow> (string \<times> requirement) list \<Rightarrow> (string \<times> dedupe_record) list
    \<Rightarrow> (string \<times> requirement) list \<times> (string \<times> dedupe_record) list" where
  "prune_requirements env [] dd = ([], dd)"
| "prune_requirements env ((i, r) # rs) dd =
     (if keeps env r then (case prune_requirements env rs dd of (rs', dd') \<Rightarrow> ((i, r) # rs', dd'))
      else prune_requirements env rs (if rm_isReply r then retainDedupeKey env (rm_dedupeKey r) (rm_createdAt r) dd else dd))"

definition pruneExpiredState :: "board_env \<Rightarrow> board \<Rightarrow> (nat \<times> nat) \<times> board" where
  "pruneExpiredState env b =
     (let origins = prune_origins env (bd_planOrigins b);
          (requirements, dd) = prune_requirements env (bd_requirements b) (prune_dedupe env (bd_dedupe b))
      in ((length (bd_requirements b) - length requirements, length (bd_planOrigins b) - length origins),
          b\<lparr>bd_requirements := requirements, bd_planOrigins := origins, bd_dedupe := dd\<rparr>))"

definition persist_board :: "board_env \<Rightarrow> board \<Rightarrow> unit result \<times> board" where
  "persist_board env b = (let b' = snd (pruneExpiredState env b) in
     if be_write env then (Inr (), b'\<lparr>bd_disk := (bd_requirements b', bd_planOrigins b', bd_dedupe b')\<rparr>) else (Inl WriteErr, b'))"

text \<open>\<open>this.persist(); return v;\<close>\<close>

definition persisting :: "board_env \<Rightarrow> 'a \<Rightarrow> board \<Rightarrow> 'a result \<times> board" where
  "persisting env v b = (case persist_board env b of (Inl e, b') \<Rightarrow> (Inl e, b') | (Inr _, b') \<Rightarrow> (Inr v, b'))"

definition pruneExpired :: "board_env \<Rightarrow> board \<Rightarrow> (nat \<times> nat) result \<times> board" where
  "pruneExpired env b = (let (counts, b') = pruneExpiredState env b in
     if counts = (0, 0) then (Inr counts, b') else persisting env counts b')"

section \<open>Registration\<close>

datatype registration = Created requirement | Existing requirement | ReplaySuppressed string

definition new_reply_requirement :: "board_env \<Rightarrow> string \<Rightarrow> string \<Rightarrow> string \<Rightarrow> board_source \<Rightarrow> knowledge_match list \<Rightarrow> requirement" where
  "new_reply_requirement env i dedupeKey groupId source matches =
     \<lparr>rm_id = i, rm_dedupeKey = dedupeKey, rm_isReply = True, rm_replyRequired = reply_required source,
      rm_status = PendingDispatch, rm_source = source, rm_messageGroupId = Some groupId, rm_plan = None, rm_worker = None,
      rm_decision = None, rm_handoff = None, rm_delivery = None, rm_factAssessmentRequired = True, rm_factAssessment = None,
      rm_evidenceReview = None, rm_matches = matches, rm_dispositions = None, rm_callbacks = [],
      rm_callbackDueAt = (if matches = [] then None else Some (Iso (be_now env + callback_due_ms))), rm_lastReminderAt = None,
      rm_criticalFacts = [], rm_factDisposition = None, rm_createdAt = Iso (be_now env), rm_updatedAt = Iso (be_now env),
      rm_dueAt = Iso (be_now env + (if reply_required source then required_due_ms else decision_due_ms)), rm_lastError = None\<rparr>"

definition registerMessageGroup :: "board_env \<Rightarrow> string \<Rightarrow> string \<Rightarrow> jval \<Rightarrow> jval \<Rightarrow> board \<Rightarrow> registration result \<times> board" where
  "registerMessageGroup env requirementId groupId source matches b =
     (case map_of (bd_requirements b) requirementId of
        Some r \<Rightarrow> (Inr (Existing r), b)
      | None \<Rightarrow> (case normalizeSource (be_number env) source of
          None \<Rightarrow> (Inl (Err ''Invalid message-processing source.''), b)
        | Some s \<Rightarrow>
            if js_trim groupId = [] then (Inl (Err ''Missing messageGroupId.''), b)
            else let key = messageSourceDedupeKey (be_hash env) s in
              case find (\<lambda>r. rm_isReply r \<and> rm_dedupeKey r = key) (map_values (bd_requirements b)) of
                Some r \<Rightarrow> (Inr (Existing r), b)
              | None \<Rightarrow>
                  if (case map_of (bd_dedupe b) key of Some d \<Rightarrow> live_record env d | None \<Rightarrow> False)
                  then (Inr (ReplaySuppressed key), b)
                  else let r = new_reply_requirement env requirementId key groupId s (normalizeKnowledgeMatches (be_number env) matches)
                    in persisting env (Created r) (put_requirement r b)))"

definition with_requirement :: "string \<Rightarrow> board \<Rightarrow> (requirement \<Rightarrow> 'a result \<times> board) \<Rightarrow> 'a result \<times> board" where
  "with_requirement i b f = (case map_of (bd_requirements b) i of
     None \<Rightarrow> (Inl (Err (''Message processing requirement not found: '' @ i)), b)
   | Some r \<Rightarrow> f r)"

text \<open>The requirement after the call, stored, persisted and returned.\<close>

definition store :: "board_env \<Rightarrow> requirement \<Rightarrow> board \<Rightarrow> requirement result \<times> board" where
  "store env r b = persisting env r (put_requirement r b)"

definition recordDispatch :: "board_env \<Rightarrow> string \<Rightarrow> jval \<Rightarrow> board \<Rightarrow> requirement result \<times> board" where
  "recordDispatch env i v b = with_requirement i b (\<lambda>r. case normalizedWorker v of
     None \<Rightarrow> (Inl (Err ''Invalid message-processing worker.''), b)
   | Some w \<Rightarrow> store env (r\<lparr>rm_worker := Some w, rm_status := Processing, rm_lastError := None, rm_updatedAt := Iso (be_now env)\<rparr>) b)"

definition recordWorkerReference :: "board_env \<Rightarrow> string \<Rightarrow> jval \<Rightarrow> board \<Rightarrow> requirement result \<times> board" where
  "recordWorkerReference env i v b = with_requirement i b (\<lambda>r. case normalizedWorker v of
     None \<Rightarrow> (Inl (Err ''Invalid message-processing worker.''), b)
   | Some w \<Rightarrow> store env (r\<lparr>rm_worker := Some w, rm_updatedAt := Iso (be_now env)\<rparr>) b)"

definition works_for :: "string \<Rightarrow> worker option \<Rightarrow> bool" where
  "works_for t w \<longleftrightarrow> (case w of Some x \<Rightarrow> wo_threadId x = t | None \<Rightarrow> False)"

definition replaced_worker :: "board_env \<Rightarrow> string \<Rightarrow> worker \<Rightarrow> board \<Rightarrow> board" where
  "replaced_worker env previous w b =
     b\<lparr>bd_requirements := map (\<lambda>(k, r). (k, if works_for previous (rm_worker r)
          then r\<lparr>rm_worker := Some w, rm_updatedAt := Iso (be_now env)\<rparr> else r)) (bd_requirements b),
        bd_planOrigins := map (\<lambda>(k, p). (k, if works_for previous (or_worker p)
          then p\<lparr>or_worker := Some w\<rparr> else p)) (bd_planOrigins b)\<rparr>"

definition worker_counts :: "string \<Rightarrow> board \<Rightarrow> nat \<times> nat" where
  "worker_counts previous b = (length (filter (\<lambda>(k, r). works_for previous (rm_worker r)) (bd_requirements b)),
     length (filter (\<lambda>(k, p). works_for previous (or_worker p)) (bd_planOrigins b)))"

definition replaceWorkerReferences :: "board_env \<Rightarrow> string \<Rightarrow> jval \<Rightarrow> board \<Rightarrow> (nat \<times> nat) result \<times> board" where
  "replaceWorkerReferences env previous v b = (case normalizedWorker v of
     None \<Rightarrow> (Inl (Err ''Invalid message-processing worker.''), b)
   | Some w \<Rightarrow>
       if worker_counts previous b = (0, 0) then (Inr (0, 0), b)
       else persisting env (worker_counts previous b) (replaced_worker env previous w b))"

text \<open>
  The default error of a failed dispatch is a Chinese sentence, whose characters are outside
  the model; this text stands for it. The message of an \<open>Error\<close> is read before the call.
\<close>

definition dispatch_failed_text :: string where
  "dispatch_failed_text = ''(not handed to the processing Agent)''"

definition recordDispatchFailure :: "board_env \<Rightarrow> string \<Rightarrow> jval \<Rightarrow> board \<Rightarrow> requirement result \<times> board" where
  "recordDispatchFailure env i message b = with_requirement i b (\<lambda>r.
     store env (r\<lparr>rm_status := SendFailed, rm_lastError := Some (or_str (boardText 4000 message) dispatch_failed_text),
       rm_updatedAt := Iso (be_now env)\<rparr>) b)"

definition recordHandoffReturned :: "board_env \<Rightarrow> string \<Rightarrow> jval \<Rightarrow> board \<Rightarrow> requirement result \<times> board" where
  "recordHandoffReturned env i returnedBy b = with_requirement i b (\<lambda>r. case rm_handoff r of
     None \<Rightarrow> (Inl (Err (''Message processing requirement has no handoff: '' @ i)), b)
   | Some h \<Rightarrow>
       let target = boardText 100 (opt_str (ho_targetThreadId h)); by_thread = boardText 100 returnedBy in
       if target \<noteq> None \<and> by_thread \<noteq> None \<and> target \<noteq> by_thread
       then (Inl (Err ''Message processing handoff result must be returned by the recorded target task.''), b)
       else store env (r\<lparr>rm_handoff := Some (h\<lparr>ho_returnedAt := Some (Iso (be_now env))\<rparr>), rm_status := Processing,
              rm_lastError := None, rm_updatedAt := Iso (be_now env)\<rparr>) b)"

end
