(* ===== verification/BoardOps.thy ===== *)
theory BoardOps
  imports Board
begin

text \<open>
  The remaining operations of the message-processing board: the outcome a message Agent
  submits, the results of replies and sends, the callbacks about recalled knowledge, the
  progress of linked plans, and the queries.
\<close>

section \<open>Outcomes\<close>

text \<open>
  The checks of an outcome that come first. Each check that succeeds stores what it
  established before the next one can throw, so the requirement after an error is part of
  the result.
\<close>

definition set_evidence :: "evidence_review option \<Rightarrow> requirement \<Rightarrow> requirement" where
  "set_evidence x r = (case x of None \<Rightarrow> r | Some v \<Rightarrow> r\<lparr>rm_evidenceReview := Some v\<rparr>)"

definition set_assessment :: "fact_assessment option \<Rightarrow> requirement \<Rightarrow> requirement" where
  "set_assessment x r = (case x of None \<Rightarrow> r
     | Some a \<Rightarrow> r\<lparr>rm_factAssessment := Some a,
         rm_criticalFacts := (if fa_critical a then (case fa_facts a of None \<Rightarrow> [] | Some fs \<Rightarrow> fs) else [])\<rparr>)"

definition set_dispositions :: "knowledge_disposition list option \<Rightarrow> requirement \<Rightarrow> requirement" where
  "set_dispositions x r = (case x of None \<Rightarrow> r | Some ds \<Rightarrow> r\<lparr>rm_dispositions := Some ds\<rparr>)"

definition set_factDisposition :: "fact_disposition option \<Rightarrow> requirement \<Rightarrow> requirement" where
  "set_factDisposition x r = (case x of None \<Rightarrow> r | Some d \<Rightarrow> r\<lparr>rm_factDisposition := Some d\<rparr>)"

definition assess :: "outcome \<Rightarrow> requirement \<Rightarrow> fact_disposition option result \<times> requirement" where
  "assess i r =
     (case validateSourceEvidenceReview r i of
        Inl e \<Rightarrow> (Inl e, r)
      | Inr review \<Rightarrow>
          let r1 = set_evidence review r in
          case validateProjectFactAssessment r1 i of
            Inl e \<Rightarrow> (Inl e, r1)
          | Inr assessment \<Rightarrow>
              let r2 = set_assessment assessment r1 in
              case validateKnowledgeMatchDispositions r2 i of
                Inl e \<Rightarrow> (Inl e, r2)
              | Inr dispositions \<Rightarrow>
                  let r3 = set_dispositions dispositions r2
                  in (validateCriticalFactDisposition r3 i, r3))"

definition allowedRequiredSilenceReasons :: "string set" where
  "allowedRequiredSilenceReasons = {''closing_only'', ''duplicate'', ''self_message'', ''answered_by_other'',
     ''message_withdrawn'', ''superseded_by_followup'', ''attachment_consumed'', ''invalid_source''}"

text \<open>
  The two patterns of the reasons. Every quantifier of \<open>\s*[:=]?\s*\<close> consumes
  characters the next part cannot start with, so one pass decides the match.
\<close>

definition upper_ascii :: "char \<Rightarrow> char" where
  "upper_ascii c = (let n = of_char c :: nat in if 97 \<le> n \<and> n \<le> 122 then char_of (n - 32) else c)"

definition starts_with_ci :: "string \<Rightarrow> string \<Rightarrow> bool" where
  "starts_with_ci p s \<longleftrightarrow> map upper_ascii (take (length p) s) = map upper_ascii p"

fun find_suffix :: "(string \<Rightarrow> bool) \<Rightarrow> string \<Rightarrow> bool" where
  "find_suffix p [] = p []"
| "find_suffix p (c # cs) = (p (c # cs) \<or> find_suffix p cs)"

definition reference_value :: "string \<Rightarrow> bool" where
  "reference_value s = (let t = dropWhile js_space s;
       u = (case t of c # cs \<Rightarrow> if c \<in> {CHR '':'', CHR ''=''} then cs else t | [] \<Rightarrow> []);
       v = dropWhile js_space u
     in v \<noteq> [] \<and> (is_alpha (hd v) \<or> is_digit (hd v)))"

definition reasonContainsNamedMessageReference :: "string \<Rightarrow> bool" where
  "reasonContainsNamedMessageReference reason = find_suffix
     (\<lambda>s. list_ex (\<lambda>name. starts_with_ci name s \<and> reference_value (drop (length name) s))
        [''messageId'', ''sentMessageId'', ''replyTo'', ''sourceMessageId'']) reason"

definition includes_text :: "string \<Rightarrow> string \<Rightarrow> bool" where
  "includes_text p s = find_suffix (\<lambda>t. take (length p) t = p) s"

definition reasonContainsSourceMessageId :: "string \<Rightarrow> string list \<Rightarrow> bool" where
  "reasonContainsSourceMessageId reason messageIds = list_ex (\<lambda>m. m \<noteq> [] \<and> includes_text m reason) messageIds"

text \<open>One block \<open>[CQ:image...]\<close> with the white space after it, and the rest of the text.\<close>

definition attachment_block :: "string \<Rightarrow> string option" where
  "attachment_block s =
     (if list_ex (\<lambda>kind. starts_with_ci (''[CQ:'' @ kind) s) [''image'', ''video'', ''file'']
      then (case dropWhile (\<lambda>c. c \<noteq> CHR '']'') s of [] \<Rightarrow> None | c # cs \<Rightarrow> Some (dropWhile js_space cs))
      else None)"

fun attachment_blocks :: "nat \<Rightarrow> string \<Rightarrow> bool" where
  "attachment_blocks 0 s = False"
| "attachment_blocks (Suc n) s = (case attachment_block s of None \<Rightarrow> False
     | Some rest \<Rightarrow> rest = [] \<or> attachment_blocks n rest)"

text \<open>Every block shortens the text, so its length bounds the number of blocks.\<close>

definition attachment_only :: "string \<Rightarrow> bool" where
  "attachment_only summary = attachment_blocks (Suc (length summary)) (dropWhile js_space summary)"

definition required_reply_text :: string where
  "required_reply_text = ''This message requires a visible reply. no_reply is allowed only for closing-only, duplicate, self, already-answered, withdrawn, superseded-by-followup, or invalid-source messages.''"

text \<open>The reasons a message may stay unanswered.\<close>

definition silence_reason :: "requirement \<Rightarrow> outcome \<Rightarrow> (string \<times> string option) result" where
  "silence_reason r i =
     (let reasonCode = or_str (oi_reasonCode i) ''agent_judgement'';
          reason = boardText 2000 (oi_reason i);
          text' = or_str reason []
      in bind (check (\<not> (rm_replyRequired r \<and> reasonCode \<notin> allowedRequiredSilenceReasons)) (Err required_reply_text)) (\<lambda>_.
         bind (check (\<not> (reasonCode = ''superseded_by_followup'' \<and> \<not> reasonContainsNamedMessageReference text'))
           (Err ''superseded_by_followup requires a concrete follow-up messageId or sentMessageId in reason.'')) (\<lambda>_.
         bind (check (reasonCode = ''attachment_consumed'' \<longrightarrow> attachment_only (or_str (so_summary (rm_source r)) []))
           (Err ''attachment_consumed is allowed only for an attachment-only source message.'')) (\<lambda>_.
         bind (check (reasonCode = ''attachment_consumed''
             \<longrightarrow> js_truthy (oi_planId i) \<and> reasonContainsSourceMessageId text' (so_messageIds (rm_source r)))
           (Err ''attachment_consumed requires planId and the source messageId in reason.'')) (\<lambda>_.
         Inr (reasonCode, reason))))))"

definition decide :: "board_env \<Rightarrow> requirement \<Rightarrow> outcome \<Rightarrow> requirement result" where
  "decide env r i =
     (let by_thread = boardText 100 (oi_decidedByThreadId i); at = Iso (be_now env);
          plain = (\<lambda>kind. \<lparr>de_type = kind, de_reasonCode = None, de_reason = boardText 2000 (oi_reason i), de_decidedAt = at, de_decidedBy = by_thread\<rparr>)
      in if oi_decision i = ''no_reply'' then
           bind (silence_reason r i) (\<lambda>(reasonCode, reason).
             Inr (r\<lparr>rm_status := NotRequired, rm_decision := Some \<lparr>de_type = NoReplyDecision, de_reasonCode = Some reasonCode,
               de_reason = reason, de_decidedAt = at, de_decidedBy = by_thread\<rparr>\<rparr>))
         else if oi_decision i = ''handoff'' then
           (case boardText 80 (oi_targetAgentType i) of
              None \<Rightarrow> Inl (Err ''handoff requires targetAgentType.'')
            | Some target \<Rightarrow> Inr (r\<lparr>rm_status := HandedOff, rm_decision := Some (plain HandoffDecision),
                rm_handoff := Some \<lparr>ho_targetAgentType = target, ho_targetThreadId = boardText 100 (oi_targetThreadId i),
                  ho_targetThreadName = boardText 300 (oi_targetThreadName i), ho_acceptedAt = at, ho_returnedAt = None\<rparr>\<rparr>))
         else Inr (r\<lparr>rm_status := AwaitingSend, rm_decision := Some (plain ReplyDecision)\<rparr>))"

definition origin_key :: "string \<Rightarrow> string \<Rightarrow> string \<Rightarrow> string" where
  "origin_key roleId planId requirementId = roleId @ '':'' @ planId @ '':'' @ requirementId"

definition linkPlan :: "board_env \<Rightarrow> requirement \<Rightarrow> outcome \<Rightarrow> board \<Rightarrow> unit result \<times> board" where
  "linkPlan env r i b =
     (case (case boardText 200 (oi_roleId i) of Some x \<Rightarrow> Some x | None \<Rightarrow> so_roleId (rm_source r), boardText 300 (oi_planId i)) of
        (Some roleId, Some planId) \<Rightarrow>
          (Inr (), put_origin \<lparr>or_key = origin_key roleId planId (rm_id r), or_roleId = roleId, or_planId = planId,
             or_planTitle = boardText 500 (oi_planTitle i), or_sourceRequirementId = rm_id r, or_source = rm_source r,
             or_worker = rm_worker r, or_lastObservedPlanUpdatedAt = None, or_lastPlan = None,
             or_linkedAt = Iso (be_now env)\<rparr> b)
      | _ \<Rightarrow> (Inl (Err ''Linking a plan to a message requires roleId and planId.''), b))"

definition record_outcome :: "board_env \<Rightarrow> outcome \<Rightarrow> fact_disposition option \<Rightarrow> requirement \<Rightarrow> board \<Rightarrow> requirement result \<times> board" where
  "record_outcome env i disposition r b =
     (case decide env r i of
        Inl e \<Rightarrow> (Inl e, put_requirement r b)
      | Inr d \<Rightarrow>
          let r' = (set_factDisposition disposition d)\<lparr>rm_lastError := None, rm_updatedAt := Iso (be_now env)\<rparr>;
              b' = put_requirement r' b
          in if js_truthy (oi_planId i)
             then (case linkPlan env r' i b' of (Inl e, b'') \<Rightarrow> (Inl e, b'') | (Inr _, b'') \<Rightarrow> persisting env r' b'')
             else persisting env r' b')"

text \<open>A message that is sent already only completes its assessment.\<close>

definition complete_sent :: "board_env \<Rightarrow> fact_disposition option \<Rightarrow> requirement \<Rightarrow> board \<Rightarrow> requirement result \<times> board" where
  "complete_sent env disposition r b = store env ((set_factDisposition disposition r)
     \<lparr>rm_status := Sent, rm_updatedAt := Iso (be_now env), rm_lastError := None\<rparr>) b"

definition conclude_outcome :: "board_env \<Rightarrow> outcome \<Rightarrow> bool \<Rightarrow> fact_disposition option \<Rightarrow> requirement \<Rightarrow> board
    \<Rightarrow> requirement result \<times> board" where
  "conclude_outcome env i alreadySent disposition r b =
     (if alreadySent then complete_sent env disposition r b
      else if rm_status r \<in> {FactAssessmentPending, FactRecordPending} then
        (case rm_factAssessment r of
           None \<Rightarrow> (Inl (Err ''The sent message still requires projectFactAssessment.''), put_requirement r b)
         | Some a \<Rightarrow>
             if fa_critical a \<and> disposition = None
             then (Inl (Err ''The sent message still requires a verified criticalFactDisposition.''), put_requirement r b)
             else complete_sent env disposition r b)
      else record_outcome env i disposition r b)"

definition submitOutcome :: "board_env \<Rightarrow> string \<Rightarrow> outcome \<Rightarrow> board \<Rightarrow> requirement result \<times> board" where
  "submitOutcome env requirementId i b = with_requirement requirementId b (\<lambda>r.
     if rm_status r = Sent \<and> \<not> js_truthy (oi_projectFactAssessment i) \<and> \<not> js_truthy (oi_criticalFactDisposition i)
     then (Inr r, b)
     else (case assess i r of
        (Inl e, r') \<Rightarrow> (Inl e, put_requirement r' b)
      | (Inr disposition, r') \<Rightarrow> conclude_outcome env i (rm_status r = Sent) disposition r' b))"

section \<open>Replies and sends\<close>

record send_result =
  sd_status :: send_status
  sd_channel :: "string option"
  sd_sentMessageId :: "string option"
  sd_sentFileId :: "string option"
  sd_sentFileName :: "string option"
  sd_reason :: "string option"

fun send_status_text :: "send_status \<Rightarrow> string" where
  "send_status_text SentStatus = ''sent''"
| "send_status_text DraftStatus = ''draft''"
| "send_status_text BlockedStatus = ''blocked''"
| "send_status_text FailedStatus = ''failed''"

definition delivered_status :: "requirement \<Rightarrow> send_status \<Rightarrow> requirement_status" where
  "delivered_status r status = (case status of
     SentStatus \<Rightarrow>
       if rm_factAssessmentRequired r \<and> rm_factAssessment r = None then FactAssessmentPending
       else if rm_criticalFacts r \<noteq> [] \<and> rm_factDisposition r = None then FactRecordPending else Sent
   | DraftStatus \<Rightarrow> AwaitingApproval
   | _ \<Rightarrow> SendFailed)"

definition delivery_error :: "send_result \<Rightarrow> string option" where
  "delivery_error x = (if sd_status x \<in> {FailedStatus, BlockedStatus}
     then Some (or_str (boardText 4000 (opt_str (sd_reason x))) (''Outbox '' @ send_status_text (sd_status x) @ ''.'')) else None)"

definition recordReply :: "board_env \<Rightarrow> string \<Rightarrow> send_result \<Rightarrow> string option \<Rightarrow> board \<Rightarrow> requirement result \<times> board" where
  "recordReply env i x deliveryId b = with_requirement i b (\<lambda>r.
     store env (r\<lparr>rm_delivery := Some \<lparr>sr_deliveryId = boardText 300 (opt_str deliveryId), sr_status = sd_status x, sr_channel = None,
           sr_sentMessageId = boardText 300 (opt_str (sd_sentMessageId x)), sr_sentFileId = None, sr_sentFileName = None,
           sr_reason = boardText 2000 (opt_str (sd_reason x)), sr_updatedAt = Iso (be_now env)\<rparr>,
         rm_status := delivered_status r (sd_status x), rm_lastError := delivery_error x, rm_updatedAt := Iso (be_now env)\<rparr>) b)"

definition expectedChannel :: "requirement \<Rightarrow> string" where
  "expectedChannel r = (let ep = map js_lower (js_trim (so_endpoint (rm_source r))) in
     if ep = ''qq'' then ''napcat'' else if ep = ''rolepanel'' then ''role_panel''
     else if ep = ''planfeedback'' then ''plan_feedback'' else takeWhile (\<lambda>c. c \<noteq> CHR '':'') ep)"

definition channelMatches :: "requirement \<Rightarrow> send_result \<Rightarrow> bool" where
  "channelMatches r x \<longleftrightarrow> truthy (sd_channel x) \<and> sd_channel x = Some (expectedChannel r)"

definition hasChannelReceipt :: "send_result \<Rightarrow> bool" where
  "hasChannelReceipt x \<longleftrightarrow> sd_channel x \<noteq> Some ''napcat''
     \<or> truthy (sd_sentMessageId x) \<or> truthy (sd_sentFileId x) \<or> truthy (sd_sentFileName x)"

definition sent_requirement :: "board_env \<Rightarrow> send_result \<Rightarrow> string option \<Rightarrow> requirement \<Rightarrow> requirement" where
  "sent_requirement env x deliveryId r =
     (let misdirected = (sd_status x = SentStatus \<and> (\<not> channelMatches r x \<or> \<not> hasChannelReceipt x)) in
      r\<lparr>rm_delivery := Some \<lparr>sr_deliveryId = boardText 300 (opt_str deliveryId), sr_status = sd_status x,
            sr_channel = boardText 80 (opt_str (sd_channel x)), sr_sentMessageId = boardText 300 (opt_str (sd_sentMessageId x)),
            sr_sentFileId = boardText 300 (opt_str (sd_sentFileId x)), sr_sentFileName = boardText 500 (opt_str (sd_sentFileName x)),
            sr_reason = boardText 2000 (opt_str (sd_reason x)), sr_updatedAt = Iso (be_now env)\<rparr>,
         rm_status := (if misdirected then AwaitingSend else delivered_status r (sd_status x)),
         rm_lastError := (if misdirected
            then Some (if channelMatches r x then ''NapCat reported sent without a QQ message or file receipt.''
              else ''The send reached channel '' @ or_str (sd_channel x) ''unknown'' @ '', but this requirement expects ''
                @ expectedChannel r @ ''.'')
            else delivery_error x),
         rm_updatedAt := Iso (be_now env)\<rparr>)"

definition recordSend :: "board_env \<Rightarrow> string \<Rightarrow> send_result \<Rightarrow> string option \<Rightarrow> board \<Rightarrow> requirement result \<times> board" where
  "recordSend env i x deliveryId b = with_requirement i b (\<lambda>r. store env (sent_requirement env x deliveryId r) b)"

section \<open>Callbacks about recalled knowledge\<close>

definition with_callback_time :: "board_env \<Rightarrow> jval \<Rightarrow> jval" where
  "with_callback_time env v = (case v of
     JObj fs \<Rightarrow> JObj (AList.update ''callbackAt''
       (if js_truthy (jget v ''callbackAt'') then jget v ''callbackAt'' else JStr (be_iso env (be_now env))) fs)
   | _ \<Rightarrow> v)"

definition updated_record_type :: "knowledge_callback \<Rightarrow> string" where
  "updated_record_type c = (if kc_knowledgeType c = ''plan'' then ''plan'' else ''memory'')"

definition check_callback_record :: "knowledge_callback \<Rightarrow> unit result" where
  "check_callback_record c =
     bind (check (kc_result c \<in> {JStr ''updated'', JStr ''created''}
         \<longrightarrow> kc_recordType c \<noteq> None \<and> truthy (kc_recordId c) \<and> truthy (kc_verifiedAt c))
       (Err (js_String (kc_result c) @ '' knowledge callback requires recordType, recordId, and verifiedAt.''))) (\<lambda>_.
     bind (check (kc_result c = JStr ''updated'' \<longrightarrow> kc_recordType c = Some (updated_record_type c))
       (Err (''updated callback for '' @ kc_knowledgeType c @ '' requires recordType='' @ updated_record_type c @ ''.''))) (\<lambda>_.
     bind (check (kc_result c = JStr ''created'' \<longrightarrow> kc_recordType c \<noteq> None)
       (Err ''created knowledge callback requires recordType.'')) (\<lambda>_.
     check (kc_result c = JStr ''not_relevant'' \<longrightarrow> kc_responseAction c = JStr ''none'')
       (Err ''not_relevant knowledge callback must use responseAction=none.''))))"

definition same_item :: "knowledge_callback \<Rightarrow> knowledge_callback \<Rightarrow> bool" where
  "same_item c d \<longleftrightarrow> kc_knowledgeId d = kc_knowledgeId c \<and> kc_knowledgeType d = kc_knowledgeType c"

text \<open>The first callback about the same item is replaced, otherwise the callback is appended.\<close>

fun put_callback :: "knowledge_callback \<Rightarrow> knowledge_callback list \<Rightarrow> knowledge_callback list" where
  "put_callback c [] = [c]"
| "put_callback c (d # ds) = (if same_item c d then c # ds else d # put_callback c ds)"

definition recordKnowledgeCallback :: "board_env \<Rightarrow> string \<Rightarrow> jval \<Rightarrow> board \<Rightarrow> requirement result \<times> board" where
  "recordKnowledgeCallback env i v b = with_requirement i b (\<lambda>r.
     if \<not> list_ex (\<lambda>m. JStr (km_id m) = jget v ''knowledgeId'' \<and> JStr (km_type m) = jget v ''knowledgeType'') (rm_matches r)
     then (Inl (Err (''Knowledge callback does not match a recalled plan or memory: ''
            @ js_String (jget v ''knowledgeType'') @ '':'' @ js_String (jget v ''knowledgeId''))), b)
     else (case read_callback (with_callback_time env v) of
        None \<Rightarrow> (Inl (Err ''Invalid knowledge callback. result, responseAction, evidence, and callback identity are required.''), b)
      | Some c \<Rightarrow> (case check_callback_record c of
            Inl e \<Rightarrow> (Inl e, b)
          | Inr _ \<Rightarrow> store env (r\<lparr>rm_callbacks := put_callback c (rm_callbacks r), rm_updatedAt := Iso (be_now env), rm_lastError := None\<rparr>) b)))"

definition pending_matches :: "requirement \<Rightarrow> knowledge_match list" where
  "pending_matches r = filter (\<lambda>m. \<not> callbackIsFinal (last_with callback_key (rm_callbacks r) (match_key m))) (rm_matches r)"

definition pendingKnowledgeMatches :: "string \<Rightarrow> board \<Rightarrow> knowledge_match list result" where
  "pendingKnowledgeMatches i b = (case map_of (bd_requirements b) i of
     None \<Rightarrow> Inl (Err (''Message processing requirement not found: '' @ i)) | Some r \<Rightarrow> Inr (pending_matches r))"

definition recordKnowledgeReminder :: "board_env \<Rightarrow> string \<Rightarrow> board \<Rightarrow> requirement result \<times> board" where
  "recordKnowledgeReminder env i b = with_requirement i b (\<lambda>r.
     store env (r\<lparr>rm_lastReminderAt := Some (Iso (be_now env)), rm_callbackDueAt := Some (Iso (be_now env + callback_due_ms)),
       rm_updatedAt := Iso (be_now env)\<rparr>) b)"

section \<open>Progress of linked plans\<close>

definition planStepsSignature :: "plan_item \<Rightarrow> string" where
  "planStepsSignature p = stringify (JArr (map (\<lambda>s. JObj
     [(''id'', JStr (ps_id s)), (''startedAt'', opt_str (ps_startedAt s)), (''waitingFor'', opt_str (ps_waitingFor s)),
      (''completedAt'', opt_str (ps_completedAt s)), (''blockedBy'', opt_str (ps_blockedBy s))]) (pi_steps p)))"

definition planSnapshot :: "plan_item \<Rightarrow> plan_snapshot" where
  "planSnapshot p = \<lparr>sn_updatedAt = pi_updatedAt p, sn_status = pi_status p, sn_currentStep = pi_currentStep p,
     sn_currentStepId = pi_currentStepId p, sn_nextAction = pi_nextAction p, sn_waitingFor = pi_waitingFor p,
     sn_isBlocked = pi_isBlocked p, sn_blockedBy = pi_blockedBy p, sn_stepsSignature = planStepsSignature p\<rparr>"

definition some_text :: "string option \<Rightarrow> string option" where
  "some_text x = (if truthy x then x else None)"

definition first_text :: "string option \<Rightarrow> string option \<Rightarrow> string option" where
  "first_text x y = (if truthy x then x else some_text y)"

definition block_label :: "string option \<Rightarrow> bool option \<Rightarrow> bool + string" where
  "block_label by is_blocked = (case some_text by of Some s \<Rightarrow> Inr s | None \<Rightarrow> Inl (is_blocked = Some True))"

definition describePlanSnapshotChanges :: "plan_snapshot \<Rightarrow> plan_item \<Rightarrow> plan_notice list" where
  "describePlanSnapshotChanges s p =
     (if sn_status s \<noteq> pi_status p then [StatusNotice (sn_status s) (pi_status p)] else [])
   @ (if sn_currentStepId s \<noteq> pi_currentStepId p \<or> sn_currentStep s \<noteq> pi_currentStep p
      then [StepNotice (first_text (sn_currentStep s) (sn_currentStepId s)) (first_text (pi_currentStep p) (pi_currentStepId p))] else [])
   @ (if sn_nextAction s \<noteq> pi_nextAction p then [NextActionNotice (some_text (sn_nextAction s)) (some_text (pi_nextAction p))] else [])
   @ (if sn_waitingFor s \<noteq> pi_waitingFor p then [WaitingNotice (some_text (sn_waitingFor s)) (some_text (pi_waitingFor p))] else [])
   @ (if sn_isBlocked s \<noteq> pi_isBlocked p \<or> sn_blockedBy s \<noteq> pi_blockedBy p
      then [BlockNotice (block_label (sn_blockedBy s) (sn_isBlocked s)) (block_label (pi_blockedBy p) (pi_isBlocked p))] else [])
   @ (if sn_stepsSignature s \<noteq> planStepsSignature p then [StepsNotice] else [])"

definition describePlanCommunicationChanges :: "plan_item \<Rightarrow> plan_item \<Rightarrow> plan_notice list" where
  "describePlanCommunicationChanges s p =
     (if pi_status s \<noteq> pi_status p then [StatusNotice (pi_status s) (pi_status p)] else [])
   @ (if pi_currentStepId s \<noteq> pi_currentStepId p \<or> pi_currentStep s \<noteq> pi_currentStep p
      then [StepNotice (first_text (pi_currentStep s) (pi_currentStepId s)) (first_text (pi_currentStep p) (pi_currentStepId p))] else [])
   @ (if pi_nextAction s \<noteq> pi_nextAction p then [NextActionNotice (some_text (pi_nextAction s)) (some_text (pi_nextAction p))] else [])
   @ (if pi_waitingFor s \<noteq> pi_waitingFor p then [WaitingNotice (some_text (pi_waitingFor s)) (some_text (pi_waitingFor p))] else [])
   @ (if pi_isBlocked s \<noteq> pi_isBlocked p \<or> pi_blockedBy s \<noteq> pi_blockedBy p
      then [BlockNotice (block_label (pi_blockedBy s) (pi_isBlocked s)) (block_label (pi_blockedBy p) (pi_isBlocked p))] else [])
   @ (if planStepsSignature s \<noteq> planStepsSignature p then [StepsNotice] else [])"

definition observe_plan :: "plan_item \<Rightarrow> plan_origin \<Rightarrow> plan_origin" where
  "observe_plan p o' = o'\<lparr>or_lastObservedPlanUpdatedAt := Some (pi_updatedAt p), or_lastPlan := Some (planSnapshot p), or_planTitle := Some (pi_title p)\<rparr>"

definition progress_key :: "plan_origin \<Rightarrow> plan_item \<Rightarrow> string" where
  "progress_key o' p = ''plan-progress:'' @ or_key o' @ '':'' @ pi_updatedAt p"

definition progress_requirement :: "board_env \<Rightarrow> plan_origin \<Rightarrow> string option \<Rightarrow> plan_item \<Rightarrow> plan_notice list \<Rightarrow> requirement" where
  "progress_requirement env o' beforeUpdatedAt p changes =
     \<lparr>rm_id = ''message-requirement-'' @ be_uuid env, rm_dedupeKey = progress_key o' p, rm_isReply = False, rm_replyRequired = True,
      rm_status = PendingDispatch, rm_source = or_source o', rm_messageGroupId = None,
      rm_plan = Some \<lparr>pc_planId = pi_id p, pc_planTitle = pi_title p, pc_beforeUpdatedAt = beforeUpdatedAt,
        pc_afterUpdatedAt = pi_updatedAt p, pc_changes = changes\<rparr>,
      rm_worker = or_worker o', rm_decision = None, rm_handoff = None, rm_delivery = None, rm_factAssessmentRequired = False,
      rm_factAssessment = None, rm_evidenceReview = None, rm_matches = [], rm_dispositions = None, rm_callbacks = [],
      rm_callbackDueAt = None, rm_lastReminderAt = None, rm_criticalFacts = [], rm_factDisposition = None,
      rm_createdAt = Iso (be_now env), rm_updatedAt = Iso (be_now env), rm_dueAt = Iso (be_now env + required_due_ms), rm_lastError = None\<rparr>"

text \<open>
  The end of both plan operations: no change is only persisted; a change that was reported
  returns the earlier requirement, without a write; a new one becomes a requirement.
\<close>

definition report_progress :: "board_env \<Rightarrow> plan_origin \<Rightarrow> string option \<Rightarrow> plan_item \<Rightarrow> plan_notice list \<Rightarrow> board
    \<Rightarrow> requirement option result \<times> board" where
  "report_progress env o' beforeUpdatedAt p changes b =
     (if changes = [] then persisting env None b
      else case find (\<lambda>r. rm_dedupeKey r = progress_key o' p) (map_values (bd_requirements b)) of
        Some r \<Rightarrow> (Inr (Some r), b)
      | None \<Rightarrow> let r = progress_requirement env o' beforeUpdatedAt p changes in persisting env (Some r) (put_requirement r b))"

text \<open>
  The latest link comes first; the sort is stable. The times compared are those of links
  that were not pruned, so they parse.
\<close>

definition linked_ms :: "board_env \<Rightarrow> plan_origin \<Rightarrow> int" where
  "linked_ms env o' = (case date_parse (be_date env) (or_linkedAt o') of Some ms \<Rightarrow> ms | None \<Rightarrow> 0)"

definition origins_of :: "string \<Rightarrow> string \<Rightarrow> board \<Rightarrow> plan_origin list" where
  "origins_of roleId planId b = filter (\<lambda>o'. or_roleId o' = roleId \<and> or_planId o' = planId) (map_values (bd_planOrigins b))"

definition registerPlanChange :: "board_env \<Rightarrow> string \<Rightarrow> plan_item \<Rightarrow> plan_item \<Rightarrow> board \<Rightarrow> requirement option result \<times> board" where
  "registerPlanChange env roleId before after b =
     (case sort_key (\<lambda>o'. - linked_ms env o') (origins_of roleId (pi_id after) b) of
        [] \<Rightarrow> (Inr None, b)
      | o' # _ \<Rightarrow> report_progress env o' (Some (pi_updatedAt before)) after (describePlanCommunicationChanges before after)
          (put_origin (observe_plan after o') b))"

definition setPlanBaseline :: "board_env \<Rightarrow> string \<Rightarrow> plan_item \<Rightarrow> board \<Rightarrow> unit result \<times> board" where
  "setPlanBaseline env roleId p b =
     (if origins_of roleId (pi_id p) b = [] then (Inr (), b)
      else persisting env () (b\<lparr>bd_planOrigins := map (\<lambda>(k, o'). (k, if or_roleId o' = roleId \<and> or_planId o' = pi_id p
        then observe_plan p o' else o')) (bd_planOrigins b)\<rparr>))"

definition reconcilePlan :: "board_env \<Rightarrow> string \<Rightarrow> plan_item \<Rightarrow> board \<Rightarrow> requirement option result \<times> board" where
  "reconcilePlan env originKey p b =
     (case map_of (bd_planOrigins b) originKey of
        None \<Rightarrow> (Inr None, b)
      | Some o' \<Rightarrow>
          if or_lastObservedPlanUpdatedAt o' = Some (pi_updatedAt p) then (Inr None, b)
          else report_progress env o' (or_lastObservedPlanUpdatedAt o') p
            (case or_lastPlan o' of
               Some s \<Rightarrow> describePlanSnapshotChanges s p
             | None \<Rightarrow> [UpdatedNotice (some_text (or_lastObservedPlanUpdatedAt o')) (pi_updatedAt p)])
            (put_origin (observe_plan p o') b))"

section \<open>Queries\<close>

text \<open>
  Sorting by a time, latest first. Times that do not parse would make the comparison of the
  source inconsistent; the times of stored requirements are written by the program.
\<close>

definition stamp_ms :: "board_env \<Rightarrow> stamp \<Rightarrow> int" where
  "stamp_ms env t = (case date_parse (be_date env) t of Some ms \<Rightarrow> ms | None \<Rightarrow> 0)"

definition getRequirement :: "string \<Rightarrow> board \<Rightarrow> requirement option" where
  "getRequirement i b = map_of (bd_requirements b) i"

definition on_route :: "string \<Rightarrow> requirement \<Rightarrow> bool" where
  "on_route routeId r \<longleftrightarrow> so_routeId (rm_source r) = routeId \<or> so_routeProfileId (rm_source r) = Some routeId"

definition findBySourceMessage :: "board_env \<Rightarrow> string \<Rightarrow> string \<Rightarrow> board \<Rightarrow> requirement list" where
  "findBySourceMessage env routeId messageId b =
     (let rt = js_trim routeId; m = js_trim messageId in
      if rt = [] \<or> m = [] then []
      else sort_key (\<lambda>r. - stamp_ms env (rm_createdAt r))
        (filter (\<lambda>r. on_route rt r \<and> m \<in> set (so_messageIds (rm_source r))) (map_values (bd_requirements b))))"

definition findLatestBySourceMessage :: "board_env \<Rightarrow> string \<Rightarrow> string \<Rightarrow> board \<Rightarrow> requirement option" where
  "findLatestBySourceMessage env routeId messageId b = (case findBySourceMessage env routeId messageId b of [] \<Rightarrow> None | r # _ \<Rightarrow> Some r)"

definition select_limit :: "int option \<Rightarrow> nat" where
  "select_limit limit = nat (max 1 (min 500 (case limit of Some l \<Rightarrow> if l = 0 then 100 else l | None \<Rightarrow> 100)))"

definition selectRequirements :: "board_env \<Rightarrow> string option \<Rightarrow> int option \<Rightarrow> board \<Rightarrow> requirement list" where
  "selectRequirements env routeId limit b =
     take (select_limit limit) (sort_key (\<lambda>r. - stamp_ms env (rm_updatedAt r))
       (filter (\<lambda>r. truthy routeId \<longrightarrow> on_route (the routeId) r) (map_values (bd_requirements b))))"

section \<open>The board of open work\<close>

datatype worker_status = ActiveWorker | IdleWorker | NotLoadedWorker | UnavailableWorker

record observation =
  ob_threadName :: "string option"
  ob_workspace :: "string option"
  ob_status :: worker_status
  ob_observedAt :: string

record observed_worker =
  ow_worker :: worker
  ow_status :: "worker_status option"
  ow_active :: "bool option"
  ow_observedAt :: "string option"

definition observe_worker :: "observation option \<Rightarrow> worker \<Rightarrow> observed_worker" where
  "observe_worker seen w = (case seen of
     None \<Rightarrow> \<lparr>ow_worker = w, ow_status = None, ow_active = None, ow_observedAt = None\<rparr>
   | Some x \<Rightarrow> \<lparr>ow_worker = w\<lparr>wo_threadName := or_str (ob_threadName x) (wo_threadName w), wo_workspace := or_str (ob_workspace x) (wo_workspace w)\<rparr>,
       ow_status = Some (ob_status x),
       ow_active = (case ob_status x of ActiveWorker \<Rightarrow> Some True | IdleWorker \<Rightarrow> Some False | _ \<Rightarrow> None),
       ow_observedAt = Some (ob_observedAt x)\<rparr>)"

text \<open>
  The overdue time of a requirement; \<open>None\<close> is the \<open>NaN\<close> of a due time that does not
  parse.
\<close>

definition terminal_status :: "requirement_status \<Rightarrow> bool" where
  "terminal_status s \<longleftrightarrow> s = Sent \<or> s = NotRequired"

definition overdue_of :: "board_env \<Rightarrow> requirement_status \<Rightarrow> stamp \<Rightarrow> int option" where
  "overdue_of env status dueAt = (if terminal_status status then Some 0
     else map_option (\<lambda>ms. max 0 (be_now env - ms)) (date_parse (be_date env) dueAt))"

definition observation_of :: "(string \<rightharpoonup> observation) \<Rightarrow> worker option \<Rightarrow> observation option" where
  "observation_of runtime w = (case w of Some x \<Rightarrow> runtime (wo_threadId x) | None \<Rightarrow> None)"

definition missing_outcome :: "requirement_status \<Rightarrow> observation option \<Rightarrow> bool" where
  "missing_outcome status seen \<longleftrightarrow> status = Processing \<and> (case seen of Some x \<Rightarrow> ob_status x = IdleWorker | None \<Rightarrow> False)"

record board_counts =
  ct_total :: nat
  ct_requiredOpen :: nat
  ct_agentDecisionOpen :: nat
  ct_handedOff :: nat
  ct_overdue :: nat
  ct_sendFailed :: nat
  ct_missingOutcome :: nat
  ct_factAssessmentOpen :: nat
  ct_knowledgeCallbackOpen :: nat
  ct_criticalFactOpen :: nat
  ct_sent24h :: nat

record board_item =
  bi_requirement :: requirement
  bi_worker :: "observed_worker option"
  bi_overdueMs :: "int option"
  bi_missingOutcome :: bool

definition board_item_of :: "board_env \<Rightarrow> (string \<rightharpoonup> observation) \<Rightarrow> requirement \<Rightarrow> board_item" where
  "board_item_of env runtime r = (let seen = observation_of runtime (rm_worker r) in
     \<lparr>bi_requirement = r, bi_worker = map_option (observe_worker seen) (rm_worker r),
       bi_overdueMs = overdue_of env (rm_status r) (rm_dueAt r), bi_missingOutcome = missing_outcome (rm_status r) seen\<rparr>)"

definition how_many :: "('a \<Rightarrow> bool) \<Rightarrow> 'a list \<Rightarrow> nat" where
  "how_many p xs = length (filter p xs)"

definition is_overdue :: "int option \<Rightarrow> bool" where
  "is_overdue x \<longleftrightarrow> (case x of Some ms \<Rightarrow> 0 < ms | None \<Rightarrow> False)"

definition sent_recently :: "board_env \<Rightarrow> requirement_status \<Rightarrow> stamp \<Rightarrow> bool" where
  "sent_recently env status updatedAt \<longleftrightarrow> status = Sent \<and>
     (case date_parse (be_date env) updatedAt of Some ms \<Rightarrow> be_now env - ms \<le> 24 * 60 * 60 * 1000 | None \<Rightarrow> False)"

definition open_callback :: "knowledge_match list \<Rightarrow> knowledge_callback list \<Rightarrow> bool" where
  "open_callback matches callbacks \<longleftrightarrow> list_ex (\<lambda>m. \<not> callbackIsFinal (last_with callback_key callbacks (match_key m))) matches"

definition board_view :: "board_env \<Rightarrow> string option \<Rightarrow> int option \<Rightarrow> (string \<rightharpoonup> observation) \<Rightarrow> board \<Rightarrow> board_counts \<times> board_item list" where
  "board_view env routeId limit runtime b =
     (let items = map (board_item_of env runtime) (selectRequirements env routeId limit b) in
      (\<lparr>ct_total = length items,
        ct_requiredOpen = how_many (\<lambda>x. rm_replyRequired (bi_requirement x) \<and> \<not> terminal_status (rm_status (bi_requirement x))) items,
        ct_agentDecisionOpen = how_many (\<lambda>x. \<not> rm_replyRequired (bi_requirement x) \<and> \<not> terminal_status (rm_status (bi_requirement x))) items,
        ct_handedOff = how_many (\<lambda>x. rm_status (bi_requirement x) = HandedOff) items,
        ct_overdue = how_many (\<lambda>x. is_overdue (bi_overdueMs x)) items,
        ct_sendFailed = how_many (\<lambda>x. rm_status (bi_requirement x) = SendFailed) items,
        ct_missingOutcome = how_many bi_missingOutcome items,
        ct_factAssessmentOpen = how_many (\<lambda>x. rm_factAssessmentRequired (bi_requirement x) \<and> rm_factAssessment (bi_requirement x) = None) items,
        ct_knowledgeCallbackOpen = how_many (\<lambda>x. open_callback (rm_matches (bi_requirement x)) (rm_callbacks (bi_requirement x))) items,
        ct_criticalFactOpen = how_many (\<lambda>x. rm_criticalFacts (bi_requirement x) \<noteq> [] \<and> rm_factDisposition (bi_requirement x) = None) items,
        ct_sent24h = how_many (\<lambda>x. sent_recently env (rm_status (bi_requirement x)) (rm_updatedAt (bi_requirement x))) items\<rparr>, items))"

text \<open>
  The summary projects each requirement to the fields a list shows, without texts and
  attachments, before anything is counted.
\<close>

record source_summary =
  ss_routeId :: string
  ss_routeProfileId :: "string option"
  ss_roleId :: "string option"
  ss_endpoint :: string
  ss_conversationKey :: string
  ss_sender :: string
  ss_routeKinds :: "string list"
  ss_messageIds :: "string list"
  ss_summary :: "string option"

record summary_item =
  su_id :: string
  su_isReply :: bool
  su_replyRequired :: bool
  su_status :: requirement_status
  su_source :: source_summary
  su_messageGroupId :: "string option"
  su_plan :: "plan_change option"
  su_requirement_worker :: "worker option"
  su_decision :: "decision option"
  su_handoff :: "handoff option"
  su_delivery :: "send_record option"
  su_factAssessmentRequired :: bool
  su_projectFactAssessed :: bool
  su_matches :: "knowledge_match list"
  su_callbacks :: "knowledge_callback list"
  su_callbackDueAt :: "stamp option"
  su_criticalFacts :: "fact_signal list"
  su_factDisposition :: "fact_disposition option"
  su_createdAt :: stamp
  su_updatedAt :: stamp
  su_dueAt :: stamp
  su_lastError :: "string option"
  su_worker :: "observed_worker option"
  su_overdueMs :: "int option"
  su_missingOutcome :: bool

definition summarize_source :: "board_source \<Rightarrow> source_summary" where
  "summarize_source s = \<lparr>ss_routeId = so_routeId s, ss_routeProfileId = so_routeProfileId s, ss_roleId = so_roleId s,
     ss_endpoint = so_endpoint s, ss_conversationKey = so_conversationKey s, ss_sender = so_sender s,
     ss_routeKinds = so_routeKinds s, ss_messageIds = so_messageIds s, ss_summary = so_summary s\<rparr>"

definition summary_item_of :: "board_env \<Rightarrow> (string \<rightharpoonup> observation) \<Rightarrow> requirement \<Rightarrow> summary_item" where
  "summary_item_of env runtime r = (let seen = observation_of runtime (rm_worker r) in
     \<lparr>su_id = rm_id r, su_isReply = rm_isReply r, su_replyRequired = rm_replyRequired r, su_status = rm_status r,
       su_source = summarize_source (rm_source r), su_messageGroupId = rm_messageGroupId r, su_plan = rm_plan r,
       su_requirement_worker = rm_worker r, su_decision = rm_decision r, su_handoff = rm_handoff r, su_delivery = rm_delivery r,
       su_factAssessmentRequired = rm_factAssessmentRequired r, su_projectFactAssessed = (rm_factAssessment r \<noteq> None),
       su_matches = rm_matches r, su_callbacks = rm_callbacks r, su_callbackDueAt = rm_callbackDueAt r,
       su_criticalFacts = rm_criticalFacts r, su_factDisposition = rm_factDisposition r, su_createdAt = rm_createdAt r,
       su_updatedAt = rm_updatedAt r, su_dueAt = rm_dueAt r, su_lastError = rm_lastError r,
       su_worker = map_option (observe_worker seen) (rm_worker r),
       su_overdueMs = overdue_of env (rm_status r) (rm_dueAt r), su_missingOutcome = missing_outcome (rm_status r) seen\<rparr>)"

definition boardSummary :: "board_env \<Rightarrow> string option \<Rightarrow> int option \<Rightarrow> (string \<rightharpoonup> observation) \<Rightarrow> board \<Rightarrow> board_counts \<times> summary_item list" where
  "boardSummary env routeId limit runtime b =
     (let items = map (summary_item_of env runtime) (selectRequirements env routeId limit b) in
      (\<lparr>ct_total = length items,
        ct_requiredOpen = how_many (\<lambda>x. su_replyRequired x \<and> \<not> terminal_status (su_status x)) items,
        ct_agentDecisionOpen = how_many (\<lambda>x. \<not> su_replyRequired x \<and> \<not> terminal_status (su_status x)) items,
        ct_handedOff = how_many (\<lambda>x. su_status x = HandedOff) items,
        ct_overdue = how_many (\<lambda>x. is_overdue (su_overdueMs x)) items,
        ct_sendFailed = how_many (\<lambda>x. su_status x = SendFailed) items,
        ct_missingOutcome = how_many su_missingOutcome items,
        ct_factAssessmentOpen = how_many (\<lambda>x. su_factAssessmentRequired x \<and> \<not> su_projectFactAssessed x) items,
        ct_knowledgeCallbackOpen = how_many (\<lambda>x. open_callback (su_matches x) (su_callbacks x)) items,
        ct_criticalFactOpen = how_many (\<lambda>x. su_criticalFacts x \<noteq> [] \<and> su_factDisposition x = None) items,
        ct_sent24h = how_many (\<lambda>x. sent_recently env (su_status x) (su_updatedAt x)) items\<rparr>, items))"

end
