(* ===== verification/BoardInv.thy ===== *)
theory BoardInv
  imports BoardOps
begin

text \<open>
  The invariant of the message-processing board. Well-formed sources, requirements and plan
  links are described first; then every operation is shown to be a sequence of four kinds of
  change (records are modified under their identity, a new record is inserted, expired state
  is pruned, the state is saved), so that an invariant needs one proof per kind of change.
\<close>

section \<open>Well-formed data\<close>

definition bounded :: "nat \<Rightarrow> string \<Rightarrow> bool" where
  "bounded n s \<longleftrightarrow> s \<noteq> [] \<and> length s \<le> n"

definition bounded_option :: "nat \<Rightarrow> string option \<Rightarrow> bool" where
  "bounded_option n x \<longleftrightarrow> (case x of None \<Rightarrow> True | Some s \<Rightarrow> bounded n s)"

definition bounded_list :: "nat \<Rightarrow> string list \<Rightarrow> bool" where
  "bounded_list n xs \<longleftrightarrow> length xs \<le> n \<and> [] \<notin> set xs"

definition attachment_ok :: "attachment \<Rightarrow> bool" where
  "attachment_ok a \<longleftrightarrow> bounded 300 (at_id a) \<and> bounded 300 (at_messageId a) \<and> bounded 500 (at_name a)
     \<and> at_kind a \<in> {''image'', ''video'', ''audio'', ''file''}"

definition source_ok :: "board_source \<Rightarrow> bool" where
  "source_ok s \<longleftrightarrow> bounded 200 (so_routeId s) \<and> bounded 120 (so_endpoint s) \<and> bounded 500 (so_conversationKey s)
     \<and> bounded 500 (so_sender s) \<and> bounded_option 200 (so_routeProfileId s) \<and> bounded_option 200 (so_roleId s)
     \<and> bounded_list 20 (so_routeKinds s) \<and> bounded_list 100 (so_messageIds s) \<and> bounded_list 100 (so_replyChainMessageIds s)
     \<and> (case so_attachments s of None \<Rightarrow> True | Some xs \<Rightarrow> list_all attachment_ok xs)"

definition worker_ok :: "worker \<Rightarrow> bool" where
  "worker_ok w \<longleftrightarrow> bounded 100 (wo_threadId w) \<and> bounded 300 (wo_threadName w) \<and> bounded 2000 (wo_workspace w)
     \<and> (take 8 (wo_threadId w) = ''session-'' \<longrightarrow> wo_dsh w)"

definition match_ok :: "knowledge_match \<Rightarrow> bool" where
  "match_ok m \<longleftrightarrow> bounded 500 (km_id m) \<and> km_type m \<in> knowledge_types"

definition callback_ok :: "knowledge_callback \<Rightarrow> bool" where
  "callback_ok c \<longleftrightarrow> bounded 500 (kc_knowledgeId c) \<and> bounded 4000 (kc_evidence c)
     \<and> kc_knowledgeType c \<in> knowledge_types
     \<and> (kc_result c \<in> {JStr ''updated'', JStr ''created''} \<longrightarrow> kc_recordType c \<noteq> None \<and> kc_recordId c \<noteq> None \<and> kc_verifiedAt c \<noteq> None)"

text \<open>
  A callback is about a recalled item, whose identity is read once more: an identity that was
  cut off after white space loses that white space.
\<close>

definition about_match :: "requirement \<Rightarrow> knowledge_callback \<Rightarrow> bool" where
  "about_match r c \<longleftrightarrow> (\<exists>m\<in>set (rm_matches r). boardText 500 (JStr (km_id m)) = Some (kc_knowledgeId c) \<and> km_type m = kc_knowledgeType c)"

text \<open>What the status of a requirement promises about the rest of it.\<close>

definition status_ok :: "requirement \<Rightarrow> bool" where
  "status_ok r \<longleftrightarrow>
     (rm_status r = NotRequired \<longrightarrow> (\<exists>d code. rm_decision r = Some d \<and> de_type d = NoReplyDecision \<and> de_reasonCode d = Some code
        \<and> (rm_replyRequired r \<longrightarrow> code \<in> allowedRequiredSilenceReasons)))
   \<and> (rm_status r = HandedOff \<longrightarrow> rm_handoff r \<noteq> None)
   \<and> (rm_status r = Sent \<longrightarrow> rm_factAssessmentRequired r \<longrightarrow> rm_factAssessment r \<noteq> None)"

definition requirement_ok :: "requirement \<Rightarrow> bool" where
  "requirement_ok r \<longleftrightarrow> source_ok (rm_source r) \<and> (case rm_worker r of None \<Rightarrow> True | Some w \<Rightarrow> worker_ok w)
     \<and> list_all match_ok (rm_matches r) \<and> list_all callback_ok (rm_callbacks r)
     \<and> distinct (map callback_key (rm_callbacks r)) \<and> (\<forall>c\<in>set (rm_callbacks r). about_match r c)
     \<and> (rm_isReply r \<longrightarrow> rm_factAssessmentRequired r) \<and> status_ok r"

definition origin_ok :: "plan_origin \<Rightarrow> bool" where
  "origin_ok p \<longleftrightarrow> source_ok (or_source p) \<and> (case or_worker p of None \<Rightarrow> True | Some w \<Rightarrow> worker_ok w)"

section \<open>The readers return well-formed data\<close>

lemma boardText_bounded: "boardText n v = Some s \<Longrightarrow> bounded n s"
  using boardText_nonempty by (auto simp: bounded_def)

lemma boardText_bounded_option: "bounded_option n (boardText n v)"
  by (auto simp: bounded_option_def boardText_bounded split: option.splits)

lemma stringList_bounded: "bounded_list n (stringList n v)"
proof -
  let ?xs = "filter (\<lambda>s. s \<noteq> []) (map (\<lambda>x. js_trim (js_String x)) (elements v))"
  have "set (drop (length ?xs - n) ?xs) \<subseteq> set ?xs" by (rule set_drop_subset)
  then show ?thesis by (auto simp: bounded_list_def stringList_def last_items_def)
qed

lemma mem_map_filter: "x \<in> set (List.map_filter f xs) \<longleftrightarrow> (\<exists>y\<in>set xs. f y = Some x)"
  by (induction xs) (auto simp: List.map_filter_simps split: option.splits)

lemma read_attachment_ok: "read_attachment num v = Some a \<Longrightarrow> attachment_ok a"
  by (auto simp: read_attachment_def attachment_ok_def boardText_bounded split: if_splits option.splits jval.splits)

lemma list_all_map_filter: "(\<And>x y. f x = Some y \<Longrightarrow> p y) \<Longrightarrow> list_all p (List.map_filter f xs)"
  by (auto simp: list_all_iff mem_map_filter)

lemma normalizeSource_ok: "normalizeSource num v = Some s \<Longrightarrow> source_ok s"
  by (auto simp: normalizeSource_def source_ok_def boardText_bounded boardText_bounded_option stringList_bounded
      list_all_map_filter [OF read_attachment_ok] split: if_splits option.splits)

lemma normalizedWorker_ok: "normalizedWorker v = Some w \<Longrightarrow> worker_ok w"
  by (auto simp: normalizedWorker_def worker_ok_def boardText_bounded split: if_splits option.splits)

lemma read_match_ok: "read_match num v = Some m \<Longrightarrow> match_ok m"
  by (auto simp: read_match_def match_ok_def boardText_bounded split: if_splits option.splits)

lemma normalizeKnowledgeMatches_ok: "list_all match_ok (normalizeKnowledgeMatches num v)"
  by (simp add: normalizeKnowledgeMatches_def list_all_map_filter [OF read_match_ok])

lemma read_callback_bounds:
  assumes "read_callback v = Some c"
  shows "bounded 500 (kc_knowledgeId c)" "bounded 4000 (kc_evidence c)" "kc_knowledgeType c \<in> knowledge_types"
  using assms by (auto simp: read_callback_def boardText_bounded split: if_splits option.splits)

lemma read_callback_ok:
  assumes "read_callback v = Some c" "check_callback_record c = Inr u"
  shows "callback_ok c"
proof -
  from assms(2) have "kc_result c \<in> {JStr ''updated'', JStr ''created''}
      \<longrightarrow> kc_recordType c \<noteq> None \<and> truthy (kc_recordId c) \<and> truthy (kc_verifiedAt c)"
    by (simp only: check_callback_record_def bind_eq_Inr check_eq_Inr) blast
  with read_callback_bounds [OF assms(1)] show ?thesis by (auto simp: callback_ok_def truthy_def)
qed

section \<open>Changes of the board\<close>

definition keyed :: "('a \<Rightarrow> string) \<Rightarrow> ('a \<Rightarrow> bool) \<Rightarrow> (string \<times> 'a) list \<Rightarrow> bool" where
  "keyed key ok m \<longleftrightarrow> distinct (map fst m) \<and> (\<forall>(k, x)\<in>set m. key x = k \<and> ok x)"

lemma keyed_lookup: "keyed key ok m \<Longrightarrow> map_of m k = Some x \<Longrightarrow> key x = k \<and> ok x"
  by (auto simp: keyed_def dest: map_of_SomeD)

lemma keyed_update: "keyed key ok m \<Longrightarrow> ok x \<Longrightarrow> keyed key ok (AList.update (key x) x m)"
proof -
  assume m: "keyed key ok m" and x: "ok x"
  have "(k, y) \<in> set (AList.update (key x) x m) \<Longrightarrow> key y = k \<and> ok y" for k y
    using m x by (induction m) (auto simp: keyed_def split: if_splits)
  with m show ?thesis by (auto simp: keyed_def js_map.inv_set)
qed

definition board_ok :: "board \<Rightarrow> bool" where
  "board_ok b \<longleftrightarrow> keyed rm_id requirement_ok (bd_requirements b) \<and> keyed or_key origin_ok (bd_planOrigins b)"

text \<open>The parts of a requirement that no operation changes.\<close>

definition same_core :: "requirement \<Rightarrow> requirement \<Rightarrow> bool" where
  "same_core r r' \<longleftrightarrow> rm_id r' = rm_id r \<and> rm_isReply r' = rm_isReply r \<and> rm_dedupeKey r' = rm_dedupeKey r
     \<and> rm_createdAt r' = rm_createdAt r \<and> rm_source r' = rm_source r \<and> rm_matches r' = rm_matches r
     \<and> rm_replyRequired r' = rm_replyRequired r"

definition modified :: "(string \<times> requirement) list \<Rightarrow> (string \<times> requirement) list \<Rightarrow> bool" where
  "modified m m' \<longleftrightarrow> list_all2 (\<lambda>(k, r) (k', r'). k' = k \<and> same_core r r' \<and> (requirement_ok r \<longrightarrow> requirement_ok r')) m m'"

definition unused_key :: "requirement \<Rightarrow> board \<Rightarrow> bool" where
  "unused_key r b \<longleftrightarrow> (\<forall>r'\<in>set (map_values (bd_requirements b)). \<not> (rm_isReply r' \<and> rm_dedupeKey r' = rm_dedupeKey r))"

inductive board_change :: "board_env \<Rightarrow> board \<Rightarrow> board \<Rightarrow> bool" for env :: board_env where
  unchanged: "board_change env b b"
| modify: "modified (bd_requirements b) m \<Longrightarrow> keyed or_key origin_ok (bd_planOrigins b) \<longrightarrow> keyed or_key origin_ok os
    \<Longrightarrow> board_change env b (b\<lparr>bd_requirements := m, bd_planOrigins := os\<rparr>)"
| insert: "map_of (bd_requirements b) (rm_id r) = None \<Longrightarrow> requirement_ok r \<Longrightarrow> rm_createdAt r = Iso (be_now env)
    \<Longrightarrow> (rm_isReply r \<longrightarrow> unused_key r b) \<Longrightarrow> board_change env b (put_requirement r b)"
| expire: "board_change env b (snd (pruneExpiredState env b))"
| save: "board_change env b (b\<lparr>bd_disk := d\<rparr>)"
| sequence: "board_change env b b' \<Longrightarrow> board_change env b' b'' \<Longrightarrow> board_change env b b''"

lemmas board_changeI = board_change.intros

lemma same_core_refl [simp]: "same_core r r"
  by (simp add: same_core_def)

lemma modified_refl: "modified m m"
  by (auto simp: modified_def list_all2_same)

lemma modified_keys: "modified m m' \<Longrightarrow> map fst m' = map fst m"
  unfolding modified_def by (induction rule: list_all2_induct) auto

lemma modified_update:
  assumes "map_of m k = Some r" "distinct (map fst m)" "same_core r r'" "requirement_ok r \<longrightarrow> requirement_ok r'"
  shows "modified m (AList.update k r' m)"
  using assms
proof (induction m)
  case (Cons x m)
  then show ?case by (cases x) (auto simp: modified_def list_all2_same)
qed simp

lemma modified_mem:
  assumes "modified m m'"
  shows "(k, r) \<in> set m \<Longrightarrow> \<exists>r'. (k, r') \<in> set m' \<and> same_core r r'"
    and "(k, r') \<in> set m' \<Longrightarrow> \<exists>r. (k, r) \<in> set m \<and> same_core r r' \<and> (requirement_ok r \<longrightarrow> requirement_ok r')"
  using assms unfolding modified_def
  by (induction rule: list_all2_induct) auto

section \<open>Every operation is a sequence of changes\<close>

lemma persisting_change: "board_change env b (snd (persisting env v b))"
proof -
  have "board_change env b (snd (persist_board env b))"
    using sequence [OF expire save] expire by (auto simp: persist_board_def Let_def)
  then show ?thesis by (auto simp: persisting_def split: prod.splits sum.splits)
qed

lemma put_requirement_change:
  assumes ok: "board_ok b" and r: "map_of (bd_requirements b) i = Some r"
    and core: "same_core r r'" and keep: "requirement_ok r \<Longrightarrow> requirement_ok r'"
  shows "board_change env b (put_requirement r' b)"
proof -
  have "rm_id r' = i" using keyed_lookup [of rm_id] ok r core by (auto simp: board_ok_def same_core_def)
  moreover have "modified (bd_requirements b) (AList.update i r' (bd_requirements b))"
    using ok by (intro modified_update [OF r _ core] impI keep) (auto simp: board_ok_def keyed_def)
  ultimately show ?thesis
    using modify [of b "AList.update i r' (bd_requirements b)" "bd_planOrigins b"] by (simp add: put_requirement_def)
qed

lemma store_change:
  assumes "board_ok b" "map_of (bd_requirements b) i = Some r" "same_core r r'" "requirement_ok r \<Longrightarrow> requirement_ok r'"
  shows "board_change env b (snd (store env r' b))"
  unfolding store_def by (rule sequence [OF put_requirement_change [OF assms] persisting_change])

lemma put_origin_change:
  assumes "keyed or_key origin_ok (bd_planOrigins b) \<Longrightarrow> origin_ok p"
  shows "board_change env b (put_origin p b)"
proof -
  have "keyed or_key origin_ok (bd_planOrigins b) \<longrightarrow> keyed or_key origin_ok (AList.update (or_key p) p (bd_planOrigins b))"
    using keyed_update [of or_key origin_ok] assms by blast
  from modify [OF modified_refl this] show ?thesis by (simp add: put_origin_def)
qed

lemma with_requirement_change:
  assumes "\<And>r. map_of (bd_requirements b) i = Some r \<Longrightarrow> board_change env b (snd (f r))"
  shows "board_change env b (snd (with_requirement i b f))"
  using assms unchanged by (auto simp: with_requirement_def split: option.splits)

lemmas requirement_parts = requirement_ok_def status_ok_def same_core_def about_match_def

lemma recordDispatch_change: "board_ok b \<Longrightarrow> board_change env b (snd (recordDispatch env i v b))"
  unfolding recordDispatch_def
  by (rule with_requirement_change)
    (auto split: option.splits intro!: unchanged store_change simp: requirement_parts dest: normalizedWorker_ok)

lemma recordWorkerReference_change: "board_ok b \<Longrightarrow> board_change env b (snd (recordWorkerReference env i v b))"
  unfolding recordWorkerReference_def
  by (rule with_requirement_change)
    (auto split: option.splits intro!: unchanged store_change simp: requirement_parts dest: normalizedWorker_ok)

lemma recordDispatchFailure_change: "board_ok b \<Longrightarrow> board_change env b (snd (recordDispatchFailure env i m b))"
  unfolding recordDispatchFailure_def
  by (rule with_requirement_change) (auto intro!: store_change simp: requirement_parts)

lemma recordHandoffReturned_change: "board_ok b \<Longrightarrow> board_change env b (snd (recordHandoffReturned env i t b))"
  unfolding recordHandoffReturned_def
  by (rule with_requirement_change) (auto simp: Let_def requirement_parts split: option.splits intro!: unchanged store_change)

lemma recordKnowledgeReminder_change: "board_ok b \<Longrightarrow> board_change env b (snd (recordKnowledgeReminder env i b))"
  unfolding recordKnowledgeReminder_def
  by (rule with_requirement_change) (auto intro!: store_change simp: requirement_parts)

lemma delivered_status_ok:
  "delivered_status r s \<noteq> NotRequired" "delivered_status r s \<noteq> HandedOff"
  "delivered_status r s = Sent \<Longrightarrow> rm_factAssessmentRequired r \<Longrightarrow> rm_factAssessment r \<noteq> None"
  by (auto simp: delivered_status_def split: send_status.splits if_splits)

lemma delivered_requirement_ok:
  assumes "requirement_ok r" "s \<in> {AwaitingSend, delivered_status r st}"
  shows "requirement_ok (r\<lparr>rm_delivery := d, rm_status := s, rm_lastError := e, rm_updatedAt := u\<rparr>)"
proof -
  have "status_ok (r\<lparr>rm_delivery := d, rm_status := s, rm_lastError := e, rm_updatedAt := u\<rparr>)"
    using assms(2) delivered_status_ok [of r st] by (auto simp: status_ok_def)
  with assms(1) show ?thesis by (simp add: requirement_ok_def about_match_def)
qed

lemma recordReply_change: "board_ok b \<Longrightarrow> board_change env b (snd (recordReply env i x d b))"
  unfolding recordReply_def
  by (rule with_requirement_change, erule store_change, assumption)
    (simp add: same_core_def, erule delivered_requirement_ok, blast)

lemma recordSend_change: "board_ok b \<Longrightarrow> board_change env b (snd (recordSend env i x d b))"
  unfolding recordSend_def sent_requirement_def Let_def
  by (rule with_requirement_change, erule store_change, assumption)
    (simp add: same_core_def, erule delivered_requirement_ok, auto)

lemma put_callback_cases: "set (put_callback c cs) \<subseteq> insert c (set cs)"
  by (induction cs) auto

lemma callback_key_iff:
  assumes "callback_ok c" "callback_ok d"
  shows "callback_key c = callback_key d \<longleftrightarrow> same_item c d"
proof -
  have "kc_knowledgeType c \<in> knowledge_types" "kc_knowledgeType d \<in> knowledge_types"
    using assms by (auto simp: callback_ok_def)
  then show ?thesis unfolding callback_key_def same_item_def knowledge_types_def by auto
qed

lemma put_callback_keys:
  "list_all callback_ok cs \<Longrightarrow> callback_ok c \<Longrightarrow> distinct (map callback_key cs) \<Longrightarrow> distinct (map callback_key (put_callback c cs))"
proof (induction cs)
  case (Cons d ds)
  then have d: "callback_ok d" and ih: "distinct (map callback_key (put_callback c ds))" by auto
  show ?case
  proof (cases "same_item c d")
    case True
    then show ?thesis using Cons.prems callback_key_iff [OF Cons.prems(2) d] by (auto simp: image_iff)
  next
    case False
    then have "callback_key c \<noteq> callback_key d" using callback_key_iff [OF Cons.prems(2) d] by simp
    then show ?thesis using False ih Cons.prems put_callback_cases [of c ds] by auto
  qed
qed simp

lemma about_known:
  assumes "list_ex (\<lambda>m. JStr (km_id m) = jget v ''knowledgeId'' \<and> JStr (km_type m) = jget v ''knowledgeType'') (rm_matches r)"
    and "read_callback (with_callback_time env v) = Some c" "requirement_ok r"
  shows "about_match r c"
proof -
  obtain m where m: "m \<in> set (rm_matches r)" "jget v ''knowledgeId'' = JStr (km_id m)" "jget v ''knowledgeType'' = JStr (km_type m)"
    using assms(1) by (auto simp: list_ex_iff)
  let ?v = "with_callback_time env v"
  have v: "jget ?v ''knowledgeId'' = JStr (km_id m)" "jget ?v ''knowledgeType'' = JStr (km_type m)"
    using m by (auto simp: with_callback_time_def update_conv' split: jval.splits)
  have "match_ok m" using assms(3) m(1) by (auto simp: requirement_ok_def list_all_iff)
  then have "km_type m \<noteq> []" by (auto simp: match_ok_def knowledge_types_def)
  then have "boardText 500 (JStr (km_id m)) = Some (kc_knowledgeId c)" "kc_knowledgeType c = km_type m"
    using assms(2) v by (auto simp: read_callback_def or_empty_def split: if_splits option.splits)
  then show ?thesis using m(1) by (auto simp: about_match_def)
qed

lemma recordKnowledgeCallback_change: "board_ok b \<Longrightarrow> board_change env b (snd (recordKnowledgeCallback env i v b))"
  unfolding recordKnowledgeCallback_def
proof (rule with_requirement_change)
  fix r assume b: "board_ok b" and r: "map_of (bd_requirements b) i = Some r"
  let ?known = "list_ex (\<lambda>m. JStr (km_id m) = jget v ''knowledgeId'' \<and> JStr (km_type m) = jget v ''knowledgeType'') (rm_matches r)"
  let ?r = "\<lambda>c. r\<lparr>rm_callbacks := put_callback c (rm_callbacks r), rm_updatedAt := Iso (be_now env), rm_lastError := None\<rparr>"
  have "board_change env b (snd (store env (?r c) b))" if known: ?known
    and read: "read_callback (with_callback_time env v) = Some c" and u: "check_callback_record c = Inr u" for c u
  proof (rule store_change [OF b r])
    show "same_core r (?r c)" by (simp add: same_core_def)
    assume ok: "requirement_ok r"
    have c: "callback_ok c" by (rule read_callback_ok [OF read u])
    have "about_match r c" by (rule about_known [OF known read ok])
    then show "requirement_ok (?r c)" using ok c put_callback_cases [of c "rm_callbacks r"]
      by (auto simp: requirement_ok_def status_ok_def about_match_def list_all_iff put_callback_keys)
  qed
  then show "board_change env b (snd (if \<not> ?known then (Inl (Err (''Knowledge callback does not match a recalled plan or memory: ''
            @ js_String (jget v ''knowledgeType'') @ '':'' @ js_String (jget v ''knowledgeId''))), b)
     else (case read_callback (with_callback_time env v) of
        None \<Rightarrow> (Inl (Err ''Invalid knowledge callback. result, responseAction, evidence, and callback identity are required.''), b)
      | Some c \<Rightarrow> (case check_callback_record c of Inl e \<Rightarrow> (Inl e, b) | Inr _ \<Rightarrow> store env (?r c) b))))"
    using unchanged by (auto split: option.splits sum.splits)
qed

lemma worker_replaced_ok:
  "worker_ok w \<Longrightarrow> same_core r (r\<lparr>rm_worker := Some w, rm_updatedAt := u\<rparr>)
     \<and> (requirement_ok r \<longrightarrow> requirement_ok (r\<lparr>rm_worker := Some w, rm_updatedAt := u\<rparr>))"
  by (simp add: requirement_parts)

lemma replaceWorkerReferences_change: "board_change env b (snd (replaceWorkerReferences env t v b))"
proof (cases "normalizedWorker v")
  case None
  then show ?thesis by (simp add: replaceWorkerReferences_def unchanged)
next
  case (Some w)
  let ?r = "\<lambda>(k, r). (k, if works_for t (rm_worker r) then r\<lparr>rm_worker := Some w, rm_updatedAt := Iso (be_now env)\<rparr> else r)"
  let ?p = "\<lambda>(k, p). (k, if works_for t (or_worker p) then p\<lparr>or_worker := Some w\<rparr> else p)"
  have w: "worker_ok w" by (rule normalizedWorker_ok [OF Some])
  have r: "modified (bd_requirements b) (map ?r (bd_requirements b))"
    using worker_replaced_ok [OF w] by (simp add: modified_def list_all2_map2 list_all2_same split: prod.split)
  have "map fst (map ?p (bd_planOrigins b)) = map fst (bd_planOrigins b)" by auto
  then have "keyed or_key origin_ok (bd_planOrigins b) \<longrightarrow> keyed or_key origin_ok (map ?p (bd_planOrigins b))"
    using w by (auto simp: keyed_def origin_ok_def simp del: map_map)
  from modify [OF r this] have "board_change env b (replaced_worker env t w b)" by (simp add: replaced_worker_def)
  then show ?thesis by (simp add: replaceWorkerReferences_def Some unchanged sequence [OF _ persisting_change])
qed

lemma set_parts_core:
  "same_core r (set_evidence e r)" "same_core r (set_assessment a r)" "same_core r (set_dispositions d r)"
  "same_core r (set_factDisposition f r)"
  by (auto simp: same_core_def set_evidence_def set_assessment_def set_dispositions_def set_factDisposition_def split: option.splits)

lemma set_parts_status [simp]:
  "rm_status (set_evidence e r) = rm_status r" "rm_status (set_assessment a r) = rm_status r"
  "rm_status (set_dispositions d r) = rm_status r" "rm_status (set_factDisposition f r) = rm_status r"
  by (auto simp: set_evidence_def set_assessment_def set_dispositions_def set_factDisposition_def split: option.splits)

lemma set_parts_ok:
  "requirement_ok r \<Longrightarrow> requirement_ok (set_evidence e r)" "requirement_ok r \<Longrightarrow> requirement_ok (set_assessment a r)"
  "requirement_ok r \<Longrightarrow> requirement_ok (set_dispositions d r)" "requirement_ok r \<Longrightarrow> requirement_ok (set_factDisposition f r)"
  by (auto simp: requirement_ok_def status_ok_def about_match_def set_evidence_def set_assessment_def set_dispositions_def
      set_factDisposition_def split: option.splits)

lemma same_core_trans: "same_core r r' \<Longrightarrow> same_core r' r'' \<Longrightarrow> same_core r r''"
  by (simp add: same_core_def)

definition keeps_core :: "requirement \<Rightarrow> requirement \<Rightarrow> bool" where
  "keeps_core r r' \<longleftrightarrow> same_core r r' \<and> (requirement_ok r \<longrightarrow> requirement_ok r')"

lemma keeps_core_trans: "keeps_core r r' \<Longrightarrow> keeps_core r' r'' \<Longrightarrow> keeps_core r r''"
  using same_core_trans by (auto simp: keeps_core_def)

lemma keeps_core_parts:
  "keeps_core r r" "keeps_core r (set_evidence e r)" "keeps_core r (set_assessment a r)" "keeps_core r (set_dispositions d r)"
  "keeps_core r (set_factDisposition f r)"
  using set_parts_core set_parts_ok by (auto simp: keeps_core_def)

lemma keeps_core_chain:
  "keeps_core r (set_assessment a (set_evidence e r))" "keeps_core r (set_dispositions d (set_assessment a (set_evidence e r)))"
  by (meson keeps_core_parts keeps_core_trans)+

lemma assess_keeps: "keeps_core r (snd (assess i r))"
  unfolding assess_def Let_def by (simp add: keeps_core_parts keeps_core_chain split: sum.split)

lemma assess_status: "rm_status (snd (assess i r)) = rm_status r"
  unfolding assess_def Let_def by (simp split: sum.split)

lemma silence_reason_allowed:
  "silence_reason r i = Inr (code, reason) \<Longrightarrow> rm_replyRequired r \<Longrightarrow> code \<in> allowedRequiredSilenceReasons"
  by (auto simp: silence_reason_def Let_def)

lemma decide_cases:
  assumes "decide env r i = Inr d"
  obtains (silent) code reason where "silence_reason r i = Inr (code, reason)"
      "d = r\<lparr>rm_status := NotRequired, rm_decision := Some \<lparr>de_type = NoReplyDecision, de_reasonCode = Some code,
         de_reason = reason, de_decidedAt = Iso (be_now env), de_decidedBy = boardText 100 (oi_decidedByThreadId i)\<rparr>\<rparr>"
      "oi_decision i = ''no_reply''"
  | (handed) c h where "d = r\<lparr>rm_status := HandedOff, rm_decision := c, rm_handoff := Some h\<rparr>" "oi_decision i = ''handoff''"
  | (answered) c where "d = r\<lparr>rm_status := AwaitingSend, rm_decision := c\<rparr>"
      "oi_decision i \<noteq> ''no_reply''" "oi_decision i \<noteq> ''handoff''"
  using assms unfolding decide_def Let_def by (auto split: if_splits option.splits)

lemma decide_keeps:
  assumes "decide env r i = Inr d"
  shows "keeps_core r d"
  using assms
proof (cases rule: decide_cases)
  case (silent code reason)
  then show ?thesis using silence_reason_allowed [OF silent(1)] by (simp add: keeps_core_def requirement_parts)
qed (simp_all add: keeps_core_def requirement_parts)

lemma stamp_keeps: "keeps_core r (r\<lparr>rm_lastError := e, rm_updatedAt := u\<rparr>)"
  by (auto simp: keeps_core_def requirement_parts)

lemma put_keeps_change:
  "board_ok b \<Longrightarrow> map_of (bd_requirements b) i = Some r \<Longrightarrow> keeps_core r r' \<Longrightarrow> board_change env b (put_requirement r' b)"
  unfolding keeps_core_def by (blast intro: put_requirement_change)

lemma linkPlan_change:
  assumes "requirement_ok r"
  shows "board_change env b (snd (linkPlan env r i b))"
  using assms unfolding linkPlan_def
  by (auto simp: origin_ok_def requirement_ok_def split: option.splits intro!: unchanged put_origin_change)

lemma record_outcome_change:
  assumes b: "board_ok b" and r: "map_of (bd_requirements b) i = Some r" and r': "keeps_core r r'"
  shows "board_change env b (snd (record_outcome env x disposition r' b))"
proof (cases "decide env r' x")
  case (Inl e)
  then show ?thesis using put_keeps_change [OF b r r'] by (simp add: record_outcome_def)
next
  case (Inr d)
  define d' where "d' = (set_factDisposition disposition d)\<lparr>rm_lastError := None, rm_updatedAt := Iso (be_now env)\<rparr>"
  have k: "keeps_core r d'" unfolding d'_def
    using r' decide_keeps [OF Inr] keeps_core_parts(5) stamp_keeps by (meson keeps_core_trans)
  have put: "board_change env b (put_requirement d' b)" by (rule put_keeps_change [OF b r k])
  have "requirement_ok d'" using k keyed_lookup [of rm_id] b r by (auto simp: keeps_core_def board_ok_def)
  then have link: "board_change env b (snd (linkPlan env d' x (put_requirement d' b)))"
    by (rule sequence [OF put linkPlan_change])
  show ?thesis unfolding record_outcome_def Inr
    using sequence [OF put persisting_change] link sequence [OF link persisting_change]
    by (auto simp: Let_def d'_def [symmetric] split: prod.splits sum.splits)
qed

lemma sent_ok:
  "requirement_ok r \<Longrightarrow> (rm_factAssessmentRequired r \<Longrightarrow> rm_factAssessment r \<noteq> None)
    \<Longrightarrow> requirement_ok (r\<lparr>rm_status := Sent, rm_updatedAt := u, rm_lastError := e\<rparr>)"
  by (simp add: requirement_ok_def status_ok_def about_match_def)

lemma complete_sent_change:
  assumes b: "board_ok b" and r: "map_of (bd_requirements b) i = Some r" and r': "keeps_core r r'"
    and known: "rm_factAssessmentRequired r' \<Longrightarrow> requirement_ok r' \<Longrightarrow> rm_factAssessment r' \<noteq> None"
  shows "board_change env b (snd (complete_sent env disposition r' b))"
  unfolding complete_sent_def
proof (rule store_change [OF b r])
  let ?d = "(set_factDisposition disposition r')\<lparr>rm_status := Sent, rm_updatedAt := Iso (be_now env), rm_lastError := None\<rparr>"
  have "same_core r' ?d" using set_parts_core(4) [of r' disposition] by (simp add: same_core_def)
  then show "same_core r ?d" using r' same_core_trans by (auto simp: keeps_core_def)
  assume "requirement_ok r"
  then have ok: "requirement_ok r'" using r' by (simp add: keeps_core_def)
  have "rm_factAssessmentRequired (set_factDisposition disposition r') = rm_factAssessmentRequired r'"
    "rm_factAssessment (set_factDisposition disposition r') = rm_factAssessment r'"
    by (simp_all add: set_factDisposition_def split: option.split)
  then show "requirement_ok ?d" using known ok by (intro sent_ok set_parts_ok) auto
qed

lemma conclude_outcome_change:
  assumes b: "board_ok b" and r: "map_of (bd_requirements b) i = Some r" and r': "keeps_core r r'" and st: "rm_status r' = rm_status r"
  shows "board_change env b (snd (conclude_outcome env x (rm_status r = Sent) disposition r' b))"
proof -
  have sent: "board_change env b (snd (complete_sent env d r' b))" if "rm_status r = Sent \<or> rm_factAssessment r' \<noteq> None" for d
    using that st by (intro complete_sent_change [OF b r r']) (auto simp: requirement_ok_def status_ok_def)
  then show ?thesis unfolding conclude_outcome_def
    using put_keeps_change [OF b r r'] record_outcome_change [OF b r r'] by (auto split: option.split)
qed

lemma submitOutcome_change:
  assumes b: "board_ok b"
  shows "board_change env b (snd (submitOutcome env i x b))"
  unfolding submitOutcome_def
proof (rule with_requirement_change)
  fix r assume r: "map_of (bd_requirements b) i = Some r"
  obtain res r' where a: "assess x r = (res, r')" by fastforce
  then have k: "keeps_core r r'" and st: "rm_status r' = rm_status r"
    using assess_keeps [of r x] assess_status [of x r] by auto
  show "board_change env b (snd (if rm_status r = Sent \<and> \<not> js_truthy (oi_projectFactAssessment x) \<and> \<not> js_truthy (oi_criticalFactDisposition x)
     then (Inr r, b) else (case assess x r of (Inl e, r') \<Rightarrow> (Inl e, put_requirement r' b)
      | (Inr disposition, r') \<Rightarrow> conclude_outcome env x (rm_status r = Sent) disposition r' b)))"
    using put_keeps_change [OF b r k] conclude_outcome_change [OF b r k st] unchanged [of env b]
    by (cases res) (simp_all add: a)
qed

lemma registerMessageGroup_change: "board_change env b (snd (registerMessageGroup env i g s m b))"
proof -
  let ?key = "\<lambda>v. messageSourceDedupeKey (be_hash env) v"
  let ?new = "\<lambda>v. new_reply_requirement env i (?key v) g v (normalizeKnowledgeMatches (be_number env) m)"
  have new: "board_change env b (snd (persisting env (Created (?new v)) (put_requirement (?new v) b)))"
    if fresh: "map_of (bd_requirements b) i = None" and source: "normalizeSource (be_number env) s = Some v"
      and none: "find (\<lambda>r. rm_isReply r \<and> rm_dedupeKey r = ?key v) (map_values (bd_requirements b)) = None" for v
  proof (rule sequence [OF insert persisting_change])
    show "requirement_ok (?new v)"
      using normalizeSource_ok [OF source] normalizeKnowledgeMatches_ok
      by (simp add: requirement_ok_def status_ok_def new_reply_requirement_def)
    show "rm_isReply (?new v) \<longrightarrow> unused_key (?new v) b"
      using none by (auto simp: unused_key_def new_reply_requirement_def find_None_iff)
  qed (simp_all add: fresh new_reply_requirement_def)
  then show ?thesis unfolding registerMessageGroup_def Let_def
    using unchanged [of env b] by (simp split: option.split)
qed

lemma observe_plan_keeps: "or_key (observe_plan p x) = or_key x" "origin_ok x \<Longrightarrow> origin_ok (observe_plan p x)"
  by (simp_all add: observe_plan_def origin_ok_def)

definition fresh_uuid :: "board_env \<Rightarrow> board \<Rightarrow> bool" where
  "fresh_uuid env b \<longleftrightarrow> map_of (bd_requirements b) (''message-requirement-'' @ be_uuid env) = None"

lemma report_progress_change:
  assumes "fresh_uuid env b" "origin_ok x"
  shows "board_change env b (snd (report_progress env x u p cs b))"
proof -
  have "board_change env b (snd (persisting env v (put_requirement (progress_requirement env x u p cs) b)))" for v :: "requirement option"
    by (rule sequence [OF insert persisting_change])
      (use assms in \<open>simp_all add: progress_requirement_def fresh_uuid_def requirement_ok_def status_ok_def origin_ok_def\<close>)
  then show ?thesis unfolding report_progress_def
    by (simp add: Let_def persisting_change unchanged split: option.split)
qed

lemma fresh_uuid_put [simp]: "fresh_uuid env (put_origin x b) = fresh_uuid env b"
  by (simp add: fresh_uuid_def put_origin_def)

lemma progress_change:
  assumes b: "board_ok b" and fresh: "fresh_uuid env b" and x: "x \<in> set (map_values (bd_planOrigins b))"
  shows "board_change env b (snd (report_progress env x u p cs (put_origin (observe_plan p x) b)))"
proof -
  have "origin_ok x" using b x by (auto simp: board_ok_def keyed_def)
  then have "board_change env b (put_origin (observe_plan p x) b)" by (intro put_origin_change observe_plan_keeps)
  then show ?thesis using fresh \<open>origin_ok x\<close> by (intro sequence [OF _ report_progress_change]) simp_all
qed

lemma registerPlanChange_change:
  assumes b: "board_ok b" and fresh: "fresh_uuid env b"
  shows "board_change env b (snd (registerPlanChange env roleId before after b))"
proof (cases "sort_key (\<lambda>o'. - linked_ms env o') (origins_of roleId (pi_id after) b)")
  case Nil
  then show ?thesis by (simp add: registerPlanChange_def unchanged)
next
  case (Cons x xs)
  then have "x \<in> set (sort_key (\<lambda>o'. - linked_ms env o') (origins_of roleId (pi_id after) b))" by simp
  then have x: "x \<in> set (map_values (bd_planOrigins b))" by (simp add: origins_of_def)
  then show ?thesis using progress_change [OF b fresh] Cons by (simp add: registerPlanChange_def)
qed

lemma reconcilePlan_change:
  assumes b: "board_ok b" and fresh: "fresh_uuid env b"
  shows "board_change env b (snd (reconcilePlan env k p b))"
proof (cases "map_of (bd_planOrigins b) k")
  case None
  then show ?thesis by (simp add: reconcilePlan_def unchanged)
next
  case (Some x)
  then have x: "x \<in> set (map_values (bd_planOrigins b))" by (force dest: map_of_SomeD)
  then show ?thesis using progress_change [OF b fresh] Some by (simp add: reconcilePlan_def unchanged)
qed

lemma setPlanBaseline_change: "board_change env b (snd (setPlanBaseline env roleId p b))"
proof -
  let ?f = "\<lambda>(k, x). (k, if or_roleId x = roleId \<and> or_planId x = pi_id p then observe_plan p x else x)"
  have "keyed or_key origin_ok (bd_planOrigins b) \<longrightarrow> keyed or_key origin_ok (map ?f (bd_planOrigins b))"
  proof
    assume k: "keyed or_key origin_ok (bd_planOrigins b)"
    have "map fst (map ?f (bd_planOrigins b)) = map fst (bd_planOrigins b)" by auto
    with k show "keyed or_key origin_ok (map ?f (bd_planOrigins b))"
      by (auto simp: keyed_def observe_plan_keeps simp del: map_map)
  qed
  from modify [OF modified_refl this] have "board_change env b (b\<lparr>bd_planOrigins := map ?f (bd_planOrigins b)\<rparr>)" by simp
  then show ?thesis by (simp add: setPlanBaseline_def unchanged sequence [OF _ persisting_change])
qed

lemma pruneExpired_change: "board_change env b (snd (pruneExpired env b))"
  using expire [of env b] sequence [OF expire persisting_change, of env b] unfolding pruneExpired_def
  by (auto split: prod.split)

end
