(* ===== verification/BoardProps.thy ===== *)
theory BoardProps
  imports BoardInv
begin

text \<open>
  Properties of the message-processing board: which states its operations reach, that a
  message group is registered once, what closing a message requires, what the result of a
  send means, what expires, and three behaviours in which the code does not do what it means
  to.
\<close>

section \<open>Reachable boards\<close>

text \<open>
  One step is one call with its arguments; the operations that make a new identifier are
  given one that is not in use, which is what \<open>randomUUID\<close> promises.
\<close>

inductive board_step :: "board_env \<Rightarrow> board \<Rightarrow> board \<Rightarrow> bool" for env :: board_env and b :: board where
  "board_step env b (snd (registerMessageGroup env i g s m b))"
| "board_step env b (snd (recordDispatch env i v b))"
| "board_step env b (snd (recordWorkerReference env i v b))"
| "board_step env b (snd (replaceWorkerReferences env t v b))"
| "board_step env b (snd (recordDispatchFailure env i m b))"
| "board_step env b (snd (recordHandoffReturned env i t b))"
| "board_step env b (snd (submitOutcome env i x b))"
| "board_step env b (snd (recordReply env i y d b))"
| "board_step env b (snd (recordSend env i y d b))"
| "board_step env b (snd (recordKnowledgeCallback env i v b))"
| "board_step env b (snd (recordKnowledgeReminder env i b))"
| "fresh_uuid env b \<Longrightarrow> board_step env b (snd (registerPlanChange env roleId before after b))"
| "fresh_uuid env b \<Longrightarrow> board_step env b (snd (reconcilePlan env k p b))"
| "board_step env b (snd (setPlanBaseline env roleId p b))"
| "board_step env b (snd (pruneExpired env b))"

inductive board_reaches :: "(string \<Rightarrow> string) \<Rightarrow> (string \<Rightarrow> int option) \<Rightarrow> int \<times> board \<Rightarrow> int \<times> board \<Rightarrow> bool"
  for hash :: "string \<Rightarrow> string" and date :: "string \<Rightarrow> int option" and start :: "int \<times> board" where
  here: "board_reaches hash date start start"
| later: "board_reaches hash date start (t, b) \<Longrightarrow> board_step env b b' \<Longrightarrow> be_hash env = hash \<Longrightarrow> be_date env = date
    \<Longrightarrow> t \<le> be_now env \<Longrightarrow> board_reaches hash date start (be_now env, b')"

definition empty_board :: board where
  "empty_board = \<lparr>bd_requirements = [], bd_planOrigins = [], bd_dedupe = [], bd_disk = ([], [], [])\<rparr>"

lemma step_change: "board_step env b b' \<Longrightarrow> board_ok b \<Longrightarrow> board_change env b b'"
  by (induction rule: board_step.induct)
    (simp_all add: registerMessageGroup_change recordDispatch_change recordWorkerReference_change
      replaceWorkerReferences_change recordDispatchFailure_change recordHandoffReturned_change submitOutcome_change
      recordReply_change recordSend_change recordKnowledgeCallback_change recordKnowledgeReminder_change
      registerPlanChange_change reconcilePlan_change setPlanBaseline_change pruneExpired_change)

section \<open>What pruning removes\<close>

lemma pruned_requirements: "fst (prune_requirements env m dd) = filter (\<lambda>(k, r). keeps env r) m"
  by (induction env m dd rule: prune_requirements.induct) (auto split: prod.splits)

lemma pruned_parts:
  "bd_requirements (snd (pruneExpiredState env b)) = filter (\<lambda>(k, r). keeps env r) (bd_requirements b)"
  "bd_planOrigins (snd (pruneExpiredState env b)) = prune_origins env (bd_planOrigins b)"
  "bd_dedupe (snd (pruneExpiredState env b)) = snd (prune_requirements env (bd_requirements b) (prune_dedupe env (bd_dedupe b)))"
  using pruned_requirements [of env "bd_requirements b" "prune_dedupe env (bd_dedupe b)"]
  by (auto simp: pruneExpiredState_def Let_def split: prod.splits)

lemma update_mem: "(i, x) \<in> set (AList.update k y m) \<Longrightarrow> i = k \<and> x = y \<or> (i, x) \<in> set m"
  by (induction m) (auto split: if_splits)

lemma update_keeps: "(i, x) \<in> set m \<Longrightarrow> map_of m k = None \<Longrightarrow> (i, x) \<in> set (AList.update k y m)"
  by (induction m) (auto split: if_splits)

lemma keyed_filter: "keyed key ok m \<Longrightarrow> keyed key ok (filter p m)"
  by (auto simp: keyed_def distinct_map_filter)

section \<open>The invariant\<close>

definition one_per_group :: "board \<Rightarrow> bool" where
  "one_per_group b \<longleftrightarrow> (\<forall>(i, r)\<in>set (bd_requirements b). \<forall>(j, q)\<in>set (bd_requirements b).
     rm_isReply r \<longrightarrow> rm_isReply q \<longrightarrow> rm_dedupeKey r = rm_dedupeKey q \<longrightarrow> i = j)"

lemma modified_board_ok:
  assumes "modified m m'" "keyed rm_id requirement_ok m"
  shows "keyed rm_id requirement_ok m'"
  using assms modified_keys [OF assms(1)] modified_mem(2) [OF assms(1)]
  by (fastforce simp: keyed_def same_core_def)

lemma board_ok_change: "board_change env b b' \<Longrightarrow> board_ok b \<Longrightarrow> board_ok b'"
proof (induction rule: board_change.induct)
  case (modify b m os)
  then show ?case using modified_board_ok by (auto simp: board_ok_def)
next
  case (insert b r)
  then show ?case using keyed_update [of rm_id requirement_ok] by (auto simp: board_ok_def put_requirement_def)
next
  case (expire b)
  then show ?case by (auto simp: board_ok_def pruned_parts prune_origins_def keyed_filter)
qed (auto simp: board_ok_def)

lemma one_per_groupD:
  "one_per_group b \<Longrightarrow> (i, r) \<in> set (bd_requirements b) \<Longrightarrow> (j, q) \<in> set (bd_requirements b) \<Longrightarrow> rm_isReply r \<Longrightarrow> rm_isReply q
    \<Longrightarrow> rm_dedupeKey r = rm_dedupeKey q \<Longrightarrow> i = j"
  by (auto simp: one_per_group_def)

lemma one_per_groupI:
  "(\<And>i r j q. (i, r) \<in> set (bd_requirements b) \<Longrightarrow> (j, q) \<in> set (bd_requirements b) \<Longrightarrow> rm_isReply r \<Longrightarrow> rm_isReply q
    \<Longrightarrow> rm_dedupeKey r = rm_dedupeKey q \<Longrightarrow> i = j) \<Longrightarrow> one_per_group b"
  by (auto simp: one_per_group_def)

lemma one_per_group_modified:
  assumes "modified (bd_requirements b) (bd_requirements b')" "one_per_group b"
  shows "one_per_group b'"
proof (rule one_per_groupI)
  fix i r j q assume mem: "(i, r) \<in> set (bd_requirements b')" "(j, q) \<in> set (bd_requirements b')"
    and same: "rm_isReply r" "rm_isReply q" "rm_dedupeKey r = rm_dedupeKey q"
  obtain r0 where r0: "(i, r0) \<in> set (bd_requirements b)" "same_core r0 r" using modified_mem(2) [OF assms(1) mem(1)] by blast
  obtain q0 where q0: "(j, q0) \<in> set (bd_requirements b)" "same_core q0 q" using modified_mem(2) [OF assms(1) mem(2)] by blast
  show "i = j" by (rule one_per_groupD [OF assms(2) r0(1) q0(1)]) (use r0(2) q0(2) same in \<open>simp_all add: same_core_def\<close>)
qed

lemma one_per_group_insert:
  assumes "one_per_group b" "rm_isReply r \<longrightarrow> unused_key r b"
  shows "one_per_group (put_requirement r b)"
proof (rule one_per_groupI)
  fix i x j q assume "(i, x) \<in> set (bd_requirements (put_requirement r b))" "(j, q) \<in> set (bd_requirements (put_requirement r b))"
    and same: "rm_isReply x" "rm_isReply q" "rm_dedupeKey x = rm_dedupeKey q"
  then have "i = rm_id r \<and> x = r \<or> (i, x) \<in> set (bd_requirements b)" "j = rm_id r \<and> q = r \<or> (j, q) \<in> set (bd_requirements b)"
    by (auto simp: put_requirement_def dest: update_mem)
  then show "i = j" using same assms(2) one_per_groupD [OF assms(1)] by (force simp: unused_key_def)
qed

lemma one_per_group_change: "board_change env b b' \<Longrightarrow> one_per_group b \<Longrightarrow> one_per_group b'"
proof (induction rule: board_change.induct)
  case (modify b m os)
  then show ?case using one_per_group_modified [of b "b\<lparr>bd_requirements := m, bd_planOrigins := os\<rparr>"] by simp
next
  case (insert b r)
  then show ?case by (simp add: one_per_group_insert)
next
  case (expire b)
  then show ?case by (auto simp: one_per_group_def pruned_parts)
qed (auto simp: one_per_group_def)

lemma reaches_ok:
  assumes "board_reaches hash date (t, b) s" "board_ok b" "one_per_group b"
  shows "board_ok (snd s) \<and> one_per_group (snd s)"
  using assms(1)
proof (induction rule: board_reaches.induct)
  case (later t' b' env b'')
  then show ?case using step_change [of env b' b''] board_ok_change one_per_group_change by auto
qed (simp add: assms)

section \<open>Replays\<close>

text \<open>
  While a key is guarded, no requirement can be created for it: a requirement carries it, or
  a dedupe record that lasts long enough.
\<close>

definition covered :: "(string \<Rightarrow> int option) \<Rightarrow> string \<Rightarrow> int \<Rightarrow> (string \<times> dedupe_record) list \<Rightarrow> bool" where
  "covered date k until m \<longleftrightarrow> (\<exists>d e. map_of m k = Some d \<and> date_parse date (dr_expiresAt d) = Some e \<and> until \<le> e)"

definition carries :: "string \<Rightarrow> int \<Rightarrow> requirement \<Rightarrow> bool" where
  "carries k at r \<longleftrightarrow> rm_isReply r \<and> rm_dedupeKey r = k \<and> rm_createdAt r = Iso at"

definition guarded :: "(string \<Rightarrow> int option) \<Rightarrow> string \<Rightarrow> int \<Rightarrow> board \<Rightarrow> bool" where
  "guarded date k at b \<longleftrightarrow> (\<exists>(i, r)\<in>set (bd_requirements b). carries k at r) \<or> covered date k (at + dedupe_retention_ms) (bd_dedupe b)"

definition all_live :: "board_env \<Rightarrow> (string \<times> dedupe_record) list \<Rightarrow> bool" where
  "all_live env m \<longleftrightarrow> (\<forall>k d. map_of m k = Some d \<longrightarrow> live_record env d)"

lemma map_of_filter_value: "map_of m k = Some v \<Longrightarrow> p (k, v) \<Longrightarrow> map_of (filter p m) k = Some v"
  by (induction m) auto

lemma prune_dedupe_live: "all_live env (prune_dedupe env m)"
  by (auto simp: all_live_def prune_dedupe_def dest!: map_of_SomeD)

lemma prune_dedupe_covered:
  "covered (be_date env) k until m \<Longrightarrow> be_now env < until \<Longrightarrow> covered (be_date env) k until (prune_dedupe env m)"
  unfolding covered_def prune_dedupe_def
  using map_of_filter_value [of m k _ "\<lambda>(k, d). live_record env d"] by (fastforce simp: live_record_def)

lemma retain_live: "all_live env m \<Longrightarrow> all_live env (retainDedupeKey env k t m)"
  by (auto simp: all_live_def retainDedupeKey_def Let_def live_record_def update_conv' split: option.splits if_splits)

lemma retain_covered: "covered (be_date env) k until m \<Longrightarrow> covered (be_date env) k until (retainDedupeKey env j t m)"
  by (auto simp: covered_def retainDedupeKey_def Let_def update_conv' split: option.splits if_splits)

lemma retain_covers:
  assumes "all_live env m" "sha256_text k" "be_now env < at + dedupe_retention_ms"
  shows "covered (be_date env) k (at + dedupe_retention_ms) (retainDedupeKey env k (Iso at) m)"
proof (cases "map_of m k")
  case None
  then show ?thesis using assms by (simp add: covered_def retainDedupeKey_def update_conv')
next
  case (Some d)
  then obtain e where "date_parse (be_date env) (dr_expiresAt d) = Some e"
    using assms(1) by (auto simp: all_live_def live_record_def split: option.splits)
  with Some assms show ?thesis by (auto simp: covered_def retainDedupeKey_def update_conv' Let_def)
qed

lemma prune_requirements_covered:
  "covered (be_date env) k until dd \<Longrightarrow> covered (be_date env) k until (snd (prune_requirements env m dd))"
  by (induction env m dd rule: prune_requirements.induct) (auto split: prod.splits simp: retain_covered)

lemma prune_requirements_guard:
  assumes "sha256_text k" "be_now env < at + dedupe_retention_ms" "all_live env dd" "(i, r) \<in> set m" "carries k at r"
  shows "(i, r) \<in> set (fst (prune_requirements env m dd))
     \<or> covered (be_date env) k (at + dedupe_retention_ms) (snd (prune_requirements env m dd))"
  using assms
proof (induction env m dd rule: prune_requirements.induct)
  case (2 env j q rs dd)
  show ?case
  proof (cases "keeps env q")
    case True
    then show ?thesis using 2 by (auto split: prod.splits)
  next
    case False
    let ?dd = "if rm_isReply q then retainDedupeKey env (rm_dedupeKey q) (rm_createdAt q) dd else dd"
    have live: "all_live env ?dd" using 2 by (simp add: retain_live)
    show ?thesis
    proof (cases "(j, q) = (i, r)")
      case True
      then have "covered (be_date env) k (at + dedupe_retention_ms) ?dd" using 2 retain_covers by (auto simp: carries_def)
      then show ?thesis using False prune_requirements_covered by simp
    next
      case other: False
      then show ?thesis using False 2 live by auto
    qed
  qed
qed simp

lemma guarded_expire:
  assumes "sha256_text k" "be_now env < at + dedupe_retention_ms" "guarded (be_date env) k at b"
  shows "guarded (be_date env) k at (snd (pruneExpiredState env b))"
proof -
  let ?p = "prune_requirements env (bd_requirements b) (prune_dedupe env (bd_dedupe b))"
  have "(\<exists>(i, r)\<in>set (fst ?p). carries k at r) \<or> covered (be_date env) k (at + dedupe_retention_ms) (snd ?p)"
    using assms(3) prune_requirements_guard [OF assms(1,2) prune_dedupe_live] assms(2)
      prune_requirements_covered prune_dedupe_covered unfolding guarded_def by blast
  then show ?thesis by (simp add: guarded_def pruned_parts pruned_requirements)
qed

lemma guarded_change:
  assumes "board_change env b b'" "sha256_text k" "be_now env < at + dedupe_retention_ms" "guarded (be_date env) k at b"
  shows "guarded (be_date env) k at b'"
  using assms
proof (induction rule: board_change.induct)
  case (modify b m os)
  have "\<exists>(i, r)\<in>set m. carries k at r" if "(i, r) \<in> set (bd_requirements b)" "carries k at r" for i r
    using modified_mem(1) [OF modify(1) that(1)] that(2) by (fastforce simp: carries_def same_core_def)
  with modify show ?case by (auto simp: guarded_def)
next
  case (insert b r)
  have "(i, q) \<in> set (AList.update (rm_id r) r (bd_requirements b))" if "(i, q) \<in> set (bd_requirements b)" for i q
    using that insert(1) by (intro update_keeps) auto
  with insert show ?case by (fastforce simp: guarded_def put_requirement_def)
next
  case (expire b)
  then show ?case by (simp add: guarded_expire)
qed (auto simp: guarded_def)

lemma guarded_reaches:
  assumes "board_reaches hash date (t, b) s" "board_ok b" "one_per_group b" "sha256_text k" "guarded date k at b"
    and "fst s < at + dedupe_retention_ms"
  shows "guarded date k at (snd s)"
  using assms(1,6)
proof (induction rule: board_reaches.induct)
  case (later t' b' env b'')
  have "board_ok b'" using reaches_ok [OF later(1) assms(2,3)] by simp
  with later show ?case using guarded_change [OF step_change assms(4)] by auto
qed (simp add: assms)

section \<open>Properties\<close>

definition sample_board_env :: board_env where
  "sample_board_env = \<lparr>be_now = 1000000, be_write = True, be_uuid = ''u1'', be_iso = (\<lambda>_. ''2026-01-01T00:00:00.000Z''),
     be_hash = (\<lambda>_. replicate 64 (CHR ''a'')), be_date = (\<lambda>_. None), be_number = (\<lambda>_. None)\<rparr>"

definition sample_source :: jval where
  "sample_source = JObj [(''routeId'', JStr ''r1''), (''endpoint'', JStr ''qq''), (''conversationKey'', JStr ''c1''),
     (''sender'', JStr ''ann''), (''routeKinds'', JArr [JStr ''group'']), (''messageIds'', JArr [JStr ''m2'', JStr ''m1'', JStr ''m2'']),
     (''evidenceReviewRequired'', JBool True)]"

definition sample_board :: board where
  "sample_board = snd (registerMessageGroup sample_board_env ''q1'' ''g1'' sample_source JUndef empty_board)"

lemma empty_board_ok: "board_ok empty_board" "one_per_group empty_board"
  by (simp_all add: board_ok_def keyed_def one_per_group_def empty_board_def)

text \<open>C30: Every board the operations reach from an empty one is well formed: each requirement and
  each plan link is stored under its own identifier, with a bounded source and worker; callbacks
  are about recalled items, one for each, and carry the record they claim; a requirement that is
  closed, handed over or sent has the decision, hand-over or assessment its status promises; and
  no two requirements answer the same group of messages.\<close>

theorem reachable_boards_well_formed:
  assumes "board_reaches hash date (t, empty_board) (t', b)"
  shows "board_ok b \<and> one_per_group b"
  using reaches_ok [OF assms empty_board_ok] by simp

lemma sample_board_reached: "board_reaches (be_hash sample_board_env) (be_date sample_board_env) (0, empty_board) (be_now sample_board_env, sample_board)"
  unfolding sample_board_def by (rule later [OF here board_step.intros(1)]) (simp_all add: sample_board_env_def)

lemma reachable_boards_well_formed_witness:
  "board_ok sample_board \<and> one_per_group sample_board \<and> map fst (bd_requirements sample_board) = [''q1'']"
proof -
  have "map fst (bd_requirements sample_board) = [''q1'']" by code_simp
  with reachable_boards_well_formed [OF sample_board_reached] show ?thesis by simp
qed

text \<open>Two sources name the same group of messages when only the order and the repetition of the
  message identifiers differ.\<close>

definition same_messages :: "board_source \<Rightarrow> board_source \<Rightarrow> bool" where
  "same_messages s s' \<longleftrightarrow> so_routeId s = so_routeId s' \<and> so_endpoint s = so_endpoint s'
     \<and> so_conversationKey s = so_conversationKey s' \<and> set (so_messageIds s) = set (so_messageIds s')"

lemma same_messages_key: "same_messages s s' \<Longrightarrow> messageSourceDedupeKey h s = messageSourceDedupeKey h s'"
  by (simp add: same_messages_def messageSourceDedupeKey_def sourceIdentity_def flip: sorted_list_of_set_sort_remdups)

lemma created_guards:
  assumes "registerMessageGroup env i g s m b = (Inr (Created r), b')" "normalizeSource (be_number env) s = Some v"
    and "sha256_text (messageSourceDedupeKey (be_hash env) v)"
  shows "guarded (be_date env) (messageSourceDedupeKey (be_hash env) v) (be_now env) b'"
proof -
  let ?k = "messageSourceDedupeKey (be_hash env) v"
  let ?r = "new_reply_requirement env i ?k g v (normalizeKnowledgeMatches (be_number env) m)"
  have b': "b' = snd (persisting env (Created ?r) (put_requirement ?r b))"
    using assms(1,2) unfolding registerMessageGroup_def Let_def by (auto split: option.splits if_splits prod.splits)
  have "map_of (bd_requirements (put_requirement ?r b)) i = Some ?r"
    by (simp add: put_requirement_def update_conv' new_reply_requirement_def)
  moreover have "carries ?k (be_now env) ?r" by (simp add: carries_def new_reply_requirement_def)
  ultimately have "guarded (be_date env) ?k (be_now env) (put_requirement ?r b)"
    using map_of_SomeD unfolding guarded_def by fast
  then show ?thesis unfolding b'
    by (intro guarded_change [OF persisting_change assms(3)]) (simp_all add: dedupe_retention_ms_def)
qed

lemma guarded_refuses:
  assumes "guarded (be_date env) (messageSourceDedupeKey (be_hash env) v) at b" "be_now env < at + dedupe_retention_ms"
    and "normalizeSource (be_number env) s = Some v" "js_trim g \<noteq> []"
  shows "\<exists>out. registerMessageGroup env i g s m b = (Inr out, b) \<and> (\<forall>r. out \<noteq> Created r)"
proof (cases "map_of (bd_requirements b) i")
  case None
  let ?k = "messageSourceDedupeKey (be_hash env) v"
  show ?thesis
  proof (cases "find (\<lambda>r. rm_isReply r \<and> rm_dedupeKey r = ?k) (map_values (bd_requirements b))")
    case no: None
    then have "\<not> (\<exists>(i, r)\<in>set (bd_requirements b). carries ?k at r)" by (force simp: find_None_iff carries_def)
    then obtain d e where "map_of (bd_dedupe b) ?k = Some d" "date_parse (be_date env) (dr_expiresAt d) = Some e" "at + dedupe_retention_ms \<le> e"
      using assms(1) by (auto simp: guarded_def covered_def)
    then show ?thesis using assms(2-) None no by (simp add: registerMessageGroup_def Let_def live_record_def)
  qed (use assms None in \<open>simp add: registerMessageGroup_def Let_def\<close>)
qed (simp add: registerMessageGroup_def)

text \<open>C6: Once a requirement has been created for a group of messages, no operation for the next
  seven days, however the requirement is processed, closed or expired meanwhile, makes a
  second one: registering the same messages again, in any order, returns an existing requirement
  or reports a suppressed replay, and changes nothing.\<close>

theorem message_groups_register_once:
  assumes "board_reaches hash date (t, empty_board) (t0, b0)" "be_hash e0 = hash" "be_date e0 = date"
    and "registerMessageGroup e0 i g s m b0 = (Inr (Created r), b1)" "t0 \<le> be_now e0"
    and "board_reaches hash date (be_now e0, b1) (t2, b2)" "be_hash e1 = hash" "be_date e1 = date"
    and "t2 \<le> be_now e1" "be_now e1 < be_now e0 + dedupe_retention_ms"
    and "normalizeSource (be_number e0) s = Some v" "normalizeSource (be_number e1) s' = Some v'" "same_messages v v'"
    and "js_trim g' \<noteq> []" "sha256_text (messageSourceDedupeKey hash v)"
  shows "\<exists>out. registerMessageGroup e1 i' g' s' m' b2 = (Inr out, b2) \<and> (\<forall>r'. out \<noteq> Created r')"
proof -
  have "board_reaches hash date (t, empty_board) (be_now e0, b1)"
    using later [OF assms(1) board_step.intros(1) [of e0 b0 i g s m]] assms(2-5) by simp
  then have "board_ok b1 \<and> one_per_group b1" using reaches_ok [OF _ empty_board_ok] by fastforce
  moreover have "guarded date (messageSourceDedupeKey hash v) (be_now e0) b1"
    using created_guards [OF assms(4,11)] assms(2,3,15) by simp
  ultimately have "guarded date (messageSourceDedupeKey hash v) (be_now e0) b2"
    using guarded_reaches [OF assms(6) _ _ assms(15)] assms(9,10) by simp
  then show ?thesis using guarded_refuses assms(7,8,10,12,14) same_messages_key [OF assms(13)] by simp
qed

text \<open>The same messages, in another order, a day after the requirement has expired.\<close>

definition reordered_source :: jval where
  "reordered_source = JObj [(''routeId'', JStr ''r1''), (''endpoint'', JStr ''qq''), (''conversationKey'', JStr ''c1''),
     (''sender'', JStr ''bob''), (''messageIds'', JArr [JStr ''m1'', JStr ''m2''])]"

definition next_day :: board_env where
  "next_day = sample_board_env\<lparr>be_now := 100000000\<rparr>"

definition expired_board :: board where
  "expired_board = snd (pruneExpired next_day sample_board)"

lemma expired_board_reached: "board_reaches (be_hash sample_board_env) (be_date sample_board_env) (be_now sample_board_env, sample_board) (be_now next_day, expired_board)"
  unfolding expired_board_def
  by (rule later [OF here board_step.intros(15)]) (simp_all add: sample_board_env_def next_day_def)

lemma message_groups_register_once_witness:
  "bd_requirements expired_board = []
     \<and> (\<exists>out. registerMessageGroup next_day ''q2'' ''g2'' reordered_source JUndef expired_board = (Inr out, expired_board)
         \<and> (\<forall>r. out \<noteq> Created r))"
proof -
  let ?v = "the (normalizeSource (be_number sample_board_env) sample_source)"
  let ?w = "the (normalizeSource (be_number next_day) reordered_source)"
  let ?r = "snd (hd (bd_requirements sample_board))"
  have first: "registerMessageGroup sample_board_env ''q1'' ''g1'' sample_source JUndef empty_board = (Inr (Created ?r), sample_board)"
    by code_simp
  have read: "normalizeSource (be_number sample_board_env) sample_source = Some ?v" "normalizeSource (be_number next_day) reordered_source = Some ?w"
    by code_simp+
  have same: "same_messages ?v ?w" "js_trim ''g2'' \<noteq> []" "sha256_text (messageSourceDedupeKey (be_hash sample_board_env) ?v)"
    by code_simp+
  have "bd_requirements expired_board = []" by code_simp
  with message_groups_register_once [OF here [of _ _ "(0, empty_board)"] refl refl first _ expired_board_reached _ _ _ _ read same]
  show ?thesis by (simp add: next_day_def sample_board_env_def dedupe_retention_ms_def)
qed

section \<open>Expiry\<close>

lemma persisting_ok:
  assumes "persisting env v b = (Inr w, b')"
  shows "w = v \<and> bd_requirements b' = filter (\<lambda>(k, r). keeps env r) (bd_requirements b)
     \<and> bd_planOrigins b' = prune_origins env (bd_planOrigins b)
     \<and> bd_dedupe b' = snd (prune_requirements env (bd_requirements b) (prune_dedupe env (bd_dedupe b)))
     \<and> bd_disk b' = (bd_requirements b', bd_planOrigins b', bd_dedupe b')"
  using assms pruned_parts [of env b]
  by (auto simp: persisting_def persist_board_def Let_def split: if_splits prod.splits sum.splits)

lemma persisting_value: "persisting env v b = (Inr w, b') \<Longrightarrow> w = v"
  using persisting_ok [of env v b w b'] by simp

lemma prune_requirements_live: "all_live env dd \<Longrightarrow> all_live env (snd (prune_requirements env m dd))"
  by (induction env m dd rule: prune_requirements.induct) (auto split: prod.splits simp: retain_live)

text \<open>A successful write keeps exactly the requirements that are younger than their retention,
  fifteen minutes for those that are sent, closed or failed and a day for the others, and the
  plan links younger than seven days; every dedupe record left has not expired; a reply
  requirement that was dropped before seven days leaves a record that suppresses its messages
  until then; and the file holds the same as the memory.\<close>

theorem expiry_is_exact:
  assumes "persisting env v b = (Inr w, b')"
  shows "bd_requirements b' = filter (\<lambda>(i, r). younger env (rm_createdAt r)
            (if rm_status r = Sent \<or> rm_status r = NotRequired \<or> rm_status r = SendFailed then 15 * 60 * 1000 else 24 * 60 * 60 * 1000))
          (bd_requirements b)
    \<and> bd_planOrigins b' = filter (\<lambda>(i, p). younger env (or_linkedAt p) (7 * 24 * 60 * 60 * 1000)) (bd_planOrigins b)
    \<and> (\<forall>k d. map_of (bd_dedupe b') k = Some d \<longrightarrow> live_record env d)
    \<and> (\<forall>i r at. (i, r) \<in> set (bd_requirements b) - set (bd_requirements b') \<longrightarrow> rm_isReply r \<longrightarrow> rm_createdAt r = Iso at
          \<longrightarrow> sha256_text (rm_dedupeKey r) \<longrightarrow> be_now env < at + dedupe_retention_ms
          \<longrightarrow> covered (be_date env) (rm_dedupeKey r) (at + dedupe_retention_ms) (bd_dedupe b'))
    \<and> bd_disk b' = (bd_requirements b', bd_planOrigins b', bd_dedupe b')"
proof -
  note p = persisting_ok [OF assms]
  have "live_record env d" if "map_of (bd_dedupe b') k = Some d" for k d
    using that p prune_requirements_live [OF prune_dedupe_live, of env "bd_requirements b" "bd_dedupe b"] by (auto simp: all_live_def)
  moreover have "covered (be_date env) (rm_dedupeKey r) (at + dedupe_retention_ms) (bd_dedupe b')"
    if "(i, r) \<in> set (bd_requirements b) - set (bd_requirements b')" "rm_isReply r" "rm_createdAt r = Iso at"
      "sha256_text (rm_dedupeKey r)" "be_now env < at + dedupe_retention_ms" for i r at
    using that p prune_requirements_guard [OF that(4,5) prune_dedupe_live, of i r "bd_requirements b" "bd_dedupe b"]
    by (auto simp: carries_def pruned_requirements)
  moreover have "bd_requirements b' = filter (\<lambda>(i, r). younger env (rm_createdAt r)
            (if rm_status r = Sent \<or> rm_status r = NotRequired \<or> rm_status r = SendFailed then 15 * 60 * 1000 else 24 * 60 * 60 * 1000))
          (bd_requirements b)"
    using p by (simp add: keeps_def requirementRetentionMs_def transient_retention_ms_def requirement_retention_ms_def)
  moreover have "bd_planOrigins b' = filter (\<lambda>(i, p). younger env (or_linkedAt p) (7 * 24 * 60 * 60 * 1000)) (bd_planOrigins b)"
    using p by (simp add: prune_origins_def plan_origin_retention_ms_def)
  ultimately show ?thesis using p by blast
qed

lemma expiry_is_exact_witness:
  "covered (be_date next_day) (replicate 64 (CHR ''a'')) (1000000 + dedupe_retention_ms) (bd_dedupe (snd (persisting next_day () sample_board)))"
proof -
  let ?r = "snd (hd (bd_requirements sample_board))"
  have p: "persisting next_day () sample_board = (Inr (), snd (persisting next_day () sample_board))" by code_simp
  have r: "(''q1'', ?r) \<in> set (bd_requirements sample_board) - set (bd_requirements (snd (persisting next_day () sample_board)))"
    "rm_isReply ?r" "rm_createdAt ?r = Iso 1000000" "rm_dedupeKey ?r = replicate 64 (CHR ''a'')" "sha256_text (replicate 64 (CHR ''a''))"
    by code_simp+
  have "be_now next_day < 1000000 + dedupe_retention_ms" by (simp add: next_day_def dedupe_retention_ms_def)
  with expiry_is_exact [OF p, THEN conjunct2, THEN conjunct2, THEN conjunct2, THEN conjunct1] r show ?thesis by metis
qed

section \<open>Sends\<close>

lemma recordSend_result:
  assumes "recordSend env i x d b = (Inr r', b')" "map_of (bd_requirements b) i = Some r"
  shows "let lost = (sd_status x = SentStatus \<and> (\<not> channelMatches r x \<or> \<not> hasChannelReceipt x)) in
    rm_status r' = (if lost then AwaitingSend else delivered_status r (sd_status x))
    \<and> (rm_lastError r' = None \<longleftrightarrow> \<not> lost \<and> delivery_error x = None)"
proof -
  from assms have "\<exists>b0. persisting env (sent_requirement env x d r) b0 = (Inr r', b')"
    by (auto simp: recordSend_def with_requirement_def store_def Let_def)
  then have "r' = sent_requirement env x d r" using persisting_ok by metis
  then show ?thesis by (auto simp: sent_requirement_def Let_def)
qed

text \<open>The result of a send marks a requirement as sent exactly when the send succeeded on the
  channel its endpoint asks for, with a message or file receipt if that is NapCat, and nothing
  is left to assess or to record; a send that succeeded on another channel or without a receipt
  leaves it waiting to be sent, with an error; a draft waits for approval and a failed or
  blocked send has failed.\<close>

theorem sends_are_confirmed:
  assumes "recordSend env i x d b = (Inr r', b')" "map_of (bd_requirements b) i = Some r"
  shows "(rm_status r' = Sent \<longleftrightarrow> sd_status x = SentStatus \<and> sd_channel x = Some (expectedChannel r) \<and> expectedChannel r \<noteq> []
        \<and> (expectedChannel r \<noteq> ''napcat'' \<or> truthy (sd_sentMessageId x) \<or> truthy (sd_sentFileId x) \<or> truthy (sd_sentFileName x))
        \<and> \<not> (rm_factAssessmentRequired r \<and> rm_factAssessment r = None) \<and> \<not> (rm_criticalFacts r \<noteq> [] \<and> rm_factDisposition r = None))
    \<and> (rm_status r' = AwaitingSend \<longleftrightarrow> sd_status x = SentStatus \<and> \<not> (channelMatches r x \<and> hasChannelReceipt x))
    \<and> (rm_status r' = AwaitingApproval \<longleftrightarrow> sd_status x = DraftStatus)
    \<and> (rm_status r' = SendFailed \<longleftrightarrow> sd_status x = FailedStatus \<or> sd_status x = BlockedStatus)
    \<and> (rm_lastError r' = None \<longleftrightarrow> sd_status x = DraftStatus \<or> sd_status x = SentStatus \<and> channelMatches r x \<and> hasChannelReceipt x)"
proof -
  let ?lost = "sd_status x = SentStatus \<and> (\<not> channelMatches r x \<or> \<not> hasChannelReceipt x)"
  have st: "rm_status r' = (if ?lost then AwaitingSend else delivered_status r (sd_status x))"
    and err: "rm_lastError r' = None \<longleftrightarrow> \<not> ?lost \<and> delivery_error x = None"
    using recordSend_result [OF assms] by (simp_all add: Let_def)
  show ?thesis unfolding st err
    by (intro conjI; cases "sd_status x"; auto simp: delivered_status_def delivery_error_def channelMatches_def hasChannelReceipt_def)
qed

definition sample_send :: send_result where
  "sample_send = \<lparr>sd_status = SentStatus, sd_channel = Some ''napcat'', sd_sentMessageId = None, sd_sentFileId = None,
     sd_sentFileName = None, sd_reason = None\<rparr>"

lemma sends_are_confirmed_witness:
  "(case recordSend sample_board_env ''q1'' sample_send (Some ''d1'') sample_board of (Inr r, _) \<Rightarrow> rm_status r | _ \<Rightarrow> Sent) = AwaitingSend"
proof -
  let ?out = "recordSend sample_board_env ''q1'' sample_send (Some ''d1'') sample_board"
  let ?q = "snd (hd (bd_requirements sample_board))"
  have out: "?out = (Inr (projr (fst ?out)), snd ?out)" by code_simp
  have q: "map_of (bd_requirements sample_board) ''q1'' = Some ?q" by code_simp
  have "sd_status sample_send = SentStatus \<and> \<not> (channelMatches ?q sample_send \<and> hasChannelReceipt sample_send)" by code_simp
  then have "rm_status (projr (fst ?out)) = AwaitingSend" using sends_are_confirmed [OF out q] by blast
  then show ?thesis by (subst out) simp
qed

section \<open>Closing a message\<close>

definition evidence_complete :: "requirement \<Rightarrow> evidence_review \<Rightarrow> bool" where
  "evidence_complete r e \<longleftrightarrow> ev_replyChainChecked e \<and> ev_evidence e \<noteq> [] \<and> ev_reviewedAt e \<noteq> []
     \<and> set (ev_reviewedMessageIds e) = set (gate_source_ids r)
     \<and> (\<forall>a\<in>set (source_attachments r). at_ready a
          \<and> (\<exists>x\<in>set (ev_attachmentReviews e). ar_attachmentId x = at_id a \<and> ar_reviewed x))"

definition assessment_complete :: "requirement \<Rightarrow> fact_assessment \<Rightarrow> bool" where
  "assessment_complete r a \<longleftrightarrow> fa_replyChainChecked a \<and> fa_evidence a \<noteq> [] \<and> fa_assessedAt a \<noteq> []
     \<and> set (so_messageIds (rm_source r)) \<subseteq> set (fa_reviewedMessageIds a) \<and> set (fa_reviewedMessageIds a) \<subseteq> set (gate_source_ids r)
     \<and> (fa_critical a \<longleftrightarrow> (\<exists>f fs. fa_facts a = Some (f # fs)))"

definition fact_recorded :: "fact_disposition \<Rightarrow> bool" where
  "fact_recorded d \<longleftrightarrow> truthy (fd_evidence d)
     \<and> (fd_status d = JStr ''not_applicable'' \<or> fd_record d \<noteq> None \<and> truthy (fd_verifiedAt d))"

definition disposed :: "requirement \<Rightarrow> knowledge_match \<Rightarrow> bool" where
  "disposed r m \<longleftrightarrow> (\<exists>ds. rm_dispositions r = Some ds \<and> (\<exists>d\<in>set ds. disposition_key d = match_key m \<and> kd_actions d \<noteq> []))"

lemma last_with_mem: "last_with key xs k = Some x \<Longrightarrow> x \<in> set xs \<and> key x = k"
proof -
  assume "last_with key xs k = Some x"
  then have "filter (\<lambda>x. key x = k) xs \<noteq> []" "x = last (filter (\<lambda>x. key x = k) xs)"
    by (auto simp: last_with_def split: list.splits)
  with last_in_set [of "filter (\<lambda>x. key x = k) xs"] show ?thesis by simp
qed

lemma filter_none: "filter (\<lambda>x. \<not> p x) xs = [] \<longleftrightarrow> (\<forall>x\<in>set xs. p x)"
  by (auto simp: filter_empty_conv)

lemma closing_evidence_ok:
  assumes "closing_evidence r e = Inr u"
  shows "set (gate_source_ids r) \<subseteq> set (ev_reviewedMessageIds e)"
    and "a \<in> set (source_attachments r) \<Longrightarrow> at_ready a \<and> (\<exists>x\<in>set (ev_attachmentReviews e). ar_attachmentId x = at_id a \<and> ar_reviewed x)"
proof -
  show "set (gate_source_ids r) \<subseteq> set (ev_reviewedMessageIds e)"
    using assms by (simp add: closing_evidence_def Let_def filter_empty_conv subset_iff)
  show "at_ready a \<and> (\<exists>x\<in>set (ev_attachmentReviews e). ar_attachmentId x = at_id a \<and> ar_reviewed x)" if a: "a \<in> set (source_attachments r)"
  proof -
    have "at_ready a" using assms a by (simp add: closing_evidence_def Let_def filter_empty_conv)
    have "case last_with ar_attachmentId (ev_attachmentReviews e) (at_id a) of Some x \<Rightarrow> ar_reviewed x | None \<Rightarrow> False"
      using assms a by (simp add: closing_evidence_def Let_def filter_empty_conv)
    with \<open>at_ready a\<close> last_with_mem show ?thesis by (fastforce split: option.splits)
  qed
qed

lemma evidence_gate:
  assumes "validateSourceEvidenceReview r x = Inr e" "oi_decision x = ''no_reply''" "rm_isReply r" "so_evidenceReviewRequired (rm_source r)"
  shows "\<exists>v. e = Some v \<and> evidence_complete r v"
proof -
  obtain v where v: "e = Some v" "ev_replyChainChecked v" "ev_evidence v \<noteq> []" "ev_reviewedAt v \<noteq> []"
    "set (ev_reviewedMessageIds v) \<subseteq> set (gate_source_ids r)" "closing_evidence r v = Inr ()"
    using assms by (auto simp: validateSourceEvidenceReview_def Let_def filter_empty_conv split: option.splits)
  show ?thesis using v closing_evidence_ok [OF v(6)] by (auto simp: evidence_complete_def)
qed

lemma assessment_gate:
  assumes "validateProjectFactAssessment r x = Inr a" "oi_decision x = ''no_reply''" "rm_isReply r" "rm_factAssessmentRequired r"
  shows "\<exists>v. a = Some v \<and> assessment_complete r v"
proof -
  define given where "given = (case normalizeProjectFactAssessment (oi_projectFactAssessment x) of Some v \<Rightarrow> Some v | None \<Rightarrow> rm_factAssessment r)"
  obtain v where v: "given = Some v" using assms
    by (cases given) (simp_all add: validateProjectFactAssessment_def given_def [symmetric])
  let ?facts = "case fa_facts v of None \<Rightarrow> [] | Some fs \<Rightarrow> fs"
  have "a = Some v" "fa_replyChainChecked v" "fa_evidence v \<noteq> []" "fa_assessedAt v \<noteq> []"
    "set (fa_reviewedMessageIds v) \<subseteq> set (gate_source_ids r)" "set (so_messageIds (rm_source r)) \<subseteq> set (fa_reviewedMessageIds v)"
    "fa_critical v \<longleftrightarrow> ?facts \<noteq> []"
    using assms v by (auto simp: validateProjectFactAssessment_def given_def [symmetric] Let_def filter_empty_conv)
  then show ?thesis by (auto simp: assessment_complete_def neq_Nil_conv split: option.splits)
qed

lemma knowledge_gate:
  assumes "validateKnowledgeMatchDispositions r x = Inr ds" "oi_decision x = ''no_reply''" "rm_isReply r" "rm_factAssessmentRequired r"
    and "m \<in> set (rm_matches r)"
  shows "callbackIsFinal (last_with callback_key (rm_callbacks r) (match_key m)) \<or> disposed (set_dispositions ds r) m"
proof (cases "all_final r")
  case True
  then show ?thesis using assms(5) by (auto simp: all_final_def list_all_iff)
next
  case False
  let ?ds = "normalizeKnowledgeMatchDispositions (oi_knowledgeMatchDispositions x)"
  have ds: "ds = Some ?ds" "\<forall>m\<in>set (rm_matches r). match_key m \<in> disposition_key ` set ?ds"
    "\<forall>d\<in>set ?ds. check_disposition x d = Inr ()"
    using assms(1-4) False by (auto simp: validateKnowledgeMatchDispositions_def Let_def filter_empty_conv each_ok)
  then obtain d where "d \<in> set ?ds" "disposition_key d = match_key m" using assms(5) by fastforce
  moreover from this ds(3) have "kd_actions d \<noteq> []" by (auto simp: check_disposition_def)
  ultimately have "disposed (set_dispositions ds r) m" unfolding ds(1) disposed_def set_dispositions_def by auto
  then show ?thesis ..
qed

lemma critical_gate:
  assumes "validateCriticalFactDisposition r x = Inr d" "oi_decision x = ''no_reply''"
    and "rm_factAssessment r = Some a" "assessment_complete r a" "fa_critical a"
  shows "\<exists>v. d = Some v \<and> fact_recorded v"
proof -
  have "critical_facts r x \<noteq> []" using assms(3-5) by (auto simp: critical_facts_def assessment_complete_def)
  then obtain v where v: "normalizeCriticalFactDisposition (oi_criticalFactDisposition x) = Some v"
    using assms(1,2) by (cases "normalizeCriticalFactDisposition (oi_criticalFactDisposition x)")
      (simp_all add: validateCriticalFactDisposition_def)
  show ?thesis using assms(1,2) \<open>critical_facts r x \<noteq> []\<close>
    by (auto simp: v validateCriticalFactDisposition_def fact_recorded_def split: if_splits)
qed

lemma assess_ok:
  assumes "assess x r = (Inr d, r')"
  obtains e a ds where "validateSourceEvidenceReview r x = Inr e" "validateProjectFactAssessment (set_evidence e r) x = Inr a"
    "validateKnowledgeMatchDispositions (set_assessment a (set_evidence e r)) x = Inr ds"
    "validateCriticalFactDisposition r' x = Inr d" "r' = set_dispositions ds (set_assessment a (set_evidence e r))"
  using assms by (auto simp: assess_def Let_def split: sum.splits)

lemmas set_part_defs = set_evidence_def set_assessment_def set_dispositions_def set_factDisposition_def

lemma assess_gates:
  assumes "assess x r = (Inr d, r')" "oi_decision x = ''no_reply''" "rm_isReply r" "rm_factAssessmentRequired r"
  shows "\<exists>a. rm_factAssessment r' = Some a \<and> assessment_complete r a \<and> (fa_critical a \<longrightarrow> (\<exists>v. d = Some v \<and> fact_recorded v))"
    and "so_evidenceReviewRequired (rm_source r) \<Longrightarrow> \<exists>e. rm_evidenceReview r' = Some e \<and> evidence_complete r e"
    and "m \<in> set (rm_matches r) \<Longrightarrow> callbackIsFinal (last_with callback_key (rm_callbacks r') (match_key m)) \<or> disposed r' m"
proof -
  obtain e a ds where e: "validateSourceEvidenceReview r x = Inr e" and a: "validateProjectFactAssessment (set_evidence e r) x = Inr a"
    and ds: "validateKnowledgeMatchDispositions (set_assessment a (set_evidence e r)) x = Inr ds"
    and d: "validateCriticalFactDisposition r' x = Inr d" and r': "r' = set_dispositions ds (set_assessment a (set_evidence e r))"
    by (rule assess_ok [OF assms(1)])
  let ?r = "set_evidence e r"
  have r: "rm_isReply ?r = rm_isReply r" "rm_factAssessmentRequired ?r = rm_factAssessmentRequired r" "rm_source ?r = rm_source r"
    by (simp_all add: set_part_defs split: option.split)
  obtain v where v: "a = Some v" "assessment_complete ?r v" using assessment_gate [OF a assms(2)] assms(3,4) r by auto
  have fa: "rm_factAssessment r' = Some v" "rm_source r' = rm_source r"
    using r(3) by (simp_all add: r' v(1) set_part_defs split: option.split)
  have src: "assessment_complete r' v = assessment_complete r v" "assessment_complete ?r v = assessment_complete r v"
    using fa(2) r(3) by (simp_all add: assessment_complete_def gate_source_ids_def)
  have "fa_critical v \<Longrightarrow> \<exists>c. d = Some c \<and> fact_recorded c"
    by (rule critical_gate [OF d assms(2) fa(1)]) (use v(2) src in simp_all)
  then show "\<exists>a. rm_factAssessment r' = Some a \<and> assessment_complete r a \<and> (fa_critical a \<longrightarrow> (\<exists>v. d = Some v \<and> fact_recorded v))"
    using fa(1) v(2) src(2) by blast
  show "\<exists>e. rm_evidenceReview r' = Some e \<and> evidence_complete r e" if need: "so_evidenceReviewRequired (rm_source r)"
  proof -
    obtain c where c: "e = Some c" "evidence_complete r c" using evidence_gate [OF e assms(2,3) need] by blast
    have "rm_evidenceReview r' = Some c" by (simp add: r' c(1) set_part_defs split: option.split)
    with c(2) show ?thesis by blast
  qed
  show "callbackIsFinal (last_with callback_key (rm_callbacks r') (match_key m)) \<or> disposed r' m" if "m \<in> set (rm_matches r)"
  proof -
    have "rm_matches (set_assessment a ?r) = rm_matches r" "rm_callbacks r' = rm_callbacks (set_assessment a ?r)"
      "rm_isReply (set_assessment a ?r)" "rm_factAssessmentRequired (set_assessment a ?r)"
      using assms(3,4) by (simp_all add: r' set_part_defs split: option.split)
    then show ?thesis using knowledge_gate [OF ds assms(2), of m] that r' by simp
  qed
qed

lemma record_outcome_ok:
  assumes "record_outcome env x d r b = (Inr q, b')"
  shows "\<exists>p. decide env r x = Inr p \<and> q = (set_factDisposition d p)\<lparr>rm_lastError := None, rm_updatedAt := Iso (be_now env)\<rparr>"
proof (cases "decide env r x")
  case (Inr p)
  then show ?thesis using assms
    by (auto simp: record_outcome_def Let_def dest!: persisting_value split: if_splits prod.splits sum.splits)
qed (use assms in \<open>simp add: record_outcome_def\<close>)

text \<open>C11: A message is closed without a reply only after it was reviewed: the requirement returned is
  marked as not required; if its policy asked for a visible reply, the reason is one of those
  that excuse it; the submitted assessment covers every message of the group and nothing else,
  and a critical fact was recorded; where the evidence has to be reviewed, every message and
  every attachment was, and all of them were readable; and every recalled item has a final
  callback or a disposition.\<close>

theorem closed_messages_were_reviewed:
  assumes "submitOutcome env i x b = (Inr q, b')" "map_of (bd_requirements b) i = Some r" "oi_decision x = ''no_reply''"
    and "rm_isReply r" "rm_factAssessmentRequired r" "rm_status r \<notin> {Sent, FactAssessmentPending, FactRecordPending}"
  shows "rm_status q = NotRequired
    \<and> (\<exists>c. rm_decision q = Some c \<and> (rm_replyRequired r \<longrightarrow> (\<exists>code\<in>allowedRequiredSilenceReasons. de_reasonCode c = Some code)))
    \<and> (\<exists>a. rm_factAssessment q = Some a \<and> assessment_complete r a
         \<and> (fa_critical a \<longrightarrow> (\<exists>d. rm_factDisposition q = Some d \<and> fact_recorded d)))
    \<and> (so_evidenceReviewRequired (rm_source r) \<longrightarrow> (\<exists>e. rm_evidenceReview q = Some e \<and> evidence_complete r e))
    \<and> (\<forall>m\<in>set (rm_matches r). callbackIsFinal (last_with callback_key (rm_callbacks q) (match_key m)) \<or> disposed q m)"
proof -
  obtain d r' where a: "assess x r = (Inr d, r')" and rec: "record_outcome env x d r' b = (Inr q, b')"
    using assms(1,2,6) assess_status [of x r]
    by (auto simp: submitOutcome_def with_requirement_def conclude_outcome_def split: prod.splits sum.splits if_splits)
  obtain p where p: "decide env r' x = Inr p" and q: "q = (set_factDisposition d p)\<lparr>rm_lastError := None, rm_updatedAt := Iso (be_now env)\<rparr>"
    using record_outcome_ok [OF rec] by blast
  obtain c reason where c: "silence_reason r' x = Inr (c, reason)" and p': "p = r'\<lparr>rm_status := NotRequired,
      rm_decision := Some \<lparr>de_type = NoReplyDecision, de_reasonCode = Some c, de_reason = reason,
        de_decidedAt = Iso (be_now env), de_decidedBy = boardText 100 (oi_decidedByThreadId x)\<rparr>\<rparr>"
    using p by (cases rule: decide_cases) (use assms(3) in auto)
  have core: "rm_replyRequired r' = rm_replyRequired r" using assess_keeps [of r x] a by (simp add: keeps_core_def same_core_def)
  have same: "rm_factAssessment q = rm_factAssessment r'" "rm_evidenceReview q = rm_evidenceReview r'" "rm_callbacks q = rm_callbacks r'"
    "disposed q = disposed r'" "rm_status q = NotRequired" "rm_factDisposition q = (case d of None \<Rightarrow> rm_factDisposition r' | Some v \<Rightarrow> Some v)"
    by (auto simp: q p' set_part_defs disposed_def fun_eq_iff split: option.split)
  have "\<exists>v. rm_decision q = Some v \<and> de_reasonCode v = Some c" by (simp add: q p' set_part_defs split: option.split)
  moreover have "rm_replyRequired r \<longrightarrow> c \<in> allowedRequiredSilenceReasons" using silence_reason_allowed [OF c] core by simp
  moreover note assess_gates [OF a assms(3-5)]
  ultimately show ?thesis unfolding same by fastforce
qed

definition sample_outcome :: outcome where
  "sample_outcome = \<lparr>oi_decision = ''no_reply'', oi_reasonCode = Some ''closing_only'', oi_reason = JStr ''done'',
     oi_decidedByThreadId = JUndef, oi_targetAgentType = JUndef, oi_targetThreadId = JUndef, oi_targetThreadName = JUndef,
     oi_roleId = JUndef, oi_planId = JUndef, oi_planTitle = JUndef,
     oi_projectFactAssessment = JObj [(''status'', JStr ''critical''), (''reviewedMessageIds'', JArr [JStr ''m1'', JStr ''m2'']),
       (''replyChainChecked'', JBool True), (''evidence'', JStr ''read''), (''assessedAt'', JStr ''now''),
       (''facts'', JArr [JObj [(''kind'', JStr ''schedule''), (''evidence'', JStr ''friday'')]])],
     oi_sourceEvidenceReview = JObj [(''reviewedMessageIds'', JArr [JStr ''m2'', JStr ''m1'']), (''replyChainChecked'', JBool True),
       (''evidence'', JStr ''read''), (''reviewedAt'', JStr ''now'')],
     oi_knowledgeMatchDispositions = JUndef,
     oi_criticalFactDisposition = JObj [(''status'', JStr ''recorded''), (''evidence'', JStr ''plan step''), (''verifiedAt'', JStr ''now''),
       (''record'', JObj [(''type'', JStr ''plan''), (''planId'', JStr ''p1'')])]\<rparr>"

definition closed_board :: "requirement result \<times> board" where
  "closed_board = submitOutcome sample_board_env ''q1'' sample_outcome sample_board"

lemma closed_messages_were_reviewed_witness:
  "(\<exists>q a. fst closed_board = Inr q \<and> rm_status q = NotRequired \<and> rm_factAssessment q = Some a \<and> fa_critical a
     \<and> (\<exists>d. rm_factDisposition q = Some d \<and> fact_recorded d))
   \<and> (\<exists>q e. fst closed_board = Inr q \<and> rm_evidenceReview q = Some e \<and> set (ev_reviewedMessageIds e) = {''m1'', ''m2''})"
proof -
  let ?q = "projr (fst closed_board)" and ?r = "snd (hd (bd_requirements sample_board))"
  have out: "submitOutcome sample_board_env ''q1'' sample_outcome sample_board = (Inr ?q, snd closed_board)"
    and q: "fst closed_board = Inr ?q" by code_simp+
  have r: "map_of (bd_requirements sample_board) ''q1'' = Some ?r" "rm_isReply ?r" "rm_factAssessmentRequired ?r"
    "so_evidenceReviewRequired (rm_source ?r)" "gate_source_ids ?r = [''m2'', ''m1'', ''m2'']" "rm_status ?r = PendingDispatch"
    by code_simp+
  have x: "oi_decision sample_outcome = ''no_reply''" by code_simp
  have crit: "map_option fa_critical (rm_factAssessment ?q) = Some True" by code_simp
  have status: "rm_status ?r \<notin> {Sent, FactAssessmentPending, FactRecordPending}" by (simp add: r(6))
  note c = closed_messages_were_reviewed [OF out r(1) x r(2,3) status]
  obtain a where a: "rm_factAssessment ?q = Some a" "fa_critical a" using crit by auto
  from c a have one: "rm_status ?q = NotRequired" "\<exists>d. rm_factDisposition ?q = Some d \<and> fact_recorded d" by simp_all
  from c r(4) obtain e where e: "rm_evidenceReview ?q = Some e" "evidence_complete ?r e" by blast
  have "set (gate_source_ids ?r) = {''m1'', ''m2''}" unfolding r(5) by auto
  with e(2) have "set (ev_reviewedMessageIds e) = {''m1'', ''m2''}" by (simp only: evidence_complete_def)
  with e(1) show ?thesis using one a q by blast
qed

section \<open>A rejected outcome is recorded\<close>

text \<open>C37: An outcome that names a plan, where neither the outcome nor the source names a role, is
  rejected with an error after the requirement was changed: the decision stands in the memory,
  so a message reported as not closed is closed, while the file still holds what it held
  before.\<close>

theorem rejected_link_keeps_the_decision:
  assumes "map_of (bd_requirements b) i = Some r" "rm_id r = i" "assess x r = (Inr d, r')" "decide env r' x = Inr p"
    and "rm_status r \<notin> {Sent, FactAssessmentPending, FactRecordPending}" "js_truthy (oi_planId x)"
    and "boardText 200 (oi_roleId x) = None" "so_roleId (rm_source r) = None"
  shows "\<exists>e q. fst (submitOutcome env i x b) = Inl e
     \<and> map_of (bd_requirements (snd (submitOutcome env i x b))) i = Some q \<and> rm_status q = rm_status p \<and> rm_decision q = rm_decision p
     \<and> bd_disk (snd (submitOutcome env i x b)) = bd_disk b"
proof -
  let ?q = "(set_factDisposition d p)\<lparr>rm_lastError := None, rm_updatedAt := Iso (be_now env)\<rparr>"
  have core: "same_core r r'" "same_core r' p" "rm_status r' = rm_status r"
    using assess_keeps [of r x] assess_status [of x r] decide_keeps [OF assms(4)] assms(3) by (auto simp: keeps_core_def)
  then have q: "rm_id ?q = i" "so_roleId (rm_source ?q) = None" "rm_status ?q = rm_status p" "rm_decision ?q = rm_decision p"
    using assms(2,8) by (auto simp: same_core_def set_factDisposition_def split: option.split)
  have "submitOutcome env i x b = (Inl (Err ''Linking a plan to a message requires roleId and planId.''), put_requirement ?q b)"
    using assms core q(2) by (simp add: submitOutcome_def with_requirement_def conclude_outcome_def record_outcome_def Let_def linkPlan_def)
  moreover have "map_of (bd_requirements (put_requirement ?q b)) i = Some ?q" "bd_disk (put_requirement ?q b) = bd_disk b"
    using q(1) by (simp_all add: put_requirement_def update_conv')
  ultimately show ?thesis using q(3,4) by (simp add:)
qed

definition linking_outcome :: outcome where
  "linking_outcome = sample_outcome\<lparr>oi_planId := JStr ''p1''\<rparr>"

lemma rejected_link_keeps_the_decision_witness:
  "\<exists>e q. fst (submitOutcome sample_board_env ''q1'' linking_outcome sample_board) = Inl e
     \<and> map_of (bd_requirements (snd (submitOutcome sample_board_env ''q1'' linking_outcome sample_board))) ''q1'' = Some q
     \<and> rm_status q = NotRequired \<and> map_of (fst (bd_disk sample_board)) ''q1'' \<noteq> Some q"
proof -
  let ?r = "snd (hd (bd_requirements sample_board))"
  let ?a = "assess linking_outcome ?r"
  let ?d = "projr (fst ?a)" and ?p = "projr (decide sample_board_env (snd ?a) linking_outcome)"
  have r: "map_of (bd_requirements sample_board) ''q1'' = Some ?r" "rm_id ?r = ''q1''" by code_simp+
  have a: "?a = (Inr ?d, snd ?a)" "decide sample_board_env (snd ?a) linking_outcome = Inr ?p" by code_simp+
  have st: "rm_status ?r = PendingDispatch" "rm_status ?p = NotRequired" by code_simp+
  have disk: "map_option rm_status (map_of (fst (bd_disk sample_board)) ''q1'') = Some PendingDispatch" by code_simp
  have x: "js_truthy (oi_planId linking_outcome)" "boardText 200 (oi_roleId linking_outcome) = None" "so_roleId (rm_source ?r) = None"
    by code_simp+
  have open_status: "rm_status ?r \<notin> {Sent, FactAssessmentPending, FactRecordPending}" by (simp add: st(1))
  obtain e q where q: "fst (submitOutcome sample_board_env ''q1'' linking_outcome sample_board) = Inl e"
    "map_of (bd_requirements (snd (submitOutcome sample_board_env ''q1'' linking_outcome sample_board))) ''q1'' = Some q" "rm_status q = rm_status ?p"
    using rejected_link_keeps_the_decision [OF r a open_status x] by blast
  then show ?thesis using disk st(2) by auto
qed

section \<open>The two views of the board\<close>

text \<open>The summary of the board, which projects every requirement before it counts, and the full
  board report the same counts over the same requirements in the same order, with the same
  overdue times.\<close>

theorem summary_agrees_with_board:
  "fst (boardSummary env routeId limit runtime b) = fst (board_view env routeId limit runtime b)
   \<and> map su_id (snd (boardSummary env routeId limit runtime b)) = map (\<lambda>x. rm_id (bi_requirement x)) (snd (board_view env routeId limit runtime b))
   \<and> map su_overdueMs (snd (boardSummary env routeId limit runtime b)) = map bi_overdueMs (snd (board_view env routeId limit runtime b))"
  by (simp add: boardSummary_def board_view_def Let_def how_many_def filter_map comp_def summary_item_of_def board_item_of_def)

end
