(* ===== verification/StoreTransport.thy ===== *)
theory StoreTransport
  imports Prelude "HOL-Library.Word" "HOL-Library.Sublist"
begin

text \<open>
  The transport between the request store and the process that owns its file,
  \<open>AgentRequestPersistenceTransport\<close> of \<open>src/src/agentRequests/persistenceTransport.ts\<close>: a value is
  serialised, cut into frames of at most 30,720 bytes, and a frame is posted only when the one before
  it has been acknowledged; the receiver collects the chunks, checks their sequence and hands the value over
  with the last one.

  The two directions share nothing but the stop, so the theory follows one of them: the sending half of
  one process and the receiving half of the other. The port (Node's IPC channel) keeps the order of
  messages. Parameters are the structured serialisation of \<open>node:v8\<close> and the size it gives a frame. An
  asynchronous function is cut at each of its \<open>await\<close>s; a continuation that runs as a microtask belongs to the step
  that resolves its promise.
\<close>

section \<open>Frames\<close>

type_synonym byte = "8 word"

record frame =
  fr_id :: string
  fr_sequence :: nat
  fr_bytes :: "byte list"
  fr_end :: bool

definition chunk_size :: nat where "chunk_size = 30720"

definition wire_limit :: nat where "wire_limit = 32768"

definition next_frame :: "string \<Rightarrow> nat \<Rightarrow> byte list \<Rightarrow> frame" where
  "next_frame i n rest = \<lparr>fr_id = i, fr_sequence = n, fr_bytes = take chunk_size rest, fr_end = (length rest \<le> chunk_size)\<rparr>"

text \<open>\<open>serialize(frame).byteLength + 4 > 32_768\<close>\<close>

definition oversize :: "(frame \<Rightarrow> nat) \<Rightarrow> frame \<Rightarrow> bool" where
  "oversize frame_bytes f \<longleftrightarrow> frame_bytes f + 4 > wire_limit"

datatype transport_error = Stopped | BoundExceeded | SequenceMismatch

section \<open>The two halves\<close>

text \<open>
  The sender has values whose \<open>send\<close> waits for the one before, and at most one whose frame waits for its
  acknowledgement (its remaining bytes follow that frame). The receiver has the chunks collected for each
  identifier, and the frames whose \<open>receive\<close> is suspended at \<open>yieldImmediate\<close>.
\<close>

record 'v sender =
  tx_waiting :: "(string \<times> 'v) list"
  tx_current :: "(string \<times> 'v \<times> nat \<times> byte list) option"
  tx_stopped :: bool

record 'v receiver =
  rx_incoming :: "(string \<times> (nat \<times> byte list)) list"
  rx_yielded :: "(frame \<times> 'v option) list"
  rx_stopped :: bool

text \<open>
  The loop of \<open>sendValue\<close> from an offset on: it ends, throws, or posts a frame and waits.
\<close>

datatype 'v progress = SendResolved | SendRejected transport_error | FramePosted frame

definition send_from :: "(frame \<Rightarrow> nat) \<Rightarrow> string \<Rightarrow> 'v \<Rightarrow> nat \<Rightarrow> byte list \<Rightarrow> 'v sender \<Rightarrow> 'v sender \<times> 'v progress" where
  "send_from frame_bytes i v n rest s =
    (if rest = [] then (s\<lparr>tx_current := None\<rparr>, SendResolved)
     else if tx_stopped s then (s\<lparr>tx_current := None\<rparr>, SendRejected Stopped)
     else let f = next_frame i n rest in
       if oversize frame_bytes f then (s\<lparr>tx_current := None\<rparr>, SendRejected BoundExceeded)
       else (s\<lparr>tx_current := Some (i, v, n, drop chunk_size rest)\<rparr>, FramePosted f))"

definition sendValue :: "(frame \<Rightarrow> nat) \<Rightarrow> ('v \<Rightarrow> byte list) \<Rightarrow> string \<Rightarrow> 'v \<Rightarrow> 'v sender \<Rightarrow> 'v sender \<times> 'v progress" where
  "sendValue frame_bytes serialize i v s = send_from frame_bytes i v 0 (serialize v) s"

text \<open>An acknowledgement resolves the waiter of its key, if there is one.\<close>

definition acknowledge :: "(frame \<Rightarrow> nat) \<Rightarrow> string \<times> nat \<Rightarrow> 'v sender \<Rightarrow> 'v sender \<times> (string \<times> 'v \<times> 'v progress) option" where
  "acknowledge frame_bytes key s = (case tx_current s of
     Some (i, v, n, rest) \<Rightarrow>
       if \<not> tx_stopped s \<and> key = (i, n)
       then (case send_from frame_bytes i v (n + 1) rest s of (s', p) \<Rightarrow> (s', Some (i, v, p)))
       else (s, None)
   | None \<Rightarrow> (s, None))"

text \<open>\<open>receive\<close> up to its \<open>await\<close>, and after it.\<close>

definition receive_frame :: "(frame \<Rightarrow> nat) \<Rightarrow> (byte list \<Rightarrow> 'v) \<Rightarrow> frame \<Rightarrow> 'v receiver \<Rightarrow> (transport_error + unit) \<times> 'v receiver" where
  "receive_frame frame_bytes deserialize f r =
    (if rx_stopped r then (Inr (), r)
     else if oversize frame_bytes f then (Inl BoundExceeded, r)
     else
       let (expected, chunks) = (case map_of (rx_incoming r) (fr_id f) of Some x \<Rightarrow> x | None \<Rightarrow> (0, [])) in
       if fr_sequence f \<noteq> expected
       then (Inl SequenceMismatch, r\<lparr>rx_incoming := AList.update (fr_id f) (expected + 1, chunks) (rx_incoming r)\<rparr>)
       else
         let chunks' = chunks @ fr_bytes f in
         (Inr (), r\<lparr>rx_incoming := (if fr_end f then AList.delete (fr_id f) (rx_incoming r)
                      else AList.update (fr_id f) (expected + 1, chunks') (rx_incoming r)),
            rx_yielded := rx_yielded r @ [(f, if fr_end f then Some (deserialize chunks') else None)]\<rparr>))"

definition resume_receive :: "'v receiver \<Rightarrow> ('v receiver \<times> (string \<times> nat) list \<times> (string \<times> 'v) list) option" where
  "resume_receive r = (case rx_yielded r of
     [] \<Rightarrow> None
   | (f, v) # ys \<Rightarrow>
       let r' = r\<lparr>rx_yielded := ys\<rparr> in
       Some (if rx_stopped r then (r', [], [])
         else (r', [(fr_id f, fr_sequence f)], case v of Some x \<Rightarrow> [(fr_id f, x)] | None \<Rightarrow> [])))"

definition stop_sender :: "'v sender \<Rightarrow> 'v sender" where
  "stop_sender s = (if tx_stopped s then s else s\<lparr>tx_stopped := True, tx_current := None\<rparr>)"

definition stop_receiver :: "'v receiver \<Rightarrow> 'v receiver" where
  "stop_receiver r = (if rx_stopped r then r else r\<lparr>rx_stopped := True, rx_incoming := []\<rparr>)"

section \<open>One direction\<close>

text \<open>
  \<open>tw_sent\<close> are the values given to \<open>send\<close>, \<open>tw_resolved\<close> and \<open>tw_rejected\<close> those whose promise is settled,
  \<open>tw_delivered\<close> those given to the listener, each in order; \<open>tw_errors\<close> what the receiver reported.
\<close>

record 'v wire =
  tw_sender :: "'v sender"
  tw_receiver :: "'v receiver"
  tw_frames :: "frame list"
  tw_acks :: "(string \<times> nat) list"
  tw_sent :: "(string \<times> 'v) list"
  tw_resolved :: "(string \<times> 'v) list"
  tw_rejected :: "(string \<times> 'v) list"
  tw_delivered :: "(string \<times> 'v) list"
  tw_errors :: "transport_error list"

definition new_wire :: "'v wire" where
  "new_wire = \<lparr>tw_sender = \<lparr>tx_waiting = [], tx_current = None, tx_stopped = False\<rparr>,
     tw_receiver = \<lparr>rx_incoming = [], rx_yielded = [], rx_stopped = False\<rparr>,
     tw_frames = [], tw_acks = [], tw_sent = [], tw_resolved = [], tw_rejected = [], tw_delivered = [], tw_errors = []\<rparr>"

definition progressed :: "string \<Rightarrow> 'v \<Rightarrow> 'v sender \<times> 'v progress \<Rightarrow> 'v wire \<Rightarrow> 'v wire" where
  "progressed i v sp w = (case sp of (s, p) \<Rightarrow>
     (case p of
        SendResolved \<Rightarrow> w\<lparr>tw_sender := s, tw_resolved := tw_resolved w @ [(i, v)]\<rparr>
      | SendRejected e \<Rightarrow> w\<lparr>tw_sender := s, tw_rejected := tw_rejected w @ [(i, v)]\<rparr>
      | FramePosted f \<Rightarrow> w\<lparr>tw_sender := s, tw_frames := tw_frames w @ [f]\<rparr>))"

datatype 'v wire_event =
    WireSend string 'v
  | WireStart
  | WireFrame
  | WireYield
  | WireAck
  | WireStopSender
  | WireStopReceiver

fun wire_step :: "(frame \<Rightarrow> nat) \<Rightarrow> ('v \<Rightarrow> byte list) \<Rightarrow> (byte list \<Rightarrow> 'v) \<Rightarrow> 'v wire_event \<Rightarrow> 'v wire \<Rightarrow> 'v wire" where
  "wire_step fb ser de (WireSend i v) w =
     w\<lparr>tw_sender := (tw_sender w)\<lparr>tx_waiting := tx_waiting (tw_sender w) @ [(i, v)]\<rparr>, tw_sent := tw_sent w @ [(i, v)]\<rparr>"
| "wire_step fb ser de WireStart w = (case (tx_current (tw_sender w), tx_waiting (tw_sender w)) of
     (None, (i, v) # xs) \<Rightarrow> progressed i v (sendValue fb ser i v ((tw_sender w)\<lparr>tx_waiting := xs\<rparr>)) w
   | _ \<Rightarrow> w)"
| "wire_step fb ser de WireFrame w = (case tw_frames w of
     [] \<Rightarrow> w
   | f # fs \<Rightarrow> (case receive_frame fb de f (tw_receiver w) of
       (Inl e, r) \<Rightarrow> w\<lparr>tw_receiver := r, tw_frames := fs, tw_errors := tw_errors w @ [e]\<rparr>
     | (Inr _, r) \<Rightarrow> w\<lparr>tw_receiver := r, tw_frames := fs\<rparr>))"
| "wire_step fb ser de WireYield w = (case resume_receive (tw_receiver w) of
     None \<Rightarrow> w
   | Some (r, acks, vs) \<Rightarrow> w\<lparr>tw_receiver := r, tw_acks := tw_acks w @ acks, tw_delivered := tw_delivered w @ vs\<rparr>)"
| "wire_step fb ser de WireAck w = (case tw_acks w of
     [] \<Rightarrow> w
   | key # ks \<Rightarrow> (case acknowledge fb key (tw_sender w) of
       (s, None) \<Rightarrow> w\<lparr>tw_sender := s, tw_acks := ks\<rparr>
     | (s, Some (i, v, p)) \<Rightarrow> progressed i v (s, p) (w\<lparr>tw_acks := ks\<rparr>)))"
| "wire_step fb ser de WireStopSender w = w\<lparr>tw_sender := stop_sender (tw_sender w),
     tw_rejected := tw_rejected w @ (case tx_current (tw_sender w) of
        Some (i, v, _) \<Rightarrow> if tx_stopped (tw_sender w) then [] else [(i, v)] | None \<Rightarrow> [])\<rparr>"
| "wire_step fb ser de WireStopReceiver w = w\<lparr>tw_receiver := stop_receiver (tw_receiver w)\<rparr>"

definition wire_run :: "(frame \<Rightarrow> nat) \<Rightarrow> ('v \<Rightarrow> byte list) \<Rightarrow> (byte list \<Rightarrow> 'v) \<Rightarrow> 'v wire_event list \<Rightarrow> 'v wire \<Rightarrow> 'v wire" where
  "wire_run fb ser de es w = fold (wire_step fb ser de) es w"

section \<open>Values that fit\<close>

text \<open>
  A value fits when none of its frames exceeds the bound; the size of a frame depends on its identifier and its number
  as well as on its bytes, so it is a parameter.
\<close>

function fits_from :: "(frame \<Rightarrow> nat) \<Rightarrow> string \<Rightarrow> nat \<Rightarrow> byte list \<Rightarrow> bool" where
  "fits_from frame_bytes i n rest \<longleftrightarrow> (if rest = [] then True
     else \<not> oversize frame_bytes (next_frame i n rest) \<and> fits_from frame_bytes i (n + 1) (drop chunk_size rest))"
  by pat_completeness auto
termination by (relation "measure (\<lambda>(_, _, _, rest). length rest)") (auto simp: chunk_size_def)

declare fits_from.simps [simp del]

lemma fits_from_simps [simp]:
  "fits_from fb i n []"
  "rest \<noteq> [] \<Longrightarrow> fits_from fb i n rest \<longleftrightarrow> \<not> oversize fb (next_frame i n rest) \<and> fits_from fb i (Suc n) (drop chunk_size rest)"
  by (simp_all add: fits_from.simps [of fb i n])

definition fits :: "(frame \<Rightarrow> nat) \<Rightarrow> ('v \<Rightarrow> byte list) \<Rightarrow> string \<times> 'v \<Rightarrow> bool" where
  "fits frame_bytes serialize x = fits_from frame_bytes (fst x) 0 (serialize (snd x))"

text \<open>The serialisation gives every value back, and starts with a header.\<close>

definition codec :: "('v \<Rightarrow> byte list) \<Rightarrow> (byte list \<Rightarrow> 'v) \<Rightarrow> bool" where
  "codec serialize deserialize \<longleftrightarrow> (\<forall>v. deserialize (serialize v) = v \<and> serialize v \<noteq> [])"

lemma codecD: "codec ser de \<Longrightarrow> de (ser v) = v" "codec ser de \<Longrightarrow> ser v \<noteq> []"
  by (simp_all add: codec_def)

section \<open>What is on the way\<close>

text \<open>
  A posted frame is in the port, or has been taken and waits for its turn, or its acknowledgement is on the way;
  a stopped receiver drops it, and a stopped sender ignores the acknowledgement. The last argument tells whether
  the value has been handed over. \<open>D\<close> are the identifiers of the values that are done: the receiver may
  keep chunks of those that turned out not to fit.
\<close>

definition collected :: "'v receiver \<Rightarrow> string set \<Rightarrow> string \<Rightarrow> (nat \<times> byte list) option \<Rightarrow> bool" where
  "collected r D i x \<longleftrightarrow> \<not> rx_stopped r \<longrightarrow> map_of (rx_incoming r) i = x \<and> (\<forall>k. k \<noteq> i \<longrightarrow> map_of (rx_incoming r) k \<noteq> None \<longrightarrow> k \<in> D)"

definition begun :: "nat \<Rightarrow> byte list \<Rightarrow> (nat \<times> byte list) option" where
  "begun n pre = (if n = 0 then None else Some (n, pre))"

definition continued :: "nat \<Rightarrow> byte list \<Rightarrow> byte list \<Rightarrow> (nat \<times> byte list) option" where
  "continued n pre rest = (if rest = [] then None else Some (n + 1, pre))"

inductive transit :: "(frame \<Rightarrow> nat) \<Rightarrow> ('v \<Rightarrow> byte list) \<Rightarrow> 'v wire \<Rightarrow> string set \<Rightarrow> string \<Rightarrow> 'v \<Rightarrow> nat \<Rightarrow> byte list \<Rightarrow> bool \<Rightarrow> bool"
  for fb ser w D i v n rest where
  posted: "ser v = pre @ bytes @ rest \<Longrightarrow> (n = 0 \<longrightarrow> pre = [])
    \<Longrightarrow> f = \<lparr>fr_id = i, fr_sequence = n, fr_bytes = bytes, fr_end = (rest = [])\<rparr> \<Longrightarrow> \<not> oversize fb f
    \<Longrightarrow> tw_frames w = [f] \<Longrightarrow> rx_yielded (tw_receiver w) = [] \<Longrightarrow> tw_acks w = []
    \<Longrightarrow> collected (tw_receiver w) D i (begun n pre) \<Longrightarrow> transit fb ser w D i v n rest False"
| yielded: "ser v = pre @ rest \<Longrightarrow> tw_frames w = [] \<Longrightarrow> tw_acks w = [] \<Longrightarrow> fr_id f = i \<Longrightarrow> fr_sequence f = n
    \<Longrightarrow> rx_yielded (tw_receiver w) = [(f, if rest = [] then Some v else None)]
    \<Longrightarrow> collected (tw_receiver w) D i (continued n pre rest) \<Longrightarrow> transit fb ser w D i v n rest False"
| acknowledged: "ser v = pre @ rest \<Longrightarrow> tw_frames w = [] \<Longrightarrow> rx_yielded (tw_receiver w) = [] \<Longrightarrow> tw_acks w = [(i, n)]
    \<Longrightarrow> collected (tw_receiver w) D i (continued n pre rest) \<Longrightarrow> transit fb ser w D i v n rest (rest = [])"
| dropped: "rx_stopped (tw_receiver w) \<Longrightarrow> tw_frames w = [] \<Longrightarrow> rx_yielded (tw_receiver w) = [] \<Longrightarrow> tw_acks w = []
    \<Longrightarrow> transit fb ser w D i v n rest False"
| abandoned: "tx_stopped (tw_sender w) \<Longrightarrow> tw_frames w = [] \<Longrightarrow> rx_yielded (tw_receiver w) = [] \<Longrightarrow> tw_acks w = []
    \<Longrightarrow> (arrived \<longrightarrow> rest = []) \<Longrightarrow> transit fb ser w D i v n rest arrived"

definition nothing_on_the_way :: "string set \<Rightarrow> 'v wire \<Rightarrow> bool" where
  "nothing_on_the_way D w \<longleftrightarrow> tw_frames w = [] \<and> rx_yielded (tw_receiver w) = [] \<and> tw_acks w = []
     \<and> (\<not> rx_stopped (tw_receiver w) \<longrightarrow> (\<forall>k. map_of (rx_incoming (tw_receiver w)) k \<noteq> None \<longrightarrow> k \<in> D))"

text \<open>The values \<open>xs\<close> are done: those that fit were handed over and resolved, the others rejected.\<close>

definition wire_idle :: "(frame \<Rightarrow> nat) \<Rightarrow> ('v \<Rightarrow> byte list) \<Rightarrow> 'v wire \<Rightarrow> (string \<times> 'v) list \<Rightarrow> bool" where
  "wire_idle fb ser w xs \<longleftrightarrow> nothing_on_the_way (fst ` set xs) w \<and> tw_errors w = [] \<and> tx_current (tw_sender w) = None
     \<and> tw_delivered w = tw_resolved w \<and> tw_resolved w = filter (fits fb ser) xs \<and> prefix xs (tw_sent w)
     \<and> (\<not> tx_stopped (tw_sender w) \<longrightarrow> tw_rejected w = filter (Not \<circ> fits fb ser) xs \<and> tw_sent w = xs @ tx_waiting (tw_sender w))"

definition wire_busy :: "(frame \<Rightarrow> nat) \<Rightarrow> ('v \<Rightarrow> byte list) \<Rightarrow> 'v wire \<Rightarrow> (string \<times> 'v) list \<Rightarrow> string \<Rightarrow> 'v \<Rightarrow> nat \<Rightarrow> byte list \<Rightarrow> bool \<Rightarrow> bool" where
  "wire_busy fb ser w xs i v n rest a \<longleftrightarrow> transit fb ser w (fst ` set xs) i v n rest a \<and> tw_errors w = []
     \<and> fits fb ser (i, v) = fits_from fb i (Suc n) rest
     \<and> tw_delivered w = tw_resolved w @ (if a then [(i, v)] else []) \<and> tw_resolved w = filter (fits fb ser) xs
     \<and> prefix (xs @ [(i, v)]) (tw_sent w)
     \<and> (if tx_stopped (tw_sender w) then tx_current (tw_sender w) = None
        else tx_current (tw_sender w) = Some (i, v, n, rest) \<and> tw_rejected w = filter (Not \<circ> fits fb ser) xs
          \<and> tw_sent w = xs @ (i, v) # tx_waiting (tw_sender w))"

definition wire_ok :: "(frame \<Rightarrow> nat) \<Rightarrow> ('v \<Rightarrow> byte list) \<Rightarrow> 'v wire \<Rightarrow> bool" where
  "wire_ok fb ser w \<longleftrightarrow> (\<exists>xs. wire_idle fb ser w xs) \<or> (\<exists>xs i v n rest a. wire_busy fb ser w xs i v n rest a)"

lemma wire_okI: "wire_idle fb ser w xs \<Longrightarrow> wire_ok fb ser w" "wire_busy fb ser w xs i v n rest a \<Longrightarrow> wire_ok fb ser w"
  by (auto simp: wire_ok_def)

lemma wire_ok_cases:
  assumes "wire_ok fb ser w"
  obtains (idle) xs where "wire_idle fb ser w xs"
  | (busy) xs i v n rest a where "wire_busy fb ser w xs i v n rest a" "transit fb ser w (fst ` set xs) i v n rest a"
      "tw_delivered w = tw_resolved w @ (if a then [(i, v)] else [])"
  using assms unfolding wire_ok_def wire_busy_def by blast

lemma collected_same:
  "collected r D i x \<Longrightarrow> (rx_stopped r \<longrightarrow> rx_stopped r') \<Longrightarrow> (\<not> rx_stopped r' \<longrightarrow> rx_incoming r' = rx_incoming r) \<Longrightarrow> collected r' D i x"
  by (auto simp: collected_def)

lemma transit_same:
  assumes "transit fb ser w D i v n rest a" "tw_frames w' = tw_frames w" "tw_acks w' = tw_acks w"
    "rx_yielded (tw_receiver w') = rx_yielded (tw_receiver w)" "rx_stopped (tw_receiver w) \<longrightarrow> rx_stopped (tw_receiver w')"
    "tx_stopped (tw_sender w) \<longrightarrow> tx_stopped (tw_sender w')"
    "\<not> rx_stopped (tw_receiver w') \<longrightarrow> rx_incoming (tw_receiver w') = rx_incoming (tw_receiver w)"
  shows "transit fb ser w' D i v n rest a"
  using assms(1)
proof (cases rule: transit.cases)
  case (posted pre bytes f)
  with assms(2-) collected_same [OF posted(9), of "tw_receiver w'"] show ?thesis
    unfolding posted(1) by (intro transit.posted [where pre = pre and bytes = bytes]) auto
next
  case (yielded pre f)
  with assms(2-) collected_same [OF yielded(8), of "tw_receiver w'"] show ?thesis
    unfolding yielded(1) by (intro transit.yielded [where pre = pre and f = f]) auto
next
  case (acknowledged pre)
  with assms(2-) collected_same [OF acknowledged(6), of "tw_receiver w'"] show ?thesis
    unfolding acknowledged(1) by (intro transit.acknowledged [where pre = pre]) auto
next
  case dropped
  with assms(2-) show ?thesis unfolding dropped(1) by (intro transit.dropped) simp_all
next
  case abandoned
  with assms(2-) show ?thesis by (intro transit.abandoned) simp_all
qed

lemma wire_ok_new: "wire_ok fb ser new_wire"
  by (rule wire_okI(1) [of _ _ _ "[]"]) (simp add: wire_idle_def nothing_on_the_way_def new_wire_def)

lemma next_frame_eq: "next_frame i n rest = \<lparr>fr_id = i, fr_sequence = n, fr_bytes = take chunk_size rest, fr_end = (drop chunk_size rest = [])\<rparr>"
  by (simp add: next_frame_def)

lemma send_from_fits:
  assumes "rest \<noteq> []" "\<not> tx_stopped s" "\<not> oversize fb (next_frame i n rest)"
  shows "send_from fb i v n rest s = (s\<lparr>tx_current := Some (i, v, n, drop chunk_size rest)\<rparr>, FramePosted (next_frame i n rest))"
  using assms by (simp add: send_from_def Let_def)

lemma send_from_oversize:
  assumes "rest \<noteq> []" "\<not> tx_stopped s" "oversize fb (next_frame i n rest)"
  shows "send_from fb i v n rest s = (s\<lparr>tx_current := None\<rparr>, SendRejected BoundExceeded)"
  using assms by (simp add: send_from_def Let_def)

text \<open>A frame that is posted at the start of a value, or after an acknowledgement, is on its way.\<close>

lemma posted_transit:
  assumes "ser v = pre @ rest" "n = 0 \<longrightarrow> pre = []" "tw_frames w = [next_frame i n rest]" "\<not> oversize fb (next_frame i n rest)"
    "rx_yielded (tw_receiver w) = []" "tw_acks w = []" "collected (tw_receiver w) D i (begun n pre)"
  shows "transit fb ser w D i v n (drop chunk_size rest) False"
  using assms by (intro transit.posted [where pre = pre and bytes = "take chunk_size rest"]) (simp_all add: next_frame_eq)

text \<open>A value that does not fit joins those that are done.\<close>

lemma idle_rejects:
  assumes "nothing_on_the_way (insert i (fst ` set xs)) w'" "tw_errors w' = []" "tx_current (tw_sender w') = None"
    "tw_delivered w' = tw_resolved w'" "tw_resolved w' = filter (fits fb ser) xs" "\<not> fits fb ser (i, v)"
    "tw_rejected w' = filter (Not \<circ> fits fb ser) xs @ [(i, v)]" "tw_sent w' = xs @ (i, v) # tx_waiting (tw_sender w')"
  shows "wire_ok fb ser w'"
  by (rule wire_okI(1) [of _ _ _ "xs @ [(i, v)]"]) (use assms in \<open>simp add: wire_idle_def\<close>)

section \<open>Every step keeps it\<close>

lemma wire_start_ok:
  assumes c: "codec ser de" and ok: "wire_ok fb ser w" and dist: "distinct (map fst (tw_sent w))"
  shows "wire_ok fb ser (wire_step fb ser de WireStart w)"
proof (cases "tx_current (tw_sender w) = None \<and> tx_waiting (tw_sender w) \<noteq> []")
  case True
  then obtain i v ws where wait: "tx_waiting (tw_sender w) = (i, v) # ws" "tx_current (tw_sender w) = None"
    by (cases "tx_waiting (tw_sender w)") auto
  let ?s = "(tw_sender w)\<lparr>tx_waiting := ws\<rparr>"
  note ne = codecD(2) [OF c, of v]
  show ?thesis
  proof (cases "tx_stopped (tw_sender w)")
    case True
    then have step: "wire_step fb ser de WireStart w = w\<lparr>tw_sender := ?s, tw_rejected := tw_rejected w @ [(i, v)]\<rparr>"
      using wait ne by (simp add: sendValue_def send_from_def progressed_def)
    from ok show ?thesis
    proof (cases rule: wire_ok_cases)
      case (idle xs)
      with True have "wire_idle fb ser (wire_step fb ser de WireStart w) xs"
        unfolding step wire_idle_def nothing_on_the_way_def by simp
      then show ?thesis by (rule wire_okI)
    next
      case (busy xs j u n rest a)
      from busy(2) have "transit fb ser (wire_step fb ser de WireStart w) (fst ` set xs) j u n rest a"
        unfolding step by (rule transit_same) simp_all
      with busy True wait have "wire_busy fb ser (wire_step fb ser de WireStart w) xs j u n rest a"
        unfolding step wire_busy_def by auto
      then show ?thesis by (rule wire_okI)
    qed
  next
    case go: False
    from ok go wait obtain xs where idle: "wire_idle fb ser w xs" by (auto simp: wire_ok_def wire_busy_def)
    then have fresh: "i \<notin> fst ` set xs" using dist go wait by (auto simp: wire_idle_def)
    show ?thesis
    proof (cases "oversize fb (next_frame i 0 (ser v))")
      case True
      then have step: "wire_step fb ser de WireStart w = w\<lparr>tw_sender := ?s\<lparr>tx_current := None\<rparr>, tw_rejected := tw_rejected w @ [(i, v)]\<rparr>"
        using wait go ne send_from_oversize [of "ser v" ?s] by (simp add: sendValue_def progressed_def)
      have "\<not> fits fb ser (i, v)" using True ne by (simp add: fits_def)
      then show ?thesis
        by (rule idle_rejects [of i xs, rotated 5], unfold step) (use idle go wait in \<open>auto simp: wire_idle_def nothing_on_the_way_def\<close>)
    next
      case fit: False
      then have step: "wire_step fb ser de WireStart w = w\<lparr>tw_sender := ?s\<lparr>tx_current := Some (i, v, 0, drop chunk_size (ser v))\<rparr>,
          tw_frames := tw_frames w @ [next_frame i 0 (ser v)]\<rparr>"
        using wait go ne send_from_fits [of "ser v" ?s] by (simp add: sendValue_def progressed_def)
      have "collected (tw_receiver w) (fst ` set xs) i (begun 0 [])"
        using idle fresh unfolding collected_def begun_def wire_idle_def nothing_on_the_way_def by (simp del: not_None_eq) blast
      then have "transit fb ser (wire_step fb ser de WireStart w) (fst ` set xs) i v 0 (drop chunk_size (ser v)) False"
        using idle fit unfolding step wire_idle_def nothing_on_the_way_def
        by (intro posted_transit [where pre = "[]"]) simp_all
      with idle go wait fit ne have "wire_busy fb ser (wire_step fb ser de WireStart w) xs i v 0 (drop chunk_size (ser v)) False"
        unfolding step wire_busy_def wire_idle_def by (simp add: fits_def)
      then show ?thesis by (rule wire_okI)
    qed
  qed
next
  case False
  then have "wire_step fb ser de WireStart w = w" by (auto split: option.splits list.splits)
  with ok show ?thesis by simp
qed

lemma wire_send_ok:
  assumes ok: "wire_ok fb ser w"
  shows "wire_ok fb ser (wire_step fb ser de (WireSend i v) w)"
  using ok
proof (cases rule: wire_ok_cases)
  case (idle xs)
  then have "wire_idle fb ser (wire_step fb ser de (WireSend i v) w) xs"
    by (auto simp: wire_idle_def nothing_on_the_way_def)
  then show ?thesis by (rule wire_okI)
next
  case (busy xs j u n rest a)
  from busy(2) have "transit fb ser (wire_step fb ser de (WireSend i v) w) (fst ` set xs) j u n rest a"
    by (rule transit_same) simp_all
  with busy(1,3) have "wire_busy fb ser (wire_step fb ser de (WireSend i v) w) xs j u n rest a"
    unfolding wire_busy_def by (auto simp: prefix_def)
  then show ?thesis by (rule wire_okI)
qed

lemma wire_stop_receiver_ok:
  assumes ok: "wire_ok fb ser w"
  shows "wire_ok fb ser (wire_step fb ser de WireStopReceiver w)"
  using ok
proof (cases rule: wire_ok_cases)
  case (idle xs)
  then have "wire_idle fb ser (wire_step fb ser de WireStopReceiver w) xs"
    by (auto simp: wire_idle_def nothing_on_the_way_def stop_receiver_def)
  then show ?thesis by (rule wire_okI)
next
  case (busy xs j u n rest a)
  from busy(2) have "transit fb ser (wire_step fb ser de WireStopReceiver w) (fst ` set xs) j u n rest a"
    by (rule transit_same) (simp_all add: stop_receiver_def)
  with busy(1,3) have "wire_busy fb ser (wire_step fb ser de WireStopReceiver w) xs j u n rest a"
    unfolding wire_busy_def by auto
  then show ?thesis by (rule wire_okI)
qed

lemma wire_stop_sender_ok:
  assumes ok: "wire_ok fb ser w"
  shows "wire_ok fb ser (wire_step fb ser de WireStopSender w)"
  using ok
proof (cases rule: wire_ok_cases)
  case (idle xs)
  then have "wire_idle fb ser (wire_step fb ser de WireStopSender w) xs"
    by (auto simp: wire_idle_def nothing_on_the_way_def stop_sender_def)
  then show ?thesis by (rule wire_okI)
next
  case (busy xs j u n rest a)
  from busy(2) have "transit fb ser (wire_step fb ser de WireStopSender w) (fst ` set xs) j u n rest a"
    by (rule transit_same) (simp_all add: stop_sender_def)
  with busy(1,3) have "wire_busy fb ser (wire_step fb ser de WireStopSender w) xs j u n rest a"
    unfolding wire_busy_def by (auto simp: stop_sender_def)
  then show ?thesis by (rule wire_okI)
qed

text \<open>A step that changes only the port and the receiver, and keeps a value on its way.\<close>

lemma still_busy:
  assumes "wire_busy fb ser w xs i v n rest a" "transit fb ser w (fst ` set xs) i v n rest a" "tw_delivered w = tw_resolved w @ (if a then [(i, v)] else [])"
    and "transit fb ser w' (fst ` set xs) i v n rest b" "tw_delivered w' = tw_resolved w @ (if b then [(i, v)] else [])"
    and "tw_sender w' = tw_sender w" "tw_errors w' = tw_errors w" "tw_resolved w' = tw_resolved w"
      "tw_rejected w' = tw_rejected w" "tw_sent w' = tw_sent w"
  shows "wire_ok fb ser w'"
proof -
  have "wire_busy fb ser w' xs i v n rest b" using assms unfolding wire_busy_def by auto
  then show ?thesis by (rule wire_okI)
qed

text \<open>The receiver takes a frame whose predecessors it has collected.\<close>

lemma receive_collected:
  assumes "collected r D i (begun n pre)" "n = 0 \<longrightarrow> pre = []" "\<not> rx_stopped r" "\<not> oversize fb f" "rx_yielded r = []"
    and "fr_id f = i" "fr_sequence f = n" "fr_end f \<longleftrightarrow> rest = []" "rest = [] \<longrightarrow> de (pre @ fr_bytes f) = v"
  shows "\<exists>inc. receive_frame fb de f r = (Inr (), r\<lparr>rx_incoming := inc, rx_yielded := [(f, if rest = [] then Some v else None)]\<rparr>)
    \<and> collected (r\<lparr>rx_incoming := inc, rx_yielded := ys\<rparr>) D i (continued n (pre @ fr_bytes f) rest)"
proof -
  have "(case map_of (rx_incoming r) i of Some x \<Rightarrow> x | None \<Rightarrow> (0, [])) = (n, pre)"
    using assms(1-3) by (auto simp: collected_def begun_def split: if_splits)
  with assms show ?thesis
    by (cases "rest = []") (auto simp: receive_frame_def collected_def continued_def update_conv' delete_conv' split: if_splits)
qed

lemma wire_frame_ok:
  assumes c: "codec ser de" and ok: "wire_ok fb ser w"
  shows "wire_ok fb ser (wire_step fb ser de WireFrame w)"
  using ok
proof (cases rule: wire_ok_cases)
  case (idle xs)
  then have "wire_step fb ser de WireFrame w = w" by (simp add: wire_idle_def nothing_on_the_way_def)
  with ok show ?thesis by simp
next
  case (busy xs i v n rest a)
  show ?thesis
    using busy(2)
  proof (cases rule: transit.cases)
    case (posted pre bytes f)
    show ?thesis
    proof (cases "rx_stopped (tw_receiver w)")
      case True
      then have step: "wire_step fb ser de WireFrame w = w\<lparr>tw_frames := []\<rparr>"
        using posted by (simp add: receive_frame_def)
      show ?thesis
        by (rule still_busy [OF busy, where b = False], unfold step, rule transit.dropped) (use True posted busy(3) in simp_all)
    next
      case False
      have v: "rest = [] \<longrightarrow> de (pre @ fr_bytes f) = v" using posted(2,4) codecD(1) [OF c, of v] by auto
      have f: "fr_id f = i" "fr_sequence f = n" "fr_end f \<longleftrightarrow> rest = []" by (simp_all add: posted(4))
      obtain inc where inc: "receive_frame fb de f (tw_receiver w) = (Inr (), (tw_receiver w)\<lparr>rx_incoming := inc,
            rx_yielded := [(f, if rest = [] then Some v else None)]\<rparr>)"
          "collected ((tw_receiver w)\<lparr>rx_incoming := inc, rx_yielded := [(f, if rest = [] then Some v else None)]\<rparr>) (fst ` set xs) i
            (continued n (pre @ fr_bytes f) rest)"
        using receive_collected [where de = de and v = v and rest = rest and f = f, OF posted(9,3) False posted(5,7) f v] by blast
      then have step: "wire_step fb ser de WireFrame w = w\<lparr>tw_receiver := (tw_receiver w)\<lparr>rx_incoming := inc,
            rx_yielded := [(f, if rest = [] then Some v else None)]\<rparr>, tw_frames := []\<rparr>"
        using posted by simp
      show ?thesis
        by (rule still_busy [OF busy, where b = False], unfold step, rule transit.yielded [where pre = "pre @ fr_bytes f" and f = f])
          (use posted inc(2) busy(3) in simp_all)
    qed
  qed (use ok in simp_all)
qed

lemma wire_yield_ok:
  assumes ok: "wire_ok fb ser w"
  shows "wire_ok fb ser (wire_step fb ser de WireYield w)"
  using ok
proof (cases rule: wire_ok_cases)
  case (idle xs)
  then have "wire_step fb ser de WireYield w = w" by (simp add: wire_idle_def nothing_on_the_way_def resume_receive_def)
  with ok show ?thesis by simp
next
  case (busy xs i v n rest a)
  show ?thesis
    using busy(2)
  proof (cases rule: transit.cases)
    case (yielded pre f)
    show ?thesis
    proof (cases "rx_stopped (tw_receiver w)")
      case True
      then have step: "wire_step fb ser de WireYield w = w\<lparr>tw_receiver := (tw_receiver w)\<lparr>rx_yielded := []\<rparr>\<rparr>"
        using yielded by (simp add: resume_receive_def)
      show ?thesis
        by (rule still_busy [OF busy, where b = False], unfold step, rule transit.dropped) (use True yielded busy(3) in simp_all)
    next
      case False
      then have step: "wire_step fb ser de WireYield w = w\<lparr>tw_receiver := (tw_receiver w)\<lparr>rx_yielded := []\<rparr>,
          tw_acks := [(i, n)], tw_delivered := tw_resolved w @ (if rest = [] then [(i, v)] else [])\<rparr>"
        using yielded busy(3) by (simp add: resume_receive_def)
      have "collected ((tw_receiver w)\<lparr>rx_yielded := []\<rparr>) (fst ` set xs) i (continued n pre rest)"
        by (rule collected_same [OF yielded(8)]) simp_all
      then show ?thesis
        by (intro still_busy [OF busy, where b = "rest = []"], unfold step, intro transit.acknowledged [where pre = pre])
          (use yielded busy(3) in simp_all)
    qed
  qed (use ok in \<open>simp_all add: resume_receive_def\<close>)
qed

lemma wire_ack_ok:
  assumes ok: "wire_ok fb ser w"
  shows "wire_ok fb ser (wire_step fb ser de WireAck w)"
  using ok
proof (cases rule: wire_ok_cases)
  case (idle xs)
  then have "wire_step fb ser de WireAck w = w" by (simp add: wire_idle_def nothing_on_the_way_def)
  with ok show ?thesis by simp
next
  case (busy xs i v n rest a)
  show ?thesis
    using busy(2)
  proof (cases rule: transit.cases)
    case (acknowledged pre)
    show ?thesis
    proof (cases "tx_stopped (tw_sender w)")
      case True
      then have step: "wire_step fb ser de WireAck w = w\<lparr>tw_acks := []\<rparr>"
        using acknowledged busy(1) by (simp add: acknowledge_def wire_busy_def)
      show ?thesis
        by (rule still_busy [OF busy, where b = a], unfold step, rule transit.abandoned) (use True acknowledged busy(3) in simp_all)
    next
      case go: False
      then have cur: "tx_current (tw_sender w) = Some (i, v, n, rest)" using busy(1) by (simp add: wire_busy_def)
      show ?thesis
      proof (cases "rest = []")
        case True
        then have step: "wire_step fb ser de WireAck w = w\<lparr>tw_acks := [], tw_sender := (tw_sender w)\<lparr>tx_current := None\<rparr>,
            tw_resolved := tw_resolved w @ [(i, v)]\<rparr>"
          using acknowledged cur go by (simp add: acknowledge_def send_from_def progressed_def)
        have "wire_idle fb ser (wire_step fb ser de WireAck w) (xs @ [(i, v)])"
          using busy(1,3) acknowledged True go unfolding step wire_idle_def nothing_on_the_way_def wire_busy_def collected_def
          by (auto simp: continued_def)
        then show ?thesis by (rule wire_okI)
      next
        case more: False
        show ?thesis
        proof (cases "oversize fb (next_frame i (n + 1) rest)")
          case True
          then have step: "wire_step fb ser de WireAck w = w\<lparr>tw_acks := [], tw_sender := (tw_sender w)\<lparr>tx_current := None\<rparr>,
              tw_rejected := tw_rejected w @ [(i, v)]\<rparr>"
            using acknowledged cur go more send_from_oversize [OF more, of "tw_sender w"] by (simp add: acknowledge_def progressed_def)
          have "\<not> fits fb ser (i, v)" using busy(1) True more by (simp add: wire_busy_def)
          then show ?thesis
            by (rule idle_rejects [of i xs, rotated 5], unfold step)
              (use busy(1,3) acknowledged go more in \<open>auto simp: wire_busy_def nothing_on_the_way_def collected_def\<close>)
        next
          case fit: False
          let ?s = "(tw_sender w)\<lparr>tx_current := Some (i, v, n + 1, drop chunk_size rest)\<rparr>"
          have step: "wire_step fb ser de WireAck w = w\<lparr>tw_acks := [], tw_sender := ?s, tw_frames := [next_frame i (n + 1) rest]\<rparr>"
            using acknowledged cur go more send_from_fits [OF more, of "tw_sender w"] fit
            by (simp add: acknowledge_def progressed_def)
          have "transit fb ser (wire_step fb ser de WireAck w) (fst ` set xs) i v (n + 1) (drop chunk_size rest) False"
            using acknowledged more fit unfolding step
            by (intro posted_transit [where pre = pre]) (simp_all add: begun_def continued_def)
          then have "wire_busy fb ser (wire_step fb ser de WireAck w) xs i v (n + 1) (drop chunk_size rest) False"
            using busy(1,3) acknowledged more go fit unfolding step wire_busy_def by simp
          then show ?thesis by (rule wire_okI)
        qed
      qed
    qed
  qed (use ok in simp_all)
qed

lemma wire_step_ok:
  "codec ser de \<Longrightarrow> wire_ok fb ser w \<Longrightarrow> distinct (map fst (tw_sent w)) \<Longrightarrow> wire_ok fb ser (wire_step fb ser de e w)"
  by (cases e) (simp_all only: wire_send_ok wire_start_ok wire_frame_ok wire_yield_ok wire_ack_ok wire_stop_sender_ok wire_stop_receiver_ok)

lemma tw_sent_step: "prefix (tw_sent w) (tw_sent (wire_step fb ser de e w))"
  by (cases e) (auto simp: progressed_def split: option.splits list.splits prod.splits sum.splits progress.splits)

lemma wire_run_snoc: "wire_run fb ser de (es @ [e]) w = wire_step fb ser de e (wire_run fb ser de es w)"
  by (simp add: wire_run_def)

lemma wire_run_ok:
  assumes "codec ser de" "wire_ok fb ser w" "distinct (map fst (tw_sent (wire_run fb ser de es w)))"
  shows "wire_ok fb ser (wire_run fb ser de es w)"
  using assms(3)
proof (induction es rule: rev_induct)
  case Nil
  with assms(2) show ?case by (simp add: wire_run_def)
next
  case (snoc e es)
  from tw_sent_step [of "wire_run fb ser de es w" fb ser de e] snoc.prems
  have "distinct (map fst (tw_sent (wire_run fb ser de es w)))" by (auto simp: wire_run_snoc prefix_def)
  with wire_step_ok [OF assms(1) snoc.IH] show ?case by (simp add: wire_run_snoc)
qed

section \<open>Values arrive in order, once and unchanged\<close>

text \<open>C19: The transport is a faithful channel. The values sent have different identifiers, and a frame may have any
  size. Whatever the interleaving of sends, frames, turns of the event loop, acknowledgements and stops of either side: the values
  handed over are, in order and unchanged, a prefix of the values sent that fit, those none of whose frames exceeds the
  bound; every value whose send was resolved has been handed over; the receiver never reports a broken
  sequence or bound; and when nothing was stopped and nothing waits, exactly the values that fit have been handed over
  and resolved, and exactly the others rejected.\<close>

theorem transport_is_faithful:
  assumes "codec ser de" "w = wire_run fb ser de es new_wire" "distinct (map fst (tw_sent w))"
  shows "prefix (tw_delivered w) (filter (fits fb ser) (tw_sent w)) \<and> prefix (tw_resolved w) (tw_delivered w) \<and> tw_errors w = []
    \<and> (tx_stopped (tw_sender w) \<or> tx_current (tw_sender w) \<noteq> None \<or> tx_waiting (tw_sender w) \<noteq> []
       \<or> tw_delivered w = filter (fits fb ser) (tw_sent w) \<and> tw_resolved w = filter (fits fb ser) (tw_sent w)
         \<and> tw_rejected w = filter (Not \<circ> fits fb ser) (tw_sent w))"
proof -
  have "wire_ok fb ser w" using wire_run_ok [OF assms(1) wire_ok_new] assms(2,3) by blast
  then show ?thesis
  proof (cases rule: wire_ok_cases)
    case (idle xs)
    then show ?thesis by (auto simp: wire_idle_def prefix_def)
  next
    case (busy xs i v n rest a)
    from busy(2) have "a \<longrightarrow> rest = []" by (cases rule: transit.cases) auto
    with busy(1) have "a \<longrightarrow> fits fb ser (i, v)" by (simp add: wire_busy_def)
    with busy(1) show ?thesis by (auto simp: wire_busy_def prefix_def)
  qed
qed

text \<open>A size that grows with the identifier, as that of a serialised frame does: the second value does not fit.\<close>

definition plain_bytes :: "byte list \<Rightarrow> byte list" where "plain_bytes v = 255 # v"

definition plain_size :: "frame \<Rightarrow> nat" where "plain_size f = length (fr_bytes f) + 3000 * length (fr_id f) + 90"

lemma plain_codec: "codec plain_bytes tl"
  by (simp add: codec_def plain_bytes_def)

definition long_id :: string where "long_id = ''aaaaaaaaaaa''"

definition sample_events :: "byte list wire_event list" where
  "sample_events = [WireSend ''a'' [1, 2], WireSend long_id [3], WireSend ''b'' [4], WireStart, WireFrame, WireYield, WireAck, WireStart,
     WireStart, WireFrame, WireYield, WireStopReceiver, WireAck, WireStart]"

definition sample_wire :: "byte list wire" where
  "sample_wire = wire_run plain_size plain_bytes tl sample_events new_wire"

lemma transport_is_faithful_witness:
  "tw_delivered sample_wire = filter (fits plain_size plain_bytes) (tw_sent sample_wire)
    \<and> tw_rejected sample_wire = [(long_id, [3])] \<and> tw_delivered sample_wire = [(''a'', [1, 2]), (''b'', [4])]"
proof -
  have w: "tx_stopped (tw_sender sample_wire) = False" "tx_current (tw_sender sample_wire) = None" "tx_waiting (tw_sender sample_wire) = []"
      "map fst (tw_sent sample_wire) = [''a'', long_id, ''b'']" "distinct [''a'', long_id, ''b'']"
      "tw_rejected sample_wire = [(long_id, [3])]" "tw_delivered sample_wire = [(''a'', [1, 2]), (''b'', [4])]"
    by code_simp+
  have "distinct (map fst (tw_sent sample_wire))" using w(4,5) by simp
  from transport_is_faithful [OF plain_codec sample_wire_def this] w show ?thesis by simp
qed

text \<open>One round of a posted frame: taken, acknowledged, and followed by the next.\<close>

definition posted_at :: "(frame \<Rightarrow> nat) \<Rightarrow> ('v \<Rightarrow> byte list) \<Rightarrow> 'v wire \<Rightarrow> string \<Rightarrow> 'v \<Rightarrow> nat \<Rightarrow> byte list \<Rightarrow> byte list \<Rightarrow> bool" where
  "posted_at fb ser w i v n pre rest \<longleftrightarrow> ser v = pre @ rest \<and> rest \<noteq> [] \<and> (n = 0 \<longrightarrow> pre = []) \<and> fits_from fb i n rest
     \<and> \<not> tx_stopped (tw_sender w) \<and> \<not> rx_stopped (tw_receiver w)
     \<and> tx_current (tw_sender w) = Some (i, v, n, drop chunk_size rest)
     \<and> tw_frames w = [next_frame i n rest] \<and> rx_yielded (tw_receiver w) = [] \<and> tw_acks w = []
     \<and> collected (tw_receiver w) UNIV i (begun n pre)"

definition frame_round :: "'v wire_event list" where "frame_round = [WireFrame, WireYield, WireAck]"

lemma wire_run_append: "wire_run fb ser de (xs @ ys) w = wire_run fb ser de ys (wire_run fb ser de xs w)"
  by (simp add: wire_run_def)

lemma wire_run_Cons: "wire_run fb ser de (x # xs) w = wire_run fb ser de xs (wire_step fb ser de x w)"
  by (simp add: wire_run_def)

lemma posted_fits:
  assumes "posted_at fb ser w i v n pre rest"
  shows "\<not> oversize fb (next_frame i n rest)" "fits_from fb i (n + 1) (drop chunk_size rest)"
proof -
  have "rest \<noteq> []" "fits_from fb i n rest" using assms by (simp_all add: posted_at_def)
  then show "\<not> oversize fb (next_frame i n rest)" "fits_from fb i (n + 1) (drop chunk_size rest)" by simp_all
qed

lemma receive_posted:
  assumes c: "codec ser de" and p: "posted_at fb ser w i v n pre rest"
  shows "\<exists>inc. receive_frame fb de (next_frame i n rest) (tw_receiver w) = (Inr (), (tw_receiver w)\<lparr>rx_incoming := inc,
      rx_yielded := [(next_frame i n rest, if drop chunk_size rest = [] then Some v else None)]\<rparr>)
    \<and> collected ((tw_receiver w)\<lparr>rx_incoming := inc, rx_yielded := []\<rparr>) UNIV i
        (continued n (pre @ take chunk_size rest) (drop chunk_size rest))"
proof -
  have f: "fr_id (next_frame i n rest) = i" "fr_sequence (next_frame i n rest) = n"
      "fr_end (next_frame i n rest) \<longleftrightarrow> drop chunk_size rest = []" "fr_bytes (next_frame i n rest) = take chunk_size rest"
    by (simp_all add: next_frame_def)
  have v: "drop chunk_size rest = [] \<longrightarrow> de (pre @ fr_bytes (next_frame i n rest)) = v"
    using p codecD(1) [OF c, of v] append_take_drop_id [of chunk_size rest] by (simp add: posted_at_def f)
  have "n = 0 \<longrightarrow> pre = []" "\<not> rx_stopped (tw_receiver w)" "\<not> oversize fb (next_frame i n rest)" "rx_yielded (tw_receiver w) = []"
      "collected (tw_receiver w) UNIV i (begun n pre)"
    using p posted_fits [OF p] by (simp_all add: posted_at_def)
  from receive_collected [where de = de and v = v and rest = "drop chunk_size rest" and f = "next_frame i n rest", OF this(5,1-4) f(1-3) v]
  show ?thesis unfolding f(4) by blast
qed

lemma round_step:
  assumes c: "codec ser de" and p: "posted_at fb ser w i v n pre rest" and w': "w' = wire_run fb ser de frame_round w"
  shows "if drop chunk_size rest = []
    then tw_resolved w' = tw_resolved w @ [(i, v)] \<and> tw_delivered w' = tw_delivered w @ [(i, v)]
    else posted_at fb ser w' i v (n + 1) (pre @ take chunk_size rest) (drop chunk_size rest)
      \<and> tw_resolved w' = tw_resolved w \<and> tw_delivered w' = tw_delivered w"
proof -
  obtain inc where inc: "receive_frame fb de (next_frame i n rest) (tw_receiver w) = (Inr (), (tw_receiver w)\<lparr>rx_incoming := inc,
      rx_yielded := [(next_frame i n rest, if drop chunk_size rest = [] then Some v else None)]\<rparr>)"
    "collected ((tw_receiver w)\<lparr>rx_incoming := inc, rx_yielded := []\<rparr>) UNIV i
        (continued n (pre @ take chunk_size rest) (drop chunk_size rest))"
    using receive_posted [OF c p] by blast
  let ?r = "(tw_receiver w)\<lparr>rx_incoming := inc\<rparr>"
  let ?v = "if drop chunk_size rest = [] then [(i, v)] else []"
  have one: "wire_step fb ser de WireFrame w = w\<lparr>tw_frames := [], tw_receiver := ?r\<lparr>
      rx_yielded := [(next_frame i n rest, if drop chunk_size rest = [] then Some v else None)]\<rparr>\<rparr>"
    using p inc(1) by (simp add: posted_at_def)
  have two: "wire_run fb ser de [WireFrame, WireYield] w = w\<lparr>tw_frames := [], tw_receiver := ?r\<lparr>rx_yielded := []\<rparr>,
      tw_acks := [(i, n)], tw_delivered := tw_delivered w @ ?v\<rparr>"
    using p unfolding wire_run_Cons one by (simp add: wire_run_def posted_at_def resume_receive_def next_frame_def)
  have w'_eq: "w' = wire_step fb ser de WireAck (wire_run fb ser de [WireFrame, WireYield] w)"
    unfolding w' frame_round_def by (simp add: wire_run_def)
  show ?thesis
  proof (cases "drop chunk_size rest = []")
    case True
    with p show ?thesis unfolding w'_eq two
      by (simp add: posted_at_def acknowledge_def send_from_def progressed_def)
  next
    case False
    have fit: "\<not> oversize fb (next_frame i (n + 1) (drop chunk_size rest))" "fits_from fb i (n + 1) (drop chunk_size rest)"
      using posted_fits(2) [OF p] False by simp_all
    from False inc(2) p show ?thesis unfolding w'_eq two
      using send_from_fits [OF False _ fit(1), of "tw_sender w" v] fit(2)
      by (simp add: posted_at_def acknowledge_def progressed_def begun_def continued_def)
  qed
qed

lemma rounds_deliver:
  assumes "codec ser de" "posted_at fb ser w i v n pre rest" "k * chunk_size < length rest" "length rest \<le> Suc k * chunk_size"
    and "w' = wire_run fb ser de (concat (replicate (Suc k) frame_round)) w"
  shows "tw_resolved w' = tw_resolved w @ [(i, v)] \<and> tw_delivered w' = tw_delivered w @ [(i, v)]"
  using assms(2-)
proof (induction k arbitrary: w n pre rest)
  case 0
  then show ?case using round_step [OF assms(1) 0(1) refl] by simp
next
  case (Suc k)
  let ?w = "wire_run fb ser de frame_round w"
  from Suc.prems(2) have more: "drop chunk_size rest \<noteq> []" by simp
  from round_step [OF assms(1) Suc.prems(1) refl] more
  have p: "posted_at fb ser ?w i v (n + 1) (pre @ take chunk_size rest) (drop chunk_size rest)"
    and same: "tw_resolved ?w = tw_resolved w" "tw_delivered ?w = tw_delivered w" by simp_all
  have "w' = wire_run fb ser de (concat (replicate (Suc k) frame_round)) ?w"
    using Suc.prems(4) by (simp only: replicate_Suc [of "Suc k"] concat.simps wire_run_append)
  then show ?case using Suc.IH [OF p] Suc.prems(2,3) same by simp
qed

definition frames_of :: "('v \<Rightarrow> byte list) \<Rightarrow> 'v \<Rightarrow> nat" where
  "frames_of ser v = (length (ser v) - 1) div chunk_size + 1"

text \<open>A value arrives after exactly as many rounds as it has frames of 30,720 bytes: on a transport
  with nothing under way and neither side stopped, the next waiting value, if it fits, is handed over and its send resolved
  once each of its frames has been taken and acknowledged.\<close>

theorem waiting_value_arrives:
  assumes "codec ser de" "w = wire_run fb ser de es new_wire" "distinct (map fst (tw_sent w))"
    and "tx_current (tw_sender w) = None" "tx_waiting (tw_sender w) = (i, v) # ws" "fits fb ser (i, v)"
    and "\<not> tx_stopped (tw_sender w)" "\<not> rx_stopped (tw_receiver w)"
    and "w' = wire_run fb ser de (WireStart # concat (replicate (frames_of ser v) frame_round)) w"
  shows "tw_resolved w' = tw_resolved w @ [(i, v)] \<and> tw_delivered w' = tw_delivered w @ [(i, v)]"
proof -
  have "wire_ok fb ser w" using wire_run_ok [OF assms(1) wire_ok_new] assms(2,3) by blast
  with assms(4,7) obtain xs where idle: "wire_idle fb ser w xs" by (auto simp: wire_ok_def wire_busy_def)
  note ne = codecD(2) [OF assms(1), of v]
  have fit: "\<not> oversize fb (next_frame i 0 (ser v))" using assms(6) ne by (simp add: fits_def)
  let ?w = "wire_step fb ser de WireStart w"
  have start: "?w = w\<lparr>tw_sender := (tw_sender w)\<lparr>tx_waiting := ws, tx_current := Some (i, v, 0, drop chunk_size (ser v))\<rparr>,
      tw_frames := [next_frame i 0 (ser v)]\<rparr>"
    using assms(4,5,7) idle ne fit send_from_fits [of "ser v" "(tw_sender w)\<lparr>tx_waiting := ws\<rparr>"]
    by (simp add: sendValue_def progressed_def wire_idle_def nothing_on_the_way_def)
  have "i \<notin> fst ` set xs" using idle assms(3,5,7) by (auto simp: wire_idle_def)
  then have "collected (tw_receiver w) UNIV i (begun 0 [])"
    using idle unfolding collected_def begun_def wire_idle_def nothing_on_the_way_def by (simp del: not_None_eq) blast
  then have p: "posted_at fb ser ?w i v 0 [] (ser v)"
    using assms(6-8) idle ne unfolding start by (simp add: posted_at_def wire_idle_def nothing_on_the_way_def fits_def)
  let ?k = "(length (ser v) - 1) div chunk_size"
  have pos: "length (ser v) > 0" using ne by simp
  have "?k * chunk_size \<le> length (ser v) - 1" by (rule div_times_less_eq_dividend)
  with pos have lo: "?k * chunk_size < length (ser v)" by linarith
  have "length (ser v) - 1 < Suc ?k * chunk_size"
    using dividend_less_div_times [of chunk_size "length (ser v) - 1"] by (simp add: chunk_size_def)
  then have hi: "length (ser v) \<le> Suc ?k * chunk_size" by linarith
  have "w' = wire_run fb ser de (concat (replicate (Suc ?k) frame_round)) ?w"
    unfolding assms(9) wire_run_Cons by (simp add: frames_of_def)
  from rounds_deliver [OF assms(1) p lo hi this] show ?thesis by (simp only: start) simp
qed

lemma waiting_value_arrives_witness:
  "(''a'', [7]) \<in> set (tw_delivered (wire_run plain_size plain_bytes tl (WireStart # concat (replicate (frames_of plain_bytes [7]) frame_round))
     (wire_run plain_size plain_bytes tl [WireSend ''a'' [7]] new_wire)))"
proof -
  let ?w = "wire_run plain_size plain_bytes tl [WireSend ''a'' [7]] new_wire"
  have w: "tx_current (tw_sender ?w) = None" "tx_waiting (tw_sender ?w) = [(''a'', [7])]"
      "\<not> tx_stopped (tw_sender ?w)" "\<not> rx_stopped (tw_receiver ?w)" "distinct (map fst (tw_sent ?w))"
    by (simp_all add: wire_run_def new_wire_def)
  have "fits plain_size plain_bytes (''a'', [7])"
    by (simp add: fits_def plain_bytes_def oversize_def plain_size_def next_frame_def chunk_size_def wire_limit_def)
  from waiting_value_arrives [OF plain_codec refl w(5,1,2) this w(3,4) refl] show ?thesis by simp
qed

end
