(* ===== verification/DraftMap.thy ===== *)
theory DraftMap
  imports RequestProps
begin

text \<open>
  The draft of a map, \<open>AgentRequestDraftMap\<close> of \<open>src/src/agentRequests/state.ts\<close>: a transaction of the
  request store works on a copy that remembers the keys it has touched, and what it changed is found
  by comparing only these keys with the map before. The theory has the operations of the draft, the
  application of its changes to a copy of the map in another process
  (\<open>apply\<close> of \<open>agentRequests/store.ts\<close>), and the lemmas that the copy ends as the map does.

  Field-wise identity of two records (\<open>Reflect.get(before, field) !== Reflect.get(after, field)\<close>) is
  a parameter, of which only is used that identical records are equal: a draft may report a record
  whose nested values were replaced by equal ones.
\<close>

section \<open>The draft\<close>

record 'v draft =
  dm_previous :: "(string \<times> 'v) list"
  dm_entries :: "(string \<times> 'v) list"
  dm_touched :: "string list"

definition draft_of :: "(string \<times> 'v) list \<Rightarrow> 'v draft" where
  "draft_of m = \<lparr>dm_previous = m, dm_entries = m, dm_touched = []\<rparr>"

definition touch :: "string \<Rightarrow> 'v draft \<Rightarrow> 'v draft" where
  "touch k d = d\<lparr>dm_touched := List.insert k (dm_touched d)\<rparr>"

text \<open>\<open>get\<close> makes a private copy of the record the first time; its value is the same.\<close>

definition draft_get :: "string \<Rightarrow> 'v draft \<Rightarrow> 'v option \<times> 'v draft" where
  "draft_get k d = (case map_of (dm_entries d) k of
     None \<Rightarrow> (None, d)
   | Some v \<Rightarrow> (Some v, if k \<in> set (dm_touched d) then d else touch k d))"

definition draft_set :: "string \<Rightarrow> 'v \<Rightarrow> 'v draft \<Rightarrow> 'v draft" where
  "draft_set k v d = (touch k d)\<lparr>dm_entries := AList.update k v (dm_entries d)\<rparr>"

definition draft_delete :: "string \<Rightarrow> 'v draft \<Rightarrow> 'v draft" where
  "draft_delete k d = (touch k d)\<lparr>dm_entries := AList.delete k (dm_entries d)\<rparr>"

text \<open>An assignment to fields of the object that \<open>get\<close> has returned.\<close>

definition draft_assign :: "string \<Rightarrow> ('v \<Rightarrow> 'v) \<Rightarrow> 'v draft \<Rightarrow> 'v draft" where
  "draft_assign k f d = (case draft_get k d of
     (None, d') \<Rightarrow> d'
   | (Some v, d') \<Rightarrow> d'\<lparr>dm_entries := AList.update k (f v) (dm_entries d')\<rparr>)"

text \<open>\<open>values\<close> and \<open>entries\<close> read every key through \<open>get\<close>.\<close>

definition draft_values :: "'v draft \<Rightarrow> 'v list \<times> 'v draft" where
  "draft_values d = (map_values (dm_entries d), fold (\<lambda>k e. snd (draft_get k e)) (map fst (dm_entries d)) d)"

definition draft_committed :: "'v draft \<Rightarrow> (string \<times> 'v) list" where
  "draft_committed d = dm_entries d"

text \<open>\<open>changes\<close>: the records to set and the keys to remove, in the order in which the keys were touched.\<close>

definition changed_value :: "('v \<Rightarrow> 'v \<Rightarrow> bool) \<Rightarrow> 'v draft \<Rightarrow> string \<Rightarrow> 'v list" where
  "changed_value identical d k = (case (map_of (dm_previous d) k, map_of (dm_entries d) k) of
     (_, None) \<Rightarrow> []
   | (None, Some v) \<Rightarrow> [v]
   | (Some u, Some v) \<Rightarrow> if identical u v then [] else [v])"

definition removed_key :: "'v draft \<Rightarrow> string \<Rightarrow> bool" where
  "removed_key d k \<longleftrightarrow> map_of (dm_entries d) k = None \<and> map_of (dm_previous d) k \<noteq> None"

definition draft_changes :: "('v \<Rightarrow> 'v \<Rightarrow> bool) \<Rightarrow> 'v draft \<Rightarrow> 'v list \<times> string list" where
  "draft_changes identical d =
     (concat (map (changed_value identical d) (dm_touched d)), filter (removed_key d) (dm_touched d))"

section \<open>What a transaction does with it\<close>

datatype 'v draft_op =
    DraftGet string
  | DraftSet string 'v
  | DraftDelete string
  | DraftAssign string "'v \<Rightarrow> 'v"
  | DraftValues

fun draft_step :: "'v draft_op \<Rightarrow> 'v draft \<Rightarrow> 'v draft" where
  "draft_step (DraftGet k) d = snd (draft_get k d)"
| "draft_step (DraftSet k v) d = draft_set k v d"
| "draft_step (DraftDelete k) d = draft_delete k d"
| "draft_step (DraftAssign k f) d = draft_assign k f d"
| "draft_step DraftValues d = snd (draft_values d)"

definition draft_run :: "'v draft_op list \<Rightarrow> 'v draft \<Rightarrow> 'v draft" where
  "draft_run ops d = fold draft_step ops d"

text \<open>The copy of the map: removals first, then the records under their own identifiers.\<close>

definition apply_changes :: "('v \<Rightarrow> string) \<Rightarrow> 'v list \<times> string list \<Rightarrow> (string \<times> 'v) list \<Rightarrow> (string \<times> 'v) list" where
  "apply_changes key c m = fold (\<lambda>v. AList.update (key v) v) (fst c) (fold AList.delete (snd c) m)"

section \<open>A draft remembers every key that differs\<close>

definition draft_ok :: "'v draft \<Rightarrow> bool" where
  "draft_ok d \<longleftrightarrow> (\<forall>k. map_of (dm_entries d) k \<noteq> map_of (dm_previous d) k \<longrightarrow> k \<in> set (dm_touched d))"

lemma draft_of_fields [simp]: "dm_previous (draft_of m) = m" "dm_entries (draft_of m) = m" "draft_ok (draft_of m)"
  by (simp_all add: draft_of_def draft_ok_def)

lemma touch_fields [simp]: "dm_previous (touch k d) = dm_previous d" "dm_entries (touch k d) = dm_entries d"
    "set (dm_touched (touch k d)) = insert k (set (dm_touched d))" "distinct (dm_touched (touch k d)) = distinct (dm_touched d)"
  by (simp_all add: touch_def)

lemma draft_get_fields [simp]: "dm_previous (snd (draft_get k d)) = dm_previous d" "dm_entries (snd (draft_get k d)) = dm_entries d"
    "set (dm_touched (snd (draft_get k d))) = set (dm_touched d) \<union> {j. j = k \<and> map_of (dm_entries d) k \<noteq> None}"
  by (auto simp: draft_get_def split: option.splits)

lemma get_all_fields: "dm_previous (fold (\<lambda>k e. snd (draft_get k e)) ks d) = dm_previous d"
    "dm_entries (fold (\<lambda>k e. snd (draft_get k e)) ks d) = dm_entries d"
    "set (dm_touched d) \<subseteq> set (dm_touched (fold (\<lambda>k e. snd (draft_get k e)) ks d))"
proof (induction ks arbitrary: d)
  case (Cons k ks)
  { case 1 then show ?case using Cons.IH(1) by simp }
  { case 2 then show ?case using Cons.IH(2) by simp }
  { case 3 then show ?case using Cons.IH(3) [of "snd (draft_get k d)"] by (auto simp: draft_get_fields) }
qed simp_all

lemma draft_step_previous [simp]: "dm_previous (draft_step x d) = dm_previous d"
proof (cases x)
  case (DraftAssign k f)
  then show ?thesis by (auto simp: draft_assign_def draft_get_def split: option.splits)
qed (simp_all add: draft_set_def draft_delete_def draft_values_def get_all_fields(1))

lemma draft_run_previous [simp]: "dm_previous (draft_run xs d) = dm_previous d"
  by (induction xs arbitrary: d) (simp_all add: draft_run_def)

lemma draft_step_ok: "draft_ok d \<Longrightarrow> draft_ok (draft_step x d)"
proof (cases x)
  case (DraftAssign k f)
  assume "draft_ok d"
  with DraftAssign show ?thesis
    by (auto simp: draft_ok_def draft_assign_def draft_get_def update_conv' split: option.splits)
next
  case DraftValues
  assume "draft_ok d"
  with DraftValues show ?thesis using get_all_fields(3) [of d] by (auto simp: draft_ok_def draft_values_def get_all_fields(1,2))
qed (auto simp: draft_ok_def draft_set_def draft_delete_def update_conv' delete_conv')

lemma draft_run_ok: "draft_ok d \<Longrightarrow> draft_ok (draft_run xs d)"
  by (induction xs arbitrary: d) (simp_all add: draft_run_def draft_step_ok)

section \<open>Applying the changes\<close>

lemma map_of_fold_delete: "map_of (fold AList.delete ks m) k = (if k \<in> set ks then None else map_of m k)"
  by (induction ks arbitrary: m) (auto simp: delete_conv')

lemma find_key: "x \<in> set vs \<Longrightarrow> key x = k \<Longrightarrow> (\<And>y. y \<in> set vs \<Longrightarrow> key y = k \<Longrightarrow> y = x) \<Longrightarrow> find (\<lambda>v. key v = k) vs = Some x"
proof (induction vs)
  case (Cons v vs)
  show ?case
  proof (cases "key v = k")
    case True
    then have "v = x" using Cons.prems(3) by simp
    with True show ?thesis by simp
  next
    case False
    then have "x \<in> set vs" using Cons.prems(1,2) by auto
    moreover have "y = x" if "y \<in> set vs" "key y = k" for y using Cons.prems(3) [of y] that by simp
    ultimately have "find (\<lambda>v. key v = k) vs = Some x" by (rule Cons.IH [OF _ Cons.prems(2)])
    with False show ?thesis by simp
  qed
qed simp

lemma map_of_fold_update:
  assumes "\<forall>v\<in>set vs. \<forall>w\<in>set vs. key v = key w \<longrightarrow> v = w"
  shows "map_of (fold (\<lambda>v. AList.update (key v) v) vs m) k
    = (if k \<in> key ` set vs then find (\<lambda>v. key v = k) vs else map_of m k)"
  using assms
proof (induction vs arbitrary: m)
  case (Cons v vs)
  have ih: "map_of (fold (\<lambda>v. AList.update (key v) v) vs (AList.update (key v) v m)) k
      = (if k \<in> key ` set vs then find (\<lambda>v. key v = k) vs else map_of (AList.update (key v) v m) k)"
    using Cons.prems by (intro Cons.IH) simp
  show ?case
  proof (cases "k \<in> key ` set vs")
    case True
    then obtain w where w: "w \<in> set vs" "key w = k" by blast
    show ?thesis
    proof (cases "key v = k")
      case True
      have same: "u = v" if "u \<in> set vs" "key u = k" for u using Cons.prems that True by auto
      have "find (\<lambda>v. key v = k) vs = Some v"
        using same w by (intro find_key) metis+
      with ih \<open>k \<in> key ` set vs\<close> True show ?thesis by simp
    qed (use ih \<open>k \<in> key ` set vs\<close> in simp)
  next
    case False
    with ih show ?thesis by (auto simp: update_conv')
  qed
qed simp

lemma distinct_apply: "distinct (map fst m) \<Longrightarrow> distinct (map fst (apply_changes key c m))"
proof -
  have del: "distinct (map fst m) \<Longrightarrow> distinct (map fst (fold AList.delete ks m))" for ks and m :: "(string \<times> 'a) list"
    by (induction ks arbitrary: m) (simp_all add: distinct_delete)
  have upd: "distinct (map fst m) \<Longrightarrow> distinct (map fst (fold (\<lambda>v. AList.update (key v) v) vs m))" for vs m
    by (induction vs arbitrary: m) (simp_all add: distinct_update)
  show "distinct (map fst m) \<Longrightarrow> ?thesis" by (simp add: apply_changes_def del upd)
qed

text \<open>
  The copy holds an image of the map (the store keeps deliveries without their prompts); after the
  changes it holds the image of the map the transaction leaves.
\<close>

lemma changed_value_mem: "v \<in> set (changed_value identical d k) \<Longrightarrow> map_of (dm_entries d) k = Some v"
  by (auto simp: changed_value_def split: option.splits if_splits)

lemma changes_removed: "snd (draft_changes identical d) = filter (removed_key d) (dm_touched d)"
  by (simp add: draft_changes_def)

lemma apply_changes_image:
  assumes ok: "draft_ok d"
    and eq: "\<forall>u v. identical u v \<longrightarrow> u = v"
    and keyed: "\<forall>k v. map_of (dm_entries d) k = Some v \<longrightarrow> key v = k"
    and img: "\<forall>v. key (g v) = key v"
    and m: "map_of m = map_option g \<circ> map_of (dm_previous d)"
  shows "map_of (apply_changes key (map g (fst (draft_changes identical d)), snd (draft_changes identical d)) m)
    = map_option g \<circ> map_of (draft_committed d)"
proof
  fix k
  obtain vs where vs: "vs = fst (draft_changes identical d)" by simp
  then have vs_mem: "v \<in> set vs \<longleftrightarrow> (\<exists>k\<in>set (dm_touched d). v \<in> set (changed_value identical d k))" for v
    by (auto simp: draft_changes_def)
  let ?m = "fold AList.delete (filter (removed_key d) (dm_touched d)) m"
  have mem: "map_of (dm_entries d) (key v) = Some v" if "v \<in> set vs" for v
    using that keyed by (auto simp: vs_mem dest!: changed_value_mem)
  have inj: "\<forall>v\<in>set (map g vs). \<forall>w\<in>set (map g vs). key v = key w \<longrightarrow> v = w"
  proof (intro ballI impI)
    fix x y assume "x \<in> set (map g vs)" "y \<in> set (map g vs)" "key x = key y"
    then obtain v w where vw: "x = g v" "y = g w" "v \<in> set vs" "w \<in> set vs" by auto
    with \<open>key x = key y\<close> img have "key v = key w" by metis
    with mem [OF vw(3)] mem [OF vw(4)] have "v = w" by (metis option.inject)
    with vw(1,2) show "x = y" by simp
  qed
  have res: "map_of (apply_changes key (map g (fst (draft_changes identical d)), snd (draft_changes identical d)) m) k
    = (if k \<in> key ` set (map g vs) then find (\<lambda>v. key v = k) (map g vs) else map_of ?m k)"
    unfolding apply_changes_def fst_conv snd_conv vs [symmetric] changes_removed by (rule map_of_fold_update [OF inj])
  show "map_of (apply_changes key (map g (fst (draft_changes identical d)), snd (draft_changes identical d)) m) k
    = (map_option g \<circ> map_of (draft_committed d)) k"
  proof (cases "k \<in> key ` set (map g vs)")
    case True
    then obtain v where v: "v \<in> set vs" "key v = k" using img by auto
    have "find (\<lambda>v. key v = k) (map g vs) = Some (g v)"
    proof (rule find_key)
      show "g v \<in> set (map g vs)" using v by auto
      show "key (g v) = k" using v img by simp
      fix y assume "y \<in> set (map g vs)" "key y = k"
      then obtain w where "y = g w" "w \<in> set vs" "key w = k" using img by auto
      with mem [of v] mem [of w] v show "y = g v" by (metis option.inject)
    qed
    with res True mem [OF v(1)] v(2) show ?thesis by (simp add: draft_committed_def)
  next
    case False
    have unchanged: "changed_value identical d k = []" if "k \<in> set (dm_touched d)"
    proof (rule ccontr)
      assume "changed_value identical d k \<noteq> []"
      then obtain v where v: "v \<in> set (changed_value identical d k)" by (cases "changed_value identical d k") auto
      with that have "v \<in> set vs" by (auto simp: vs_mem)
      moreover have "key (g v) = k" using changed_value_mem [OF v] keyed img by simp
      ultimately show False using False by force
    qed
    have out: "map_of ?m k = (if k \<in> set (dm_touched d) \<and> removed_key d k then None else map_option g (map_of (dm_previous d) k))"
      using m by (auto simp: map_of_fold_delete)
    show ?thesis
    proof (cases "k \<in> set (dm_touched d)")
      case True
      from unchanged [OF True] eq
      have "map_of (dm_entries d) k = None \<or> map_of (dm_entries d) k = map_of (dm_previous d) k"
        by (auto simp: changed_value_def split: option.splits if_splits)
      with res \<open>k \<notin> key ` set (map g vs)\<close> out True show ?thesis
        by (auto simp: removed_key_def draft_committed_def)
    next
      case False
      with ok have "map_of (dm_entries d) k = map_of (dm_previous d) k" by (auto simp: draft_ok_def)
      with res \<open>k \<notin> key ` set (map g vs)\<close> out False show ?thesis by (simp add: draft_committed_def)
    qed
  qed
qed

text \<open>C23: The delta of a transaction is exact: whatever a transaction reads, sets, assigns and removes in
  its draft, applying the reported changes (found by comparing the touched keys only) to the map before
  gives the map after.\<close>

theorem draft_delta_exact:
  assumes "d = draft_run ops (draft_of m)" "\<forall>u v. identical u v \<longrightarrow> u = v"
    and "\<forall>k v. map_of (dm_entries d) k = Some v \<longrightarrow> key v = k"
  shows "map_of (apply_changes key (draft_changes identical d) m) = map_of (draft_committed d)"
proof -
  have "draft_ok d" "dm_previous d = m" unfolding assms(1) by (simp_all add: draft_run_ok)
  with apply_changes_image [of d identical key id m] assms(2,3) show ?thesis
    by (simp add: option.map_id0)
qed

definition sample_draft_ops :: "(string \<times> nat) draft_op list" where
  "sample_draft_ops = [DraftValues, DraftAssign ''a'' (\<lambda>(k, n). (k, n + 1)), DraftDelete ''b'', DraftSet ''c'' (''c'', 7), DraftDelete ''x'']"

lemma draft_delta_exact_witness:
  "map_of (apply_changes fst (draft_changes (=) (draft_run sample_draft_ops (draft_of [(''a'', (''a'', 1)), (''b'', (''b'', 2))])))
      [(''a'', (''a'', 1)), (''b'', (''b'', 2))])
    = map_of [(''a'', (''a'', 2)), (''c'', (''c'', 7::nat))]"
proof -
  let ?m = "[(''a'', (''a'', 1::nat)), (''b'', (''b'', 2))]"
  let ?d = "draft_run sample_draft_ops (draft_of ?m)"
  have e: "dm_entries ?d = [(''a'', (''a'', 2)), (''c'', (''c'', 7::nat))]" by code_simp
  have "map_of (apply_changes fst (draft_changes (=) ?d) ?m) = map_of (draft_committed ?d)"
    by (rule draft_delta_exact [OF refl]) (simp_all only: e, auto split: if_splits)
  with e show ?thesis by (simp add: draft_committed_def)
qed

end
