(* ===== verification/StoreOwner.thy ===== *)
theory StoreOwner
  imports DraftMap
begin

text \<open>
  The process that owns the request file (\<open>src/src/agentRequests/persistenceWorker.ts\<close>): it holds
  the \<open>AgentRequestState\<close>, executes one command after the other, counts the committed ones, and
  refuses everything after a write whose outcome is unknown. With it the parts of \<open>state.ts\<close> it
  uses: \<open>transaction\<close> with its delta, \<open>readModel\<close> and \<open>list\<close>.

  An error keeps the fields the store reads of it; the only error that carries
  \<open>commitState: "unknown"\<close> has the code \<open>AGENT_REQUEST_COMMIT_UNKNOWN\<close>. Audit records are not modelled.
\<close>

section \<open>Commands\<close>

datatype mutation = Requested request_op | Reconcile "(string \<times> resolution \<times> resolution) list"

datatype store_command =
    Mutate mutation
  | ReadDelivery string
  | ReadCaller delivery_source string
  | ListDeliveries
  | ReadRequests
  | CloseOwner

fun is_read :: "store_command \<Rightarrow> bool" where
  "is_read (Mutate m) = False"
| "is_read _ = True"

datatype store_value =
    VUnit
  | VText string
  | VPreparation preparation
  | VRequest request
  | VCommitted "request option \<times> request option"
  | VReconciled "request list \<times> request list"
  | VDelivery "delivery option"
  | VDeliveries "delivery list"
  | VRequests "request list"

fun returned :: "('a \<Rightarrow> store_value) \<Rightarrow> 'a result \<times> req_state \<Rightarrow> store_value result \<times> req_state" where
  "returned f (Inl e, t) = (Inl e, t)"
| "returned f (Inr v, t) = (Inr (f v), t)"

text \<open>
  \<open>new Map(args[0])\<close>: a later entry replaces an earlier one. A record without an entry is unresolved.
\<close>

definition resolutions_of :: "(string \<times> resolution \<times> resolution) list \<Rightarrow> party \<Rightarrow> request \<Rightarrow> role \<Rightarrow> resolution" where
  "resolutions_of rs p r role = (case map_of (rev rs) (rq_id r) of
     None \<Rightarrow> Unresolved
   | Some (source, target) \<Rightarrow> if role = SourceRole then source else target)"

fun apply_mutation :: "env \<Rightarrow> mutation \<Rightarrow> req_state \<Rightarrow> store_value result \<times> req_state" where
  "apply_mutation env (Requested (OpBind d)) s = returned (\<lambda>_. VUnit) (bindEndpointDelivery env d s)"
| "apply_mutation env (Requested (OpDispatch k)) s = returned VText (markEndpointDispatching env k s)"
| "apply_mutation env (Requested (OpFailure k e b)) s = returned (\<lambda>_. VUnit) (noteEndpointDeliveryFailure env k e b s)"
| "apply_mutation env (Requested (OpNotSent k p)) s = returned (\<lambda>_. VUnit) (markEndpointNotSent env k p s)"
| "apply_mutation env (Requested (OpReceipt k r)) s = returned (\<lambda>_. VUnit) (commitEndpointReceipt env k r s)"
| "apply_mutation env (Requested (OpPrepare i)) s = returned VPreparation (prepare env i s)"
| "apply_mutation env (Requested (OpConnection k src d r n)) s = returned VRequest (recordConnectionResponse env k src d r n s)"
| "apply_mutation env (Requested (OpEvidence p x)) s = returned (\<lambda>_. VUnit) (bindResponseEvidence env p x s)"
| "apply_mutation env (Requested (OpCommit p r)) s = returned VCommitted (commit env p r s)"
| "apply_mutation env (Requested (OpAbort p)) s = returned (\<lambda>_. VUnit) (abort env p s)"
| "apply_mutation env (Requested (OpCancel k x)) s = returned VRequest (cancel env k x s)"
| "apply_mutation env (Requested (OpCancelDelivery k)) s = returned VDelivery (cancelEndpointDelivery env k s)"
| "apply_mutation env (Reconcile rs) s = returned VReconciled (reconcileOpenParties env (resolutions_of rs) s)"

section \<open>The delta of a transaction\<close>

text \<open>\<open>({ prompt: _prompt, ...metadata }) => metadata\<close>: a record without its prompt has the empty one.\<close>

definition without_prompt :: "delivery \<Rightarrow> delivery" where
  "without_prompt d = d\<lparr>dl_prompt := []\<rparr>"

record delta =
  de_requests :: "request list"
  de_removedRequests :: "string list"
  de_deliveries :: "delivery list"
  de_removedDeliveries :: "string list"

text \<open>
  What an operation did with the two drafts, and which records the comparison of fields takes for
  unchanged.
\<close>

record workings =
  wk_requests :: "request draft_op list"
  wk_deliveries :: "delivery draft_op list"
  wk_sameRequest :: "request \<Rightarrow> request \<Rightarrow> bool"
  wk_sameDelivery :: "delivery \<Rightarrow> delivery \<Rightarrow> bool"

definition transaction_delta :: "workings \<Rightarrow> req_state \<Rightarrow> delta" where
  "transaction_delta wk s =
    (let (rs, removed) = draft_changes (wk_sameRequest wk) (draft_run (wk_requests wk) (draft_of (st_requests s)));
         (ds, removed') = draft_changes (wk_sameDelivery wk) (draft_run (wk_deliveries wk) (draft_of (st_deliveries s))) in
     \<lparr>de_requests = rs, de_removedRequests = removed,
      de_deliveries = map without_prompt ds, de_removedDeliveries = removed'\<rparr>)"

text \<open>The drafts of an operation that turns the maps of \<open>s\<close> into those of \<open>t\<close>.\<close>

definition workings_of :: "workings \<Rightarrow> req_state \<Rightarrow> req_state \<Rightarrow> bool" where
  "workings_of wk s t \<longleftrightarrow>
     draft_committed (draft_run (wk_requests wk) (draft_of (st_requests s))) = st_requests t
     \<and> draft_committed (draft_run (wk_deliveries wk) (draft_of (st_deliveries s))) = st_deliveries t
     \<and> (\<forall>u v. wk_sameRequest wk u v \<longrightarrow> u = v) \<and> (\<forall>u v. wk_sameDelivery wk u v \<longrightarrow> u = v)"

section \<open>What the owner publishes when it starts\<close>

record read_model =
  mo_requests :: "request list"
  mo_deliveries :: "delivery list"
  mo_unavailable :: "string list"
  mo_evidence :: "string option"
  mo_unscoped :: bool
  mo_incompleteThreadIds :: "string list"

text \<open>The thread of a quarantined request, if its target can be read.\<close>

definition quarantined_thread :: "quarantined \<Rightarrow> string option" where
  "quarantined_thread q = (case qu_target q of
     None \<Rightarrow> None
   | Some p \<Rightarrow> (case normalizedParty p TargetRole of Inl _ \<Rightarrow> None | Inr n \<Rightarrow> Some (pa_threadId n)))"

definition readModel :: "req_state \<Rightarrow> read_model" where
  "readModel s =
    (let threads = map quarantined_thread (map_values (st_quarantinedRequests s)) in
     \<lparr>mo_requests = map_values (st_requests s), mo_deliveries = map without_prompt (map_values (st_deliveries s)),
      mo_unavailable = st_unavailable s, mo_evidence = st_evidenceUnavailable s,
      mo_unscoped = (None \<in> set threads),
      mo_incompleteThreadIds = remdups (List.map_filter id threads)\<rparr>)"

text \<open>
  \<open>list\<close>: the latest first. A date that does not parse makes the comparison
  \<open>NaN\<close>, which leaves the place of the record to the engine; it counts as the epoch here.
\<close>

definition listRequests :: "(string \<Rightarrow> int option) \<Rightarrow> req_state \<Rightarrow> request list" where
  "listRequests date s = sort_key (\<lambda>r. - (case date_parse date (rq_updatedAt r) of None \<Rightarrow> 0 | Some ms \<Rightarrow> ms))
     (map_values (st_requests s))"

section \<open>The owner\<close>

record order =
  or_command :: store_command
  or_revision :: nat
  or_timestamp :: int

datatype owner_reply = Accepted nat "store_value option" "delta option" | Refused nat js_error

record owner =
  ow_state :: req_state
  ow_revision :: nat
  ow_fenced :: bool
  ow_stopping :: bool
  ow_locked :: bool

definition commit_unknown :: "js_error \<Rightarrow> bool" where
  "commit_unknown e \<longleftrightarrow> (case e of CodedErr c _ \<Rightarrow> c = ''AGENT_REQUEST_COMMIT_UNKNOWN'' | _ \<Rightarrow> False)"

definition fenced_error :: js_error where
  "fenced_error = CodedErr ''AGENT_REQUEST_COMMIT_UNKNOWN'' ''Original Agent request commit requires reconciliation.''"

fun read_value :: "env \<Rightarrow> req_state \<Rightarrow> store_command \<Rightarrow> store_value result" where
  "read_value env s (ReadDelivery k) = Inr (VDelivery (delivery_at s k))"
| "read_value env s (ReadCaller src c) = bind (readCallerEndpointDelivery env s src c) (\<lambda>d. Inr (VDelivery d))"
| "read_value env s ListDeliveries = Inr (VDeliveries (map_values (st_deliveries s)))"
| "read_value env s ReadRequests = Inr (VRequests (listRequests (env_date env) s))"
| "read_value env s _ = Inl (Err ''Unknown Agent request persistence command.'')"

definition owner_mutate :: "env \<Rightarrow> workings \<Rightarrow> mutation \<Rightarrow> owner \<Rightarrow> owner_reply \<times> owner" where
  "owner_mutate env wk m w = (case transaction (apply_mutation env m) (ow_state w) of
     (Inl e, t) \<Rightarrow> (Refused (ow_revision w) e, w\<lparr>ow_state := t, ow_fenced := ow_fenced w \<or> commit_unknown e\<rparr>)
   | (Inr v, t) \<Rightarrow> (Accepted (ow_revision w + 1) (Some v) (Some (transaction_delta wk (ow_state w))),
        w\<lparr>ow_state := t, ow_revision := ow_revision w + 1\<rparr>))"

definition owner_command :: "env \<Rightarrow> workings \<Rightarrow> order \<Rightarrow> owner \<Rightarrow> owner_reply option \<times> owner" where
  "owner_command env wk x w =
    (if ow_stopping w then (None, w)
     else if or_command x = CloseOwner
     then (Some (Accepted (ow_revision w) None None), w\<lparr>ow_stopping := True, ow_locked := False\<rparr>)
     else if ow_fenced w then (Some (Refused (ow_revision w) fenced_error), w)
     else if or_revision x \<noteq> ow_revision w
     then (Some (Refused (ow_revision w) (Err ''Agent request owner revision mismatch.'')), w)
     else let now = env\<lparr>env_now := or_timestamp x\<rparr> in
       (case or_command x of
          Mutate m \<Rightarrow> map_prod Some id (owner_mutate now wk m w)
        | c \<Rightarrow> (case read_value now (ow_state w) c of
            Inl e \<Rightarrow> (Some (Refused (ow_revision w) e), w\<lparr>ow_fenced := ow_fenced w \<or> commit_unknown e\<rparr>)
          | Inr v \<Rightarrow> (Some (Accepted (ow_revision w) (Some v) None), w))))"

end
