(* ===== verification/StoreFacade.thy ===== *)
theory StoreFacade
  imports StoreOwner
begin

text \<open>
  The class \<open>AgentRequestStore\<close> of \<open>src/src/agentRequests/store.ts\<close>: the object the manager talks to. It keeps
  a copy of the requests and of the deliveries without their prompts, queues the operations of its
  callers, sends one command at a time to the owner of the file, and after an outcome it cannot know it
  refuses everything.

  An asynchronous function is cut at its \<open>await\<close>s. The promise of a command is an entry of
  \<open>so_pending\<close>, once settled an entry of \<open>so_answers\<close> until the operation that awaits it goes on. The owner
  is a child process: its messages, its exit and the timers are events. The variant for a backend object in
  the same process, which only tests use, is not modelled.
\<close>

section \<open>State\<close>

record unavailability =
  un_message :: string
  un_unknown :: bool

text \<open>\<open>new AgentRequestStoreUnavailableError(message, commitState)\<close>\<close>

abbreviation unavailable :: "string \<Rightarrow> bool \<Rightarrow> unavailability" where
  "unavailable m unknown \<equiv> \<lparr>un_message = m, un_unknown = unknown\<rparr>"

datatype store_error = StoreFailed unavailability | OwnerError js_error

text \<open>
  A mutation with its arguments, one whose caller checks its authority when the arguments are captured
  (\<open>assertCurrent\<close>), and \<open>reconcileOpenParties\<close>, which resolves the parties of the open requests then.
\<close>

datatype facade_call = Plain mutation | Guarded mutation | ReconcileOpen

datatype job_kind = MutationJob facade_call | ReadJob store_command

record job =
  jb_id :: nat
  jb_kind :: job_kind

datatype stage = AwaitReady | AwaitReply string

datatype initialization = Initializing | Initialized | InitFailed unavailability

datatype closure = NotClosed | AwaitActive | AwaitCloseReply string | AwaitExit | ClosedOk | ClosedFailed unavailability

record request_store =
  so_requests :: requests
  so_deliveries :: deliveries
  so_unavailable :: "string list"
  so_evidence :: "string option"
  so_snapshot :: "(bool \<times> string list) option"
  so_loaded :: bool
  so_revision :: nat
  so_waiting :: "job list"
  so_active :: "(job \<times> stage) option"
  so_queued :: nat
  so_maxQueue :: nat
  so_failure :: "unavailability option"
  so_closing :: bool
  so_closure :: closure
  so_launched :: bool
  so_starting :: bool
  so_exited :: bool
  so_initialized :: initialization
  so_pending :: "(string \<times> store_command) list"
  so_answers :: "(string \<times> (unavailability + owner_reply)) list"
  so_notified :: nat

definition new_store :: "nat \<Rightarrow> request_store result" where
  "new_store maxQueue =
    (if maxQueue < 1 \<or> maxQueue > 4096 then Inl (Err ''Invalid Agent request persistence budget.'')
     else Inr \<lparr>so_requests = [], so_deliveries = [], so_unavailable = [],
       so_evidence = Some ''Agent request evidence is still loading.'', so_snapshot = None, so_loaded = False,
       so_revision = 0, so_waiting = [], so_active = None, so_queued = 0, so_maxQueue = maxQueue, so_failure = None,
       so_closing = False, so_closure = NotClosed, so_launched = False, so_starting = False, so_exited = False,
       so_initialized = Initializing, so_pending = [], so_answers = [], so_notified = 0\<rparr>)"

section \<open>Failing\<close>

definition reject_ready :: "unavailability \<Rightarrow> request_store \<Rightarrow> request_store" where
  "reject_ready e s = (if so_initialized s = Initializing then s\<lparr>so_initialized := InitFailed e\<rparr> else s)"

text \<open>The first failure stays; every promise of a command is rejected with it.\<close>

definition fail_store :: "unavailability \<Rightarrow> request_store \<Rightarrow> request_store" where
  "fail_store e s =
    (let f = (case so_failure s of None \<Rightarrow> e | Some g \<Rightarrow> g) in
     (reject_ready f s)\<lparr>so_failure := Some f, so_evidence := Some (un_message f), so_starting := False,
        so_answers := so_answers s @ map (\<lambda>(i, _). (i, Inl f)) (so_pending s), so_pending := []\<rparr>)"

definition hasUnconfirmedMutation :: "request_store \<Rightarrow> bool" where
  "hasUnconfirmedMutation s \<longleftrightarrow> list_ex (\<lambda>(i, c). \<not> is_read c) (so_pending s)"

definition assertLoaded :: "request_store \<Rightarrow> unavailability + unit" where
  "assertLoaded s = (case so_failure s of
     Some f \<Rightarrow> Inl f
   | None \<Rightarrow> check (so_loaded s) (unavailable ''Agent request evidence is still loading.'' False))"

definition assertComplete :: "request_store \<Rightarrow> unavailability + unit" where
  "assertComplete s = bind (assertLoaded s) (\<lambda>_. case so_evidence s of
     None \<Rightarrow> Inr ()
   | Some reason \<Rightarrow> Inl (unavailable reason False))"

section \<open>Starting\<close>

text \<open>\<open>ready\<close>: the first call forks the owner.\<close>

definition launch :: "request_store \<Rightarrow> request_store" where
  "launch s = (if so_launched s then s else s\<lparr>so_launched := True, so_starting := True\<rparr>)"

definition publishInitial :: "read_model \<Rightarrow> request_store \<Rightarrow> request_store" where
  "publishInitial model s =
    (let s' = s\<lparr>so_requests := fold (\<lambda>r. AList.update (rq_id r) r) (mo_requests model) (so_requests s),
          so_deliveries := fold (\<lambda>d. AList.update (dl_deliveryId d) d) (mo_deliveries model) (so_deliveries s),
          so_unavailable := fold List.insert (mo_unavailable model) (so_unavailable s),
          so_evidence := mo_evidence model, so_snapshot := Some (mo_unscoped model, mo_incompleteThreadIds model),
          so_loaded := True\<rparr> in
     case mo_evidence model of
       None \<Rightarrow> (if so_initialized s' = Initializing then s'\<lparr>so_initialized := Initialized\<rparr> else s')
     | Some reason \<Rightarrow> reject_ready (unavailable reason False) s')"

text \<open>\<open>receive\<close>, for the first message of the owner and for a reply.\<close>

definition receive_ready :: "(nat \<times> read_model) option \<Rightarrow> request_store \<Rightarrow> request_store" where
  "receive_ready result s =
    (if so_failure s \<noteq> None then s
     else case result of
       None \<Rightarrow> fail_store (unavailable ''Agent request evidence loading failed.'' False) (s\<lparr>so_starting := False\<rparr>)
     | Some (revision, model) \<Rightarrow> publishInitial model (s\<lparr>so_starting := False, so_revision := revision\<rparr>))"

definition receive_reply :: "string \<Rightarrow> owner_reply \<Rightarrow> request_store \<Rightarrow> request_store" where
  "receive_reply i r s =
    (if so_failure s \<noteq> None \<or> map_of (so_pending s) i = None then s
     else s\<lparr>so_pending := AList.delete i (so_pending s), so_answers := so_answers s @ [(i, Inr r)]\<rparr>)"

section \<open>The queue\<close>

definition drain_waiting :: "request_store \<Rightarrow> request_store" where
  "drain_waiting s = (if so_active s \<noteq> None \<or> so_closing s then s
     else case so_waiting s of
       [] \<Rightarrow> s
     | j # js \<Rightarrow> launch (s\<lparr>so_waiting := js, so_active := Some (j, AwaitReady)\<rparr>))"

definition enqueue_job :: "job \<Rightarrow> request_store \<Rightarrow> (unavailability + request_store)" where
  "enqueue_job j s =
    (if so_closing s then Inl (unavailable ''Agent request persistence owner is closing.'' False)
     else if so_queued s \<ge> so_maxQueue s then Inl (unavailable ''Agent request mutation queue is full.'' False)
     else Inr (drain_waiting (s\<lparr>so_queued := so_queued s + 1, so_waiting := so_waiting s @ [j]\<rparr>)))"

text \<open>\<open>mutate\<close> and the asynchronous reads up to the queue.\<close>

definition submit :: "job \<Rightarrow> request_store \<Rightarrow> (unavailability + request_store)" where
  "submit j s = (case jb_kind j of
     MutationJob c \<Rightarrow> (case so_failure s of Some f \<Rightarrow> Inl f | None \<Rightarrow> enqueue_job j s)
   | ReadJob c \<Rightarrow> enqueue_job j s)"

text \<open>The \<open>finally\<close> of the active operation.\<close>

definition finish_job :: "request_store \<Rightarrow> request_store" where
  "finish_job s = drain_waiting (s\<lparr>so_queued := so_queued s - 1, so_active := None\<rparr>)"

section \<open>Commands\<close>

text \<open>\<open>rpc\<close>: the promise is registered, and the command goes to the owner.\<close>

definition rpc :: "string \<Rightarrow> store_command \<Rightarrow> int \<Rightarrow> request_store \<Rightarrow> request_store \<times> order" where
  "rpc i c now s = (s\<lparr>so_pending := so_pending s @ [(i, c)]\<rparr>,
     \<lparr>or_command = c, or_revision = so_revision s, or_timestamp = now\<rparr>)"

definition reconcilable :: "request \<Rightarrow> bool" where
  "reconcilable r \<longleftrightarrow> (rq_status r = PendingDelivery \<or> rq_status r = AwaitingResponse)
     \<and> pa_endpoint (rq_source r) = None \<and> pa_endpoint (rq_target r) = None"

text \<open>
  The arguments of a mutation when its turn comes; \<open>thrown\<close> is what \<open>assertCurrent\<close> or the resolver of
  the caller throws.
\<close>

definition captured :: "js_error option \<Rightarrow> (party \<Rightarrow> request \<Rightarrow> role \<Rightarrow> resolution) \<Rightarrow> facade_call \<Rightarrow> request_store \<Rightarrow> mutation result" where
  "captured throws resolve c s = (case c of
     Plain m \<Rightarrow> Inr m
   | Guarded m \<Rightarrow> (case throws of Some e \<Rightarrow> Inl e | None \<Rightarrow> Inr m)
   | ReconcileOpen \<Rightarrow> (case throws of
       Some e \<Rightarrow> Inl e
     | None \<Rightarrow> Inr (Reconcile (map (\<lambda>r. (rq_id r, resolve (rq_source r) r SourceRole, resolve (rq_target r) r TargetRole))
                 (filter reconcilable (map_values (so_requests s)))))))"

definition apply_delta :: "delta \<Rightarrow> request_store \<Rightarrow> request_store" where
  "apply_delta d s =
    (let s' = s\<lparr>so_requests := apply_changes rq_id (de_requests d, de_removedRequests d) (so_requests s),
          so_deliveries := apply_changes dl_deliveryId (de_deliveries d, de_removedDeliveries d) (so_deliveries s)\<rparr> in
     if de_requests d = [] \<and> de_removedRequests d = [] \<and> de_deliveries d = [] \<and> de_removedDeliveries d = [] then s'
     else s'\<lparr>so_notified := so_notified s' + 1\<rparr>)"

section \<open>The active operation\<close>

text \<open>What a resumed operation does: it still waits, sends its command, or ends with its result.\<close>

datatype job_step = StillWaits | Sends request_store order | Settles "store_error + store_value" request_store

definition not_dispatched :: "job_kind \<Rightarrow> unavailability" where
  "not_dispatched k = unavailable (case k of
     MutationJob c \<Rightarrow> ''Agent request mutation was not dispatched before owner close.''
   | ReadJob c \<Rightarrow> ''Agent request read was not dispatched before owner close.'') False"

definition dispatch_job :: "js_error option \<Rightarrow> (party \<Rightarrow> request \<Rightarrow> role \<Rightarrow> resolution) \<Rightarrow> string \<Rightarrow> int
    \<Rightarrow> job \<Rightarrow> request_store \<Rightarrow> job_step" where
  "dispatch_job throws resolve i now j s =
    (let send = (\<lambda>c. case rpc i c now s of (s', x) \<Rightarrow> Sends (s'\<lparr>so_active := Some (j, AwaitReply i)\<rparr>) x) in
     case assertComplete s of
       Inl e \<Rightarrow> Settles (Inl (StoreFailed e)) (finish_job s)
     | Inr _ \<Rightarrow>
         if so_closing s then Settles (Inl (StoreFailed (not_dispatched (jb_kind j)))) (finish_job s)
         else (case jb_kind j of
             ReadJob c \<Rightarrow> send c
           | MutationJob c \<Rightarrow> (case captured throws resolve c s of
               Inl e \<Rightarrow> Settles (Inl (OwnerError e)) (finish_job s)
             | Inr m \<Rightarrow> send (Mutate m))))"

definition unknown_commit :: unavailability where
  "unknown_commit = unavailable ''Original Agent request commit requires reconciliation.'' True"

definition mutation_reply :: "owner_reply \<Rightarrow> request_store \<Rightarrow> (store_error + store_value) \<times> request_store" where
  "mutation_reply r s =
    (let mismatch = unavailable ''Agent request persistence acknowledgement revision mismatch.'' True in
     case r of
       Refused _ e \<Rightarrow> if commit_unknown e then (Inl (StoreFailed unknown_commit), fail_store unknown_commit s)
                     else (Inl (OwnerError e), s)
     | Accepted revision (Some v) (Some d) \<Rightarrow>
         if revision \<noteq> so_revision s + 1 then (Inl (StoreFailed mismatch), fail_store mismatch s)
         else (Inr v, apply_delta d (s\<lparr>so_revision := revision\<rparr>))
     | _ \<Rightarrow> (Inl (StoreFailed mismatch), fail_store mismatch s))"

definition read_reply :: "owner_reply \<Rightarrow> request_store \<Rightarrow> store_error + store_value" where
  "read_reply r s = (case r of
     Refused _ e \<Rightarrow> Inl (OwnerError e)
   | Accepted revision v _ \<Rightarrow>
       if revision \<noteq> so_revision s then Inl (StoreFailed (unavailable ''Agent request read revision mismatch.'' False))
       else Inr (case v of Some x \<Rightarrow> x | None \<Rightarrow> VUnit))"

definition resume_job :: "js_error option \<Rightarrow> (party \<Rightarrow> request \<Rightarrow> role \<Rightarrow> resolution) \<Rightarrow> string \<Rightarrow> int
    \<Rightarrow> job \<Rightarrow> stage \<Rightarrow> request_store \<Rightarrow> job_step" where
  "resume_job throws resolve i now j st s = (case st of
     AwaitReady \<Rightarrow> (case so_initialized s of
         Initializing \<Rightarrow> StillWaits
       | InitFailed e \<Rightarrow> Settles (Inl (StoreFailed e)) (finish_job s)
       | Initialized \<Rightarrow> dispatch_job throws resolve i now j s)
   | AwaitReply k \<Rightarrow>
       let s' = s\<lparr>so_answers := AList.delete k (so_answers s)\<rparr> in
       (case map_of (so_answers s) k of
          None \<Rightarrow> StillWaits
        | Some (Inl e) \<Rightarrow> Settles (Inl (StoreFailed e)) (finish_job s')
        | Some (Inr r) \<Rightarrow> (case jb_kind j of
            ReadJob c \<Rightarrow> Settles (read_reply r s') (finish_job s')
          | MutationJob c \<Rightarrow> (case mutation_reply r s' of (x, t) \<Rightarrow> Settles x (finish_job t)))))"

section \<open>Events of the child process\<close>

definition command_timed_out :: "string \<Rightarrow> request_store \<Rightarrow> request_store" where
  "command_timed_out i s = (case map_of (so_pending s) i of
     None \<Rightarrow> s
   | Some c \<Rightarrow> fail_store (unavailable ''Agent request persistence operation timed out.'' (\<not> is_read c)) s)"

text \<open>The transport rejects the command before a reply can have arrived.\<close>

definition send_failed :: "string \<Rightarrow> request_store \<Rightarrow> request_store" where
  "send_failed i s = (case map_of (so_pending s) i of
     None \<Rightarrow> s
   | Some c \<Rightarrow> fail_store (unavailable ''Agent request persistence dispatch failed.'' (\<not> is_read c)) s)"

definition startup_timed_out :: "request_store \<Rightarrow> request_store" where
  "startup_timed_out s =
    (if so_starting s then fail_store (unavailable ''Agent request evidence loading timed out.'' False) s else s)"

definition child_closed :: "bool \<Rightarrow> request_store \<Rightarrow> request_store" where
  "child_closed clean s =
    (let s' = (if \<not> so_closing s \<or> so_pending s \<noteq> [] \<or> \<not> clean
        then fail_store (unavailable ''Agent request persistence owner exited before its confirmed close.'' (hasUnconfirmedMutation s)) s
        else s) in
     s'\<lparr>so_exited := True\<rparr>)"

definition start_failure :: unavailability where
  "start_failure = unavailable ''Agent request persistence owner could not start.'' False"

definition child_error :: "request_store \<Rightarrow> request_store" where
  "child_error s = fail_store start_failure s"

definition transport_failed :: "request_store \<Rightarrow> request_store" where
  "transport_failed s = fail_store (unavailable ''Agent request persistence transport failed.'' (hasUnconfirmedMutation s)) s"

section \<open>Closing\<close>

definition queue_closed :: unavailability where
  "queue_closed = unavailable ''Agent request operation was not dispatched before owner close.'' False"

text \<open>\<open>close\<close> up to its first \<open>await\<close>: the operations it rejects, and the store.\<close>

definition close_store :: "request_store \<Rightarrow> job list \<times> request_store" where
  "close_store s =
    (if so_closure s \<noteq> NotClosed then ([], s)
     else
       let s1 = s\<lparr>so_closing := True\<rparr>;
           s2 = (if \<not> so_launched s
             then reject_ready (unavailable ''Agent request owner closed before loading began.'' False) s1
             else if \<not> so_loaded s \<and> so_failure s = None
             then fail_store (unavailable ''Agent request owner closed while loading evidence.'' False) s1
             else s1) in
       (so_waiting s2, s2\<lparr>so_waiting := [], so_queued := so_queued s2 - length (so_waiting s2), so_closure := AwaitActive\<rparr>))"

definition close_result :: "request_store \<Rightarrow> closure" where
  "close_result s = (case so_failure s of
     Some f \<Rightarrow> if so_loaded s \<or> un_unknown f then ClosedFailed f else ClosedOk
   | None \<Rightarrow> ClosedOk)"

text \<open>The rest of it: the store, and the command that closes the owner.\<close>

definition resume_close :: "string \<Rightarrow> int \<Rightarrow> request_store \<Rightarrow> (request_store \<times> (string \<times> order) option) option" where
  "resume_close i now s = (case so_closure s of
     AwaitActive \<Rightarrow>
       if so_active s \<noteq> None \<or> so_initialized s = Initializing then None
       else if so_launched s \<and> so_failure s = None
       then (case rpc i CloseOwner now s of (s', x) \<Rightarrow> Some (s'\<lparr>so_closure := AwaitCloseReply i\<rparr>, Some (i, x)))
       else Some (s\<lparr>so_closure := AwaitExit\<rparr>, None)
   | AwaitCloseReply k \<Rightarrow>
       let s' = s\<lparr>so_answers := AList.delete k (so_answers s)\<rparr> in
       (case map_of (so_answers s) k of
          None \<Rightarrow> None
        | Some (Inl e) \<Rightarrow> Some (s'\<lparr>so_closure := ClosedFailed e\<rparr>, None)
        | Some (Inr (Refused _ _)) \<Rightarrow>
            Some ((fail_store (unavailable ''Agent request persistence owner did not acknowledge close.'' False) s')\<lparr>so_closure := AwaitExit\<rparr>, None)
        | Some (Inr (Accepted _ _ _)) \<Rightarrow> Some (s'\<lparr>so_closure := AwaitExit\<rparr>, None))
   | AwaitExit \<Rightarrow> if so_launched s \<and> \<not> so_exited s then None else Some (s\<lparr>so_closure := close_result s\<rparr>, None)
   | _ \<Rightarrow> None)"

end
