(* ===== verification/StoreWorld.thy ===== *)
theory StoreWorld
  imports StoreFacade "HOL-Library.Sublist"
begin

text \<open>
  The store and the owner of its file as two processes: callers submit operations at any time, the active
  operation goes on whenever what it awaits has settled, the owner takes its orders one by one, and it
  may die, fail to start or fall silent between any two steps. Between them are two queues, which keep the
  order of their messages (\<open>StoreTransport\<close>); a death of the owner loses any messages at their ends.

  Four histories are only written: the outcomes of the calls, the commands sent, the commands the owner has
  committed, and the maps of the owner after each commit.
\<close>

datatype owner_message = ReadyMsg "(nat \<times> read_model) option" | ReplyMsg string owner_reply

record store_world =
  pw_store :: request_store
  pw_owner :: owner
  pw_started :: bool
  pw_running :: bool
  pw_orders :: "(string \<times> order) list"
  pw_replies :: "owner_message list"
  pw_calls :: nat
  pw_outcomes :: "(nat \<times> string option \<times> (store_error + store_value)) list"
  pw_sent :: "(string \<times> nat option \<times> store_command) list"
  pw_commits :: "(string \<times> store_value) list"
  pw_history :: "(requests \<times> deliveries) list"

definition initial_world :: "request_store \<Rightarrow> req_state \<Rightarrow> store_world" where
  "initial_world s st = \<lparr>pw_store = s,
     pw_owner = \<lparr>ow_state = st, ow_revision = 0, ow_fenced = False, ow_stopping = False, ow_locked = False\<rparr>,
     pw_started = False, pw_running = False, pw_orders = [], pw_replies = [], pw_calls = 0, pw_outcomes = [],
     pw_sent = [], pw_commits = [], pw_history = [(st_requests st, st_deliveries st)]\<rparr>"

text \<open>The results an order leaves: its reply, if the owner still answers, and the histories.\<close>

definition commit_of :: "string \<Rightarrow> owner_reply option \<Rightarrow> (string \<times> store_value) list" where
  "commit_of i r = (case r of Some (Accepted _ (Some v) (Some d)) \<Rightarrow> [(i, v)] | _ \<Rightarrow> [])"

definition executed :: "string \<Rightarrow> owner_reply option \<Rightarrow> owner \<Rightarrow> store_world \<Rightarrow> store_world" where
  "executed i r ow w = w\<lparr>pw_owner := ow, pw_orders := tl (pw_orders w),
     pw_replies := pw_replies w @ (case r of None \<Rightarrow> [] | Some x \<Rightarrow> [ReplyMsg i x]),
     pw_commits := pw_commits w @ commit_of i r,
     pw_history := pw_history w @ (if commit_of i r = [] then [] else [(st_requests (ow_state ow), st_deliveries (ow_state ow))])\<rparr>"

definition settled :: "nat \<Rightarrow> string option \<Rightarrow> store_error + store_value \<Rightarrow> request_store \<Rightarrow> store_world \<Rightarrow> store_world" where
  "settled j r x s w = w\<lparr>pw_store := s, pw_outcomes := pw_outcomes w @ [(j, r, x)]\<rparr>"

definition sent_order :: "string \<Rightarrow> nat option \<Rightarrow> order \<Rightarrow> request_store \<Rightarrow> store_world \<Rightarrow> store_world" where
  "sent_order i j x s w = w\<lparr>pw_store := s, pw_orders := pw_orders w @ [(i, x)], pw_sent := pw_sent w @ [(i, j, or_command x)]\<rparr>"

fun stage_command :: "stage \<Rightarrow> string option" where
  "stage_command AwaitReady = None"
| "stage_command (AwaitReply i) = Some i"

definition new_job :: "nat \<Rightarrow> job_kind \<Rightarrow> job" where
  "new_job n k = \<lparr>jb_id = n, jb_kind = k\<rparr>"

fun job_kind_ok :: "job_kind \<Rightarrow> bool" where
  "job_kind_ok (MutationJob c) = True"
| "job_kind_ok (ReadJob c) \<longleftrightarrow> is_read c \<and> c \<noteq> CloseOwner"

text \<open>What the environment of an order guarantees: fresh identifiers, and deliveries bound without a receipt.\<close>

fun command_allowed :: "env \<Rightarrow> req_state \<Rightarrow> store_command \<Rightarrow> bool" where
  "command_allowed env s (Mutate (Requested x)) = op_allowed env s x"
| "command_allowed env s _ = True"

text \<open>
  The events of the child that fail the store. Its \<open>error\<close> event may come at any time, also while a mutation is unconfirmed.
\<close>

inductive store_event :: "request_store \<Rightarrow> request_store \<Rightarrow> bool" for s where
  timed_out: "store_event s (command_timed_out i s)"
| dispatch_failed: "store_event s (send_failed i s)"
| startup: "store_event s (startup_timed_out s)"
| error: "store_event s (child_error s)"
| transport: "store_event s (transport_failed s)"

inductive world_step :: "store_world \<Rightarrow> store_world \<Rightarrow> bool" for w where
  submitted: "submit (new_job (pw_calls w) k) (pw_store w) = Inr s \<Longrightarrow> job_kind_ok k
    \<Longrightarrow> world_step w (w\<lparr>pw_store := s, pw_calls := pw_calls w + 1\<rparr>)"
| turned_down: "submit (new_job (pw_calls w) k) (pw_store w) = Inl e
    \<Longrightarrow> world_step w (settled (pw_calls w) None (Inl (StoreFailed e)) (pw_store w) w\<lparr>pw_calls := pw_calls w + 1\<rparr>)"
| readied: "\<not> so_closing (pw_store w) \<Longrightarrow> world_step w (w\<lparr>pw_store := launch (pw_store w)\<rparr>)"
| sends: "so_active (pw_store w) = Some (j, st) \<Longrightarrow> resume_job throws resolve i now j st (pw_store w) = Sends s x
    \<Longrightarrow> i \<notin> fst ` set (pw_sent w) \<Longrightarrow> world_step w (sent_order i (Some (jb_id j)) x s w)"
| settles: "so_active (pw_store w) = Some (j, st) \<Longrightarrow> resume_job throws resolve i now j st (pw_store w) = Settles r s
    \<Longrightarrow> world_step w (settled (jb_id j) (stage_command st) r s w)"
| owner_starts: "so_launched (pw_store w) \<Longrightarrow> \<not> pw_started w \<Longrightarrow> world_step w (w\<lparr>pw_started := True, pw_running := True,
      pw_owner := (pw_owner w)\<lparr>ow_locked := True\<rparr>,
      pw_replies := pw_replies w @ [ReadyMsg (Some (ow_revision (pw_owner w), readModel (ow_state (pw_owner w))))]\<rparr>)"
| owner_start_fails: "so_launched (pw_store w) \<Longrightarrow> \<not> pw_started w
    \<Longrightarrow> world_step w (w\<lparr>pw_started := True, pw_replies := pw_replies w @ [ReadyMsg None]\<rparr>)"
| owner_executes: "pw_running w \<Longrightarrow> pw_orders w = (i, x) # xs \<Longrightarrow> command_allowed (env\<lparr>env_now := or_timestamp x\<rparr>) (ow_state (pw_owner w)) (or_command x)
    \<Longrightarrow> owner_command env wk x (pw_owner w) = (r, ow) \<Longrightarrow> workings_of wk (ow_state (pw_owner w)) (ow_state ow)
    \<Longrightarrow> world_step w (executed i r ow w)"
| owner_dies: "pw_running w \<Longrightarrow> world_step w (w\<lparr>pw_running := False, pw_orders := [], pw_replies := take n (pw_replies w)\<rparr>)"
| ready_received: "pw_replies w = ReadyMsg m # ms \<Longrightarrow> world_step w (w\<lparr>pw_store := receive_ready m (pw_store w), pw_replies := ms\<rparr>)"
| reply_received: "pw_replies w = ReplyMsg i r # ms \<Longrightarrow> world_step w (w\<lparr>pw_store := receive_reply i r (pw_store w), pw_replies := ms\<rparr>)"
| happens: "store_event (pw_store w) s \<Longrightarrow> world_step w (w\<lparr>pw_store := s\<rparr>)"
| exits: "pw_started w \<Longrightarrow> \<not> pw_running w \<Longrightarrow> world_step w (w\<lparr>pw_store := child_closed clean (pw_store w)\<rparr>)"
| closes: "close_store (pw_store w) = (js, s)
    \<Longrightarrow> world_step w (w\<lparr>pw_store := s, pw_outcomes := pw_outcomes w @ map (\<lambda>j. (jb_id j, None, Inl (StoreFailed queue_closed))) js\<rparr>)"
| close_sends: "resume_close i now (pw_store w) = Some (s, Some (k, x)) \<Longrightarrow> i \<notin> fst ` set (pw_sent w)
    \<Longrightarrow> world_step w (sent_order k None x s w)"
| close_goes_on: "resume_close i now (pw_store w) = Some (s, None) \<Longrightarrow> world_step w (w\<lparr>pw_store := s\<rparr>)"

text \<open>
  The steps the store takes by itself: its active operation goes on. No caller, timer, message or event of the
  owner takes part.
\<close>

inductive own_step :: "store_world \<Rightarrow> store_world \<Rightarrow> bool" for w where
  sends: "so_active (pw_store w) = Some (j, st) \<Longrightarrow> resume_job throws resolve i now j st (pw_store w) = Sends s x
    \<Longrightarrow> i \<notin> fst ` set (pw_sent w) \<Longrightarrow> own_step w (sent_order i (Some (jb_id j)) x s w)"
| settles: "so_active (pw_store w) = Some (j, st) \<Longrightarrow> resume_job throws resolve i now j st (pw_store w) = Settles r s
    \<Longrightarrow> own_step w (settled (jb_id j) (stage_command st) r s w)"

lemma own_step_world: "own_step w v \<Longrightarrow> world_step w v"
  by (induction rule: own_step.induct) (auto intro: world_step.sends world_step.settles)

text \<open>The worlds a new store over a well-formed file can reach.\<close>

inductive reachable_world :: "store_world \<Rightarrow> bool" where
  new: "new_store n = Inr s \<Longrightarrow> state_ok st \<Longrightarrow> reachable_world (initial_world s st)"
| step: "reachable_world w \<Longrightarrow> world_step w v \<Longrightarrow> reachable_world v"

end
