(* ===== verification/StoreInv.thy ===== *)
theory StoreInv
  imports StoreWorld
begin

text \<open>
  The invariant of the store and its owner, in parts that read different fields: the queue of the calls
  (\<open>calls_ok\<close>), the one command that may be under way (\<open>rpc_ok\<close>), the order of the commands
  (\<open>sent_ok\<close>, \<open>orders_ok\<close>), the owner and its commits (\<open>owner_ok\<close>), the truth of the replies
  (\<open>truth_ok\<close>), the maps the store shows (\<open>view_ok\<close>), and the outcomes given to callers
  (\<open>outcomes_ok\<close>). For each operation of the store there is a lemma per part it can change.
\<close>

section \<open>What the store shows\<close>

definition shows_maps :: "requests \<times> deliveries \<Rightarrow> request_store \<Rightarrow> bool" where
  "shows_maps m s \<longleftrightarrow> map_of (so_requests s) = map_of (fst m)
     \<and> map_of (so_deliveries s) = map_option without_prompt \<circ> map_of (snd m)
     \<and> distinct (map fst (so_requests s)) \<and> distinct (map fst (so_deliveries s))"

definition delta_between :: "delta \<Rightarrow> requests \<times> deliveries \<Rightarrow> requests \<times> deliveries \<Rightarrow> bool" where
  "delta_between d m m' \<longleftrightarrow> (\<forall>s. shows_maps m s \<longrightarrow> shows_maps m' (apply_delta d s))"

lemma shows_maps_cong:
  "so_requests t = so_requests s \<Longrightarrow> so_deliveries t = so_deliveries s \<Longrightarrow> shows_maps m t = shows_maps m s"
  by (simp add: shows_maps_def)

lemma apply_delta_fields [simp]:
  "so_requests (apply_delta d s) = apply_changes rq_id (de_requests d, de_removedRequests d) (so_requests s)"
  "so_deliveries (apply_delta d s) = apply_changes dl_deliveryId (de_deliveries d, de_removedDeliveries d) (so_deliveries s)"
  "so_revision (apply_delta d s) = so_revision s" "so_loaded (apply_delta d s) = so_loaded s"
  "so_active (apply_delta d s) = so_active s" "so_waiting (apply_delta d s) = so_waiting s"
  "so_queued (apply_delta d s) = so_queued s" "so_maxQueue (apply_delta d s) = so_maxQueue s"
  "so_failure (apply_delta d s) = so_failure s" "so_closing (apply_delta d s) = so_closing s"
  "so_closure (apply_delta d s) = so_closure s" "so_launched (apply_delta d s) = so_launched s"
  "so_starting (apply_delta d s) = so_starting s" "so_initialized (apply_delta d s) = so_initialized s"
  "so_pending (apply_delta d s) = so_pending s" "so_answers (apply_delta d s) = so_answers s"
  by (simp_all add: apply_delta_def Let_def)

lemma without_prompt_id [simp]: "dl_deliveryId (without_prompt d) = dl_deliveryId d"
  by (simp add: without_prompt_def)

text \<open>The delta of a transaction turns a copy of the maps before into a copy of the maps after.\<close>

lemma transaction_delta_between:
  assumes "workings_of wk s t" "state_ok t"
  shows "delta_between (transaction_delta wk s) (st_requests s, st_deliveries s) (st_requests t, st_deliveries t)"
  unfolding delta_between_def
proof (intro allI impI)
  fix x assume m: "shows_maps (st_requests s, st_deliveries s) x"
  let ?r = "draft_run (wk_requests wk) (draft_of (st_requests s))"
  let ?d = "draft_run (wk_deliveries wk) (draft_of (st_deliveries s))"
  have r: "draft_committed ?r = st_requests t" "draft_committed ?d = st_deliveries t"
      "\<forall>u v. wk_sameRequest wk u v \<longrightarrow> u = v" "\<forall>u v. wk_sameDelivery wk u v \<longrightarrow> u = v"
    using assms(1) unfolding workings_of_def by blast+
  have keys: "\<forall>k v. map_of (dm_entries ?r) k = Some v \<longrightarrow> rq_id v = k" "\<forall>k v. map_of (dm_entries ?d) k = Some v \<longrightarrow> dl_deliveryId v = k"
    using r(1,2) assms(2) by (auto simp: draft_committed_def state_ok_def request_wf_def delivery_wf_def)
  have eqs: "de_requests (transaction_delta wk s) = fst (draft_changes (wk_sameRequest wk) ?r)"
      "de_removedRequests (transaction_delta wk s) = snd (draft_changes (wk_sameRequest wk) ?r)"
      "de_deliveries (transaction_delta wk s) = map without_prompt (fst (draft_changes (wk_sameDelivery wk) ?d))"
      "de_removedDeliveries (transaction_delta wk s) = snd (draft_changes (wk_sameDelivery wk) ?d)"
    by (simp_all add: transaction_delta_def split: prod.split)
  have "map_of (so_requests x) = map_option id \<circ> map_of (dm_previous ?r)"
    using m by (simp add: shows_maps_def option.map_id0)
  from apply_changes_image [where key = rq_id and g = id, OF draft_run_ok r(3) keys(1) _ this]
  have reqs: "map_of (apply_changes rq_id (de_requests (transaction_delta wk s), de_removedRequests (transaction_delta wk s)) (so_requests x))
      = map_of (st_requests t)"
    unfolding eqs r(1) by (simp add: option.map_id0)
  have "map_of (so_deliveries x) = map_option without_prompt \<circ> map_of (dm_previous ?d)"
    using m by (simp add: shows_maps_def)
  from apply_changes_image [where key = dl_deliveryId and g = without_prompt, OF draft_run_ok r(4) keys(2) _ this]
  have dels: "map_of (apply_changes dl_deliveryId (de_deliveries (transaction_delta wk s), de_removedDeliveries (transaction_delta wk s)) (so_deliveries x))
      = map_option without_prompt \<circ> map_of (st_deliveries t)"
    unfolding eqs r(2) by simp
  show "shows_maps (st_requests t, st_deliveries t) (apply_delta (transaction_delta wk s) x)"
    using m reqs dels by (simp add: shows_maps_def distinct_apply)
qed

section \<open>The owner\<close>

lemma returned_transaction:
  assumes "F s = returned f (g s)" "transaction F s = (v, t)"
  shows "\<exists>u. transaction g s = (u, t)"
proof (cases "g s")
  case (Pair r t')
  with assms show ?thesis by (cases r) (simp_all add: transaction_def)
qed

lemma mutation_step:
  assumes "transaction (apply_mutation env m) s = (v, t)" "command_allowed env s (Mutate m)"
  shows "req_step s t"
proof (cases m)
  case (Requested x)
  note step = returned_transaction [where F = "apply_mutation env m", OF _ assms(1)]
  show ?thesis
  proof (cases x)
    case (OpBind d)
    with step [of _ "bindEndpointDelivery env d"] Requested assms(2) show ?thesis by (auto intro: req_step.bind)
  next
    case (OpDispatch k)
    with step [of _ "markEndpointDispatching env k"] Requested show ?thesis by (auto intro: req_step.dispatch)
  next
    case (OpFailure k e b)
    with step [of _ "noteEndpointDeliveryFailure env k e b"] Requested show ?thesis by (auto intro: req_step.failure)
  next
    case (OpNotSent k p)
    with step [of _ "markEndpointNotSent env k p"] Requested show ?thesis by (auto intro: req_step.not_sent)
  next
    case (OpReceipt k r)
    with step [of _ "commitEndpointReceipt env k r"] Requested show ?thesis by (auto intro: req_step.receipt)
  next
    case (OpPrepare i)
    with step [of _ "prepare env i"] Requested assms(2) show ?thesis by (auto intro: req_step.prepare)
  next
    case (OpConnection k src d r n)
    with step [of _ "recordConnectionResponse env k src d r n"] Requested show ?thesis by (auto intro: req_step.connection)
  next
    case (OpEvidence p y)
    with step [of _ "bindResponseEvidence env p y"] Requested show ?thesis by (auto intro: req_step.evidence)
  next
    case (OpCommit p r)
    with step [of _ "commit env p r"] Requested show ?thesis by (auto intro: req_step.commit)
  next
    case (OpAbort p)
    with step [of _ "abort env p"] Requested show ?thesis by (auto intro: req_step.abort)
  next
    case (OpCancel k y)
    with step [of _ "cancel env k y"] Requested show ?thesis by (auto intro: req_step.cancel)
  next
    case (OpCancelDelivery k)
    with step [of _ "cancelEndpointDelivery env k"] Requested show ?thesis by (auto intro: req_step.cancel_delivery)
  qed
next
  case (Reconcile rs)
  with returned_transaction [where F = "apply_mutation env m" and g = "reconcileOpenParties env (resolutions_of rs)", OF _ assms(1)]
  show ?thesis by (auto intro: req_step.reconcile)
qed

text \<open>
  One order. A committed mutation is a step of the request state that appends its maps; everything else
  leaves the maps and the count alone.
\<close>

definition owner_ok :: "owner \<Rightarrow> (string \<times> store_value) list \<Rightarrow> (requests \<times> deliveries) list \<Rightarrow> bool" where
  "owner_ok ow commits history \<longleftrightarrow> state_ok (ow_state ow) \<and> length commits = ow_revision ow
     \<and> length history = Suc (ow_revision ow) \<and> last history = (st_requests (ow_state ow), st_deliveries (ow_state ow))"

lemma owner_mutate_cases:
  assumes "owner_mutate env wk m ow = (r, ow')" "state_ok (ow_state ow)" "command_allowed env (ow_state ow) (Mutate m)"
    and "workings_of wk (ow_state ow) (ow_state ow')"
  obtains (committed) v d where "r = Accepted (Suc (ow_revision ow)) (Some v) (Some d)" "ow_revision ow' = Suc (ow_revision ow)"
      "state_ok (ow_state ow')" "delta_between d (st_requests (ow_state ow), st_deliveries (ow_state ow))
        (st_requests (ow_state ow'), st_deliveries (ow_state ow'))"
  | (refused) e where "r = Refused (ow_revision ow) e" "ow_revision ow' = ow_revision ow" "state_ok (ow_state ow')"
      "st_requests (ow_state ow') = st_requests (ow_state ow)" "st_deliveries (ow_state ow') = st_deliveries (ow_state ow)"
proof -
  obtain x t where tr: "transaction (apply_mutation env m) (ow_state ow) = (x, t)" by force
  from mutation_step [OF tr assms(3)] assms(2) have ok: "state_ok t" using req_step_ok by blast
  show thesis
  proof (cases x)
    case (Inl e)
    from tr Inl have "st_requests t = st_requests (ow_state ow)" "st_deliveries t = st_deliveries (ow_state ow)"
      by (auto elim!: transaction_cases)
    with assms(1) tr Inl ok show thesis by (intro refused) (auto simp: owner_mutate_def)
  next
    case (Inr v)
    with assms(1) tr have r: "r = Accepted (Suc (ow_revision ow)) (Some v) (Some (transaction_delta wk (ow_state ow)))"
        "ow' = ow\<lparr>ow_state := t, ow_revision := Suc (ow_revision ow)\<rparr>"
      by (auto simp: owner_mutate_def)
    with assms(4) transaction_delta_between [of wk "ow_state ow" t] ok show thesis by (intro committed) simp_all
  qed
qed

section \<open>The parts of the invariant\<close>

definition live_jobs :: "request_store \<Rightarrow> job list" where
  "live_jobs s = (case so_active s of None \<Rightarrow> [] | Some (j, st) \<Rightarrow> [j]) @ so_waiting s"

text \<open>Every call is waiting, active, or has one outcome; the queue keeps the order of the calls and its bound.\<close>

definition calls_ok :: "nat \<Rightarrow> nat list \<Rightarrow> request_store \<Rightarrow> bool" where
  "calls_ok calls done s \<longleftrightarrow> so_queued s = length (live_jobs s) \<and> so_queued s \<le> so_maxQueue s
     \<and> (so_active s = None \<or> so_closing s \<longrightarrow> so_waiting s = []) \<and> sorted_wrt (<) (map jb_id (live_jobs s))
     \<and> (\<forall>j\<in>set (live_jobs s). job_kind_ok (jb_kind j))
     \<and> distinct (done @ map jb_id (live_jobs s)) \<and> set (done @ map jb_id (live_jobs s)) = {..<calls}"

text \<open>The command somebody awaits.\<close>

definition awaited :: "request_store \<Rightarrow> string option" where
  "awaited s = (case so_active s of
     Some (j, AwaitReply i) \<Rightarrow> Some i
   | _ \<Rightarrow> (case so_closure s of AwaitCloseReply i \<Rightarrow> Some i | _ \<Rightarrow> None))"

definition rpc_ok :: "(string \<times> nat option \<times> store_command) list \<Rightarrow> request_store \<Rightarrow> bool" where
  "rpc_ok sent s \<longleftrightarrow> (so_closing s \<longleftrightarrow> so_closure s \<noteq> NotClosed)
     \<and> (\<forall>i. so_closure s = AwaitCloseReply i \<longrightarrow> so_active s = None \<and> (i, None, CloseOwner) \<in> set sent)
     \<and> (\<forall>j i. so_active s = Some (j, AwaitReply i) \<longrightarrow> (\<exists>c. (i, Some (jb_id j), c) \<in> set sent \<and> c \<noteq> CloseOwner \<and> (is_read c \<longleftrightarrow> (\<exists>x. jb_kind j = ReadJob x))))
     \<and> (case awaited s of
          None \<Rightarrow> so_pending s = [] \<and> so_answers s = []
        | Some i \<Rightarrow> (\<exists>j c. so_pending s = [(i, c)] \<and> so_answers s = [] \<and> (i, j, c) \<in> set sent)
            \<or> (\<exists>x. so_pending s = [] \<and> so_answers s = [(i, x)]))
     \<and> (so_pending s \<noteq> [] \<longrightarrow> so_failure s = None) \<and> (so_pending s \<noteq> [] \<or> so_answers s \<noteq> [] \<longrightarrow> so_loaded s)
     \<and> (so_starting s \<longrightarrow> \<not> so_loaded s) \<and> (so_initialized s = Initialized \<longrightarrow> so_loaded s)
     \<and> (so_failure s = None \<and> so_initialized s \<noteq> Initializing \<longrightarrow> so_loaded s \<or> so_closing s \<and> \<not> so_launched s)"

definition sent_jobs :: "(string \<times> nat option \<times> store_command) list \<Rightarrow> nat list" where
  "sent_jobs sent = List.map_filter (\<lambda>(i, j, c). j) sent"

definition unsent :: "request_store \<Rightarrow> nat list" where
  "unsent s = (case so_active s of Some (j, AwaitReady) \<Rightarrow> [jb_id j] | _ \<Rightarrow> []) @ map jb_id (so_waiting s)"

definition sent_ok :: "nat \<Rightarrow> (string \<times> nat option \<times> store_command) list \<Rightarrow> request_store \<Rightarrow> bool" where
  "sent_ok n sent s \<longleftrightarrow> (\<forall>j\<in>set (sent_jobs sent). j < n) \<and> distinct (map fst sent) \<and> sorted_wrt (<) (sent_jobs sent @ unsent s)"

definition orders_ok :: "(string \<times> nat option \<times> store_command) list \<Rightarrow> (string \<times> store_value) list \<Rightarrow> (string \<times> order) list \<Rightarrow> bool" where
  "orders_ok sent commits orders \<longleftrightarrow> subseq (map fst commits @ map fst orders) (map fst sent)
     \<and> (\<forall>i x. (i, x) \<in> set orders \<longrightarrow> (\<exists>j. (i, j, or_command x) \<in> set sent))"

definition sends_mutation :: "(string \<times> nat option \<times> store_command) list \<Rightarrow> string \<Rightarrow> bool" where
  "sends_mutation sent i \<longleftrightarrow> (\<exists>j c. (i, j, c) \<in> set sent \<and> \<not> is_read c)"

definition reply_true :: "store_world \<Rightarrow> string \<Rightarrow> owner_reply \<Rightarrow> bool" where
  "reply_true w i r \<longleftrightarrow> i \<in> fst ` set (pw_sent w) \<and> (case r of
     Accepted n (Some v) (Some d) \<Rightarrow> sends_mutation (pw_sent w) i \<and> (i, v) \<in> set (pw_commits w) \<and> n < length (pw_history w)
       \<and> (\<exists>m. n = Suc m \<and> delta_between d (pw_history w ! m) (pw_history w ! n))
   | Accepted n v x \<Rightarrow> x = None \<and> \<not> sends_mutation (pw_sent w) i
   | Refused n e \<Rightarrow> i \<notin> fst ` set (pw_commits w) \<and> i \<notin> fst ` set (pw_orders w))"

definition truth_ok :: "store_world \<Rightarrow> bool" where
  "truth_ok w \<longleftrightarrow> (\<forall>i r. ReplyMsg i r \<in> set (pw_replies w) \<or> (i, Inr r) \<in> set (so_answers (pw_store w)) \<longrightarrow> reply_true w i r)
     \<and> (\<forall>i e. (i, Inl e) \<in> set (so_answers (pw_store w)) \<longrightarrow> sends_mutation (pw_sent w) i \<longrightarrow> e = start_failure \<or> un_unknown e)"

fun is_ready :: "owner_message \<Rightarrow> bool" where
  "is_ready (ReadyMsg m) = True"
| "is_ready _ = False"

definition view_ok :: "store_world \<Rightarrow> bool" where
  "view_ok w \<longleftrightarrow> (let s = pw_store w in
     (pw_started w \<longrightarrow> so_launched s)
     \<and> (so_loaded s \<longrightarrow> pw_started w \<and> so_revision s < length (pw_history w) \<and> shows_maps (pw_history w ! so_revision s) s)
     \<and> (\<not> so_loaded s \<longrightarrow> so_requests s = [] \<and> so_deliveries s = [])
     \<and> length (filter is_ready (pw_replies w)) \<le> (if pw_started w \<and> \<not> so_loaded s then 1 else 0)
     \<and> (\<forall>n m. ReadyMsg (Some (n, m)) \<in> set (pw_replies w) \<longrightarrow> n < length (pw_history w)
          \<and> (\<exists>st. m = readModel st \<and> state_ok st \<and> pw_history w ! n = (st_requests st, st_deliveries st))))"

definition outcome_true :: "store_world \<Rightarrow> nat \<Rightarrow> string option \<Rightarrow> store_error + store_value \<Rightarrow> bool" where
  "outcome_true w j r x \<longleftrightarrow> (case r of
     None \<Rightarrow> j \<notin> set (sent_jobs (pw_sent w)) \<and> \<not> is_ok x
   | Some i \<Rightarrow> (\<exists>c. (i, Some j, c) \<in> set (pw_sent w)) \<and> (sends_mutation (pw_sent w) i \<longrightarrow> (case x of
       Inr v \<Rightarrow> (i, v) \<in> set (pw_commits w)
     | Inl (OwnerError e) \<Rightarrow> i \<notin> fst ` set (pw_commits w) \<and> i \<notin> fst ` set (pw_orders w)
     | Inl (StoreFailed e) \<Rightarrow> e = start_failure \<or> un_unknown e)))"

definition outcomes_ok :: "store_world \<Rightarrow> bool" where
  "outcomes_ok w \<longleftrightarrow> (\<forall>j r x. (j, r, x) \<in> set (pw_outcomes w) \<longrightarrow> outcome_true w j r x)"

definition world_ok :: "store_world \<Rightarrow> bool" where
  "world_ok w \<longleftrightarrow> calls_ok (pw_calls w) (map fst (pw_outcomes w)) (pw_store w)
     \<and> rpc_ok (pw_sent w) (pw_store w) \<and> sent_ok (pw_calls w) (pw_sent w) (pw_store w)
     \<and> orders_ok (pw_sent w) (pw_commits w) (pw_orders w)
     \<and> owner_ok (pw_owner w) (pw_commits w) (pw_history w)
     \<and> truth_ok w \<and> view_ok w \<and> outcomes_ok w"

lemma world_okD:
  assumes "world_ok w"
  shows "calls_ok (pw_calls w) (map fst (pw_outcomes w)) (pw_store w)" "rpc_ok (pw_sent w) (pw_store w)"
    "sent_ok (pw_calls w) (pw_sent w) (pw_store w)" "orders_ok (pw_sent w) (pw_commits w) (pw_orders w)"
    "owner_ok (pw_owner w) (pw_commits w) (pw_history w)" "truth_ok w" "view_ok w" "outcomes_ok w"
  using assms unfolding world_ok_def by blast+

section \<open>The owner executes an order\<close>

lemma nth_append_less: "n < length xs \<Longrightarrow> (xs @ ys) ! n = xs ! n"
  by (simp add: nth_append)

lemma executed_fields [simp]:
  "pw_store (executed i r ow w) = pw_store w" "pw_owner (executed i r ow w) = ow"
  "pw_sent (executed i r ow w) = pw_sent w" "pw_calls (executed i r ow w) = pw_calls w"
  "pw_outcomes (executed i r ow w) = pw_outcomes w" "pw_started (executed i r ow w) = pw_started w"
  "pw_orders (executed i r ow w) = tl (pw_orders w)" "pw_commits (executed i r ow w) = pw_commits w @ commit_of i r"
  by (simp_all add: executed_def)

text \<open>What an order can do to the world, as far as the invariant reads it.\<close>

lemma owner_command_cases:
  assumes "owner_command env wk x ow = (r, ow')" "owner_ok ow commits history"
    and "command_allowed (env\<lparr>env_now := or_timestamp x\<rparr>) (ow_state ow) (or_command x)"
    and "workings_of wk (ow_state ow) (ow_state ow')"
  obtains (silent) "r = None" "ow' = ow"
  | (committed) n v d where "r = Some (Accepted (Suc n) (Some v) (Some d))" "n = ow_revision ow" "Suc n = ow_revision ow'" "\<not> is_read (or_command x)"
      "state_ok (ow_state ow')" "delta_between d (last history) (st_requests (ow_state ow'), st_deliveries (ow_state ow'))"
  | (answered) n v where "r = Some (Accepted n v None)" "is_read (or_command x)" "ow_state ow' = ow_state ow" "ow_revision ow' = ow_revision ow"
  | (refused) n e where "r = Some (Refused n e)" "ow_revision ow' = ow_revision ow" "state_ok (ow_state ow')"
      "st_requests (ow_state ow') = st_requests (ow_state ow)" "st_deliveries (ow_state ow') = st_deliveries (ow_state ow)"
proof -
  let ?env = "env\<lparr>env_now := or_timestamp x\<rparr>"
  have ok: "state_ok (ow_state ow)" and last: "last history = (st_requests (ow_state ow), st_deliveries (ow_state ow))"
    using assms(2) by (simp_all add: owner_ok_def)
  consider "ow_stopping ow" | "\<not> ow_stopping ow" "or_command x = CloseOwner"
    | e where "\<not> ow_stopping ow" "or_command x \<noteq> CloseOwner" "owner_command env wk x ow = (Some (Refused (ow_revision ow) e), ow)"
    | "\<not> ow_stopping ow" "or_command x \<noteq> CloseOwner" "\<not> ow_fenced ow" "or_revision x = ow_revision ow"
  proof -
    note cases = that
    show ?thesis
    proof (cases "ow_stopping ow \<or> or_command x = CloseOwner")
      case True
      with cases(1,2) show ?thesis by blast
    next
      case False
      then show ?thesis
        using cases(3) [of fenced_error] cases(3) [of "Err ''Agent request owner revision mismatch.''"] cases(4)
        by (cases "ow_fenced ow"; cases "or_revision x = ow_revision ow") (simp_all add: owner_command_def)
    qed
  qed
  then show thesis
  proof cases
    case 1
    with assms(1) show thesis by (intro silent) (simp_all add: owner_command_def)
  next
    case 2
    with assms(1) show thesis by (intro answered) (auto simp: owner_command_def)
  next
    case 3
    with assms(1) ok show thesis by (intro refused) auto
  next
    case 4
    show thesis
    proof (cases "or_command x")
      case (Mutate m)
      with 4 assms(1) obtain y where m: "owner_mutate ?env wk m ow = (y, ow')" "r = Some y"
        by (cases "owner_mutate ?env wk m ow") (auto simp: owner_command_def)
      from assms(3) Mutate have "command_allowed ?env (ow_state ow) (Mutate m)" by simp
      from m(1) ok this assms(4) show thesis
        by (cases rule: owner_mutate_cases) (use m(2) last committed refused Mutate in auto)
    next
      case CloseOwner
      with 4 show thesis by simp
    qed (use 4 assms(1) ok answered refused in \<open>auto simp: owner_command_def split: sum.splits\<close>)
  qed
qed

text \<open>An order leaves the truth of earlier replies and outcomes alone.\<close>

lemma commit_of_mem: "(k, v) \<in> set (commit_of i r) \<Longrightarrow> k = i"
  by (auto simp: commit_of_def split: option.splits owner_reply.splits)

lemma reply_true_executed:
  assumes "reply_true w k y" "pw_orders w = (i, x) # xs"
  shows "reply_true (executed i r ow w) k y"
proof -
  have hist: "pw_history (executed i r ow w) = pw_history w @ (if commit_of i r = [] then [] else [(st_requests (ow_state ow), st_deliveries (ow_state ow))])"
    by (simp add: executed_def)
  show ?thesis
  proof (cases y)
    case (Accepted n v d)
    with assms(1) show ?thesis
      by (auto simp: reply_true_def hist nth_append_less split: option.splits)
  next
    case (Refused n e)
    with assms have "k \<noteq> i" "k \<notin> fst ` set (pw_commits w)" "k \<notin> fst ` set xs" by (auto simp: reply_true_def)
    moreover have "k \<notin> fst ` set (commit_of i r)" using \<open>k \<noteq> i\<close> commit_of_mem by fastforce
    ultimately show ?thesis using Refused assms by (simp add: reply_true_def image_Un)
  qed
qed

lemma outcome_true_executed:
  assumes "outcome_true w j k y" "pw_orders w = (i, x) # xs"
  shows "outcome_true (executed i r ow w) j k y"
proof (cases k)
  case None
  with assms(1) show ?thesis by (simp add: outcome_true_def)
next
  case (Some c)
  have "c \<notin> fst ` set (commit_of i r)" if "c \<noteq> i" using that commit_of_mem by fastforce
  with assms Some show ?thesis
    by (auto simp: outcome_true_def split: sum.splits store_error.splits)
qed

lemma orders_ok_executed:
  assumes "orders_ok sent commits ((i, x) # xs)"
  shows "orders_ok sent (commits @ commit_of i r) xs"
proof -
  have "subseq (map fst (commits @ commit_of i r) @ map fst xs) (map fst commits @ map fst ((i, x) # xs))"
    by (auto simp: commit_of_def split: option.splits owner_reply.splits intro: list_emb_append_mono)
  with assms show ?thesis
    unfolding orders_ok_def by (auto intro: subseq_order.trans)
qed

lemma orders_distinct:
  assumes "orders_ok sent commits orders" "distinct (map fst sent)"
  shows "distinct (map fst commits @ map fst orders)"
proof -
  have "distinct xs" if "subseq xs ys" "distinct ys" for xs ys :: "string list"
    using that by (induction rule: list_emb.induct) (auto dest: list_emb_set)
  with assms show ?thesis unfolding orders_ok_def by blast
qed

lemma sent_unique: "distinct (map fst sent) \<Longrightarrow> (i, j, c) \<in> set sent \<Longrightarrow> (i, j', c') \<in> set sent \<Longrightarrow> j' = j \<and> c' = c"
  by (metis Pair_inject eq_key_imp_eq_value)

lemma reply_of_order:
  assumes "world_ok w" "pw_orders w = (i, x) # xs" "commit_of i r = []" "r = Some y"
    and "(case y of Accepted n v d \<Rightarrow> d = None \<and> is_read (or_command x) | Refused n e \<Rightarrow> True)"
  shows "reply_true (executed i r ow w) i y"
proof -
  note ok = world_okD [OF assms(1)]
  from ok(4) assms(2) obtain j where j: "(i, j, or_command x) \<in> set (pw_sent w)" by (auto simp: orders_ok_def)
  have dist: "distinct (map fst (pw_sent w))" using ok(3) by (simp add: sent_ok_def)
  have sent: "i \<in> fst ` set (pw_sent w)" using j by force
  have only: "\<not> sends_mutation (pw_sent w) i" if "is_read (or_command x)"
    using that sent_unique [OF dist j] unfolding sends_mutation_def by blast
  have "distinct (map fst (pw_commits w) @ map fst (pw_orders w))" by (rule orders_distinct [OF ok(4) dist])
  with assms(2) have "i \<notin> fst ` set (pw_commits w)" "i \<notin> fst ` set xs" by auto
  with assms sent only show ?thesis by (cases y) (auto simp: reply_true_def split: option.splits)
qed

lemma history_executed: "pw_history (executed i r ow w)
    = pw_history w @ (if commit_of i r = [] then [] else [(st_requests (ow_state ow), st_deliveries (ow_state ow))])"
  by (simp add: executed_def)

lemma replies_executed: "pw_replies (executed i r ow w) = pw_replies w @ (case r of None \<Rightarrow> [] | Some x \<Rightarrow> [ReplyMsg i x])"
  by (simp add: executed_def)

lemma view_ok_executed: "view_ok w \<Longrightarrow> view_ok (executed i r ow w)"
proof -
  assume ok: "view_ok w"
  have ready: "filter is_ready (pw_replies (executed i r ow w)) = filter is_ready (pw_replies w)"
    by (simp add: replies_executed split: option.split)
  have mem: "ReadyMsg m \<in> set (pw_replies (executed i r ow w)) \<longleftrightarrow> ReadyMsg m \<in> set (pw_replies w)" for m
    by (auto simp: replies_executed split: option.split)
  have len: "length (pw_history w) \<le> length (pw_history (executed i r ow w))" by (simp add: history_executed)
  have nth: "pw_history (executed i r ow w) ! n = pw_history w ! n" if "n < length (pw_history w)" for n
    using that by (simp add: history_executed nth_append_less)
  have less: "n < length (pw_history (executed i r ow w))" if "n < length (pw_history w)" for n using that len by simp
  have loaded: "so_loaded (pw_store w) \<longrightarrow> pw_started w \<and> so_revision (pw_store w) < length (pw_history (executed i r ow w))
      \<and> shows_maps (pw_history (executed i r ow w) ! so_revision (pw_store w)) (pw_store w)"
    using ok less nth unfolding view_ok_def Let_def by simp
  have published: "\<forall>n m. ReadyMsg (Some (n, m)) \<in> set (pw_replies w) \<longrightarrow> n < length (pw_history (executed i r ow w))
      \<and> (\<exists>st. m = readModel st \<and> state_ok st \<and> pw_history (executed i r ow w) ! n = (st_requests st, st_deliveries st))"
    using ok less nth unfolding view_ok_def Let_def by simp
  show ?thesis
    using ok loaded published unfolding view_ok_def Let_def executed_fields ready mem by blast
qed

lemma owner_executes_ok:
  assumes ok: "world_ok w" and x: "pw_orders w = (i, x) # xs"
    and allowed: "command_allowed (env\<lparr>env_now := or_timestamp x\<rparr>) (ow_state (pw_owner w)) (or_command x)"
    and run: "owner_command env wk x (pw_owner w) = (r, ow)" and wk: "workings_of wk (ow_state (pw_owner w)) (ow_state ow)"
  shows "world_ok (executed i r ow w)"
proof -
  note parts = world_okD [OF ok]
  from run parts(5) allowed wk
  have "owner_ok ow (pw_commits (executed i r ow w)) (pw_history (executed i r ow w))
    \<and> (\<forall>y. r = Some y \<longrightarrow> reply_true (executed i r ow w) i y)"
  proof (cases rule: owner_command_cases)
    case silent
    with parts(5) show ?thesis by (simp add: history_executed commit_of_def)
  next
    case (committed n v d)
    have c: "commit_of i r = [(i, v)]" by (simp add: commit_of_def committed(1))
    obtain j where "(i, j, or_command x) \<in> set (pw_sent w)" using parts(4) x by (auto simp: orders_ok_def)
    with committed(4) have sent: "i \<in> fst ` set (pw_sent w)" "sends_mutation (pw_sent w) i" by (force simp: sends_mutation_def)+
    have len: "length (pw_history w) = Suc n" "pw_history w \<noteq> []" using parts(5) committed(2) by (auto simp: owner_ok_def)
    have "last (pw_history w) = pw_history w ! n" using len by (simp add: last_conv_nth)
    with committed(6) len have "delta_between d (pw_history (executed i r ow w) ! n) (pw_history (executed i r ow w) ! Suc n)"
      by (simp add: history_executed c nth_append)
    with committed(1) sent len(1) have "\<forall>y. r = Some y \<longrightarrow> reply_true (executed i r ow w) i y"
      by (simp add: reply_true_def history_executed c commit_of_def)
    with parts(5) committed(2-5) show ?thesis by (simp add: owner_ok_def history_executed c)
  next
    case (answered n v)
    then have c: "commit_of i r = []" by (cases v) (simp_all add: commit_of_def)
    with parts(5) answered have "owner_ok ow (pw_commits (executed i r ow w)) (pw_history (executed i r ow w))"
      by (simp add: owner_ok_def history_executed)
    with reply_of_order [OF ok x c answered(1)] answered show ?thesis by simp
  next
    case (refused n e)
    then have c: "commit_of i r = []" by (simp add: commit_of_def)
    with parts(5) refused have "owner_ok ow (pw_commits (executed i r ow w)) (pw_history (executed i r ow w))"
      by (simp add: owner_ok_def history_executed)
    with reply_of_order [OF ok x c refused(1)] refused(1) show ?thesis by simp
  qed
  moreover have "truth_ok (executed i r ow w)" if "\<forall>y. r = Some y \<longrightarrow> reply_true (executed i r ow w) i y"
    using parts(6) that reply_true_executed [OF _ x]
    unfolding truth_ok_def replies_executed executed_fields by (auto split: option.splits)
  moreover have "outcomes_ok (executed i r ow w)"
    using parts(8) outcome_true_executed [OF _ x] unfolding outcomes_ok_def executed_fields by blast
  moreover have "orders_ok (pw_sent w) (pw_commits w @ commit_of i r) (tl (pw_orders w))"
    using orders_ok_executed [of "pw_sent w" "pw_commits w" i x xs] parts(4) x by simp
  ultimately show ?thesis
    using parts(1-3) view_ok_executed [OF parts(7)] by (simp add: world_ok_def)
qed

lemma owner_dies_ok:
  assumes ok: "world_ok w"
  shows "world_ok (w\<lparr>pw_running := False, pw_orders := [], pw_replies := take n (pw_replies w)\<rparr>)"
proof -
  let ?w = "w\<lparr>pw_running := False, pw_orders := [], pw_replies := take n (pw_replies w)\<rparr>"
  note parts = world_okD [OF ok]
  have true: "reply_true ?w i r" if "reply_true w i r" for i r
    using that by (auto simp: reply_true_def split: owner_reply.splits option.splits)
  have out: "outcome_true ?w j k y" if "outcome_true w j k y" for j k y
    using that by (auto simp: outcome_true_def split: option.splits sum.splits store_error.splits)
  have orders: "orders_ok (pw_sent w) (pw_commits w) []"
    using parts(4) subseq_order.trans [of "map fst (pw_commits w)" "map fst (pw_commits w) @ map fst (pw_orders w)"]
    by (simp add: orders_ok_def list_emb_append2 subseq_rev_drop_many)
  have ready: "length (filter is_ready (take n (pw_replies w))) \<le> length (filter is_ready (pw_replies w))"
    by (metis append_take_drop_id filter_append le_add1 length_append)
  have mem: "y \<in> set (take n (pw_replies w)) \<Longrightarrow> y \<in> set (pw_replies w)" for y by (rule in_set_takeD)
  have "view_ok ?w" using parts(7) ready mem unfolding view_ok_def Let_def by (auto split: if_splits)
  moreover have "truth_ok ?w" using parts(6) mem true unfolding truth_ok_def by auto
  moreover have "outcomes_ok ?w" using parts(8) out unfolding outcomes_ok_def by auto
  ultimately show ?thesis using parts(1-5) orders by (simp add: world_ok_def)
qed

section \<open>A change of the store\<close>

lemma reply_true_store [simp]: "reply_true (w\<lparr>pw_store := s\<rparr>) i r = reply_true w i r"
  by (simp add: reply_true_def split: owner_reply.split option.split)

lemma outcome_true_store [simp]: "outcome_true (w\<lparr>pw_store := s\<rparr>) j r x = outcome_true w j r x"
  by (simp add: outcome_true_def split: option.split sum.split store_error.split)

lemma outcomes_store [simp]: "outcomes_ok (w\<lparr>pw_store := s\<rparr>) = outcomes_ok w"
  by (simp add: outcomes_ok_def)

lemma world_store:
  assumes "world_ok w" "calls_ok (pw_calls w) (map fst (pw_outcomes w)) s" "rpc_ok (pw_sent w) s" "sent_ok (pw_calls w) (pw_sent w) s"
    "truth_ok (w\<lparr>pw_store := s\<rparr>)" "view_ok (w\<lparr>pw_store := s\<rparr>)"
  shows "world_ok (w\<lparr>pw_store := s\<rparr>)"
  using assms by (simp add: world_ok_def outcomes_ok_def)

lemma truth_store:
  assumes "truth_ok w"
    and "\<And>i x. (i, x) \<in> set (so_answers s) \<Longrightarrow> (i, x) \<in> set (so_answers (pw_store w))
      \<or> (\<exists>e. x = Inl e \<and> (sends_mutation (pw_sent w) i \<longrightarrow> e = start_failure \<or> un_unknown e))"
  shows "truth_ok (w\<lparr>pw_store := s\<rparr>)"
  using assms unfolding truth_ok_def by (simp, metis Inl_Inr_False sum.inject(1))

lemma view_store:
  assumes "view_ok w" "so_loaded s = so_loaded (pw_store w)" "so_revision s = so_revision (pw_store w)"
    "so_requests s = so_requests (pw_store w)" "so_deliveries s = so_deliveries (pw_store w)" "so_launched (pw_store w) \<longrightarrow> so_launched s"
  shows "view_ok (w\<lparr>pw_store := s\<rparr>)"
  using assms shows_maps_cong [of s "pw_store w"] unfolding view_ok_def Let_def by simp

lemma calls_cong:
  assumes "calls_ok n done s" "so_active t = so_active s" "so_waiting t = so_waiting s" "so_queued t = so_queued s"
    "so_maxQueue t = so_maxQueue s" "so_closing t = so_closing s"
  shows "calls_ok n done t"
  using assms by (simp add: calls_ok_def live_jobs_def)

lemma sent_cong:
  "sent_ok n sent s \<Longrightarrow> so_active t = so_active s \<Longrightarrow> so_waiting t = so_waiting s \<Longrightarrow> sent_ok n sent t"
  by (simp add: sent_ok_def unsent_def)

lemma rpc_cong:
  assumes "rpc_ok sent s" "so_active t = so_active s" "so_closing t = so_closing s" "so_closure t = so_closure s"
    "so_pending t = so_pending s" "so_answers t = so_answers s" "so_failure t = so_failure s" "so_loaded t = so_loaded s"
    "so_starting t \<longrightarrow> so_starting s" "so_initialized t = so_initialized s" "so_launched t = so_launched s"
  shows "rpc_ok sent t"
proof -
  have "awaited t = awaited s" unfolding awaited_def assms(2,4) by (rule refl)
  with assms show ?thesis unfolding rpc_ok_def by (auto split: option.splits)
qed

section \<open>Failing\<close>

lemma fail_fields [simp]:
  "so_active (fail_store e s) = so_active s" "so_waiting (fail_store e s) = so_waiting s" "so_queued (fail_store e s) = so_queued s"
  "so_maxQueue (fail_store e s) = so_maxQueue s" "so_closing (fail_store e s) = so_closing s" "so_closure (fail_store e s) = so_closure s"
  "so_loaded (fail_store e s) = so_loaded s" "so_revision (fail_store e s) = so_revision s" "so_requests (fail_store e s) = so_requests s"
  "so_deliveries (fail_store e s) = so_deliveries s" "so_launched (fail_store e s) = so_launched s" "\<not> so_starting (fail_store e s)"
  "so_pending (fail_store e s) = []" "so_failure (fail_store e s) = Some (case so_failure s of None \<Rightarrow> e | Some g \<Rightarrow> g)"
  "so_initialized (fail_store e s) = Initialized \<longleftrightarrow> so_initialized s = Initialized"
  by (simp_all add: fail_store_def reject_ready_def Let_def)

lemma fail_kept [simp]: "so_initialized s = Initialized \<Longrightarrow> so_initialized (fail_store e s) = Initialized"
  by simp

lemma fail_answers: "so_answers (fail_store e s)
    = so_answers s @ map (\<lambda>(i, c). (i, Inl (case so_failure s of None \<Rightarrow> e | Some g \<Rightarrow> g))) (so_pending s)"
  by (simp add: fail_store_def reject_ready_def Let_def)

lemma rpc_fail:
  assumes "rpc_ok sent s"
  shows "rpc_ok sent (fail_store e s)"
proof -
  have aw: "awaited (fail_store e s) = awaited s" unfolding awaited_def fail_fields by (rule refl)
  have "case awaited s of None \<Rightarrow> so_answers (fail_store e s) = [] | Some i \<Rightarrow> \<exists>x. so_answers (fail_store e s) = [(i, x)]"
    using assms unfolding rpc_ok_def by (cases "awaited s") (auto simp: fail_answers)
  moreover have "so_answers (fail_store e s) \<noteq> [] \<longrightarrow> so_loaded s"
    using assms unfolding rpc_ok_def by (auto simp: fail_answers)
  ultimately show ?thesis
    using assms unfolding rpc_ok_def aw by (simp split: option.splits)
qed

lemma fail_store_ok:
  assumes ok: "world_ok w"
    and e: "\<And>i c. (i, c) \<in> set (so_pending (pw_store w)) \<Longrightarrow> \<not> is_read c \<Longrightarrow> e = start_failure \<or> un_unknown e"
  shows "world_ok (w\<lparr>pw_store := fail_store e (pw_store w)\<rparr>)"
proof (rule world_store [OF ok])
  note parts = world_okD [OF ok]
  let ?s = "pw_store w"
  show "calls_ok (pw_calls w) (map fst (pw_outcomes w)) (fail_store e ?s)" by (rule calls_cong [OF parts(1)]) simp_all
  show "rpc_ok (pw_sent w) (fail_store e ?s)" by (rule rpc_fail [OF parts(2)])
  show "sent_ok (pw_calls w) (pw_sent w) (fail_store e ?s)" by (rule sent_cong [OF parts(3)]) simp_all
  show "view_ok (w\<lparr>pw_store := fail_store e ?s\<rparr>)" by (rule view_store [OF parts(7)]) simp_all
  show "truth_ok (w\<lparr>pw_store := fail_store e ?s\<rparr>)"
  proof (rule truth_store [OF parts(6)])
    fix i x assume "(i, x) \<in> set (so_answers (fail_store e ?s))"
    then consider "(i, x) \<in> set (so_answers ?s)"
      | c where "(i, c) \<in> set (so_pending ?s)" "x = Inl (case so_failure ?s of None \<Rightarrow> e | Some g \<Rightarrow> g)"
      by (auto simp: fail_answers)
    then show "(i, x) \<in> set (so_answers ?s) \<or> (\<exists>e. x = Inl e \<and> (sends_mutation (pw_sent w) i \<longrightarrow> e = start_failure \<or> un_unknown e))"
    proof cases
      case (2 c)
      have dist: "distinct (map fst (pw_sent w))" using parts(3) by (simp add: sent_ok_def)
      have none: "so_failure ?s = None" and "\<exists>j. (i, j, c) \<in> set (pw_sent w)"
        using parts(2) 2(1) unfolding rpc_ok_def by (auto split: option.splits)
      then obtain j where "(i, j, c) \<in> set (pw_sent w)" by blast
      then have "sends_mutation (pw_sent w) i \<longrightarrow> \<not> is_read c" using sent_unique [OF dist] unfolding sends_mutation_def by blast
      with e [OF 2(1)] 2(2) none show ?thesis by auto
    qed simp
  qed
qed

lemma store_event_ok:
  assumes ok: "world_ok w" and ev: "store_event (pw_store w) s"
  shows "world_ok (w\<lparr>pw_store := s\<rparr>)"
proof -
  let ?s = "pw_store w"
  have one: "so_pending ?s = [] \<or> (\<exists>i c. so_pending ?s = [(i, c)])"
    using world_okD(2) [OF ok] unfolding rpc_ok_def by (auto split: option.splits)
  have same: "world_ok (w\<lparr>pw_store := ?s\<rparr>)" using ok by simp
  from ev show ?thesis
  proof (cases rule: store_event.cases)
    case (timed_out i)
    with one same show ?thesis
      by (auto simp: command_timed_out_def intro!: fail_store_ok [OF ok] split: option.splits if_splits)
  next
    case (dispatch_failed i)
    with one same show ?thesis
      by (auto simp: send_failed_def intro!: fail_store_ok [OF ok] split: option.splits if_splits)
  next
    case startup
    with world_okD(2) [OF ok] same show ?thesis
      by (auto simp: startup_timed_out_def rpc_ok_def intro!: fail_store_ok [OF ok])
  next
    case error
    then show ?thesis
      by (auto simp: child_error_def hasUnconfirmedMutation_def list_ex_iff intro!: fail_store_ok [OF ok])
  next
    case transport
    then show ?thesis
      by (auto simp: transport_failed_def hasUnconfirmedMutation_def list_ex_iff intro!: fail_store_ok [OF ok])
  qed
qed

lemma exited_ok: "world_ok (w\<lparr>pw_store := s\<rparr>) \<Longrightarrow> world_ok (w\<lparr>pw_store := s\<lparr>so_exited := True\<rparr>\<rparr>)"
proof -
  assume ok: "world_ok (w\<lparr>pw_store := s\<rparr>)"
  note parts = world_okD [OF ok]
  have "world_ok ((w\<lparr>pw_store := s\<rparr>)\<lparr>pw_store := s\<lparr>so_exited := True\<rparr>\<rparr>)"
  proof (rule world_store [OF ok])
    show "calls_ok (pw_calls (w\<lparr>pw_store := s\<rparr>)) (map fst (pw_outcomes (w\<lparr>pw_store := s\<rparr>))) (s\<lparr>so_exited := True\<rparr>)"
      using parts(1) by (rule calls_cong) simp_all
    show "rpc_ok (pw_sent (w\<lparr>pw_store := s\<rparr>)) (s\<lparr>so_exited := True\<rparr>)" using parts(2) by (rule rpc_cong) simp_all
    show "sent_ok (pw_calls (w\<lparr>pw_store := s\<rparr>)) (pw_sent (w\<lparr>pw_store := s\<rparr>)) (s\<lparr>so_exited := True\<rparr>)" using parts(3) by (rule sent_cong) simp_all
    show "truth_ok (w\<lparr>pw_store := s, pw_store := s\<lparr>so_exited := True\<rparr>\<rparr>)" using parts(6) by (rule truth_store) simp
    show "view_ok (w\<lparr>pw_store := s, pw_store := s\<lparr>so_exited := True\<rparr>\<rparr>)" using parts(7) by (rule view_store) simp_all
  qed
  then show ?thesis by simp
qed

lemma child_closed_ok:
  assumes "world_ok w"
  shows "world_ok (w\<lparr>pw_store := child_closed clean (pw_store w)\<rparr>)"
proof -
  let ?e = "unavailable ''Agent request persistence owner exited before its confirmed close.'' (hasUnconfirmedMutation (pw_store w))"
  have "world_ok (w\<lparr>pw_store := fail_store ?e (pw_store w)\<rparr>)"
    by (rule fail_store_ok [OF assms]) (auto simp: hasUnconfirmedMutation_def list_ex_iff)
  moreover have "world_ok (w\<lparr>pw_store := pw_store w\<rparr>)" using assms by simp
  ultimately show ?thesis unfolding child_closed_def Let_def by (intro exited_ok) simp
qed

section \<open>The queue\<close>

lemma launch_fields [simp]:
  "so_active (launch s) = so_active s" "so_waiting (launch s) = so_waiting s" "so_queued (launch s) = so_queued s"
  "so_maxQueue (launch s) = so_maxQueue s" "so_closing (launch s) = so_closing s" "so_closure (launch s) = so_closure s"
  "so_loaded (launch s) = so_loaded s" "so_revision (launch s) = so_revision s" "so_requests (launch s) = so_requests s"
  "so_deliveries (launch s) = so_deliveries s" "so_pending (launch s) = so_pending s" "so_answers (launch s) = so_answers s"
  "so_failure (launch s) = so_failure s" "so_initialized (launch s) = so_initialized s" "so_launched (launch s)"
  by (simp_all add: launch_def)

lemma starting_launch: "so_starting (launch s) \<longrightarrow> so_starting s \<or> \<not> so_launched s"
  by (simp add: launch_def)

lemma drain_fields [simp]:
  "so_queued (drain_waiting s) = so_queued s" "so_maxQueue (drain_waiting s) = so_maxQueue s" "so_closing (drain_waiting s) = so_closing s"
  "so_closure (drain_waiting s) = so_closure s" "so_loaded (drain_waiting s) = so_loaded s" "so_revision (drain_waiting s) = so_revision s"
  "so_requests (drain_waiting s) = so_requests s" "so_deliveries (drain_waiting s) = so_deliveries s" "so_pending (drain_waiting s) = so_pending s"
  "so_answers (drain_waiting s) = so_answers s" "so_failure (drain_waiting s) = so_failure s" "so_initialized (drain_waiting s) = so_initialized s"
  "so_launched s \<longrightarrow> so_launched (drain_waiting s)" "so_starting (drain_waiting s) \<longrightarrow> so_starting s \<or> \<not> so_launched s"
  "live_jobs (drain_waiting s) = live_jobs s" "unsent (drain_waiting s) = unsent s"
  by (auto simp: drain_waiting_def live_jobs_def unsent_def launch_def split: list.split option.split)

lemma drain_active:
  "so_active (drain_waiting s) = (if so_active s \<noteq> None \<or> so_closing s \<or> so_waiting s = [] then so_active s else Some (hd (so_waiting s), AwaitReady))"
  "so_waiting (drain_waiting s) = (if so_active s \<noteq> None \<or> so_closing s \<or> so_waiting s = [] then so_waiting s else tl (so_waiting s))"
  by (auto simp: drain_waiting_def split: list.split)

lemma awaited_drain: "(so_closing s \<longleftrightarrow> so_closure s \<noteq> NotClosed) \<Longrightarrow> awaited (drain_waiting s) = awaited s"
  unfolding awaited_def drain_fields(4) drain_active by (cases "so_active s") auto

lemma awaited_cong: "so_active t = so_active s \<Longrightarrow> so_closure t = so_closure s \<Longrightarrow> awaited t = awaited s"
  unfolding awaited_def by (simp only:)

text \<open>Before it drains, the queue may have a waiting job and no active one.\<close>

lemma calls_drain:
  assumes "so_queued s = length (live_jobs s)" "so_queued s \<le> so_maxQueue s" "so_closing s \<longrightarrow> so_waiting s = []"
    "so_active s = None \<longrightarrow> length (so_waiting s) \<le> 1 \<or> \<not> so_closing s"
    "sorted_wrt (<) (map jb_id (live_jobs s))" "\<forall>j\<in>set (live_jobs s). job_kind_ok (jb_kind j)"
    "distinct (done @ map jb_id (live_jobs s))" "set (done @ map jb_id (live_jobs s)) = {..<n}"
  shows "calls_ok n done (drain_waiting s)"
proof -
  have "so_active (drain_waiting s) = None \<or> so_closing (drain_waiting s) \<longrightarrow> so_waiting (drain_waiting s) = []"
    using assms(3) by (auto simp: drain_active)
  with assms show ?thesis by (simp add: calls_ok_def)
qed

lemma rpc_drain:
  assumes "rpc_ok sent s" "so_loaded s \<longrightarrow> so_launched s"
  shows "rpc_ok sent (drain_waiting s)"
proof -
  have cl: "so_closing s \<longleftrightarrow> so_closure s \<noteq> NotClosed" using assms(1) unfolding rpc_ok_def by blast
  note aw = awaited_drain [OF cl]
  have launched: "so_closing s \<and> \<not> so_launched s \<longrightarrow> \<not> so_launched (drain_waiting s)" by (simp add: drain_waiting_def)
  have act: "so_active (drain_waiting s) = so_active s \<or> so_closure s = NotClosed \<and> (\<exists>j. so_active (drain_waiting s) = Some (j, AwaitReady))"
    using cl by (auto simp: drain_active)
  have st: "so_starting (drain_waiting s) \<longrightarrow> \<not> so_loaded s"
    using assms drain_fields(14) [of s] unfolding rpc_ok_def by blast
  have parts: "\<forall>i. so_closure s = AwaitCloseReply i \<longrightarrow> so_active (drain_waiting s) = None \<and> (i, None, CloseOwner) \<in> set sent"
      "\<forall>j i. so_active (drain_waiting s) = Some (j, AwaitReply i) \<longrightarrow> (\<exists>c. (i, Some (jb_id j), c) \<in> set sent \<and> c \<noteq> CloseOwner \<and> (is_read c \<longleftrightarrow> (\<exists>x. jb_kind j = ReadJob x)))"
    using act assms(1) unfolding rpc_ok_def by auto
  show ?thesis
    using assms(1) cl st parts launched unfolding rpc_ok_def aw drain_fields(1-12) by blast
qed

lemma sent_drain: "sent_ok n sent s \<Longrightarrow> sent_ok n sent (drain_waiting s)"
  by (simp add: sent_ok_def)

lemma view_drain: "view_ok (w\<lparr>pw_store := s\<rparr>) \<Longrightarrow> view_ok (w\<lparr>pw_store := drain_waiting s\<rparr>)"
  using view_store [of "w\<lparr>pw_store := s\<rparr>" "drain_waiting s"] by simp

lemma loaded_launched: "view_ok w \<Longrightarrow> so_loaded (pw_store w) \<longrightarrow> so_launched (pw_store w)"
  unfolding view_ok_def Let_def by blast

lemma readied_ok:
  assumes ok: "world_ok w" and open': "\<not> so_closing (pw_store w)"
  shows "world_ok (w\<lparr>pw_store := launch (pw_store w)\<rparr>)"
proof (rule world_store [OF ok])
  note parts = world_okD [OF ok]
  let ?s = "pw_store w"
  show "calls_ok (pw_calls w) (map fst (pw_outcomes w)) (launch ?s)" by (rule calls_cong [OF parts(1)]) simp_all
  show "sent_ok (pw_calls w) (pw_sent w) (launch ?s)" by (rule sent_cong [OF parts(3)]) simp_all
  show "truth_ok (w\<lparr>pw_store := launch ?s\<rparr>)" by (rule truth_store [OF parts(6)]) simp
  show "view_ok (w\<lparr>pw_store := launch ?s\<rparr>)" by (rule view_store [OF parts(7)]) simp_all
  have "awaited (launch ?s) = awaited ?s" unfolding awaited_def launch_fields by (rule refl)
  moreover have "so_starting (launch ?s) \<longrightarrow> \<not> so_loaded ?s"
    using parts(2) loaded_launched [OF parts(7)] starting_launch [of ?s] unfolding rpc_ok_def by blast
  ultimately show "rpc_ok (pw_sent w) (launch ?s)"
    using parts(2) open' unfolding rpc_ok_def launch_fields by (simp split: option.splits)
qed

text \<open>A call enters the queue, or is turned down.\<close>

lemma outcome_calls [simp]: "outcomes_ok (w\<lparr>pw_calls := n\<rparr>) = outcomes_ok w" "truth_ok (w\<lparr>pw_calls := n\<rparr>) = truth_ok w"
    "view_ok (w\<lparr>pw_calls := n\<rparr>) = view_ok w"
  by (simp_all add: outcomes_ok_def outcome_true_def truth_ok_def reply_true_def view_ok_def cong: option.case_cong owner_reply.case_cong
      split: option.split sum.split store_error.split)

lemma submitted_ok:
  assumes ok: "world_ok w" and sub: "submit (new_job (pw_calls w) k) (pw_store w) = Inr s" and k: "job_kind_ok k"
  shows "world_ok (w\<lparr>pw_store := s, pw_calls := pw_calls w + 1\<rparr>)"
proof -
  note parts = world_okD [OF ok]
  let ?s = "pw_store w" and ?j = "new_job (pw_calls w) k"
  obtain t where t: "t = ?s\<lparr>so_queued := so_queued ?s + 1, so_waiting := so_waiting ?s @ [?j]\<rparr>" by simp
  from sub have "enqueue_job ?j ?s = Inr s"
    by (auto simp: submit_def split: job_kind.splits option.splits)
  then have open': "\<not> so_closing ?s" "so_queued ?s < so_maxQueue ?s" and s: "s = drain_waiting t"
    by (auto simp: enqueue_job_def t split: if_splits)
  have live: "live_jobs t = live_jobs ?s @ [?j]" "unsent t = unsent ?s @ [pw_calls w]"
    by (simp_all add: t live_jobs_def unsent_def new_job_def)
  have fields: "so_queued t = so_queued ?s + 1" "so_maxQueue t = so_maxQueue ?s" "so_active t = so_active ?s"
      "\<not> so_closing t" "jb_id ?j = pw_calls w" "jb_kind ?j = k"
    using open' by (simp_all add: t new_job_def)
  have below: "\<forall>j\<in>set (live_jobs ?s). jb_id j < pw_calls w" "\<forall>x\<in>set (map fst (pw_outcomes w)). x < pw_calls w"
    using parts(1) unfolding calls_ok_def by auto
  have unsent: "set (unsent ?s) \<subseteq> jb_id ` set (live_jobs ?s)"
    by (auto simp: unsent_def live_jobs_def split: option.splits stage.splits)
  have calls: "calls_ok (pw_calls w + 1) (map fst (pw_outcomes w)) s"
    unfolding s
  proof (rule calls_drain)
    show "sorted_wrt (<) (map jb_id (live_jobs t))"
      using parts(1) below(1) by (simp add: live fields calls_ok_def sorted_wrt_append)
    show "distinct (map fst (pw_outcomes w) @ map jb_id (live_jobs t))"
      using parts(1) below by (auto simp: live fields calls_ok_def)
    show "set (map fst (pw_outcomes w) @ map jb_id (live_jobs t)) = {..<pw_calls w + 1}"
      using parts(1) by (auto simp: live fields calls_ok_def)
    show "\<forall>j\<in>set (live_jobs t). job_kind_ok (jb_kind j)"
      using parts(1) k by (auto simp: live fields calls_ok_def)
  qed (use parts(1) open' fields in \<open>auto simp: live calls_ok_def\<close>)
  have rpc: "rpc_ok (pw_sent w) s"
    unfolding s by (rule rpc_drain, rule rpc_cong [OF parts(2)]) (use loaded_launched [OF parts(7)] in \<open>simp_all add: t\<close>)
  have "sent_ok (pw_calls w + 1) (pw_sent w) t"
    using parts(3) below(1) unsent by (auto simp: sent_ok_def live sorted_wrt_append)
  then have sent: "sent_ok (pw_calls w + 1) (pw_sent w) s" unfolding s by (rule sent_drain)
  have "view_ok (w\<lparr>pw_store := t\<rparr>)" by (rule view_store [OF parts(7)]) (simp_all add: t)
  then have view: "view_ok (w\<lparr>pw_store := s\<rparr>)" unfolding s by (rule view_drain)
  have truth: "truth_ok (w\<lparr>pw_store := s\<rparr>)" by (rule truth_store [OF parts(6)]) (simp add: s t)
  show ?thesis
    unfolding world_ok_def using calls rpc sent view truth parts(4,5,8) by simp
qed

lemma outcomes_add:
  assumes "outcomes_ok w" "outcome_true w j r x"
  shows "outcomes_ok (w\<lparr>pw_outcomes := pw_outcomes w @ [(j, r, x)]\<rparr>)"
proof -
  have "outcome_true (w\<lparr>pw_outcomes := os\<rparr>) i k y = outcome_true w i k y" for os i k y
    by (simp add: outcome_true_def split: option.split sum.split store_error.split)
  with assms show ?thesis by (auto simp: outcomes_ok_def)
qed

lemma outcomes_irrelevant [simp]: "truth_ok (w\<lparr>pw_outcomes := os\<rparr>) = truth_ok w" "view_ok (w\<lparr>pw_outcomes := os\<rparr>) = view_ok w"
  by (simp_all add: truth_ok_def reply_true_def view_ok_def split: owner_reply.split option.split)

lemma turned_down_ok:
  assumes ok: "world_ok w"
  shows "world_ok (settled (pw_calls w) None (Inl (StoreFailed e)) (pw_store w) w\<lparr>pw_calls := pw_calls w + 1\<rparr>)"
proof -
  note parts = world_okD [OF ok]
  have "calls_ok (pw_calls w + 1) (map fst (pw_outcomes w) @ [pw_calls w]) (pw_store w)"
    using parts(1) unfolding calls_ok_def by (auto simp: lessThan_Suc)
  moreover have "outcome_true w (pw_calls w) None (Inl (StoreFailed e))"
    using parts(3) by (auto simp: outcome_true_def sent_ok_def)
  moreover have "sent_ok (pw_calls w + 1) (pw_sent w) (pw_store w)" using parts(3) by (auto simp: sent_ok_def)
  ultimately show ?thesis
    using parts outcomes_add [OF parts(8)] by (simp add: world_ok_def settled_def)
qed

section \<open>Messages of the owner\<close>

lemma outcomes_cong:
  assumes "outcomes_ok w" "pw_outcomes v = pw_outcomes w" "pw_sent v = pw_sent w" "pw_commits v = pw_commits w" "pw_orders v = pw_orders w"
  shows "outcomes_ok v"
proof -
  have "outcome_true v j r x = outcome_true w j r x" for j r x
    using assms(3-5) by (simp add: outcome_true_def split: option.split sum.split store_error.split)
  with assms(1,2) show ?thesis by (simp add: outcomes_ok_def)
qed

lemma reply_true_cong:
  "pw_sent v = pw_sent w \<Longrightarrow> pw_commits v = pw_commits w \<Longrightarrow> pw_orders v = pw_orders w \<Longrightarrow> pw_history v = pw_history w
    \<Longrightarrow> reply_true v i r = reply_true w i r"
  by (simp add: reply_true_def split: owner_reply.split option.split)

lemma truth_replies:
  assumes "truth_ok w" "pw_sent v = pw_sent w" "pw_commits v = pw_commits w" "pw_orders v = pw_orders w" "pw_history v = pw_history w"
    and "so_answers (pw_store v) = so_answers (pw_store w)" "\<And>i r. ReplyMsg i r \<in> set (pw_replies v) \<Longrightarrow> ReplyMsg i r \<in> set (pw_replies w)"
  shows "truth_ok v"
proof -
  have "reply_true v i r = reply_true w i r" for i r by (rule reply_true_cong [OF assms(2-5)])
  with assms show ?thesis unfolding truth_ok_def by metis
qed

text \<open>Only the first part of the invariant that reads the messages is left to show.\<close>

lemma world_replies:
  assumes "world_ok w" "view_ok v" "truth_ok v" "pw_store v = pw_store w" "pw_sent v = pw_sent w" "pw_commits v = pw_commits w"
    "pw_orders v = pw_orders w" "pw_history v = pw_history w" "pw_outcomes v = pw_outcomes w" "pw_calls v = pw_calls w"
    "ow_state (pw_owner v) = ow_state (pw_owner w)" "ow_revision (pw_owner v) = ow_revision (pw_owner w)"
  shows "world_ok v"
  using assms outcomes_cong [OF world_okD(8) [OF assms(1)] assms(9,5,6,7)] by (simp add: world_ok_def owner_ok_def)

lemma owner_starts_ok:
  assumes ok: "world_ok w" and st: "so_launched (pw_store w)" "\<not> pw_started w"
  shows "world_ok (w\<lparr>pw_started := True, pw_running := True, pw_owner := (pw_owner w)\<lparr>ow_locked := True\<rparr>,
      pw_replies := pw_replies w @ [ReadyMsg (Some (ow_revision (pw_owner w), readModel (ow_state (pw_owner w))))]\<rparr>)"
    (is "world_ok ?v")
proof (rule world_replies [OF ok])
  note parts = world_okD [OF ok]
  from parts(7) st(2) have nl: "\<not> so_loaded (pw_store w)" "filter is_ready (pw_replies w) = []"
    unfolding view_ok_def Let_def by auto
  have none: "ReadyMsg m \<notin> set (pw_replies w)" for m using nl(2) by (auto simp: filter_empty_conv)
  have "pw_history w ! ow_revision (pw_owner w) = last (pw_history w)" "ow_revision (pw_owner w) < length (pw_history w)"
    using parts(5) last_conv_nth [of "pw_history w"] by (cases "pw_history w = []", auto simp: owner_ok_def)
  with parts(5) have "\<exists>st. readModel (ow_state (pw_owner w)) = readModel st \<and> state_ok st
      \<and> pw_history w ! ow_revision (pw_owner w) = (st_requests st, st_deliveries st)" "ow_revision (pw_owner w) < length (pw_history w)"
    unfolding owner_ok_def by auto
  with parts(7) nl st none show "view_ok ?v" unfolding view_ok_def Let_def by auto
  show "truth_ok ?v" by (rule truth_replies [OF parts(6)]) auto
qed simp_all

lemma owner_start_fails_ok:
  assumes ok: "world_ok w" and st: "so_launched (pw_store w)" "\<not> pw_started w"
  shows "world_ok (w\<lparr>pw_started := True, pw_replies := pw_replies w @ [ReadyMsg None]\<rparr>)" (is "world_ok ?v")
proof (rule world_replies [OF ok])
  note parts = world_okD [OF ok]
  from parts(7) st(2) have nl: "\<not> so_loaded (pw_store w)" "filter is_ready (pw_replies w) = []"
    unfolding view_ok_def Let_def by auto
  with parts(7) st show "view_ok ?v" unfolding view_ok_def Let_def by auto
  show "truth_ok ?v" by (rule truth_replies [OF parts(6)]) auto
qed simp_all

lemma drop_message_ok:
  assumes ok: "world_ok w" and m: "pw_replies w = m # ms"
  shows "world_ok (w\<lparr>pw_replies := ms\<rparr>)"
proof (rule world_replies [OF ok])
  note parts = world_okD [OF ok]
  from parts(7) m show "view_ok (w\<lparr>pw_replies := ms\<rparr>)" unfolding view_ok_def Let_def by (auto split: if_splits)
  show "truth_ok (w\<lparr>pw_replies := ms\<rparr>)" by (rule truth_replies [OF parts(6)]) (simp_all add: m)
qed simp_all

lemma reply_received_ok:
  assumes ok: "world_ok w" and m: "pw_replies w = ReplyMsg i r # ms"
  shows "world_ok (w\<lparr>pw_store := receive_reply i r (pw_store w), pw_replies := ms\<rparr>)"
proof -
  let ?v = "w\<lparr>pw_replies := ms\<rparr>" and ?s = "pw_store w"
  have v: "world_ok ?v" by (rule drop_message_ok [OF ok m])
  note parts = world_okD [OF v]
  have true: "reply_true ?v i r"
    using world_okD(6) [OF ok] m unfolding truth_ok_def by (simp add: reply_true_cong [of ?v w])
  have "world_ok (?v\<lparr>pw_store := receive_reply i r ?s\<rparr>)"
  proof (cases "so_failure ?s \<noteq> None \<or> map_of (so_pending ?s) i = None")
    case True
    then have "receive_reply i r ?s = ?s" by (auto simp: receive_reply_def)
    with v show ?thesis by simp
  next
    case False
    have rpc: "rpc_ok (pw_sent w) ?s" using parts(2) by simp
    from False obtain c where c: "(i, c) \<in> set (so_pending ?s)" by (auto dest: map_of_SomeD)
    with rpc have p: "awaited ?s = Some i" "so_pending ?s = [(i, c)]" "so_answers ?s = []"
      unfolding rpc_ok_def by (auto split: option.splits)
    then have s: "receive_reply i r ?s = ?s\<lparr>so_pending := [], so_answers := [(i, Inr r)]\<rparr>" (is "_ = ?t")
      using False by (simp add: receive_reply_def)
    show ?thesis unfolding s
    proof (rule world_store [OF v])
      show "calls_ok (pw_calls ?v) (map fst (pw_outcomes ?v)) ?t" using parts(1) by (rule calls_cong) simp_all
      show "sent_ok (pw_calls ?v) (pw_sent ?v) ?t" using parts(3) by (rule sent_cong) simp_all
      show "view_ok (?v\<lparr>pw_store := ?t\<rparr>)" using parts(7) by (rule view_store) simp_all
      have "awaited ?t = Some i" using p(1) awaited_cong [of ?t ?s] by simp
      with rpc p show "rpc_ok (pw_sent ?v) ?t" unfolding rpc_ok_def by auto
      show "truth_ok (?v\<lparr>pw_store := ?t\<rparr>)" using parts(6) true p(3) unfolding truth_ok_def by auto
    qed
  qed
  moreover have "w\<lparr>pw_store := receive_reply i r ?s, pw_replies := ms\<rparr> = ?v\<lparr>pw_store := receive_reply i r ?s\<rparr>" by (cases w) simp
  ultimately show ?thesis by (simp only:)
qed

text \<open>The initial projection: the store is empty until it comes.\<close>

lemma fold_update_values:
  assumes "distinct (map fst (acc @ m))" "\<forall>(k, v)\<in>set m. key (g v) = k"
  shows "fold (\<lambda>v. AList.update (key v) v) (map g (map_values m)) acc = acc @ map (\<lambda>(k, v). (k, g v)) m"
  using assms
proof (induction m arbitrary: acc)
  case (Cons x m)
  obtain k v where x: "x = (k, v)" by force
  have new: "AList.update k (g v) acc = acc @ [(k, g v)]"
    using Cons.prems(1) x by (induction acc) auto
  have "fold (\<lambda>v. AList.update (key v) v) (map g (map_values m)) (acc @ [(k, g v)]) = (acc @ [(k, g v)]) @ map (\<lambda>(k, v). (k, g v)) m"
    using Cons.prems x by (intro Cons.IH) auto
  with Cons.prems(2) x new show ?case by simp
qed simp

lemma published_maps:
  assumes "state_ok st" "so_requests s = []" "so_deliveries s = []"
  shows "shows_maps (st_requests st, st_deliveries st) (publishInitial (readModel st) s)"
proof -
  have dist: "distinct (map fst (st_requests st))" "distinct (map fst (st_deliveries st))"
    using assms(1) by (simp_all add: state_ok_def)
  have keys: "\<forall>(k, r)\<in>set (st_requests st). rq_id (id r) = k" "\<forall>(k, d)\<in>set (st_deliveries st). dl_deliveryId (without_prompt d) = k"
    using assms(1) dist by (auto simp: state_ok_def request_wf_def delivery_wf_def)
  have f: "so_requests (publishInitial (readModel st) s) = st_requests st"
    "so_deliveries (publishInitial (readModel st) s) = map (\<lambda>(k, d). (k, without_prompt d)) (st_deliveries st)"
    using fold_update_values [of "[]" "st_requests st" rq_id id] fold_update_values [of "[]" "st_deliveries st" dl_deliveryId without_prompt]
      dist keys assms(2,3)
    by (simp_all add: publishInitial_def readModel_def reject_ready_def Let_def split: option.split)
  have fst_eq: "map fst (map (\<lambda>(k, d). (k, without_prompt d)) (st_deliveries st)) = map fst (st_deliveries st)" by (induction "st_deliveries st") auto
  show ?thesis unfolding shows_maps_def f fst_eq using dist by (simp add: map_of_map)
qed

lemma publish_fields [simp]:
  "so_active (publishInitial m s) = so_active s" "so_waiting (publishInitial m s) = so_waiting s" "so_queued (publishInitial m s) = so_queued s"
  "so_maxQueue (publishInitial m s) = so_maxQueue s" "so_closing (publishInitial m s) = so_closing s" "so_closure (publishInitial m s) = so_closure s"
  "so_loaded (publishInitial m s)" "so_revision (publishInitial m s) = so_revision s" "so_pending (publishInitial m s) = so_pending s"
  "so_answers (publishInitial m s) = so_answers s" "so_failure (publishInitial m s) = so_failure s"
  "so_launched (publishInitial m s) = so_launched s" "so_starting (publishInitial m s) = so_starting s"
  by (simp_all add: publishInitial_def reject_ready_def Let_def split: option.split)

lemma ready_received_ok:
  assumes ok: "world_ok w" and m: "pw_replies w = ReadyMsg x # ms"
  shows "world_ok (w\<lparr>pw_store := receive_ready x (pw_store w), pw_replies := ms\<rparr>)"
proof -
  let ?v = "w\<lparr>pw_replies := ms\<rparr>" and ?s = "pw_store w"
  have v: "world_ok ?v" by (rule drop_message_ok [OF ok m])
  note parts = world_okD [OF v] and old = world_okD(7) [OF ok]
  from old m have nl: "\<not> so_loaded ?s" "pw_started w" "filter is_ready ms = []" "so_requests ?s = []" "so_deliveries ?s = []"
    unfolding view_ok_def Let_def by (auto split: if_splits)
  have rpc: "rpc_ok (pw_sent w) ?s" using parts(2) by simp
  have idle: "so_pending ?s = []" "so_answers ?s = []" using rpc nl(1) unfolding rpc_ok_def by auto
  have "world_ok (?v\<lparr>pw_store := receive_ready x ?s\<rparr>)"
  proof (cases "so_failure ?s \<noteq> None")
    case True
    with v show ?thesis by (simp add: receive_ready_def)
  next
    case False
    show ?thesis
    proof (cases x)
      case None
      let ?e = "unavailable ''Agent request evidence loading failed.'' False"
      have "fail_store ?e (?s\<lparr>so_starting := False\<rparr>) = fail_store ?e ?s" by (simp add: fail_store_def reject_ready_def Let_def)
      then have "receive_ready x ?s = fail_store ?e (pw_store ?v)" using False None by (simp add: receive_ready_def)
      moreover have "world_ok (?v\<lparr>pw_store := fail_store ?e (pw_store ?v)\<rparr>)"
        by (rule fail_store_ok [OF v]) (simp add: idle)
      ultimately show ?thesis by simp
    next
      case (Some y)
      obtain n model where y: "y = (n, model)" by force
      let ?t = "publishInitial model (?s\<lparr>so_starting := False, so_revision := n\<rparr>)"
      have t: "receive_ready x ?s = ?t" using False Some y by (simp add: receive_ready_def)
      from old m Some y obtain st where st: "n < length (pw_history w)" "model = readModel st" "state_ok st"
          "pw_history w ! n = (st_requests st, st_deliveries st)"
        unfolding view_ok_def Let_def by auto
      have maps: "shows_maps (st_requests st, st_deliveries st) ?t"
        unfolding st(2) by (rule published_maps [OF st(3)]) (simp_all add: nl)
      have init: "so_initialized ?t = Initialized \<longrightarrow> so_loaded ?t" by simp
      show ?thesis unfolding t
      proof (rule world_store [OF v])
        show "calls_ok (pw_calls ?v) (map fst (pw_outcomes ?v)) ?t" using parts(1) by (rule calls_cong) simp_all
        show "sent_ok (pw_calls ?v) (pw_sent ?v) ?t" using parts(3) by (rule sent_cong) simp_all
        show "truth_ok (?v\<lparr>pw_store := ?t\<rparr>)" using parts(6) by (rule truth_store) simp
        have "awaited ?t = awaited ?s" by (rule awaited_cong) simp_all
        with rpc idle show "rpc_ok (pw_sent ?v) ?t" unfolding rpc_ok_def by (simp split: option.splits)
        have "ReadyMsg y \<notin> set ms" for y using nl(3) by (auto simp: filter_empty_conv)
        with st maps nl old show "view_ok (?v\<lparr>pw_store := ?t\<rparr>)" unfolding view_ok_def Let_def by simp
      qed
    qed
  qed
  moreover have "w\<lparr>pw_store := receive_ready x ?s, pw_replies := ms\<rparr> = ?v\<lparr>pw_store := receive_ready x ?s\<rparr>" by (cases w) simp
  ultimately show ?thesis by (simp only:)
qed

section \<open>Sending a command\<close>

lemma sent_jobs_append [simp]: "sent_jobs (xs @ [(i, j, c)]) = sent_jobs xs @ (case j of None \<Rightarrow> [] | Some k \<Rightarrow> [k])"
  by (simp add: sent_jobs_def List.map_filter_def split: option.split)

lemma sends_mutation_fresh:
  "i \<notin> fst ` set sent \<Longrightarrow> k \<in> fst ` set sent \<Longrightarrow> sends_mutation (sent @ [(i, j, c)]) k = sends_mutation sent k"
  by (force simp: sends_mutation_def)

lemma sent_order_fields [simp]:
  "pw_store (sent_order i j x s w) = s" "pw_sent (sent_order i j x s w) = pw_sent w @ [(i, j, or_command x)]"
  "pw_orders (sent_order i j x s w) = pw_orders w @ [(i, x)]" "pw_commits (sent_order i j x s w) = pw_commits w"
  "pw_owner (sent_order i j x s w) = pw_owner w" "pw_history (sent_order i j x s w) = pw_history w"
  "pw_calls (sent_order i j x s w) = pw_calls w" "pw_outcomes (sent_order i j x s w) = pw_outcomes w"
  "pw_replies (sent_order i j x s w) = pw_replies w" "pw_started (sent_order i j x s w) = pw_started w"
  by (simp_all add: sent_order_def)

text \<open>Fresh identifiers leave the truth of replies and outcomes alone.\<close>

lemma sent_order_ok:
  assumes ok: "world_ok w" and fresh: "i \<notin> fst ` set (pw_sent w)"
    and calls: "calls_ok (pw_calls w) (map fst (pw_outcomes w)) s"
    and rpc: "rpc_ok (pw_sent w @ [(i, j, or_command x)]) s"
    and sent: "sent_ok (pw_calls w) (pw_sent w @ [(i, j, or_command x)]) s"
    and view: "view_ok (w\<lparr>pw_store := s\<rparr>)" and ans: "so_answers s = []"
    and job: "\<forall>k. j = Some k \<longrightarrow> k \<notin> fst ` set (pw_outcomes w)"
  shows "world_ok (sent_order i j x s w)"
proof -
  let ?v = "sent_order i j x s w"
  note parts = world_okD [OF ok]
  have true: "reply_true ?v k r" if "reply_true w k r" for k r
    using that fresh sends_mutation_fresh [OF fresh, of k]
    by (auto simp: reply_true_def split: owner_reply.splits option.splits)
  have "truth_ok ?v" using parts(6) true ans unfolding truth_ok_def by auto
  moreover have "orders_ok (pw_sent ?v) (pw_commits ?v) (pw_orders ?v)"
    using parts(4) unfolding orders_ok_def by (auto simp flip: append_assoc intro!: list_emb_append_mono)
  moreover have "outcomes_ok ?v"
    unfolding outcomes_ok_def
  proof (intro allI impI)
    fix n r y assume "(n, r, y) \<in> set (pw_outcomes ?v)"
    then have mem: "(n, r, y) \<in> set (pw_outcomes w)" by simp
    with parts(8) have y: "outcome_true w n r y" unfolding outcomes_ok_def by blast
    show "outcome_true ?v n r y"
    proof (cases r)
      case None
      with y job mem show ?thesis by (force simp: outcome_true_def split: option.splits)
    next
      case (Some k)
      with y have k: "k \<in> fst ` set (pw_sent w)" by (force simp: outcome_true_def)
      with fresh have "k \<noteq> i" by blast
      with y Some k sends_mutation_fresh [OF fresh k] show ?thesis
        by (auto simp: outcome_true_def split: sum.splits store_error.splits)
    qed
  qed
  moreover have "view_ok ?v" using view unfolding view_ok_def Let_def by simp
  ultimately show ?thesis using calls rpc sent parts(5) by (simp add: world_ok_def)
qed

lemma resume_sends:
  assumes "resume_job throws resolve i now j st s = Sends t x"
  obtains c where "st = AwaitReady" "so_initialized s = Initialized" "so_failure s = None" "so_loaded s" "\<not> so_closing s"
    "t = s\<lparr>so_pending := so_pending s @ [(i, c)], so_active := Some (j, AwaitReply i)\<rparr>" "or_command x = c" "or_revision x = so_revision s"
    "(\<exists>k. jb_kind j = ReadJob c) \<or> (\<exists>k m. jb_kind j = MutationJob k \<and> c = Mutate m)"
  using assms
  by (auto simp: resume_job_def dispatch_job_def assertComplete_def assertLoaded_def rpc_def mutation_reply_def Let_def bind_def check_def
      split: stage.splits initialization.splits sum.splits if_splits job_kind.splits option.splits owner_reply.splits prod.splits)

lemma sends_ok:
  assumes ok: "world_ok w" and act: "so_active (pw_store w) = Some (j, st)"
    and res: "resume_job throws resolve i now j st (pw_store w) = Sends s x" and fresh: "i \<notin> fst ` set (pw_sent w)"
  shows "world_ok (sent_order i (Some (jb_id j)) x s w)"
proof -
  let ?s = "pw_store w"
  note parts = world_okD [OF ok]
  from res obtain c where st: "st = AwaitReady" and pre: "so_initialized ?s = Initialized" "so_failure ?s = None" "so_loaded ?s" "\<not> so_closing ?s"
    and s: "s = ?s\<lparr>so_pending := so_pending ?s @ [(i, c)], so_active := Some (j, AwaitReply i)\<rparr>" and x: "or_command x = c"
    and kind: "(\<exists>k. jb_kind j = ReadJob c) \<or> (\<exists>k m. jb_kind j = MutationJob k \<and> c = Mutate m)"
    by (rule resume_sends)
  have cl: "so_closure ?s = NotClosed" using parts(2) pre(4) unfolding rpc_ok_def by blast
  have "awaited ?s = None" using act st cl by (simp add: awaited_def)
  then have idle: "so_pending ?s = []" "so_answers ?s = []" using parts(2) unfolding rpc_ok_def by auto
  have live: "live_jobs s = live_jobs ?s" "unsent ?s = jb_id j # unsent s" "j \<in> set (live_jobs ?s)"
    using act st by (simp_all add: s live_jobs_def unsent_def)
  have ids: "jb_id j < pw_calls w" "jb_id j \<notin> fst ` set (pw_outcomes w)" "job_kind_ok (jb_kind j)"
    using parts(1) live(3) unfolding calls_ok_def by (auto simp: set_eq_iff)
  show ?thesis
  proof (rule sent_order_ok [OF ok fresh])
    show "calls_ok (pw_calls w) (map fst (pw_outcomes w)) s"
      using parts(1) act unfolding calls_ok_def live(1) by (simp add: s)
    have read: "c \<noteq> CloseOwner \<and> (is_read c \<longleftrightarrow> (\<exists>x. jb_kind j = ReadJob x))" using kind ids(3) by auto
    have aw: "awaited s = Some i" by (simp add: awaited_def s)
    show "rpc_ok (pw_sent w @ [(i, Some (jb_id j), or_command x)]) s"
      using parts(2) read pre cl idle unfolding rpc_ok_def aw by (auto simp: s x)
    show "sent_ok (pw_calls w) (pw_sent w @ [(i, Some (jb_id j), or_command x)]) s"
      using parts(3) fresh ids(1) unfolding sent_ok_def live(2) by auto
    show "view_ok (w\<lparr>pw_store := s\<rparr>)" using parts(7) by (rule view_store) (simp_all add: s)
    show "so_answers s = []" using idle by (simp add: s)
    show "\<forall>k. Some (jb_id j) = Some k \<longrightarrow> k \<notin> fst ` set (pw_outcomes w)" using ids(2) by simp
  qed
qed

section \<open>Settling an operation\<close>

lemma settle_ok:
  assumes ok: "world_ok w" and act: "so_active (pw_store w) = Some (j, st)"
    and t: "so_active t = so_active (pw_store w)" "so_waiting t = so_waiting (pw_store w)" "so_queued t = so_queued (pw_store w)"
      "so_maxQueue t = so_maxQueue (pw_store w)" "so_closing t = so_closing (pw_store w)" "so_closure t = so_closure (pw_store w)"
      "so_pending t = []" "so_answers t = []" "so_loaded t = so_loaded (pw_store w)" "so_launched t = so_launched (pw_store w)"
      "so_starting t \<longrightarrow> so_starting (pw_store w)" "so_failure t = None \<longrightarrow> so_failure (pw_store w) = None"
      "so_initialized t = so_initialized (pw_store w) \<or> so_failure t \<noteq> None \<and> so_initialized t \<noteq> Initialized"
    and view: "view_ok (w\<lparr>pw_store := t\<rparr>)" and out: "outcome_true w (jb_id j) (stage_command st) r"
  shows "world_ok (settled (jb_id j) (stage_command st) r (finish_job t) w)"
proof -
  let ?s = "pw_store w"
  note parts = world_okD [OF ok]
  obtain u where u: "u = t\<lparr>so_queued := so_queued t - 1, so_active := None\<rparr>" by simp
  have fin: "finish_job t = drain_waiting u" by (simp add: finish_job_def u)
  have live: "live_jobs ?s = j # live_jobs u" "live_jobs u = so_waiting ?s" "unsent u = map jb_id (so_waiting ?s)"
    using act t by (simp_all add: live_jobs_def unsent_def u)
  have fields: "so_queued u = so_queued ?s - 1" "so_maxQueue u = so_maxQueue ?s" "so_closing u = so_closing ?s"
      "so_waiting u = so_waiting ?s" "so_active u = None"
    using t by (simp_all add: u)
  have calls: "calls_ok (pw_calls w) (map fst (pw_outcomes w) @ [jb_id j]) (drain_waiting u)"
  proof (rule calls_drain)
    have "length (live_jobs ?s) = Suc (length (live_jobs u))" by (simp add: live(1))
    with parts(1) show "so_queued u = length (live_jobs u)" "so_queued u \<le> so_maxQueue u"
      unfolding calls_ok_def fields by simp_all
    show "so_active u = None \<longrightarrow> length (so_waiting u) \<le> 1 \<or> \<not> so_closing u"
      using parts(1) by (auto simp: fields calls_ok_def)
  qed (use parts(1) in \<open>auto simp: calls_ok_def live(1) fields\<close>)
  have rpc: "rpc_ok (pw_sent w) (drain_waiting u)"
  proof (rule rpc_drain)
    have cl: "so_closing ?s \<longleftrightarrow> so_closure ?s \<noteq> NotClosed" "\<forall>i. so_closure ?s \<noteq> AwaitCloseReply i"
      using parts(2) act unfolding rpc_ok_def by auto
    then have "awaited u = None" using t by (auto simp: awaited_def u split: closure.split)
    moreover have "so_failure u = None \<and> so_initialized u \<noteq> Initializing \<longrightarrow> so_loaded u \<or> so_closing u \<and> \<not> so_launched u"
      using parts(2) t unfolding rpc_ok_def by (auto simp: u)
    ultimately show "rpc_ok (pw_sent w) u" using parts(2) cl t unfolding rpc_ok_def by (auto simp: u)
    show "so_loaded u \<longrightarrow> so_launched u" using loaded_launched [OF parts(7)] t by (simp add: u)
  qed
  have "sent_ok (pw_calls w) (pw_sent w) u"
    using parts(3) act unfolding sent_ok_def live(3)
    by (auto simp: unsent_def sorted_wrt_append split: stage.splits)
  then have sent: "sent_ok (pw_calls w) (pw_sent w) (drain_waiting u)" by (rule sent_drain)
  have "view_ok (w\<lparr>pw_store := u\<rparr>)" using view_store [OF view, of u] by (simp add: u)
  then have v: "view_ok (w\<lparr>pw_store := drain_waiting u\<rparr>)" by (rule view_drain)
  have truth: "truth_ok (w\<lparr>pw_store := drain_waiting u\<rparr>)" by (rule truth_store [OF parts(6)]) (simp add: u t(8))
  have outs: "outcomes_ok (w\<lparr>pw_outcomes := pw_outcomes w @ [(jb_id j, stage_command st, r)]\<rparr>)"
    by (rule outcomes_add [OF parts(8) out])
  have "outcomes_ok (w\<lparr>pw_store := drain_waiting u, pw_outcomes := pw_outcomes w @ [(jb_id j, stage_command st, r)]\<rparr>)"
    by (rule outcomes_cong [OF outs]) simp_all
  with calls rpc sent v truth parts(4,5) show ?thesis
    by (simp add: world_ok_def settled_def fin)
qed

text \<open>The operation has not been sent: it waited for the store to be ready.\<close>

lemma settles_unsent_ok:
  assumes ok: "world_ok w" and act: "so_active (pw_store w) = Some (j, AwaitReady)"
    and res: "resume_job throws resolve i now j AwaitReady (pw_store w) = Settles r s"
  shows "world_ok (settled (jb_id j) None r s w)"
proof -
  let ?s = "pw_store w"
  note parts = world_okD [OF ok]
  from res have s: "s = finish_job ?s" and r: "\<not> is_ok r"
    by (auto simp: resume_job_def dispatch_job_def Let_def split: initialization.splits sum.splits if_splits job_kind.splits prod.splits)
  have notclose: "\<forall>i. so_closure ?s \<noteq> AwaitCloseReply i" using parts(2) act unfolding rpc_ok_def by auto
  then have "awaited ?s = None" using act by (auto simp: awaited_def split: closure.split)
  then have idle: "so_pending ?s = []" "so_answers ?s = []" using parts(2) unfolding rpc_ok_def by auto
  have "jb_id j \<notin> set (sent_jobs (pw_sent w))"
    using parts(3) act unfolding sent_ok_def by (auto simp: unsent_def sorted_wrt_append)
  with r have out: "outcome_true w (jb_id j) (stage_command AwaitReady) r" by (simp add: outcome_true_def)
  show ?thesis
    using settle_ok [OF ok act, of ?s] idle parts(7) out by (simp add: s)
qed

text \<open>The reply of a mutation: what the store becomes, and that its result is true.\<close>

lemma mutation_reply_fields:
  assumes "mutation_reply r s = (x, t)"
  shows "so_active t = so_active s" "so_waiting t = so_waiting s" "so_queued t = so_queued s" "so_maxQueue t = so_maxQueue s"
    "so_closing t = so_closing s" "so_closure t = so_closure s" "so_loaded t = so_loaded s" "so_launched t = so_launched s"
    "so_starting t \<longrightarrow> so_starting s" "so_failure t = None \<longrightarrow> so_failure s = None"
    "so_pending s = [] \<longrightarrow> so_pending t = []" "so_pending s = [] \<longrightarrow> so_answers t = so_answers s"
  using assms
  by (auto simp: mutation_reply_def Let_def fail_answers split: owner_reply.splits option.splits if_splits)

lemma mutation_reply_initialized:
  assumes "mutation_reply r s = (x, t)"
  shows "so_initialized t = so_initialized s \<or> so_failure t \<noteq> None \<and> so_initialized t \<noteq> Initialized"
proof (cases "so_initialized s = Initialized")
  case True
  with assms show ?thesis by (auto simp: mutation_reply_def Let_def split: owner_reply.splits option.splits if_splits)
next
  case False
  with assms show ?thesis by (auto simp: mutation_reply_def Let_def split: owner_reply.splits option.splits if_splits)
qed

lemma mutation_reply_true:
  assumes "mutation_reply r s = (x, t)" "reply_true w k r" "sends_mutation (pw_sent w) k" "(k, Some j, c) \<in> set (pw_sent w)"
  shows "outcome_true w j (Some k) x"
  using assms
  by (auto simp: mutation_reply_def Let_def outcome_true_def reply_true_def unknown_commit_def split: owner_reply.splits option.splits if_splits)

lemma mutation_reply_view:
  assumes "mutation_reply r s = (x, t)" "reply_true w k r" "view_ok (w\<lparr>pw_store := s\<rparr>)" "so_loaded s"
  shows "view_ok (w\<lparr>pw_store := t\<rparr>)"
proof -
  consider "so_revision t = so_revision s" "so_requests t = so_requests s" "so_deliveries t = so_deliveries s"
    | v d where "r = Accepted (so_revision s + 1) (Some v) (Some d)" "t = apply_delta d (s\<lparr>so_revision := so_revision s + 1\<rparr>)"
    using assms(1) by (auto simp: mutation_reply_def Let_def split: owner_reply.splits option.splits if_splits)
  then show ?thesis
  proof cases
    case 1
    show ?thesis
      using view_store [OF assms(3), of t] 1 mutation_reply_fields(7,8) [OF assms(1)] by simp
  next
    case (2 v d)
    have view: "pw_started w" "so_launched s" "so_revision s < length (pw_history w)" "shows_maps (pw_history w ! so_revision s) s"
      using assms(3,4) unfolding view_ok_def Let_def by auto
    have delta: "Suc (so_revision s) < length (pw_history w)"
        "delta_between d (pw_history w ! so_revision s) (pw_history w ! Suc (so_revision s))"
      using assms(2) 2(1) by (auto simp: reply_true_def)
    have "shows_maps (pw_history w ! so_revision s) (s\<lparr>so_revision := so_revision s + 1\<rparr>)"
      using view(4) by (simp add: shows_maps_def)
    with delta(2) 2(2) have "shows_maps (pw_history w ! Suc (so_revision s)) t" unfolding delta_between_def by simp
    with assms(3,4) view delta(1) 2(2) show ?thesis unfolding view_ok_def Let_def by simp
  qed
qed

lemma settles_sent_ok:
  assumes ok: "world_ok w" and act: "so_active (pw_store w) = Some (j, AwaitReply k)"
    and res: "resume_job throws resolve i now j (AwaitReply k) (pw_store w) = Settles r s"
  shows "world_ok (settled (jb_id j) (Some k) r s w)"
proof -
  let ?s = "pw_store w"
  note parts = world_okD [OF ok]
  have aw: "awaited ?s = Some k" using act by (simp add: awaited_def)
  have dist: "distinct (map fst (pw_sent w))" using parts(3) by (simp add: sent_ok_def)
  from parts(2) act obtain c where c: "(k, Some (jb_id j), c) \<in> set (pw_sent w)" "is_read c \<longleftrightarrow> (\<exists>x. jb_kind j = ReadJob x)"
    unfolding rpc_ok_def by blast
  have only: "sends_mutation (pw_sent w) k \<longleftrightarrow> \<not> is_read c"
    using sent_unique [OF dist c(1)] c(1) unfolding sends_mutation_def by blast
  let ?t = "?s\<lparr>so_answers := AList.delete k (so_answers ?s)\<rparr>"
  from res obtain y where y: "map_of (so_answers ?s) k = Some y"
    by (cases "map_of (so_answers ?s) k") (auto simp: resume_job_def)
  then have mem: "(k, y) \<in> set (so_answers ?s)" by (rule map_of_SomeD)
  have ans: "so_answers ?s = [(k, y)]" "so_pending ?s = []"
    using parts(2) mem unfolding rpc_ok_def aw by auto
  have loaded: "so_loaded ?s" using parts(2) ans unfolding rpc_ok_def by auto
  have view: "view_ok (w\<lparr>pw_store := ?t\<rparr>)" by (rule view_store [OF parts(7)]) simp_all
  have st: "stage_command (AwaitReply k) = Some k" by simp
  show ?thesis
  proof (cases y)
    case (Inl e)
    then have s: "s = finish_job ?t" "r = Inl (StoreFailed e)" using res y by (auto simp: resume_job_def Let_def)
    have "sends_mutation (pw_sent w) k \<longrightarrow> e = start_failure \<or> un_unknown e" using parts(6) mem Inl unfolding truth_ok_def by blast
    with c(1) have "outcome_true w (jb_id j) (Some k) r" by (auto simp: outcome_true_def s)
    with settle_ok [OF ok act, of ?t r] ans view show ?thesis by (simp add: s)
  next
    case (Inr a)
    have true: "reply_true w k a" using parts(6) mem Inr unfolding truth_ok_def by blast
    show ?thesis
    proof (cases "jb_kind j")
      case (ReadJob b)
      then have s: "s = finish_job ?t" using res y Inr by (simp add: resume_job_def Let_def)
      have "outcome_true w (jb_id j) (Some k) r" using c only ReadJob by (auto simp: outcome_true_def)
      with settle_ok [OF ok act, of ?t r] ans view show ?thesis by (simp add: s)
    next
      case (MutationJob b)
      obtain t where t: "mutation_reply a ?t = (r, t)" "s = finish_job t"
        using res y Inr MutationJob by (auto simp: resume_job_def Let_def split: prod.splits)
      note f = mutation_reply_fields [OF t(1)]
      have "outcome_true w (jb_id j) (Some k) r"
        using mutation_reply_true [OF t(1) true _ c(1)] only c(2) MutationJob by simp
      moreover have "view_ok (w\<lparr>pw_store := t\<rparr>)" by (rule mutation_reply_view [OF t(1) true view]) (simp add: loaded)
      ultimately show ?thesis using settle_ok [OF ok act, of t r] f mutation_reply_initialized [OF t(1)] ans by (simp add: t(2))
    qed
  qed
qed

section \<open>Closing\<close>

text \<open>\<open>close\<close> in two steps: the store fails if it is still loading, then the queue is emptied.\<close>

lemma closes_ok:
  assumes ok: "world_ok w" and cl: "close_store (pw_store w) = (js, s)"
  shows "world_ok (w\<lparr>pw_store := s, pw_outcomes := pw_outcomes w @ map (\<lambda>j. (jb_id j, None, Inl (StoreFailed queue_closed))) js\<rparr>)"
proof (cases "so_closure (pw_store w) = NotClosed")
  case False
  then have "js = []" "s = pw_store w" using cl by (auto simp: close_store_def)
  with ok show ?thesis by simp
next
  case True
  let ?s = "pw_store w"
  note parts = world_okD [OF ok]
  obtain t where t: "s = t\<lparr>so_waiting := [], so_queued := so_queued ?s - length (so_waiting ?s), so_closure := AwaitActive\<rparr>"
      "js = so_waiting ?s" "so_active t = so_active ?s" "so_closing t" "so_launched t = so_launched ?s" "so_maxQueue t = so_maxQueue ?s"
      "so_pending t = so_pending ?s" "so_answers t = so_answers ?s" "so_failure t = None \<longrightarrow> so_failure ?s = None" "so_loaded t = so_loaded ?s"
      "so_pending t \<noteq> [] \<longrightarrow> so_failure t = so_failure ?s"
      "so_starting t \<longrightarrow> so_starting ?s" "so_initialized t = Initialized \<longrightarrow> so_initialized ?s = Initialized"
      "so_failure t = None \<and> so_launched t \<longrightarrow> so_initialized t = so_initialized ?s"
      "so_revision t = so_revision ?s" "so_requests t = so_requests ?s" "so_deliveries t = so_deliveries ?s"
  proof -
    have idle: "\<not> so_loaded ?s \<Longrightarrow> so_pending ?s = []" using parts(2) unfolding rpc_ok_def by auto
    show thesis
      using cl True idle
      by (intro that [of "if \<not> so_launched ?s then reject_ready (unavailable ''Agent request owner closed before loading began.'' False) (?s\<lparr>so_closing := True\<rparr>)
        else if \<not> so_loaded ?s \<and> so_failure ?s = None
        then fail_store (unavailable ''Agent request owner closed while loading evidence.'' False) (?s\<lparr>so_closing := True\<rparr>)
        else ?s\<lparr>so_closing := True\<rparr>"])
        (auto simp: close_store_def reject_ready_def Let_def fail_answers)
  qed
  have live: "live_jobs ?s = live_jobs s @ js" "unsent ?s = unsent s @ map jb_id js"
    by (simp_all add: live_jobs_def unsent_def t(1-3) split: option.split stage.split)
  have fields: "so_queued s = so_queued ?s - length js" "so_maxQueue s = so_maxQueue ?s" "so_closing s" "so_waiting s = []"
    by (simp_all add: t)
  have calls: "calls_ok (pw_calls w) (map fst (pw_outcomes w) @ map jb_id js) s"
    using parts(1) unfolding calls_ok_def live fields by (auto simp: sorted_wrt_append)
  have rpc: "rpc_ok (pw_sent w) s"
  proof -
    have aw: "awaited s = awaited ?s"
      using True by (auto simp: awaited_def t split: option.split stage.split)
    have "so_failure s = None \<and> so_initialized s \<noteq> Initializing \<longrightarrow> so_loaded s \<or> so_closing s \<and> \<not> so_launched s"
      using parts(2) t by (auto simp: rpc_ok_def)
    moreover have "so_active s = so_active ?s" "so_closure s = AwaitActive" "so_pending s = so_pending ?s" "so_answers s = so_answers ?s"
        "so_loaded s = so_loaded ?s" "so_starting s \<longrightarrow> so_starting ?s" "so_initialized s = Initialized \<longrightarrow> so_initialized ?s = Initialized"
        "so_pending s \<noteq> [] \<longrightarrow> so_failure s = so_failure ?s"
      using t by simp_all
    ultimately show ?thesis using parts(2) fields(3) unfolding rpc_ok_def aw by (simp split: option.splits)
  qed
  have sent: "sent_ok (pw_calls w) (pw_sent w) s"
    using parts(3) unfolding sent_ok_def live by (auto simp: sorted_wrt_append)
  have view: "view_ok (w\<lparr>pw_store := s\<rparr>)" by (rule view_store [OF parts(7)]) (simp_all add: t)
  have truth: "truth_ok (w\<lparr>pw_store := s\<rparr>)" by (rule truth_store [OF parts(6)]) (simp add: t)
  have notsent: "jb_id j \<notin> set (sent_jobs (pw_sent w))" if "j \<in> set js" for j
    using parts(3) that unfolding sent_ok_def live by (fastforce simp: sorted_wrt_append)
  have outs: "outcomes_ok (w\<lparr>pw_outcomes := pw_outcomes w @ map (\<lambda>j. (jb_id j, None, Inl (StoreFailed queue_closed))) js'\<rparr>)"
    if "set js' \<subseteq> set js" for js'
  proof -
    have "outcome_true (w\<lparr>pw_outcomes := os\<rparr>) i k y = outcome_true w i k y" for os i k y
      by (simp add: outcome_true_def split: option.split sum.split store_error.split)
    moreover have "outcome_true w (jb_id j) None (Inl (StoreFailed queue_closed))" if "j \<in> set js" for j
      using notsent [OF that] by (simp add: outcome_true_def)
    ultimately show ?thesis using parts(8) that by (auto simp: outcomes_ok_def)
  qed
  have "outcomes_ok (w\<lparr>pw_store := s, pw_outcomes := pw_outcomes w @ map (\<lambda>j. (jb_id j, None, Inl (StoreFailed queue_closed))) js\<rparr>)"
    by (rule outcomes_cong [OF outs [of js]]) simp_all
  with calls rpc sent view truth parts(4,5) show ?thesis by (simp add: world_ok_def comp_def)
qed

lemma close_sends_ok:
  assumes ok: "world_ok w" and cl: "resume_close i now (pw_store w) = Some (s, Some (k, x))" and fresh: "i \<notin> fst ` set (pw_sent w)"
  shows "world_ok (sent_order k None x s w)"
proof -
  let ?s = "pw_store w"
  note parts = world_okD [OF ok]
  from cl have c: "so_closure ?s = AwaitActive" "so_active ?s = None" "so_initialized ?s \<noteq> Initializing" "so_launched ?s" "so_failure ?s = None"
      and s: "s = ?s\<lparr>so_pending := so_pending ?s @ [(i, CloseOwner)], so_closure := AwaitCloseReply i\<rparr>" and x: "k = i" "or_command x = CloseOwner"
    by (cases "so_active ?s"; auto simp: resume_close_def rpc_def Let_def split: closure.splits if_splits option.splits sum.splits owner_reply.splits)+
  have closing: "so_closing ?s" "so_loaded ?s" using parts(2) c unfolding rpc_ok_def by auto
  have "awaited ?s = None" using c by (simp add: awaited_def)
  then have idle: "so_pending ?s = []" "so_answers ?s = []" using parts(2) unfolding rpc_ok_def by auto
  show ?thesis unfolding x(1)
  proof (rule sent_order_ok [OF ok fresh])
    show "calls_ok (pw_calls w) (map fst (pw_outcomes w)) s" by (rule calls_cong [OF parts(1)]) (simp_all add: s)
    have aw: "awaited s = Some i" using c by (simp add: awaited_def s)
    show "rpc_ok (pw_sent w @ [(i, None, or_command x)]) s"
      using parts(2) c closing idle unfolding rpc_ok_def aw by (auto simp: s x)
    show "sent_ok (pw_calls w) (pw_sent w @ [(i, None, or_command x)]) s"
      using parts(3) fresh unfolding sent_ok_def by (auto simp: s unsent_def)
    show "view_ok (w\<lparr>pw_store := s\<rparr>)" using parts(7) by (rule view_store) (simp_all add: s)
    show "so_answers s = []" using idle by (simp add: s)
  qed simp
qed

lemma close_goes_on_ok:
  assumes ok: "world_ok w" and cl: "resume_close i now (pw_store w) = Some (s, None)"
  shows "world_ok (w\<lparr>pw_store := s\<rparr>)"
proof -
  let ?s = "pw_store w"
  note parts = world_okD [OF ok]
  have plain: "world_ok (w\<lparr>pw_store := ?s\<lparr>so_closure := c\<rparr>\<rparr>)"
    if "so_closure ?s = AwaitActive \<or> so_closure ?s = AwaitExit" "c = AwaitExit \<or> c = ClosedOk \<or> (\<exists>f. c = ClosedFailed f)" for c
  proof (rule world_store [OF ok])
    let ?t = "?s\<lparr>so_closure := c\<rparr>"
    show "calls_ok (pw_calls w) (map fst (pw_outcomes w)) ?t" by (rule calls_cong [OF parts(1)]) simp_all
    show "sent_ok (pw_calls w) (pw_sent w) ?t" by (rule sent_cong [OF parts(3)]) simp_all
    show "truth_ok (w\<lparr>pw_store := ?t\<rparr>)" by (rule truth_store [OF parts(6)]) simp
    show "view_ok (w\<lparr>pw_store := ?t\<rparr>)" by (rule view_store [OF parts(7)]) simp_all
    have "awaited ?t = awaited ?s" using that by (auto simp: awaited_def split: option.split stage.split)
    note aw = this
    have f: "so_pending ?t = so_pending ?s" "so_answers ?t = so_answers ?s" "so_closing ?t = so_closing ?s" "so_closure ?t = c"
      "so_active ?t = so_active ?s" "so_failure ?t = so_failure ?s" "so_loaded ?t = so_loaded ?s" "so_starting ?t = so_starting ?s"
      "so_initialized ?t = so_initialized ?s" "so_launched ?t = so_launched ?s" by simp_all
    have "so_closing ?s \<longleftrightarrow> c \<noteq> NotClosed" "\<forall>i. c \<noteq> AwaitCloseReply i" using parts(2) that unfolding rpc_ok_def by auto
    with parts(2) show "rpc_ok (pw_sent w) ?t" unfolding rpc_ok_def aw f by blast
  qed
  have replied: "world_ok (w\<lparr>pw_store := u\<lparr>so_closure := c\<rparr>\<rparr>)"
    if k: "so_closure ?s = AwaitCloseReply k" and y: "map_of (so_answers ?s) k = Some y"
      and u: "u = ?s\<lparr>so_answers := AList.delete k (so_answers ?s)\<rparr> \<or> (\<exists>e. u = fail_store e (?s\<lparr>so_answers := AList.delete k (so_answers ?s)\<rparr>))"
      and c: "c = AwaitExit \<or> (\<exists>f. c = ClosedFailed f)" for k y u c
  proof (rule world_store [OF ok])
    have act: "so_active ?s = None" using parts(2) k unfolding rpc_ok_def by blast
    have aw: "awaited ?s = Some k" using act k by (simp add: awaited_def)
    have mem: "(k, y) \<in> set (so_answers ?s)" using y by (rule map_of_SomeD)
    have ans: "so_answers ?s = [(k, y)]" "so_pending ?s = []" using parts(2) mem unfolding rpc_ok_def aw by auto
    let ?t = "u\<lparr>so_closure := c\<rparr>"
    have f: "so_active ?t = None" "so_waiting ?t = so_waiting ?s" "so_queued ?t = so_queued ?s" "so_maxQueue ?t = so_maxQueue ?s"
      "so_closing ?t = so_closing ?s" "so_pending ?t = []" "so_answers ?t = []" "so_loaded ?t = so_loaded ?s" "so_launched ?t = so_launched ?s"
      "so_starting ?t \<longrightarrow> so_starting ?s" "so_initialized ?t = Initialized \<longrightarrow> so_initialized ?s = Initialized"
      "so_revision ?t = so_revision ?s" "so_requests ?t = so_requests ?s" "so_deliveries ?t = so_deliveries ?s"
      "so_failure ?t = None \<longrightarrow> so_failure ?s = None \<and> so_initialized ?t = so_initialized ?s"
      using u act ans by (auto simp: fail_answers)
    show "calls_ok (pw_calls w) (map fst (pw_outcomes w)) ?t" by (rule calls_cong [OF parts(1)]) (simp_all only: f act)
    show "sent_ok (pw_calls w) (pw_sent w) ?t" by (rule sent_cong [OF parts(3)]) (simp_all only: f act)
    show "truth_ok (w\<lparr>pw_store := ?t\<rparr>)" by (rule truth_store [OF parts(6)]) (simp only: f list.set empty_iff)
    show "view_ok (w\<lparr>pw_store := ?t\<rparr>)" by (rule view_store [OF parts(7)]) (simp_all only: f, simp)
    have none: "awaited ?t = None" using c f(1) by (auto simp: awaited_def)
    have cls: "so_closure ?t = c" "so_closing ?s" using parts(2) k unfolding rpc_ok_def by simp_all
    show "rpc_ok (pw_sent w) ?t"
      unfolding rpc_ok_def none f(1,5-9) cls(1) option.case
      using parts(2) c cls(2) f(10,11,15) unfolding rpc_ok_def by auto
  qed
  show ?thesis
  proof (cases "so_closure ?s")
    case AwaitActive
    with cl have "s = ?s\<lparr>so_closure := AwaitExit\<rparr>" by (auto simp: resume_close_def rpc_def split: if_splits)
    with plain [of AwaitExit] AwaitActive show ?thesis by simp
  next
    case AwaitExit
    with cl have "s = ?s\<lparr>so_closure := close_result ?s\<rparr>" by (auto simp: resume_close_def split: if_splits)
    with plain [of "close_result ?s"] AwaitExit show ?thesis by (auto simp: close_result_def split: option.splits)
  next
    case (AwaitCloseReply k)
    with cl obtain y where y: "map_of (so_answers ?s) k = Some y"
      by (cases "map_of (so_answers ?s) k") (auto simp: resume_close_def)
    show ?thesis
      using cl AwaitCloseReply y replied [OF AwaitCloseReply y]
      by (cases y) (auto simp: resume_close_def Let_def split: owner_reply.splits)
  qed (use cl in \<open>simp_all add: resume_close_def\<close>)
qed

section \<open>Every reachable world is well formed\<close>

lemma world_step_ok:
  assumes "world_step w v" "world_ok w"
  shows "world_ok v"
  using assms
proof (cases rule: world_step.cases)
  case (settles j st throws resolve i now r s)
  with assms(2) settles_unsent_ok settles_sent_ok show ?thesis by (cases st) auto
qed (use assms(2) submitted_ok turned_down_ok readied_ok sends_ok owner_starts_ok owner_start_fails_ok owner_executes_ok owner_dies_ok
    ready_received_ok reply_received_ok store_event_ok child_closed_ok closes_ok close_sends_ok close_goes_on_ok in \<open>simp_all\<close>)

lemma initial_ok:
  assumes "new_store n = Inr s" "state_ok st"
  shows "world_ok (initial_world s st)"
  using assms
  by (auto simp: new_store_def initial_world_def world_ok_def calls_ok_def live_jobs_def rpc_ok_def awaited_def sent_ok_def sent_jobs_def
      unsent_def orders_ok_def owner_ok_def truth_ok_def view_ok_def outcomes_ok_def List.map_filter_def Let_def split: if_splits)

lemma reachable_ok: "reachable_world w \<Longrightarrow> world_ok w"
  by (induction rule: reachable_world.induct) (simp_all add: initial_ok world_step_ok)

end
