(* ===== verification/StoreProps.thy ===== *)
theory StoreProps
  imports StoreInv
begin

text \<open>
  What the store and its owner guarantee together: the store shows a committed state, and the current one
  when nothing is under way; acknowledged mutations are committed, once and in the order of the calls; rejections
  that claim that nothing was started are honest, except after an \<open>error\<close> event of the child; a failed store
  sends nothing any more; every call is settled once.
\<close>

section \<open>The store and the owner are in step\<close>

text \<open>The revision of a reply, of the store and of the owner.\<close>

definition reply_fits :: "owner_reply \<Rightarrow> request_store \<Rightarrow> owner \<Rightarrow> bool" where
  "reply_fits r s ow \<longleftrightarrow> (case r of
     Accepted n (Some v) (Some d) \<Rightarrow> n = Suc (so_revision s) \<and> ow_revision ow = n
   | Accepted n v d \<Rightarrow> n = so_revision s \<and> ow_revision ow = n
   | Refused n e \<Rightarrow> ow_revision ow = so_revision s)"

text \<open>
  Where the one command under way is: on its way to the owner, on its way back, lost with the owner, or
  back in the store.
\<close>

definition under_way :: "store_world \<Rightarrow> string \<Rightarrow> bool" where
  "under_way w i \<longleftrightarrow> (let s = pw_store w in
     (so_answers s = [] \<and> (\<exists>x. pw_orders w = [(i, x)] \<and> pw_replies w = [] \<and> or_revision x = so_revision s \<and> ow_revision (pw_owner w) = so_revision s))
     \<or> (so_answers s = [] \<and> pw_orders w = [] \<and> (\<exists>r. pw_replies w = [ReplyMsg i r] \<and> reply_fits r s (pw_owner w)))
     \<or> (so_answers s = [] \<and> pw_orders w = [] \<and> pw_replies w = [] \<and> \<not> pw_running w)
     \<or> (\<exists>r. so_answers s = [(i, Inr r)] \<and> pw_orders w = [] \<and> pw_replies w = [] \<and> reply_fits r s (pw_owner w)))"

definition nothing_under_way :: "store_world \<Rightarrow> bool" where
  "nothing_under_way w \<longleftrightarrow> pw_orders w = [] \<and> pw_replies w = [] \<and> so_revision (pw_store w) = ow_revision (pw_owner w)"

definition only_ready :: "store_world \<Rightarrow> bool" where
  "only_ready w \<longleftrightarrow> pw_orders w = []
     \<and> (\<forall>m\<in>set (pw_replies w). is_ready m) \<and> (\<forall>n md. ReadyMsg (Some (n, md)) \<in> set (pw_replies w) \<longrightarrow> n = ow_revision (pw_owner w))"

definition in_step :: "store_world \<Rightarrow> bool" where
  "in_step w \<longleftrightarrow> (so_failure (pw_store w) = None \<longrightarrow>
     (if so_loaded (pw_store w)
      then (case awaited (pw_store w) of None \<Rightarrow> nothing_under_way w | Some i \<Rightarrow> under_way w i)
      else only_ready w)
     \<and> (ow_stopping (pw_owner w) \<longrightarrow> pw_orders w = [] \<and> so_closure (pw_store w) \<noteq> NotClosed \<and> so_closure (pw_store w) \<noteq> AwaitActive))"

lemma reply_fits_cong: "so_revision t = so_revision s \<Longrightarrow> reply_fits r t ow = reply_fits r s ow"
  unfolding reply_fits_def by (simp only:)

lemma in_step_closure:
  assumes "in_step w" "pw_orders v = pw_orders w" "pw_replies v = pw_replies w" "pw_running v = pw_running w"
    "ow_revision (pw_owner v) = ow_revision (pw_owner w)" "ow_stopping (pw_owner v) = ow_stopping (pw_owner w)"
    "so_failure (pw_store v) = so_failure (pw_store w)" "so_loaded (pw_store v) = so_loaded (pw_store w)"
    "awaited (pw_store v) = awaited (pw_store w)" "so_answers (pw_store v) = so_answers (pw_store w)"
    "so_revision (pw_store v) = so_revision (pw_store w)"
    and cl: "so_failure (pw_store w) = None \<Longrightarrow> ow_stopping (pw_owner w) \<Longrightarrow> so_closure (pw_store v) \<noteq> NotClosed \<and> so_closure (pw_store v) \<noteq> AwaitActive"
  shows "in_step v"
proof -
  have fits: "reply_fits r (pw_store v) (pw_owner v) = reply_fits r (pw_store w) (pw_owner w)" for r
    unfolding reply_fits_def assms(5,11) by (rule refl)
  have parts: "under_way v i = under_way w i" "nothing_under_way v = nothing_under_way w" "only_ready v = only_ready w" for i
    unfolding under_way_def nothing_under_way_def only_ready_def Let_def fits assms(2-11) by (rule refl)+
  show ?thesis
    using assms(1) cl unfolding in_step_def parts assms(2,6-9) by blast
qed

lemma in_step_cong:
  assumes "in_step w" "pw_orders v = pw_orders w" "pw_replies v = pw_replies w" "pw_running v = pw_running w"
    "ow_revision (pw_owner v) = ow_revision (pw_owner w)" "ow_stopping (pw_owner v) = ow_stopping (pw_owner w)"
    "so_failure (pw_store v) = so_failure (pw_store w)" "so_loaded (pw_store v) = so_loaded (pw_store w)"
    "awaited (pw_store v) = awaited (pw_store w)" "so_answers (pw_store v) = so_answers (pw_store w)"
    "so_revision (pw_store v) = so_revision (pw_store w)" "so_closure (pw_store v) = so_closure (pw_store w)"
  shows "in_step v"
  using assms(1-11)
proof (rule in_step_closure)
  assume "so_failure (pw_store w) = None" "ow_stopping (pw_owner w)"
  with assms(1) show "so_closure (pw_store v) \<noteq> NotClosed \<and> so_closure (pw_store v) \<noteq> AwaitActive"
    unfolding assms(12) in_step_def by blast
qed

lemma in_step_failed: "so_failure (pw_store w) \<noteq> None \<Longrightarrow> in_step w"
  unfolding in_step_def by blast

lemma rpc_okD:
  assumes "rpc_ok sent s"
  shows "so_closing s \<longleftrightarrow> so_closure s \<noteq> NotClosed" "so_closure s = AwaitCloseReply i \<Longrightarrow> so_active s = None"
    "awaited s = None \<Longrightarrow> so_pending s = [] \<and> so_answers s = []"
    "awaited s = Some i \<Longrightarrow> (\<exists>c. so_pending s = [(i, c)] \<and> so_answers s = []) \<or> (\<exists>x. so_pending s = [] \<and> so_answers s = [(i, x)])"
    "awaited s \<noteq> None \<Longrightarrow> so_loaded s"
  using assms unfolding rpc_ok_def by (auto split: option.splits)

text \<open>A rejected promise means a failed store.\<close>

definition rejected_failed :: "store_world \<Rightarrow> bool" where
  "rejected_failed w \<longleftrightarrow> (\<forall>i e. (i, Inl e) \<in> set (so_answers (pw_store w)) \<longrightarrow> so_failure (pw_store w) \<noteq> None)"

lemma world_step_fail_kept:
  assumes "world_step w v" "so_failure (pw_store w) = Some f"
  shows "so_failure (pw_store v) = Some f"
  using assms
proof (cases rule: world_step.cases)
  case (submitted k s)
  with assms(2) show ?thesis by (auto simp: submit_def enqueue_job_def split: job_kind.splits if_splits)
next
  case (sends j st throws resolve i now s x)
  with assms(2) show ?thesis using resume_sends by (metis option.distinct(1))
next
  case (settles j st throws resolve i now r s)
  with assms(2) show ?thesis
    by (auto simp: resume_job_def dispatch_job_def settled_def finish_job_def mutation_reply_def Let_def
        split: stage.splits initialization.splits sum.splits if_splits job_kind.splits option.splits owner_reply.splits prod.splits)
next
  case (happens s)
  from happens(2) assms(2) happens(1) show ?thesis
    by (cases rule: store_event.cases)
      (auto simp: command_timed_out_def send_failed_def startup_timed_out_def child_error_def transport_failed_def split: option.splits)
next
  case (closes js s)
  with assms(2) show ?thesis by (auto simp: close_store_def reject_ready_def Let_def split: if_splits)
next
  case (close_sends i now s k x)
  with assms(2) show ?thesis by (auto simp: resume_close_def rpc_def Let_def split: closure.splits if_splits option.splits sum.splits owner_reply.splits)
next
  case (close_goes_on i now s)
  with assms(2) show ?thesis by (auto simp: resume_close_def rpc_def Let_def split: closure.splits if_splits option.splits sum.splits owner_reply.splits)
qed (auto simp: settled_def executed_def receive_ready_def receive_reply_def child_closed_def Let_def)

text \<open>The owner takes an order while the store and it are in step.\<close>

lemma owner_reply_fits:
  assumes "owner_command env wk x ow = (r, ow')" "\<not> ow_stopping ow" "or_revision x = so_revision s" "ow_revision ow = so_revision s"
  shows "\<exists>y. r = Some y \<and> reply_fits y s ow'"
  using assms
  by (auto simp: owner_command_def owner_mutate_def reply_fits_def Let_def split: if_splits store_command.splits sum.splits prod.splits option.splits)

lemma owner_stops:
  assumes "owner_command env wk x ow = (r, ow')" "\<not> ow_stopping ow"
  shows "ow_stopping ow' \<longleftrightarrow> or_command x = CloseOwner"
  using assms
  by (auto simp: owner_command_def owner_mutate_def Let_def split: if_splits store_command.splits sum.splits prod.splits)

text \<open>Which command is the closing one is read off the list of the commands sent.\<close>

lemma close_command_awaited:
  assumes "world_ok w" "in_step w" "so_failure (pw_store w) = None" "pw_orders w = (i, x) # xs" "or_command x = CloseOwner"
  shows "so_closure (pw_store w) = AwaitCloseReply i"
proof -
  let ?s = "pw_store w"
  note parts = world_okD [OF assms(1)]
  have dist: "distinct (map fst (pw_sent w))" using parts(3) by (simp add: sent_ok_def)
  from assms(2-4) have loaded: "so_loaded ?s" unfolding in_step_def only_ready_def by (auto split: if_splits)
  with assms(2-4) obtain k where k: "awaited ?s = Some k" "under_way w k"
    unfolding in_step_def nothing_under_way_def by (cases "awaited ?s") auto
  from k(2) assms(4) have ki: "k = i" unfolding under_way_def Let_def by auto
  from parts(4) assms(4,5) obtain j where j: "(i, j, CloseOwner) \<in> set (pw_sent w)" unfolding orders_ok_def by fastforce
  show ?thesis
  proof (cases "so_active ?s")
    case None
    with k(1) ki show ?thesis by (auto simp: awaited_def split: closure.splits)
  next
    case (Some a)
    obtain b st where a: "a = (b, st)" by force
    have "so_closure ?s \<noteq> AwaitCloseReply m" for m using rpc_okD(2) [OF parts(2)] Some by auto
    with Some a k(1) ki have "st = AwaitReply i" by (auto simp: awaited_def split: stage.splits closure.splits)
    with parts(2) Some a obtain c where c: "(i, Some (jb_id b), c) \<in> set (pw_sent w)" "c \<noteq> CloseOwner"
      unfolding rpc_ok_def by blast
    from sent_unique [OF dist c(1) j] c(2) show ?thesis by blast
  qed
qed

lemma not_in_flight_idle:
  assumes "in_step w" "rpc_ok sent (pw_store w)" "so_failure (pw_store w) = None" "awaited (pw_store w) = None" "so_loaded (pw_store w)"
  shows "nothing_under_way w"
  using assms unfolding in_step_def by simp

lemma in_step_executes:
  assumes ok: "world_ok w" and st: "in_step w" and none: "so_failure (pw_store w) = None"
    and x: "pw_orders w = (i, x) # xs" and run: "owner_command env wk x (pw_owner w) = (r, ow)"
  shows "in_step (executed i r ow w)"
proof -
  let ?s = "pw_store w"
  from st none x have loaded: "so_loaded ?s" and go: "\<not> ow_stopping (pw_owner w)"
    unfolding in_step_def only_ready_def by (auto split: if_splits)
  with st none x obtain k where k: "awaited ?s = Some k" "under_way w k"
    unfolding in_step_def nothing_under_way_def by (cases "awaited ?s") auto
  from k(2) x have w: "k = i" "xs = []" "pw_replies w = []" "or_revision x = so_revision ?s" "ow_revision (pw_owner w) = so_revision ?s"
      "so_answers ?s = []"
    unfolding under_way_def Let_def by auto
  from owner_reply_fits [OF run go w(4,5)] obtain y where y: "r = Some y" "reply_fits y ?s ow" by blast
  have "under_way (executed i r ow w) i"
    using x w y by (simp add: under_way_def Let_def replies_executed)
  moreover have "ow_stopping ow \<longrightarrow> so_closure ?s \<noteq> NotClosed \<and> so_closure ?s \<noteq> AwaitActive"
    using owner_stops [OF run go] close_command_awaited [OF ok st none x] by auto
  ultimately show ?thesis
    using loaded k(1) w x by (simp add: in_step_def)
qed

lemma in_step_dies:
  assumes st: "in_step w"
  shows "in_step (w\<lparr>pw_running := False, pw_orders := [], pw_replies := take n (pw_replies w)\<rparr>)" (is "in_step ?v")
proof (cases "so_failure (pw_store w) = None")
  case True
  have fits: "reply_fits r (pw_store ?v) (pw_owner ?v) = reply_fits r (pw_store w) (pw_owner w)" for r by simp
  have "under_way ?v i" if "under_way w i" for i
    using that unfolding under_way_def Let_def by (auto simp: take_Cons split: nat.split)
  moreover have "nothing_under_way ?v" if "nothing_under_way w" using that by (simp add: nothing_under_way_def)
  moreover have "only_ready ?v" if "only_ready w" using that by (auto simp: only_ready_def dest: in_set_takeD)
  ultimately show ?thesis using st True unfolding in_step_def by (auto split: option.splits)
qed (simp add: in_step_failed)

lemma in_step_ready:
  assumes ok: "world_ok w" and st: "in_step w" and none: "so_failure (pw_store w) = None"
    and m: "pw_replies w = ReadyMsg x # ms"
  shows "in_step (w\<lparr>pw_store := receive_ready x (pw_store w), pw_replies := ms\<rparr>)" (is "in_step ?v")
proof (cases x)
  case None
  then show ?thesis using none by (intro in_step_failed) (simp add: receive_ready_def)
next
  case (Some y)
  obtain n md where y: "y = (n, md)" by force
  let ?s = "pw_store w"
  note parts = world_okD [OF ok]
  from parts(7) m have nl: "\<not> so_loaded ?s" "filter is_ready ms = []" unfolding view_ok_def Let_def by (auto split: if_splits)
  with st none have only: "only_ready w" "ow_stopping (pw_owner w) \<longrightarrow> so_closure ?s \<noteq> NotClosed \<and> so_closure ?s \<noteq> AwaitActive"
    unfolding in_step_def by auto
  then have ms: "ms = []" "n = ow_revision (pw_owner w)" "pw_orders w = []"
    using m nl(2) Some y unfolding only_ready_def by (cases ms; auto)+
  have aw: "awaited ?s = None" using rpc_okD(5) [OF parts(2)] nl(1) by blast
  have "awaited (receive_ready x ?s) = awaited ?s"
    by (rule awaited_cong) (simp_all add: receive_ready_def none Some y)
  with aw only(2) ms show ?thesis
    by (simp add: in_step_def nothing_under_way_def receive_ready_def none Some y)
qed

lemma in_step_reply:
  assumes ok: "world_ok w" and st: "in_step w" and none: "so_failure (pw_store w) = None"
    and m: "pw_replies w = ReplyMsg i r # ms"
  shows "in_step (w\<lparr>pw_store := receive_reply i r (pw_store w), pw_replies := ms\<rparr>)" (is "in_step ?v")
proof -
  let ?s = "pw_store w"
  note parts = world_okD [OF ok]
  from st none m have loaded: "so_loaded ?s" unfolding in_step_def only_ready_def by (auto split: if_splits)
  with st none m obtain k where k: "awaited ?s = Some k" "under_way w k"
    unfolding in_step_def nothing_under_way_def by (cases "awaited ?s") auto
  from k(2) m have w: "k = i" "ms = []" "pw_orders w = []" "so_answers ?s = []" "reply_fits r ?s (pw_owner w)"
    unfolding under_way_def Let_def by auto
  from rpc_okD(4) [OF parts(2) k(1)] w(1,4) obtain c where "so_pending ?s = [(i, c)]" by auto
  then have s: "receive_reply i r ?s = ?s\<lparr>so_pending := [], so_answers := [(i, Inr r)]\<rparr>" (is "_ = ?t")
    using none w(4) by (simp add: receive_reply_def)
  have aw: "awaited ?t = awaited ?s" by (rule awaited_cong) simp_all
  have fits: "reply_fits r ?t (pw_owner w)" using w(5) by (subst reply_fits_cong [of ?t ?s]) simp_all
  show ?thesis
    using st none loaded k(1) w fits unfolding in_step_def by (simp add: s aw under_way_def Let_def)
qed

text \<open>The active operation sends its command, or ends.\<close>

lemma in_step_sends:
  assumes ok: "world_ok w" and st: "in_step w" and act: "so_active (pw_store w) = Some (j, sg)"
    and res: "resume_job throws resolve i now j sg (pw_store w) = Sends s x"
  shows "in_step (sent_order i (Some (jb_id j)) x s w)"
proof -
  let ?s = "pw_store w"
  note parts = world_okD [OF ok]
  from res obtain c where sg: "sg = AwaitReady" and pre: "so_failure ?s = None" "so_loaded ?s" "\<not> so_closing ?s"
    and s: "s = ?s\<lparr>so_pending := so_pending ?s @ [(i, c)], so_active := Some (j, AwaitReply i)\<rparr>" and x: "or_revision x = so_revision ?s"
    by (rule resume_sends)
  have cl: "so_closure ?s = NotClosed" using rpc_okD(1) [OF parts(2)] pre(3) by blast
  have aw: "awaited ?s = None" using act sg cl by (simp add: awaited_def)
  with st pre have "nothing_under_way w" "\<not> ow_stopping (pw_owner w)" using cl unfolding in_step_def by auto
  moreover have "so_answers ?s = []" using rpc_okD(3) [OF parts(2) aw] by blast
  moreover have "awaited s = Some i" by (simp add: s awaited_def)
  ultimately show ?thesis
    using pre x by (simp add: in_step_def under_way_def nothing_under_way_def Let_def) (simp add: s)
qed

lemma awaited_finish:
  assumes "rpc_ok sent s" "so_active s = Some a" "so_closure t = so_closure s" "so_closing t = so_closing s"
  shows "awaited (finish_job t) = None"
proof -
  have cl: "so_closing s \<longleftrightarrow> so_closure s \<noteq> NotClosed" "\<And>i. so_closure s \<noteq> AwaitCloseReply i"
    using rpc_okD(1,2) [OF assms(1)] assms(2) by auto
  have "awaited (finish_job t) = awaited (t\<lparr>so_queued := so_queued t - 1, so_active := None\<rparr>)"
    unfolding finish_job_def using cl(1) assms(3,4) by (intro awaited_drain) simp
  also have "\<dots> = None" using cl(2) assms(3) by (auto simp: awaited_def split: closure.split)
  finally show ?thesis .
qed

lemma finish_fields [simp]:
  "so_failure (finish_job s) = so_failure s" "so_loaded (finish_job s) = so_loaded s" "so_revision (finish_job s) = so_revision s"
  "so_answers (finish_job s) = so_answers s" "so_closure (finish_job s) = so_closure s"
  by (simp_all add: finish_job_def)

lemma settled_fields [simp]:
  "pw_store (settled j r x s w) = s" "pw_orders (settled j r x s w) = pw_orders w" "pw_replies (settled j r x s w) = pw_replies w"
  "pw_owner (settled j r x s w) = pw_owner w" "pw_running (settled j r x s w) = pw_running w" "pw_sent (settled j r x s w) = pw_sent w"
  by (simp_all add: settled_def)

lemma in_step_settles_unsent:
  assumes ok: "world_ok w" and st: "in_step w" and act: "so_active (pw_store w) = Some (j, AwaitReady)"
    and res: "resume_job throws resolve i now j AwaitReady (pw_store w) = Settles r s"
  shows "in_step (settled (jb_id j) k r s w)"
proof -
  let ?s = "pw_store w"
  note parts = world_okD [OF ok]
  from res have s: "s = finish_job ?s"
    by (auto simp: resume_job_def dispatch_job_def Let_def split: initialization.splits sum.splits if_splits job_kind.splits prod.splits)
  have "\<And>m. so_closure ?s \<noteq> AwaitCloseReply m" using rpc_okD(2) [OF parts(2)] act by auto
  then have aw: "awaited ?s = None" using act by (auto simp: awaited_def split: closure.split)
  have aw': "awaited s = None" unfolding s by (rule awaited_finish [OF parts(2) act]) simp_all
  show ?thesis by (rule in_step_cong [OF st]) (simp_all add: aw aw', simp_all add: s)
qed

text \<open>A reply has arrived: its revision is the expected one, so only a refusal can fail the store.\<close>

lemma mutation_reply_fits:
  assumes "mutation_reply r s = (x, t)" "reply_fits r s ow" "reply_true w i r" "sends_mutation (pw_sent w) i" "so_failure t = None"
  shows "so_revision t = ow_revision ow \<and> so_loaded t = so_loaded s \<and> so_failure s = None"
  using assms
  by (auto simp: mutation_reply_def reply_fits_def reply_true_def Let_def split: owner_reply.splits option.splits if_splits)

lemma read_reply_fits:
  assumes "reply_fits r s ow" "reply_true w i r" "\<not> sends_mutation (pw_sent w) i"
  shows "so_revision s = ow_revision ow"
  using assms by (auto simp: reply_fits_def reply_true_def split: owner_reply.splits option.splits)

lemma in_step_settles_sent:
  assumes ok: "world_ok w" and st: "in_step w" and none: "so_failure (pw_store w) = None"
    and act: "so_active (pw_store w) = Some (j, AwaitReply k)"
    and res: "resume_job throws resolve i now j (AwaitReply k) (pw_store w) = Settles r s"
  shows "in_step (settled (jb_id j) y r s w)"
proof -
  let ?s = "pw_store w"
  note parts = world_okD [OF ok]
  have aw: "awaited ?s = Some k" using act by (simp add: awaited_def)
  have loaded: "so_loaded ?s" using rpc_okD(5) [OF parts(2)] aw by simp
  have dist: "distinct (map fst (pw_sent w))" using parts(3) by (simp add: sent_ok_def)
  from parts(2) act obtain c where c: "(k, Some (jb_id j), c) \<in> set (pw_sent w)" "is_read c \<longleftrightarrow> (\<exists>x. jb_kind j = ReadJob x)"
    unfolding rpc_ok_def by blast
  have only: "sends_mutation (pw_sent w) k \<longleftrightarrow> \<not> is_read c"
    using sent_unique [OF dist c(1)] c(1) unfolding sends_mutation_def by blast
  from res obtain z where z: "map_of (so_answers ?s) k = Some z"
    by (cases "map_of (so_answers ?s) k") (auto simp: resume_job_def)
  then have ne: "so_answers ?s \<noteq> []" by auto
  from st none loaded aw have "under_way w k" unfolding in_step_def by simp
  with ne obtain a where a: "so_answers ?s = [(k, Inr a)]" "pw_orders w = []" "pw_replies w = []" "reply_fits a ?s (pw_owner w)"
    unfolding under_way_def Let_def by auto
  have true: "reply_true w k a" using parts(6) a(1) unfolding truth_ok_def by simp
  have stop: "ow_stopping (pw_owner w) \<longrightarrow> so_closure ?s \<noteq> NotClosed \<and> so_closure ?s \<noteq> AwaitActive"
    using st none unfolding in_step_def by blast
  let ?t = "?s\<lparr>so_answers := AList.delete k (so_answers ?s)\<rparr>"
  have fits: "reply_fits a ?t (pw_owner w)" using a(4) by (subst reply_fits_cong [of ?t ?s]) simp_all
  show ?thesis
  proof (cases "jb_kind j")
    case (ReadJob b)
    with res a(1) have s: "s = finish_job ?t" by (simp add: resume_job_def Let_def)
    have "so_revision ?t = ow_revision (pw_owner w)"
      by (rule read_reply_fits [OF fits true]) (use only c(2) ReadJob in simp)
    moreover have "awaited s = None" unfolding s by (rule awaited_finish [OF parts(2) act]) simp_all
    ultimately show ?thesis using a stop loaded by (simp add: in_step_def nothing_under_way_def s)
  next
    case (MutationJob b)
    obtain t where t: "mutation_reply a ?t = (r, t)" "s = finish_job t"
      using res a(1) MutationJob by (auto simp: resume_job_def Let_def split: prod.splits)
    note f = mutation_reply_fields [OF t(1)]
    show ?thesis
    proof (cases "so_failure t = None")
      case False
      then show ?thesis by (intro in_step_failed) (simp add: t(2))
    next
      case True
      have "so_revision t = ow_revision (pw_owner w)"
        using mutation_reply_fits [OF t(1) fits true _ True] only c(2) MutationJob by simp
      moreover have "awaited s = None" unfolding t(2) by (rule awaited_finish [OF parts(2) act]) (use f in simp_all)
      ultimately show ?thesis using a stop f loaded by (simp add: in_step_def nothing_under_way_def t(2))
    qed
  qed
qed

text \<open>Closing.\<close>

lemma in_step_closes:
  assumes ok: "world_ok w" and st: "in_step w" and cl: "close_store (pw_store w) = (js, s)"
  shows "in_step (w\<lparr>pw_store := s, pw_outcomes := os\<rparr>)"
proof (cases "so_failure s = None \<and> so_closure (pw_store w) = NotClosed")
  case False
  then consider "so_failure s \<noteq> None" | "s = pw_store w" using cl by (auto simp: close_store_def)
  then show ?thesis
  proof cases
    case 1
    then show ?thesis by (intro in_step_failed) simp
  next
    case 2
    show ?thesis by (rule in_step_cong [OF st]) (simp_all add: 2)
  qed
next
  case True
  let ?s = "pw_store w"
  have f: "so_failure ?s = None" "so_loaded s = so_loaded ?s" "so_answers s = so_answers ?s" "so_revision s = so_revision ?s"
      "so_active s = so_active ?s" "so_closure s = AwaitActive"
    using cl True by (auto simp: close_store_def reject_ready_def Let_def fail_answers split: if_splits)
  have aw: "awaited s = awaited ?s" using f True by (auto simp: awaited_def split: option.split stage.split)
  have go: "\<not> ow_stopping (pw_owner w)" using st f(1) True unfolding in_step_def by blast
  show ?thesis by (rule in_step_closure [OF st]) (use f True aw go in simp_all)
qed

lemma in_step_close_sends:
  assumes ok: "world_ok w" and st: "in_step w" and cl: "resume_close i now (pw_store w) = Some (s, Some (k, x))"
  shows "in_step (sent_order k None x s w)"
proof -
  let ?s = "pw_store w"
  note parts = world_okD [OF ok]
  from cl have c: "so_closure ?s = AwaitActive" "so_active ?s = None" "so_initialized ?s \<noteq> Initializing" "so_launched ?s" "so_failure ?s = None"
      and s: "s = ?s\<lparr>so_pending := so_pending ?s @ [(i, CloseOwner)], so_closure := AwaitCloseReply i\<rparr>" and x: "k = i" "or_revision x = so_revision ?s"
    by (cases "so_active ?s"; auto simp: resume_close_def rpc_def Let_def split: closure.splits if_splits option.splits sum.splits owner_reply.splits)+
  have loaded: "so_loaded ?s" using parts(2) c unfolding rpc_ok_def by auto
  have aw: "awaited ?s = None" using c by (simp add: awaited_def)
  with st c loaded have "nothing_under_way w" "\<not> ow_stopping (pw_owner w)" unfolding in_step_def by auto
  moreover have "so_answers ?s = []" using rpc_okD(3) [OF parts(2) aw] by blast
  moreover have "awaited s = Some i" using c(2) by (simp add: s awaited_def)
  ultimately show ?thesis
    using c loaded x by (simp add: in_step_def under_way_def nothing_under_way_def Let_def) (simp add: s)
qed

lemma in_step_close_goes_on:
  assumes ok: "world_ok w" and st: "in_step w" and cl: "resume_close i now (pw_store w) = Some (s, None)" and none: "so_failure s = None"
  shows "in_step (w\<lparr>pw_store := s\<rparr>)"
proof -
  let ?s = "pw_store w"
  note parts = world_okD [OF ok]
  show ?thesis
  proof (cases "so_closure ?s")
    case (AwaitCloseReply k)
    with cl obtain z where z: "map_of (so_answers ?s) k = Some z"
      by (cases "map_of (so_answers ?s) k") (auto simp: resume_close_def)
    then have ne: "so_answers ?s \<noteq> []" by auto
    have act: "so_active ?s = None" using rpc_okD(2) [OF parts(2) AwaitCloseReply] .
    have aw: "awaited ?s = Some k" using act AwaitCloseReply by (simp add: awaited_def)
    have fail: "so_failure ?s = None"
      using cl AwaitCloseReply z none by (cases z) (auto simp: resume_close_def Let_def split: owner_reply.splits)
    have loaded: "so_loaded ?s" using rpc_okD(5) [OF parts(2)] aw by simp
    from st fail loaded aw have "under_way w k" unfolding in_step_def by simp
    with ne obtain a where a: "so_answers ?s = [(k, Inr a)]" "pw_orders w = []" "pw_replies w = []" "reply_fits a ?s (pw_owner w)"
      unfolding under_way_def Let_def by auto
    have true: "reply_true w k a" using parts(6) a(1) unfolding truth_ok_def by simp
    have dist: "distinct (map fst (pw_sent w))" using parts(3) by (simp add: sent_ok_def)
    have "(k, None, CloseOwner) \<in> set (pw_sent w)" using parts(2) AwaitCloseReply unfolding rpc_ok_def by blast
    then have "\<not> sends_mutation (pw_sent w) k" using sent_unique [OF dist] unfolding sends_mutation_def by fastforce
    from read_reply_fits [OF a(4) true this] have rev: "so_revision ?s = ow_revision (pw_owner w)" .
    from cl AwaitCloseReply z a(1) none have s: "s = ?s\<lparr>so_answers := [], so_closure := AwaitExit\<rparr>"
      by (cases a) (auto simp: resume_close_def Let_def)
    have "awaited s = None" using act by (simp add: awaited_def s)
    with a rev loaded show ?thesis by (simp add: in_step_def nothing_under_way_def s)
  next
    case AwaitActive
    with cl have s: "s = ?s\<lparr>so_closure := AwaitExit\<rparr>" and act: "so_active ?s = None"
      by (cases "so_active ?s"; auto simp: resume_close_def rpc_def split: if_splits)+
    have aw: "awaited ?s = None" "awaited s = None" using act AwaitActive by (simp_all add: awaited_def s)
    show ?thesis by (rule in_step_closure [OF st]) (simp_all add: aw, simp_all add: s)
  next
    case AwaitExit
    with cl have s: "s = ?s\<lparr>so_closure := close_result ?s\<rparr>" by (auto simp: resume_close_def split: if_splits)
    have c: "close_result ?s = ClosedOk \<or> (\<exists>f. close_result ?s = ClosedFailed f)" by (auto simp: close_result_def split: option.split)
    then have aw: "awaited s = awaited ?s" using AwaitExit by (subst s) (auto simp: awaited_def split: option.split stage.split)
    have f: "so_failure s = so_failure ?s" "so_loaded s = so_loaded ?s" "so_answers s = so_answers ?s" "so_revision s = so_revision ?s"
      "so_closure s = close_result ?s" by (simp_all add: s)
    show ?thesis by (rule in_step_closure [OF st]) (use f aw c in auto)
  qed (use cl in \<open>simp_all add: resume_close_def\<close>)
qed

lemma in_step_submitted:
  assumes ok: "world_ok w" and st: "in_step w" and sub: "submit j (pw_store w) = Inr s"
  shows "in_step (w\<lparr>pw_store := s, pw_calls := n\<rparr>)"
proof -
  let ?s = "pw_store w"
  let ?t = "?s\<lparr>so_queued := so_queued ?s + 1, so_waiting := so_waiting ?s @ [j]\<rparr>"
  have cl: "so_closing ?s \<longleftrightarrow> so_closure ?s \<noteq> NotClosed" using rpc_okD(1) [OF world_okD(2) [OF ok]] .
  from sub have s: "s = drain_waiting ?t"
    by (auto simp: submit_def enqueue_job_def split: job_kind.splits option.splits if_splits)
  have "awaited s = awaited ?t" unfolding s by (rule awaited_drain) (use cl in simp)
  also have "\<dots> = awaited ?s" by (rule awaited_cong) simp_all
  finally have aw: "awaited s = awaited ?s" .
  show ?thesis by (rule in_step_cong [OF st]) (simp_all add: aw, simp_all add: s)
qed

lemma in_step_event:
  assumes ok: "world_ok w" and st: "in_step w" and ev: "store_event (pw_store w) s"
  shows "in_step (w\<lparr>pw_store := s\<rparr>)"
proof -
  have "s = pw_store w \<or> so_failure s \<noteq> None"
    using ev by (cases rule: store_event.cases)
      (auto simp: command_timed_out_def send_failed_def startup_timed_out_def child_error_def transport_failed_def split: option.splits)
  then show ?thesis
  proof
    assume "s = pw_store w"
    then show ?thesis by (intro in_step_cong [OF st]) simp_all
  qed (simp add: in_step_failed)
qed

lemma world_step_in_step:
  assumes "world_step w v" "world_ok w" "in_step w"
  shows "in_step v"
proof (cases "so_failure (pw_store w) = None")
  case False
  then obtain f where "so_failure (pw_store w) = Some f" by blast
  from world_step_fail_kept [OF assms(1) this] show ?thesis by (intro in_step_failed) simp
next
  case none: True
  from assms(1) show ?thesis
  proof (cases rule: world_step.cases)
    case (submitted k s)
    then show ?thesis using in_step_submitted [OF assms(2,3)] by blast
  next
    case (turned_down k e)
    then show ?thesis by (intro in_step_cong [OF assms(3)]) (simp_all add: settled_def)
  next
    case readied
    have "awaited (launch (pw_store w)) = awaited (pw_store w)" by (rule awaited_cong) simp_all
    then show ?thesis unfolding readied(1) by (intro in_step_cong [OF assms(3)]) simp_all
  next
    case (sends j st throws resolve i now s x)
    then show ?thesis using in_step_sends [OF assms(2,3)] by blast
  next
    case (settles j st throws resolve i now r s)
    then show ?thesis using in_step_settles_unsent [OF assms(2,3)] in_step_settles_sent [OF assms(2,3) none]
      by (cases st) auto
  next
    case owner_starts
    have "\<not> so_loaded (pw_store w)" using world_okD(7) [OF assms(2)] owner_starts(3) unfolding view_ok_def Let_def by auto
    with assms(3) none show ?thesis by (auto simp: owner_starts(1) in_step_def only_ready_def)
  next
    case owner_start_fails
    have "\<not> so_loaded (pw_store w)" using world_okD(7) [OF assms(2)] owner_start_fails(3) unfolding view_ok_def Let_def by auto
    with assms(3) none show ?thesis by (auto simp: owner_start_fails(1) in_step_def only_ready_def)
  next
    case (owner_executes i x xs env wk r ow)
    then show ?thesis using in_step_executes [OF assms(2,3) none] by blast
  next
    case (owner_dies n)
    then show ?thesis using in_step_dies [OF assms(3)] by blast
  next
    case (ready_received m ms)
    then show ?thesis using in_step_ready [OF assms(2,3) none] by blast
  next
    case (reply_received i r ms)
    then show ?thesis using in_step_reply [OF assms(2,3) none] by blast
  next
    case (happens s)
    then show ?thesis using in_step_event [OF assms(2,3)] by blast
  next
    case (exits clean)
    show ?thesis
    proof (cases "so_failure (child_closed clean (pw_store w)) = None")
      case True
      then have s: "child_closed clean (pw_store w) = (pw_store w)\<lparr>so_exited := True\<rparr>"
        by (auto simp: child_closed_def Let_def split: if_splits)
      have "awaited ((pw_store w)\<lparr>so_exited := True\<rparr>) = awaited (pw_store w)" by (rule awaited_cong) simp_all
      then show ?thesis unfolding exits(1) s by (intro in_step_cong [OF assms(3)]) simp_all
    qed (use exits in \<open>simp add: in_step_failed\<close>)
  next
    case (closes js s)
    then show ?thesis using in_step_closes [OF assms(2,3)] by blast
  next
    case (close_sends i now s k x)
    then show ?thesis using in_step_close_sends [OF assms(2,3)] by blast
  next
    case (close_goes_on i now s)
    then show ?thesis using in_step_close_goes_on [OF assms(2,3)] by (cases "so_failure s = None") (auto simp: in_step_failed)
  qed
qed

lemma reachable_in_step: "reachable_world w \<Longrightarrow> in_step w"
proof (induction rule: reachable_world.induct)
  case (new n s st)
  then show ?case by (auto simp: new_store_def initial_world_def in_step_def only_ready_def split: if_splits)
next
  case (step w v)
  then show ?case using world_step_in_step reachable_ok by blast
qed

section \<open>A run of one mutation\<close>

text \<open>
  A mutation that the owner executes, up to its reply. From there the reply may be received, or the child
  may report an error first.
\<close>

definition fresh_store :: request_store where
  "fresh_store = (case new_store 4 of Inr s \<Rightarrow> s)"

definition only_job :: "mutation \<Rightarrow> job" where
  "only_job m = new_job 0 (MutationJob (Plain m))"

definition asked_store :: "req_state \<Rightarrow> mutation \<Rightarrow> string \<Rightarrow> request_store" where
  "asked_store st m i = (publishInitial (readModel st) (fresh_store\<lparr>so_launched := True\<rparr>))\<lparr>so_queued := 1,
     so_active := Some (only_job m, AwaitReply i), so_pending := [(i, Mutate m)]\<rparr>"

text \<open>The mutation is on its way to the owner.\<close>

definition fresh_owner :: "req_state \<Rightarrow> owner" where
  "fresh_owner st = \<lparr>ow_state = st, ow_revision = 0, ow_fenced = False, ow_stopping = False, ow_locked = True\<rparr>"

definition order_of :: "env \<Rightarrow> mutation \<Rightarrow> order" where
  "order_of env m = \<lparr>or_command = Mutate m, or_revision = 0, or_timestamp = env_now env\<rparr>"

definition asked_world :: "env \<Rightarrow> req_state \<Rightarrow> mutation \<Rightarrow> string \<Rightarrow> store_world" where
  "asked_world env st m i = \<lparr>pw_store = asked_store st m i, pw_owner = fresh_owner st, pw_started = True, pw_running = True,
     pw_orders = [(i, order_of env m)], pw_replies = [], pw_calls = 1, pw_outcomes = [], pw_sent = [(i, Some 0, Mutate m)],
     pw_commits = [], pw_history = [(st_requests st, st_deliveries st)]\<rparr>"

definition replied_world :: "req_state \<Rightarrow> mutation \<Rightarrow> string \<Rightarrow> store_value \<Rightarrow> delta \<Rightarrow> req_state \<Rightarrow> store_world" where
  "replied_world st m i v d t = \<lparr>pw_store = asked_store st m i,
     pw_owner = \<lparr>ow_state = t, ow_revision = 1, ow_fenced = False, ow_stopping = False, ow_locked = True\<rparr>,
     pw_started = True, pw_running = True, pw_orders = [], pw_replies = [ReplyMsg i (Accepted 1 (Some v) (Some d))],
     pw_calls = 1, pw_outcomes = [], pw_sent = [(i, Some 0, Mutate m)], pw_commits = [(i, v)],
     pw_history = [(st_requests st, st_deliveries st), (st_requests t, st_deliveries t)]\<rparr>"

lemma fresh_store: "new_store 4 = Inr fresh_store"
  by (simp add: fresh_store_def new_store_def)

lemma asked_reachable:
  assumes st: "state_ok st" "st_evidenceUnavailable st = None"
  shows "reachable_world (asked_world env st m i)"
proof -
  note fresh = fresh_store_def new_store_def
  define s1 where "s1 = fresh_store\<lparr>so_launched := True, so_starting := True, so_queued := 1, so_active := Some (only_job m, AwaitReady)\<rparr>"
  define s2 where "s2 = (publishInitial (readModel st) (fresh_store\<lparr>so_launched := True\<rparr>))\<lparr>so_queued := 1, so_active := Some (only_job m, AwaitReady)\<rparr>"
  define ow where "ow = fresh_owner st"
  define w1 where "w1 = (initial_world fresh_store st)\<lparr>pw_store := s1, pw_calls := 1\<rparr>"
  define w2 where "w2 = w1\<lparr>pw_started := True, pw_running := True, pw_owner := ow, pw_replies := [ReadyMsg (Some (0, readModel st))]\<rparr>"
  define w3 where "w3 = w2\<lparr>pw_store := s2, pw_replies := []\<rparr>"
  define x where "x = order_of env m"
  define w4 where "w4 = w3\<lparr>pw_store := asked_store st m i, pw_orders := [(i, x)], pw_sent := [(i, Some 0, Mutate m)]\<rparr>"
  have r0: "reachable_world (initial_world fresh_store st)" by (rule reachable_world.new [OF fresh_store st(1)])
  have "submit (new_job 0 (MutationJob (Plain m))) fresh_store = Inr s1"
    by (simp add: submit_def enqueue_job_def drain_waiting_def launch_def new_job_def only_job_def s1_def fresh)
  then have "world_step (initial_world fresh_store st) w1"
    using world_step.submitted [of "initial_world fresh_store st" "MutationJob (Plain m)" s1]
    by (simp add: initial_world_def w1_def)
  with r0 have r1: "reachable_world w1" by (rule reachable_world.step)
  have "world_step w1 w2"
    using world_step.owner_starts [of w1] by (simp add: w1_def w2_def initial_world_def s1_def ow_def fresh_owner_def)
  with r1 have r2: "reachable_world w2" by (rule reachable_world.step)
  have "receive_ready (Some (0, readModel st)) s1 = s2"
    by (simp add: receive_ready_def s1_def s2_def publishInitial_def readModel_def st(2) fresh Let_def)
  then have "world_step w2 w3"
    using world_step.ready_received [of w2 "Some (0, readModel st)" "[]"] by (simp add: w1_def w2_def w3_def)
  with r2 have r3: "reachable_world w3" by (rule reachable_world.step)
  have "resume_job None (\<lambda>_ _ _. Unresolved) i (env_now env) (only_job m) AwaitReady s2 = Sends (asked_store st m i) x"
    by (simp add: resume_job_def dispatch_job_def assertComplete_def assertLoaded_def captured_def rpc_def only_job_def new_job_def
        asked_store_def s2_def x_def order_of_def publishInitial_def readModel_def st(2) fresh Let_def)
  then have "world_step w3 w4"
    using world_step.sends [of w3 "only_job m" AwaitReady None "\<lambda>_ _ _. Unresolved" i "env_now env" "asked_store st m i" x]
    by (simp add: w1_def w2_def w3_def w4_def s2_def sent_order_def initial_world_def only_job_def new_job_def x_def order_of_def)
  moreover have "w4 = asked_world env st m i"
    by (simp add: w4_def w3_def w2_def w1_def x_def ow_def initial_world_def asked_world_def)
  ultimately show ?thesis using r3 by (metis reachable_world.step)
qed

lemma replied_reachable:
  assumes st: "state_ok st" "st_evidenceUnavailable st = None"
    and run: "transaction (apply_mutation env m) st = (Inr v, t)" "workings_of wk st t" "command_allowed env st (Mutate m)"
  shows "reachable_world (replied_world st m i v (transaction_delta wk st) t)"
proof -
  let ?w = "asked_world env st m i" and ?r = "Some (Accepted 1 (Some v) (Some (transaction_delta wk st)))"
  define ow' where "ow' = (fresh_owner st)\<lparr>ow_state := t, ow_revision := 1\<rparr>"
  have "owner_command env wk (order_of env m) (fresh_owner st) = (?r, ow')"
    using run(1) by (simp add: owner_command_def owner_mutate_def order_of_def fresh_owner_def ow'_def Let_def)
  then have "world_step ?w (executed i ?r ow' ?w)"
    using run by (intro world_step.owner_executes) (simp_all add: asked_world_def order_of_def fresh_owner_def ow'_def)
  moreover have "executed i ?r ow' ?w = replied_world st m i v (transaction_delta wk st) t"
    by (simp add: executed_def commit_of_def replied_world_def asked_world_def fresh_owner_def ow'_def)
  ultimately show ?thesis using asked_reachable [OF st] by (metis reachable_world.step)
qed

text \<open>The reply is received and the caller gets its value.\<close>

definition acknowledged_world :: "req_state \<Rightarrow> mutation \<Rightarrow> string \<Rightarrow> store_value \<Rightarrow> delta \<Rightarrow> req_state \<Rightarrow> store_world" where
  "acknowledged_world st m i v d t = (let w = replied_world st m i v d t;
     s = finish_job (apply_delta d ((asked_store st m i)\<lparr>so_pending := [], so_revision := 1\<rparr>)) in
     settled 0 (Some i) (Inr v) s (w\<lparr>pw_replies := []\<rparr>))"

lemma acknowledged_reachable:
  assumes "reachable_world (replied_world st m i v d t)"
  shows "reachable_world (acknowledged_world st m i v d t)"
proof -
  let ?w = "replied_world st m i v d t" and ?s = "asked_store st m i"
  define s1 where "s1 = ?s\<lparr>so_pending := [], so_answers := [(i, Inr (Accepted 1 (Some v) (Some d)))]\<rparr>"
  define w1 where "w1 = ?w\<lparr>pw_store := s1, pw_replies := []\<rparr>"
  have fields: "so_failure ?s = None" "so_pending ?s = [(i, Mutate m)]" "so_answers ?s = []" "so_revision ?s = 0"
      "so_active ?s = Some (only_job m, AwaitReply i)"
    by (simp_all add: asked_store_def fresh_store_def new_store_def)
  have "world_step ?w w1"
    using world_step.reply_received [of ?w i "Accepted 1 (Some v) (Some d)" "[]"] fields
    by (simp add: replied_world_def w1_def s1_def receive_reply_def)
  with assms have r1: "reachable_world w1" by (rule reachable_world.step)
  have "s1\<lparr>so_answers := [], so_revision := Suc 0\<rparr> = ?s\<lparr>so_pending := [], so_revision := Suc 0\<rparr>"
    using fields(3) by (simp add: s1_def)
  then have "resume_job None (\<lambda>_ _ _. Unresolved) [] 0 (only_job m) (AwaitReply i) s1
      = Settles (Inr v) (finish_job (apply_delta d (?s\<lparr>so_pending := [], so_revision := 1\<rparr>)))"
    using fields(4) by (simp add: resume_job_def mutation_reply_def only_job_def new_job_def Let_def s1_def)
  then have "world_step w1 (settled (jb_id (only_job m)) (stage_command (AwaitReply i)) (Inr v)
      (finish_job (apply_delta d (?s\<lparr>so_pending := [], so_revision := 1\<rparr>))) w1)"
    by (intro world_step.settles) (simp_all add: w1_def s1_def fields)
  moreover have "settled (jb_id (only_job m)) (stage_command (AwaitReply i)) (Inr v)
      (finish_job (apply_delta d (?s\<lparr>so_pending := [], so_revision := 1\<rparr>))) w1 = acknowledged_world st m i v d t"
    by (simp add: acknowledged_world_def settled_def w1_def replied_world_def only_job_def new_job_def Let_def)
  ultimately show ?thesis using r1 by (metis reachable_world.step)
qed

section \<open>A concrete mutation\<close>

definition sample_cancel :: mutation where "sample_cancel = Requested (OpCancel ''ru'' None)"

definition cancelled_workings :: workings where
  "cancelled_workings = \<lparr>wk_requests = map (\<lambda>(k, r). DraftSet k r) (st_requests cancelled_state),
     wk_deliveries = map (\<lambda>(k, d). DraftSet k d) (st_deliveries cancelled_state), wk_sameRequest = (=), wk_sameDelivery = (=)\<rparr>"

definition cancelled_world :: store_world where
  "cancelled_world = acknowledged_world bound_state sample_cancel ''rpc-1''
     (VRequest (the (request_at cancelled_state ''ru''))) (transaction_delta cancelled_workings bound_state) cancelled_state"

lemma cancel_stores:
  "cancel env k reason s = (Inr r, t) \<Longrightarrow> request_at t (cleanText (Some k) 100) = Some r"
  by (auto simp: cancel_def Let_def persist_or_ok split: option.splits if_splits)

lemma sample_cancel_runs:
  "transaction (apply_mutation sample_env sample_cancel) bound_state = (Inr (VRequest (the (request_at cancelled_state ''ru''))), cancelled_state)"
  "workings_of cancelled_workings bound_state cancelled_state" "command_allowed sample_env bound_state (Mutate sample_cancel)"
  "st_evidenceUnavailable bound_state = None"
proof -
  have keys: "map fst (st_requests cancelled_state) = [''ru'']" "map fst (st_requests bound_state) = [''ru'']"
      "map fst (st_deliveries cancelled_state) = [''du'']" "map fst (st_deliveries bound_state) = [''du'']"
    by code_simp+
  then obtain r q d e where maps: "st_requests cancelled_state = [(''ru'', r)]" "st_requests bound_state = [(''ru'', q)]"
      "st_deliveries cancelled_state = [(''du'', d)]" "st_deliveries bound_state = [(''du'', e)]"
    by (auto simp: map_eq_Cons_conv)
  show "workings_of cancelled_workings bound_state cancelled_state"
    by (simp add: workings_of_def cancelled_workings_def maps draft_committed_def draft_run_def draft_set_def draft_of_def touch_def)
  show "command_allowed sample_env bound_state (Mutate sample_cancel)" by (simp add: sample_cancel_def)
  show "st_evidenceUnavailable bound_state = None" by code_simp
  have ok: "is_ok (fst (cancel sample_env ''ru'' None bound_state))" "cleanText (Some ''ru'') 100 = ''ru''" by code_simp+
  then obtain r where c: "cancel sample_env ''ru'' None bound_state = (Inr r, cancelled_state)"
    by (cases "cancel sample_env ''ru'' None bound_state"; cases "fst (cancel sample_env ''ru'' None bound_state)")
      (auto simp: cancelled_state_def)
  then have "request_at cancelled_state ''ru'' = Some r"
    using cancel_stores [OF c] ok(2) by simp
  with c show "transaction (apply_mutation sample_env sample_cancel) bound_state = (Inr (VRequest (the (request_at cancelled_state ''ru''))), cancelled_state)"
    by (simp add: transaction_def sample_cancel_def)
qed


text \<open>The owner refuses the mutation instead.\<close>

definition refused_world :: "env \<Rightarrow> req_state \<Rightarrow> mutation \<Rightarrow> string \<Rightarrow> js_error \<Rightarrow> req_state \<Rightarrow> store_world" where
  "refused_world env st m i e t = settled 0 (Some i) (Inl (OwnerError e)) (finish_job ((asked_store st m i)\<lparr>so_pending := []\<rparr>))
     ((asked_world env st m i)\<lparr>pw_owner := (fresh_owner st)\<lparr>ow_state := t\<rparr>, pw_orders := []\<rparr>)"

lemma refused_reachable:
  assumes st: "state_ok st" "st_evidenceUnavailable st = None"
    and run: "transaction (apply_mutation env m) st = (Inl e, t)" "workings_of wk st t" "command_allowed env st (Mutate m)" "\<not> commit_unknown e"
  shows "reachable_world (refused_world env st m i e t)"
proof -
  let ?w = "asked_world env st m i" and ?r = "Refused 0 e" and ?s = "asked_store st m i"
  define ow where "ow = (fresh_owner st)\<lparr>ow_state := t\<rparr>"
  define w1 where "w1 = ?w\<lparr>pw_owner := ow, pw_orders := [], pw_replies := [ReplyMsg i ?r]\<rparr>"
  define s1 where "s1 = ?s\<lparr>so_pending := [], so_answers := [(i, Inr ?r)]\<rparr>"
  define w2 where "w2 = w1\<lparr>pw_store := s1, pw_replies := []\<rparr>"
  have fields: "so_failure ?s = None" "so_pending ?s = [(i, Mutate m)]" "so_answers ?s = []" "so_revision ?s = 0"
      "so_active ?s = Some (only_job m, AwaitReply i)"
    by (simp_all add: asked_store_def fresh_store_def new_store_def)
  have "owner_command env wk (order_of env m) (fresh_owner st) = (Some ?r, ow)"
    using run(1,4) by (simp add: owner_command_def owner_mutate_def order_of_def fresh_owner_def ow_def Let_def)
  then have "world_step ?w (executed i (Some ?r) ow ?w)"
    using run by (intro world_step.owner_executes) (simp_all add: asked_world_def order_of_def fresh_owner_def ow_def)
  moreover have "executed i (Some ?r) ow ?w = w1"
    by (simp add: executed_def commit_of_def asked_world_def w1_def)
  ultimately have r1: "reachable_world w1" using asked_reachable [OF st] by (metis reachable_world.step)
  have "world_step w1 w2"
    using world_step.reply_received [of w1 i ?r "[]"] fields
    by (simp add: w1_def w2_def s1_def receive_reply_def asked_world_def)
  with r1 have r2: "reachable_world w2" by (rule reachable_world.step)
  have "s1\<lparr>so_answers := []\<rparr> = ?s\<lparr>so_pending := []\<rparr>"
    using fields(3) by (simp add: s1_def)
  then have "resume_job None (\<lambda>_ _ _. Unresolved) [] 0 (only_job m) (AwaitReply i) s1
      = Settles (Inl (OwnerError e)) (finish_job (?s\<lparr>so_pending := []\<rparr>))"
    using run(4) by (simp add: resume_job_def mutation_reply_def only_job_def new_job_def Let_def s1_def)
  then have "world_step w2 (settled (jb_id (only_job m)) (stage_command (AwaitReply i)) (Inl (OwnerError e))
      (finish_job (?s\<lparr>so_pending := []\<rparr>)) w2)"
    by (intro world_step.settles) (simp_all add: w2_def s1_def fields)
  moreover have "settled (jb_id (only_job m)) (stage_command (AwaitReply i)) (Inl (OwnerError e))
      (finish_job (?s\<lparr>so_pending := []\<rparr>)) w2 = refused_world env st m i e t"
    by (simp add: refused_world_def settled_def w2_def w1_def asked_world_def ow_def only_job_def new_job_def)
  ultimately show ?thesis using r2 by (metis reachable_world.step)
qed

definition refused_cancel :: mutation where "refused_cancel = Requested (OpCancel ''nope'' None)"


definition no_workings :: workings where
  "no_workings = \<lparr>wk_requests = [], wk_deliveries = [], wk_sameRequest = (=), wk_sameDelivery = (=)\<rparr>"

definition refusal :: js_error where "refusal = Err ''Agent request not found: nope''"

lemma refused_cancel_reachable: "reachable_world (refused_world sample_env empty_state refused_cancel ''rpc-1'' refusal empty_state)"
proof (rule refused_reachable [OF sample_states_ok(1)])
  show "st_evidenceUnavailable empty_state = None" by (simp add: empty_state_def)
  have "request_at empty_state k = None" for k by (simp add: empty_state_def)
  then show "transaction (apply_mutation sample_env refused_cancel) empty_state = (Inl refusal, empty_state)"
    by (simp add: transaction_def refused_cancel_def refusal_def cancel_def Let_def empty_state_def)
  show "workings_of no_workings empty_state empty_state"
    by (simp add: workings_of_def no_workings_def draft_committed_def draft_run_def draft_of_def)
  show "command_allowed sample_env empty_state (Mutate refused_cancel)" by (simp add: refused_cancel_def)
  show "\<not> commit_unknown refusal" by (simp add: commit_unknown_def refusal_def)
qed

lemma cancelled_reachable: "reachable_world cancelled_world"
  unfolding cancelled_world_def
  by (rule acknowledged_reachable, rule replied_reachable [OF sample_states_ok(4) sample_cancel_runs(4,1-3)])

section \<open>Along the steps\<close>

lemma world_step_grows:
  assumes "world_step w v"
  shows "set (pw_outcomes w) \<subseteq> set (pw_outcomes v)" "set (pw_sent w) \<subseteq> set (pw_sent v)"
  using assms by (cases rule: world_step.cases; auto simp: settled_def executed_def sent_order_def)+

lemma world_steps_grow:
  assumes "world_step\<^sup>*\<^sup>* w v"
  shows "set (pw_outcomes w) \<subseteq> set (pw_outcomes v)" "set (pw_sent w) \<subseteq> set (pw_sent v)"
  using assms by (induction rule: rtranclp_induct) (auto dest: world_step_grows)

lemma reachable_steps: "world_step\<^sup>*\<^sup>* w v \<Longrightarrow> reachable_world w \<Longrightarrow> reachable_world v"
  by (induction rule: rtranclp_induct) (auto intro: reachable_world.step)

text \<open>A failed store sends nothing.\<close>

lemma world_step_failed_sends:
  assumes "world_step w v" "so_failure (pw_store w) = Some f"
  shows "pw_sent v = pw_sent w"
  using assms
proof (cases rule: world_step.cases)
  case (sends j st throws resolve i now s x)
  with assms(2) show ?thesis using resume_sends by (metis option.distinct(1))
next
  case (close_sends i now s k x)
  with assms(2) show ?thesis by (auto simp: resume_close_def rpc_def Let_def split: closure.splits if_splits option.splits sum.splits owner_reply.splits)
qed (simp_all add: settled_def executed_def)

text \<open>One command per call.\<close>

lemma one_command_per_call:
  assumes "sorted_wrt (<) (sent_jobs sent)" "(i, Some j, c) \<in> set sent" "(k, Some j, d) \<in> set sent"
  shows "i = k \<and> c = d"
  using assms
proof (induction sent)
  case (Cons x xs)
  have in_jobs: "j \<in> set (sent_jobs xs)" if "(a, Some j, b) \<in> set xs" for a b
    using that by (force simp: sent_jobs_def List.map_filter_def)
  obtain y n z where x: "x = (y, n, z)" by (cases x) auto
  have "sent_jobs (x # xs) = (case n of None \<Rightarrow> [] | Some m \<Rightarrow> [m]) @ sent_jobs xs"
    by (simp add: x sent_jobs_def List.map_filter_def split: option.split)
  with Cons x in_jobs show ?case by (auto split: option.splits)
qed simp

section \<open>Guarantees\<close>

text \<open>C3: The store shows committed states only, and the current one when nothing is under way. In every
  world the store and its owner can reach, whatever was lost, rejected or timed out: the
  requests and deliveries of a loaded store are those its owner had after the commit of the store's
  revision (the deliveries without their prompts). And while the store has not failed and awaits no
  reply, this is the owner's current state.\<close>

theorem store_shows_committed_state:
  assumes "reachable_world w" "so_loaded (pw_store w)"
  shows "so_revision (pw_store w) < length (pw_history w) \<and> shows_maps (pw_history w ! so_revision (pw_store w)) (pw_store w)
    \<and> (so_failure (pw_store w) = None \<and> awaited (pw_store w) = None \<longrightarrow>
        so_revision (pw_store w) = ow_revision (pw_owner w)
        \<and> shows_maps (st_requests (ow_state (pw_owner w)), st_deliveries (ow_state (pw_owner w))) (pw_store w))"
proof -
  let ?s = "pw_store w" and ?ow = "pw_owner w"
  note parts = world_okD [OF reachable_ok [OF assms(1)]]
  have shown: "so_revision ?s < length (pw_history w)" "shows_maps (pw_history w ! so_revision ?s) ?s"
    using parts(7) assms(2) unfolding view_ok_def Let_def by blast+
  have "so_revision ?s = ow_revision ?ow" if "so_failure ?s = None" "awaited ?s = None"
    using not_in_flight_idle [OF reachable_in_step [OF assms(1)] parts(2) that assms(2)] by (simp add: nothing_under_way_def)
  moreover have "pw_history w ! ow_revision ?ow = (st_requests (ow_state ?ow), st_deliveries (ow_state ?ow))"
    using parts(5) unfolding owner_ok_def by (metis diff_Suc_1 last_conv_nth length_0_conv nat.distinct(1))
  ultimately show ?thesis using shown by metis
qed

lemma store_shows_committed_state_witness:
  "shows_maps (st_requests cancelled_state, st_deliveries cancelled_state) (pw_store cancelled_world)"
proof -
  have f: "so_loaded (pw_store cancelled_world)" "so_failure (pw_store cancelled_world) = None" "awaited (pw_store cancelled_world) = None"
    "ow_state (pw_owner cancelled_world) = cancelled_state"
    by (simp_all add: cancelled_world_def acknowledged_world_def replied_world_def settled_def asked_store_def fresh_store_def new_store_def
        finish_job_def drain_waiting_def awaited_def publishInitial_def readModel_def sample_cancel_runs Let_def)
  with store_shows_committed_state [OF cancelled_reachable f(1)] show ?thesis by simp
qed


text \<open>C4: What is acknowledged is committed, once and in the order of the calls. When a call has resolved
  with a value and its command was a mutation, the owner has committed this command with this
  value; no command is committed twice, the commits are in the order the commands were sent, and
  the commands in the order of the calls, one for each call at most.\<close>

theorem acknowledged_mutations_are_committed:
  assumes "reachable_world w" "(j, r, Inr v) \<in> set (pw_outcomes w)" "(i, Some j, Mutate m) \<in> set (pw_sent w)"
  shows "r = Some i \<and> (i, v) \<in> set (pw_commits w) \<and> distinct (map fst (pw_commits w))
    \<and> subseq (map fst (pw_commits w)) (map fst (pw_sent w)) \<and> sorted_wrt (<) (sent_jobs (pw_sent w))"
proof -
  note parts = world_okD [OF reachable_ok [OF assms(1)]]
  have sorted: "sorted_wrt (<) (sent_jobs (pw_sent w))" and dist: "distinct (map fst (pw_sent w))"
    using parts(3) by (auto simp: sent_ok_def sorted_wrt_append)
  have true: "outcome_true w j r (Inr v)" using parts(8) assms(2) unfolding outcomes_ok_def by blast
  then obtain k c where k: "r = Some k" "(k, Some j, c) \<in> set (pw_sent w)" "sends_mutation (pw_sent w) k \<longrightarrow> (k, v) \<in> set (pw_commits w)"
    by (auto simp: outcome_true_def split: option.splits)
  from one_command_per_call [OF sorted assms(3) k(2)] have "k = i" by simp
  moreover have "sends_mutation (pw_sent w) i" using assms(3) by (force simp: sends_mutation_def)
  moreover have sub: "subseq (map fst (pw_commits w)) (map fst (pw_sent w))"
    using parts(4) unfolding orders_ok_def by (blast intro: subseq_order.trans [OF prefix_imp_subseq [OF prefixI [OF refl]]])
  moreover have "distinct (map fst (pw_commits w))" using orders_distinct [OF parts(4) dist] by simp
  ultimately show ?thesis using k(1,3) sorted by simp
qed


lemma acknowledged_mutations_are_committed_witness:
  "pw_commits cancelled_world = [(''rpc-1'', VRequest (the (request_at cancelled_state ''ru'')))]
    \<and> (''rpc-1'', VRequest (the (request_at cancelled_state ''ru''))) \<in> set (pw_commits cancelled_world)"
proof -
  have f: "pw_outcomes cancelled_world = [(0, Some ''rpc-1'', Inr (VRequest (the (request_at cancelled_state ''ru''))))]"
    "pw_sent cancelled_world = [(''rpc-1'', Some 0, Mutate sample_cancel)]"
    "pw_commits cancelled_world = [(''rpc-1'', VRequest (the (request_at cancelled_state ''ru'')))]"
    by (simp_all add: cancelled_world_def acknowledged_world_def replied_world_def settled_def Let_def)
  with acknowledged_mutations_are_committed [OF cancelled_reachable, of 0 "Some ''rpc-1''"] show ?thesis by simp
qed

text \<open>C18: A rejection that does not say \<open>unknown\<close> is honest. When a call has been rejected with an error of the owner, or
  with a failure of the store whose commit state is not unknown, then its mutation has not been committed, and it
  never is, in whatever way the store and its owner go on, an error event of the child at any moment
  included. The one exception is a mutation that was awaiting its reply when the child reported an error, and is rejected as if the child had
  not started (the last section shows that this happens); a call that is rejected in this way before
  its mutation was sent never sends it.\<close>

theorem rejections_are_honest:
  assumes "reachable_world w" "(j, r, Inl e) \<in> set (pw_outcomes w)" "\<forall>u. e = StoreFailed u \<longrightarrow> \<not> un_unknown u"
    and "r = None \<or> e \<noteq> StoreFailed start_failure"
    and "world_step\<^sup>*\<^sup>* w v" "(i, Some j, Mutate m) \<in> set (pw_sent v)"
  shows "i \<notin> fst ` set (pw_commits v)"
proof -
  note ok = reachable_ok [OF reachable_steps [OF assms(5,1)]]
  note parts = world_okD [OF ok]
  have sorted: "sorted_wrt (<) (sent_jobs (pw_sent v))" using parts(3) by (simp add: sent_ok_def sorted_wrt_append)
  have true: "outcome_true v j r (Inl e)"
    using parts(8) assms(2) world_steps_grow(1) [OF assms(5)] unfolding outcomes_ok_def by blast
  have "sends_mutation (pw_sent v) i" using assms(6) by (force simp: sends_mutation_def)
  moreover have "j \<in> set (sent_jobs (pw_sent v))" using assms(6) by (force simp: sent_jobs_def List.map_filter_def)
  ultimately show ?thesis
    using true one_command_per_call [OF sorted assms(6)] assms(3,4)
    by (cases e) (auto simp: outcome_true_def split: option.splits)
qed

lemma rejections_are_honest_witness:
  "pw_outcomes (refused_world sample_env empty_state refused_cancel ''rpc-1'' refusal empty_state) = [(0, Some ''rpc-1'', Inl (OwnerError refusal))]
    \<and> ''rpc-1'' \<notin> fst ` set (pw_commits (refused_world sample_env empty_state refused_cancel ''rpc-1'' refusal empty_state))"
proof -
  let ?w = "refused_world sample_env empty_state refused_cancel ''rpc-1'' refusal empty_state"
  have f: "pw_outcomes ?w = [(0, Some ''rpc-1'', Inl (OwnerError refusal))]" "pw_sent ?w = [(''rpc-1'', Some 0, Mutate refused_cancel)]"
    by (simp_all add: refused_world_def settled_def asked_world_def)
  have "''rpc-1'' \<notin> fst ` set (pw_commits ?w)"
    by (rule rejections_are_honest [OF refused_cancel_reachable, of 0 "Some ''rpc-1''" "OwnerError refusal"]) (simp_all add: f)
  with f show ?thesis by simp
qed

text \<open>C22: The first failure stops the store for good. Once the store has failed, whatever happens then, it
  keeps this failure, sends nothing to the owner any more, and every operation it guards answers
  with it.\<close>

theorem failed_store_is_fenced:
  assumes "so_failure (pw_store w) = Some f" "world_step\<^sup>*\<^sup>* w v"
  shows "so_failure (pw_store v) = Some f \<and> pw_sent v = pw_sent w \<and> assertComplete (pw_store v) = Inl f"
  using assms(2)
proof (induction rule: rtranclp_induct)
  case base
  with assms(1) show ?case by (simp add: assertComplete_def assertLoaded_def)
next
  case (step v u)
  with world_step_fail_kept world_step_failed_sends show ?case by (simp add: assertComplete_def assertLoaded_def)
qed


lemma failed_store_is_fenced_witness:
  "so_failure (pw_store ((initial_world fresh_store empty_state)\<lparr>pw_store := launch (child_error fresh_store)\<rparr>))
    = Some start_failure"
proof -
  let ?w = "(initial_world fresh_store empty_state)\<lparr>pw_store := child_error fresh_store\<rparr>"
  have f: "so_failure (pw_store ?w) = Some start_failure" "\<not> so_closing (pw_store ?w)"
    by (simp_all add: child_error_def fail_store_def fresh_store_def new_store_def reject_ready_def Let_def)
  have "world_step ?w (?w\<lparr>pw_store := launch (pw_store ?w)\<rparr>)" by (rule world_step.readied) (rule f(2))
  then have "world_step\<^sup>*\<^sup>* ?w (?w\<lparr>pw_store := launch (pw_store ?w)\<rparr>)" by (rule r_into_rtranclp)
  from failed_store_is_fenced [OF f(1) this] show ?thesis by simp
qed

subsection \<open>Every call ends\<close>

definition fail_rejects :: "request_store \<Rightarrow> bool" where
  "fail_rejects s \<longleftrightarrow> (so_failure s \<noteq> None \<longrightarrow> so_initialized s \<noteq> Initializing)"

lemma fail_rejects_fail [simp]: "fail_rejects (fail_store e s)"
  by (auto simp: fail_rejects_def fail_store_def reject_ready_def Let_def)

lemma fail_rejects_cong: "so_failure t = so_failure s \<Longrightarrow> so_initialized t = so_initialized s \<Longrightarrow> fail_rejects t = fail_rejects s"
  by (simp add: fail_rejects_def)

lemma finish_initialized [simp]: "so_initialized (finish_job s) = so_initialized s"
  by (simp add: finish_job_def drain_waiting_def launch_def split: list.split)

lemma finish_rejects [simp]: "fail_rejects (finish_job s) = fail_rejects s"
  by (rule fail_rejects_cong) simp_all

lemma dispatch_rejects: "dispatch_job throws resolve i now j s = Sends t x \<Longrightarrow> fail_rejects t = fail_rejects s"
  "dispatch_job throws resolve i now j s = Settles r t \<Longrightarrow> fail_rejects t = fail_rejects s"
  by (auto simp: dispatch_job_def rpc_def Let_def fail_rejects_def split: sum.splits if_splits job_kind.splits)

lemma mutation_reply_rejects: "fail_rejects s \<Longrightarrow> mutation_reply r s = (x, t) \<Longrightarrow> fail_rejects t"
  by (auto simp: mutation_reply_def Let_def split: owner_reply.splits option.splits if_splits)
    (auto simp: fail_rejects_def)

lemma resume_rejects:
  assumes "fail_rejects s"
  shows "resume_job throws resolve i now j st s = Sends t x \<Longrightarrow> fail_rejects t"
    "resume_job throws resolve i now j st s = Settles r t \<Longrightarrow> fail_rejects t"
proof -
  have answers: "fail_rejects (s\<lparr>so_answers := a\<rparr>)" for a using assms by (simp add: fail_rejects_def)
  show "fail_rejects t" if "resume_job throws resolve i now j st s = Sends t x"
    using that assms by (auto simp: resume_job_def Let_def dispatch_rejects(1) split: stage.splits initialization.splits option.splits sum.splits job_kind.splits prod.splits)
  show "fail_rejects t" if "resume_job throws resolve i now j st s = Settles r t"
    using that assms answers
    by (auto simp: resume_job_def Let_def dispatch_rejects(2) split: stage.splits initialization.splits option.splits sum.splits job_kind.splits prod.splits
)
      (rule mutation_reply_rejects [rotated], assumption, simp)
qed

lemma publish_rejects: "fail_rejects s \<Longrightarrow> fail_rejects (publishInitial m s)"
  by (auto simp: publishInitial_def reject_ready_def Let_def fail_rejects_def split: option.splits)

lemma world_step_rejects:
  assumes "world_step w v" "fail_rejects (pw_store w)"
  shows "fail_rejects (pw_store v)"
  using assms
proof (cases rule: world_step.cases)
  case (submitted k s)
  with assms(2) show ?thesis by (auto simp: submit_def enqueue_job_def fail_rejects_def split: job_kind.splits if_splits option.splits)
next
  case (sends j st throws resolve i now s x)
  with resume_rejects(1) [OF assms(2)] show ?thesis by (simp add: sent_order_def)
next
  case (settles j st throws resolve i now r s)
  with resume_rejects(2) [OF assms(2)] show ?thesis by (simp add: settled_def)
next
  case (ready_received m ms)
  have "fail_rejects ((pw_store w)\<lparr>so_starting := b, so_revision := n\<rparr>)" for b n using assms(2) by (simp add: fail_rejects_def)
  with ready_received assms(2) show ?thesis by (auto simp: receive_ready_def publish_rejects split: option.splits)
next
  case (reply_received i r ms)
  with assms(2) show ?thesis by (simp add: receive_reply_def fail_rejects_def)
next
  case (happens s)
  from happens(2) assms(2) happens(1) show ?thesis
    by (cases rule: store_event.cases)
      (auto simp: command_timed_out_def send_failed_def startup_timed_out_def child_error_def transport_failed_def split: option.splits)
next
  case (exits clean)
  have "fail_rejects (s\<lparr>so_exited := b\<rparr>) = fail_rejects s" for s b by (simp add: fail_rejects_def)
  with exits assms(2) show ?thesis by (simp add: child_closed_def Let_def)
next
  case (closes js s)
  have "fail_rejects (t\<lparr>so_waiting := a, so_queued := b, so_closure := c\<rparr>) = fail_rejects t" for t a b c by (simp add: fail_rejects_def)
  moreover have "fail_rejects ((pw_store w)\<lparr>so_closing := True\<rparr>)" using assms(2) by (simp add: fail_rejects_def)
  moreover have "fail_rejects u \<Longrightarrow> fail_rejects (reject_ready e u)" for e u by (simp add: fail_rejects_def reject_ready_def)
  ultimately show ?thesis using closes assms(2) by (auto simp: close_store_def Let_def split: if_splits)
next
  case (close_sends i now s k x)
  with assms(2) show ?thesis
    by (auto simp: resume_close_def rpc_def Let_def sent_order_def fail_rejects_def split: closure.splits if_splits option.splits sum.splits owner_reply.splits)
next
  case (close_goes_on i now s)
  have "fail_rejects (t\<lparr>so_closure := c\<rparr>) = fail_rejects t" "fail_rejects (t\<lparr>so_answers := a\<rparr>) = fail_rejects t" for t c a
    by (simp_all add: fail_rejects_def)
  with close_goes_on assms(2) show ?thesis
    by (auto simp: resume_close_def rpc_def Let_def split: closure.splits if_splits option.splits sum.splits owner_reply.splits)
qed (simp_all add: settled_def executed_def fail_rejects_def launch_def)

lemma reachable_rejects: "reachable_world w \<Longrightarrow> fail_rejects (pw_store w)"
proof (induction rule: reachable_world.induct)
  case (new n s st)
  then show ?case by (auto simp: new_store_def initial_world_def fail_rejects_def split: if_splits)
qed (use world_step_rejects in blast)


lemma failed_operation_settles:
  assumes "reachable_world w" "so_failure (pw_store w) = Some f" "so_active (pw_store w) = Some (j, st)"
  shows "\<exists>r s. resume_job None (\<lambda>_ _ _. Unresolved) [] 0 j st (pw_store w) = Settles r s"
proof -
  let ?s = "pw_store w"
  note parts = world_okD [OF reachable_ok [OF assms(1)]]
  show ?thesis
  proof (cases st)
    case AwaitReady
    have "so_initialized ?s \<noteq> Initializing"
      using reachable_rejects [OF assms(1)] assms(2) by (simp add: fail_rejects_def)
    with AwaitReady assms(2) show ?thesis
      by (cases "so_initialized ?s") (simp_all add: resume_job_def dispatch_job_def assertComplete_def assertLoaded_def Let_def)
  next
    case (AwaitReply i)
    then have "awaited ?s = Some i" using assms(3) by (simp add: awaited_def)
    then obtain x where "so_answers ?s = [(i, x)]"
      using rpc_okD(4) [OF parts(2)] parts(2) assms(2) unfolding rpc_ok_def by fastforce
    with AwaitReply show ?thesis
      by (cases x) (auto simp: resume_job_def Let_def split: job_kind.split prod.split)
  qed
qed

lemma settled_count: "length (pw_outcomes w) + length (live_jobs (pw_store w)) = pw_calls w" if "reachable_world w"
proof -
  have "distinct (map fst (pw_outcomes w) @ map jb_id (live_jobs (pw_store w)))"
    "set (map fst (pw_outcomes w) @ map jb_id (live_jobs (pw_store w))) = {..<pw_calls w}"
    using world_okD(1) [OF reachable_ok [OF that]] unfolding calls_ok_def by blast+
  from distinct_card [OF this(1)] this(2) show ?thesis by simp
qed

text \<open>Every step a failed store takes by itself settles one call.\<close>

lemma failed_own_step:
  assumes "own_step w v" "reachable_world w" "so_failure (pw_store w) = Some f"
  shows "reachable_world v" "so_failure (pw_store v) = Some f" "pw_calls v = pw_calls w" "prefix (pw_outcomes w) (pw_outcomes v)"
    "Suc (length (live_jobs (pw_store v))) = length (live_jobs (pw_store w))"
proof -
  show v: "reachable_world v" using assms(2) own_step_world [OF assms(1)] by (rule reachable_world.step)
  show "so_failure (pw_store v) = Some f" by (rule world_step_fail_kept [OF own_step_world [OF assms(1)] assms(3)])
  from assms(1) have d: "pw_calls v = pw_calls w \<and> prefix (pw_outcomes w) (pw_outcomes v) \<and> length (pw_outcomes v) = Suc (length (pw_outcomes w))"
  proof (cases rule: own_step.cases)
    case (sends j st throws resolve i now s x)
    with assms(3) show ?thesis using resume_sends by (metis option.distinct(1))
  qed (simp add: settled_def)
  then show "pw_calls v = pw_calls w" "prefix (pw_outcomes w) (pw_outcomes v)" by blast+
  from d settled_count [OF v] settled_count [OF assms(2)]
  show "Suc (length (live_jobs (pw_store v))) = length (live_jobs (pw_store w))" by simp
qed

lemma failed_own_steps:
  assumes "(own_step ^^ n) w v" "reachable_world w" "so_failure (pw_store w) = Some f"
  shows "reachable_world v \<and> pw_calls v = pw_calls w \<and> prefix (pw_outcomes w) (pw_outcomes v) \<and> so_failure (pw_store v) = Some f
    \<and> n + length (live_jobs (pw_store v)) = length (live_jobs (pw_store w))"
  using assms
proof (induction n arbitrary: v)
  case (Suc n)
  from Suc.prems(1) obtain u where u: "(own_step ^^ n) w u" "own_step u v" by auto
  from Suc.IH [OF u(1) Suc.prems(2,3)] failed_own_step [OF u(2)] show ?case by (auto intro: prefix_order.trans)
qed simp

lemma failed_store_settles:
  assumes "reachable_world w" "so_failure (pw_store w) = Some f"
  shows "\<exists>v. (own_step ^^ length (live_jobs (pw_store w))) w v"
  using assms
proof (induction "length (live_jobs (pw_store w))" arbitrary: w)
  case (Suc n)
  let ?s = "pw_store w"
  have "so_active ?s = None \<longrightarrow> so_waiting ?s = []"
    using world_okD(1) [OF reachable_ok [OF Suc.prems(1)]] unfolding calls_ok_def by blast
  with Suc.hyps(2) obtain j st where act: "so_active ?s = Some (j, st)"
    by (cases "so_active ?s") (auto simp: live_jobs_def)
  obtain r s where "resume_job None (\<lambda>_ _ _. Unresolved) [] 0 j st ?s = Settles r s"
    using failed_operation_settles [OF Suc.prems act] by blast
  then have step: "own_step w (settled (jb_id j) (stage_command st) r s w)" (is "own_step w ?v") by (rule own_step.settles [OF act])
  note v = failed_own_step [OF step Suc.prems]
  with Suc.hyps(2) have "n = length (live_jobs (pw_store ?v))" by simp
  from Suc.hyps(1) [OF this v(1,2)] obtain u where "(own_step ^^ n) ?v u" using \<open>n = _\<close> by metis
  then have "(own_step ^^ Suc n) w u" using step by (metis relpowp_Suc_I2)
  then show ?case using Suc.hyps(2) by metis
qed auto

text \<open>C21: Every call is settled once, and none is forgotten. The calls with an outcome and those that wait or
  are under way are exactly the calls made, each of them once, and no more than the bound of the queue wait or
  are under way. And once the store has failed, the steps it takes by itself, without any caller, timer, message or event of the owner,
  settle every call: each of them settles exactly one of those that are left, so there are no more of them than
  calls left, and as long as calls are left there is a next one.\<close>

theorem calls_settle_once:
  assumes "reachable_world w"
  shows "distinct (map fst (pw_outcomes w) @ map jb_id (live_jobs (pw_store w)))
    \<and> set (map fst (pw_outcomes w) @ map jb_id (live_jobs (pw_store w))) = {..<pw_calls w}
    \<and> length (live_jobs (pw_store w)) \<le> so_maxQueue (pw_store w)
    \<and> (so_failure (pw_store w) \<noteq> None \<longrightarrow>
        (\<exists>v. (own_step ^^ length (live_jobs (pw_store w))) w v \<and> prefix (pw_outcomes w) (pw_outcomes v)
           \<and> set (map fst (pw_outcomes v)) = {..<pw_calls w})
        \<and> (\<forall>n v. (own_step ^^ n) w v \<longrightarrow> n + length (live_jobs (pw_store v)) = length (live_jobs (pw_store w))
             \<and> (live_jobs (pw_store v) \<noteq> [] \<longrightarrow> (\<exists>u. own_step v u))))"
proof -
  have calls: "calls_ok (pw_calls w) (map fst (pw_outcomes w)) (pw_store w)"
    using world_okD(1) [OF reachable_ok [OF assms]] .
  have "(\<exists>v. (own_step ^^ length (live_jobs (pw_store w))) w v \<and> prefix (pw_outcomes w) (pw_outcomes v)
           \<and> set (map fst (pw_outcomes v)) = {..<pw_calls w})
        \<and> (\<forall>n v. (own_step ^^ n) w v \<longrightarrow> n + length (live_jobs (pw_store v)) = length (live_jobs (pw_store w))
             \<and> (live_jobs (pw_store v) \<noteq> [] \<longrightarrow> (\<exists>u. own_step v u)))"
    if fail: "so_failure (pw_store w) = Some f" for f
  proof (intro conjI allI impI)
    from failed_store_settles [OF assms fail] obtain v where v: "(own_step ^^ length (live_jobs (pw_store w))) w v" by blast
    note after = failed_own_steps [OF v assms fail]
    then have "live_jobs (pw_store v) = []" by simp
    moreover have "calls_ok (pw_calls v) (map fst (pw_outcomes v)) (pw_store v)"
      using world_okD(1) [OF reachable_ok] after by blast
    ultimately show "\<exists>v. (own_step ^^ length (live_jobs (pw_store w))) w v \<and> prefix (pw_outcomes w) (pw_outcomes v)
           \<and> set (map fst (pw_outcomes v)) = {..<pw_calls w}"
      using v after unfolding calls_ok_def by auto
  next
    fix n v assume v: "(own_step ^^ n) w v"
    note after = failed_own_steps [OF v assms fail]
    then show "n + length (live_jobs (pw_store v)) = length (live_jobs (pw_store w))" by blast
    assume "live_jobs (pw_store v) \<noteq> []"
    then obtain k where k: "length (live_jobs (pw_store v)) = Suc k" by (cases "live_jobs (pw_store v)") auto
    from failed_store_settles [of v f] after k obtain u where "(own_step ^^ Suc k) v u" by auto
    then show "\<exists>u. own_step v u" by (metis relpowp_Suc_D2)
  qed
  with calls show ?thesis unfolding calls_ok_def by auto
qed

lemma calls_settle_once_witness:
  "map fst (pw_outcomes cancelled_world) = [0] \<and> {0} \<union> jb_id ` set (live_jobs (pw_store cancelled_world)) = {..<1}"
proof -
  have f: "map fst (pw_outcomes cancelled_world) = [0]" "pw_calls cancelled_world = 1"
    by (simp_all add: cancelled_world_def acknowledged_world_def replied_world_def settled_def Let_def)
  with calls_settle_once [OF cancelled_reachable] show ?thesis by simp
qed

subsection \<open>A late error of the child\<close>

text \<open>A call that awaits the reply of its command when the store fails is told the failure, and nothing else.\<close>

definition told :: "nat \<Rightarrow> string \<Rightarrow> unavailability \<Rightarrow> store_world \<Rightarrow> bool" where
  "told j i f w \<longleftrightarrow> (\<forall>r x. (j, r, x) \<in> set (pw_outcomes w) \<longrightarrow> r = Some i \<and> x = Inl (StoreFailed f))
     \<and> (\<forall>a st. so_active (pw_store w) = Some (a, st) \<and> jb_id a = j \<longrightarrow> st = AwaitReply i \<and> so_answers (pw_store w) = [(i, Inl f)])
     \<and> j \<notin> jb_id ` set (so_waiting (pw_store w)) \<and> so_failure (pw_store w) \<noteq> None \<and> j < pw_calls w"

lemma fail_again: "so_failure s \<noteq> None \<Longrightarrow> so_pending s = [] \<Longrightarrow> so_answers (fail_store e s) = so_answers s"
  by (simp add: fail_answers)

lemma drain_told:
  assumes "so_active s = None" "j \<notin> jb_id ` set (so_waiting s)"
  shows "(\<forall>a st. so_active (drain_waiting s) = Some (a, st) \<longrightarrow> jb_id a \<noteq> j) \<and> j \<notin> jb_id ` set (so_waiting (drain_waiting s))"
  using assms by (auto simp: drain_waiting_def launch_def split: list.split)

text \<open>A store step that keeps the active operation and its answer.\<close>

lemma told_same:
  assumes "told j i f w" "pw_outcomes v = pw_outcomes w" "so_active (pw_store v) = so_active (pw_store w)"
    "so_waiting (pw_store v) = so_waiting (pw_store w)" "so_failure (pw_store v) \<noteq> None" "pw_calls w \<le> pw_calls v"
    "so_active (pw_store w) = None \<or> so_answers (pw_store v) = so_answers (pw_store w)"
  shows "told j i f v"
  using assms unfolding told_def by auto

lemma resume_settles:
  assumes "resume_job throws resolve i now j st s = Settles r t'"
  shows "\<exists>t. t' = finish_job t \<and> so_waiting t = so_waiting s"
proof -
  have ends: "\<exists>t. finish_job u = finish_job t \<and> so_waiting t = so_waiting s" if "so_waiting u = so_waiting s" for u
    using that by blast
  show ?thesis
    using assms
    by (auto simp: resume_job_def dispatch_job_def Let_def intro!: ends dest!: mutation_reply_fields(2)
        split: stage.splits initialization.splits option.splits sum.splits if_splits job_kind.splits prod.splits)
qed

lemma told_step:
  assumes step: "world_step w v" and reach: "reachable_world w" and told: "told j i f w"
  shows "told j i f v"
proof -
  let ?s = "pw_store w"
  obtain g where g: "so_failure ?s = Some g" using told by (auto simp: told_def)
  note kept = world_step_fail_kept [OF step g]
  note parts = world_okD [OF reachable_ok [OF reach]]
  have idle: "so_pending ?s = []" using parts(2) g unfolding rpc_ok_def by auto
  have fail: "so_failure ?s \<noteq> None" using g by simp
  from step show ?thesis
  proof (cases rule: world_step.cases)
    case (submitted k s)
    then have s: "s = drain_waiting (?s\<lparr>so_queued := so_queued ?s + 1, so_waiting := so_waiting ?s @ [new_job (pw_calls w) k]\<rparr>)"
      using g by (auto simp: submit_def enqueue_job_def split: job_kind.splits if_splits)
    have new: "j \<notin> jb_id ` set (so_waiting ?s @ [new_job (pw_calls w) k])" using told by (auto simp: told_def new_job_def)
    show ?thesis
    proof (cases "so_active ?s")
      case None
      have "so_answers s = so_answers ?s" by (simp add: s)
      with drain_told [of "?s\<lparr>so_queued := so_queued ?s + 1, so_waiting := so_waiting ?s @ [new_job (pw_calls w) k]\<rparr>" j] None new told fail
      show ?thesis by (auto simp: told_def submitted(1) s)
    next
      case (Some a)
      with new told fail show ?thesis by (auto simp: told_def submitted(1) s drain_waiting_def)
    qed
  next
    case (turned_down k e)
    with told show ?thesis by (auto simp: told_def settled_def)
  next
    case readied
    with told show ?thesis by (intro told_same [OF told]) (simp_all add: fail)
  next
    case (sends a st throws resolve n now s x)
    with g show ?thesis using resume_sends by (metis option.distinct(1))
  next
    case (settles a st throws resolve n now r s)
    have wait: "j \<notin> jb_id ` set (so_waiting ?s)" using told by (simp add: told_def)
    obtain t where t: "s = finish_job t" "so_waiting t = so_waiting ?s"
      using resume_settles [OF settles(3)] by blast
    from drain_told [of "t\<lparr>so_queued := so_queued t - 1, so_active := None\<rparr>" j] wait t
    have later: "(\<forall>a st. so_active s = Some (a, st) \<longrightarrow> jb_id a \<noteq> j) \<and> j \<notin> jb_id ` set (so_waiting s)" by (simp add: finish_job_def)
    have now: "stage_command st = Some i \<and> r = Inl (StoreFailed f)" if "jb_id a = j"
    proof -
      have "st = AwaitReply i" "so_answers ?s = [(i, Inl f)]" using told settles(2) that by (auto simp: told_def)
      with settles(3) show ?thesis by (simp add: resume_job_def Let_def)
    qed
    from later now told kept settles(1) show ?thesis by (auto simp: told_def settled_def)
  next
    case (ready_received m ms)
    with told fail show ?thesis by (intro told_same [OF told]) (simp_all add: receive_ready_def)
  next
    case (reply_received n r ms)
    with told fail show ?thesis by (intro told_same [OF told]) (simp_all add: receive_reply_def)
  next
    case (happens s)
    from happens(2) have "so_active s = so_active ?s \<and> so_waiting s = so_waiting ?s \<and> so_answers s = so_answers ?s"
      by (cases rule: store_event.cases)
        (auto simp: command_timed_out_def send_failed_def startup_timed_out_def child_error_def transport_failed_def fail_again [OF fail idle] idle split: option.splits)
    with kept happens(1) show ?thesis by (intro told_same [OF told]) simp_all
  next
    case (exits clean)
    have "so_answers (child_closed clean ?s) = so_answers ?s" "so_active (child_closed clean ?s) = so_active ?s" "so_waiting (child_closed clean ?s) = so_waiting ?s"
      by (simp_all add: child_closed_def fail_again [OF fail idle] Let_def)
    with kept exits(1) show ?thesis by (intro told_same [OF told]) simp_all
  next
    case (closes js s)
    have "so_answers s = so_answers ?s" "so_active s = so_active ?s" "set (so_waiting s) \<subseteq> set (so_waiting ?s)" "set js \<subseteq> set (so_waiting ?s)"
      using closes(2) fail by (auto simp: close_store_def reject_ready_def Let_def split: if_splits)
    with told kept closes(1) show ?thesis by (auto simp: told_def)
  next
    case (close_sends n now s k x)
    with g show ?thesis by (auto simp: resume_close_def rpc_def Let_def split: closure.splits if_splits option.splits sum.splits owner_reply.splits)
  next
    case (close_goes_on n now s)
    then have "so_active s = so_active ?s \<and> so_waiting s = so_waiting ?s \<and> (so_active ?s = None \<or> so_answers s = so_answers ?s)"
      using rpc_okD(2) [OF parts(2)]
      by (cases "so_closure ?s") (auto simp: resume_close_def rpc_def Let_def split: if_splits option.splits sum.splits owner_reply.splits)
    with kept close_goes_on(1) show ?thesis by (intro told_same [OF told]) simp_all
  qed (use told fail in \<open>auto simp: told_def executed_def\<close>)
qed

lemma told_steps:
  assumes "world_step\<^sup>*\<^sup>* w v" "reachable_world w" "told j i f w"
  shows "told j i f v"
  using assms
proof (induction rule: rtranclp_induct)
  case (step v u)
  with told_step reachable_steps show ?case by blast
qed

lemma commits_kept: "world_step\<^sup>*\<^sup>* w v \<Longrightarrow> set (pw_commits w) \<subseteq> set (pw_commits v)"
proof (induction rule: rtranclp_induct)
  case (step v u)
  from step.hyps(2) have "set (pw_commits v) \<subseteq> set (pw_commits u)"
    by (cases rule: world_step.cases) (auto simp: settled_def executed_def sent_order_def)
  with step.IH show ?case by blast
qed simp

text \<open>C40: The \<open>error\<close> event of the child denies what has been committed. Whenever a mutation has been committed by the owner and its
  caller still awaits the reply, an error event of the child (which also reports a signal or a message
  that could not be delivered) makes the store tell the caller that nothing was started: the next step of the store is this
  answer, its commit state is not unknown, and however the store and its owner go on, the call never has another
  outcome, while its mutation stays committed. (The handlers of the exit, of the transport and of the
  time-outs say \<open>unknown\<close> there.)\<close>

theorem child_error_denies_a_commit:
  assumes "reachable_world w" "so_failure (pw_store w) = None" "so_active (pw_store w) = Some (j, AwaitReply i)"
    and "(i, Mutate m) \<in> set (so_pending (pw_store w))" "(i, v) \<in> set (pw_commits w)"
    and "w' = w\<lparr>pw_store := child_error (pw_store w)\<rparr>"
  shows "world_step w w' \<and> \<not> un_unknown start_failure
    \<and> (\<exists>u. own_step w' u \<and> (jb_id j, Some i, Inl (StoreFailed start_failure)) \<in> set (pw_outcomes u))
    \<and> (\<forall>u. world_step\<^sup>*\<^sup>* w' u \<longrightarrow> (i, v) \<in> set (pw_commits u)
         \<and> (\<forall>r x. (jb_id j, r, x) \<in> set (pw_outcomes u) \<longrightarrow> r = Some i \<and> x = Inl (StoreFailed start_failure)))"
proof -
  let ?s = "pw_store w" and ?t = "child_error (pw_store w)"
  note parts = world_okD [OF reachable_ok [OF assms(1)]]
  have step: "world_step w w'" unfolding assms(6) by (rule world_step.happens [OF store_event.error])
  have reach: "reachable_world w'" using assms(1) step by (rule reachable_world.step)
  have "awaited ?s = Some i" using assms(3) by (simp add: awaited_def)
  with rpc_okD(4) [OF parts(2) this] assms(4) have pend: "so_pending ?s = [(i, Mutate m)]" "so_answers ?s = []" by auto
  have t: "so_answers ?t = [(i, Inl start_failure)]" "so_active ?t = Some (j, AwaitReply i)" "so_failure ?t \<noteq> None" "so_waiting ?t = so_waiting ?s"
    using assms(2,3) pend by (simp_all add: child_error_def fail_answers)
  then have "resume_job None (\<lambda>_ _ _. Unresolved) [] 0 j (AwaitReply i) ?t
      = Settles (Inl (StoreFailed start_failure)) (finish_job (?t\<lparr>so_answers := []\<rparr>))"
    by (simp add: resume_job_def Let_def)
  with t(2) have own: "own_step w' (settled (jb_id j) (stage_command (AwaitReply i)) (Inl (StoreFailed start_failure)) (finish_job (?t\<lparr>so_answers := []\<rparr>)) w')"
    by (intro own_step.settles) (simp_all add: assms(6))
  have calls: "distinct (map fst (pw_outcomes w) @ map jb_id (live_jobs ?s))" "set (map fst (pw_outcomes w) @ map jb_id (live_jobs ?s)) = {..<pw_calls w}"
    using parts(1) unfolding calls_ok_def by blast+
  have live: "live_jobs ?s = j # so_waiting ?s" using assms(3) by (simp add: live_jobs_def)
  have now: "told (jb_id j) i start_failure w'"
    using calls t unfolding told_def assms(6) live by (auto simp: image_iff)
  have "\<forall>r x. (jb_id j, r, x) \<in> set (pw_outcomes u) \<longrightarrow> r = Some i \<and> x = Inl (StoreFailed start_failure)" if "world_step\<^sup>*\<^sup>* w' u" for u
    using told_steps [OF that reach now] unfolding told_def by blast
  moreover have "(i, v) \<in> set (pw_commits u)" if "world_step\<^sup>*\<^sup>* w' u" for u
    using commits_kept [OF that] assms(5) by (auto simp: assms(6))
  moreover have "\<exists>u. own_step w' u \<and> (jb_id j, Some i, Inl (StoreFailed start_failure)) \<in> set (pw_outcomes u)"
    using own by (intro exI conjI, assumption) (simp add: settled_def)
  ultimately show ?thesis using step by (simp add: start_failure_def)
qed

text \<open>A cancellation is committed, and the child reports an error before its reply is received.\<close>

definition committed_world :: store_world where
  "committed_world = replied_world bound_state sample_cancel ''rpc-1'' (VRequest (the (request_at cancelled_state ''ru'')))
     (transaction_delta cancelled_workings bound_state) cancelled_state"

lemma child_error_denies_a_commit_witness:
  "\<exists>u. own_step (committed_world\<lparr>pw_store := child_error (pw_store committed_world)\<rparr>) u
    \<and> (0, Some ''rpc-1'', Inl (StoreFailed start_failure)) \<in> set (pw_outcomes u)"
proof -
  have reach: "reachable_world committed_world"
    unfolding committed_world_def by (rule replied_reachable [OF sample_states_ok(4) sample_cancel_runs(4,1-3)])
  have f: "so_failure (pw_store committed_world) = None" "so_active (pw_store committed_world) = Some (only_job sample_cancel, AwaitReply ''rpc-1'')"
    "(''rpc-1'', Mutate sample_cancel) \<in> set (so_pending (pw_store committed_world))"
    "(''rpc-1'', VRequest (the (request_at cancelled_state ''ru''))) \<in> set (pw_commits committed_world)"
    "jb_id (only_job sample_cancel) = 0"
    by (simp_all add: committed_world_def replied_world_def asked_store_def fresh_store_def new_store_def only_job_def new_job_def)
  from child_error_denies_a_commit [OF reach f(1-4) refl] f(5) show ?thesis by simp
qed

end
