(* ===== verification/StoreQueries.thy ===== *)
theory StoreQueries
  imports StoreProps
begin

text \<open>
  The synchronous queries of \<open>AgentRequestStore\<close> (\<open>src/src/agentRequests/store.ts\<close>), which answer from the
  copy the store holds, and their agreement with the state of the owner. A caller's predicate on
  parties is an argument; the canonical form of a workspace path is one of the environment.
\<close>

section \<open>Queries\<close>

definition store_check :: "unavailability + 'a \<Rightarrow> store_error + 'a" where
  "store_check x = map_sum StoreFailed id x"

text \<open>A record that is missing counts as absent only when the evidence is complete.\<close>

definition present_or_complete :: "'a option \<Rightarrow> request_store \<Rightarrow> unavailability + 'a option" where
  "present_or_complete x s = bind (assertLoaded s) (\<lambda>_. case x of
     Some v \<Rightarrow> Inr (Some v)
   | None \<Rightarrow> bind (assertComplete s) (\<lambda>_. Inr None))"

definition store_get :: "request_store \<Rightarrow> string \<Rightarrow> unavailability + request option" where
  "store_get s k = present_or_complete (map_of (so_requests s) (cleanText (Some k) 100)) s"

definition store_getEndpointDelivery :: "request_store \<Rightarrow> string \<Rightarrow> unavailability + delivery option" where
  "store_getEndpointDelivery s k = present_or_complete (map_of (so_deliveries s) k) s"

record delivery_metadata =
  dm_deliveryId :: string
  dm_callerDeliveryId :: "string option"
  dm_state :: delivery_state
  dm_source :: delivery_source
  dm_target :: endpoint
  dm_receipt :: "receipt option"
  dm_createdAt :: "stamp option"
  dm_updatedAt :: "stamp option"
  dm_lastAttemptAt :: "stamp option"
  dm_nextAttemptAt :: "stamp option"
  dm_attemptCount :: "nat option"
  dm_lastError :: "(string option \<times> string) option"
  dm_blockedReason :: "string option"

definition metadata_of :: "delivery \<Rightarrow> delivery_metadata" where
  "metadata_of d = \<lparr>dm_deliveryId = dl_deliveryId d, dm_callerDeliveryId = dl_callerDeliveryId d, dm_state = dl_state d,
     dm_source = dl_source d, dm_target = dl_target d, dm_receipt = dl_receipt d, dm_createdAt = dl_createdAt d,
     dm_updatedAt = dl_updatedAt d, dm_lastAttemptAt = dl_lastAttemptAt d, dm_nextAttemptAt = dl_nextAttemptAt d,
     dm_attemptCount = dl_attemptCount d, dm_lastError = dl_lastError d, dm_blockedReason = dl_blockedReason d\<rparr>"

definition store_listMetadata :: "request_store \<Rightarrow> unavailability + delivery_metadata list" where
  "store_listMetadata s = bind (assertComplete s) (\<lambda>_. Inr (map metadata_of (map_values (so_deliveries s))))"

definition store_listUnavailable :: "request_store \<Rightarrow> unavailability + string list" where
  "store_listUnavailable s = bind (assertLoaded s) (\<lambda>_. Inr (so_unavailable s))"

definition store_list :: "(string \<Rightarrow> int option) \<Rightarrow> request_store \<Rightarrow> unavailability + request list" where
  "store_list date s = bind (assertComplete s) (\<lambda>_.
     Inr (sort_key (\<lambda>r. - (case date_parse date (rq_updatedAt r) of None \<Rightarrow> 0 | Some ms \<Rightarrow> ms)) (map_values (so_requests s))))"

text \<open>\<open>party.threadId === id && (!matches || matches(party)) && (workspaces agree)\<close>\<close>

definition party_matches :: "(string \<Rightarrow> string) \<Rightarrow> string \<Rightarrow> string option \<Rightarrow> (party \<Rightarrow> bool) option \<Rightarrow> party \<Rightarrow> bool" where
  "party_matches canon k workspace matches p \<longleftrightarrow> pa_threadId p = k
     \<and> (case matches of None \<Rightarrow> True | Some f \<Rightarrow> f p)
     \<and> (\<not> truthy (pa_workspace p) \<or> \<not> truthy workspace \<or> sameCodexWorkspace canon (pa_workspace p) workspace)"

definition unansweredTargetRequestSnapshot ::
    "(string \<Rightarrow> string) \<Rightarrow> request_store \<Rightarrow> string \<Rightarrow> string option \<Rightarrow> (party \<Rightarrow> bool) option \<Rightarrow> unavailability + (string list \<times> bool)" where
  "unansweredTargetRequestSnapshot canon s threadId workspace matches = bind (assertComplete s) (\<lambda>_.
     let k = cleanText (Some threadId) 4096;
         complete = (case so_snapshot s of None \<Rightarrow> False | Some (unscoped, incomplete) \<Rightarrow> \<not> unscoped \<and> k \<notin> set incomplete) in
     if k = [] then Inr ([], complete)
     else Inr (map rq_id (filter (\<lambda>r. rq_status r = AwaitingResponse \<and> party_matches canon k workspace matches (rq_target r))
            (map_values (so_requests s))), complete))"

definition store_hasManagedSession ::
    "(string \<Rightarrow> string) \<Rightarrow> request_store \<Rightarrow> string \<Rightarrow> string option \<Rightarrow> (party \<Rightarrow> bool) option \<Rightarrow> unavailability + bool" where
  "store_hasManagedSession canon s threadId workspace matches = bind (assertComplete s) (\<lambda>_.
     let k = cleanText (Some threadId) 4096 in
     Inr (list_ex (\<lambda>r. list_ex (party_matches canon k workspace matches) [rq_source r, rq_target r]) (map_values (so_requests s))))"

definition store_hasReservation :: "request_store \<Rightarrow> string \<Rightarrow> unavailability + bool" where
  "store_hasReservation s k = bind (assertLoaded s) (\<lambda>_.
     if map_of (so_deliveries s) k \<noteq> None \<or> k \<in> set (so_unavailable s)
        \<or> list_ex (\<lambda>r. rq_deliveryId r = k \<or> rq_pendingResponseDeliveryId r = Some k
             \<or> map_option rs_deliveryId (rq_response r) = Some k) (map_values (so_requests s))
     then Inr True else bind (assertComplete s) (\<lambda>_. Inr False))"

definition inactive :: js_error where
  "inactive = Err ''Endpoint request was cancelled or its exact reservation changed; execution and reconciliation are forbidden.''"

definition missing_delivery :: js_error where
  "missing_delivery = Err ''Endpoint delivery is missing or cancelled.''"

definition linked_in :: "requests \<Rightarrow> string option \<Rightarrow> request option" where
  "linked_in m x = (if truthy x then map_of m (the x) else None)"

definition store_assertActive :: "(string \<Rightarrow> string) \<Rightarrow> request_store \<Rightarrow> string \<Rightarrow> store_error + unit" where
  "store_assertActive canon s k = bind (store_check (assertComplete s)) (\<lambda>_. case map_of (so_deliveries s) k of
     None \<Rightarrow> Inl (OwnerError missing_delivery)
   | Some d \<Rightarrow>
       let p = dl_preparation d; request = linked_in (so_requests s) (pr_requestId p);
           original = linked_in (so_requests s) (pr_inReplyToRequestId p);
           requested = (if \<not> truthy (pr_requestId p) then Inr True
             else (case request of
                 None \<Rightarrow> Inr False
               | Some r \<Rightarrow> if rq_status r = RCancelled \<or> rq_deliveryId r \<noteq> k then Inr False
                   else sameAgentParty canon (rq_target r) (pr_target p)));
           replied = (\<not> truthy (pr_inReplyToRequestId p) \<or> (case original of
               None \<Rightarrow> False
             | Some r \<Rightarrow> rq_status r \<noteq> RCancelled \<and> sameAgentPartyAddress (rq_source r) (pr_target p)
                 \<and> (rq_pendingResponseDeliveryId r = Some k \<or> map_option rs_deliveryId (rq_response r) = Some k))) in
       if dl_state d = DCancelled then Inl (OwnerError missing_delivery)
       else (case requested of
           Inl e \<Rightarrow> Inl (OwnerError e)
         | Inr ok \<Rightarrow> if ok \<and> replied then Inr () else Inl (OwnerError inactive)))"

definition store_resolveReply :: "request_store \<Rightarrow> string \<Rightarrow> party \<Rightarrow> store_error + party option" where
  "store_resolveReply s requestId requested = bind (store_check (store_get s requestId)) (\<lambda>r.
     map_sum OwnerError id (resolveAgentRequestReplyDestination r requested))"

section \<open>Evidence never changes while the owner runs\<close>

definition evidence_of :: "req_state \<Rightarrow> string list \<times> string option \<times> (string \<times> quarantined) list" where
  "evidence_of s = (st_unavailable s, st_evidenceUnavailable s, st_quarantinedRequests s)"

lemma evidence_sel [simp]:
  "evidence_of (put_request k r s) = evidence_of s" "evidence_of (put_delivery k d s) = evidence_of s"
  "evidence_of (drop_request k s) = evidence_of s" "evidence_of (drop_delivery k s) = evidence_of s"
  "evidence_of (s\<lparr>st_requests := m\<rparr>) = evidence_of s" "evidence_of (s\<lparr>st_deliveries := n\<rparr>) = evidence_of s"
  "evidence_of (s\<lparr>st_disk := x\<rparr>) = evidence_of s"
  by (simp_all add: evidence_of_def put_request_def put_delivery_def drop_request_def drop_delivery_def)

lemma evidence_fold [simp]:
  "evidence_of (fold (\<lambda>d t. put_delivery (dl_deliveryId d) d t) ds s) = evidence_of s"
  "evidence_of (restore_requests b s) = evidence_of s"
  by (induction ds arbitrary: s, simp_all) (simp add: restore_requests_def, induction b arbitrary: s, auto)

lemma evidence_persist [simp]:
  assumes "\<And>t. evidence_of (rollback t) = evidence_of t"
  shows "evidence_of (snd (persist_or env rollback v s)) = evidence_of s"
  using assms by (simp add: persist_or_def persist_def split: option.split write_outcome.split)

lemma evidence_transaction:
  "evidence_of (snd (operation s)) = evidence_of s \<Longrightarrow> evidence_of (snd (transaction operation s)) = evidence_of s"
  by (cases "operation s") (simp add: transaction_def split: sum.split)

lemma evidence_deliveries:
  "evidence_of (snd (bindEndpointDelivery env d s)) = evidence_of s"
  "evidence_of (snd (markEndpointDispatching env k s)) = evidence_of s"
  "evidence_of (snd (noteEndpointDeliveryFailure env k e b s)) = evidence_of s"
  "evidence_of (snd (markEndpointNotSent env k p s)) = evidence_of s"
  by (auto simp: bindEndpointDelivery_def markEndpointDispatching_def noteEndpointDeliveryFailure_def markEndpointNotSent_def Let_def
      split: sum.split option.split)

lemma evidence_requests:
  "evidence_of (snd (prepare env i s)) = evidence_of s"
  "evidence_of (snd (recordConnectionResponse env k src d r n s)) = evidence_of s"
  "evidence_of (snd (bindResponseEvidence env p x s)) = evidence_of s"
  "evidence_of (snd (abort env p s)) = evidence_of s"
  by (auto simp: prepare_def recordConnectionResponse_def bindResponseEvidence_def abort_def release_reply_def release_request_def Let_def
      split: sum.split option.split prod.split)

lemma evidence_commit: "evidence_of (snd (commit env p r s)) = evidence_of s"
proof -
  have "evidence_of t = evidence_of s" if "commit_reply env p s = Inr (ReplyCommitted q t)" for q t
    using that by (auto simp: commit_reply_def split: if_splits option.splits)
  then show ?thesis
    by (auto simp: commit_def Let_def split: sum.split option.split reply_commit.split)
qed

lemma evidence_receipt: "evidence_of (snd (commitEndpointReceipt env k r s)) = evidence_of s"
proof -
  have "evidence_of u = evidence_of t" if "commit env p x t = (v, u)" for p x t v u
    using evidence_commit [of env p x t] that by simp
  then show ?thesis
    by (auto simp: commitEndpointReceipt_def Let_def split: sum.split option.split prod.split)
qed

lemma evidence_cancel:
  "evidence_of (snd (cancel env k x s)) = evidence_of s"
  "evidence_of (snd (cancelEndpointDelivery env k s)) = evidence_of s"
proof -
  show c: "evidence_of (snd (cancel env k x s)) = evidence_of s" for k x
    by (auto simp: cancel_def Let_def split: option.split)
  have "evidence_of u = evidence_of s" if "cancel env k x s = (v, u)" for k x v u
    using c [of k x] that by simp
  then show "evidence_of (snd (cancelEndpointDelivery env k s)) = evidence_of s"
    by (auto simp: cancelEndpointDelivery_def Let_def split: option.split sum.split prod.split)
qed

lemma evidence_reconcile: "evidence_of (snd (reconcileOpenParties env f s)) = evidence_of s"
  by (auto simp: reconcileOpenParties_def split: prod.split option.split)

lemma evidence_mutation: "evidence_of (snd (apply_mutation env m s)) = evidence_of s"
proof -
  have "snd (returned f x) = snd x" for f and x :: "'b result \<times> req_state"
    by (cases "fst x"; cases x) auto
  note returned = this
  show ?thesis
  proof (cases m)
    case (Requested x)
    then show ?thesis
      by (cases x) (simp_all add: returned evidence_deliveries evidence_requests evidence_commit evidence_receipt evidence_cancel)
  qed (simp add: returned evidence_reconcile)
qed

lemma evidence_owner: "evidence_of (ow_state (snd (owner_command env wk x ow))) = evidence_of (ow_state ow)"
proof -
  have "evidence_of (ow_state (snd (owner_mutate e wk m ow))) = evidence_of (ow_state ow)" for e m
    using evidence_transaction [where operation = "apply_mutation e m", OF evidence_mutation]
    by (auto simp: owner_mutate_def split: prod.split sum.split) (metis snd_conv)+
  then show ?thesis
    by (auto simp: owner_command_def Let_def split: store_command.split sum.split)
qed

section \<open>The evidence the store shows\<close>

definition shown_evidence :: "request_store \<Rightarrow> string list \<times> (bool \<times> string list) option \<times> bool" where
  "shown_evidence s = (so_unavailable s, so_snapshot s, so_loaded s)"

lemma shown_fail [simp]: "shown_evidence (fail_store e s) = shown_evidence s" "shown_evidence (reject_ready e s) = shown_evidence s"
  by (simp_all add: shown_evidence_def fail_store_def reject_ready_def Let_def)

lemma shown_update [simp]:
  "shown_evidence (s\<lparr>so_answers := a\<rparr>) = shown_evidence s" "shown_evidence (s\<lparr>so_closure := c\<rparr>) = shown_evidence s"
  "shown_evidence (s\<lparr>so_closing := b\<rparr>) = shown_evidence s" "shown_evidence (s\<lparr>so_starting := b\<rparr>) = shown_evidence s"
  "shown_evidence (s\<lparr>so_exited := b\<rparr>) = shown_evidence s" "shown_evidence (s\<lparr>so_active := x\<rparr>) = shown_evidence s"
  "shown_evidence (s\<lparr>so_pending := p\<rparr>) = shown_evidence s" "shown_evidence (s\<lparr>so_revision := n\<rparr>) = shown_evidence s"
  "shown_evidence (s\<lparr>so_queued := n\<rparr>) = shown_evidence s" "shown_evidence (s\<lparr>so_waiting := js\<rparr>) = shown_evidence s"
  by (simp_all add: shown_evidence_def)

lemma shown_launch [simp]: "shown_evidence (launch s) = shown_evidence s"
  by (simp add: shown_evidence_def launch_def)

lemma shown_drain [simp]: "shown_evidence (drain_waiting s) = shown_evidence s" "shown_evidence (finish_job s) = shown_evidence s"
  by (simp_all add: finish_job_def drain_waiting_def split: list.split)

lemma shown_delta [simp]: "shown_evidence (apply_delta d s) = shown_evidence s"
  by (simp add: apply_delta_def shown_evidence_def Let_def)

lemma shown_submit: "submit j s = Inr t \<Longrightarrow> shown_evidence t = shown_evidence s"
  by (auto simp: submit_def enqueue_job_def split: job_kind.splits option.splits if_splits)

lemma shown_dispatch:
  "dispatch_job throws resolve i now j s = Sends t x \<Longrightarrow> shown_evidence t = shown_evidence s"
  "dispatch_job throws resolve i now j s = Settles r t \<Longrightarrow> shown_evidence t = shown_evidence s"
  by (auto simp: dispatch_job_def rpc_def Let_def split: sum.splits if_splits job_kind.splits)

lemma shown_mutation_reply: "mutation_reply r s = (x, t) \<Longrightarrow> shown_evidence t = shown_evidence s"
  by (auto simp: mutation_reply_def Let_def split: owner_reply.splits option.splits if_splits)

lemma shown_resume:
  "resume_job throws resolve i now j st s = Sends t x \<Longrightarrow> shown_evidence t = shown_evidence s"
  "resume_job throws resolve i now j st s = Settles r t \<Longrightarrow> shown_evidence t = shown_evidence s"
  by (auto simp: resume_job_def Let_def dest: shown_dispatch shown_mutation_reply
      split: stage.splits initialization.splits option.splits sum.splits job_kind.splits prod.splits)

lemma shown_event: "store_event s t \<Longrightarrow> shown_evidence t = shown_evidence s"
  by (cases rule: store_event.cases)
    (auto simp: command_timed_out_def send_failed_def startup_timed_out_def child_error_def transport_failed_def split: option.splits)

lemma shown_close: "close_store s = (js, t) \<Longrightarrow> shown_evidence t = shown_evidence s"
  by (auto simp: close_store_def Let_def split: if_splits)

lemma shown_resume_close: "resume_close i now s = Some (t, x) \<Longrightarrow> shown_evidence t = shown_evidence s"
  by (auto simp: resume_close_def rpc_def Let_def split: closure.splits if_splits option.splits sum.splits owner_reply.splits)

definition shown_of :: "req_state \<Rightarrow> bool \<times> string list" where
  "shown_of st = (mo_unscoped (readModel st), mo_incompleteThreadIds (readModel st))"

lemma shown_of_evidence: "evidence_of t = evidence_of s \<Longrightarrow> shown_of t = shown_of s"
  by (simp add: shown_of_def readModel_def evidence_of_def Let_def)

definition evidence_shown :: "string list \<times> (bool \<times> string list) option \<times> bool \<Rightarrow> owner_message list \<Rightarrow> req_state \<Rightarrow> bool" where
  "evidence_shown x replies st \<longleftrightarrow> (case x of (ids, snapshot, loaded) \<Rightarrow>
     (if loaded then set ids = set (st_unavailable st) \<and> snapshot = Some (shown_of st) else ids = [])
     \<and> (\<forall>n m. ReadyMsg (Some (n, m)) \<in> set replies \<longrightarrow> (\<exists>t. m = readModel t \<and> evidence_of t = evidence_of st)))"

lemma evidence_shown_cong:
  assumes "evidence_shown x replies st" "evidence_of t = evidence_of st"
    and "\<And>n m. ReadyMsg (Some (n, m)) \<in> set replies' \<Longrightarrow> ReadyMsg (Some (n, m)) \<in> set replies \<or> m = readModel st"
  shows "evidence_shown x replies' t"
proof -
  have "st_unavailable t = st_unavailable st" using assms(2) by (simp add: evidence_of_def)
  with assms shown_of_evidence [OF assms(2)] show ?thesis unfolding evidence_shown_def by (auto split: prod.splits) metis+
qed

lemma fold_insert_set: "set (fold List.insert xs ys) = set xs \<union> set ys"
  by (induction xs arbitrary: ys) auto

lemma publish_shown:
  assumes "evidence_of t = evidence_of st" "so_unavailable s = []" "shown_evidence (publishInitial (readModel t) s) = (ids, snapshot, loaded)"
  shows "set ids = set (st_unavailable st)" "snapshot = Some (shown_of st)" "loaded"
proof -
  have "shown_evidence (publishInitial (readModel t) s) = (fold List.insert (st_unavailable t) [], Some (shown_of t), True)"
    using assms(2) by (simp add: publishInitial_def reject_ready_def shown_evidence_def shown_of_def Let_def readModel_def split: option.split)
  with assms(1,3) shown_of_evidence [OF assms(1)] show "set ids = set (st_unavailable st)" "snapshot = Some (shown_of st)" "loaded"
    by (auto simp: evidence_of_def fold_insert_set)
qed

definition world_evidence :: "store_world \<Rightarrow> bool" where
  "world_evidence w \<longleftrightarrow> evidence_shown (shown_evidence (pw_store w)) (pw_replies w) (ow_state (pw_owner w))"

lemma world_evidence_step:
  assumes "shown_evidence (pw_store v) = shown_evidence (pw_store w)" "world_evidence w"
    and "evidence_of (ow_state (pw_owner v)) = evidence_of (ow_state (pw_owner w))"
    and "\<And>n m. ReadyMsg (Some (n, m)) \<in> set (pw_replies v)
      \<Longrightarrow> ReadyMsg (Some (n, m)) \<in> set (pw_replies w) \<or> m = readModel (ow_state (pw_owner w))"
  shows "world_evidence v"
  using evidence_shown_cong [OF _ assms(3,4)] assms(1,2) by (simp add: world_evidence_def)

lemma world_step_evidence:
  assumes "world_step w v" "world_evidence w" "view_ok w"
  shows "world_evidence v"
  using assms(1)
proof (cases rule: world_step.cases)
  case (ready_received m ms)
  let ?s = "pw_store w" and ?st = "ow_state (pw_owner w)"
  have nl: "\<not> so_loaded ?s" using assms(3) ready_received unfolding view_ok_def Let_def by (auto split: if_splits)
  have rest: "ReadyMsg x \<in> set (pw_replies w)" if "ReadyMsg x \<in> set ms" for x using that ready_received by simp
  show ?thesis
  proof (cases "so_failure ?s = None \<and> m \<noteq> None")
    case False
    then have "shown_evidence (receive_ready m ?s) = shown_evidence ?s" by (cases m) (auto simp: receive_ready_def)
    with ready_received rest show ?thesis by (intro world_evidence_step [OF _ assms(2)]) auto
  next
    case True
    then obtain n md where m: "m = Some (n, md)" by force
    with assms(2) ready_received obtain t where t: "md = readModel t" "evidence_of t = evidence_of ?st"
      by (fastforce simp: world_evidence_def evidence_shown_def)
    have empty: "so_unavailable (?s\<lparr>so_starting := False, so_revision := n\<rparr>) = []"
      using assms(2) nl by (simp add: world_evidence_def evidence_shown_def shown_evidence_def)
    obtain ids sn l where p: "shown_evidence (publishInitial (readModel t) (?s\<lparr>so_starting := False, so_revision := n\<rparr>)) = (ids, sn, l)"
      by (metis prod_cases3)
    note shown = publish_shown [OF t(2) empty p]
    have "shown_evidence (receive_ready m ?s) = (ids, sn, l)" using True p by (simp add: receive_ready_def m t(1))
    with shown assms(2) ready_received rest show ?thesis
      by (auto simp: world_evidence_def evidence_shown_def split: prod.splits)
  qed
next
  case (owner_executes i x xs env wk r ow)
  have "evidence_of (ow_state ow) = evidence_of (ow_state (pw_owner w))"
    using evidence_owner [of env wk x "pw_owner w"] owner_executes by simp
  with owner_executes show ?thesis by (intro world_evidence_step [OF _ assms(2)]) (auto simp: executed_def split: option.splits)
next
  case (reply_received i r ms)
  have "shown_evidence (receive_reply i r (pw_store w)) = shown_evidence (pw_store w)" by (simp add: receive_reply_def shown_evidence_def)
  with reply_received show ?thesis by (intro world_evidence_step [OF _ assms(2)]) auto
next
  case (exits clean)
  have "shown_evidence (child_closed clean (pw_store w)) = shown_evidence (pw_store w)" by (simp add: child_closed_def Let_def)
  with exits show ?thesis by (intro world_evidence_step [OF _ assms(2)]) auto
qed (intro world_evidence_step [OF _ assms(2)];
    auto simp: settled_def sent_order_def shown_submit shown_resume shown_event shown_close shown_resume_close dest: in_set_takeD)+

lemma reachable_evidence: "reachable_world w \<Longrightarrow> world_evidence w"
proof (induction rule: reachable_world.induct)
  case (new n s st)
  then show ?case
    by (auto simp: new_store_def initial_world_def world_evidence_def evidence_shown_def shown_evidence_def split: if_splits)
next
  case (step w v)
  then show ?case using world_step_evidence world_okD(7) reachable_ok by blast
qed

section \<open>The queries answer like the owner\<close>

lemma map_of_list_ex:
  assumes "map_of m = map_of n" "distinct (map fst m)" "distinct (map fst n)"
  shows "list_ex P (map_values m) = list_ex P (map_values n)" "set (map_values m) = set (map_values n)"
proof -
  show s: "set (map_values m) = set (map_values n)"
    using map_values_mem [OF assms(2)] map_values_mem [OF assms(3)] assms(1) by (metis equalityI subsetI)
  have ex: "list_ex P xs = (\<exists>x\<in>set xs. P x)" for xs by (induction xs) auto
  show "list_ex P (map_values m) = list_ex P (map_values n)" unfolding ex s by (rule refl)
qed

lemma complete_store:
  assumes "assertComplete s = Inr ()"
  shows "so_failure s = None" "so_loaded s" "assertLoaded s = Inr ()"
  using assms by (auto simp: assertComplete_def assertLoaded_def check_def split: option.splits if_splits)

text \<open>A store and a state with the same maps and the same evidence.\<close>

definition mirrors :: "request_store \<Rightarrow> req_state \<Rightarrow> bool" where
  "mirrors s st \<longleftrightarrow> assertComplete s = Inr () \<and> shows_maps (st_requests st, st_deliveries st) s \<and> state_ok st
     \<and> set (so_unavailable s) = set (st_unavailable st) \<and> so_snapshot s = Some (shown_of st)"

lemma mirrorsD:
  assumes "mirrors s st"
  shows "assertComplete s = Inr ()" "assertLoaded s = Inr ()" "map_of (so_requests s) k = request_at st k"
    "map_of (so_deliveries s) k = map_option without_prompt (delivery_at st k)"
    "list_ex P (map_values (so_requests s)) = list_ex P (map_values (st_requests st))"
    "set (map_values (so_requests s)) = set (map_values (st_requests st))"
    "set (so_unavailable s) = set (st_unavailable st)" "so_snapshot s = Some (shown_of st)"
proof -
  show "assertComplete s = Inr ()" "set (so_unavailable s) = set (st_unavailable st)" "so_snapshot s = Some (shown_of st)"
    using assms by (simp_all add: mirrors_def)
  then show "assertLoaded s = Inr ()" using complete_store(3) by blast
  have maps: "map_of (so_requests s) = map_of (st_requests st)" "map_of (so_deliveries s) = map_option without_prompt \<circ> map_of (st_deliveries st)"
    "distinct (map fst (so_requests s))" "distinct (map fst (st_requests st))"
    using assms by (simp_all add: mirrors_def shows_maps_def state_ok_def)
  then show "map_of (so_requests s) k = request_at st k" "map_of (so_deliveries s) k = map_option without_prompt (delivery_at st k)"
    by simp_all
  show "list_ex P (map_values (so_requests s)) = list_ex P (map_values (st_requests st))"
    "set (map_values (so_requests s)) = set (map_values (st_requests st))"
    using map_of_list_ex [OF maps(1,3,4)] by blast+
qed

lemma idle_store_mirrors:
  assumes "reachable_world w" "assertComplete (pw_store w) = Inr ()" "awaited (pw_store w) = None"
  shows "mirrors (pw_store w) (ow_state (pw_owner w))"
proof -
  let ?s = "pw_store w" and ?ow = "pw_owner w"
  note parts = world_okD [OF reachable_ok [OF assms(1)]] and c = complete_store [OF assms(2)]
  have "so_revision ?s = ow_revision ?ow"
    using not_in_flight_idle [OF reachable_in_step [OF assms(1)] parts(2) c(1) assms(3) c(2)] by (simp add: nothing_under_way_def)
  moreover have "pw_history w ! ow_revision ?ow = (st_requests (ow_state ?ow), st_deliveries (ow_state ?ow))"
    using parts(5) unfolding owner_ok_def by (metis diff_Suc_1 last_conv_nth length_0_conv nat.distinct(1))
  moreover have "shows_maps (pw_history w ! so_revision ?s) ?s" "state_ok (ow_state ?ow)"
    using parts(5,7) c(2) unfolding view_ok_def owner_ok_def Let_def by blast+
  ultimately show ?thesis
    using assms(2) c(2) reachable_evidence [OF assms(1)]
    by (simp add: mirrors_def world_evidence_def evidence_shown_def shown_evidence_def)
qed

lemma mirrored_active:
  assumes "mirrors s st"
  shows "store_assertActive (env_canon env) s k = map_sum OwnerError id (assertEndpointDeliveryActive env st k)"
proof -
  note m = mirrorsD [OF assms]
  have link: "linked_in (so_requests s) x = linked_request st x" for x by (simp add: linked_in_def linked_request_def m(3))
  have prep: "dl_preparation (without_prompt d) = dl_preparation d" "dl_state (without_prompt d) = dl_state d" for d
    by (simp_all add: without_prompt_def)
  show ?thesis
  proof (cases "delivery_at st k")
    case None
    then show ?thesis by (simp add: store_assertActive_def assertEndpointDeliveryActive_def store_check_def m(1,4) missing_delivery_def)
  next
    case (Some d)
    show ?thesis
      unfolding store_assertActive_def assertEndpointDeliveryActive_def Let_def m(4) Some link
      by (auto simp: store_check_def m(1) prep missing_delivery_def inactive_def check_def
          split: option.split sum.split)
  qed
qed

lemma mirrored_session:
  assumes "mirrors s st"
  shows "store_hasManagedSession (env_canon env) s k ws None = Inr (hasManagedSession env st k ws)"
proof -
  note m = mirrorsD [OF assms]
  have "party_matches (env_canon env) i ws None p \<longleftrightarrow> pa_threadId p = i \<and> workspaceMatches env (pa_workspace p) ws" for i p
    by (auto simp: party_matches_def workspaceMatches_def)
  then show ?thesis by (simp add: store_hasManagedSession_def hasManagedSession_def m(1,5) Let_def)
qed

text \<open>C20: The store answers its queries like the owner. While the evidence is complete and no command is under
  way, the lookups of a request and of a delivery (without its prompt), the test for a reservation, the
  activity check, the destination of a reply, the test for a managed session and the open
  requests of a target all give what the owner's state gives, errors included.\<close>

theorem store_queries_agree:
  assumes "reachable_world w" "assertComplete (pw_store w) = Inr ()" "awaited (pw_store w) = None"
    and "s = pw_store w" "st = ow_state (pw_owner w)"
  shows "store_get s k = Inr (getRequest st k)
    \<and> store_getEndpointDelivery s k = Inr (map_option without_prompt (delivery_at st k))
    \<and> store_hasReservation s k = Inr (hasEndpointDeliveryReservation st k)
    \<and> store_assertActive (env_canon env) s k = map_sum OwnerError id (assertEndpointDeliveryActive env st k)
    \<and> store_resolveReply s k p = map_sum OwnerError id (resolveReplyDestination st k p)
    \<and> store_hasManagedSession (env_canon env) s k ws None = Inr (hasManagedSession env st k ws)
    \<and> map_sum id (\<lambda>(ids, complete). set ids) (unansweredTargetRequestSnapshot (env_canon env) s k ws f)
      = Inr (rq_id ` {r \<in> set (map_values (st_requests st)). rq_status r = AwaitingResponse \<and> cleanText (Some k) 4096 \<noteq> []
          \<and> party_matches (env_canon env) (cleanText (Some k) 4096) ws f (rq_target r)})"
proof -
  have mirror: "mirrors s st" using idle_store_mirrors [OF assms(1-3)] assms(4,5) by simp
  note m = mirrorsD [OF this]
  have "store_get s k = Inr (getRequest st k)"
    by (simp add: store_get_def present_or_complete_def getRequest_def m(1-3) split: option.split)
  moreover from this have "store_resolveReply s k p = map_sum OwnerError id (resolveReplyDestination st k p)"
    by (simp add: store_resolveReply_def resolveReplyDestination_def store_check_def getRequest_def)
  moreover have "store_getEndpointDelivery s k = Inr (map_option without_prompt (delivery_at st k))"
    by (simp add: store_getEndpointDelivery_def present_or_complete_def m(1,2,4) split: option.split)
  moreover have "store_hasReservation s k = Inr (hasEndpointDeliveryReservation st k)"
    unfolding store_hasReservation_def hasEndpointDeliveryReservation_def m(1,2,4,5,7) by simp
  moreover have "map_sum id (\<lambda>(ids, complete). set ids) (unansweredTargetRequestSnapshot (env_canon env) s k ws f)
      = Inr (rq_id ` {r \<in> set (map_values (st_requests st)). rq_status r = AwaitingResponse \<and> cleanText (Some k) 4096 \<noteq> []
          \<and> party_matches (env_canon env) (cleanText (Some k) 4096) ws f (rq_target r)})"
    using m(6) by (auto simp: unansweredTargetRequestSnapshot_def m(1) Let_def)
  ultimately show ?thesis using mirrored_active [OF mirror] mirrored_session [OF mirror] by blast
qed

lemma store_queries_agree_witness:
  "store_get (pw_store cancelled_world) ''ru'' = Inr (getRequest cancelled_state ''ru'')
    \<and> store_hasReservation (pw_store cancelled_world) ''du'' = Inr (hasEndpointDeliveryReservation cancelled_state ''du'')"
proof -
  have f: "assertComplete (pw_store cancelled_world) = Inr ()" "awaited (pw_store cancelled_world) = None"
    "cancelled_state = ow_state (pw_owner cancelled_world)"
    by (simp_all add: cancelled_world_def acknowledged_world_def replied_world_def settled_def asked_store_def fresh_store_def new_store_def
        finish_job_def drain_waiting_def awaited_def publishInitial_def readModel_def sample_cancel_runs Let_def assertComplete_def assertLoaded_def
        check_def apply_delta_def)
  from store_queries_agree [OF cancelled_reachable f(1,2) refl f(3)] show ?thesis by blast
qed

end
