(* ===== verification/Spec2Isabelle.thy ===== *)
theory Spec2Isabelle
  imports DispatchProps EndpointRecovery EndpointReceipts DurableOwners SendProps CapabilityIsolation MessageGrouping BoardProps StoreTransport StoreQueries
begin

text \<open>
  A verification of the core of RabiRoute, a manager that connects messengers, devices and people
  to Agents (the TypeScript sources under \<open>src/src\<close>).

  \<^bold>\<open>The program.\<close> Messages from the outside are collected into groups of fragments
  (\<open>messageGrouping.ts\<close>). A complete group is registered on a board of requirements, where a worker
  must review it and answer, decline, hand over or link it to a plan, and where sends, replies,
  knowledge callbacks and plan progress are recorded (\<open>messageProcessing/board.ts\<close>). Agents
  talk to one another by requests with required replies: a store keeps requests and bound
  deliveries (\<open>agentRequests/state.ts\<close>), and an endpoint protocol hands each delivery to the transport
  of its target, reconciles unknown outcomes and recovers prepared deliveries
  (\<open>agentRequests/endpointDelivery.ts\<close>). Every request of a client to send something is executed under an
  identifier with a receipt on disk, so that a retry replays the answer and does not send again
  (\<open>manager/durableDeliveryIdempotency.ts\<close>); the sends of Agents are normalised for their channel
  (\<open>agentSend.ts\<close>) and remembered for a while, so that a quoted message is not answered twice
  (\<open>manager/agentSendIdempotency.ts\<close>). The request state lives in a process of its own
  (\<open>agentRequests/persistenceWorker.ts\<close>); the manager holds a copy and sends it one command at a time
  (\<open>agentRequests/store.ts\<close>, \<open>persistenceTransport.ts\<close>). The plug-ins that provide all this are isolated and ordered by the
  graph of their capabilities (\<open>plugin-kernel/capabilityGraph.ts\<close>,
  \<open>capabilityGraphIsolation.ts\<close>).

  \<^bold>\<open>The theories.\<close>

  \<^item> \<open>Prelude\<close>: JavaScript strings, thrown errors as values of a sum, insertion-ordered maps as association
    lists, and the locales of the development: \<open>ordered_map\<close>, \<open>normaliser\<close>, \<open>keyed_identity\<close> and
    \<open>hand_over_budget\<close> (the permission to hand something over is a number that a hand-over uses up and
    only a proof that nothing was sent renews; it is interpreted on three different protocols). \<open>Json\<close>:
    JSON values, their \<open>JSON.stringify\<close> text and its injectivity.
  \<^item> \<open>Endpoint\<close>, \<open>Contracts\<close>, \<open>Delivery\<close>: endpoints, connections and their identities
    (\<open>endpoint.ts\<close>, \<open>codexTaskIdentity.ts\<close>); identifiers, execution options, no-frame proofs and reply errors
    (\<open>requestValidation.ts\<close>, \<open>executionOptions.ts\<close>, \<open>deliveryFailure.ts\<close>, \<open>replyError.ts\<close>); the records of
    deliveries, receipts and requests, and the functions on parties.
  \<^item> \<open>RequestState\<close>, \<open>RequestOps\<close>: the class \<open>AgentRequestState\<close>, its two maps, its file and every
    mutating operation, with the failed and the unknown write of the backend
    (\<open>state.ts\<close>, \<open>persistence.ts\<close>). \<open>RequestInv\<close>: well-formed states, the edges of the life
    cycles, and for each operation that it keeps the one and follows the other. \<open>RequestProps\<close>:
    permanence of finished records, roll-back, durability, fencing by cancellation, round trip of
    prepare and abort, idempotence of commit, retry delays.
  \<^item> \<open>EndpointDispatch\<close>: the asynchronous functions \<open>verifyThenDispatch\<close> and
    \<open>reconcileEndpointDelivery\<close> as tasks with one phase per \<open>await\<close>, and the process that holds the tasks,
    the store and the trace of hand-overs. \<open>DispatchProps\<close>: no prompt is sent twice without a
    no-frame report, every hand-over is in the file, the answers are honest. \<open>EndpointRecovery\<close>:
    the class \<open>EndpointDeliveryRecovery\<close>, its flights, slots, waiters and timer, and the count of its slots.
    \<open>EndpointReceipts\<close>: the transport's own ledger of attempts (\<open>endpointTransportReceipts.ts\<close>), whose calls read a file and
    write it later, with those of other processes in between. It never begins a second attempt without a recorded report that
    nothing was sent; one report permits one attempt where calls do not overlap, and overlapping calls of two
    processes can both use it, since nothing locks the file.
  \<^item> \<open>DurableReceipts\<close>: payloads and their digests, identifiers, the receipt files, their owners and
    leases, and the locked sections that reserve, claim, renew, complete or reconcile a receipt.
    \<open>DurableDelivery\<close>: the asynchronous execution of a delivery as a task, and the world of its hosts.
    \<open>DurableProps\<close>: a delivery is handed over at most once beyond the proofs on file, and all callers get the
    same answer. \<open>DurableOwners\<close>: two executions never run at once; which deliveries stay abandoned.
  \<^item> \<open>AgentSend\<close>: the requests of Agents to send something, their normalisation for every channel, and the
    payload that identifies them. \<open>AgentSendProps\<close>: an accepted request is complete and aimed at its target;
    equal digests mean equal sends. \<open>SendIdempotency\<close>: the memory of recent replies and of reviewed contents,
    their windows, clean-up timers and shared promises. \<open>SendProps\<close>: one answer to a quoted message, one
    send of equal contents.
  \<^item> \<open>DraftMap\<close>: the drafts of a transaction and the delta they report (\<open>state.ts\<close>). \<open>StoreTransport\<close>: frames,
    acknowledgements and stops of \<open>persistenceTransport.ts\<close>, which deliver the values that fit in order, once and
    unchanged, and reject the others. \<open>StoreOwner\<close>: the commands of the owner process, its revision and its fence
    (\<open>persistenceWorker.ts\<close>). \<open>StoreFacade\<close>: the class \<open>AgentRequestStore\<close>, its queue, its promises, its
    failure and its closing (\<open>store.ts\<close>). \<open>StoreWorld\<close>: both processes with the messages between them, as a step
    relation; the time-outs, the errors and the death of the child come at any moment. \<open>StoreInv\<close>: the invariant of this world. \<open>StoreProps\<close>: the store shows committed states,
    acknowledgements tell the truth, and so do rejections but for those an error event of the child causes, every call ends. \<open>StoreQueries\<close>: the
    synchronous queries of the store, which answer like the owner.
  \<^item> \<open>CapabilityGraph\<close>, \<open>CapabilityIsolation\<close>: planning (providers, waiting plug-ins, topological
    order, selection) and isolation of invalid plug-ins, with the termination of its loop.
  \<^item> \<open>MessageGrouping\<close>: the queue of message groups, its policies, readers, timers, back-off and file, the inputs that
    \<open>routing/messageGroupingForward.ts\<close> builds for it, and its lives over restarts.
  \<^item> \<open>BoardData\<close>, \<open>Board\<close>, \<open>BoardOps\<close>: the records of the board and their normalisers, the gates of
    an outcome, expiry and persistence, and all operations and queries of the store. \<open>BoardInv\<close>: the
    type of a board and the relation every operation follows. \<open>BoardProps\<close>: registration once per
    group, exact expiry, reviewed closing, confirmed sends, agreement of summary and board.

  \<^bold>\<open>How state and operations correspond.\<close> An object that the code mutates in place is the entry of its map,
  updated at its key. An operation takes the environment of the call (clock, fresh identifiers, outcome of
  the write) and the state, and returns its result or the thrown error with the state it leaves, also when
  the code has already changed the state before it throws. Definitions have the names of the code; helper
  definitions stand for the loops and closures inside a function. Asynchronous code is a function per
  resumption; any other step may come between two resumptions.

  \<^bold>\<open>Bounds and fuel.\<close> Loops are structural or have a proved measure. Two exceptions: the scan for
  attachment blocks takes as fuel the length of its text plus one, and each step consumes a character;
  the loop of the isolation is a partial function into options, and that it returns for every input
  is the theorem \<open>isolation_terminates\<close>. The depth-first searches of the isolation decrease the
  number of unvisited plug-ins.

  \<^bold>\<open>Parameters.\<close> SHA-256, \<open>Date.parse\<close>, \<open>toISOString\<close>, canonical paths, random identifiers, clocks, collation
  and the transports are arguments. What is assumed of them is stated where it is used: new UUIDs
  are not identifiers in use, digests of different texts differ, a digest is a text of 64 hexadecimal
  digits; the lock of a receipt file makes its section one step; a callback that has lost its authority
  does not regain it. The clock of the sends does not run backwards and timers do not fire early; their quotas are
  arguments. The serialisation of \<open>node:v8\<close> is an argument with its inverse, as is the size it gives a
  frame, of which nothing is assumed; a port keeps the order of its messages; identifiers of commands are
  fresh. The context scope of a forwarded message and its sender key are arguments. Characters are code units below 256.

  \<^bold>\<open>Not modelled.\<close> Loading of the persisted request and board files, with the quarantine of damaged
  entries; mutation audits and change listeners; the preparation of a delivery from an HTTP request, its
  prompt and input hashes; the variant of the request store for a backend in its own process, which only tests
  use; repair texts of contract errors. Of the repository: HTTP routes, worker
  pools, configuration files, adapters, Agent and endpoint plug-ins, knowledge, plan and history
  stores, clients, relay and build scripts. These are file, network or interface code around this core, and what
  they promise rests on the services they call rather than on their own logic.

  \<^bold>\<open>Findings.\<close> A receipt for a reply that is already recorded is acknowledged without being written
  (\<open>RequestProps\<close>); an array passes the check of the effort option (\<open>Contracts\<close>); a failed write before a
  delivery strands its message group until a restart (\<open>MessageGrouping\<close>); a rejected plan link leaves the
  outcome of a requirement in memory (\<open>BoardProps\<close>); an interrupted write of a transport receipt makes
  every later write of it throw (\<open>EndpointReceipts\<close>); the execution of a retried delivery loses the
  heartbeat of its lease, since the recursive call is returned and not awaited before the \<open>finally\<close> that
  stops the timer, and an owner that is alive keeps its receipt however old its lease is
  (\<open>DurableOwners\<close>); after a restart a repeated group reply gets a conflict instead of its recorded
  result, since the rebuilt memory has no fingerprints (\<open>SendProps\<close>); an \<open>error\<close> event of the owner process
  makes the store report a committed mutation as not started (\<open>StoreProps\<close>).
\<close>

end
